(* ===== verification/Prelude.thy ===== *)
theory Prelude
  imports Main "HOL-Library.AList" "HOL-Library.Word"
begin

text \<open>
  The shared part of the development: the result type in which a thrown error is a value,
  the iteration combinators the TypeScript loops become, and the lemmas on association lists
  with which a JavaScript \<open>Map\<close> is modelled.

  A JavaScript \<open>Map\<close> is an association list with distinct keys in insertion order:
  \<open>get\<close> is \<^const>\<open>map_of\<close>, \<open>set\<close> is \<^const>\<open>AList.update\<close> (which replaces in place or
  appends at the end, as \<open>Map.prototype.set\<close> does), \<open>delete\<close> is \<^const>\<open>AList.delete\<close> and
  \<open>size\<close> is \<^const>\<open>length\<close>.
\<close>

named_theorems res_simps \<open>unfolding of the error monad\<close>
named_theorems alist_simps \<open>lookup, key and size facts of association lists\<close>

section \<open>Results: a thrown error or a value\<close>

definition ebind :: "'e + 'a \<Rightarrow> ('a \<Rightarrow> 'e + 'b) \<Rightarrow> 'e + 'b" where
  "ebind m f = (case m of Inl e \<Rightarrow> Inl e | Inr x \<Rightarrow> f x)"

lemma ebind_simps [simp]:
  "ebind (Inl e) f = Inl e"
  "ebind (Inr x) f = f x"
  by (simp_all add: ebind_def)

lemma ebind_eq_Inr [res_simps]: "ebind m f = Inr y \<longleftrightarrow> (\<exists>x. m = Inr x \<and> f x = Inr y)"
  by (cases m) auto

lemma ebind_eq_Inl [res_simps]:
  "ebind m f = Inl e \<longleftrightarrow> m = Inl e \<or> (\<exists>x. m = Inr x \<and> f x = Inl e)"
  by (cases m) auto

lemma if_Inl_eq_Inr [res_simps]: "(if c then Inl e else m) = Inr y \<longleftrightarrow> \<not> c \<and> m = Inr y"
  by auto

lemma option_Inl_eq_Inr:
  "(case m of None \<Rightarrow> Inl e | Some x \<Rightarrow> f x) = Inr y \<longleftrightarrow> (\<exists>x. m = Some x \<and> f x = Inr y)"
  by (cases m) auto

lemma ebind_cong [fundef_cong]:
  "m = m' \<Longrightarrow> (\<And>x. m' = Inr x \<Longrightarrow> f x = g x) \<Longrightarrow> ebind m f = ebind m' g"
  by (cases m') auto

lemma ebind_assoc: "ebind (ebind m f) g = ebind m (\<lambda>x. ebind (f x) g)"
  by (cases m) auto

text \<open>A loop over a list whose body may throw: the first error ends it.\<close>

fun each_res :: "('a \<Rightarrow> 'e + unit) \<Rightarrow> 'a list \<Rightarrow> 'e + unit" where
  "each_res f [] = Inr ()"
| "each_res f (x # xs) = ebind (f x) (\<lambda>_. each_res f xs)"

lemma each_res_Inr [res_simps]: "each_res f xs = Inr u \<longleftrightarrow> (\<forall>x\<in>set xs. f x = Inr ())"
  by (induction xs) (auto simp: ebind_eq_Inr)

lemma each_res_Inl: "each_res f xs = Inl e \<Longrightarrow> \<exists>x\<in>set xs. f x = Inl e"
  by (induction xs) (auto simp: ebind_eq_Inl)

text \<open>A loop that carries an accumulator and may throw.\<close>

fun fold_res :: "('a \<Rightarrow> 's \<Rightarrow> 'e + 's) \<Rightarrow> 'a list \<Rightarrow> 's \<Rightarrow> 'e + 's" where
  "fold_res f [] s = Inr s"
| "fold_res f (x # xs) s = ebind (f x s) (fold_res f xs)"

lemma fold_res_append:
  "fold_res f (xs @ ys) s = ebind (fold_res f xs s) (fold_res f ys)"
proof (induction xs arbitrary: s)
  case (Cons x xs)
  then have "fold_res f (xs @ ys) = (\<lambda>s. ebind (fold_res f xs s) (fold_res f ys))"
    by (simp add: fun_eq_iff)
  then show ?case by (simp add: ebind_assoc)
qed simp

lemma fold_res_invariant:
  assumes "fold_res f xs s = Inr t" and "I s"
    and "\<And>x s t. x \<in> set xs \<Longrightarrow> I s \<Longrightarrow> f x s = Inr t \<Longrightarrow> I t"
  shows "I t"
  using assms by (induction xs arbitrary: s) (auto simp: ebind_eq_Inr)

text \<open>A search that stops at the first hit or error.\<close>

fun any_res :: "('a \<Rightarrow> 'e + bool) \<Rightarrow> 'a list \<Rightarrow> 'e + bool" where
  "any_res f [] = Inr False"
| "any_res f (x # xs) = ebind (f x) (\<lambda>hit. if hit then Inr True else any_res f xs)"

lemma any_res_False [res_simps]: "any_res f xs = Inr False \<longleftrightarrow> (\<forall>x\<in>set xs. f x = Inr False)"
  by (induction xs) (auto simp: ebind_eq_Inr)

lemma any_res_True: "any_res f xs = Inr True \<Longrightarrow> \<exists>x\<in>set xs. f x = Inr True"
  by (induction xs) (auto simp: ebind_eq_Inr split: if_splits)

lemma any_res_ok: "(\<And>x. x \<in> set xs \<Longrightarrow> \<exists>b. f x = Inr b) \<Longrightarrow> \<exists>b. any_res f xs = Inr b"
proof (induction xs)
  case (Cons x xs)
  from Cons.prems [of x] obtain b where "f x = Inr b" by auto
  with Cons show ?case by (cases b) auto
next
  case Nil
  show ?case by (rule exI [of _ False]) simp
qed

section \<open>JavaScript maps as association lists\<close>

abbreviation keys_of :: "('k \<times> 'v) list \<Rightarrow> 'k list" where
  "keys_of m \<equiv> map fst m"

definition wf_map :: "('k \<times> 'v) list \<Rightarrow> bool" where
  "wf_map m \<longleftrightarrow> distinct (keys_of m)"

lemma wf_map_Nil [simp, intro]: "wf_map []"
  by (simp add: wf_map_def)

lemma wf_map_update [simp, intro]: "wf_map m \<Longrightarrow> wf_map (AList.update k v m)"
  by (simp add: wf_map_def distinct_update)

lemma wf_map_delete [simp, intro]: "wf_map m \<Longrightarrow> wf_map (AList.delete k m)"
  by (simp add: wf_map_def distinct_delete)

lemma map_of_update [simp, alist_simps]: "map_of (AList.update k v m) = (map_of m)(k \<mapsto> v)"
  by (rule update_conv')

lemma map_of_delete [simp, alist_simps]: "map_of (AList.delete k m) = (map_of m)(k := None)"
  by (rule delete_conv')

lemma wf_map_in_set [alist_simps]: "wf_map m \<Longrightarrow> (k, v) \<in> set m \<longleftrightarrow> map_of m k = Some v"
  by (simp add: wf_map_def)

lemma map_of_in_set: "map_of m k = Some v \<Longrightarrow> (k, v) \<in> set m"
  by (rule map_of_SomeD)

lemma keys_of_update: "fst ` set (AList.update k v m) = insert k (fst ` set m)"
  by (metis dom_map_of_conv_image_fst map_of_update dom_fun_upd option.distinct(1))

lemma keys_of_delete: "fst ` set (AList.delete k m) = fst ` set m - {k}"
  by (metis dom_map_of_conv_image_fst map_of_delete dom_fun_upd)

text \<open>Sums over the entries, the form in which sizes are tracked.\<close>

definition msum :: "('k \<Rightarrow> 'v \<Rightarrow> int) \<Rightarrow> ('k \<times> 'v) list \<Rightarrow> int" where
  "msum f m = sum_list (map (\<lambda>(k, v). f k v) m)"

lemma msum_simps [simp]:
  "msum f [] = 0"
  "msum f ((k, v) # m) = f k v + msum f m"
  by (simp_all add: msum_def)

lemma AList_delete_absent: "k \<notin> set (keys_of m) \<Longrightarrow> AList.delete k m = m"
  by (induction m) auto

lemma msum_update:
  "wf_map m \<Longrightarrow> msum f (AList.update k v m)
     = msum f m + f k v - (case map_of m k of None \<Rightarrow> 0 | Some w \<Rightarrow> f k w)"
proof (induction m)
  case (Cons p m)
  obtain a b where p: "p = (a, b)" by (cases p)
  show ?case
    using Cons by (auto simp: p wf_map_def split: option.splits)
qed simp

lemma msum_delete:
  "wf_map m \<Longrightarrow> msum f (AList.delete k m)
     = msum f m - (case map_of m k of None \<Rightarrow> 0 | Some w \<Rightarrow> f k w)"
proof (induction m)
  case (Cons p m)
  obtain a b where p: "p = (a, b)" by (cases p)
  show ?case
  proof (cases "k = a")
    case True
    with Cons.prems show ?thesis
      by (simp add: p wf_map_def AList_delete_absent)
  next
    case False
    with Cons show ?thesis
      by (simp add: p wf_map_def split: option.splits)
  qed
qed simp

lemma msum_const: "msum (\<lambda>_ _. c) m = c * int (length m)"
  by (induction m) (auto simp: algebra_simps)

lemma msum_cong: "(\<And>k v. (k, v) \<in> set m \<Longrightarrow> f k v = g k v) \<Longrightarrow> msum f m = msum g m"
  unfolding msum_def by (intro arg_cong [where f = sum_list] map_cong) auto

lemma msum_nonneg: "(\<And>k v. (k, v) \<in> set m \<Longrightarrow> 0 \<le> f k v) \<Longrightarrow> 0 \<le> msum f m"
  unfolding msum_def by (rule sum_list_nonneg) auto

lemma length_update:
  "wf_map m \<Longrightarrow> length (AList.update k v m) = (if map_of m k = None then Suc (length m) else length m)"
  using msum_update [of m "\<lambda>_ _. 1" k v] by (auto simp: msum_const split: option.splits)

lemma length_delete:
  "wf_map m \<Longrightarrow> int (length (AList.delete k m)) = int (length m) - (if map_of m k = None then 0 else 1)"
  using msum_delete [of m "\<lambda>_ _. 1" k] by (auto simp: msum_const split: option.splits)

text \<open>Updating one entry of a map in place, as a mutation of the object stored under a key.\<close>

definition alter :: "'k \<Rightarrow> ('v \<Rightarrow> 'v) \<Rightarrow> ('k \<times> 'v) list \<Rightarrow> ('k \<times> 'v) list" where
  "alter k f m = map (\<lambda>(k', v). if k' = k then (k', f v) else (k', v)) m"

lemma keys_alter [simp, alist_simps]: "keys_of (alter k f m) = keys_of m"
  by (induction m) (auto simp: alter_def)

lemma length_alter [simp, alist_simps]: "length (alter k f m) = length m"
  by (simp add: alter_def)

lemma wf_map_alter [simp, intro]: "wf_map m \<Longrightarrow> wf_map (alter k f m)"
  by (simp add: wf_map_def)

lemma map_of_alter [simp, alist_simps]: "map_of (alter k f m) = (map_of m)(k := map_option f (map_of m k))"
  by (induction m) (auto simp: alter_def fun_eq_iff)

lemma msum_alter:
  "wf_map m \<Longrightarrow> msum g (alter k f m)
     = msum g m + (case map_of m k of None \<Rightarrow> 0 | Some v \<Rightarrow> g k (f v) - g k v)"
proof (induction m)
  case (Cons p m)
  obtain a b where p: "p = (a, b)" by (cases p)
  show ?case
  proof (cases "k = a")
    case True
    with Cons.prems have "alter k f m = m" and "map_of m k = None"
      by (auto simp: p wf_map_def alter_def map_of_eq_None_iff intro!: map_idI split: if_splits)
        force
    with True show ?thesis by (simp add: p alter_def)
  next
    case False
    with Cons show ?thesis
      by (auto simp: p wf_map_def alter_def split: option.splits)
  qed
qed (simp add: alter_def)

end
