(* ===== verification/Limits.thy ===== *)
theory Limits
  imports Prelude
begin

text \<open>
  \<open>packages/pgwasm/src/opfs/core/limits.ts\<close> and \<open>errors.ts\<close>: the hard limits of the store
  format, the checked integer operations, and the error classes. A \<open>bigint\<close> and an integral
  \<open>number\<close> are both \<^typ>\<open>int\<close>; an operation that throws returns the error class (and, for an
  \<open>FsError\<close>, its errno name) on the left. Messages are not modelled, nor are fractional,
  infinite or \<open>NaN\<close> numbers.
\<close>

named_theorems limit_defs \<open>the numeric limits\<close>

section \<open>Errors\<close>

datatype FsErrorName =
  EBADF | EEXIST | EINVAL | EIO | EISDIR | ELOOP | ENOENT | ENOTDIR | ENOTEMPTY | EXDEV

fun FS_ERRNO :: "FsErrorName \<Rightarrow> nat" where
  "FS_ERRNO EBADF = 8"
| "FS_ERRNO EEXIST = 20"
| "FS_ERRNO EINVAL = 28"
| "FS_ERRNO EIO = 29"
| "FS_ERRNO EISDIR = 31"
| "FS_ERRNO ELOOP = 32"
| "FS_ERRNO ENOENT = 44"
| "FS_ERRNO ENOTDIR = 54"
| "FS_ERRNO ENOTEMPTY = 55"
| "FS_ERRNO EXDEV = 75"

datatype store_error =
  FsError FsErrorName
| StoreLimitError
| CorruptStoreError
| StoreRecreationRequiredError
| ExtentSizeMismatchError int int
| TypeError
| RangeError
| StackOverflow
| PortWriteError
| UnexpectedStoreEntryError
| StoreOwnedError
| HostError
| StoreClosedError
| DurabilityModeMismatchError
| QuotaExceededError
| StoreFailedError store_error
| ArenaGrowthQuotaError store_error

type_synonym 'a res = "store_error + 'a"

section \<open>Limits\<close>

definition FORMAT_VERSION :: int where [limit_defs]: "FORMAT_VERSION = 2"
definition LIMITS_PROFILE_VERSION :: int where [limit_defs]: "LIMITS_PROFILE_VERSION = 1"
definition ARENA_HEADER_BYTES :: int where [limit_defs]: "ARENA_HEADER_BYTES = 8192"
definition MIN_EXTENT_BYTES :: int where [limit_defs]: "MIN_EXTENT_BYTES = 8192"
definition MAX_EXTENT_BYTES :: int where [limit_defs]: "MAX_EXTENT_BYTES = 16 * 1024 * 1024"
definition DEFAULT_EXTENT_BYTES :: int where [limit_defs]: "DEFAULT_EXTENT_BYTES = 64 * 1024"
definition MAX_COMPONENT_BYTES :: int where [limit_defs]: "MAX_COMPONENT_BYTES = 255"
definition MAX_PATH_BYTES :: int where [limit_defs]: "MAX_PATH_BYTES = 1024"
definition MAX_PATH_DEPTH :: int where [limit_defs]: "MAX_PATH_DEPTH = 32"
definition MAX_SYMLINK_HOPS :: int where [limit_defs]: "MAX_SYMLINK_HOPS = 32"
definition MAX_INODES :: int where [limit_defs]: "MAX_INODES = 65536"
definition MAX_EXTENTS_PER_INODE :: int where [limit_defs]: "MAX_EXTENTS_PER_INODE = 2 ^ 20"
definition MAX_TOTAL_EXTENTS :: int where [limit_defs]: "MAX_TOTAL_EXTENTS = 2 ^ 22"
definition MAX_METADATA_BASE_READER_BYTES :: int where
  [limit_defs]: "MAX_METADATA_BASE_READER_BYTES = 64 * 1024 * 1024"
definition MAX_METADATA_BASE_WRITER_BYTES :: int where
  [limit_defs]: "MAX_METADATA_BASE_WRITER_BYTES = 32 * 1024 * 1024"
definition MAX_FRAME_PAYLOAD_BYTES :: int where
  [limit_defs]: "MAX_FRAME_PAYLOAD_BYTES = 1024 * 1024"
definition MAX_ACTIVE_LOG_BYTES :: int where
  [limit_defs]: "MAX_ACTIVE_LOG_BYTES = 16 * 1024 * 1024"
definition SOFT_ACTIVE_LOG_BYTES :: int where
  [limit_defs]: "SOFT_ACTIVE_LOG_BYTES = 8 * 1024 * 1024"
definition MAX_ACTIVE_LOG_FRAMES :: int where [limit_defs]: "MAX_ACTIVE_LOG_FRAMES = 32768"
definition SOFT_ACTIVE_LOG_FRAMES :: int where [limit_defs]: "SOFT_ACTIVE_LOG_FRAMES = 16384"
definition MAX_U64 :: int where [limit_defs]: "MAX_U64 = 2 ^ 64 - 1"

text \<open>\<open>Number.MAX_SAFE_INTEGER\<close> and \<open>Number.isSafeInteger\<close> on an integral number.\<close>

definition MAX_SAFE_INTEGER :: int where [limit_defs]: "MAX_SAFE_INTEGER = 2 ^ 53 - 1"

definition isSafeInteger :: "int \<Rightarrow> bool" where
  "isSafeInteger n \<longleftrightarrow> - MAX_SAFE_INTEGER \<le> n \<and> n \<le> MAX_SAFE_INTEGER"

section \<open>Checked operations\<close>

definition validateExtentSize :: "int \<Rightarrow> int res" where
  "validateExtentSize value =
     (if \<not> isSafeInteger value \<or> value < MIN_EXTENT_BYTES \<or> value > MAX_EXTENT_BYTES
         \<or> value mod ARENA_HEADER_BYTES \<noteq> 0
      then Inl TypeError else Inr value)"

definition checkedU64 :: "int \<Rightarrow> int res" where
  "checkedU64 value = (if value < 0 \<or> value > MAX_U64 then Inl StoreLimitError else Inr value)"

definition checkedSafeNumber :: "int \<Rightarrow> int res" where
  "checkedSafeNumber value =
     ebind (checkedU64 value)
       (\<lambda>_. if value > MAX_SAFE_INTEGER then Inl StoreLimitError else Inr value)"

definition checkedAdd :: "int \<Rightarrow> int \<Rightarrow> int res" where
  "checkedAdd left right = checkedU64 (left + right)"

definition checkedMultiply :: "int \<Rightarrow> int \<Rightarrow> int res" where
  "checkedMultiply left right = checkedU64 (left * right)"

text \<open>What the checks establish: an accepted value is returned unchanged and in range.\<close>

definition u64 :: "int \<Rightarrow> bool" where
  "u64 v \<longleftrightarrow> 0 \<le> v \<and> v \<le> MAX_U64"

lemma checkedU64_Inr [res_simps]: "checkedU64 v = Inr w \<longleftrightarrow> w = v \<and> u64 v"
  by (auto simp: checkedU64_def u64_def)

lemma checkedU64_ok [simp]: "u64 v \<Longrightarrow> checkedU64 v = Inr v"
  by (simp add: checkedU64_Inr)

lemma checkedU64_Inl [res_simps]: "checkedU64 v = Inl e \<longleftrightarrow> e = StoreLimitError \<and> \<not> u64 v"
  by (auto simp: checkedU64_def u64_def)

lemma checkedAdd_Inr [res_simps]: "checkedAdd a b = Inr w \<longleftrightarrow> w = a + b \<and> u64 (a + b)"
  by (simp add: checkedAdd_def checkedU64_Inr)

lemma checkedSafeNumber_Inr [res_simps]:
  "checkedSafeNumber v = Inr w \<longleftrightarrow> w = v \<and> 0 \<le> v \<and> v \<le> MAX_SAFE_INTEGER"
  by (auto simp: checkedSafeNumber_def checkedU64_def limit_defs)

definition extent_size_ok :: "int \<Rightarrow> bool" where
  "extent_size_ok v \<longleftrightarrow> MIN_EXTENT_BYTES \<le> v \<and> v \<le> MAX_EXTENT_BYTES \<and> ARENA_HEADER_BYTES dvd v"

lemma validateExtentSize_Inr [res_simps]:
  "validateExtentSize v = Inr w \<longleftrightarrow> w = v \<and> extent_size_ok v"
  by (auto simp: validateExtentSize_def extent_size_ok_def isSafeInteger_def limit_defs
      dvd_eq_mod_eq_0)

lemma extent_size_pos: "extent_size_ok v \<Longrightarrow> 0 < v"
  by (simp add: extent_size_ok_def limit_defs)

end
