(* ===== verification/Checksum.thy ===== *)
theory Checksum
  imports Limits
begin

text \<open>
  \<open>packages/pgwasm/src/opfs/core/checksum.ts\<close>: CRC-32 with a 256-entry table and seven derived
  tables that consume eight bytes per iteration. A byte is an \<open>8 word\<close>, the running remainder a
  \<open>32 word\<close> (JavaScript's bitwise operators work on 32 bits). The specification is the
  bit-serial register: shift right, and fold in the reversed polynomial when a one falls out.
\<close>

unbundle bit_operations_syntax

type_synonym byte = "8 word"
type_synonym u32 = "32 word"

section \<open>The tables\<close>

text \<open>One iteration of the inner loop that fills \<open>CRC32_TABLE\<close>.\<close>

definition crcBit :: "u32 \<Rightarrow> u32" where
  "crcBit remainder =
     (if remainder AND 1 = 1 then 0xedb88320 XOR drop_bit 1 remainder else drop_bit 1 remainder)"

definition CRC32_TABLE :: "u32 list" where
  "CRC32_TABLE = map (\<lambda>v. (crcBit ^^ 8) (word_of_nat v)) [0..<256]"

primrec CRC32_SLICES :: "nat \<Rightarrow> u32 list" where
  "CRC32_SLICES 0 = CRC32_TABLE"
| "CRC32_SLICES (Suc n) =
     map (\<lambda>remainder. CRC32_TABLE ! unat (remainder AND 0xff) XOR drop_bit 8 remainder)
       (CRC32_SLICES n)"

section \<open>The running remainder\<close>

definition byteAt :: "byte list \<Rightarrow> nat \<Rightarrow> u32" where
  "byteAt bytes index = ucast (bytes ! index)"

function updateCrc32Tail :: "u32 \<Rightarrow> byte list \<Rightarrow> nat \<Rightarrow> nat \<Rightarrow> u32" where
  "updateCrc32Tail remainder bytes index stop =
     (if index < stop then
        updateCrc32Tail
          (CRC32_TABLE ! unat ((remainder XOR byteAt bytes index) AND 0xff) XOR drop_bit 8 remainder)
          bytes (index + 1) stop
      else remainder)"
  by pat_completeness auto
termination
  by (relation "measure (\<lambda>(r, bs, i, e). e - i)") auto

function updateCrc32 :: "u32 \<Rightarrow> byte list \<Rightarrow> nat \<Rightarrow> nat \<Rightarrow> u32" where
  "updateCrc32 remainder bytes index stop =
     (if index + 8 \<le> stop then
        let w = remainder XOR
              (byteAt bytes index OR push_bit 8 (byteAt bytes (index + 1))
               OR push_bit 16 (byteAt bytes (index + 2)) OR push_bit 24 (byteAt bytes (index + 3)))
        in updateCrc32
             (CRC32_SLICES 7 ! unat (w AND 0xff)
              XOR CRC32_SLICES 6 ! unat (drop_bit 8 w AND 0xff)
              XOR CRC32_SLICES 5 ! unat (drop_bit 16 w AND 0xff)
              XOR CRC32_SLICES 4 ! unat (drop_bit 24 w)
              XOR CRC32_SLICES 3 ! unat (byteAt bytes (index + 4))
              XOR CRC32_SLICES 2 ! unat (byteAt bytes (index + 5))
              XOR CRC32_SLICES 1 ! unat (byteAt bytes (index + 6))
              XOR CRC32_TABLE ! unat (byteAt bytes (index + 7)))
             bytes (index + 8) stop
      else updateCrc32Tail remainder bytes index stop)"
  by pat_completeness auto
termination
  by (relation "measure (\<lambda>(r, bs, i, e). e - i)") auto

function updateCrc32WithZeros :: "u32 \<Rightarrow> nat \<Rightarrow> u32" where
  "updateCrc32WithZeros remainder n =
     (if 8 \<le> n then
        updateCrc32WithZeros
          (CRC32_SLICES 7 ! unat (remainder AND 0xff)
           XOR CRC32_SLICES 6 ! unat (drop_bit 8 remainder AND 0xff)
           XOR CRC32_SLICES 5 ! unat (drop_bit 16 remainder AND 0xff)
           XOR CRC32_SLICES 4 ! unat (drop_bit 24 remainder))
          (n - 8)
      else if 0 < n then
        updateCrc32WithZeros (CRC32_TABLE ! unat (remainder AND 0xff) XOR drop_bit 8 remainder) (n - 1)
      else remainder)"
  by pat_completeness auto
termination
  by (relation "measure snd") auto

declare updateCrc32Tail.simps [simp del] updateCrc32.simps [simp del]
  updateCrc32WithZeros.simps [simp del]

definition crc32 :: "byte list \<Rightarrow> u32" where
  "crc32 bytes = updateCrc32 0xffffffff bytes 0 (length bytes) XOR 0xffffffff"

definition crc32WithZeroedRange :: "byte list \<Rightarrow> int \<Rightarrow> int \<Rightarrow> u32 res" where
  "crc32WithZeroedRange bytes offset len =
     (if \<not> isSafeInteger offset \<or> \<not> isSafeInteger len \<or> offset < 0 \<or> len < 0 then Inl TypeError
      else if offset + len > int (length bytes) then Inl RangeError
      else
        let r1 = updateCrc32 0xffffffff bytes 0 (nat offset);
            r2 = updateCrc32WithZeros r1 (nat len);
            r3 = updateCrc32 r2 bytes (nat (offset + len)) (length bytes)
        in Inr (r3 XOR 0xffffffff))"

section \<open>Specification: the bit-serial register\<close>

definition crcByte :: "byte \<Rightarrow> u32 \<Rightarrow> u32" where
  "crcByte b r = (crcBit ^^ 8) (r XOR ucast b)"

definition crcBytes :: "byte list \<Rightarrow> u32 \<Rightarrow> u32" where
  "crcBytes bs r = fold crcByte bs r"

definition crc32_spec :: "byte list \<Rightarrow> u32" where
  "crc32_spec bs = NOT (crcBytes bs (NOT 0))"

section \<open>The register is linear\<close>

lemma and_one_bit: "(x :: u32) AND 1 = 1 \<longleftrightarrow> bit x 0"
  by (simp add: and_one_eq bit_0 odd_iff_mod_2_eq_one)

lemma crcBit_xor: "crcBit (a XOR b) = crcBit a XOR crcBit b"
  unfolding crcBit_def and_one_bit
  by (auto simp: bit_xor_iff drop_bit_xor intro!: bit_eqI)

lemma crcBits_xor: "(crcBit ^^ n) (a XOR b) = (crcBit ^^ n) a XOR (crcBit ^^ n) b"
  by (induction n) (simp_all add: crcBit_xor)

lemma crcBits_shift:
  "(\<And>i. i < n \<Longrightarrow> \<not> bit x i) \<Longrightarrow> (crcBit ^^ n) x = drop_bit n x"
proof (induction n)
  case (Suc n)
  then have "(crcBit ^^ n) x = drop_bit n x" by simp
  moreover have "\<not> bit (drop_bit n x) 0"
    using Suc.prems [of n] by (simp add: bit_drop_bit_eq)
  ultimately have "crcBit ((crcBit ^^ n) x) = drop_bit 1 (drop_bit n x)"
    by (simp only: crcBit_def and_one_bit if_False)
  then show ?case by (simp add: drop_bit_drop_bit)
qed simp

lemma and_ff: "(x :: u32) AND 0xff = take_bit 8 x"
  by (simp add: take_bit_eq_mask mask_eq_exp_minus_1)

lemma low_byte_split: "(x :: u32) = (x AND 0xff) XOR push_bit 8 (drop_bit 8 x)"
  unfolding and_ff by (rule bit_eqI) (auto simp: bit_simps)

lemma crcBits_low_byte: "(crcBit ^^ 8) x = (crcBit ^^ 8) (x AND 0xff) XOR drop_bit 8 x"
proof -
  have "(crcBit ^^ 8) (push_bit 8 (drop_bit 8 x)) = drop_bit 8 (push_bit 8 (drop_bit 8 x))"
    by (rule crcBits_shift) (simp add: bit_simps)
  also have "\<dots> = drop_bit 8 x"
    by (rule bit_eqI) (auto simp: bit_simps dest: bit_imp_le_length)
  finally show ?thesis
    by (metis low_byte_split crcBits_xor)
qed

lemma unat_low_byte: "unat ((x :: u32) AND 0xff) < 256"
proof -
  have "unat (x AND 0xff) \<le> unat (0xff :: u32)"
    by (rule word_and_le1 [THEN word_le_nat_alt [THEN iffD1]])
  then show ?thesis by simp
qed

section \<open>What the table entries are\<close>

lemma table_nth: "n < 256 \<Longrightarrow> CRC32_TABLE ! n = (crcBit ^^ 8) (word_of_nat n)"
  by (simp add: CRC32_TABLE_def)

lemma table_low: "CRC32_TABLE ! unat ((x :: u32) AND 0xff) = (crcBit ^^ 8) (x AND 0xff)"
  by (simp add: table_nth unat_low_byte)

lemma length_table: "length CRC32_TABLE = 256"
  by (simp add: CRC32_TABLE_def)

lemma length_slices [simp]: "length (CRC32_SLICES k) = 256"
  by (induction k) (simp_all add: length_table)

lemma slices_nth: "n < 256 \<Longrightarrow> CRC32_SLICES k ! n = (crcBit ^^ (8 * Suc k)) (word_of_nat n)"
proof (induction k)
  case (Suc k)
  let ?x = "CRC32_SLICES k ! n"
  have "CRC32_SLICES (Suc k) ! n = (crcBit ^^ 8) ?x"
    using Suc.prems by (simp add: table_low flip: crcBits_low_byte)
  also have "\<dots> = (crcBit ^^ (8 + 8 * Suc k)) (word_of_nat n)"
    by (simp only: Suc.IH [OF Suc.prems] funpow_add o_apply)
  finally show ?case by (simp add: algebra_simps)
qed (simp add: table_nth)

lemma slices_unat: "unat (x :: u32) < 256 \<Longrightarrow> CRC32_SLICES k ! unat x = (crcBit ^^ (8 * Suc k)) x"
  by (simp add: slices_nth)

section \<open>Eight bytes at a time\<close>

lemma byteAt_lt: "unat (byteAt bytes i) < 256"
proof -
  have "unat (bytes ! i) < 2 ^ LENGTH(8)" by (rule unsigned_less)
  then show ?thesis by (simp add: byteAt_def unsigned_ucast_eq take_bit_nat_eq_self)
qed

lemma crcByte_table:
  "CRC32_TABLE ! unat ((r XOR byteAt bytes i) AND 0xff) XOR drop_bit 8 r = crcByte (bytes ! i) r"
proof -
  have "drop_bit 8 (r XOR ucast (bytes ! i)) = drop_bit 8 r"
    by (rule bit_eqI) (auto simp: bit_simps dest: bit_imp_le_length)
  then show ?thesis
    using crcBits_low_byte [of "r XOR ucast (bytes ! i)"]
    by (simp only: crcByte_def table_low byteAt_def)
qed

lemma crcByte_zero: "CRC32_TABLE ! unat (r AND 0xff) XOR drop_bit 8 r = crcByte 0 r"
  using crcBits_low_byte [of r] by (simp only: crcByte_def table_low unsigned_0 xor.right_neutral)

lemma crcBytes_append: "crcBytes (xs @ ys) r = crcBytes ys (crcBytes xs r)"
  by (simp add: crcBytes_def)

lemma crcBytes_simps [simp]:
  "crcBytes [] r = r"
  "crcBytes (b # bs) r = crcBytes bs (crcByte b r)"
  by (simp_all add: crcBytes_def)

lemma low_byte_no_high_bit: "8 \<le> i \<Longrightarrow> \<not> bit ((x :: u32) AND 0xff) i"
  by (simp add: and_ff bit_simps)

lemma byteAt_no_high_bit: "8 \<le> i \<Longrightarrow> \<not> bit (byteAt bytes k) i"
  by (auto simp: byteAt_def bit_simps dest: bit_imp_le_length)

text \<open>A byte in position \<open>k\<close> of the word has passed through \<open>8 * k\<close> fewer shifts.\<close>

lemma crcBits_push:
  assumes "\<And>i. 8 \<le> i \<Longrightarrow> \<not> bit y i" and "k \<le> 24"
  shows "(crcBit ^^ (n + k)) (push_bit k y) = (crcBit ^^ n) (y :: u32)"
proof -
  have "(crcBit ^^ k) (push_bit k y) = drop_bit k (push_bit k y)"
    by (rule crcBits_shift) (simp add: bit_simps)
  also have "\<dots> = y"
  proof (rule bit_eqI)
    fix i assume "possible_bit TYPE(u32) i"
    then show "bit (drop_bit k (push_bit k y)) i = bit y i"
      using assms(1) [of i] assms(2) by (cases "i < 8") (auto simp: bit_simps)
  qed
  finally show ?thesis by (simp add: funpow_add)
qed

lemma word_bytes:
  "(w :: u32) = (w AND 0xff) XOR push_bit 8 (drop_bit 8 w AND 0xff)
     XOR push_bit 16 (drop_bit 16 w AND 0xff) XOR push_bit 24 (drop_bit 24 w)"
  unfolding and_ff
proof (rule bit_eqI)
  fix i assume "possible_bit TYPE(u32) i"
  then show "bit w i = bit (take_bit 8 w XOR push_bit 8 (take_bit 8 (drop_bit 8 w))
     XOR push_bit 16 (take_bit 8 (drop_bit 16 w)) XOR push_bit 24 (drop_bit 24 w)) i"
    by (cases "i < 8"; cases "i < 16"; cases "i < 24")
      (auto simp: bit_xor_iff bit_take_bit_iff bit_push_bit_iff bit_drop_bit_eq)
qed

lemma top_byte_no_high_bit: "8 \<le> i \<Longrightarrow> \<not> bit (drop_bit 24 (w :: u32)) i"
  by (auto simp: bit_simps dest: bit_imp_le_length)

lemma top_byte_lt: "unat (drop_bit 24 (w :: u32)) < 256"
proof -
  have "drop_bit 24 w = drop_bit 24 w AND 0xff"
    unfolding and_ff
  proof (rule bit_eqI)
    fix i
    show "bit (drop_bit 24 w) i = bit (take_bit 8 (drop_bit 24 w)) i"
      using top_byte_no_high_bit [of i w] by (cases "8 \<le> i") (auto simp: bit_take_bit_iff)
  qed
  then show ?thesis using unat_low_byte [of "drop_bit 24 w"] by simp
qed

lemma four_slices:
  "CRC32_SLICES 7 ! unat (w AND 0xff)
     XOR CRC32_SLICES 6 ! unat (drop_bit 8 w AND 0xff)
     XOR CRC32_SLICES 5 ! unat (drop_bit 16 w AND 0xff)
     XOR CRC32_SLICES 4 ! unat (drop_bit 24 w) = (crcBit ^^ 64) w"
proof -
  note push = crcBits_push [OF low_byte_no_high_bit]
  have "(crcBit ^^ 64) w = (crcBit ^^ 64) (w AND 0xff)
      XOR (crcBit ^^ (56 + 8)) (push_bit 8 (drop_bit 8 w AND 0xff))
      XOR (crcBit ^^ (48 + 16)) (push_bit 16 (drop_bit 16 w AND 0xff))
      XOR (crcBit ^^ (40 + 24)) (push_bit 24 (drop_bit 24 w))"
    by (subst (1) word_bytes) (simp only: crcBits_xor, simp)
  also have "\<dots> = (crcBit ^^ 64) (w AND 0xff) XOR (crcBit ^^ 56) (drop_bit 8 w AND 0xff)
      XOR (crcBit ^^ 48) (drop_bit 16 w AND 0xff) XOR (crcBit ^^ 40) (drop_bit 24 w)"
    by (simp only: push crcBits_push [OF top_byte_no_high_bit] order_refl)
  finally show ?thesis
    by (simp add: slices_unat unat_low_byte top_byte_lt)
qed

lemma four_slices_xor:
  "CRC32_SLICES 7 ! unat (w AND 0xff)
     XOR CRC32_SLICES 6 ! unat (drop_bit 8 w AND 0xff)
     XOR CRC32_SLICES 5 ! unat (drop_bit 16 w AND 0xff)
     XOR CRC32_SLICES 4 ! unat (drop_bit 24 w) XOR z = (crcBit ^^ 64) w XOR z"
  by (simp only: four_slices [symmetric] xor.assoc)

text \<open>Feeding one more byte to a register that is \<open>8 * k\<close> shifts of \<open>x\<close>.\<close>

lemma crcByte_funpow:
  assumes "k \<le> 24"
  shows "crcByte (bytes ! i) ((crcBit ^^ k) x) = (crcBit ^^ (8 + k)) (x XOR push_bit k (byteAt bytes i))"
proof -
  have "crcByte (bytes ! i) ((crcBit ^^ k) x) = (crcBit ^^ 8) ((crcBit ^^ k) x) XOR (crcBit ^^ 8) (byteAt bytes i)"
    by (simp only: crcByte_def crcBits_xor byteAt_def)
  also have "(crcBit ^^ 8) (byteAt bytes i) = (crcBit ^^ (8 + k)) (push_bit k (byteAt bytes i))"
    by (rule crcBits_push [OF byteAt_no_high_bit assms, symmetric])
  also have "(crcBit ^^ 8) ((crcBit ^^ k) x) = (crcBit ^^ (8 + k)) x"
    by (simp only: funpow_add o_apply)
  finally show ?thesis by (simp only: crcBits_xor)
qed

lemma crcByte_split: "crcByte (bytes ! i) x = (crcBit ^^ 8) x XOR (crcBit ^^ 8) (byteAt bytes i)"
  by (simp only: crcByte_def crcBits_xor byteAt_def)

lemma nth_drop_Cons: "i < length bs \<Longrightarrow> drop i bs = bs ! i # drop (Suc i) bs"
  by (rule Cons_nth_drop_Suc [symmetric])

lemma slice_step:
  assumes "i < stop" and "stop \<le> length bs"
  shows "crcBytes (take (stop - i) (drop i bs)) r
           = crcBytes (take (stop - Suc i) (drop (Suc i) bs)) (crcByte (bs ! i) r)"
proof -
  have "take (stop - i) (drop i bs) = bs ! i # take (stop - Suc i) (drop (Suc i) bs)"
    using assms by (simp add: nth_drop_Cons take_Cons' flip: diff_Suc_1)
  then show ?thesis by simp
qed

lemma updateCrc32Tail_spec:
  "stop \<le> length bs \<Longrightarrow> updateCrc32Tail r bs i stop = crcBytes (take (stop - i) (drop i bs)) r"
proof (induction r bs i stop rule: updateCrc32Tail.induct)
  case (1 r bs i stop)
  then show ?case
    by (subst updateCrc32Tail.simps) (simp add: crcByte_table slice_step)
qed

lemma eight_bytes:
  "(crcBit ^^ 64) (r XOR (byteAt bs i OR push_bit 8 (byteAt bs (i + 1))
        OR push_bit 16 (byteAt bs (i + 2)) OR push_bit 24 (byteAt bs (i + 3))))
     XOR (crcBit ^^ 32) (byteAt bs (i + 4)) XOR (crcBit ^^ 24) (byteAt bs (i + 5))
     XOR (crcBit ^^ 16) (byteAt bs (i + 6)) XOR (crcBit ^^ 8) (byteAt bs (i + 7))
   = crcByte (bs ! (i + 7)) (crcByte (bs ! (i + 6)) (crcByte (bs ! (i + 5)) (crcByte (bs ! (i + 4))
      (crcByte (bs ! (i + 3)) (crcByte (bs ! (i + 2)) (crcByte (bs ! (i + 1)) (crcByte (bs ! i) r)))))))"
  (is "?lhs = ?rhs")
proof -
  let ?w = "r XOR byteAt bs i XOR push_bit 8 (byteAt bs (i + 1))
        XOR push_bit 16 (byteAt bs (i + 2)) XOR push_bit 24 (byteAt bs (i + 3))"
  have or_xor: "r XOR (byteAt bs i OR push_bit 8 (byteAt bs (i + 1))
        OR push_bit 16 (byteAt bs (i + 2)) OR push_bit 24 (byteAt bs (i + 3))) = ?w"
  proof (rule bit_eqI)
    fix n
    show "bit (r XOR (byteAt bs i OR push_bit 8 (byteAt bs (i + 1))
        OR push_bit 16 (byteAt bs (i + 2)) OR push_bit 24 (byteAt bs (i + 3)))) n = bit ?w n"
      using byteAt_no_high_bit [of n bs i] byteAt_no_high_bit [of "n - 8" bs "i + 1"]
        byteAt_no_high_bit [of "n - 16" bs "i + 2"]
      by (cases "n < 8"; cases "n < 16"; cases "n < 24")
        (auto simp: bit_xor_iff bit_or_iff bit_push_bit_iff)
  qed
  have 1: "crcByte (bs ! i) r = (crcBit ^^ 8) (r XOR byteAt bs i)"
    by (simp only: crcByte_def byteAt_def)
  have four: "crcByte (bs ! (i + 3)) (crcByte (bs ! (i + 2)) (crcByte (bs ! (i + 1)) (crcByte (bs ! i) r)))
      = (crcBit ^^ 32) ?w"
    unfolding 1 using crcByte_funpow [of 8 bs "i + 1"] crcByte_funpow [of 16 bs "i + 2"]
      crcByte_funpow [of 24 bs "i + 3"]
    by (simp add: xor.assoc)
  have collapse: "(crcBit ^^ 8) ((crcBit ^^ n) x) = (crcBit ^^ (8 + n)) x" for n x
    by (simp only: funpow_add o_apply)
  show ?thesis
    unfolding four or_xor crcByte_split [of bs "i + 4"] crcByte_split [of bs "i + 5"]
      crcByte_split [of bs "i + 6"] crcByte_split [of bs "i + 7"] crcBits_xor collapse
    by (simp add: xor.assoc)
qed

lemma slices_byteAt:
  "CRC32_SLICES 1 ! unat (byteAt bs j) = (crcBit ^^ 16) (byteAt bs j)"
  "CRC32_SLICES 2 ! unat (byteAt bs j) = (crcBit ^^ 24) (byteAt bs j)"
  "CRC32_SLICES 3 ! unat (byteAt bs j) = (crcBit ^^ 32) (byteAt bs j)"
  "CRC32_TABLE ! unat (byteAt bs j) = (crcBit ^^ 8) (byteAt bs j)"
  using slices_unat [OF byteAt_lt, of 1] slices_unat [OF byteAt_lt, of 2]
    slices_unat [OF byteAt_lt, of 3] slices_unat [OF byteAt_lt, of 0]
  by (simp_all only: mult.commute [of 8]) simp_all

lemma updateCrc32_block:
  assumes "i + 8 \<le> stop"
  shows "updateCrc32 r bs i stop = updateCrc32
    (crcByte (bs ! (i + 7)) (crcByte (bs ! (i + 6)) (crcByte (bs ! (i + 5)) (crcByte (bs ! (i + 4))
      (crcByte (bs ! (i + 3)) (crcByte (bs ! (i + 2)) (crcByte (bs ! (i + 1)) (crcByte (bs ! i) r))))))))
    bs (i + 8) stop"
  by (subst updateCrc32.simps)
    (simp only: assms if_True Let_def four_slices_xor slices_byteAt eight_bytes)

lemma updateCrc32_spec:
  assumes "stop \<le> length bs"
  shows "updateCrc32 r bs i stop = crcBytes (take (stop - i) (drop i bs)) r"
proof (induction "stop - i" arbitrary: r i rule: less_induct)
  case less
  show ?case
  proof (cases "i + 8 \<le> stop")
    case False
    with assms show ?thesis
      by (subst updateCrc32.simps) (simp add: updateCrc32Tail_spec)
  next
    case True
    then have "stop - (i + 8) < stop - i" by simp
    note IH = less [OF this]
    from True assms have "crcBytes (take (stop - i) (drop i bs)) r
       = crcBytes (take (stop - (i + 8)) (drop (i + 8) bs))
          (crcByte (bs ! (i + 7)) (crcByte (bs ! (i + 6)) (crcByte (bs ! (i + 5)) (crcByte (bs ! (i + 4))
          (crcByte (bs ! (i + 3)) (crcByte (bs ! (i + 2)) (crcByte (bs ! (i + 1)) (crcByte (bs ! i) r))))))))"
      by (simp add: slice_step eval_nat_numeral)
    then show ?thesis
      by (simp only: updateCrc32_block [OF True] IH)
  qed
qed

lemma updateCrc32WithZeros_block:
  assumes "8 \<le> n"
  shows "updateCrc32WithZeros r n = updateCrc32WithZeros (crcBytes (replicate 8 0) r) (n - 8)"
proof -
  have "(crcBit ^^ 64) r = crcBytes (replicate 8 0) r"
    by (simp add: crcByte_def eval_nat_numeral)
  then show ?thesis
    by (subst updateCrc32WithZeros.simps) (simp only: assms if_True four_slices)
qed

lemma updateCrc32WithZeros_spec: "updateCrc32WithZeros r n = crcBytes (replicate n 0) r"
proof (induction n arbitrary: r rule: less_induct)
  case (less n)
  show ?case
  proof (cases "8 \<le> n")
    case True
    then have "replicate n (0 :: byte) = replicate 8 0 @ replicate (n - 8) 0"
      by (simp flip: replicate_add)
    with True less [of "n - 8"] show ?thesis
      by (simp only: updateCrc32WithZeros_block crcBytes_append)
  next
    case False
    show ?thesis
    proof (cases n)
      case 0
      then show ?thesis by (subst updateCrc32WithZeros.simps) simp
    next
      case (Suc m)
      with False less [of m] show ?thesis
        by (subst updateCrc32WithZeros.simps) (simp add: crcByte_zero)
    qed
  qed
qed

section \<open>The checksum functions compute CRC-32\<close>

lemma xor_ones: "(r :: u32) XOR 0xffffffff = NOT r"
proof -
  have "(0xffffffff :: u32) = NOT 0" by simp
  then show ?thesis by (simp only:) (rule bit_eqI, auto simp: bit_simps)
qed

lemma crc32_register: "crc32 bs = crcBytes bs 0xffffffff XOR 0xffffffff"
  by (simp add: crc32_def updateCrc32_spec)

lemma crc32_correct: "crc32 bs = crc32_spec bs"
proof -
  have ones: "(NOT 0 :: u32) = 0xffffffff" by simp
  show ?thesis unfolding crc32_register crc32_spec_def ones xor_ones ..
qed

definition zeroRange :: "byte list \<Rightarrow> nat \<Rightarrow> nat \<Rightarrow> byte list" where
  "zeroRange bs offset len = take offset bs @ replicate len 0 @ drop (offset + len) bs"

lemma crc32WithZeroedRange_correct:
  assumes "isSafeInteger offset" "isSafeInteger len" "0 \<le> offset" "0 \<le> len"
    and "offset + len \<le> int (length bs)"
  shows "crc32WithZeroedRange bs offset len = Inr (crc32 (zeroRange bs (nat offset) (nat len)))"
proof -
  have le: "nat offset + nat len \<le> length bs" and nat: "nat (offset + len) = nat offset + nat len"
    using assms by (auto simp: nat_add_distrib)
  have "crcBytes (zeroRange bs (nat offset) (nat len)) r
      = crcBytes (drop (nat offset + nat len) bs)
          (crcBytes (replicate (nat len) 0) (crcBytes (take (nat offset) bs) r))" for r
    by (simp only: zeroRange_def crcBytes_append)
  then show ?thesis
    using assms le
    by (simp add: crc32WithZeroedRange_def crc32_register updateCrc32_spec nat
        updateCrc32WithZeros_spec)
qed

section \<open>Every corruption of a single byte is detected\<close>

lemma crcBit_zero: "crcBit x = 0 \<Longrightarrow> x = 0"
proof -
  assume zero: "crcBit x = 0"
  show "x = 0"
  proof (cases "bit x 0")
    case True
    then have "bit (crcBit x) 31"
      unfolding crcBit_def and_one_bit
      by (auto simp: bit_xor_iff bit_drop_bit_eq dest: bit_imp_le_length)
    with zero show ?thesis by simp
  next
    case False
    with zero have "drop_bit 1 x = 0" by (simp only: crcBit_def and_one_bit if_False)
    then have "bit x (Suc n) = False" for n
      using bit_drop_bit_eq [of 1 x] by (simp add: fun_eq_iff)
    with False have "bit x n = False" for n by (cases n) auto
    then show ?thesis by (intro bit_eqI) simp
  qed
qed

lemma xor_zero_eq: "(a :: u32) XOR b = 0 \<Longrightarrow> a = b"
proof -
  assume "a XOR b = 0"
  then have "(a XOR b) XOR b = b" by (simp only: xor.left_neutral)
  then show "a = b" by (simp add: xor.assoc)
qed

lemma xor_cancel: "(r :: u32) XOR a = r XOR b \<Longrightarrow> a = b"
proof -
  assume "r XOR a = r XOR b"
  then have "r XOR (r XOR a) = r XOR (r XOR b)" by (simp only:)
  then show "a = b" by (simp flip: xor.assoc)
qed

lemma crcBits_inj: "(crcBit ^^ n) a = (crcBit ^^ n) b \<Longrightarrow> a = b"
proof (induction n)
  case (Suc n)
  then have "crcBit ((crcBit ^^ n) a XOR (crcBit ^^ n) b) = 0"
    by (simp add: crcBit_xor)
  then have "(crcBit ^^ n) a XOR (crcBit ^^ n) b = 0" by (rule crcBit_zero)
  then have "(crcBit ^^ n) a = (crcBit ^^ n) b" by (rule xor_zero_eq)
  then show ?case by (rule Suc.IH)
qed simp

lemma crcByte_inj: "crcByte b r = crcByte b r' \<Longrightarrow> r = r'"
  unfolding crcByte_def by (drule crcBits_inj) (simp only: xor.commute [of _ "ucast b"] xor_cancel)

lemma crcBytes_inj: "crcBytes bs r = crcBytes bs r' \<Longrightarrow> r = r'"
  by (induction bs arbitrary: r r') (auto dest: crcByte_inj)

lemma crcByte_byte_inj: "crcByte a r = crcByte b r \<Longrightarrow> a = b"
proof -
  assume "crcByte a r = crcByte b r"
  then have "r XOR ucast a = r XOR (ucast b :: u32)"
    unfolding crcByte_def by (rule crcBits_inj)
  then have "(ucast a :: u32) = ucast b" by (rule xor_cancel)
  then have "unat (ucast a :: u32) = unat (ucast b :: u32)" by simp
  moreover have "unat a < 2 ^ LENGTH(8)" and "unat b < 2 ^ LENGTH(8)" by (rule unsigned_less)+
  ultimately have "unat a = unat b" by (simp add: unsigned_ucast_eq take_bit_nat_eq_self)
  then show "a = b" by (rule unsigned_word_eqI)
qed

lemma crc32_byte_change:
  assumes "a \<noteq> b"
  shows "crc32 (xs @ [a] @ ys) \<noteq> crc32 (xs @ [b] @ ys)"
proof
  assume "crc32 (xs @ [a] @ ys) = crc32 (xs @ [b] @ ys)"
  then have "crcBytes ys (crcByte a (crcBytes xs (NOT 0))) = crcBytes ys (crcByte b (crcBytes xs (NOT 0)))"
    by (simp add: crc32_correct crc32_spec_def crcBytes_append)
  then have "a = b" by (auto dest!: crcBytes_inj crcByte_byte_inj)
  with assms show False by simp
qed

end
