(* ===== verification/Path.thy ===== *)
theory Path
  imports Checksum "HOL-Library.Sublist"
begin

text \<open>
  \<open>packages/pgwasm/src/opfs/core/path.ts\<close>: path grammar and limits. A JavaScript string is the
  list of its UTF-16 code units, so that \<open>length\<close>, \<open>charCodeAt\<close> and surrogate pairs are the
  source's.
\<close>

type_synonym code_unit = "16 word"
type_synonym js_string = "code_unit list"

abbreviation slash :: code_unit where "slash \<equiv> 0x2f"
abbreviation dot :: code_unit where "dot \<equiv> 0x2e"

section \<open>UTF-8 length\<close>

fun utf8Length :: "js_string \<Rightarrow> int res" where
  "utf8Length [] = Inr 0"
| "utf8Length (codeUnit # rest) =
     (if codeUnit \<le> 0x7f then ebind (utf8Length rest) (\<lambda>bytes. Inr (bytes + 1))
      else if codeUnit \<le> 0x7ff then ebind (utf8Length rest) (\<lambda>bytes. Inr (bytes + 2))
      else if codeUnit \<ge> 0xd800 \<and> codeUnit \<le> 0xdbff then
        (case rest of
           [] \<Rightarrow> Inl (FsError EINVAL)
         | next # rest' \<Rightarrow>
             if next < 0xdc00 \<or> next > 0xdfff then Inl (FsError EINVAL)
             else ebind (utf8Length rest') (\<lambda>bytes. Inr (bytes + 4)))
      else if codeUnit \<ge> 0xdc00 \<and> codeUnit \<le> 0xdfff then Inl (FsError EINVAL)
      else ebind (utf8Length rest) (\<lambda>bytes. Inr (bytes + 3)))"

definition encodedUtf8Length :: "js_string \<Rightarrow> int res" where
  "encodedUtf8Length value = utf8Length value"

section \<open>Components, targets and whole paths\<close>

definition validatePathComponent :: "js_string \<Rightarrow> int res" where
  "validatePathComponent component =
     (if component = [] \<or> component = [dot] \<or> component = [dot, dot] then Inl (FsError EINVAL)
      else if slash \<in> set component \<or> 0 \<in> set component then Inl (FsError EINVAL)
      else ebind (utf8Length component)
             (\<lambda>bytes. if bytes > MAX_COMPONENT_BYTES then Inl (FsError EINVAL) else Inr bytes))"

text \<open>\<open>String.prototype.split\<close> on one code unit, \<open>join\<close>, and \<open>includes("//")\<close>.\<close>

fun splitOn :: "'a \<Rightarrow> 'a list \<Rightarrow> 'a list list" where
  "splitOn s [] = [[]]"
| "splitOn s (c # cs) =
     (if c = s then [] # splitOn s cs
      else (case splitOn s cs of [] \<Rightarrow> [[c]] | w # ws \<Rightarrow> (c # w) # ws))"

fun joinWith :: "'a \<Rightarrow> 'a list list \<Rightarrow> 'a list" where
  "joinWith s [] = []"
| "joinWith s [w] = w"
| "joinWith s (w # ws) = w @ s # joinWith s ws"

fun hasDoubleSlash :: "js_string \<Rightarrow> bool" where
  "hasDoubleSlash (a # b # rest) = ((a = slash \<and> b = slash) \<or> hasDoubleSlash (b # rest))"
| "hasDoubleSlash _ = False"

definition parsePath :: "js_string \<Rightarrow> js_string list res" where
  "parsePath path =
     (if path = [slash] then Inr []
      else if path = [] \<or> hd path \<noteq> slash \<or> last path = slash \<or> hasDoubleSlash path
        then Inl (FsError EINVAL)
      else ebind (utf8Length path) (\<lambda>bytes.
        if bytes > MAX_PATH_BYTES then Inl (FsError EINVAL)
        else
          let components = splitOn slash (tl path) in
          if int (length components) > MAX_PATH_DEPTH then Inl (FsError EINVAL)
          else ebind (each_res (\<lambda>c. ebind (validatePathComponent c) (\<lambda>_. Inr ())) components)
            (\<lambda>_. Inr components)))"

definition validateSymlinkTarget :: "js_string \<Rightarrow> int res" where
  "validateSymlinkTarget target =
     ebind (utf8Length target) (\<lambda>bytes.
       if bytes = 0 \<or> bytes > MAX_PATH_BYTES then Inl (FsError EINVAL)
       else ebind (parsePath target) (\<lambda>_. Inr bytes))"

text \<open>\<open>joinPath\<close> of \<open>state-machine.ts\<close>.\<close>

definition joinPath :: "js_string \<Rightarrow> js_string list \<Rightarrow> js_string" where
  "joinPath base rest =
     (if rest = [] then base
      else if base = [slash] then slash # joinWith slash rest
      else base @ slash # joinWith slash rest)"

section \<open>Byte counts of well-formed strings\<close>

text \<open>The three kinds of code unit, and the equation each gives.\<close>

definition highSurrogate :: "code_unit \<Rightarrow> bool" where
  "highSurrogate u \<longleftrightarrow> u \<ge> 0xd800 \<and> u \<le> 0xdbff"

definition lowSurrogate :: "code_unit \<Rightarrow> bool" where
  "lowSurrogate u \<longleftrightarrow> u \<ge> 0xdc00 \<and> u \<le> 0xdfff"

definition unitBytes :: "code_unit \<Rightarrow> int" where
  "unitBytes u = (if u \<le> 0x7f then 1 else if u \<le> 0x7ff then 2 else 3)"

lemma surrogate_not_small:
  "highSurrogate u \<Longrightarrow> \<not> u \<le> 0x7f \<and> \<not> u \<le> 0x7ff"
  "lowSurrogate u \<Longrightarrow> \<not> u \<le> 0x7f \<and> \<not> u \<le> 0x7ff \<and> \<not> highSurrogate u"
  by (auto simp: highSurrogate_def lowSurrogate_def word_le_nat_alt)

lemma not_lowSurrogate: "\<not> lowSurrogate d \<longleftrightarrow> d < 0xdc00 \<or> d > 0xdfff"
  by (auto simp: lowSurrogate_def not_le)

lemma utf8Length_high:
  "highSurrogate u \<Longrightarrow> utf8Length [u] = Inl (FsError EINVAL)"
  "highSurrogate u \<Longrightarrow> lowSurrogate d \<Longrightarrow>
     utf8Length (u # d # rest) = ebind (utf8Length rest) (\<lambda>bytes. Inr (bytes + 4))"
  "highSurrogate u \<Longrightarrow> \<not> lowSurrogate d \<Longrightarrow> utf8Length (u # d # rest) = Inl (FsError EINVAL)"
  using surrogate_not_small(1) [of u] not_lowSurrogate [of d]
  by (simp_all only: utf8Length.simps(2) [of u] highSurrogate_def if_True if_False list.case
      HOL.simp_thms)

lemma utf8Length_low: "lowSurrogate u \<Longrightarrow> utf8Length (u # rest) = Inl (FsError EINVAL)"
  using surrogate_not_small(2) [of u]
  by (simp only: utf8Length.simps(2) [of u] highSurrogate_def lowSurrogate_def if_True if_False
      HOL.simp_thms)

lemma utf8Length_plain:
  "\<not> highSurrogate u \<Longrightarrow> \<not> lowSurrogate u \<Longrightarrow>
     utf8Length (u # rest) = ebind (utf8Length rest) (\<lambda>bytes. Inr (bytes + unitBytes u))"
  by (simp only: utf8Length.simps(2) [of u] highSurrogate_def lowSurrogate_def unitBytes_def
      if_False split: if_split) simp

declare utf8Length.simps(2) [simp del]
lemmas utf8Length_eqs = utf8Length_high utf8Length_low utf8Length_plain

lemma utf8_induct [case_names Nil lone unpaired pair low plain]:
  assumes "P []"
    and "\<And>u. highSurrogate u \<Longrightarrow> P [u]"
    and "\<And>u d rest. highSurrogate u \<Longrightarrow> \<not> lowSurrogate d \<Longrightarrow> P (u # d # rest)"
    and "\<And>u d rest. highSurrogate u \<Longrightarrow> lowSurrogate d \<Longrightarrow> P rest \<Longrightarrow> P (u # d # rest)"
    and "\<And>u rest. lowSurrogate u \<Longrightarrow> P (u # rest)"
    and "\<And>u rest. \<not> highSurrogate u \<Longrightarrow> \<not> lowSurrogate u \<Longrightarrow> P rest \<Longrightarrow> P (u # rest)"
  shows "P s"
proof (induction s rule: length_induct)
  case (1 s)
  show ?case
  proof (cases s)
    case Nil
    with assms(1) show ?thesis by simp
  next
    case (Cons u rest)
    show ?thesis
    proof (cases "highSurrogate u")
      case False
      have "P rest" using 1 Cons by simp
      with assms(5,6) False Cons show ?thesis by (cases "lowSurrogate u") auto
    next
      case True
      show ?thesis
      proof (cases rest)
        case Nil
        with assms(2) True Cons show ?thesis by simp
      next
        case (Cons d rest')
        with \<open>s = u # rest\<close> 1 have "P rest'" by simp
        with assms(3,4) True Cons \<open>s = u # rest\<close> show ?thesis
          by (cases "lowSurrogate d") auto
      qed
    qed
  qed
qed

text \<open>A string has a UTF-8 length exactly when its surrogates are paired.\<close>

definition utf8_ok :: "js_string \<Rightarrow> bool" where
  "utf8_ok s \<longleftrightarrow> (case utf8Length s of Inr n \<Rightarrow> True | Inl _ \<Rightarrow> False)"

definition utf8_bytes :: "js_string \<Rightarrow> int" where
  "utf8_bytes s = (case utf8Length s of Inr n \<Rightarrow> n | Inl _ \<Rightarrow> 0)"

lemma utf8Length_Inl: "utf8Length s = Inl e \<Longrightarrow> e = FsError EINVAL"
  by (induction s rule: utf8_induct) (auto simp: utf8Length_eqs ebind_eq_Inl)

lemma utf8Length_eq: "utf8Length s = (if utf8_ok s then Inr (utf8_bytes s) else Inl (FsError EINVAL))"
  using utf8Length_Inl [of s] by (cases "utf8Length s") (auto simp: utf8_ok_def utf8_bytes_def)

lemma utf8Length_Inr [res_simps]: "utf8Length s = Inr n \<longleftrightarrow> utf8_ok s \<and> n = utf8_bytes s"
  by (auto simp: utf8Length_eq)

lemma utf8Length_ge: "utf8Length s = Inr n \<Longrightarrow> int (length s) \<le> n"
  by (induction s arbitrary: n rule: utf8_induct)
    (auto simp: utf8Length_eqs ebind_eq_Inr unitBytes_def)

lemma utf8_bytes_ge: "utf8_ok s \<Longrightarrow> int (length s) \<le> utf8_bytes s"
  by (rule utf8Length_ge) (simp add: utf8Length_Inr)

lemma utf8_bytes_nonneg [simp]: "0 \<le> utf8_bytes s"
  using utf8_bytes_ge [of s] by (cases "utf8_ok s") (auto simp: utf8_bytes_def utf8_ok_def split: sum.splits)

lemma utf8_bytes_Nil [simp]: "utf8_bytes [] = 0"
  by (simp add: utf8_bytes_def)

lemma utf8_ok_Nil [simp]: "utf8_ok []"
  by (simp add: utf8_ok_def)

lemma encodedUtf8Length_eq: "utf8_ok s \<Longrightarrow> encodedUtf8Length s = Inr (utf8_bytes s)"
  by (simp add: encodedUtf8Length_def utf8Length_eq)

text \<open>Concatenation at an ASCII boundary adds the counts.\<close>

lemma ascii_plain: "c \<le> 0x7f \<Longrightarrow> \<not> highSurrogate c \<and> \<not> lowSurrogate c \<and> unitBytes c = 1"
  using surrogate_not_small [of c] by (auto simp: unitBytes_def)

lemma utf8Length_append_ascii:
  assumes "c \<le> 0x7f"
  shows "utf8Length (xs @ c # ys) =
     ebind (utf8Length xs) (\<lambda>a. ebind (utf8Length ys) (\<lambda>b. Inr (a + 1 + b)))"
proof (induction xs rule: utf8_induct)
  case Nil
  show ?case using ascii_plain [OF assms] by (simp add: utf8Length_plain add.commute)
next
  case (lone u)
  then show ?case using ascii_plain [OF assms] by (simp add: utf8Length_high)
next
  case (pair u d rest)
  then show ?case
    by (cases "utf8Length rest"; cases "utf8Length ys") (simp_all add: utf8Length_high)
next
  case (plain u rest)
  then show ?case
    by (cases "utf8Length rest"; cases "utf8Length ys") (simp_all add: utf8Length_plain)
qed (simp_all add: utf8Length_high utf8Length_low)

lemma utf8_append_ascii:
  assumes "c \<le> 0x7f"
  shows utf8_ok_append: "utf8_ok (xs @ c # ys) \<longleftrightarrow> utf8_ok xs \<and> utf8_ok ys"
    and utf8_bytes_append:
      "utf8_ok xs \<Longrightarrow> utf8_ok ys \<Longrightarrow> utf8_bytes (xs @ c # ys) = utf8_bytes xs + 1 + utf8_bytes ys"
  using utf8Length_append_ascii [OF assms, of xs ys]
  by (auto simp: utf8_ok_def utf8_bytes_def split: sum.splits)

section \<open>Splitting and joining\<close>

lemma splitOn_ne [simp]: "splitOn s xs \<noteq> []"
  by (induction xs) (auto split: list.splits)

lemma joinWith_Cons: "ws \<noteq> [] \<Longrightarrow> joinWith s (w # ws) = w @ s # joinWith s ws"
  by (cases ws) auto

lemma joinWith_splitOn: "joinWith s (splitOn s xs) = xs"
proof (induction xs)
  case (Cons c cs)
  obtain w ws where split: "splitOn s cs = w # ws" by (cases "splitOn s cs") auto
  with Cons.IH show ?case by (cases "c = s"; cases ws) auto
qed simp

lemma splitOn_no_sep: "w \<in> set (splitOn s xs) \<Longrightarrow> s \<notin> set w"
  by (induction xs arbitrary: w) (auto split: list.splits if_splits)

lemma splitOn_word: "s \<notin> set w \<Longrightarrow> splitOn s w = [w]"
  by (induction w) auto

lemma splitOn_append: "s \<notin> set w \<Longrightarrow> splitOn s (w @ s # xs) = w # splitOn s xs"
  by (induction w) auto

lemma splitOn_joinWith:
  "ws \<noteq> [] \<Longrightarrow> \<forall>w\<in>set ws. s \<notin> set w \<Longrightarrow> splitOn s (joinWith s ws) = ws"
  by (induction s ws rule: joinWith.induct) (auto simp: splitOn_word splitOn_append)

lemma hasDoubleSlash_word: "slash \<notin> set w \<Longrightarrow> \<not> hasDoubleSlash (a # w)"
  by (induction w arbitrary: a) auto

lemma hasDoubleSlash_append:
  "slash \<notin> set w \<Longrightarrow> w \<noteq> [] \<Longrightarrow> hasDoubleSlash (a # w @ slash # r) = hasDoubleSlash (slash # r)"
proof (induction w arbitrary: a)
  case (Cons c w)
  then show ?case by (cases w) auto
qed simp

section \<open>What a parsed path is\<close>

definition component_ok :: "js_string \<Rightarrow> bool" where
  "component_ok c \<longleftrightarrow> c \<noteq> [] \<and> c \<noteq> [dot] \<and> c \<noteq> [dot, dot] \<and> slash \<notin> set c \<and> 0 \<notin> set c
     \<and> utf8_ok c \<and> utf8_bytes c \<le> MAX_COMPONENT_BYTES"

lemma validatePathComponent_Inr [res_simps]:
  "validatePathComponent c = Inr n \<longleftrightarrow> component_ok c \<and> n = utf8_bytes c"
  by (auto simp: validatePathComponent_def component_ok_def utf8Length_eq)

lemma component_ok_utf8: "component_ok c \<Longrightarrow> utf8_ok c"
  by (simp add: component_ok_def)

definition render_path :: "js_string list \<Rightarrow> js_string" where
  "render_path comps = slash # joinWith slash comps"

text \<open>The byte count of a path, as \<open>validateState\<close> and \<open>findPathMetrics\<close> accumulate it.\<close>

definition path_bytes :: "js_string list \<Rightarrow> int" where
  "path_bytes comps = (if comps = [] then 1 else (\<Sum>c\<leftarrow>comps. 1 + utf8_bytes c))"

definition path_ok :: "js_string list \<Rightarrow> bool" where
  "path_ok comps \<longleftrightarrow> (\<forall>c\<in>set comps. component_ok c) \<and> int (length comps) \<le> MAX_PATH_DEPTH
     \<and> path_bytes comps \<le> MAX_PATH_BYTES"

lemma slash_ascii: "slash \<le> 0x7f"
  by simp

lemma render_bytes:
  "\<forall>c\<in>set comps. utf8_ok c \<Longrightarrow>
     utf8_ok (render_path comps) \<and> utf8_bytes (render_path comps) = path_bytes comps"
proof (induction comps)
  case Nil
  show ?case
    using utf8_append_ascii [OF slash_ascii, of "[]" "[]"] by (simp add: render_path_def path_bytes_def)
next
  case (Cons c cs)
  note app = utf8_append_ascii [OF slash_ascii]
  show ?case
  proof (cases cs)
    case Nil
    with Cons.prems app [of "[]" c] show ?thesis
      by (simp add: render_path_def path_bytes_def)
  next
    case (Cons c' cs')
    then have IH: "utf8_ok (joinWith slash cs)" "1 + utf8_bytes (joinWith slash cs) = path_bytes cs"
      using Cons.IH Cons.prems app [of "[]" "joinWith slash cs"] by (auto simp: render_path_def)
    have "render_path (c # cs) = [] @ slash # (c @ slash # joinWith slash cs)"
      using Cons by (simp add: render_path_def)
    moreover have "utf8_ok (c @ slash # joinWith slash cs)"
      and "utf8_bytes (c @ slash # joinWith slash cs) = utf8_bytes c + path_bytes cs"
      using IH Cons.prems app [of c "joinWith slash cs"] by auto
    ultimately have "utf8_ok (render_path (c # cs))"
      and "utf8_bytes (render_path (c # cs)) = 1 + (utf8_bytes c + path_bytes cs)"
      using app [of "[]" "c @ slash # joinWith slash cs"] by simp_all
    then show ?thesis using Cons by (simp add: path_bytes_def)
  qed
qed

lemma render_path_shape:
  assumes "\<forall>c\<in>set comps. c \<noteq> [] \<and> slash \<notin> set c" and "comps \<noteq> []"
  shows "last (render_path comps) \<noteq> slash" and "\<not> hasDoubleSlash (render_path comps)"
    and "render_path comps \<noteq> [slash]"
proof -
  have "last (joinWith slash comps) \<noteq> slash \<and> joinWith slash comps \<noteq> []
      \<and> \<not> hasDoubleSlash (slash # joinWith slash comps)"
    using assms
  proof (induction comps)
    case (Cons c cs)
    show ?case
    proof (cases cs)
      case Nil
      with Cons.prems show ?thesis
        using hasDoubleSlash_word [of c slash] last_in_set [of c] by (auto simp del: last_in_set)
    next
      case (Cons c' cs')
      with Cons.IH Cons.prems hasDoubleSlash_append [of c slash "joinWith slash cs"]
      show ?thesis by auto
    qed
  qed simp
  then show "last (render_path comps) \<noteq> slash" and "\<not> hasDoubleSlash (render_path comps)"
    and "render_path comps \<noteq> [slash]"
    by (auto simp: render_path_def)
qed

lemma parsePath_complete:
  assumes "path_ok comps"
  shows "parsePath (render_path comps) = Inr comps"
proof (cases "comps = []")
  case True
  then show ?thesis by (simp add: parsePath_def render_path_def)
next
  case False
  have ok: "\<forall>c\<in>set comps. component_ok c" using assms by (simp add: path_ok_def)
  then have "\<forall>c\<in>set comps. c \<noteq> [] \<and> slash \<notin> set c" by (simp add: component_ok_def)
  note shape = render_path_shape [OF this False]
  have split: "splitOn slash (tl (render_path comps)) = comps"
    using ok False by (simp add: render_path_def splitOn_joinWith component_ok_def)
  have "utf8Length (render_path comps) = Inr (path_bytes comps)"
    using render_bytes [of comps] ok by (simp add: utf8Length_eq component_ok_utf8)
  moreover have "each_res (\<lambda>c. ebind (validatePathComponent c) (\<lambda>_. Inr ())) comps = Inr ()"
    using ok by (simp add: each_res_Inr ebind_eq_Inr validatePathComponent_Inr)
  moreover have "render_path comps \<noteq> []" and "hd (render_path comps) = slash"
    by (simp_all add: render_path_def)
  ultimately show ?thesis
    using shape split assms by (simp add: parsePath_def path_ok_def)
qed

lemma parsePath_sound:
  assumes "parsePath p = Inr comps"
  shows "path_ok comps \<and> p = render_path comps"
proof (cases "p = [slash]")
  case True
  with assms show ?thesis
    by (simp add: parsePath_def path_ok_def render_path_def path_bytes_def limit_defs)
next
  case False
  with assms have "p \<noteq> [] \<and> hd p = slash"
    by (auto simp: parsePath_def split: if_splits)
  then have hd: "p = slash # tl p" by (cases p) auto
  from False assms have comps: "comps = splitOn slash (tl p)"
    and len: "int (length comps) \<le> MAX_PATH_DEPTH"
    and bytes: "utf8_ok p" "utf8_bytes p \<le> MAX_PATH_BYTES"
    and ok: "\<forall>c\<in>set comps. component_ok c"
    by (auto simp: parsePath_def res_simps Let_def split: if_splits)
  have p: "p = render_path comps"
    using hd by (simp add: comps render_path_def joinWith_splitOn)
  moreover have "path_bytes comps = utf8_bytes p"
    using render_bytes [of comps] ok p by (simp add: component_ok_utf8)
  ultimately show ?thesis using ok len bytes by (simp add: path_ok_def)
qed

lemma parsePath_Inr [res_simps]: "parsePath p = Inr comps \<longleftrightarrow> path_ok comps \<and> p = render_path comps"
  using parsePath_complete parsePath_sound by blast

lemma parsePath_Inl: "parsePath p = Inl e \<Longrightarrow> e = FsError EINVAL"
  by (auto simp: parsePath_def ebind_eq_Inl utf8Length_eq validatePathComponent_def Let_def
      dest!: each_res_Inl split: if_splits)

lemma path_bytes_snoc:
  "path_bytes (cs @ [n]) = path_bytes cs + (if cs = [] then 0 else 1) + utf8_bytes n"
  by (simp add: path_bytes_def)

lemma path_bytes_ge1: "1 \<le> path_bytes cs"
proof -
  have "0 \<le> (\<Sum>c\<leftarrow>xs. 1 + utf8_bytes c)" for xs
    by (rule sum_list_nonneg) (auto simp: add_nonneg_nonneg)
  then show ?thesis by (cases cs) (auto simp: path_bytes_def add_increasing2)
qed

text \<open>An accepted symlink target is an absolute path within the limits; its byte count is returned.\<close>

definition symlink_target_ok :: "js_string \<Rightarrow> bool" where
  "symlink_target_ok t \<longleftrightarrow> (\<exists>comps. path_ok comps \<and> t = render_path comps)"

lemma validateSymlinkTarget_Inr [res_simps]:
  "validateSymlinkTarget t = Inr n \<longleftrightarrow> symlink_target_ok t \<and> n = utf8_bytes t"
proof -
  have "utf8_ok t \<and> 1 \<le> utf8_bytes t \<and> utf8_bytes t \<le> MAX_PATH_BYTES" if ok: "symlink_target_ok t"
  proof -
    from ok obtain comps where "path_ok comps" "t = render_path comps"
      by (auto simp: symlink_target_ok_def)
    with render_bytes [of comps] path_bytes_ge1 [of comps] show ?thesis
      by (auto simp: path_ok_def component_ok_utf8)
  qed
  moreover have "symlink_target_ok t \<longleftrightarrow> (\<exists>comps. parsePath t = Inr comps)"
    by (auto simp: symlink_target_ok_def parsePath_Inr)
  ultimately show ?thesis
    by (cases "utf8_ok t") (auto simp: validateSymlinkTarget_def utf8Length_eq ebind_eq_Inr)
qed

end
