(* ===== verification/ExtentSet.thy ===== *)
theory ExtentSet
  imports Path
begin

text \<open>
  The extent bookkeeping of \<open>packages/pgwasm/src/opfs/core/state-machine.ts\<close>: the indexed set of
  available extents (an array plus a map from each extent to its array index), and the run-length
  form in which a transaction record carries a list of extents.
\<close>

section \<open>The class \<open>IndexedExtentSet\<close>\<close>

record IndexedExtentSet =
  items :: "int list"
  indexes :: "(int \<times> nat) list"

definition emptyExtentSet :: IndexedExtentSet where
  "emptyExtentSet = \<lparr>items = [], indexes = []\<rparr>"

definition sizeExtent :: "IndexedExtentSet \<Rightarrow> nat" where
  "sizeExtent s = length (items s)"

definition hasExtent :: "IndexedExtentSet \<Rightarrow> int \<Rightarrow> bool" where
  "hasExtent s extentId \<longleftrightarrow> map_of (indexes s) extentId \<noteq> None"

definition addExtent :: "IndexedExtentSet \<Rightarrow> int \<Rightarrow> IndexedExtentSet" where
  "addExtent s extentId =
     (if hasExtent s extentId then s
      else \<lparr>items = items s @ [extentId],
            indexes = AList.update extentId (length (items s)) (indexes s)\<rparr>)"

text \<open>The last item is popped and, unless it is the deleted one, moved into the hole.\<close>

definition deleteExtent :: "IndexedExtentSet \<Rightarrow> int \<Rightarrow> bool \<times> IndexedExtentSet" where
  "deleteExtent s extentId =
     (case map_of (indexes s) extentId of
        None \<Rightarrow> (False, s)
      | Some index \<Rightarrow>
          let popped = (if items s = [] then None else Some (last (items s)));
              items' = butlast (items s);
              indexes' = AList.delete extentId (indexes s) in
          (True,
           case popped of
             None \<Rightarrow> \<lparr>items = items', indexes = indexes'\<rparr>
           | Some lastId \<Rightarrow>
               if index < length items'
               then \<lparr>items = items'[index := lastId], indexes = AList.update lastId index indexes'\<rparr>
               else \<lparr>items = items', indexes = indexes'\<rparr>))"

definition peekLast :: "IndexedExtentSet \<Rightarrow> int \<Rightarrow> int list res" where
  "peekLast s n =
     (if \<not> isSafeInteger n \<or> n < 0 \<or> n > int (length (items s)) then Inl StoreLimitError
      else Inr (rev (drop (length (items s) - nat n) (items s))))"

definition cloneExtents :: "IndexedExtentSet \<Rightarrow> IndexedExtentSet" where
  "cloneExtents s = fold (\<lambda>extentId copy. addExtent copy extentId) (items s) emptyExtentSet"

subsection \<open>Invariant and refinement to a set\<close>

definition extents_inv :: "IndexedExtentSet \<Rightarrow> bool" where
  "extents_inv s \<longleftrightarrow> wf_map (indexes s) \<and> distinct (items s)
     \<and> (\<forall>e k. map_of (indexes s) e = Some k \<longleftrightarrow> k < length (items s) \<and> items s ! k = e)"

definition extents_of :: "IndexedExtentSet \<Rightarrow> int set" where
  "extents_of s = set (items s)"

lemma extents_invD:
  assumes "extents_inv s"
  shows "wf_map (indexes s)" and "distinct (items s)"
    and "map_of (indexes s) e = Some k \<longleftrightarrow> k < length (items s) \<and> items s ! k = e"
  using assms by (auto simp: extents_inv_def)

lemma hasExtent_iff: "extents_inv s \<Longrightarrow> hasExtent s e \<longleftrightarrow> e \<in> extents_of s"
  by (auto simp: hasExtent_def extents_of_def in_set_conv_nth extents_invD(3))

lemma extents_inv_empty: "extents_inv emptyExtentSet"
  by (simp add: extents_inv_def emptyExtentSet_def)

lemma extents_of_empty: "extents_of emptyExtentSet = {}"
  by (simp add: extents_of_def emptyExtentSet_def)

lemma addExtent_inv:
  assumes "extents_inv s"
  shows "extents_inv (addExtent s e)"
proof (cases "hasExtent s e")
  case True
  with assms show ?thesis by (simp add: addExtent_def)
next
  case False
  with hasExtent_iff [OF assms] have "e \<notin> set (items s)" by (simp add: extents_of_def)
  with False assms show ?thesis
    by (auto simp: addExtent_def extents_inv_def nth_append less_Suc_eq)
qed

lemma extents_of_addExtent: "extents_inv s \<Longrightarrow> extents_of (addExtent s e) = insert e (extents_of s)"
  using hasExtent_iff [of s e] by (auto simp: addExtent_def extents_of_def)

lemma deleteExtent_found: "extents_inv s \<Longrightarrow> fst (deleteExtent s e) \<longleftrightarrow> e \<in> extents_of s"
  using hasExtent_iff [of s e]
  by (auto simp: deleteExtent_def hasExtent_def Let_def split: option.splits)

text \<open>The swap, as a statement about lists: the hole is filled by the last item.\<close>

lemma set_swap_remove:
  assumes "distinct xs" and "k < length (butlast xs)"
  shows "set ((butlast xs)[k := last xs]) = set xs - {xs ! k}"
    and "distinct ((butlast xs)[k := last xs])"
proof -
  from assms(2) have ne: "xs \<noteq> []" by auto
  then have xs: "xs = butlast xs @ [last xs]" by simp
  then have nth: "xs ! k = butlast xs ! k" using assms(2) by (metis nth_append)
  from assms(1) xs have d: "distinct (butlast xs)" and l: "last xs \<notin> set (butlast xs)"
    by (metis distinct_append, metis distinct_append disjoint_iff list.set_intros(1))
  show "set ((butlast xs)[k := last xs]) = set xs - {xs ! k}"
    using set_update_distinct [OF d assms(2), of "last xs"] xs l nth assms(2)
    by (metis (no_types, lifting) Diff_insert_absorb Diff_insert Un_Diff butlast_snoc insert_Diff_if
        insert_is_Un list.simps(15) list.set(1) nth_mem set_append singletonD sup_commute)
  show "distinct ((butlast xs)[k := last xs])"
    using d l by (simp add: distinct_list_update)
qed

text \<open>The three outcomes of a deletion: absent, the last item, an inner item.\<close>

lemma deleteExtent_cases:
  assumes inv: "extents_inv s"
  obtains (absent) "e \<notin> extents_of s" "snd (deleteExtent s e) = s"
  | (last) "items s \<noteq> []" "e = last (items s)" "snd (deleteExtent s e)
        = \<lparr>items = butlast (items s), indexes = AList.delete e (indexes s)\<rparr>"
  | (inner) k where "k < length (butlast (items s))" "e = items s ! k" "snd (deleteExtent s e)
        = \<lparr>items = (butlast (items s))[k := last (items s)],
           indexes = AList.update (last (items s)) k (AList.delete e (indexes s))\<rparr>"
proof (cases "map_of (indexes s) e")
  case None
  then have "e \<notin> extents_of s" using hasExtent_iff [OF inv, of e] by (simp add: hasExtent_def)
  with None show thesis by (intro absent) (simp_all add: deleteExtent_def)
next
  case (Some k)
  then have k: "k < length (items s)" "items s ! k = e" using extents_invD(3) [OF inv] by auto
  then have ne: "items s \<noteq> []" by auto
  show thesis
  proof (cases "k < length (butlast (items s))")
    case True
    with Some k ne show thesis by (intro inner [of k]) (simp_all add: deleteExtent_def Let_def)
  next
    case False
    with k have "k = length (items s) - 1" by simp
    with k ne have "e = last (items s)" by (simp add: last_conv_nth)
    with Some False ne show thesis by (intro last) (simp_all add: deleteExtent_def Let_def)
  qed
qed

lemma extents_of_deleteExtent:
  assumes inv: "extents_inv s"
  shows "extents_of (snd (deleteExtent s e)) = extents_of s - {e}"
  using inv
proof (cases rule: deleteExtent_cases [of s e])
  case last
  then have "items s = butlast (items s) @ [e]" by simp
  moreover have "distinct (items s)" using inv by (rule extents_invD)
  ultimately have "set (butlast (items s)) = set (items s) - {e}"
    by (metis Diff_insert_absorb Un_insert_right butlast_snoc distinct_butlast
        not_distinct_conv_prefix rotate1.simps(2) set_rotate1 list.simps(15) append_Nil2)
  with last show ?thesis by (simp add: extents_of_def)
next
  case (inner k)
  with set_swap_remove(1) [OF extents_invD(2) [OF inv]] show ?thesis by (simp add: extents_of_def)
qed (auto simp: extents_of_def)

lemma deleteExtent_inv:
  assumes inv: "extents_inv s"
  shows "extents_inv (snd (deleteExtent s e))"
  using inv
proof (cases rule: deleteExtent_cases [of s e])
  case last
  have d: "distinct (items s)" using inv by (rule extents_invD)
  have "map_of (AList.delete e (indexes s)) f = Some j
      \<longleftrightarrow> j < length (butlast (items s)) \<and> butlast (items s) ! j = f" for f j
  proof -
    have "f = e \<longleftrightarrow> j = length (items s) - 1" if "j < length (items s)" "items s ! j = f"
      using that d last by (auto simp: last_conv_nth nth_eq_iff_index_eq)
    then show ?thesis
      using extents_invD(3) [OF inv, of f j] last by (auto simp: nth_butlast last_conv_nth)
  qed
  with last inv d show ?thesis by (simp add: extents_inv_def distinct_butlast)
next
  case (inner k)
  let ?last = "last (items s)" and ?n = "length (items s) - 1"
  have d: "distinct (items s)" using inv by (rule extents_invD)
  have ne: "items s \<noteq> []" using inner by auto
  then have n: "?n < length (items s)" "items s ! ?n = ?last" by (auto simp: last_conv_nth)
  have ke: "?last \<noteq> e" using inner n d by (auto simp: nth_eq_iff_index_eq)
  have "map_of (AList.update ?last k (AList.delete e (indexes s))) f = Some j
      \<longleftrightarrow> j < length (butlast (items s)) \<and> (butlast (items s))[k := ?last] ! j = f" for f j
  proof -
    consider "f = ?last" | "f = e" "f \<noteq> ?last" | "f \<noteq> e" "f \<noteq> ?last" by blast
    then show ?thesis
    proof cases
      case 1
      have "items s ! j \<noteq> ?last" if "j < ?n"
      proof
        assume "items s ! j = ?last"
        then have "items s ! j = items s ! ?n" by (simp only: n)
        with d n that have "j = ?n" by (subst (asm) nth_eq_iff_index_eq) auto
        with that show False by simp
      qed
      with 1 show ?thesis
        using inner by (auto simp: nth_list_update nth_butlast)
    next
      case 2
      then show ?thesis
        using inner n d ke by (auto simp: nth_list_update nth_butlast nth_eq_iff_index_eq)
    next
      case 3
      have "j \<noteq> k \<and> j \<noteq> ?n" if "j < length (items s)" "items s ! j = f"
        using that 3 inner n by auto
      with 3 show ?thesis
        using inner n extents_invD(3) [OF inv, of f j] by (auto simp: nth_list_update nth_butlast)
    qed
  qed
  with inner inv set_swap_remove(2) [OF d inner(1)] show ?thesis
    by (simp add: extents_inv_def)
qed (use inv in simp)

lemma sizeExtent_card: "extents_inv s \<Longrightarrow> sizeExtent s = card (extents_of s)"
  using extents_invD(2) [of s] by (simp add: sizeExtent_def extents_of_def distinct_card)

lemma peekLast_Inr:
  assumes "extents_inv s" and "peekLast s n = Inr xs"
  shows "distinct xs" and "set xs \<subseteq> extents_of s" and "int (length xs) = n"
  using assms extents_invD(2) [OF assms(1)]
  by (auto simp: peekLast_def extents_of_def distinct_drop split: if_splits dest: in_set_dropD)

lemma peekLast_ok: "0 \<le> n \<Longrightarrow> n \<le> int (sizeExtent s) \<Longrightarrow> isSafeInteger n \<Longrightarrow> \<exists>xs. peekLast s n = Inr xs"
  by (simp add: peekLast_def sizeExtent_def)

lemma cloneExtents_aux:
  "distinct (ys @ xs) \<Longrightarrow> extents_inv c \<Longrightarrow> items c = ys \<Longrightarrow>
     items (fold (\<lambda>extentId copy. addExtent copy extentId) xs c) = ys @ xs
     \<and> extents_inv (fold (\<lambda>extentId copy. addExtent copy extentId) xs c)"
proof (induction xs arbitrary: ys c)
  case (Cons x xs)
  have "\<not> hasExtent c x" using Cons.prems by (auto simp: hasExtent_iff extents_of_def)
  then have "items (addExtent c x) = ys @ [x]" using Cons.prems by (simp add: addExtent_def)
  with Cons.IH [of "ys @ [x]" "addExtent c x"] Cons.prems show ?case by (simp add: addExtent_inv)
qed simp

lemma cloneExtents_items:
  assumes "extents_inv s"
  shows "items (cloneExtents s) = items s" and "extents_inv (cloneExtents s)"
  using cloneExtents_aux [of "[]" "items s" emptyExtentSet] extents_invD(2) [OF assms]
  by (simp_all add: cloneExtents_def extents_inv_empty emptyExtentSet_def [THEN arg_cong [of _ _ items]])

section \<open>The pool interface\<close>

text \<open>
  What the allocator needs of the set of available extents: membership, insertion and removal
  that are those of a set, under an invariant every operation keeps. The transactions delete
  several extents in a row and the repack adds several; both facts are proved here once.
\<close>

locale extent_pool =
  fixes elems :: "'p \<Rightarrow> 'e set"
    and ins :: "'p \<Rightarrow> 'e \<Rightarrow> 'p"
    and del :: "'p \<Rightarrow> 'e \<Rightarrow> 'p"
    and inv :: "'p \<Rightarrow> bool"
    and size_of :: "'p \<Rightarrow> nat"
  assumes elems_ins: "inv p \<Longrightarrow> elems (ins p e) = insert e (elems p)"
    and elems_del: "inv p \<Longrightarrow> elems (del p e) = elems p - {e}"
    and inv_ins: "inv p \<Longrightarrow> inv (ins p e)"
    and inv_del: "inv p \<Longrightarrow> inv (del p e)"
    and size_card: "inv p \<Longrightarrow> size_of p = card (elems p)"
    and finite_elems: "inv p \<Longrightarrow> finite (elems p)"
begin

lemmas laws = elems_ins elems_del inv_ins inv_del

lemma inv_ins_all: "inv p \<Longrightarrow> inv (fold (\<lambda>e p. ins p e) es p)"
  by (induction es arbitrary: p) (simp_all add: laws)

lemma elems_ins_all: "inv p \<Longrightarrow> elems (fold (\<lambda>e p. ins p e) es p) = set es \<union> elems p"
  by (induction es arbitrary: p) (auto simp: laws)

lemma inv_del_all: "inv p \<Longrightarrow> inv (fold (\<lambda>e p. del p e) es p)"
  by (induction es arbitrary: p) (simp_all add: laws)

lemma elems_del_all: "inv p \<Longrightarrow> elems (fold (\<lambda>e p. del p e) es p) = elems p - set es"
  by (induction es arbitrary: p) (auto simp: laws)

lemma size_ins: "inv p \<Longrightarrow> size_of (ins p e) = (if e \<in> elems p then size_of p else Suc (size_of p))"
  by (auto simp: size_card laws finite_elems insert_absorb)

lemma size_del: "inv p \<Longrightarrow> int (size_of (del p e)) = int (size_of p) - (if e \<in> elems p then 1 else 0)"
  using card_Suc_Diff1 [of "elems p" e] by (auto simp: size_card laws finite_elems)

end

interpretation pool: extent_pool extents_of addExtent "\<lambda>s e. snd (deleteExtent s e)" extents_inv sizeExtent
proof unfold_locales
  fix p assume "extents_inv p"
  then show "finite (extents_of p)" by (simp add: extents_of_def)
qed (simp_all add: extents_of_addExtent extents_of_deleteExtent addExtent_inv deleteExtent_inv
    sizeExtent_card)

end
