(* ===== verification/ExtentRuns.thy ===== *)
theory ExtentRuns
  imports ExtentSet
begin

text \<open>
  Run-length lists of extents: \<open>toExtentRuns\<close> and \<open>expandExtentRuns\<close> of \<open>state-machine.ts\<close>, and
  \<open>mergeExtentRuns\<close> of \<open>repacked-vfs.ts\<close>, with which a deferred resize absorbs the next one.
\<close>

record ExtentRun =
  runStart :: int
  runCount :: int

definition MAX_RUN :: int where [limit_defs]: "MAX_RUN = 0xffffffff"

section \<open>Code\<close>

definition pushExtent :: "int \<Rightarrow> ExtentRun list \<Rightarrow> ExtentRun list res" where
  "pushExtent extentId runs =
     ebind (checkedU64 extentId) (\<lambda>_.
       if runs \<noteq> [] \<and> runStart (last runs) + runCount (last runs) = extentId
          \<and> runCount (last runs) < MAX_RUN
       then Inr (butlast runs @ [(last runs)\<lparr>runCount := runCount (last runs) + 1\<rparr>])
       else Inr (runs @ [\<lparr>runStart = extentId, runCount = 1\<rparr>]))"

definition toExtentRuns :: "int list \<Rightarrow> ExtentRun list res" where
  "toExtentRuns extents = fold_res pushExtent extents []"

definition expandRun :: "int \<Rightarrow> ExtentRun \<Rightarrow> int list \<Rightarrow> int list res" where
  "expandRun maximum run extents =
     ebind (checkedU64 (runStart run)) (\<lambda>_.
       if \<not> isSafeInteger (runCount run) \<or> runCount run \<le> 0 then Inl (FsError EINVAL)
       else if int (length extents) + runCount run > maximum then Inl StoreLimitError
       else fold_res
              (\<lambda>offset acc. ebind (checkedAdd (runStart run) (int offset)) (\<lambda>e. Inr (acc @ [e])))
              [0..<nat (runCount run)] extents)"

definition expandExtentRuns :: "ExtentRun list \<Rightarrow> int \<Rightarrow> int list res" where
  "expandExtentRuns runs maximum = fold_res (expandRun maximum) runs []"

definition mergeRun :: "ExtentRun list \<Rightarrow> ExtentRun \<Rightarrow> ExtentRun list" where
  "mergeRun merged run =
     (if merged \<noteq> [] \<and> runStart (last merged) + runCount (last merged) = runStart run
         \<and> runCount (last merged) + runCount run \<le> MAX_RUN
      then butlast merged @ [(last merged)\<lparr>runCount := runCount (last merged) + runCount run\<rparr>]
      else merged @ [run])"

definition mergeExtentRuns :: "ExtentRun list \<Rightarrow> ExtentRun list \<Rightarrow> ExtentRun list" where
  "mergeExtentRuns left right = foldl mergeRun left right"

section \<open>The extents a run list denotes\<close>

definition run_extents :: "ExtentRun \<Rightarrow> int list" where
  "run_extents r = map (\<lambda>k. runStart r + int k) [0..<nat (runCount r)]"

definition flat :: "ExtentRun list \<Rightarrow> int list" where
  "flat runs = concat (map run_extents runs)"

definition run_ok :: "ExtentRun \<Rightarrow> bool" where
  "run_ok r \<longleftrightarrow> 0 < runCount r \<and> isSafeInteger (runCount r) \<and> 0 \<le> runStart r
     \<and> runStart r + runCount r - 1 \<le> MAX_U64"

lemma flat_simps [simp]:
  "flat [] = []"
  "flat (r # rs) = run_extents r @ flat rs"
  "flat (rs @ rs') = flat rs @ flat rs'"
  by (simp_all add: flat_def)

lemma flat_butlast: "runs \<noteq> [] \<Longrightarrow> flat runs = flat (butlast runs) @ run_extents (last runs)"
proof -
  assume "runs \<noteq> []"
  then have "flat runs = flat (butlast runs @ [last runs])" by simp
  then show ?thesis by (simp only: flat_simps append_Nil2)
qed

lemma length_run_extents: "0 \<le> runCount r \<Longrightarrow> int (length (run_extents r)) = runCount r"
  by (simp add: run_extents_def)

lemma length_flat: "\<forall>r\<in>set runs. 0 \<le> runCount r \<Longrightarrow> int (length (flat runs)) = (\<Sum>r\<leftarrow>runs. runCount r)"
  by (induction runs) (auto simp: length_run_extents)

lemma run_ok_u64: "run_ok r \<Longrightarrow> e \<in> set (run_extents r) \<Longrightarrow> u64 e"
  by (auto simp: run_ok_def run_extents_def u64_def)

lemma run_extents_extend:
  "0 \<le> runCount r \<Longrightarrow> 0 \<le> n \<Longrightarrow>
     run_extents (r\<lparr>runCount := runCount r + n\<rparr>)
       = run_extents r @ run_extents \<lparr>runStart = runStart r + runCount r, runCount = n\<rparr>"
proof (rule nth_equalityI)
  assume le: "0 \<le> runCount r" "0 \<le> n"
  then show "length (run_extents (r\<lparr>runCount := runCount r + n\<rparr>))
      = length (run_extents r @ run_extents \<lparr>runStart = runStart r + runCount r, runCount = n\<rparr>)"
    by (simp add: run_extents_def nat_add_distrib)
  fix i assume "i < length (run_extents (r\<lparr>runCount := runCount r + n\<rparr>))"
  with le show "run_extents (r\<lparr>runCount := runCount r + n\<rparr>) ! i
      = (run_extents r @ run_extents \<lparr>runStart = runStart r + runCount r, runCount = n\<rparr>) ! i"
    by (simp add: run_extents_def nth_append nat_add_distrib)
qed

lemma run_extents_single [simp]: "run_extents \<lparr>runStart = e, runCount = 1\<rparr> = [e]"
  by (simp add: run_extents_def)

section \<open>\<open>toExtentRuns\<close> loses nothing\<close>

lemma pushExtent_Inr:
  assumes "pushExtent e runs = Inr runs'" and "\<forall>r\<in>set runs. run_ok r \<and> runCount r \<le> MAX_RUN"
  shows "flat runs' = flat runs @ [e] \<and> (\<forall>r\<in>set runs'. run_ok r \<and> runCount r \<le> MAX_RUN)"
proof (cases "runs \<noteq> [] \<and> runStart (last runs) + runCount (last runs) = e \<and> runCount (last runs) < MAX_RUN")
  case True
  let ?r = "(last runs)\<lparr>runCount := runCount (last runs) + 1\<rparr>"
  from True assms(1) have runs': "runs' = butlast runs @ [?r]" and e: "u64 e"
    by (auto simp: pushExtent_def res_simps)
  have last: "run_ok (last runs)" using assms(2) True by simp
  then have "run_extents ?r = run_extents (last runs) @ [e]"
    using run_extents_extend [of "last runs" 1] True by (simp add: run_ok_def)
  moreover have "run_ok ?r" and "runCount ?r \<le> MAX_RUN"
    using last True e by (auto simp: run_ok_def u64_def isSafeInteger_def limit_defs)
  moreover have "flat runs = flat (butlast runs) @ run_extents (last runs)"
    using True by (simp add: flat_butlast)
  ultimately show ?thesis
    using assms(2) by (auto simp: runs' dest: in_set_butlastD)
next
  case False
  with assms(1) have "runs' = runs @ [\<lparr>runStart = e, runCount = 1\<rparr>]" and "u64 e"
    by (auto simp: pushExtent_def res_simps)
  with assms(2) show ?thesis
    by (auto simp: run_ok_def u64_def isSafeInteger_def limit_defs)
qed

lemma toExtentRuns_aux:
  "fold_res pushExtent xs runs = Inr runs' \<Longrightarrow> \<forall>r\<in>set runs. run_ok r \<and> runCount r \<le> MAX_RUN \<Longrightarrow>
     flat runs' = flat runs @ xs \<and> (\<forall>r\<in>set runs'. run_ok r \<and> runCount r \<le> MAX_RUN)"
proof (induction xs arbitrary: runs)
  case (Cons x xs)
  then obtain m where "pushExtent x runs = Inr m" "fold_res pushExtent xs m = Inr runs'"
    by (auto simp: ebind_eq_Inr)
  with Cons.IH [of m] pushExtent_Inr [OF _ Cons.prems(2), of x m] show ?case by simp
qed simp

lemma toExtentRuns_flat:
  assumes "toExtentRuns xs = Inr runs"
  shows "flat runs = xs" and "\<forall>r\<in>set runs. run_ok r" and "\<forall>r\<in>set runs. runCount r \<le> MAX_RUN"
  using toExtentRuns_aux [of xs "[]" runs] assms by (auto simp: toExtentRuns_def)

lemma toExtentRuns_ok:
  assumes "\<forall>e\<in>set xs. u64 e"
  shows "\<exists>runs. toExtentRuns xs = Inr runs"
proof -
  have "\<exists>runs'. fold_res pushExtent xs runs = Inr runs'" for runs
    using assms by (induction xs arbitrary: runs) (auto simp: pushExtent_def)
  then show ?thesis by (simp add: toExtentRuns_def)
qed

lemma toExtentRuns_u64: "toExtentRuns xs = Inr runs \<Longrightarrow> e \<in> set xs \<Longrightarrow> u64 e"
  using toExtentRuns_flat [of xs runs] by (fastforce simp: flat_def dest: run_ok_u64)

section \<open>\<open>expandExtentRuns\<close> is the inverse\<close>

lemma expandRun_offsets:
  "fold_res (\<lambda>offset acc. ebind (checkedAdd s (int offset)) (\<lambda>e. Inr (acc @ [e]))) ks acc = Inr out
     \<longleftrightarrow> (\<forall>k\<in>set ks. u64 (s + int k)) \<and> out = acc @ map (\<lambda>k. s + int k) ks"
  by (induction ks arbitrary: acc) (auto simp: res_simps)

lemma u64_interval:
  assumes "0 < n" and "u64 s"
  shows "(\<forall>k<nat n. u64 (s + int k)) \<longleftrightarrow> s + n - 1 \<le> MAX_U64"
proof
  assume "\<forall>k<nat n. u64 (s + int k)"
  moreover have "nat (n - 1) < nat n" using assms(1) by simp
  ultimately have "u64 (s + int (nat (n - 1)))" by blast
  then show "s + n - 1 \<le> MAX_U64" using assms(1) by (simp add: u64_def)
next
  assume "s + n - 1 \<le> MAX_U64"
  then show "\<forall>k<nat n. u64 (s + int k)" using assms by (auto simp: u64_def)
qed

lemma expandRun_Inr:
  "expandRun m r acc = Inr out
     \<longleftrightarrow> run_ok r \<and> int (length acc) + runCount r \<le> m \<and> out = acc @ run_extents r"
  using u64_interval [of "runCount r" "runStart r"]
  by (auto simp: expandRun_def res_simps expandRun_offsets run_ok_def run_extents_def u64_def)

lemma expandRuns_aux:
  "fold_res (expandRun m) rs acc = Inr out
     \<longleftrightarrow> (\<forall>r\<in>set rs. run_ok r) \<and> out = acc @ flat rs \<and> (rs = [] \<or> int (length out) \<le> m)"
proof (induction rs arbitrary: acc)
  case (Cons r rs)
  show ?case
  proof (cases "run_ok r")
    case True
    then have "int (length (run_extents r)) = runCount r"
      by (simp add: run_ok_def length_run_extents)
    with True Cons.IH [of "acc @ run_extents r"] show ?thesis
      by (auto simp: ebind_eq_Inr expandRun_Inr)
  qed (simp add: ebind_eq_Inr expandRun_Inr)
qed auto

lemma expandExtentRuns_Inr [res_simps]:
  "expandExtentRuns rs m = Inr out
     \<longleftrightarrow> (\<forall>r\<in>set rs. run_ok r) \<and> out = flat rs \<and> (rs = [] \<or> int (length out) \<le> m)"
  by (simp add: expandExtentRuns_def expandRuns_aux)

lemma expandExtentRuns_u64: "expandExtentRuns rs m = Inr out \<Longrightarrow> e \<in> set out \<Longrightarrow> u64 e"
  by (auto simp: expandExtentRuns_Inr flat_def intro: run_ok_u64)

lemma runs_roundtrip:
  assumes "toExtentRuns xs = Inr runs" and "int (length xs) \<le> m"
  shows "expandExtentRuns runs m = Inr xs"
  using toExtentRuns_flat [OF assms(1)] assms(2) by (simp add: expandExtentRuns_Inr)

section \<open>Merging denotes concatenation\<close>

lemma mergeRun_flat:
  assumes "\<forall>r\<in>set runs. 0 \<le> runCount r" and "0 \<le> runCount r"
  shows "flat (mergeRun runs r) = flat runs @ run_extents r"
    and "\<forall>q\<in>set (mergeRun runs r). 0 \<le> runCount q"
proof -
  show "flat (mergeRun runs r) = flat runs @ run_extents r"
  proof (cases "runs \<noteq> [] \<and> runStart (last runs) + runCount (last runs) = runStart r
      \<and> runCount (last runs) + runCount r \<le> MAX_RUN")
    case True
    then have runs: "flat runs = flat (butlast runs) @ run_extents (last runs)"
      by (simp add: flat_butlast)
    from True assms have "run_extents ((last runs)\<lparr>runCount := runCount (last runs) + runCount r\<rparr>)
        = run_extents (last runs) @ run_extents r"
      using run_extents_extend [of "last runs" "runCount r"] by (auto simp: run_extents_def)
    with True runs show ?thesis by (simp add: mergeRun_def)
  qed (auto simp: mergeRun_def)
  show "\<forall>q\<in>set (mergeRun runs r). 0 \<le> runCount q"
    using assms by (auto simp: mergeRun_def dest: in_set_butlastD)
qed

lemma mergeExtentRuns_flat:
  assumes "\<forall>r\<in>set left. 0 \<le> runCount r" and "\<forall>r\<in>set right. 0 \<le> runCount r"
  shows "flat (mergeExtentRuns left right) = flat left @ flat right"
  using assms
proof (induction right arbitrary: left)
  case (Cons r right)
  from Cons.prems have "0 \<le> runCount r" by simp
  note step = mergeRun_flat [OF Cons.prems(1) this]
  have "mergeExtentRuns left (r # right) = mergeExtentRuns (mergeRun left r) right"
    by (simp add: mergeExtentRuns_def)
  with Cons.IH [OF step(2)] Cons.prems(2) step(1) show ?case by simp
qed (simp add: mergeExtentRuns_def)

end
