(* ===== verification/VfsState.thy ===== *)
theory VfsState
  imports ExtentRuns
begin

text \<open>
  The data model of \<open>packages/pgwasm/src/opfs/core/state-machine.ts\<close>: inodes, allocator, the state
  of the virtual file system, the transaction records, the size accounting that preflights every
  transaction, and path lookup with symbolic-link resolution.
\<close>

section \<open>Types\<close>

datatype MetadataFile = MetaA | MetaB

fun otherMetadataFile :: "MetadataFile \<Rightarrow> MetadataFile" where
  "otherMetadataFile MetaA = MetaB"
| "otherMetadataFile MetaB = MetaA"

text \<open>The maps from a metadata file are finite tables, and so comparable.\<close>

instantiation MetadataFile :: enum
begin

definition enum_MetadataFile :: "MetadataFile list" where
  "enum_MetadataFile = [MetaA, MetaB]"

definition enum_all_MetadataFile :: "(MetadataFile \<Rightarrow> bool) \<Rightarrow> bool" where
  "enum_all_MetadataFile P \<longleftrightarrow> P MetaA \<and> P MetaB"

definition enum_ex_MetadataFile :: "(MetadataFile \<Rightarrow> bool) \<Rightarrow> bool" where
  "enum_ex_MetadataFile P \<longleftrightarrow> P MetaA \<or> P MetaB"

instance
proof
  have all: "m = MetaA \<or> m = MetaB" for m by (cases m) simp_all
  show "(UNIV :: MetadataFile set) = set enum_class.enum"
    using all by (auto simp: enum_MetadataFile_def)
  show "distinct (enum_class.enum :: MetadataFile list)" by (simp add: enum_MetadataFile_def)
  show "enum_class.enum_all P \<longleftrightarrow> Ball UNIV P" for P :: "MetadataFile \<Rightarrow> bool"
    unfolding enum_all_MetadataFile_def using all by (intro iffI ballI) (auto, metis)
  show "enum_class.enum_ex P \<longleftrightarrow> Bex UNIV P" for P :: "MetadataFile \<Rightarrow> bool"
    unfolding enum_ex_MetadataFile_def using all by (intro iffI) (auto, metis)
qed

end

text \<open>
  The union \<open>DirectoryInode | FileInode | SymlinkInode\<close>: the fields of \<open>BaseInode\<close> and a body whose
  constructor is the \<open>kind\<close>.
\<close>

datatype InodeBody =
  Directory "(js_string \<times> int) list"
| File int "int list"
| Symlink js_string

record Inode =
  inodeId :: int
  imode :: int
  atimeMs :: int
  mtimeMs :: int
  ctimeMs :: int
  body :: InodeBody

definition isDirectory :: "Inode \<Rightarrow> bool" where
  "isDirectory inode = (case body inode of Directory _ \<Rightarrow> True | _ \<Rightarrow> False)"

definition children :: "Inode \<Rightarrow> (js_string \<times> int) list" where
  "children inode = (case body inode of Directory entries \<Rightarrow> entries | _ \<Rightarrow> [])"

definition fileExtents :: "Inode \<Rightarrow> int list" where
  "fileExtents inode = (case body inode of File fsize extents \<Rightarrow> extents | _ \<Rightarrow> [])"

record OrphanRecord =
  orphanInodeId :: int
  orphanMode :: int
  orphanAtimeMs :: int
  orphanMtimeMs :: int
  orphanCtimeMs :: int
  orphanSize :: int
  orphanExtents :: "int list"

record AllocatorState =
  totalExtents :: int
  ownedBy :: "(int \<times> int) list"
  available :: IndexedExtentSet
  quarantine :: "(int \<times> int option) list"

record VfsState =
  generation :: int
  nextInodeId :: int
  rootInodeId :: int
  extentSize :: int
  activeMetadataFile :: MetadataFile
  retainedGenerations :: "MetadataFile \<Rightarrow> int option"
  basePayloadBytes :: int
  inodes :: "(int \<times> Inode) list"
  parentByInode :: "(int \<times> (int \<times> js_string)) list"
  allocator :: AllocatorState

record CreateDirectoryChoice =
  choiceParentId :: int
  choiceName :: js_string
  choiceInodeId :: int
  choiceMode :: int
  choiceAtimeMs :: int
  choiceMtimeMs :: int
  choiceCtimeMs :: int

datatype ResizeOperation = TruncateOp | WriteOp

text \<open>
  The fields of a record in the source's order; \<open>createFile\<close> and \<open>createSymlink\<close> share the first
  seven fields with a created directory, and carry them as a \<^typ>\<open>CreateDirectoryChoice\<close>.
\<close>

datatype TxnRecord =
  CreateDirectories "CreateDirectoryChoice list"
| CreateFile CreateDirectoryChoice int "ExtentRun list"
| RemoveFile int js_string int int
| ChangeMode int int int
| ChangeTimes int int int int
| ResizeFile ResizeOperation int int "ExtentRun list" int int
| RemoveDirectory int js_string int int
| Rename int js_string int js_string int
| CreateSymlink CreateDirectoryChoice js_string
| ReserveQuarantine "ExtentRun list"

definition makeOrphanRecord :: "Inode \<Rightarrow> int \<Rightarrow> int list \<Rightarrow> OrphanRecord" where
  "makeOrphanRecord inode fsize extents =
     \<lparr>orphanInodeId = inodeId inode, orphanMode = imode inode, orphanAtimeMs = atimeMs inode,
      orphanMtimeMs = mtimeMs inode, orphanCtimeMs = ctimeMs inode,
      orphanSize = fsize, orphanExtents = extents\<rparr>"

section \<open>Size accounting\<close>

definition BASE_STATE_FIXED_BYTES :: int where [limit_defs]: "BASE_STATE_FIXED_BYTES = 20"
definition DIRECTORY_INODE_FIXED_BYTES :: int where
  [limit_defs]: "DIRECTORY_INODE_FIXED_BYTES = 41"
definition FILE_INODE_FIXED_BYTES :: int where [limit_defs]: "FILE_INODE_FIXED_BYTES = 49"
definition SYMLINK_INODE_FIXED_BYTES :: int where [limit_defs]: "SYMLINK_INODE_FIXED_BYTES = 39"
definition CHILD_FIXED_BYTES :: int where [limit_defs]: "CHILD_FIXED_BYTES = 10"
definition SYMLINK_MODE :: int where [limit_defs]: "SYMLINK_MODE = 41471"

definition childBaseBytes :: "js_string \<Rightarrow> int res" where
  "childBaseBytes name = ebind (encodedUtf8Length name) (\<lambda>n. Inr (CHILD_FIXED_BYTES + n))"

definition inodeBaseBytes :: "Inode \<Rightarrow> int res" where
  "inodeBaseBytes inode =
     (case body inode of
        File fsize extents \<Rightarrow> Inr (FILE_INODE_FIXED_BYTES + int (length extents) * 8)
      | Symlink target \<Rightarrow>
          ebind (encodedUtf8Length target) (\<lambda>n. Inr (SYMLINK_INODE_FIXED_BYTES + n))
      | Directory entries \<Rightarrow>
          fold_res (\<lambda>name bytes. ebind (childBaseBytes name) (\<lambda>n. Inr (bytes + n)))
            (keys_of entries) DIRECTORY_INODE_FIXED_BYTES)"

definition estimateMetadataBasePayloadBytes :: "VfsState \<Rightarrow> int res" where
  "estimateMetadataBasePayloadBytes state =
     ebind (fold_res (\<lambda>inode bytes. ebind (inodeBaseBytes inode) (\<lambda>n. Inr (bytes + n)))
              (map snd (inodes state)) BASE_STATE_FIXED_BYTES)
       (\<lambda>bytes. Inr (bytes + int (sizeExtent (available (allocator state))) * 8
                     + int (length (quarantine (allocator state))) * 16))"

definition extentRunsPayloadBytes :: "ExtentRun list \<Rightarrow> int" where
  "extentRunsPayloadBytes runs = 4 + int (length runs) * 12"

definition estimateTxnPayloadBytes :: "TxnRecord \<Rightarrow> int res" where
  "estimateTxnPayloadBytes record =
     (case record of
        CreateDirectories entries \<Rightarrow>
          ebind (fold_res (\<lambda>entry bytes. ebind (encodedUtf8Length (choiceName entry))
                    (\<lambda>n. Inr (bytes + 8 + 2 + n + 8 + 4 + 24))) entries 0)
            (\<lambda>bytes. Inr (5 + bytes))
      | CreateFile choice fsize extents \<Rightarrow>
          ebind (encodedUtf8Length (choiceName choice))
            (\<lambda>n. Inr (1 + 8 + 2 + n + 8 + 4 + 24 + 8 + extentRunsPayloadBytes extents))
      | RemoveFile parentId name _ _ \<Rightarrow>
          ebind (encodedUtf8Length name) (\<lambda>n. Inr (1 + 8 + 2 + n + 16))
      | RemoveDirectory parentId name _ _ \<Rightarrow>
          ebind (encodedUtf8Length name) (\<lambda>n. Inr (1 + 8 + 2 + n + 16))
      | ChangeMode _ _ _ \<Rightarrow> Inr (1 + 8 + 4 + 8)
      | ChangeTimes _ _ _ _ \<Rightarrow> Inr (1 + 8 + 24)
      | ResizeFile _ _ _ allocated _ _ \<Rightarrow>
          Inr (1 + 1 + 8 + 8 + extentRunsPayloadBytes allocated + 16)
      | Rename _ sourceName _ destinationName _ \<Rightarrow>
          ebind (encodedUtf8Length sourceName) (\<lambda>s.
          ebind (encodedUtf8Length destinationName) (\<lambda>d.
            Inr (1 + 8 + 2 + s + 8 + 2 + d + 8)))
      | CreateSymlink choice target \<Rightarrow>
          ebind (encodedUtf8Length (choiceName choice)) (\<lambda>n.
          ebind (encodedUtf8Length target) (\<lambda>t.
            Inr (1 + 8 + 2 + n + 8 + 4 + 24 + 2 + t)))
      | ReserveQuarantine extents \<Rightarrow> Inr (1 + extentRunsPayloadBytes extents))"

section \<open>Access by inode id\<close>

definition directoryById :: "VfsState \<Rightarrow> int \<Rightarrow> Inode res" where
  "directoryById state iid =
     (case map_of (inodes state) iid of
        None \<Rightarrow> Inl (FsError ENOENT)
      | Some inode \<Rightarrow> if \<not> isDirectory inode then Inl (FsError ENOTDIR) else Inr inode)"

definition inodeById :: "VfsState \<Rightarrow> int \<Rightarrow> Inode res" where
  "inodeById state iid =
     (case map_of (inodes state) iid of
        None \<Rightarrow> Inl (FsError ENOENT)
      | Some inode \<Rightarrow> Inr inode)"

definition fileById :: "VfsState \<Rightarrow> int \<Rightarrow> (Inode \<times> int \<times> int list) res" where
  "fileById state iid =
     ebind (inodeById state iid) (\<lambda>inode.
       case body inode of
         File fsize extents \<Rightarrow> Inr (inode, fsize, extents)
       | _ \<Rightarrow> Inl (FsError EISDIR))"

definition extentCountForSize :: "int \<Rightarrow> int \<Rightarrow> int res" where
  "extentCountForSize fsize extSize =
     ebind (checkedU64 fsize) (\<lambda>_.
       if fsize = 0 then Inr 0
       else
         let n = (fsize + extSize - 1) div extSize in
         if n > MAX_EXTENTS_PER_INODE then Inl StoreLimitError else Inr n)"

section \<open>Preflight\<close>

definition selectedExtentsAlreadyAvailable :: "VfsState \<Rightarrow> ExtentRun list \<Rightarrow> int res" where
  "selectedExtentsAlreadyAvailable state runs =
     ebind (expandExtentRuns runs MAX_EXTENTS_PER_INODE) (\<lambda>extents.
       Inr (int (length (filter (\<lambda>extentId. extentId < totalExtents (allocator state)) extents))))"

definition projectedBaseDelta :: "VfsState \<Rightarrow> TxnRecord \<Rightarrow> int res" where
  "projectedBaseDelta state record =
     (case record of
        CreateDirectories entries \<Rightarrow>
          fold_res (\<lambda>entry bytes. ebind (childBaseBytes (choiceName entry))
              (\<lambda>n. Inr (bytes + DIRECTORY_INODE_FIXED_BYTES + n))) entries 0
      | CreateFile choice fsize extents \<Rightarrow>
          ebind (expandExtentRuns extents MAX_EXTENTS_PER_INODE) (\<lambda>expanded.
          ebind (selectedExtentsAlreadyAvailable state extents) (\<lambda>reused.
          ebind (childBaseBytes (choiceName choice)) (\<lambda>child.
            Inr (FILE_INODE_FIXED_BYTES + int (length expanded) * 8 + child - reused * 8))))
      | RemoveFile parentId name _ _ \<Rightarrow>
          ebind (directoryById state parentId) (\<lambda>parent.
            case Option.bind (map_of (children parent) name) (map_of (inodes state)) of
              None \<Rightarrow> Inl (FsError ENOENT)
            | Some inode \<Rightarrow>
                if isDirectory inode then Inl (FsError ENOENT)
                else
                  ebind (inodeBaseBytes inode) (\<lambda>own.
                  ebind (childBaseBytes name) (\<lambda>child.
                    Inr (- own - child + int (length (fileExtents inode)) * 16))))
      | ChangeMode _ _ _ \<Rightarrow> Inr 0
      | ChangeTimes _ _ _ _ \<Rightarrow> Inr 0
      | ResizeFile _ iid fsize allocated _ _ \<Rightarrow>
          ebind (fileById state iid) (\<lambda>(inode, oldSize, extents).
          ebind (extentCountForSize fsize (extentSize state)) (\<lambda>required.
          let allocatedCount = max 0 (required - int (length extents));
              releasedCount = max 0 (int (length extents) - required) in
          ebind (selectedExtentsAlreadyAvailable state allocated) (\<lambda>reused.
            Inr ((allocatedCount - releasedCount) * 8 - reused * 8 + releasedCount * 16))))
      | RemoveDirectory parentId name _ _ \<Rightarrow>
          ebind (directoryById state parentId) (\<lambda>parent.
            case Option.bind (map_of (children parent) name) (map_of (inodes state)) of
              None \<Rightarrow> Inl (FsError ENOENT)
            | Some inode \<Rightarrow>
                if \<not> isDirectory inode then Inl (FsError ENOENT)
                else
                  ebind (inodeBaseBytes inode) (\<lambda>own.
                  ebind (childBaseBytes name) (\<lambda>child. Inr (- own - child))))
      | Rename sourceParentId sourceName destinationParentId destinationName _ \<Rightarrow>
          ebind (directoryById state sourceParentId) (\<lambda>sourceParent.
          ebind (directoryById state destinationParentId) (\<lambda>destinationParent.
          ebind (childBaseBytes sourceName) (\<lambda>sourceBytes.
          ebind
            (case Option.bind (map_of (children destinationParent) destinationName)
                    (map_of (inodes state)) of
               None \<Rightarrow> ebind (childBaseBytes destinationName) (\<lambda>d. Inr (- sourceBytes + d))
             | Some destination \<Rightarrow>
                 ebind (inodeBaseBytes destination) (\<lambda>own.
                   Inr (- sourceBytes - own + int (length (fileExtents destination)) * 16)))
            (\<lambda>delta.
              case map_of (children sourceParent) sourceName of
                None \<Rightarrow> Inl (FsError ENOENT)
              | Some _ \<Rightarrow> Inr delta))))
      | CreateSymlink choice target \<Rightarrow>
          ebind (encodedUtf8Length target) (\<lambda>t.
          ebind (childBaseBytes (choiceName choice)) (\<lambda>child.
            Inr (SYMLINK_INODE_FIXED_BYTES + t + child)))
      | ReserveQuarantine extents \<Rightarrow>
          ebind (expandExtentRuns extents MAX_EXTENTS_PER_INODE) (\<lambda>expanded.
          ebind (selectedExtentsAlreadyAvailable state extents) (\<lambda>reused.
            Inr (int (length expanded) * 16 - reused * 8))))"

record PreflightLimits =
  maxFramePayloadBytes :: int
  maxBasePayloadBytes :: int

definition defaultLimits :: PreflightLimits where
  "defaultLimits = \<lparr>maxFramePayloadBytes = MAX_FRAME_PAYLOAD_BYTES,
                    maxBasePayloadBytes = MAX_METADATA_BASE_WRITER_BYTES\<rparr>"

definition preflightTxn :: "VfsState \<Rightarrow> TxnRecord \<Rightarrow> PreflightLimits \<Rightarrow> int res" where
  "preflightTxn state record limits =
     ebind (estimateTxnPayloadBytes record) (\<lambda>payloadBytes.
       if payloadBytes > maxFramePayloadBytes limits then Inl StoreLimitError
       else
         ebind (projectedBaseDelta state record) (\<lambda>delta.
           let projected = basePayloadBytes state + delta in
           if \<not> isSafeInteger projected \<or> projected < 0 \<or> projected > maxBasePayloadBytes limits
           then Inl StoreLimitError
           else Inr projected))"

definition checkedPlan :: "VfsState \<Rightarrow> TxnRecord \<Rightarrow> TxnRecord res" where
  "checkedPlan state record = ebind (preflightTxn state record defaultLimits) (\<lambda>_. Inr record)"

section \<open>The initial state and field validation\<close>

definition createInitialState :: "int \<Rightarrow> VfsState res" where
  "createInitialState extSize =
     ebind (validateExtentSize extSize) (\<lambda>_.
       let root = \<lparr>inodeId = 1, imode = 16895, atimeMs = 0, mtimeMs = 0, ctimeMs = 0,
                   body = Directory []\<rparr> in
       Inr \<lparr>generation = 1, nextInodeId = 2, rootInodeId = 1, extentSize = extSize,
            activeMetadataFile = MetaA,
            retainedGenerations = (\<lambda>_. None)(MetaA := Some 1),
            basePayloadBytes = BASE_STATE_FIXED_BYTES + DIRECTORY_INODE_FIXED_BYTES,
            inodes = [(1, root)], parentByInode = [],
            allocator = \<lparr>totalExtents = 0, ownedBy = [], available = emptyExtentSet,
                         quarantine = []\<rparr>\<rparr>)"

definition validateMode :: "int \<Rightarrow> int res" where
  "validateMode mode =
     (if \<not> isSafeInteger mode \<or> mode < 0 \<or> mode > 0xffffffff then Inl (FsError EINVAL)
      else Inr mode)"

definition validateTimestamp :: "int \<Rightarrow> int res" where
  "validateTimestamp timestamp = checkedU64 timestamp"

definition advanceNextInodeId :: "int \<Rightarrow> int res" where
  "advanceNextInodeId iid = (if iid = MAX_U64 then Inl StoreLimitError else checkedAdd iid 1)"

section \<open>Paths\<close>

fun walkParents :: "VfsState \<Rightarrow> Inode \<Rightarrow> js_string list \<Rightarrow> Inode res" where
  "walkParents state parent [] = Inr parent"
| "walkParents state parent (component # rest) =
     (case map_of (children parent) component of
        None \<Rightarrow> Inl (FsError ENOENT)
      | Some childId \<Rightarrow>
          ebind (directoryById state childId) (\<lambda>parent'. walkParents state parent' rest))"

definition parentAndName :: "VfsState \<Rightarrow> js_string \<Rightarrow> (Inode \<times> js_string) res" where
  "parentAndName state path =
     ebind (parsePath path) (\<lambda>components.
       if components = [] then Inl (FsError EINVAL)
       else
         ebind (directoryById state (rootInodeId state)) (\<lambda>root.
         ebind (walkParents state root (butlast components)) (\<lambda>parent.
           Inr (parent, last components))))"

fun walkInodes :: "VfsState \<Rightarrow> Inode \<Rightarrow> js_string list \<Rightarrow> Inode res" where
  "walkInodes state inode [] = Inr inode"
| "walkInodes state inode (component # rest) =
     (if \<not> isDirectory inode then Inl (FsError ENOTDIR)
      else
        case map_of (children inode) component of
          None \<Rightarrow> Inl (FsError ENOENT)
        | Some childId \<Rightarrow>
            (case map_of (inodes state) childId of
               None \<Rightarrow> Inl StoreLimitError
             | Some child \<Rightarrow> walkInodes state child rest))"

definition getInodeAtPath :: "VfsState \<Rightarrow> js_string \<Rightarrow> Inode res" where
  "getInodeAtPath state path =
     ebind (parsePath path) (\<lambda>components.
       case map_of (inodes state) (rootInodeId state) of
         None \<Rightarrow> Inl StoreLimitError
       | Some root \<Rightarrow> walkInodes state root components)"

text \<open>
  The loop of \<open>resolveLinks\<close>. A hop restarts the walk at the root with at most
  \<^const>\<open>MAX_SYMLINK_HOPS\<close> hops, and every other iteration advances \<open>index\<close>: the loop ends.
\<close>

function resolveLoop ::
  "VfsState \<Rightarrow> bool \<Rightarrow> Inode \<Rightarrow> js_string list \<Rightarrow> nat \<Rightarrow> Inode \<Rightarrow> js_string list \<Rightarrow> int \<Rightarrow> js_string res"
where
  "resolveLoop state follow root pending index current resolved hops =
     (let finish = Inr (joinPath (slash # joinWith slash resolved) (drop index pending)) in
      if \<not> index < length pending then finish
      else if \<not> isDirectory current then finish
      else
        case map_of (children current) (pending ! index) of
          None \<Rightarrow> finish
        | Some childId \<Rightarrow>
            (case map_of (inodes state) childId of
               None \<Rightarrow> Inl StoreLimitError
             | Some child \<Rightarrow>
                 (case body child of
                    Symlink target \<Rightarrow>
                      if follow \<or> index < length pending - 1 then
                        if hops + 1 > MAX_SYMLINK_HOPS then Inl (FsError ELOOP)
                        else
                          ebind (parsePath (joinPath target (drop (index + 1) pending)))
                            (\<lambda>pending'. resolveLoop state follow root pending' 0 root [] (hops + 1))
                      else resolveLoop state follow root pending (index + 1) child
                             (resolved @ [pending ! index]) hops
                  | _ \<Rightarrow> resolveLoop state follow root pending (index + 1) child
                           (resolved @ [pending ! index]) hops)))"
  by pat_completeness auto
termination
  by (relation "measures [\<lambda>(st, fo, ro, p, i, c, r, h). nat (MAX_SYMLINK_HOPS - h),
                          \<lambda>(st, fo, ro, p, i, c, r, h). length p - i]") auto

declare resolveLoop.simps [simp del]

definition resolveLinks :: "VfsState \<Rightarrow> js_string \<Rightarrow> bool \<Rightarrow> js_string res" where
  "resolveLinks state path follow =
     (case map_of (inodes state) (rootInodeId state) of
        None \<Rightarrow> Inl StoreLimitError
      | Some root \<Rightarrow>
          ebind (parsePath path) (\<lambda>pending. resolveLoop state follow root pending 0 root [] 0))"

end
