(* ===== verification/Planner.thy ===== *)
theory Planner
  imports VfsState
begin

text \<open>
  The planners of \<open>state-machine.ts\<close>: each turns a request against the current state into a
  transaction record, or rejects it. A planner never changes the state; the record it returns has
  passed \<^const>\<open>preflightTxn\<close>.
\<close>

section \<open>Allocation\<close>

definition chooseExtents :: "VfsState \<Rightarrow> int \<Rightarrow> int list res" where
  "chooseExtents state n =
     (if n > MAX_EXTENTS_PER_INODE then Inl StoreLimitError
      else
        let availableCount = min n (int (sizeExtent (available (allocator state)))) in
        ebind (peekLast (available (allocator state)) availableCount) (\<lambda>chosen.
          let freshCount = n - availableCount in
          if totalExtents (allocator state) + freshCount > MAX_TOTAL_EXTENTS then Inl StoreLimitError
          else Inr (chosen
                 @ map (\<lambda>offset. totalExtents (allocator state) + int offset) [0..<nat freshCount])))"

section \<open>Creating\<close>

fun mkdirLoop ::
  "VfsState \<Rightarrow> bool \<Rightarrow> int \<Rightarrow> int \<Rightarrow> Inode \<Rightarrow> int \<Rightarrow> CreateDirectoryChoice list \<Rightarrow> js_string list
     \<Rightarrow> CreateDirectoryChoice list res"
where
  "mkdirLoop state recursive mode nowMs parent nextId entries [] = Inr entries"
| "mkdirLoop state recursive mode nowMs parent nextId entries (name # rest) =
     (case map_of (children parent) name of
        Some existingId \<Rightarrow>
          (case map_of (inodes state) existingId of
             None \<Rightarrow> Inl (FsError ENOTDIR)
           | Some existing \<Rightarrow>
               if \<not> isDirectory existing then Inl (FsError ENOTDIR)
               else if rest = [] then Inl (FsError EEXIST)
               else mkdirLoop state recursive mode nowMs existing nextId entries rest)
      | None \<Rightarrow>
          if \<not> recursive \<and> rest \<noteq> [] then Inl (FsError ENOENT)
          else if int (length (inodes state)) + int (length entries) \<ge> MAX_INODES
            then Inl StoreLimitError
          else
            ebind (checkedU64 nextId) (\<lambda>_.
            ebind (advanceNextInodeId nextId) (\<lambda>following.
              let entry = \<lparr>choiceParentId = inodeId parent, choiceName = name,
                           choiceInodeId = nextId, choiceMode = mode, choiceAtimeMs = nowMs,
                           choiceMtimeMs = nowMs, choiceCtimeMs = nowMs\<rparr>;
                  created = \<lparr>inodeId = nextId, imode = mode, atimeMs = nowMs, mtimeMs = nowMs,
                             ctimeMs = nowMs, body = Directory []\<rparr> in
              mkdirLoop state recursive mode nowMs created following (entries @ [entry]) rest)))"

definition planMkdir ::
  "VfsState \<Rightarrow> js_string \<Rightarrow> bool \<Rightarrow> int option \<Rightarrow> int \<Rightarrow> TxnRecord res"
where
  "planMkdir state path recursive modeOption nowMs =
     ebind (parsePath path) (\<lambda>components.
       if components = [] then Inl (FsError EEXIST)
       else
         ebind (validateMode (case modeOption of None \<Rightarrow> 16895 | Some m \<Rightarrow> m)) (\<lambda>mode.
         ebind (validateTimestamp nowMs) (\<lambda>now.
         ebind (directoryById state (rootInodeId state)) (\<lambda>root.
         ebind (mkdirLoop state recursive mode now root (nextInodeId state) [] components) (\<lambda>entries.
           if entries = [] then Inl (FsError EEXIST)
           else checkedPlan state (CreateDirectories entries))))))"

definition planCreateFile ::
  "VfsState \<Rightarrow> js_string \<Rightarrow> int option \<Rightarrow> int \<Rightarrow> int option \<Rightarrow> TxnRecord res"
where
  "planCreateFile state path modeOption nowMs sizeOption =
     ebind (parentAndName state path) (\<lambda>(parent, name).
       if map_of (children parent) name \<noteq> None then Inl (FsError EEXIST)
       else if int (length (inodes state)) \<ge> MAX_INODES then Inl StoreLimitError
       else
         ebind (checkedU64 (nextInodeId state)) (\<lambda>iid.
         ebind (advanceNextInodeId iid) (\<lambda>_.
         ebind (validateMode (case modeOption of None \<Rightarrow> 33206 | Some m \<Rightarrow> m)) (\<lambda>mode.
         ebind (validateTimestamp nowMs) (\<lambda>now.
         ebind (checkedU64 (case sizeOption of None \<Rightarrow> 0 | Some s \<Rightarrow> s)) (\<lambda>fsize.
         ebind (extentCountForSize fsize (extentSize state)) (\<lambda>n.
         ebind (chooseExtents state n) (\<lambda>chosen.
         ebind (toExtentRuns chosen) (\<lambda>extents.
           checkedPlan state (CreateFile
             \<lparr>choiceParentId = inodeId parent, choiceName = name, choiceInodeId = iid,
              choiceMode = mode, choiceAtimeMs = now, choiceMtimeMs = now, choiceCtimeMs = now\<rparr>
             fsize extents))))))))))"

definition planSymlink ::
  "VfsState \<Rightarrow> js_string \<Rightarrow> js_string \<Rightarrow> int option \<Rightarrow> int \<Rightarrow> TxnRecord res"
where
  "planSymlink state path target modeOption nowMs =
     ebind (parentAndName state path) (\<lambda>(parent, name).
       if map_of (children parent) name \<noteq> None then Inl (FsError EEXIST)
       else if int (length (inodes state)) \<ge> MAX_INODES then Inl StoreLimitError
       else
         ebind (validateSymlinkTarget target) (\<lambda>_.
         ebind (checkedU64 (nextInodeId state)) (\<lambda>iid.
         ebind (advanceNextInodeId iid) (\<lambda>_.
         ebind (validateTimestamp nowMs) (\<lambda>now.
         ebind (validateMode (case modeOption of None \<Rightarrow> SYMLINK_MODE | Some m \<Rightarrow> m)) (\<lambda>mode.
           checkedPlan state (CreateSymlink
             \<lparr>choiceParentId = inodeId parent, choiceName = name, choiceInodeId = iid,
              choiceMode = mode, choiceAtimeMs = now, choiceMtimeMs = now, choiceCtimeMs = now\<rparr>
             target)))))))"

section \<open>Removing\<close>

definition planUnlink :: "VfsState \<Rightarrow> js_string \<Rightarrow> int \<Rightarrow> TxnRecord res" where
  "planUnlink state path nowMs =
     ebind (parentAndName state path) (\<lambda>(parent, name).
       case Option.bind (map_of (children parent) name) (map_of (inodes state)) of
         None \<Rightarrow> Inl (FsError ENOENT)
       | Some inode \<Rightarrow>
           if isDirectory inode then Inl (FsError EISDIR)
           else
             ebind (validateTimestamp nowMs) (\<lambda>timestamp.
               checkedPlan state (RemoveFile (inodeId parent) name timestamp timestamp)))"

definition planRmdir :: "VfsState \<Rightarrow> js_string \<Rightarrow> int \<Rightarrow> TxnRecord res" where
  "planRmdir state path nowMs =
     ebind (parentAndName state path) (\<lambda>(parent, name).
       case Option.bind (map_of (children parent) name) (map_of (inodes state)) of
         None \<Rightarrow> Inl (FsError ENOENT)
       | Some inode \<Rightarrow>
           if \<not> isDirectory inode then Inl (FsError ENOTDIR)
           else if children inode \<noteq> [] then Inl (FsError ENOTEMPTY)
           else
             ebind (validateTimestamp nowMs) (\<lambda>timestamp.
               checkedPlan state (RemoveDirectory (inodeId parent) name timestamp timestamp)))"

section \<open>Changing attributes and sizes\<close>

definition planChmod :: "VfsState \<Rightarrow> js_string \<Rightarrow> int \<Rightarrow> int \<Rightarrow> TxnRecord res" where
  "planChmod state path mode nowMs =
     ebind (getInodeAtPath state path) (\<lambda>inode.
     ebind (validateMode mode) (\<lambda>m.
     ebind (validateTimestamp nowMs) (\<lambda>now.
       checkedPlan state (ChangeMode (inodeId inode) m now))))"

definition planUtimes :: "VfsState \<Rightarrow> js_string \<Rightarrow> int \<Rightarrow> int \<Rightarrow> int \<Rightarrow> TxnRecord res" where
  "planUtimes state path atime mtime ctime =
     ebind (getInodeAtPath state path) (\<lambda>inode.
     ebind (validateTimestamp atime) (\<lambda>a.
     ebind (validateTimestamp mtime) (\<lambda>m.
     ebind (validateTimestamp ctime) (\<lambda>c.
       checkedPlan state (ChangeTimes (inodeId inode) a m c)))))"

text \<open>The source compares the inode by identity; here the state must hold this very inode.\<close>

definition planResizeFileForInode ::
  "VfsState \<Rightarrow> Inode \<Rightarrow> int \<Rightarrow> int \<Rightarrow> ResizeOperation \<Rightarrow> TxnRecord res"
where
  "planResizeFileForInode state inode fsize nowMs operation =
     (if map_of (inodes state) (inodeId inode) \<noteq> Some inode then Inl StoreLimitError
      else
        ebind (checkedU64 fsize) (\<lambda>checkedSize.
        ebind (extentCountForSize checkedSize (extentSize state)) (\<lambda>required.
        let additional = max 0 (required - int (length (fileExtents inode))) in
        ebind (validateTimestamp nowMs) (\<lambda>timestamp.
        ebind (chooseExtents state additional) (\<lambda>chosen.
        ebind (toExtentRuns chosen) (\<lambda>allocated.
          checkedPlan state
            (ResizeFile operation (inodeId inode) checkedSize allocated timestamp timestamp)))))))"

definition planResizeFile ::
  "VfsState \<Rightarrow> js_string \<Rightarrow> int \<Rightarrow> int \<Rightarrow> ResizeOperation \<Rightarrow> TxnRecord res"
where
  "planResizeFile state path fsize nowMs operation =
     ebind (getInodeAtPath state path) (\<lambda>inode.
       case body inode of
         File _ _ \<Rightarrow> planResizeFileForInode state inode fsize nowMs operation
       | _ \<Rightarrow> Inl (FsError EISDIR))"

section \<open>Renaming\<close>

text \<open>
  The recursions below descend the directory tree; \<open>fuel\<close> bounds the depth of the call stack, and
  a stack deeper than it is the \<open>RangeError\<close> JavaScript throws. A tree of \<open>n\<close> inodes is never
  deeper than \<open>n\<close>, which is the fuel used.
\<close>

fun directoryContains :: "nat \<Rightarrow> VfsState \<Rightarrow> Inode \<Rightarrow> int \<Rightarrow> bool res" where
  "directoryContains 0 state directory candidateId = Inl StackOverflow"
| "directoryContains (Suc fuel) state directory candidateId =
     (if inodeId directory = candidateId then Inr True
      else
        any_res
          (\<lambda>(name, childId). ebind (inodeById state childId) (\<lambda>child.
             if isDirectory child then directoryContains fuel state child candidateId
             else Inr False))
          (children directory))"

definition treeFuel :: "VfsState \<Rightarrow> nat" where
  "treeFuel state = Suc (length (inodes state))"

record PathMetrics =
  depth :: int
  bytes :: int

definition childPathMetrics :: "PathMetrics \<Rightarrow> js_string \<Rightarrow> PathMetrics res" where
  "childPathMetrics parent name =
     ebind (encodedUtf8Length name) (\<lambda>n.
       Inr \<lparr>depth = depth parent + 1,
            bytes = bytes parent + (if depth parent = 0 then 0 else 1) + n\<rparr>)"

text \<open>The parent walk ends: every iteration visits a key of the parent index not visited before.\<close>

function findPathMetricsLoop :: "VfsState \<Rightarrow> int \<Rightarrow> int \<Rightarrow> int \<Rightarrow> int list \<Rightarrow> PathMetrics res" where
  "findPathMetricsLoop state currentId d componentBytes visited =
     (if currentId = rootInodeId state
      then Inr \<lparr>depth = d, bytes = 1 + componentBytes + max 0 (d - 1)\<rparr>
      else if currentId \<in> set visited then Inl StoreLimitError
      else
        case map_of (parentByInode state) currentId of
          None \<Rightarrow> Inl StoreLimitError
        | Some (parentId, name) \<Rightarrow>
            ebind (encodedUtf8Length name) (\<lambda>n.
              findPathMetricsLoop state parentId (d + 1) (componentBytes + n) (currentId # visited)))"
  by pat_completeness auto
termination
proof (relation "measure (\<lambda>(st, c, d, b, v). card (set (keys_of (parentByInode st)) - set v))")
  fix state :: VfsState and currentId d componentBytes :: int and visited x2 x y xa
  assume new: "currentId \<notin> set visited" and "map_of (parentByInode state) currentId = Some x2"
  then have "currentId \<in> set (keys_of (parentByInode state)) - set visited"
    by (auto dest: map_of_SomeD intro: rev_image_eqI)
  moreover have "set (keys_of (parentByInode state)) - set (currentId # visited)
      = set (keys_of (parentByInode state)) - set visited - {currentId}" by auto
  ultimately have "card (set (keys_of (parentByInode state)) - set (currentId # visited))
      < card (set (keys_of (parentByInode state)) - set visited)"
    by (metis List.finite_set card_Diff1_less finite_Diff)
  then show "((state, x, d + 1, componentBytes + xa, currentId # visited),
      (state, currentId, d, componentBytes, visited))
      \<in> measure (\<lambda>(st, c, d, b, v). card (set (keys_of (parentByInode st)) - set v))"
    by simp
qed simp

declare findPathMetricsLoop.simps [simp del]

definition findPathMetrics :: "VfsState \<Rightarrow> int \<Rightarrow> PathMetrics res" where
  "findPathMetrics state targetId = findPathMetricsLoop state targetId 0 0 []"

text \<open>
  \<open>visit\<close> rejects a depth above \<^const>\<open>MAX_PATH_DEPTH\<close> before it descends, so its stack never
  exceeds \<open>MAX_PATH_DEPTH + 1\<close> frames from depth 1.
\<close>

fun visitBounds :: "nat \<Rightarrow> VfsState \<Rightarrow> Inode \<Rightarrow> PathMetrics \<Rightarrow> unit res" where
  "visitBounds 0 state inode metrics = Inl StackOverflow"
| "visitBounds (Suc fuel) state inode metrics =
     (if depth metrics > MAX_PATH_DEPTH then Inl (FsError EINVAL)
      else if bytes metrics > MAX_PATH_BYTES then Inl (FsError EINVAL)
      else
        each_res
          (\<lambda>(name, childId). ebind (inodeById state childId) (\<lambda>child.
             ebind (childPathMetrics metrics name) (\<lambda>childMetrics.
               visitBounds fuel state child childMetrics)))
          (children inode))"

definition boundsFuel :: nat where
  "boundsFuel = 34"

definition validateRenamedSubtreeBounds :: "VfsState \<Rightarrow> Inode \<Rightarrow> Inode \<Rightarrow> js_string \<Rightarrow> unit res" where
  "validateRenamedSubtreeBounds state source destinationParent destinationName =
     ebind (findPathMetrics state (inodeId destinationParent)) (\<lambda>destinationMetrics.
     ebind (childPathMetrics destinationMetrics destinationName) (\<lambda>metrics.
       visitBounds boundsFuel state source metrics))"

definition validateRenameTypes :: "Inode \<Rightarrow> Inode option \<Rightarrow> unit res" where
  "validateRenameTypes source destinationOption =
     (case destinationOption of
        None \<Rightarrow> Inr ()
      | Some destination \<Rightarrow>
          if \<not> isDirectory source \<and> isDirectory destination then Inl (FsError EISDIR)
          else if isDirectory source \<and> \<not> isDirectory destination then Inl (FsError ENOTDIR)
          else if isDirectory destination \<and> children destination \<noteq> [] then Inl (FsError ENOTEMPTY)
          else Inr ())"

definition optionalInodeById :: "VfsState \<Rightarrow> int option \<Rightarrow> Inode option res" where
  "optionalInodeById state iidOption =
     (case iidOption of
        None \<Rightarrow> Inr None
      | Some iid \<Rightarrow> ebind (inodeById state iid) (\<lambda>inode. Inr (Some inode)))"

definition planRename :: "VfsState \<Rightarrow> js_string \<Rightarrow> js_string \<Rightarrow> int \<Rightarrow> TxnRecord res" where
  "planRename state oldPath newPath nowMs =
     (if oldPath = newPath then Inl (FsError EINVAL)
      else
        ebind (parentAndName state oldPath) (\<lambda>(sourceParent, sourceName).
        ebind (parentAndName state newPath) (\<lambda>(destinationParent, destinationName).
          case map_of (children sourceParent) sourceName of
            None \<Rightarrow> Inl (FsError ENOENT)
          | Some sourceId \<Rightarrow>
              ebind (inodeById state sourceId) (\<lambda>source.
              ebind (optionalInodeById state (map_of (children destinationParent) destinationName))
                (\<lambda>destination.
              ebind (validateRenameTypes source destination) (\<lambda>_.
              ebind (if isDirectory source
                     then directoryContains (treeFuel state) state source (inodeId destinationParent)
                     else Inr False) (\<lambda>inside.
                if inside then Inl (FsError EINVAL)
                else
                  ebind (validateRenamedSubtreeBounds state source destinationParent destinationName)
                    (\<lambda>_.
                  ebind (validateTimestamp nowMs) (\<lambda>timestamp.
                    checkedPlan state
                      (Rename (inodeId sourceParent) sourceName (inodeId destinationParent)
                         destinationName timestamp))))))))))"

section \<open>Reserving extents for an unlinked file\<close>

definition planReserveQuarantine :: "VfsState \<Rightarrow> int \<Rightarrow> TxnRecord res" where
  "planReserveQuarantine state n =
     (if \<not> isSafeInteger n \<or> n \<le> 0 \<or> n > MAX_EXTENTS_PER_INODE then Inl StoreLimitError
      else
        ebind (chooseExtents state n) (\<lambda>chosen.
        ebind (toExtentRuns chosen) (\<lambda>extents.
          checkedPlan state (ReserveQuarantine extents))))"

end
