(* ===== verification/Txn.thy ===== *)
theory Txn
  imports Planner
begin

text \<open>
  The transaction reducer \<open>applyTxn\<close> of \<open>state-machine.ts\<close>. A reducer whose every throw precedes its
  first mutation returns the new state or an error. \<open>createDirectories\<close> mutates entry by entry
  between calls that can throw, so its loop returns the error together with the state it leaves,
  and so does \<open>applyTxn\<close>: that a failed transaction leaves the state as it was is a theorem.

  The objects behind \<open>state.inodes.get(id)\<close> are mutated in place; here the entry under \<open>id\<close> is
  altered, in the order of the source's statements, so aliasing (a source parent that is also the
  destination parent) is that of the code.
\<close>

section \<open>In-place updates\<close>

definition setChild :: "int \<Rightarrow> js_string \<Rightarrow> int \<Rightarrow> VfsState \<Rightarrow> VfsState" where
  "setChild parentId name childId state = state\<lparr>inodes :=
     alter parentId (\<lambda>inode. inode\<lparr>body := Directory (AList.update name childId (children inode))\<rparr>)
       (inodes state)\<rparr>"

definition deleteChild :: "int \<Rightarrow> js_string \<Rightarrow> VfsState \<Rightarrow> VfsState" where
  "deleteChild parentId name state = state\<lparr>inodes :=
     alter parentId (\<lambda>inode. inode\<lparr>body := Directory (AList.delete name (children inode))\<rparr>)
       (inodes state)\<rparr>"

definition setInode :: "int \<Rightarrow> Inode \<Rightarrow> VfsState \<Rightarrow> VfsState" where
  "setInode iid inode state = state\<lparr>inodes := AList.update iid inode (inodes state)\<rparr>"

definition deleteInode :: "int \<Rightarrow> VfsState \<Rightarrow> VfsState" where
  "deleteInode iid state = state\<lparr>inodes := AList.delete iid (inodes state),
     parentByInode := AList.delete iid (parentByInode state)\<rparr>"

definition setParent :: "int \<Rightarrow> int \<Rightarrow> js_string \<Rightarrow> VfsState \<Rightarrow> VfsState" where
  "setParent iid parentId name state = state\<lparr>parentByInode :=
     AList.update iid (parentId, name) (parentByInode state)\<rparr>"

definition touch :: "int \<Rightarrow> (Inode \<Rightarrow> Inode) \<Rightarrow> VfsState \<Rightarrow> VfsState" where
  "touch iid f state = state\<lparr>inodes := alter iid f (inodes state)\<rparr>"

definition setTimes :: "int \<Rightarrow> int \<Rightarrow> Inode \<Rightarrow> Inode" where
  "setTimes mtime ctime inode = inode\<lparr>mtimeMs := mtime, ctimeMs := ctime\<rparr>"

section \<open>Extents\<close>

definition checkExtentChoice :: "AllocatorState \<Rightarrow> int \<Rightarrow> int \<Rightarrow> int res" where
  "checkExtentChoice alloc extentId nextFresh =
     (if extentId < totalExtents alloc then
        if \<not> hasExtent (available alloc) extentId then Inl (FsError EINVAL) else Inr nextFresh
      else if extentId \<noteq> nextFresh then Inl (FsError EINVAL)
      else Inr (nextFresh + 1))"

definition validateExtentAssignment :: "VfsState \<Rightarrow> ExtentRun list \<Rightarrow> int \<Rightarrow> int list res" where
  "validateExtentAssignment state runs expectedCount =
     ebind (expandExtentRuns runs MAX_EXTENTS_PER_INODE) (\<lambda>extents.
       if int (length extents) \<noteq> expectedCount then Inl (FsError EINVAL)
       else if \<not> distinct extents then Inl (FsError EINVAL)
       else
         ebind (fold_res (checkExtentChoice (allocator state)) extents
                  (totalExtents (allocator state))) (\<lambda>nextFresh.
           if nextFresh > MAX_TOTAL_EXTENTS then Inl StoreLimitError else Inr extents))"

text \<open>One iteration of the loops that take chosen extents out of the pool or off the arena's end.\<close>

definition takeExtent :: "int \<Rightarrow> AllocatorState \<Rightarrow> AllocatorState" where
  "takeExtent extentId alloc =
     (if extentId < totalExtents alloc
      then alloc\<lparr>available := snd (deleteExtent (available alloc) extentId)\<rparr>
      else alloc\<lparr>totalExtents := totalExtents alloc + 1\<rparr>)"

definition ownExtent :: "int \<Rightarrow> int \<Rightarrow> AllocatorState \<Rightarrow> AllocatorState" where
  "ownExtent owner extentId alloc =
     (let alloc' = takeExtent extentId alloc in
      alloc'\<lparr>ownedBy := AList.update extentId owner (ownedBy alloc')\<rparr>)"

definition reserveExtent :: "int \<Rightarrow> AllocatorState \<Rightarrow> AllocatorState" where
  "reserveExtent extentId alloc =
     (let alloc' = takeExtent extentId alloc in
      alloc'\<lparr>quarantine := AList.update extentId None (quarantine alloc')\<rparr>)"

definition releaseExtent :: "int \<Rightarrow> AllocatorState \<Rightarrow> AllocatorState" where
  "releaseExtent extentId alloc =
     alloc\<lparr>ownedBy := AList.delete extentId (ownedBy alloc),
           quarantine := AList.update extentId None (quarantine alloc)\<rparr>"

definition checkOwnedBy :: "VfsState \<Rightarrow> int \<Rightarrow> int list \<Rightarrow> unit res" where
  "checkOwnedBy state owner extents =
     each_res (\<lambda>extentId.
       if map_of (ownedBy (allocator state)) extentId \<noteq> Some owner
          \<or> map_of (quarantine (allocator state)) extentId \<noteq> None
       then Inl StoreLimitError else Inr ()) extents"

section \<open>The reducers\<close>

definition validateDirectoryEntry ::
  "VfsState \<Rightarrow> CreateDirectoryChoice \<Rightarrow> (int \<times> Inode) list \<times> int \<Rightarrow> ((int \<times> Inode) list \<times> int) res"
where
  "validateDirectoryEntry state entry loop =
     (case loop of (staged, expectedInodeId) \<Rightarrow>
       ebind (validatePathComponent (choiceName entry)) (\<lambda>_.
       ebind (validateMode (choiceMode entry)) (\<lambda>_.
       ebind (validateTimestamp (choiceAtimeMs entry)) (\<lambda>_.
       ebind (validateTimestamp (choiceMtimeMs entry)) (\<lambda>_.
       ebind (validateTimestamp (choiceCtimeMs entry)) (\<lambda>_.
         if choiceInodeId entry \<noteq> expectedInodeId \<or> choiceInodeId entry > MAX_U64
         then Inl (FsError EINVAL)
         else
           ebind (case map_of staged (choiceParentId entry) of
                    Some directory \<Rightarrow> Inr directory
                  | None \<Rightarrow> directoryById state (choiceParentId entry)) (\<lambda>parent.
             if map_of (children parent) (choiceName entry) \<noteq> None then Inl (FsError EEXIST)
             else
               let parent' = parent\<lparr>body := Directory
                     (AList.update (choiceName entry) (choiceInodeId entry) (children parent))\<rparr>;
                   created = \<lparr>inodeId = choiceInodeId entry, imode = choiceMode entry,
                     atimeMs = choiceAtimeMs entry, mtimeMs = choiceMtimeMs entry,
                     ctimeMs = choiceCtimeMs entry, body = Directory []\<rparr> in
               ebind (advanceNextInodeId expectedInodeId) (\<lambda>next.
                 Inr (AList.update (choiceInodeId entry) created
                        (AList.update (choiceParentId entry) parent' staged), next)))))))))"

definition validateCreateDirectories :: "VfsState \<Rightarrow> CreateDirectoryChoice list \<Rightarrow> unit res" where
  "validateCreateDirectories state entries =
     (if entries = [] then Inl (FsError EINVAL)
      else
        ebind (fold_res (validateDirectoryEntry state) entries ([], nextInodeId state)) (\<lambda>_.
          if int (length (inodes state)) + int (length entries) > MAX_INODES then Inl StoreLimitError
          else Inr ()))"

text \<open>The mutating loop of \<open>createDirectories\<close>: an error leaves the entries created so far.\<close>

definition applyDirectoryEntry ::
  "CreateDirectoryChoice \<Rightarrow> VfsState \<Rightarrow> store_error option \<times> VfsState"
where
  "applyDirectoryEntry entry state =
     (case directoryById state (choiceParentId entry) of
        Inl e \<Rightarrow> (Some e, state)
      | Inr parent \<Rightarrow>
          let created = \<lparr>inodeId = choiceInodeId entry, imode = choiceMode entry,
                atimeMs = choiceAtimeMs entry, mtimeMs = choiceMtimeMs entry,
                ctimeMs = choiceCtimeMs entry, body = Directory []\<rparr>;
              state1 = setChild (choiceParentId entry) (choiceName entry) (inodeId created) state;
              state2 = setInode (inodeId created) created state1;
              state3 = setParent (inodeId created) (inodeId parent) (choiceName entry) state2 in
          (case advanceNextInodeId (inodeId created) of
             Inl e \<Rightarrow> (Some e, state3)
           | Inr next \<Rightarrow> (None, state3\<lparr>nextInodeId := next\<rparr>)))"

fun applyDirectoryEntries ::
  "CreateDirectoryChoice list \<Rightarrow> VfsState \<Rightarrow> store_error option \<times> VfsState"
where
  "applyDirectoryEntries [] state = (None, state)"
| "applyDirectoryEntries (entry # rest) state =
     (case applyDirectoryEntry entry state of
        (Some e, state') \<Rightarrow> (Some e, state')
      | (None, state') \<Rightarrow> applyDirectoryEntries rest state')"

definition applyCreateFile :: "VfsState \<Rightarrow> CreateDirectoryChoice \<Rightarrow> int \<Rightarrow> ExtentRun list \<Rightarrow> VfsState res" where
  "applyCreateFile state choice fsize runs =
     ebind (validatePathComponent (choiceName choice)) (\<lambda>_.
     ebind (directoryById state (choiceParentId choice)) (\<lambda>parent.
       if map_of (children parent) (choiceName choice) \<noteq> None then Inl (FsError EEXIST)
       else if choiceInodeId choice \<noteq> nextInodeId state
               \<or> map_of (inodes state) (choiceInodeId choice) \<noteq> None then Inl (FsError EINVAL)
       else
         ebind (advanceNextInodeId (choiceInodeId choice)) (\<lambda>next.
         ebind (validateMode (choiceMode choice)) (\<lambda>_.
         ebind (validateTimestamp (choiceAtimeMs choice)) (\<lambda>_.
         ebind (validateTimestamp (choiceMtimeMs choice)) (\<lambda>_.
         ebind (validateTimestamp (choiceCtimeMs choice)) (\<lambda>_.
         ebind (checkedU64 fsize) (\<lambda>checkedSize.
         ebind (extentCountForSize checkedSize (extentSize state)) (\<lambda>n.
         ebind (validateExtentAssignment state runs n) (\<lambda>extents.
           if int (length (inodes state)) \<ge> MAX_INODES then Inl StoreLimitError
           else
             let inode = \<lparr>inodeId = choiceInodeId choice, imode = choiceMode choice,
                   atimeMs = choiceAtimeMs choice, mtimeMs = choiceMtimeMs choice,
                   ctimeMs = choiceCtimeMs choice, body = File checkedSize extents\<rparr>;
                 state1 = state\<lparr>allocator := fold (ownExtent (inodeId inode)) extents (allocator state)\<rparr>;
                 state2 = setChild (choiceParentId choice) (choiceName choice) (inodeId inode) state1;
                 state3 = setInode (inodeId inode) inode state2;
                 state4 = setParent (inodeId inode) (inodeId parent) (choiceName choice) state3 in
             Inr (state4\<lparr>nextInodeId := next\<rparr>)))))))))))"

definition applyCreateSymlink :: "VfsState \<Rightarrow> CreateDirectoryChoice \<Rightarrow> js_string \<Rightarrow> VfsState res" where
  "applyCreateSymlink state choice target =
     ebind (validatePathComponent (choiceName choice)) (\<lambda>_.
     ebind (directoryById state (choiceParentId choice)) (\<lambda>parent.
       if map_of (children parent) (choiceName choice) \<noteq> None then Inl (FsError EEXIST)
       else if choiceInodeId choice \<noteq> nextInodeId state
               \<or> map_of (inodes state) (choiceInodeId choice) \<noteq> None then Inl (FsError EINVAL)
       else
         ebind (advanceNextInodeId (choiceInodeId choice)) (\<lambda>next.
         ebind (validateMode (choiceMode choice)) (\<lambda>_.
         ebind (validateTimestamp (choiceAtimeMs choice)) (\<lambda>_.
         ebind (validateTimestamp (choiceMtimeMs choice)) (\<lambda>_.
         ebind (validateTimestamp (choiceCtimeMs choice)) (\<lambda>_.
         ebind (validateSymlinkTarget target) (\<lambda>_.
           if int (length (inodes state)) \<ge> MAX_INODES then Inl StoreLimitError
           else
             let inode = \<lparr>inodeId = choiceInodeId choice, imode = choiceMode choice,
                   atimeMs = choiceAtimeMs choice, mtimeMs = choiceMtimeMs choice,
                   ctimeMs = choiceCtimeMs choice, body = Symlink target\<rparr>;
                 state2 = setChild (choiceParentId choice) (choiceName choice) (inodeId inode) state;
                 state3 = setInode (inodeId inode) inode state2;
                 state4 = setParent (inodeId inode) (inodeId parent) (choiceName choice) state3 in
             Inr (state4\<lparr>nextInodeId := next\<rparr>)))))))))"

definition applyRemoveFile :: "VfsState \<Rightarrow> int \<Rightarrow> js_string \<Rightarrow> int \<Rightarrow> int \<Rightarrow> VfsState res" where
  "applyRemoveFile state parentId name parentMtime parentCtime =
     ebind (validatePathComponent name) (\<lambda>_.
     ebind (validateTimestamp parentMtime) (\<lambda>_.
     ebind (validateTimestamp parentCtime) (\<lambda>_.
     ebind (directoryById state parentId) (\<lambda>parent.
       case Option.bind (map_of (children parent) name) (map_of (inodes state)) of
         None \<Rightarrow> Inl (FsError ENOENT)
       | Some inode \<Rightarrow>
           if isDirectory inode then Inl (FsError EISDIR)
           else
             ebind (checkOwnedBy state (inodeId inode) (fileExtents inode)) (\<lambda>_.
               let state1 = deleteChild parentId name state;
                   state2 = touch parentId (setTimes parentMtime parentCtime) state1;
                   state3 = deleteInode (inodeId inode) state2 in
               Inr (state3\<lparr>allocator := fold releaseExtent (fileExtents inode) (allocator state3)\<rparr>))))))"

definition applyChangeMode :: "VfsState \<Rightarrow> int \<Rightarrow> int \<Rightarrow> int \<Rightarrow> VfsState res" where
  "applyChangeMode state iid mode ctime =
     ebind (inodeById state iid) (\<lambda>inode.
     ebind (validateMode mode) (\<lambda>m.
     ebind (validateTimestamp ctime) (\<lambda>c.
       Inr (touch iid (\<lambda>i. i\<lparr>imode := m, ctimeMs := c\<rparr>) state))))"

definition applyChangeTimes :: "VfsState \<Rightarrow> int \<Rightarrow> int \<Rightarrow> int \<Rightarrow> int \<Rightarrow> VfsState res" where
  "applyChangeTimes state iid atime mtime ctime =
     ebind (inodeById state iid) (\<lambda>inode.
     ebind (validateTimestamp atime) (\<lambda>a.
     ebind (validateTimestamp mtime) (\<lambda>m.
     ebind (validateTimestamp ctime) (\<lambda>c.
       Inr (touch iid (\<lambda>i. i\<lparr>atimeMs := a, mtimeMs := m, ctimeMs := c\<rparr>) state)))))"

definition applyResizeFile ::
  "VfsState \<Rightarrow> int \<Rightarrow> int \<Rightarrow> ExtentRun list \<Rightarrow> int \<Rightarrow> int \<Rightarrow> VfsState res"
where
  "applyResizeFile state iid fsize runs mtime ctime =
     ebind (fileById state iid) (\<lambda>(inode, oldSize, extents).
     ebind (checkedU64 fsize) (\<lambda>checkedSize.
     ebind (extentCountForSize checkedSize (extentSize state)) (\<lambda>required.
     let additionalCount = max 0 (required - int (length extents)) in
     ebind (validateExtentAssignment state runs additionalCount) (\<lambda>allocated.
     let retained = (if required \<ge> int (length extents) then extents else take (nat required) extents);
         released = drop (nat required) extents in
     ebind (checkOwnedBy state (inodeId inode) released) (\<lambda>_.
     ebind (validateTimestamp mtime) (\<lambda>m.
     ebind (validateTimestamp ctime) (\<lambda>c.
       let alloc1 = fold (ownExtent (inodeId inode)) allocated (allocator state);
           alloc2 = fold releaseExtent released alloc1 in
       Inr (touch iid
              (\<lambda>i. i\<lparr>body := File checkedSize (retained @ allocated), mtimeMs := m, ctimeMs := c\<rparr>)
              (state\<lparr>allocator := alloc2\<rparr>)))))))))"

definition applyRemoveDirectory :: "VfsState \<Rightarrow> int \<Rightarrow> js_string \<Rightarrow> int \<Rightarrow> int \<Rightarrow> VfsState res" where
  "applyRemoveDirectory state parentId name parentMtime parentCtime =
     ebind (validatePathComponent name) (\<lambda>_.
     ebind (directoryById state parentId) (\<lambda>parent.
       case Option.bind (map_of (children parent) name) (map_of (inodes state)) of
         None \<Rightarrow> Inl (FsError ENOENT)
       | Some inode \<Rightarrow>
           if \<not> isDirectory inode then Inl (FsError ENOTDIR)
           else if children inode \<noteq> [] then Inl (FsError ENOTEMPTY)
           else
             ebind (validateTimestamp parentMtime) (\<lambda>m.
             ebind (validateTimestamp parentCtime) (\<lambda>c.
               let state1 = deleteChild parentId name state;
                   state2 = touch parentId (setTimes m c) state1 in
               Inr (deleteInode (inodeId inode) state2)))))"

text \<open>The mutating tail of \<open>applyRename\<close>, after its last check.\<close>

definition commitRename ::
  "int \<Rightarrow> js_string \<Rightarrow> Inode \<Rightarrow> js_string \<Rightarrow> Inode \<Rightarrow> int \<Rightarrow> Inode option \<Rightarrow> int \<Rightarrow> int \<Rightarrow> VfsState \<Rightarrow> VfsState"
where
  "commitRename sourceParentId sourceName destinationParent destinationName source sourceId
       destinationOption destinationParentId now state =
     (let state1 = deleteChild sourceParentId sourceName state;
          state2 =
            (case destinationOption of
               None \<Rightarrow> state1
             | Some destination \<Rightarrow>
                 let s = deleteInode (inodeId destination)
                           (deleteChild destinationParentId destinationName state1) in
                 s\<lparr>allocator := fold releaseExtent (fileExtents destination) (allocator s)\<rparr>);
          state3 = setChild destinationParentId destinationName (inodeId source) state2;
          state4 = setParent (inodeId source) (inodeId destinationParent) destinationName state3;
          state5 = touch sourceId (\<lambda>i. i\<lparr>ctimeMs := now\<rparr>) state4;
          state6 = touch sourceParentId (setTimes now now) state5 in
      touch destinationParentId (setTimes now now) state6)"

definition applyRename :: "VfsState \<Rightarrow> int \<Rightarrow> js_string \<Rightarrow> int \<Rightarrow> js_string \<Rightarrow> int \<Rightarrow> VfsState res" where
  "applyRename state sourceParentId sourceName destinationParentId destinationName timestampMs =
     ebind (validatePathComponent sourceName) (\<lambda>_.
     ebind (validatePathComponent destinationName) (\<lambda>_.
       if sourceParentId = destinationParentId \<and> sourceName = destinationName
       then Inl (FsError EINVAL)
       else
         ebind (validateTimestamp timestampMs) (\<lambda>now.
         ebind (directoryById state sourceParentId) (\<lambda>sourceParent.
         ebind (directoryById state destinationParentId) (\<lambda>destinationParent.
           case map_of (children sourceParent) sourceName of
             None \<Rightarrow> Inl (FsError ENOENT)
           | Some sourceId \<Rightarrow>
               ebind (inodeById state sourceId) (\<lambda>source.
               ebind (optionalInodeById state (map_of (children destinationParent) destinationName))
                 (\<lambda>destinationOption.
               ebind (validateRenameTypes source destinationOption) (\<lambda>_.
               ebind (if isDirectory source
                      then directoryContains (treeFuel state) state source (inodeId destinationParent)
                      else Inr False) (\<lambda>inside.
                 if inside then Inl (FsError EINVAL)
                 else
                   ebind (validateRenamedSubtreeBounds state source destinationParent destinationName)
                     (\<lambda>_.
                   ebind (case destinationOption of
                            None \<Rightarrow> Inr ()
                          | Some destination \<Rightarrow>
                              checkOwnedBy state (inodeId destination) (fileExtents destination)) (\<lambda>_.
                     Inr (commitRename sourceParentId sourceName destinationParent destinationName
                            source sourceId destinationOption destinationParentId now state))))))))))))"

definition applyReserveQuarantine :: "VfsState \<Rightarrow> ExtentRun list \<Rightarrow> VfsState res" where
  "applyReserveQuarantine state runs =
     (let declaredCount = (\<Sum>run\<leftarrow>runs. runCount run) in
      if declaredCount \<le> 0 \<or> declaredCount > MAX_EXTENTS_PER_INODE then Inl StoreLimitError
      else
        ebind (validateExtentAssignment state runs declaredCount) (\<lambda>extents.
          Inr (state\<lparr>allocator := fold reserveExtent extents (allocator state)\<rparr>)))"

section \<open>Dispatch\<close>

record PreparedTxnProjection =
  projectedBasePayloadBytes :: int
  preparedState :: VfsState
  preparedRecord :: TxnRecord

definition prepareTxnProjection :: "VfsState \<Rightarrow> TxnRecord \<Rightarrow> PreparedTxnProjection res" where
  "prepareTxnProjection state record =
     ebind (preflightTxn state record defaultLimits) (\<lambda>projected.
       Inr \<lparr>projectedBasePayloadBytes = projected, preparedState = state, preparedRecord = record\<rparr>)"

definition liftReducer :: "VfsState \<Rightarrow> VfsState res \<Rightarrow> store_error option \<times> VfsState" where
  "liftReducer state result = (case result of Inl e \<Rightarrow> (Some e, state) | Inr state' \<Rightarrow> (None, state'))"

definition reduceTxn :: "VfsState \<Rightarrow> TxnRecord \<Rightarrow> store_error option \<times> VfsState" where
  "reduceTxn state record =
     (case record of
        CreateDirectories entries \<Rightarrow>
          (case validateCreateDirectories state entries of
             Inl e \<Rightarrow> (Some e, state)
           | Inr _ \<Rightarrow> applyDirectoryEntries entries state)
      | CreateFile choice fsize extents \<Rightarrow> liftReducer state (applyCreateFile state choice fsize extents)
      | RemoveFile parentId name m c \<Rightarrow> liftReducer state (applyRemoveFile state parentId name m c)
      | ChangeMode iid mode c \<Rightarrow> liftReducer state (applyChangeMode state iid mode c)
      | ChangeTimes iid a m c \<Rightarrow> liftReducer state (applyChangeTimes state iid a m c)
      | ResizeFile operation iid fsize allocated m c \<Rightarrow>
          liftReducer state (applyResizeFile state iid fsize allocated m c)
      | RemoveDirectory parentId name m c \<Rightarrow>
          liftReducer state (applyRemoveDirectory state parentId name m c)
      | Rename sp sn dp dn t \<Rightarrow> liftReducer state (applyRename state sp sn dp dn t)
      | CreateSymlink choice target \<Rightarrow> liftReducer state (applyCreateSymlink state choice target)
      | ReserveQuarantine extents \<Rightarrow> liftReducer state (applyReserveQuarantine state extents))"

text \<open>
  The prepared projection is bound to its state and record by object identity in the source, by
  equality here.
\<close>

definition applyTxn ::
  "VfsState \<Rightarrow> TxnRecord \<Rightarrow> PreparedTxnProjection option \<Rightarrow> store_error option \<times> VfsState"
where
  "applyTxn state record prepared =
     (if (case prepared of
            None \<Rightarrow> False
          | Some p \<Rightarrow> preparedState p \<noteq> state \<or> preparedRecord p \<noteq> record)
      then (Some StoreLimitError, state)
      else
        case (case prepared of
                None \<Rightarrow> preflightTxn state record defaultLimits
              | Some p \<Rightarrow> Inr (projectedBasePayloadBytes p)) of
          Inl e \<Rightarrow> (Some e, state)
        | Inr projected \<Rightarrow>
            (case reduceTxn state record of
               (Some e, state') \<Rightarrow> (Some e, state')
             | (None, state') \<Rightarrow> (None, state'\<lparr>basePayloadBytes := projected\<rparr>)))"

end
