(* ===== verification/Repack.thy ===== *)
theory Repack
  imports Txn
begin

text \<open>
  The repack projection and the structural validator of \<open>state-machine.ts\<close>. A repack computes the
  state that the next metadata base will hold: the generation advances, the other metadata file
  becomes the active one, quarantined extents age (and become available once no retained base can
  still refer to them), and available extents at the arena's end are given back.
\<close>

section \<open>Repack\<close>

text \<open>
  The copy that \<open>projectRepack\<close> mutates. A value of this model is never shared, so only the class
  with state of its own, the extent set, has a copy to make; the shallow copy of
  \<open>projectRepackForActivation\<close> differs in what it shares, which is the live state's inode maps.
\<close>

definition cloneState :: "VfsState \<Rightarrow> VfsState" where
  "cloneState state = state\<lparr>allocator := (allocator state)\<lparr>
     available := cloneExtents (available (allocator state))\<rparr>\<rparr>"

text \<open>One iteration over the quarantine: the allocator and the base bytes so far.\<close>

definition ageQuarantine ::
  "int set \<Rightarrow> int \<Rightarrow> int option \<Rightarrow> int \<times> int option \<Rightarrow> AllocatorState \<times> int \<Rightarrow> AllocatorState \<times> int"
where
  "ageQuarantine pinned nextGeneration targetPrevious entry acc =
     (case entry of (extentId, firstExcluded) \<Rightarrow>
      case acc of (alloc, payload) \<Rightarrow>
        if extentId \<in> pinned
        then (alloc\<lparr>quarantine := AList.update extentId None (quarantine alloc)\<rparr>, payload)
        else
          case firstExcluded of
            None \<Rightarrow>
              (alloc\<lparr>quarantine := AList.update extentId (Some nextGeneration) (quarantine alloc)\<rparr>,
               payload)
          | Some g \<Rightarrow>
              if targetPrevious = None \<or> the targetPrevious < g
              then (alloc\<lparr>quarantine := AList.delete extentId (quarantine alloc),
                          available := addExtent (available alloc) extentId\<rparr>, payload - 8)
              else (alloc, payload))"

function trimTail :: "AllocatorState \<Rightarrow> int \<Rightarrow> AllocatorState \<times> int" where
  "trimTail alloc payload =
     (if totalExtents alloc > 0 then
        let tail = totalExtents alloc - 1 in
        case deleteExtent (available alloc) tail of
          (found, available') \<Rightarrow>
            if \<not> found then (alloc, payload)
            else trimTail (alloc\<lparr>available := available', totalExtents := tail\<rparr>) (payload - 8)
      else (alloc, payload))"
  by pat_completeness auto
termination
  by (relation "measure (\<lambda>(alloc, payload). nat (totalExtents alloc))") auto

declare trimTail.simps [simp del]

text \<open>The projected state before \<open>validateState\<close> judges it.\<close>

definition repackedState :: "VfsState \<Rightarrow> VfsState \<Rightarrow> int set \<Rightarrow> VfsState" where
  "repackedState state projected pinned =
     (let nextGeneration = generation state + 1;
          target = otherMetadataFile (activeMetadataFile state);
          aged = fold (ageQuarantine pinned nextGeneration (retainedGenerations state target))
                   (quarantine (allocator projected))
                   (allocator projected, basePayloadBytes state);
          trimmed = trimTail (fst aged) (snd aged) in
      projected\<lparr>allocator := fst trimmed, generation := nextGeneration,
        activeMetadataFile := target,
        retainedGenerations := (retainedGenerations projected)(target := Some nextGeneration),
        basePayloadBytes := snd trimmed\<rparr>)"

section \<open>The validator\<close>

text \<open>
  The variables that \<open>visit\<close> and \<open>classify\<close> close over. The \<open>Set\<close> of reached inodes is a list
  without duplicates: \<open>has\<close> is tested before every \<open>add\<close>.
\<close>

record Visit =
  classified :: "bool list"
  classifiedCount :: int
  reached :: "int list"
  calculatedBytes :: int

definition classify :: "int \<Rightarrow> Visit \<Rightarrow> Visit res" where
  "classify extentId v =
     (if extentId < 0 \<or> extentId \<ge> int (length (classified v)) then Inl StoreLimitError
      else if classified v ! nat extentId then Inl StoreLimitError
      else Inr (v\<lparr>classified := (classified v)[nat extentId := True],
                  classifiedCount := classifiedCount v + 1\<rparr>))"

definition enterInode :: "VfsState \<Rightarrow> int \<Rightarrow> Inode \<Rightarrow> Visit \<Rightarrow> Visit res" where
  "enterInode state inodeKey inode v =
     ebind (checkedU64 inodeKey) (\<lambda>_.
     ebind (checkedU64 (inodeId inode)) (\<lambda>_.
       if inodeKey \<noteq> inodeId inode then Inl StoreLimitError
       else if inodeId inode \<ge> nextInodeId state then Inl StoreLimitError
       else if inodeId inode \<in> set (reached v) then Inl StoreLimitError
       else
         ebind (validateMode (imode inode)) (\<lambda>_.
         ebind (validateTimestamp (atimeMs inode)) (\<lambda>_.
         ebind (validateTimestamp (mtimeMs inode)) (\<lambda>_.
         ebind (validateTimestamp (ctimeMs inode)) (\<lambda>_.
           Inr (v\<lparr>reached := reached v @ [inodeId inode]\<rparr>)))))))"

definition classifyOwned :: "VfsState \<Rightarrow> Inode \<Rightarrow> int \<Rightarrow> Visit \<Rightarrow> Visit res" where
  "classifyOwned state inode extentId v =
     ebind (classify extentId v) (\<lambda>v'.
       if map_of (ownedBy (allocator state)) extentId \<noteq> Some (inodeId inode)
       then Inl StoreLimitError else Inr v')"

definition addBytes :: "int \<Rightarrow> Visit \<Rightarrow> Visit" where
  "addBytes n v = v\<lparr>calculatedBytes := calculatedBytes v + n\<rparr>"

text \<open>
  A child deeper than \<^const>\<open>MAX_PATH_DEPTH\<close> is rejected before it is visited, so the recursion
  is never more than \<open>MAX_PATH_DEPTH + 1\<close> deep and \<^const>\<open>boundsFuel\<close> suffices.
\<close>

fun visit :: "nat \<Rightarrow> VfsState \<Rightarrow> int \<Rightarrow> Inode \<Rightarrow> PathMetrics \<Rightarrow> Visit \<Rightarrow> Visit res" where
  "visit 0 state inodeKey inode metrics v = Inl StackOverflow"
| "visit (Suc fuel) state inodeKey inode metrics v =
     ebind (enterInode state inodeKey inode v) (\<lambda>v1.
       case body inode of
         Directory entries \<Rightarrow>
           fold_res
             (\<lambda>(name, childId) v2. ebind (validatePathComponent name) (\<lambda>nameBytes.
                if map_of (parentByInode state) childId \<noteq> Some (inodeId inode, name)
                then Inl StoreLimitError
                else
                  let childMetrics = \<lparr>depth = depth metrics + 1,
                        bytes = bytes metrics + (if depth metrics = 0 then 0 else 1) + nameBytes\<rparr> in
                  if depth childMetrics > MAX_PATH_DEPTH then Inl StoreLimitError
                  else if bytes childMetrics > MAX_PATH_BYTES then Inl StoreLimitError
                  else
                    case map_of (inodes state) childId of
                      None \<Rightarrow> Inl StoreLimitError
                    | Some child \<Rightarrow>
                        visit fuel state childId child childMetrics
                          (addBytes (CHILD_FIXED_BYTES + nameBytes) v2)))
             entries (addBytes DIRECTORY_INODE_FIXED_BYTES v1)
       | Symlink target \<Rightarrow>
           (case validateSymlinkTarget target of
              Inl _ \<Rightarrow> Inl StoreLimitError
            | Inr targetBytes \<Rightarrow> Inr (addBytes (SYMLINK_INODE_FIXED_BYTES + targetBytes) v1))
       | File fsize extents \<Rightarrow>
           ebind (extentCountForSize fsize (extentSize state)) (\<lambda>required.
             if int (length extents) \<noteq> required then Inl StoreLimitError
             else
               fold_res (classifyOwned state inode) extents
                 (addBytes (FILE_INODE_FIXED_BYTES + int (length extents) * 8) v1)))"

definition classifyQuarantined :: "VfsState \<Rightarrow> int \<times> int option \<Rightarrow> Visit \<Rightarrow> Visit res" where
  "classifyQuarantined state entry v =
     (case entry of (extentId, firstExcluded) \<Rightarrow>
       ebind (classify extentId v) (\<lambda>v'.
         if firstExcluded \<noteq> None \<and> firstExcluded \<noteq> Some (generation state)
         then Inl StoreLimitError else Inr v'))"

text \<open>The checks that follow the walk.\<close>

definition validateTotals :: "VfsState \<Rightarrow> Visit \<Rightarrow> unit res" where
  "validateTotals state v =
     (if length (reached v) \<noteq> length (inodes state) then Inl StoreLimitError
      else if int (length (parentByInode state)) \<noteq> int (length (inodes state)) - 1
        then Inl StoreLimitError
      else if classifiedCount v \<noteq> int (length (ownedBy (allocator state))) then Inl StoreLimitError
      else if basePayloadBytes state
          \<noteq> calculatedBytes v + (int (sizeExtent (available (allocator state))) * 8
              + int (length (quarantine (allocator state))) * 16) then Inl StoreLimitError
      else if basePayloadBytes state > MAX_METADATA_BASE_WRITER_BYTES then Inl StoreLimitError
      else if retainedGenerations state (activeMetadataFile state) \<noteq> Some (generation state)
        then Inl StoreLimitError
      else
        case retainedGenerations state (otherMetadataFile (activeMetadataFile state)) of
          None \<Rightarrow> Inr ()
        | Some inactive \<Rightarrow>
            ebind (checkedU64 inactive) (\<lambda>_.
              if inactive = 0 \<or> inactive + 1 \<noteq> generation state then Inl StoreLimitError
              else Inr ()))"

definition validateState :: "VfsState \<Rightarrow> unit res" where
  "validateState state =
     ebind (validateExtentSize (extentSize state)) (\<lambda>_.
     ebind (checkedU64 (generation state)) (\<lambda>_.
       if generation state = 0 then Inl StoreLimitError
       else
         ebind (checkedU64 (nextInodeId state)) (\<lambda>_.
           case map_of (inodes state) (rootInodeId state) of
             None \<Rightarrow> Inl StoreLimitError
           | Some root \<Rightarrow>
               if \<not> isDirectory root then Inl StoreLimitError
               else if map_of (parentByInode state) (rootInodeId state) \<noteq> None
                 then Inl StoreLimitError
               else if int (length (inodes state)) > MAX_INODES then Inl StoreLimitError
               else
                 ebind (checkedU64 (totalExtents (allocator state))) (\<lambda>_.
                   if totalExtents (allocator state) > MAX_TOTAL_EXTENTS then Inl StoreLimitError
                   else
                     let start = \<lparr>classified = replicate (nat (totalExtents (allocator state))) False,
                           classifiedCount = 0, reached = [],
                           calculatedBytes = BASE_STATE_FIXED_BYTES\<rparr> in
                     ebind (visit boundsFuel state (rootInodeId state) root \<lparr>depth = 0, bytes = 1\<rparr> start)
                       (\<lambda>v.
                     ebind (validateTotals state v) (\<lambda>_.
                     ebind (fold_res classify (items (available (allocator state))) v) (\<lambda>v1.
                     ebind (fold_res (classifyQuarantined state) (quarantine (allocator state)) v1)
                       (\<lambda>v2.
                       if classifiedCount v2 \<noteq> totalExtents (allocator state)
                       then Inl StoreLimitError else Inr ()))))))))"

section \<open>The exported projections\<close>

definition projectRepackFromCopy :: "VfsState \<Rightarrow> VfsState \<Rightarrow> int set \<Rightarrow> VfsState res" where
  "projectRepackFromCopy state projected pinned =
     (if generation state = MAX_U64 then Inl StoreLimitError
      else
        let result = repackedState state projected pinned in
        ebind (validateState result) (\<lambda>_. Inr result))"

definition projectRepack :: "VfsState \<Rightarrow> int set \<Rightarrow> VfsState res" where
  "projectRepack state pinned = projectRepackFromCopy state (cloneState state) pinned"

definition projectRepackForActivation :: "VfsState \<Rightarrow> int set \<Rightarrow> VfsState res" where
  "projectRepackForActivation state pinned =
     projectRepackFromCopy state
       (state\<lparr>allocator := (allocator state)\<lparr>available := cloneExtents (available (allocator state))\<rparr>\<rparr>)
       pinned"

end
