(* ===== verification/Allocation.thy ===== *)
theory Allocation
  imports Repack
begin

text \<open>
  The allocator invariant: every extent of the arena is owned by exactly one file, available, or
  quarantined. It is stated against a map \<open>F\<close> from inodes to the extents their files list, so that
  each allocator step of a transaction is one lemma that says how \<open>F\<close> moves with it.
\<close>

section \<open>The partition\<close>

definition alloc_inv :: "AllocatorState \<Rightarrow> (int \<Rightarrow> int list) \<Rightarrow> bool" where
  "alloc_inv a F \<longleftrightarrow> extents_inv (available a) \<and> wf_map (ownedBy a) \<and> wf_map (quarantine a)
     \<and> (\<forall>e i. map_of (ownedBy a) e = Some i \<longleftrightarrow> e \<in> set (F i))
     \<and> (\<forall>i. distinct (F i))
     \<and> (\<forall>e. e \<in> extents_of (available a) \<longrightarrow>
            map_of (ownedBy a) e = None \<and> map_of (quarantine a) e = None)
     \<and> (\<forall>e. map_of (ownedBy a) e \<noteq> None \<longrightarrow> map_of (quarantine a) e = None)
     \<and> (\<forall>e. 0 \<le> e \<and> e < totalExtents a \<longleftrightarrow> map_of (ownedBy a) e \<noteq> None
            \<or> e \<in> extents_of (available a) \<or> map_of (quarantine a) e \<noteq> None)
     \<and> 0 \<le> totalExtents a \<and> totalExtents a \<le> MAX_TOTAL_EXTENTS"

lemma alloc_invI:
  assumes "extents_inv (available a)" "wf_map (ownedBy a)" "wf_map (quarantine a)"
    and "\<And>e i. map_of (ownedBy a) e = Some i \<longleftrightarrow> e \<in> set (F i)" and "\<And>i. distinct (F i)"
    and "\<And>e. e \<in> extents_of (available a) \<Longrightarrow> map_of (ownedBy a) e = None \<and> map_of (quarantine a) e = None"
    and "\<And>e. map_of (ownedBy a) e \<noteq> None \<Longrightarrow> map_of (quarantine a) e = None"
    and "\<And>e. 0 \<le> e \<and> e < totalExtents a \<longleftrightarrow> map_of (ownedBy a) e \<noteq> None
        \<or> e \<in> extents_of (available a) \<or> map_of (quarantine a) e \<noteq> None"
    and "0 \<le> totalExtents a" "totalExtents a \<le> MAX_TOTAL_EXTENTS"
  shows "alloc_inv a F"
  unfolding alloc_inv_def by (intro conjI allI impI assms)

lemma alloc_invD:
  assumes "alloc_inv a F"
  shows "extents_inv (available a)" and "wf_map (ownedBy a)" and "wf_map (quarantine a)"
    and "map_of (ownedBy a) e = Some i \<longleftrightarrow> e \<in> set (F i)"
    and "distinct (F i)"
    and "e \<in> extents_of (available a) \<Longrightarrow> map_of (ownedBy a) e = None \<and> map_of (quarantine a) e = None"
    and "map_of (ownedBy a) e \<noteq> None \<Longrightarrow> map_of (quarantine a) e = None"
    and "0 \<le> e \<and> e < totalExtents a \<longleftrightarrow> map_of (ownedBy a) e \<noteq> None \<or> e \<in> extents_of (available a)
     \<or> map_of (quarantine a) e \<noteq> None"
    and "0 \<le> totalExtents a" and "totalExtents a \<le> MAX_TOTAL_EXTENTS"
  using assms unfolding alloc_inv_def by blast+

lemmas alloc_inv_range = alloc_invD(8)

lemma alloc_inv_empty:
  "alloc_inv \<lparr>totalExtents = 0, ownedBy = [], available = emptyExtentSet, quarantine = []\<rparr> (\<lambda>_. [])"
  by (rule alloc_invI) (auto simp: extents_inv_empty extents_of_empty limit_defs)

lemma alloc_inv_cong: "alloc_inv a F \<Longrightarrow> (\<And>i. F i = G i) \<Longrightarrow> alloc_inv a G"
  by (metis ext)

section \<open>Taking extents\<close>

text \<open>
  The extents that a loop over \<open>takeExtent\<close> may take in this order: available ones, and fresh ones
  from the arena's end onwards.
\<close>

fun assignable :: "AllocatorState \<Rightarrow> int list \<Rightarrow> bool" where
  "assignable a [] \<longleftrightarrow> totalExtents a \<le> MAX_TOTAL_EXTENTS"
| "assignable a (e # es) \<longleftrightarrow>
     (e < totalExtents a \<and> e \<in> extents_of (available a) \<or> e = totalExtents a)
     \<and> assignable (takeExtent e a) es"

lemma takeExtent_simps [simp]:
  "ownedBy (takeExtent e a) = ownedBy a"
  "quarantine (takeExtent e a) = quarantine a"
  "totalExtents (takeExtent e a) = totalExtents a + (if e < totalExtents a then 0 else 1)"
  by (simp_all add: takeExtent_def)

lemma takeExtent_available:
  assumes "extents_inv (available a)"
  shows "extents_inv (available (takeExtent e a))"
    and "extents_of (available (takeExtent e a))
           = (if e < totalExtents a then extents_of (available a) - {e} else extents_of (available a))"
  using assms by (simp_all add: takeExtent_def pool.laws)

lemma checked_assignable:
  assumes "fold_res (checkExtentChoice a0) es (totalExtents a) = Inr nf" and "nf \<le> MAX_TOTAL_EXTENTS"
    and "distinct es" and "extents_inv (available a0)" and "extents_inv (available a)"
    and "totalExtents a0 \<le> totalExtents a"
    and "extents_of (available a) \<union> S = extents_of (available a0)" and "S \<inter> set es = {}"
  shows "assignable a es"
  using assms
proof (induction es arbitrary: a S)
  case (Cons e es)
  note prems = Cons.prems
  from prems(1) obtain nf1 where step: "checkExtentChoice a0 e (totalExtents a) = Inr nf1"
    and rest: "fold_res (checkExtentChoice a0) es nf1 = Inr nf"
    by (auto simp: ebind_eq_Inr)
  note av = takeExtent_available [OF prems(5), of e]
  show ?case
  proof (cases "e < totalExtents a0")
    case True
    with step have "hasExtent (available a0) e" and nf1: "nf1 = totalExtents a"
      by (auto simp: checkExtentChoice_def split: if_splits)
    then have "e \<in> extents_of (available a0)" using prems(4) by (simp add: hasExtent_iff)
    with prems(7,8) have "e \<in> extents_of (available a)" by auto
    moreover have "assignable (takeExtent e a) es"
    proof (rule Cons.IH [where S = "insert e S"])
      show "fold_res (checkExtentChoice a0) es (totalExtents (takeExtent e a)) = Inr nf"
        using rest nf1 True prems(6) by simp
      show "extents_of (available (takeExtent e a)) \<union> insert e S = extents_of (available a0)"
        using av(2) True prems(6,7) \<open>e \<in> extents_of (available a0)\<close> by auto
    qed (use prems av in auto)
    ultimately show ?thesis using True prems(6) by simp
  next
    case False
    with step have e: "e = totalExtents a" and nf1: "nf1 = totalExtents a + 1"
      by (auto simp: checkExtentChoice_def split: if_splits)
    have "assignable (takeExtent e a) es"
    proof (rule Cons.IH [where S = S])
      show "fold_res (checkExtentChoice a0) es (totalExtents (takeExtent e a)) = Inr nf"
        using rest nf1 e by simp
    qed (use prems av e in auto)
    with e show ?thesis by simp
  qed
qed simp

lemma validateExtentAssignment_Inr:
  assumes "validateExtentAssignment st runs n = Inr es" and "extents_inv (available (allocator st))"
  shows "assignable (allocator st) es" and "distinct es" and "int (length es) = n"
    and "expandExtentRuns runs MAX_EXTENTS_PER_INODE = Inr es"
proof -
  from assms(1) obtain nf where
    f: "fold_res (checkExtentChoice (allocator st)) es (totalExtents (allocator st)) = Inr nf"
    "nf \<le> MAX_TOTAL_EXTENTS" and d: "distinct es"
    and n: "int (length es) = n" "expandExtentRuns runs MAX_EXTENTS_PER_INODE = Inr es"
    by (auto simp: validateExtentAssignment_def ebind_eq_Inr split: if_splits)
  show "assignable (allocator st) es"
    by (rule checked_assignable [OF f(1,2) d assms(2,2) order_refl, of "{}"]) auto
  show "distinct es" "int (length es) = n" "expandExtentRuns runs MAX_EXTENTS_PER_INODE = Inr es"
    by (rule d n)+
qed

text \<open>Conversely, an assignable list of distinct extents passes the checks.\<close>

lemma assignable_checked:
  assumes "assignable a es" and "extents_inv (available a0)" and "extents_inv (available a)"
    and "totalExtents a0 \<le> totalExtents a" and "extents_of (available a) \<subseteq> extents_of (available a0)"
    and "\<forall>e\<in>extents_of (available a0). e < totalExtents a0"
  shows "\<exists>nf. fold_res (checkExtentChoice a0) es (totalExtents a) = Inr nf \<and> nf \<le> MAX_TOTAL_EXTENTS"
  using assms
proof (induction es arbitrary: a)
  case (Cons e es)
  note av = takeExtent_available [OF Cons.prems(3), of e]
  have "checkExtentChoice a0 e (totalExtents a) = Inr (totalExtents (takeExtent e a))"
    using Cons.prems by (auto simp: checkExtentChoice_def hasExtent_iff)
  moreover have "\<exists>nf. fold_res (checkExtentChoice a0) es (totalExtents (takeExtent e a)) = Inr nf
      \<and> nf \<le> MAX_TOTAL_EXTENTS"
    by (rule Cons.IH) (use Cons.prems av in \<open>auto split: if_splits\<close>)
  ultimately show ?case by simp
qed simp

section \<open>Giving extents to a file\<close>

lemma ownExtent_simps [simp]:
  "ownedBy (ownExtent i e a) = AList.update e i (ownedBy a)"
  "quarantine (ownExtent i e a) = quarantine a"
  "available (ownExtent i e a) = available (takeExtent e a)"
  "totalExtents (ownExtent i e a) = totalExtents a + (if e < totalExtents a then 0 else 1)"
  by (simp_all add: ownExtent_def Let_def)

lemma reserveExtent_simps [simp]:
  "ownedBy (reserveExtent e a) = ownedBy a"
  "quarantine (reserveExtent e a) = AList.update e None (quarantine a)"
  "available (reserveExtent e a) = available (takeExtent e a)"
  "totalExtents (reserveExtent e a) = totalExtents a + (if e < totalExtents a then 0 else 1)"
  by (simp_all add: reserveExtent_def Let_def)

lemma releaseExtent_simps [simp]:
  "ownedBy (releaseExtent e a) = AList.delete e (ownedBy a)"
  "quarantine (releaseExtent e a) = AList.update e None (quarantine a)"
  "available (releaseExtent e a) = available a"
  "totalExtents (releaseExtent e a) = totalExtents a"
  by (simp_all add: releaseExtent_def)

text \<open>An extent that may be taken is in no other class, and taking it extends the range to it.\<close>

lemma assignable_free:
  assumes inv: "alloc_inv a F" and ok: "assignable a (e # es)"
  shows "map_of (ownedBy a) e = None" and "map_of (quarantine a) e = None" and "e \<notin> set (F j)"
    and "f \<in> extents_of (available (takeExtent e a)) \<longleftrightarrow> f \<in> extents_of (available a) \<and> f \<noteq> e"
    and "0 \<le> f \<and> f < totalExtents a + (if e < totalExtents a then 0 else 1)
           \<longleftrightarrow> 0 \<le> f \<and> f < totalExtents a \<or> f = e"
proof -
  have e: "e < totalExtents a \<and> e \<in> extents_of (available a) \<or> e = totalExtents a"
    using ok by simp
  with alloc_invD(6) [OF inv, of e] alloc_inv_range [OF inv, of e]
  show none: "map_of (ownedBy a) e = None" "map_of (quarantine a) e = None" by auto
  with alloc_invD(4) [OF inv, of e j] show "e \<notin> set (F j)" by simp
  have "totalExtents a \<notin> extents_of (available a)"
    using alloc_inv_range [OF inv, of "totalExtents a"] by auto
  with e takeExtent_available(2) [OF alloc_invD(1) [OF inv], of e]
  show "f \<in> extents_of (available (takeExtent e a)) \<longleftrightarrow> f \<in> extents_of (available a) \<and> f \<noteq> e"
    by auto
  have "0 \<le> e" using e alloc_inv_range [OF inv, of e] alloc_invD(9) [OF inv] by auto
  with e show "0 \<le> f \<and> f < totalExtents a + (if e < totalExtents a then 0 else 1)
           \<longleftrightarrow> 0 \<le> f \<and> f < totalExtents a \<or> f = e"
    by auto
qed

lemma assignable_total: "assignable a es \<Longrightarrow> totalExtents a \<le> MAX_TOTAL_EXTENTS"
  by (induction es arbitrary: a) (force split: if_splits)+

lemma assignable_cong:
  "available a1 = available a2 \<Longrightarrow> totalExtents a1 = totalExtents a2 \<Longrightarrow>
     assignable a1 es \<longleftrightarrow> assignable a2 es"
proof (induction es arbitrary: a1 a2)
  case (Cons e es)
  then have "assignable (takeExtent e a1) es \<longleftrightarrow> assignable (takeExtent e a2) es"
    by (intro Cons.IH) (simp_all add: takeExtent_def)
  with Cons.prems show ?case by simp
qed simp

lemma assignable_Cons:
  assumes "assignable a (e # es)"
  shows "assignable (ownExtent i e a) es" and "assignable (reserveExtent e a) es"
proof -
  from assms have "assignable (takeExtent e a) es" by simp
  then show "assignable (ownExtent i e a) es" and "assignable (reserveExtent e a) es"
    using assignable_cong [of "ownExtent i e a" "takeExtent e a" es]
      assignable_cong [of "reserveExtent e a" "takeExtent e a" es] by simp_all
qed

lemma assignable_Cons_total:
  "assignable a (e # es) \<Longrightarrow> totalExtents a + (if e < totalExtents a then 0 else 1) \<le> MAX_TOTAL_EXTENTS"
  using assignable_total [of "takeExtent e a" es] by (simp del: takeExtent_simps(3) add: takeExtent_simps(3) [symmetric])

lemma ownExtent_inv:
  assumes inv: "alloc_inv a F" and ok: "assignable a (e # es)"
  shows "alloc_inv (ownExtent i e a) (F(i := F i @ [e]))"
proof -
  note d = alloc_invD [OF inv]
  note free = assignable_free [OF inv ok]
  show ?thesis
  proof (rule alloc_invI, unfold ownExtent_simps)
    show "extents_inv (available (takeExtent e a))" using d(1) by (rule takeExtent_available)
    show "wf_map (AList.update e i (ownedBy a))" using d(2) by simp
    show "map_of (AList.update e i (ownedBy a)) f = Some j \<longleftrightarrow> f \<in> set ((F(i := F i @ [e])) j)" for f j
      using d(4) [of f j] free(3) [of j] by auto
    show "distinct ((F(i := F i @ [e])) j)" for j
      using d(5) [of j] d(5) [of i] free(3) [of i] by simp
    show "map_of (AList.update e i (ownedBy a)) f = None \<and> map_of (quarantine a) f = None"
      if "f \<in> extents_of (available (takeExtent e a))" for f
      using that d(6) [of f] free(4) [of f] by simp
    show "map_of (quarantine a) f = None" if "map_of (AList.update e i (ownedBy a)) f \<noteq> None" for f
      using that d(7) [of f] free(2) by (simp split: if_splits)
    show "0 \<le> f \<and> f < totalExtents a + (if e < totalExtents a then 0 else 1) \<longleftrightarrow>
        map_of (AList.update e i (ownedBy a)) f \<noteq> None
        \<or> f \<in> extents_of (available (takeExtent e a)) \<or> map_of (quarantine a) f \<noteq> None" for f
      unfolding free(4,5) using d(8) [of f] by auto
    show "totalExtents a + (if e < totalExtents a then 0 else 1) \<le> MAX_TOTAL_EXTENTS"
      using ok by (rule assignable_Cons_total)
  qed (use d(3,9) in auto)
qed

lemma ownExtents_inv:
  assumes "alloc_inv a F" and "assignable a es"
  shows "alloc_inv (fold (ownExtent i) es a) (F(i := F i @ es))"
  using assms
proof (induction es arbitrary: a F)
  case (Cons e es)
  from Cons.IH [OF ownExtent_inv [OF Cons.prems, of i] assignable_Cons(1) [OF Cons.prems(2)]]
  show ?case by (simp add: fun_upd_def if_if_eq_conj cong: if_cong)
qed simp

section \<open>Releasing the extents of a file\<close>

lemma releaseExtent_inv:
  assumes inv: "alloc_inv a F" and e: "e \<in> set (F i)"
  shows "alloc_inv (releaseExtent e a) (F(i := remove1 e (F i)))"
proof -
  note d = alloc_invD [OF inv]
  have own: "map_of (ownedBy a) e = Some i" using d(4) e by simp
  show ?thesis
  proof (rule alloc_invI, unfold releaseExtent_simps)
    show "map_of (AList.delete e (ownedBy a)) f = Some j \<longleftrightarrow> f \<in> set ((F(i := remove1 e (F i))) j)" for f j
      using d(4) [of f j] d(5) [of i] own by auto
    show "distinct ((F(i := remove1 e (F i))) j)" for j using d(5) by (simp add: distinct_remove1)
    show "map_of (AList.delete e (ownedBy a)) f = None
        \<and> map_of (AList.update e None (quarantine a)) f = None"
      if "f \<in> extents_of (available a)" for f
      using that d(6) [of f] own by auto
    show "map_of (AList.update e None (quarantine a)) f = None"
      if "map_of (AList.delete e (ownedBy a)) f \<noteq> None" for f
      using that d(7) [of f] by (simp split: if_splits)
    show "0 \<le> f \<and> f < totalExtents a \<longleftrightarrow> map_of (AList.delete e (ownedBy a)) f \<noteq> None
        \<or> f \<in> extents_of (available a) \<or> map_of (AList.update e None (quarantine a)) f \<noteq> None" for f
      using d(8) [of f] own by auto
  qed (use d(1-3,9,10) in auto)
qed

lemma releaseExtents_inv:
  assumes "alloc_inv a F" and "distinct es" and "set es \<subseteq> set (F i)"
  shows "alloc_inv (fold releaseExtent es a) (F(i := filter (\<lambda>e. e \<notin> set es) (F i)))"
  using assms
proof (induction es arbitrary: a F)
  case (Cons e es)
  then have e: "e \<in> set (F i)" and dF: "distinct (F i)" by (auto dest: alloc_invD)
  let ?F = "F(i := remove1 e (F i))"
  have "alloc_inv (fold releaseExtent es (releaseExtent e a))
      (?F(i := filter (\<lambda>e. e \<notin> set es) (?F i)))"
    by (rule Cons.IH [OF releaseExtent_inv [OF Cons.prems(1) e]]) (use Cons.prems dF in auto)
  moreover have "filter (\<lambda>e. e \<notin> set es) (?F i) = filter (\<lambda>x. x \<notin> set (e # es)) (F i)"
    using distinct_remove1_removeAll [OF dF, of e]
    by (simp add: removeAll_filter_not_eq conj_commute) (rule filter_cong, auto)
  ultimately show ?case by (simp add: fun_upd_def if_if_eq_conj cong: if_cong)
qed simp

section \<open>Reserving extents in quarantine\<close>

lemma reserveExtent_inv:
  assumes inv: "alloc_inv a F" and ok: "assignable a (e # es)"
  shows "alloc_inv (reserveExtent e a) F"
proof -
  note d = alloc_invD [OF inv]
  note free = assignable_free [OF inv ok]
  show ?thesis
  proof (rule alloc_invI, unfold reserveExtent_simps)
    show "extents_inv (available (takeExtent e a))" using d(1) by (rule takeExtent_available)
    show "map_of (ownedBy a) f = Some j \<longleftrightarrow> f \<in> set (F j)" for f j by (rule d(4))
    show "map_of (ownedBy a) f = None \<and> map_of (AList.update e None (quarantine a)) f = None"
      if "f \<in> extents_of (available (takeExtent e a))" for f
      using that d(6) [of f] free(4) [of f] by simp
    show "map_of (AList.update e None (quarantine a)) f = None" if "map_of (ownedBy a) f \<noteq> None" for f
      using that d(7) [of f] free(1) by auto
    show "0 \<le> f \<and> f < totalExtents a + (if e < totalExtents a then 0 else 1) \<longleftrightarrow>
        map_of (ownedBy a) f \<noteq> None \<or> f \<in> extents_of (available (takeExtent e a))
        \<or> map_of (AList.update e None (quarantine a)) f \<noteq> None" for f
      unfolding free(4,5) using d(8) [of f] by auto
    show "totalExtents a + (if e < totalExtents a then 0 else 1) \<le> MAX_TOTAL_EXTENTS"
      using ok by (rule assignable_Cons_total)
  qed (use d(2,3,5,9) in auto)
qed

lemma reserveExtents_inv:
  assumes "alloc_inv a F" and "assignable a es"
  shows "alloc_inv (fold reserveExtent es a) F"
  using assms
proof (induction es arbitrary: a)
  case (Cons e es)
  from Cons.IH [OF reserveExtent_inv [OF Cons.prems] assignable_Cons(2) [OF Cons.prems(2)]]
  show ?case by simp
qed simp

section \<open>The sizes that the payload accounting reads\<close>

lemma takeExtent_size:
  assumes inv: "alloc_inv a F" and ok: "assignable a (e # es)"
  shows "int (sizeExtent (available (takeExtent e a)))
     = int (sizeExtent (available a)) - (if e < totalExtents a then 1 else 0)"
  using pool.size_del [OF alloc_invD(1) [OF inv], of e] ok by (auto simp: takeExtent_def)

lemma takeExtents_size:
  assumes step: "\<And>a e. available (f e a) = available (takeExtent e a)"
    "\<And>a e. totalExtents (f e a) = totalExtents (takeExtent e a)"
    and keep: "\<And>a F e es. alloc_inv a F \<Longrightarrow> assignable a (e # es) \<Longrightarrow> \<exists>F'. alloc_inv (f e a) F'"
  shows "alloc_inv a F \<Longrightarrow> assignable a es \<Longrightarrow> distinct es \<Longrightarrow>
     int (sizeExtent (available (fold f es a)))
       = int (sizeExtent (available a)) - int (length (filter (\<lambda>e. e < totalExtents a) es))"
proof (induction es arbitrary: a F)
  case (Cons e es)
  obtain F' where inv': "alloc_inv (f e a) F'" using keep Cons.prems(1,2) by blast
  have "assignable (f e a) es"
    using Cons.prems(2) assignable_cong [of "f e a" "takeExtent e a" es] step by simp
  from Cons.IH [OF inv' this] Cons.prems(3)
  have IH: "int (sizeExtent (available (fold f es (f e a))))
      = int (sizeExtent (available (f e a)))
        - int (length (filter (\<lambda>x. x < totalExtents (f e a)) es))" by simp
  have "e \<notin> set es" using Cons.prems(3) by simp
  then have "filter (\<lambda>x. x < totalExtents (f e a)) es = filter (\<lambda>x. x < totalExtents a) es"
    using Cons.prems(2) by (intro filter_cong refl) (auto simp: step order_le_less)
  with IH takeExtent_size [OF Cons.prems(1,2)] show ?case by (simp add: step)
qed simp

lemma ownExtents_size:
  "alloc_inv a F \<Longrightarrow> assignable a es \<Longrightarrow> distinct es \<Longrightarrow>
     int (sizeExtent (available (fold (ownExtent i) es a)))
       = int (sizeExtent (available a)) - int (length (filter (\<lambda>e. e < totalExtents a) es))"
  by (rule takeExtents_size) (simp_all only: ownExtent_simps takeExtent_simps, blast intro: ownExtent_inv)

lemma reserveExtents_size:
  "alloc_inv a F \<Longrightarrow> assignable a es \<Longrightarrow> distinct es \<Longrightarrow>
     int (sizeExtent (available (fold reserveExtent es a)))
       = int (sizeExtent (available a)) - int (length (filter (\<lambda>e. e < totalExtents a) es))"
  by (rule takeExtents_size) (simp_all only: reserveExtent_simps takeExtent_simps, blast intro: reserveExtent_inv)

lemma ownExtents_quarantine [simp]: "quarantine (fold (ownExtent i) es a) = quarantine a"
  by (induction es arbitrary: a) simp_all

lemma releaseExtents_available [simp]: "available (fold releaseExtent es a) = available a"
  by (induction es arbitrary: a) simp_all

lemma releaseExtents_quarantine:
  assumes "alloc_inv a F" and "distinct es" and "set es \<subseteq> set (F i)"
  shows "length (quarantine (fold releaseExtent es a)) = length (quarantine a) + length es"
  using assms
proof (induction es arbitrary: a F)
  case (Cons e es)
  then have e: "e \<in> set (F i)" and dF: "distinct (F i)" by (auto dest: alloc_invD)
  then have "map_of (ownedBy a) e = Some i" using alloc_invD(4) [OF Cons.prems(1)] by simp
  then have none: "map_of (quarantine a) e = None" using alloc_invD(7) [OF Cons.prems(1)] by simp
  have "length (quarantine (fold releaseExtent es (releaseExtent e a)))
      = length (quarantine (releaseExtent e a)) + length es"
    by (rule Cons.IH [OF releaseExtent_inv [OF Cons.prems(1) e]]) (use Cons.prems dF in auto)
  with none show ?case by (simp add: length_update [OF alloc_invD(3) [OF Cons.prems(1)]])
qed simp

lemma reserveExtents_quarantine:
  assumes "alloc_inv a F" and "assignable a es"
  shows "length (quarantine (fold reserveExtent es a)) = length (quarantine a) + length es"
  using assms
proof (induction es arbitrary: a)
  case (Cons e es)
  from Cons.IH [OF reserveExtent_inv [OF Cons.prems] assignable_Cons(2) [OF Cons.prems(2)]]
    assignable_free(2) [OF Cons.prems]
  show ?case by (simp add: length_update [OF alloc_invD(3) [OF Cons.prems(1)]])
qed simp

section \<open>The allocator's own choice\<close>

lemma assignable_fresh:
  "totalExtents a + int n \<le> MAX_TOTAL_EXTENTS \<Longrightarrow>
     assignable a (map (\<lambda>k. totalExtents a + int k) [0..<n])"
proof (induction n arbitrary: a)
  case (Suc n)
  have "map (\<lambda>k. totalExtents a + int k) [0..<Suc n]
      = totalExtents a # map (\<lambda>k. totalExtents (takeExtent (totalExtents a) a) + int k) [0..<n]"
    unfolding upt_conv_Cons [OF zero_less_Suc] map_Suc_upt [symmetric] by simp
  with Suc.IH [of "takeExtent (totalExtents a) a"] Suc.prems show ?case by simp
qed simp

lemma assignable_chosen:
  assumes "extents_inv (available a)" and "\<forall>e\<in>extents_of (available a). e < totalExtents a"
    and "distinct xs" and "set xs \<subseteq> extents_of (available a)"
    and "totalExtents a + int n \<le> MAX_TOTAL_EXTENTS"
  shows "assignable a (xs @ map (\<lambda>k. totalExtents a + int k) [0..<n])"
  using assms
proof (induction xs arbitrary: a)
  case (Cons x xs)
  then have x: "x < totalExtents a" by auto
  then have same: "totalExtents (takeExtent x a) = totalExtents a" by simp
  note av = takeExtent_available [OF Cons.prems(1), of x]
  have "assignable (takeExtent x a) (xs @ map (\<lambda>k. totalExtents (takeExtent x a) + int k) [0..<n])"
    by (rule Cons.IH) (use Cons.prems av same x in auto)
  with x same Cons.prems(4) show ?case by simp
qed (simp add: assignable_fresh)

lemma chooseExtents_Inr:
  assumes "chooseExtents st n = Inr es" and "alloc_inv (allocator st) F"
  shows "assignable (allocator st) es" and "distinct es" and "int (length es) = n"
    and "n \<le> MAX_EXTENTS_PER_INODE" and "e \<in> set es \<Longrightarrow> u64 e"
proof -
  let ?a = "allocator st" and ?k = "min n (int (sizeExtent (available (allocator st))))"
  note d = alloc_invD [OF assms(2)]
  from assms(1) obtain xs where n: "n \<le> MAX_EXTENTS_PER_INODE"
    and xs: "peekLast (available ?a) ?k = Inr xs"
    and total: "totalExtents ?a + (n - ?k) \<le> MAX_TOTAL_EXTENTS"
    and es: "es = xs @ map (\<lambda>k. totalExtents ?a + int k) [0..<nat (n - ?k)]"
    by (auto simp: chooseExtents_def Let_def ebind_eq_Inr split: if_splits)
  note px = peekLast_Inr [OF d(1) xs]
  have lt: "0 \<le> e \<and> e < totalExtents ?a" if "e \<in> extents_of (available ?a)" for e
    using that d(8) [of e] by simp
  show "assignable ?a es"
    unfolding es
  proof (rule assignable_chosen)
    show "\<forall>e\<in>extents_of (available ?a). e < totalExtents ?a" using lt by blast
    show "totalExtents ?a + int (nat (n - ?k)) \<le> MAX_TOTAL_EXTENTS" using total by linarith
  qed (rule d(1) px)+
  show "int (length es) = n" unfolding es using px(3) by simp
  show "distinct es"
    unfolding es using px lt by (fastforce simp: distinct_map inj_on_def)
  show "n \<le> MAX_EXTENTS_PER_INODE" by (rule n)
  show "u64 e" if "e \<in> set es"
  proof -
    from that consider "e \<in> set xs" | k where "e = totalExtents ?a + int k" "k < nat (n - ?k)"
      by (auto simp: es)
    then have "0 \<le> e \<and> e \<le> MAX_TOTAL_EXTENTS"
    proof cases
      case 1
      with px(2) lt [of e] d(10) show ?thesis by auto
    next
      case 2
      with total d(9) show ?thesis by linarith
    qed
    then show "u64 e" by (simp add: u64_def limit_defs)
  qed
qed

end
