(* ===== verification/Namespace.thy ===== *)
theory Namespace
  imports Main "HOL-Library.Sublist"
begin

text \<open>
  The abstract specification of the directory structure: a tree of named edges over a set of
  nodes, and the three ways a transaction changes it (a leaf is added, a leaf is removed, a subtree
  moves), each with its effect on every path. The state of the file system refines it in the theory
  \<open>Invariant\<close>.
\<close>

type_synonym ('i, 'n) edges = "'i \<Rightarrow> 'n \<Rightarrow> 'i option"

fun path :: "('i, 'n) edges \<Rightarrow> 'i \<Rightarrow> 'n list \<Rightarrow> 'i option" where
  "path ch i [] = Some i"
| "path ch i (n # ns) = (case ch i n of None \<Rightarrow> None | Some j \<Rightarrow> path ch j ns)"

lemma path_append:
  "path ch i (xs @ ys) = (case path ch i xs of None \<Rightarrow> None | Some j \<Rightarrow> path ch j ys)"
  by (induction xs arbitrary: i) (auto split: option.splits)

lemma path_snoc:
  "path ch i (xs @ [n]) = (case path ch i xs of None \<Rightarrow> None | Some j \<Rightarrow> ch j n)"
  by (auto simp: path_append split: option.splits)

definition cutEdge :: "'i \<Rightarrow> 'n \<Rightarrow> ('i, 'n) edges \<Rightarrow> ('i, 'n) edges" where
  "cutEdge p n ch = ch(p := (ch p)(n := None))"

definition linkEdge :: "'i \<Rightarrow> 'n \<Rightarrow> 'i \<Rightarrow> ('i, 'n) edges \<Rightarrow> ('i, 'n) edges" where
  "linkEdge p n c ch = ch(p := (ch p)(n \<mapsto> c))"

lemma cutEdge_apply: "cutEdge p n ch i m = (if i = p \<and> m = n then None else ch i m)"
  by (simp add: cutEdge_def)

lemma linkEdge_apply: "linkEdge p n c ch i m = (if i = p \<and> m = n then Some c else ch i m)"
  by (simp add: linkEdge_def)

text \<open>\<open>uses ch i p n ds\<close>: the walk from \<open>i\<close> along \<open>ds\<close> comes to \<open>p\<close> with \<open>n\<close> as the next name.\<close>

definition uses :: "('i, 'n) edges \<Rightarrow> 'i \<Rightarrow> 'i \<Rightarrow> 'n \<Rightarrow> 'n list \<Rightarrow> bool" where
  "uses ch i p n ds \<longleftrightarrow> (\<exists>a b. ds = a @ n # b \<and> path ch i a = Some p)"

lemma uses_Nil [simp]: "\<not> uses ch i p n []"
  by (simp add: uses_def)

lemma uses_Cons:
  "uses ch i p n (m # ds) \<longleftrightarrow> i = p \<and> m = n \<or> (\<exists>j. ch i m = Some j \<and> uses ch j p n ds)"
  (is "?l \<longleftrightarrow> ?r")
proof
  assume ?l
  then obtain a b where ab: "m # ds = a @ n # b" "path ch i a = Some p" by (auto simp: uses_def)
  show ?r
  proof (cases a)
    case Nil
    with ab show ?thesis by simp
  next
    case (Cons x a')
    with ab show ?thesis by (auto simp: uses_def split: option.splits)
  qed
next
  assume ?r
  then show ?l
  proof
    assume "i = p \<and> m = n"
    then have "m # ds = [] @ n # ds \<and> path ch i [] = Some p" by simp
    then show ?l unfolding uses_def by blast
  next
    assume "\<exists>j. ch i m = Some j \<and> uses ch j p n ds"
    then obtain j a b where "ch i m = Some j" "ds = a @ n # b" "path ch j a = Some p"
      by (auto simp: uses_def)
    then have "m # ds = (m # a) @ n # b \<and> path ch i (m # a) = Some p" by simp
    then show ?l unfolding uses_def by blast
  qed
qed

lemma path_cut: "path (cutEdge p n ch) i ds = (if uses ch i p n ds then None else path ch i ds)"
  by (induction ds arbitrary: i) (auto simp: cutEdge_apply uses_Cons split: option.splits)

lemma path_link_unused:
  "\<not> uses ch i p n ds \<Longrightarrow> path (linkEdge p n c ch) i ds = path ch i ds"
  by (induction ds arbitrary: i) (auto simp: linkEdge_apply uses_Cons split: option.splits)

lemma path_link_used:
  assumes "path ch i a = Some p" and "ch p n = None"
  shows "path (linkEdge p n c ch) i (a @ n # b) = path (linkEdge p n c ch) c b"
proof -
  have "path (linkEdge p n c ch) i a = Some p"
    using assms by (induction a arbitrary: i) (auto simp: linkEdge_apply split: option.splits)
  then show ?thesis by (simp add: path_append linkEdge_apply)
qed

section \<open>Trees\<close>

definition tree :: "'i \<Rightarrow> 'i set \<Rightarrow> ('i, 'n) edges \<Rightarrow> bool" where
  "tree r N ch \<longleftrightarrow> r \<in> N
     \<and> (\<forall>p n c. ch p n = Some c \<longrightarrow> p \<in> N \<and> c \<in> N \<and> c \<noteq> r)
     \<and> (\<forall>p n p' n' c. ch p n = Some c \<longrightarrow> ch p' n' = Some c \<longrightarrow> p' = p \<and> n' = n)
     \<and> (\<forall>i\<in>N. \<exists>ds. path ch r ds = Some i)"

lemma treeD:
  assumes "tree r N ch"
  shows "r \<in> N"
    and "ch p n = Some c \<Longrightarrow> p \<in> N \<and> c \<in> N \<and> c \<noteq> r"
    and "ch p n = Some c \<Longrightarrow> ch p' n' = Some c \<Longrightarrow> p' = p \<and> n' = n"
    and "i \<in> N \<Longrightarrow> \<exists>ds. path ch r ds = Some i"
  using assms by (auto simp: tree_def)

lemma tree_path_in: "tree r N ch \<Longrightarrow> i \<in> N \<Longrightarrow> path ch i ds = Some j \<Longrightarrow> j \<in> N"
  by (induction ds arbitrary: i) (auto split: option.splits dest: treeD(2))

lemma tree_path_unique:
  assumes "tree r N ch"
  shows "path ch r ds = Some i \<Longrightarrow> path ch r es = Some i \<Longrightarrow> ds = es"
proof (induction ds arbitrary: i es rule: rev_induct)
  case Nil
  then show ?case
    using treeD(2) [OF assms] by (cases es rule: rev_cases) (auto simp: path_snoc split: option.splits)
next
  case (snoc n ds)
  then obtain p where p: "path ch r ds = Some p" "ch p n = Some i"
    by (auto simp: path_snoc split: option.splits)
  from p(2) snoc.prems(2) have "es \<noteq> []" using treeD(2) [OF assms] by fastforce
  then obtain es' m where es: "es = es' @ [m]" by (cases es rule: rev_cases) auto
  with snoc.prems obtain q where q: "path ch r es' = Some q" "ch q m = Some i"
    by (auto simp: path_snoc split: option.splits)
  from treeD(3) [OF assms p(2) q(2)] have "q = p" and "m = n" by auto
  with snoc.IH [OF p(1)] q es show ?case by simp
qed

lemma tree_no_cycle:
  assumes "tree r N ch" and "i \<in> N" and "path ch i ds = Some i"
  shows "ds = []"
proof -
  obtain a where a: "path ch r a = Some i" using treeD(4) [OF assms(1,2)] by auto
  with assms(3) have "path ch r (a @ ds) = Some i" by (simp add: path_append)
  with tree_path_unique [OF assms(1) a] show ?thesis by fastforce
qed

lemma tree_depth:
  assumes "tree r N ch" and "finite N" and "path ch r ds = Some i"
  shows "length ds < card N"
proof -
  have some: "path ch r (take k ds) \<noteq> None" for k
    using assms(3) path_append [of ch r "take k ds" "drop k ds"] by (auto split: option.splits)
  let ?at = "\<lambda>k. the (path ch r (take k ds))"
  have "inj_on ?at {0..length ds}"
  proof (rule inj_onI)
    fix j k
    assume jk: "j \<in> {0..length ds}" "k \<in> {0..length ds}" and "?at j = ?at k"
    then have "path ch r (take j ds) = Some (?at k)" "path ch r (take k ds) = Some (?at k)"
      using some by (metis option.collapse)+
    from tree_path_unique [OF assms(1) this] have "take j ds = take k ds" .
    then have "length (take j ds) = length (take k ds)" by (rule arg_cong)
    with jk show "j = k" by simp
  qed
  moreover have "?at ` {0..length ds} \<subseteq> N"
    using tree_path_in [OF assms(1) treeD(1) [OF assms(1)]] some by fastforce
  ultimately have "card {0..length ds} \<le> card N"
    using assms(2) by (meson card_inj_on_le)
  then show ?thesis by simp
qed

text \<open>From the root of a tree, the edge \<open>(p, n)\<close> is used exactly by the extensions of one path.\<close>

lemma tree_uses:
  assumes "tree r N ch" and "path ch r pp = Some p"
  shows "uses ch r p n ds \<longleftrightarrow> prefix (pp @ [n]) ds"
proof
  assume "uses ch r p n ds"
  then obtain a b where "ds = a @ n # b" "path ch r a = Some p" by (auto simp: uses_def)
  with tree_path_unique [OF assms] show "prefix (pp @ [n]) ds" by (auto simp: prefix_def)
next
  assume "prefix (pp @ [n]) ds"
  then obtain b where "ds = pp @ n # b" by (auto simp: prefix_def)
  with assms(2) show "uses ch r p n ds" by (auto simp: uses_def)
qed

lemma leaf_uses: "ch c = Map.empty \<Longrightarrow> c \<noteq> p \<Longrightarrow> \<not> uses ch c p n ds"
  by (cases ds) (auto simp: uses_Cons)

lemma leaf_path: "ch c = Map.empty \<Longrightarrow> path ch c ds = (if ds = [] then Some c else None)"
  by (cases ds) auto

subsection \<open>Adding a leaf\<close>

lemma outside_empty: "tree r N ch \<Longrightarrow> c \<notin> N \<Longrightarrow> ch c = Map.empty"
  using treeD(2) [of r N ch c] by (auto simp: fun_eq_iff intro: ccontr)

lemma path_add_leaf:
  assumes t: "tree r N ch" and c: "c \<notin> N" and p: "path ch r pp = Some p" and n: "ch p n = None"
  shows "path (linkEdge p n c ch) r ds
     = (if ds = pp @ [n] then Some c else path ch r ds)"
proof (cases "prefix (pp @ [n]) ds")
  case False
  then have "\<not> uses ch r p n ds" by (simp add: tree_uses [OF t p])
  with False show ?thesis by (auto simp: path_link_unused)
next
  case True
  then obtain b where ds: "ds = pp @ n # b" by (auto simp: prefix_def)
  have "c \<noteq> p" using c tree_path_in [OF t treeD(1) [OF t] p] by auto
  then have "path (linkEdge p n c ch) c b = path ch c b"
    using leaf_uses outside_empty [OF t c] by (metis path_link_unused)
  with leaf_path outside_empty [OF t c] have "path (linkEdge p n c ch) c b = (if b = [] then Some c else None)"
    by metis
  moreover have "path ch r ds = None" using p n by (simp add: ds path_append)
  ultimately show ?thesis using path_link_used [OF p n, of c b] by (auto simp: ds)
qed

lemma tree_add_leaf:
  assumes t: "tree r N ch" and c: "c \<notin> N" and p: "p \<in> N" and n: "ch p n = None"
  shows "tree r (insert c N) (linkEdge p n c ch)"
proof -
  obtain pp where pp: "path ch r pp = Some p" using treeD(4) [OF t p] by auto
  note path = path_add_leaf [OF t c pp n]
  have "\<exists>ds. path (linkEdge p n c ch) r ds = Some i" if "i \<in> insert c N" for i
  proof (cases "i = c")
    case True
    then show ?thesis by (metis path)
  next
    case False
    with that obtain ds where ds: "path ch r ds = Some i" using treeD(4) [OF t] by auto
    then have "ds \<noteq> pp @ [n]" using pp n by (auto simp: path_snoc)
    with ds show ?thesis by (metis path)
  qed
  moreover have "c \<noteq> r" using c treeD(1) [OF t] by auto
  moreover have "ch q m \<noteq> Some c" for q m using c treeD(2) [OF t, of q m c] by auto
  ultimately show ?thesis
    using treeD(1-3) [OF t] p by (fastforce simp: tree_def linkEdge_apply split: if_splits)
qed

subsection \<open>Removing a leaf\<close>

lemma path_remove_leaf:
  assumes t: "tree r N ch" and p: "path ch r pp = Some p" and c: "ch p n = Some c"
    and leaf: "ch c = Map.empty"
  shows "path (cutEdge p n ch) r ds = (if ds = pp @ [n] then None else path ch r ds)"
proof -
  have "path ch r ds = None" if "prefix (pp @ [n]) ds" "ds \<noteq> pp @ [n]"
  proof -
    from that obtain b where "ds = pp @ n # b" "b \<noteq> []" by (auto simp: prefix_def)
    with p c leaf show ?thesis by (simp add: path_append leaf_path)
  qed
  then show ?thesis by (auto simp: path_cut tree_uses [OF t p])
qed

lemma tree_remove_leaf:
  assumes t: "tree r N ch" and c: "ch p n = Some c" and leaf: "ch c = Map.empty"
  shows "tree r (N - {c}) (cutEdge p n ch)"
proof -
  have p: "p \<in> N" using treeD(2) [OF t c] by simp
  then obtain pp where pp: "path ch r pp = Some p" using treeD(4) [OF t] by auto
  have "\<exists>ds. path (cutEdge p n ch) r ds = Some i" if i: "i \<in> N - {c}" for i
  proof -
    obtain ds where "path ch r ds = Some i" using treeD(4) [OF t] i by auto
    moreover have "ds \<noteq> pp @ [n]" using calculation pp c i by (auto simp: path_snoc)
    ultimately show ?thesis by (metis path_remove_leaf [OF t pp c leaf])
  qed
  moreover have "p \<noteq> c" using c leaf by auto
  moreover have "r \<noteq> c" using treeD(2) [OF t c] by blast
  moreover have "q \<noteq> c" if "ch q m = Some i" for q m i using that leaf by auto
  moreover have "i \<noteq> c" if "ch q m = Some i" "q \<noteq> p \<or> m \<noteq> n" for q m i
    using that treeD(3) [OF t c] by auto
  ultimately show ?thesis
    unfolding tree_def
    using treeD(1-2) [OF t] treeD(3) [OF t] c
    by (auto simp: cutEdge_apply split: if_splits)
qed

subsection \<open>Moving a subtree\<close>

text \<open>
  The move of the node \<open>s\<close> from \<open>(sp, sn)\<close> to the free place \<open>(dp, dn)\<close>, where \<open>dp\<close> does not lie
  under \<open>s\<close>: what was under the old path is under the new one, and nothing else changes.
\<close>

lemma path_move:
  assumes t: "tree r N ch" and sp: "path ch r ps = Some sp" and s: "ch sp sn = Some s"
    and dp: "path ch r pd = Some dp" and dn: "ch dp dn = None"
    and out: "\<And>b. path ch s b \<noteq> Some dp"
  shows "path (linkEdge dp dn s (cutEdge sp sn ch)) r (pd @ dn # b) = path ch r (ps @ sn # b)"
    and "\<not> prefix (pd @ [dn]) ds \<Longrightarrow> path (linkEdge dp dn s (cutEdge sp sn ch)) r ds
          = (if prefix (ps @ [sn]) ds then None else path ch r ds)"
proof -
  have notpre: "\<not> prefix (ps @ [sn]) pd"
  proof
    assume "prefix (ps @ [sn]) pd"
    then obtain b where "pd = (ps @ [sn]) @ b" by (auto simp: prefix_def)
    with dp sp s have "path ch s b = Some dp" by (simp add: path_append)
    with out show False by blast
  qed
  let ?cutEdge = "cutEdge sp sn ch"
  have cutdp: "path ?cutEdge r pd = Some dp"
    using dp notpre by (simp add: path_cut tree_uses [OF t sp])
  have cutdn: "?cutEdge dp dn = None" using dn by (simp add: cutEdge_apply)
  have under: "path ?cutEdge s b = path ch s b" for b
  proof -
    have "s \<in> N" using treeD(2) [OF t s] by simp
    have "\<not> uses ch s sp sn b"
    proof
      assume "uses ch s sp sn b"
      then obtain x y where "path ch s x = Some sp" by (auto simp: uses_def)
      with s have "path ch s (x @ [sn]) = Some s" by (simp add: path_snoc)
      with tree_no_cycle [OF t \<open>s \<in> N\<close>] show False by fastforce
    qed
    then show ?thesis by (simp add: path_cut)
  qed
  have "\<not> uses ?cutEdge s dp dn b" for b
  proof
    assume "uses ?cutEdge s dp dn b"
    then obtain x where "path ?cutEdge s x = Some dp" by (auto simp: uses_def)
    with under out show False by simp
  qed
  then have "path (linkEdge dp dn s ?cutEdge) s b = path ch s b" for b
    by (simp add: path_link_unused under)
  then show "path (linkEdge dp dn s ?cutEdge) r (pd @ dn # b) = path ch r (ps @ sn # b)"
    using path_link_used [OF cutdp cutdn, of s b] sp s by (simp add: path_append)
  show "path (linkEdge dp dn s ?cutEdge) r ds = (if prefix (ps @ [sn]) ds then None else path ch r ds)"
    if "\<not> prefix (pd @ [dn]) ds"
  proof -
    have "\<not> uses ?cutEdge r dp dn ds"
    proof
      assume "uses ?cutEdge r dp dn ds"
      then obtain a b where ab: "ds = a @ dn # b" "path ?cutEdge r a = Some dp" by (auto simp: uses_def)
      then have "path ch r a = Some dp" by (auto simp: path_cut split: if_splits)
      from tree_path_unique [OF t this dp] ab(1) that show False by (auto simp: prefix_def)
    qed
    then show ?thesis by (simp add: path_link_unused path_cut tree_uses [OF t sp])
  qed
qed

lemma tree_move:
  assumes t: "tree r N ch" and s: "ch sp sn = Some s"
    and dpN: "dp \<in> N" and dn: "ch dp dn = None" and out: "\<And>b. path ch s b \<noteq> Some dp"
  shows "tree r N (linkEdge dp dn s (cutEdge sp sn ch))"
proof -
  have "sp \<in> N" using treeD(2) [OF t s] by simp
  then obtain ps where ps: "path ch r ps = Some sp" using treeD(4) [OF t] by auto
  obtain pd where pd: "path ch r pd = Some dp" using treeD(4) [OF t dpN] by auto
  note move = path_move [OF t ps s pd dn out]
  have "\<exists>ds. path (linkEdge dp dn s (cutEdge sp sn ch)) r ds = Some i" if i: "i \<in> N" for i
  proof -
    obtain ds where ds: "path ch r ds = Some i" using treeD(4) [OF t i] by auto
    show ?thesis
    proof (cases "prefix (ps @ [sn]) ds")
      case True
      then obtain b where "ds = ps @ sn # b" by (auto simp: prefix_def)
      with ds show ?thesis by (metis move(1))
    next
      case False
      moreover have "\<not> prefix (pd @ [dn]) ds"
        using ds pd dn by (auto simp: prefix_def path_append)
      ultimately show ?thesis by (metis ds move(2))
    qed
  qed
  moreover have "s \<in> N" "s \<noteq> r" using treeD(2) [OF t s] by auto
  moreover have "q = sp \<and> m = sn" if "ch q m = Some s" for q m using treeD(3) [OF t s that] .
  ultimately show ?thesis
    unfolding tree_def using treeD(1-3) [OF t] dpN
    by (auto simp: linkEdge_apply cutEdge_apply split: if_splits)
qed

end
