(* ===== verification/Invariant.thy ===== *)
theory Invariant
  imports Allocation Namespace
begin

text \<open>
  The state invariant of the virtual file system, the declarative counterpart of
  \<open>validateState\<close>: the inode table is a tree of named entries with a matching parent index, every
  field is in range, the allocator partitions the arena, the tracked payload size is the size of
  the canonical base, and the generations are consistent. The lemmas say how the state updates of
  the reducers act on each part.
\<close>

section \<open>The directory tree of a state\<close>

abbreviation imap :: "VfsState \<Rightarrow> int \<Rightarrow> Inode option" where
  "imap st \<equiv> map_of (inodes st)"

abbreviation pmap :: "VfsState \<Rightarrow> int \<Rightarrow> (int \<times> js_string) option" where
  "pmap st \<equiv> map_of (parentByInode st)"

definition child_of :: "VfsState \<Rightarrow> (int, js_string) edges" where
  "child_of st i = (case imap st i of None \<Rightarrow> Map.empty | Some inode \<Rightarrow> map_of (children inode))"

definition lookup :: "VfsState \<Rightarrow> js_string list \<Rightarrow> int option" where
  "lookup st cs = path (child_of st) (rootInodeId st) cs"

definition file_extents :: "VfsState \<Rightarrow> int \<Rightarrow> int list" where
  "file_extents st i = (case imap st i of None \<Rightarrow> [] | Some inode \<Rightarrow> fileExtents inode)"

section \<open>Well-formed inodes\<close>

definition mode_ok :: "int \<Rightarrow> bool" where
  "mode_ok m \<longleftrightarrow> 0 \<le> m \<and> m \<le> 0xffffffff"

fun body_ok :: "int \<Rightarrow> InodeBody \<Rightarrow> bool" where
  "body_ok ext (Directory es) \<longleftrightarrow> wf_map es \<and> (\<forall>n\<in>set (keys_of es). component_ok n)"
| "body_ok ext (File fsize xs) \<longleftrightarrow> extentCountForSize fsize ext = Inr (int (length xs))"
| "body_ok ext (Symlink t) \<longleftrightarrow> symlink_target_ok t"

definition inode_ok :: "int \<Rightarrow> int \<Rightarrow> int \<Rightarrow> Inode \<Rightarrow> bool" where
  "inode_ok ext next k inode \<longleftrightarrow> inodeId inode = k \<and> 0 \<le> k \<and> k < next \<and> mode_ok (imode inode)
     \<and> u64 (atimeMs inode) \<and> u64 (mtimeMs inode) \<and> u64 (ctimeMs inode) \<and> body_ok ext (body inode)"

section \<open>The parts of the invariant\<close>

definition table_inv :: "VfsState \<Rightarrow> bool" where
  "table_inv st \<longleftrightarrow> wf_map (inodes st) \<and> wf_map (parentByInode st)
     \<and> (\<forall>k inode. imap st k = Some inode \<longrightarrow> inode_ok (extentSize st) (nextInodeId st) k inode)
     \<and> (\<exists>root. imap st (rootInodeId st) = Some root \<and> isDirectory root)
     \<and> extent_size_ok (extentSize st) \<and> u64 (nextInodeId st)
     \<and> int (length (inodes st)) \<le> MAX_INODES"

definition tree_inv :: "VfsState \<Rightarrow> bool" where
  "tree_inv st \<longleftrightarrow> tree (rootInodeId st) (dom (imap st)) (child_of st)
     \<and> (\<forall>c p n. pmap st c = Some (p, n) \<longleftrightarrow> child_of st p n = Some c)"

definition gen_inv :: "VfsState \<Rightarrow> bool" where
  "gen_inv st \<longleftrightarrow> 0 < generation st \<and> generation st \<le> MAX_U64
     \<and> retainedGenerations st (activeMetadataFile st) = Some (generation st)
     \<and> (\<forall>g. retainedGenerations st (otherMetadataFile (activeMetadataFile st)) = Some g \<longrightarrow>
            0 < g \<and> g + 1 = generation st)
     \<and> (\<forall>e g. map_of (quarantine (allocator st)) e = Some (Some g) \<longrightarrow> g = generation st)"

definition inode_bytes :: "Inode \<Rightarrow> int" where
  "inode_bytes inode =
     (case body inode of
        File fsize xs \<Rightarrow> FILE_INODE_FIXED_BYTES + int (length xs) * 8
      | Symlink t \<Rightarrow> SYMLINK_INODE_FIXED_BYTES + utf8_bytes t
      | Directory es \<Rightarrow> DIRECTORY_INODE_FIXED_BYTES + msum (\<lambda>n _. CHILD_FIXED_BYTES + utf8_bytes n) es)"

definition pool_bytes :: "AllocatorState \<Rightarrow> int" where
  "pool_bytes a = int (sizeExtent (available a)) * 8 + int (length (quarantine a)) * 16"

definition base_bytes :: "VfsState \<Rightarrow> int" where
  "base_bytes st = BASE_STATE_FIXED_BYTES + msum (\<lambda>_. inode_bytes) (inodes st)
     + pool_bytes (allocator st)"

definition bytes_inv :: "VfsState \<Rightarrow> bool" where
  "bytes_inv st \<longleftrightarrow> basePayloadBytes st = base_bytes st
     \<and> basePayloadBytes st \<le> MAX_METADATA_BASE_WRITER_BYTES"

definition vfs_inv :: "VfsState \<Rightarrow> bool" where
  "vfs_inv st \<longleftrightarrow> table_inv st \<and> tree_inv st \<and> alloc_inv (allocator st) (file_extents st)
     \<and> gen_inv st \<and> bytes_inv st"

text \<open>Every path of the tree is within the limits; a record that no planner made can break this.\<close>

definition paths_ok :: "VfsState \<Rightarrow> bool" where
  "paths_ok st \<longleftrightarrow> (\<forall>cs i. lookup st cs = Some i \<longrightarrow> path_ok cs)"

lemma table_invD:
  assumes "table_inv st"
  shows "wf_map (inodes st)" and "wf_map (parentByInode st)"
    and "imap st k = Some inode \<Longrightarrow> inode_ok (extentSize st) (nextInodeId st) k inode"
    and "\<exists>root. imap st (rootInodeId st) = Some root \<and> isDirectory root"
    and "extent_size_ok (extentSize st)" and "u64 (nextInodeId st)"
    and "int (length (inodes st)) \<le> MAX_INODES"
  using assms unfolding table_inv_def by blast+

lemma inode_okD:
  assumes "inode_ok ext next k inode"
  shows "inodeId inode = k" and "0 \<le> k" and "k < next" and "mode_ok (imode inode)"
    and "u64 (atimeMs inode)" and "u64 (mtimeMs inode)" and "u64 (ctimeMs inode)"
    and "body_ok ext (body inode)"
  using assms by (simp_all add: inode_ok_def)

lemma vfs_invD:
  assumes "vfs_inv st"
  shows "table_inv st" and "tree_inv st" and "alloc_inv (allocator st) (file_extents st)"
    and "gen_inv st" and "bytes_inv st"
  using assms by (simp_all add: vfs_inv_def)

lemma tree_invD:
  assumes "tree_inv st"
  shows "tree (rootInodeId st) (dom (imap st)) (child_of st)"
    and "pmap st c = Some (p, n) \<longleftrightarrow> child_of st p n = Some c"
  using assms by (simp_all add: tree_inv_def)

lemma inode_id: "table_inv st \<Longrightarrow> imap st k = Some inode \<Longrightarrow> inodeId inode = k"
  by (meson inode_okD(1) table_invD(3))

lemma child_of_Some: "child_of st p n = Some c \<longleftrightarrow>
    (\<exists>inode. imap st p = Some inode \<and> map_of (children inode) n = Some c)"
  by (auto simp: child_of_def split: option.splits)

lemma child_in: "tree_inv st \<Longrightarrow> child_of st p n = Some c \<Longrightarrow> \<exists>inode. imap st c = Some inode"
  using treeD(2) [OF tree_invD(1), of st p n c] by auto

lemma child_component_ok:
  assumes "table_inv st" and "child_of st p n = Some c"
  shows "component_ok n"
proof -
  from assms(2) obtain inode where i: "imap st p = Some inode" "map_of (children inode) n = Some c"
    by (auto simp: child_of_Some)
  from table_invD(3) [OF assms(1) i(1)] have "body_ok (extentSize st) (body inode)"
    by (rule inode_okD)
  with i(2) show ?thesis
    by (force simp: children_def split: InodeBody.splits dest: map_of_SomeD)
qed

lemma not_directory_children: "\<not> isDirectory inode \<Longrightarrow> children inode = []"
  by (auto simp: isDirectory_def children_def split: InodeBody.splits)

lemma directory_body: "isDirectory inode \<Longrightarrow> body inode = Directory (children inode)"
  by (auto simp: isDirectory_def children_def split: InodeBody.splits)

lemma directory_no_extents: "isDirectory inode \<Longrightarrow> fileExtents inode = []"
  by (auto simp: isDirectory_def fileExtents_def split: InodeBody.splits)

section \<open>Lookup of paths\<close>

lemma lookup_Nil [simp]: "lookup st [] = Some (rootInodeId st)"
  by (simp add: lookup_def)

lemma lookup_snoc: "lookup st (cs @ [n]) = Option.bind (lookup st cs) (\<lambda>p. child_of st p n)"
  by (auto simp: lookup_def path_snoc split: option.splits)

lemma lookup_in:
  assumes "tree_inv st" and "lookup st cs = Some i"
  shows "\<exists>inode. imap st i = Some inode"
  using tree_path_in [OF tree_invD(1) [OF assms(1)] treeD(1) [OF tree_invD(1) [OF assms(1)]]]
    assms(2) by (fastforce simp: lookup_def)

lemma lookup_reaches:
  "tree_inv st \<Longrightarrow> imap st i = Some inode \<Longrightarrow> \<exists>cs. lookup st cs = Some i"
  using treeD(4) [OF tree_invD(1)] by (fastforce simp: lookup_def)

lemma lookup_unique:
  "tree_inv st \<Longrightarrow> lookup st cs = Some i \<Longrightarrow> lookup st ds = Some i \<Longrightarrow> cs = ds"
  unfolding lookup_def by (rule tree_path_unique [OF tree_invD(1)])

lemma directoryById_Inr [res_simps]:
  "directoryById st i = Inr d \<longleftrightarrow> imap st i = Some d \<and> isDirectory d"
  by (auto simp: directoryById_def split: option.splits)

lemma inodeById_Inr [res_simps]: "inodeById st i = Inr d \<longleftrightarrow> imap st i = Some d"
  by (auto simp: inodeById_def split: option.splits)

lemma fileById_Inr [res_simps]:
  "fileById st i = Inr (d, fsize, xs) \<longleftrightarrow> imap st i = Some d \<and> body d = File fsize xs"
proof (cases "imap st i")
  case (Some inode)
  then show ?thesis by (cases "body inode") (auto simp: fileById_def inodeById_def)
qed (simp add: fileById_def inodeById_def)

text \<open>The two walks of the source compute the lookup.\<close>

lemma walkInodes_Inr:
  assumes "tree_inv st" and "imap st i = Some inode"
  shows "walkInodes st inode cs = Inr found
     \<longleftrightarrow> (\<exists>j. path (child_of st) i cs = Some j \<and> imap st j = Some found)"
  using assms(2)
proof (induction cs arbitrary: i inode)
  case (Cons c cs)
  have ch: "child_of st i c = map_of (children inode) c" using Cons.prems by (simp add: child_of_def)
  show ?case
  proof (cases "map_of (children inode) c")
    case None
    then show ?thesis by (auto simp: ch)
  next
    case (Some k)
    then have "isDirectory inode" using not_directory_children [of inode] by force
    moreover obtain child where "imap st k = Some child"
      using child_in [OF assms(1), of i c k] ch Some by auto
    ultimately show ?thesis using Some Cons.IH by (simp add: ch)
  qed
qed auto

lemma getInodeAtPath_Inr:
  assumes "table_inv st" and "tree_inv st"
  shows "getInodeAtPath st p = Inr inode
     \<longleftrightarrow> (\<exists>cs i. path_ok cs \<and> p = render_path cs \<and> lookup st cs = Some i \<and> imap st i = Some inode)"
  using table_invD(4) [OF assms(1)] walkInodes_Inr [OF assms(2)]
  by (auto simp: getInodeAtPath_def ebind_eq_Inr parsePath_Inr lookup_def)

lemma walkParents_Inr:
  assumes "imap st i = Some inode" and "isDirectory inode"
  shows "walkParents st inode cs = Inr found
     \<longleftrightarrow> (\<exists>j. path (child_of st) i cs = Some j \<and> imap st j = Some found \<and> isDirectory found)"
  using assms
proof (induction cs arbitrary: i inode)
  case (Cons c cs)
  have ch: "child_of st i c = map_of (children inode) c" using Cons.prems by (simp add: child_of_def)
  show ?case
  proof (cases "map_of (children inode) c")
    case None
    then show ?thesis by (auto simp: ch)
  next
    case (Some k)
    show ?thesis
    proof (cases "\<exists>d. imap st k = Some d \<and> isDirectory d")
      case True
      then obtain d where "imap st k = Some d" "isDirectory d" by auto
      then show ?thesis using Some Cons.IH [of k d] by (simp add: ch directoryById_def)
    next
      case False
      then have no: "\<not> (\<exists>d. directoryById st k = Inr d)" by (simp add: directoryById_Inr)
      then have "child_of st k = Map.empty"
        using False not_directory_children
        by (auto simp: child_of_def split: option.splits)
      then have "path (child_of st) k cs = Some j \<Longrightarrow> j = k" for j by (cases cs) auto
      with False no Some show ?thesis
        by (auto simp: ch ebind_eq_Inr)
    qed
  qed
qed auto

lemma parentAndName_Inr:
  assumes "table_inv st"
  shows "parentAndName st p = Inr (parent, name)
     \<longleftrightarrow> (\<exists>cs i. path_ok (cs @ [name]) \<and> p = render_path (cs @ [name]) \<and> lookup st cs = Some i
          \<and> imap st i = Some parent \<and> isDirectory parent)"
proof -
  obtain root where root: "imap st (rootInodeId st) = Some root" "isDirectory root"
    using table_invD(4) [OF assms] by auto
  then have dir: "directoryById st (rootInodeId st) = Inr root" by (simp add: directoryById_Inr)
  have "parentAndName st p = Inr (parent, name)
      \<longleftrightarrow> (\<exists>comps. path_ok comps \<and> p = render_path comps \<and> comps \<noteq> [] \<and> name = last comps
           \<and> walkParents st root (butlast comps) = Inr parent)"
    by (auto simp: parentAndName_def ebind_eq_Inr parsePath_Inr dir split: if_splits)
  also have "\<dots> \<longleftrightarrow> (\<exists>cs. path_ok (cs @ [name]) \<and> p = render_path (cs @ [name])
      \<and> walkParents st root cs = Inr parent)"
    by (metis append_butlast_last_id butlast_snoc last_snoc snoc_eq_iff_butlast)
  finally show ?thesis
    using walkParents_Inr [OF root] by (auto simp: lookup_def)
qed

end
