(* ===== verification/Updates.thy ===== *)
theory Updates
  imports Invariant
begin

text \<open>
  How the in-place updates of the reducers act on the parts of the invariant: on the inode table,
  on the tree, and on the size of the canonical base. Every reducer is a composition of these.
\<close>

named_theorems update_simps \<open>the fields of an updated state\<close>

section \<open>Fields\<close>

lemma setChild_simps [update_simps]:
  "imap (setChild p n c st) = (imap st)(p := map_option
     (\<lambda>d. d\<lparr>body := Directory (AList.update n c (children d))\<rparr>) (imap st p))"
  "length (inodes (setChild p n c st)) = length (inodes st)"
  "parentByInode (setChild p n c st) = parentByInode st"
  "allocator (setChild p n c st) = allocator st"
  "nextInodeId (setChild p n c st) = nextInodeId st"
  "rootInodeId (setChild p n c st) = rootInodeId st"
  "extentSize (setChild p n c st) = extentSize st"
  "generation (setChild p n c st) = generation st"
  "activeMetadataFile (setChild p n c st) = activeMetadataFile st"
  "retainedGenerations (setChild p n c st) = retainedGenerations st"
  "basePayloadBytes (setChild p n c st) = basePayloadBytes st"
  by (simp_all add: setChild_def alist_simps)

lemma deleteChild_simps [update_simps]:
  "imap (deleteChild p n st) = (imap st)(p := map_option
     (\<lambda>d. d\<lparr>body := Directory (AList.delete n (children d))\<rparr>) (imap st p))"
  "length (inodes (deleteChild p n st)) = length (inodes st)"
  "parentByInode (deleteChild p n st) = parentByInode st"
  "allocator (deleteChild p n st) = allocator st"
  "nextInodeId (deleteChild p n st) = nextInodeId st"
  "rootInodeId (deleteChild p n st) = rootInodeId st"
  "extentSize (deleteChild p n st) = extentSize st"
  "generation (deleteChild p n st) = generation st"
  "activeMetadataFile (deleteChild p n st) = activeMetadataFile st"
  "retainedGenerations (deleteChild p n st) = retainedGenerations st"
  "basePayloadBytes (deleteChild p n st) = basePayloadBytes st"
  by (simp_all add: deleteChild_def alist_simps)

lemma setInode_simps [update_simps]:
  "imap (setInode i inode st) = (imap st)(i \<mapsto> inode)"
  "parentByInode (setInode i inode st) = parentByInode st"
  "allocator (setInode i inode st) = allocator st"
  "nextInodeId (setInode i inode st) = nextInodeId st"
  "rootInodeId (setInode i inode st) = rootInodeId st"
  "extentSize (setInode i inode st) = extentSize st"
  "generation (setInode i inode st) = generation st"
  "activeMetadataFile (setInode i inode st) = activeMetadataFile st"
  "retainedGenerations (setInode i inode st) = retainedGenerations st"
  "basePayloadBytes (setInode i inode st) = basePayloadBytes st"
  by (simp_all add: setInode_def alist_simps)

lemma deleteInode_simps [update_simps]:
  "imap (deleteInode i st) = (imap st)(i := None)"
  "pmap (deleteInode i st) = (pmap st)(i := None)"
  "allocator (deleteInode i st) = allocator st"
  "nextInodeId (deleteInode i st) = nextInodeId st"
  "rootInodeId (deleteInode i st) = rootInodeId st"
  "extentSize (deleteInode i st) = extentSize st"
  "generation (deleteInode i st) = generation st"
  "activeMetadataFile (deleteInode i st) = activeMetadataFile st"
  "retainedGenerations (deleteInode i st) = retainedGenerations st"
  "basePayloadBytes (deleteInode i st) = basePayloadBytes st"
  by (simp_all add: deleteInode_def alist_simps)

lemma setParent_simps [update_simps]:
  "inodes (setParent i p n st) = inodes st"
  "pmap (setParent i p n st) = (pmap st)(i \<mapsto> (p, n))"
  "allocator (setParent i p n st) = allocator st"
  "nextInodeId (setParent i p n st) = nextInodeId st"
  "rootInodeId (setParent i p n st) = rootInodeId st"
  "extentSize (setParent i p n st) = extentSize st"
  "generation (setParent i p n st) = generation st"
  "activeMetadataFile (setParent i p n st) = activeMetadataFile st"
  "retainedGenerations (setParent i p n st) = retainedGenerations st"
  "basePayloadBytes (setParent i p n st) = basePayloadBytes st"
  by (simp_all add: setParent_def alist_simps)

lemma touch_simps [update_simps]:
  "imap (touch i f st) = (imap st)(i := map_option f (imap st i))"
  "length (inodes (touch i f st)) = length (inodes st)"
  "parentByInode (touch i f st) = parentByInode st"
  "allocator (touch i f st) = allocator st"
  "nextInodeId (touch i f st) = nextInodeId st"
  "rootInodeId (touch i f st) = rootInodeId st"
  "extentSize (touch i f st) = extentSize st"
  "generation (touch i f st) = generation st"
  "activeMetadataFile (touch i f st) = activeMetadataFile st"
  "retainedGenerations (touch i f st) = retainedGenerations st"
  "basePayloadBytes (touch i f st) = basePayloadBytes st"
  by (simp_all add: touch_def alist_simps)

lemma children_upd [simp]: "children (d\<lparr>body := Directory es\<rparr>) = es"
  by (simp add: children_def)

lemma isDirectory_upd [simp]: "isDirectory (d\<lparr>body := Directory es\<rparr>)"
  by (simp add: isDirectory_def)

lemma isDirectoryE:
  assumes "isDirectory d"
  obtains es where "body d = Directory es" and "children d = es"
  using assms by (auto simp: isDirectory_def children_def split: InodeBody.splits)

lemma directory_body_ok:
  "isDirectory d \<Longrightarrow>
     body_ok ext (body d) \<longleftrightarrow> wf_map (children d) \<and> (\<forall>n\<in>set (keys_of (children d)). component_ok n)"
  by (erule isDirectoryE) simp

lemma fileExtents_body:
  "body d = Directory es \<Longrightarrow> fileExtents d = []"
  "body d = Symlink t \<Longrightarrow> fileExtents d = []"
  "body d = File fsize xs \<Longrightarrow> fileExtents d = xs"
  by (simp_all add: fileExtents_def)

lemma setTimes_simps [simp]:
  "body (setTimes m c i) = body i" "inodeId (setTimes m c i) = inodeId i"
  "imode (setTimes m c i) = imode i" "atimeMs (setTimes m c i) = atimeMs i"
  "mtimeMs (setTimes m c i) = m" "ctimeMs (setTimes m c i) = c"
  by (simp_all add: setTimes_def)

section \<open>The inode table\<close>

text \<open>An update that rewrites one entry of the table, or none.\<close>

lemma table_inv_upd:
  assumes t: "table_inv st"
    and wf: "wf_map (inodes st')" "wf_map (parentByInode st')"
    and same: "rootInodeId st' = rootInodeId st" "extentSize st' = extentSize st"
      "nextInodeId st' = nextInodeId st"
    and im: "imap st' = (imap st)(k := new)"
    and ok: "\<And>inode. new = Some inode \<Longrightarrow> inode_ok (extentSize st) (nextInodeId st) k inode"
    and root: "k = rootInodeId st \<Longrightarrow> \<exists>r. new = Some r \<and> isDirectory r"
    and len: "int (length (inodes st')) \<le> MAX_INODES"
  shows "table_inv st'"
  unfolding table_inv_def same
proof (intro conjI allI impI)
  show "inode_ok (extentSize st) (nextInodeId st) x inode" if "imap st' x = Some inode" for x inode
    using that ok table_invD(3) [OF t, of x inode] by (cases "x = k") (simp_all add: im)
  show "\<exists>r. imap st' (rootInodeId st) = Some r \<and> isDirectory r"
    using root table_invD(4) [OF t] by (cases "k = rootInodeId st") (simp_all add: im)
qed (rule wf len table_invD(5-6) [OF t])+

lemma table_setChild:
  assumes t: "table_inv st" and d: "imap st p = Some d" "isDirectory d" and n: "component_ok n"
  shows "table_inv (setChild p n c st)"
proof (rule table_inv_upd [OF t, where k = p])
  let ?d = "d\<lparr>body := Directory (AList.update n c (children d))\<rparr>"
  show "wf_map (inodes (setChild p n c st))" using table_invD(1) [OF t] by (simp add: setChild_def)
  show "imap (setChild p n c st) = (imap st)(p := Some ?d)" using d by (simp add: update_simps)
  have "inode_ok (extentSize st) (nextInodeId st) p d" using t d(1) by (rule table_invD)
  then have "inode_ok (extentSize st) (nextInodeId st) p ?d"
    using n keys_of_update [of n c "children d"]
    by (simp add: inode_ok_def directory_body_ok [OF d(2)])
  then show "Some ?d = Some inode \<Longrightarrow> inode_ok (extentSize st) (nextInodeId st) p inode" for inode
    by simp
qed (use t in \<open>simp_all add: update_simps table_inv_def\<close>)

lemma table_deleteChild:
  assumes t: "table_inv st" and d: "imap st p = Some d" "isDirectory d"
  shows "table_inv (deleteChild p n st)"
proof (rule table_inv_upd [OF t, where k = p])
  let ?d = "d\<lparr>body := Directory (AList.delete n (children d))\<rparr>"
  show "wf_map (inodes (deleteChild p n st))" using table_invD(1) [OF t] by (simp add: deleteChild_def)
  show "imap (deleteChild p n st) = (imap st)(p := Some ?d)" using d by (simp add: update_simps)
  have "inode_ok (extentSize st) (nextInodeId st) p d" using t d(1) by (rule table_invD)
  then have "inode_ok (extentSize st) (nextInodeId st) p ?d"
    using keys_of_delete [of n "children d"] by (auto simp: inode_ok_def directory_body_ok [OF d(2)])
  then show "Some ?d = Some inode \<Longrightarrow> inode_ok (extentSize st) (nextInodeId st) p inode" for inode
    by simp
qed (use t in \<open>simp_all add: update_simps table_inv_def\<close>)

lemma table_touch:
  assumes t: "table_inv st" and i: "imap st k = Some i"
    and ok: "inode_ok (extentSize st) (nextInodeId st) k (f i)"
    and dir: "isDirectory (f i) = isDirectory i"
  shows "table_inv (touch k f st)"
proof (rule table_inv_upd [OF t, where k = k])
  show "wf_map (inodes (touch k f st))" using table_invD(1) [OF t] by (simp add: touch_def)
  show "imap (touch k f st) = (imap st)(k := Some (f i))" using i by (simp add: update_simps)
  show "\<exists>r. Some (f i) = Some r \<and> isDirectory r" if "k = rootInodeId st"
    using that table_invD(4) [OF t] i dir by simp
qed (use t ok in \<open>simp_all add: update_simps table_inv_def\<close>)

lemma table_setTimes:
  assumes t: "table_inv st" and i: "imap st k = Some i" and "u64 m" and "u64 c"
  shows "table_inv (touch k (setTimes m c) st)"
proof (rule table_touch [OF t i])
  from table_invD(3) [OF t i] assms(3,4)
  show "inode_ok (extentSize st) (nextInodeId st) k (setTimes m c i)" by (simp add: inode_ok_def)
qed (simp add: isDirectory_def)

lemma table_setInode:
  assumes t: "table_inv st" and new: "imap st k = None"
    and ok: "inode_ok (extentSize st) (nextInodeId st) k inode"
    and room: "int (length (inodes st)) < MAX_INODES"
  shows "table_inv (setInode k inode st)"
proof (rule table_inv_upd [OF t, where k = k])
  show "wf_map (inodes (setInode k inode st))" using table_invD(1) [OF t] by (simp add: setInode_def)
  show "int (length (inodes (setInode k inode st))) \<le> MAX_INODES"
    using new room by (simp add: setInode_def length_update [OF table_invD(1) [OF t]])
  show "\<exists>r. Some inode = Some r \<and> isDirectory r" if "k = rootInodeId st"
    using that new table_invD(4) [OF t] by simp
qed (use t ok in \<open>simp_all add: update_simps table_inv_def\<close>)

lemma table_deleteInode:
  assumes t: "table_inv st" and "k \<noteq> rootInodeId st"
  shows "table_inv (deleteInode k st)"
proof (rule table_inv_upd [OF t, where k = k])
  show "int (length (inodes (deleteInode k st))) \<le> MAX_INODES"
    using table_invD(7) [OF t] length_delete [OF table_invD(1) [OF t], of k]
    by (simp add: deleteInode_def split: if_splits)
  show "wf_map (inodes (deleteInode k st))" "wf_map (parentByInode (deleteInode k st))"
    using t by (simp_all add: deleteInode_def table_inv_def)
qed (use assms(2) in \<open>auto simp: update_simps\<close>)

lemma table_setParent: "table_inv st \<Longrightarrow> table_inv (setParent k p n st)"
  by (simp add: table_inv_def setParent_def)

lemma table_cong:
  assumes "table_inv st" and "inodes st' = inodes st" and "parentByInode st' = parentByInode st"
    and "rootInodeId st' = rootInodeId st" and "extentSize st' = extentSize st"
    and "nextInodeId st \<le> nextInodeId st'" and "u64 (nextInodeId st')"
  shows "table_inv st'"
  using assms by (force simp: table_inv_def inode_ok_def)

lemma table_allocator: "table_inv (st\<lparr>allocator := a\<rparr>) \<longleftrightarrow> table_inv st"
  by (simp add: table_inv_def)

lemma table_bytes: "table_inv (st\<lparr>basePayloadBytes := b\<rparr>) \<longleftrightarrow> table_inv st"
  by (simp add: table_inv_def)

section \<open>The tree\<close>

lemma child_of_setChild:
  "imap st p = Some d \<Longrightarrow> child_of (setChild p n c st) = linkEdge p n c (child_of st)"
  by (auto simp: child_of_def linkEdge_def update_simps fun_eq_iff children_def)

lemma child_of_deleteChild: "child_of (deleteChild p n st) = cutEdge p n (child_of st)"
  by (auto simp: child_of_def cutEdge_def update_simps fun_eq_iff children_def split: option.splits)

lemma child_of_touch:
  "(\<And>i. imap st k = Some i \<Longrightarrow> children (f i) = children i) \<Longrightarrow> child_of (touch k f st) = child_of st"
  by (auto simp: child_of_def update_simps fun_eq_iff split: option.splits)

lemma child_of_setTimes [update_simps]: "child_of (touch k (setTimes m c) st) = child_of st"
  by (rule child_of_touch) (simp add: children_def)

lemma child_of_setInode:
  "child_of (setInode k inode st) = (child_of st)(k := map_of (children inode))"
  by (auto simp: child_of_def update_simps fun_eq_iff)

lemma child_of_deleteInode: "child_of (deleteInode k st) = (child_of st)(k := Map.empty)"
  by (auto simp: child_of_def update_simps fun_eq_iff)

lemma child_of_setParent [update_simps]: "child_of (setParent k p n st) = child_of st"
  by (simp add: child_of_def update_simps fun_eq_iff)

lemma child_of_cong: "inodes st' = inodes st \<Longrightarrow> child_of st' = child_of st"
  by (simp add: child_of_def fun_eq_iff)

lemma child_of_allocator [simp]: "child_of (st\<lparr>allocator := a\<rparr>) = child_of st"
  by (rule child_of_cong) simp

lemma child_of_bytes [simp]: "child_of (st\<lparr>basePayloadBytes := b\<rparr>) = child_of st"
  by (rule child_of_cong) simp

lemma child_of_next [simp]: "child_of (st\<lparr>nextInodeId := b\<rparr>) = child_of st"
  by (rule child_of_cong) simp

text \<open>The three changes of the namespace, from the fields of the state before and after.\<close>

lemma tree_inv_create:
  assumes t: "tree_inv st" and c: "imap st c = None" and p: "imap st p \<noteq> None"
    and n: "child_of st p n = None"
    and root: "rootInodeId st' = rootInodeId st" and dom: "dom (imap st') = insert c (dom (imap st))"
    and ch: "child_of st' = linkEdge p n c (child_of st)" and pm: "pmap st' = (pmap st)(c \<mapsto> (p, n))"
  shows "tree_inv st'"
    and "lookup st pp = Some p \<Longrightarrow>
      lookup st' cs = (if cs = pp @ [n] then Some c else lookup st cs)"
proof -
  note tr = tree_invD(1) [OF t]
  have cN: "c \<notin> dom (imap st)" and pN: "p \<in> dom (imap st)" using c p by (auto simp: domIff)
  have "tree (rootInodeId st') (dom (imap st')) (child_of st')"
    unfolding root dom ch by (rule tree_add_leaf [OF tr cN pN n])
  moreover have "pmap st' x = Some (q, m) \<longleftrightarrow> child_of st' q m = Some x" for x q m
  proof -
    have "child_of st q m \<noteq> Some c" using treeD(2) [OF tr, of q m c] cN by blast
    then show ?thesis
      using tree_invD(2) [OF t, of x q m] n by (auto simp: ch pm linkEdge_apply)
  qed
  ultimately show "tree_inv st'" by (simp add: tree_inv_def)
  show "lookup st' cs = (if cs = pp @ [n] then Some c else lookup st cs)" if "lookup st pp = Some p"
    using path_add_leaf [OF tr cN _ n, of pp cs] that by (simp add: lookup_def root ch)
qed

lemma tree_inv_remove:
  assumes t: "tree_inv st" and c: "child_of st p n = Some c" and leaf: "child_of st c = Map.empty"
    and root: "rootInodeId st' = rootInodeId st" and dom: "dom (imap st') = dom (imap st) - {c}"
    and ch: "child_of st' = cutEdge p n (child_of st)" and pm: "pmap st' = (pmap st)(c := None)"
  shows "tree_inv st'"
    and "lookup st pp = Some p \<Longrightarrow>
      lookup st' cs = (if cs = pp @ [n] then None else lookup st cs)"
proof -
  note tr = tree_invD(1) [OF t]
  have "tree (rootInodeId st') (dom (imap st')) (child_of st')"
    unfolding root dom ch by (rule tree_remove_leaf [OF tr c leaf])
  moreover have "pmap st' x = Some (q, m) \<longleftrightarrow> child_of st' q m = Some x" for x q m
  proof (cases "x = c")
    case True
    then show ?thesis using treeD(3) [OF tr c, of q m] by (auto simp: ch pm cutEdge_apply)
  next
    case False
    then show ?thesis using tree_invD(2) [OF t, of x q m] c by (auto simp: ch pm cutEdge_apply)
  qed
  ultimately show "tree_inv st'" by (simp add: tree_inv_def)
  show "lookup st' cs = (if cs = pp @ [n] then None else lookup st cs)" if "lookup st pp = Some p"
    using path_remove_leaf [OF tr _ c leaf, of pp cs] that by (simp add: lookup_def root ch)
qed

lemma tree_inv_move:
  assumes t: "tree_inv st" and s: "child_of st sp sn = Some s" and dp: "imap st dp \<noteq> None"
    and dn: "child_of st dp dn = None" and out: "\<And>b. path (child_of st) s b \<noteq> Some dp"
    and root: "rootInodeId st' = rootInodeId st" and dom: "dom (imap st') = dom (imap st)"
    and ch: "child_of st' = linkEdge dp dn s (cutEdge sp sn (child_of st))"
    and pm: "pmap st' = (pmap st)(s \<mapsto> (dp, dn))"
  shows "tree_inv st'"
    and "lookup st ps = Some sp \<Longrightarrow> lookup st pd = Some dp \<Longrightarrow>
      lookup st' (pd @ dn # b) = lookup st (ps @ sn # b)"
    and "lookup st ps = Some sp \<Longrightarrow> lookup st pd = Some dp \<Longrightarrow> \<not> prefix (pd @ [dn]) cs \<Longrightarrow>
      lookup st' cs = (if prefix (ps @ [sn]) cs then None else lookup st cs)"
proof -
  note tr = tree_invD(1) [OF t]
  have dpN: "dp \<in> dom (imap st)" using dp by (auto simp: domIff)
  have "tree (rootInodeId st') (dom (imap st')) (child_of st')"
    unfolding root dom ch by (rule tree_move [OF tr s dpN dn out])
  moreover have "pmap st' x = Some (q, m) \<longleftrightarrow> child_of st' q m = Some x" for x q m
  proof (cases "x = s")
    case True
    have "child_of st q m \<noteq> Some s" if "\<not> (q = sp \<and> m = sn)"
      using that treeD(3) [OF tr s] by blast
    then have "child_of st' q m = Some s \<longleftrightarrow> q = dp \<and> m = dn"
      unfolding ch cutEdge_apply linkEdge_apply by (cases "q = sp \<and> m = sn") simp_all
    with True show ?thesis unfolding pm by fastforce
  next
    case False
    then have "pmap st' x = pmap st x" by (simp add: pm)
    moreover have "child_of st' q m = Some x \<longleftrightarrow> child_of st q m = Some x"
      using False dn by (cases "q = sp \<and> m = sn") (simp_all add: ch cutEdge_apply linkEdge_apply s)
    ultimately show ?thesis using tree_invD(2) [OF t, of x q m] by simp
  qed
  ultimately show "tree_inv st'" by (simp add: tree_inv_def)
  assume "lookup st ps = Some sp" and "lookup st pd = Some dp"
  then have ps: "path (child_of st) (rootInodeId st) ps = Some sp"
    and pd: "path (child_of st) (rootInodeId st) pd = Some dp" by (simp_all add: lookup_def)
  note move = path_move [OF tr ps s pd dn out]
  show "lookup st' (pd @ dn # b) = lookup st (ps @ sn # b)"
    using move(1) by (simp add: lookup_def root ch)
  show "lookup st' cs = (if prefix (ps @ [sn]) cs then None else lookup st cs)"
    if "\<not> prefix (pd @ [dn]) cs"
    using move(2) [OF that] by (simp add: lookup_def root ch)
qed

lemma tree_inv_cong:
  "tree_inv st \<Longrightarrow> child_of st' = child_of st \<Longrightarrow> pmap st' = pmap st \<Longrightarrow>
     dom (imap st') = dom (imap st) \<Longrightarrow> rootInodeId st' = rootInodeId st \<Longrightarrow> tree_inv st'"
  by (simp add: tree_inv_def)

lemma lookup_cong:
  "child_of st' = child_of st \<Longrightarrow> rootInodeId st' = rootInodeId st \<Longrightarrow> lookup st' = lookup st"
  by (rule ext) (simp add: lookup_def)

section \<open>The extents of the files\<close>

lemma file_extents_setChild:
  "imap st p = Some d \<Longrightarrow> isDirectory d \<Longrightarrow> file_extents (setChild p n c st) = file_extents st"
  by (auto simp: file_extents_def update_simps fun_eq_iff fileExtents_body directory_no_extents)

lemma file_extents_deleteChild:
  "imap st p = Some d \<Longrightarrow> isDirectory d \<Longrightarrow> file_extents (deleteChild p n st) = file_extents st"
  by (auto simp: file_extents_def update_simps fun_eq_iff fileExtents_body directory_no_extents)

lemma file_extents_setInode:
  "file_extents (setInode k inode st) = (file_extents st)(k := fileExtents inode)"
  by (auto simp: file_extents_def update_simps fun_eq_iff)

lemma file_extents_deleteInode: "file_extents (deleteInode k st) = (file_extents st)(k := [])"
  by (auto simp: file_extents_def update_simps fun_eq_iff)

lemma file_extents_setParent [update_simps]: "file_extents (setParent k p n st) = file_extents st"
  by (auto simp: file_extents_def update_simps fun_eq_iff)

lemma file_extents_setTimes [update_simps]:
  "file_extents (touch k (setTimes m c) st) = file_extents st"
  by (auto simp: file_extents_def update_simps fun_eq_iff fileExtents_def split: option.splits)

lemma file_extents_cong: "inodes st' = inodes st \<Longrightarrow> file_extents st' = file_extents st"
  by (simp add: file_extents_def fun_eq_iff)

section \<open>The size of the base\<close>

definition table_bytes_of :: "VfsState \<Rightarrow> int" where
  "table_bytes_of st = msum (\<lambda>_. inode_bytes) (inodes st)"

lemma base_bytes_parts:
  "base_bytes st = BASE_STATE_FIXED_BYTES + table_bytes_of st + pool_bytes (allocator st)"
  by (simp add: base_bytes_def table_bytes_of_def)

abbreviation child_bytes :: "js_string \<Rightarrow> int" where
  "child_bytes n \<equiv> CHILD_FIXED_BYTES + utf8_bytes n"

lemma inode_bytes_Directory:
  "inode_bytes (d\<lparr>body := Directory es\<rparr>)
     = DIRECTORY_INODE_FIXED_BYTES + msum (\<lambda>n _. child_bytes n) es"
  by (simp add: inode_bytes_def)

lemma table_bytes_setChild:
  assumes "table_inv st" and d: "imap st p = Some d" "isDirectory d"
  shows "table_bytes_of (setChild p n c st)
    = table_bytes_of st + (if map_of (children d) n = None then child_bytes n else 0)"
proof -
  have "body_ok (extentSize st) (body d)" using assms(1) d(1) by (meson inode_okD table_invD(3))
  then have "wf_map (children d)" by (simp add: directory_body_ok [OF d(2)])
  moreover have "inode_bytes d = DIRECTORY_INODE_FIXED_BYTES + msum (\<lambda>n _. child_bytes n) (children d)"
    by (rule isDirectoryE [OF d(2)]) (simp add: inode_bytes_def)
  ultimately show ?thesis
    using d msum_alter [OF table_invD(1) [OF assms(1)], of "\<lambda>_. inode_bytes" p
        "\<lambda>d. d\<lparr>body := Directory (AList.update n c (children d))\<rparr>"]
    by (simp add: table_bytes_of_def setChild_def inode_bytes_Directory msum_update split: option.split)
qed

lemma table_bytes_deleteChild:
  assumes "table_inv st" and d: "imap st p = Some d" "isDirectory d"
  shows "table_bytes_of (deleteChild p n st)
    = table_bytes_of st - (if map_of (children d) n = None then 0 else child_bytes n)"
proof -
  have "body_ok (extentSize st) (body d)" using assms(1) d(1) by (meson inode_okD table_invD(3))
  then have "wf_map (children d)" by (simp add: directory_body_ok [OF d(2)])
  moreover have "inode_bytes d = DIRECTORY_INODE_FIXED_BYTES + msum (\<lambda>n _. child_bytes n) (children d)"
    by (rule isDirectoryE [OF d(2)]) (simp add: inode_bytes_def)
  ultimately show ?thesis
    using d msum_alter [OF table_invD(1) [OF assms(1)], of "\<lambda>_. inode_bytes" p
        "\<lambda>d. d\<lparr>body := Directory (AList.delete n (children d))\<rparr>"]
    by (simp add: table_bytes_of_def deleteChild_def inode_bytes_Directory msum_delete split: option.split)
qed

lemma table_bytes_setInode:
  "table_inv st \<Longrightarrow> imap st k = None \<Longrightarrow>
     table_bytes_of (setInode k inode st) = table_bytes_of st + inode_bytes inode"
  by (simp add: table_bytes_of_def setInode_def msum_update table_invD(1))

lemma table_bytes_deleteInode:
  "table_inv st \<Longrightarrow> imap st k = Some inode \<Longrightarrow>
     table_bytes_of (deleteInode k st) = table_bytes_of st - inode_bytes inode"
  by (simp add: table_bytes_of_def deleteInode_def msum_delete table_invD(1))

lemma table_bytes_touch:
  "table_inv st \<Longrightarrow> imap st k = Some inode \<Longrightarrow>
     table_bytes_of (touch k f st) = table_bytes_of st + inode_bytes (f inode) - inode_bytes inode"
  by (simp add: table_bytes_of_def touch_def msum_alter table_invD(1))

lemma table_bytes_setTimes [update_simps]:
  "table_inv st \<Longrightarrow> table_bytes_of (touch k (setTimes m c) st) = table_bytes_of st"
  by (auto simp: table_bytes_of_def touch_def msum_alter table_invD(1) inode_bytes_def
      split: option.splits)

lemma table_bytes_setParent [update_simps]: "table_bytes_of (setParent k p n st) = table_bytes_of st"
  by (simp add: table_bytes_of_def update_simps)

lemma table_bytes_cong: "inodes st' = inodes st \<Longrightarrow> table_bytes_of st' = table_bytes_of st"
  by (simp add: table_bytes_of_def)

text \<open>The code's own computation of these sizes.\<close>

lemma childBaseBytes_ok: "component_ok n \<Longrightarrow> childBaseBytes n = Inr (child_bytes n)"
  by (simp add: childBaseBytes_def encodedUtf8Length_eq component_ok_utf8)

lemma inodeBaseBytes_ok:
  assumes "body_ok ext (body inode)"
  shows "inodeBaseBytes inode = Inr (inode_bytes inode)"
proof (cases "body inode")
  case (Directory es)
  have "\<forall>n\<in>set (keys_of es). component_ok n \<Longrightarrow>
      fold_res (\<lambda>name b. ebind (childBaseBytes name) (\<lambda>n. Inr (b + n))) (keys_of es) acc
        = Inr (acc + msum (\<lambda>n _. child_bytes n) es)" for acc
    by (induction es arbitrary: acc) (auto simp: childBaseBytes_ok add.assoc)
  with assms Directory show ?thesis by (simp add: inodeBaseBytes_def inode_bytes_def)
next
  case (Symlink t)
  with assms have "utf8_ok t"
    using render_bytes by (auto simp: symlink_target_ok_def path_ok_def component_ok_utf8)
  with Symlink show ?thesis by (simp add: inodeBaseBytes_def inode_bytes_def encodedUtf8Length_eq)
qed (simp add: inodeBaseBytes_def inode_bytes_def)

lemma estimate_base_bytes:
  assumes t: "table_inv st"
  shows "estimateMetadataBasePayloadBytes st = Inr (base_bytes st)"
proof -
  have "(\<And>k i. (k, i) \<in> set xs \<Longrightarrow> inodeBaseBytes i = Inr (inode_bytes i)) \<Longrightarrow>
      fold_res (\<lambda>inode b. ebind (inodeBaseBytes inode) (\<lambda>n. Inr (b + n))) (map snd xs) acc
        = Inr (acc + msum (\<lambda>_. inode_bytes) xs)" for acc and xs :: "(int \<times> Inode) list"
  proof (induction xs arbitrary: acc)
    case (Cons x xs)
    then have "inodeBaseBytes (snd x) = Inr (inode_bytes (snd x))"
      and "\<And>acc. fold_res (\<lambda>inode b. ebind (inodeBaseBytes inode) (\<lambda>n. Inr (b + n))) (map snd xs) acc
        = Inr (acc + msum (\<lambda>_. inode_bytes) xs)"
      by (cases x, auto)+
    then show ?case by (cases x) (simp add: add.assoc)
  qed simp
  moreover have "inodeBaseBytes i = Inr (inode_bytes i)" if "(k, i) \<in> set (inodes st)" for k i
  proof -
    from that have "imap st k = Some i" using table_invD(1) [OF t] by (simp add: wf_map_in_set)
    from table_invD(3) [OF t this] show ?thesis by (intro inodeBaseBytes_ok) (rule inode_okD)
  qed
  ultimately show ?thesis
    by (simp add: estimateMetadataBasePayloadBytes_def base_bytes_def pool_bytes_def)
qed

end
