(* ===== verification/Reducers.thy ===== *)
theory Reducers
  imports Updates
begin

text \<open>
  Every reducer keeps the invariant. First the shapes that several reducers share (a new entry, a
  removed entry, a change of extents), then one lemma per reducer: the invariant, the change of the
  canonical base size, and the change of the namespace.
\<close>

definition core_inv :: "VfsState \<Rightarrow> bool" where
  "core_inv st \<longleftrightarrow> table_inv st \<and> tree_inv st \<and> alloc_inv (allocator st) (file_extents st) \<and> gen_inv st"

lemma core_invI:
  "table_inv st \<Longrightarrow> tree_inv st \<Longrightarrow> alloc_inv (allocator st) (file_extents st) \<Longrightarrow> gen_inv st \<Longrightarrow> core_inv st"
  by (simp add: core_inv_def)

lemma core_invD:
  assumes "core_inv st"
  shows "table_inv st" and "tree_inv st" and "alloc_inv (allocator st) (file_extents st)" and "gen_inv st"
  using assms by (simp_all add: core_inv_def)

lemma vfs_inv_core: "vfs_inv st \<longleftrightarrow> core_inv st \<and> bytes_inv st"
  by (auto simp: vfs_inv_def core_inv_def)

lemma gen_inv_upd:
  assumes "gen_inv st" and "generation st' = generation st"
    and "activeMetadataFile st' = activeMetadataFile st"
    and "retainedGenerations st' = retainedGenerations st"
    and "\<And>e g. map_of (quarantine (allocator st')) e = Some (Some g) \<Longrightarrow>
           map_of (quarantine (allocator st)) e = Some (Some g)"
  shows "gen_inv st'"
  unfolding gen_inv_def
proof (intro conjI allI impI)
  show "g = generation st'" if "map_of (quarantine (allocator st')) e = Some (Some g)" for e g
    using assms(1,2) assms(5) [OF that] by (simp add: gen_inv_def)
qed (use assms(1-4) in \<open>simp_all add: gen_inv_def\<close>)

lemma releaseExtents_gen:
  "map_of (quarantine (fold releaseExtent es a)) e = Some (Some g) \<Longrightarrow>
     map_of (quarantine a) e = Some (Some g)"
proof (induction es arbitrary: a)
  case (Cons x es)
  from Cons.IH [of "releaseExtent x a"] Cons.prems show ?case by (auto split: if_splits)
qed simp

lemma reserveExtents_gen:
  "map_of (quarantine (fold reserveExtent es a)) e = Some (Some g) \<Longrightarrow>
     map_of (quarantine a) e = Some (Some g)"
proof (induction es arbitrary: a)
  case (Cons x es)
  from Cons.IH [of "reserveExtent x a"] Cons.prems show ?case by (auto split: if_splits)
qed simp

lemma advance_Inr [res_simps]:
  "advanceNextInodeId c = Inr next \<longleftrightarrow> c \<noteq> MAX_U64 \<and> next = c + 1 \<and> u64 (c + 1)"
  by (auto simp: advanceNextInodeId_def res_simps)

lemma validateMode_Inr [res_simps]: "validateMode m = Inr m' \<longleftrightarrow> m' = m \<and> mode_ok m"
  by (auto simp: validateMode_def mode_ok_def isSafeInteger_def limit_defs)

lemma validateTimestamp_Inr [res_simps]: "validateTimestamp t = Inr t' \<longleftrightarrow> t' = t \<and> u64 t"
  by (simp add: validateTimestamp_def res_simps)

section \<open>A new entry\<close>

text \<open>The statements with which a new inode enters its directory, the table and the parent index.\<close>

definition enterNew :: "int \<Rightarrow> js_string \<Rightarrow> Inode \<Rightarrow> int \<Rightarrow> VfsState \<Rightarrow> VfsState" where
  "enterNew p n inode next st =
     (setParent (inodeId inode) p n (setInode (inodeId inode) inode
        (setChild p n (inodeId inode) st)))\<lparr>nextInodeId := next\<rparr>"

lemma enterNew_simps [update_simps]:
  "imap (enterNew p n inode next st) =
     ((imap st)(p := map_option
        (\<lambda>d. d\<lparr>body := Directory (AList.update n (inodeId inode) (children d))\<rparr>) (imap st p)))
     (inodeId inode \<mapsto> inode)"
  "pmap (enterNew p n inode next st) = (pmap st)(inodeId inode \<mapsto> (p, n))"
  "allocator (enterNew p n inode next st) = allocator st"
  "nextInodeId (enterNew p n inode next st) = next"
  "rootInodeId (enterNew p n inode next st) = rootInodeId st"
  "extentSize (enterNew p n inode next st) = extentSize st"
  "generation (enterNew p n inode next st) = generation st"
  "activeMetadataFile (enterNew p n inode next st) = activeMetadataFile st"
  "retainedGenerations (enterNew p n inode next st) = retainedGenerations st"
  "basePayloadBytes (enterNew p n inode next st) = basePayloadBytes st"
  by (simp_all add: enterNew_def update_simps)

lemma enterNew_commute:
  "enterNew p n inode next st = setParent (inodeId inode) p n (setInode (inodeId inode) inode
     (setChild p n (inodeId inode) (st\<lparr>nextInodeId := next\<rparr>)))"
  by (simp add: enterNew_def setParent_def setInode_def setChild_def)

text \<open>What the reducers establish before they enter it.\<close>

definition new_entry :: "VfsState \<Rightarrow> int \<Rightarrow> js_string \<Rightarrow> Inode \<Rightarrow> Inode \<Rightarrow> bool" where
  "new_entry st p n inode d \<longleftrightarrow> table_inv st \<and> tree_inv st \<and> imap st p = Some d \<and> isDirectory d
     \<and> map_of (children d) n = None \<and> component_ok n \<and> inodeId inode = nextInodeId st
     \<and> u64 (nextInodeId st + 1)
     \<and> inode_ok (extentSize st) (nextInodeId st + 1) (nextInodeId st) inode
     \<and> children inode = [] \<and> int (length (inodes st)) < MAX_INODES"

abbreviation entered :: "VfsState \<Rightarrow> int \<Rightarrow> js_string \<Rightarrow> Inode \<Rightarrow> VfsState" where
  "entered st p n inode \<equiv> enterNew p n inode (nextInodeId st + 1) st"

lemma new_entryD:
  assumes "new_entry st p n inode d"
  shows "table_inv st" and "tree_inv st" and "imap st p = Some d" and "isDirectory d"
    and "map_of (children d) n = None" and "component_ok n" and "inodeId inode = nextInodeId st"
    and "u64 (nextInodeId st + 1)"
    and "inode_ok (extentSize st) (nextInodeId st + 1) (nextInodeId st) inode"
    and "children inode = []" and "int (length (inodes st)) < MAX_INODES"
  using assms by (simp_all add: new_entry_def)

lemma next_unused: "table_inv st \<Longrightarrow> imap st (nextInodeId st) = None"
proof (rule ccontr)
  assume t: "table_inv st" and "imap st (nextInodeId st) \<noteq> None"
  then obtain i where "imap st (nextInodeId st) = Some i" by auto
  from inode_okD(3) [OF table_invD(3) [OF t this]] show False by simp
qed

lemma new_entry_parent: "new_entry st p n inode d \<Longrightarrow> p \<noteq> nextInodeId st"
  using next_unused [of st] by (auto simp: new_entry_def)

lemma table_new:
  assumes new: "new_entry st p n inode d"
  shows "table_inv (entered st p n inode)"
  unfolding enterNew_commute
proof (rule table_setParent, rule table_setInode)
  note e = new_entryD [OF new]
  let ?s = "st\<lparr>nextInodeId := nextInodeId st + 1\<rparr>"
  have "table_inv ?s" using e(1) by (rule table_cong) (use e(8) in simp_all)
  then show "table_inv (setChild p n (inodeId inode) ?s)"
    by (rule table_setChild) (use e in simp_all)
  show "imap (setChild p n (inodeId inode) ?s) (inodeId inode) = None"
    using next_unused [OF e(1)] new_entry_parent [OF new] by (simp add: update_simps e(7))
  show "inode_ok (extentSize (setChild p n (inodeId inode) ?s))
      (nextInodeId (setChild p n (inodeId inode) ?s)) (inodeId inode) inode"
    using e(9) by (simp add: update_simps e(7))
  show "int (length (inodes (setChild p n (inodeId inode) ?s))) < MAX_INODES"
    using e(11) by (simp add: update_simps)
qed

lemma child_new:
  assumes new: "new_entry st p n inode d"
  shows "child_of (entered st p n inode) = linkEdge p n (nextInodeId st) (child_of st)"
proof -
  note e = new_entryD [OF new]
  have "child_of st (nextInodeId st) = Map.empty" using next_unused [OF e(1)] by (simp add: child_of_def)
  moreover have "child_of (entered st p n inode)
      = (linkEdge p n (nextInodeId st) (child_of st))(nextInodeId st := map_of (children inode))"
    using child_of_setChild [OF e(3)] child_of_cong [of "entered st p n inode"
        "setInode (inodeId inode) inode (setChild p n (inodeId inode) st)"]
    by (simp add: enterNew_def setParent_def child_of_setInode e(7))
  ultimately show ?thesis
    using new_entry_parent [OF new] e(10) by (auto simp: linkEdge_def fun_eq_iff)
qed

lemma tree_new:
  assumes new: "new_entry st p n inode d"
  shows "tree_inv (entered st p n inode)"
    and "lookup st pp = Some p \<Longrightarrow> lookup (entered st p n inode) cs
      = (if cs = pp @ [n] then Some (nextInodeId st) else lookup st cs)"
proof -
  note e = new_entryD [OF new]
  have free: "child_of st p n = None" using e(3,5) by (simp add: child_of_def)
  have dom: "dom (imap (entered st p n inode)) = insert (nextInodeId st) (dom (imap st))"
    using e(3) by (auto simp: update_simps e(7) split: if_splits)
  note create = tree_inv_create [OF e(2) next_unused [OF e(1)] _ free _ dom child_new [OF new]]
  show "tree_inv (entered st p n inode)"
    by (rule create(1)) (use e in \<open>simp_all add: update_simps\<close>)
  show "lookup (entered st p n inode) cs
      = (if cs = pp @ [n] then Some (nextInodeId st) else lookup st cs)"
    if "lookup st pp = Some p"
    by (rule create(2)) (use e that in \<open>simp_all add: update_simps\<close>)
qed

lemma extents_new:
  assumes new: "new_entry st p n inode d"
  shows "file_extents (entered st p n inode)
     = (file_extents st)(nextInodeId st := fileExtents inode)"
  using new_entryD [OF new] new_entry_parent [OF new]
  by (auto simp: file_extents_def update_simps fun_eq_iff fileExtents_body directory_no_extents)

lemma bytes_new:
  assumes new: "new_entry st p n inode d"
  shows "table_bytes_of (entered st p n inode) = table_bytes_of st + child_bytes n + inode_bytes inode"
proof -
  note e = new_entryD [OF new]
  have t: "table_inv (setChild p n (inodeId inode) st)"
    using e(1,3,4,6) by (rule table_setChild)
  have "table_bytes_of (entered st p n inode)
      = table_bytes_of (setInode (inodeId inode) inode (setChild p n (inodeId inode) st))"
    by (simp add: enterNew_def setParent_def table_bytes_of_def)
  also have "\<dots> = table_bytes_of (setChild p n (inodeId inode) st) + inode_bytes inode"
    by (rule table_bytes_setInode [OF t])
      (use next_unused [OF e(1)] new_entry_parent [OF new] in \<open>simp add: update_simps e(7)\<close>)
  finally show ?thesis using table_bytes_setChild [OF e(1,3,4)] e(5) by simp
qed

section \<open>A removed entry\<close>

text \<open>An entry whose inode has no children of its own, under an existing directory.\<close>

definition leaf_entry :: "VfsState \<Rightarrow> int \<Rightarrow> js_string \<Rightarrow> Inode \<Rightarrow> Inode \<Rightarrow> bool" where
  "leaf_entry st p n inode d \<longleftrightarrow> table_inv st \<and> tree_inv st \<and> imap st p = Some d \<and> isDirectory d
     \<and> map_of (children d) n = Some (inodeId inode) \<and> imap st (inodeId inode) = Some inode
     \<and> children inode = []"

definition unlinkEntry :: "int \<Rightarrow> js_string \<Rightarrow> int \<Rightarrow> VfsState \<Rightarrow> VfsState" where
  "unlinkEntry p n c st = deleteInode c (deleteChild p n st)"

lemma leaf_entryD:
  assumes "leaf_entry st p n inode d"
  shows "table_inv st" and "tree_inv st" and "imap st p = Some d" and "isDirectory d"
    and "map_of (children d) n = Some (inodeId inode)" and "imap st (inodeId inode) = Some inode"
    and "children inode = []" and "child_of st p n = Some (inodeId inode)"
    and "child_of st (inodeId inode) = Map.empty"
  using assms by (simp_all add: leaf_entry_def child_of_def)

lemma leaf_neq:
  assumes "leaf_entry st p n inode d"
  shows "inodeId inode \<noteq> p" and "inodeId inode \<noteq> rootInodeId st"
proof -
  note e = leaf_entryD [OF assms]
  show "inodeId inode \<noteq> p" using e(8,9) by auto
  show "inodeId inode \<noteq> rootInodeId st" using treeD(2) [OF tree_invD(1) [OF e(2)] e(8)] by auto
qed

lemma table_unlinked:
  assumes leaf: "leaf_entry st p n inode d"
  shows "table_inv (unlinkEntry p n (inodeId inode) st)"
  unfolding unlinkEntry_def
  by (rule table_deleteInode [OF table_deleteChild [OF leaf_entryD(1,3,4) [OF leaf]]])
    (simp add: update_simps leaf_neq(2) [OF leaf])

lemma child_unlinked:
  assumes leaf: "leaf_entry st p n inode d"
  shows "child_of (unlinkEntry p n (inodeId inode) st) = cutEdge p n (child_of st)"
  using leaf_entryD(9) [OF leaf]
  by (auto simp: unlinkEntry_def child_of_deleteInode child_of_deleteChild cutEdge_def fun_eq_iff)

lemma imap_unlinked:
  "leaf_entry st p n inode d \<Longrightarrow> imap (unlinkEntry p n (inodeId inode) st) =
     (imap st)(p \<mapsto> d\<lparr>body := Directory (AList.delete n (children d))\<rparr>, inodeId inode := None)"
  by (simp add: unlinkEntry_def update_simps leaf_entryD)

lemma unlinkEntry_simps [update_simps]:
  "pmap (unlinkEntry p n c st) = (pmap st)(c := None)"
  "allocator (unlinkEntry p n c st) = allocator st"
  "nextInodeId (unlinkEntry p n c st) = nextInodeId st"
  "rootInodeId (unlinkEntry p n c st) = rootInodeId st"
  "extentSize (unlinkEntry p n c st) = extentSize st"
  "generation (unlinkEntry p n c st) = generation st"
  "activeMetadataFile (unlinkEntry p n c st) = activeMetadataFile st"
  "retainedGenerations (unlinkEntry p n c st) = retainedGenerations st"
  "basePayloadBytes (unlinkEntry p n c st) = basePayloadBytes st"
  by (simp_all add: unlinkEntry_def update_simps)

lemma tree_unlinked:
  assumes leaf: "leaf_entry st p n inode d"
  shows "tree_inv (unlinkEntry p n (inodeId inode) st)"
    and "lookup st pp = Some p \<Longrightarrow> lookup (unlinkEntry p n (inodeId inode) st) cs
      = (if cs = pp @ [n] then None else lookup st cs)"
proof -
  note e = leaf_entryD [OF leaf]
  have dom: "dom (imap (unlinkEntry p n (inodeId inode) st)) = dom (imap st) - {inodeId inode}"
    using e(3) by (auto simp: imap_unlinked [OF leaf] split: if_splits)
  note remove = tree_inv_remove [OF e(2) e(8) e(9) _ dom child_unlinked [OF leaf]]
  show "tree_inv (unlinkEntry p n (inodeId inode) st)"
    by (rule remove(1)) (simp_all add: update_simps)
  show "lookup (unlinkEntry p n (inodeId inode) st) cs
      = (if cs = pp @ [n] then None else lookup st cs)" if "lookup st pp = Some p"
    by (rule remove(2)) (simp_all add: update_simps that)
qed

lemma extents_unlinked:
  assumes leaf: "leaf_entry st p n inode d"
  shows "file_extents (unlinkEntry p n (inodeId inode) st)
     = (file_extents st)(inodeId inode := [])"
  unfolding unlinkEntry_def
  by (simp add: file_extents_deleteInode file_extents_deleteChild [OF leaf_entryD(3,4) [OF leaf]])

lemma bytes_unlinked:
  assumes leaf: "leaf_entry st p n inode d"
  shows "table_bytes_of (unlinkEntry p n (inodeId inode) st)
     = table_bytes_of st - child_bytes n - inode_bytes inode"
proof -
  note e = leaf_entryD [OF leaf]
  have "imap (deleteChild p n st) (inodeId inode) = Some inode"
    using e leaf_neq(1) [OF leaf] by (simp add: update_simps)
  from table_bytes_deleteInode [OF table_deleteChild [OF e(1,3,4)] this]
  show ?thesis
    using table_bytes_deleteChild [OF e(1,3,4), of n] e(5) by (simp add: unlinkEntry_def)
qed

text \<open>The reducers set the parent's times between the two halves; the order does not matter.\<close>

lemma unlink_touch:
  "deleteInode c (touch p (setTimes m t) (deleteChild p n st))
     = touch p (setTimes m t) (unlinkEntry p n c st)" if "c \<noteq> p"
proof -
  have "AList.delete c (alter p f xs) = alter p f (AList.delete c xs)"
    for f and xs :: "(int \<times> Inode) list"
    using that by (induction xs) (auto simp: alter_def split: if_splits)
  then show ?thesis by (simp add: unlinkEntry_def deleteInode_def touch_def)
qed

section \<open>The parts of the state a reducer leaves alone\<close>

lemma touch_gen [simp]: "gen_inv (touch k f st) = gen_inv st"
  by (simp add: gen_inv_def update_simps)

lemma dom_touch [simp]: "dom (imap (touch k f st)) = dom (imap st)"
  by (auto simp: update_simps split: if_splits)

lemma tree_setTimes: "tree_inv (touch k (setTimes m t) st) = tree_inv st"
  unfolding tree_inv_def dom_touch by (simp add: update_simps)

lemma lookup_setTimes: "lookup (touch k (setTimes m t) st) = lookup st"
  by (rule lookup_cong) (simp_all add: update_simps)

lemma core_setTimes:
  assumes core: "core_inv st" and k: "imap st k \<noteq> None" and "u64 m" and "u64 t"
  shows "core_inv (touch k (setTimes m t) st)"
    and "base_bytes (touch k (setTimes m t) st) = base_bytes st"
proof -
  from k obtain i where i: "imap st k = Some i" by auto
  note c = core_invD [OF core]
  show "core_inv (touch k (setTimes m t) st)"
    using table_setTimes [OF c(1) i assms(3,4)] c
    by (simp add: core_inv_def tree_setTimes update_simps)
  show "base_bytes (touch k (setTimes m t) st) = base_bytes st"
    using c(1) by (simp add: base_bytes_parts update_simps)
qed

end
