(* ===== verification/Effects.thy ===== *)
theory Effects
  imports Reducers
begin

text \<open>
  One lemma per reducer of \<open>applyTxn\<close>: a reducer that returns has kept the invariant, the delta that
  \<open>projectedBaseDelta\<close> computed from the record is the change of the canonical base size, and the
  paths have changed as the operation promises.
\<close>

text \<open>What a successful reducer guarantees about a record, apart from the namespace.\<close>

definition reduces :: "VfsState \<Rightarrow> TxnRecord \<Rightarrow> VfsState \<Rightarrow> bool" where
  "reduces st record st' \<longleftrightarrow> core_inv st'
     \<and> projectedBaseDelta st record = Inr (base_bytes st' - base_bytes st)
     \<and> basePayloadBytes st' = basePayloadBytes st \<and> rootInodeId st' = rootInodeId st
     \<and> extentSize st' = extentSize st \<and> generation st' = generation st"

lemma reducesI:
  assumes "core_inv st'" and "projectedBaseDelta st record = Inr (base_bytes st' - base_bytes st)"
    and "basePayloadBytes st' = basePayloadBytes st" and "rootInodeId st' = rootInodeId st"
    and "extentSize st' = extentSize st" and "generation st' = generation st"
  shows "reduces st record st'"
  using assms by (simp add: reduces_def)

lemma reducesD:
  assumes "reduces st record st'"
  shows "core_inv st'" and "projectedBaseDelta st record = Inr (base_bytes st' - base_bytes st)"
    and "basePayloadBytes st' = basePayloadBytes st" and "rootInodeId st' = rootInodeId st"
    and "extentSize st' = extentSize st" and "generation st' = generation st"
  using assms by (simp_all add: reduces_def)

lemma selectedExtents_eq:
  "expandExtentRuns runs MAX_EXTENTS_PER_INODE = Inr es \<Longrightarrow>
     selectedExtentsAlreadyAvailable st runs
       = Inr (int (length (filter (\<lambda>e. e < totalExtents (allocator st)) es)))"
  by (simp add: selectedExtentsAlreadyAvailable_def)

lemma table_inv_allocator_upd [simp]: "tree_inv (st\<lparr>allocator := a\<rparr>) = tree_inv st"
  by (simp add: tree_inv_def)

lemma file_extents_allocator [simp]: "file_extents (st\<lparr>allocator := a\<rparr>) = file_extents st"
  by (rule file_extents_cong) simp

lemma table_bytes_allocator [simp]: "table_bytes_of (st\<lparr>allocator := a\<rparr>) = table_bytes_of st"
  by (rule table_bytes_cong) simp

lemma lookup_allocator [simp]: "lookup (st\<lparr>allocator := a\<rparr>) = lookup st"
  by (rule lookup_cong) simp_all

section \<open>Creating a file or a symbolic link\<close>

lemma applyCreateFile_Inr:
  assumes core: "core_inv st" and run: "applyCreateFile st choice fsize runs = Inr st'"
  obtains d extents inode st1 where
    "st1 = st\<lparr>allocator := fold (ownExtent (inodeId inode)) extents (allocator st)\<rparr>"
    "new_entry st1 (choiceParentId choice) (choiceName choice) inode d"
    "st' = entered st1 (choiceParentId choice) (choiceName choice) inode"
    "body inode = File fsize extents" "imode inode = choiceMode choice"
    "validateExtentAssignment st runs (int (length extents)) = Inr extents"
    "choiceInodeId choice = nextInodeId st"
proof -
  note c = core_invD [OF core]
  from run obtain d extents n where
    name: "component_ok (choiceName choice)" and d: "imap st (choiceParentId choice) = Some d" "isDirectory d"
    and free: "map_of (children d) (choiceName choice) = None"
    and id: "choiceInodeId choice = nextInodeId st"
    and next_ok: "nextInodeId st \<noteq> MAX_U64" "u64 (nextInodeId st + 1)"
    and fields: "mode_ok (choiceMode choice)" "u64 (choiceAtimeMs choice)" "u64 (choiceMtimeMs choice)"
      "u64 (choiceCtimeMs choice)" "u64 fsize"
    and n: "extentCountForSize fsize (extentSize st) = Inr n"
    and ext: "validateExtentAssignment st runs n = Inr extents"
    and room: "\<not> int (length (inodes st)) \<ge> MAX_INODES"
    and st': "st' = (let inode = \<lparr>inodeId = choiceInodeId choice, imode = choiceMode choice,
                   atimeMs = choiceAtimeMs choice, mtimeMs = choiceMtimeMs choice,
                   ctimeMs = choiceCtimeMs choice, body = File fsize extents\<rparr>;
                 state1 = st\<lparr>allocator := fold (ownExtent (inodeId inode)) extents (allocator st)\<rparr>;
                 state2 = setChild (choiceParentId choice) (choiceName choice) (inodeId inode) state1;
                 state3 = setInode (inodeId inode) inode state2;
                 state4 = setParent (inodeId inode) (inodeId d) (choiceName choice) state3 in
             state4\<lparr>nextInodeId := nextInodeId st + 1\<rparr>)"
    unfolding applyCreateFile_def by (auto simp: res_simps Let_def split: if_splits)
  let ?inode = "\<lparr>inodeId = choiceInodeId choice, imode = choiceMode choice,
                   atimeMs = choiceAtimeMs choice, mtimeMs = choiceMtimeMs choice,
                   ctimeMs = choiceCtimeMs choice, body = File fsize extents\<rparr>"
  let ?st1 = "st\<lparr>allocator := fold (ownExtent (inodeId ?inode)) extents (allocator st)\<rparr>"
  have pid: "inodeId d = choiceParentId choice" using inode_id [OF c(1) d(1)] .
  have len: "int (length extents) = n"
    using validateExtentAssignment_Inr(3) [OF ext] alloc_invD(1) [OF c(3)] by simp
  have nonneg: "0 \<le> nextInodeId st" using table_invD(6) [OF c(1)] by (simp add: u64_def)
  show thesis
  proof (rule that [OF refl, where inode = ?inode])
    show "new_entry ?st1 (choiceParentId choice) (choiceName choice) ?inode d"
      using c d free name id next_ok fields n len room nonneg
      by (simp add: new_entry_def table_allocator inode_ok_def children_def)
    show "st' = entered ?st1 (choiceParentId choice) (choiceName choice) ?inode"
      unfolding st' by (simp add: Let_def enterNew_def pid)
    show "validateExtentAssignment st runs (int (length extents)) = Inr extents"
      using ext len by simp
  qed (simp_all add: id)
qed

lemma createFile_reduces:
  assumes core: "core_inv st" and run: "applyCreateFile st choice fsize runs = Inr st'"
  shows "reduces st (CreateFile choice fsize runs) st'"
    and "lookup st pp = Some (choiceParentId choice) \<Longrightarrow>
      lookup st' cs = (if cs = pp @ [choiceName choice] then Some (nextInodeId st) else lookup st cs)"
proof -
  note c = core_invD [OF core]
  obtain d extents inode st1 where
    st1: "st1 = st\<lparr>allocator := fold (ownExtent (inodeId inode)) extents (allocator st)\<rparr>"
    and new: "new_entry st1 (choiceParentId choice) (choiceName choice) inode d"
    and st': "st' = entered st1 (choiceParentId choice) (choiceName choice) inode"
    and b: "body inode = File fsize extents"
    and ext: "validateExtentAssignment st runs (int (length extents)) = Inr extents"
    using applyCreateFile_Inr [OF core run] by metis
  note v = validateExtentAssignment_Inr [OF ext alloc_invD(1) [OF c(3)]]
  have id: "inodeId inode = nextInodeId st" using new_entryD(7) [OF new] by (simp add: st1)
  have name: "component_ok (choiceName choice)" using new_entryD(6) [OF new] .
  have "file_extents st (nextInodeId st) = []"
    using next_unused [OF c(1)] by (simp add: file_extents_def)
  then have fe: "file_extents st' = (file_extents st)(inodeId inode := file_extents st (inodeId inode) @ extents)"
    using extents_new [OF new] by (simp add: st' st1 id fileExtents_body(3) [OF b])
  have alloc: "allocator st' = fold (ownExtent (inodeId inode)) extents (allocator st)"
    by (simp add: st' update_simps st1)
  have core': "core_inv st'"
  proof (rule core_invI)
    show "table_inv st'" unfolding st' using new by (rule table_new)
    show "tree_inv st'" unfolding st' using new by (rule tree_new)
    show "alloc_inv (allocator st') (file_extents st')"
      unfolding alloc fe using c(3) v(1) by (rule ownExtents_inv)
    show "gen_inv st'"
      using c(4) by (rule gen_inv_upd) (simp_all add: st' update_simps st1)
  qed
  have "table_bytes_of st' = table_bytes_of st + child_bytes (choiceName choice)
      + (FILE_INODE_FIXED_BYTES + int (length extents) * 8)"
    using bytes_new [OF new] by (simp add: st' st1 inode_bytes_def b)
  moreover have "pool_bytes (allocator st') = pool_bytes (allocator st)
      - 8 * int (length (filter (\<lambda>e. e < totalExtents (allocator st)) extents))"
    using ownExtents_size [OF c(3) v(1,2)] by (simp add: pool_bytes_def alloc)
  moreover have "projectedBaseDelta st (CreateFile choice fsize runs)
      = Inr (FILE_INODE_FIXED_BYTES + int (length extents) * 8 + child_bytes (choiceName choice)
          - int (length (filter (\<lambda>e. e < totalExtents (allocator st)) extents)) * 8)"
    using v(4) by (simp add: projectedBaseDelta_def selectedExtents_eq childBaseBytes_ok name)
  ultimately have "projectedBaseDelta st (CreateFile choice fsize runs)
      = Inr (base_bytes st' - base_bytes st)"
    by (simp add: base_bytes_parts)
  then show "reduces st (CreateFile choice fsize runs) st'"
    by (intro reducesI core') (simp_all add: st' update_simps st1)
  show "lookup st' cs = (if cs = pp @ [choiceName choice] then Some (nextInodeId st) else lookup st cs)"
    if "lookup st pp = Some (choiceParentId choice)"
    using tree_new(2) [OF new, of pp cs] that by (simp add: st' st1)
qed

lemma createSymlink_reduces:
  assumes core: "core_inv st" and run: "applyCreateSymlink st choice target = Inr st'"
  shows "reduces st (CreateSymlink choice target) st'"
    and "lookup st pp = Some (choiceParentId choice) \<Longrightarrow>
      lookup st' cs = (if cs = pp @ [choiceName choice] then Some (nextInodeId st) else lookup st cs)"
    and "symlink_target_ok target" and "choiceInodeId choice = nextInodeId st"
    and "\<exists>inode. imap st' (nextInodeId st) = Some inode \<and> body inode = Symlink target"
proof -
  note c = core_invD [OF core]
  from run obtain d where
    name: "component_ok (choiceName choice)" and d: "imap st (choiceParentId choice) = Some d" "isDirectory d"
    and free: "map_of (children d) (choiceName choice) = None"
    and id: "choiceInodeId choice = nextInodeId st"
    and next_ok: "nextInodeId st \<noteq> MAX_U64" "u64 (nextInodeId st + 1)"
    and fields: "mode_ok (choiceMode choice)" "u64 (choiceAtimeMs choice)" "u64 (choiceMtimeMs choice)"
      "u64 (choiceCtimeMs choice)" and target: "symlink_target_ok target"
    and room: "\<not> int (length (inodes st)) \<ge> MAX_INODES"
    and st': "st' = (let inode = \<lparr>inodeId = choiceInodeId choice, imode = choiceMode choice,
                   atimeMs = choiceAtimeMs choice, mtimeMs = choiceMtimeMs choice,
                   ctimeMs = choiceCtimeMs choice, body = Symlink target\<rparr>;
                 state2 = setChild (choiceParentId choice) (choiceName choice) (inodeId inode) st;
                 state3 = setInode (inodeId inode) inode state2;
                 state4 = setParent (inodeId inode) (inodeId d) (choiceName choice) state3 in
             state4\<lparr>nextInodeId := nextInodeId st + 1\<rparr>)"
    unfolding applyCreateSymlink_def by (auto simp: res_simps Let_def split: if_splits)
  define inode where "inode = \<lparr>inodeId = choiceInodeId choice, imode = choiceMode choice,
                   atimeMs = choiceAtimeMs choice, mtimeMs = choiceMtimeMs choice,
                   ctimeMs = choiceCtimeMs choice, body = Symlink target\<rparr>"
  have pid: "inodeId d = choiceParentId choice" using inode_id [OF c(1) d(1)] .
  have nonneg: "0 \<le> nextInodeId st" using table_invD(6) [OF c(1)] by (simp add: u64_def)
  have new: "new_entry st (choiceParentId choice) (choiceName choice) inode d"
    using c d free name id next_ok fields room nonneg target
    by (simp add: new_entry_def inode_ok_def children_def inode_def)
  have st': "st' = entered st (choiceParentId choice) (choiceName choice) inode"
    unfolding st' by (simp add: Let_def enterNew_def pid inode_def)
  have "file_extents st (nextInodeId st) = []"
    using next_unused [OF c(1)] by (simp add: file_extents_def)
  then have fe: "file_extents st' = file_extents st"
    using extents_new [OF new] by (simp add: st' inode_def fileExtents_def fun_upd_idem)
  have core': "core_inv st'"
  proof (rule core_invI)
    show "table_inv st'" unfolding st' using new by (rule table_new)
    show "tree_inv st'" unfolding st' using new by (rule tree_new)
    show "alloc_inv (allocator st') (file_extents st')"
      unfolding fe using c(3) by (simp add: st' update_simps)
    show "gen_inv st'" using c(4) by (rule gen_inv_upd) (simp_all add: st' update_simps)
  qed
  have "utf8_ok target" using target render_bytes
    by (auto simp: symlink_target_ok_def path_ok_def component_ok_utf8)
  then have "projectedBaseDelta st (CreateSymlink choice target) = Inr (base_bytes st' - base_bytes st)"
    using bytes_new [OF new]
    by (simp add: projectedBaseDelta_def base_bytes_parts childBaseBytes_ok name encodedUtf8Length_eq
        st' update_simps inode_bytes_def inode_def)
  then show "reduces st (CreateSymlink choice target) st'"
    by (intro reducesI core') (simp_all add: st' update_simps)
  show "lookup st' cs = (if cs = pp @ [choiceName choice] then Some (nextInodeId st) else lookup st cs)"
    if "lookup st pp = Some (choiceParentId choice)"
    using tree_new(2) [OF new, of pp cs] that by (simp add: st')
  show "symlink_target_ok target" by (rule target)
  show "choiceInodeId choice = nextInodeId st" by (rule id)
  show "\<exists>inode. imap st' (nextInodeId st) = Some inode \<and> body inode = Symlink target"
    by (simp add: st' update_simps inode_def id)
qed

section \<open>Removing a file or an empty directory\<close>

lemma checkOwnedBy_Inr [res_simps]:
  "checkOwnedBy st owner es = Inr u \<longleftrightarrow> (\<forall>e\<in>set es. map_of (ownedBy (allocator st)) e = Some owner
     \<and> map_of (quarantine (allocator st)) e = None)"
  by (auto simp: checkOwnedBy_def each_res_Inr split: if_splits)

lemma released_inv:
  assumes "alloc_inv a F" and "distinct es" and "set es = set (F i)"
  shows "alloc_inv (fold releaseExtent es a) (F(i := []))"
  using releaseExtents_inv [OF assms(1,2), of i] assms(3) by simp

text \<open>The state both removals end in, given the entry they remove.\<close>

lemma removed_core:
  assumes core: "core_inv st" and leaf: "leaf_entry st p n inode d" and "u64 m" and "u64 t"
    and st': "st' = (touch p (setTimes m t) (unlinkEntry p n (inodeId inode) st))
      \<lparr>allocator := fold releaseExtent (fileExtents inode) (allocator st)\<rparr>"
  shows "core_inv st'"
    and "base_bytes st' = base_bytes st - child_bytes n - inode_bytes inode
          + int (length (fileExtents inode)) * 16"
    and "lookup st pp = Some p \<Longrightarrow>
      lookup st' cs = (if cs = pp @ [n] then None else lookup st cs)"
    and "basePayloadBytes st' = basePayloadBytes st \<and> rootInodeId st' = rootInodeId st
      \<and> extentSize st' = extentSize st \<and> generation st' = generation st"
proof -
  note c = core_invD [OF core] and e = leaf_entryD [OF leaf]
  let ?u = "unlinkEntry p n (inodeId inode) st"
  have fe: "file_extents st (inodeId inode) = fileExtents inode"
    using e(6) by (simp add: file_extents_def)
  have d: "distinct (fileExtents inode)" using alloc_invD(5) [OF c(3), of "inodeId inode"] fe by simp
  have p': "imap ?u p = Some (d\<lparr>body := Directory (AList.delete n (children d))\<rparr>)"
    using leaf_neq(1) [OF leaf] by (simp add: imap_unlinked [OF leaf])
  have table: "table_inv (touch p (setTimes m t) ?u)"
    by (rule table_setTimes [OF table_unlinked [OF leaf] p' assms(3,4)])
  have tree: "tree_inv (touch p (setTimes m t) ?u)"
    using tree_unlinked(1) [OF leaf] by (simp add: tree_setTimes)
  have fe': "file_extents st' = (file_extents st)(inodeId inode := [])"
    by (simp add: st' update_simps extents_unlinked [OF leaf])
  show "core_inv st'"
  proof (rule core_invI)
    show "table_inv st'" using table by (simp add: st' table_allocator)
    show "tree_inv st'" using tree by (simp add: st')
    show "alloc_inv (allocator st') (file_extents st')"
      unfolding fe' by (simp add: st') (rule released_inv [OF c(3) d], simp add: fe)
    show "gen_inv st'"
      using c(4) by (rule gen_inv_upd) (auto simp: st' update_simps dest: releaseExtents_gen)
  qed
  have "length (quarantine (allocator st'))
      = length (quarantine (allocator st)) + length (fileExtents inode)"
    using releaseExtents_quarantine [OF c(3) d, of "inodeId inode"] fe by (simp add: st')
  then have "pool_bytes (allocator st')
      = pool_bytes (allocator st) + int (length (fileExtents inode)) * 16"
    by (simp add: pool_bytes_def st' update_simps)
  then show "base_bytes st' = base_bytes st - child_bytes n - inode_bytes inode
          + int (length (fileExtents inode)) * 16"
    using bytes_unlinked [OF leaf] table_bytes_setTimes [OF table_unlinked [OF leaf]]
    by (simp add: base_bytes_parts st')
  show "lookup st' cs = (if cs = pp @ [n] then None else lookup st cs)" if "lookup st pp = Some p"
    using tree_unlinked(2) [OF leaf that] by (simp add: st' lookup_setTimes)
  show "basePayloadBytes st' = basePayloadBytes st \<and> rootInodeId st' = rootInodeId st
      \<and> extentSize st' = extentSize st \<and> generation st' = generation st"
    by (simp add: st' update_simps)
qed

lemma children_nonfile: "\<not> isDirectory i \<Longrightarrow> children i = []"
  by (rule not_directory_children)

lemma removeFile_reduces:
  assumes core: "core_inv st" and run: "applyRemoveFile st p n m t = Inr st'"
  shows "reduces st (RemoveFile p n m t) st'"
    and "lookup st pp = Some p \<Longrightarrow> lookup st' cs = (if cs = pp @ [n] then None else lookup st cs)"
proof -
  note c = core_invD [OF core]
  from run obtain d k inode where
    name: "component_ok n" and times: "u64 m" "u64 t" and d: "imap st p = Some d" "isDirectory d"
    and k: "map_of (children d) n = Some k" "imap st k = Some inode" and kind: "\<not> isDirectory inode"
    and st': "st' = (let state1 = deleteChild p n st; state2 = touch p (setTimes m t) state1;
                   state3 = deleteInode (inodeId inode) state2 in
               state3\<lparr>allocator := fold releaseExtent (fileExtents inode) (allocator state3)\<rparr>)"
    unfolding applyRemoveFile_def
    by (auto simp: res_simps Let_def bind_eq_Some_conv split: option.splits if_splits)
  have kid: "inodeId inode = k" using inode_id [OF c(1) k(2)] .
  have leaf: "leaf_entry st p n inode d"
    using c d k kid children_nonfile [OF kind] by (simp add: leaf_entry_def)
  have st': "st' = (touch p (setTimes m t) (unlinkEntry p n (inodeId inode) st))
      \<lparr>allocator := fold releaseExtent (fileExtents inode) (allocator st)\<rparr>"
    unfolding st' using unlink_touch [OF leaf_neq(1) [OF leaf], of m t n st]
    by (simp add: Let_def update_simps)
  note rem = removed_core [OF core leaf times st']
  have "body_ok (extentSize st) (body inode)" using table_invD(3) [OF c(1) k(2)] by (rule inode_okD)
  then have "projectedBaseDelta st (RemoveFile p n m t) = Inr (base_bytes st' - base_bytes st)"
    using d k kind rem(2)
    by (simp add: projectedBaseDelta_def directoryById_def inodeBaseBytes_ok childBaseBytes_ok name)
  with rem(1,4) show "reduces st (RemoveFile p n m t) st'" by (intro reducesI) simp_all
  show "lookup st' cs = (if cs = pp @ [n] then None else lookup st cs)" if "lookup st pp = Some p"
    using that by (rule rem(3))
qed

lemma removeDirectory_reduces:
  assumes core: "core_inv st" and run: "applyRemoveDirectory st p n m t = Inr st'"
  shows "reduces st (RemoveDirectory p n m t) st'"
    and "lookup st pp = Some p \<Longrightarrow> lookup st' cs = (if cs = pp @ [n] then None else lookup st cs)"
proof -
  note c = core_invD [OF core]
  from run obtain d k inode where
    name: "component_ok n" and times: "u64 m" "u64 t" and d: "imap st p = Some d" "isDirectory d"
    and k: "map_of (children d) n = Some k" "imap st k = Some inode"
    and kind: "isDirectory inode" "children inode = []"
    and st': "st' = (let state1 = deleteChild p n st; state2 = touch p (setTimes m t) state1 in
               deleteInode (inodeId inode) state2)"
    unfolding applyRemoveDirectory_def
    by (auto simp: res_simps Let_def bind_eq_Some_conv split: option.splits if_splits)
  have kid: "inodeId inode = k" using inode_id [OF c(1) k(2)] .
  have leaf: "leaf_entry st p n inode d" using c d k kid kind by (simp add: leaf_entry_def)
  have none: "fileExtents inode = []" using directory_no_extents [OF kind(1)] .
  have st': "st' = (touch p (setTimes m t) (unlinkEntry p n (inodeId inode) st))
      \<lparr>allocator := fold releaseExtent (fileExtents inode) (allocator st)\<rparr>"
    unfolding st' none using unlink_touch [OF leaf_neq(1) [OF leaf], of m t n st]
    by (simp add: Let_def unlinkEntry_def touch_def deleteInode_def deleteChild_def)
  note rem = removed_core [OF core leaf times st']
  have "body_ok (extentSize st) (body inode)" using table_invD(3) [OF c(1) k(2)] by (rule inode_okD)
  then have "projectedBaseDelta st (RemoveDirectory p n m t) = Inr (base_bytes st' - base_bytes st)"
    using d k kind rem(2) none
    by (simp add: projectedBaseDelta_def directoryById_def inodeBaseBytes_ok childBaseBytes_ok name)
  with rem(1,4) show "reduces st (RemoveDirectory p n m t) st'" by (intro reducesI) simp_all
  show "lookup st' cs = (if cs = pp @ [n] then None else lookup st cs)" if "lookup st pp = Some p"
    using that by (rule rem(3))
qed

section \<open>Changing attributes\<close>

text \<open>An update of one inode that keeps its body.\<close>

lemma touched_core:
  assumes core: "core_inv st" and i: "imap st k = Some i"
    and ok: "inode_ok (extentSize st) (nextInodeId st) k (f i)" and same: "\<And>i. body (f i) = body i"
  shows "core_inv (touch k f st)" and "base_bytes (touch k f st) = base_bytes st"
    and "lookup (touch k f st) = lookup st"
proof -
  note c = core_invD [OF core]
  have ch: "child_of (touch k f st) = child_of st"
    by (rule child_of_touch) (simp add: children_def same)
  have fe: "file_extents (touch k f st) = file_extents st"
    by (auto simp: file_extents_def update_simps fun_eq_iff fileExtents_def same split: option.splits)
  show "core_inv (touch k f st)"
  proof (rule core_invI)
    show "table_inv (touch k f st)"
      by (rule table_touch [OF c(1) i, of f, OF ok]) (simp add: isDirectory_def same)
    show "tree_inv (touch k f st)"
      using c(2) unfolding tree_inv_def dom_touch ch by (simp add: update_simps)
  qed (use c in \<open>simp_all add: fe update_simps\<close>)
  show "base_bytes (touch k f st) = base_bytes st"
    using table_bytes_touch [OF c(1) i, of f]
    by (simp add: base_bytes_parts update_simps inode_bytes_def same)
  show "lookup (touch k f st) = lookup st" using ch by (rule lookup_cong) (simp add: update_simps)
qed

lemma changeMode_reduces:
  assumes core: "core_inv st" and run: "applyChangeMode st k m t = Inr st'"
  shows "reduces st (ChangeMode k m t) st'" and "lookup st' = lookup st"
    and "\<exists>i. imap st k = Some i \<and> imap st' k = Some (i\<lparr>imode := m, ctimeMs := t\<rparr>)"
proof -
  note c = core_invD [OF core]
  from run obtain i where i: "imap st k = Some i" and ok: "mode_ok m" "u64 t"
    and st': "st' = touch k (\<lambda>i. i\<lparr>imode := m, ctimeMs := t\<rparr>) st"
    unfolding applyChangeMode_def by (auto simp: res_simps)
  have "inode_ok (extentSize st) (nextInodeId st) k (i\<lparr>imode := m, ctimeMs := t\<rparr>)"
    using table_invD(3) [OF c(1) i] ok by (simp add: inode_ok_def)
  note touched = touched_core [OF core i, of "\<lambda>i. i\<lparr>imode := m, ctimeMs := t\<rparr>", OF this]
  have "core_inv st'" and "base_bytes st' = base_bytes st" and "lookup st' = lookup st"
    unfolding st' by (rule touched, simp)+
  then show "reduces st (ChangeMode k m t) st'" and "lookup st' = lookup st"
    by (auto simp: reduces_def projectedBaseDelta_def st' update_simps)
  show "\<exists>i. imap st k = Some i \<and> imap st' k = Some (i\<lparr>imode := m, ctimeMs := t\<rparr>)"
    using i by (simp add: st' update_simps)
qed

lemma changeTimes_reduces:
  assumes core: "core_inv st" and run: "applyChangeTimes st k a m t = Inr st'"
  shows "reduces st (ChangeTimes k a m t) st'" and "lookup st' = lookup st"
    and "\<exists>i. imap st k = Some i
      \<and> imap st' k = Some (i\<lparr>atimeMs := a, mtimeMs := m, ctimeMs := t\<rparr>)"
proof -
  note c = core_invD [OF core]
  from run obtain i where i: "imap st k = Some i" and ok: "u64 a" "u64 m" "u64 t"
    and st': "st' = touch k (\<lambda>i. i\<lparr>atimeMs := a, mtimeMs := m, ctimeMs := t\<rparr>) st"
    unfolding applyChangeTimes_def by (auto simp: res_simps)
  have "inode_ok (extentSize st) (nextInodeId st) k (i\<lparr>atimeMs := a, mtimeMs := m, ctimeMs := t\<rparr>)"
    using table_invD(3) [OF c(1) i] ok by (simp add: inode_ok_def)
  note touched = touched_core [OF core i, of "\<lambda>i. i\<lparr>atimeMs := a, mtimeMs := m, ctimeMs := t\<rparr>", OF this]
  have "core_inv st'" and "base_bytes st' = base_bytes st" and "lookup st' = lookup st"
    unfolding st' by (rule touched, simp)+
  then show "reduces st (ChangeTimes k a m t) st'" and "lookup st' = lookup st"
    by (auto simp: reduces_def projectedBaseDelta_def st' update_simps)
  show "\<exists>i. imap st k = Some i \<and> imap st' k = Some (i\<lparr>atimeMs := a, mtimeMs := m, ctimeMs := t\<rparr>)"
    using i by (simp add: st' update_simps)
qed

section \<open>Resizing a file\<close>

lemma extentCount_Inr:
  assumes "extentCountForSize fsize ext = Inr n" and "extent_size_ok ext"
  shows "0 \<le> n" and "n \<le> MAX_EXTENTS_PER_INODE" and "u64 fsize"
    and "(n - 1) * ext < fsize \<or> n = 0" and "fsize \<le> n * ext"
proof -
  have pos: "0 < ext" using assms(2) by (rule extent_size_pos)
  have u: "u64 fsize" using assms(1) by (auto simp: extentCountForSize_def res_simps)
  then have fs: "0 \<le> fsize" by (simp add: u64_def)
  show "u64 fsize" by (rule u)
  have n: "n = (if fsize = 0 then 0 else (fsize + ext - 1) div ext) \<and> n \<le> MAX_EXTENTS_PER_INODE"
    using assms(1) by (auto simp: extentCountForSize_def res_simps Let_def limit_defs split: if_splits)
  then show "n \<le> MAX_EXTENTS_PER_INODE" by simp
  show "0 \<le> n" using n pos fs by (auto simp: pos_imp_zdiv_nonneg_iff)
  define q where "q = (fsize + ext - 1) div ext"
  define e where "e = (fsize + ext - 1) mod ext"
  have "q * ext + e = fsize + ext - 1" unfolding q_def e_def by (rule div_mult_mod_eq)
  moreover have "0 \<le> e" and "e < ext" using pos by (simp_all add: e_def)
  ultimately have "(q - 1) * ext < fsize" and "fsize \<le> q * ext" by (simp_all add: left_diff_distrib)
  with n show "(n - 1) * ext < fsize \<or> n = 0" and "fsize \<le> n * ext"
    unfolding q_def [symmetric] by auto
qed

lemma drop_filter:
  "distinct xs \<Longrightarrow> filter (\<lambda>e. e \<notin> set (drop k xs)) xs = take k xs"
proof -
  assume d: "distinct xs"
  then have "distinct (take k xs @ drop k xs)" by simp
  then have "set (take k xs) \<inter> set (drop k xs) = {}" by (metis distinct_append)
  then have "filter (\<lambda>e. e \<notin> set (drop k xs)) (take k xs) = take k xs"
    by (intro filter_True) auto
  moreover have "filter (\<lambda>e. e \<notin> set (drop k xs)) (drop k xs) = []"
    by (simp add: filter_empty_conv)
  ultimately show ?thesis
    using filter_append [of "\<lambda>e. e \<notin> set (drop k xs)" "take k xs" "drop k xs"] by simp
qed

text \<open>The allocator of a resize: extents are added at the end, or a tail is released.\<close>

lemma resized_alloc:
  assumes inv: "alloc_inv a F" and ok: "assignable a allocated" and d: "distinct allocated"
    and F: "F k = extents" and one: "allocated = [] \<or> drop r extents = []"
  defines "a' \<equiv> fold releaseExtent (drop r extents) (fold (ownExtent k) allocated a)"
  shows "alloc_inv a' (F(k := take r extents @ allocated))"
    and "pool_bytes a' = pool_bytes a
          - 8 * int (length (filter (\<lambda>e. e < totalExtents a) allocated))
          + 16 * int (length (drop r extents))"
proof -
  let ?F = "F(k := F k @ allocated)"
  note own = ownExtents_inv [OF inv ok, of k]
  have dF: "distinct extents" using alloc_invD(5) [OF inv, of k] F by simp
  then have dd: "distinct (drop r extents)" by (rule distinct_drop)
  have sub: "set (drop r extents) \<subseteq> set (?F k)" using F by (auto dest: in_set_dropD)
  have "filter (\<lambda>e. e \<notin> set (drop r extents)) (?F k) = take r extents @ allocated"
    using drop_filter [OF dF, of r] F one by auto
  with releaseExtents_inv [OF own dd sub]
  show "alloc_inv a' (F(k := take r extents @ allocated))" by (simp only: a'_def fun_upd_upd)
  show "pool_bytes a' = pool_bytes a
          - 8 * int (length (filter (\<lambda>e. e < totalExtents a) allocated))
          + 16 * int (length (drop r extents))"
    using ownExtents_size [OF inv ok d, of k] releaseExtents_quarantine [OF own dd sub]
    by (simp add: pool_bytes_def a'_def)
qed

lemma resizeFile_reduces:
  assumes core: "core_inv st" and run: "applyResizeFile st k fsize runs m t = Inr st'"
  shows "reduces st (ResizeFile operation k fsize runs m t) st'" and "lookup st' = lookup st"
    and "\<exists>inode old extents allocated n. imap st k = Some inode \<and> body inode = File old extents
      \<and> expandExtentRuns runs MAX_EXTENTS_PER_INODE = Inr allocated
      \<and> extentCountForSize fsize (extentSize st) = Inr n
      \<and> imap st' k = Some (inode\<lparr>body := File fsize (take (nat n) extents @ allocated),
          mtimeMs := m, ctimeMs := t\<rparr>)"
proof -
  note c = core_invD [OF core]
  from run obtain inode old extents n allocated where
    i: "imap st k = Some inode" "body inode = File old extents" and fs: "u64 fsize"
    and n: "extentCountForSize fsize (extentSize st) = Inr n"
    and alloc: "validateExtentAssignment st runs (max 0 (n - int (length extents))) = Inr allocated"
    and times: "u64 m" "u64 t"
    and st'0: "st' = touch k (\<lambda>i. i\<lparr>body := File fsize
          ((if n \<ge> int (length extents) then extents else take (nat n) extents) @ allocated),
          mtimeMs := m, ctimeMs := t\<rparr>)
        (st\<lparr>allocator := fold releaseExtent (drop (nat n) extents)
              (fold (ownExtent (inodeId inode)) allocated (allocator st))\<rparr>)"
    unfolding applyResizeFile_def by (auto simp: res_simps Let_def split: if_splits)
  define upd where "upd = (\<lambda>i :: Inode. i\<lparr>body := File fsize (take (nat n) extents @ allocated),
     mtimeMs := m, ctimeMs := t\<rparr>)"
  have kid: "inodeId inode = k" using inode_id [OF c(1) i(1)] .
  note count = extentCount_Inr [OF n table_invD(5) [OF c(1)]]
  have st': "st' = touch k upd (st\<lparr>allocator := fold releaseExtent (drop (nat n) extents)
              (fold (ownExtent k) allocated (allocator st))\<rparr>)"
    unfolding st'0 upd_def kid using count(1) by (simp add: nat_le_iff)
  note v = validateExtentAssignment_Inr [OF alloc alloc_invD(1) [OF c(3)]]
  have one: "allocated = [] \<or> drop (nat n) extents = []" using v(3) count(1) by auto
  have len: "int (length (take (nat n) extents @ allocated)) = n"
    using v(3) count(1) by (auto simp: min_def)
  have fe: "file_extents st k = extents"
    using i by (simp add: file_extents_def fileExtents_body(3) [OF i(2)])
  note alloc' = resized_alloc [OF c(3) v(1,2) fe one]
  let ?st1 = "st\<lparr>allocator := fold releaseExtent (drop (nat n) extents)
              (fold (ownExtent k) allocated (allocator st))\<rparr>"
  have t1: "table_inv ?st1" using c(1) by (simp add: table_allocator)
  have ok: "inode_ok (extentSize st) (nextInodeId st) k (upd inode)"
    using table_invD(3) [OF c(1) i(1)] times n len by (simp add: inode_ok_def upd_def)
  have nodir: "children i = [] \<and> \<not> isDirectory i" if "body i = File x y" for i x y
    using that by (simp add: children_def isDirectory_def)
  have ch: "child_of st' = child_of st"
    unfolding st' using i nodir
    by (subst child_of_touch) (simp_all add: upd_def children_def)
  have fe': "file_extents st' = (file_extents st)(k := take (nat n) extents @ allocated)"
    using i by (auto simp: file_extents_def st' update_simps fun_eq_iff upd_def fileExtents_def)
  have core': "core_inv st'"
  proof (rule core_invI)
    show "table_inv st'"
      unfolding st' by (rule table_touch [OF t1, of k inode upd])
        (use i ok nodir in \<open>simp_all add: upd_def isDirectory_def\<close>)
    have "dom (imap st') = dom (imap st)" unfolding st' dom_touch by simp
    then show "tree_inv st'"
      using c(2) unfolding tree_inv_def ch by (simp add: st' update_simps)
    show "alloc_inv (allocator st') (file_extents st')"
      unfolding fe' using alloc'(1) by (simp add: st' update_simps)
    show "gen_inv st'"
      using c(4) by (rule gen_inv_upd) (auto simp: st' update_simps dest: releaseExtents_gen)
  qed
  have "table_bytes_of st' = table_bytes_of st + inode_bytes (upd inode) - inode_bytes inode"
    unfolding st' using table_bytes_touch [OF t1, of k inode upd] i by simp
  moreover have "inode_bytes (upd inode) = FILE_INODE_FIXED_BYTES + n * 8"
    using len by (simp add: inode_bytes_def upd_def)
  moreover have "inode_bytes inode = FILE_INODE_FIXED_BYTES + int (length extents) * 8"
    by (simp add: inode_bytes_def i(2))
  moreover have "projectedBaseDelta st (ResizeFile operation k fsize runs m t)
      = Inr ((max 0 (n - int (length extents)) - max 0 (int (length extents) - n)) * 8
          - int (length (filter (\<lambda>e. e < totalExtents (allocator st)) allocated)) * 8
          + max 0 (int (length extents) - n) * 16)"
    using v(4) i n by (simp add: projectedBaseDelta_def fileById_def inodeById_def selectedExtents_eq)
  moreover have "max 0 (n - int (length extents)) = n - int (length extents) + max 0 (int (length extents) - n)"
    by simp
  moreover have "int (length (drop (nat n) extents)) = max 0 (int (length extents) - n)"
    using count(1) by auto
  ultimately have "projectedBaseDelta st (ResizeFile operation k fsize runs m t)
      = Inr (base_bytes st' - base_bytes st)"
    using alloc'(2) by (simp add: base_bytes_parts st' update_simps algebra_simps)
  then show "reduces st (ResizeFile operation k fsize runs m t) st'"
    by (intro reducesI core') (simp_all add: st' update_simps)
  show "lookup st' = lookup st" using ch by (rule lookup_cong) (simp add: st' update_simps)
  show "\<exists>inode old extents allocated n. imap st k = Some inode \<and> body inode = File old extents
      \<and> expandExtentRuns runs MAX_EXTENTS_PER_INODE = Inr allocated
      \<and> extentCountForSize fsize (extentSize st) = Inr n
      \<and> imap st' k = Some (inode\<lparr>body := File fsize (take (nat n) extents @ allocated),
          mtimeMs := m, ctimeMs := t\<rparr>)"
    using i n v(4) by (intro exI [of _ inode] exI [of _ old] exI [of _ extents]
        exI [of _ allocated] exI [of _ n]) (simp add: st' update_simps upd_def)
qed

section \<open>Reserving extents\<close>

lemma reserveQuarantine_reduces:
  assumes core: "core_inv st" and run: "applyReserveQuarantine st runs = Inr st'"
  shows "reduces st (ReserveQuarantine runs) st'" and "lookup st' = lookup st"
    and "inodes st' = inodes st"
proof -
  note c = core_invD [OF core]
  from run obtain es n where es: "validateExtentAssignment st runs n = Inr es"
    and st': "st' = st\<lparr>allocator := fold reserveExtent es (allocator st)\<rparr>"
    unfolding applyReserveQuarantine_def by (auto simp: res_simps Let_def split: if_splits)
  note v = validateExtentAssignment_Inr [OF es alloc_invD(1) [OF c(3)]]
  have core': "core_inv st'"
  proof (rule core_invI)
    show "gen_inv st'"
      using c(4) by (rule gen_inv_upd) (auto simp: st' dest: reserveExtents_gen)
  qed (use c reserveExtents_inv [OF c(3) v(1)] in \<open>simp_all add: st' table_allocator\<close>)
  have "projectedBaseDelta st (ReserveQuarantine runs) = Inr (base_bytes st' - base_bytes st)"
    using v(4) reserveExtents_size [OF c(3) v(1,2)] reserveExtents_quarantine [OF c(3) v(1)]
    by (simp add: projectedBaseDelta_def selectedExtents_eq base_bytes_parts pool_bytes_def st'
        algebra_simps)
  then show "reduces st (ReserveQuarantine runs) st'"
    by (intro reducesI core') (simp_all add: st')
  show "lookup st' = lookup st" and "inodes st' = inodes st" by (simp_all add: st')
qed

section \<open>Creating directories\<close>

text \<open>
  The validation loop works on staged copies of the directories it touches. \<open>staged_for\<close> says that
  the copies are what the mutating loop will have produced by then.
\<close>

definition staged_for :: "VfsState \<Rightarrow> (int \<times> Inode) list \<Rightarrow> int \<Rightarrow> VfsState \<Rightarrow> bool" where
  "staged_for st staged expected s \<longleftrightarrow> core_inv s \<and> nextInodeId s = expected
     \<and> (\<forall>i d. map_of staged i = Some d \<longrightarrow> isDirectory d)
     \<and> (\<forall>i. imap s i = (case map_of staged i of None \<Rightarrow> imap st i | Some d \<Rightarrow> Some d))"

definition entryInode :: "CreateDirectoryChoice \<Rightarrow> Inode" where
  "entryInode entry = \<lparr>inodeId = choiceInodeId entry, imode = choiceMode entry,
     atimeMs = choiceAtimeMs entry, mtimeMs = choiceMtimeMs entry, ctimeMs = choiceCtimeMs entry,
     body = Directory []\<rparr>"

definition directoryEntryBytes :: "CreateDirectoryChoice \<Rightarrow> int" where
  "directoryEntryBytes entry = DIRECTORY_INODE_FIXED_BYTES + child_bytes (choiceName entry)"

text \<open>What one entry does to a state that admits it.\<close>

lemma entered_directory:
  assumes core: "core_inv s" and new: "new_entry s p n inode d" and b: "body inode = Directory []"
  shows "core_inv (entered s p n inode)"
    and "base_bytes (entered s p n inode) = base_bytes s + DIRECTORY_INODE_FIXED_BYTES + child_bytes n"
proof -
  note c = core_invD [OF core]
  have "file_extents s (nextInodeId s) = []"
    using next_unused [OF c(1)] by (simp add: file_extents_def)
  then have fe: "file_extents (entered s p n inode) = file_extents s"
    using extents_new [OF new] by (simp add: fileExtents_body(1) [OF b] fun_upd_idem)
  show "core_inv (entered s p n inode)"
  proof (rule core_invI)
    show "table_inv (entered s p n inode)" using new by (rule table_new)
    show "tree_inv (entered s p n inode)" using new by (rule tree_new)
    show "alloc_inv (allocator (entered s p n inode)) (file_extents (entered s p n inode))"
      unfolding fe using c(3) by (simp add: update_simps)
    show "gen_inv (entered s p n inode)"
      using c(4) by (rule gen_inv_upd) (simp_all add: update_simps)
  qed
  show "base_bytes (entered s p n inode) = base_bytes s + DIRECTORY_INODE_FIXED_BYTES + child_bytes n"
    using bytes_new [OF new] by (simp add: base_bytes_parts update_simps inode_bytes_def b)
qed

lemma directoryEntry_step:
  assumes v: "validateDirectoryEntry st entry (staged, expected) = Inr (staged', expected')"
    and st: "staged_for st staged expected s" and room: "int (length (inodes s)) < MAX_INODES"
  obtains d where "new_entry s (choiceParentId entry) (choiceName entry) (entryInode entry) d"
    and "applyDirectoryEntry entry s
          = (None, entered s (choiceParentId entry) (choiceName entry) (entryInode entry))"
    and "staged_for st staged' expected'
          (entered s (choiceParentId entry) (choiceName entry) (entryInode entry))"
    and "choiceInodeId entry = nextInodeId s" and "component_ok (choiceName entry)"
proof -
  let ?p = "choiceParentId entry" and ?n = "choiceName entry"
  have core: "core_inv s" and nx: "nextInodeId s = expected"
    and dirs: "\<And>i d. map_of staged i = Some d \<Longrightarrow> isDirectory d"
    and im: "\<And>i. imap s i = (case map_of staged i of None \<Rightarrow> imap st i | Some d \<Rightarrow> Some d)"
    using st by (simp_all add: staged_for_def)
  note c = core_invD [OF core]
  from v obtain d where name: "component_ok ?n" and fields: "mode_ok (choiceMode entry)"
      "u64 (choiceAtimeMs entry)" "u64 (choiceMtimeMs entry)" "u64 (choiceCtimeMs entry)"
    and id: "choiceInodeId entry = expected"
    and found: "(case map_of staged ?p of Some directory \<Rightarrow> Inr directory | None \<Rightarrow> directoryById st ?p) = Inr d"
    and free: "map_of (children d) ?n = None" and adv: "advanceNextInodeId expected = Inr expected'"
    and staged': "staged' = AList.update expected (entryInode entry)
        (AList.update ?p (d\<lparr>body := Directory (AList.update ?n expected (children d))\<rparr>) staged)"
    unfolding validateDirectoryEntry_def entryInode_def
    by (auto simp: res_simps Let_def split: if_splits)
  have d: "imap s ?p = Some d" "isDirectory d"
    using found im [of ?p] dirs [of ?p] by (auto simp: directoryById_Inr split: option.splits)
  have u: "expected' = expected + 1" "u64 (expected + 1)" using adv by (auto simp: advance_Inr)
  have nonneg: "0 \<le> expected" using table_invD(6) [OF c(1)] nx by (simp add: u64_def)
  have new: "new_entry s ?p ?n (entryInode entry) d"
    using c d free name id nx u fields room nonneg
    by (simp add: new_entry_def entryInode_def inode_ok_def children_def)
  have pid: "inodeId d = ?p" using inode_id [OF c(1) d(1)] .
  have app: "applyDirectoryEntry entry s = (None, entered s ?p ?n (entryInode entry))"
    using d adv id u
    by (simp add: applyDirectoryEntry_def directoryById_def Let_def entryInode_def enterNew_def pid nx)
  have "staged_for st staged' expected' (entered s ?p ?n (entryInode entry))"
    unfolding staged_for_def
  proof (intro conjI allI impI)
    show "core_inv (entered s ?p ?n (entryInode entry))"
      by (rule entered_directory(1) [OF core new]) (simp add: entryInode_def)
    show "nextInodeId (entered s ?p ?n (entryInode entry)) = expected'"
      by (simp add: update_simps nx u)
    show "isDirectory e" if "map_of staged' i = Some e" for i e
      using that dirs [of i] d
      by (auto simp: staged' entryInode_def isDirectory_def split: if_splits)
    show "imap (entered s ?p ?n (entryInode entry)) i
        = (case map_of staged' i of None \<Rightarrow> imap st i | Some d \<Rightarrow> Some d)" for i
      using d(1) im [of i] by (auto simp: update_simps staged' id entryInode_def)
  qed
  with new app id nx name show thesis by (intro that [of d]) simp_all
qed

text \<open>What creating the entries in order does.\<close>

definition entries_done :: "VfsState \<Rightarrow> CreateDirectoryChoice list \<Rightarrow> VfsState \<Rightarrow> bool" where
  "entries_done s entries s' \<longleftrightarrow> core_inv s'
     \<and> base_bytes s' = base_bytes s + (\<Sum>e\<leftarrow>entries. directoryEntryBytes e)
     \<and> (\<forall>e\<in>set entries. component_ok (choiceName e))
     \<and> basePayloadBytes s' = basePayloadBytes s \<and> rootInodeId s' = rootInodeId s
     \<and> extentSize s' = extentSize s \<and> generation s' = generation s
     \<and> (\<forall>p n c. child_of s p n = Some c \<longrightarrow> child_of s' p n = Some c)
     \<and> (\<forall>e\<in>set entries. child_of s' (choiceParentId e) (choiceName e) = Some (choiceInodeId e))
     \<and> (\<forall>i inode. imap s i = Some inode \<longrightarrow> (\<exists>inode'. imap s' i = Some inode'
          \<and> isDirectory inode' = isDirectory inode))
     \<and> (\<forall>e\<in>set entries. \<exists>inode. imap s' (choiceInodeId e) = Some inode \<and> isDirectory inode)
     \<and> (\<forall>i. imap s' i \<noteq> None \<longrightarrow> imap s i \<noteq> None \<or> i \<in> choiceInodeId ` set entries)"

lemma entries_done_Nil: "core_inv s \<Longrightarrow> entries_done s [] s"
  by (simp add: entries_done_def)

lemma entries_done_Cons:
  assumes core: "core_inv s"
    and new: "new_entry s (choiceParentId e) (choiceName e) (entryInode e) d"
    and name: "component_ok (choiceName e)" and id: "choiceInodeId e = nextInodeId s"
    and rest: "entries_done (entered s (choiceParentId e) (choiceName e) (entryInode e)) es s'"
  shows "entries_done s (e # es) s'"
proof -
  let ?s1 = "entered s (choiceParentId e) (choiceName e) (entryInode e)"
  note parent = new_entryD(3,4) [OF new]
  have ch: "child_of ?s1 = linkEdge (choiceParentId e) (choiceName e) (choiceInodeId e) (child_of s)"
    using child_new [OF new] id by simp
  have free: "child_of s (choiceParentId e) (choiceName e) = None"
    using new_entryD(3,5) [OF new] by (simp add: child_of_def)
  have keep: "child_of ?s1 p n = Some c" if "child_of s p n = Some c" for p n c
    using that free by (auto simp: ch linkEdge_apply)
  have made: "child_of ?s1 (choiceParentId e) (choiceName e) = Some (choiceInodeId e)"
    by (simp add: ch linkEdge_apply)
  have dirs: "\<exists>inode'. imap ?s1 i = Some inode' \<and> isDirectory inode' = isDirectory inode"
    if "imap s i = Some inode" for i inode
    using that next_unused [OF new_entryD(1) [OF new]] parent
    by (auto simp: update_simps entryInode_def id split: if_splits)
  have new_dir: "\<exists>inode. imap ?s1 (choiceInodeId e) = Some inode \<and> isDirectory inode"
    by (simp add: update_simps entryInode_def isDirectory_def)
  have only: "imap s i \<noteq> None \<or> i = choiceInodeId e" if "imap ?s1 i \<noteq> None" for i
    using that parent by (auto simp: update_simps entryInode_def split: if_splits)
  have bytes: "base_bytes ?s1 = base_bytes s + directoryEntryBytes e"
    using entered_directory(2) [OF core new]
    by (simp add: entryInode_def directoryEntryBytes_def)
  show ?thesis
    unfolding entries_done_def
  proof (intro conjI ballI allI impI)
    show "\<exists>inode'. imap s' i = Some inode' \<and> isDirectory inode' = isDirectory inode"
      if "imap s i = Some inode" for i inode
      using dirs [OF that] rest unfolding entries_done_def by metis
    show "\<exists>inode. imap s' (choiceInodeId x) = Some inode \<and> isDirectory inode"
      if "x \<in> set (e # es)" for x
      using that new_dir rest unfolding entries_done_def by (metis set_ConsD)
    show "imap s i \<noteq> None \<or> i \<in> choiceInodeId ` set (e # es)" if "imap s' i \<noteq> None" for i
      using that only [of i] rest unfolding entries_done_def by auto
    show "child_of s' p n = Some c" if "child_of s p n = Some c" for p n c
      using keep [OF that] rest by (simp add: entries_done_def)
    show "child_of s' (choiceParentId x) (choiceName x) = Some (choiceInodeId x)"
      if "x \<in> set (e # es)" for x
      using that made rest by (auto simp: entries_done_def)
    show "component_ok (choiceName x)" if "x \<in> set (e # es)" for x
      using that name rest by (auto simp: entries_done_def)
  qed (use rest bytes in \<open>simp_all add: entries_done_def update_simps\<close>)
qed

lemma directoryEntries_ok:
  assumes "fold_res (validateDirectoryEntry st) entries (staged, expected) = Inr r"
    and "staged_for st staged expected s"
    and "int (length (inodes s)) + int (length entries) \<le> MAX_INODES"
  shows "\<exists>s'. applyDirectoryEntries entries s = (None, s') \<and> entries_done s entries s'"
  using assms
proof (induction entries arbitrary: staged expected s)
  case Nil
  then show ?case by (simp add: entries_done_Nil staged_for_def)
next
  case (Cons e es)
  from Cons.prems(1) obtain staged' expected' where
    v: "validateDirectoryEntry st e (staged, expected) = Inr (staged', expected')"
    and rest: "fold_res (validateDirectoryEntry st) es (staged', expected') = Inr r"
    by (auto simp: ebind_eq_Inr)
  have core: "core_inv s" using Cons.prems(2) by (simp add: staged_for_def)
  have "int (length (inodes s)) < MAX_INODES" using Cons.prems(3) by simp
  from directoryEntry_step [OF v Cons.prems(2) this] obtain d where
    new: "new_entry s (choiceParentId e) (choiceName e) (entryInode e) d"
    and app: "applyDirectoryEntry e s
          = (None, entered s (choiceParentId e) (choiceName e) (entryInode e))"
    and nx: "staged_for st staged' expected'
          (entered s (choiceParentId e) (choiceName e) (entryInode e))"
    and id: "choiceInodeId e = nextInodeId s" and name: "component_ok (choiceName e)" .
  let ?s1 = "entered s (choiceParentId e) (choiceName e) (entryInode e)"
  have "length (inodes ?s1) = Suc (length (inodes s))"
    using next_unused [OF new_entryD(1) [OF new]] new_entry_parent [OF new]
      length_update [OF table_invD(1) [OF table_setChild [OF new_entryD(1,3,4,6) [OF new]]],
        of "inodeId (entryInode e)" "entryInode e"]
    by (simp add: enterNew_def setParent_def setInode_def update_simps entryInode_def id)
  with Cons.prems(3) have "int (length (inodes ?s1)) + int (length es) \<le> MAX_INODES" by simp
  from Cons.IH [OF rest nx this] obtain s' where
    "applyDirectoryEntries es ?s1 = (None, s')" "entries_done ?s1 es s'" by auto
  then have "applyDirectoryEntries (e # es) s = (None, s')"
    and "entries_done s (e # es) s'"
    using app entries_done_Cons [OF core new name id] by simp_all
  then show ?case by blast
qed

text \<open>The validated entries are created; the error branch of the mutating loop is never taken.\<close>

lemma createDirectories_ok:
  assumes core: "core_inv st" and v: "validateCreateDirectories st entries = Inr u"
  obtains st' where "applyDirectoryEntries entries st = (None, st')" and "entries_done st entries st'"
    and "reduces st (CreateDirectories entries) st'"
proof -
  from v obtain r where fold: "fold_res (validateDirectoryEntry st) entries ([], nextInodeId st) = Inr r"
    and room: "int (length (inodes st)) + int (length entries) \<le> MAX_INODES"
    by (auto simp: validateCreateDirectories_def res_simps split: if_splits)
  have "staged_for st [] (nextInodeId st) st" using core by (simp add: staged_for_def)
  from directoryEntries_ok [OF fold this room] obtain st' where
    run: "applyDirectoryEntries entries st = (None, st')" and created: "entries_done st entries st'" by auto
  have "\<forall>e\<in>set es. component_ok (choiceName e) \<Longrightarrow>
      fold_res (\<lambda>entry b. ebind (childBaseBytes (choiceName entry))
        (\<lambda>n. Inr (b + DIRECTORY_INODE_FIXED_BYTES + n))) es acc
      = Inr (acc + (\<Sum>e\<leftarrow>es. directoryEntryBytes e))" for es acc
    by (induction es arbitrary: acc) (simp_all add: childBaseBytes_ok directoryEntryBytes_def)
  with created have "projectedBaseDelta st (CreateDirectories entries) = Inr (base_bytes st' - base_bytes st)"
    by (simp add: projectedBaseDelta_def entries_done_def)
  with created have "reduces st (CreateDirectories entries) st'"
    by (intro reducesI) (simp_all add: entries_done_def)
  with run created show thesis by (rule that)
qed

end
