(* ===== verification/RenameEffect.thy ===== *)
theory RenameEffect
  imports Effects
begin

text \<open>
  The rename reducer: the replaced destination is removed, the source moves with everything under
  it, and the guard against moving a directory into itself is what keeps the namespace a tree.
\<close>

section \<open>The guard \<open>directoryContains\<close>\<close>

lemma directoryContains_False:
  assumes "directoryContains fuel st d c = Inr False" and "imap st i = Some d" and "inodeId d = i"
    and dir: "imap st c = Some cd" "isDirectory cd"
    and ids: "\<And>k inode. imap st k = Some inode \<Longrightarrow> inodeId inode = k"
  shows "path (child_of st) i cs \<noteq> Some c"
  using assms(1-3)
proof (induction cs arbitrary: fuel i d)
  case Nil
  then show ?case by (cases fuel) (auto split: if_splits)
next
  case (Cons n cs)
  show ?case
  proof
    assume some: "path (child_of st) i (n # cs) = Some c"
    then obtain j where j: "child_of st i n = Some j" "path (child_of st) j cs = Some c"
      by (auto split: option.splits)
    then have mem: "(n, j) \<in> set (children d)"
      using Cons.prems(2) by (auto simp: child_of_def dest: map_of_SomeD)
    obtain fuel' where fuel: "fuel = Suc fuel'" using Cons.prems(1) by (cases fuel) auto
    with Cons.prems(1) mem have hit: "ebind (inodeById st j) (\<lambda>child.
        if isDirectory child then directoryContains fuel' st child c else Inr False) = Inr False"
      by (auto simp: any_res_False split: if_splits)
    then obtain child where child: "imap st j = Some child"
      and sub: "isDirectory child \<Longrightarrow> directoryContains fuel' st child c = Inr False"
      by (auto simp: ebind_eq_Inr inodeById_Inr split: if_splits)
    show False
    proof (cases "isDirectory child")
      case True
      from Cons.IH [OF sub [OF True] child ids [OF child]] j(2) show False by simp
    next
      case False
      then have "child_of st j = Map.empty"
        using child not_directory_children by (simp add: child_of_def)
      with j(2) have "j = c" by (cases cs) auto
      with child dir False show False by simp
    qed
  qed
qed

section \<open>The move\<close>

lemma cut_commute: "cutEdge p n (cutEdge q m ch) = cutEdge q m (cutEdge p n ch)"
  by (auto simp: cutEdge_def fun_eq_iff)

lemma cut_empty: "(cutEdge p n ch)(c := Map.empty) = cutEdge p n (ch(c := Map.empty))"
  by (auto simp: cutEdge_def fun_eq_iff)

text \<open>
  The part of \<open>applyRename\<close> that follows the removal of a replaced destination, on a state in which
  the destination name is free.
\<close>

definition moveEntry :: "int \<Rightarrow> js_string \<Rightarrow> int \<Rightarrow> js_string \<Rightarrow> int \<Rightarrow> VfsState \<Rightarrow> VfsState" where
  "moveEntry sp sn dp dn s st =
     setParent s dp dn (setChild dp dn s (deleteChild sp sn st))"

definition stampRename :: "int \<Rightarrow> int \<Rightarrow> int \<Rightarrow> int \<Rightarrow> VfsState \<Rightarrow> VfsState" where
  "stampRename s sp dp now st = touch dp (setTimes now now) (touch sp (setTimes now now)
     (touch s (\<lambda>i. i\<lparr>ctimeMs := now\<rparr>) st))"

lemma moveEntry_simps [update_simps]:
  "pmap (moveEntry sp sn dp dn s st) = (pmap st)(s \<mapsto> (dp, dn))"
  "length (inodes (moveEntry sp sn dp dn s st)) = length (inodes st)"
  "allocator (moveEntry sp sn dp dn s st) = allocator st"
  "nextInodeId (moveEntry sp sn dp dn s st) = nextInodeId st"
  "rootInodeId (moveEntry sp sn dp dn s st) = rootInodeId st"
  "extentSize (moveEntry sp sn dp dn s st) = extentSize st"
  "generation (moveEntry sp sn dp dn s st) = generation st"
  "activeMetadataFile (moveEntry sp sn dp dn s st) = activeMetadataFile st"
  "retainedGenerations (moveEntry sp sn dp dn s st) = retainedGenerations st"
  "basePayloadBytes (moveEntry sp sn dp dn s st) = basePayloadBytes st"
  by (simp_all add: moveEntry_def update_simps)

lemma moved_core:
  assumes core: "core_inv st"
    and spd: "imap st sp = Some spd" "isDirectory spd" and src: "map_of (children spd) sn = Some s"
    and dpd: "imap st dp = Some dpd" "isDirectory dpd" and free: "map_of (children dpd) dn = None"
    and name: "component_ok dn" and snok: "component_ok sn"
    and out: "\<And>b. path (child_of st) s b \<noteq> Some dp"
  defines "st' \<equiv> moveEntry sp sn dp dn s st"
  shows "core_inv st'"
    and "base_bytes st' = base_bytes st - child_bytes sn + child_bytes dn"
    and "lookup st ps = Some sp \<Longrightarrow> lookup st pd = Some dp \<Longrightarrow>
      lookup st' (pd @ dn # b) = lookup st (ps @ sn # b)"
    and "lookup st ps = Some sp \<Longrightarrow> lookup st pd = Some dp \<Longrightarrow> \<not> prefix (pd @ [dn]) cs \<Longrightarrow>
      lookup st' cs = (if prefix (ps @ [sn]) cs then None else lookup st cs)"
    and "dom (imap st') = dom (imap st)"
proof -
  note c = core_invD [OF core]
  let ?cut = "deleteChild sp sn st"
  have t1: "table_inv ?cut" using c(1) spd by (rule table_deleteChild)
  obtain dpd' where dpd': "imap ?cut dp = Some dpd'" "isDirectory dpd'"
    and free': "map_of (children dpd') dn = None"
  proof (cases "dp = sp")
    case True
    with spd dpd free show thesis
      by (intro that [of "dpd\<lparr>body := Directory (AList.delete sn (children dpd))\<rparr>"])
        (simp_all add: update_simps)
  next
    case False
    with dpd free show thesis by (intro that) (simp_all add: update_simps)
  qed
  have t2: "table_inv (setChild dp dn s ?cut)" using t1 dpd' name by (rule table_setChild)
  have chs: "child_of st sp sn = Some s" and chd: "child_of st dp dn = None"
    using spd src dpd free by (simp_all add: child_of_def)
  have ch: "child_of st' = linkEdge dp dn s (cutEdge sp sn (child_of st))"
    unfolding st'_def moveEntry_def child_of_setParent child_of_setChild [OF dpd'(1)]
      child_of_deleteChild ..
  have dom: "dom (imap st') = dom (imap st)"
    using spd dpd by (auto simp: st'_def moveEntry_def update_simps split: if_splits)
  have pm: "pmap st' = (pmap st)(s \<mapsto> (dp, dn))" by (simp add: st'_def update_simps)
  have root: "rootInodeId st' = rootInodeId st" by (simp add: st'_def update_simps)
  have dpN: "imap st dp \<noteq> None" using dpd by simp
  note move = tree_inv_move [OF c(2) chs dpN chd out root dom ch pm]
  have fe: "file_extents st' = file_extents st"
    by (simp add: st'_def moveEntry_def update_simps file_extents_setChild [OF dpd']
        file_extents_deleteChild [OF spd])
  show "core_inv st'"
  proof (rule core_invI)
    show "table_inv st'" unfolding st'_def moveEntry_def using t2 by (rule table_setParent)
    show "tree_inv st'" by (rule move(1))
    show "alloc_inv (allocator st') (file_extents st')"
      unfolding fe using c(3) by (simp add: st'_def update_simps)
    show "gen_inv st'" using c(4) by (rule gen_inv_upd) (simp_all add: st'_def update_simps)
  qed
  show "base_bytes st' = base_bytes st - child_bytes sn + child_bytes dn"
    using table_bytes_setChild [OF t1 dpd', of dn s] free'
      table_bytes_deleteChild [OF c(1) spd, of sn] src
    by (simp add: base_bytes_parts st'_def update_simps)
      (simp add: moveEntry_def update_simps)
  show "lookup st' (pd @ dn # b) = lookup st (ps @ sn # b)"
    if "lookup st ps = Some sp" "lookup st pd = Some dp" using that by (rule move(2))
  show "lookup st' cs = (if prefix (ps @ [sn]) cs then None else lookup st cs)"
    if "lookup st ps = Some sp" "lookup st pd = Some dp" "\<not> prefix (pd @ [dn]) cs"
    using that by (rule move(3))
  show "dom (imap st') = dom (imap st)" by (rule dom)
qed

lemma stamped_core:
  assumes core: "core_inv st" and s: "imap st s \<noteq> None" and sp: "imap st sp \<noteq> None"
    and dp: "imap st dp \<noteq> None" and now: "u64 now"
  shows "core_inv (stampRename s sp dp now st)"
    and "base_bytes (stampRename s sp dp now st) = base_bytes st"
    and "lookup (stampRename s sp dp now st) = lookup st"
    and "basePayloadBytes (stampRename s sp dp now st) = basePayloadBytes st
      \<and> rootInodeId (stampRename s sp dp now st) = rootInodeId st
      \<and> extentSize (stampRename s sp dp now st) = extentSize st
      \<and> generation (stampRename s sp dp now st) = generation st"
proof -
  from s obtain i where i: "imap st s = Some i" by auto
  let ?f = "\<lambda>i :: Inode. i\<lparr>ctimeMs := now\<rparr>"
  have ok: "inode_ok (extentSize st) (nextInodeId st) s (?f i)"
    using table_invD(3) [OF core_invD(1) [OF core] i] now by (simp add: inode_ok_def)
  note t1 = touched_core [OF core i, of ?f, OF ok]
  have c1: "core_inv (touch s ?f st)" by (rule t1(1)) simp
  have k2: "imap (touch s ?f st) sp \<noteq> None" using sp s by (simp add: update_simps)
  note t2 = core_setTimes [OF c1 k2 now now]
  have k3: "imap (touch sp (setTimes now now) (touch s ?f st)) dp \<noteq> None"
    using dp s sp by (simp add: update_simps)
  note t3 = core_setTimes [OF t2(1) k3 now now]
  show "core_inv (stampRename s sp dp now st)" unfolding stampRename_def by (rule t3(1))
  have "base_bytes (touch s ?f st) = base_bytes st" by (rule t1(2)) simp
  then show "base_bytes (stampRename s sp dp now st) = base_bytes st"
    unfolding stampRename_def t3(2) t2(2) .
  have "lookup (touch s ?f st) = lookup st" by (rule t1(3)) simp
  then show "lookup (stampRename s sp dp now st) = lookup st"
    unfolding stampRename_def lookup_setTimes .
  show "basePayloadBytes (stampRename s sp dp now st) = basePayloadBytes st
      \<and> rootInodeId (stampRename s sp dp now st) = rootInodeId st
      \<and> extentSize (stampRename s sp dp now st) = extentSize st
      \<and> generation (stampRename s sp dp now st) = generation st"
    by (simp add: stampRename_def update_simps)
qed

section \<open>What a successful rename has checked\<close>

definition rename_ready ::
  "VfsState \<Rightarrow> int \<Rightarrow> js_string \<Rightarrow> int \<Rightarrow> js_string \<Rightarrow> int \<Rightarrow> Inode \<Rightarrow> Inode \<Rightarrow> Inode \<Rightarrow> Inode option \<Rightarrow> bool"
where
  "rename_ready st sp sn dp dn now spd dpd source dest \<longleftrightarrow>
     component_ok sn \<and> component_ok dn \<and> \<not> (sp = dp \<and> sn = dn) \<and> u64 now
     \<and> imap st sp = Some spd \<and> isDirectory spd \<and> imap st dp = Some dpd \<and> isDirectory dpd
     \<and> map_of (children spd) sn = Some (inodeId source)
     \<and> imap st (inodeId source) = Some source
     \<and> (case dest of None \<Rightarrow> map_of (children dpd) dn = None
        | Some d \<Rightarrow> map_of (children dpd) dn = Some (inodeId d) \<and> imap st (inodeId d) = Some d
            \<and> children d = [])
     \<and> (\<forall>b. path (child_of st) (inodeId source) b \<noteq> Some dp)"

lemma optionalInodeById_Inr:
  "optionalInodeById st k = Inr r \<longleftrightarrow>
     (case k of None \<Rightarrow> r = None | Some i \<Rightarrow> \<exists>d. imap st i = Some d \<and> r = Some d)"
  by (auto simp: optionalInodeById_def ebind_eq_Inr inodeById_Inr split: option.splits)

lemma validateRenameTypes_Inr:
  "validateRenameTypes source (Some d) = Inr u \<Longrightarrow> children d = []"
  by (cases "isDirectory d") (auto simp: validateRenameTypes_def not_directory_children split: if_splits)

text \<open>The source entry is deleted before the replaced destination; the two orders agree.\<close>

lemma alter_commute:
  "p \<noteq> q \<or> (\<forall>x. f (g x) = g (f x)) \<Longrightarrow> alter p f (alter q g xs) = alter q g (alter p f xs)"
  by (induction xs) (auto simp: alter_def)

lemma alter_delete: "AList.delete c (alter p f xs) = alter p f (AList.delete c xs)"
  by (induction xs) (auto simp: alter_def split: if_splits)

lemma deleteChild_commute: "deleteChild p n (deleteChild q m st) = deleteChild q m (deleteChild p n st)"
  by (simp add: deleteChild_def, subst alter_commute) (simp_all add: delete_twist)

lemma unlinkEntry_commute:
  "deleteChild p n (unlinkEntry q m c st) = deleteInode c (deleteChild q m (deleteChild p n st))"
  unfolding unlinkEntry_def deleteChild_commute [of q m p n]
  by (simp add: deleteInode_def deleteChild_def alter_delete)

lemma deleteChild_allocator:
  "deleteChild p n (st\<lparr>allocator := a\<rparr>) = (deleteChild p n st)\<lparr>allocator := a\<rparr>"
  by (simp add: deleteChild_def)

lemma deleteInode_allocator: "allocator (deleteInode c st) = allocator st"
  by (simp add: deleteInode_def)

lemma applyRename_Inr:
  assumes core: "core_inv st" and run: "applyRename st sp sn dp dn now = Inr st'"
  obtains spd dpd source dest where "rename_ready st sp sn dp dn now spd dpd source dest"
    and "validateRenamedSubtreeBounds st source dpd dn = Inr ()"
    and "st' = stampRename (inodeId source) sp dp now
      (moveEntry sp sn dp dn (inodeId source)
        (case dest of None \<Rightarrow> st
         | Some d \<Rightarrow> (unlinkEntry dp dn (inodeId d) st)
             \<lparr>allocator := fold releaseExtent (fileExtents d) (allocator st)\<rparr>))"
proof -
  note c = core_invD [OF core]
  have ids: "imap st k = Some i \<Longrightarrow> inodeId i = k" for k i using c(1) by (rule inode_id)
  from run obtain spd dpd s source dest where
    names: "component_ok sn" "component_ok dn" "\<not> (sp = dp \<and> sn = dn)" "u64 now"
    and spd: "imap st sp = Some spd" "isDirectory spd"
    and dpd: "imap st dp = Some dpd" "isDirectory dpd"
    and s: "map_of (children spd) sn = Some s" "imap st s = Some source"
    and dest: "optionalInodeById st (map_of (children dpd) dn) = Inr dest"
    and types: "validateRenameTypes source dest = Inr ()"
    and inside: "(if isDirectory source
        then directoryContains (treeFuel st) st source (inodeId dpd) else Inr False) = Inr False"
    and bounds: "validateRenamedSubtreeBounds st source dpd dn = Inr ()"
    and st': "st' = commitRename sp sn dpd dn source s dest dp now st"
    unfolding applyRename_def
    by (simp only: ebind_eq_Inr if_Inl_eq_Inr option_Inl_eq_Inr validatePathComponent_Inr
        validateTimestamp_Inr directoryById_Inr inodeById_Inr)
      (elim exE conjE, rule that, (assumption | simp)+)
  have sid: "inodeId source = s" and pid: "inodeId dpd = dp" using ids s(2) dpd(1) by auto
  have out: "path (child_of st) (inodeId source) b \<noteq> Some dp" for b
  proof (cases "isDirectory source")
    case True
    with inside pid have "directoryContains (treeFuel st) st source dp = Inr False" by simp
    from directoryContains_False [OF this s(2) sid dpd ids] sid show ?thesis by simp
  next
    case False
    then have "child_of st s = Map.empty"
      using s(2) not_directory_children by (simp add: child_of_def)
    moreover have "s \<noteq> dp" using False s(2) dpd by auto
    ultimately show ?thesis by (cases b) (simp_all add: sid)
  qed
  have "case dest of None \<Rightarrow> map_of (children dpd) dn = None
      | Some d \<Rightarrow> map_of (children dpd) dn = Some (inodeId d) \<and> imap st (inodeId d) = Some d
          \<and> children d = []"
    using dest types ids
    by (cases dest; cases "map_of (children dpd) dn")
      (auto simp: optionalInodeById_Inr dest: validateRenameTypes_Inr)
  with names spd dpd s out have ready: "rename_ready st sp sn dp dn now spd dpd source dest"
    by (simp add: rename_ready_def sid)
  have "st' = stampRename (inodeId source) sp dp now
      (moveEntry sp sn dp dn (inodeId source)
        (case dest of None \<Rightarrow> st
         | Some d \<Rightarrow> (unlinkEntry dp dn (inodeId d) st)
             \<lparr>allocator := fold releaseExtent (fileExtents d) (allocator st)\<rparr>))"
    unfolding st' stampRename_def moveEntry_def commitRename_def
    by (cases dest) (simp_all add: Let_def sid pid unlinkEntry_commute deleteChild_allocator
        deleteInode_allocator update_simps)
  with ready bounds show thesis by (rule that)
qed

text \<open>The state in which the destination name is free.\<close>

lemma rename_cleared:
  assumes core: "core_inv st" and ready: "rename_ready st sp sn dp dn now spd dpd source dest"
  defines "st1 \<equiv> (case dest of None \<Rightarrow> st
         | Some d \<Rightarrow> (unlinkEntry dp dn (inodeId d) st)
             \<lparr>allocator := fold releaseExtent (fileExtents d) (allocator st)\<rparr>)"
  obtains spd' dpd' where "core_inv st1"
    and "imap st1 sp = Some spd'" "isDirectory spd'" "map_of (children spd') sn = Some (inodeId source)"
    and "imap st1 dp = Some dpd'" "isDirectory dpd'" "map_of (children dpd') dn = None"
    and "imap st1 (inodeId source) \<noteq> None"
    and "\<And>b. path (child_of st1) (inodeId source) b \<noteq> Some dp"
    and "base_bytes st1 = base_bytes st - (case dest of None \<Rightarrow> 0
          | Some d \<Rightarrow> child_bytes dn + inode_bytes d - int (length (fileExtents d)) * 16)"
    and "\<And>pd cs. lookup st pd = Some dp \<Longrightarrow> lookup st1 cs
          = (if dest \<noteq> None \<and> cs = pd @ [dn] then None else lookup st cs)"
    and "basePayloadBytes st1 = basePayloadBytes st \<and> rootInodeId st1 = rootInodeId st
      \<and> extentSize st1 = extentSize st \<and> generation st1 = generation st"
proof -
  note c = core_invD [OF core]
  have names: "component_ok sn" "component_ok dn" "\<not> (sp = dp \<and> sn = dn)" "u64 now"
    and spd: "imap st sp = Some spd" "isDirectory spd"
    and dpd: "imap st dp = Some dpd" "isDirectory dpd"
    and s: "map_of (children spd) sn = Some (inodeId source)" "imap st (inodeId source) = Some source"
    and dest: "case dest of None \<Rightarrow> map_of (children dpd) dn = None
      | Some d \<Rightarrow> map_of (children dpd) dn = Some (inodeId d) \<and> imap st (inodeId d) = Some d
          \<and> children d = []"
    and out: "\<And>b. path (child_of st) (inodeId source) b \<noteq> Some dp"
    using ready by (simp_all add: rename_ready_def)
  show thesis
  proof (cases dest)
    case None
    with core spd dpd s dest out show thesis
      by (intro that [of spd dpd]) (simp_all add: st1_def)
  next
    case (Some d)
    with dest have leaf: "leaf_entry st dp dn d dpd"
      using c dpd by (simp add: leaf_entry_def)
    note e = leaf_entryD [OF leaf]
    let ?u = "unlinkEntry dp dn (inodeId d) st"
    have st1: "st1 = ?u\<lparr>allocator := fold releaseExtent (fileExtents d) (allocator st)\<rparr>"
      by (simp add: st1_def Some)
    have fe: "file_extents st (inodeId d) = fileExtents d" using e(6) by (simp add: file_extents_def)
    have dd: "distinct (fileExtents d)" using alloc_invD(5) [OF c(3), of "inodeId d"] fe by simp
    have fe': "file_extents st1 = (file_extents st)(inodeId d := [])"
      by (simp add: st1 extents_unlinked [OF leaf])
    have core1: "core_inv st1"
    proof (rule core_invI)
      show "table_inv st1" using table_unlinked [OF leaf] by (simp add: st1 table_allocator)
      show "tree_inv st1" using tree_unlinked(1) [OF leaf] by (simp add: st1)
      show "alloc_inv (allocator st1) (file_extents st1)"
        unfolding fe' by (simp add: st1) (rule released_inv [OF c(3) dd], simp add: fe)
      show "gen_inv st1"
        using c(4) by (rule gen_inv_upd) (auto simp: st1 update_simps dest: releaseExtents_gen)
    qed
    have "length (quarantine (allocator st1))
        = length (quarantine (allocator st)) + length (fileExtents d)"
      using releaseExtents_quarantine [OF c(3) dd, of "inodeId d"] fe by (simp add: st1)
    then have bytes: "base_bytes st1 = base_bytes st - child_bytes dn - inode_bytes d
        + int (length (fileExtents d)) * 16"
      using bytes_unlinked [OF leaf] by (simp add: base_bytes_parts st1 pool_bytes_def)
    have ch: "child_of st1 = cutEdge dp dn (child_of st)"
      using child_unlinked [OF leaf] by (simp add: st1)
    have csp: "child_of st sp sn = Some (inodeId source)" using spd s by (simp add: child_of_def)
    have neq: "sp \<noteq> inodeId d" using e(9) csp by auto
    have sneq: "inodeId source \<noteq> inodeId d"
      using treeD(3) [OF tree_invD(1) [OF c(2)] e(8), of sp sn] csp names(3) by auto
    have im: "imap st1 = (imap st)(dp \<mapsto> dpd\<lparr>body := Directory (AList.delete dn (children dpd))\<rparr>,
        inodeId d := None)"
      using imap_unlinked [OF leaf] by (simp add: st1)
    obtain spd' where spd': "imap st1 sp = Some spd'" "isDirectory spd'"
      "map_of (children spd') sn = Some (inodeId source)"
    proof (cases "sp = dp")
      case True
      then have "sn \<noteq> dn" "spd = dpd" using names(3) spd dpd by auto
      with True neq s im show thesis
        by (intro that [of "dpd\<lparr>body := Directory (AList.delete dn (children dpd))\<rparr>"]) simp_all
    next
      case False
      with neq spd s im show thesis by (intro that [of spd]) simp_all
    qed
    have dpd': "imap st1 dp = Some (dpd\<lparr>body := Directory (AList.delete dn (children dpd))\<rparr>)"
      using im leaf_neq(1) [OF leaf] by simp
    show thesis
    proof (rule that [OF core1 spd' dpd'])
      show "imap st1 (inodeId source) \<noteq> None" using im sneq s(2) by simp
      show "path (child_of st1) (inodeId source) b \<noteq> Some dp" for b
        using out [of b] by (simp add: ch path_cut)
      show "base_bytes st1 = base_bytes st - (case dest of None \<Rightarrow> 0
          | Some d \<Rightarrow> child_bytes dn + inode_bytes d - int (length (fileExtents d)) * 16)"
        using bytes by (simp add: Some)
      show "lookup st1 cs = (if dest \<noteq> None \<and> cs = pd @ [dn] then None else lookup st cs)"
        if "lookup st pd = Some dp" for pd cs
        using tree_unlinked(2) [OF leaf that] by (simp add: st1 Some)
    qed (simp_all add: st1 update_simps)
  qed
qed

section \<open>The rename as a whole\<close>

lemma rename_delta:
  assumes core: "core_inv st" and ready: "rename_ready st sp sn dp dn now spd dpd source dest"
  shows "projectedBaseDelta st (Rename sp sn dp dn now) = Inr (- child_bytes sn +
     (case dest of None \<Rightarrow> child_bytes dn
      | Some d \<Rightarrow> - inode_bytes d + int (length (fileExtents d)) * 16))"
proof -
  note c = core_invD [OF core]
  have names: "component_ok sn" "component_ok dn"
    and spd: "imap st sp = Some spd" "isDirectory spd"
    and dpd: "imap st dp = Some dpd" "isDirectory dpd"
    and s: "map_of (children spd) sn = Some (inodeId source)"
    and dest: "case dest of None \<Rightarrow> map_of (children dpd) dn = None
      | Some d \<Rightarrow> map_of (children dpd) dn = Some (inodeId d) \<and> imap st (inodeId d) = Some d
          \<and> children d = []"
    using ready by (simp_all add: rename_ready_def)
  show ?thesis
  proof (cases dest)
    case None
    with names spd dpd s dest show ?thesis
      by (simp add: projectedBaseDelta_def directoryById_def childBaseBytes_ok)
  next
    case (Some d)
    with dest have "imap st (inodeId d) = Some d" by simp
    from inode_okD(8) [OF table_invD(3) [OF c(1) this]]
    have "inodeBaseBytes d = Inr (inode_bytes d)" by (rule inodeBaseBytes_ok)
    with names spd dpd s dest Some show ?thesis
      by (simp add: projectedBaseDelta_def directoryById_def childBaseBytes_ok)
  qed
qed

lemma rename_reduces:
  assumes core: "core_inv st" and run: "applyRename st sp sn dp dn now = Inr st'"
  shows "reduces st (Rename sp sn dp dn now) st'"
    and "lookup st ps = Some sp \<Longrightarrow> lookup st pd = Some dp \<Longrightarrow>
      lookup st' (pd @ dn # b) = lookup st (ps @ sn # b)"
    and "lookup st ps = Some sp \<Longrightarrow> lookup st pd = Some dp \<Longrightarrow> \<not> prefix (pd @ [dn]) cs \<Longrightarrow>
      lookup st' cs = (if prefix (ps @ [sn]) cs then None else lookup st cs)"
proof -
  obtain spd dpd source dest where
    ready: "rename_ready st sp sn dp dn now spd dpd source dest"
    and st': "st' = stampRename (inodeId source) sp dp now
      (moveEntry sp sn dp dn (inodeId source)
        (case dest of None \<Rightarrow> st
         | Some d \<Rightarrow> (unlinkEntry dp dn (inodeId d) st)
             \<lparr>allocator := fold releaseExtent (fileExtents d) (allocator st)\<rparr>))"
    by (rule applyRename_Inr [OF core run])
  define st1 where "st1 = (case dest of None \<Rightarrow> st
         | Some d \<Rightarrow> (unlinkEntry dp dn (inodeId d) st)
             \<lparr>allocator := fold releaseExtent (fileExtents d) (allocator st)\<rparr>)"
  have names: "component_ok sn" "component_ok dn" and neq: "\<not> (sp = dp \<and> sn = dn)" and now: "u64 now"
    and spd: "imap st sp = Some spd" and src: "map_of (children spd) sn = Some (inodeId source)"
    and dpd: "imap st dp = Some dpd"
    and dest: "case dest of None \<Rightarrow> map_of (children dpd) dn = None
      | Some d \<Rightarrow> map_of (children dpd) dn = Some (inodeId d) \<and> imap st (inodeId d) = Some d
          \<and> children d = []"
    and out: "\<And>b. path (child_of st) (inodeId source) b \<noteq> Some dp"
    using ready by (simp_all add: rename_ready_def)
  obtain spd' dpd' where core1: "core_inv st1"
    and spd1: "imap st1 sp = Some spd'" "isDirectory spd'" "map_of (children spd') sn = Some (inodeId source)"
    and dpd1: "imap st1 dp = Some dpd'" "isDirectory dpd'" "map_of (children dpd') dn = None"
    and s1: "imap st1 (inodeId source) \<noteq> None"
    and out1: "\<And>b. path (child_of st1) (inodeId source) b \<noteq> Some dp"
    and bytes1: "base_bytes st1 = base_bytes st - (case dest of None \<Rightarrow> 0
          | Some d \<Rightarrow> child_bytes dn + inode_bytes d - int (length (fileExtents d)) * 16)"
    and look1: "\<And>pd cs. lookup st pd = Some dp \<Longrightarrow> lookup st1 cs
          = (if dest \<noteq> None \<and> cs = pd @ [dn] then None else lookup st cs)"
    and same1: "basePayloadBytes st1 = basePayloadBytes st \<and> rootInodeId st1 = rootInodeId st
      \<and> extentSize st1 = extentSize st \<and> generation st1 = generation st"
    by (rule rename_cleared [OF core ready, folded st1_def]) (rule that, assumption+)
  let ?st2 = "moveEntry sp sn dp dn (inodeId source) st1"
  note move = moved_core [OF core1 spd1 dpd1 names(2,1) out1]
  have k: "imap ?st2 (inodeId source) \<noteq> None" "imap ?st2 sp \<noteq> None" "imap ?st2 dp \<noteq> None"
    using move(5) s1 spd1(1) dpd1(1) by (auto simp: domIff set_eq_iff)
  note stamp = stamped_core [OF move(1) k now]
  have st'2: "st' = stampRename (inodeId source) sp dp now ?st2"
    unfolding st' st1_def ..
  have "base_bytes st' - base_bytes st = - child_bytes sn +
     (case dest of None \<Rightarrow> child_bytes dn
      | Some d \<Rightarrow> - inode_bytes d + int (length (fileExtents d)) * 16)"
    unfolding st'2 stamp(2) move(2) bytes1 by (simp split: option.split)
  with rename_delta [OF core ready] stamp(1,4) same1
  show "reduces st (Rename sp sn dp dn now) st'"
    unfolding st'2 by (intro reducesI) (simp_all add: update_simps)
  assume ps: "lookup st ps = Some sp" and pd: "lookup st pd = Some dp"
  have "ps \<noteq> pd @ [dn]" if some: "dest \<noteq> None"
  proof
    assume "ps = pd @ [dn]"
    with ps pd have "child_of st dp dn = Some sp" by (simp add: lookup_snoc)
    with dest some dpd spd src show False by (auto simp: child_of_def)
  qed
  then have ps1: "lookup st1 ps = Some sp" using look1 [OF pd, of ps] ps by auto
  have pd1: "lookup st1 pd = Some dp" using look1 [OF pd, of pd] pd by simp
  have "ps @ sn # b \<noteq> pd @ [dn]"
  proof
    assume eq: "ps @ sn # b = pd @ [dn]"
    show False
    proof (cases b rule: rev_cases)
      case Nil
      with eq ps pd neq show False by simp
    next
      case (snoc b' x)
      with eq have "pd = ps @ sn # b'" by simp
      with pd ps src spd have "path (child_of st) (inodeId source) b' = Some dp"
        by (simp add: lookup_def path_append child_of_def)
      with out show False by blast
    qed
  qed
  then show "lookup st' (pd @ dn # b) = lookup st (ps @ sn # b)"
    unfolding st'2 stamp(3) move(3) [OF ps1 pd1] using look1 [OF pd] by simp
  show "lookup st' cs = (if prefix (ps @ [sn]) cs then None else lookup st cs)"
    if "\<not> prefix (pd @ [dn]) cs"
    unfolding st'2 stamp(3) move(4) [OF ps1 pd1 that] using look1 [OF pd, of cs] that by auto
qed

end
