(* ===== verification/TxnProofs.thy ===== *)
theory TxnProofs
  imports RenameEffect
begin

text \<open>
  Facts about \<open>applyTxn\<close> for every record, planned or not: a transaction that fails leaves the state
  as it was, one that succeeds keeps the invariant, and its tracked payload size is exact.
\<close>

lemma liftReducer_eq:
  "liftReducer st r = (None, st') \<longleftrightarrow> r = Inr st'"
  "liftReducer st r = (Some e, st') \<longleftrightarrow> r = Inl e \<and> st' = st"
  by (auto simp: liftReducer_def split: sum.splits)

lemmas reducers = createFile_reduces(1) createSymlink_reduces(1) removeFile_reduces(1)
  removeDirectory_reduces(1) changeMode_reduces(1) changeTimes_reduces(1) resizeFile_reduces(1)
  reserveQuarantine_reduces(1) rename_reduces(1)

lemma reduceTxn_reduces:
  assumes core: "core_inv st" and run: "reduceTxn st record = (None, st')"
  shows "reduces st record st'"
proof (cases "record")
  case (CreateDirectories entries)
  show ?thesis
  proof (cases "validateCreateDirectories st entries")
    case (Inl e)
    with run CreateDirectories show ?thesis by (simp add: reduceTxn_def)
  next
    case (Inr u)
    obtain s where "applyDirectoryEntries entries st = (None, s)"
      and "reduces st (CreateDirectories entries) s"
      using createDirectories_ok [OF core Inr] by blast
    with run Inr CreateDirectories show ?thesis by (simp add: reduceTxn_def)
  qed
qed (use run core in \<open>auto simp: reduceTxn_def liftReducer_eq intro: reducers\<close>)

lemma reduceTxn_atomic:
  assumes core: "core_inv st" and run: "reduceTxn st record = (Some e, st')"
  shows "st' = st"
proof (cases "record")
  case (CreateDirectories entries)
  show ?thesis
  proof (cases "validateCreateDirectories st entries")
    case (Inl e')
    with run CreateDirectories show ?thesis by (simp add: reduceTxn_def)
  next
    case (Inr u)
    obtain s where "applyDirectoryEntries entries st = (None, s)"
      using createDirectories_ok [OF core Inr] by blast
    with run Inr CreateDirectories show ?thesis by (simp add: reduceTxn_def)
  qed
qed (use run in \<open>auto simp: reduceTxn_def liftReducer_eq\<close>)

text \<open>The projection of the payload size, and how \<open>applyTxn\<close> unfolds.\<close>

lemma preflight_Inr:
  "preflightTxn st record limits = Inr projected \<longleftrightarrow>
     (\<exists>payload delta. estimateTxnPayloadBytes record = Inr payload
        \<and> payload \<le> maxFramePayloadBytes limits \<and> projectedBaseDelta st record = Inr delta
        \<and> projected = basePayloadBytes st + delta \<and> 0 \<le> projected \<and> isSafeInteger projected
        \<and> projected \<le> maxBasePayloadBytes limits)"
  unfolding preflightTxn_def ebind_eq_Inr if_Inl_eq_Inr Let_def by (auto simp: not_less)

lemma applyTxn_None:
  "applyTxn st record None = (None, st') \<longleftrightarrow>
     (\<exists>projected s. preflightTxn st record defaultLimits = Inr projected
        \<and> reduceTxn st record = (None, s) \<and> st' = s\<lparr>basePayloadBytes := projected\<rparr>)"
  by (auto simp: applyTxn_def split: sum.splits prod.splits option.splits)

text \<open>A prepared projection of this state and record changes nothing but the work done.\<close>

lemma applyTxn_prepared_eq:
  assumes "prepareTxnProjection st record = Inr p"
  shows "applyTxn st record (Some p) = applyTxn st record None"
  using assms
  by (auto simp: prepareTxnProjection_def ebind_eq_Inr applyTxn_def split: option.splits prod.splits)

lemma core_bytes: "core_inv (st\<lparr>basePayloadBytes := b\<rparr>) \<longleftrightarrow> core_inv st"
proof -
  have "file_extents (st\<lparr>basePayloadBytes := b\<rparr>) = file_extents st"
    by (rule file_extents_cong) simp
  then show ?thesis by (simp add: core_inv_def table_bytes tree_inv_def gen_inv_def)
qed

lemma base_bytes_bytes: "base_bytes (st\<lparr>basePayloadBytes := b\<rparr>) = base_bytes st"
  by (simp add: base_bytes_def)

lemma applyTxn_core:
  assumes core: "core_inv st" and run: "applyTxn st record None = (None, st')"
  obtains s where "reduceTxn st record = (None, s)" and "reduces st record s"
    and "st' = s\<lparr>basePayloadBytes := basePayloadBytes st + (base_bytes s - base_bytes st)\<rparr>"
    and "basePayloadBytes st' \<le> MAX_METADATA_BASE_WRITER_BYTES"
proof -
  from run obtain projected s where pre: "preflightTxn st record defaultLimits = Inr projected"
    and s: "reduceTxn st record = (None, s)" and st': "st' = s\<lparr>basePayloadBytes := projected\<rparr>"
    by (auto simp: applyTxn_None)
  have red: "reduces st record s" using core s by (rule reduceTxn_reduces)
  from pre reducesD(2) [OF red] have "projected = basePayloadBytes st + (base_bytes s - base_bytes st)"
    and "projected \<le> MAX_METADATA_BASE_WRITER_BYTES"
    by (auto simp: preflight_Inr defaultLimits_def)
  with s red st' show thesis by (intro that [of s]) simp_all
qed

lemma applyTxn_inv:
  assumes inv: "vfs_inv st" and run: "applyTxn st record None = (None, st')"
  shows "vfs_inv st'"
proof -
  have core: "core_inv st" and bytes: "bytes_inv st" using inv by (simp_all add: vfs_inv_core)
  obtain s where red: "reduces st record s"
    and st': "st' = s\<lparr>basePayloadBytes := basePayloadBytes st + (base_bytes s - base_bytes st)\<rparr>"
    and limit: "basePayloadBytes st' \<le> MAX_METADATA_BASE_WRITER_BYTES"
    using applyTxn_core [OF core run] by blast
  have "core_inv st'" using reducesD(1) [OF red] by (simp add: st' core_bytes)
  moreover have "bytes_inv st'"
    using bytes limit by (simp add: bytes_inv_def st' base_bytes_bytes)
  ultimately show ?thesis by (simp add: vfs_inv_core)
qed

lemma applyTxn_atomic:
  assumes core: "core_inv st" and run: "applyTxn st record prepared = (Some e, st')"
  shows "st' = st"
  using run reduceTxn_atomic [OF core]
  by (auto simp: applyTxn_def split: if_splits sum.splits prod.splits option.splits)

text \<open>A record that passed its preflight and whose reducer accepts it is applied.\<close>

lemma applyTxn_ok:
  assumes "preflightTxn st record defaultLimits = Inr projected" and "reduceTxn st record = (None, s)"
  shows "applyTxn st record None = (None, s\<lparr>basePayloadBytes := projected\<rparr>)"
  using assms by (auto simp: applyTxn_None)

lemma checkedPlan_Inr:
  "checkedPlan st record = Inr r \<longleftrightarrow>
     r = record \<and> (\<exists>projected. preflightTxn st record defaultLimits = Inr projected)"
  by (auto simp: checkedPlan_def ebind_eq_Inr)

section \<open>The initial state\<close>

lemma createInitialState_inv:
  assumes "createInitialState ext = Inr st"
  shows "vfs_inv st" and "paths_ok st" and "generation st = 1"
proof -
  let ?root = "\<lparr>inodeId = 1, imode = 16895, atimeMs = 0, mtimeMs = 0, ctimeMs = 0,
                   body = Directory []\<rparr>"
  from assms have ext: "extent_size_ok ext"
    and st: "st = \<lparr>generation = 1, nextInodeId = 2, rootInodeId = 1, extentSize = ext,
            activeMetadataFile = MetaA, retainedGenerations = (\<lambda>_. None)(MetaA := Some 1),
            basePayloadBytes = BASE_STATE_FIXED_BYTES + DIRECTORY_INODE_FIXED_BYTES,
            inodes = [(1, ?root)], parentByInode = [],
            allocator = \<lparr>totalExtents = 0, ownedBy = [], available = emptyExtentSet,
                         quarantine = []\<rparr>\<rparr>"
    by (auto simp: createInitialState_def ebind_eq_Inr validateExtentSize_Inr Let_def)
  have ch: "child_of st = (\<lambda>_ _. None)"
    by (auto simp: child_of_def st fun_eq_iff children_def)
  have lookup: "lookup st cs = (if cs = [] then Some 1 else None)" for cs
    by (cases cs) (simp_all add: lookup_def ch, simp add: st)
  have "table_inv st"
    using ext by (auto simp: table_inv_def st wf_map_def inode_ok_def mode_ok_def u64_def limit_defs
        isDirectory_def)
  moreover have "tree_inv st"
  proof -
    have "dom (imap st) = {1}" by (auto simp: st split: if_splits)
    moreover have "path (\<lambda>_ _. None) (1::int) [] = Some 1" by simp
    ultimately show ?thesis
      unfolding tree_inv_def ch tree_def by (auto simp: st intro: exI [of _ "[]"])
  qed
  moreover have "alloc_inv (allocator st) (file_extents st)"
    by (rule alloc_inv_cong) (simp add: st, rule alloc_inv_empty, simp add: file_extents_def st fileExtents_def)
  moreover have "gen_inv st" by (simp add: gen_inv_def st limit_defs)
  moreover have "bytes_inv st"
    by (simp add: bytes_inv_def st base_bytes_def inode_bytes_def pool_bytes_def sizeExtent_def
        emptyExtentSet_def limit_defs)
  ultimately show "vfs_inv st" by (simp add: vfs_inv_def)
  show "paths_ok st"
    by (auto simp: paths_ok_def lookup path_ok_def path_bytes_def limit_defs split: if_splits)
  show "generation st = 1" by (simp add: st)
qed

end
