(* ===== verification/Plans.thy ===== *)
theory Plans
  imports TxnProofs
begin

text \<open>
  The planners are sound: a record that a planner returns is accepted by \<open>applyTxn\<close> on the same
  state, and the paths it names stay within the limits. This is what lets the store write a planned
  record to its log before it applies it: the application cannot fail any more.
\<close>

definition accepted :: "VfsState \<Rightarrow> TxnRecord \<Rightarrow> VfsState \<Rightarrow> bool" where
  "accepted st record s \<longleftrightarrow> reduceTxn st record = (None, s)
     \<and> (\<exists>projected. preflightTxn st record defaultLimits = Inr projected)"

lemma accepted_applies:
  "accepted st record s \<Longrightarrow> \<exists>b. applyTxn st record None = (None, s\<lparr>basePayloadBytes := b\<rparr>)"
  using applyTxn_ok by (auto simp: accepted_def)

lemma acceptedI:
  "checkedPlan st record = Inr r \<Longrightarrow> reduceTxn st record = (None, s) \<Longrightarrow> accepted st record s"
  by (auto simp: accepted_def checkedPlan_Inr)

section \<open>Chosen extents pass the reducer's checks\<close>

lemma chosen_assignment:
  assumes inv: "alloc_inv (allocator st) F" and es: "chooseExtents st n = Inr es"
    and runs: "toExtentRuns es = Inr runs"
  shows "validateExtentAssignment st runs n = Inr es"
proof -
  note ch = chooseExtents_Inr [OF es inv]
  note d = alloc_invD [OF inv]
  have exp: "expandExtentRuns runs MAX_EXTENTS_PER_INODE = Inr es"
    using runs ch(3,4) by (intro runs_roundtrip) simp_all
  have "\<forall>e\<in>extents_of (available (allocator st)). e < totalExtents (allocator st)"
    using d(8) by blast
  from assignable_checked [OF ch(1) d(1) d(1) order_refl order_refl this]
  show ?thesis using exp ch(2,3) by (auto simp: validateExtentAssignment_def not_less)
qed

section \<open>Creating\<close>

lemma planCreateFile_shape:
  assumes inv: "vfs_inv st" and plan: "planCreateFile st p modeOption now sizeOption = Inr r"
  obtains pp name choice fsize runs s where "r = CreateFile choice fsize runs"
    and "p = render_path (pp @ [name])" and "path_ok (pp @ [name])"
    and "lookup st pp = Some (choiceParentId choice)" and "choiceName choice = name"
    and "choiceInodeId choice = nextInodeId st"
    and "fsize = (case sizeOption of None \<Rightarrow> 0 | Some n \<Rightarrow> n)"
    and "accepted st r s" and "applyCreateFile st choice fsize runs = Inr s"
proof -
  note v = vfs_invD [OF inv]
  from plan obtain parent name n chosen runs where
    pn: "parentAndName st p = Inr (parent, name)"
    and free: "map_of (children parent) name = None"
    and room: "\<not> int (length (inodes st)) \<ge> MAX_INODES"
    and nx: "nextInodeId st \<noteq> MAX_U64" "u64 (nextInodeId st + 1)"
    and mode: "mode_ok (case modeOption of None \<Rightarrow> 33206 | Some m \<Rightarrow> m)" and now: "u64 now"
    and fs: "u64 (case sizeOption of None \<Rightarrow> 0 | Some s \<Rightarrow> s)"
    and n: "extentCountForSize (case sizeOption of None \<Rightarrow> 0 | Some s \<Rightarrow> s) (extentSize st) = Inr n"
    and chosen: "chooseExtents st n = Inr chosen" and runs: "toExtentRuns chosen = Inr runs"
    and chk: "checkedPlan st (CreateFile
             \<lparr>choiceParentId = inodeId parent, choiceName = name, choiceInodeId = nextInodeId st,
              choiceMode = (case modeOption of None \<Rightarrow> 33206 | Some m \<Rightarrow> m), choiceAtimeMs = now,
              choiceMtimeMs = now, choiceCtimeMs = now\<rparr>
             (case sizeOption of None \<Rightarrow> 0 | Some s \<Rightarrow> s) runs) = Inr r"
    unfolding planCreateFile_def
    by (auto simp: res_simps split: if_splits)
  from parentAndName_Inr [OF v(1), THEN iffD1, OF pn] obtain pp i where
    pp: "path_ok (pp @ [name])" "p = render_path (pp @ [name])" "lookup st pp = Some i"
    and parent: "imap st i = Some parent" "isDirectory parent" by auto
  have id: "inodeId parent = i" using inode_id [OF v(1) parent(1)] .
  have name: "component_ok name" using pp(1) by (simp add: path_ok_def)
  define choice where "choice = \<lparr>choiceParentId = i, choiceName = name, choiceInodeId = nextInodeId st,
              choiceMode = (case modeOption of None \<Rightarrow> 33206 | Some m \<Rightarrow> m), choiceAtimeMs = now,
              choiceMtimeMs = now, choiceCtimeMs = now\<rparr>"
  let ?fs = "case sizeOption of None \<Rightarrow> 0 | Some s \<Rightarrow> s"
  have r: "r = CreateFile choice ?fs runs" and chk': "checkedPlan st (CreateFile choice ?fs runs) = Inr r"
    using chk by (simp_all add: checkedPlan_Inr choice_def id)
  have "\<exists>s. applyCreateFile st choice ?fs runs = Inr s"
    unfolding applyCreateFile_def
    using chosen_assignment [OF v(3) chosen runs] n fs now mode nx free name parent room
      next_unused [OF v(1)]
    by (simp add: ebind_eq_Inr validatePathComponent_Inr directoryById_Inr advance_Inr
        validateMode_Inr validateTimestamp_Inr choice_def Let_def)
  then obtain s where s: "applyCreateFile st choice ?fs runs = Inr s" by blast
  then have "reduceTxn st (CreateFile choice ?fs runs) = (None, s)"
    by (simp add: reduceTxn_def liftReducer_def)
  with chk' have "accepted st (CreateFile choice ?fs runs) s" by (rule acceptedI)
  with r pp s show thesis by (intro that) (simp_all add: choice_def)
qed

lemma planSymlink_shape:
  assumes inv: "vfs_inv st" and plan: "planSymlink st p target modeOption now = Inr r"
  obtains pp name choice s where "r = CreateSymlink choice target"
    and "p = render_path (pp @ [name])" and "path_ok (pp @ [name])"
    and "lookup st pp = Some (choiceParentId choice)" and "choiceName choice = name"
    and "accepted st r s" and "applyCreateSymlink st choice target = Inr s"
proof -
  note v = vfs_invD [OF inv]
  from plan obtain parent name where
    pn: "parentAndName st p = Inr (parent, name)"
    and free: "map_of (children parent) name = None"
    and room: "\<not> int (length (inodes st)) \<ge> MAX_INODES"
    and target: "symlink_target_ok target"
    and nx: "nextInodeId st \<noteq> MAX_U64" "u64 (nextInodeId st + 1)"
    and mode: "mode_ok (case modeOption of None \<Rightarrow> SYMLINK_MODE | Some m \<Rightarrow> m)" and now: "u64 now"
    and chk: "checkedPlan st (CreateSymlink
             \<lparr>choiceParentId = inodeId parent, choiceName = name, choiceInodeId = nextInodeId st,
              choiceMode = (case modeOption of None \<Rightarrow> SYMLINK_MODE | Some m \<Rightarrow> m), choiceAtimeMs = now,
              choiceMtimeMs = now, choiceCtimeMs = now\<rparr> target) = Inr r"
    unfolding planSymlink_def
    by (auto simp: res_simps split: if_splits)
  from parentAndName_Inr [OF v(1), THEN iffD1, OF pn] obtain pp i where
    pp: "path_ok (pp @ [name])" "p = render_path (pp @ [name])" "lookup st pp = Some i"
    and parent: "imap st i = Some parent" "isDirectory parent" by auto
  have id: "inodeId parent = i" using inode_id [OF v(1) parent(1)] .
  have name: "component_ok name" using pp(1) by (simp add: path_ok_def)
  define choice where "choice = \<lparr>choiceParentId = i, choiceName = name, choiceInodeId = nextInodeId st,
              choiceMode = (case modeOption of None \<Rightarrow> SYMLINK_MODE | Some m \<Rightarrow> m), choiceAtimeMs = now,
              choiceMtimeMs = now, choiceCtimeMs = now\<rparr>"
  have r: "r = CreateSymlink choice target" and chk': "checkedPlan st (CreateSymlink choice target) = Inr r"
    using chk by (simp_all add: checkedPlan_Inr choice_def id)
  have "\<exists>s. applyCreateSymlink st choice target = Inr s"
    unfolding applyCreateSymlink_def
    using target now mode nx free name parent room next_unused [OF v(1)]
    by (simp add: ebind_eq_Inr validatePathComponent_Inr directoryById_Inr advance_Inr
        validateMode_Inr validateTimestamp_Inr validateSymlinkTarget_Inr choice_def Let_def)
  then obtain s where s: "applyCreateSymlink st choice target = Inr s" by blast
  then have "reduceTxn st (CreateSymlink choice target) = (None, s)"
    by (simp add: reduceTxn_def liftReducer_def)
  with chk' have "accepted st (CreateSymlink choice target) s" by (rule acceptedI)
  with r pp s show thesis by (intro that) (simp_all add: choice_def)
qed

section \<open>Removing\<close>

lemma planUnlink_shape:
  assumes inv: "vfs_inv st" and plan: "planUnlink st p now = Inr r"
  obtains pp name i s where "r = RemoveFile i name now now"
    and "p = render_path (pp @ [name])" and "path_ok (pp @ [name])"
    and "lookup st pp = Some i" and "accepted st r s" and "applyRemoveFile st i name now now = Inr s"
proof -
  note v = vfs_invD [OF inv]
  from plan obtain parent name k inode where
    pn: "parentAndName st p = Inr (parent, name)"
    and k: "map_of (children parent) name = Some k" "imap st k = Some inode"
    and kind: "\<not> isDirectory inode" and now: "u64 now"
    and chk: "checkedPlan st (RemoveFile (inodeId parent) name now now) = Inr r"
    unfolding planUnlink_def
    by (auto simp: res_simps bind_eq_Some_conv split: if_splits option.splits)
  from parentAndName_Inr [OF v(1), THEN iffD1, OF pn] obtain pp i where
    pp: "path_ok (pp @ [name])" "p = render_path (pp @ [name])" "lookup st pp = Some i"
    and parent: "imap st i = Some parent" "isDirectory parent" by auto
  have id: "inodeId parent = i" and kid: "inodeId inode = k"
    using inode_id [OF v(1)] parent(1) k(2) by auto
  have name: "component_ok name" using pp(1) by (simp add: path_ok_def)
  have own: "map_of (ownedBy (allocator st)) e = Some k \<and> map_of (quarantine (allocator st)) e = None"
    if "e \<in> set (fileExtents inode)" for e
  proof -
    have "e \<in> set (file_extents st k)" using that k(2) by (simp add: file_extents_def)
    then have "map_of (ownedBy (allocator st)) e = Some k" using alloc_invD(4) [OF v(3)] by simp
    then show ?thesis using alloc_invD(7) [OF v(3), of e] by simp
  qed
  have "\<exists>s. applyRemoveFile st i name now now = Inr s"
    unfolding applyRemoveFile_def
    using now name parent k kind own kid
    by (simp add: ebind_eq_Inr validatePathComponent_Inr directoryById_Inr validateTimestamp_Inr
        checkOwnedBy_Inr Let_def)
  then obtain s where s: "applyRemoveFile st i name now now = Inr s" by blast
  then have "reduceTxn st (RemoveFile i name now now) = (None, s)"
    by (simp add: reduceTxn_def liftReducer_def)
  with chk have "accepted st (RemoveFile i name now now) s" by (intro acceptedI) (simp_all add: id)
  moreover have "r = RemoveFile i name now now" using chk by (simp add: checkedPlan_Inr id)
  ultimately show thesis using pp s by (intro that) simp_all
qed

lemma planRmdir_shape:
  assumes inv: "vfs_inv st" and plan: "planRmdir st p now = Inr r"
  obtains pp name i s where "r = RemoveDirectory i name now now"
    and "p = render_path (pp @ [name])" and "path_ok (pp @ [name])"
    and "lookup st pp = Some i" and "accepted st r s"
    and "applyRemoveDirectory st i name now now = Inr s"
proof -
  note v = vfs_invD [OF inv]
  from plan obtain parent name k inode where
    pn: "parentAndName st p = Inr (parent, name)"
    and k: "map_of (children parent) name = Some k" "imap st k = Some inode"
    and kind: "isDirectory inode" "children inode = []" and now: "u64 now"
    and chk: "checkedPlan st (RemoveDirectory (inodeId parent) name now now) = Inr r"
    unfolding planRmdir_def
    by (auto simp: res_simps bind_eq_Some_conv split: if_splits option.splits)
  from parentAndName_Inr [OF v(1), THEN iffD1, OF pn] obtain pp i where
    pp: "path_ok (pp @ [name])" "p = render_path (pp @ [name])" "lookup st pp = Some i"
    and parent: "imap st i = Some parent" "isDirectory parent" by auto
  have id: "inodeId parent = i" using inode_id [OF v(1) parent(1)] .
  have name: "component_ok name" using pp(1) by (simp add: path_ok_def)
  have "\<exists>s. applyRemoveDirectory st i name now now = Inr s"
    unfolding applyRemoveDirectory_def
    using now name parent k kind
    by (simp add: ebind_eq_Inr validatePathComponent_Inr directoryById_Inr validateTimestamp_Inr Let_def)
  then obtain s where s: "applyRemoveDirectory st i name now now = Inr s" by blast
  then have "reduceTxn st (RemoveDirectory i name now now) = (None, s)"
    by (simp add: reduceTxn_def liftReducer_def)
  with chk have "accepted st (RemoveDirectory i name now now) s" by (intro acceptedI) (simp_all add: id)
  moreover have "r = RemoveDirectory i name now now" using chk by (simp add: checkedPlan_Inr id)
  ultimately show thesis using pp s by (intro that) simp_all
qed

section \<open>Attributes and sizes\<close>

lemma planChmod_shape:
  assumes inv: "vfs_inv st" and plan: "planChmod st p mode now = Inr r"
  obtains cs k s where "r = ChangeMode k mode now" and "p = render_path cs" and "path_ok cs"
    and "lookup st cs = Some k" and "accepted st r s" and "applyChangeMode st k mode now = Inr s"
proof -
  note v = vfs_invD [OF inv]
  from plan obtain inode where at: "getInodeAtPath st p = Inr inode" and ok: "mode_ok mode" "u64 now"
    and chk: "checkedPlan st (ChangeMode (inodeId inode) mode now) = Inr r"
    unfolding planChmod_def by (auto simp: res_simps)
  from at getInodeAtPath_Inr [OF v(1,2)] obtain cs k where
    cs: "path_ok cs" "p = render_path cs" "lookup st cs = Some k" and k: "imap st k = Some inode" by auto
  have id: "inodeId inode = k" using inode_id [OF v(1) k] .
  obtain s where s: "applyChangeMode st k mode now = Inr s"
    using k ok by (simp add: applyChangeMode_def inodeById_def validateMode_Inr [THEN iffD2]
        validateTimestamp_Inr [THEN iffD2])
  then have "reduceTxn st (ChangeMode k mode now) = (None, s)"
    by (simp add: reduceTxn_def liftReducer_def)
  with chk have "accepted st (ChangeMode k mode now) s" by (intro acceptedI) (simp_all add: id)
  moreover have "r = ChangeMode k mode now" using chk by (simp add: checkedPlan_Inr id)
  ultimately show thesis using cs s by (intro that) simp_all
qed

lemma planUtimes_shape:
  assumes inv: "vfs_inv st" and plan: "planUtimes st p atime mtime ctime = Inr r"
  obtains cs k s where "r = ChangeTimes k atime mtime ctime" and "p = render_path cs" and "path_ok cs"
    and "lookup st cs = Some k" and "accepted st r s"
    and "applyChangeTimes st k atime mtime ctime = Inr s"
proof -
  note v = vfs_invD [OF inv]
  from plan obtain inode where at: "getInodeAtPath st p = Inr inode"
    and ok: "u64 atime" "u64 mtime" "u64 ctime"
    and chk: "checkedPlan st (ChangeTimes (inodeId inode) atime mtime ctime) = Inr r"
    unfolding planUtimes_def by (auto simp: res_simps)
  from at getInodeAtPath_Inr [OF v(1,2)] obtain cs k where
    cs: "path_ok cs" "p = render_path cs" "lookup st cs = Some k" and k: "imap st k = Some inode" by auto
  have id: "inodeId inode = k" using inode_id [OF v(1) k] .
  obtain s where s: "applyChangeTimes st k atime mtime ctime = Inr s"
    using k ok by (simp add: applyChangeTimes_def inodeById_def validateTimestamp_Inr [THEN iffD2])
  then have "reduceTxn st (ChangeTimes k atime mtime ctime) = (None, s)"
    by (simp add: reduceTxn_def liftReducer_def)
  with chk have "accepted st (ChangeTimes k atime mtime ctime) s" by (intro acceptedI) (simp_all add: id)
  moreover have "r = ChangeTimes k atime mtime ctime" using chk by (simp add: checkedPlan_Inr id)
  ultimately show thesis using cs s by (intro that) simp_all
qed

lemma planResizeFileForInode_shape:
  assumes inv: "vfs_inv st" and plan: "planResizeFileForInode st inode fsize now operation = Inr r"
    and isf: "body inode = File old extents"
  obtains runs s where "r = ResizeFile operation (inodeId inode) fsize runs now now"
    and "imap st (inodeId inode) = Some inode" and "accepted st r s"
    and "applyResizeFile st (inodeId inode) fsize runs now now = Inr s"
proof -
  note v = vfs_invD [OF inv]
  let ?k = "inodeId inode"
  have fe: "fileExtents inode = extents" using isf by (rule fileExtents_body)
  from plan obtain n chosen runs where k: "imap st ?k = Some inode" and fs: "u64 fsize"
    and n: "extentCountForSize fsize (extentSize st) = Inr n" and now: "u64 now"
    and chosen: "chooseExtents st (max 0 (n - int (length extents))) = Inr chosen"
    and runs: "toExtentRuns chosen = Inr runs"
    and chk: "checkedPlan st (ResizeFile operation ?k fsize runs now now) = Inr r"
    unfolding planResizeFileForInode_def by (auto simp: res_simps Let_def fe split: if_splits)
  have own: "map_of (ownedBy (allocator st)) e = Some ?k \<and> map_of (quarantine (allocator st)) e = None"
    if "e \<in> set (drop m extents)" for e m
  proof -
    have "e \<in> set (file_extents st ?k)"
      using that k fe by (auto simp: file_extents_def dest: in_set_dropD)
    then have "map_of (ownedBy (allocator st)) e = Some ?k" using alloc_invD(4) [OF v(3)] by simp
    then show ?thesis using alloc_invD(7) [OF v(3), of e] by simp
  qed
  have "\<exists>s. applyResizeFile st ?k fsize runs now now = Inr s"
    unfolding applyResizeFile_def
    using k isf fs n now own chosen_assignment [OF v(3) chosen runs]
    by (simp add: ebind_eq_Inr fileById_Inr [THEN iffD2] validateTimestamp_Inr checkOwnedBy_Inr Let_def)
  then obtain s where s: "applyResizeFile st ?k fsize runs now now = Inr s" by blast
  then have "reduceTxn st (ResizeFile operation ?k fsize runs now now) = (None, s)"
    by (simp add: reduceTxn_def liftReducer_def)
  with chk have "accepted st (ResizeFile operation ?k fsize runs now now) s" by (rule acceptedI)
  moreover have "r = ResizeFile operation ?k fsize runs now now" using chk by (simp add: checkedPlan_Inr)
  ultimately show thesis using k s by (intro that) simp_all
qed

lemma planResizeFile_shape:
  assumes inv: "vfs_inv st" and plan: "planResizeFile st p fsize now operation = Inr r"
  obtains cs k runs s where "r = ResizeFile operation k fsize runs now now"
    and "p = render_path cs" and "path_ok cs" and "lookup st cs = Some k"
    and "accepted st r s" and "applyResizeFile st k fsize runs now now = Inr s"
proof -
  note v = vfs_invD [OF inv]
  from plan obtain inode where at: "getInodeAtPath st p = Inr inode"
    and rest: "(case body inode of File _ _ \<Rightarrow> planResizeFileForInode st inode fsize now operation
       | _ \<Rightarrow> Inl (FsError EISDIR)) = Inr r"
    unfolding planResizeFile_def ebind_eq_Inr by blast
  from rest obtain old extents where isf: "body inode = File old extents"
    and plan': "planResizeFileForInode st inode fsize now operation = Inr r"
    by (cases "body inode") auto
  from at getInodeAtPath_Inr [OF v(1,2)] obtain cs k where
    cs: "path_ok cs" "p = render_path cs" "lookup st cs = Some k" and k: "imap st k = Some inode" by auto
  have id: "inodeId inode = k" using inode_id [OF v(1) k] .
  from planResizeFileForInode_shape [OF inv plan' isf] obtain runs s where
    "r = ResizeFile operation k fsize runs now now" "accepted st r s"
    "applyResizeFile st k fsize runs now now = Inr s" unfolding id .
  with cs show thesis by (intro that) simp_all
qed

lemma planReserveQuarantine_shape:
  assumes inv: "vfs_inv st" and plan: "planReserveQuarantine st n = Inr r"
  obtains runs s where "r = ReserveQuarantine runs" and "accepted st r s"
    and "applyReserveQuarantine st runs = Inr s"
proof -
  note v = vfs_invD [OF inv]
  from plan obtain chosen runs where n: "0 < n" "n \<le> MAX_EXTENTS_PER_INODE"
    and chosen: "chooseExtents st n = Inr chosen" and runs: "toExtentRuns chosen = Inr runs"
    and chk: "checkedPlan st (ReserveQuarantine runs) = Inr r"
    unfolding planReserveQuarantine_def by (auto simp: res_simps split: if_splits)
  note flat = toExtentRuns_flat [OF runs]
  have "\<forall>r\<in>set runs. 0 \<le> runCount r" using flat(2) by (auto simp: run_ok_def)
  then have count: "(\<Sum>run\<leftarrow>runs. runCount run) = n"
    using length_flat [of runs] flat(1) chooseExtents_Inr(3) [OF chosen v(3)] by simp
  have "\<exists>s. applyReserveQuarantine st runs = Inr s"
    unfolding applyReserveQuarantine_def count
    using n chosen_assignment [OF v(3) chosen runs] by simp
  then obtain s where s: "applyReserveQuarantine st runs = Inr s" by blast
  then have "reduceTxn st (ReserveQuarantine runs) = (None, s)"
    by (simp add: reduceTxn_def liftReducer_def)
  with chk have "accepted st (ReserveQuarantine runs) s" by (rule acceptedI)
  moreover have "r = ReserveQuarantine runs" using chk by (simp add: checkedPlan_Inr)
  ultimately show thesis using s by (intro that) simp_all
qed

end
