(* ===== verification/PlansTree.thy ===== *)
theory PlansTree
  imports Plans
begin

text \<open>
  The planners that walk the tree: \<open>planRename\<close>, whose bound checks and containment check are
  related to the paths of the tree, and \<open>planMkdir\<close>, whose entries the validating loop of
  \<open>createDirectories\<close> accepts.
\<close>

section \<open>The recursions never run out of fuel\<close>

lemma card_inodes: "table_inv st \<Longrightarrow> card (dom (imap st)) = length (inodes st)"
  using table_invD(1) [of st] distinct_card [of "keys_of (inodes st)"]
  by (simp add: wf_map_def dom_map_of_conv_image_fst)

lemma lookup_depth:
  assumes "table_inv st" and "tree_inv st" and "lookup st cs = Some i"
  shows "length cs < length (inodes st)"
  using tree_depth [OF tree_invD(1) [OF assms(2)], of cs i] assms(3) card_inodes [OF assms(1)]
  by (simp add: lookup_def finite_dom_map_of)

lemma directoryContains_total:
  assumes t: "table_inv st" "tree_inv st"
    and "lookup st cs = Some i" and "imap st i = Some d" and "length (inodes st) < fuel + length cs"
  shows "\<exists>b. directoryContains fuel st d c = Inr b"
  using assms(3-5)
proof (induction fuel arbitrary: cs i d)
  case 0
  then show ?case using lookup_depth [OF t, of cs i] by simp
next
  case (Suc fuel)
  have "\<exists>b. any_res (\<lambda>(name, childId). ebind (inodeById st childId) (\<lambda>child.
             if isDirectory child then directoryContains fuel st child c
             else Inr False)) (children d) = Inr b"
  proof (rule any_res_ok)
    fix x
    assume x: "x \<in> set (children d)"
    obtain n k where x': "x = (n, k)" by (cases x)
    have "body_ok (extentSize st) (body d)"
      using table_invD(3) [OF t(1) Suc.prems(2)] by (rule inode_okD)
    moreover have "isDirectory d" using x not_directory_children [of d] by fastforce
    ultimately have "wf_map (children d)" by (simp add: directory_body_ok)
    then have "map_of (children d) n = Some k" using x x' by (simp add: wf_map_in_set [symmetric])
    then have ch: "child_of st i n = Some k" using Suc.prems(2) by (simp add: child_of_def)
    then obtain child where child: "imap st k = Some child" using child_in [OF t(2)] by blast
    have look: "lookup st (cs @ [n]) = Some k" using Suc.prems(1) ch by (simp add: lookup_snoc)
    have "\<exists>b. directoryContains fuel st child c = Inr b"
      by (rule Suc.IH [OF look child]) (use Suc.prems(3) in simp)
    with child show "\<exists>b. (case x of (name, childId) \<Rightarrow> ebind (inodeById st childId) (\<lambda>child.
             if isDirectory child then directoryContains fuel st child c else Inr False)) = Inr b"
      by (auto simp: x' inodeById_def)
  qed
  then show ?case by (cases "inodeId d = c") auto
qed

lemma directoryContains_treeFuel:
  assumes t: "table_inv st" "tree_inv st" and d: "imap st i = Some d"
  shows "\<exists>b. directoryContains (treeFuel st) st d c = Inr b"
proof -
  obtain cs where "lookup st cs = Some i" using lookup_reaches [OF t(2) d] by blast
  then show ?thesis
    by (rule directoryContains_total [OF t _ d]) (simp add: treeFuel_def)
qed

section \<open>Path metrics\<close>

lemma childPathMetrics_ok:
  "component_ok n \<Longrightarrow> childPathMetrics m n
     = Inr \<lparr>depth = depth m + 1, bytes = bytes m + (if depth m = 0 then 0 else 1) + utf8_bytes n\<rparr>"
  by (simp add: childPathMetrics_def encodedUtf8Length_eq component_ok_utf8)

definition names_bytes :: "js_string list \<Rightarrow> int" where
  "names_bytes cs = (\<Sum>c\<leftarrow>cs. utf8_bytes c)"

lemma path_bytes_names: "path_bytes cs = 1 + names_bytes cs + max 0 (int (length cs) - 1)"
  by (cases cs) (simp_all add: path_bytes_def names_bytes_def sum_list_addf sum_list_triv)

lemma findPathMetrics_loop:
  assumes t: "table_inv st" "tree_inv st" and "lookup st cs = Some i"
    and "\<And>ds j. prefix ds cs \<Longrightarrow> lookup st ds = Some j \<Longrightarrow> j \<notin> set visited"
  shows "findPathMetricsLoop st i d b visited = Inr \<lparr>depth = d + int (length cs),
     bytes = 1 + (b + names_bytes cs) + max 0 (d + int (length cs) - 1)\<rparr>"
  using assms(3,4)
proof (induction cs arbitrary: i d b visited rule: rev_induct)
  case Nil
  then show ?case by (subst findPathMetricsLoop.simps) (simp add: names_bytes_def)
next
  case (snoc n cs)
  from snoc.prems(1) obtain p where p: "lookup st cs = Some p" "child_of st p n = Some i"
    by (auto simp: lookup_snoc bind_eq_Some_conv)
  have notroot: "i \<noteq> rootInodeId st"
    using treeD(2) [OF tree_invD(1) [OF t(2)] p(2)] by blast
  have new: "i \<notin> set visited" using snoc.prems by blast
  have pm: "pmap st i = Some (p, n)" using tree_invD(2) [OF t(2)] p(2) by blast
  have n: "component_ok n" using child_component_ok [OF t(1) p(2)] .
  have "findPathMetricsLoop st p (d + 1) (b + utf8_bytes n) (i # visited)
      = Inr \<lparr>depth = (d + 1) + int (length cs),
          bytes = 1 + ((b + utf8_bytes n) + names_bytes cs) + max 0 ((d + 1) + int (length cs) - 1)\<rparr>"
  proof (rule snoc.IH [OF p(1)])
    fix ds j
    assume ds: "prefix ds cs" "lookup st ds = Some j"
    have "j \<noteq> i"
    proof
      assume "j = i"
      with ds(2) lookup_unique [OF t(2) snoc.prems(1)] have "cs @ [n] = ds" by blast
      with ds(1) show False by (auto simp: prefix_def)
    qed
    with snoc.prems(2) [of ds j] ds show "j \<notin> set (i # visited)"
      by (auto simp: prefix_def)
  qed
  then show ?case
    using notroot new pm n
    by (subst findPathMetricsLoop.simps)
      (simp add: encodedUtf8Length_eq component_ok_utf8 names_bytes_def algebra_simps)
qed

lemma findPathMetrics_ok:
  assumes t: "table_inv st" "tree_inv st" and cs: "lookup st cs = Some i"
  shows "findPathMetrics st i = Inr \<lparr>depth = int (length cs), bytes = path_bytes cs\<rparr>"
  using findPathMetrics_loop [OF t cs, of "[]" 0 0]
  by (simp add: findPathMetrics_def path_bytes_names)

section \<open>The bounds of a moved subtree\<close>

lemma visitBounds_sound:
  assumes t: "table_inv st" "tree_inv st" and "visitBounds fuel st inode m = Inr ()"
    and "imap st i = Some inode" and "path (child_of st) i cs = Some j" and "1 \<le> depth m"
  shows "depth m + int (length cs) \<le> MAX_PATH_DEPTH
     \<and> bytes m + int (length cs) + names_bytes cs \<le> MAX_PATH_BYTES
     \<and> (\<forall>c\<in>set cs. component_ok c)"
  using assms(3-6)
proof (induction cs arbitrary: fuel inode m i)
  case Nil
  then show ?case by (cases fuel) (auto simp: names_bytes_def split: if_splits)
next
  case (Cons n cs)
  from Cons.prems(3) obtain k where k: "child_of st i n = Some k" "path (child_of st) k cs = Some j"
    by (auto split: option.splits)
  have n: "component_ok n" using child_component_ok [OF t(1) k(1)] .
  have mem: "(n, k) \<in> set (children inode)"
    using k(1) Cons.prems(2) by (auto simp: child_of_def dest: map_of_SomeD)
  obtain child where child: "imap st k = Some child" using child_in [OF t(2) k(1)] by blast
  let ?m = "\<lparr>depth = depth m + 1, bytes = bytes m + (if depth m = 0 then 0 else 1) + utf8_bytes n\<rparr>"
  obtain fuel' where fuel: "fuel = Suc fuel'" using Cons.prems(1) by (cases fuel) auto
  from Cons.prems(1) mem have "ebind (inodeById st k) (\<lambda>child.
       ebind (childPathMetrics m n) (\<lambda>childMetrics. visitBounds fuel' st child childMetrics)) = Inr ()"
    by (auto simp: fuel each_res_Inr split: if_splits)
  then have "visitBounds fuel' st child ?m = Inr ()"
    using child n by (simp add: inodeById_def childPathMetrics_ok)
  from Cons.IH [OF this child k(2)] Cons.prems(4) n show ?case
    by (auto simp: names_bytes_def)
qed

lemma visitBounds_fuel:
  "1 \<le> depth m \<Longrightarrow> 2 \<le> fuel \<Longrightarrow> MAX_PATH_DEPTH + 3 \<le> depth m + int fuel \<Longrightarrow>
     visitBounds fuel st inode m \<noteq> Inl StackOverflow"
proof (induction fuel arbitrary: inode m)
  case (Suc fuel)
  show ?case
  proof
    assume over: "visitBounds (Suc fuel) st inode m = Inl StackOverflow"
    then have deep: "\<not> depth m > MAX_PATH_DEPTH"
      and each: "each_res (\<lambda>(name, childId). ebind (inodeById st childId) (\<lambda>child.
             ebind (childPathMetrics m name) (\<lambda>childMetrics. visitBounds fuel st child childMetrics)))
             (children inode) = Inl StackOverflow"
      by (auto split: if_splits)
    then obtain n k where "ebind (inodeById st k) (\<lambda>child.
             ebind (childPathMetrics m n) (\<lambda>childMetrics. visitBounds fuel st child childMetrics))
             = Inl StackOverflow"
      by (auto dest!: each_res_Inl)
    then obtain child m' where visit: "visitBounds fuel st child m' = Inl StackOverflow"
      and m': "childPathMetrics m n = Inr m'"
      by (auto simp: ebind_eq_Inl inodeById_def childPathMetrics_def encodedUtf8Length_def
          utf8Length_eq split: option.splits if_splits)
    have "depth m' = depth m + 1" using m' by (auto simp: childPathMetrics_def ebind_eq_Inr)
    with Suc.prems deep have "visitBounds fuel st child m' \<noteq> Inl StackOverflow"
      by (intro Suc.IH) (auto simp: limit_defs)
    with visit show False by simp
  qed
qed simp

lemma renamedBounds_sound:
  assumes t: "table_inv st" "tree_inv st"
    and run: "validateRenamedSubtreeBounds st source dpd dn = Inr ()"
    and dpd: "lookup st pd = Some dp" "imap st dp = Some dpd" and dn: "component_ok dn"
    and pd: "\<forall>c\<in>set pd. component_ok c"
    and s: "imap st s = Some source" "path (child_of st) s b = Some j"
  shows "path_ok (pd @ dn # b)"
proof -
  let ?m = "\<lparr>depth = int (length pd) + 1,
     bytes = path_bytes pd + (if int (length pd) = 0 then 0 else 1) + utf8_bytes dn\<rparr>"
  have id: "inodeId dpd = dp" using inode_id [OF t(1) dpd(2)] .
  have "visitBounds boundsFuel st source ?m = Inr ()"
    using run findPathMetrics_ok [OF t dpd(1)] dn
    by (simp add: validateRenamedSubtreeBounds_def id childPathMetrics_ok)
  from visitBounds_sound [OF t this s] have
    "int (length pd) + 1 + int (length b) \<le> MAX_PATH_DEPTH"
    "path_bytes pd + (if int (length pd) = 0 then 0 else 1) + utf8_bytes dn
      + int (length b) + names_bytes b \<le> MAX_PATH_BYTES"
    "\<forall>c\<in>set b. component_ok c" by simp_all
  moreover have "path_bytes (pd @ dn # b) = path_bytes pd + (if int (length pd) = 0 then 0 else 1)
      + utf8_bytes dn + int (length b) + names_bytes b"
    by (cases pd) (simp_all add: path_bytes_def names_bytes_def sum_list_addf sum_list_triv)
  ultimately show ?thesis using pd dn by (auto simp: path_ok_def)
qed

section \<open>Renaming\<close>

lemma paths_okI:
  assumes "tree_inv st" and "\<And>i inode. imap st i = Some inode \<Longrightarrow> \<exists>cs. lookup st cs = Some i \<and> path_ok cs"
  shows "paths_ok st"
  unfolding paths_ok_def
proof (intro allI impI)
  fix cs i
  assume cs: "lookup st cs = Some i"
  then obtain inode where "imap st i = Some inode" using lookup_in [OF assms(1)] by blast
  then obtain ds where "lookup st ds = Some i" "path_ok ds" using assms(2) by blast
  with lookup_unique [OF assms(1) cs] show "path_ok cs" by simp
qed

lemma paths_ok_cong: "paths_ok st \<Longrightarrow> lookup st' = lookup st \<Longrightarrow> paths_ok st'"
  by (simp add: paths_ok_def)

lemma planRename_shape:
  assumes inv: "vfs_inv st" and plan: "planRename st old new now = Inr r"
  obtains ps sn pd dn sp dp s where "r = Rename sp sn dp dn now"
    and "old = render_path (ps @ [sn])" and "path_ok (ps @ [sn])" and "lookup st ps = Some sp"
    and "new = render_path (pd @ [dn])" and "path_ok (pd @ [dn])" and "lookup st pd = Some dp"
    and "accepted st r s" and "applyRename st sp sn dp dn now = Inr s"
    and "\<And>b i. lookup st (ps @ sn # b) = Some i \<Longrightarrow> path_ok (pd @ dn # b)"
proof -
  note v = vfs_invD [OF inv]
  from plan obtain spd sn dpd dn sourceId source dest where
    differ: "old \<noteq> new"
    and pn: "parentAndName st old = Inr (spd, sn)" "parentAndName st new = Inr (dpd, dn)"
    and src: "map_of (children spd) sn = Some sourceId" "imap st sourceId = Some source"
    and dest: "optionalInodeById st (map_of (children dpd) dn) = Inr dest"
    and types: "validateRenameTypes source dest = Inr ()"
    and inside: "(if isDirectory source
        then directoryContains (treeFuel st) st source (inodeId dpd) else Inr False) = Inr False"
    and bounds: "validateRenamedSubtreeBounds st source dpd dn = Inr ()"
    and now: "u64 now"
    and chk: "checkedPlan st (Rename (inodeId spd) sn (inodeId dpd) dn now) = Inr r"
    unfolding planRename_def
    by (simp only: ebind_eq_Inr if_Inl_eq_Inr option_Inl_eq_Inr split_paired_Ex prod.case
        validateTimestamp_Inr inodeById_Inr) (elim exE conjE, rule that, (assumption | simp)+)
  from parentAndName_Inr [OF v(1), THEN iffD1, OF pn(1)] obtain ps sp where
    ps: "path_ok (ps @ [sn])" "old = render_path (ps @ [sn])" "lookup st ps = Some sp"
    and spd: "imap st sp = Some spd" "isDirectory spd" by auto
  from parentAndName_Inr [OF v(1), THEN iffD1, OF pn(2)] obtain pd dp where
    pd: "path_ok (pd @ [dn])" "new = render_path (pd @ [dn])" "lookup st pd = Some dp"
    and dpd: "imap st dp = Some dpd" "isDirectory dpd" by auto
  have id: "inodeId spd = sp" "inodeId dpd = dp"
    using inode_id [OF v(1)] spd(1) dpd(1) by auto
  have names: "component_ok sn" "component_ok dn" "\<forall>c\<in>set pd. component_ok c"
    using ps(1) pd(1) by (auto simp: path_ok_def)
  have neq: "\<not> (sp = dp \<and> sn = dn)"
  proof
    assume "sp = dp \<and> sn = dn"
    with lookup_unique [OF v(2) ps(3)] pd(3) have "ps @ [sn] = pd @ [dn]" by simp
    with ps(2) pd(2) differ show False by simp
  qed
  have own: "checkOwnedBy st (inodeId d) (fileExtents d) = Inr ()" if "dest = Some d" for d
  proof -
    from dest that obtain k where k: "imap st k = Some d" 
      by (auto simp: optionalInodeById_Inr split: option.splits)
    have id: "inodeId d = k" using inode_id [OF v(1) k] .
    have "map_of (ownedBy (allocator st)) e = Some k \<and> map_of (quarantine (allocator st)) e = None"
      if "e \<in> set (fileExtents d)" for e
    proof -
      have "e \<in> set (file_extents st k)" using that k by (simp add: file_extents_def)
      then have "map_of (ownedBy (allocator st)) e = Some k" using alloc_invD(4) [OF v(3)] by simp
      then show ?thesis using alloc_invD(7) [OF v(3), of e] by simp
    qed
    then show ?thesis by (simp add: checkOwnedBy_Inr id)
  qed
  have "(case dest of None \<Rightarrow> Inr () | Some d \<Rightarrow> checkOwnedBy st (inodeId d) (fileExtents d))
      = Inr ()" using own by (cases dest) simp_all
  moreover have "validatePathComponent sn = Inr (utf8_bytes sn)"
      "validatePathComponent dn = Inr (utf8_bytes dn)" "validateTimestamp now = Inr now"
      "directoryById st sp = Inr spd" "directoryById st dp = Inr dpd" "inodeById st sourceId = Inr source"
    using names now spd dpd src by (simp_all add: res_simps)
  ultimately have "\<exists>s. applyRename st sp sn dp dn now = Inr s"
    unfolding applyRename_def using neq src(1) dest types inside bounds
    by (simp del: if_split add: id)
  then obtain s where s: "applyRename st sp sn dp dn now = Inr s" by blast
  then have "reduceTxn st (Rename sp sn dp dn now) = (None, s)"
    by (simp add: reduceTxn_def liftReducer_def)
  with chk have acc: "accepted st (Rename sp sn dp dn now) s" by (intro acceptedI) (simp_all add: id)
  have r: "r = Rename sp sn dp dn now" using chk by (simp add: checkedPlan_Inr id)
  have "path_ok (pd @ dn # b)" if "lookup st (ps @ sn # b) = Some i" for b i
  proof (rule renamedBounds_sound [OF v(1,2) bounds pd(3) dpd(1) names(2,3) src(2)])
    show "path (child_of st) sourceId b = Some i"
      using that ps(3) spd(1) src(1) by (simp add: lookup_def path_append child_of_def)
  qed
  with r acc ps pd s show thesis by (intro that) simp_all
qed

section \<open>Making directories\<close>

text \<open>The entries that \<open>planMkdir\<close> makes for the missing tail of a path.\<close>

fun mkChain :: "int \<Rightarrow> int \<Rightarrow> int \<Rightarrow> int \<Rightarrow> js_string list \<Rightarrow> CreateDirectoryChoice list" where
  "mkChain mode now p k [] = []"
| "mkChain mode now p k (n # ns) =
     \<lparr>choiceParentId = p, choiceName = n, choiceInodeId = k, choiceMode = mode, choiceAtimeMs = now,
      choiceMtimeMs = now, choiceCtimeMs = now\<rparr> # mkChain mode now k (k + 1) ns"

lemma mkChain_length [simp]: "length (mkChain mode now p k ns) = length ns"
  by (induction ns arbitrary: p k) simp_all

lemma mkdirLoop_fresh:
  assumes "mkdirLoop st recursive mode now parent k entries ns = Inr result"
    and "ns \<noteq> [] \<longrightarrow> map_of (children parent) (hd ns) = None" and "0 \<le> k"
  shows "result = entries @ mkChain mode now (inodeId parent) k ns
     \<and> (ns \<noteq> [] \<longrightarrow> k + int (length ns) \<le> MAX_U64
          \<and> int (length (inodes st)) + int (length entries) + int (length ns) \<le> MAX_INODES
          \<and> (recursive \<or> length ns = 1))"
  using assms
proof (induction ns arbitrary: parent k entries)
  case (Cons n ns)
  let ?entry = "\<lparr>choiceParentId = inodeId parent, choiceName = n, choiceInodeId = k,
      choiceMode = mode, choiceAtimeMs = now, choiceMtimeMs = now, choiceCtimeMs = now\<rparr>"
  let ?created = "\<lparr>inodeId = k, imode = mode, atimeMs = now, mtimeMs = now, ctimeMs = now,
      body = Directory []\<rparr>"
  from Cons.prems have rec: "recursive \<or> ns = []"
    and room: "int (length (inodes st)) + int (length entries) < MAX_INODES"
    and nx: "k \<noteq> MAX_U64" "u64 (k + 1)"
    and rest: "mkdirLoop st recursive mode now ?created (k + 1) (entries @ [?entry]) ns = Inr result"
    by (auto simp: res_simps Let_def split: if_splits)
  have "ns \<noteq> [] \<longrightarrow> map_of (children ?created) (hd ns) = None" by (simp add: children_def)
  from Cons.IH [OF rest this] Cons.prems(3) rec room nx show ?case
    by (auto simp: u64_def)
qed simp

text \<open>The walk through the part of the path that exists.\<close>

lemma mkdirLoop_shape:
  assumes "mkdirLoop st recursive mode now parent k [] comps = Inr result"
    and "imap st i = Some parent" and "0 \<le> k" and "comps \<noteq> []"
    and ids: "\<And>i inode. imap st i = Some inode \<Longrightarrow> inodeId inode = i"
  shows "\<exists>pre post p d. comps = pre @ post \<and> post \<noteq> [] \<and> path (child_of st) i pre = Some p
     \<and> imap st p = Some d \<and> (pre \<noteq> [] \<longrightarrow> isDirectory d) \<and> map_of (children d) (hd post) = None
     \<and> result = mkChain mode now p k post \<and> k + int (length post) \<le> MAX_U64
     \<and> int (length (inodes st)) + int (length post) \<le> MAX_INODES
     \<and> (recursive \<or> length post = 1)"
  using assms(1,2,4)
proof (induction comps arbitrary: parent i)
  case (Cons n ns)
  show ?case
  proof (cases "map_of (children parent) n")
    case None
    from mkdirLoop_fresh [OF Cons.prems(1) _ assms(3)] None ids [OF Cons.prems(2)]
    have "result = mkChain mode now i k (n # ns) \<and> k + int (length (n # ns)) \<le> MAX_U64
        \<and> int (length (inodes st)) + int (length (n # ns)) \<le> MAX_INODES
        \<and> (recursive \<or> length (n # ns) = 1)"
      by simp
    with None Cons.prems(2) show ?thesis
      by (intro exI [of _ "[]"] exI [of _ "n # ns"] exI [of _ i] exI [of _ parent]) simp
  next
    case (Some j)
    with Cons.prems(1) obtain existing where e: "imap st j = Some existing" "isDirectory existing"
      and ne: "ns \<noteq> []"
      and rest: "mkdirLoop st recursive mode now existing k [] ns = Inr result"
      by (auto split: option.splits if_splits)
    from Cons.IH [OF rest e(1) ne] obtain pre post p d where
      *: "ns = pre @ post" "post \<noteq> []" "path (child_of st) j pre = Some p" "imap st p = Some d"
      "pre \<noteq> [] \<longrightarrow> isDirectory d" "map_of (children d) (hd post) = None"
      "result = mkChain mode now p k post" "k + int (length post) \<le> MAX_U64"
      "int (length (inodes st)) + int (length post) \<le> MAX_INODES"
      "recursive \<or> length post = 1" by blast
    have "isDirectory d" using *(3-5) e by (cases pre) auto
    moreover have "path (child_of st) i (n # pre) = Some p"
      using Some Cons.prems(2) *(3) by (simp add: child_of_def)
    ultimately show ?thesis
      using * by (intro exI [of _ "n # pre"] exI [of _ post] exI [of _ p] exI [of _ d]) simp
  qed
qed simp

lemma validateDirectoryEntry_ok:
  assumes "component_ok (choiceName e)" and "mode_ok (choiceMode e)" and "u64 (choiceAtimeMs e)"
    and "u64 (choiceMtimeMs e)" and "u64 (choiceCtimeMs e)" and id: "choiceInodeId e = k"
    and "0 \<le> k" and "k + 1 \<le> MAX_U64"
    and pid: "choiceParentId e = p"
    and par: "(case map_of staged p of Some d \<Rightarrow> Inr d | None \<Rightarrow> directoryById st p) = Inr d"
    and free: "map_of (children d) (choiceName e) = None"
  shows "validateDirectoryEntry st e (staged, k) = Inr (AList.update k (entryInode e)
     (AList.update p (d\<lparr>body := Directory (AList.update (choiceName e) k (children d))\<rparr>)
        staged), k + 1)"
proof -
  have checks: "validatePathComponent (choiceName e) = Inr (utf8_bytes (choiceName e))"
      "validateMode (choiceMode e) = Inr (choiceMode e)"
      "validateTimestamp (choiceAtimeMs e) = Inr (choiceAtimeMs e)"
      "validateTimestamp (choiceMtimeMs e) = Inr (choiceMtimeMs e)"
      "validateTimestamp (choiceCtimeMs e) = Inr (choiceCtimeMs e)"
      "advanceNextInodeId k = Inr (k + 1)" "\<not> k > MAX_U64"
    using assms by (auto simp: res_simps u64_def)
  then show ?thesis
    unfolding validateDirectoryEntry_def prod.case
    by (simp only: ebind_simps pid par free id entryInode_def) simp
qed

lemma mkChain_valid:
  assumes "(case map_of staged p of Some d \<Rightarrow> Inr d | None \<Rightarrow> directoryById st p) = Inr d"
    and "ns \<noteq> [] \<longrightarrow> map_of (children d) (hd ns) = None"
    and "\<forall>n\<in>set ns. component_ok n" and "mode_ok mode" and "u64 now"
    and "0 \<le> k" and "k + int (length ns) \<le> MAX_U64"
  shows "\<exists>r. fold_res (validateDirectoryEntry st) (mkChain mode now p k ns) (staged, k) = Inr r"
  using assms
proof (induction ns arbitrary: staged p k d)
  case (Cons n ns)
  let ?entry = "\<lparr>choiceParentId = p, choiceName = n, choiceInodeId = k,
      choiceMode = mode, choiceAtimeMs = now, choiceMtimeMs = now, choiceCtimeMs = now\<rparr>"
  let ?created = "\<lparr>inodeId = k, imode = mode, atimeMs = now, mtimeMs = now, ctimeMs = now,
      body = Directory []\<rparr>"
  let ?staged = "AList.update k ?created (AList.update p
      (d\<lparr>body := Directory (AList.update n k (children d))\<rparr>) staged)"
  have "validateDirectoryEntry st ?entry (staged, k) = Inr (?staged, k + 1)"
    by (rule validateDirectoryEntry_ok [of ?entry k p st staged d, simplified entryInode_def, simplified])
      (use Cons.prems in simp_all)
  moreover have "\<exists>r. fold_res (validateDirectoryEntry st) (mkChain mode now k (k + 1) ns)
      (?staged, k + 1) = Inr r"
    by (rule Cons.IH [where d = ?created]) (use Cons.prems in \<open>simp_all add: children_def\<close>)
  ultimately show ?case by simp
qed simp

lemma planMkdir_shape:
  assumes inv: "vfs_inv st" and plan: "planMkdir st p recursive modeOption now = Inr r"
  obtains pre post i mode s where "p = render_path (pre @ post)" and "path_ok (pre @ post)"
    and "post \<noteq> []" and "lookup st pre = Some i" and "child_of st i (hd post) = None"
    and "r = CreateDirectories (mkChain mode now i (nextInodeId st) post)"
    and "recursive \<or> length post = 1"
    and "accepted st r s"
    and "entries_done st (mkChain mode now i (nextInodeId st) post) s"
proof -
  note v = vfs_invD [OF inv]
  obtain root where root: "imap st (rootInodeId st) = Some root" "isDirectory root"
    using table_invD(4) [OF v(1)] by blast
  define mode where "mode = (case modeOption of None \<Rightarrow> 16895 | Some m \<Rightarrow> m)"
  from plan root obtain comps entries where comps: "path_ok comps" "p = render_path comps" "comps \<noteq> []"
    and mode: "mode_ok mode" and now: "u64 now"
    and loop: "mkdirLoop st recursive mode now root (nextInodeId st) [] comps = Inr entries"
    and chk: "checkedPlan st (CreateDirectories entries) = Inr r"
    unfolding planMkdir_def mode_def by (auto simp: res_simps split: if_splits)
  have nonneg: "0 \<le> nextInodeId st" using table_invD(6) [OF v(1)] by (simp add: u64_def)
  from mkdirLoop_shape [OF loop root(1) nonneg comps(3) inode_id [OF v(1)]] obtain pre post i d where
    split: "comps = pre @ post" "post \<noteq> []" and i: "path (child_of st) (rootInodeId st) pre = Some i"
    and d: "imap st i = Some d" "pre \<noteq> [] \<longrightarrow> isDirectory d" "map_of (children d) (hd post) = None"
    and entries: "entries = mkChain mode now i (nextInodeId st) post"
    and bound: "nextInodeId st + int (length post) \<le> MAX_U64"
      "int (length (inodes st)) + int (length post) \<le> MAX_INODES" "recursive \<or> length post = 1"
    by blast
  have dir: "isDirectory d" using d i root by (cases pre) auto
  have "\<forall>n\<in>set post. component_ok n" using comps(1) split by (simp add: path_ok_def)
  from mkChain_valid [of st i "[]" d post mode now "nextInodeId st"] this d dir mode now nonneg bound
  obtain x where "fold_res (validateDirectoryEntry st) entries ([], nextInodeId st) = Inr x"
    by (auto simp: directoryById_def entries)
  then have valid: "validateCreateDirectories st entries = Inr ()"
    using bound split(2) mkChain_length [of mode now i "nextInodeId st" post]
    by (cases post) (simp_all add: validateCreateDirectories_def entries)
  have core: "core_inv st" using inv by (simp add: vfs_inv_core)
  from createDirectories_ok [OF core valid] obtain s where
    run: "applyDirectoryEntries entries st = (None, s)" and ed: "entries_done st entries s" by blast
  then have "reduceTxn st (CreateDirectories entries) = (None, s)"
    using valid by (simp add: reduceTxn_def)
  with chk have acc: "accepted st (CreateDirectories entries) s" by (rule acceptedI)
  have r: "r = CreateDirectories entries" using chk by (simp add: checkedPlan_Inr)
  show thesis
    by (rule that [of pre post i mode s])
      (use comps split i d acc ed bound r in \<open>simp_all add: entries lookup_def child_of_def\<close>)
qed

text \<open>The chain of entries is the path: after the entries are created, its ids are found in order.\<close>

lemma mkChain_path:
  assumes "\<forall>e\<in>set (mkChain mode now p k ns).
      ch (choiceParentId e) (choiceName e) = Some (choiceInodeId e)" and "j < length ns"
  shows "path ch p (take (Suc j) ns) = Some (k + int j)"
  using assms
proof (induction ns arbitrary: p k j)
  case (Cons n ns)
  show ?case
  proof (cases j)
    case 0
    with Cons.prems show ?thesis by simp
  next
    case (Suc j')
    have "path ch k (take (Suc j') ns) = Some ((k + 1) + int j')"
      by (rule Cons.IH) (use Cons.prems Suc in simp_all)
    with Cons.prems Suc show ?thesis by simp
  qed
qed simp

lemma mkChain_ids: "choiceInodeId ` set (mkChain mode now p k ns) = {k..<k + int (length ns)}"
proof (induction ns arbitrary: p k)
  case (Cons n ns)
  have "insert k {k + 1..<k + 1 + int (length ns)} = {k..<k + int (length (n # ns))}" by auto
  then show ?case by (simp only: mkChain.simps list.simps(15) image_insert Cons.IH) simp
qed simp

lemma path_mono:
  assumes "\<And>p n c. ch p n = Some c \<Longrightarrow> ch' p n = Some c"
  shows "path ch i cs = Some j \<Longrightarrow> path ch' i cs = Some j"
  using assms by (induction cs arbitrary: i) (auto split: option.splits)

lemma entries_done_lookup:
  assumes "entries_done st entries s"
  shows "lookup st cs = Some i \<Longrightarrow> lookup s cs = Some i"
proof -
  have "child_of s p n = Some c" if "child_of st p n = Some c" for p n c
    using that assms by (simp add: entries_done_def)
  moreover have "rootInodeId s = rootInodeId st" using assms by (simp add: entries_done_def)
  ultimately show "lookup st cs = Some i \<Longrightarrow> lookup s cs = Some i"
    using path_mono [of "child_of st" "child_of s"] by (simp add: lookup_def)
qed

lemma mkdir_lookup:
  assumes ed: "entries_done st (mkChain mode now i k post) s" and pre: "lookup st pre = Some i"
    and j: "j < length post"
  shows "lookup s (pre @ take (Suc j) post) = Some (k + int j)"
proof -
  have "path (child_of s) i (take (Suc j) post) = Some (k + int j)"
    by (rule mkChain_path [where mode = mode and now = now, OF _ j])
      (use ed in \<open>simp add: entries_done_def\<close>)
  moreover have "lookup s pre = Some i" using entries_done_lookup [OF ed pre] .
  ultimately show ?thesis by (simp add: lookup_def path_append)
qed

lemma path_ok_prefix: "path_ok (cs @ ds) \<Longrightarrow> path_ok cs"
proof -
  assume ok: "path_ok (cs @ ds)"
  have "names_bytes (cs @ ds) = names_bytes cs + names_bytes ds" by (simp add: names_bytes_def)
  moreover have "0 \<le> names_bytes ds"
    unfolding names_bytes_def by (rule sum_list_nonneg) auto
  ultimately have "path_bytes cs \<le> path_bytes (cs @ ds)" by (simp add: path_bytes_names)
  with ok show "path_ok cs" by (simp add: path_ok_def)
qed

lemma mkdir_paths_ok:
  assumes inv: "vfs_inv st" and ok: "paths_ok st"
    and ed: "entries_done st (mkChain mode now i k post) s" and pre: "lookup st pre = Some i"
    and path: "path_ok (pre @ post)"
  shows "paths_ok s"
proof (rule paths_okI)
  show "tree_inv s" using ed by (simp add: entries_done_def core_inv_def)
  fix x inode
  assume x: "imap s x = Some inode"
  then have "imap st x \<noteq> None \<or> x \<in> choiceInodeId ` set (mkChain mode now i k post)"
    using ed unfolding entries_done_def by blast
  then show "\<exists>cs. lookup s cs = Some x \<and> path_ok cs"
  proof
    assume "imap st x \<noteq> None"
    then obtain y where "imap st x = Some y" by blast
    then obtain cs where "lookup st cs = Some x" using lookup_reaches [OF vfs_invD(2) [OF inv]] by blast
    with ok entries_done_lookup [OF ed] show ?thesis by (auto simp: paths_ok_def)
  next
    assume "x \<in> choiceInodeId ` set (mkChain mode now i k post)"
    then have range: "k \<le> x" "x < k + int (length post)" by (simp_all add: mkChain_ids)
    then have "lookup s (pre @ take (Suc (nat (x - k))) post) = Some x"
      using mkdir_lookup [OF ed pre, of "nat (x - k)"] by simp
    moreover have "path_ok (pre @ take (Suc (nat (x - k))) post)"
      using path path_ok_prefix [of "pre @ take (Suc (nat (x - k))) post" "drop (Suc (nat (x - k))) post"]
      by simp
    ultimately show ?thesis by blast
  qed
qed

end
