(* ===== verification/ValidateProofs.thy ===== *)
theory ValidateProofs
  imports PlansTree
begin

text \<open>
  \<open>validateState\<close> decides the invariant: on a state whose maps and extent set are well formed as
  JavaScript objects it returns exactly for the states that satisfy the declarative invariant and
  whose paths are within the limits.
\<close>

section \<open>Classification of extents\<close>

definition trues :: "Visit \<Rightarrow> int set" where
  "trues v = {e. 0 \<le> e \<and> e < int (length (classified v)) \<and> classified v ! nat e}"

definition mark :: "int list \<Rightarrow> Visit \<Rightarrow> Visit" where
  "mark es v = v\<lparr>classified := fold (\<lambda>e bs. bs[nat e := True]) es (classified v),
     classifiedCount := classifiedCount v + int (length es)\<rparr>"

lemma mark_simps [simp]:
  "reached (mark es v) = reached v" "calculatedBytes (mark es v) = calculatedBytes v"
  "length (classified (mark es v)) = length (classified v)"
  "classifiedCount (mark es v) = classifiedCount v + int (length es)"
proof -
  have "length (fold (\<lambda>e bs. bs[nat e := True]) es bs) = length bs" for bs :: "bool list"
    by (induction es arbitrary: bs) simp_all
  then show "length (classified (mark es v)) = length (classified v)" by (simp add: mark_def)
qed (simp_all add: mark_def)

lemma mark_Nil [simp]: "mark [] v = v"
  by (simp add: mark_def)

lemma mark_Cons: "mark (e # es) v = mark es (mark [e] v)"
  by (simp add: mark_def)

lemma classify_Inr:
  "classify e v = Inr v' \<longleftrightarrow> 0 \<le> e \<and> e < int (length (classified v)) \<and> e \<notin> trues v \<and> v' = mark [e] v"
  by (auto simp: classify_def trues_def mark_def)

lemma trues_mark1:
  assumes "0 \<le> e" and "e < int (length (classified v))"
  shows "trues (mark [e] v) = insert e (trues v)"
  using assms by (auto simp: trues_def mark_def nth_list_update split: if_splits)

lemma trues_finite [simp]: "finite (trues v)"
  by (rule finite_subset [of _ "{0..<int (length (classified v))}"]) (auto simp: trues_def)

text \<open>A loop that classifies extents in order, each under a further condition.\<close>

lemma classify_all:
  assumes step: "\<And>e v v'. f e v = Inr v' \<longleftrightarrow> classify (g e) v = Inr v' \<and> P e"
  shows "fold_res f es v = Inr v' \<longleftrightarrow> distinct (map g es)
     \<and> (\<forall>e\<in>set es. 0 \<le> g e \<and> g e < int (length (classified v)) \<and> g e \<notin> trues v \<and> P e)
     \<and> v' = mark (map g es) v"
proof (induction es arbitrary: v)
  case (Cons e es)
  have "fold_res f (e # es) v = Inr v' \<longleftrightarrow> 0 \<le> g e \<and> g e < int (length (classified v))
      \<and> g e \<notin> trues v \<and> P e \<and> fold_res f es (mark [g e] v) = Inr v'"
    by (auto simp: ebind_eq_Inr step classify_Inr)
  then show ?case
    unfolding Cons.IH using mark_Cons [of "g e" "map g es" v]
    by (auto simp: trues_mark1 image_iff)
qed auto

lemma trues_mark:
  "\<forall>e\<in>set es. 0 \<le> e \<and> e < int (length (classified v)) \<Longrightarrow> trues (mark es v) = trues v \<union> set es"
proof (induction es arbitrary: v)
  case (Cons e es)
  then show ?case by (subst mark_Cons) (simp add: trues_mark1)
qed simp

lemma classifyOwned_all:
  "fold_res (classifyOwned st inode) es v = Inr v' \<longleftrightarrow> distinct es
     \<and> (\<forall>e\<in>set es. 0 \<le> e \<and> e < int (length (classified v)) \<and> e \<notin> trues v
          \<and> map_of (ownedBy (allocator st)) e = Some (inodeId inode))
     \<and> v' = mark es v"
proof -
  have "classifyOwned st inode e v = Inr v' \<longleftrightarrow> classify e v = Inr v'
      \<and> map_of (ownedBy (allocator st)) e = Some (inodeId inode)" for e v v'
    unfolding classifyOwned_def ebind_eq_Inr if_Inl_eq_Inr by auto
  from classify_all [of "classifyOwned st inode" "\<lambda>e. e", OF this] show ?thesis by simp
qed

lemma classifyAvailable_all:
  "fold_res classify es v = Inr v' \<longleftrightarrow> distinct es
     \<and> (\<forall>e\<in>set es. 0 \<le> e \<and> e < int (length (classified v)) \<and> e \<notin> trues v) \<and> v' = mark es v"
  using classify_all [of classify "\<lambda>e. e" "\<lambda>_. True" es v v'] by simp

lemma classifyQuarantined_all:
  "fold_res (classifyQuarantined st) es v = Inr v' \<longleftrightarrow> distinct (keys_of es)
     \<and> (\<forall>(e, g)\<in>set es. 0 \<le> e \<and> e < int (length (classified v)) \<and> e \<notin> trues v
          \<and> (g = None \<or> g = Some (generation st))) \<and> v' = mark (keys_of es) v"
proof -
  have "classifyQuarantined st p v = Inr v' \<longleftrightarrow> classify (fst p) v = Inr v'
      \<and> (snd p = None \<or> snd p = Some (generation st))" for p v v'
    unfolding classifyQuarantined_def case_prod_beta ebind_eq_Inr if_Inl_eq_Inr by auto
  from classify_all [of "classifyQuarantined st" fst, OF this]
  show ?thesis by (simp add: case_prod_beta)
qed

section \<open>Representation\<close>

text \<open>What holds of the objects by construction, and no check of the source looks at.\<close>

definition rep_inv :: "VfsState \<Rightarrow> bool" where
  "rep_inv st \<longleftrightarrow> wf_map (inodes st) \<and> wf_map (parentByInode st)
     \<and> (\<forall>i inode. imap st i = Some inode \<longrightarrow> wf_map (children inode))
     \<and> wf_map (ownedBy (allocator st)) \<and> wf_map (quarantine (allocator st))
     \<and> extents_inv (available (allocator st))"

lemma vfs_inv_rep: "vfs_inv st \<Longrightarrow> rep_inv st"
  unfolding rep_inv_def
proof (intro conjI allI impI)
  assume inv: "vfs_inv st"
  note v = vfs_invD [OF inv]
  show "wf_map (inodes st)" "wf_map (parentByInode st)" by (rule table_invD [OF v(1)])+
  show "wf_map (ownedBy (allocator st))" "wf_map (quarantine (allocator st))"
    "extents_inv (available (allocator st))" by (rule alloc_invD [OF v(3)])+
  show "wf_map (children inode)" if "imap st i = Some inode" for i inode
  proof (cases "isDirectory inode")
    case True
    have "body_ok (extentSize st) (body inode)" using table_invD(3) [OF v(1) that] by (rule inode_okD)
    with True show ?thesis by (simp add: directory_body_ok)
  qed (simp add: not_directory_children)
qed

section \<open>What a visit establishes of one inode\<close>

definition node_ok :: "VfsState \<Rightarrow> int \<Rightarrow> int \<Rightarrow> Inode \<Rightarrow> bool" where
  "node_ok st limit k inode \<longleftrightarrow> inode_ok (extentSize st) (nextInodeId st) k inode
     \<and> (\<forall>n c. child_of st k n = Some c \<longrightarrow> pmap st c = Some (k, n) \<and> imap st c \<noteq> None)
     \<and> distinct (fileExtents inode)
     \<and> (\<forall>e\<in>set (fileExtents inode). 0 \<le> e \<and> e < limit \<and> map_of (ownedBy (allocator st)) e = Some k)"

lemma enterInode_Inr:
  "enterInode st k inode v = Inr v' \<longleftrightarrow> u64 k \<and> inodeId inode = k \<and> k < nextInodeId st
     \<and> k \<notin> set (reached v) \<and> mode_ok (imode inode) \<and> u64 (atimeMs inode) \<and> u64 (mtimeMs inode)
     \<and> u64 (ctimeMs inode) \<and> v' = v\<lparr>reached := reached v @ [k]\<rparr>"
  unfolding enterInode_def by (auto simp: res_simps split: if_splits)

lemma addBytes_simps [simp]:
  "reached (addBytes n v) = reached v" "classified (addBytes n v) = classified v"
  "classifiedCount (addBytes n v) = classifiedCount v"
  "calculatedBytes (addBytes n v) = calculatedBytes v + n" "trues (addBytes n v) = trues v"
  by (simp_all add: addBytes_def trues_def)

lemma trues_reached [simp]: "trues (v\<lparr>reached := r\<rparr>) = trues v"
  by (simp add: trues_def)

text \<open>The part of \<open>visit\<close> that handles one directory entry.\<close>

definition visitEntry ::
  "nat \<Rightarrow> VfsState \<Rightarrow> Inode \<Rightarrow> PathMetrics \<Rightarrow> js_string \<times> int \<Rightarrow> Visit \<Rightarrow> Visit res"
where
  "visitEntry fuel st inode m = (\<lambda>(name, childId) v2. ebind (validatePathComponent name) (\<lambda>nameBytes.
                if map_of (parentByInode st) childId \<noteq> Some (inodeId inode, name)
                then Inl StoreLimitError
                else
                  let childMetrics = \<lparr>depth = depth m + 1,
                        bytes = bytes m + (if depth m = 0 then 0 else 1) + nameBytes\<rparr> in
                  if depth childMetrics > MAX_PATH_DEPTH then Inl StoreLimitError
                  else if bytes childMetrics > MAX_PATH_BYTES then Inl StoreLimitError
                  else
                    case map_of (inodes st) childId of
                      None \<Rightarrow> Inl StoreLimitError
                    | Some child \<Rightarrow>
                        visit fuel st childId child childMetrics
                          (addBytes (CHILD_FIXED_BYTES + nameBytes) v2)))"

lemma visitEntry_Inr:
  "visitEntry fuel st inode m (n, c) v = Inr v' \<longleftrightarrow> component_ok n \<and> pmap st c = Some (inodeId inode, n)
     \<and> depth m + 1 \<le> MAX_PATH_DEPTH
     \<and> bytes m + (if depth m = 0 then 0 else 1) + utf8_bytes n \<le> MAX_PATH_BYTES
     \<and> (\<exists>child. imap st c = Some child
          \<and> visit fuel st c child \<lparr>depth = depth m + 1,
              bytes = bytes m + (if depth m = 0 then 0 else 1) + utf8_bytes n\<rparr>
              (addBytes (child_bytes n) v) = Inr v')"
  unfolding visitEntry_def prod.case ebind_eq_Inr if_Inl_eq_Inr option_Inl_eq_Inr Let_def
    validatePathComponent_Inr
  by (auto simp: not_less)

lemma visit_Directory:
  assumes "body inode = Directory es"
  shows "visit (Suc fuel) st k inode m v = Inr v' \<longleftrightarrow>
     (\<exists>v1. enterInode st k inode v = Inr v1
        \<and> fold_res (visitEntry fuel st inode m) es (addBytes DIRECTORY_INODE_FIXED_BYTES v1) = Inr v')"
  using assms by (simp add: ebind_eq_Inr visitEntry_def)

lemma visit_Symlink:
  assumes "body inode = Symlink t"
  shows "visit (Suc fuel) st k inode m v = Inr v' \<longleftrightarrow>
     (\<exists>v1. enterInode st k inode v = Inr v1 \<and> symlink_target_ok t
        \<and> v' = addBytes (SYMLINK_INODE_FIXED_BYTES + utf8_bytes t) v1)"
proof (cases "validateSymlinkTarget t")
  case (Inl e)
  then have "\<not> symlink_target_ok t" using validateSymlinkTarget_Inr [of t "utf8_bytes t"] by auto
  with Inl assms show ?thesis by (simp add: ebind_eq_Inr)
next
  case (Inr b)
  then have "symlink_target_ok t \<and> b = utf8_bytes t" by (simp add: validateSymlinkTarget_Inr)
  with Inr assms show ?thesis by (auto simp: ebind_eq_Inr)
qed

lemma visit_File:
  assumes "body inode = File fsize xs"
  shows "visit (Suc fuel) st k inode m v = Inr v' \<longleftrightarrow>
     (\<exists>v1. enterInode st k inode v = Inr v1
        \<and> extentCountForSize fsize (extentSize st) = Inr (int (length xs))
        \<and> fold_res (classifyOwned st inode) xs
            (addBytes (FILE_INODE_FIXED_BYTES + int (length xs) * 8) v1) = Inr v')"
  using assms by (auto simp: ebind_eq_Inr split: if_splits)

declare visit.simps(2) [simp del]

section \<open>Soundness of a visit\<close>

text \<open>What the accumulators say after a visit that has entered the inodes \<open>xs\<close>.\<close>

definition visited :: "VfsState \<Rightarrow> Visit \<Rightarrow> Visit \<Rightarrow> int list \<Rightarrow> bool" where
  "visited st v v' xs \<longleftrightarrow> reached v' = reached v @ xs
     \<and> length (classified v') = length (classified v)
     \<and> (\<forall>j\<in>set xs. \<exists>inode. imap st j = Some inode
          \<and> node_ok st (int (length (classified v))) j inode)
     \<and> trues v' = trues v \<union> (\<Union>j\<in>set xs. set (file_extents st j))
     \<and> classifiedCount v' - int (card (trues v')) = classifiedCount v - int (card (trues v))
     \<and> (distinct (reached v) \<longrightarrow> distinct (reached v'))"

definition nodes_bytes :: "VfsState \<Rightarrow> int list \<Rightarrow> int" where
  "nodes_bytes st xs = (\<Sum>j\<leftarrow>xs. inode_bytes (the (imap st j)))"

lemma visited_refl: "visited st v v []"
  by (simp add: visited_def)

lemma visited_trans:
  "visited st v v1 xs \<Longrightarrow> visited st v1 v2 ys \<Longrightarrow> visited st v v2 (xs @ ys)"
  by (auto simp: visited_def)

lemma visited_addBytes:
  "visited st (addBytes n v) v' xs \<longleftrightarrow> visited st v v' xs"
  by (simp add: visited_def)

lemma nodes_bytes_append: "nodes_bytes st (xs @ ys) = nodes_bytes st xs + nodes_bytes st ys"
  by (simp add: nodes_bytes_def)

text \<open>The metrics of a path below a directory with metrics \<open>m\<close>.\<close>

definition stepMetrics :: "PathMetrics \<Rightarrow> js_string \<Rightarrow> PathMetrics" where
  "stepMetrics m n = \<lparr>depth = depth m + 1,
     bytes = bytes m + (if depth m = 0 then 0 else 1) + utf8_bytes n\<rparr>"

definition within :: "PathMetrics \<Rightarrow> bool" where
  "within m \<longleftrightarrow> depth m \<le> MAX_PATH_DEPTH \<and> bytes m \<le> MAX_PATH_BYTES"

lemma root_metrics: "foldl stepMetrics \<lparr>depth = 0, bytes = 1\<rparr> cs = \<lparr>depth = int (length cs), bytes = path_bytes cs\<rparr>"
proof (induction cs rule: rev_induct)
  case Nil
  show ?case by (simp add: path_bytes_def)
next
  case (snoc n cs)
  then show ?case by (simp add: stepMetrics_def path_bytes_snoc)
qed

definition subtree_in :: "VfsState \<Rightarrow> int \<Rightarrow> PathMetrics \<Rightarrow> int set \<Rightarrow> bool" where
  "subtree_in st k m X \<longleftrightarrow> (\<forall>cs j. path (child_of st) k cs = Some j \<longrightarrow>
     j \<in> X \<and> within (foldl stepMetrics m cs))"

lemma subtree_in_mono: "subtree_in st k m X \<Longrightarrow> X \<subseteq> Y \<Longrightarrow> subtree_in st k m Y"
  by (auto simp: subtree_in_def)

lemma subtree_in_node:
  assumes "k \<in> X" and "within m"
    and "\<And>n c. child_of st k n = Some c \<Longrightarrow> subtree_in st c (stepMetrics m n) X"
  shows "subtree_in st k m X"
  unfolding subtree_in_def
proof (intro allI impI)
  fix cs j
  assume "path (child_of st) k cs = Some j"
  then show "j \<in> X \<and> within (foldl stepMetrics m cs)"
    using assms by (cases cs) (auto simp: subtree_in_def split: option.splits)
qed

text \<open>The entries of a directory, given that visits of the entries are sound.\<close>

lemma visitEntries_sound:
  assumes IH: "\<And>k inode m v v'. visit fuel st k inode m v = Inr v' \<Longrightarrow> imap st k = Some inode \<Longrightarrow>
      within m \<Longrightarrow> \<exists>xs. visited st v v' xs \<and> subtree_in st k m (set xs)
        \<and> (\<forall>j\<in>set xs. \<exists>cs. path (child_of st) k cs = Some j)
        \<and> calculatedBytes v' = calculatedBytes v + nodes_bytes st xs"
    and "fold_res (visitEntry fuel st inode m) es v = Inr v'"
  shows "\<exists>xs. visited st v v' xs
     \<and> (\<forall>(n, c)\<in>set es. component_ok n \<and> pmap st c = Some (inodeId inode, n) \<and> imap st c \<noteq> None
          \<and> subtree_in st c (stepMetrics m n) (set xs))
     \<and> (\<forall>j\<in>set xs. \<exists>(n, c)\<in>set es. \<exists>cs. path (child_of st) c cs = Some j)
     \<and> calculatedBytes v' = calculatedBytes v + msum (\<lambda>n _. child_bytes n) es + nodes_bytes st xs"
  using assms(2)
proof (induction es arbitrary: v)
  case Nil
  then show ?case by (intro exI [of _ "[]"]) (simp add: visited_refl nodes_bytes_def)
next
  case (Cons e es)
  obtain n c where e: "e = (n, c)" by (cases e)
  from Cons.prems obtain v1 where one: "visitEntry fuel st inode m (n, c) v = Inr v1"
    and rest: "fold_res (visitEntry fuel st inode m) es v1 = Inr v'" by (auto simp: e ebind_eq_Inr)
  from one obtain child where n: "component_ok n" "pmap st c = Some (inodeId inode, n)"
    and w: "within (stepMetrics m n)" and child: "imap st c = Some child"
    and visit: "visit fuel st c child (stepMetrics m n) (addBytes (child_bytes n) v) = Inr v1"
    unfolding visitEntry_Inr stepMetrics_def within_def by auto
  from IH [OF visit child w] obtain xs where xs: "visited st v v1 xs"
    "subtree_in st c (stepMetrics m n) (set xs)"
    "\<forall>j\<in>set xs. \<exists>cs. path (child_of st) c cs = Some j"
    "calculatedBytes v1 = calculatedBytes v + child_bytes n + nodes_bytes st xs"
    by (auto simp: visited_addBytes)
  from Cons.IH [OF rest] obtain ys where ys: "visited st v1 v' ys"
    "\<forall>(n, c)\<in>set es. component_ok n \<and> pmap st c = Some (inodeId inode, n) \<and> imap st c \<noteq> None
          \<and> subtree_in st c (stepMetrics m n) (set ys)"
    "\<forall>j\<in>set ys. \<exists>(n, c)\<in>set es. \<exists>cs. path (child_of st) c cs = Some j"
    "calculatedBytes v' = calculatedBytes v1 + msum (\<lambda>n _. child_bytes n) es + nodes_bytes st ys"
    by blast
  show ?case
  proof (intro exI [of _ "xs @ ys"] conjI)
    show "visited st v v' (xs @ ys)" using xs(1) ys(1) by (rule visited_trans)
    show "\<forall>(n, c)\<in>set (e # es). component_ok n \<and> pmap st c = Some (inodeId inode, n)
        \<and> imap st c \<noteq> None \<and> subtree_in st c (stepMetrics m n) (set (xs @ ys))"
      using n child xs(2) ys(2) by (auto simp: e intro: subtree_in_mono)
    show "\<forall>j\<in>set (xs @ ys). \<exists>(n, c)\<in>set (e # es). \<exists>cs. path (child_of st) c cs = Some j"
      using xs(3) ys(3) by (auto simp: e)
    show "calculatedBytes v' = calculatedBytes v + msum (\<lambda>n _. child_bytes n) (e # es)
        + nodes_bytes st (xs @ ys)"
      using xs(4) ys(4) by (simp add: e nodes_bytes_append)
  qed
qed

text \<open>The inode itself.\<close>

lemma entered_visited:
  assumes enter: "enterInode st k inode v = Inr v1" and k: "imap st k = Some inode"
    and v': "v' = addBytes b (mark xs v1)" and xs: "fileExtents inode = xs" "distinct xs"
    and range: "\<forall>e\<in>set xs. 0 \<le> e \<and> e < int (length (classified v)) \<and> e \<notin> trues v
        \<and> map_of (ownedBy (allocator st)) e = Some k"
    and body: "body_ok (extentSize st) (body inode)"
    and ch: "\<And>n c. child_of st k n = Some c \<Longrightarrow> pmap st c = Some (k, n) \<and> imap st c \<noteq> None"
  shows "visited st v v' [k]"
proof -
  from enter have e: "u64 k" "inodeId inode = k" "k < nextInodeId st" "k \<notin> set (reached v)"
    "mode_ok (imode inode)" "u64 (atimeMs inode)" "u64 (mtimeMs inode)" "u64 (ctimeMs inode)"
    and v1: "v1 = v\<lparr>reached := reached v @ [k]\<rparr>" by (simp_all add: enterInode_Inr)
  have "node_ok st (int (length (classified v))) k inode"
    using e body ch xs range by (simp add: node_ok_def inode_ok_def u64_def)
  moreover have tr: "trues v' = trues v \<union> set xs"
    using range trues_mark [of xs v1] by (simp add: v' v1)
  moreover have "int (card (trues v \<union> set xs)) = int (card (trues v)) + int (length xs)"
    using range xs(2) by (subst card_Un_disjoint) (auto simp: distinct_card)
  moreover have "file_extents st k = xs" using k xs by (simp add: file_extents_def)
  ultimately show ?thesis
    using e(4) k by (simp add: visited_def v' v1)
qed

lemma visit_sound:
  assumes rep: "\<forall>i inode. imap st i = Some inode \<longrightarrow> wf_map (children inode)"
  shows "visit fuel st k inode m v = Inr v' \<Longrightarrow> imap st k = Some inode \<Longrightarrow> within m \<Longrightarrow>
     \<exists>xs. visited st v v' xs \<and> subtree_in st k m (set xs)
       \<and> (\<forall>j\<in>set xs. \<exists>cs. path (child_of st) k cs = Some j)
       \<and> calculatedBytes v' = calculatedBytes v + nodes_bytes st xs"
proof (induction fuel arbitrary: k inode m v v')
  case (Suc fuel)
  note k = Suc.prems(2)
  have self: "\<exists>cs. path (child_of st) k cs = Some k" by (rule exI [of _ "[]"]) simp
  show ?case
  proof (cases "body inode")
    case (Symlink t)
    from Suc.prems(1) obtain v1 where enter: "enterInode st k inode v = Inr v1"
      and t: "symlink_target_ok t" and v': "v' = addBytes (SYMLINK_INODE_FIXED_BYTES + utf8_bytes t) v1"
      unfolding visit_Symlink [OF Symlink] by blast
    have none: "child_of st k n = None" for n
      using k Symlink by (simp add: child_of_def children_def)
    have "visited st v v' [k]"
      by (rule entered_visited [OF enter k, of _ _ "[]"])
        (use Symlink t none in \<open>simp_all add: v' fileExtents_def\<close>)
    moreover have "subtree_in st k m {k}"
      by (rule subtree_in_node) (use Suc.prems(3) none in simp_all)
    ultimately show ?thesis
      using self k enter
      by (intro exI [of _ "[k]"])
        (simp add: v' nodes_bytes_def inode_bytes_def Symlink enterInode_Inr)
  next
    case (File fsize xs)
    from Suc.prems(1) obtain v1 where enter: "enterInode st k inode v = Inr v1"
      and n: "extentCountForSize fsize (extentSize st) = Inr (int (length xs))"
      and own: "fold_res (classifyOwned st inode) xs
            (addBytes (FILE_INODE_FIXED_BYTES + int (length xs) * 8) v1) = Inr v'"
      unfolding visit_File [OF File] by blast
    have id: "inodeId inode = k" and v1: "v1 = v\<lparr>reached := reached v @ [k]\<rparr>"
      using enter by (simp_all add: enterInode_Inr)
    have none: "child_of st k n = None" for n
      using k File by (simp add: child_of_def children_def)
    have "mark xs (addBytes b w) = addBytes b (mark xs w)" for b w
      by (simp add: mark_def addBytes_def)
    with own have v': "v' = addBytes (FILE_INODE_FIXED_BYTES + int (length xs) * 8) (mark xs v1)"
      and xs: "distinct xs" "\<forall>e\<in>set xs. 0 \<le> e \<and> e < int (length (classified v)) \<and> e \<notin> trues v
        \<and> map_of (ownedBy (allocator st)) e = Some k"
      by (auto simp: classifyOwned_all id v1)
    have "visited st v v' [k]"
      by (rule entered_visited [OF enter k v' fileExtents_body(3) [OF File] xs])
        (use File n none in simp_all)
    moreover have "subtree_in st k m {k}"
      by (rule subtree_in_node) (use Suc.prems(3) none in simp_all)
    ultimately show ?thesis
      using self k by (intro exI [of _ "[k]"]) (simp add: v' v1 nodes_bytes_def inode_bytes_def File)
  next
    case (Directory es)
    from Suc.prems(1) obtain v1 where enter: "enterInode st k inode v = Inr v1"
      and fold: "fold_res (visitEntry fuel st inode m) es (addBytes DIRECTORY_INODE_FIXED_BYTES v1) = Inr v'"
      unfolding visit_Directory [OF Directory] by blast
    have id: "inodeId inode = k" and v1: "v1 = v\<lparr>reached := reached v @ [k]\<rparr>"
      using enter by (simp_all add: enterInode_Inr)
    have kids: "children inode = es" using Directory by (simp add: children_def)
    have wf: "wf_map es" using rep k kids by blast
    have "\<exists>xs. visited st (addBytes DIRECTORY_INODE_FIXED_BYTES v1) v' xs
       \<and> (\<forall>(n, c)\<in>set es. component_ok n \<and> pmap st c = Some (inodeId inode, n)
            \<and> imap st c \<noteq> None \<and> subtree_in st c (stepMetrics m n) (set xs))
       \<and> (\<forall>j\<in>set xs. \<exists>(n, c)\<in>set es. \<exists>cs. path (child_of st) c cs = Some j)
       \<and> calculatedBytes v' = calculatedBytes (addBytes DIRECTORY_INODE_FIXED_BYTES v1)
            + msum (\<lambda>n _. child_bytes n) es + nodes_bytes st xs"
      by (rule visitEntries_sound [OF _ fold]) (rule Suc.IH)
    then obtain xs where
      xs: "visited st (addBytes DIRECTORY_INODE_FIXED_BYTES v1) v' xs"
      and each: "\<forall>(n, c)\<in>set es. component_ok n \<and> pmap st c = Some (inodeId inode, n)
          \<and> imap st c \<noteq> None \<and> subtree_in st c (stepMetrics m n) (set xs)"
      and bk: "\<forall>j\<in>set xs. \<exists>(n, c)\<in>set es. \<exists>cs. path (child_of st) c cs = Some j"
      and bytes: "calculatedBytes v' = calculatedBytes (addBytes DIRECTORY_INODE_FIXED_BYTES v1)
          + msum (\<lambda>n _. child_bytes n) es + nodes_bytes st xs" by blast
    have ch: "child_of st k n = Some c \<longleftrightarrow> (n, c) \<in> set es" for n c
      using k kids wf by (simp add: child_of_def wf_map_in_set)
    have one: "visited st v (addBytes DIRECTORY_INODE_FIXED_BYTES v1) [k]"
    proof (rule entered_visited [OF enter k, of _ _ "[]"])
      show "body_ok (extentSize st) (body inode)"
        using wf each by (force simp: Directory)
      show "pmap st c = Some (k, n) \<and> imap st c \<noteq> None" if "child_of st k n = Some c" for n c
      proof -
        have "(n, c) \<in> set es" using that by (simp only: ch)
        with each id show ?thesis by auto
      qed
    qed (simp_all add: Directory fileExtents_def)
    show ?thesis
    proof (intro exI [of _ "k # xs"] conjI ballI)
      show "visited st v v' (k # xs)" using visited_trans [OF one xs] by simp
      show "subtree_in st k m (set (k # xs))"
      proof (rule subtree_in_node)
        show "subtree_in st c (stepMetrics m n) (set (k # xs))" if "child_of st k n = Some c" for n c
          using that each by (auto simp: ch intro: subtree_in_mono)
      qed (use Suc.prems(3) in simp_all)
      show "\<exists>cs. path (child_of st) k cs = Some j" if "j \<in> set (k # xs)" for j
      proof (cases "j = k")
        case False
        with that bk obtain n c cs where "(n, c) \<in> set es" "path (child_of st) c cs = Some j" by auto
        moreover from this have "child_of st k n = Some c" by (simp only: ch)
        ultimately have "path (child_of st) k (n # cs) = Some j" by simp
        then show ?thesis by blast
      qed (use self in simp)
      show "calculatedBytes v' = calculatedBytes v + nodes_bytes st (k # xs)"
        using bytes k by (simp add: v1 nodes_bytes_def inode_bytes_def Directory)
    qed
  qed
qed simp

section \<open>Soundness of the validator\<close>

lemma msum_dom:
  "wf_map m \<Longrightarrow> msum (\<lambda>_. f) m = (\<Sum>k\<in>dom (map_of m). f (the (map_of m k)))"
proof (induction m)
  case (Cons p m)
  obtain k v where p: "p = (k, v)" by (cases p)
  from Cons.prems have wf: "wf_map m" and new: "map_of m k = None"
    by (auto simp: p wf_map_def map_of_eq_None_iff)
  have "(\<Sum>j\<in>dom (map_of m). f (the (map_of (p # m) j))) = (\<Sum>j\<in>dom (map_of m). f (the (map_of m j)))"
    using new by (intro sum.cong) (auto simp: p)
  moreover have "k \<notin> dom (map_of m)" using new by (simp add: domIff)
  moreover have "dom (map_of (p # m)) = insert k (dom (map_of m))" by (auto simp: p)
  moreover have "f (the (map_of (p # m) k)) = f v" by (simp add: p)
  ultimately show ?case
    using Cons.IH [OF wf] by (simp add: p finite_dom_map_of del: map_of.simps)
qed simp

lemma length_dom: "wf_map m \<Longrightarrow> length m = card (dom (map_of m))"
  using distinct_card [of "keys_of m"] by (simp add: wf_map_def dom_map_of_conv_image_fst)

lemma validateState_Inr:
  "validateState st = Inr u \<longleftrightarrow>
     extent_size_ok (extentSize st) \<and> u64 (generation st) \<and> generation st \<noteq> 0 \<and> u64 (nextInodeId st)
     \<and> (\<exists>root. imap st (rootInodeId st) = Some root \<and> isDirectory root
         \<and> pmap st (rootInodeId st) = None \<and> int (length (inodes st)) \<le> MAX_INODES
         \<and> u64 (totalExtents (allocator st)) \<and> totalExtents (allocator st) \<le> MAX_TOTAL_EXTENTS
         \<and> (\<exists>v v1 v2. visit boundsFuel st (rootInodeId st) root \<lparr>depth = 0, bytes = 1\<rparr>
              \<lparr>classified = replicate (nat (totalExtents (allocator st))) False,
               classifiedCount = 0, reached = [], calculatedBytes = BASE_STATE_FIXED_BYTES\<rparr> = Inr v
            \<and> validateTotals st v = Inr ()
            \<and> fold_res classify (items (available (allocator st))) v = Inr v1
            \<and> fold_res (classifyQuarantined st) (quarantine (allocator st)) v1 = Inr v2
            \<and> classifiedCount v2 = totalExtents (allocator st)))"
  unfolding validateState_def ebind_eq_Inr if_Inl_eq_Inr option_Inl_eq_Inr Let_def
    validateExtentSize_Inr checkedU64_Inr
  by (cases u) (auto simp: not_less simp del: not_None_eq)

lemma validateTotals_Inr:
  "validateTotals st v = Inr u \<longleftrightarrow> length (reached v) = length (inodes st)
     \<and> int (length (parentByInode st)) = int (length (inodes st)) - 1
     \<and> classifiedCount v = int (length (ownedBy (allocator st)))
     \<and> basePayloadBytes st = calculatedBytes v + pool_bytes (allocator st)
     \<and> basePayloadBytes st \<le> MAX_METADATA_BASE_WRITER_BYTES
     \<and> retainedGenerations st (activeMetadataFile st) = Some (generation st)
     \<and> (\<forall>g. retainedGenerations st (otherMetadataFile (activeMetadataFile st)) = Some g \<longrightarrow>
          u64 g \<and> g \<noteq> 0 \<and> g + 1 = generation st)"
  by (cases "retainedGenerations st (otherMetadataFile (activeMetadataFile st))")
    (auto simp: validateTotals_def pool_bytes_def ebind_eq_Inr checkedU64_Inr not_less)

text \<open>The tree, from the inodes that a visit from the root reached.\<close>

lemma reached_tree:
  assumes rep: "rep_inv st" and dom: "set xs = dom (imap st)"
    and root: "imap st (rootInodeId st) \<noteq> None" "pmap st (rootInodeId st) = None"
    and len: "int (length (parentByInode st)) = int (length (inodes st)) - 1"
    and reach: "\<forall>j\<in>set xs. \<exists>cs. path (child_of st) (rootInodeId st) cs = Some j"
    and node: "\<forall>j\<in>set xs. \<exists>inode. imap st j = Some inode \<and> node_ok st limit j inode"
  shows "tree_inv st"
proof -
  let ?r = "rootInodeId st"
  have kid: "pmap st c = Some (p, n) \<and> imap st c \<noteq> None" if "child_of st p n = Some c" for p n c
  proof -
    have "p \<in> set xs" using that dom by (auto simp: child_of_Some)
    with node that show ?thesis by (auto simp: node_ok_def)
  qed
  have tree: "tree ?r (dom (imap st)) (child_of st)"
    unfolding tree_def
  proof (intro conjI allI impI ballI)
    show "?r \<in> dom (imap st)" using root by (simp add: domIff)
    show "p \<in> dom (imap st)" if "child_of st p n = Some c" for p n c
      using that by (auto simp: child_of_Some)
    show "c \<in> dom (imap st)" "c \<noteq> ?r" if "child_of st p n = Some c" for p n c
      using kid [OF that] root(2) by auto
    show "p' = p" "n' = n" if "child_of st p n = Some c" "child_of st p' n' = Some c" for p n p' n' c
      using kid [OF that(1)] kid [OF that(2)] by auto
    show "\<exists>ds. path (child_of st) ?r ds = Some i" if "i \<in> dom (imap st)" for i
      using that reach dom by simp
  qed
  have parent: "\<exists>p n. child_of st p n = Some c" if c: "c \<in> dom (imap st)" "c \<noteq> ?r" for c
  proof -
    from c(1) reach dom obtain cs where cs: "path (child_of st) ?r cs = Some c" by auto
    with c(2) obtain ds n where "cs = ds @ [n]" by (cases cs rule: rev_cases) auto
    with cs show ?thesis by (auto simp: path_snoc split: option.splits)
  qed
  have doms: "dom (pmap st) = dom (imap st) - {?r}"
  proof (rule sym, rule card_subset_eq)
    show "finite (dom (pmap st))" by (simp add: finite_dom_map_of)
    show "dom (imap st) - {?r} \<subseteq> dom (pmap st)"
    proof
      fix c
      assume "c \<in> dom (imap st) - {?r}"
      with parent obtain p n where "child_of st p n = Some c" by blast
      with kid show "c \<in> dom (pmap st)" by blast
    qed
    have "card (dom (imap st) - {?r}) = card (dom (imap st)) - 1"
      using root(1) by (simp add: domIff finite_dom_map_of)
    moreover have "card (dom (imap st)) = length (inodes st)" "card (dom (pmap st)) = length (parentByInode st)"
      using rep length_dom [of "inodes st"] length_dom [of "parentByInode st"]
      by (simp_all add: rep_inv_def)
    ultimately show "card (dom (imap st) - {?r}) = card (dom (pmap st))" using len by simp
  qed
  have "pmap st c = Some (p, n) \<longleftrightarrow> child_of st p n = Some c" for c p n
  proof
    assume pm: "pmap st c = Some (p, n)"
    then have "c \<in> dom (imap st) \<and> c \<noteq> ?r" using doms by blast
    with parent obtain q m where q: "child_of st q m = Some c" by blast
    with kid [OF q] pm show "child_of st p n = Some c" by simp
  next
    assume "child_of st p n = Some c"
    from kid [OF this] show "pmap st c = Some (p, n)" by simp
  qed
  with tree show ?thesis by (simp add: tree_inv_def)
qed

text \<open>The allocator, from the classification.\<close>

lemma classified_alloc:
  assumes rep: "rep_inv st" and dom: "set xs = dom (imap st)"
    and total: "0 \<le> total_n" "total_n \<le> MAX_TOTAL_EXTENTS" "totalExtents (allocator st) = total_n"
    and len: "int (length (classified v)) = total_n"
    and count: "classifiedCount v = int (card (trues v))"
    and tr: "trues v = (\<Union>j\<in>set xs. set (file_extents st j))"
    and owners: "classifiedCount v = int (length (ownedBy (allocator st)))"
    and node: "\<forall>j\<in>set xs. \<exists>inode. imap st j = Some inode \<and> node_ok st total_n j inode"
    and avail: "fold_res classify (items (available (allocator st))) v = Inr v1"
    and quar: "fold_res (classifyQuarantined st) (quarantine (allocator st)) v1 = Inr v2"
    and all: "classifiedCount v2 = total_n"
  shows "alloc_inv (allocator st) (file_extents st)"
    and "\<forall>e g. map_of (quarantine (allocator st)) e = Some (Some g) \<longrightarrow> g = generation st"
proof -
  let ?a = "allocator st" and ?own = "map_of (ownedBy (allocator st))"
  let ?q = "map_of (quarantine (allocator st))" and ?items = "items (available (allocator st))"
  have wf: "wf_map (ownedBy ?a)" "wf_map (quarantine ?a)" "extents_inv (available ?a)"
    using rep by (simp_all add: rep_inv_def)
  have fil: "distinct (file_extents st i) \<and> (\<forall>e\<in>set (file_extents st i). ?own e = Some i)" for i
  proof (cases "imap st i")
    case (Some inode)
    then have "i \<in> set xs" using dom by auto
    with node Some have "node_ok st total_n i inode" by fastforce
    with Some show ?thesis by (simp add: node_ok_def file_extents_def)
  qed (simp add: file_extents_def)
  have "dom ?own = trues v"
  proof (rule sym, rule card_subset_eq)
    show "trues v \<subseteq> dom ?own" using tr fil by fastforce
    show "card (trues v) = card (dom ?own)" using count owners length_dom [OF wf(1)] by simp
  qed (simp add: finite_dom_map_of)
  then have domown: "?own e \<noteq> None \<longleftrightarrow> e \<in> trues v" for e by (simp add: domIff set_eq_iff)
  have own: "?own e = Some i \<longleftrightarrow> e \<in> set (file_extents st i)" for e i
  proof
    assume "?own e = Some i"
    then have "e \<in> trues v" using domown [of e] by simp
    then obtain j where "e \<in> set (file_extents st j)" using tr by blast
    moreover from this fil have "?own e = Some j" by blast
    ultimately show "e \<in> set (file_extents st i)" using \<open>?own e = Some i\<close> by simp
  next
    assume "e \<in> set (file_extents st i)"
    with fil show "?own e = Some i" by blast
  qed
  from avail have it: "\<forall>e\<in>set ?items. 0 \<le> e \<and> e < total_n \<and> e \<notin> trues v" and v1: "v1 = mark ?items v"
    by (simp_all add: classifyAvailable_all len)
  have tr1: "trues v1 = trues v \<union> set ?items" using it len trues_mark [of ?items v] by (simp add: v1)
  have len1: "int (length (classified v1)) = total_n" using len by (simp add: v1)
  from quar have qu: "\<forall>(e, g)\<in>set (quarantine ?a). 0 \<le> e \<and> e < total_n \<and> e \<notin> trues v1
      \<and> (g = None \<or> g = Some (generation st))" and v2: "v2 = mark (keys_of (quarantine ?a)) v1"
    by (simp_all add: classifyQuarantined_all len1)
  have tr2: "trues v2 = trues v1 \<union> set (keys_of (quarantine ?a))"
    using qu len1 trues_mark [of "keys_of (quarantine ?a)" v1] by (fastforce simp: v2)
  have key: "e \<in> set (keys_of (quarantine ?a)) \<longleftrightarrow> ?q e \<noteq> None" for e
    by (metis domIff dom_map_of_conv_image_fst set_map)
  have av: "e \<in> extents_of (available ?a) \<longleftrightarrow> e \<in> set ?items" for e by (simp add: extents_of_def)
  have sub: "trues v2 \<subseteq> {0..<total_n}"
    using len1 by (auto simp: trues_def v2)
  have "classifiedCount v2 = int (card (trues v2))"
  proof -
    have "card (trues v \<union> set ?items) = card (trues v) + length ?items"
      using it extents_invD(2) [OF wf(3)] by (subst card_Un_disjoint) (auto simp: distinct_card)
    moreover have "card (trues v1 \<union> set (keys_of (quarantine ?a))) = card (trues v1) + length (quarantine ?a)"
      using qu distinct_card [of "keys_of (quarantine ?a)"] wf(2)
      by (subst card_Un_disjoint) (fastforce simp: wf_map_def)+
    ultimately show ?thesis by (simp only: tr2 tr1) (simp add: v2 v1 count)
  qed
  then have "card (trues v2) = card {0..<total_n}" using all total(1) by simp
  with sub have full: "trues v2 = {0..<total_n}" by (simp add: card_subset_eq)
  show "alloc_inv ?a (file_extents st)"
  proof (rule alloc_invI)
    show "0 \<le> e \<and> e < totalExtents ?a \<longleftrightarrow> ?own e \<noteq> None \<or> e \<in> extents_of (available ?a) \<or> ?q e \<noteq> None"
      for e
      using full unfolding tr2 tr1 domown av key [symmetric] total(3) by auto
    show "?own e = None \<and> ?q e = None" if "e \<in> extents_of (available ?a)" for e
    proof -
      have "e \<in> set ?items" using that by (simp add: av)
      then have "e \<notin> trues v" "e \<in> trues v1" using it tr1 by auto
      with qu domown [of e] key [of e] show ?thesis by fastforce
    qed
    show "?q e = None" if "?own e \<noteq> None" for e
      using that qu tr1 domown [of e] key [of e] by fastforce
  qed (use wf own fil total in \<open>simp_all\<close>)
  show "\<forall>e g. ?q e = Some (Some g) \<longrightarrow> g = generation st"
    using qu by (fastforce dest: map_of_SomeD)
qed

lemma validateState_sound:
  assumes rep: "rep_inv st" and run: "validateState st = Inr u"
  shows "vfs_inv st \<and> paths_ok st"
proof -
  let ?total = "totalExtents (allocator st)"
  from run obtain root v v1 v2 where
    fields: "extent_size_ok (extentSize st)" "u64 (generation st)" "generation st \<noteq> 0" "u64 (nextInodeId st)"
    and root: "imap st (rootInodeId st) = Some root" "isDirectory root" "pmap st (rootInodeId st) = None"
    and many: "int (length (inodes st)) \<le> MAX_INODES"
    and total: "u64 ?total" "?total \<le> MAX_TOTAL_EXTENTS"
    and visit: "visit boundsFuel st (rootInodeId st) root \<lparr>depth = 0, bytes = 1\<rparr>
        \<lparr>classified = replicate (nat ?total) False, classifiedCount = 0, reached = [],
         calculatedBytes = BASE_STATE_FIXED_BYTES\<rparr> = Inr v"
    and totals: "validateTotals st v = Inr ()"
    and avail: "fold_res classify (items (available (allocator st))) v = Inr v1"
    and quar: "fold_res (classifyQuarantined st) (quarantine (allocator st)) v1 = Inr v2"
    and all: "classifiedCount v2 = ?total"
    unfolding validateState_Inr by blast
  let ?start = "\<lparr>classified = replicate (nat ?total) False, classifiedCount = 0, reached = [],
         calculatedBytes = BASE_STATE_FIXED_BYTES\<rparr>"
  have wf: "wf_map (inodes st)" "wf_map (parentByInode st)"
    and wfc: "\<forall>i inode. imap st i = Some inode \<longrightarrow> wf_map (children inode)"
    using rep unfolding rep_inv_def by blast+
  have start: "trues ?start = {}" by (auto simp: trues_def)
  have "within \<lparr>depth = 0, bytes = 1\<rparr>" by (simp add: within_def limit_defs)
  from visit_sound [OF wfc visit root(1) this] obtain xs where
    xs: "visited st ?start v xs" and sub: "subtree_in st (rootInodeId st) \<lparr>depth = 0, bytes = 1\<rparr> (set xs)"
    and reach: "\<forall>j\<in>set xs. \<exists>cs. path (child_of st) (rootInodeId st) cs = Some j"
    and b: "calculatedBytes v = BASE_STATE_FIXED_BYTES + nodes_bytes st xs" by auto
  have nonneg: "0 \<le> ?total" using total(1) by (simp add: u64_def)
  then have node: "\<forall>j\<in>set xs. \<exists>inode. imap st j = Some inode \<and> node_ok st ?total j inode"
    and r: "reached v = xs" "distinct xs" and lenv: "int (length (classified v)) = ?total"
    and trv: "trues v = (\<Union>j\<in>set xs. set (file_extents st j))"
    and cnt: "classifiedCount v = int (card (trues v))"
    using xs start by (auto simp: visited_def)
  note t = totals [unfolded validateTotals_Inr]
  have dom: "set xs = dom (imap st)"
  proof (rule card_subset_eq)
    show "set xs \<subseteq> dom (imap st)" using node by auto
    show "card (set xs) = card (dom (imap st))"
      using t r length_dom [OF wf(1)] by (simp add: distinct_card)
  qed (simp add: finite_dom_map_of)
  have tree: "tree_inv st"
    by (rule reached_tree [OF rep dom _ root(3) _ reach node]) (use root(1) t in simp_all)
  have owners: "classifiedCount v = int (length (ownedBy (allocator st)))" using t by simp
  note alloc = classified_alloc [OF rep dom nonneg total(2) refl lenv cnt trv owners node avail quar all]
  have "table_inv st"
    unfolding table_inv_def
  proof (intro conjI allI impI)
    show "inode_ok (extentSize st) (nextInodeId st) k inode" if "imap st k = Some inode" for k inode
    proof -
      from that dom have "k \<in> set xs" by auto
      with node that have "node_ok st ?total k inode" by fastforce
      then show ?thesis by (simp add: node_ok_def)
    qed
  qed (use wf root fields many in simp_all)
  moreover have "gen_inv st"
    unfolding gen_inv_def
  proof (intro conjI allI impI)
    show "0 < g" if "retainedGenerations st (otherMetadataFile (activeMetadataFile st)) = Some g" for g
      using t that by (auto simp: u64_def)
  qed (use fields t alloc(2) in \<open>auto simp: u64_def\<close>)
  moreover have "bytes_inv st"
  proof -
    have "nodes_bytes st xs = msum (\<lambda>_. inode_bytes) (inodes st)"
      using r(2) by (simp add: nodes_bytes_def msum_dom [OF wf(1)] sum_list_distinct_conv_sum_set dom)
    with b t show ?thesis by (simp add: bytes_inv_def base_bytes_def)
  qed
  moreover have "paths_ok st"
  proof (rule paths_okI [OF tree])
    fix i inode
    assume i: "imap st i = Some inode"
    then obtain cs where cs: "lookup st cs = Some i" using lookup_reaches [OF tree] by blast
    with sub have "within (foldl stepMetrics \<lparr>depth = 0, bytes = 1\<rparr> cs)"
      by (auto simp: subtree_in_def lookup_def)
    moreover have "\<forall>c\<in>set cs. component_ok c"
      using cs
    proof (induction cs arbitrary: i rule: rev_induct)
      case (snoc n cs)
      then obtain p where "lookup st cs = Some p" "child_of st p n = Some i"
        by (auto simp: lookup_snoc bind_eq_Some_conv)
      with snoc.IH child_component_ok [OF \<open>table_inv st\<close>] show ?case by auto
    qed simp
    ultimately have "path_ok cs" by (simp add: within_def root_metrics path_ok_def)
    with cs show "\<exists>cs. lookup st cs = Some i \<and> path_ok cs" by blast
  qed
  ultimately show ?thesis using tree alloc(1) by (simp add: vfs_inv_def)
qed

section \<open>Completeness of the validator\<close>

text \<open>No inode below \<open>k\<close> has been reached yet, and none of its extents classified.\<close>

definition fresh_below :: "VfsState \<Rightarrow> int \<Rightarrow> Visit \<Rightarrow> bool" where
  "fresh_below st k v \<longleftrightarrow> (\<forall>ds j. path (child_of st) k ds = Some j \<longrightarrow>
     j \<notin> set (reached v) \<and> set (file_extents st j) \<inter> trues v = {})"

lemma fresh_below_child:
  "fresh_below st k v \<Longrightarrow> child_of st k n = Some c \<Longrightarrow> fresh_below st c v"
  unfolding fresh_below_def
proof (intro allI impI)
  fix ds j
  assume f: "\<forall>ds j. path (child_of st) k ds = Some j \<longrightarrow>
     j \<notin> set (reached v) \<and> set (file_extents st j) \<inter> trues v = {}"
    and c: "child_of st k n = Some c" and p: "path (child_of st) c ds = Some j"
  from c p have "path (child_of st) k (n # ds) = Some j" by simp
  with f show "j \<notin> set (reached v) \<and> set (file_extents st j) \<inter> trues v = {}" by blast
qed

lemma fresh_addBytes [simp]: "fresh_below st k (addBytes n v) = fresh_below st k v"
  by (simp add: fresh_below_def)

text \<open>Visiting one subtree leaves the sibling subtrees fresh.\<close>

lemma fresh_sibling:
  assumes core: "core_inv st" and cs: "lookup st cs = Some k"
    and c: "child_of st k n = Some c" and c2: "child_of st k n2 = Some c2" and neq: "n \<noteq> n2"
    and fresh: "fresh_below st c2 v" and vis: "visited st v v' xs"
    and xs: "\<forall>j\<in>set xs. \<exists>ds. path (child_of st) c ds = Some j"
  shows "fresh_below st c2 v'"
  unfolding fresh_below_def
proof (intro allI impI conjI)
  fix ds j
  assume p: "path (child_of st) c2 ds = Some j"
  note t = core_invD(2) [OF core] and a = core_invD(3) [OF core]
  have other: "j \<noteq> i" if "i \<in> set xs" for i
  proof
    assume "j = i"
    with xs that obtain es where es: "path (child_of st) c es = Some j" by blast
    have "lookup st (cs @ n # es) = Some j" "lookup st (cs @ n2 # ds) = Some j"
      using cs c c2 es p by (simp_all add: lookup_def path_append)
    from lookup_unique [OF t this] neq show False by simp
  qed
  with fresh p vis show "j \<notin> set (reached v')" by (auto simp: fresh_below_def visited_def)
  have "set (file_extents st j) \<inter> set (file_extents st i) = {}" if "i \<in> set xs" for i
  proof -
    have "e \<notin> set (file_extents st i)" if "e \<in> set (file_extents st j)" for e
      using that alloc_invD(4) [OF a, of e j] alloc_invD(4) [OF a, of e i] other [OF \<open>i \<in> set xs\<close>]
      by auto
    then show ?thesis by blast
  qed
  moreover have "set (file_extents st j) \<inter> trues v = {}" using fresh p by (simp add: fresh_below_def)
  ultimately show "set (file_extents st j) \<inter> trues v' = {}"
    using vis by (auto simp: visited_def)
qed

lemma lookup_metrics:
  "foldl stepMetrics \<lparr>depth = 0, bytes = 1\<rparr> (cs @ [n])
     = stepMetrics (foldl stepMetrics \<lparr>depth = 0, bytes = 1\<rparr> cs) n"
  by simp

abbreviation metrics :: "js_string list \<Rightarrow> PathMetrics" where
  "metrics cs \<equiv> foldl stepMetrics \<lparr>depth = 0, bytes = 1\<rparr> cs"

lemma visitEntries_complete:
  assumes core: "core_inv st" and ok: "paths_ok st" and cs: "lookup st cs = Some k"
    and id: "inodeId inode = k"
    and IH: "\<And>cs k inode v. lookup st cs = Some k \<Longrightarrow> imap st k = Some inode \<Longrightarrow>
        MAX_PATH_DEPTH + 2 \<le> int fuel + int (length cs) \<Longrightarrow>
        int (length (classified v)) = totalExtents (allocator st) \<Longrightarrow> fresh_below st k v \<Longrightarrow>
        \<exists>v'. visit fuel st k inode (metrics cs) v = Inr v'"
    and fuel: "MAX_PATH_DEPTH + 2 \<le> int (Suc fuel) + int (length cs)"
    and "wf_map es" and "\<And>n c. (n, c) \<in> set es \<Longrightarrow> child_of st k n = Some c"
    and "int (length (classified v)) = totalExtents (allocator st)"
    and "\<And>n c. (n, c) \<in> set es \<Longrightarrow> fresh_below st c v"
    and wfc: "\<forall>i inode. imap st i = Some inode \<longrightarrow> wf_map (children inode)"
  shows "\<exists>v'. fold_res (visitEntry fuel st inode (metrics cs)) es v = Inr v'"
  using assms(7-10)
proof (induction es arbitrary: v)
  case (Cons e es)
  note c = core_invD [OF core]
  obtain n ch where e: "e = (n, ch)" by (cases e)
  have chk: "child_of st k n = Some ch" using Cons.prems(2) e by simp
  then obtain child where child: "imap st ch = Some child" using child_in [OF c(2)] by blast
  have look: "lookup st (cs @ [n]) = Some ch" using cs chk by (simp add: lookup_snoc)
  then have pok: "path_ok (cs @ [n])" using ok by (simp add: paths_ok_def)
  then have n: "component_ok n" and w: "within (stepMetrics (metrics cs) n)"
    using root_metrics [of "cs @ [n]"] by (auto simp: path_ok_def within_def)
  have pm: "pmap st ch = Some (k, n)" using tree_invD(2) [OF c(2)] chk by blast
  have "\<exists>v1. visit fuel st ch child (metrics (cs @ [n])) (addBytes (child_bytes n) v) = Inr v1"
    by (rule IH [OF look child]) (use fuel Cons.prems(3,4) e in auto)
  then obtain v1 where visit: "visit fuel st ch child (stepMetrics (metrics cs) n) (addBytes (child_bytes n) v) = Inr v1"
    by auto
  from visit_sound [OF wfc visit child w] obtain xs where
    vis: "visited st v v1 xs" and xs: "\<forall>j\<in>set xs. \<exists>ds. path (child_of st) ch ds = Some j"
    by (auto simp: visited_addBytes)
  have "\<exists>v'. fold_res (visitEntry fuel st inode (metrics cs)) es v1 = Inr v'"
  proof (rule Cons.IH)
    show "wf_map es" using Cons.prems(1) by (simp add: wf_map_def)
    show "child_of st k n' = Some c'" if "(n', c') \<in> set es" for n' c'
      using that Cons.prems(2) by simp
    show "int (length (classified v1)) = totalExtents (allocator st)"
      using vis Cons.prems(3) by (simp add: visited_def)
    show "fresh_below st c' v1" if mem: "(n', c') \<in> set es" for n' c'
    proof (rule fresh_sibling [OF core cs chk _ _ _ vis xs])
      show "child_of st k n' = Some c'" using mem Cons.prems(2) by simp
      show "n \<noteq> n'" using mem Cons.prems(1) by (force simp: wf_map_def e)
      show "fresh_below st c' v" using Cons.prems(4) [of n' c'] mem by simp
    qed
  qed
  moreover have "visitEntry fuel st inode (metrics cs) (n, ch) v = Inr v1"
    unfolding visitEntry_Inr using n pm w child visit id
    by (simp add: within_def stepMetrics_def)
  ultimately show ?case by (simp add: e)
qed simp

lemma enter_ok:
  assumes "inode_ok ext (nextInodeId st) k inode" and "u64 (nextInodeId st)" and "k \<notin> set (reached v)"
  shows "enterInode st k inode v = Inr (v\<lparr>reached := reached v @ [k]\<rparr>)"
  using assms by (simp add: enterInode_Inr inode_ok_def u64_def)

lemma visit_complete:
  assumes core: "core_inv st" and ok: "paths_ok st"
    and wfc: "\<forall>i inode. imap st i = Some inode \<longrightarrow> wf_map (children inode)"
  shows "lookup st cs = Some k \<Longrightarrow> imap st k = Some inode \<Longrightarrow>
     MAX_PATH_DEPTH + 2 \<le> int fuel + int (length cs) \<Longrightarrow>
     int (length (classified v)) = totalExtents (allocator st) \<Longrightarrow> fresh_below st k v \<Longrightarrow>
     \<exists>v'. visit fuel st k inode (metrics cs) v = Inr v'"
proof (induction fuel arbitrary: cs k inode v)
  case 0
  then have "int (length cs) \<le> MAX_PATH_DEPTH" using ok by (simp add: paths_ok_def path_ok_def)
  with 0 show ?case by simp
next
  case (Suc fuel)
  note c = core_invD [OF core]
  have ino: "inode_ok (extentSize st) (nextInodeId st) k inode"
    using c(1) Suc.prems(2) by (rule table_invD)
  have self: "k \<notin> set (reached v)" "set (file_extents st k) \<inter> trues v = {}"
    using Suc.prems(5) path.simps(1) [of "child_of st" k] unfolding fresh_below_def by blast+
  note enter = enter_ok [OF ino table_invD(6) [OF c(1)] self(1)]
  have body: "body_ok (extentSize st) (body inode)" using ino by (rule inode_okD)
  show ?case
  proof (cases "body inode")
    case (Symlink t)
    with body enter show ?thesis by (simp add: visit_Symlink [OF Symlink])
  next
    case (File fsize xs)
    have xs: "file_extents st k = xs"
      using Suc.prems(2) by (simp add: file_extents_def fileExtents_body(3) [OF File])
    have "0 \<le> e \<and> e < totalExtents (allocator st) \<and> e \<notin> trues v
        \<and> map_of (ownedBy (allocator st)) e = Some (inodeId inode)" if "e \<in> set xs" for e
    proof -
      have "map_of (ownedBy (allocator st)) e = Some k"
        using that xs alloc_invD(4) [OF c(3), of e k] by simp
      with alloc_inv_range [OF c(3), of e] self(2) that xs inode_okD(1) [OF ino] show ?thesis by auto
    qed
    moreover have "distinct xs" using alloc_invD(5) [OF c(3), of k] xs by simp
    ultimately show ?thesis
      using body enter File Suc.prems(4) by (simp add: visit_File [OF File] classifyOwned_all)
  next
    case (Directory es)
    have kids: "children inode = es" using Directory by (simp add: children_def)
    have wf: "wf_map es" using wfc Suc.prems(2) kids by blast
    have ch: "child_of st k n = Some d" if "(n, d) \<in> set es" for n d
      using that Suc.prems(2) kids wf by (simp add: child_of_def wf_map_in_set)
    let ?v = "addBytes DIRECTORY_INODE_FIXED_BYTES (v\<lparr>reached := reached v @ [k]\<rparr>)"
    have "\<exists>v'. fold_res (visitEntry fuel st inode (metrics cs)) es ?v = Inr v'"
    proof (rule visitEntries_complete [OF core ok Suc.prems(1) inode_okD(1) [OF ino] _ Suc.prems(3) wf
            ch _ _ wfc])
      show "fresh_below st d ?v" if "(n, d) \<in> set es" for n d
      proof -
        have "j \<noteq> k" if p: "path (child_of st) d ds = Some j" for ds j
        proof
          assume "j = k"
          with ch [OF \<open>(n, d) \<in> set es\<close>] p have "path (child_of st) k (n # ds) = Some k" by simp
          from tree_no_cycle [OF tree_invD(1) [OF c(2)] _ this] Suc.prems(2) show False by auto
        qed
        moreover have "fresh_below st d v" using fresh_below_child Suc.prems(5) ch [OF that] by blast
        ultimately show ?thesis by (simp add: fresh_below_def)
      qed
    qed (use Suc.IH Suc.prems(4) in \<open>simp_all add: addBytes_def\<close>)
    with enter show ?thesis by (simp add: visit_Directory [OF Directory])
  qed
qed

lemma parent_count:
  assumes core: "core_inv st"
  shows "int (length (parentByInode st)) = int (length (inodes st)) - 1"
    and "pmap st (rootInodeId st) = None"
proof -
  note c = core_invD [OF core]
  let ?r = "rootInodeId st"
  note tr = tree_invD(1) [OF c(2)]
  have iff: "c \<in> dom (pmap st) \<longleftrightarrow> c \<in> dom (imap st) - {?r}" for c
  proof
    assume "c \<in> dom (pmap st)"
    then obtain p n where "child_of st p n = Some c" using tree_invD(2) [OF c(2)] by fastforce
    from treeD(2) [OF tr this] show "c \<in> dom (imap st) - {?r}" by simp
  next
    assume mem: "c \<in> dom (imap st) - {?r}"
    then obtain cs where cs: "path (child_of st) ?r cs = Some c" using treeD(4) [OF tr] by blast
    with mem obtain ds n where "cs = ds @ [n]" by (cases cs rule: rev_cases) auto
    with cs obtain p where "child_of st p n = Some c" by (auto simp: path_snoc split: option.splits)
    then have "pmap st c = Some (p, n)" using tree_invD(2) [OF c(2)] by blast
    then show "c \<in> dom (pmap st)" by blast
  qed
  then have "dom (pmap st) = dom (imap st) - {?r}" by blast
  moreover have "?r \<in> dom (imap st)" using treeD(1) [OF tr] .
  moreover have "card (dom (imap st)) > 0"
    using \<open>?r \<in> dom (imap st)\<close> by (auto simp: card_gt_0_iff finite_dom_map_of)
  ultimately have "int (card (dom (pmap st))) = int (card (dom (imap st))) - 1"
    by (simp add: finite_dom_map_of)
  then show "int (length (parentByInode st)) = int (length (inodes st)) - 1"
    using length_dom [OF table_invD(1) [OF c(1)]] length_dom [OF table_invD(2) [OF c(1)]] by simp
  have "?r \<notin> dom (pmap st)" using iff [of ?r] by simp
  then show "pmap st ?r = None" by (simp only: domIff not_not)
qed

lemma validateState_complete:
  assumes inv: "vfs_inv st" and ok: "paths_ok st"
  shows "validateState st = Inr ()"
proof -
  let ?a = "allocator st" and ?total = "totalExtents (allocator st)"
  have core: "core_inv st" using inv by (simp add: vfs_inv_core)
  note v = vfs_invD [OF inv]
  note rep = vfs_inv_rep [OF inv]
  have wfc: "\<forall>i inode. imap st i = Some inode \<longrightarrow> wf_map (children inode)"
    using rep unfolding rep_inv_def by blast
  obtain root where root: "imap st (rootInodeId st) = Some root" "isDirectory root"
    using table_invD(4) [OF v(1)] by blast
  let ?start = "\<lparr>classified = replicate (nat ?total) False, classifiedCount = 0, reached = [],
         calculatedBytes = BASE_STATE_FIXED_BYTES\<rparr>"
  have start: "trues ?start = {}" by (auto simp: trues_def)
  have total: "0 \<le> ?total" "?total \<le> MAX_TOTAL_EXTENTS" by (rule alloc_invD [OF v(3)])+
  have "\<exists>w. visit boundsFuel st (rootInodeId st) root (metrics []) ?start = Inr w"
    by (rule visit_complete [OF core ok wfc _ root(1)])
      (simp_all add: fresh_below_def start total(1) boundsFuel_def MAX_PATH_DEPTH_def)
  then obtain w where visit: "visit boundsFuel st (rootInodeId st) root \<lparr>depth = 0, bytes = 1\<rparr> ?start = Inr w"
    by auto
  have "within \<lparr>depth = 0, bytes = 1\<rparr>" by (simp add: within_def limit_defs)
  from visit_sound [OF wfc visit root(1) this] obtain xs where
    xs: "visited st ?start w xs" and sub: "subtree_in st (rootInodeId st) \<lparr>depth = 0, bytes = 1\<rparr> (set xs)"
    and b: "calculatedBytes w = BASE_STATE_FIXED_BYTES + nodes_bytes st xs" by auto
  have r: "reached w = xs" "distinct xs" and lenw: "int (length (classified w)) = ?total"
    and trw: "trues w = (\<Union>j\<in>set xs. set (file_extents st j))"
    and cnt: "classifiedCount w = int (card (trues w))"
    using xs start total(1) by (auto simp: visited_def)
  have dom: "set xs = dom (imap st)"
  proof
    show "set xs \<subseteq> dom (imap st)" using xs by (auto simp: visited_def)
    show "dom (imap st) \<subseteq> set xs"
      using sub lookup_reaches [OF v(2)] by (fastforce simp: subtree_in_def lookup_def)
  qed
  have own: "e \<in> trues w \<longleftrightarrow> map_of (ownedBy ?a) e \<noteq> None" for e
  proof
    assume "e \<in> trues w"
    then obtain j where "e \<in> set (file_extents st j)" using trw by blast
    then show "map_of (ownedBy ?a) e \<noteq> None" using alloc_invD(4) [OF v(3), of e j] by simp
  next
    assume "map_of (ownedBy ?a) e \<noteq> None"
    then obtain j where j: "e \<in> set (file_extents st j)" using alloc_invD(4) [OF v(3)] by blast
    then have "imap st j \<noteq> None" by (cases "imap st j") (simp_all add: file_extents_def)
    with j dom trw show "e \<in> trues w" by (auto simp: domIff)
  qed
  have "trues w = dom (map_of (ownedBy ?a))" using own by (auto simp: domIff)
  then have owners: "classifiedCount w = int (length (ownedBy ?a))"
    using cnt length_dom [OF alloc_invD(2) [OF v(3)]] by simp
  have "nodes_bytes st xs = msum (\<lambda>_. inode_bytes) (inodes st)"
    using r(2) by (simp add: nodes_bytes_def msum_dom [OF table_invD(1) [OF v(1)]]
        sum_list_distinct_conv_sum_set dom)
  then have bytes: "basePayloadBytes st = calculatedBytes w + pool_bytes ?a"
    using v(5) b by (simp add: bytes_inv_def base_bytes_def)
  have len: "length xs = length (inodes st)"
    using distinct_card [OF r(2)] dom length_dom [OF table_invD(1) [OF v(1)]] by simp
  have totals: "validateTotals st w = Inr ()"
    unfolding validateTotals_Inr
    using r(1) len parent_count(1) [OF core] owners bytes v(4,5)
    by (auto simp: gen_inv_def bytes_inv_def u64_def)
  let ?items = "items (available ?a)"
  have av: "e \<in> extents_of (available ?a) \<longleftrightarrow> e \<in> set ?items" for e by (simp add: extents_of_def)
  have "0 \<le> e \<and> e < ?total \<and> e \<notin> trues w" if "e \<in> set ?items" for e
    using that alloc_invD(6) [OF v(3), of e] alloc_inv_range [OF v(3), of e] by (simp add: av own)
  then have avail: "fold_res classify ?items w = Inr (mark ?items w)"
    using extents_invD(2) [OF alloc_invD(1) [OF v(3)]] by (simp add: classifyAvailable_all lenw)
  have tr1: "trues (mark ?items w) = trues w \<union> set ?items"
    using lenw \<open>\<And>e. e \<in> set ?items \<Longrightarrow> 0 \<le> e \<and> e < ?total \<and> e \<notin> trues w\<close>
    by (intro trues_mark) auto
  have quar: "0 \<le> e \<and> e < ?total \<and> e \<notin> trues (mark ?items w) \<and> (g = None \<or> g = Some (generation st))"
    if "(e, g) \<in> set (quarantine ?a)" for e g
  proof -
    have "map_of (quarantine ?a) e = Some g"
      using that alloc_invD(3) [OF v(3)] by (simp add: wf_map_in_set)
    moreover from this have "map_of (ownedBy ?a) e = None"
      using alloc_invD(7) [OF v(3), of e] by (cases "map_of (ownedBy ?a) e") simp_all
    moreover have "e \<notin> set ?items"
      using \<open>map_of (quarantine ?a) e = Some g\<close> alloc_invD(6) [OF v(3), of e]
      by (auto simp: av [symmetric])
    ultimately show ?thesis
      using alloc_inv_range [OF v(3), of e] v(4)
      by (cases g) (auto simp: tr1 own gen_inv_def)
  qed
  let ?w2 = "mark (keys_of (quarantine ?a)) (mark ?items w)"
  have quar': "fold_res (classifyQuarantined st) (quarantine ?a) (mark ?items w) = Inr ?w2"
    using quar lenw alloc_invD(3) [OF v(3)] by (auto simp: classifyQuarantined_all wf_map_def)
  have "{0..<?total} = dom (map_of (ownedBy ?a)) \<union> set ?items \<union> set (keys_of (quarantine ?a))"
  proof -
    have key: "e \<in> set (keys_of (quarantine ?a)) \<longleftrightarrow> map_of (quarantine ?a) e \<noteq> None" for e
      by (metis domIff dom_map_of_conv_image_fst set_map)
    show ?thesis
      by (rule set_eqI, unfold Un_iff key av [symmetric] domIff atLeastLessThan_iff
          alloc_inv_range [OF v(3)]) blast
  qed
  moreover have "card (dom (map_of (ownedBy ?a)) \<union> set ?items \<union> set (keys_of (quarantine ?a)))
      = length (ownedBy ?a) + length ?items + length (quarantine ?a)"
  proof -
    have "set (keys_of (quarantine ?a)) = dom (map_of (quarantine ?a))"
      by (simp add: dom_map_of_conv_image_fst)
    then have d2: "(dom (map_of (ownedBy ?a)) \<union> set ?items) \<inter> set (keys_of (quarantine ?a)) = {}"
      using alloc_invD(6,7) [OF v(3)] by (auto simp: av [symmetric] domIff)
    have d1: "dom (map_of (ownedBy ?a)) \<inter> set ?items = {}"
      using alloc_invD(6) [OF v(3)] by (auto simp: av [symmetric] domIff)
    show ?thesis
      using card_Un_disjoint [OF _ _ d2] card_Un_disjoint [OF _ _ d1]
        length_dom [OF alloc_invD(2) [OF v(3)]] distinct_card [of ?items]
        distinct_card [of "keys_of (quarantine ?a)"] alloc_invD(3) [OF v(3)]
        extents_invD(2) [OF alloc_invD(1) [OF v(3)]]
      by (simp add: finite_dom_map_of wf_map_def)
  qed
  ultimately have "int (length (ownedBy ?a)) + int (length ?items) + int (length (quarantine ?a)) = ?total"
    using total(1) card_atLeastLessThan_int [of 0 ?total] by simp
  then have "classifiedCount ?w2 = ?total" using owners by simp
  then show ?thesis
    unfolding validateState_Inr
    using table_invD [OF v(1)] v(4) root parent_count(2) [OF core] total visit totals avail quar'
    by (auto simp: gen_inv_def u64_def limit_defs)
qed

end
