(* ===== verification/RepackProofs.thy ===== *)
theory RepackProofs
  imports ValidateProofs
begin

text \<open>
  The repack keeps the invariant, never fails on a valid state with a generation to spare, and
  never gives out an extent that a retained metadata file may still refer to.
\<close>

section \<open>Ageing the quarantine\<close>

text \<open>What becomes of a quarantined extent: \<open>None\<close> when it is reclaimed.\<close>

definition aged :: "int set \<Rightarrow> int \<Rightarrow> int option \<Rightarrow> int \<Rightarrow> int option \<Rightarrow> int option option" where
  "aged pinned next prev e fe =
     (if e \<in> pinned then Some None
      else case fe of
        None \<Rightarrow> Some (Some next)
      | Some g \<Rightarrow> if prev = None \<or> the prev < g then None else Some (Some g))"

lemma alloc_requarantine:
  assumes inv: "alloc_inv a F" and e: "map_of (quarantine a) e = Some fe"
  shows "alloc_inv (a\<lparr>quarantine := AList.update e x (quarantine a)\<rparr>) F"
    and "pool_bytes (a\<lparr>quarantine := AList.update e x (quarantine a)\<rparr>) = pool_bytes a"
proof -
  note d = alloc_invD [OF inv]
  have own: "map_of (ownedBy a) e = None" using d(7) [of e] e by (cases "map_of (ownedBy a) e") simp_all
  define a1 where "a1 = a\<lparr>quarantine := AList.update e x (quarantine a)\<rparr>"
  have a1: "totalExtents a1 = totalExtents a" "ownedBy a1 = ownedBy a" "available a1 = available a"
    "quarantine a1 = AList.update e x (quarantine a)" by (simp_all add: a1_def)
  have "alloc_inv a1 F"
  proof (rule alloc_invI, unfold a1)
    show "0 \<le> f \<and> f < totalExtents a \<longleftrightarrow> map_of (ownedBy a) f \<noteq> None \<or> f \<in> extents_of (available a)
        \<or> map_of (AList.update e x (quarantine a)) f \<noteq> None" for f
      using d(8) [of f] e by auto
    show "map_of (ownedBy a) f = None \<and> map_of (AList.update e x (quarantine a)) f = None"
      if "f \<in> extents_of (available a)" for f
      using that d(6) [of f] e by auto
    show "map_of (AList.update e x (quarantine a)) f = None" if "map_of (ownedBy a) f \<noteq> None" for f
      using that d(7) [of f] own by auto
    show "map_of (ownedBy a) f = Some j \<longleftrightarrow> f \<in> set (F j)" for f j by (rule d(4))
  qed (use d(1-3,5,9,10) in auto)
  then show "alloc_inv (a\<lparr>quarantine := AList.update e x (quarantine a)\<rparr>) F" by (simp add: a1_def)
  show "pool_bytes (a\<lparr>quarantine := AList.update e x (quarantine a)\<rparr>) = pool_bytes a"
    using e by (simp add: pool_bytes_def length_update [OF d(3)])
qed

lemma alloc_reclaim:
  assumes inv: "alloc_inv a F" and e: "map_of (quarantine a) e = Some fe"
  defines "a' \<equiv> a\<lparr>quarantine := AList.delete e (quarantine a), available := addExtent (available a) e\<rparr>"
  shows "alloc_inv a' F" and "pool_bytes a' = pool_bytes a - 8"
proof -
  note d = alloc_invD [OF inv]
  have own: "map_of (ownedBy a) e = None" using d(7) [of e] e by (cases "map_of (ownedBy a) e") simp_all
  have notav: "e \<notin> extents_of (available a)" using d(6) [of e] e by auto
  have av: "extents_of (addExtent (available a) e) = insert e (extents_of (available a))"
    using d(1) by (rule pool.elems_ins)
  have a': "totalExtents a' = totalExtents a" "ownedBy a' = ownedBy a"
    "available a' = addExtent (available a) e" "quarantine a' = AList.delete e (quarantine a)"
    by (simp_all add: a'_def)
  show "alloc_inv a' F"
  proof (rule alloc_invI, unfold a' av)
    show "extents_inv (addExtent (available a) e)" using d(1) by (rule pool.inv_ins)
    show "0 \<le> f \<and> f < totalExtents a \<longleftrightarrow> map_of (ownedBy a) f \<noteq> None
        \<or> f \<in> insert e (extents_of (available a)) \<or> map_of (AList.delete e (quarantine a)) f \<noteq> None" for f
      using d(8) [of f] e by auto
    show "map_of (ownedBy a) f = None \<and> map_of (AList.delete e (quarantine a)) f = None"
      if "f \<in> insert e (extents_of (available a))" for f
      using that d(6) [of f] own by auto
    show "map_of (AList.delete e (quarantine a)) f = None" if "map_of (ownedBy a) f \<noteq> None" for f
      using that d(7) [of f] by auto
    show "map_of (ownedBy a) f = Some j \<longleftrightarrow> f \<in> set (F j)" for f j by (rule d(4))
  qed (use d(2,3,5,9,10) in auto)
  have "int (length (AList.delete e (quarantine a))) = int (length (quarantine a)) - 1"
    using e length_delete [OF d(3), of e] by simp
  then show "pool_bytes a' = pool_bytes a - 8"
    using notav by (simp add: pool_bytes_def a'_def pool.size_ins [OF d(1)])
qed

lemma age_step:
  assumes inv: "alloc_inv a F" and e: "map_of (quarantine a) e = Some fe"
    and run: "ageQuarantine pinned next prev (e, fe) (a, p) = (a', p')"
  shows "alloc_inv a' F" and "p' - p = pool_bytes a' - pool_bytes a"
    and "map_of (quarantine a') = (map_of (quarantine a))(e := aged pinned next prev e fe)"
    and "ownedBy a' = ownedBy a" and "totalExtents a' = totalExtents a"
proof -
  consider (keep) x where "aged pinned next prev e fe = Some x"
      "a' = a\<lparr>quarantine := AList.update e x (quarantine a)\<rparr>" "p' = p"
    | (same) "aged pinned next prev e fe = Some fe" "a' = a" "p' = p"
    | (reclaim) "aged pinned next prev e fe = None" "p' = p - 8"
      "a' = a\<lparr>quarantine := AList.delete e (quarantine a), available := addExtent (available a) e\<rparr>"
    using run unfolding ageQuarantine_def aged_def by (auto split: if_splits option.splits)
  then have "alloc_inv a' F \<and> p' - p = pool_bytes a' - pool_bytes a
    \<and> map_of (quarantine a') = (map_of (quarantine a))(e := aged pinned next prev e fe)
    \<and> ownedBy a' = ownedBy a \<and> totalExtents a' = totalExtents a"
  proof cases
    case (keep x)
    show ?thesis
      using alloc_requarantine [OF inv e, of x] unfolding keep by simp
  next
    case same
    then show ?thesis using inv e by (simp add: fun_upd_idem)
  next
    case reclaim
    show ?thesis using alloc_reclaim [OF inv e] unfolding reclaim by simp
  qed
  then show "alloc_inv a' F" and "p' - p = pool_bytes a' - pool_bytes a"
    and "map_of (quarantine a') = (map_of (quarantine a))(e := aged pinned next prev e fe)"
    and "ownedBy a' = ownedBy a" and "totalExtents a' = totalExtents a" by blast+
qed

lemma age_all:
  assumes "alloc_inv a F" and "wf_map es"
    and "\<And>e fe. (e, fe) \<in> set es \<Longrightarrow> map_of (quarantine a) e = Some fe"
    and "fold (ageQuarantine pinned next prev) es (a, p) = (a', p')"
  shows "alloc_inv a' F \<and> p' - p = pool_bytes a' - pool_bytes a \<and> ownedBy a' = ownedBy a
     \<and> totalExtents a' = totalExtents a
     \<and> (\<forall>e. map_of (quarantine a') e = (case map_of es e of
          None \<Rightarrow> map_of (quarantine a) e | Some fe \<Rightarrow> aged pinned next prev e fe))"
  using assms
proof (induction es arbitrary: a p)
  case (Cons x es)
  obtain e fe where x: "x = (e, fe)" by (cases x)
  obtain a1 p1 where one: "ageQuarantine pinned next prev (e, fe) (a, p) = (a1, p1)"
    by (cases "ageQuarantine pinned next prev (e, fe) (a, p)")
  have e: "map_of (quarantine a) e = Some fe" using Cons.prems(3) [of e fe] x by simp
  note step = age_step [OF Cons.prems(1) e one]
  have new: "e \<notin> set (keys_of es)" and wf: "wf_map es" using Cons.prems(2) by (simp_all add: wf_map_def x)
  have "map_of (quarantine a1) f = Some ff" if "(f, ff) \<in> set es" for f ff
  proof -
    have "f \<noteq> e" using that new by (auto intro: rev_image_eqI)
    with Cons.prems(3) [of f ff] that step(3) show ?thesis by simp
  qed
  from Cons.IH [OF step(1) wf this, of p1] Cons.prems(4) one
  have rest: "alloc_inv a' F" "p' - p1 = pool_bytes a' - pool_bytes a1" "ownedBy a' = ownedBy a1"
     "totalExtents a' = totalExtents a1"
     "\<forall>e. map_of (quarantine a') e = (case map_of es e of
          None \<Rightarrow> map_of (quarantine a1) e | Some fe \<Rightarrow> aged pinned next prev e fe)"
    by (auto simp: x)
  have "map_of es e = None" using new by (simp add: map_of_eq_None_iff)
  then have "map_of (quarantine a') f = (case map_of (x # es) f of
          None \<Rightarrow> map_of (quarantine a) f | Some fe \<Rightarrow> aged pinned next prev f fe)" for f
    using rest(5) step(3) by (simp add: x split: option.split)
  with rest step show ?case by simp
qed simp

section \<open>Giving back the arena's tail\<close>

lemma trim_all:
  assumes "alloc_inv a F" and "trimTail a p = (a', p')"
  shows "alloc_inv a' F \<and> p' - p = pool_bytes a' - pool_bytes a \<and> ownedBy a' = ownedBy a
     \<and> quarantine a' = quarantine a \<and> totalExtents a' \<le> totalExtents a
     \<and> (totalExtents a' = 0 \<or> totalExtents a' - 1 \<notin> extents_of (available a'))"
  using assms
proof (induction a p rule: trimTail.induct)
  case (1 a p)
  note d = alloc_invD [OF 1(2)]
  let ?t = "totalExtents a - 1"
  show ?case
  proof (cases "0 < totalExtents a \<and> ?t \<in> extents_of (available a)")
    case False
    then have "trimTail a p = (a, p)"
      using deleteExtent_found [OF d(1), of ?t]
      by (subst trimTail.simps) (auto simp: Let_def split: prod.split)
    with 1(2,3) False d(9) show ?thesis by auto
  next
    case True
    obtain found av' where del: "deleteExtent (available a) ?t = (found, av')"
      by (cases "deleteExtent (available a) ?t")
    have found: "found" using deleteExtent_found [OF d(1), of ?t] True del by simp
    let ?av = "av'"
    let ?a1 = "a\<lparr>available := ?av, totalExtents := ?t\<rparr>"
    have a1: "totalExtents ?a1 = ?t" "ownedBy ?a1 = ownedBy a" "available ?a1 = ?av"
      "quarantine ?a1 = quarantine a" by simp_all
    have "trimTail a p = trimTail ?a1 (p - 8)"
      by (subst trimTail.simps) (use True found in \<open>simp add: Let_def del\<close>)
    then have run: "trimTail ?a1 (p - 8) = (a', p')" using 1(3) by simp
    have av: "extents_of ?av = extents_of (available a) - {?t}"
      using pool.elems_del [OF d(1), of ?t] by (simp add: del)
    have av_inv: "extents_inv ?av" using pool.inv_del [OF d(1), of ?t] by (simp add: del)
    have none: "map_of (ownedBy a) ?t = None \<and> map_of (quarantine a) ?t = None" using d(6) True by blast
    have inv1: "alloc_inv ?a1 F"
    proof (rule alloc_invI, unfold a1 av)
      show "extents_inv ?av" by (rule av_inv)
      show "0 \<le> f \<and> f < ?t \<longleftrightarrow> map_of (ownedBy a) f \<noteq> None \<or> f \<in> extents_of (available a) - {?t}
          \<or> map_of (quarantine a) f \<noteq> None" for f
        using d(8) [of f] none by (cases "f = ?t") auto
      show "map_of (ownedBy a) f = None \<and> map_of (quarantine a) f = None"
        if "f \<in> extents_of (available a) - {?t}" for f
        using that d(6) [of f] by simp
      show "map_of (ownedBy a) f = Some j \<longleftrightarrow> f \<in> set (F j)" for f j by (rule d(4))
      show "map_of (quarantine a) f = None" if "map_of (ownedBy a) f \<noteq> None" for f
        using that by (rule d(7))
    qed (use d(2,3,5,9,10) True in auto)
    have IH: "alloc_inv a' F \<and> p' - (p - 8) = pool_bytes a' - pool_bytes ?a1 \<and> ownedBy a' = ownedBy ?a1
       \<and> quarantine a' = quarantine ?a1 \<and> totalExtents a' \<le> totalExtents ?a1
       \<and> (totalExtents a' = 0 \<or> totalExtents a' - 1 \<notin> extents_of (available a'))"
      by (rule 1(1) [OF _ refl del [symmetric] _ inv1 run]) (use True found in simp_all)
    moreover have "pool_bytes ?a1 = pool_bytes a - 8"
      using True pool.size_del [OF d(1), of ?t] by (simp add: pool_bytes_def del)
    ultimately show ?thesis by simp
  qed
qed

section \<open>The repacked state\<close>

lemma cloned_alloc:
  assumes inv: "alloc_inv a F"
  shows "alloc_inv (a\<lparr>available := cloneExtents (available a)\<rparr>) F"
    and "pool_bytes (a\<lparr>available := cloneExtents (available a)\<rparr>) = pool_bytes a"
proof -
  note d = alloc_invD [OF inv]
  have av: "extents_of (cloneExtents (available a)) = extents_of (available a)"
    using cloneExtents_items(1) [OF d(1)] by (simp add: extents_of_def)
  define a1 where "a1 = a\<lparr>available := cloneExtents (available a)\<rparr>"
  have a1: "totalExtents a1 = totalExtents a" "ownedBy a1 = ownedBy a"
    "available a1 = cloneExtents (available a)" "quarantine a1 = quarantine a" by (simp_all add: a1_def)
  have "alloc_inv a1 F"
    by (rule alloc_invI, unfold a1 av)
      (rule d(2,3,4,5,7,8,9,10) cloneExtents_items(2) [OF d(1)] | rule d(6), assumption | assumption)+
  then show "alloc_inv (a\<lparr>available := cloneExtents (available a)\<rparr>) F" by (simp add: a1_def)
  show "pool_bytes (a\<lparr>available := cloneExtents (available a)\<rparr>) = pool_bytes a"
    using cloneExtents_items(1) [OF d(1)] by (simp add: pool_bytes_def sizeExtent_def)
qed

lemma other_other [simp]: "otherMetadataFile (otherMetadataFile m) = m" "otherMetadataFile m \<noteq> m"
  "m \<noteq> otherMetadataFile m"
  by (cases m; simp)+

text \<open>Under the generation invariant, an unpinned extent with a generation is always reclaimed.\<close>

lemma repacked_parts:
  fixes st :: VfsState and pinned :: "int set" and e :: int
  assumes inv: "vfs_inv st"
  defines "st' \<equiv> repackedState st (cloneState st) pinned"
  shows "alloc_inv (allocator st') (file_extents st)"
    and "basePayloadBytes st' = basePayloadBytes st + (pool_bytes (allocator st') - pool_bytes (allocator st))"
    and "ownedBy (allocator st') = ownedBy (allocator st)"
    and "totalExtents (allocator st') \<le> totalExtents (allocator st)"
    and "totalExtents (allocator st') = 0
      \<or> totalExtents (allocator st') - 1 \<notin> extents_of (available (allocator st'))"
    and "map_of (quarantine (allocator st')) e = (case map_of (quarantine (allocator st)) e of
          None \<Rightarrow> None
        | Some fe \<Rightarrow> if e \<in> pinned then Some None
            else if fe = None then Some (Some (generation st + 1)) else None)"
proof -
  note v = vfs_invD [OF inv]
  let ?a = "allocator st" and ?c = "(allocator st)\<lparr>available := cloneExtents (available (allocator st))\<rparr>"
  let ?next = "generation st + 1"
  let ?prev = "retainedGenerations st (otherMetadataFile (activeMetadataFile st))"
  note clone = cloned_alloc [OF v(3)]
  obtain a1 p1 where one: "fold (ageQuarantine pinned ?next ?prev) (quarantine ?a) (?c, basePayloadBytes st) = (a1, p1)"
    by (cases "fold (ageQuarantine pinned ?next ?prev) (quarantine ?a) (?c, basePayloadBytes st)")
  obtain a2 p2 where two: "trimTail a1 p1 = (a2, p2)" by (cases "trimTail a1 p1")
  have st': "allocator st' = a2" "basePayloadBytes st' = p2"
    by (simp_all add: st'_def repackedState_def cloneState_def Let_def one two)
  have wf: "wf_map (quarantine ?a)" using v(3) by (rule alloc_invD)
  have "map_of (quarantine ?c) e = Some fe" if "(e, fe) \<in> set (quarantine ?a)" for e fe
    using that wf by (simp add: wf_map_in_set)
  from age_all [OF clone(1) wf this one]
  have age: "alloc_inv a1 (file_extents st)" "p1 - basePayloadBytes st = pool_bytes a1 - pool_bytes ?c"
    "ownedBy a1 = ownedBy ?a" "totalExtents a1 = totalExtents ?a"
    "map_of (quarantine a1) e = (case map_of (quarantine ?a) e of
          None \<Rightarrow> None | Some fe \<Rightarrow> aged pinned ?next ?prev e fe)" for e
    by (auto split: option.split)
  from trim_all [OF age(1) two]
  have trim: "alloc_inv a2 (file_extents st)" "p2 - p1 = pool_bytes a2 - pool_bytes a1"
    "ownedBy a2 = ownedBy a1" "quarantine a2 = quarantine a1" "totalExtents a2 \<le> totalExtents a1"
    "totalExtents a2 = 0 \<or> totalExtents a2 - 1 \<notin> extents_of (available a2)" by simp_all
  show "alloc_inv (allocator st') (file_extents st)" by (simp add: st' trim(1))
  show "basePayloadBytes st' = basePayloadBytes st + (pool_bytes (allocator st') - pool_bytes ?a)"
    using age(2) trim(2) clone(2) by (simp add: st')
  show "ownedBy (allocator st') = ownedBy ?a" using age(3) trim(3) by (simp add: st')
  show "totalExtents (allocator st') \<le> totalExtents ?a" using age(4) trim(5) by (simp add: st')
  show "totalExtents (allocator st') = 0
      \<or> totalExtents (allocator st') - 1 \<notin> extents_of (available (allocator st'))"
    using trim(6) by (simp add: st')
  have "aged pinned ?next ?prev e fe = (if e \<in> pinned then Some None
            else if fe = None then Some (Some ?next) else None)"
    if "map_of (quarantine ?a) e = Some fe" for fe
  proof (cases fe)
    case (Some g)
    then have "g = generation st" using that v(4) by (simp add: gen_inv_def)
    moreover have "?prev = None \<or> the ?prev + 1 = generation st"
      using v(4) by (cases ?prev) (simp_all add: gen_inv_def)
    ultimately show ?thesis using Some by (auto simp: aged_def)
  qed (simp add: aged_def)
  then show "map_of (quarantine (allocator st')) e = (case map_of (quarantine ?a) e of
          None \<Rightarrow> None
        | Some fe \<Rightarrow> if e \<in> pinned then Some None
            else if fe = None then Some (Some ?next) else None)"
    using age(5) [of e] trim(4) by (simp add: st' split: option.split)
qed

lemma repacked_fields:
  "inodes (repackedState st (cloneState st) pinned) = inodes st"
  "parentByInode (repackedState st (cloneState st) pinned) = parentByInode st"
  "rootInodeId (repackedState st (cloneState st) pinned) = rootInodeId st"
  "extentSize (repackedState st (cloneState st) pinned) = extentSize st"
  "nextInodeId (repackedState st (cloneState st) pinned) = nextInodeId st"
  "generation (repackedState st (cloneState st) pinned) = generation st + 1"
  "activeMetadataFile (repackedState st (cloneState st) pinned) = otherMetadataFile (activeMetadataFile st)"
  "retainedGenerations (repackedState st (cloneState st) pinned)
     = (retainedGenerations st)(otherMetadataFile (activeMetadataFile st) := Some (generation st + 1))"
  by (simp_all add: repackedState_def cloneState_def Let_def)

lemma repacked_lookup: "lookup (repackedState st (cloneState st) pinned) = lookup st"
  by (rule lookup_cong [OF child_of_cong]) (rule repacked_fields)+

lemma alloc_inv_free:
  assumes "alloc_inv a F"
  shows "extents_of (available a) \<union> dom (map_of (quarantine a))
    = {x. 0 \<le> x \<and> x < totalExtents a \<and> map_of (ownedBy a) x = None}"
proof (rule set_eqI)
  fix x
  show "x \<in> extents_of (available a) \<union> dom (map_of (quarantine a))
    \<longleftrightarrow> x \<in> {x. 0 \<le> x \<and> x < totalExtents a \<and> map_of (ownedBy a) x = None}"
    using alloc_inv_range [OF assms, of x] alloc_invD(6,7) [OF assms, of x]
    by (cases "map_of (ownedBy a) x") (auto simp: domIff)
qed

lemma repacked_pool:
  assumes inv: "vfs_inv st"
  shows "pool_bytes (allocator (repackedState st (cloneState st) pinned)) \<le> pool_bytes (allocator st)"
proof -
  note v = vfs_invD [OF inv] and p = repacked_parts [OF inv, of pinned]
  let ?st' = "repackedState st (cloneState st) pinned"
  let ?q = "\<lambda>s. dom (map_of (quarantine (allocator s)))" and ?e = "\<lambda>s. extents_of (available (allocator s))"
  have sub: "?q ?st' \<subseteq> ?q st" using p(6) by (auto split: option.splits)
  have "?e ?st' \<union> ?q ?st' \<subseteq> ?e st \<union> ?q st"
    unfolding alloc_inv_free [OF p(1)] alloc_inv_free [OF v(3)] using p(3,4) by auto
  then have c1: "card (?e ?st' \<union> ?q ?st') \<le> card (?e st \<union> ?q st)"
    by (intro card_mono) (simp_all add: extents_of_def finite_dom_map_of)
  have c2: "card (?q ?st') \<le> card (?q st)"
    using sub by (intro card_mono) (simp_all add: finite_dom_map_of)
  have dis: "?e s \<inter> ?q s = {}" if "alloc_inv (allocator s) (file_extents st)" for s
    using alloc_invD(6) [OF that] by (auto simp: domIff)
  have size: "pool_bytes (allocator s) = 8 * int (card (?e s \<union> ?q s)) + 8 * int (card (?q s))"
    if "alloc_inv (allocator s) (file_extents st)" for s
    using card_Un_disjoint [OF _ _ dis [OF that]] sizeExtent_card [OF alloc_invD(1) [OF that]]
      length_dom [OF alloc_invD(3) [OF that]]
    by (simp add: pool_bytes_def extents_of_def finite_dom_map_of)
  show ?thesis unfolding size [OF p(1)] size [OF v(3)] using c1 c2 by simp
qed

lemma repacked_inv:
  assumes inv: "vfs_inv st" and gen: "generation st \<noteq> MAX_U64"
  shows "vfs_inv (repackedState st (cloneState st) pinned)"
proof -
  note v = vfs_invD [OF inv] and p = repacked_parts [OF inv, of pinned] and f = repacked_fields [of st pinned]
  let ?st' = "repackedState st (cloneState st) pinned"
  have "table_inv ?st'"
    using v(1) by (rule table_cong) (use table_invD(6) [OF v(1)] in \<open>simp_all only: f order_refl\<close>)
  moreover have "tree_inv ?st'"
    using v(2) by (rule tree_inv_cong [OF _ child_of_cong]) (simp_all only: f)
  moreover have "alloc_inv (allocator ?st') (file_extents ?st')"
    using p(1) file_extents_cong [OF f(1)] by simp
  moreover have "gen_inv ?st'"
    unfolding gen_inv_def
  proof (intro conjI allI impI)
    show "generation ?st' \<le> MAX_U64" using v(4) gen by (simp add: gen_inv_def f)
    show "g = generation ?st'" if "map_of (quarantine (allocator ?st')) e = Some (Some g)" for e g
      using that p(6) [of e] by (simp add: f split: option.splits if_splits)
    show "0 < g" "g + 1 = generation ?st'"
      if "retainedGenerations ?st' (otherMetadataFile (activeMetadataFile ?st')) = Some g" for g
      using that v(4) by (simp_all add: f gen_inv_def)
  qed (use v(4) in \<open>simp_all add: f gen_inv_def\<close>)
  moreover have "bytes_inv ?st'"
  proof -
    have same: "table_bytes_of ?st' = table_bytes_of st" by (rule table_bytes_cong) (rule f)
    note le = repacked_pool [OF inv, of pinned]
    with v(5) p(2) same show ?thesis by (simp add: bytes_inv_def base_bytes_parts)
  qed
  ultimately show ?thesis by (simp add: vfs_inv_def)
qed

lemma projectRepack_ok:
  assumes inv: "vfs_inv st" and ok: "paths_ok st"
  shows "projectRepack st pinned = (if generation st = MAX_U64 then Inl StoreLimitError
      else Inr (repackedState st (cloneState st) pinned))"
proof (cases "generation st = MAX_U64")
  case False
  have "paths_ok (repackedState st (cloneState st) pinned)"
    using ok repacked_lookup by (rule paths_ok_cong)
  with False repacked_inv [OF inv False] validateState_complete show ?thesis
    by (simp add: projectRepack_def projectRepackFromCopy_def Let_def)
qed (simp add: projectRepack_def projectRepackFromCopy_def)

lemma projectRepackForActivation_eq: "projectRepackForActivation st pinned = projectRepack st pinned"
  by (simp add: projectRepackForActivation_def projectRepack_def cloneState_def)

end
