(* ===== verification/Steps.thy ===== *)
theory Steps
  imports PlansTree RepackProofs
begin

text \<open>
  The state machine as its driver runs it: transactions that a planner of \<open>state-machine.ts\<close> produced
  against the current state, and repacks. Reachable states satisfy the invariant and the path
  bounds; and no allocation ever hands out an extent that a retained metadata file still refers to.
\<close>

section \<open>Transactional reducers\<close>

text \<open>
  What a log needs of the reducer it drives: an accepted record keeps the invariant, and a refused
  one leaves the state as it was.
\<close>

locale transactional =
  fixes run :: "'s \<Rightarrow> 'r \<Rightarrow> 'e option \<times> 's" and inv :: "'s \<Rightarrow> bool"
  assumes keeps: "inv s \<Longrightarrow> run s r = (None, s') \<Longrightarrow> inv s'"
    and atomic: "inv s \<Longrightarrow> run s r = (Some e, s') \<Longrightarrow> s' = s"
begin

lemma one: "inv s \<Longrightarrow> inv (snd (run s r))"
  using keeps atomic by (metis option.exhaust prod.collapse)

lemma all: "inv s \<Longrightarrow> inv (fold (\<lambda>r s. snd (run s r)) rs s)"
  by (induction rs arbitrary: s) (simp_all add: one)

text \<open>A batch that is refused part of the way has the effect of its accepted records alone.\<close>

lemma refused_skip: "inv s \<Longrightarrow> fst (run s r) \<noteq> None \<Longrightarrow> snd (run s r) = s"
  using atomic by (cases "run s r") auto

lemma accepted_only:
  "inv s \<Longrightarrow> \<exists>ks. subseq ks rs \<and> fold (\<lambda>r s. snd (run s r)) rs s = fold (\<lambda>r s. snd (run s r)) ks s
     \<and> (\<forall>i < length ks. fst (run (fold (\<lambda>r s. snd (run s r)) (take i ks) s) (ks ! i)) = None)"
proof (induction rs arbitrary: s)
  case (Cons r rs)
  show ?case
  proof (cases "fst (run s r)")
    case None
    from Cons.IH [OF one [OF Cons.prems], of r] obtain ks where ks: "subseq ks rs"
      "fold (\<lambda>r s. snd (run s r)) rs (snd (run s r)) = fold (\<lambda>r s. snd (run s r)) ks (snd (run s r))"
      "\<forall>i < length ks. fst (run (fold (\<lambda>r s. snd (run s r)) (take i ks) (snd (run s r))) (ks ! i)) = None"
      by blast
    have "fst (run (fold (\<lambda>r s. snd (run s r)) (take i (r # ks)) s) ((r # ks) ! i)) = None"
      if "i < length (r # ks)" for i
      using that ks(3) None by (cases i) auto
    with ks show ?thesis by (intro exI [of _ "r # ks"]) simp
  next
    case (Some e)
    with Cons.IH [OF Cons.prems] refused_skip [OF Cons.prems, of r] show ?thesis by auto
  qed
qed auto

end

interpretation reducer: transactional "\<lambda>st r. applyTxn st r None" vfs_inv
proof unfold_locales
  show "vfs_inv st'" if "vfs_inv st" "applyTxn st r None = (None, st')" for st r st'
    using that by (rule applyTxn_inv)
  show "st' = st" if "vfs_inv st" "applyTxn st r None = (Some e, st')" for st r e st'
    using that applyTxn_atomic by (simp add: vfs_inv_core)
qed

section \<open>Steps\<close>

inductive planned :: "VfsState \<Rightarrow> TxnRecord \<Rightarrow> bool" where
  planned_mkdir: "planMkdir st p recursive modeOption now = Inr r \<Longrightarrow> planned st r"
| planned_create: "planCreateFile st p modeOption now sizeOption = Inr r \<Longrightarrow> planned st r"
| planned_symlink: "planSymlink st p target modeOption now = Inr r \<Longrightarrow> planned st r"
| planned_unlink: "planUnlink st p now = Inr r \<Longrightarrow> planned st r"
| planned_rmdir: "planRmdir st p now = Inr r \<Longrightarrow> planned st r"
| planned_chmod: "planChmod st p mode now = Inr r \<Longrightarrow> planned st r"
| planned_utimes: "planUtimes st p atime mtime ctime = Inr r \<Longrightarrow> planned st r"
| planned_resize: "planResizeFile st p fsize now operation = Inr r \<Longrightarrow> planned st r"
| planned_resize_inode: "planResizeFileForInode st inode fsize now operation = Inr r \<Longrightarrow>
    body inode = File old extents \<Longrightarrow> planned st r"
| planned_rename: "planRename st old new now = Inr r \<Longrightarrow> planned st r"
| planned_reserve: "planReserveQuarantine st n = Inr r \<Longrightarrow> planned st r"

inductive step :: "VfsState \<Rightarrow> VfsState \<Rightarrow> bool" where
  step_txn: "planned st r \<Longrightarrow> applyTxn st r None = (None, st') \<Longrightarrow> step st st'"
| step_repack: "projectRepack st pinned = Inr st' \<Longrightarrow> step st st'"

inductive_cases step_cases: "step st st'"

inductive reachable :: "VfsState \<Rightarrow> bool" where
  reachable_init: "createInitialState ext = Inr st \<Longrightarrow> reachable st"
| reachable_step: "reachable st \<Longrightarrow> step st st' \<Longrightarrow> reachable st'"

section \<open>Planned records\<close>

lemma reduced_lookup: "lookup (s\<lparr>basePayloadBytes := b\<rparr>) = lookup s"
  by (rule lookup_cong [OF child_of_bytes]) simp

lemma paths_ok_leaf:
  assumes "paths_ok st" and "path_ok (pp @ [n])"
    and "\<And>cs. lookup s cs = (if cs = pp @ [n] then Some k else lookup st cs)"
  shows "paths_ok s"
  using assms unfolding paths_ok_def by metis

lemma paths_ok_remove:
  assumes "paths_ok st" and "\<And>cs. lookup s cs = (if cs = q then None else lookup st cs)"
  shows "paths_ok s"
  using assms unfolding paths_ok_def by (metis option.simps(3))

lemma paths_ok_rename:
  assumes ok: "paths_ok st" and new: "\<And>b i. lookup st (ps @ sn # b) = Some i \<Longrightarrow> path_ok (pd @ dn # b)"
    and moved: "\<And>b. lookup s (pd @ dn # b) = lookup st (ps @ sn # b)"
    and rest: "\<And>cs. \<not> prefix (pd @ [dn]) cs \<Longrightarrow>
      lookup s cs = (if prefix (ps @ [sn]) cs then None else lookup st cs)"
  shows "paths_ok s"
  unfolding paths_ok_def
proof (intro allI impI)
  fix cs i
  assume cs: "lookup s cs = Some i"
  show "path_ok cs"
  proof (cases "prefix (pd @ [dn]) cs")
    case True
    then obtain b where "cs = pd @ dn # b" by (auto elim: prefixE)
    with cs moved new show ?thesis by metis
  next
    case False
    with cs rest [OF False] ok show ?thesis by (auto simp: paths_ok_def split: if_splits)
  qed
qed

lemma planned_ok:
  assumes inv: "vfs_inv st" and ok: "paths_ok st" and plan: "planned st r"
  obtains s where "accepted st r s" and "paths_ok s"
proof -
  have core: "core_inv st" using inv by (simp add: vfs_inv_core)
  have same: "paths_ok s" if "lookup s = lookup st" for s
    using ok that by (rule paths_ok_cong)
  from plan show thesis
  proof cases
    case (planned_mkdir p recursive modeOption now)
    show ?thesis
      by (rule planMkdir_shape [OF inv planned_mkdir]) (rule that, assumption, rule mkdir_paths_ok [OF inv ok])
  next
    case (planned_create p modeOption now sizeOption)
    obtain pp name choice fsize runs s where sh: "r = CreateFile choice fsize runs" "path_ok (pp @ [name])"
      "lookup st pp = Some (choiceParentId choice)" "choiceName choice = name"
      "accepted st r s" "applyCreateFile st choice fsize runs = Inr s"
      by (rule planCreateFile_shape [OF inv planned_create])
    have "paths_ok s"
      using ok sh(2) createFile_reduces(2) [OF core sh(6,3)] unfolding sh(4) by (rule paths_ok_leaf)
    with sh(5) show ?thesis by (rule that)
  next
    case (planned_symlink p target modeOption now)
    obtain pp name choice s where sh: "r = CreateSymlink choice target" "path_ok (pp @ [name])"
      "lookup st pp = Some (choiceParentId choice)" "choiceName choice = name"
      "accepted st r s" "applyCreateSymlink st choice target = Inr s"
      by (rule planSymlink_shape [OF inv planned_symlink])
    have "paths_ok s"
      using ok sh(2) createSymlink_reduces(2) [OF core sh(6,3)] unfolding sh(4) by (rule paths_ok_leaf)
    with sh(5) show ?thesis by (rule that)
  next
    case (planned_unlink p now)
    obtain pp name i s where sh: "lookup st pp = Some i" "accepted st r s"
      "applyRemoveFile st i name now now = Inr s"
      by (rule planUnlink_shape [OF inv planned_unlink])
    have "paths_ok s" using ok removeFile_reduces(2) [OF core sh(3,1)] by (rule paths_ok_remove)
    with sh(2) show ?thesis by (rule that)
  next
    case (planned_rmdir p now)
    obtain pp name i s where sh: "lookup st pp = Some i" "accepted st r s"
      "applyRemoveDirectory st i name now now = Inr s"
      by (rule planRmdir_shape [OF inv planned_rmdir])
    have "paths_ok s" using ok removeDirectory_reduces(2) [OF core sh(3,1)] by (rule paths_ok_remove)
    with sh(2) show ?thesis by (rule that)
  next
    case (planned_chmod p mode now)
    show ?thesis
      by (rule planChmod_shape [OF inv planned_chmod])
        (rule that, assumption, rule same, rule changeMode_reduces(2) [OF core])
  next
    case (planned_utimes p atime mtime ctime)
    show ?thesis
      by (rule planUtimes_shape [OF inv planned_utimes])
        (rule that, assumption, rule same, rule changeTimes_reduces(2) [OF core])
  next
    case (planned_resize p fsize now operation)
    show ?thesis
      by (rule planResizeFile_shape [OF inv planned_resize])
        (rule that, assumption, rule same, rule resizeFile_reduces(2) [OF core])
  next
    case (planned_resize_inode inode fsize now operation old extents)
    show ?thesis
      by (rule planResizeFileForInode_shape [OF inv planned_resize_inode])
        (rule that, assumption, rule same, rule resizeFile_reduces(2) [OF core])
  next
    case (planned_rename old new now)
    obtain ps sn pd dn sp dp s where sh: "lookup st ps = Some sp" "lookup st pd = Some dp"
      "accepted st r s" "applyRename st sp sn dp dn now = Inr s"
      "\<And>b i. lookup st (ps @ sn # b) = Some i \<Longrightarrow> path_ok (pd @ dn # b)"
      by (rule planRename_shape [OF inv planned_rename]) (rule that, assumption+)
    have "paths_ok s"
      using ok sh(5) rename_reduces(2,3) [OF core sh(4,1,2)] by (rule paths_ok_rename)
    with sh(3) show ?thesis by (rule that)
  next
    case (planned_reserve n)
    show ?thesis
      by (rule planReserveQuarantine_shape [OF inv planned_reserve])
        (rule that, assumption, rule same, rule reserveQuarantine_reduces(2) [OF core])
  qed
qed

lemma planned_applies:
  assumes inv: "vfs_inv st" and ok: "paths_ok st" and plan: "planned st r"
  obtains st' where "applyTxn st r None = (None, st')" and "vfs_inv st'" and "paths_ok st'"
proof -
  obtain s where acc: "accepted st r s" and s: "paths_ok s" by (rule planned_ok [OF assms])
  from accepted_applies [OF acc] obtain b where run: "applyTxn st r None = (None, s\<lparr>basePayloadBytes := b\<rparr>)"
    by blast
  moreover have "vfs_inv (s\<lparr>basePayloadBytes := b\<rparr>)" by (rule applyTxn_inv [OF inv run])
  moreover have "paths_ok (s\<lparr>basePayloadBytes := b\<rparr>)" using s reduced_lookup by (rule paths_ok_cong)
  ultimately show thesis by (rule that)
qed

lemma repack_applies:
  assumes inv: "vfs_inv st" and ok: "paths_ok st" and run: "projectRepack st pinned = Inr st'"
  shows "st' = repackedState st (cloneState st) pinned" and "vfs_inv st'" and "paths_ok st'"
proof -
  have gen: "generation st \<noteq> MAX_U64" and st': "st' = repackedState st (cloneState st) pinned"
    using run projectRepack_ok [OF inv ok, of pinned] by (simp_all split: if_splits)
  show "st' = repackedState st (cloneState st) pinned" by (rule st')
  show "vfs_inv st'" unfolding st' by (rule repacked_inv [OF inv gen])
  show "paths_ok st'" using ok unfolding st' by (rule paths_ok_cong) (rule repacked_lookup)
qed

lemma step_inv:
  assumes "vfs_inv st" and "paths_ok st" and "step st st'"
  shows "vfs_inv st' \<and> paths_ok st'"
proof (rule step_cases [OF assms(3)])
  fix r
  assume "planned st r" and "applyTxn st r None = (None, st')"
  then show ?thesis using planned_applies [OF assms(1,2), of r] by auto
next
  fix pinned
  assume "projectRepack st pinned = Inr st'"
  then show ?thesis using repack_applies [OF assms(1,2)] by blast
qed

lemma reachable_inv: "reachable st \<Longrightarrow> vfs_inv st \<and> paths_ok st"
  by (induction rule: reachable.induct) (use createInitialState_inv step_inv in blast)+

lemmas reachable_vfs = reachable_inv [THEN conjunct1]
lemmas reachable_paths = reachable_inv [THEN conjunct2]

end
