(* ===== verification/Retention.thy ===== *)
theory Retention
  imports Steps
begin

text \<open>
  Why quarantine is enough. A metadata file that is retained after a repack still describes files by
  the extents its base and log named; a fallback to it reads those extents. The history \<open>h\<close> below
  records, for each metadata file, every extent that a state recoverable from it can own: at a repack
  the file starts over with the owned extents of the projected state, and each transaction adds to
  the active file what the new state owns. No allocation returns an extent of a retained history.
\<close>

definition owned :: "VfsState \<Rightarrow> int set" where
  "owned st = dom (map_of (ownedBy (allocator st)))"

inductive traced :: "VfsState \<Rightarrow> (MetadataFile \<Rightarrow> int set) \<Rightarrow> bool" where
  traced_init: "createInitialState ext = Inr st \<Longrightarrow> traced st (\<lambda>_. {})"
| traced_txn: "traced st h \<Longrightarrow> planned st r \<Longrightarrow> applyTxn st r None = (None, st') \<Longrightarrow>
    traced st' (h(activeMetadataFile st := h (activeMetadataFile st) \<union> owned st'))"
| traced_repack: "traced st h \<Longrightarrow> projectRepack st pinned = Inr st' \<Longrightarrow>
    traced st' (h(activeMetadataFile st' := owned st'))"

lemma traced_reachable: "traced st h \<Longrightarrow> reachable st"
  by (induction rule: traced.induct) (blast intro: reachable.intros step.intros)+

section \<open>What a transaction does to owned and quarantined extents\<close>

definition guards :: "AllocatorState \<Rightarrow> AllocatorState \<Rightarrow> bool" where
  "guards a b \<longleftrightarrow>
     (\<forall>e. map_of (ownedBy a) e \<noteq> None \<longrightarrow>
        map_of (ownedBy b) e \<noteq> None \<or> map_of (quarantine b) e = Some None)
     \<and> (\<forall>e. map_of (quarantine a) e = Some None \<longrightarrow> map_of (quarantine b) e = Some None)
     \<and> (\<forall>e. map_of (quarantine a) e \<noteq> None \<longrightarrow> map_of (quarantine b) e \<noteq> None)"

lemma guards_refl [simp]: "guards a a"
  by (simp add: guards_def)

lemma guards_trans: "guards a b \<Longrightarrow> guards b c \<Longrightarrow> guards a c"
  unfolding guards_def by metis

lemma guards_own: "guards a (fold (ownExtent i) es a)"
proof (induction es arbitrary: a)
  case (Cons e es)
  have "guards a (ownExtent i e a)" by (simp add: guards_def)
  then show ?case using Cons [of "ownExtent i e a"] by (simp only: fold_Cons o_apply) (rule guards_trans)
qed simp

lemma guards_release: "guards a (fold releaseExtent es a)"
proof (induction es arbitrary: a)
  case (Cons e es)
  have "guards a (releaseExtent e a)" by (simp add: guards_def)
  then show ?case using Cons [of "releaseExtent e a"] by (simp only: fold_Cons o_apply) (rule guards_trans)
qed simp

lemma guards_reserve: "guards a (fold reserveExtent es a)"
proof (induction es arbitrary: a)
  case (Cons e es)
  have "guards a (reserveExtent e a)" by (simp add: guards_def)
  then show ?case using Cons [of "reserveExtent e a"] by (simp only: fold_Cons o_apply) (rule guards_trans)
qed simp

text \<open>A transaction moves extents only this way, and never the bookkeeping of generations.\<close>

definition framed :: "VfsState \<Rightarrow> VfsState \<Rightarrow> bool" where
  "framed st st' \<longleftrightarrow> activeMetadataFile st' = activeMetadataFile st
     \<and> retainedGenerations st' = retainedGenerations st \<and> guards (allocator st) (allocator st')"

lemma framed_refl [simp]: "framed st st"
  by (simp add: framed_def)

lemma framed_trans: "framed a b \<Longrightarrow> framed b c \<Longrightarrow> framed a c"
  by (auto simp: framed_def intro: guards_trans)

lemma entry_framed: "applyDirectoryEntry e st = (x, st') \<Longrightarrow> framed st st'"
  by (auto simp: applyDirectoryEntry_def framed_def Let_def update_simps split: sum.splits)

lemma entries_framed: "applyDirectoryEntries es st = (x, st') \<Longrightarrow> framed st st'"
proof (induction es arbitrary: st)
  case (Cons e es)
  obtain y s where one: "applyDirectoryEntry e st = (y, s)" by (cases "applyDirectoryEntry e st")
  with Cons show ?case
    using entry_framed [OF one] by (cases y) (auto intro: framed_trans)
qed simp

lemma create_framed: "applyCreateFile st choice fsize runs = Inr st' \<Longrightarrow> framed st st'"
  by (auto simp: applyCreateFile_def ebind_eq_Inr if_Inl_eq_Inr framed_def Let_def update_simps guards_own)

lemma symlink_framed: "applyCreateSymlink st choice target = Inr st' \<Longrightarrow> framed st st'"
  by (auto simp: applyCreateSymlink_def ebind_eq_Inr if_Inl_eq_Inr framed_def Let_def update_simps)

lemma remove_framed: "applyRemoveFile st p n m c = Inr st' \<Longrightarrow> framed st st'"
  by (auto simp: applyRemoveFile_def ebind_eq_Inr if_Inl_eq_Inr option_Inl_eq_Inr framed_def Let_def
      update_simps guards_release)

lemma rmdir_framed: "applyRemoveDirectory st p n m c = Inr st' \<Longrightarrow> framed st st'"
  by (auto simp: applyRemoveDirectory_def ebind_eq_Inr if_Inl_eq_Inr option_Inl_eq_Inr framed_def
      Let_def update_simps)

lemma resize_framed: "applyResizeFile st k fsize runs m c = Inr st' \<Longrightarrow> framed st st'"
  by (auto simp: applyResizeFile_def ebind_eq_Inr if_Inl_eq_Inr framed_def Let_def update_simps
      intro: guards_trans [OF guards_own guards_release])

lemma rename_framed: "applyRename st sp sn dp dn now = Inr st' \<Longrightarrow> framed st st'"
  by (auto simp: applyRename_def commitRename_def ebind_eq_Inr if_Inl_eq_Inr option_Inl_eq_Inr framed_def
      Let_def update_simps guards_release split: option.splits)

lemma reserve_framed: "applyReserveQuarantine st runs = Inr st' \<Longrightarrow> framed st st'"
  by (auto simp: applyReserveQuarantine_def ebind_eq_Inr if_Inl_eq_Inr framed_def Let_def guards_reserve)

lemma mode_framed: "applyChangeMode st k m c = Inr st' \<Longrightarrow> framed st st'"
  by (auto simp: applyChangeMode_def ebind_eq_Inr framed_def update_simps)

lemma times_framed: "applyChangeTimes st k a m c = Inr st' \<Longrightarrow> framed st st'"
  by (auto simp: applyChangeTimes_def ebind_eq_Inr framed_def update_simps)

lemmas reducers_framed = create_framed symlink_framed remove_framed rmdir_framed resize_framed
  rename_framed reserve_framed mode_framed times_framed

lemma reduce_framed: "reduceTxn st r = (None, st') \<Longrightarrow> framed st st'"
  by (cases r) (auto simp: reduceTxn_def liftReducer_eq split: sum.splits
      intro: reducers_framed entries_framed)

lemma txn_framed: "applyTxn st r None = (None, st') \<Longrightarrow> framed st st'"
  using reduce_framed by (fastforce simp: applyTxn_None framed_def)

section \<open>The histories of retained files\<close>

definition protected :: "VfsState \<Rightarrow> (MetadataFile \<Rightarrow> int set) \<Rightarrow> bool" where
  "protected st h \<longleftrightarrow>
     (\<forall>e\<in>h (activeMetadataFile st). map_of (ownedBy (allocator st)) e \<noteq> None
        \<or> map_of (quarantine (allocator st)) e = Some None)
     \<and> (\<forall>e\<in>h (otherMetadataFile (activeMetadataFile st)). map_of (ownedBy (allocator st)) e \<noteq> None
        \<or> map_of (quarantine (allocator st)) e \<noteq> None)"

lemma protected_txn:
  assumes p: "protected st h" and f: "framed st st'"
  shows "protected st' (h(activeMetadataFile st := h (activeMetadataFile st) \<union> owned st'))"
proof -
  have act: "activeMetadataFile st' = activeMetadataFile st" and g: "guards (allocator st) (allocator st')"
    using f by (simp_all add: framed_def)
  have "map_of (ownedBy (allocator st')) e \<noteq> None \<or> map_of (quarantine (allocator st')) e = Some None"
    if "e \<in> h (activeMetadataFile st) \<union> owned st'" for e
  proof (cases "e \<in> owned st'")
    case False
    with that p have "map_of (ownedBy (allocator st)) e \<noteq> None
      \<or> map_of (quarantine (allocator st)) e = Some None" by (simp add: protected_def)
    with g show ?thesis unfolding guards_def by blast
  qed (auto simp: owned_def)
  moreover have "map_of (ownedBy (allocator st')) e \<noteq> None \<or> map_of (quarantine (allocator st')) e \<noteq> None"
    if "e \<in> h (otherMetadataFile (activeMetadataFile st))" for e
  proof -
    from that p have "map_of (ownedBy (allocator st)) e \<noteq> None
      \<or> map_of (quarantine (allocator st)) e \<noteq> None" by (simp add: protected_def)
    with g show ?thesis unfolding guards_def by fastforce
  qed
  ultimately show ?thesis by (simp add: protected_def act)
qed

lemma protected_repack:
  fixes st :: VfsState and pinned :: "int set"
  assumes inv: "vfs_inv st" and p: "protected st h"
  defines "st' \<equiv> repackedState st (cloneState st) pinned"
  shows "protected st' (h(activeMetadataFile st' := owned st'))"
proof -
  note parts = repacked_parts [OF inv, of pinned, folded st'_def]
  have act: "activeMetadataFile st' = otherMetadataFile (activeMetadataFile st)"
    by (simp add: st'_def repacked_fields)
  have "map_of (ownedBy (allocator st')) e \<noteq> None \<or> map_of (quarantine (allocator st')) e \<noteq> None"
    if "e \<in> h (activeMetadataFile st)" for e
    using that p parts(3) parts(6) [of e] unfolding protected_def by (auto split: option.splits if_splits)
  then show ?thesis by (auto simp: protected_def act owned_def)
qed

lemma traced_protected: "traced st h \<Longrightarrow> protected st h"
proof (induction rule: traced.induct)
  case (traced_init ext st)
  then show ?case by (simp add: protected_def)
next
  case (traced_txn st h r st')
  then show ?case using protected_txn txn_framed by blast
next
  case (traced_repack st h pinned st')
  have inv: "vfs_inv st" "paths_ok st"
    using traced_reachable [OF traced_repack(1)] reachable_inv by blast+
  show ?case
    unfolding repack_applies(1) [OF inv traced_repack(2)] by (rule protected_repack [OF inv(1) traced_repack(3)])
qed

text \<open>An allocation takes available or fresh extents, which are neither owned nor quarantined.\<close>

lemma assignable_source:
  "assignable a es \<Longrightarrow> extents_inv (available a) \<Longrightarrow> e \<in> set es \<Longrightarrow>
     e \<in> extents_of (available a) \<or> totalExtents a \<le> e"
proof (induction es arbitrary: a)
  case (Cons x es)
  show ?case
  proof (cases "e = x")
    case False
    have "e \<in> extents_of (available (takeExtent x a)) \<or> totalExtents (takeExtent x a) \<le> e"
    proof (rule Cons.IH)
      show "assignable (takeExtent x a) es" using Cons.prems(1) by simp
      show "extents_inv (available (takeExtent x a))" using Cons.prems(2) by (rule takeExtent_available)
      show "e \<in> set es" using Cons.prems(3) False by simp
    qed
    with takeExtent_available(2) [OF Cons.prems(2), of x] show ?thesis
      by (cases "x < totalExtents a") (simp_all, blast, linarith)
  next
    case True
    with Cons.prems(1) show ?thesis by auto
  qed
qed simp

lemma chosen_free:
  assumes inv: "vfs_inv st" and es: "chooseExtents st n = Inr es" and e: "e \<in> set es"
  shows "map_of (ownedBy (allocator st)) e = None" and "map_of (quarantine (allocator st)) e = None"
proof -
  note a = vfs_invD(3) [OF inv]
  from assignable_source [OF chooseExtents_Inr(1) [OF es a] alloc_invD(1) [OF a] e]
    alloc_invD(6) [OF a, of e] alloc_inv_range [OF a, of e]
  show "map_of (ownedBy (allocator st)) e = None" and "map_of (quarantine (allocator st)) e = None" by auto
qed

lemma traced_disjoint:
  assumes t: "traced st h" and es: "chooseExtents st n = Inr es"
  shows "set es \<inter> h m = {}"
proof -
  have inv: "vfs_inv st" using traced_reachable [OF t] by (rule reachable_vfs)
  have "m = activeMetadataFile st \<or> m = otherMetadataFile (activeMetadataFile st)"
    by (cases m; cases "activeMetadataFile st") simp_all
  with traced_protected [OF t] chosen_free [OF inv es] show ?thesis unfolding protected_def by fastforce
qed

end
