(* ===== verification/Scenario.thy ===== *)
theory Scenario
  imports Retention
begin

text \<open>
  A short run of the file system, evaluated step by step: the states at which the properties are
  applied to concrete inputs. The root receives a directory \<open>/a\<close>, a file \<open>/a/b\<close> of two extents, a
  link \<open>/l\<close> to it; then \<open>/a\<close> becomes \<open>/c\<close>, the file shrinks to one extent and a repack follows.
\<close>

definition after :: "VfsState \<Rightarrow> TxnRecord res \<Rightarrow> VfsState" where
  "after st plan = (case plan of Inl _ \<Rightarrow> st | Inr r \<Rightarrow> snd (applyTxn st r None))"

definition demo0 :: VfsState where
  "demo0 = \<lparr>generation = 1, nextInodeId = 2, rootInodeId = 1, extentSize = 65536,
     activeMetadataFile = MetaA, retainedGenerations = (\<lambda>_. None)(MetaA := Some 1),
     basePayloadBytes = 61,
     inodes = [(1, \<lparr>inodeId = 1, imode = 16895, atimeMs = 0, mtimeMs = 0, ctimeMs = 0,
                   body = Directory []\<rparr>)],
     parentByInode = [],
     allocator = \<lparr>totalExtents = 0, ownedBy = [], available = emptyExtentSet, quarantine = []\<rparr>\<rparr>"

abbreviation path_a :: js_string where "path_a \<equiv> [slash, 97]"
abbreviation path_ab :: js_string where "path_ab \<equiv> [slash, 97, slash, 98]"
abbreviation path_c :: js_string where "path_c \<equiv> [slash, 99]"
abbreviation path_cb :: js_string where "path_cb \<equiv> [slash, 99, slash, 98]"
abbreviation path_l :: js_string where "path_l \<equiv> [slash, 108]"

definition node :: "int \<Rightarrow> int \<Rightarrow> int \<Rightarrow> int \<Rightarrow> int \<Rightarrow> InodeBody \<Rightarrow> int \<times> Inode" where
  "node k m a b c content = (k, \<lparr>inodeId = k, imode = m, atimeMs = a, mtimeMs = b, ctimeMs = c, body = content\<rparr>)"

definition arena :: "int \<Rightarrow> (int \<times> int) list \<Rightarrow> (int \<times> int option) list \<Rightarrow> AllocatorState" where
  "arena n own q = \<lparr>totalExtents = n, ownedBy = own, available = emptyExtentSet, quarantine = q\<rparr>"

definition demo1 :: VfsState where
  "demo1 = demo0\<lparr>nextInodeId := 3, basePayloadBytes := 113,
     inodes := [node 1 16895 0 0 0 (Directory [([97], 2)]), node 2 16895 5 5 5 (Directory [])],
     parentByInode := [(2, 1, [97])]\<rparr>"

definition demo2 :: VfsState where
  "demo2 = demo1\<lparr>nextInodeId := 4, basePayloadBytes := 189,
     inodes := [node 1 16895 0 0 0 (Directory [([97], 2)]),
       node 2 16895 5 5 5 (Directory [([98], 3)]), node 3 33206 6 6 6 (File 100000 [0, 1])],
     parentByInode := [(2, 1, [97]), (3, 2, [98])], allocator := arena 2 [(0, 3), (1, 3)] []\<rparr>"

definition demo3 :: VfsState where
  "demo3 = demo2\<lparr>nextInodeId := 5, basePayloadBytes := 243,
     inodes := [node 1 16895 0 0 0 (Directory [([97], 2), ([108], 4)]),
       node 2 16895 5 5 5 (Directory [([98], 3)]), node 3 33206 6 6 6 (File 100000 [0, 1]),
       node 4 41471 7 7 7 (Symlink path_ab)],
     parentByInode := [(2, 1, [97]), (3, 2, [98]), (4, 1, [108])]\<rparr>"

definition demo4 :: VfsState where
  "demo4 = demo3\<lparr>
     inodes := [node 1 16895 0 8 8 (Directory [([108], 4), ([99], 2)]),
       node 2 16895 5 5 8 (Directory [([98], 3)]), node 3 33206 6 6 6 (File 100000 [0, 1]),
       node 4 41471 7 7 7 (Symlink path_ab)],
     parentByInode := [(2, 1, [99]), (3, 2, [98]), (4, 1, [108])]\<rparr>"

definition demo5 :: VfsState where
  "demo5 = demo4\<lparr>basePayloadBytes := 251,
     inodes := [node 1 16895 0 8 8 (Directory [([108], 4), ([99], 2)]),
       node 2 16895 5 5 8 (Directory [([98], 3)]), node 3 33206 6 9 9 (File 10 [0]),
       node 4 41471 7 7 7 (Symlink path_ab)],
     allocator := arena 2 [(0, 3)] [(1, None)]\<rparr>"

definition demo6 :: VfsState where
  "demo6 = demo5\<lparr>generation := 2, activeMetadataFile := MetaB,
     retainedGenerations := (\<lambda>_. None)(MetaA := Some 1, MetaB := Some 2),
     allocator := arena 2 [(0, 3)] [(1, Some 2)]\<rparr>"

lemma run_a: "after demo0 (planMkdir demo0 path_a False None 5) = demo1"
  by code_simp

lemma run_ab: "after demo1 (planCreateFile demo1 path_ab None 6 (Some 100000)) = demo2"
  by code_simp

lemma run_l: "after demo2 (planSymlink demo2 path_l path_ab None 7) = demo3"
  by code_simp

lemma run_c: "after demo3 (planRename demo3 path_a path_c 8) = demo4"
  by code_simp

lemma run_cb: "after demo4 (planResizeFile demo4 path_cb 10 9 TruncateOp) = demo5"
  by code_simp

lemma demo0_init: "createInitialState 65536 = Inr demo0"
  by code_simp

lemma plan_a: "planMkdir demo0 path_a False None 5
    = Inr (CreateDirectories (mkChain 16895 5 1 2 [[97]]))"
  by code_simp

lemma plan_ab: "planCreateFile demo1 path_ab None 6 (Some 100000) = Inr (CreateFile
    \<lparr>choiceParentId = 2, choiceName = [98], choiceInodeId = 3, choiceMode = 33206, choiceAtimeMs = 6,
     choiceMtimeMs = 6, choiceCtimeMs = 6\<rparr> 100000 [\<lparr>runStart = 0, runCount = 2\<rparr>])"
  by code_simp

lemma plan_l: "planSymlink demo2 path_l path_ab None 7 = Inr (CreateSymlink
    \<lparr>choiceParentId = 1, choiceName = [108], choiceInodeId = 4, choiceMode = 41471, choiceAtimeMs = 7,
     choiceMtimeMs = 7, choiceCtimeMs = 7\<rparr> path_ab)"
  by code_simp

lemma plan_c: "planRename demo3 path_a path_c 8 = Inr (Rename 1 [97] 1 [99] 8)"
  by code_simp

lemma plan_cb: "planResizeFile demo4 path_cb 10 9 TruncateOp = Inr (ResizeFile TruncateOp 3 10 [] 9 9)"
  by code_simp

lemma repack_demo: "projectRepack demo5 {} = Inr demo6"
  by code_simp

section \<open>The run is a traced one\<close>

lemma traced_after:
  assumes t: "traced st h" and st': "after st plan = st'" and plan: "plan = Inr r" and p: "planned st r"
    and own: "owned st' = os" and h': "h' = h(activeMetadataFile st := h (activeMetadataFile st) \<union> os)"
  shows "traced st' h'"
proof -
  have "vfs_inv st" "paths_ok st" using traced_reachable [OF t] reachable_inv by blast+
  from planned_applies [OF this p] obtain s where run: "applyTxn st r None = (None, s)" by blast
  then have "s = st'" using st' by (simp add: after_def plan)
  with traced_txn [OF t p run] own h' show ?thesis by simp
qed

lemma owned_code: "owned st = fst ` set (ownedBy (allocator st))"
  by (simp add: owned_def dom_map_of_conv_image_fst)

lemma demo_ownedBy:
  "ownedBy (allocator demo1) = []" "ownedBy (allocator demo2) = [(0, 3), (1, 3)]"
  "ownedBy (allocator demo3) = [(0, 3), (1, 3)]" "ownedBy (allocator demo4) = [(0, 3), (1, 3)]"
  "ownedBy (allocator demo5) = [(0, 3)]" "ownedBy (allocator demo6) = [(0, 3)]"
  by code_simp+

lemma demo_owned: "owned demo1 = {}" "owned demo2 = {0, 1}" "owned demo3 = {0, 1}" "owned demo4 = {0, 1}"
  "owned demo5 = {0}" "owned demo6 = {0}"
  by (simp_all add: owned_code demo_ownedBy)

lemma demo_active: "activeMetadataFile demo0 = MetaA" "activeMetadataFile demo1 = MetaA"
  "activeMetadataFile demo2 = MetaA" "activeMetadataFile demo3 = MetaA" "activeMetadataFile demo4 = MetaA"
  "activeMetadataFile demo6 = MetaB"
  by code_simp+

lemma demo_traced:
  "traced demo0 (\<lambda>_. {})" "traced demo1 (\<lambda>_. {})"
  "traced demo2 ((\<lambda>_. {})(MetaA := {0, 1}))" "traced demo3 ((\<lambda>_. {})(MetaA := {0, 1}))"
  "traced demo4 ((\<lambda>_. {})(MetaA := {0, 1}))" "traced demo5 ((\<lambda>_. {})(MetaA := {0, 1}))"
  "traced demo6 ((\<lambda>_. {})(MetaA := {0, 1}, MetaB := {0}))"
proof -
  show t0: "traced demo0 (\<lambda>_. {})" by (rule traced_init [OF demo0_init])
  show t1: "traced demo1 (\<lambda>_. {})"
    by (rule traced_after [OF t0 run_a plan_a planned_mkdir [OF plan_a] demo_owned(1)])
      (simp add: demo_active fun_eq_iff)
  show t2: "traced demo2 ((\<lambda>_. {})(MetaA := {0, 1}))"
    by (rule traced_after [OF t1 run_ab plan_ab planned_create [OF plan_ab] demo_owned(2)])
      (simp add: demo_active fun_eq_iff)
  show t3: "traced demo3 ((\<lambda>_. {})(MetaA := {0, 1}))"
    by (rule traced_after [OF t2 run_l plan_l planned_symlink [OF plan_l] demo_owned(3)])
      (simp add: demo_active fun_eq_iff)
  show t4: "traced demo4 ((\<lambda>_. {})(MetaA := {0, 1}))"
    by (rule traced_after [OF t3 run_c plan_c planned_rename [OF plan_c] demo_owned(4)])
      (simp add: demo_active fun_eq_iff)
  show t5: "traced demo5 ((\<lambda>_. {})(MetaA := {0, 1}))"
    by (rule traced_after [OF t4 run_cb plan_cb planned_resize [OF plan_cb] demo_owned(5)])
      (auto simp add: demo_active fun_eq_iff)
  show "traced demo6 ((\<lambda>_. {})(MetaA := {0, 1}, MetaB := {0}))"
    using traced_repack [OF t5 repack_demo] by (simp add: demo_owned demo_active)
qed

lemmas demo_reachable = demo_traced [THEN traced_reachable]
lemmas demo_inv = demo_reachable [THEN reachable_vfs]

end
