(* ===== verification/VfsProperties.thy ===== *)
theory VfsProperties
  imports Scenario
begin

text \<open>
  The properties of the virtual file system's state machine: reachable states, atomic transactions,
  the retention of extents, and what each operation does to the directory tree. Each property with a
  hypothesis is applied to the run of \<^theory_text>\<open>Scenario\<close> after it.
\<close>

section \<open>Reachable states and transactions\<close>

text \<open>
  C1. Every state reachable from a new store by planned transactions and repacks passes the store's
  own structural validator: the inodes form a tree within the path limits, the allocator partitions
  the arena, the tracked payload size is that of the base, and the generations are consistent.
\<close>

theorem reachable_states_validate: "reachable st \<Longrightarrow> validateState st = Inr ()"
  by (rule validateState_complete [OF reachable_vfs reachable_paths])

theorem reachable_states_validate_witness: "validateState demo6 = Inr ()"
  by (rule reachable_states_validate [OF demo_reachable(7)])

text \<open>
  C2. A transaction that is refused leaves the state exactly as it was, whatever record was tried and
  wherever in the reducer the error was raised.
\<close>

theorem refused_transaction_changes_nothing:
  "vfs_inv st \<Longrightarrow> applyTxn st record prepared = (Some e, st') \<Longrightarrow> st' = st"
  using applyTxn_atomic by (simp add: vfs_inv_core)

theorem refused_transaction_changes_nothing_witness:
  "snd (applyTxn demo1 (CreateDirectories (mkChain 16895 5 1 3 [[98]] @ mkChain 16895 5 1 4 [[97]])) None) = demo1"
proof -
  have "applyTxn demo1 (CreateDirectories (mkChain 16895 5 1 3 [[98]] @ mkChain 16895 5 1 4 [[97]])) None
      = (Some (FsError EEXIST), snd (applyTxn demo1
          (CreateDirectories (mkChain 16895 5 1 3 [[98]] @ mkChain 16895 5 1 4 [[97]])) None))"
    by code_simp
  then show ?thesis by (rule refused_transaction_changes_nothing [OF demo_inv(2)])
qed

text \<open>
  C3. A record that a planner returned for a reachable state is never refused when it is applied to
  that state, and the state it leads to is valid again.
\<close>

theorem planned_transaction_commits:
  assumes "reachable st" and "planned st r"
  shows "\<exists>st'. applyTxn st r None = (None, st') \<and> validateState st' = Inr ()"
proof -
  obtain st' where "applyTxn st r None = (None, st')" and "vfs_inv st'" and "paths_ok st'"
    using planned_applies [OF reachable_vfs [OF assms(1)] reachable_paths [OF assms(1)] assms(2)] by blast
  with validateState_complete show ?thesis by blast
qed

theorem planned_transaction_commits_witness:
  "\<exists>st'. applyTxn demo3 (Rename 1 [97] 1 [99] 8) None = (None, st') \<and> validateState st' = Inr ()"
  by (rule planned_transaction_commits [OF demo_reachable(4) planned_rename [OF plan_c]])

text \<open>
  C10. Every accepted transaction, planned or replayed from a log, keeps the state invariant, and the
  payload size it tracks incrementally is what recounting the whole state gives, within the limit.
\<close>

theorem transaction_keeps_invariant:
  assumes "vfs_inv st" and "applyTxn st record None = (None, st')"
  shows "vfs_inv st' \<and> estimateMetadataBasePayloadBytes st' = Inr (basePayloadBytes st')
    \<and> basePayloadBytes st' \<le> MAX_METADATA_BASE_WRITER_BYTES"
proof -
  have inv: "vfs_inv st'" by (rule applyTxn_inv [OF assms])
  with estimate_base_bytes [OF vfs_invD(1) [OF inv]] vfs_invD(5) [OF inv] show ?thesis
    by (simp add: bytes_inv_def)
qed

theorem transaction_keeps_invariant_witness:
  "\<exists>st'. applyTxn demo3 (ChangeMode 2 448 9) None = (None, st')
     \<and> estimateMetadataBasePayloadBytes st' = Inr (basePayloadBytes st')"
proof -
  have "applyTxn demo3 (ChangeMode 2 448 9) None
      = (None, snd (applyTxn demo3 (ChangeMode 2 448 9) None))" by code_simp
  with transaction_keeps_invariant [OF demo_inv(4) this] show ?thesis by blast
qed

text \<open>
  C11. No allocation ever hands out an extent that a metadata file still refers to: neither one that a
  state of the active base and log owned since the last repack, nor one that the file before it owned.
\<close>

theorem allocation_avoids_retained_extents:
  "traced st h \<Longrightarrow> chooseExtents st n = Inr es \<Longrightarrow> set es \<inter> h m = {}"
  by (rule traced_disjoint)

theorem allocation_avoids_retained_extents_witness:
  "\<exists>h. traced demo6 h \<and> h MetaA = {0, 1} \<and> chooseExtents demo6 2 = Inr [2, 3] \<and> set [2, 3] \<inter> h MetaA = {}"
proof -
  have "chooseExtents demo6 2 = Inr [2, 3]" by code_simp
  with allocation_avoids_retained_extents [OF demo_traced(7) this, of MetaA] demo_traced(7) show ?thesis
    by (intro exI [of _ "(\<lambda>_. {})(MetaA := {0, 1}, MetaB := {0})"]) simp
qed

section \<open>Paths\<close>

text \<open>
  C12. Resolving a path is the walk of the directory tree: \<open>getInodeAtPath\<close> succeeds exactly on the
  absolute, normalised, bounded paths whose components lead from the root to the inode it returns.
\<close>

theorem getInodeAtPath_walks_tree:
  assumes "vfs_inv st"
  shows "getInodeAtPath st p = Inr inode
    \<longleftrightarrow> (\<exists>cs i. path_ok cs \<and> p = render_path cs \<and> lookup st cs = Some i \<and> imap st i = Some inode)"
  by (rule getInodeAtPath_Inr [OF vfs_invD(1,2) [OF assms]])

theorem getInodeAtPath_walks_tree_witness:
  "\<exists>cs i. path_ok cs \<and> path_cb = render_path cs \<and> lookup demo5 cs = Some i
     \<and> imap demo5 i = Some (snd (node 3 33206 6 9 9 (File 10 [0])))"
proof -
  have "getInodeAtPath demo5 path_cb = Inr (snd (node 3 33206 6 9 9 (File 10 [0])))" by code_simp
  with getInodeAtPath_walks_tree [OF demo_inv(6)] show ?thesis by blast
qed

text \<open>
  C13. No inode has two paths and no directory lies below itself: the paths of a reachable state are
  in bijection with its inodes.
\<close>

theorem paths_name_inodes_uniquely:
  assumes "reachable st"
  shows "(\<exists>!cs. lookup st cs = Some i) \<longleftrightarrow> imap st i \<noteq> None"
proof -
  note t = vfs_invD(2) [OF reachable_vfs [OF assms]]
  show ?thesis
    using lookup_unique [OF t] lookup_in [OF t] lookup_reaches [OF t] by (metis not_Some_eq)
qed

theorem paths_name_inodes_uniquely_witness: "\<exists>!cs. lookup demo5 cs = Some 3"
proof -
  have "imap demo5 3 \<noteq> None" by code_simp
  with paths_name_inodes_uniquely [OF demo_reachable(6), of 3] show ?thesis by blast
qed

end
