(* ===== verification/VfsOperations.thy ===== *)
theory VfsOperations
  imports Scenario
begin

text \<open>
  What each operation does to the directory tree, from a path request to the state after its
  transaction: the planner's record is applied, and the paths of the new state are those of the old
  one but for the change the operation is asked for.
\<close>

lemma accepted_run:
  assumes "accepted st r s"
  obtains st' where "applyTxn st r None = (None, st')" and "lookup st' = lookup s"
    and "inodes st' = inodes s" and "allocator st' = allocator s"
proof -
  from accepted_applies [OF assms] obtain b where
    "applyTxn st r None = (None, s\<lparr>basePayloadBytes := b\<rparr>)" by blast
  then show thesis by (rule that) (simp_all add: reduced_lookup)
qed

section \<open>Creating\<close>

text \<open>
  C14. \<open>mkdir\<close> creates exactly the missing components of its path: the existing prefix is found, each
  missing component gets the next inode id in turn (one component only when not recursive), every old
  path still names its inode and no other path appears.
\<close>

theorem mkdir_creates_missing_components:
  assumes "vfs_inv st" and "planMkdir st p recursive modeOption now = Inr r"
  shows "\<exists>pre post st'. p = render_path (pre @ post) \<and> post \<noteq> [] \<and> (recursive \<or> length post = 1)
    \<and> lookup st pre \<noteq> None \<and> lookup st (pre @ [hd post]) = None
    \<and> applyTxn st r None = (None, st')
    \<and> (\<forall>cs i. lookup st' cs = Some i \<longleftrightarrow> lookup st cs = Some i
         \<or> (\<exists>j < length post. cs = pre @ take (Suc j) post \<and> i = nextInodeId st + int j))"
proof -
  obtain pre post i mode s where sh: "p = render_path (pre @ post)" "post \<noteq> []" "lookup st pre = Some i"
    "child_of st i (hd post) = None" "r = CreateDirectories (mkChain mode now i (nextInodeId st) post)"
    "recursive \<or> length post = 1" "accepted st r s"
    and ed: "entries_done st (mkChain mode now i (nextInodeId st) post) s"
    by (rule planMkdir_shape [OF assms]) (rule that, assumption+)
  obtain st' where run: "applyTxn st r None = (None, st')" and same: "lookup st' = lookup s"
    by (rule accepted_run [OF sh(7)])
  have t: "tree_inv s" using ed by (simp add: entries_done_def core_inv_def)
  note new = mkdir_lookup [OF ed sh(3)]
  have all: "lookup s cs = Some k \<longleftrightarrow> lookup st cs = Some k
         \<or> (\<exists>j < length post. cs = pre @ take (Suc j) post \<and> k = nextInodeId st + int j)" for cs k
  proof
    assume k: "lookup s cs = Some k"
    then obtain x where "imap s k = Some x" using lookup_in [OF t] by blast
    then have "imap st k \<noteq> None \<or> k \<in> choiceInodeId ` set (mkChain mode now i (nextInodeId st) post)"
      using ed unfolding entries_done_def by blast
    then show "lookup st cs = Some k
         \<or> (\<exists>j < length post. cs = pre @ take (Suc j) post \<and> k = nextInodeId st + int j)"
    proof
      assume "imap st k \<noteq> None"
      then obtain ds where "lookup st ds = Some k" using lookup_reaches [OF vfs_invD(2) [OF assms(1)]] by blast
      with lookup_unique [OF t k] entries_done_lookup [OF ed] show ?thesis by blast
    next
      assume "k \<in> choiceInodeId ` set (mkChain mode now i (nextInodeId st) post)"
      then have "nextInodeId st \<le> k" "k < nextInodeId st + int (length post)" by (simp_all add: mkChain_ids)
      then have j: "nat (k - nextInodeId st) < length post" "k = nextInodeId st + int (nat (k - nextInodeId st))"
        by linarith+
      from new [OF j(1)] j(2) have "lookup s (pre @ take (Suc (nat (k - nextInodeId st))) post) = Some k"
        by simp
      with lookup_unique [OF t k] j show ?thesis by blast
    qed
  qed (use entries_done_lookup [OF ed] new in blast)
  have "lookup st (pre @ [hd post]) = None" by (simp add: lookup_snoc sh(3,4))
  with sh(1,2,3,6) run all show ?thesis
    by (intro exI [of _ pre] exI [of _ post] exI [of _ st']) (simp only: same, simp)
qed

theorem mkdir_creates_missing_components_witness:
  "\<exists>pre post st'. path_a = render_path (pre @ post) \<and> post \<noteq> [] \<and> (False \<or> length post = 1)
    \<and> lookup demo0 pre \<noteq> None \<and> lookup demo0 (pre @ [hd post]) = None
    \<and> applyTxn demo0 (CreateDirectories (mkChain 16895 5 1 2 [[97]])) None = (None, st')
    \<and> (\<forall>cs i. lookup st' cs = Some i \<longleftrightarrow> lookup demo0 cs = Some i
         \<or> (\<exists>j < length post. cs = pre @ take (Suc j) post \<and> i = nextInodeId demo0 + int j))"
  by (rule mkdir_creates_missing_components [OF demo_inv(1) plan_a])

text \<open>
  C15. Creating a file adds one path, which was free, below an existing directory; the new inode is a
  file of the requested size whose extents are exactly as many as the size needs, distinct, and
  previously neither owned nor quarantined.
\<close>

theorem createFile_adds_file:
  assumes inv: "vfs_inv st" and plan: "planCreateFile st p modeOption now sizeOption = Inr r"
  shows "\<exists>pp name st' inode es. p = render_path (pp @ [name]) \<and> lookup st (pp @ [name]) = None
    \<and> applyTxn st r None = (None, st')
    \<and> (\<forall>cs. lookup st' cs = (if cs = pp @ [name] then Some (nextInodeId st) else lookup st cs))
    \<and> imap st' (nextInodeId st) = Some inode
    \<and> body inode = File (case sizeOption of None \<Rightarrow> 0 | Some n \<Rightarrow> n) es
    \<and> extentCountForSize (case sizeOption of None \<Rightarrow> 0 | Some n \<Rightarrow> n) (extentSize st) = Inr (int (length es))
    \<and> distinct es
    \<and> (\<forall>e\<in>set es. map_of (ownedBy (allocator st)) e = None \<and> map_of (quarantine (allocator st)) e = None)"
proof -
  have core: "core_inv st" using inv by (simp add: vfs_inv_core)
  obtain pp name choice fsize runs s where r: "r = CreateFile choice fsize runs"
    and p: "p = render_path (pp @ [name])"
    and pp: "lookup st pp = Some (choiceParentId choice)" and name: "choiceName choice = name"
    and fsize: "fsize = (case sizeOption of None \<Rightarrow> 0 | Some n \<Rightarrow> n)"
    and acc: "accepted st r s" and app: "applyCreateFile st choice fsize runs = Inr s"
    by (rule planCreateFile_shape [OF inv plan]) (rule that, assumption+)
  obtain d es inode st1 where st1: "st1 = st\<lparr>allocator := fold (ownExtent (inodeId inode)) es (allocator st)\<rparr>"
    and new: "new_entry st1 (choiceParentId choice) (choiceName choice) inode d"
    and s: "s = entered st1 (choiceParentId choice) (choiceName choice) inode"
    and b: "body inode = File fsize es"
    and ext: "validateExtentAssignment st runs (int (length es)) = Inr es"
    by (rule applyCreateFile_Inr [OF core app])
  obtain st' where run: "applyTxn st r None = (None, st')" and same: "lookup st' = lookup s" "inodes st' = inodes s"
    by (rule accepted_run [OF acc])
  note e = new_entryD [OF new]
  have id: "inodeId inode = nextInodeId st" using e(7) by (simp add: st1)
  have par: "imap st (choiceParentId choice) = Some d" using e(3) by (simp add: st1)
  have imap: "imap st' (nextInodeId st) = Some inode" by (simp add: same s update_simps id)
  have count: "extentCountForSize fsize (extentSize st) = Inr (int (length es))"
    using inode_okD(8) [OF e(9)] by (simp add: b st1)
  note a = vfs_invD(3) [OF inv]
  have asg: "assignable (allocator st) es" "distinct es"
    using validateExtentAssignment_Inr [OF ext alloc_invD(1) [OF a]] by simp_all
  have fresh: "map_of (ownedBy (allocator st)) x = None \<and> map_of (quarantine (allocator st)) x = None"
    if "x \<in> set es" for x
    using assignable_source [OF asg(1) alloc_invD(1) [OF a] that] alloc_invD(6) [OF a, of x]
      alloc_inv_range [OF a, of x] by auto
  have free: "lookup st (pp @ [name]) = None"
    using e(5) pp by (simp add: lookup_snoc child_of_def par name)
  show ?thesis
    by (intro exI [of _ pp] exI [of _ name] exI [of _ st'] exI [of _ inode] exI [of _ es] conjI allI ballI
        p free run imap asg(2) b [unfolded fsize] count [unfolded fsize])
      (simp_all only: same createFile_reduces(2) [OF core app pp] name fresh)
qed

theorem createFile_adds_file_witness:
  "\<exists>pp name. path_ab = render_path (pp @ [name]) \<and> lookup demo1 (pp @ [name]) = None"
proof -
  note add = createFile_adds_file [OF demo_inv(2) plan_ab]
  from add obtain pp name where "path_ab = render_path (pp @ [name])" "lookup demo1 (pp @ [name]) = None"
    by (elim exE conjE) (rule that)
  then show ?thesis by (intro exI [of _ pp] exI [of _ name] conjI)
qed

text \<open>
  Creating a symbolic link adds one path, which was free; it names a new inode that holds the
  target it was given, and the target is valid.
\<close>

theorem symlink_adds_link:
  assumes inv: "vfs_inv st" and plan: "planSymlink st p target modeOption now = Inr r"
  shows "\<exists>pp name st' inode. p = render_path (pp @ [name]) \<and> applyTxn st r None = (None, st')
    \<and> (\<forall>cs. lookup st' cs = (if cs = pp @ [name] then Some (nextInodeId st) else lookup st cs))
    \<and> imap st' (nextInodeId st) = Some inode \<and> body inode = Symlink target
    \<and> symlink_target_ok target"
proof -
  have core: "core_inv st" using inv by (simp add: vfs_inv_core)
  obtain pp name choice s where sh: "p = render_path (pp @ [name])"
    "lookup st pp = Some (choiceParentId choice)" "choiceName choice = name"
    "accepted st r s" "applyCreateSymlink st choice target = Inr s"
    by (rule planSymlink_shape [OF inv plan]) (rule that, assumption+)
  obtain st' where run: "applyTxn st r None = (None, st')" and same: "lookup st' = lookup s" "inodes st' = inodes s"
    by (rule accepted_run [OF sh(4)])
  from createSymlink_reduces(5) [OF core sh(5)] obtain inode where
    "imap s (nextInodeId st) = Some inode" "body inode = Symlink target" by blast
  then show ?thesis
    by (intro exI [of _ pp] exI [of _ name] exI [of _ st'] exI [of _ inode] conjI allI sh(1) run
        createSymlink_reduces(3) [OF core sh(5)])
      (simp_all only: same createSymlink_reduces(2) [OF core sh(5,2)] sh(3))
qed

theorem symlink_adds_link_witness:
  "\<exists>pp name st' inode. path_l = render_path (pp @ [name]) \<and> imap st' 4 = Some inode
     \<and> (\<forall>cs. lookup st' cs = (if cs = pp @ [name] then Some 4 else lookup demo2 cs))
     \<and> body inode = Symlink path_ab"
proof -
  have "nextInodeId demo2 = 4" by code_simp
  with symlink_adds_link [OF demo_inv(3) plan_l] show ?thesis by metis
qed

section \<open>Removing\<close>

lemma released_quarantine:
  "map_of (quarantine (fold releaseExtent es a)) e = (if e \<in> set es then Some None else map_of (quarantine a) e)"
  by (induction es arbitrary: a) (auto simp: map_of_update)

lemma removeFile_parts:
  assumes "applyRemoveFile st p n m t = Inr st'"
  obtains d k inode where "imap st p = Some d" and "map_of (children d) n = Some k"
    and "imap st k = Some inode" and "\<not> isDirectory inode"
    and "allocator st' = fold releaseExtent (fileExtents inode) (allocator st)"
  using assms unfolding applyRemoveFile_def
  by (auto simp: res_simps Let_def bind_eq_Some_conv update_simps split: option.splits if_splits)

lemma removeDirectory_parts:
  assumes "applyRemoveDirectory st p n m t = Inr st'"
  obtains d k inode where "imap st p = Some d" and "map_of (children d) n = Some k"
    and "imap st k = Some inode" and "isDirectory inode" and "children inode = []"
    and "allocator st' = allocator st"
  using assms unfolding applyRemoveDirectory_def
  by (auto simp: res_simps Let_def bind_eq_Some_conv update_simps split: option.splits if_splits)

text \<open>
  C16. Unlinking removes one path, that of a file or a symbolic link, and no other; every extent the
  file owned is quarantined, so that no allocation can reuse it before a repack has retired it.
\<close>

theorem unlink_removes_entry:
  assumes inv: "vfs_inv st" and plan: "planUnlink st p now = Inr r"
  shows "\<exists>q k inode st'. p = render_path q \<and> lookup st q = Some k \<and> imap st k = Some inode
    \<and> \<not> isDirectory inode \<and> applyTxn st r None = (None, st')
    \<and> (\<forall>cs. lookup st' cs = (if cs = q then None else lookup st cs))
    \<and> (\<forall>e\<in>set (fileExtents inode). map_of (quarantine (allocator st')) e = Some None)"
proof -
  have core: "core_inv st" using inv by (simp add: vfs_inv_core)
  obtain pp name i s where p: "p = render_path (pp @ [name])" and pp: "lookup st pp = Some i"
    and acc: "accepted st r s" and app: "applyRemoveFile st i name now now = Inr s"
    by (rule planUnlink_shape [OF inv plan]) (rule that, assumption+)
  obtain d k inode where d: "imap st i = Some d" "map_of (children d) name = Some k"
    and k: "imap st k = Some inode" "\<not> isDirectory inode"
    and al: "allocator s = fold releaseExtent (fileExtents inode) (allocator st)"
    by (rule removeFile_parts [OF app])
  obtain st' where run: "applyTxn st r None = (None, st')" and same: "lookup st' = lookup s" "allocator st' = allocator s"
    by (rule accepted_run [OF acc])
  have q: "lookup st (pp @ [name]) = Some k" using pp d by (simp add: lookup_snoc child_of_def)
  show ?thesis
    by (intro exI [of _ "pp @ [name]"] exI [of _ k] exI [of _ inode] exI [of _ st'] conjI allI ballI p q k run)
      (simp_all only: same removeFile_reduces(2) [OF core app pp] al released_quarantine if_True)
qed

theorem unlink_removes_entry_witness:
  "\<exists>q. path_cb = render_path q \<and> lookup demo4 q = Some 3"
proof -
  have plan: "planUnlink demo4 path_cb 9 = Inr (RemoveFile 2 [98] 9 9)" by code_simp
  from unlink_removes_entry [OF demo_inv(5) this] obtain q k inode where q: "path_cb = render_path q"
    "lookup demo4 q = Some k" "imap demo4 k = Some inode" by blast
  have "getInodeAtPath demo4 path_cb = Inr (snd (node 3 33206 6 6 6 (File 100000 [0, 1])))" by code_simp
  then obtain cs i where c: "path_ok cs" "path_cb = render_path cs" "lookup demo4 cs = Some i"
    "imap demo4 i = Some (snd (node 3 33206 6 6 6 (File 100000 [0, 1])))"
    using getInodeAtPath_Inr [OF vfs_invD(1,2) [OF demo_inv(5)]] by blast
  from inode_id [OF vfs_invD(1) [OF demo_inv(5)] c(4)] have "i = 3" by (simp add: node_def)
  with c q show ?thesis by blast
qed

text \<open>
  Removing a directory removes one path, that of a directory without entries, and no other, and
  leaves the allocator alone.
\<close>

theorem rmdir_removes_empty_directory:
  assumes inv: "vfs_inv st" and plan: "planRmdir st p now = Inr r"
  shows "\<exists>q k inode st'. p = render_path q \<and> lookup st q = Some k \<and> imap st k = Some inode
    \<and> isDirectory inode \<and> children inode = [] \<and> applyTxn st r None = (None, st')
    \<and> (\<forall>cs. lookup st' cs = (if cs = q then None else lookup st cs))
    \<and> allocator st' = allocator st"
proof -
  have core: "core_inv st" using inv by (simp add: vfs_inv_core)
  obtain pp name i s where p: "p = render_path (pp @ [name])" and pp: "lookup st pp = Some i"
    and acc: "accepted st r s" and app: "applyRemoveDirectory st i name now now = Inr s"
    by (rule planRmdir_shape [OF inv plan]) (rule that, assumption+)
  obtain d k inode where d: "imap st i = Some d" "map_of (children d) name = Some k"
    and k: "imap st k = Some inode" "isDirectory inode" "children inode = []"
    and al: "allocator s = allocator st"
    by (rule removeDirectory_parts [OF app])
  obtain st' where run: "applyTxn st r None = (None, st')" and same: "lookup st' = lookup s" "allocator st' = allocator s"
    by (rule accepted_run [OF acc])
  have q: "lookup st (pp @ [name]) = Some k" using pp d by (simp add: lookup_snoc child_of_def)
  show ?thesis
    by (intro exI [of _ "pp @ [name]"] exI [of _ k] exI [of _ inode] exI [of _ st'] conjI allI p q k run)
      (simp_all only: same removeDirectory_reduces(2) [OF core app pp] al)
qed

theorem rmdir_removes_empty_directory_witness:
  "\<exists>q k st'. path_a = render_path q \<and> lookup demo1 q = Some k
     \<and> applyTxn demo1 (RemoveDirectory 1 [97] 9 9) None = (None, st') \<and> lookup st' q = None"
proof -
  have "planRmdir demo1 path_a 9 = Inr (RemoveDirectory 1 [97] 9 9)" by code_simp
  from rmdir_removes_empty_directory [OF demo_inv(2) this] show ?thesis by metis
qed

section \<open>Moving\<close>

text \<open>
  C17. A rename moves the whole subtree: every path below the new name resolves to what the same path
  below the old name did, every other path keeps its inode, except that the paths below the old name
  are gone. What the new name meant before is replaced.
\<close>

theorem rename_moves_subtree:
  assumes inv: "vfs_inv st" and plan: "planRename st old new now = Inr r"
  shows "\<exists>src dst st'. old = render_path src \<and> new = render_path dst \<and> applyTxn st r None = (None, st')
    \<and> (\<forall>below. lookup st' (dst @ below) = lookup st (src @ below))
    \<and> (\<forall>cs. \<not> prefix dst cs \<longrightarrow> lookup st' cs = (if prefix src cs then None else lookup st cs))"
proof -
  have core: "core_inv st" using inv by (simp add: vfs_inv_core)
  obtain ps sn pd dn sp dp s where names: "old = render_path (ps @ [sn])" "new = render_path (pd @ [dn])"
    and ps: "lookup st ps = Some sp" and pd: "lookup st pd = Some dp"
    and acc: "accepted st r s" and app: "applyRename st sp sn dp dn now = Inr s"
    by (rule planRename_shape [OF inv plan]) (rule that, assumption+)
  obtain st' where run: "applyTxn st r None = (None, st')" and same: "lookup st' = lookup s"
    by (rule accepted_run [OF acc])
  have "lookup s ((pd @ [dn]) @ below) = lookup st ((ps @ [sn]) @ below)" for below
    using rename_reduces(2) [OF core app ps pd] by simp
  moreover note rename_reduces(3) [OF core app ps pd]
  ultimately show ?thesis
    by (intro exI [of _ "ps @ [sn]"] exI [of _ "pd @ [dn]"] exI [of _ st'] conjI allI impI names run)
      (simp_all only: same)
qed

theorem rename_moves_subtree_witness:
  "\<exists>src dst st'. path_a = render_path src \<and> path_c = render_path dst
     \<and> applyTxn demo3 (Rename 1 [97] 1 [99] 8) None = (None, st')
     \<and> lookup st' (dst @ [[98]]) = lookup demo3 (src @ [[98]])"
  using rename_moves_subtree [OF demo_inv(4) plan_c] by blast

section \<open>Sizes and attributes\<close>

lemma resizeFile_parts:
  assumes "applyResizeFile st k fsize runs m t = Inr st'" and "imap st k = Some inode"
    and "body inode = File old extents" and "expandExtentRuns runs MAX_EXTENTS_PER_INODE = Inr allocated"
    and "extentCountForSize fsize (extentSize st) = Inr n"
  shows "validateExtentAssignment st runs (max 0 (n - int (length extents))) = Inr allocated"
    and "allocator st' = fold releaseExtent (drop (nat n) extents)
      (fold (ownExtent (inodeId inode)) allocated (allocator st))"
  using assms unfolding applyResizeFile_def
  by (auto simp: res_simps Let_def update_simps validateExtentAssignment_def split: if_splits)

text \<open>
  C18. Resizing keeps the leading extents a smaller or larger file still needs, appends exactly the
  missing ones, all of them previously neither owned nor quarantined, and quarantines the ones cut
  off; the file ends with the extents its new size needs, and no path changes.
\<close>

theorem resize_changes_tail:
  assumes inv: "vfs_inv st" and plan: "planResizeFile st p fsize now operation = Inr r"
  shows "\<exists>cs k inode old extents allocated n st'. p = render_path cs \<and> lookup st cs = Some k
    \<and> imap st k = Some inode \<and> body inode = File old extents
    \<and> extentCountForSize fsize (extentSize st) = Inr n \<and> applyTxn st r None = (None, st')
    \<and> lookup st' = lookup st
    \<and> imap st' k = Some (inode\<lparr>body := File fsize (take (nat n) extents @ allocated),
         mtimeMs := now, ctimeMs := now\<rparr>)
    \<and> int (length (take (nat n) extents @ allocated)) = n
    \<and> (\<forall>e\<in>set allocated. map_of (ownedBy (allocator st)) e = None \<and> map_of (quarantine (allocator st)) e = None)
    \<and> (\<forall>e\<in>set (drop (nat n) extents). map_of (quarantine (allocator st')) e = Some None)"
proof -
  have core: "core_inv st" using inv by (simp add: vfs_inv_core)
  obtain cs k runs s where p: "p = render_path cs" and cs: "lookup st cs = Some k"
    and acc: "accepted st r s" and app: "applyResizeFile st k fsize runs now now = Inr s"
    by (rule planResizeFile_shape [OF inv plan]) (rule that, assumption+)
  from resizeFile_reduces(3) [OF core app] obtain inode old extents allocated n where
    i: "imap st k = Some inode" "body inode = File old extents"
    and x: "expandExtentRuns runs MAX_EXTENTS_PER_INODE = Inr allocated"
    and n: "extentCountForSize fsize (extentSize st) = Inr n"
    and i': "imap s k = Some (inode\<lparr>body := File fsize (take (nat n) extents @ allocated),
          mtimeMs := now, ctimeMs := now\<rparr>)" by blast
  note parts = resizeFile_parts [OF app i x n]
  obtain st' where run: "applyTxn st r None = (None, st')" and same: "lookup st' = lookup s"
    "inodes st' = inodes s" "allocator st' = allocator s"
    by (rule accepted_run [OF acc])
  note a = vfs_invD(3) [OF inv]
  note v = validateExtentAssignment_Inr [OF parts(1) alloc_invD(1) [OF a]]
  have fresh: "map_of (ownedBy (allocator st)) e = None \<and> map_of (quarantine (allocator st)) e = None"
    if "e \<in> set allocated" for e
    using assignable_source [OF v(1) alloc_invD(1) [OF a] that] alloc_invD(6) [OF a, of e]
      alloc_inv_range [OF a, of e] by auto
  have "0 \<le> n" using extentCount_Inr(1) [OF n table_invD(5) [OF vfs_invD(1) [OF inv]]] by simp
  then have len: "int (length (take (nat n) extents @ allocated)) = n" using v(3) by (auto simp: min_def)
  show ?thesis
    by (intro exI [of _ cs] exI [of _ k] exI [of _ inode] exI [of _ old] exI [of _ extents]
        exI [of _ allocated] exI [of _ n] exI [of _ st'] conjI p cs i n run len ballI)
      (simp_all only: same resizeFile_reduces(2) [OF core app] i' fresh parts(2) released_quarantine if_True)
qed

theorem resize_changes_tail_witness:
  "\<exists>cs k st'. path_cb = render_path cs \<and> lookup demo4 cs = Some k
    \<and> applyTxn demo4 (ResizeFile TruncateOp 3 10 [] 9 9) None = (None, st') \<and> lookup st' = lookup demo4"
  using resize_changes_tail [OF demo_inv(5) plan_cb] by blast

text \<open>
  Changing a mode touches one inode, in its mode and change time only.
\<close>

theorem chmod_changes_mode_only:
  assumes inv: "vfs_inv st" and plan: "planChmod st p mode now = Inr r"
  shows "\<exists>cs k inode st'. p = render_path cs \<and> lookup st cs = Some k \<and> imap st k = Some inode
    \<and> applyTxn st r None = (None, st') \<and> lookup st' = lookup st
    \<and> imap st' = (imap st)(k \<mapsto> inode\<lparr>imode := mode, ctimeMs := now\<rparr>)
    \<and> allocator st' = allocator st"
proof -
  have core: "core_inv st" using inv by (simp add: vfs_inv_core)
  obtain cs k s where p: "p = render_path cs" and cs: "lookup st cs = Some k"
    and acc: "accepted st r s" and app: "applyChangeMode st k mode now = Inr s"
    by (rule planChmod_shape [OF inv plan]) (rule that, assumption+)
  from app obtain inode where i: "imap st k = Some inode"
    and s: "s = touch k (\<lambda>i. i\<lparr>imode := mode, ctimeMs := now\<rparr>) st"
    by (auto simp: applyChangeMode_def res_simps)
  obtain st' where run: "applyTxn st r None = (None, st')" and same: "lookup st' = lookup s"
    "inodes st' = inodes s" "allocator st' = allocator s"
    by (rule accepted_run [OF acc])
  have "imap s = (imap st)(k \<mapsto> inode\<lparr>imode := mode, ctimeMs := now\<rparr>)" "allocator s = allocator st"
    by (simp_all add: s update_simps i)
  then show ?thesis
    by (intro exI [of _ cs] exI [of _ k] exI [of _ inode] exI [of _ st'] conjI p cs i run)
      (simp_all only: same changeMode_reduces(2) [OF core app])
qed

theorem chmod_changes_mode_only_witness:
  "\<exists>cs k inode st'. path_c = render_path cs \<and> lookup demo4 cs = Some k
    \<and> applyTxn demo4 (ChangeMode 2 448 9) None = (None, st')
    \<and> imap st' = (imap demo4)(k \<mapsto> inode\<lparr>imode := 448, ctimeMs := 9\<rparr>)"
proof -
  have "planChmod demo4 path_c 448 9 = Inr (ChangeMode 2 448 9)" by code_simp
  from chmod_changes_mode_only [OF demo_inv(5) this] show ?thesis by blast
qed

text \<open>
  Setting times touches one inode, in its three timestamps only.
\<close>

theorem utimes_changes_times_only:
  assumes inv: "vfs_inv st" and plan: "planUtimes st p a m c = Inr r"
  shows "\<exists>cs k inode st'. p = render_path cs \<and> lookup st cs = Some k \<and> imap st k = Some inode
    \<and> applyTxn st r None = (None, st') \<and> lookup st' = lookup st
    \<and> imap st' = (imap st)(k \<mapsto> inode\<lparr>atimeMs := a, mtimeMs := m, ctimeMs := c\<rparr>)
    \<and> allocator st' = allocator st"
proof -
  have core: "core_inv st" using inv by (simp add: vfs_inv_core)
  obtain cs k s where p: "p = render_path cs" and cs: "lookup st cs = Some k"
    and acc: "accepted st r s" and app: "applyChangeTimes st k a m c = Inr s"
    by (rule planUtimes_shape [OF inv plan]) (rule that, assumption+)
  from app obtain inode where i: "imap st k = Some inode"
    and s: "s = touch k (\<lambda>i. i\<lparr>atimeMs := a, mtimeMs := m, ctimeMs := c\<rparr>) st"
    by (auto simp: applyChangeTimes_def res_simps)
  obtain st' where run: "applyTxn st r None = (None, st')" and same: "lookup st' = lookup s"
    "inodes st' = inodes s" "allocator st' = allocator s"
    by (rule accepted_run [OF acc])
  have "imap s = (imap st)(k \<mapsto> inode\<lparr>atimeMs := a, mtimeMs := m, ctimeMs := c\<rparr>)"
    "allocator s = allocator st"
    by (simp_all add: s update_simps i)
  then show ?thesis
    by (intro exI [of _ cs] exI [of _ k] exI [of _ inode] exI [of _ st'] conjI p cs i run)
      (simp_all only: same changeTimes_reduces(2) [OF core app])
qed

theorem utimes_changes_times_only_witness:
  "\<exists>cs k inode st'. path_c = render_path cs \<and> lookup demo4 cs = Some k
    \<and> applyTxn demo4 (ChangeTimes 2 7 8 9) None = (None, st')
    \<and> imap st' = (imap demo4)(k \<mapsto> inode\<lparr>atimeMs := 7, mtimeMs := 8, ctimeMs := 9\<rparr>)"
proof -
  have "planUtimes demo4 path_c 7 8 9 = Inr (ChangeTimes 2 7 8 9)" by code_simp
  from utimes_changes_times_only [OF demo_inv(5) this] show ?thesis by blast
qed

end
