(* ===== verification/VfsLifecycle.thy ===== *)
theory VfsLifecycle
  imports Scenario
begin

text \<open>
  The life of a store around its transactions: the initial state, the repack projection, the
  structural validator against the declarative invariant, and prepared transaction projections.
\<close>

section \<open>Repack\<close>

text \<open>
  C19. A repack of a reachable state fails only when the generation counter is exhausted; otherwise it
  advances the generation, switches the metadata file, keeps the inode table, every path and every
  owner, and its result is reachable again, so it validates.
\<close>

theorem repack_preserves_namespace:
  assumes "reachable st"
  shows "if generation st = MAX_U64 then projectRepack st pinned = Inl StoreLimitError
    else \<exists>st'. projectRepack st pinned = Inr st' \<and> reachable st' \<and> generation st' = generation st + 1
      \<and> activeMetadataFile st' = otherMetadataFile (activeMetadataFile st)
      \<and> inodes st' = inodes st \<and> lookup st' = lookup st
      \<and> ownedBy (allocator st') = ownedBy (allocator st)
      \<and> basePayloadBytes st' \<le> basePayloadBytes st"
proof -
  have inv: "vfs_inv st" "paths_ok st" using reachable_inv [OF assms] by simp_all
  note run = projectRepack_ok [OF inv, of pinned] and p = repacked_parts [OF inv(1), of pinned]
  have "reachable (repackedState st (cloneState st) pinned)" if "generation st \<noteq> MAX_U64"
    using that run by (intro reachable_step [OF assms] step_repack [where pinned = pinned]) simp
  moreover have "basePayloadBytes (repackedState st (cloneState st) pinned) \<le> basePayloadBytes st"
    using p(2) repacked_pool [OF inv(1), of pinned] by simp
  ultimately show ?thesis using run p(3) by (simp add: repacked_fields repacked_lookup)
qed

theorem repack_preserves_namespace_witness:
  "\<exists>st'. projectRepack demo5 {} = Inr st' \<and> reachable st' \<and> lookup st' = lookup demo5"
proof -
  have "generation demo5 \<noteq> MAX_U64" by code_simp
  with repack_preserves_namespace [OF demo_reachable(6), of "{}"] show ?thesis by auto
qed

text \<open>
  C20. What a repack does to each quarantined extent: a pinned one stays quarantined without a
  generation; one quarantined since the last repack is stamped with the new generation, and so
  survives one more repack; one already stamped is released.
\<close>

theorem repack_ages_quarantine:
  assumes "reachable st" and "projectRepack st pinned = Inr st'"
  shows "map_of (quarantine (allocator st')) e = (case map_of (quarantine (allocator st)) e of
      None \<Rightarrow> None
    | Some stamp \<Rightarrow> if e \<in> pinned then Some None
        else if stamp = None then Some (Some (generation st + 1)) else None)"
  using repacked_parts(6) [OF reachable_vfs [OF assms(1)], of pinned e]
    repack_applies(1) [OF reachable_vfs [OF assms(1)] reachable_paths [OF assms(1)] assms(2)] by simp

theorem repack_ages_quarantine_witness:
  "map_of (quarantine (allocator demo6)) 1 = Some (Some (generation demo5 + 1))"
proof -
  have "map_of (quarantine (allocator demo5)) 1 = Some None" by code_simp
  with repack_ages_quarantine [OF demo_reachable(6) repack_demo, of 1] show ?thesis by simp
qed

text \<open>
  A repack gives back the free tail of the arena, all of it: the arena never grows, and its last
  extent, if any, is owned or quarantined.
\<close>

theorem repack_trims_tail:
  assumes "reachable st" and "projectRepack st pinned = Inr st'"
  shows "totalExtents (allocator st') \<le> totalExtents (allocator st)
    \<and> (totalExtents (allocator st') = 0
       \<or> map_of (ownedBy (allocator st')) (totalExtents (allocator st') - 1) \<noteq> None
       \<or> map_of (quarantine (allocator st')) (totalExtents (allocator st') - 1) \<noteq> None)"
proof -
  note inv = reachable_vfs [OF assms(1)]
  have st': "st' = repackedState st (cloneState st) pinned" and inv': "vfs_inv st'"
    using repack_applies [OF inv reachable_paths [OF assms(1)] assms(2)] by simp_all
  note p = repacked_parts(4,5) [OF inv, of pinned, folded st'] and a = vfs_invD(3) [OF inv']
  let ?t = "totalExtents (allocator st')"
  have "?t = 0 \<or> 0 \<le> ?t - 1 \<and> ?t - 1 < ?t" using alloc_invD(9) [OF a] by linarith
  with p alloc_inv_range [OF a, of "?t - 1"] show ?thesis by blast
qed

theorem repack_trims_tail_witness: "totalExtents (allocator demo6) \<le> totalExtents (allocator demo5)"
  using repack_trims_tail [OF demo_reachable(6) repack_demo] by simp

section \<open>The structural validator\<close>

text \<open>
  C21. The validator decides the declarative invariant: a state whose tables have distinct keys and
  whose extent set is well formed, which the JavaScript classes guarantee, passes \<open>validateState\<close>
  exactly when it satisfies the invariant and all its paths are within the limits.
\<close>

theorem validateState_decides_invariant:
  assumes "rep_inv st"
  shows "validateState st = Inr () \<longleftrightarrow> vfs_inv st \<and> paths_ok st"
  using validateState_sound [OF assms] validateState_complete by blast

theorem validateState_decides_invariant_witness: "vfs_inv demo5 \<and> paths_ok demo5"
proof -
  have "validateState demo5 = Inr ()" by code_simp
  with validateState_decides_invariant [OF vfs_inv_rep [OF demo_inv(6)]] show ?thesis by simp
qed

section \<open>The initial state\<close>

text \<open>
  A new store is created exactly for a valid extent size, and rejected with a \<open>TypeError\<close>
  otherwise; its state validates and holds the root alone.
\<close>

theorem createInitialState_valid:
  "if extent_size_ok ext
   then \<exists>st. createInitialState ext = Inr st \<and> validateState st = Inr () \<and> extentSize st = ext
     \<and> (\<forall>cs. lookup st cs = (if cs = [] then Some (rootInodeId st) else None))
   else createInitialState ext = Inl TypeError"
proof (cases "extent_size_ok ext")
  case True
  then obtain st where st: "createInitialState ext = Inr st"
    using validateExtentSize_Inr [of ext ext] by (auto simp: createInitialState_def Let_def)
  note i = createInitialState_inv [OF st]
  have f: "extentSize st = ext" "inodes st = [(1, \<lparr>inodeId = 1, imode = 16895, atimeMs = 0, mtimeMs = 0,
      ctimeMs = 0, body = Directory []\<rparr>)]"
    using st by (auto simp: createInitialState_def ebind_eq_Inr validateExtentSize_Inr Let_def)
  have "child_of st = (\<lambda>_ _. None)" by (auto simp: child_of_def f children_def fun_eq_iff)
  then have "lookup st cs = (if cs = [] then Some (rootInodeId st) else None)" for cs
    by (cases cs) (simp_all add: lookup_def)
  with True st f(1) validateState_complete [OF i(1,2)] show ?thesis by simp
next
  case False
  then have "validateExtentSize ext = Inl TypeError"
    using validateExtentSize_Inr [of ext ext] by (auto simp: validateExtentSize_def split: if_splits)
  with False show ?thesis by (simp add: createInitialState_def)
qed

section \<open>Prepared projections\<close>

text \<open>
  A projection prepared for this state and record changes only when the size is computed: the
  transaction then has the result it has without one. A projection of another state or record is
  refused.
\<close>

theorem prepared_projection_is_transparent:
  assumes "prepareTxnProjection st record = Inr p"
  shows "applyTxn st record (Some p) = applyTxn st record None
    \<and> (st' \<noteq> st \<or> record' \<noteq> record \<longrightarrow> applyTxn st' record' (Some p) = (Some StoreLimitError, st'))"
  using applyTxn_prepared_eq [OF assms] assms
  by (auto simp: prepareTxnProjection_def ebind_eq_Inr applyTxn_def)

theorem prepared_projection_is_transparent_witness:
  "\<exists>p. prepareTxnProjection demo4 (ChangeMode 2 448 9) = Inr p
     \<and> applyTxn demo4 (ChangeMode 2 448 9) (Some p) = applyTxn demo4 (ChangeMode 2 448 9) None"
proof -
  have p: "prepareTxnProjection demo4 (ChangeMode 2 448 9) = Inr \<lparr>projectedBasePayloadBytes = 243,
      preparedState = demo4, preparedRecord = ChangeMode 2 448 9\<rparr>" by code_simp
  with prepared_projection_is_transparent [OF p] show ?thesis by blast
qed

end
