(* ===== verification/ResolveLinks.thy ===== *)
theory ResolveLinks
  imports Scenario
begin

text \<open>
  Symbolic-link resolution: \<open>resolveLinks\<close> of \<open>state-machine.ts\<close>. Its loop terminates by definition
  (hops are bounded, and every other iteration advances the index); here, that its result names a
  path on which no followed component is a link, and that it is a fixpoint of the resolution.
\<close>

text \<open>
  No component of the path that a resolution follows is a symbolic link: with \<open>follow\<close> none at all,
  otherwise none but the last.
\<close>

definition link_free :: "VfsState \<Rightarrow> bool \<Rightarrow> js_string list \<Rightarrow> bool" where
  "link_free st follow cs \<longleftrightarrow> (\<forall>i < length cs. follow \<or> i < length cs - 1 \<longrightarrow>
     (\<forall>k inode t. lookup st (take (Suc i) cs) = Some k \<longrightarrow> imap st k = Some inode \<longrightarrow> body inode \<noteq> Symlink t))"

text \<open>The loop's variables: the walk has reached \<open>current\<close> through \<open>index\<close> components, none a followed link.\<close>

definition walked :: "VfsState \<Rightarrow> bool \<Rightarrow> js_string list \<Rightarrow> nat \<Rightarrow> Inode \<Rightarrow> js_string list \<Rightarrow> bool" where
  "walked st follow pending index current resolved \<longleftrightarrow> path_ok pending \<and> index \<le> length pending
     \<and> resolved = take index pending
     \<and> (\<exists>k. lookup st (take index pending) = Some k \<and> imap st k = Some current)
     \<and> (\<forall>i < index. follow \<or> i < length pending - 1 \<longrightarrow>
          (\<forall>k inode t. lookup st (take (Suc i) pending) = Some k \<longrightarrow> imap st k = Some inode
             \<longrightarrow> body inode \<noteq> Symlink t))"

lemma lookup_take_Suc:
  "i < length cs \<Longrightarrow> lookup st (take (Suc i) cs) = Option.bind (lookup st (take i cs)) (\<lambda>p. child_of st p (cs ! i))"
  by (simp add: take_Suc_conv_app_nth lookup_snoc)

lemma lookup_take_None:
  assumes "lookup st (take (Suc i) cs) = None" and "i \<le> j" and "j < length cs"
  shows "lookup st (take (Suc j) cs) = None"
  using assms(2,3)
proof (induction j rule: nat_induct_at_least)
  case (Suc n)
  then show ?case by (subst lookup_take_Suc) simp_all
qed (use assms(1) in simp)

lemma walked_stop:
  assumes w: "walked st follow pending index current resolved"
    and stop: "index < length pending \<Longrightarrow> \<not> isDirectory current \<or> map_of (children current) (pending ! index) = None"
  shows "link_free st follow pending"
proof -
  from w obtain k where k: "lookup st (take index pending) = Some k" "imap st k = Some current"
    by (auto simp: walked_def)
  have "lookup st (take (Suc i) pending) = None" if i: "index \<le> i" "i < length pending" for i
  proof (rule lookup_take_None [OF _ i])
    have "map_of (children current) (pending ! index) = None"
      using stop i not_directory_children [of current] by force
    with i k show "lookup st (take (Suc index) pending) = None"
      by (subst lookup_take_Suc) (simp_all add: child_of_def)
  qed
  with w show ?thesis unfolding link_free_def walked_def by (metis not_le option.distinct(1))
qed

lemma walked_next:
  assumes w: "walked st follow pending index current resolved" and i: "index < length pending"
    and c: "map_of (children current) (pending ! index) = Some k" "imap st k = Some child"
    and plain: "follow \<or> index < length pending - 1 \<longrightarrow> (\<forall>t. body child \<noteq> Symlink t)"
  shows "walked st follow pending (index + 1) child (resolved @ [pending ! index])"
proof -
  from w obtain p where p: "lookup st (take index pending) = Some p" "imap st p = Some current"
    by (auto simp: walked_def)
  then have at: "lookup st (take (Suc index) pending) = Some k"
    using i c by (subst lookup_take_Suc) (simp_all add: child_of_def)
  have "body inode \<noteq> Symlink t"
    if "j < index + 1" "follow \<or> j < length pending - 1" "lookup st (take (Suc j) pending) = Some m"
      "imap st m = Some inode" for j m inode t
  proof (cases "j = index")
    case True
    with that at c(2) plain show ?thesis by simp
  next
    case False
    with that w show ?thesis unfolding walked_def by (metis Suc_eq_plus1 less_antisym)
  qed
  with w i at c(2) show ?thesis by (auto simp: walked_def take_Suc_conv_app_nth)
qed

lemma walked_start:
  "path_ok pending \<Longrightarrow> imap st (rootInodeId st) = Some root \<Longrightarrow> walked st follow pending 0 root []"
  by (simp add: walked_def)

text \<open>The path reported when the walk stops is the pending path itself.\<close>

lemma joinWith_append: "xs \<noteq> [] \<Longrightarrow> ys \<noteq> [] \<Longrightarrow> joinWith s (xs @ ys) = joinWith s xs @ s # joinWith s ys"
  by (induction s xs rule: joinWith.induct) (auto simp: neq_Nil_conv)

lemma join_rest:
  assumes "\<forall>c\<in>set p. c \<noteq> []"
  shows "joinPath (slash # joinWith slash (take i p)) (drop i p) = render_path p"
proof (cases "drop i p = []")
  case True
  then show ?thesis by (simp add: joinPath_def render_path_def)
next
  case False
  show ?thesis
  proof (cases "take i p")
    case Nil
    with False show ?thesis
      by (metis append_Nil append_take_drop_id joinPath_def joinWith.simps(1) render_path_def)
  next
    case (Cons c cs)
    have ne: "take i p \<noteq> []" using Cons by simp
    have "c \<noteq> []" using assms Cons by (metis in_set_takeD list.set_intros(1))
    with Cons have "joinWith slash (take i p) \<noteq> []" by (cases cs) simp_all
    with False joinWith_append [OF ne False, of slash] show ?thesis
      by (simp add: joinPath_def render_path_def)
  qed
qed

lemma walked_finish:
  assumes "walked st follow pending index current resolved"
  shows "joinPath (slash # joinWith slash resolved) (drop index pending) = render_path pending"
  using assms join_rest [of pending index]
  by (auto simp: walked_def path_ok_def component_ok_def)

text \<open>One iteration of the loop, by what it finds.\<close>

lemma resolve_stop:
  "\<not> (index < length pending \<and> isDirectory current \<and> map_of (children current) (pending ! index) \<noteq> None) \<Longrightarrow>
     resolveLoop st follow root pending index current resolved hops
       = Inr (joinPath (slash # joinWith slash resolved) (drop index pending))"
  by (subst resolveLoop.simps) (auto simp: Let_def)

lemma resolve_next:
  assumes "index < length pending" and "isDirectory current"
    and "map_of (children current) (pending ! index) = Some k" and "imap st k = Some child"
    and "follow \<or> index < length pending - 1 \<longrightarrow> (\<forall>t. body child \<noteq> Symlink t)"
  shows "resolveLoop st follow root pending index current resolved hops
    = resolveLoop st follow root pending (index + 1) child (resolved @ [pending ! index]) hops"
  using assms by (subst resolveLoop.simps) (auto simp: Let_def split: InodeBody.split)

lemma resolve_hop:
  assumes "index < length pending" and "isDirectory current"
    and "map_of (children current) (pending ! index) = Some k" and "imap st k = Some child"
    and "body child = Symlink t" and "follow \<or> index < length pending - 1"
  shows "resolveLoop st follow root pending index current resolved hops
    = (if hops + 1 > MAX_SYMLINK_HOPS then Inl (FsError ELOOP)
       else ebind (parsePath (joinPath t (drop (index + 1) pending)))
         (\<lambda>pending'. resolveLoop st follow root pending' 0 root [] (hops + 1)))"
  using assms by (subst resolveLoop.simps) (simp add: Let_def)

definition resolved_ok :: "VfsState \<Rightarrow> bool \<Rightarrow> js_string res \<Rightarrow> bool" where
  "resolved_ok st follow r = (case r of
      Inr q \<Rightarrow> \<exists>cs. q = render_path cs \<and> path_ok cs \<and> link_free st follow cs
    | Inl e \<Rightarrow> e = FsError EINVAL \<or> e = FsError ELOOP)"

lemma resolveLoop_sound:
  assumes "walked st follow pending index current resolved" and "imap st (rootInodeId st) = Some root"
    and "tree_inv st"
  shows "resolved_ok st follow (resolveLoop st follow root pending index current resolved hops)"
  using assms
proof (induction st follow root pending index current resolved hops rule: resolveLoop.induct)
  case (1 st follow root pending index current resolved hops)
  note w = 1(5)
  show ?case
  proof (cases "index < length pending \<and> isDirectory current \<and> map_of (children current) (pending ! index) \<noteq> None")
    case False
    have "link_free st follow pending" using w False by (intro walked_stop) auto
    moreover have "path_ok pending" using w by (simp add: walked_def)
    ultimately show ?thesis
      unfolding resolve_stop [OF False] walked_finish [OF w] by (auto simp: resolved_ok_def)
  next
    case True
    then have go: "\<not> \<not> index < length pending" "\<not> \<not> isDirectory current" and go': "index < length pending"
      "isDirectory current" by simp_all
    from True obtain k where k: "map_of (children current) (pending ! index) = Some k" by auto
    from w obtain p where "imap st p = Some current" by (auto simp: walked_def)
    with k have "child_of st p (pending ! index) = Some k" by (simp add: child_of_def)
    then obtain child where child: "imap st k = Some child" using child_in [OF 1(7)] by blast
    show ?thesis
    proof (cases "\<exists>t. body child = Symlink t \<and> (follow \<or> index < length pending - 1)")
      case True
      then obtain t where t: "body child = Symlink t" "follow \<or> index < length pending - 1" by blast
      show ?thesis
      proof (cases "parsePath (joinPath t (drop (index + 1) pending))")
        case (Inl e)
        with parsePath_Inl [OF Inl] show ?thesis
          unfolding resolve_hop [OF go' k child t] by (simp add: resolved_ok_def)
      next
        case (Inr pending')
        have "walked st follow pending' 0 root []"
          using Inr 1(6) by (intro walked_start) (simp_all add: parsePath_Inr)
        with 1(3) [OF refl go k child t _ Inr _ 1(6,7)] Inr show ?thesis
          unfolding resolve_hop [OF go' k child t] by (simp add: resolved_ok_def)
      qed
    next
      case False
      then have plain: "follow \<or> index < length pending - 1 \<longrightarrow> (\<forall>t. body child \<noteq> Symlink t)" by blast
      have nw: "walked st follow pending (index + 1) child (resolved @ [pending ! index])"
        by (rule walked_next [OF w go'(1) k child plain])
      have "resolved_ok st follow
        (resolveLoop st follow root pending (index + 1) child (resolved @ [pending ! index]) hops)"
      proof (cases "body child")
        case (Directory es)
        then show ?thesis by (rule 1(1) [OF refl go k child _ nw 1(6,7)])
      next
        case (File n es)
        then show ?thesis by (rule 1(2) [OF refl go k child _ nw 1(6,7)])
      next
        case (Symlink t)
        with False have "\<not> (follow \<or> index < length pending - 1)" by blast
        from 1(4) [OF refl go k child Symlink this nw 1(6,7)] show ?thesis .
      qed
      then show ?thesis unfolding resolve_next [OF go' k child plain] .
    qed
  qed
qed

lemma resolveLoop_fixpoint:
  assumes "walked st follow pending index current resolved" and "link_free st follow pending"
    and "tree_inv st"
  shows "resolveLoop st follow root pending index current resolved hops = Inr (render_path pending)"
  using assms
proof (induction "length pending - index" arbitrary: index current resolved)
  case 0
  then have "\<not> index < length pending" by simp
  then show ?case using resolve_stop walked_finish [OF 0(2)] by simp
next
  case (Suc n)
  show ?case
  proof (cases "isDirectory current \<and> map_of (children current) (pending ! index) \<noteq> None")
    case False
    then show ?thesis using resolve_stop walked_finish [OF Suc(3)] by simp
  next
    case True
    have lt: "index < length pending" using Suc(2) by simp
    from True obtain k where k: "map_of (children current) (pending ! index) = Some k" by auto
    from Suc(3) obtain p where p: "imap st p = Some current" "lookup st (take index pending) = Some p"
      by (auto simp: walked_def)
    with k have "child_of st p (pending ! index) = Some k" by (simp add: child_of_def)
    moreover from this obtain child where child: "imap st k = Some child" using child_in [OF Suc(5)] by blast
    ultimately have "lookup st (take (Suc index) pending) = Some k"
      using lt p(2) by (subst lookup_take_Suc) simp_all
    then have plain: "follow \<or> index < length pending - 1 \<longrightarrow> (\<forall>t. body child \<noteq> Symlink t)"
      using Suc(4) lt child unfolding link_free_def by blast
    have dir: "isDirectory current" using True by simp
    show ?thesis
      unfolding resolve_next [OF lt dir k child plain]
      by (rule Suc(1) [OF _ walked_next [OF Suc(3) lt k child plain] Suc(4,5)]) (use Suc(2) in auto)
  qed
qed

text \<open>
  C22. Resolving the links of a path returns a normalised path none of whose followed components is a
  symbolic link (with \<open>follow\<close> not even the last), and resolving the result again returns it
  unchanged; it fails only for an invalid path (\<open>EINVAL\<close>) or too many hops (\<open>ELOOP\<close>).
\<close>

theorem resolveLinks_reaches_link_free_path:
  assumes "vfs_inv st"
  shows "case resolveLinks st p follow of
      Inr q \<Rightarrow> (\<exists>cs. q = render_path cs \<and> path_ok cs \<and> link_free st follow cs)
        \<and> resolveLinks st q follow = Inr q
    | Inl e \<Rightarrow> e = FsError EINVAL \<or> e = FsError ELOOP"
proof -
  note t = vfs_invD(1,2) [OF assms]
  obtain root where root: "imap st (rootInodeId st) = Some root" using table_invD(4) [OF t(1)] by auto
  show ?thesis
  proof (cases "parsePath p")
    case (Inl e)
    with root parsePath_Inl [OF Inl] show ?thesis by (simp add: resolveLinks_def)
  next
    case (Inr pending)
    then have "walked st follow pending 0 root []" using root by (intro walked_start) (simp_all add: parsePath_Inr)
    from resolveLoop_sound [OF this root t(2)] Inr root
    have ok: "resolved_ok st follow (resolveLinks st p follow)" by (simp add: resolveLinks_def)
    have "resolveLinks st (render_path cs) follow = Inr (render_path cs)"
      if cs: "path_ok cs" "link_free st follow cs" for cs
      using resolveLoop_fixpoint [OF walked_start [OF cs(1) root] cs(2) t(2)] root parsePath_complete [OF cs(1)]
      by (simp add: resolveLinks_def)
    with ok show ?thesis by (auto simp: resolved_ok_def split: sum.splits)
  qed
qed

theorem resolveLinks_reaches_link_free_path_witness:
  "\<exists>cs. path_ab = render_path cs \<and> link_free demo3 True cs"
proof -
  have "resolveLinks demo3 path_l True = Inr path_ab" by code_simp
  with resolveLinks_reaches_link_free_path [OF demo_inv(4), where p = path_l and follow = True] show ?thesis by auto
qed

end
