(* ===== verification/CoreProperties.thy ===== *)
theory CoreProperties
  imports ExtentRuns
begin

text \<open>
  The properties of the store's building blocks: the checksum, the path grammar, the run-length lists
  of extents and the indexed extent set.
\<close>

section \<open>The checksum\<close>

text \<open>
  C23. The sliced CRC-32, which consumes eight bytes per iteration through eight tables, computes the
  bit-serial CRC-32 register for every input.
\<close>

theorem crc32_is_bit_serial: "crc32 bytes = crc32_spec bytes"
  by (rule crc32_correct)

text \<open>
  The checksum with a zeroed range is the checksum of the input with those bytes set to zero; a
  range beyond the input is a \<open>RangeError\<close> and a negative one a \<open>TypeError\<close>.
\<close>

theorem crc32_zeroed_range:
  "crc32WithZeroedRange bytes offset len =
    (if isSafeInteger offset \<and> isSafeInteger len \<and> 0 \<le> offset \<and> 0 \<le> len
     then if offset + len \<le> int (length bytes)
       then Inr (crc32 (zeroRange bytes (nat offset) (nat len))) else Inl RangeError
     else Inl TypeError)"
proof (cases "isSafeInteger offset \<and> isSafeInteger len")
  case True
  then show ?thesis
    using crc32WithZeroedRange_correct [of offset len bytes] by (simp add: crc32WithZeroedRange_def)
qed (auto simp: crc32WithZeroedRange_def)

text \<open>
  A change of any one byte changes the checksum: such a corruption is always detected.
\<close>

lemma crc32_detects_byte_change: "a \<noteq> b \<Longrightarrow> crc32 (xs @ [a] @ ys) \<noteq> crc32 (xs @ [b] @ ys)"
  by (rule crc32_byte_change)

section \<open>Paths\<close>

text \<open>
  C24. Parsing is the inverse of rendering, on exactly the paths within the limits: a string parses to
  components if and only if they are valid, at most 32, at most 1024 bytes in all, and render to that
  string; every other string is rejected with \<open>EINVAL\<close>.
\<close>

theorem parsePath_inverts_render:
  "case parsePath p of
     Inr comps \<Rightarrow> path_ok comps \<and> p = render_path comps
   | Inl e \<Rightarrow> e = FsError EINVAL \<and> (\<nexists>comps. path_ok comps \<and> p = render_path comps)"
  using parsePath_sound [of p] parsePath_Inl [of p] parsePath_complete
  by (cases "parsePath p") fastforce+

section \<open>Extents\<close>

text \<open>
  Run-length encoding of an extent list is lossless: within the entry limit, expanding the runs
  returns the list, in order, and every list of 64-bit extent ids can be encoded.
\<close>

theorem extent_runs_roundtrip:
  assumes "\<forall>e\<in>set extents. u64 e" and "int (length extents) \<le> maximum"
  shows "\<exists>runs. toExtentRuns extents = Inr runs \<and> expandExtentRuns runs maximum = Inr extents"
  using toExtentRuns_ok [OF assms(1)] runs_roundtrip [OF _ assms(2)] by blast

theorem extent_runs_roundtrip_witness:
  "\<exists>runs. toExtentRuns [4, 5, 6, 2] = Inr runs \<and> expandExtentRuns runs 10 = Inr [4, 5, 6, 2]"
  by (rule extent_runs_roundtrip) (simp_all add: u64_def MAX_U64_def)

text \<open>
  C25. The indexed extent set, an array with an index map and swap-with-last deletion, is a finite
  set: membership, insertion, deletion and size are those of the set, and \<open>peekLast\<close> selects distinct
  members without removing them.
\<close>

theorem extent_set_refines_set:
  assumes "extents_inv s"
  shows "extents_inv (addExtent s e) \<and> extents_of (addExtent s e) = insert e (extents_of s)
    \<and> extents_inv (snd (deleteExtent s e)) \<and> extents_of (snd (deleteExtent s e)) = extents_of s - {e}
    \<and> (fst (deleteExtent s e) \<longleftrightarrow> e \<in> extents_of s) \<and> (hasExtent s e \<longleftrightarrow> e \<in> extents_of s)
    \<and> sizeExtent s = card (extents_of s)
    \<and> (\<forall>xs. peekLast s n = Inr xs \<longrightarrow> distinct xs \<and> set xs \<subseteq> extents_of s \<and> int (length xs) = n)"
proof (intro conjI allI impI)
  fix xs
  assume "peekLast s n = Inr xs"
  from peekLast_Inr [OF assms this]
  show "distinct xs" "set xs \<subseteq> extents_of s" "int (length xs) = n" by simp_all
qed (use assms pool.laws pool.size_card deleteExtent_found hasExtent_iff in simp_all)

theorem extent_set_refines_set_witness:
  "extents_of (snd (deleteExtent (addExtent (addExtent emptyExtentSet 4) 9) 4)) = {9}"
proof -
  note i = extents_inv_empty pool.inv_ins
  have "extents_inv (addExtent (addExtent emptyExtentSet 4) 9)" by (intro i)
  from extent_set_refines_set [OF this, of 4] show ?thesis
    by (auto simp: pool.elems_ins i extents_of_empty)
qed

end
