(* ===== verification/Utf8.thy ===== *)
theory Utf8
  imports Path
begin

text \<open>
  The two platform objects \<open>codec.ts\<close> converts names with: \<open>TextEncoder\<close> and a fatal
  \<open>TextDecoder("utf-8")\<close>, on JavaScript strings as lists of UTF-16 code units. The encoder
  replaces a lone surrogate by U+FFFD; the decoder rejects every ill-formed sequence and, since
  \<open>ignoreBOM\<close> is not set, drops one leading byte order mark.
\<close>

section \<open>Code points and UTF-16\<close>

definition byteOf :: "nat \<Rightarrow> byte" where "byteOf n = of_nat n"
definition unitOf :: "nat \<Rightarrow> code_unit" where "unitOf n = of_nat n"

text \<open>\<open>codePointAt\<close>: a surrogate pair is one code point, a lone surrogate is itself.\<close>

definition pairPoint :: "code_unit \<Rightarrow> code_unit \<Rightarrow> nat" where
  "pairPoint u d = 0x10000 + (unat u - 0xd800) * 1024 + (unat d - 0xdc00)"

fun scalarValues :: "js_string \<Rightarrow> nat list" where
  "scalarValues [] = []"
| "scalarValues (u # rest) =
     (if highSurrogate u then
        (case rest of
           [] \<Rightarrow> [0xfffd]
         | d # rest' \<Rightarrow>
             if lowSurrogate d then pairPoint u d # scalarValues rest' else 0xfffd # scalarValues rest)
      else if lowSurrogate u then 0xfffd # scalarValues rest
      else unat u # scalarValues rest)"

declare scalarValues.simps(2) [simp del]

definition pointUnits :: "nat \<Rightarrow> js_string" where
  "pointUnits p =
     (if p < 0x10000 then [unitOf p]
      else [unitOf (0xd800 + (p - 0x10000) div 1024), unitOf (0xdc00 + (p - 0x10000) mod 1024)])"

section \<open>UTF-8\<close>

definition encodePoint :: "nat \<Rightarrow> byte list" where
  "encodePoint p =
     (if p < 0x80 then [byteOf p]
      else if p < 0x800 then [byteOf (0xc0 + p div 64), byteOf (0x80 + p mod 64)]
      else if p < 0x10000 then
        [byteOf (0xe0 + p div 4096), byteOf (0x80 + p div 64 mod 64), byteOf (0x80 + p mod 64)]
      else
        [byteOf (0xf0 + p div 262144), byteOf (0x80 + p div 4096 mod 64),
         byteOf (0x80 + p div 64 mod 64), byteOf (0x80 + p mod 64)])"

definition utf8Encode :: "js_string \<Rightarrow> byte list" where
  "utf8Encode s = concat (map encodePoint (scalarValues s))"

definition continuation :: "byte \<Rightarrow> bool" where
  "continuation b \<longleftrightarrow> 0x80 \<le> unat b \<and> unat b \<le> 0xbf"

text \<open>
  The decoder's ranges: the lead byte bounds the second byte, which excludes overlong forms,
  surrogates and values above U+10FFFF.
\<close>

fun decodePoints :: "byte list \<Rightarrow> nat list option" where
  "decodePoints [] = Some []"
| "decodePoints (b # rest) =
     (let v = unat b in
      if v < 0x80 then map_option ((#) v) (decodePoints rest)
      else if v < 0xc2 then None
      else if v < 0xe0 then
        (case rest of
           c # rest1 \<Rightarrow>
             if continuation c
             then map_option ((#) ((v - 0xc0) * 64 + (unat c - 0x80))) (decodePoints rest1)
             else None
         | _ \<Rightarrow> None)
      else if v < 0xf0 then
        (case rest of
           c # d # rest2 \<Rightarrow>
             if (if v = 0xe0 then 0xa0 else 0x80) \<le> unat c \<and> unat c \<le> (if v = 0xed then 0x9f else 0xbf)
                \<and> continuation d
             then map_option ((#) ((v - 0xe0) * 4096 + (unat c - 0x80) * 64 + (unat d - 0x80)))
                    (decodePoints rest2)
             else None
         | _ \<Rightarrow> None)
      else if v < 0xf5 then
        (case rest of
           c # d # e # rest3 \<Rightarrow>
             if (if v = 0xf0 then 0x90 else 0x80) \<le> unat c \<and> unat c \<le> (if v = 0xf4 then 0x8f else 0xbf)
                \<and> continuation d \<and> continuation e
             then map_option ((#) ((v - 0xf0) * 262144 + (unat c - 0x80) * 4096
                    + (unat d - 0x80) * 64 + (unat e - 0x80))) (decodePoints rest3)
             else None
         | _ \<Rightarrow> None)
      else None)"

declare decodePoints.simps(2) [simp del]

definition byteOrderMark :: nat where "byteOrderMark = 0xfeff"

definition utf8Decode :: "byte list \<Rightarrow> js_string option" where
  "utf8Decode bytes =
     map_option (\<lambda>points. concat (map pointUnits
         (case points of p # rest \<Rightarrow> if p = byteOrderMark then rest else points | [] \<Rightarrow> [])))
       (decodePoints bytes)"

section \<open>Round trip\<close>

definition scalar :: "nat \<Rightarrow> bool" where
  "scalar p \<longleftrightarrow> p < 0xd800 \<or> (0xe000 \<le> p \<and> p < 0x110000)"

lemma unat_byteOf [simp]: "n < 256 \<Longrightarrow> unat (byteOf n) = n"
  by (simp add: byteOf_def unat_of_nat take_bit_nat_eq_self)

lemma unat_unitOf [simp]: "n < 65536 \<Longrightarrow> unat (unitOf n) = n"
  by (simp add: unitOf_def unat_of_nat take_bit_nat_eq_self)

lemma unitOf_unat [simp]: "unitOf (unat u) = u"
  by (simp add: unitOf_def)

lemma split64: "(p :: nat) div 4096 = p div 64 div 64" "p div 262144 = p div 64 div 64 div 64"
  by (simp_all flip: div_mult2_eq)

lemma decodePoints_encodePoint:
  assumes "scalar p"
  shows "decodePoints (encodePoint p @ rest) = map_option ((#) p) (decodePoints rest)"
proof -
  consider "p < 0x80" | "0x80 \<le> p" "p < 0x800" | "0x800 \<le> p" "p < 0x10000"
    | "0x10000 \<le> p" "p < 0x110000" using assms by (fastforce simp: scalar_def)
  then show ?thesis
  proof cases
    case 1
    then show ?thesis by (simp add: encodePoint_def decodePoints.simps(2))
  next
    case 2
    define a b where "a = p div 64" and "b = p mod 64"
    have p: "p = a * 64 + b" unfolding a_def b_def by presburger
    have r: "2 \<le> a" "a < 32" "b < 64" using 2 by (auto simp: a_def b_def)
    have "encodePoint p = [byteOf (0xc0 + a), byteOf (0x80 + b)]"
      using 2 by (simp add: encodePoint_def a_def b_def)
    with r p show ?thesis by (simp add: decodePoints.simps(2) continuation_def Let_def)
  next
    case 3
    define a b c where "a = p div 4096" and "b = p div 64 mod 64" and "c = p mod 64"
    have "p = (a * 64 + b) * 64 + c" unfolding a_def b_def c_def split64 by simp
    then have p: "p = a * 4096 + b * 64 + c" by simp
    have r: "a < 16" "b < 64" "c < 64" using 3 by (auto simp: a_def b_def c_def)
    have "a = 0 \<longrightarrow> 32 \<le> b" using p r 3 by auto
    moreover have "a = 13 \<longrightarrow> b \<le> 31" using p r assms by (auto simp: scalar_def)
    moreover have "encodePoint p = [byteOf (0xe0 + a), byteOf (0x80 + b), byteOf (0x80 + c)]"
      using 3 by (simp add: encodePoint_def a_def b_def c_def)
    ultimately show ?thesis using r p by (simp add: decodePoints.simps(2) continuation_def Let_def)
  next
    case 4
    define a b c d where "a = p div 262144" and "b = p div 4096 mod 64" and "c = p div 64 mod 64"
      and "d = p mod 64"
    have "p = ((a * 64 + b) * 64 + c) * 64 + d" unfolding a_def b_def c_def d_def split64 by simp
    then have p: "p = a * 262144 + b * 4096 + c * 64 + d" by simp
    have r: "a < 5" "b < 64" "c < 64" "d < 64" using 4 by (auto simp: a_def b_def c_def d_def)
    have "a = 0 \<longrightarrow> 16 \<le> b" using p r 4 by auto
    moreover have "a = 4 \<longrightarrow> b \<le> 15" using p r 4 by auto
    moreover have "encodePoint p = [byteOf (0xf0 + a), byteOf (0x80 + b), byteOf (0x80 + c), byteOf (0x80 + d)]"
      using 4 by (simp add: encodePoint_def a_def b_def c_def d_def)
    ultimately show ?thesis using r p by (simp add: decodePoints.simps(2) continuation_def Let_def)
  qed
qed

lemma decodePoints_concat:
  "\<forall>p\<in>set ps. scalar p \<Longrightarrow> decodePoints (concat (map encodePoint ps)) = Some ps"
  by (induction ps) (simp_all add: decodePoints_encodePoint)

text \<open>The kinds of code unit, by value.\<close>

lemma surrogate_unat:
  "highSurrogate u \<longleftrightarrow> 0xd800 \<le> unat u \<and> unat u \<le> 0xdbff"
  "lowSurrogate u \<longleftrightarrow> 0xdc00 \<le> unat u \<and> unat u \<le> 0xdfff"
  by (simp_all add: highSurrogate_def lowSurrogate_def word_le_nat_alt)

lemma unat_unit_lt: "unat (u :: code_unit) < 65536"
proof -
  have "(unsigned u :: nat) < 2 ^ 16" using unsigned_less [of u] by simp
  then show ?thesis by simp
qed

lemma scalarValues_eqs:
  "highSurrogate u \<Longrightarrow> lowSurrogate d \<Longrightarrow> scalarValues (u # d # rest) = pairPoint u d # scalarValues rest"
  "\<not> highSurrogate u \<Longrightarrow> \<not> lowSurrogate u \<Longrightarrow> scalarValues (u # rest) = unat u # scalarValues rest"
  by (simp_all add: scalarValues.simps(2))

lemma pairPoint_range:
  "highSurrogate u \<Longrightarrow> lowSurrogate d \<Longrightarrow> 0x10000 \<le> pairPoint u d \<and> pairPoint u d < 0x110000"
  by (auto simp: pairPoint_def surrogate_unat)

lemma pointUnits_pair:
  assumes "highSurrogate u" and "lowSurrogate d"
  shows "pointUnits (pairPoint u d) = [u, d]"
proof -
  let ?h = "unat u - 0xd800" and ?l = "unat d - 0xdc00"
  have s: "unat u = 0xd800 + ?h" "unat d = 0xdc00 + ?l" "?l < 1024"
    using assms by (auto simp: surrogate_unat)
  have "pairPoint u d - 0x10000 = ?h * 1024 + ?l" by (simp add: pairPoint_def)
  then have "(pairPoint u d - 0x10000) div 1024 = ?h" "(pairPoint u d - 0x10000) mod 1024 = ?l"
    using s(3) by simp_all
  with s(1,2) pairPoint_range [OF assms] show ?thesis
    by (simp add: pointUnits_def flip: s(1,2))
qed

lemma pointUnits_unit: "pointUnits (unat u) = [u]"
  using unat_unit_lt [of u] by (simp add: pointUnits_def)

lemma unit_scalar: "\<not> highSurrogate u \<Longrightarrow> \<not> lowSurrogate u \<Longrightarrow> scalar (unat u)"
  using unat_unit_lt [of u] by (auto simp: scalar_def surrogate_unat)

lemma utf8_ok_eqs:
  "highSurrogate u \<Longrightarrow> \<not> utf8_ok [u]"
  "highSurrogate u \<Longrightarrow> \<not> lowSurrogate d \<Longrightarrow> \<not> utf8_ok (u # d # rest)"
  "highSurrogate u \<Longrightarrow> lowSurrogate d \<Longrightarrow> utf8_ok (u # d # rest) \<longleftrightarrow> utf8_ok rest"
  "lowSurrogate u \<Longrightarrow> \<not> utf8_ok (u # rest)"
  "\<not> highSurrogate u \<Longrightarrow> \<not> lowSurrogate u \<Longrightarrow> utf8_ok (u # rest) \<longleftrightarrow> utf8_ok rest"
  by (auto simp: utf8_ok_def utf8Length_eqs ebind_def split: sum.splits)

lemma scalarValues_ok:
  "utf8_ok s \<Longrightarrow> (\<forall>p\<in>set (scalarValues s). scalar p) \<and> concat (map pointUnits (scalarValues s)) = s"
proof (induction s rule: utf8_induct)
  case (pair u d rest)
  with pairPoint_range [of u d] show ?case
    by (simp add: utf8_ok_eqs scalarValues_eqs pointUnits_pair scalar_def)
next
  case (plain u rest)
  then show ?case by (simp add: utf8_ok_eqs scalarValues_eqs pointUnits_unit unit_scalar)
qed (simp_all add: utf8_ok_eqs)

text \<open>A string that starts with the byte order mark does not survive: the decoder drops it.\<close>

definition bom_unit :: code_unit where "bom_unit = 0xfeff"

definition bom_free :: "js_string \<Rightarrow> bool" where
  "bom_free s \<longleftrightarrow> s = [] \<or> hd s \<noteq> bom_unit"

lemma scalarValues_bom:
  assumes "utf8_ok s" and "scalarValues s = byteOrderMark # rest"
  shows "\<exists>t. s = bom_unit # t \<and> scalarValues t = rest"
proof (cases s)
  case Nil
  with assms show ?thesis by simp
next
  case (Cons u t)
  show ?thesis
  proof (cases "highSurrogate u")
    case False
    then have "\<not> lowSurrogate u" using assms(1) Cons by (auto simp: utf8_ok_eqs)
    with False assms(2) Cons show ?thesis
      by (auto simp: scalarValues_eqs byteOrderMark_def bom_unit_def word_unat_eq_iff)
  next
    case True
    then obtain d r where "t = d # r" "lowSurrogate d"
      using assms(1) Cons utf8_ok_eqs(1,2) by (cases t) blast+
    with True assms(2) Cons pairPoint_range [of u d] show ?thesis
      by (auto simp: scalarValues_eqs byteOrderMark_def)
  qed
qed

lemma utf8Decode_encode:
  assumes "utf8_ok s"
  shows "utf8Decode (utf8Encode s) = Some (if bom_free s then s else tl s)"
proof (cases "\<exists>rest. scalarValues s = byteOrderMark # rest")
  case True
  then obtain t where t: "s = bom_unit # t" "scalarValues s = byteOrderMark # scalarValues t"
    using scalarValues_bom [OF assms] by blast
  have "\<not> highSurrogate bom_unit" "\<not> lowSurrogate bom_unit"
    by (simp_all add: surrogate_unat bom_unit_def)
  then have "utf8_ok t" using assms t(1) by (simp add: utf8_ok_eqs)
  with t scalarValues_ok [OF assms] scalarValues_ok [of t] show ?thesis
    by (simp add: utf8Decode_def utf8Encode_def decodePoints_concat decodePoints_encodePoint bom_free_def)
next
  case False
  have "bom_free s"
  proof (rule ccontr)
    assume "\<not> bom_free s"
    then obtain t where "s = bom_unit # t" by (cases s) (auto simp: bom_free_def)
    moreover have "\<not> highSurrogate bom_unit" "\<not> lowSurrogate bom_unit" "unat bom_unit = byteOrderMark"
      by (simp_all add: surrogate_unat bom_unit_def byteOrderMark_def)
    ultimately show False using False by (simp add: scalarValues_eqs)
  qed
  with False scalarValues_ok [OF assms] show ?thesis
    by (auto simp: utf8Decode_def utf8Encode_def decodePoints_concat split: list.split)
qed

text \<open>The encoded length is the length \<open>path.ts\<close> computes.\<close>

lemma length_encodePoint:
  "length (encodePoint p) = (if p < 0x80 then 1 else if p < 0x800 then 2 else if p < 0x10000 then 3 else 4)"
  by (simp add: encodePoint_def)

lemma utf8_bytes_eqs:
  "highSurrogate u \<Longrightarrow> lowSurrogate d \<Longrightarrow> utf8_ok rest \<Longrightarrow> utf8_bytes (u # d # rest) = utf8_bytes rest + 4"
  "\<not> highSurrogate u \<Longrightarrow> \<not> lowSurrogate u \<Longrightarrow> utf8_ok rest \<Longrightarrow> utf8_bytes (u # rest) = utf8_bytes rest + unitBytes u"
  by (auto simp: utf8_bytes_def utf8_ok_def utf8Length_eqs split: sum.splits)

lemma length_utf8Encode: "utf8_ok s \<Longrightarrow> int (length (utf8Encode s)) = utf8_bytes s"
proof (induction s rule: utf8_induct)
  case (pair u d rest)
  with pairPoint_range [of u d] show ?case
    by (simp add: utf8Encode_def utf8_ok_eqs scalarValues_eqs utf8_bytes_eqs length_encodePoint)
next
  case (plain u rest)
  then show ?case
    using unat_unit_lt [of u]
    by (simp add: utf8Encode_def utf8_ok_eqs scalarValues_eqs utf8_bytes_eqs length_encodePoint
        unitBytes_def word_le_nat_alt)
qed (simp_all add: utf8_ok_eqs utf8Encode_def)

section \<open>The decoder accepts encodings only\<close>

lemma byteOf_unat [simp]: "byteOf (unat b) = b"
  by (simp add: byteOf_def)

lemma encodePoint_two:
  "a < 32 \<Longrightarrow> 2 \<le> a \<Longrightarrow> b < 64 \<Longrightarrow> encodePoint (a * 64 + b) = [byteOf (0xc0 + a), byteOf (0x80 + b)]"
  by (simp add: encodePoint_def)

lemma digit64: "c < 64 \<Longrightarrow> ((x :: nat) * 64 + c) div 64 = x" "c < 64 \<Longrightarrow> (x * 64 + c) mod 64 = c"
  by simp_all

lemma encodePoint_three:
  assumes "a < 16" "b < 64" "c < 64" and "a = 0 \<longrightarrow> 32 \<le> b"
  shows "encodePoint (a * 4096 + b * 64 + c) = [byteOf (0xe0 + a), byteOf (0x80 + b), byteOf (0x80 + c)]"
proof -
  have e: "a * 4096 + b * 64 + c = (a * 64 + b) * 64 + c" by simp
  have "(a * 4096 + b * 64 + c) div 4096 = a" "(a * 4096 + b * 64 + c) div 64 mod 64 = b"
    "(a * 4096 + b * 64 + c) mod 64 = c"
    unfolding split64 e digit64 [OF assms(3)] digit64 [OF assms(2)] by simp_all
  moreover have "0x800 \<le> a * 4096 + b * 64 + c" using assms by (cases "a = 0") auto
  ultimately show ?thesis using assms by (simp add: encodePoint_def)
qed

lemma encodePoint_four:
  assumes "b < 64" "c < 64" "d < 64" and "a = 0 \<longrightarrow> 16 \<le> b"
  shows "encodePoint (a * 262144 + b * 4096 + c * 64 + d)
    = [byteOf (0xf0 + a), byteOf (0x80 + b), byteOf (0x80 + c), byteOf (0x80 + d)]"
proof -
  let ?p = "a * 262144 + b * 4096 + c * 64 + d"
  have e: "?p = ((a * 64 + b) * 64 + c) * 64 + d" by simp
  have "?p div 262144 = a" "?p div 4096 mod 64 = b" "?p div 64 mod 64 = c" "?p mod 64 = d"
    unfolding split64 e digit64 [OF assms(3)] digit64 [OF assms(2)] digit64 [OF assms(1)] by simp_all
  moreover have "0x10000 \<le> ?p" using assms by (cases "a = 0") auto
  ultimately show ?thesis by (simp add: encodePoint_def)
qed

lemma decodePoints_sound:
  "decodePoints bs = Some ps \<Longrightarrow> (\<forall>p\<in>set ps. scalar p) \<and> concat (map encodePoint ps) = bs"
proof (induction bs arbitrary: ps rule: length_induct)
  case (1 bs)
  show ?case
  proof (cases bs)
    case Nil
    with 1(2) show ?thesis by simp
  next
    case (Cons b rest)
    let ?v = "unat b"
    have step: "(\<forall>p\<in>set ps. scalar p) \<and> concat (map encodePoint ps) = bs"
      if m: "map_option ((#) p) (decodePoints more) = Some ps" "length more < length bs" "scalar p"
        "encodePoint p @ more = bs" for p more
    proof -
      obtain qs where q: "decodePoints more = Some qs" "ps = p # qs" using m(1) by auto
      with 1(1) m(2) have "(\<forall>p\<in>set qs. scalar p) \<and> concat (map encodePoint qs) = more" by blast
      with q m(3,4) show ?thesis by simp
    qed
    consider "?v < 0x80" | "0xc2 \<le> ?v" "?v < 0xe0" | "0xe0 \<le> ?v" "?v < 0xf0" | "0xf0 \<le> ?v" "?v < 0xf5"
      using 1(2) Cons by (fastforce simp: decodePoints.simps(2) Let_def split: if_splits)
    then show ?thesis
    proof cases
      case 1
      with \<open>decodePoints bs = Some ps\<close> Cons show ?thesis
        by (intro step [of ?v rest]) (simp_all add: decodePoints.simps(2) scalar_def encodePoint_def)
    next
      case 2
      then obtain c more where r: "rest = c # more" "continuation c"
        "map_option ((#) ((?v - 0xc0) * 64 + (unat c - 0x80))) (decodePoints more) = Some ps"
        using \<open>decodePoints bs = Some ps\<close> Cons
        by (auto simp: decodePoints.simps(2) Let_def split: list.splits if_splits)
      have "encodePoint ((?v - 0xc0) * 64 + (unat c - 0x80)) = [b, c]"
        by (subst encodePoint_two) (use 2 r(2) in \<open>auto simp: continuation_def\<close>)
      moreover have "scalar ((?v - 0xc0) * 64 + (unat c - 0x80))"
        unfolding scalar_def by (rule disjI1) (use 2 r(2) in \<open>simp add: continuation_def, linarith\<close>)
      ultimately show ?thesis using r Cons by (intro step [OF r(3)]) simp_all
    next
      case 3
      then obtain c d more where r: "rest = c # d # more" "continuation d"
        "(if ?v = 0xe0 then 0xa0 else 0x80) \<le> unat c" "unat c \<le> (if ?v = 0xed then 0x9f else 0xbf)"
        "map_option ((#) ((?v - 0xe0) * 4096 + (unat c - 0x80) * 64 + (unat d - 0x80))) (decodePoints more) = Some ps"
        using \<open>decodePoints bs = Some ps\<close> Cons
        by (simp add: decodePoints.simps(2) Let_def split: list.splits if_split_asm)
      have c: "0x80 \<le> unat c" "unat c \<le> 0xbf" using r(3,4) by (simp_all split: if_splits)
      have "encodePoint ((?v - 0xe0) * 4096 + (unat c - 0x80) * 64 + (unat d - 0x80)) = [b, c, d]"
        using encodePoint_three [of "?v - 0xe0" "unat c - 0x80" "unat d - 0x80"] 3 r(2-4) c
        by (simp add: continuation_def split: if_splits)
      moreover have "scalar ((?v - 0xe0) * 4096 + (unat c - 0x80) * 64 + (unat d - 0x80))"
        using 3 r(2-4) c by (auto simp: scalar_def continuation_def split: if_splits)
      ultimately show ?thesis using r(1) Cons by (intro step [OF r(5)]) simp_all
    next
      case 4
      then obtain c d e more where r: "rest = c # d # e # more" "continuation d" "continuation e"
        "(if ?v = 0xf0 then 0x90 else 0x80) \<le> unat c" "unat c \<le> (if ?v = 0xf4 then 0x8f else 0xbf)"
        "map_option ((#) ((?v - 0xf0) * 262144 + (unat c - 0x80) * 4096 + (unat d - 0x80) * 64
            + (unat e - 0x80))) (decodePoints more) = Some ps"
        using \<open>decodePoints bs = Some ps\<close> Cons
        by (simp add: decodePoints.simps(2) Let_def split: list.splits if_split_asm)
      have c: "0x80 \<le> unat c" "unat c \<le> 0xbf" using r(4,5) by (simp_all split: if_splits)
      have "encodePoint ((?v - 0xf0) * 262144 + (unat c - 0x80) * 4096 + (unat d - 0x80) * 64
          + (unat e - 0x80)) = [b, c, d, e]"
        using encodePoint_four [of "unat c - 0x80" "unat d - 0x80" "unat e - 0x80" "?v - 0xf0"] 4 r(2-5) c
        by (simp add: continuation_def split: if_splits)
      moreover have "scalar ((?v - 0xf0) * 262144 + (unat c - 0x80) * 4096 + (unat d - 0x80) * 64
          + (unat e - 0x80))"
        using 4 r(2-5) c by (auto simp: scalar_def continuation_def split: if_splits)
      ultimately show ?thesis using r(1) Cons by (intro step [OF r(6)]) simp_all
    qed
  qed
qed

lemma scalarValues_units:
  assumes "scalar p"
  shows "scalarValues (pointUnits p @ s) = p # scalarValues s \<and> (utf8_ok (pointUnits p @ s) \<longleftrightarrow> utf8_ok s)"
proof (cases "p < 0x10000")
  case True
  then have "\<not> highSurrogate (unitOf p)" "\<not> lowSurrogate (unitOf p)"
    using assms by (auto simp: surrogate_unat scalar_def)
  with True show ?thesis by (simp add: pointUnits_def scalarValues_eqs utf8_ok_eqs)
next
  case False
  let ?q = "p - 0x10000"
  have lt: "?q div 1024 < 1024" "?q mod 1024 < 1024" using assms False by (auto simp: scalar_def)
  then have "highSurrogate (unitOf (0xd800 + ?q div 1024))" "lowSurrogate (unitOf (0xdc00 + ?q mod 1024))"
    by (simp_all add: surrogate_unat)
  moreover have "pairPoint (unitOf (0xd800 + ?q div 1024)) (unitOf (0xdc00 + ?q mod 1024)) = p"
    using lt False by (simp add: pairPoint_def)
  ultimately show ?thesis using False by (simp add: pointUnits_def scalarValues_eqs utf8_ok_eqs)
qed

lemma scalarValues_concat:
  "\<forall>p\<in>set ps. scalar p \<Longrightarrow>
     scalarValues (concat (map pointUnits ps)) = ps \<and> utf8_ok (concat (map pointUnits ps))"
  by (induction ps) (simp_all add: scalarValues_units)

lemma utf8Decode_sound:
  assumes "utf8Decode bytes = Some s" and "length (utf8Encode s) = length bytes"
  shows "bytes = utf8Encode s \<and> utf8_ok s \<and> bom_free s"
proof -
  obtain ps where ps: "decodePoints bytes = Some ps" using assms(1) by (auto simp: utf8Decode_def)
  note p = decodePoints_sound [OF ps]
  have no_bom: "\<nexists>rest. ps = byteOrderMark # rest"
  proof
    assume "\<exists>rest. ps = byteOrderMark # rest"
    then obtain rest where r: "ps = byteOrderMark # rest" by blast
    then have "s = concat (map pointUnits rest)" using assms(1) ps by (simp add: utf8Decode_def)
    then have "utf8Encode s = concat (map encodePoint rest)"
      using p r scalarValues_concat [of rest] by (simp add: utf8Encode_def)
    moreover have "bytes = encodePoint byteOrderMark @ concat (map encodePoint rest)" using p r by simp
    ultimately show False using assms(2) by (simp add: length_encodePoint byteOrderMark_def)
  qed
  then have s: "s = concat (map pointUnits ps)"
    using assms(1) ps by (auto simp: utf8Decode_def split: list.splits if_splits)
  with p scalarValues_concat [of ps] have e: "utf8Encode s = bytes" "utf8_ok s" "scalarValues s = ps"
    by (simp_all add: utf8Encode_def)
  have "bom_free s"
  proof (rule ccontr)
    assume "\<not> bom_free s"
    with utf8Decode_encode [OF e(2)] e(1) assms(1) have "s = tl s" by simp
    moreover from \<open>\<not> bom_free s\<close> have "s \<noteq> []" by (auto simp: bom_free_def)
    ultimately show False by (metis length_tl list.size(3) diff_Suc_1 length_Suc_conv n_not_Suc_n neq_Nil_conv)
  qed
  with e show ?thesis by simp
qed

end
