(* ===== verification/Binary.thy ===== *)
theory Binary
  imports Utf8
begin

text \<open>
  The binary layer of \<open>packages/pgwasm/src/opfs/core/codec.ts\<close>: little-endian integers, the
  \<open>BinaryWriter\<close> with its preflighted length and the \<open>BinaryReader\<close> over a byte view. The locale
  \<open>field\<close> is the contract both halves of a field share: the writer appends the field's encoding and
  the reader returns the value and the rest of the view.
\<close>

named_theorems codec_simps \<open>the writer, reader and encoding of each field\<close>

section \<open>Little-endian integers\<close>

fun leBytes :: "nat \<Rightarrow> int \<Rightarrow> byte list" where
  "leBytes 0 v = []"
| "leBytes (Suc n) v = of_int v # leBytes n (v div 256)"

fun leValue :: "byte list \<Rightarrow> int" where
  "leValue [] = 0"
| "leValue (b # bs) = uint b + 256 * leValue bs"

lemma length_leBytes [simp]: "length (leBytes n v) = n"
  by (induction n arbitrary: v) simp_all

lemma leValue_leBytes: "leValue (leBytes n v) = v mod 256 ^ n"
proof (induction n arbitrary: v)
  case (Suc n)
  have "uint (of_int v :: byte) = v mod 256" by (simp add: uint_word_of_int)
  with Suc show ?case by (simp add: zmod_zmult2_eq add.commute)
qed simp

lemma leValue_small: "0 \<le> v \<Longrightarrow> v < 256 ^ n \<Longrightarrow> leValue (leBytes n v) = v"
  by (simp add: leValue_leBytes)

lemma leValue_bound: "0 \<le> leValue bs \<and> leValue bs < 256 ^ length bs"
proof (induction bs)
  case (Cons b bs)
  have "0 \<le> uint b" "uint b < 256" using uint_range_size [of b] by (simp_all add: word_size)
  with Cons show ?case by (auto simp: algebra_simps)
qed simp

lemma leBytes_leValue: "leBytes (length bs) (leValue bs) = bs"
proof (induction bs)
  case (Cons b bs)
  have "uint b div 256 = 0" using uint_range_size [of b] by (simp add: word_size)
  moreover have "(of_int (uint b + 256 * leValue bs) :: byte) = b"
  proof -
    have zero: "(256 :: byte) = 0" by simp
    have "(of_int (uint b + 256 * leValue bs) :: byte) = of_int (uint b) + 256 * of_int (leValue bs)" by simp
    also have "\<dots> = of_int (uint b)" by (simp only: zero mult_zero_left add_0_right)
    finally show ?thesis by simp
  qed
  ultimately show ?case using Cons by (simp add: div_mult_self2 del: of_int_add of_int_mult)
qed simp

lemma leBytes_zero: "leBytes n 0 = replicate n 0"
  by (induction n) simp_all

section \<open>\<open>BinaryWriter\<close>\<close>

text \<open>
  The output buffer has \<open>limit\<close> bytes, of which \<open>written\<close> are the ones before the offset; the rest
  are zero and are never read before \<open>finish\<close>, which requires that there are none.
\<close>

record BinaryWriter =
  limit :: int
  written :: "byte list"

definition newWriter :: "int \<Rightarrow> int \<Rightarrow> BinaryWriter res" where
  "newWriter len initialOffset =
     (if \<not> isSafeInteger len \<or> len < 0 \<or> \<not> isSafeInteger initialOffset \<or> initialOffset < 0
         \<or> initialOffset > len
      then Inl StoreLimitError
      else Inr \<lparr>limit = len, written = replicate (nat initialOffset) 0\<rparr>)"

definition emit :: "BinaryWriter \<Rightarrow> byte list \<Rightarrow> BinaryWriter" where
  "emit w bs = w\<lparr>written := written w @ bs\<rparr>"

definition requireRoom :: "int \<Rightarrow> BinaryWriter \<Rightarrow> unit res" where
  "requireRoom len w = (if int (length (written w)) + len > limit w then Inl StoreLimitError else Inr ())"

definition writeU8 :: "int \<Rightarrow> BinaryWriter \<Rightarrow> BinaryWriter res" where
  "writeU8 value w = ebind (requireRoom 1 w) (\<lambda>_.
     if \<not> isSafeInteger value \<or> value < 0 \<or> value > 0xff then Inl StoreLimitError
     else Inr (emit w (leBytes 1 value)))"

definition writeU16 :: "int \<Rightarrow> BinaryWriter \<Rightarrow> BinaryWriter res" where
  "writeU16 value w = ebind (requireRoom 2 w) (\<lambda>_.
     if \<not> isSafeInteger value \<or> value < 0 \<or> value > 0xffff then Inl StoreLimitError
     else Inr (emit w (leBytes 2 value)))"

definition writeU32 :: "int \<Rightarrow> BinaryWriter \<Rightarrow> BinaryWriter res" where
  "writeU32 value w = ebind (requireRoom 4 w) (\<lambda>_.
     if \<not> isSafeInteger value \<or> value < 0 \<or> value > 0xffffffff then Inl StoreLimitError
     else Inr (emit w (leBytes 4 value)))"

definition writeU64 :: "int \<Rightarrow> BinaryWriter \<Rightarrow> BinaryWriter res" where
  "writeU64 value w = ebind (requireRoom 8 w) (\<lambda>_.
     ebind (checkedU64 value) (\<lambda>v. Inr (emit w (leBytes 8 v))))"

text \<open>\<open>setBigUint64\<close> wraps modulo \<open>2 ^ 64\<close>, as \<^const>\<open>leBytes\<close> does.\<close>

definition writeValidatedU64 :: "int \<Rightarrow> BinaryWriter \<Rightarrow> BinaryWriter res" where
  "writeValidatedU64 value w = ebind (requireRoom 8 w) (\<lambda>_. Inr (emit w (leBytes 8 value)))"

definition writeRaw :: "byte list \<Rightarrow> BinaryWriter \<Rightarrow> BinaryWriter res" where
  "writeRaw value w = ebind (requireRoom (int (length value)) w) (\<lambda>_. Inr (emit w value))"

definition writeValidatedString :: "byte list \<Rightarrow> BinaryWriter \<Rightarrow> BinaryWriter res" where
  "writeValidatedString encoded w = ebind (writeU16 (int (length encoded)) w) (writeRaw encoded)"

definition writeString :: "js_string \<Rightarrow> BinaryWriter \<Rightarrow> BinaryWriter res" where
  "writeString value w =
     ebind (validatePathComponent value) (\<lambda>_. writeValidatedString (utf8Encode value) w)"

definition writeSymlinkTarget :: "js_string \<Rightarrow> BinaryWriter \<Rightarrow> BinaryWriter res" where
  "writeSymlinkTarget value w =
     ebind (validateSymlinkTarget value) (\<lambda>_. writeValidatedString (utf8Encode value) w)"

definition finishWriter :: "BinaryWriter \<Rightarrow> byte list res" where
  "finishWriter w = (if int (length (written w)) \<noteq> limit w then Inl StoreLimitError else Inr (written w))"

text \<open>One write after another.\<close>

definition andThen ::
  "(BinaryWriter \<Rightarrow> BinaryWriter res) \<Rightarrow> (BinaryWriter \<Rightarrow> BinaryWriter res) \<Rightarrow> BinaryWriter \<Rightarrow> BinaryWriter res" where
  "andThen f g w = ebind (f w) g"

section \<open>\<open>BinaryReader\<close>\<close>

text \<open>A reader consumes a prefix of the unread bytes; \<open>remaining\<close> is their number.\<close>

type_synonym 'a reader = "byte list \<Rightarrow> ('a \<times> byte list) res"

definition rret :: "'a \<Rightarrow> 'a reader" where "rret x bs = Inr (x, bs)"

definition rbind :: "'a reader \<Rightarrow> ('a \<Rightarrow> 'b reader) \<Rightarrow> 'b reader" where
  "rbind m f bs = ebind (m bs) (\<lambda>(x, rest). f x rest)"

definition rcheck :: "bool \<Rightarrow> store_error \<Rightarrow> unit reader" where
  "rcheck c e bs = (if c then Inr ((), bs) else Inl e)"

fun readMany :: "nat \<Rightarrow> 'a reader \<Rightarrow> 'a list reader" where
  "readMany 0 rd = rret []"
| "readMany (Suc n) rd = rbind rd (\<lambda>x. rbind (readMany n rd) (\<lambda>xs. rret (x # xs)))"

definition requireBytes :: "int \<Rightarrow> byte list \<Rightarrow> unit res" where
  "requireBytes len bs =
     (if \<not> isSafeInteger len \<or> len < 0 \<or> len > int (length bs) then Inl CorruptStoreError else Inr ())"

definition readRaw :: "int \<Rightarrow> byte list reader" where
  "readRaw len bs = ebind (requireBytes len bs) (\<lambda>_. Inr (take (nat len) bs, drop (nat len) bs))"

definition readLE :: "nat \<Rightarrow> int reader" where
  "readLE n bs = ebind (requireBytes (int n) bs) (\<lambda>_. Inr (leValue (take n bs), drop n bs))"

definition readU8 :: "int reader" where "readU8 = readLE 1"
definition readU16 :: "int reader" where "readU16 = readLE 2"
definition readU32 :: "int reader" where "readU32 = readLE 4"
definition readU64 :: "int reader" where "readU64 = readLE 8"

text \<open>
  The two string readers differ in their bound and validation; every failure, that of the
  validation included, becomes a \<open>CorruptStoreError\<close>.
\<close>

definition readText :: "int \<Rightarrow> (js_string \<Rightarrow> int res) \<Rightarrow> js_string reader" where
  "readText maximum validate =
     rbind readU16 (\<lambda>len.
     rbind (rcheck (len \<noteq> 0 \<and> len \<le> maximum) CorruptStoreError) (\<lambda>_.
     rbind (readRaw len) (\<lambda>raw.
       case utf8Decode raw of
         None \<Rightarrow> (\<lambda>_. Inl CorruptStoreError)
       | Some value \<Rightarrow>
           rbind (rcheck (int (length (utf8Encode value)) = len) CorruptStoreError) (\<lambda>_.
             case validate value of
               Inl e \<Rightarrow> (\<lambda>_. Inl CorruptStoreError)
             | Inr _ \<Rightarrow> rret value))))"

definition readString :: "js_string reader" where
  "readString = readText MAX_COMPONENT_BYTES validatePathComponent"

definition readSymlinkTarget :: "js_string reader" where
  "readSymlinkTarget = readText MAX_PATH_BYTES validateSymlinkTarget"

definition endReader :: "unit reader" where
  "endReader bs = (if bs \<noteq> [] then Inl CorruptStoreError else Inr ((), bs))"

definition readBoundedCount :: "int \<Rightarrow> int reader" where
  "readBoundedCount maximum =
     rbind readU32 (\<lambda>count. rbind (rcheck (\<not> count > maximum) CorruptStoreError) (\<lambda>_. rret count))"

section \<open>The field contract\<close>

definition has_room :: "BinaryWriter \<Rightarrow> nat \<Rightarrow> bool" where
  "has_room w n \<longleftrightarrow> int (length (written w)) + int n \<le> limit w"

lemma emit_simps [simp]:
  "emit (emit w a) b = emit w (a @ b)" "emit w [] = w"
  "has_room (emit w a) n \<longleftrightarrow> has_room w (length a + n)"
  "written (emit w a) = written w @ a" "limit (emit w a) = limit w"
  by (simp_all add: emit_def has_room_def add.assoc)

lemma has_room_le: "has_room w n \<Longrightarrow> m \<le> n \<Longrightarrow> has_room w m"
  by (simp add: has_room_def)

lemma requireRoom_ok: "has_room w n \<Longrightarrow> requireRoom (int n) w = Inr ()"
  by (simp add: requireRoom_def has_room_def)

lemma rbind_simps [simp]:
  "m bs = Inr (x, rest) \<Longrightarrow> rbind m f bs = f x rest"
  "m bs = Inl e \<Longrightarrow> rbind m f bs = Inl e"
  by (simp_all add: rbind_def)

lemma rret_simp [simp]: "rret x bs = Inr (x, bs)"
  by (simp add: rret_def)

lemma rcheck_simps [simp]: "rcheck True e bs = Inr ((), bs)" "rcheck False e bs = Inl e"
  by (simp_all add: rcheck_def)

locale field =
  fixes wr :: "'a \<Rightarrow> BinaryWriter \<Rightarrow> BinaryWriter res"
    and rd :: "'a reader"
    and enc :: "'a \<Rightarrow> byte list"
    and ok :: "'a \<Rightarrow> bool"
  assumes wr_enc: "ok v \<Longrightarrow> has_room w (length (enc v)) \<Longrightarrow> wr v w = Inr (emit w (enc v))"
    and rd_enc: "ok v \<Longrightarrow> rd (enc v @ rest) = Inr (v, rest)"
begin

lemma wr_seq:
  "ok v \<Longrightarrow> has_room w (length (enc v)) \<Longrightarrow> andThen (wr v) g w = g (emit w (enc v))"
  by (simp add: andThen_def wr_enc)

lemma rd_seq: "ok v \<Longrightarrow> rbind rd g (enc v @ rest) = g v rest"
  by (simp add: rbind_def rd_enc)

lemma wr_list:
  "\<forall>v\<in>set vs. ok v \<Longrightarrow> has_room w (length (concat (map enc vs)))
     \<Longrightarrow> fold_res wr vs w = Inr (emit w (concat (map enc vs)))"
proof (induction vs arbitrary: w)
  case (Cons v vs)
  have "has_room w (length (enc v))" using Cons.prems(2) by (rule has_room_le) simp
  with Cons.prems(1) have "wr v w = Inr (emit w (enc v))" by (intro wr_enc) simp_all
  moreover have "fold_res wr vs (emit w (enc v)) = Inr (emit (emit w (enc v)) (concat (map enc vs)))"
    using Cons.prems by (intro Cons.IH) simp_all
  ultimately show ?case by simp
qed simp

lemma rd_list:
  "\<forall>v\<in>set vs. ok v \<Longrightarrow> readMany (length vs) rd (concat (map enc vs) @ rest) = Inr (vs, rest)"
  by (induction vs) (simp_all add: rd_enc)

text \<open>The encoding is prefix-free.\<close>

lemma enc_prefix_free:
  assumes "ok v" and "ok v'" and "enc v @ xs = enc v' @ ys"
  shows "v = v' \<and> xs = ys"
proof -
  have "Inr (v, xs) = (Inr (v', ys) :: ('a \<times> byte list) res)"
    by (simp only: rd_enc [OF assms(1), symmetric] rd_enc [OF assms(2), symmetric] assms(3))
  then show ?thesis by simp
qed

end

text \<open>A field whose reader, conversely, accepts encodings only: its encoding is canonical.\<close>

locale exact_field = field +
  assumes rd_sound: "rd bs = Inr (v, rest) \<Longrightarrow> ok v \<and> bs = enc v @ rest"
begin

lemma rd_iff: "rd bs = Inr (v, rest) \<longleftrightarrow> ok v \<and> bs = enc v @ rest"
  using rd_sound rd_enc by blast

lemma rd_bind_iff:
  "rbind rd g bs = Inr (y, rest) \<longleftrightarrow> (\<exists>v more. ok v \<and> bs = enc v @ more \<and> g v more = Inr (y, rest))"
  by (auto simp: rbind_def ebind_eq_Inr rd_iff)

lemma rd_list_iff:
  "readMany n rd bs = Inr (vs, rest)
     \<longleftrightarrow> length vs = n \<and> (\<forall>v\<in>set vs. ok v) \<and> bs = concat (map enc vs) @ rest"
proof (induction n arbitrary: bs vs)
  case (Suc n)
  have "readMany (Suc n) rd bs = Inr (vs, rest) \<longleftrightarrow>
      (\<exists>v more us. vs = v # us \<and> ok v \<and> bs = enc v @ more \<and> readMany n rd more = Inr (us, rest))"
    by (auto simp: rbind_def ebind_eq_Inr rd_iff)
  with Suc.IH show ?case by (cases vs) auto
qed auto

end

section \<open>The fields\<close>

definition fits :: "nat \<Rightarrow> int \<Rightarrow> bool" where
  "fits n v \<longleftrightarrow> 0 \<le> v \<and> v < 256 ^ n"

lemma fits_flag [simp]: "fits (Suc 0) 0" "fits (Suc 0) 1"
  by (simp_all add: fits_def)

definition encU8 :: "int \<Rightarrow> byte list" where "encU8 v = leBytes 1 v"

lemma length_encU8 [simp]: "length (encU8 v) = 1"
  by (simp add: encU8_def)

definition encText :: "js_string \<Rightarrow> byte list" where
  "encText s = leBytes 2 (int (length (utf8Encode s))) @ utf8Encode s"

lemma u64_fits: "u64 v \<longleftrightarrow> fits 8 v"
  by (auto simp: u64_def fits_def MAX_U64_def)

lemma readLE_enc: "n \<le> 8 \<Longrightarrow> fits n v \<Longrightarrow> readLE n (leBytes n v @ rest) = Inr (v, rest)"
  by (simp add: readLE_def requireBytes_def isSafeInteger_def MAX_SAFE_INTEGER_def leValue_small fits_def)

lemma readLE_sound: "readLE n bs = Inr (v, rest) \<Longrightarrow> fits n v \<and> bs = leBytes n v @ rest"
proof -
  assume "readLE n bs = Inr (v, rest)"
  then have r: "n \<le> length bs" "v = leValue (take n bs)" "rest = drop n bs"
    by (auto simp: readLE_def requireBytes_def ebind_eq_Inr split: if_splits)
  then show ?thesis
    using leValue_bound [of "take n bs"] leBytes_leValue [of "take n bs"] by (simp add: fits_def)
qed

lemma write_simps:
  "has_room w 1 \<Longrightarrow> fits 1 v \<Longrightarrow> writeU8 v w = Inr (emit w (leBytes 1 v))"
  "has_room w 2 \<Longrightarrow> fits 2 v \<Longrightarrow> writeU16 v w = Inr (emit w (leBytes 2 v))"
  "has_room w 4 \<Longrightarrow> fits 4 v \<Longrightarrow> writeU32 v w = Inr (emit w (leBytes 4 v))"
  "has_room w 8 \<Longrightarrow> fits 8 v \<Longrightarrow> writeU64 v w = Inr (emit w (leBytes 8 v))"
  "has_room w 8 \<Longrightarrow> writeValidatedU64 v w = Inr (emit w (leBytes 8 v))"
  "has_room w (length bs) \<Longrightarrow> writeRaw bs w = Inr (emit w bs)"
  by (simp_all add: writeU8_def writeU16_def writeU32_def writeU64_def writeValidatedU64_def writeRaw_def
      requireRoom_def has_room_def isSafeInteger_def MAX_SAFE_INTEGER_def fits_def checkedU64_def MAX_U64_def)

interpretation b8: exact_field writeU8 readU8 encU8 "fits 1"
  by unfold_locales (simp_all add: encU8_def write_simps readU8_def readLE_enc readLE_sound del: One_nat_def leBytes.simps)

interpretation b16: exact_field writeU16 readU16 "leBytes 2" "fits 2"
  by unfold_locales (simp_all add: write_simps readU16_def readLE_enc readLE_sound)

interpretation b32: exact_field writeU32 readU32 "leBytes 4" "fits 4"
  by unfold_locales (simp_all add: write_simps readU32_def readLE_enc readLE_sound)

interpretation b64: exact_field writeU64 readU64 "leBytes 8" "fits 8"
  by unfold_locales (simp_all add: write_simps readU64_def readLE_enc readLE_sound)

interpretation v64: exact_field writeValidatedU64 readU64 "leBytes 8" "fits 8"
  by unfold_locales (simp_all add: write_simps readU64_def readLE_enc readLE_sound)

text \<open>Both strings: the reader accepts exactly the encodings of the valid strings without a byte order mark.\<close>

lemma readText_enc:
  assumes ok: "utf8_ok s" "bom_free s" "validate s = Inr n" "1 \<le> utf8_bytes s" "utf8_bytes s \<le> maximum"
    and max: "maximum < 65536"
  shows "readText maximum validate (encText s @ rest) = Inr (s, rest)"
proof -
  let ?l = "int (length (utf8Encode s))"
  have l: "?l = utf8_bytes s" by (rule length_utf8Encode [OF ok(1)])
  have "fits 2 ?l" using l ok max by (simp add: fits_def)
  then have "readU16 (encText s @ rest) = Inr (?l, utf8Encode s @ rest)"
    by (simp add: encText_def b16.rd_enc)
  moreover have "readRaw ?l (utf8Encode s @ rest) = Inr (utf8Encode s, rest)"
    using l ok max by (simp add: readRaw_def requireBytes_def isSafeInteger_def MAX_SAFE_INTEGER_def)
  ultimately show ?thesis
    using ok l by (simp add: readText_def utf8Decode_encode)
qed

lemma readText_sound:
  assumes "readText maximum validate bs = Inr (s, rest)"
  shows "bs = encText s @ rest \<and> utf8_ok s \<and> bom_free s \<and> (\<exists>n. validate s = Inr n)"
proof -
  obtain len more where len: "fits 2 len" "bs = leBytes 2 len @ more"
    and next1: "rbind (rcheck (len \<noteq> 0 \<and> len \<le> maximum) CorruptStoreError) (\<lambda>_. rbind (readRaw len) (\<lambda>raw.
       case utf8Decode raw of None \<Rightarrow> (\<lambda>_. Inl CorruptStoreError)
       | Some value \<Rightarrow> rbind (rcheck (int (length (utf8Encode value)) = len) CorruptStoreError) (\<lambda>_.
             case validate value of Inl e \<Rightarrow> (\<lambda>_. Inl CorruptStoreError) | Inr _ \<Rightarrow> rret value))) more
       = Inr (s, rest)"
    using assms unfolding readText_def b16.rd_bind_iff by blast
  obtain raw where raw: "readRaw len more = Inr (raw, rest)" "utf8Decode raw = Some s"
    "int (length (utf8Encode s)) = len" "\<exists>n. validate s = Inr n"
    using next1 by (auto simp: rbind_def rcheck_def ebind_eq_Inr rret_def
        split: if_splits option.splits sum.splits)
  have more: "more = raw @ rest" "int (length raw) = len"
    using raw(1) len(1) by (auto simp: readRaw_def requireBytes_def ebind_eq_Inr fits_def split: if_splits)
  then have "raw = utf8Encode s \<and> utf8_ok s \<and> bom_free s"
    using utf8Decode_sound [OF raw(2)] raw(3) by simp
  with more len raw show ?thesis by (simp add: encText_def)
qed

definition name_ok :: "js_string \<Rightarrow> bool" where
  "name_ok s \<longleftrightarrow> component_ok s \<and> bom_free s"

lemma component_bounds:
  assumes "component_ok s"
  shows "utf8_ok s" "1 \<le> utf8_bytes s" "utf8_bytes s \<le> MAX_COMPONENT_BYTES"
proof -
  show ok: "utf8_ok s" "utf8_bytes s \<le> MAX_COMPONENT_BYTES" using assms by (simp_all add: component_ok_def)
  have "0 < length s" using assms by (simp add: component_ok_def)
  with utf8_bytes_ge [OF ok(1)] show "1 \<le> utf8_bytes s" by linarith
qed

lemma target_bounds:
  assumes "symlink_target_ok s"
  shows "utf8_ok s" "1 \<le> utf8_bytes s" "utf8_bytes s \<le> MAX_PATH_BYTES" "bom_free s"
proof -
  have "validateSymlinkTarget s = Inr (utf8_bytes s)" using assms by (simp add: validateSymlinkTarget_Inr)
  then show "utf8_ok s" "utf8_bytes s \<le> MAX_PATH_BYTES" "1 \<le> utf8_bytes s"
    using utf8_bytes_nonneg [of s]
    by (auto simp: validateSymlinkTarget_def ebind_eq_Inr utf8Length_Inr split: if_splits
        simp del: utf8_bytes_nonneg)
  obtain comps where "s = render_path comps" using assms by (auto simp: symlink_target_ok_def)
  then show "bom_free s" by (simp add: bom_free_def render_path_def bom_unit_def)
qed

lemma writeText:
  "utf8_ok s \<Longrightarrow> utf8_bytes s < 65536 \<Longrightarrow> has_room w (length (encText s)) \<Longrightarrow>
     writeValidatedString (utf8Encode s) w = Inr (emit w (encText s))"
  using length_utf8Encode [of s] has_room_le [of w "length (encText s)" 2]
  by (simp add: writeValidatedString_def b16.wr_enc fits_def write_simps encText_def)

interpretation name: exact_field writeString readString encText name_ok
proof
  fix s w
  assume "name_ok s" "has_room w (length (encText s))"
  then show "writeString s w = Inr (emit w (encText s))"
    using component_bounds [of s]
    by (simp add: writeString_def name_ok_def validatePathComponent_Inr writeText MAX_COMPONENT_BYTES_def
        ebind_def validatePathComponent_Inr [THEN iffD2])
next
  fix s rest
  assume "name_ok s"
  then show "readString (encText s @ rest) = Inr (s, rest)"
    using component_bounds [of s]
    by (simp add: readString_def name_ok_def readText_enc [OF _ _ validatePathComponent_Inr [THEN iffD2]]
        MAX_COMPONENT_BYTES_def)
next
  fix bs s rest
  assume "readString bs = Inr (s, rest)"
  from readText_sound [OF this [unfolded readString_def]]
  show "name_ok s \<and> bs = encText s @ rest" by (auto simp: name_ok_def validatePathComponent_Inr)
qed

interpretation target: exact_field writeSymlinkTarget readSymlinkTarget encText symlink_target_ok
proof
  fix s w
  assume "symlink_target_ok s" "has_room w (length (encText s))"
  then show "writeSymlinkTarget s w = Inr (emit w (encText s))"
    using target_bounds [of s]
    by (simp add: writeSymlinkTarget_def writeText MAX_PATH_BYTES_def validateSymlinkTarget_Inr [THEN iffD2])
next
  fix s rest
  assume "symlink_target_ok s"
  then show "readSymlinkTarget (encText s @ rest) = Inr (s, rest)"
    using target_bounds [of s]
    by (simp add: readSymlinkTarget_def readText_enc [OF _ _ validateSymlinkTarget_Inr [THEN iffD2]]
        MAX_PATH_BYTES_def)
next
  fix bs s rest
  assume "readSymlinkTarget bs = Inr (s, rest)"
  from readText_sound [OF this [unfolded readSymlinkTarget_def]]
  show "symlink_target_ok s \<and> bs = encText s @ rest" by (auto simp: validateSymlinkTarget_Inr)
qed

end
