(* ===== verification/TxnCodec.thy ===== *)
theory TxnCodec
  imports Binary VfsState
begin

text \<open>
  The payload of a transaction frame: \<open>encodeTxnRecord\<close> and \<open>decodeTxnRecord\<close> of \<open>codec.ts\<close> with
  their extent-run lists. Each of the source's sequences of writes is a chain of \<^const>\<open>andThen\<close>, and
  each of its sequences of reads a chain of \<^const>\<open>rbind\<close>, in the source's order.
\<close>

section \<open>Extent runs\<close>

definition writeRun :: "ExtentRun \<Rightarrow> BinaryWriter \<Rightarrow> BinaryWriter res" where
  "writeRun run = andThen (writeU64 (runStart run)) (writeU32 (runCount run))"

definition writeExtentRuns :: "ExtentRun list \<Rightarrow> BinaryWriter \<Rightarrow> BinaryWriter res" where
  "writeExtentRuns runs = andThen (writeU32 (int (length runs))) (fold_res writeRun runs)"

fun readRuns :: "nat \<Rightarrow> int \<Rightarrow> ExtentRun list reader" where
  "readRuns 0 extentCount = rret []"
| "readRuns (Suc n) extentCount =
     rbind readU64 (\<lambda>start.
     rbind readU32 (\<lambda>count.
     rbind (rcheck (\<not> (count = 0 \<or> extentCount + count > MAX_EXTENTS_PER_INODE)) CorruptStoreError) (\<lambda>_.
     rbind (readRuns n (extentCount + count)) (\<lambda>runs.
       rret (\<lparr>runStart = start, runCount = count\<rparr> # runs)))))"

definition readExtentRuns :: "ExtentRun list reader" where
  "readExtentRuns =
     rbind (readBoundedCount MAX_EXTENTS_PER_INODE) (\<lambda>runCount. readRuns (nat runCount) 0)"

section \<open>The record\<close>

definition RECORD_CODES :: "TxnRecord \<Rightarrow> int" where
  "RECORD_CODES record =
     (case record of
        CreateDirectories _ \<Rightarrow> 1
      | CreateFile _ _ _ \<Rightarrow> 2
      | RemoveFile _ _ _ _ \<Rightarrow> 3
      | ChangeMode _ _ _ \<Rightarrow> 4
      | ChangeTimes _ _ _ _ \<Rightarrow> 5
      | ResizeFile _ _ _ _ _ _ \<Rightarrow> 6
      | RemoveDirectory _ _ _ _ \<Rightarrow> 7
      | Rename _ _ _ _ _ \<Rightarrow> 8
      | ReserveQuarantine _ \<Rightarrow> 9
      | CreateSymlink _ _ \<Rightarrow> 10)"

text \<open>The seven leading fields that a created directory, file and symlink share.\<close>

definition writeChoice :: "CreateDirectoryChoice \<Rightarrow> BinaryWriter \<Rightarrow> BinaryWriter res" where
  "writeChoice entry =
     andThen (writeU64 (choiceParentId entry))
    (andThen (writeString (choiceName entry))
    (andThen (writeU64 (choiceInodeId entry))
    (andThen (writeU32 (choiceMode entry))
    (andThen (writeU64 (choiceAtimeMs entry))
    (andThen (writeU64 (choiceMtimeMs entry))
       (writeU64 (choiceCtimeMs entry)))))))"

definition writeNameChange :: "int \<Rightarrow> js_string \<Rightarrow> int \<Rightarrow> int \<Rightarrow> BinaryWriter \<Rightarrow> BinaryWriter res" where
  "writeNameChange parentId nm mtime ctime =
     andThen (writeU64 parentId) (andThen (writeString nm) (andThen (writeU64 mtime) (writeU64 ctime)))"

definition writeFields :: "TxnRecord \<Rightarrow> BinaryWriter \<Rightarrow> BinaryWriter res" where
  "writeFields record =
     (case record of
        CreateDirectories entries \<Rightarrow>
          andThen (writeU32 (int (length entries))) (fold_res writeChoice entries)
      | CreateFile choice fsize extents \<Rightarrow>
          andThen (writeChoice choice) (andThen (writeU64 fsize) (writeExtentRuns extents))
      | RemoveFile parentId nm mtime ctime \<Rightarrow> writeNameChange parentId nm mtime ctime
      | RemoveDirectory parentId nm mtime ctime \<Rightarrow> writeNameChange parentId nm mtime ctime
      | ChangeMode iid mode ctime \<Rightarrow> andThen (writeU64 iid) (andThen (writeU32 mode) (writeU64 ctime))
      | ChangeTimes iid atime mtime ctime \<Rightarrow>
          andThen (writeU64 iid) (andThen (writeU64 atime) (andThen (writeU64 mtime) (writeU64 ctime)))
      | ResizeFile operation iid fsize allocated mtime ctime \<Rightarrow>
          andThen (writeU8 (if operation = TruncateOp then 0 else 1))
         (andThen (writeU64 iid)
         (andThen (writeU64 fsize)
         (andThen (writeExtentRuns allocated)
         (andThen (writeU64 mtime) (writeU64 ctime)))))
      | Rename sourceParentId sourceName destinationParentId destinationName timestamp \<Rightarrow>
          andThen (writeU64 sourceParentId)
         (andThen (writeString sourceName)
         (andThen (writeU64 destinationParentId)
         (andThen (writeString destinationName) (writeU64 timestamp))))
      | CreateSymlink choice target \<Rightarrow> andThen (writeChoice choice) (writeSymlinkTarget target)
      | ReserveQuarantine extents \<Rightarrow> writeExtentRuns extents)"

definition encodeTxnRecord :: "TxnRecord \<Rightarrow> byte list res" where
  "encodeTxnRecord record =
     ebind (estimateTxnPayloadBytes record) (\<lambda>payloadBytes.
     ebind (newWriter payloadBytes 0) (\<lambda>writer.
     ebind (andThen (writeU8 (RECORD_CODES record)) (writeFields record) writer) finishWriter))"

definition readChoice :: "CreateDirectoryChoice reader" where
  "readChoice =
     rbind readU64 (\<lambda>parentId.
     rbind readString (\<lambda>nm.
     rbind readU64 (\<lambda>iid.
     rbind readU32 (\<lambda>mode.
     rbind readU64 (\<lambda>atime.
     rbind readU64 (\<lambda>mtime.
     rbind readU64 (\<lambda>ctime.
       rret \<lparr>choiceParentId = parentId, choiceName = nm, choiceInodeId = iid, choiceMode = mode,
             choiceAtimeMs = atime, choiceMtimeMs = mtime, choiceCtimeMs = ctime\<rparr>)))))))"

definition readNameChange :: "(int \<times> js_string \<times> int \<times> int) reader" where
  "readNameChange =
     rbind readU64 (\<lambda>parentId.
     rbind readString (\<lambda>nm.
     rbind readU64 (\<lambda>mtime.
     rbind readU64 (\<lambda>ctime. rret (parentId, nm, mtime, ctime)))))"

definition readFields :: "int \<Rightarrow> TxnRecord reader" where
  "readFields code =
     (if code = 1 then
        rbind (readBoundedCount MAX_INODES) (\<lambda>count.
        rbind (rcheck (count \<noteq> 0) CorruptStoreError) (\<lambda>_.
        rbind (readMany (nat count) readChoice) (\<lambda>entries. rret (CreateDirectories entries))))
      else if code = 2 then
        rbind readChoice (\<lambda>choice.
        rbind readU64 (\<lambda>fsize.
        rbind readExtentRuns (\<lambda>extents. rret (CreateFile choice fsize extents))))
      else if code = 3 \<or> code = 7 then
        rbind readNameChange (\<lambda>(parentId, nm, mtime, ctime).
          rret (if code = 3 then RemoveFile parentId nm mtime ctime
                else RemoveDirectory parentId nm mtime ctime))
      else if code = 4 then
        rbind readU64 (\<lambda>iid. rbind readU32 (\<lambda>mode. rbind readU64 (\<lambda>ctime. rret (ChangeMode iid mode ctime))))
      else if code = 5 then
        rbind readU64 (\<lambda>iid.
        rbind readU64 (\<lambda>atime.
        rbind readU64 (\<lambda>mtime.
        rbind readU64 (\<lambda>ctime. rret (ChangeTimes iid atime mtime ctime)))))
      else if code = 6 then
        rbind readU8 (\<lambda>operation.
        rbind (rcheck (\<not> (operation \<noteq> 0 \<and> operation \<noteq> 1)) CorruptStoreError) (\<lambda>_.
        rbind readU64 (\<lambda>iid.
        rbind readU64 (\<lambda>fsize.
        rbind readExtentRuns (\<lambda>allocated.
        rbind readU64 (\<lambda>mtime.
        rbind readU64 (\<lambda>ctime.
          rret (ResizeFile (if operation = 0 then TruncateOp else WriteOp) iid fsize allocated
                  mtime ctime))))))))
      else if code = 8 then
        rbind readU64 (\<lambda>sourceParentId.
        rbind readString (\<lambda>sourceName.
        rbind readU64 (\<lambda>destinationParentId.
        rbind readString (\<lambda>destinationName.
        rbind readU64 (\<lambda>timestamp.
          rret (Rename sourceParentId sourceName destinationParentId destinationName timestamp))))))
      else if code = 9 then rbind readExtentRuns (\<lambda>extents. rret (ReserveQuarantine extents))
      else if code = 10 then
        rbind readChoice (\<lambda>choice. rbind readSymlinkTarget (\<lambda>target. rret (CreateSymlink choice target)))
      else (\<lambda>_. Inl CorruptStoreError))"

definition decodeTxnRecord :: "byte list \<Rightarrow> TxnRecord res" where
  "decodeTxnRecord bytes =
     ebind (rbind readU8 (\<lambda>type. rbind (readFields type) (\<lambda>record. rbind endReader (\<lambda>_. rret record))) bytes)
       (\<lambda>(record, _). Inr record)"

section \<open>The encodings\<close>

definition encRun :: "ExtentRun \<Rightarrow> byte list" where
  "encRun run = leBytes 8 (runStart run) @ leBytes 4 (runCount run)"

definition encRuns :: "ExtentRun list \<Rightarrow> byte list" where
  "encRuns runs = leBytes 4 (int (length runs)) @ concat (map encRun runs)"

definition run_fits :: "ExtentRun \<Rightarrow> bool" where
  "run_fits run \<longleftrightarrow> fits 8 (runStart run) \<and> fits 4 (runCount run)"

definition runs_fit :: "ExtentRun list \<Rightarrow> bool" where
  "runs_fit runs \<longleftrightarrow> (\<forall>run\<in>set runs. run_fits run \<and> runCount run \<noteq> 0)
     \<and> (\<Sum>run\<leftarrow>runs. runCount run) \<le> MAX_EXTENTS_PER_INODE"

definition encChoice :: "CreateDirectoryChoice \<Rightarrow> byte list" where
  "encChoice c = leBytes 8 (choiceParentId c) @ encText (choiceName c) @ leBytes 8 (choiceInodeId c)
     @ leBytes 4 (choiceMode c) @ leBytes 8 (choiceAtimeMs c) @ leBytes 8 (choiceMtimeMs c)
     @ leBytes 8 (choiceCtimeMs c)"

definition choice_fits :: "CreateDirectoryChoice \<Rightarrow> bool" where
  "choice_fits c \<longleftrightarrow> fits 8 (choiceParentId c) \<and> name_ok (choiceName c) \<and> fits 8 (choiceInodeId c)
     \<and> fits 4 (choiceMode c) \<and> fits 8 (choiceAtimeMs c) \<and> fits 8 (choiceMtimeMs c) \<and> fits 8 (choiceCtimeMs c)"

definition encFields :: "TxnRecord \<Rightarrow> byte list" where
  "encFields record =
     (case record of
        CreateDirectories entries \<Rightarrow> leBytes 4 (int (length entries)) @ concat (map encChoice entries)
      | CreateFile choice fsize extents \<Rightarrow> encChoice choice @ leBytes 8 fsize @ encRuns extents
      | RemoveFile parentId nm mtime ctime \<Rightarrow>
          leBytes 8 parentId @ encText nm @ leBytes 8 mtime @ leBytes 8 ctime
      | RemoveDirectory parentId nm mtime ctime \<Rightarrow>
          leBytes 8 parentId @ encText nm @ leBytes 8 mtime @ leBytes 8 ctime
      | ChangeMode iid mode ctime \<Rightarrow> leBytes 8 iid @ leBytes 4 mode @ leBytes 8 ctime
      | ChangeTimes iid atime mtime ctime \<Rightarrow>
          leBytes 8 iid @ leBytes 8 atime @ leBytes 8 mtime @ leBytes 8 ctime
      | ResizeFile operation iid fsize allocated mtime ctime \<Rightarrow>
          encU8 (if operation = TruncateOp then 0 else 1) @ leBytes 8 iid @ leBytes 8 fsize
            @ encRuns allocated @ leBytes 8 mtime @ leBytes 8 ctime
      | Rename sp sn dp dn timestamp \<Rightarrow>
          leBytes 8 sp @ encText sn @ leBytes 8 dp @ encText dn @ leBytes 8 timestamp
      | CreateSymlink choice target \<Rightarrow> encChoice choice @ encText target
      | ReserveQuarantine extents \<Rightarrow> encRuns extents)"

definition encRecord :: "TxnRecord \<Rightarrow> byte list" where
  "encRecord record = encU8 (RECORD_CODES record) @ encFields record"

text \<open>The records a frame can hold.\<close>

definition record_fits :: "TxnRecord \<Rightarrow> bool" where
  "record_fits record \<longleftrightarrow>
     (case record of
        CreateDirectories entries \<Rightarrow> entries \<noteq> [] \<and> int (length entries) \<le> MAX_INODES \<and> (\<forall>c\<in>set entries. choice_fits c)
      | CreateFile choice fsize extents \<Rightarrow> choice_fits choice \<and> fits 8 fsize \<and> runs_fit extents
      | RemoveFile parentId nm mtime ctime \<Rightarrow> fits 8 parentId \<and> name_ok nm \<and> fits 8 mtime \<and> fits 8 ctime
      | RemoveDirectory parentId nm mtime ctime \<Rightarrow>
          fits 8 parentId \<and> name_ok nm \<and> fits 8 mtime \<and> fits 8 ctime
      | ChangeMode iid mode ctime \<Rightarrow> fits 8 iid \<and> fits 4 mode \<and> fits 8 ctime
      | ChangeTimes iid atime mtime ctime \<Rightarrow> fits 8 iid \<and> fits 8 atime \<and> fits 8 mtime \<and> fits 8 ctime
      | ResizeFile operation iid fsize allocated mtime ctime \<Rightarrow>
          fits 8 iid \<and> fits 8 fsize \<and> runs_fit allocated \<and> fits 8 mtime \<and> fits 8 ctime
      | Rename sp sn dp dn timestamp \<Rightarrow> fits 8 sp \<and> name_ok sn \<and> fits 8 dp \<and> name_ok dn \<and> fits 8 timestamp
      | CreateSymlink choice target \<Rightarrow> choice_fits choice \<and> symlink_target_ok target
      | ReserveQuarantine extents \<Rightarrow> runs_fit extents)"

section \<open>Every part keeps the field contract\<close>

lemmas wr_seqs = b8.wr_seq b32.wr_seq b64.wr_seq name.wr_seq target.wr_seq
lemmas wr_encs = b8.wr_enc b32.wr_enc b64.wr_enc name.wr_enc target.wr_enc
lemmas rd_seqs = b8.rd_seq b32.rd_seq b64.rd_seq name.rd_seq target.rd_seq

lemma has_room_append: "has_room w (length (a @ b)) \<Longrightarrow> has_room w (length a)"
  by (simp add: has_room_def)

interpretation run: exact_field writeRun "rbind readU64 (\<lambda>s. rbind readU32 (\<lambda>c. rret \<lparr>runStart = s, runCount = c\<rparr>))"
  encRun run_fits
proof
  fix v w
  assume "run_fits v" "has_room w (length (encRun v))"
  then show "writeRun v w = Inr (emit w (encRun v))"
    by (simp add: writeRun_def encRun_def run_fits_def wr_seqs wr_encs has_room_def)
next
  fix v :: ExtentRun and rest
  assume "run_fits v"
  then show "rbind readU64 (\<lambda>s. rbind readU32 (\<lambda>c. rret \<lparr>runStart = s, runCount = c\<rparr>)) (encRun v @ rest) = Inr (v, rest)"
    by (simp add: encRun_def run_fits_def rd_seqs)
next
  fix bs v rest
  assume "rbind readU64 (\<lambda>s. rbind readU32 (\<lambda>c. rret \<lparr>runStart = s, runCount = c\<rparr>)) bs = Inr (v, rest)"
  then show "run_fits v \<and> bs = encRun v @ rest"
    by (auto simp: b64.rd_bind_iff b32.rd_bind_iff run_fits_def encRun_def)
qed

interpretation choice: exact_field writeChoice readChoice encChoice choice_fits
proof
  fix v w
  assume "choice_fits v" "has_room w (length (encChoice v))"
  then show "writeChoice v w = Inr (emit w (encChoice v))"
    by (simp add: writeChoice_def encChoice_def choice_fits_def wr_seqs wr_encs has_room_def)
next
  fix v :: CreateDirectoryChoice and rest
  assume "choice_fits v"
  then show "readChoice (encChoice v @ rest) = Inr (v, rest)"
    by (simp add: readChoice_def encChoice_def choice_fits_def rd_seqs)
next
  fix bs v rest
  assume "readChoice bs = Inr (v, rest)"
  then show "choice_fits v \<and> bs = encChoice v @ rest"
    by (auto simp: readChoice_def b64.rd_bind_iff b32.rd_bind_iff name.rd_bind_iff choice_fits_def encChoice_def)
qed

text \<open>Run lists: the reader's bound on the total also bounds every count before it is used.\<close>

lemma readRuns_enc:
  "\<forall>r\<in>set runs. run_fits r \<and> runCount r \<noteq> 0 \<Longrightarrow> c + (\<Sum>r\<leftarrow>runs. runCount r) \<le> MAX_EXTENTS_PER_INODE
     \<Longrightarrow> readRuns (length runs) c (concat (map encRun runs) @ rest) = Inr (runs, rest)"
proof (induction runs arbitrary: c)
  case (Cons r runs)
  have nonneg: "0 \<le> (\<Sum>r\<leftarrow>runs. runCount r)"
    using Cons.prems(1) by (intro sum_list_nonneg) (auto simp: run_fits_def fits_def)
  have "readRuns (length runs) (c + runCount r) (concat (map encRun runs) @ rest) = Inr (runs, rest)"
    using Cons.prems by (intro Cons.IH) (simp_all add: add.assoc)
  moreover have "c + runCount r \<le> MAX_EXTENTS_PER_INODE" using nonneg Cons.prems(2) by simp
  ultimately show ?case using Cons.prems(1) by (simp add: encRun_def [of r] rd_seqs run_fits_def)
qed simp

lemma readRuns_sound:
  "readRuns n c bs = Inr (runs, rest) \<Longrightarrow> length runs = n \<and> (\<forall>r\<in>set runs. run_fits r \<and> runCount r \<noteq> 0)
     \<and> (n = 0 \<or> c + (\<Sum>r\<leftarrow>runs. runCount r) \<le> MAX_EXTENTS_PER_INODE) \<and> bs = concat (map encRun runs) @ rest"
proof (induction n arbitrary: c bs runs)
  case (Suc n)
  from Suc.prems obtain start count more rs where m:
    "fits 8 start" "fits 4 count" "bs = leBytes 8 start @ leBytes 4 count @ more"
    "count \<noteq> 0" "c + count \<le> MAX_EXTENTS_PER_INODE"
    "readRuns n (c + count) more = Inr (rs, rest)" "runs = \<lparr>runStart = start, runCount = count\<rparr> # rs"
    by (auto simp: b64.rd_iff b32.rd_iff rcheck_def rbind_def ebind_eq_Inr split: if_splits)
  from Suc.IH [OF m(6)] m show ?case by (auto simp: run_fits_def encRun_def)
qed simp

lemma runs_fit_length: "runs_fit runs \<Longrightarrow> int (length runs) \<le> MAX_EXTENTS_PER_INODE"
proof -
  assume r: "runs_fit runs"
  have "1 \<le> runCount x" if "x \<in> set runs" for x
  proof -
    have "0 \<le> runCount x" "runCount x \<noteq> 0" using r that by (auto simp: runs_fit_def run_fits_def fits_def)
    then show ?thesis by linarith
  qed
  then have "(\<Sum>x\<leftarrow>runs. 1) \<le> (\<Sum>x\<leftarrow>runs. runCount x)" by (rule sum_list_mono)
  with r show ?thesis by (simp add: runs_fit_def sum_list_triv)
qed

lemma readBoundedCount_iff:
  "readBoundedCount maximum bs = Inr (n, tail) \<longleftrightarrow> fits 4 n \<and> n \<le> maximum \<and> bs = leBytes 4 n @ tail"
  by (auto simp: readBoundedCount_def rbind_def rcheck_def ebind_eq_Inr b32.rd_iff split: if_splits)

lemma readBoundedCount_enc:
  "0 \<le> n \<Longrightarrow> n \<le> maximum \<Longrightarrow> maximum < 2 ^ 32 \<Longrightarrow>
     rbind (readBoundedCount maximum) g (leBytes 4 n @ rest) = g n rest"
proof -
  assume "0 \<le> n" "n \<le> maximum" "maximum < 2 ^ 32"
  then have "readBoundedCount maximum (leBytes 4 n @ rest) = Inr (n, rest)"
    by (simp add: readBoundedCount_iff fits_def)
  then show ?thesis by simp
qed

interpretation runs: exact_field writeExtentRuns readExtentRuns encRuns runs_fit
proof
  fix v w
  assume v: "runs_fit v" and w: "has_room w (length (encRuns v))"
  have "fits 4 (int (length v))" using runs_fit_length [OF v] by (simp add: fits_def MAX_EXTENTS_PER_INODE_def)
  moreover have "has_room w 4" using w by (rule has_room_le) (simp add: encRuns_def)
  moreover have "fold_res writeRun v (emit w (leBytes 4 (int (length v))))
      = Inr (emit (emit w (leBytes 4 (int (length v)))) (concat (map encRun v)))"
    using v w by (intro run.wr_list) (simp_all add: runs_fit_def encRuns_def)
  ultimately show "writeExtentRuns v w = Inr (emit w (encRuns v))"
    by (simp add: writeExtentRuns_def encRuns_def b32.wr_seq)
next
  fix v rest
  assume v: "runs_fit v"
  have "readRuns (length v) 0 (concat (map encRun v) @ rest) = Inr (v, rest)"
    using v by (intro readRuns_enc) (simp_all add: runs_fit_def)
  with runs_fit_length [OF v] show "readExtentRuns (encRuns v @ rest) = Inr (v, rest)"
    by (simp add: readExtentRuns_def encRuns_def readBoundedCount_enc MAX_EXTENTS_PER_INODE_def)
next
  fix bs v rest
  assume "readExtentRuns bs = Inr (v, rest)"
  then obtain n more where n: "fits 4 n" "bs = leBytes 4 n @ more" "readRuns (nat n) 0 more = Inr (v, rest)"
    by (auto simp: readExtentRuns_def readBoundedCount_iff rbind_def ebind_eq_Inr)
  from readRuns_sound [OF n(3)] n(1,2) show "runs_fit v \<and> bs = encRuns v @ rest"
    by (auto simp: runs_fit_def encRuns_def fits_def MAX_EXTENTS_PER_INODE_def)
qed

text \<open>A list of created directories, as \<open>createDirectories\<close> holds it.\<close>

lemma choices_fit: "int (length cs) \<le> MAX_INODES \<Longrightarrow> fits 4 (int (length cs))"
  by (simp add: fits_def MAX_INODES_def)

lemmas part_wr = wr_seqs wr_encs choice.wr_seq choice.wr_enc runs.wr_seq runs.wr_enc
lemmas part_rd = rd_seqs choice.rd_seq runs.rd_seq
lemmas part_iff = b8.rd_iff b32.rd_iff b64.rd_iff name.rd_iff target.rd_iff choice.rd_iff runs.rd_iff
  readBoundedCount_iff choice.rd_list_iff

interpretation entry_record: exact_field "\<lambda>r. andThen (writeU8 (RECORD_CODES r)) (writeFields r)"
  "rbind readU8 readFields" encRecord record_fits
proof
  fix r w
  assume r: "record_fits r" and w: "has_room w (length (encRecord r))"
  have "fits 1 (RECORD_CODES r)" by (simp add: RECORD_CODES_def fits_def split: TxnRecord.split)
  moreover have "has_room w 1" using w by (rule has_room_le) (simp add: encRecord_def)
  moreover have "writeFields r (emit w (encU8 (RECORD_CODES r)))
      = Inr (emit (emit w (encU8 (RECORD_CODES r))) (encFields r))"
  proof -
    have room: "has_room (emit w (encU8 (RECORD_CODES r))) (length (encFields r))"
      using w by (simp add: encRecord_def)
    show ?thesis
    proof (cases r)
      case (CreateDirectories cs)
      with r room show ?thesis
        by (simp add: writeFields_def encFields_def record_fits_def part_wr choices_fit choice.wr_list has_room_def)
    next
      case (ResizeFile operation iid fsize allocated mtime ctime)
      with r room show ?thesis
        by (cases operation) (simp_all add: writeFields_def encFields_def record_fits_def part_wr
            has_room_def)
    qed (use r room in \<open>simp add: writeFields_def encFields_def record_fits_def writeNameChange_def
        part_wr has_room_def\<close>)+
  qed
  ultimately show "andThen (writeU8 (RECORD_CODES r)) (writeFields r) w = Inr (emit w (encRecord r))"
    by (simp add: b8.wr_seq encRecord_def)
next
  fix r rest
  assume r: "record_fits r"
  have "fits 1 (RECORD_CODES r)" by (simp add: RECORD_CODES_def fits_def split: TxnRecord.split)
  moreover have "readFields (RECORD_CODES r) (encFields r @ rest) = Inr (r, rest)"
  proof (cases r)
    case (CreateDirectories cs)
    with r have "readMany (length cs) readChoice (concat (map encChoice cs) @ rest) = Inr (cs, rest)"
      by (intro choice.rd_list) (simp add: record_fits_def)
    with r CreateDirectories show ?thesis
      by (simp add: readFields_def encFields_def record_fits_def RECORD_CODES_def readBoundedCount_enc MAX_INODES_def)
  next
    case (ResizeFile operation iid fsize allocated mtime ctime)
    with r show ?thesis
      by (cases operation) (simp_all add: readFields_def encFields_def record_fits_def RECORD_CODES_def part_rd)
  qed (use r in \<open>simp add: readFields_def readNameChange_def encFields_def record_fits_def
      RECORD_CODES_def part_rd\<close>)+
  ultimately show "rbind readU8 readFields (encRecord r @ rest) = Inr (r, rest)"
    by (simp add: encRecord_def b8.rd_seq)
next
  fix bs r rest
  assume "rbind readU8 readFields bs = Inr (r, rest)"
  then obtain code more where c: "fits 1 code" "bs = encU8 code @ more" "readFields code more = Inr (r, rest)"
    by (auto simp: b8.rd_bind_iff)
  have "record_fits r \<and> code = RECORD_CODES r \<and> more = encFields r @ rest"
    using c(3) by (auto simp: readFields_def readNameChange_def rbind_def ebind_eq_Inr part_iff record_fits_def
        RECORD_CODES_def encFields_def rcheck_def rret_def fits_def [of 4] split: if_splits)
  with c(2) show "record_fits r \<and> bs = encRecord r @ rest" by (simp add: encRecord_def)
qed

section \<open>Encoding and decoding a whole record\<close>

lemma decodeTxnRecord_iff: "decodeTxnRecord bytes = Inr r \<longleftrightarrow> record_fits r \<and> bytes = encRecord r"
proof -
  let ?body = "\<lambda>type. rbind (readFields type) (\<lambda>record. rbind endReader (\<lambda>_. rret record))"
  have split: "rbind readU8 ?body bytes
      = rbind (rbind readU8 readFields) (\<lambda>record. rbind endReader (\<lambda>_. rret record)) bytes"
    by (simp add: rbind_def ebind_assoc split_def)
  have "decodeTxnRecord bytes = Inr r \<longleftrightarrow>
      (\<exists>more. rbind readU8 readFields bytes = Inr (r, more) \<and> more = [])"
    unfolding decodeTxnRecord_def split
    by (auto simp: rbind_def [of "rbind readU8 readFields"] rbind_def [of endReader] ebind_eq_Inr endReader_def
        split: if_splits)
  then show ?thesis by (simp add: entry_record.rd_iff)
qed

text \<open>The writer's preflighted size is exactly what it writes.\<close>

lemma length_encText: "utf8_ok s \<Longrightarrow> int (length (encText s)) = 2 + utf8_bytes s"
  by (simp add: encText_def length_utf8Encode)

lemma name_ok_utf8: "name_ok s \<Longrightarrow> utf8_ok s"
  by (simp add: name_ok_def component_ok_utf8)

lemma length_encRuns: "int (length (encRuns runs)) = extentRunsPayloadBytes runs"
  by (simp add: encRuns_def extentRunsPayloadBytes_def length_concat comp_def encRun_def sum_list_triv)

lemma length_encChoice: "choice_fits c \<Longrightarrow> int (length (encChoice c)) = 46 + utf8_bytes (choiceName c)"
  by (simp add: encChoice_def choice_fits_def length_encText name_ok_utf8)

lemma estimate_choices:
  "\<forall>c\<in>set cs. choice_fits c \<Longrightarrow>
     fold_res (\<lambda>entry bytes. ebind (encodedUtf8Length (choiceName entry))
        (\<lambda>n. Inr (bytes + 8 + 2 + n + 8 + 4 + 24))) cs b = Inr (b + int (length (concat (map encChoice cs))))"
proof (induction cs arbitrary: b)
  case (Cons c cs)
  then have "encodedUtf8Length (choiceName c) = Inr (utf8_bytes (choiceName c))"
    by (simp add: choice_fits_def encodedUtf8Length_eq name_ok_utf8)
  with Cons show ?case by (simp add: length_encChoice algebra_simps)
qed simp

lemma choice_fits_utf8: "choice_fits c \<Longrightarrow> utf8_ok (choiceName c)"
  by (simp add: choice_fits_def name_ok_utf8)

lemma estimate_length:
  assumes "record_fits r"
  shows "estimateTxnPayloadBytes r = Inr (int (length (encRecord r)))"
proof (cases r)
  case (CreateDirectories cs)
  with assms estimate_choices [of cs 0] show ?thesis
    by (simp add: estimateTxnPayloadBytes_def record_fits_def encRecord_def encFields_def)
qed (use assms in \<open>simp add: estimateTxnPayloadBytes_def record_fits_def encRecord_def encFields_def
      length_encChoice length_encText length_encRuns encodedUtf8Length_eq name_ok_utf8 target_bounds
      choice_fits_utf8\<close>)+

lemma encodeTxnRecord_ok:
  assumes "record_fits r" and "int (length (encRecord r)) \<le> MAX_SAFE_INTEGER"
  shows "encodeTxnRecord r = Inr (encRecord r)"
proof -
  let ?n = "int (length (encRecord r))" and ?w = "\<lparr>limit = int (length (encRecord r)), written = []\<rparr>"
  have "newWriter ?n 0 = Inr ?w"
    using assms(2) by (simp add: newWriter_def isSafeInteger_def MAX_SAFE_INTEGER_def)
  moreover have "andThen (writeU8 (RECORD_CODES r)) (writeFields r) ?w = Inr (emit ?w (encRecord r))"
    by (rule entry_record.wr_enc [OF assms(1)]) (simp add: has_room_def)
  ultimately show ?thesis by (simp add: encodeTxnRecord_def estimate_length [OF assms(1)] finishWriter_def)
qed

end
