(* ===== verification/Blocks.thy ===== *)
theory Blocks
  imports TxnCodec
begin

text \<open>
  The fixed-layout blocks of \<open>codec.ts\<close>: a block is a byte array whose fields are set and read at
  fixed offsets through a \<open>DataView\<close>, with a magic number, zero padding and a CRC-32 over the block
  with its own checksum field zeroed. Every access below is inside the length the function has
  checked, so the \<open>RangeError\<close> of an access beyond the view does not arise.
\<close>

section \<open>Arrays and views\<close>

definition setBytes :: "nat \<Rightarrow> byte list \<Rightarrow> byte list \<Rightarrow> byte list" where
  "setBytes offset xs bytes = take offset bytes @ xs @ drop (offset + length xs) bytes"

definition setLE :: "nat \<Rightarrow> nat \<Rightarrow> int \<Rightarrow> byte list \<Rightarrow> byte list" where
  "setLE n offset v bytes = setBytes offset (leBytes n v) bytes"

definition getLE :: "nat \<Rightarrow> byte list \<Rightarrow> nat \<Rightarrow> int" where
  "getLE n bytes offset = leValue (take n (drop offset bytes))"

definition zeros :: "nat \<Rightarrow> byte list" where "zeros n = replicate n 0"

definition ARENA_MAGIC :: "byte list" where
  "ARENA_MAGIC = [0x50, 0x47, 0x58, 0x52, 0x50, 0x41, 0x30, 0x31]"

definition METADATA_MAGIC :: "byte list" where
  "METADATA_MAGIC = [0x50, 0x47, 0x58, 0x52, 0x50, 0x4d, 0x30, 0x31]"

definition FRAME_MAGIC :: "byte list" where
  "FRAME_MAGIC = [0x50, 0x47, 0x58, 0x52, 0x50, 0x46, 0x30, 0x31]"

definition ACTIVATION_MAGIC :: "byte list" where
  "ACTIVATION_MAGIC = [0x50, 0x47, 0x58, 0x52, 0x50, 0x4b, 0x30, 0x31]"

definition requireMagic :: "byte list \<Rightarrow> byte list \<Rightarrow> unit res" where
  "requireMagic bytes magic = (if take (length magic) bytes \<noteq> magic then Inl CorruptStoreError else Inr ())"

definition requireZero :: "byte list \<Rightarrow> nat \<Rightarrow> nat \<Rightarrow> unit res" where
  "requireZero bytes start stop =
     each_res (\<lambda>offset. if offset < length bytes \<and> bytes ! offset = 0 then Inr () else Inl CorruptStoreError)
       [start..<stop]"

definition requireChecksum :: "byte list \<Rightarrow> nat \<Rightarrow> unit res" where
  "requireChecksum bytes offset =
     (let stored = getLE 4 bytes offset in
      ebind (crc32WithZeroedRange bytes (int offset) 4)
        (\<lambda>calculated. if stored \<noteq> uint calculated then Inl CorruptStoreError else Inr ()))"

definition requireCurrentIdentity :: "int \<Rightarrow> int \<Rightarrow> unit res" where
  "requireCurrentIdentity version profile =
     (if version \<noteq> FORMAT_VERSION \<or> profile \<noteq> LIMITS_PROFILE_VERSION then Inl StoreRecreationRequiredError
      else Inr ())"

text \<open>Setting the checksum field to the checksum of the block with that field zeroed.\<close>

definition setChecksum :: "nat \<Rightarrow> byte list \<Rightarrow> byte list res" where
  "setChecksum offset bytes =
     ebind (crc32WithZeroedRange bytes (int offset) 4) (\<lambda>c. Inr (setLE 4 offset (uint c) bytes))"

section \<open>Facts about fields at offsets\<close>

lemma length_zeros [simp]: "length (zeros n) = n"
  by (simp add: zeros_def)

lemma length_magics [simp]:
  "length ARENA_MAGIC = 8" "length METADATA_MAGIC = 8" "length FRAME_MAGIC = 8" "length ACTIVATION_MAGIC = 8"
  by (simp_all add: ARENA_MAGIC_def METADATA_MAGIC_def FRAME_MAGIC_def ACTIVATION_MAGIC_def)

lemma length_set [simp]:
  "offset + length xs \<le> length bytes \<Longrightarrow> length (setBytes offset xs bytes) = length bytes"
  "offset + n \<le> length bytes \<Longrightarrow> length (setLE n offset v bytes) = length bytes"
  by (simp_all add: setBytes_def setLE_def)

lemma zeros_add: "zeros (m + n) = zeros m @ zeros n"
  by (simp add: zeros_def replicate_add)

lemma zeros_simps: "take n (zeros m) = zeros (min n m)" "drop n (zeros m) = zeros (m - n)" "zeros 0 = []"
  by (simp_all add: zeros_def min_def)

text \<open>A field set in a zeroed tail, after a gap.\<close>

lemma setBytes_zeros:
  assumes "offset = length pre + gap" and "gap + length xs \<le> n"
  shows "setBytes offset xs (pre @ zeros n) = pre @ zeros gap @ xs @ zeros (n - gap - length xs)"
proof -
  have "zeros n = zeros gap @ zeros (length xs) @ zeros (n - gap - length xs)"
    using assms(2) by (simp flip: zeros_add)
  with assms(1) show ?thesis by (simp add: setBytes_def)
qed

text \<open>The next field of a block that is filled from the front.\<close>

lemma setLE_next:
  "offset = length pre \<Longrightarrow> k \<le> n \<Longrightarrow> setLE k offset v (pre @ zeros n) = (pre @ leBytes k v) @ zeros (n - k)"
  using setBytes_zeros [of offset pre 0 "leBytes k v" n] by (simp add: setLE_def zeros_simps)

lemma getLE_field: "offset = length pre \<Longrightarrow> fits n v \<Longrightarrow> getLE n (pre @ leBytes n v @ post) offset = v"
  by (simp add: getLE_def fits_def leValue_small)

lemma getLE_take: "offset + n \<le> m \<Longrightarrow> getLE n (take m bytes) offset = getLE n bytes offset"
  by (simp add: getLE_def drop_take min_absorb1)

lemma getLE_fits: "offset + n \<le> length bytes \<Longrightarrow> fits n (getLE n bytes offset)"
  using leValue_bound [of "take n (drop offset bytes)"] by (simp add: getLE_def fits_def min_absorb2)

lemma drop_field:
  assumes "offset + n = stop" and "stop \<le> length bytes"
  shows "drop offset bytes = leBytes n (getLE n bytes offset) @ drop stop bytes"
proof -
  have "length (take n (drop offset bytes)) = n" using assms by simp
  from leBytes_leValue [of "take n (drop offset bytes)", unfolded this]
  have "leBytes n (getLE n bytes offset) = take n (drop offset bytes)" by (simp add: getLE_def)
  moreover have "drop stop bytes = drop n (drop offset bytes)" using assms(1) by (simp add: add.commute)
  ultimately show ?thesis by (simp only: append_take_drop_id)
qed

lemma requireMagic_iff: "requireMagic bytes magic = Inr u \<longleftrightarrow> (\<exists>rest. bytes = magic @ rest)"
proof -
  have "take (length magic) bytes = magic \<longleftrightarrow> (\<exists>rest. bytes = magic @ rest)"
    by (metis append_eq_conv_conj append_take_drop_id)
  then show ?thesis by (simp add: requireMagic_def)
qed

lemma requireZero_iff:
  assumes "start + n = stop" and "stop \<le> length bytes"
  shows "requireZero bytes start stop = Inr u \<longleftrightarrow> drop start bytes = zeros n @ drop stop bytes"
proof -
  have "requireZero bytes start stop = Inr u \<longleftrightarrow> (\<forall>i\<in>{start..<stop}. i < length bytes \<and> bytes ! i = 0)"
    by (simp add: requireZero_def each_res_Inr)
  also have "\<dots> \<longleftrightarrow> (\<forall>i<n. bytes ! (start + i) = 0)"
  proof (intro iffI allI impI ballI)
    fix i
    assume all: "\<forall>i\<in>{start..<stop}. i < length bytes \<and> bytes ! i = 0" and "i < n"
    then have "start + i \<in> {start..<stop}" using assms(1) by simp
    with all show "bytes ! (start + i) = 0" by blast
  next
    fix i
    assume all: "\<forall>i<n. bytes ! (start + i) = 0" and i: "i \<in> {start..<stop}"
    then have "i - start < n" "start + (i - start) = i" using assms(1) by auto
    with all i assms(2) show "i < length bytes \<and> bytes ! i = 0" by fastforce
  qed
  also have "\<dots> \<longleftrightarrow> take n (drop start bytes) = zeros n"
    using assms by (auto simp: zeros_def list_eq_iff_nth_eq)
  also have "\<dots> \<longleftrightarrow> drop start bytes = zeros n @ drop stop bytes"
  proof -
    have "drop start bytes = take n (drop start bytes) @ drop stop bytes"
      using assms(1) append_take_drop_id [of n "drop start bytes"] by (simp add: add.commute)
    then show ?thesis by (metis append_same_eq)
  qed
  finally show ?thesis .
qed

lemma requireZero_Inl: "requireZero bytes start stop = Inl e \<Longrightarrow> e = CorruptStoreError"
  by (auto simp: requireZero_def dest!: each_res_Inl split: if_splits)

section \<open>Sealed blocks\<close>

text \<open>A block with its checksum field between \<open>pre\<close> and \<open>post\<close>.\<close>

definition seal :: "byte list \<Rightarrow> byte list \<Rightarrow> byte list" where
  "seal pre post = pre @ leBytes 4 (uint (crc32 (pre @ zeros 4 @ post))) @ post"

lemma length_seal [simp]: "length (seal pre post) = length pre + 4 + length post"
  by (simp add: seal_def)

lemma crc_fits [simp]: "fits 4 (uint (c :: u32))"
  using uint_range_size [of c] by (simp add: fits_def word_size)

lemma crc_zeroed:
  assumes "length bytes \<le> 2 ^ 32" and "offset + 4 \<le> length bytes"
  shows "crc32WithZeroedRange bytes (int offset) 4
    = Inr (crc32 (take offset bytes @ zeros 4 @ drop (offset + 4) bytes))"
proof -
  have "isSafeInteger (int offset)" "isSafeInteger 4"
    using assms by (simp_all add: isSafeInteger_def MAX_SAFE_INTEGER_def)
  from crc32WithZeroedRange_correct [OF this] assms(2) show ?thesis
    by (simp add: zeroRange_def zeros_def)
qed

lemma setChecksum_seal:
  assumes "length pre + length post \<le> 2 ^ 31" and "offset = length pre"
  shows "setChecksum offset (pre @ zeros 4 @ post) = Inr (seal pre post)"
  using assms by (simp add: setChecksum_def crc_zeroed setLE_def setBytes_def seal_def zeros_simps)

lemma requireChecksum_seal:
  assumes "length pre + length post \<le> 2 ^ 31" and "offset = length pre"
  shows "requireChecksum (seal pre post) offset = Inr ()"
  using assms by (simp add: requireChecksum_def crc_zeroed seal_def getLE_field)

lemma requireChecksum_sound:
  assumes "requireChecksum bytes offset = Inr u" and "length bytes \<le> 2 ^ 32" and "offset + 4 \<le> length bytes"
  shows "bytes = seal (take offset bytes) (drop (offset + 4) bytes)"
proof -
  have "getLE 4 bytes offset = uint (crc32 (take offset bytes @ zeros 4 @ drop (offset + 4) bytes))"
    using assms by (auto simp: requireChecksum_def crc_zeroed Let_def split: if_splits)
  moreover have "bytes = take offset bytes @ drop offset bytes" by simp
  moreover have "drop offset bytes = leBytes 4 (getLE 4 bytes offset) @ drop (offset + 4) bytes"
    by (rule drop_field) (use assms(3) in simp_all)
  ultimately show ?thesis unfolding seal_def by metis
qed

lemma requireChecksum_Inl:
  assumes "requireChecksum bytes offset = Inl e" and "length bytes \<le> 2 ^ 32" and "offset + 4 \<le> length bytes"
  shows "e = CorruptStoreError"
  using assms by (auto simp: requireChecksum_def crc_zeroed Let_def split: if_splits)

text \<open>Changing any one byte of a block with a valid checksum, that field included, invalidates it.\<close>

lemma crc32_update:
  assumes "i < length bytes" and "crc32 (bytes[i := b]) = crc32 bytes"
  shows "b = bytes ! i"
proof (rule ccontr)
  assume "b \<noteq> bytes ! i"
  from crc32_byte_change [OF this, of "take i bytes" "drop (Suc i) bytes"] assms show False
    by (simp add: upd_conv_take_nth_drop flip: id_take_nth_drop)
qed

lemma leValue_inj: "leValue xs = leValue ys \<Longrightarrow> length xs = length ys \<Longrightarrow> xs = ys"
  by (metis leBytes_leValue)

lemma checksum_one_byte:
  assumes "requireChecksum bytes offset = Inr ()" and "requireChecksum (bytes[i := b]) offset = Inr ()"
    and i: "i < length bytes" and len: "length bytes \<le> 2 ^ 32" "offset + 4 \<le> length bytes"
  shows "b = bytes ! i"
proof -
  let ?bytes = "bytes[i := b]"
  define body where "body = (\<lambda>bs :: byte list. take offset bs @ zeros 4 @ drop (offset + 4) bs)"
  have stored: "getLE 4 bytes offset = uint (crc32 (body bytes))" "getLE 4 ?bytes offset = uint (crc32 (body ?bytes))"
    using assms by (auto simp: requireChecksum_def crc_zeroed Let_def body_def split: if_splits)
  consider "i < offset" | "offset \<le> i" "i < offset + 4" | "offset + 4 \<le> i" by linarith
  then show ?thesis
  proof cases
    case 1
    then have b: "body ?bytes = (body bytes)[i := b]" "i < length (body bytes)" "body bytes ! i = bytes ! i"
      using len(2) by (simp_all add: body_def take_update_swap list_update_append1 nth_append)
    have "getLE 4 ?bytes offset = getLE 4 bytes offset" using 1 by (simp add: getLE_def)
    with stored b(1) have "crc32 ((body bytes)[i := b]) = crc32 (body bytes)"
      by (intro word_uint_eqI) simp
    from crc32_update [OF b(2) this] b(3) show ?thesis by simp
  next
    case 2
    then have "body ?bytes = body bytes" by (simp add: body_def)
    with stored have "leValue (take 4 (drop offset ?bytes)) = leValue (take 4 (drop offset bytes))"
      by (simp add: getLE_def)
    from leValue_inj [OF this] have "take 4 (drop offset ?bytes) = take 4 (drop offset bytes)" by simp
    then have "take 4 (drop offset ?bytes) ! (i - offset) = take 4 (drop offset bytes) ! (i - offset)" by simp
    with 2 i show ?thesis by simp
  next
    case 3
    then have "\<not> i - offset < 4" "\<not> i < offset" by simp_all
    then have b: "body ?bytes = (body bytes)[i := b]" "i < length (body bytes)" "body bytes ! i = bytes ! i"
      using 3 len(2) i by (simp_all add: body_def drop_update_swap list_update_append nth_append)
    have "take 4 (drop offset ?bytes) = take 4 (drop offset bytes)"
      using 3 by (simp add: drop_update_swap)
    with stored b(1) have "crc32 ((body bytes)[i := b]) = crc32 (body bytes)"
      by (intro word_uint_eqI) (simp add: getLE_def)
    from crc32_update [OF b(2) this] b(3) show ?thesis by simp
  qed
qed

lemma leValue_fits: "fits n v \<Longrightarrow> leValue (leBytes n v) = v"
  by (simp add: leValue_small fits_def)

lemma version_fits: "fits 4 FORMAT_VERSION" "fits 4 LIMITS_PROFILE_VERSION"
  by (simp_all add: fits_def FORMAT_VERSION_def LIMITS_PROFILE_VERSION_def)

end
