(* ===== verification/Frame.thy ===== *)
theory Frame
  imports Blocks
begin

text \<open>
  Transaction frames of \<open>codec.ts\<close>: a 48-byte header with generation, sequence and payload length,
  sealed by a checksum, and the record as payload. \<open>decodeTxnFrame\<close> accepts exactly the images of
  \<open>encodeTxnFrame\<close>.
\<close>

definition TXN_FRAME_HEADER_BYTES :: nat where "TXN_FRAME_HEADER_BYTES = 48"
definition FRAME_CHECKSUM_OFFSET :: nat where "FRAME_CHECKSUM_OFFSET = 40"

record TxnFrame =
  frameGeneration :: int
  frameSequence :: int
  frameRecord :: TxnRecord

record TxnFrameHeader =
  headerGeneration :: int
  headerSequence :: int
  headerPayloadLength :: int
  headerFrameBytes :: int

definition txnFrameBytes :: "TxnRecord \<Rightarrow> int res" where
  "txnFrameBytes record =
     ebind (estimateTxnPayloadBytes record) (\<lambda>payloadBytes.
       if payloadBytes > MAX_FRAME_PAYLOAD_BYTES then Inl StoreLimitError
       else Inr (int TXN_FRAME_HEADER_BYTES + payloadBytes))"

definition inspectTxnFrameHeader :: "byte list \<Rightarrow> TxnFrameHeader res" where
  "inspectTxnFrameHeader header =
     (if length header \<noteq> TXN_FRAME_HEADER_BYTES then Inl CorruptStoreError
      else
        ebind (requireMagic header FRAME_MAGIC) (\<lambda>_.
        ebind (requireZero header 36 40) (\<lambda>_.
        ebind (requireZero header 44 48) (\<lambda>_.
        let payloadLength = getLE 4 header 32 in
        if payloadLength > MAX_FRAME_PAYLOAD_BYTES then Inl CorruptStoreError
        else if getLE 4 header 8 \<noteq> FORMAT_VERSION \<or> getLE 4 header 12 \<noteq> LIMITS_PROFILE_VERSION
          then Inl CorruptStoreError
        else
          Inr \<lparr>headerGeneration = getLE 8 header 16, headerSequence = getLE 8 header 24,
               headerPayloadLength = payloadLength,
               headerFrameBytes = int TXN_FRAME_HEADER_BYTES + payloadLength\<rparr>))))"

definition encodeTxnFrame :: "TxnFrame \<Rightarrow> byte list res" where
  "encodeTxnFrame frame =
     ebind (encodeTxnRecord (frameRecord frame)) (\<lambda>payload.
       if int (length payload) > MAX_FRAME_PAYLOAD_BYTES then Inl StoreLimitError
       else
         let bytes = zeros (TXN_FRAME_HEADER_BYTES + length payload);
             bytes = setBytes 0 FRAME_MAGIC bytes;
             bytes = setLE 4 8 FORMAT_VERSION bytes;
             bytes = setLE 4 12 LIMITS_PROFILE_VERSION bytes
         in
         ebind (checkedU64 (frameGeneration frame)) (\<lambda>generation.
         let bytes = setLE 8 16 generation bytes in
         ebind (checkedU64 (frameSequence frame)) (\<lambda>sequence.
         let bytes = setLE 8 24 sequence bytes;
             bytes = setLE 4 32 (int (length payload)) bytes;
             bytes = setBytes TXN_FRAME_HEADER_BYTES payload bytes
         in setChecksum FRAME_CHECKSUM_OFFSET bytes)))"

definition decodeTxnFrame :: "byte list \<Rightarrow> TxnFrame res" where
  "decodeTxnFrame bytes =
     (if length bytes < TXN_FRAME_HEADER_BYTES then Inl CorruptStoreError
      else
        ebind (inspectTxnFrameHeader (take TXN_FRAME_HEADER_BYTES bytes)) (\<lambda>inspected.
        if int (length bytes) \<noteq> headerFrameBytes inspected then Inl CorruptStoreError
        else
          ebind (requireChecksum bytes FRAME_CHECKSUM_OFFSET) (\<lambda>_.
          ebind (decodeTxnRecord (drop TXN_FRAME_HEADER_BYTES bytes)) (\<lambda>record.
            Inr \<lparr>frameGeneration = headerGeneration inspected,
                 frameSequence = headerSequence inspected, frameRecord = record\<rparr>))))"

section \<open>The image of a frame\<close>

definition frame_fits :: "TxnFrame \<Rightarrow> bool" where
  "frame_fits f \<longleftrightarrow> fits 8 (frameGeneration f) \<and> fits 8 (frameSequence f) \<and> record_fits (frameRecord f)
     \<and> int (length (encRecord (frameRecord f))) \<le> MAX_FRAME_PAYLOAD_BYTES"

definition frameHead :: "int \<Rightarrow> int \<Rightarrow> int \<Rightarrow> byte list" where
  "frameHead gen seq len = FRAME_MAGIC @ leBytes 4 FORMAT_VERSION @ leBytes 4 LIMITS_PROFILE_VERSION
     @ leBytes 8 gen @ leBytes 8 seq @ leBytes 4 len"

definition encFrame :: "TxnFrame \<Rightarrow> byte list" where
  "encFrame f = (let payload = encRecord (frameRecord f) in
     seal (frameHead (frameGeneration f) (frameSequence f) (int (length payload)) @ zeros 4) (zeros 4 @ payload))"

lemma length_frameHead [simp]: "length (frameHead gen seq len) = 36"
  by (simp add: frameHead_def)

lemma length_encFrame: "length (encFrame f) = 48 + length (encRecord (frameRecord f))"
  by (simp add: encFrame_def Let_def)

lemma encodeTxnFrame_written:
  assumes enc: "encodeTxnRecord (frameRecord f) = Inr (encRecord (frameRecord f))"
    and u: "u64 (frameGeneration f)" "u64 (frameSequence f)"
    and small: "int (length (encRecord (frameRecord f))) \<le> MAX_FRAME_PAYLOAD_BYTES"
  shows "encodeTxnFrame f = Inr (encFrame f)"
proof -
  let ?p = "encRecord (frameRecord f)" and ?gen = "frameGeneration f" and ?seq = "frameSequence f"
  let ?n = "length ?p"
  have b: "setBytes 0 FRAME_MAGIC (zeros (48 + ?n)) = FRAME_MAGIC @ zeros (40 + ?n)"
    using setBytes_zeros [of 0 "[]" 0 FRAME_MAGIC "48 + ?n"] by (simp add: zeros_simps)
  have h: "setLE 4 32 (int ?n) (setLE 8 24 ?seq (setLE 8 16 ?gen (setLE 4 12 LIMITS_PROFILE_VERSION
      (setLE 4 8 FORMAT_VERSION (FRAME_MAGIC @ zeros (40 + ?n))))))
    = frameHead ?gen ?seq (int ?n) @ zeros (12 + ?n)"
    by ((subst setLE_next, simp, simp)+) (simp add: frameHead_def)
  have "setBytes 48 ?p (frameHead ?gen ?seq (int ?n) @ zeros (12 + ?n))
    = (frameHead ?gen ?seq (int ?n) @ zeros 4) @ zeros 4 @ (zeros 4 @ ?p)"
    using setBytes_zeros [of 48 "frameHead ?gen ?seq (int ?n)" 12 ?p "12 + ?n"] zeros_add [of 4 8] zeros_add [of 4 4]
    by (simp add: zeros_simps)
  moreover have "setChecksum 40 ((frameHead ?gen ?seq (int ?n) @ zeros 4) @ zeros 4 @ (zeros 4 @ ?p)) = Inr (encFrame f)"
    unfolding encFrame_def Let_def
    by (rule setChecksum_seal) (use small in \<open>simp_all add: MAX_FRAME_PAYLOAD_BYTES_def\<close>)
  ultimately show ?thesis
    using enc u small b h
    by (simp add: encodeTxnFrame_def TXN_FRAME_HEADER_BYTES_def FRAME_CHECKSUM_OFFSET_def Let_def)
qed

lemma encodeTxnFrame_ok:
  assumes "frame_fits f"
  shows "encodeTxnFrame f = Inr (encFrame f)"
proof (rule encodeTxnFrame_written)
  show "encodeTxnRecord (frameRecord f) = Inr (encRecord (frameRecord f))"
    using assms by (intro encodeTxnRecord_ok) (simp_all add: frame_fits_def MAX_FRAME_PAYLOAD_BYTES_def MAX_SAFE_INTEGER_def)
qed (use assms in \<open>simp_all add: frame_fits_def u64_fits\<close>)

section \<open>Decoding accepts images only\<close>

lemma frameHead_fields:
  assumes "fits 8 gen" "fits 8 seq" "fits 4 len"
  defines "head \<equiv> frameHead gen seq len"
  shows "take 8 (head @ post) = FRAME_MAGIC" "getLE 4 (head @ post) 8 = FORMAT_VERSION"
    "getLE 4 (head @ post) 12 = LIMITS_PROFILE_VERSION" "getLE 8 (head @ post) 16 = gen"
    "getLE 8 (head @ post) 24 = seq" "getLE 4 (head @ post) 32 = len"
  using assms version_fits by (simp_all add: getLE_def frameHead_def leValue_fits)

lemma frameHead_split:
  assumes "requireMagic bytes FRAME_MAGIC = Inr ()" and "48 \<le> length bytes"
    and "getLE 4 bytes 8 = FORMAT_VERSION" and "getLE 4 bytes 12 = LIMITS_PROFILE_VERSION"
  shows "bytes = frameHead (getLE 8 bytes 16) (getLE 8 bytes 24) (getLE 4 bytes 32) @ drop 36 bytes"
proof -
  have f: "drop 8 bytes = leBytes 4 (getLE 4 bytes 8) @ drop 12 bytes"
    "drop 12 bytes = leBytes 4 (getLE 4 bytes 12) @ drop 16 bytes"
    "drop 16 bytes = leBytes 8 (getLE 8 bytes 16) @ drop 24 bytes"
    "drop 24 bytes = leBytes 8 (getLE 8 bytes 24) @ drop 32 bytes"
    "drop 32 bytes = leBytes 4 (getLE 4 bytes 32) @ drop 36 bytes"
    by (rule drop_field; use assms(2) in simp)+
  obtain rest where r: "bytes = FRAME_MAGIC @ rest" using assms(1) by (auto simp: requireMagic_iff)
  then have "drop 8 bytes = rest" by simp
  with r f assms(3,4) show ?thesis unfolding frameHead_def by (metis append.assoc)
qed

lemma inspectTxnFrameHeader_iff:
  "inspectTxnFrameHeader header = Inr h \<longleftrightarrow>
     (\<exists>gen seq len c. fits 8 gen \<and> fits 8 seq \<and> 0 \<le> len \<and> len \<le> MAX_FRAME_PAYLOAD_BYTES \<and> length c = 4
        \<and> header = frameHead gen seq len @ zeros 4 @ c @ zeros 4
        \<and> h = \<lparr>headerGeneration = gen, headerSequence = seq, headerPayloadLength = len, headerFrameBytes = 48 + len\<rparr>)"
  (is "?l \<longleftrightarrow> ?r")
proof
  assume l: ?l
  have len: "length header = 48" using l by (auto simp: inspectTxnFrameHeader_def TXN_FRAME_HEADER_BYTES_def split: if_splits)
  have z: "drop 36 header = zeros 4 @ drop 40 header" "drop 44 header = zeros 4 @ drop 48 header"
    and m: "requireMagic header FRAME_MAGIC = Inr ()"
    and v: "getLE 4 header 8 = FORMAT_VERSION" "getLE 4 header 12 = LIMITS_PROFILE_VERSION"
    and max: "getLE 4 header 32 \<le> MAX_FRAME_PAYLOAD_BYTES"
    and h: "h = \<lparr>headerGeneration = getLE 8 header 16, headerSequence = getLE 8 header 24,
        headerPayloadLength = getLE 4 header 32, headerFrameBytes = 48 + getLE 4 header 32\<rparr>"
    using l len by (auto simp: inspectTxnFrameHeader_def TXN_FRAME_HEADER_BYTES_def Let_def ebind_eq_Inr
        requireZero_iff [of 36 4] requireZero_iff [of 44 4] split: if_splits)
  have "drop 40 header = take 4 (drop 40 header) @ drop 44 header"
    using append_take_drop_id [of 4 "drop 40 header"] by simp
  then have "header = frameHead (getLE 8 header 16) (getLE 8 header 24) (getLE 4 header 32)
      @ zeros 4 @ take 4 (drop 40 header) @ zeros 4"
    using frameHead_split [OF m _ v] z len by simp
  moreover have "fits 8 (getLE 8 header 16)" "fits 8 (getLE 8 header 24)" "0 \<le> getLE 4 header 32"
    using getLE_fits [of 16 8 header] getLE_fits [of 24 8 header] getLE_fits [of 32 4 header] len
    by (simp_all add: fits_def)
  moreover have "length (take 4 (drop 40 header)) = 4" using len by simp
  ultimately show ?r using max h by blast
next
  assume ?r
  then obtain gen seq len c where f: "fits 8 gen" "fits 8 seq" "0 \<le> len" "len \<le> MAX_FRAME_PAYLOAD_BYTES" "length c = 4"
    and header: "header = frameHead gen seq len @ zeros 4 @ c @ zeros 4"
    and h: "h = \<lparr>headerGeneration = gen, headerSequence = seq, headerPayloadLength = len, headerFrameBytes = 48 + len\<rparr>"
    by blast
  have len: "fits 4 len" using f(3,4) by (simp add: fits_def MAX_FRAME_PAYLOAD_BYTES_def)
  have z: "requireZero header 36 40 = Inr ()" "requireZero header 44 48 = Inr ()"
    using requireZero_iff [of 36 4 40 header] requireZero_iff [of 44 4 48 header] f(5)
    by (simp_all add: header)
  have m: "requireMagic header FRAME_MAGIC = Inr ()" by (simp add: requireMagic_def header frameHead_def)
  have "getLE 4 header 8 = FORMAT_VERSION" "getLE 4 header 12 = LIMITS_PROFILE_VERSION"
    "getLE 8 header 16 = gen" "getLE 8 header 24 = seq" "getLE 4 header 32 = len"
    unfolding header by (rule frameHead_fields [OF f(1,2) len])+
  with f z m h show ?l
    by (simp add: inspectTxnFrameHeader_def TXN_FRAME_HEADER_BYTES_def header)
qed

lemma decodeTxnFrame_written:
  assumes f: "fits 8 (frameGeneration f)" "fits 8 (frameSequence f)"
    and small: "int (length (encRecord (frameRecord f))) \<le> MAX_FRAME_PAYLOAD_BYTES"
  shows "decodeTxnFrame (encFrame f) = ebind (decodeTxnRecord (encRecord (frameRecord f))) (\<lambda>record.
    Inr \<lparr>frameGeneration = frameGeneration f, frameSequence = frameSequence f, frameRecord = record\<rparr>)"
proof -
  let ?p = "encRecord (frameRecord f)" and ?gen = "frameGeneration f" and ?seq = "frameSequence f"
  let ?len = "int (length ?p)"
  define buf where "buf = encFrame f"
  obtain c where c: "length c = 4" "buf = (frameHead ?gen ?seq ?len @ zeros 4) @ c @ (zeros 4 @ ?p)"
    by (rule that [of "leBytes 4 (uint (crc32 ((frameHead ?gen ?seq ?len @ zeros 4) @ zeros 4 @ zeros 4 @ ?p)))"])
      (simp_all add: buf_def encFrame_def seal_def Let_def)
  then have "take 48 buf = frameHead ?gen ?seq ?len @ zeros 4 @ c @ zeros 4" "drop 48 buf = ?p"
    by simp_all
  moreover from this f small c have "inspectTxnFrameHeader (take 48 buf) = Inr \<lparr>headerGeneration = ?gen, headerSequence = ?seq,
      headerPayloadLength = ?len, headerFrameBytes = 48 + ?len\<rparr>"
    unfolding inspectTxnFrameHeader_iff
    by (rule_tac x = ?gen in exI, rule_tac x = ?seq in exI, rule_tac x = ?len in exI, rule_tac x = c in exI) simp
  moreover have "requireChecksum buf 40 = Inr ()"
    unfolding buf_def encFrame_def Let_def
    by (rule requireChecksum_seal) (use small in \<open>simp_all add: MAX_FRAME_PAYLOAD_BYTES_def\<close>)
  moreover have "length buf = 48 + length ?p" by (simp add: buf_def length_encFrame)
  ultimately show ?thesis
    by (simp add: decodeTxnFrame_def TXN_FRAME_HEADER_BYTES_def FRAME_CHECKSUM_OFFSET_def flip: buf_def)
qed

lemma decodeTxnFrame_iff: "decodeTxnFrame bytes = Inr f \<longleftrightarrow> frame_fits f \<and> bytes = encFrame f"
proof
  assume l: "decodeTxnFrame bytes = Inr f"
  then obtain h r where h: "inspectTxnFrameHeader (take 48 bytes) = Inr h" "int (length bytes) = headerFrameBytes h"
    "requireChecksum bytes 40 = Inr ()" "decodeTxnRecord (drop 48 bytes) = Inr r" "48 \<le> length bytes"
    "f = \<lparr>frameGeneration = headerGeneration h, frameSequence = headerSequence h, frameRecord = r\<rparr>"
    by (auto simp: decodeTxnFrame_def TXN_FRAME_HEADER_BYTES_def FRAME_CHECKSUM_OFFSET_def ebind_eq_Inr split: if_splits)
  obtain gen seq len c where i: "fits 8 gen" "fits 8 seq" "0 \<le> len" "len \<le> MAX_FRAME_PAYLOAD_BYTES" "length c = 4"
    "take 48 bytes = frameHead gen seq len @ zeros 4 @ c @ zeros 4"
    "h = \<lparr>headerGeneration = gen, headerSequence = seq, headerPayloadLength = len, headerFrameBytes = 48 + len\<rparr>"
    using h(1) unfolding inspectTxnFrameHeader_iff by blast
  have r: "record_fits r" "drop 48 bytes = encRecord r" using h(4) by (simp_all add: decodeTxnRecord_iff)
  have bytes: "bytes = (frameHead gen seq len @ zeros 4) @ c @ (zeros 4 @ encRecord r)"
    using append_take_drop_id [of 48 bytes] i(6) r(2) by simp
  have len: "len = int (length (encRecord r))" using h(2) i(5,7) bytes by simp
  have "bytes = seal (take 40 bytes) (drop 44 bytes)"
    using requireChecksum_sound [OF h(3)] h(2,5) i(4,7) by (simp add: MAX_FRAME_PAYLOAD_BYTES_def)
  also have "take 40 bytes = frameHead gen seq len @ zeros 4" by (simp add: bytes)
  also have "drop 44 bytes = zeros 4 @ encRecord r" using i(5) by (simp add: bytes)
  finally show "frame_fits f \<and> bytes = encFrame f"
    using i r len h(6) by (simp add: frame_fits_def encFrame_def Let_def)
next
  assume "frame_fits f \<and> bytes = encFrame f"
  then show "decodeTxnFrame bytes = Inr f"
    by (auto simp: decodeTxnFrame_written frame_fits_def decodeTxnRecord_iff [THEN iffD2])
qed

end
