(* ===== verification/Slots.thy ===== *)
theory Slots
  imports Blocks
begin

text \<open>
  The arena header and the activation slots of \<open>codec.ts\<close>, and the choice between the two slots of
  the activation file.
\<close>

section \<open>Arena header\<close>

definition ARENA_HEADER_CHECKSUM_OFFSET :: nat where "ARENA_HEADER_CHECKSUM_OFFSET = 24"

record ArenaHeader =
  arenaExtentSize :: int
  arenaLimitsProfileVersion :: int
  arenaFormatVersion :: int

text \<open>A \<open>catch\<close> that reports any failure of the guarded call as corruption.\<close>

definition orCorrupt :: "'a res \<Rightarrow> 'a res" where
  "orCorrupt m = (case m of Inl _ \<Rightarrow> Inl CorruptStoreError | Inr x \<Rightarrow> Inr x)"

definition encodeArenaHeader :: "int \<Rightarrow> byte list res" where
  "encodeArenaHeader extSize =
     ebind (validateExtentSize extSize) (\<lambda>extSize.
       let bytes = zeros (nat ARENA_HEADER_BYTES);
           bytes = setBytes 0 ARENA_MAGIC bytes;
           bytes = setLE 4 8 FORMAT_VERSION bytes;
           bytes = setLE 4 12 LIMITS_PROFILE_VERSION bytes;
           bytes = setLE 4 16 extSize bytes
       in setChecksum ARENA_HEADER_CHECKSUM_OFFSET bytes)"

definition decodeArenaHeader :: "byte list \<Rightarrow> int option \<Rightarrow> ArenaHeader res" where
  "decodeArenaHeader bytes configuredExtentSize =
     ebind (case configuredExtentSize of None \<Rightarrow> Inr 0 | Some c \<Rightarrow> validateExtentSize c) (\<lambda>_.
     if int (length bytes) \<noteq> ARENA_HEADER_BYTES then Inl CorruptStoreError
     else
       ebind (requireMagic bytes ARENA_MAGIC) (\<lambda>_.
       ebind (requireZero bytes 20 24) (\<lambda>_.
       ebind (requireZero bytes 28 (length bytes)) (\<lambda>_.
       ebind (requireChecksum bytes ARENA_HEADER_CHECKSUM_OFFSET) (\<lambda>_.
       let formatVersion = getLE 4 bytes 8; limitsProfileVersion = getLE 4 bytes 12 in
       ebind (requireCurrentIdentity formatVersion limitsProfileVersion) (\<lambda>_.
       let extSize = getLE 4 bytes 16 in
       ebind (orCorrupt (validateExtentSize extSize)) (\<lambda>_.
       case configuredExtentSize of
         Some c \<Rightarrow>
           if c \<noteq> extSize then Inl (ExtentSizeMismatchError c extSize)
           else Inr \<lparr>arenaExtentSize = extSize, arenaLimitsProfileVersion = limitsProfileVersion,
                     arenaFormatVersion = formatVersion\<rparr>
       | None \<Rightarrow> Inr \<lparr>arenaExtentSize = extSize, arenaLimitsProfileVersion = limitsProfileVersion,
                     arenaFormatVersion = formatVersion\<rparr>)))))))"

section \<open>Activation slots\<close>

definition METADATA_HEADER_BYTES :: nat where "METADATA_HEADER_BYTES = 80"
definition ACTIVATION_SLOT_BYTES :: nat where "ACTIVATION_SLOT_BYTES = 128"
definition ACTIVATION_CHECKSUM_OFFSET :: nat where "ACTIVATION_CHECKSUM_OFFSET = 52"

fun metadataFileCode :: "MetadataFile \<Rightarrow> int" where
  "metadataFileCode MetaA = 0"
| "metadataFileCode MetaB = 1"

definition decodeMetadataFile :: "int \<Rightarrow> MetadataFile res" where
  "decodeMetadataFile value =
     (if value = 0 then Inr MetaA else if value = 1 then Inr MetaB else Inl CorruptStoreError)"

record ActivationRecord =
  actSequence :: int
  actMetadataFile :: MetadataFile
  actGeneration :: int
  actBaseEnd :: int
  actBaseDigest :: int

definition encodeActivationSlot :: "ActivationRecord \<Rightarrow> byte list res" where
  "encodeActivationSlot record =
     (if actSequence record = 0 \<or> actGeneration record = 0
         \<or> actBaseEnd record < int METADATA_HEADER_BYTES
      then Inl StoreLimitError
      else
        let bytes = zeros ACTIVATION_SLOT_BYTES;
            bytes = setBytes 0 ACTIVATION_MAGIC bytes;
            bytes = setLE 4 8 FORMAT_VERSION bytes;
            bytes = setLE 4 12 LIMITS_PROFILE_VERSION bytes
        in
        ebind (checkedU64 (actSequence record)) (\<lambda>sequence.
        let bytes = setLE 8 16 sequence bytes;
            bytes = setBytes 24 (encU8 (metadataFileCode (actMetadataFile record))) bytes in
        ebind (checkedU64 (actGeneration record)) (\<lambda>generation.
        let bytes = setLE 8 32 generation bytes in
        ebind (checkedU64 (actBaseEnd record)) (\<lambda>baseEnd.
        let bytes = setLE 8 40 baseEnd bytes in
        if \<not> isSafeInteger (actBaseDigest record) \<or> actBaseDigest record < 0
           \<or> actBaseDigest record > 0xffffffff
        then Inl StoreLimitError
        else
          let bytes = setLE 4 48 (actBaseDigest record) bytes
          in setChecksum ACTIVATION_CHECKSUM_OFFSET bytes))))"

definition decodeActivationSlot :: "byte list \<Rightarrow> ActivationRecord res" where
  "decodeActivationSlot bytes =
     (if length bytes \<noteq> ACTIVATION_SLOT_BYTES then Inl CorruptStoreError
      else
        ebind (requireMagic bytes ACTIVATION_MAGIC) (\<lambda>_.
        ebind (requireZero bytes 25 32) (\<lambda>_.
        ebind (requireZero bytes 56 (length bytes)) (\<lambda>_.
        ebind (requireChecksum bytes ACTIVATION_CHECKSUM_OFFSET) (\<lambda>_.
        ebind (requireCurrentIdentity (getLE 4 bytes 8) (getLE 4 bytes 12)) (\<lambda>_.
        let sequence = getLE 8 bytes 16; generation = getLE 8 bytes 32; baseEnd = getLE 8 bytes 40 in
        if sequence = 0 \<or> generation = 0 \<or> baseEnd < int METADATA_HEADER_BYTES
        then Inl CorruptStoreError
        else
          ebind (decodeMetadataFile (getLE 1 bytes 24)) (\<lambda>metadataFile.
            Inr \<lparr>actSequence = sequence, actMetadataFile = metadataFile, actGeneration = generation,
                 actBaseEnd = baseEnd, actBaseDigest = getLE 4 bytes 48\<rparr>)))))))"

definition tryDecodeActivationSlot :: "byte list \<Rightarrow> ActivationRecord option res" where
  "tryDecodeActivationSlot bytes =
     (case decodeActivationSlot bytes of
        Inr record \<Rightarrow> Inr (Some record)
      | Inl CorruptStoreError \<Rightarrow> Inr None
      | Inl cause \<Rightarrow> Inl cause)"

text \<open>The selected record and, when both slots are valid, the other one.\<close>

definition selectActivationPair ::
  "byte list \<Rightarrow> byte list \<Rightarrow> (ActivationRecord \<times> ActivationRecord option) res" where
  "selectActivationPair leftBytes rightBytes =
     ebind (tryDecodeActivationSlot leftBytes) (\<lambda>left.
     ebind (tryDecodeActivationSlot rightBytes) (\<lambda>right.
       case (left, right) of
         (None, None) \<Rightarrow> Inl CorruptStoreError
       | (None, Some r) \<Rightarrow> Inr (r, None)
       | (Some l, None) \<Rightarrow> Inr (l, None)
       | (Some l, Some r) \<Rightarrow>
           let older = (if actSequence l < actSequence r then l else r);
               newer = (if actSequence l < actSequence r then r else l) in
           if actSequence newer \<noteq> actSequence older + 1
              \<or> actMetadataFile newer = actMetadataFile older
           then Inl CorruptStoreError
           else Inr (newer, Some older)))"

definition selectActivation :: "byte list \<Rightarrow> byte list \<Rightarrow> ActivationRecord res" where
  "selectActivation leftBytes rightBytes =
     ebind (selectActivationPair leftBytes rightBytes) (\<lambda>(selected, _). Inr selected)"

section \<open>The images\<close>

definition encArena :: "int \<Rightarrow> byte list" where
  "encArena extSize = seal (ARENA_MAGIC @ leBytes 4 FORMAT_VERSION @ leBytes 4 LIMITS_PROFILE_VERSION
     @ leBytes 4 extSize @ zeros 4) (zeros 8164)"

definition slotHead :: "ActivationRecord \<Rightarrow> byte list" where
  "slotHead r = ACTIVATION_MAGIC @ leBytes 4 FORMAT_VERSION @ leBytes 4 LIMITS_PROFILE_VERSION
     @ leBytes 8 (actSequence r) @ encU8 (metadataFileCode (actMetadataFile r)) @ zeros 7
     @ leBytes 8 (actGeneration r) @ leBytes 8 (actBaseEnd r) @ leBytes 4 (actBaseDigest r)"

definition encSlot :: "ActivationRecord \<Rightarrow> byte list" where
  "encSlot r = seal (slotHead r) (zeros 72)"

definition slot_fits :: "ActivationRecord \<Rightarrow> bool" where
  "slot_fits r \<longleftrightarrow> fits 8 (actSequence r) \<and> actSequence r \<noteq> 0 \<and> fits 8 (actGeneration r) \<and> actGeneration r \<noteq> 0
     \<and> fits 8 (actBaseEnd r) \<and> 80 \<le> actBaseEnd r \<and> fits 4 (actBaseDigest r)"

lemma length_slot [simp]: "length (slotHead r) = 52" "length (encSlot r) = 128" "length (encArena e) = 8192"
  by (simp_all add: slotHead_def encSlot_def encArena_def)

lemma extent_size_fits: "extent_size_ok e \<Longrightarrow> fits 4 e"
  by (simp add: extent_size_ok_def fits_def MIN_EXTENT_BYTES_def MAX_EXTENT_BYTES_def)

lemma encodeArenaHeader_eq:
  "encodeArenaHeader e = (if extent_size_ok e then Inr (encArena e) else Inl TypeError)"
proof (cases "extent_size_ok e")
  case True
  have m: "setBytes 0 ARENA_MAGIC (zeros 8192) = ARENA_MAGIC @ zeros 8184"
    using setBytes_zeros [of 0 "[]" 0 ARENA_MAGIC 8192] by (simp add: zeros_simps)
  have h: "setLE 4 16 e (setLE 4 12 LIMITS_PROFILE_VERSION (setLE 4 8 FORMAT_VERSION (ARENA_MAGIC @ zeros 8184)))
    = (ARENA_MAGIC @ leBytes 4 FORMAT_VERSION @ leBytes 4 LIMITS_PROFILE_VERSION @ leBytes 4 e @ zeros 4)
      @ zeros 4 @ zeros 8164"
    using zeros_add [of 4 8168] zeros_add [of 4 8164]
    by ((subst setLE_next, simp, simp)+) simp
  have "setChecksum 24 ((ARENA_MAGIC @ leBytes 4 FORMAT_VERSION @ leBytes 4 LIMITS_PROFILE_VERSION
      @ leBytes 4 e @ zeros 4) @ zeros 4 @ zeros 8164) = Inr (encArena e)"
    unfolding encArena_def by (rule setChecksum_seal) simp_all
  with True m h show ?thesis
    by (simp add: encodeArenaHeader_def validateExtentSize_Inr [THEN iffD2] ARENA_HEADER_BYTES_def
        ARENA_HEADER_CHECKSUM_OFFSET_def)
next
  case False
  then have "validateExtentSize e = Inl TypeError"
    using validateExtentSize_Inr [of e e] by (auto simp: validateExtentSize_def split: if_splits)
  with False show ?thesis by (simp add: encodeArenaHeader_def)
qed

lemma encodeActivationSlot_ok:
  assumes "slot_fits r"
  shows "encodeActivationSlot r = Inr (encSlot r)"
proof -
  have u: "u64 (actSequence r)" "u64 (actGeneration r)" "u64 (actBaseEnd r)"
    using assms by (simp_all add: slot_fits_def u64_fits)
  have digest: "isSafeInteger (actBaseDigest r)" "0 \<le> actBaseDigest r" "actBaseDigest r \<le> 0xffffffff"
    using assms by (simp_all add: slot_fits_def fits_def isSafeInteger_def MAX_SAFE_INTEGER_def)
  have m: "setBytes 0 ACTIVATION_MAGIC (zeros 128) = ACTIVATION_MAGIC @ zeros 120"
    using setBytes_zeros [of 0 "[]" 0 ACTIVATION_MAGIC 128] by (simp add: zeros_simps)
  define pre where "pre = ACTIVATION_MAGIC @ leBytes 4 FORMAT_VERSION @ leBytes 4 LIMITS_PROFILE_VERSION
    @ leBytes 8 (actSequence r)"
  define byte where "byte = encU8 (metadataFileCode (actMetadataFile r)) @ zeros 7"
  have front: "setLE 8 16 (actSequence r) (setLE 4 12 LIMITS_PROFILE_VERSION (setLE 4 8 FORMAT_VERSION
      (ACTIVATION_MAGIC @ zeros 120))) = pre @ zeros 104"
    by ((subst setLE_next, simp, simp)+) (simp add: pre_def)
  have mid: "setBytes 24 (encU8 (metadataFileCode (actMetadataFile r))) (pre @ zeros 104) = (pre @ byte) @ zeros 96"
    using setBytes_zeros [of 24 pre 0 "encU8 (metadataFileCode (actMetadataFile r))" 104] zeros_add [of 7 96]
    by (simp add: zeros_simps pre_def byte_def)
  have len: "length (pre @ byte) = 32" by (simp add: pre_def byte_def)
  have rear: "setLE 4 48 (actBaseDigest r) (setLE 8 40 (actBaseEnd r) (setLE 8 32 (actGeneration r)
      ((pre @ byte) @ zeros 96))) = slotHead r @ zeros 4 @ zeros 72"
    using len zeros_add [of 4 72]
    by ((subst setLE_next, simp, simp)+) (simp add: slotHead_def pre_def byte_def)
  note head = rear [folded mid, folded front]
  have "setChecksum 52 (slotHead r @ zeros 4 @ zeros 72) = Inr (encSlot r)"
    unfolding encSlot_def by (rule setChecksum_seal) simp_all
  with m head u digest assms show ?thesis
    by (simp add: encodeActivationSlot_def ACTIVATION_SLOT_BYTES_def METADATA_HEADER_BYTES_def slot_fits_def
        ACTIVATION_CHECKSUM_OFFSET_def Let_def)
qed

section \<open>Decoding accepts images only\<close>

lemma take_prefix: "bytes = pre @ rest \<Longrightarrow> length pre = n \<Longrightarrow> take n bytes = pre"
  by auto

lemma metadataFile_code: "decodeMetadataFile v = Inr m \<longleftrightarrow> v = metadataFileCode m"
  by (cases m) (auto simp: decodeMetadataFile_def)

lemma code_fits [simp]: "fits (Suc 0) (metadataFileCode m)"
  by (cases m) simp_all

lemma slot_fields:
  fixes post :: "byte list"
  assumes "slot_fits r"
  defines "slot \<equiv> slotHead r @ post"
  shows "take 8 slot = ACTIVATION_MAGIC" "getLE 4 slot 8 = FORMAT_VERSION" "getLE 4 slot 12 = LIMITS_PROFILE_VERSION"
    "getLE 8 slot 16 = actSequence r" "getLE 1 slot 24 = metadataFileCode (actMetadataFile r)"
    "getLE 8 slot 32 = actGeneration r" "getLE 8 slot 40 = actBaseEnd r" "getLE 4 slot 48 = actBaseDigest r"
    "drop 25 slot = zeros 7 @ drop 32 slot"
  using assms version_fits leValue_fits [of "Suc 0"]
  by (simp_all add: getLE_def slotHead_def leValue_fits slot_fits_def encU8_def del: leBytes.simps)

lemma slot_split:
  assumes "requireMagic bytes ACTIVATION_MAGIC = Inr ()" and "length bytes = 128"
    and "getLE 4 bytes 8 = FORMAT_VERSION" and "getLE 4 bytes 12 = LIMITS_PROFILE_VERSION"
    and "drop 25 bytes = zeros 7 @ drop 32 bytes"
    and "getLE 1 bytes 24 = metadataFileCode m"
  shows "bytes = slotHead \<lparr>actSequence = getLE 8 bytes 16, actMetadataFile = m, actGeneration = getLE 8 bytes 32,
      actBaseEnd = getLE 8 bytes 40, actBaseDigest = getLE 4 bytes 48\<rparr> @ drop 52 bytes"
proof -
  have f: "drop 8 bytes = leBytes 4 (getLE 4 bytes 8) @ drop 12 bytes"
    "drop 12 bytes = leBytes 4 (getLE 4 bytes 12) @ drop 16 bytes"
    "drop 16 bytes = leBytes 8 (getLE 8 bytes 16) @ drop 24 bytes"
    "drop 24 bytes = leBytes 1 (getLE 1 bytes 24) @ drop 25 bytes"
    "drop 32 bytes = leBytes 8 (getLE 8 bytes 32) @ drop 40 bytes"
    "drop 40 bytes = leBytes 8 (getLE 8 bytes 40) @ drop 48 bytes"
    "drop 48 bytes = leBytes 4 (getLE 4 bytes 48) @ drop 52 bytes"
    by (rule drop_field; use assms(2) in simp)+
  obtain rest where r: "bytes = ACTIVATION_MAGIC @ rest" using assms(1) by (auto simp: requireMagic_iff)
  then have rest: "drop 8 bytes = rest" by simp
  show ?thesis
    unfolding slotHead_def encU8_def
    by (subst r, simp only: rest [symmetric] f assms(3-6) append.assoc ActivationRecord.simps)
qed

lemma decodeActivationSlot_iff: "decodeActivationSlot bytes = Inr r \<longleftrightarrow> slot_fits r \<and> bytes = encSlot r"
proof
  assume "decodeActivationSlot bytes = Inr r"
  then obtain m where len: "length bytes = 128" and d:
    "requireMagic bytes ACTIVATION_MAGIC = Inr ()" "drop 25 bytes = zeros 7 @ drop 32 bytes"
    "drop 56 bytes = zeros 72" "requireChecksum bytes 52 = Inr ()"
    "getLE 4 bytes 8 = FORMAT_VERSION" "getLE 4 bytes 12 = LIMITS_PROFILE_VERSION"
    "getLE 8 bytes 16 \<noteq> 0" "getLE 8 bytes 32 \<noteq> 0" "80 \<le> getLE 8 bytes 40"
    "getLE 1 bytes 24 = metadataFileCode m"
    and r: "r = \<lparr>actSequence = getLE 8 bytes 16, actMetadataFile = m, actGeneration = getLE 8 bytes 32,
      actBaseEnd = getLE 8 bytes 40, actBaseDigest = getLE 4 bytes 48\<rparr>"
    by (auto simp: decodeActivationSlot_def ACTIVATION_SLOT_BYTES_def METADATA_HEADER_BYTES_def
        ACTIVATION_CHECKSUM_OFFSET_def Let_def ebind_eq_Inr requireCurrentIdentity_def metadataFile_code
        requireZero_iff [of 25 7] requireZero_iff [of 56 72] split: if_splits)
  have head: "bytes = slotHead r @ drop 52 bytes"
    unfolding r by (rule slot_split [OF d(1) len d(5,6,2,10)])
  have "bytes = seal (take 52 bytes) (drop 56 bytes)"
    using requireChecksum_sound [OF d(4)] len by simp
  moreover have "take 52 bytes = slotHead r" using head by (rule take_prefix) simp
  moreover have "slot_fits r"
    using d(7-9) getLE_fits [of 16 8 bytes] getLE_fits [of 32 8 bytes] getLE_fits [of 40 8 bytes]
      getLE_fits [of 48 4 bytes] len by (simp add: slot_fits_def r)
  ultimately show "slot_fits r \<and> bytes = encSlot r" using d(3) by (simp add: encSlot_def)
next
  assume "slot_fits r \<and> bytes = encSlot r"
  then have fits: "slot_fits r" and bytes: "bytes = encSlot r" by simp_all
  define c where "c = leBytes 4 (uint (crc32 (slotHead r @ zeros 4 @ zeros 72)))"
  have c: "length c = 4" "bytes = slotHead r @ c @ zeros 72" by (simp_all add: bytes encSlot_def seal_def c_def)
  note f = slot_fields [OF fits, of "c @ zeros 72", folded c(2)]
  have "requireMagic bytes ACTIVATION_MAGIC = Inr ()" using f(1) by (simp add: requireMagic_def)
  moreover have "requireZero bytes 25 32 = Inr ()" "requireZero bytes 56 128 = Inr ()"
    using requireZero_iff [of 25 7 32 bytes] requireZero_iff [of 56 72 128 bytes] f(9) c by simp_all
  moreover have "requireChecksum bytes 52 = Inr ()"
    unfolding bytes encSlot_def by (rule requireChecksum_seal) simp_all
  ultimately show "decodeActivationSlot bytes = Inr r"
    using f fits bytes metadataFile_code [of _ "actMetadataFile r", THEN iffD2, OF refl]
    by (simp add: decodeActivationSlot_def ACTIVATION_SLOT_BYTES_def METADATA_HEADER_BYTES_def
        ACTIVATION_CHECKSUM_OFFSET_def requireCurrentIdentity_def slot_fits_def Let_def)
qed

lemma requireMagic_Inl: "requireMagic bytes magic = Inl e \<Longrightarrow> e = CorruptStoreError"
  by (simp add: requireMagic_def split: if_splits)

text \<open>Everything before the checksum reports corruption, so a bad checksum does, whatever else is wrong.\<close>

lemma decodeActivationSlot_corrupt:
  assumes "length bytes \<noteq> 128 \<or> requireChecksum bytes 52 \<noteq> Inr ()"
  shows "decodeActivationSlot bytes = Inl CorruptStoreError"
proof (cases "length bytes = 128")
  case True
  with assms obtain e where "requireChecksum bytes 52 = Inl e" by (cases "requireChecksum bytes 52") auto
  with requireChecksum_Inl [OF this] True show ?thesis
    by (auto simp: decodeActivationSlot_def ACTIVATION_SLOT_BYTES_def ACTIVATION_CHECKSUM_OFFSET_def ebind_def
        dest: requireMagic_Inl requireZero_Inl split: sum.split)
qed (simp add: decodeActivationSlot_def ACTIVATION_SLOT_BYTES_def)

lemma encSlot_checksum: "requireChecksum (encSlot r) 52 = Inr ()"
  unfolding encSlot_def by (rule requireChecksum_seal) simp_all

lemma decodeActivationSlot_changed:
  assumes "i < 128" and "b \<noteq> encSlot r ! i"
  shows "decodeActivationSlot ((encSlot r)[i := b]) = Inl CorruptStoreError"
proof -
  have "requireChecksum ((encSlot r)[i := b]) 52 \<noteq> Inr ()"
    using checksum_one_byte [OF encSlot_checksum] assms by auto
  then show ?thesis by (rule decodeActivationSlot_corrupt [OF disjI2])
qed

lemma tryDecode_eqs:
  "slot_fits r \<Longrightarrow> tryDecodeActivationSlot (encSlot r) = Inr (Some r)"
  "decodeActivationSlot bytes = Inl CorruptStoreError \<Longrightarrow> tryDecodeActivationSlot bytes = Inr None"
  by (simp_all add: tryDecodeActivationSlot_def decodeActivationSlot_iff [THEN iffD2])

section \<open>The arena header\<close>

lemma decodeArenaHeader_iff:
  "decodeArenaHeader bytes None = Inr h \<longleftrightarrow>
     (\<exists>e. extent_size_ok e \<and> bytes = encArena e
        \<and> h = \<lparr>arenaExtentSize = e, arenaLimitsProfileVersion = 1, arenaFormatVersion = 2\<rparr>)"
proof
  assume "decodeArenaHeader bytes None = Inr h"
  then have len: "length bytes = 8192" and d: "requireMagic bytes ARENA_MAGIC = Inr ()"
    "drop 20 bytes = zeros 4 @ drop 24 bytes" "drop 28 bytes = zeros 8164"
    "requireChecksum bytes 24 = Inr ()"
    "getLE 4 bytes 8 = FORMAT_VERSION" "getLE 4 bytes 12 = LIMITS_PROFILE_VERSION"
    and e: "extent_size_ok (getLE 4 bytes 16)"
    and h: "h = \<lparr>arenaExtentSize = getLE 4 bytes 16, arenaLimitsProfileVersion = getLE 4 bytes 12,
        arenaFormatVersion = getLE 4 bytes 8\<rparr>"
    by (auto simp: decodeArenaHeader_def ARENA_HEADER_BYTES_def ARENA_HEADER_CHECKSUM_OFFSET_def Let_def
        ebind_eq_Inr requireCurrentIdentity_def orCorrupt_def validateExtentSize_Inr
        requireZero_iff [of 20 4] requireZero_iff [of 28 8164] split: if_splits sum.splits)
  have f: "drop 8 bytes = leBytes 4 (getLE 4 bytes 8) @ drop 12 bytes"
    "drop 12 bytes = leBytes 4 (getLE 4 bytes 12) @ drop 16 bytes"
    "drop 16 bytes = leBytes 4 (getLE 4 bytes 16) @ drop 20 bytes"
    by (rule drop_field; use len in simp)+
  obtain rest where r: "bytes = ARENA_MAGIC @ rest" using d(1) by (auto simp: requireMagic_iff)
  then have rest: "drop 8 bytes = rest" by simp
  have "bytes = (ARENA_MAGIC @ leBytes 4 FORMAT_VERSION @ leBytes 4 LIMITS_PROFILE_VERSION
      @ leBytes 4 (getLE 4 bytes 16) @ zeros 4) @ drop 24 bytes"
    by (subst r, simp only: rest [symmetric] f d(2,5,6) append.assoc)
  then have "take 24 bytes = ARENA_MAGIC @ leBytes 4 FORMAT_VERSION @ leBytes 4 LIMITS_PROFILE_VERSION
      @ leBytes 4 (getLE 4 bytes 16) @ zeros 4"
    by (rule take_prefix) simp
  moreover have "bytes = seal (take 24 bytes) (drop 28 bytes)"
    using requireChecksum_sound [OF d(4)] len by simp
  ultimately have "bytes = encArena (getLE 4 bytes 16)" using d(3) by (simp add: encArena_def)
  with e h d(5,6) show "\<exists>e. extent_size_ok e \<and> bytes = encArena e
        \<and> h = \<lparr>arenaExtentSize = e, arenaLimitsProfileVersion = 1, arenaFormatVersion = 2\<rparr>"
    by (auto simp: FORMAT_VERSION_def LIMITS_PROFILE_VERSION_def)
next
  assume "\<exists>e. extent_size_ok e \<and> bytes = encArena e
        \<and> h = \<lparr>arenaExtentSize = e, arenaLimitsProfileVersion = 1, arenaFormatVersion = 2\<rparr>"
  then obtain e where e: "extent_size_ok e" "bytes = encArena e"
    and h: "h = \<lparr>arenaExtentSize = e, arenaLimitsProfileVersion = 1, arenaFormatVersion = 2\<rparr>" by blast
  define pre where "pre = ARENA_MAGIC @ leBytes 4 FORMAT_VERSION @ leBytes 4 LIMITS_PROFILE_VERSION
      @ leBytes 4 e @ zeros 4"
  define c where "c = leBytes 4 (uint (crc32 (pre @ zeros 4 @ zeros 8164)))"
  have c: "length c = 4" "bytes = pre @ c @ zeros 8164" "length pre = 24"
    by (simp_all add: e encArena_def seal_def c_def pre_def)
  have f: "take 8 bytes = ARENA_MAGIC" "getLE 4 bytes 8 = FORMAT_VERSION" "getLE 4 bytes 12 = LIMITS_PROFILE_VERSION"
    "getLE 4 bytes 16 = e" "drop 20 bytes = zeros 4 @ drop 24 bytes"
    using extent_size_fits [OF e(1)] version_fits by (simp_all add: c pre_def getLE_def leValue_fits)
  have "requireMagic bytes ARENA_MAGIC = Inr ()" using f(1) by (simp add: requireMagic_def)
  moreover have "requireZero bytes 20 24 = Inr ()" "requireZero bytes 28 8192 = Inr ()"
    using requireZero_iff [of 20 4 24 bytes] requireZero_iff [of 28 8164 8192 bytes] f(5) c by simp_all
  moreover have "requireChecksum bytes 24 = Inr ()"
    unfolding e(2) encArena_def by (rule requireChecksum_seal) simp_all
  ultimately show "decodeArenaHeader bytes None = Inr h"
    using f e h by (simp add: decodeArenaHeader_def ARENA_HEADER_BYTES_def ARENA_HEADER_CHECKSUM_OFFSET_def
        requireCurrentIdentity_def orCorrupt_def validateExtentSize_Inr [THEN iffD2] Let_def
        FORMAT_VERSION_def LIMITS_PROFILE_VERSION_def)
qed

end
