(* ===== verification/Canonical.thy ===== *)
theory Canonical
  imports Utf8 "HOL-Library.Multiset" "HOL-Library.List_Lexorder"
begin

text \<open>
  The canonical order of the metadata base: \<open>compareBigint\<close>, \<open>compareUtf8Names\<close> and
  \<open>sortIfNeeded\<close> of \<open>codec.ts\<close>. Names are compared by code points, which for well-formed strings is
  the lexicographic order of their scalar values. \<open>Array.prototype.sort\<close> is a stable sort.
\<close>

section \<open>Comparisons\<close>

definition compareBigint :: "int \<Rightarrow> int \<Rightarrow> int" where
  "compareBigint left right = (if left < right then -1 else if left > right then 1 else 0)"

definition codePointAt :: "js_string \<Rightarrow> nat \<Rightarrow> nat" where
  "codePointAt s index =
     (if highSurrogate (s ! index) \<and> index + 1 < length s \<and> lowSurrogate (s ! (index + 1))
      then pairPoint (s ! index) (s ! (index + 1)) else unat (s ! index))"

function compareFrom :: "js_string \<Rightarrow> js_string \<Rightarrow> nat \<Rightarrow> nat \<Rightarrow> int" where
  "compareFrom left right leftIndex rightIndex =
     (if leftIndex < length left \<and> rightIndex < length right then
        let leftPoint = codePointAt left leftIndex; rightPoint = codePointAt right rightIndex in
        if leftPoint \<noteq> rightPoint then int leftPoint - int rightPoint
        else compareFrom left right (leftIndex + (if leftPoint > 0xffff then 2 else 1))
               (rightIndex + (if rightPoint > 0xffff then 2 else 1))
      else int (length left) - int (length right))"
  by pat_completeness auto
termination
  by (relation "measure (\<lambda>(l, r, i, j). length l - i)") auto

declare compareFrom.simps [simp del]

definition compareUtf8Names :: "js_string \<Rightarrow> js_string \<Rightarrow> int" where
  "compareUtf8Names left right = compareFrom left right 0 0"

section \<open>Sorting\<close>

text \<open>\<open>Array.prototype.sort\<close> with a comparator: the stable insertion sort has its result.\<close>

fun insertBy :: "('a \<Rightarrow> 'a \<Rightarrow> int) \<Rightarrow> 'a \<Rightarrow> 'a list \<Rightarrow> 'a list" where
  "insertBy compare x [] = [x]"
| "insertBy compare x (y # ys) = (if compare x y \<le> 0 then x # y # ys else y # insertBy compare x ys)"

definition sortBy :: "('a \<Rightarrow> 'a \<Rightarrow> int) \<Rightarrow> 'a list \<Rightarrow> 'a list" where
  "sortBy compare xs = foldr (insertBy compare) xs []"

fun ascending :: "('a \<Rightarrow> 'a \<Rightarrow> int) \<Rightarrow> 'a list \<Rightarrow> bool" where
  "ascending compare (x # y # ys) = (\<not> compare x y > 0 \<and> ascending compare (y # ys))"
| "ascending compare _ = True"

definition sortIfNeeded :: "('a \<Rightarrow> 'a \<Rightarrow> int) \<Rightarrow> 'a list \<Rightarrow> 'a list" where
  "sortIfNeeded compare values = (if ascending compare values then values else sortBy compare values)"

text \<open>A comparator that represents the order of a key.\<close>

definition compares :: "('a \<Rightarrow> 'a \<Rightarrow> int) \<Rightarrow> ('a \<Rightarrow> 'k :: linorder) \<Rightarrow> 'a set \<Rightarrow> bool" where
  "compares compare key A \<longleftrightarrow> (\<forall>x\<in>A. \<forall>y\<in>A. compare x y \<le> 0 \<longleftrightarrow> key x \<le> key y)"

lemma compares_subset: "compares compare key A \<Longrightarrow> B \<subseteq> A \<Longrightarrow> compares compare key B"
  unfolding compares_def by blast

lemma mset_insertBy [simp]: "mset (insertBy compare x ys) = add_mset x (mset ys)"
  by (induction ys) simp_all

lemma mset_sortBy [simp]: "mset (sortBy compare xs) = mset xs"
  unfolding sortBy_def by (induction xs) simp_all

lemma mset_sortIfNeeded [simp]: "mset (sortIfNeeded compare xs) = mset xs"
  by (simp add: sortIfNeeded_def)

lemma set_sortIfNeeded [simp]: "set (sortIfNeeded compare xs) = set xs"
  by (rule mset_eq_setD) simp

lemma length_sortIfNeeded [simp]: "length (sortIfNeeded compare xs) = length xs"
  by (rule mset_eq_length) simp

lemma distinct_sortIfNeeded [simp]: "distinct (sortIfNeeded compare xs) = distinct xs"
  by (rule mset_eq_imp_distinct_iff) simp

lemma sorted_insertBy:
  "compares compare key (insert x (set ys)) \<Longrightarrow> sorted (map key ys) \<Longrightarrow> sorted (map key (insertBy compare x ys))"
proof (induction ys)
  case (Cons y ys)
  have sub: "compares compare key (insert x (set ys))" using Cons.prems(1) by (rule compares_subset) auto
  have xy: "compare x y \<le> 0 \<longleftrightarrow> key x \<le> key y" using Cons.prems(1) by (auto simp: compares_def)
  have set: "set (insertBy compare x ys) = insert x (set ys)"
    by (metis mset_insertBy set_mset_add_mset_insert set_mset_mset)
  show ?case
  proof (cases "compare x y \<le> 0")
    case True
    with xy Cons.prems(2) show ?thesis by auto
  next
    case False
    with xy Cons.IH [OF sub] Cons.prems(2) set show ?thesis by auto
  qed
qed simp

lemma sorted_sortBy: "compares compare key (set xs) \<Longrightarrow> sorted (map key (sortBy compare xs))"
proof (induction xs)
  case (Cons x xs)
  have "compares compare key (set xs)" using Cons.prems by (rule compares_subset) auto
  then have "sorted (map key (sortBy compare xs))" by (rule Cons.IH)
  moreover have "set (sortBy compare xs) = set xs" by (rule mset_eq_setD) simp
  ultimately show ?case using Cons.prems by (simp add: sortBy_def sorted_insertBy)
qed (simp add: sortBy_def)

lemma ascending_sorted: "compares compare key (set xs) \<Longrightarrow> ascending compare xs \<longleftrightarrow> sorted (map key xs)"
proof (induction compare xs rule: ascending.induct)
  case (1 compare x y ys)
  have "compares compare key (set (y # ys))" using 1(2) by (rule compares_subset) auto
  with 1 have "ascending compare (y # ys) \<longleftrightarrow> sorted (map key (y # ys))" by simp
  moreover have "\<not> compare x y > 0 \<longleftrightarrow> key x \<le> key y" using 1(2) by (auto simp: compares_def not_less)
  ultimately show ?case by (auto intro: order_trans)
qed simp_all

lemma sorted_sortIfNeeded: "compares compare key (set xs) \<Longrightarrow> sorted (map key (sortIfNeeded compare xs))"
  by (simp add: sortIfNeeded_def ascending_sorted sorted_sortBy)

lemma sortIfNeeded_id: "compares compare key (set xs) \<Longrightarrow> sorted (map key xs) \<Longrightarrow> sortIfNeeded compare xs = xs"
  by (simp add: sortIfNeeded_def ascending_sorted)

section \<open>The comparators represent orders\<close>

lemma compares_bigint: "compares (\<lambda>x y. compareBigint (f x) (f y)) f A"
  by (simp add: compares_def compareBigint_def)

lemma scalarValues_from:
  assumes "utf8_ok (drop i s)" and "i < length s"
  shows "scalarValues (drop i s) = codePointAt s i # scalarValues (drop (i + (if codePointAt s i > 0xffff then 2 else 1)) s)
    \<and> utf8_ok (drop (i + (if codePointAt s i > 0xffff then 2 else 1)) s)"
proof -
  obtain u rest where d: "drop i s = u # rest" "u = s ! i" "rest = drop (i + 1) s"
    using assms(2) by (metis Cons_nth_drop_Suc Suc_eq_plus1)
  show ?thesis
  proof (cases "highSurrogate u")
    case False
    then have "\<not> lowSurrogate u" using assms(1) d(1) by (auto simp: utf8_ok_eqs)
    with False assms(1) d unat_unit_lt [of u] show ?thesis
      by (simp add: utf8_ok_eqs scalarValues_eqs codePointAt_def)
  next
    case True
    then obtain v more where r: "rest = v # more" "lowSurrogate v"
      using assms(1) d(1) utf8_ok_eqs(1,2) [OF True] by (cases rest) auto
    have l: "drop i s = u # v # more" using d(1) r(1) by simp
    then have "length (drop i s) = Suc (Suc (length more))" by simp
    then have "i + 1 < length s" by simp
    moreover from this l have "s ! (i + 1) = v" by (metis nth_Cons_0 nth_Cons_Suc nth_drop Suc_eq_plus1 less_imp_le_nat add_lessD1 One_nat_def)
    moreover have "drop (i + 2) s = more" using l by (metis drop_drop drop_Suc_Cons drop0 numeral_2_eq_2 add.commute)
    ultimately have v: "i + 1 < length s" "s ! (i + 1) = v" "drop (i + 2) s = more" by simp_all
    with True r d assms(1) pairPoint_range [OF True r(2)] show ?thesis
      by (simp add: utf8_ok_eqs scalarValues_eqs codePointAt_def)
  qed
qed

lemma compareFrom_end:
  "\<not> (i < length l \<and> j < length r) \<Longrightarrow> compareFrom l r i j = int (length l) - int (length r)"
  by (subst compareFrom.simps) (simp only: if_False)

lemma compareFrom_order:
  assumes "utf8_ok (drop i l)" and "utf8_ok (drop i r)" and "i \<le> length l" and "i \<le> length r"
  shows "(compareFrom l r i i < 0 \<longleftrightarrow> scalarValues (drop i l) < scalarValues (drop i r))
    \<and> (compareFrom l r i i = 0 \<longleftrightarrow> scalarValues (drop i l) = scalarValues (drop i r))"
  using assms
proof (induction "length l - i" arbitrary: i rule: less_induct)
  case less
  have ne: "scalarValues (drop i s) \<noteq> []" if "utf8_ok (drop i s)" "i < length s" for s
    using scalarValues_from [OF that] by simp
  show ?case
  proof (cases "i < length l \<and> i < length r")
    case False
    then consider "i = length l" "i = length r" | "i = length l" "i < length r" | "i < length l" "i = length r"
      using less.prems by linarith
    then show ?thesis
      using ne [of l] ne [of r] less.prems by cases (auto simp: compareFrom_end neq_Nil_conv)
  next
    case True
    let ?p = "codePointAt l i" and ?q = "codePointAt r i"
    note l = scalarValues_from [OF less.prems(1) True [THEN conjunct1]]
      and r = scalarValues_from [OF less.prems(2) True [THEN conjunct2]]
    show ?thesis
    proof (cases "?p = ?q")
      case False
      with True have "compareFrom l r i i = int ?p - int ?q" by (subst compareFrom.simps) (simp add: Let_def)
      with False l r show ?thesis by auto
    next
      case eq: True
      let ?i = "i + (if ?p > 0xffff then 2 else 1)"
      have step: "compareFrom l r i i = compareFrom l r ?i ?i"
        using True eq by (subst compareFrom.simps) (simp add: Let_def)
      have bound: "?i \<le> length s" if "i < length s" "codePointAt s i = ?p" for s
        using that unat_unit_lt [of "s ! i"] by (auto simp: codePointAt_def split: if_splits)
      have "(compareFrom l r ?i ?i < 0 \<longleftrightarrow> scalarValues (drop ?i l) < scalarValues (drop ?i r))
          \<and> (compareFrom l r ?i ?i = 0 \<longleftrightarrow> scalarValues (drop ?i l) = scalarValues (drop ?i r))"
        using True l r eq bound [of l] bound [of r] by (intro less.hyps) auto
      with l r eq step show ?thesis by simp
    qed
  qed
qed

lemma scalarValues_inj: "utf8_ok a \<Longrightarrow> utf8_ok b \<Longrightarrow> scalarValues a = scalarValues b \<longleftrightarrow> a = b"
  by (metis scalarValues_ok)

lemma compareUtf8Names_order:
  assumes "utf8_ok l" and "utf8_ok r"
  shows "compareUtf8Names l r < 0 \<longleftrightarrow> scalarValues l < scalarValues r"
    and "compareUtf8Names l r \<le> 0 \<longleftrightarrow> scalarValues l \<le> scalarValues r"
    and "compareUtf8Names l r = 0 \<longleftrightarrow> l = r"
  using compareFrom_order [of 0 l r] assms scalarValues_inj [OF assms]
  by (auto simp: compareUtf8Names_def le_less)

lemma compares_names:
  "\<forall>x\<in>A. utf8_ok (f x) \<Longrightarrow> compares (\<lambda>x y. compareUtf8Names (f x) (f y)) (\<lambda>x. scalarValues (f x)) A"
  by (simp add: compares_def compareUtf8Names_order)

end
