(* ===== verification/MetadataBase.thy ===== *)
theory MetadataBase
  imports Slots Canonical Repack
begin

text \<open>
  The metadata base of \<open>codec.ts\<close>: an 80-byte sealed header and a payload with the inode table in id
  order, the children of a directory in name order, and the allocator's available and quarantined
  extents in id order. Each loop of the decoder checks that order as it reads.
\<close>

definition METADATA_HEADER_CHECKSUM_OFFSET :: nat where "METADATA_HEADER_CHECKSUM_OFFSET = 64"

section \<open>Encoding\<close>

definition writeChild :: "js_string \<times> int \<Rightarrow> BinaryWriter \<Rightarrow> BinaryWriter res" where
  "writeChild child =
     andThen (writeValidatedString (utf8Encode (fst child))) (writeValidatedU64 (snd child))"

definition sortChildren :: "(js_string \<times> int) list \<Rightarrow> (js_string \<times> int) list" where
  "sortChildren = sortIfNeeded (\<lambda>l r. compareUtf8Names (fst l) (fst r))"

fun inodeKind :: "InodeBody \<Rightarrow> int" where
  "inodeKind (Directory _) = 0"
| "inodeKind (File _ _) = 1"
| "inodeKind (Symlink _) = 2"

definition writeBody :: "InodeBody \<Rightarrow> BinaryWriter \<Rightarrow> BinaryWriter res" where
  "writeBody content =
     (case content of
        Directory entries \<Rightarrow>
          let sorted = sortChildren entries in
          andThen (writeU32 (int (length sorted))) (fold_res writeChild sorted)
      | Symlink target \<Rightarrow> writeSymlinkTarget target
      | File fsize extents \<Rightarrow>
          andThen (writeValidatedU64 fsize)
            (andThen (writeU32 (int (length extents))) (fold_res writeValidatedU64 extents)))"

definition writeInode :: "Inode \<Rightarrow> BinaryWriter \<Rightarrow> BinaryWriter res" where
  "writeInode inode =
     andThen (writeValidatedU64 (inodeId inode))
    (andThen (writeU8 (inodeKind (body inode)))
    (andThen (writeU32 (imode inode))
    (andThen (writeValidatedU64 (atimeMs inode))
    (andThen (writeValidatedU64 (mtimeMs inode))
    (andThen (writeValidatedU64 (ctimeMs inode)) (writeBody (body inode)))))))"

definition writeQuarantine :: "int \<times> int option \<Rightarrow> BinaryWriter \<Rightarrow> BinaryWriter res" where
  "writeQuarantine entry =
     andThen (writeValidatedU64 (fst entry))
       (writeValidatedU64 (case snd entry of None \<Rightarrow> 0 | Some stamp \<Rightarrow> stamp))"

definition sortInodes :: "(int \<times> Inode) list \<Rightarrow> Inode list" where
  "sortInodes table = sortIfNeeded (\<lambda>l r. compareBigint (inodeId l) (inodeId r)) (map snd table)"

definition sortQuarantine :: "(int \<times> int option) list \<Rightarrow> (int \<times> int option) list" where
  "sortQuarantine = sortIfNeeded (\<lambda>l r. compareBigint (fst l) (fst r))"

definition encodeMetadataPayload :: "VfsState \<Rightarrow> int \<Rightarrow> int \<Rightarrow> byte list res" where
  "encodeMetadataPayload state len prefixBytes =
     (if len > MAX_METADATA_BASE_WRITER_BYTES then Inl StoreLimitError
      else
        ebind (newWriter (prefixBytes + len) prefixBytes) (\<lambda>writer.
        ebind (andThen (writeValidatedU64 (totalExtents (allocator state)))
              (andThen (writeValidatedU64 (nextInodeId state))
              (andThen (writeU32 (int (length (inodes state))))
              (andThen (fold_res writeInode (sortInodes (inodes state)))
              (andThen (fold_res writeValidatedU64
                          (sortIfNeeded compareBigint (items (available (allocator state)))))
                 (fold_res writeQuarantine (sortQuarantine (quarantine (allocator state)))))))) writer)
          finishWriter))"

definition encodeValidatedMetadataBase :: "VfsState \<Rightarrow> byte list res" where
  "encodeValidatedMetadataBase state =
     (let baseEnd = int METADATA_HEADER_BYTES + basePayloadBytes state in
      ebind (encodeMetadataPayload state (basePayloadBytes state) (int METADATA_HEADER_BYTES)) (\<lambda>buffer.
        let buffer = setBytes 0 METADATA_MAGIC buffer;
            buffer = setLE 4 8 FORMAT_VERSION buffer;
            buffer = setLE 4 12 LIMITS_PROFILE_VERSION buffer;
            buffer = setLE 8 16 (generation state) buffer;
            buffer = setLE 4 24 (extentSize state) buffer;
            buffer = setBytes 28 (encU8 (metadataFileCode (activeMetadataFile state))) buffer;
            buffer = setLE 8 32 (rootInodeId state) buffer;
            buffer = setLE 4 40 (basePayloadBytes state) buffer;
            buffer = setLE 4 44 (int (sizeExtent (available (allocator state)))) buffer;
            buffer = setLE 4 48 (int (length (quarantine (allocator state)))) buffer;
            buffer = setLE 8 56 baseEnd buffer
        in setChecksum METADATA_HEADER_CHECKSUM_OFFSET buffer))"

definition encodeMetadataBase :: "VfsState \<Rightarrow> byte list res" where
  "encodeMetadataBase state = ebind (validateState state) (\<lambda>_. encodeValidatedMetadataBase state)"

section \<open>Decoding\<close>

record MetadataBaseHeader =
  hdrFormatVersion :: int
  hdrLimitsProfileVersion :: int
  hdrGeneration :: int
  hdrExtentSize :: int
  hdrMetadataFileCode :: int
  hdrRootInodeId :: int
  hdrPayloadLength :: int
  hdrAvailableCount :: int
  hdrQuarantineCount :: int
  hdrBaseEnd :: int

record DecodedMetadataBase =
  decodedState :: VfsState
  decodedPayloadBytes :: int
  decodedBaseEnd :: int
  decodedBaseDigest :: int

definition metadataBaseDigest :: "byte list \<Rightarrow> int" where
  "metadataBaseDigest buffer = uint (crc32 buffer)"

definition inspectMetadataBaseHeader :: "byte list \<Rightarrow> MetadataBaseHeader res" where
  "inspectMetadataBaseHeader header =
     (if length header \<noteq> METADATA_HEADER_BYTES then Inl CorruptStoreError
      else
        ebind (requireMagic header METADATA_MAGIC) (\<lambda>_.
        ebind (requireZero header 29 32) (\<lambda>_.
        ebind (requireZero header 52 56) (\<lambda>_.
        ebind (requireZero header 68 80) (\<lambda>_.
        let payloadLength = getLE 4 header 40 in
        if payloadLength > MAX_METADATA_BASE_READER_BYTES then Inl CorruptStoreError
        else
          let baseEnd = getLE 8 header 56 in
          if baseEnd \<noteq> int METADATA_HEADER_BYTES + payloadLength then Inl CorruptStoreError
          else
            Inr \<lparr>hdrFormatVersion = getLE 4 header 8, hdrLimitsProfileVersion = getLE 4 header 12,
                 hdrGeneration = getLE 8 header 16, hdrExtentSize = getLE 4 header 24,
                 hdrMetadataFileCode = getLE 1 header 28, hdrRootInodeId = getLE 8 header 32,
                 hdrPayloadLength = payloadLength, hdrAvailableCount = getLE 4 header 44,
                 hdrQuarantineCount = getLE 4 header 48, hdrBaseEnd = baseEnd\<rparr>)))))"

text \<open>
  The shape of the decoder's loops: read a value, require that it comes after the one before, and
  add it to what has been collected.
\<close>

definition rlift :: "'a res \<Rightarrow> 'a reader" where "rlift m bs = ebind m (\<lambda>x. Inr (x, bs))"

fun readAscending ::
  "'a reader \<Rightarrow> ('a \<Rightarrow> 'a \<Rightarrow> bool) \<Rightarrow> ('a \<Rightarrow> 's \<Rightarrow> 's res) \<Rightarrow> nat \<Rightarrow> 'a option \<Rightarrow> 's \<Rightarrow> 's reader" where
  "readAscending rd after add 0 previous s = rret s"
| "readAscending rd after add (Suc n) previous s =
     rbind rd (\<lambda>x.
     rbind (rcheck (case previous of None \<Rightarrow> True | Some p \<Rightarrow> after p x) CorruptStoreError) (\<lambda>_.
     rbind (rlift (add x s)) (\<lambda>s'. readAscending rd after add n (Some x) s')))"

text \<open>
  A child is read as name and id; the source checks the order between the two reads, which cannot be
  told apart, since an out-of-order name and a truncated id are the same error.
\<close>

definition readChild :: "(js_string \<times> int) reader" where
  "readChild = rbind readString (\<lambda>name. rbind readU64 (\<lambda>iid. rret (name, iid)))"

definition readChildren :: "nat \<Rightarrow> (js_string \<times> int) list reader" where
  "readChildren amount =
     readAscending readChild (\<lambda>previous child. \<not> compareUtf8Names (fst previous) (fst child) \<ge> 0)
       (\<lambda>child entries. Inr (AList.update (fst child) (snd child) entries)) amount None []"

definition readBody :: "int \<Rightarrow> InodeBody reader" where
  "readBody kind =
     (if kind = 0 then
        rbind (readBoundedCount MAX_INODES) (\<lambda>childCount.
        rbind (readChildren (nat childCount)) (\<lambda>entries. rret (Directory entries)))
      else if kind = 1 then
        rbind readU64 (\<lambda>fsize.
        rbind (readBoundedCount MAX_EXTENTS_PER_INODE) (\<lambda>extentCount.
        rbind (readMany (nat extentCount) readU64) (\<lambda>extents. rret (File fsize extents))))
      else if kind = 2 then rbind readSymlinkTarget (\<lambda>target. rret (Symlink target))
      else (\<lambda>_. Inl CorruptStoreError))"

definition readInode :: "Inode reader" where
  "readInode =
     rbind readU64 (\<lambda>iid.
     rbind readU8 (\<lambda>kind.
     rbind readU32 (\<lambda>mode.
     rbind readU64 (\<lambda>atime.
     rbind readU64 (\<lambda>mtime.
     rbind readU64 (\<lambda>ctime.
     rbind (readBody kind) (\<lambda>content.
       rret \<lparr>inodeId = iid, imode = mode, atimeMs = atime, mtimeMs = mtime, ctimeMs = ctime,
             body = content\<rparr>)))))))"

definition addDecodedInode ::
  "Inode \<Rightarrow> (int \<times> Inode) list \<times> (int \<times> int) list \<Rightarrow> ((int \<times> Inode) list \<times> (int \<times> int) list) res" where
  "addDecodedInode inode tables =
     ebind (fold_res (\<lambda>extentId owned.
              if map_of owned extentId \<noteq> None then Inl CorruptStoreError
              else Inr (AList.update extentId (inodeId inode) owned)) (fileExtents inode) (snd tables))
       (\<lambda>owned. Inr (AList.update (inodeId inode) inode (fst tables), owned))"

definition readInodes :: "nat \<Rightarrow> ((int \<times> Inode) list \<times> (int \<times> int) list) reader" where
  "readInodes amount =
     readAscending readInode (\<lambda>previous inode. \<not> inodeId inode \<le> inodeId previous) addDecodedInode
       amount None ([], [])"

definition readAvailable :: "nat \<Rightarrow> IndexedExtentSet reader" where
  "readAvailable amount =
     readAscending readU64 (\<lambda>previous extentId. \<not> extentId \<le> previous)
       (\<lambda>extentId available. Inr (addExtent available extentId)) amount None emptyExtentSet"

definition readQuarantine :: "nat \<Rightarrow> (int \<times> int option) list reader" where
  "readQuarantine amount =
     readAscending (rbind readU64 (\<lambda>extentId. rbind readU64 (\<lambda>stamp. rret (extentId, stamp))))
       (\<lambda>previous entry. \<not> fst entry \<le> fst previous)
       (\<lambda>entry table. Inr (AList.update (fst entry) (if snd entry = 0 then None else Some (snd entry)) table))
       amount None []"

definition indexParents :: "(int \<times> Inode) list \<Rightarrow> (int \<times> (int \<times> js_string)) list res" where
  "indexParents table =
     fold_res (\<lambda>(iid, inode) parents.
         fold_res (\<lambda>(name, childId) parents.
             if map_of parents childId \<noteq> None then Inl CorruptStoreError
             else Inr (AList.update childId (inodeId inode, name) parents))
           (children inode) parents) table []"

definition decodePayload :: "MetadataBaseHeader \<Rightarrow> MetadataFile \<Rightarrow> byte list \<Rightarrow> VfsState res" where
  "decodePayload header activeFile payload =
     ebind (rbind readU64 (\<lambda>total.
            rbind (rcheck (\<not> total > MAX_TOTAL_EXTENTS) CorruptStoreError) (\<lambda>_.
            rbind readU64 (\<lambda>nextId.
            rbind (readBoundedCount MAX_INODES) (\<lambda>inodeCount.
            rbind (readInodes (nat inodeCount)) (\<lambda>(table, owned).
            rbind (readAvailable (nat (hdrAvailableCount header))) (\<lambda>pool.
            rbind (readQuarantine (nat (hdrQuarantineCount header))) (\<lambda>held.
            rbind endReader (\<lambda>_. rret (total, nextId, table, owned, pool, held))))))))) payload)
       (\<lambda>((total, nextId, table, owned, pool, held), _).
          ebind (indexParents table) (\<lambda>parents.
          let state = \<lparr>generation = hdrGeneration header, nextInodeId = nextId,
                       rootInodeId = hdrRootInodeId header, extentSize = hdrExtentSize header,
                       activeMetadataFile = activeFile,
                       retainedGenerations = (\<lambda>_. None)(activeFile := Some (hdrGeneration header)),
                       basePayloadBytes = hdrPayloadLength header, inodes = table,
                       parentByInode = parents,
                       allocator = \<lparr>totalExtents = total, ownedBy = owned, available = pool,
                                    quarantine = held\<rparr>\<rparr>
          in ebind (validateState state) (\<lambda>_. Inr state)))"

definition decodeMetadataBase :: "byte list \<Rightarrow> DecodedMetadataBase res" where
  "decodeMetadataBase buffer =
     (if length buffer < METADATA_HEADER_BYTES then Inl CorruptStoreError
      else
        ebind (inspectMetadataBaseHeader (take METADATA_HEADER_BYTES buffer)) (\<lambda>inspected.
        if int (length buffer) \<noteq> hdrBaseEnd inspected then Inl CorruptStoreError
        else
          ebind (requireChecksum buffer METADATA_HEADER_CHECKSUM_OFFSET) (\<lambda>_.
          ebind (requireCurrentIdentity (hdrFormatVersion inspected) (hdrLimitsProfileVersion inspected)) (\<lambda>_.
          if hdrGeneration inspected = 0 then Inl CorruptStoreError
          else
            ebind (orCorrupt (validateExtentSize (hdrExtentSize inspected))) (\<lambda>_.
            ebind (decodeMetadataFile (hdrMetadataFileCode inspected)) (\<lambda>activeFile.
            if hdrAvailableCount inspected > MAX_TOTAL_EXTENTS
               \<or> hdrQuarantineCount inspected > MAX_TOTAL_EXTENTS
            then Inl CorruptStoreError
            else
              ebind (orCorrupt (decodePayload inspected activeFile (drop METADATA_HEADER_BYTES buffer))) (\<lambda>state.
                Inr \<lparr>decodedState = state, decodedPayloadBytes = hdrPayloadLength inspected,
                     decodedBaseEnd = hdrBaseEnd inspected,
                     decodedBaseDigest = uint (crc32 buffer)\<rparr>)))))))"

end
