(* ===== verification/Port.thy ===== *)
theory Port
  imports Limits Binary VfsState
begin

text \<open>
  Code that talks to a host: a computation takes the world it acts on, a value of any type, and gives a
  result or the error it throws together with the world it leaves behind; the effects of a computation
  that throws stay.
\<close>

type_synonym ('w, 'a) io = "'w \<Rightarrow> 'a res \<times> 'w"

definition ioret :: "'a \<Rightarrow> ('w, 'a) io" where "ioret x w = (Inr x, w)"

definition iofail :: "store_error \<Rightarrow> ('w, 'a) io" where "iofail e w = (Inl e, w)"

definition iolift :: "'a res \<Rightarrow> ('w, 'a) io" where "iolift r w = (r, w)"

definition iobind :: "('w, 'a) io \<Rightarrow> ('a \<Rightarrow> ('w, 'b) io) \<Rightarrow> ('w, 'b) io" where
  "iobind m f w = (case m w of (Inl e, w') \<Rightarrow> (Inl e, w') | (Inr x, w') \<Rightarrow> f x w')"

text \<open>\<open>try { m } catch (e) { handler }\<close>; a handler that does not know the error throws it again.\<close>

definition iocatch :: "('w, 'a) io \<Rightarrow> (store_error \<Rightarrow> ('w, 'a) io) \<Rightarrow> ('w, 'a) io" where
  "iocatch m handler w = (case m w of (Inl e, w') \<Rightarrow> handler e w' | (Inr x, w') \<Rightarrow> (Inr x, w'))"

fun ioeach :: "('a \<Rightarrow> ('w, unit) io) \<Rightarrow> 'a list \<Rightarrow> ('w, unit) io" where
  "ioeach f [] = ioret ()"
| "ioeach f (x # xs) = iobind (f x) (\<lambda>_. ioeach f xs)"

lemma io_simps [simp]:
  "ioret x w = (Inr x, w)" "iofail e w = (Inl e, w)" "iolift r w = (r, w)"
  "m w = (Inr x, w') \<Longrightarrow> iobind m f w = f x w'" "m w = (Inl e, w') \<Longrightarrow> iobind m f w = (Inl e, w')"
  by (simp_all add: ioret_def iofail_def iolift_def iobind_def)

lemma iobind_lift [simp]: "iobind (iolift (Inr x)) f = f x" "iobind (iolift (Inl e)) f = iofail e"
  "iobind (ioret x) f = f x" "iobind (iofail e) f = iofail e"
  by (simp_all add: iobind_def fun_eq_iff)


text \<open>
  \<open>packages/pgwasm/src/opfs/core/port.ts\<close>: the loops that turn the partial reads and writes of a file
  handle into exact ones, and the place of an extent in the arena. A handle belongs to the platform:
  its \<open>read\<close> and \<open>write\<close> are parameters, of which a call may transfer any positive part of what was
  asked, or nothing, or report nonsense, or throw; the loops check every count.
\<close>

section \<open>Files\<close>

datatype OwnedFileName = ArenaBin | MetadataABin | MetadataBBin | ActivationBin

fun metadataFileName :: "MetadataFile \<Rightarrow> OwnedFileName" where
  "metadataFileName MetaA = MetadataABin"
| "metadataFileName MetaB = MetadataBBin"

fun ownedName :: "OwnedFileName \<Rightarrow> string" where
  "ownedName ArenaBin = ''arena.bin''"
| "ownedName MetadataABin = ''metadata-a.bin''"
| "ownedName MetadataBBin = ''metadata-b.bin''"
| "ownedName ActivationBin = ''activation.bin''"

datatype EntryKind = FileEntry | DirectoryEntry

text \<open>
  A call of \<open>read(target, at)\<close> on a world: the count it returns and the bytes it put at the front of
  the target, of which the room is given. A call of \<open>write(source, at)\<close> returns the count.
\<close>

type_synonym 'w reads = "int \<Rightarrow> int \<Rightarrow> ('w, int \<times> byte list) io"
type_synonym 'w writes = "int \<Rightarrow> byte list \<Rightarrow> ('w, int) io"

section \<open>Exact transfers\<close>

definition checkedRange :: "int \<Rightarrow> int \<Rightarrow> int res" where
  "checkedRange offset len =
     ebind (checkedU64 offset) (\<lambda>_.
     if \<not> isSafeInteger len \<or> len < 0 then Inl StoreLimitError
     else
       ebind (checkedAdd offset len) (\<lambda>stop.
       ebind (checkedSafeNumber stop) (\<lambda>_. checkedSafeNumber offset)))"

text \<open>The output starts as zeros; a call fills its part from \<open>completed\<close> on.\<close>

function readLoop :: "'w reads \<Rightarrow> int \<Rightarrow> int \<Rightarrow> byte list \<Rightarrow> int \<Rightarrow> ('w, byte list) io" where
  "readLoop handle_read start len target completed w =
     (if completed < len then
        (case handle_read (start + completed) (len - completed) w of
           (Inl e, w') \<Rightarrow> (Inl e, w')
         | (Inr (amount, part), w') \<Rightarrow>
             if \<not> isSafeInteger amount \<or> amount \<le> 0 \<or> amount > len - completed then (Inl CorruptStoreError, w')
             else readLoop handle_read start len
                    (take (nat completed) target @ take (nat amount) part @ drop (nat (completed + amount)) target)
                    (completed + amount) w')
      else (Inr target, w))"
  by pat_completeness auto
termination
  by (relation "measure (\<lambda>(h, s, l, out, c, w). nat (l - c))") auto

declare readLoop.simps [simp del]

definition readExact :: "'w reads \<Rightarrow> int \<Rightarrow> int \<Rightarrow> int \<Rightarrow> ('w, byte list) io" where
  "readExact handle_read offset len maximumLength =
     (if \<not> isSafeInteger maximumLength \<or> maximumLength < 0 \<or> len > maximumLength then iofail StoreLimitError
      else
        iobind (iolift (checkedRange offset len)) (\<lambda>start.
          readLoop handle_read start len (replicate (nat len) 0) 0))"

function writeLoop :: "'w writes \<Rightarrow> int \<Rightarrow> byte list \<Rightarrow> int \<Rightarrow> ('w, unit) io" where
  "writeLoop handle_write start source completed w =
     (if completed < int (length source) then
        (case handle_write (start + completed) (drop (nat completed) source) w of
           (Inl e, w') \<Rightarrow> (Inl e, w')
         | (Inr amount, w') \<Rightarrow>
             if \<not> isSafeInteger amount \<or> amount \<le> 0 \<or> amount > int (length source) - completed
             then (Inl PortWriteError, w')
             else writeLoop handle_write start source (completed + amount) w')
      else (Inr (), w))"
  by pat_completeness auto
termination
  by (relation "measure (\<lambda>(h, s, src, c, w). nat (int (length src) - c))") auto

declare writeLoop.simps [simp del]

definition writeExact :: "'w writes \<Rightarrow> int \<Rightarrow> byte list \<Rightarrow> ('w, unit) io" where
  "writeExact handle_write offset source =
     iobind (iolift (checkedRange offset (int (length source)))) (\<lambda>start. writeLoop handle_write start source 0)"

definition truncateChecked :: "(int \<Rightarrow> ('w, unit) io) \<Rightarrow> int \<Rightarrow> ('w, unit) io" where
  "truncateChecked handle_truncate fileSize = iobind (iolift (checkedSafeNumber fileSize)) handle_truncate"

definition arenaByteOffset :: "int \<Rightarrow> int \<Rightarrow> int \<Rightarrow> int res" where
  "arenaByteOffset extentId extSize withinExtent =
     ebind (validateExtentSize extSize) (\<lambda>_.
     ebind (checkedU64 extentId) (\<lambda>_.
     if extentId \<ge> MAX_TOTAL_EXTENTS then Inl StoreLimitError
     else if \<not> isSafeInteger withinExtent \<or> withinExtent < 0 \<or> withinExtent \<ge> extSize
       then Inl StoreLimitError
     else
       ebind (checkedMultiply extentId extSize) (\<lambda>product.
       ebind (checkedAdd ARENA_HEADER_BYTES product) (\<lambda>start.
         checkedAdd start withinExtent))))"

section \<open>A handle on a file\<close>

text \<open>What a write and a resize mean on the bytes of a file.\<close>

definition putBytes :: "int \<Rightarrow> byte list \<Rightarrow> byte list \<Rightarrow> byte list" where
  "putBytes at src file =
     (let a = nat at in take a (file @ replicate (a - length file) 0) @ src @ drop (a + length src) file)"

definition resized :: "nat \<Rightarrow> byte list \<Rightarrow> byte list" where
  "resized n file = take n file @ replicate (n - length file) 0"

text \<open>
  What the store relies on, for one file of a world: a read transfers a positive prefix of what the
  file holds there, and nothing beyond its end. A call keeps the view \<open>others\<close> of the world.
\<close>

locale file_reader =
  fixes rd :: "'w reads" and contents :: "'w \<Rightarrow> byte list" and inv :: "'w \<Rightarrow> bool" and others :: "'w \<Rightarrow> 'v"
  assumes reads: "inv w \<Longrightarrow> 0 \<le> at \<Longrightarrow> 0 < room \<Longrightarrow> at + room \<le> MAX_SAFE_INTEGER \<Longrightarrow> at < int (length (contents w)) \<Longrightarrow>
      \<exists>n w'. 0 < n \<and> int n \<le> room \<and> nat at + n \<le> length (contents w)
        \<and> rd at room w = (Inr (int n, take n (drop (nat at) (contents w))), w')
        \<and> inv w' \<and> contents w' = contents w \<and> others w' = others w"
    and reads_end: "inv w \<Longrightarrow> 0 < room \<Longrightarrow> at + room \<le> MAX_SAFE_INTEGER \<Longrightarrow> int (length (contents w)) \<le> at \<Longrightarrow>
      \<exists>part w'. rd at room w = (Inr (0, part), w') \<and> inv w' \<and> contents w' = contents w \<and> others w' = others w"
begin

lemma readLoop_exact:
  assumes "inv w" and "0 \<le> start" and "0 \<le> completed" and "completed \<le> len" and "int (length target) = len"
    and "start + len \<le> int (length (contents w))" and "start + len \<le> MAX_SAFE_INTEGER"
    and "take (nat completed) target = take (nat completed) (drop (nat start) (contents w))"
  shows "\<exists>w'. readLoop rd start len target completed w = (Inr (take (nat len) (drop (nat start) (contents w))), w')
    \<and> inv w' \<and> contents w' = contents w \<and> others w' = others w"
  using assms
proof (induction "nat (len - completed)" arbitrary: target completed w rule: less_induct)
  case less
  show ?case
  proof (cases "completed < len")
    case True
    then obtain n w' where n: "0 < n" "int n \<le> len - completed" "nat (start + completed) + n \<le> length (contents w)"
      "rd (start + completed) (len - completed) w = (Inr (int n, take n (drop (nat (start + completed)) (contents w))), w')"
      and w': "inv w'" "contents w' = contents w" "others w' = others w"
      using reads [OF less.prems(1), of "start + completed" "len - completed"] less.prems(2-) by auto
    let ?out = "take (nat completed) target @ take n (drop (nat (start + completed)) (contents w))
        @ drop (nat (completed + int n)) target"
    have nat: "nat (start + completed) = nat start + nat completed" "nat (completed + int n) = nat completed + n"
      using less.prems(2,3) by (simp_all add: nat_add_distrib)
    have prefix: "take (nat completed + n) (drop (nat start) (contents w))
      = take (nat completed) (drop (nat start) (contents w)) @ take n (drop (nat start + nat completed) (contents w))"
      unfolding take_add by (simp add: add.commute)
    have lens: "length (take n (drop (nat start + nat completed) (contents w))) = n"
      using n(3) nat(1) by simp
    have out: "take (nat (completed + int n)) ?out = take (nat (completed + int n)) (drop (nat start) (contents w))"
      using less.prems nat lens n(2) by (simp add: prefix)
    have out_len: "int (length ?out) = len" using less.prems nat lens n(2) by simp
    have "\<exists>w''. readLoop rd start len ?out (completed + int n) w'
        = (Inr (take (nat len) (drop (nat start) (contents w'))), w'')
      \<and> inv w'' \<and> contents w'' = contents w' \<and> others w'' = others w'"
      by (rule less.hyps) (use less.prems n(1,2) w' out out_len in simp_all)
    then obtain w'' where "readLoop rd start len ?out (completed + int n) w'
        = (Inr (take (nat len) (drop (nat start) (contents w'))), w'')"
      "inv w''" "contents w'' = contents w'" "others w'' = others w'" by blast
    moreover have "isSafeInteger (int n)" using n(2) less.prems by (simp add: isSafeInteger_def MAX_SAFE_INTEGER_def)
    ultimately show ?thesis using True n nat w' by (subst readLoop.simps) simp
  next
    case False
    then have "completed = len" using less.prems by simp
    moreover from this have "take (nat len) target = target" using less.prems by simp
    ultimately show ?thesis using less.prems by (subst readLoop.simps) simp
  qed
qed

lemma readLoop_short:
  assumes "inv w" and "0 \<le> start" and "0 \<le> completed" and "completed < len"
    and "int (length (contents w)) < start + len" and "start + len \<le> MAX_SAFE_INTEGER"
  shows "\<exists>w'. readLoop rd start len target completed w = (Inl CorruptStoreError, w')
    \<and> inv w' \<and> contents w' = contents w \<and> others w' = others w"
  using assms
proof (induction "nat (len - completed)" arbitrary: target completed w rule: less_induct)
  case less
  show ?case
  proof (cases "start + completed < int (length (contents w))")
    case True
    with less.prems obtain n w' where n: "0 < n" "int n \<le> len - completed"
      "nat (start + completed) + n \<le> length (contents w)"
      "rd (start + completed) (len - completed) w = (Inr (int n, take n (drop (nat (start + completed)) (contents w))), w')"
      and w': "inv w'" "contents w' = contents w" "others w' = others w"
      using reads [OF less.prems(1), of "start + completed" "len - completed"] by auto
    have "start + completed + int n \<le> int (length (contents w))" using n(3) less.prems(2,3) by linarith
    then have "\<exists>w''. readLoop rd start len out (completed + int n) w' = (Inl CorruptStoreError, w'')
        \<and> inv w'' \<and> contents w'' = contents w' \<and> others w'' = others w'" for out
      using less.prems n(1,2) w' by (intro less.hyps) simp_all
    then show ?thesis using less.prems(4,6) n w' by (subst readLoop.simps) simp
  next
    case False
    then obtain part w' where "rd (start + completed) (len - completed) w = (Inr (0, part), w')"
      "inv w'" "contents w' = contents w" "others w' = others w"
      using reads_end [OF less.prems(1), of "len - completed" "start + completed"] less.prems(4,6) by (auto simp: not_le)
    then show ?thesis using less.prems(4) by (subst readLoop.simps) simp
  qed
qed

text \<open>An exact read is the slice of the file, or corruption when the file is too short.\<close>

lemma readExact_slice:
  assumes inv: "inv w" and "0 \<le> offset" and "0 \<le> len" and "len \<le> maximum" and "maximum \<le> MAX_SAFE_INTEGER"
    and "offset + len \<le> MAX_SAFE_INTEGER"
  shows "\<exists>w'. readExact rd offset len maximum w =
      (if len = 0 \<or> offset + len \<le> int (length (contents w))
       then Inr (take (nat len) (drop (nat offset) (contents w))) else Inl CorruptStoreError, w')
    \<and> inv w' \<and> contents w' = contents w \<and> others w' = others w"
proof -
  have range: "checkedRange offset len = Inr offset"
    using assms by (simp add: checkedRange_def isSafeInteger_def checkedAdd_def checkedSafeNumber_def
        checkedU64_def MAX_U64_def MAX_SAFE_INTEGER_def)
  have guard: "\<not> (\<not> isSafeInteger maximum \<or> maximum < 0 \<or> len > maximum)"
    using assms by (simp add: isSafeInteger_def MAX_SAFE_INTEGER_def)
  then have exact: "readExact rd offset len maximum w = readLoop rd offset len (replicate (nat len) 0) 0 w"
    using range by (simp only: readExact_def if_False iobind_lift)
  show ?thesis
  proof (cases "len = 0")
    case True
    with inv exact show ?thesis by (subst (asm) readLoop.simps) simp
  next
    case False
    then show ?thesis
      using assms readLoop_exact [OF inv, of offset 0 len "replicate (nat len) 0"] readLoop_short [OF inv, of offset 0 len "replicate (nat len) 0"]
      by (cases "offset + len \<le> int (length (contents w))") (simp_all add: exact)
  qed
qed

end

lemma putBytes_append:
  assumes "n \<le> length src" and "0 \<le> at"
  shows "putBytes (at + int n) (drop n src) (putBytes at (take n src) file) = putBytes at src file"
proof -
  let ?a = "nat at"
  define p where "p = take ?a (file @ replicate (?a - length file) 0)"
  have nat: "nat (at + int n) = ?a + n" using assms(2) by (simp add: nat_add_distrib)
  have len: "length p = ?a" by (simp add: p_def)
  have first: "putBytes at (take n src) file = p @ take n src @ drop (?a + n) file"
    using assms(1) by (simp add: putBytes_def Let_def p_def)
  have "take (?a + n) ((p @ take n src @ drop (?a + n) file) @ xs) = p @ take n src" for xs
    using assms(1) len by simp
  moreover have "drop (?a + n + length (drop n src)) (p @ take n src @ drop (?a + n) file) = drop (?a + length src) file"
    using assms(1) len by (simp add: add.commute)
  ultimately have "putBytes (at + int n) (drop n src) (p @ take n src @ drop (?a + n) file)
      = (p @ take n src) @ drop n src @ drop (?a + length src) file"
    by (simp only: putBytes_def Let_def nat)
  also have "\<dots> = putBytes at src file" by (simp add: putBytes_def Let_def p_def)
  finally show ?thesis by (simp only: first)
qed

text \<open>And a write stores a positive prefix of the source at its place, extending the file.\<close>

locale file_writer =
  fixes wr :: "'w writes" and contents :: "'w \<Rightarrow> byte list" and inv :: "'w \<Rightarrow> bool" and others :: "'w \<Rightarrow> 'v"
  assumes writes: "inv w \<Longrightarrow> 0 \<le> at \<Longrightarrow> src \<noteq> [] \<Longrightarrow> at + int (length src) \<le> MAX_SAFE_INTEGER \<Longrightarrow>
      \<exists>n w'. 0 < n \<and> n \<le> length src \<and> wr at src w = (Inr (int n), w') \<and> inv w'
        \<and> contents w' = putBytes at (take n src) (contents w) \<and> others w' = others w"
begin

lemma writeLoop_all:
  assumes "inv w" and "0 \<le> start" and "0 \<le> completed" and "completed \<le> int (length src)"
    and "start + int (length src) \<le> MAX_SAFE_INTEGER" and "completed < int (length src)"
  shows "\<exists>w'. writeLoop wr start src completed w = (Inr (), w') \<and> inv w'
    \<and> contents w' = putBytes (start + completed) (drop (nat completed) src) (contents w) \<and> others w' = others w"
  using assms
proof (induction "nat (int (length src) - completed)" arbitrary: completed w rule: less_induct)
  case less
  let ?rest = "drop (nat completed) src"
  have ne: "?rest \<noteq> []" using less.prems by simp
  obtain n w' where n: "0 < n" "n \<le> length ?rest" "wr (start + completed) ?rest w = (Inr (int n), w')"
    "inv w'" "contents w' = putBytes (start + completed) (take n ?rest) (contents w)" "others w' = others w"
    using writes [OF less.prems(1), of "start + completed" ?rest] less.prems ne by auto
  have safe: "isSafeInteger (int n)" "int n \<le> int (length src) - completed"
    using n(2) less.prems by (simp_all add: isSafeInteger_def MAX_SAFE_INTEGER_def)
  then have step: "writeLoop wr start src completed w = writeLoop wr start src (completed + int n) w'"
    using n less.prems by (subst writeLoop.simps) simp
  show ?case
  proof (cases "completed + int n < int (length src)")
    case True
    then obtain g where g: "writeLoop wr start src (completed + int n) w' = (Inr (), g)" "inv g"
      "contents g = putBytes (start + (completed + int n)) (drop (nat (completed + int n)) src) (contents w')"
      "others g = others w'"
      using less.hyps [of "completed + int n" w'] less.prems n by auto
    have "drop (nat (completed + int n)) src = drop n ?rest" using less.prems by (simp add: nat_add_distrib add.commute)
    with g(3) n(5) putBytes_append [OF n(2), of "start + completed" "contents w"] less.prems
    have "contents g = putBytes (start + completed) ?rest (contents w)" by (simp add: add.assoc)
    with step g n(6) show ?thesis by auto
  next
    case False
    then have "take n ?rest = ?rest" using less.prems by simp
    moreover have "writeLoop wr start src (completed + int n) w' = (Inr (), w')"
      using False by (subst writeLoop.simps) simp
    ultimately show ?thesis using step n(4-6) by simp
  qed
qed

text \<open>An exact write puts the whole source at its place.\<close>

lemma writeExact_all:
  assumes inv: "inv w" and "0 \<le> offset" and "src \<noteq> []" and "offset + int (length src) \<le> MAX_SAFE_INTEGER"
  shows "\<exists>w'. writeExact wr offset src w = (Inr (), w') \<and> inv w' \<and> contents w' = putBytes offset src (contents w)
    \<and> others w' = others w"
proof -
  have "checkedRange offset (int (length src)) = Inr offset"
    using assms by (simp add: checkedRange_def isSafeInteger_def checkedAdd_def checkedSafeNumber_def
        checkedU64_def MAX_U64_def MAX_SAFE_INTEGER_def)
  then show ?thesis using writeLoop_all [OF inv, of offset 0 src] assms by (simp add: writeExact_def)
qed

end

section \<open>The arena\<close>

lemma arenaByteOffset_Inr:
  "arenaByteOffset e s w = Inr off \<longleftrightarrow>
     extent_size_ok s \<and> 0 \<le> e \<and> e < MAX_TOTAL_EXTENTS \<and> 0 \<le> w \<and> w < s \<and> off = ARENA_HEADER_BYTES + e * s + w"
proof -
  have bound: "u64 (e * s) \<and> u64 (ARENA_HEADER_BYTES + e * s) \<and> u64 (ARENA_HEADER_BYTES + e * s + w) \<and> isSafeInteger w \<and> u64 e"
    if "extent_size_ok s" "0 \<le> e" "e < MAX_TOTAL_EXTENTS" "0 \<le> w" "w < s"
  proof -
    have s: "0 \<le> s" "s \<le> 16777216" using that(1) by (simp_all add: extent_size_ok_def MIN_EXTENT_BYTES_def MAX_EXTENT_BYTES_def)
    have "e * s \<le> 4194304 * 16777216"
      using that(2,3) s by (intro mult_mono) (simp_all add: MAX_TOTAL_EXTENTS_def)
    moreover have "0 \<le> e * s" using that(2) s by simp
    ultimately show ?thesis using that s
      by (simp add: u64_def MAX_U64_def ARENA_HEADER_BYTES_def isSafeInteger_def MAX_SAFE_INTEGER_def MAX_TOTAL_EXTENTS_def)
  qed
  then show ?thesis
    by (auto simp: arenaByteOffset_def ebind_eq_Inr validateExtentSize_Inr checkedU64_Inr checkedAdd_Inr
        checkedMultiply_def u64_def split: if_splits)
qed

text \<open>Different places of the arena have different offsets, all after the header.\<close>

lemma arena_offset_inj:
  assumes "arenaByteOffset e s w = Inr off" and "arenaByteOffset e' s w' = Inr off"
  shows "e = e' \<and> w = w'"
proof -
  have a: "0 < s" "0 \<le> w" "w < s" "0 \<le> w'" "w' < s" "e * s + w = e' * s + w'"
    using assms by (auto simp: arenaByteOffset_Inr dest: extent_size_pos)
  then have "(e * s + w) div s = (e' * s + w') div s" "(e * s + w) mod s = (e' * s + w') mod s" by simp_all
  with a(1-5) show ?thesis by simp
qed

end
