(* ===== verification/MetadataStore.thy ===== *)
theory MetadataStore
  imports Frame MetadataBase Port
begin

text \<open>
  \<open>packages/pgwasm/src/opfs/core/metadata-store.ts\<close>: opening a store. The four files are acquired, the
  activation slots select a metadata base, and the log after it is replayed up to its last whole valid
  frame; a store that was never activated is recognised by its residue and created.
\<close>

section \<open>The host\<close>

text \<open>
  \<open>RepackedPort\<close> and \<open>RepackedFileHandle\<close> are interfaces: their operations are a record over a world
  \<open>'w\<close> and a type of handles \<open>'h\<close>. Every call has the label the source gives it.
\<close>

record ('w, 'h) store_ops =
  opEnumerate :: "string \<Rightarrow> ('w, ((OwnedFileName + string) \<times> EntryKind) list) io"
  opAcquire :: "OwnedFileName \<Rightarrow> string \<Rightarrow> ('w, 'h) io"
  opGetSize :: "'h \<Rightarrow> string \<Rightarrow> ('w, int) io"
  opRead :: "'h \<Rightarrow> string \<Rightarrow> 'w reads"
  opWrite :: "'h \<Rightarrow> string \<Rightarrow> 'w writes"
  opTruncate :: "'h \<Rightarrow> string \<Rightarrow> int \<Rightarrow> ('w, unit) io"
  opFlush :: "'h \<Rightarrow> string \<Rightarrow> ('w, unit) io"
  opClose :: "'h \<Rightarrow> ('w, unit) io"

record 'h OpenedMetadataStore =
  storeHandles :: "OwnedFileName \<Rightarrow> 'h"
  storeState :: VfsState
  activeLogEnd :: int
  nextSequence :: int
  activeLogBytes :: int
  activeLogFrames :: int
  activationSequence :: int
  arenaHighWaterExtents :: int
  arenaSize :: int
  arenaDirty :: bool
  activeMetadataDirty :: bool

section \<open>Handles\<close>

definition validateEntries :: "((OwnedFileName + string) \<times> EntryKind) list \<Rightarrow> unit res" where
  "validateEntries entries =
     each_res (\<lambda>(name, kind). if (case name of Inl _ \<Rightarrow> False | Inr _ \<Rightarrow> True) \<or> kind \<noteq> FileEntry
       then Inl UnexpectedStoreEntryError else Inr ()) entries"

text \<open>In reverse order; a close that throws is passed over.\<close>

definition closeHandles :: "('w, 'h) store_ops \<Rightarrow> 'h list \<Rightarrow> ('w, unit) io" where
  "closeHandles ops handles w = (Inr (), fold (\<lambda>handle w. snd (opClose ops handle w)) (rev handles) w)"

definition orClose :: "('w, 'h) store_ops \<Rightarrow> 'h list \<Rightarrow> ('w, 'a) io \<Rightarrow> ('w, 'a) io" where
  "orClose ops handles m = iocatch m (\<lambda>cause. iobind (closeHandles ops handles) (\<lambda>_. iofail cause))"

definition OWNED_FILE_NAMES :: "OwnedFileName list" where
  "OWNED_FILE_NAMES = [ArenaBin, MetadataABin, MetadataBBin, ActivationBin]"

fun acquireNext ::
  "('w, 'h) store_ops \<Rightarrow> OwnedFileName list \<Rightarrow> (OwnedFileName \<times> 'h) list \<Rightarrow> ('w, (OwnedFileName \<times> 'h) list) io" where
  "acquireNext ops [] acquired = ioret acquired"
| "acquireNext ops (name # names) acquired =
     iobind (orClose ops (map snd acquired) (opAcquire ops name (''store.acquire.'' @ ownedName name))) (\<lambda>handle.
       acquireNext ops names (acquired @ [(name, handle)]))"

definition acquireHandles :: "('w, 'h) store_ops \<Rightarrow> ('w, OwnedFileName \<Rightarrow> 'h) io" where
  "acquireHandles ops =
     iobind (opEnumerate ops ''store.enumerate.initial'') (\<lambda>entries.
     iobind (iolift (validateEntries entries)) (\<lambda>_.
     iobind (opAcquire ops ActivationBin ''store.acquire.activation'') (\<lambda>activation.
     iobind (orClose ops [activation]
       (iobind (opEnumerate ops ''store.enumerate.locked'') (\<lambda>entries. iolift (validateEntries entries)))) (\<lambda>_.
     iobind (acquireNext ops [ArenaBin, MetadataABin, MetadataBBin] [(ActivationBin, activation)]) (\<lambda>acquired.
       ioret (\<lambda>name. the (map_of acquired name)))))))"

fun sizesOf ::
  "('w, 'h) store_ops \<Rightarrow> (OwnedFileName \<Rightarrow> 'h) \<Rightarrow> OwnedFileName list \<Rightarrow> ('w, (OwnedFileName \<times> int) list) io" where
  "sizesOf ops handles [] = ioret []"
| "sizesOf ops handles (name # names) =
     iobind (opGetSize ops (handles name) (''store.size.'' @ ownedName name)) (\<lambda>n.
     iobind (sizesOf ops handles names) (\<lambda>rest. ioret ((name, n) # rest)))"

definition getSizes :: "('w, 'h) store_ops \<Rightarrow> (OwnedFileName \<Rightarrow> 'h) \<Rightarrow> ('w, OwnedFileName \<Rightarrow> int) io" where
  "getSizes ops handles =
     iobind (sizesOf ops handles OWNED_FILE_NAMES) (\<lambda>sizes. ioret (\<lambda>name. the (map_of sizes name)))"

section \<open>Reading\<close>

definition readAt :: "('w, 'h) store_ops \<Rightarrow> 'h \<Rightarrow> int \<Rightarrow> int \<Rightarrow> int \<Rightarrow> string \<Rightarrow> ('w, byte list) io" where
  "readAt ops handle offset len maximum label = readExact (opRead ops handle label) offset len maximum"

definition readSlot :: "('w, 'h) store_ops \<Rightarrow> 'h \<Rightarrow> int \<Rightarrow> int \<Rightarrow> ('w, byte list) io" where
  "readSlot ops handle fileSize index =
     (let offset = index * int ACTIVATION_SLOT_BYTES in
      if offset \<ge> fileSize then ioret []
      else
        let len = min (int ACTIVATION_SLOT_BYTES) (fileSize - offset)
        in readAt ops handle offset len (int ACTIVATION_SLOT_BYTES)
             (''activation.read.slot-'' @ (if index = 0 then ''0'' else ''1'')))"

definition isPrefix :: "byte list \<Rightarrow> byte list \<Rightarrow> bool" where
  "isPrefix source canonical \<longleftrightarrow>
     length source \<le> length canonical \<and> list_all (\<lambda>(x, y). x = y) (zip source canonical)"

definition readWhole :: "('w, 'h) store_ops \<Rightarrow> 'h \<Rightarrow> int \<Rightarrow> int \<Rightarrow> string \<Rightarrow> ('w, byte list) io" where
  "readWhole ops handle fileSize maximum label = readAt ops handle 0 fileSize maximum label"

section \<open>A store that was never activated\<close>

text \<open>
  The candidates of an ambiguous arena prefix, in the order of significance, and the first whose header
  has the bytes as a prefix.
\<close>

definition addCandidate :: "int \<Rightarrow> int list \<Rightarrow> int list" where
  "addCandidate candidate candidates =
     (if candidate \<in> set candidates then candidates else candidates @ [candidate])"

definition extentCandidates :: "int option \<Rightarrow> int option \<Rightarrow> int \<Rightarrow> int list" where
  "extentCandidates configured declared fsize =
     (let candidates = (case configured of None \<Rightarrow> [] | Some c \<Rightarrow> addCandidate c []);
          candidates = (case declared of None \<Rightarrow> candidates | Some c \<Rightarrow> addCandidate c candidates);
          candidates = addCandidate DEFAULT_EXTENT_BYTES candidates
      in if fsize < 20
         then fold (\<lambda>k. addCandidate (MIN_EXTENT_BYTES + int k * ARENA_HEADER_BYTES))
                [0..<nat ((MAX_EXTENT_BYTES - MIN_EXTENT_BYTES) div ARENA_HEADER_BYTES + 1)] candidates
         else candidates)"

fun findRes :: "('a \<Rightarrow> bool res) \<Rightarrow> 'a list \<Rightarrow> 'a option res" where
  "findRes p [] = Inr None"
| "findRes p (x # xs) = ebind (p x) (\<lambda>b. if b then Inr (Some x) else findRes p xs)"

text \<open>A declared extent fsize that is not valid is ignored.\<close>

definition declaredExtentSize :: "byte list \<Rightarrow> int \<Rightarrow> int option res" where
  "declaredExtentSize source fsize =
     (if fsize \<ge> 20 then
        (case validateExtentSize (getLE 4 source 16) of
           Inr n \<Rightarrow> Inr (Some n)
         | Inl TypeError \<Rightarrow> Inr None
         | Inl cause \<Rightarrow> Inl cause)
      else Inr None)"

definition bootstrapExtentSize :: "('w, 'h) store_ops \<Rightarrow> 'h \<Rightarrow> int \<Rightarrow> int option \<Rightarrow> ('w, int) io" where
  "bootstrapExtentSize ops arena fsize configured =
     (if fsize = 0 then ioret (case configured of None \<Rightarrow> DEFAULT_EXTENT_BYTES | Some c \<Rightarrow> c)
      else if fsize \<ge> ARENA_HEADER_BYTES then
        iobind (readAt ops arena 0 ARENA_HEADER_BYTES ARENA_HEADER_BYTES ''arena.read.bootstrap'') (\<lambda>header.
        iobind (iolift (decodeArenaHeader header None)) (\<lambda>decoded.
          if fsize > ARENA_HEADER_BYTES then iofail CorruptStoreError
          else ioret (arenaExtentSize decoded)))
      else
        iobind (readWhole ops arena fsize ARENA_HEADER_BYTES ''arena.read.bootstrap'') (\<lambda>source.
        iobind (iolift (declaredExtentSize source fsize)) (\<lambda>declared.
        iobind (iolift (findRes (\<lambda>candidate. ebind (encodeArenaHeader candidate) (\<lambda>header. Inr (isPrefix source header)))
                  (extentCandidates configured declared fsize))) (\<lambda>matching.
          case matching of
            None \<Rightarrow> iofail CorruptStoreError
          | Some m \<Rightarrow> ioret (case declared of None \<Rightarrow> m | Some d \<Rightarrow> d)))))"

text \<open>Only an unsupported version is an error of these inspections; corruption is left to later checks.\<close>

definition onlyVersion :: "'a res \<Rightarrow> unit res" where
  "onlyVersion r = (case r of Inr _ \<Rightarrow> Inr () | Inl CorruptStoreError \<Rightarrow> Inr () | Inl cause \<Rightarrow> Inl cause)"

definition detectArenaVersion :: "('w, 'h) store_ops \<Rightarrow> 'h \<Rightarrow> int \<Rightarrow> ('w, unit) io" where
  "detectArenaVersion ops handle fsize =
     (if fsize < ARENA_HEADER_BYTES then ioret ()
      else
        iobind (readAt ops handle 0 ARENA_HEADER_BYTES ARENA_HEADER_BYTES ''arena.inspect.identity'') (\<lambda>source.
          iolift (onlyVersion (decodeArenaHeader source None))))"

definition detectCompleteMetadataVersion :: "('w, 'h) store_ops \<Rightarrow> 'h \<Rightarrow> int \<Rightarrow> string \<Rightarrow> ('w, unit) io" where
  "detectCompleteMetadataVersion ops handle fsize label =
     (if fsize < int METADATA_HEADER_BYTES then ioret ()
      else
        iobind (iocatch
            (iobind (readAt ops handle 0 (int METADATA_HEADER_BYTES) (int METADATA_HEADER_BYTES) label) (\<lambda>source.
               iobind (iolift (inspectMetadataBaseHeader source)) (\<lambda>header. ioret (Some header))))
            (\<lambda>cause. if cause = CorruptStoreError then ioret None else iofail cause)) (\<lambda>header.
          case header of
            None \<Rightarrow> ioret ()
          | Some header \<Rightarrow>
              if hdrBaseEnd header > fsize then ioret ()
              else
                iobind (readAt ops handle 0 (hdrBaseEnd header)
                          (int METADATA_HEADER_BYTES + MAX_METADATA_BASE_READER_BYTES) (label @ ''.base'')) (\<lambda>base.
                  iolift (onlyVersion (decodeMetadataBase base)))))"

definition initialSlot :: "byte list \<Rightarrow> byte list res" where
  "initialSlot base =
     encodeActivationSlot \<lparr>actSequence = 1, actMetadataFile = MetaA, actGeneration = 1,
       actBaseEnd = int (length base), actBaseDigest = metadataBaseDigest base\<rparr>"

definition classifyMetadata ::
  "('w, 'h) store_ops \<Rightarrow> (OwnedFileName \<Rightarrow> 'h) \<Rightarrow> (OwnedFileName \<Rightarrow> int) \<Rightarrow> OwnedFileName \<Rightarrow> byte list \<Rightarrow> ('w, unit) io" where
  "classifyMetadata ops handles sizes name canonical =
     iobind (detectCompleteMetadataVersion ops (handles name) (sizes name) (ownedName name @ ''.inspect.bootstrap'')) (\<lambda>_.
     if sizes name > int (length canonical) then iofail CorruptStoreError
     else
       iobind (readWhole ops (handles name) (sizes name) (int (length canonical))
                 (ownedName name @ ''.read.bootstrap'')) (\<lambda>source.
         if \<not> isPrefix source canonical then iofail CorruptStoreError else ioret ()))"

definition classifyBootstrapResidue ::
  "('w, 'h) store_ops \<Rightarrow> (OwnedFileName \<Rightarrow> 'h) \<Rightarrow> (OwnedFileName \<Rightarrow> int) \<Rightarrow> int option \<Rightarrow> ('w, int) io" where
  "classifyBootstrapResidue ops handles sizes configured =
     iobind (bootstrapExtentSize ops (handles ArenaBin) (sizes ArenaBin) configured) (\<lambda>extSize.
     iobind (iolift (createInitialState extSize)) (\<lambda>initialA.
     iobind (iolift (encodeMetadataBase initialA)) (\<lambda>baseA.
     iobind (iolift (createInitialState extSize)) (\<lambda>fresh.
     let initialB = fresh\<lparr>activeMetadataFile := MetaB, retainedGenerations := (\<lambda>_. None)(MetaB := Some 1)\<rparr> in
     iobind (iolift (encodeMetadataBase initialB)) (\<lambda>baseB.
     iobind (classifyMetadata ops handles sizes MetadataABin baseA) (\<lambda>_.
     iobind (classifyMetadata ops handles sizes MetadataBBin baseB) (\<lambda>_.
     if sizes ActivationBin > int ACTIVATION_SLOT_BYTES * 2 then iofail CorruptStoreError
     else
       iobind (iolift (initialSlot baseA)) (\<lambda>slot.
       let canonicalManifest = setBytes 0 slot (zeros (ACTIVATION_SLOT_BYTES * 2)) in
       iobind (readWhole ops (handles ActivationBin) (sizes ActivationBin) (int (length canonicalManifest))
                 ''activation.read.bootstrap'') (\<lambda>manifest.
       if \<not> isPrefix manifest canonicalManifest then iofail CorruptStoreError
       else if sizes ArenaBin = ARENA_HEADER_BYTES \<and> configured \<noteq> None \<and> configured \<noteq> Some extSize
         then iofail (ExtentSizeMismatchError (the configured) extSize)
       else ioret (if sizes ArenaBin < ARENA_HEADER_BYTES \<and> configured \<noteq> None then the configured else extSize))))))))))"

text \<open>Writing one file of a fresh store: reset, write and flush.\<close>

definition resetFile ::
  "('w, 'h) store_ops \<Rightarrow> 'h \<Rightarrow> string \<Rightarrow> byte list \<Rightarrow> ('w, unit) io" where
  "resetFile ops handle name source =
     iobind (opTruncate ops handle (''bootstrap.'' @ name @ ''.reset'') 0) (\<lambda>_.
     iobind (writeExact (opWrite ops handle (''bootstrap.'' @ name @ ''.write'')) 0 source) (\<lambda>_.
       opFlush ops handle (''bootstrap.'' @ name @ ''.flush'')))"

definition bootstrap ::
  "('w, 'h) store_ops \<Rightarrow> (OwnedFileName \<Rightarrow> 'h) \<Rightarrow> int \<Rightarrow> ('w, 'h OpenedMetadataStore) io" where
  "bootstrap ops handles extSize =
     iobind (iolift (createInitialState extSize)) (\<lambda>state.
     iobind (iolift (encodeArenaHeader extSize)) (\<lambda>arenaBytes.
     iobind (iolift (encodeMetadataBase state)) (\<lambda>baseBytes.
     iobind (iolift (initialSlot baseBytes)) (\<lambda>activationBytes.
     iobind (resetFile ops (handles ArenaBin) ''arena'' arenaBytes) (\<lambda>_.
     iobind (resetFile ops (handles MetadataABin) ''metadata-a'' baseBytes) (\<lambda>_.
     iobind (opTruncate ops (handles MetadataBBin) ''bootstrap.metadata-b.reset'' 0) (\<lambda>_.
     iobind (resetFile ops (handles ActivationBin) ''activation'' activationBytes) (\<lambda>_.
     iobind (iolift (decodeMetadataBase baseBytes)) (\<lambda>decoded.
       ioret \<lparr>storeHandles = handles, storeState = decodedState decoded, activeLogEnd = decodedBaseEnd decoded,
              nextSequence = 1, activeLogBytes = 0, activeLogFrames = 0, activationSequence = 1,
              arenaHighWaterExtents = 0, arenaSize = int (length arenaBytes), arenaDirty = False,
              activeMetadataDirty = False\<rparr>)))))))))"


section \<open>An activated store\<close>

definition metadataHandle :: "(OwnedFileName \<Rightarrow> 'h) \<Rightarrow> MetadataFile \<Rightarrow> 'h" where
  "metadataHandle handles name = handles (metadataFileName name)"

definition verifyInactiveVersion ::
  "('w, 'h) store_ops \<Rightarrow> (OwnedFileName \<Rightarrow> 'h) \<Rightarrow> (OwnedFileName \<Rightarrow> int) \<Rightarrow> MetadataFile \<Rightarrow> ('w, unit) io" where
  "verifyInactiveVersion ops handles sizes selectedFile =
     (let inactiveName = metadataFileName (otherMetadataFile selectedFile)
      in detectCompleteMetadataVersion ops (handles inactiveName) (sizes inactiveName)
           (ownedName inactiveName @ ''.inspect.inactive''))"

definition readSelectedBase ::
  "('w, 'h) store_ops \<Rightarrow> 'h \<Rightarrow> int \<Rightarrow> ActivationRecord \<Rightarrow> ('w, DecodedMetadataBase \<times> MetadataBaseHeader) io" where
  "readSelectedBase ops handle fsize selected =
     (if fsize < int METADATA_HEADER_BYTES then iofail CorruptStoreError
      else
        iobind (readAt ops handle 0 (int METADATA_HEADER_BYTES) (int METADATA_HEADER_BYTES) ''metadata.read.header'') (\<lambda>headerBytes.
        iobind (iolift (inspectMetadataBaseHeader headerBytes)) (\<lambda>header.
        if hdrBaseEnd header \<noteq> actBaseEnd selected \<or> hdrBaseEnd header > fsize then iofail CorruptStoreError
        else
          iobind (readAt ops handle 0 (hdrBaseEnd header)
                    (int METADATA_HEADER_BYTES + MAX_METADATA_BASE_READER_BYTES) ''metadata.read.base'') (\<lambda>baseBytes.
          iobind (iolift (decodeMetadataBase baseBytes)) (\<lambda>decoded.
          if activeMetadataFile (decodedState decoded) \<noteq> actMetadataFile selected
             \<or> generation (decodedState decoded) \<noteq> actGeneration selected
             \<or> decodedBaseEnd decoded \<noteq> actBaseEnd selected
             \<or> decodedBaseDigest decoded \<noteq> actBaseDigest selected
          then iofail CorruptStoreError
          else ioret (decoded, header))))))"

definition requiredArenaEnd :: "VfsState \<Rightarrow> int res" where
  "requiredArenaEnd state =
     ebind (checkedMultiply (totalExtents (allocator state)) (extentSize state)) (\<lambda>extentBytes.
       checkedAdd ARENA_HEADER_BYTES extentBytes)"

text \<open>
  Replay reads frame after frame and stops at the first one that is not whole, not valid, not the next
  of this generation, or not accepted by the state; what it has applied by then stays.
\<close>

definition stopsReplay :: "store_error \<Rightarrow> bool" where
  "stopsReplay cause = (case cause of CorruptStoreError \<Rightarrow> True | FsError _ \<Rightarrow> True | StoreLimitError \<Rightarrow> True | _ \<Rightarrow> False)"

text \<open>One frame: whether the replay goes on, and the state, which a refused transaction leaves as it was.\<close>

definition replayFrame :: "byte list \<Rightarrow> int \<Rightarrow> VfsState \<Rightarrow> bool res \<times> VfsState" where
  "replayFrame frameBytes sequence state =
     (case decodeTxnFrame frameBytes of
        Inl cause \<Rightarrow> (if stopsReplay cause then Inr False else Inl cause, state)
      | Inr frame \<Rightarrow>
          if frameGeneration frame \<noteq> generation state \<or> frameSequence frame \<noteq> sequence then (Inr False, state)
          else
            (case applyTxn state (frameRecord frame) None of
               (None, state') \<Rightarrow> (Inr True, state')
             | (Some cause, state') \<Rightarrow> (if stopsReplay cause then Inr False else Inl cause, state')))"

function replayLoop ::
  "('w, 'h) store_ops \<Rightarrow> 'h \<Rightarrow> int \<Rightarrow> int \<Rightarrow> int \<Rightarrow> int \<Rightarrow> int \<Rightarrow> VfsState \<Rightarrow> ('w, int \<times> int \<times> VfsState) io" where
  "replayLoop ops handle fsize baseEnd cursor sequence frameCount state w =
     (if cursor < fsize \<and> frameCount < MAX_ACTIVE_LOG_FRAMES then
        let logBytes = cursor - baseEnd; remaining = fsize - cursor in
        if remaining < int TXN_FRAME_HEADER_BYTES
           \<or> logBytes + int TXN_FRAME_HEADER_BYTES > MAX_ACTIVE_LOG_BYTES
        then (Inr (cursor, sequence, state), w)
        else
          (case readAt ops handle cursor (int TXN_FRAME_HEADER_BYTES) (int TXN_FRAME_HEADER_BYTES)
                  ''metadata.log.read-header'' w of
             (Inl e, w') \<Rightarrow> (Inl e, w')
           | (Inr headerBytes, w') \<Rightarrow>
               (case inspectTxnFrameHeader headerBytes of
                  Inl e \<Rightarrow> if e = CorruptStoreError then (Inr (cursor, sequence, state), w') else (Inl e, w')
                | Inr inspected \<Rightarrow>
                    if headerFrameBytes inspected > remaining
                       \<or> logBytes + headerFrameBytes inspected > MAX_ACTIVE_LOG_BYTES
                    then (Inr (cursor, sequence, state), w')
                    else
                      (case readAt ops handle cursor (headerFrameBytes inspected)
                              (int TXN_FRAME_HEADER_BYTES + headerPayloadLength inspected)
                              ''metadata.log.read-frame'' w' of
                         (Inl e, w'') \<Rightarrow> (Inl e, w'')
                       | (Inr frameBytes, w'') \<Rightarrow>
                           (case replayFrame frameBytes sequence state of
                              (Inl e, _) \<Rightarrow> (Inl e, w'')
                            | (Inr False, state') \<Rightarrow> (Inr (cursor, sequence, state'), w'')
                            | (Inr True, state') \<Rightarrow>
                                replayLoop ops handle fsize baseEnd (cursor + headerFrameBytes inspected)
                                  (sequence + 1) (frameCount + 1) state' w''))))
      else (Inr (cursor, sequence, state), w))"
  by pat_completeness auto
termination
  by (relation "measure (\<lambda>(ops, h, fsize, base, cur, sq, fc, st, w). nat (MAX_ACTIVE_LOG_FRAMES - fc))") auto

declare replayLoop.simps [simp del]

record ReplayedLog =
  replayedEnd :: int
  replayedNext :: int
  replayedArenaEnd :: int
  replayedState :: VfsState

definition replayLog ::
  "('w, 'h) store_ops \<Rightarrow> 'h \<Rightarrow> int \<Rightarrow> VfsState \<Rightarrow> int \<Rightarrow> ('w, ReplayedLog) io" where
  "replayLog ops handle fsize state baseEnd =
     iobind (iolift (checkedSafeNumber baseEnd)) (\<lambda>cursor.
     iobind (replayLoop ops handle fsize baseEnd cursor 1 0 state) (\<lambda>(cursor, sequence, state).
     iobind (iolift (validateState state)) (\<lambda>_.
     iobind (iolift (requiredArenaEnd state)) (\<lambda>required.
       ioret \<lparr>replayedEnd = cursor, replayedNext = sequence, replayedArenaEnd = required, replayedState = state\<rparr>))))"

definition recoverActivated ::
  "('w, 'h) store_ops \<Rightarrow> (OwnedFileName \<Rightarrow> 'h) \<Rightarrow> (OwnedFileName \<Rightarrow> int) \<Rightarrow> byte list \<Rightarrow> byte list \<Rightarrow> int option
     \<Rightarrow> ('w, 'h OpenedMetadataStore) io" where
  "recoverActivated ops handles sizes leftBytes rightBytes configured =
     (if sizes ArenaBin < ARENA_HEADER_BYTES then iofail CorruptStoreError
      else
        iobind (readAt ops (handles ArenaBin) 0 ARENA_HEADER_BYTES ARENA_HEADER_BYTES ''arena.read.header'') (\<lambda>arenaBytes.
        iobind (iolift (decodeArenaHeader arenaBytes None)) (\<lambda>arenaHeader.
        iobind (iolift (selectActivationPair leftBytes rightBytes)) (\<lambda>(selected, other).
        iobind (verifyInactiveVersion ops handles sizes (actMetadataFile selected)) (\<lambda>_.
        let selectedHandle = metadataHandle handles (actMetadataFile selected);
            selectedSize = sizes (metadataFileName (actMetadataFile selected)) in
        iobind (readSelectedBase ops selectedHandle selectedSize selected) (\<lambda>(decoded, header).
        if extentSize (decodedState decoded) \<noteq> arenaExtentSize arenaHeader
           \<or> hdrLimitsProfileVersion header \<noteq> arenaLimitsProfileVersion arenaHeader
        then iofail CorruptStoreError
        else
          let state = (case other of
                None \<Rightarrow> decodedState decoded
              | Some o' \<Rightarrow> (decodedState decoded)
                  \<lparr>retainedGenerations := (retainedGenerations (decodedState decoded))
                     (actMetadataFile o' := Some (actGeneration o'))\<rparr>) in
          iobind (iolift (case validateState state of
              Inl e \<Rightarrow> if e = StoreLimitError then Inl CorruptStoreError else Inl e
            | Inr _ \<Rightarrow> Inr ())) (\<lambda>_.
          iobind (replayLog ops selectedHandle selectedSize state (decodedBaseEnd decoded)) (\<lambda>replayed.
          if configured \<noteq> None \<and> configured \<noteq> Some (arenaExtentSize arenaHeader)
          then iofail (ExtentSizeMismatchError (the configured) (arenaExtentSize arenaHeader))
          else
            iobind (iolift (checkedSafeNumber (replayedArenaEnd replayed))) (\<lambda>requiredEnd.
            let dirtyArena = sizes ArenaBin < requiredEnd;
                dirtyMetadata = replayedEnd replayed < selectedSize in
            iobind (if dirtyArena
                    then truncateChecked (opTruncate ops (handles ArenaBin) ''recovery.arena.grow'') (replayedArenaEnd replayed)
                    else ioret ()) (\<lambda>_.
            iobind (if dirtyMetadata
                    then truncateChecked (opTruncate ops selectedHandle ''recovery.metadata.discard-suffix'')
                           (replayedEnd replayed)
                    else ioret ()) (\<lambda>_.
            let physical = (max 0 (sizes ArenaBin - ARENA_HEADER_BYTES) + arenaExtentSize arenaHeader - 1)
                             div arenaExtentSize arenaHeader;
                total = totalExtents (allocator (replayedState replayed))
            in ioret \<lparr>storeHandles = handles, storeState = replayedState replayed,
                      activeLogEnd = replayedEnd replayed, nextSequence = replayedNext replayed,
                      activeLogBytes = replayedEnd replayed - decodedBaseEnd decoded,
                      activeLogFrames = replayedNext replayed - 1,
                      activationSequence = actSequence selected,
                      arenaHighWaterExtents = (if physical > total then physical else total),
                      arenaSize = (if dirtyArena then requiredEnd else sizes ArenaBin),
                      arenaDirty = dirtyArena, activeMetadataDirty = dirtyMetadata\<rparr>)))))))))))"

text \<open>The body of the \<open>try\<close> in \<open>openMetadataStore\<close>, once the four handles are held.\<close>

definition openAcquired ::
  "('w, 'h) store_ops \<Rightarrow> (OwnedFileName \<Rightarrow> 'h) \<Rightarrow> int option \<Rightarrow> ('w, 'h OpenedMetadataStore) io" where
  "openAcquired ops handles configured =
     iobind (getSizes ops handles) (\<lambda>sizes.
     iobind (readSlot ops (handles ActivationBin) (sizes ActivationBin) 0) (\<lambda>leftBytes.
     iobind (readSlot ops (handles ActivationBin) (sizes ActivationBin) 1) (\<lambda>rightBytes.
     iobind (detectArenaVersion ops (handles ArenaBin) (sizes ArenaBin)) (\<lambda>_.
     iobind (detectCompleteMetadataVersion ops (handles MetadataABin) (sizes MetadataABin)
               ''metadata-a.bin.inspect.identity'') (\<lambda>_.
     iobind (detectCompleteMetadataVersion ops (handles MetadataBBin) (sizes MetadataBBin)
               ''metadata-b.bin.inspect.identity'') (\<lambda>_.
     iobind (iolift (tryDecodeActivationSlot leftBytes)) (\<lambda>left.
     iobind (iolift (tryDecodeActivationSlot rightBytes)) (\<lambda>right.
     if sizes ActivationBin > int ACTIVATION_SLOT_BYTES * 2 then iofail CorruptStoreError
     else if left \<noteq> None \<or> right \<noteq> None
       then recoverActivated ops handles sizes leftBytes rightBytes configured
     else
       iobind (classifyBootstrapResidue ops handles sizes configured) (\<lambda>extSize.
         bootstrap ops handles extSize)))))))))"

definition openMetadataStore :: "('w, 'h) store_ops \<Rightarrow> int option \<Rightarrow> ('w, 'h OpenedMetadataStore) io" where
  "openMetadataStore ops configured =
     iobind (iolift (case configured of None \<Rightarrow> Inr 0 | Some c \<Rightarrow> validateExtentSize c)) (\<lambda>_.
     iobind (acquireHandles ops) (\<lambda>handles.
     orClose ops (map handles [ActivationBin, ArenaBin, MetadataABin, MetadataBBin])
       (openAcquired ops handles configured)))"

end
