(* ===== verification/StoreHost.thy ===== *)
theory StoreHost
  imports MetadataStore
begin

text \<open>
  The contract between the store and its host: what the operations of the four owned files do to a view
  of the world, the bytes every file has, the bytes that would survive a crash, and the open handles.
\<close>

datatype change = Put int "byte list" | Resize nat

fun applied :: "change \<Rightarrow> byte list \<Rightarrow> byte list" where
  "applied (Put at src) file = putBytes at src file"
| "applied (Resize n) file = resized n file"

text \<open>
  A view of the files: their bytes, the bytes that are durable, and the changes since, in order; which
  files are held, and by which handles.
\<close>

record 'h host_view =
  hvFiles :: "OwnedFileName \<Rightarrow> byte list"
  hvDurable :: "OwnedFileName \<Rightarrow> byte list"
  hvPending :: "OwnedFileName \<Rightarrow> change list"
  hvOpen :: "OwnedFileName set"
  hvValid :: "'h \<Rightarrow> OwnedFileName \<Rightarrow> bool"

definition changeFile :: "OwnedFileName \<Rightarrow> change \<Rightarrow> 'h host_view \<Rightarrow> 'h host_view" where
  "changeFile name c v = v\<lparr>hvFiles := (hvFiles v)(name := applied c (hvFiles v name)),
     hvPending := (hvPending v)(name := hvPending v name @ [c])\<rparr>"

definition keepFile :: "OwnedFileName \<Rightarrow> 'h host_view \<Rightarrow> 'h host_view" where
  "keepFile name v = v\<lparr>hvDurable := (hvDurable v)(name := hvFiles v name), hvPending := (hvPending v)(name := [])\<rparr>"

definition hideFile :: "OwnedFileName \<Rightarrow> 'h host_view \<Rightarrow> 'h host_view" where
  "hideFile name v = v\<lparr>hvFiles := (hvFiles v)(name := []), hvPending := (hvPending v)(name := [])\<rparr>"

lemma view_simps [simp]:
  "hvFiles (changeFile name c v) = (hvFiles v)(name := applied c (hvFiles v name))"
  "hvPending (changeFile name c v) = (hvPending v)(name := hvPending v name @ [c])"
  "hvDurable (changeFile name c v) = hvDurable v" "hvOpen (changeFile name c v) = hvOpen v"
  "hvValid (changeFile name c v) = hvValid v"
  "hvFiles (keepFile name v) = hvFiles v" "hvDurable (keepFile name v) = (hvDurable v)(name := hvFiles v name)"
  "hvPending (keepFile name v) = (hvPending v)(name := [])"
  "hvOpen (keepFile name v) = hvOpen v" "hvValid (keepFile name v) = hvValid v"
  "hideFile name (changeFile name c v) = hideFile name v"
  by (simp_all add: changeFile_def keepFile_def hideFile_def)

text \<open>
  What a crash can leave of a file: every change since its last flush is lost, kept, or, a write, kept in
  part, independently of the others.
\<close>

fun outcomes :: "change \<Rightarrow> byte list \<Rightarrow> byte list set" where
  "outcomes (Put at src) file = {file} \<union> {putBytes at (take n src) file | n. 0 < n \<and> n \<le> length src}"
| "outcomes (Resize n) file = {file, resized n file}"

fun crashes :: "change list \<Rightarrow> byte list \<Rightarrow> byte list set" where
  "crashes [] file = {file}"
| "crashes (c # cs) file = (\<Union>f \<in> outcomes c file. crashes cs f)"

definition sameFiles :: "'h host_view \<Rightarrow> 'h host_view \<Rightarrow> bool" where
  "sameFiles v v' \<longleftrightarrow> hvFiles v = hvFiles v' \<and> hvDurable v = hvDurable v' \<and> hvPending v = hvPending v'"

definition crash_image :: "'h host_view \<Rightarrow> (OwnedFileName \<Rightarrow> byte list) \<Rightarrow> bool" where
  "crash_image v files \<longleftrightarrow> (\<forall>name. files name \<in> crashes (hvPending v name) (hvDurable v name))"

lemma outcome_lost: "f \<in> outcomes c f"
  by (cases c) auto

lemma crashes_append: "crashes (cs @ ds) f = (\<Union>g \<in> crashes cs f. crashes ds g)"
  by (induction cs arbitrary: f) auto

lemma crashes_lost: "f \<in> crashes cs f"
  by (induction cs arbitrary: f) (use outcome_lost in force)+

definition replaced :: "OwnedFileName \<Rightarrow> byte list \<Rightarrow> 'h host_view \<Rightarrow> 'h host_view" where
  "replaced name src v = keepFile name (changeFile name (Put 0 src) (changeFile name (Resize 0) v))"

lemma replaced_simps [simp]:
  "hvValid (replaced name src v) = hvValid v" "hvOpen (replaced name src v) = hvOpen v"
  "hvFiles (replaced name src v) = (hvFiles v)(name := src)" "hvDurable (replaced name src v) = (hvDurable v)(name := src)"
  "hvPending (replaced name src v) = (hvPending v)(name := [])"
  by (simp_all add: replaced_def putBytes_def resized_def Let_def)

text \<open>A computation takes every world with one view to a result and a world with another.\<close>

definition steps :: "('w \<Rightarrow> 'v \<Rightarrow> bool) \<Rightarrow> 'v \<Rightarrow> ('w, 'a) io \<Rightarrow> 'a res \<Rightarrow> 'v \<Rightarrow> bool" where
  "steps at v m r v' \<longleftrightarrow> (\<forall>w. at w v \<longrightarrow> (\<exists>w'. m w = (r, w') \<and> at w' v'))"

lemma stepsD: "steps at v m r v' \<Longrightarrow> at w v \<Longrightarrow> \<exists>w'. m w = (r, w') \<and> at w' v'"
  by (simp add: steps_def)

lemma steps_pure [simp]: "steps at v (ioret x) (Inr x) v" "steps at v (iofail e) (Inl e) v" "steps at v (iolift r) r v"
  "steps at v (Pair r) r v"
  by (simp_all add: steps_def)

lemma steps_bind: "steps at v m (Inr x) v1 \<Longrightarrow> steps at v1 (f x) r v2 \<Longrightarrow> steps at v (iobind m f) r v2"
  unfolding steps_def by (metis io_simps(4))

lemma steps_bind_fail: "steps at v m (Inl e) v1 \<Longrightarrow> steps at v (iobind m f) (Inl e) v1"
  unfolding steps_def by (metis io_simps(5))

lemma steps_catch_ok: "steps at v m (Inr x) v1 \<Longrightarrow> steps at v (iocatch m f) (Inr x) v1"
  by (fastforce simp: steps_def iocatch_def)

lemma steps_catch_fail: "steps at v m (Inl e) v1 \<Longrightarrow> steps at v1 (f e) r v2 \<Longrightarrow> steps at v (iocatch m f) r v2"
  unfolding steps_def by (fastforce simp: iocatch_def)

locale store_host =
  fixes ops :: "('w, 'h) store_ops" and inv :: "'w \<Rightarrow> bool" and view :: "'w \<Rightarrow> 'h host_view"
  assumes file_sizes: "inv w \<Longrightarrow> int (length (hvFiles (view w) name)) \<le> MAX_SAFE_INTEGER"
    and changes: "inv w \<Longrightarrow> hvFiles (view w) name = fold applied (hvPending (view w) name) (hvDurable (view w) name)"
    and enumerates: "inv w \<Longrightarrow> \<exists>entries w'. opEnumerate ops label w = (Inr entries, w') \<and> inv w' \<and> view w' = view w
      \<and> (\<forall>entry \<in> set entries. \<exists>name. entry = (Inl name, FileEntry))"
    and acquires: "inv w \<Longrightarrow> name \<notin> hvOpen (view w) \<Longrightarrow> \<exists>h w'. opAcquire ops name label w = (Inr h, w') \<and> inv w'
      \<and> hvFiles (view w') = hvFiles (view w) \<and> hvDurable (view w') = hvDurable (view w)
      \<and> hvPending (view w') = hvPending (view w) \<and> hvOpen (view w') = insert name (hvOpen (view w))
      \<and> hvValid (view w') h name \<and> (\<forall>h' other. hvValid (view w) h' other \<longrightarrow> hvValid (view w') h' other)"
    and sizes: "inv w \<Longrightarrow> hvValid (view w) h name \<Longrightarrow>
      \<exists>w'. opGetSize ops h label w = (Inr (int (length (hvFiles (view w) name))), w') \<and> inv w' \<and> view w' = view w"
    and reads: "inv w \<Longrightarrow> hvValid (view w) h name \<Longrightarrow> 0 \<le> at \<Longrightarrow> 0 < room \<Longrightarrow> at + room \<le> MAX_SAFE_INTEGER \<Longrightarrow>
      at < int (length (hvFiles (view w) name)) \<Longrightarrow>
      \<exists>n w'. 0 < n \<and> int n \<le> room \<and> nat at + n \<le> length (hvFiles (view w) name)
        \<and> opRead ops h label at room w = (Inr (int n, take n (drop (nat at) (hvFiles (view w) name))), w')
        \<and> inv w' \<and> view w' = view w"
    and reads_end: "inv w \<Longrightarrow> hvValid (view w) h name \<Longrightarrow> 0 < room \<Longrightarrow> at + room \<le> MAX_SAFE_INTEGER \<Longrightarrow>
      int (length (hvFiles (view w) name)) \<le> at \<Longrightarrow>
      \<exists>part w'. opRead ops h label at room w = (Inr (0, part), w') \<and> inv w' \<and> view w' = view w"
    and writes: "inv w \<Longrightarrow> hvValid (view w) h name \<Longrightarrow> 0 \<le> at \<Longrightarrow> src \<noteq> [] \<Longrightarrow> at + int (length src) \<le> MAX_SAFE_INTEGER \<Longrightarrow>
      \<exists>w'. opWrite ops h label at src w = (Inr (int (length src)), w') \<and> inv w' \<and> view w' = changeFile name (Put at src) (view w)"
    and truncates: "inv w \<Longrightarrow> hvValid (view w) h name \<Longrightarrow> 0 \<le> n \<Longrightarrow> n \<le> MAX_SAFE_INTEGER \<Longrightarrow>
      \<exists>w'. opTruncate ops h label n w = (Inr (), w') \<and> inv w'
        \<and> view w' = changeFile name (Resize (nat n)) (view w)"
    and flushes: "inv w \<Longrightarrow> hvValid (view w) h name \<Longrightarrow>
      \<exists>w'. opFlush ops h label w = (Inr (), w') \<and> inv w' \<and> view w' = keepFile name (view w)"

sublocale store_host \<subseteq> reader: file_reader "opRead ops h label" "\<lambda>w. hvFiles (view w) name"
    "\<lambda>w. inv w \<and> hvValid (view w) h name" view for h label name
  using reads reads_end by unfold_locales fastforce+

sublocale store_host \<subseteq> writer: file_writer "opWrite ops h label" "\<lambda>w. hvFiles (view w) name"
    "\<lambda>w. inv w \<and> hvValid (view w) h name" "\<lambda>w. hideFile name (view w)" for h label name
proof (unfold_locales, goal_cases)
  case (1 w at src)
  then obtain w' where "opWrite ops h label at src w = (Inr (int (length src)), w')" "inv w'"
    "view w' = changeFile name (Put at src) (view w)" using writes by blast
  with 1 show ?case by (intro exI [of _ "length src"] exI [of _ w']) simp
qed

definition showing :: "('w \<Rightarrow> bool) \<Rightarrow> ('w \<Rightarrow> 'v) \<Rightarrow> 'w \<Rightarrow> 'v \<Rightarrow> bool" where
  "showing good view w v \<longleftrightarrow> good w \<and> view w = v"

lemma putBytes_all [simp]: "putBytes 0 src [] = src"
  by (simp add: putBytes_def Let_def)

lemma resized_0 [simp]: "resized 0 f = []" and resized_le: "n \<le> length f \<Longrightarrow> resized n f = take n f"
  by (simp_all add: resized_def)

context store_host
begin

abbreviation does where "does \<equiv> steps (showing inv view)"

lemma size_does:
  "hvValid v h name \<Longrightarrow> does v (opGetSize ops h label) (Inr (int (length (hvFiles v name)))) v"
  using sizes by (fastforce simp: steps_def showing_def)

lemma read_does:
  assumes "hvValid v h name" and "0 \<le> offset" and "0 \<le> len" and "len \<le> maximum" and "maximum \<le> MAX_SAFE_INTEGER"
    and "len = 0 \<or> offset + len \<le> int (length (hvFiles v name))" and "offset + len \<le> MAX_SAFE_INTEGER"
  shows "does v (readAt ops h offset len maximum label) (Inr (take (nat len) (drop (nat offset) (hvFiles v name)))) v"
  unfolding steps_def showing_def
proof (intro allI impI)
  fix w assume w: "inv w \<and> view w = v"
  then show "\<exists>w'. readAt ops h offset len maximum label w
      = (Inr (take (nat len) (drop (nat offset) (hvFiles v name))), w') \<and> inv w' \<and> view w' = v"
    using reader.readExact_slice [of w h name offset len maximum label] assms by (auto simp: readAt_def)
qed

lemma write_does:
  assumes "hvValid v h name" and "0 \<le> offset" and "src \<noteq> []" and "offset + int (length src) \<le> MAX_SAFE_INTEGER"
  shows "does v (writeExact (opWrite ops h label) offset src) (Inr ()) (changeFile name (Put offset src) v)"
  unfolding steps_def showing_def
proof (intro allI impI)
  fix w assume w: "inv w \<and> view w = v"
  obtain w' where w': "opWrite ops h label offset src w = (Inr (int (length src)), w')" "inv w'"
    "view w' = changeFile name (Put offset src) v"
    using writes [of w h name offset src label] assms w by auto
  have "checkedRange offset (int (length src)) = Inr offset" "isSafeInteger (int (length src))"
    using assms by (simp_all add: checkedRange_def isSafeInteger_def checkedAdd_def checkedSafeNumber_def
        checkedU64_def MAX_U64_def MAX_SAFE_INTEGER_def)
  then have "writeExact (opWrite ops h label) offset src w = (Inr (), w')"
    using w'(1) assms(3) by (simp add: writeExact_def) (subst writeLoop.simps, simp, subst writeLoop.simps, simp)
  with w' show "\<exists>w'. writeExact (opWrite ops h label) offset src w = (Inr (), w') \<and> inv w'
      \<and> view w' = changeFile name (Put offset src) v"
    by blast
qed

lemma truncate_does:
  "hvValid v h name \<Longrightarrow> 0 \<le> n \<Longrightarrow> n \<le> MAX_SAFE_INTEGER \<Longrightarrow>
     does v (opTruncate ops h label n) (Inr ()) (changeFile name (Resize (nat n)) v)"
  using truncates by (fastforce simp: steps_def showing_def)

lemma truncateChecked_does:
  assumes "hvValid v h name" and "0 \<le> n" and "n \<le> MAX_SAFE_INTEGER"
  shows "does v (truncateChecked (opTruncate ops h label) n) (Inr ()) (changeFile name (Resize (nat n)) v)"
proof -
  have "checkedSafeNumber n = Inr n"
    using assms by (simp add: checkedSafeNumber_def checkedU64_def MAX_U64_def MAX_SAFE_INTEGER_def)
  with truncate_does [OF assms] show ?thesis by (simp add: truncateChecked_def)
qed

lemma flush_does: "hvValid v h name \<Longrightarrow> does v (opFlush ops h label) (Inr ()) (keepFile name v)"
  using flushes by (fastforce simp: steps_def showing_def)

text \<open>Resetting a file replaces it, durably.\<close>

lemma reset_does:
  assumes "hvValid v h name" and "src \<noteq> []" and "int (length src) \<le> MAX_SAFE_INTEGER"
  shows "does v (resetFile ops h l src) (Inr ()) (replaced name src v)"
  unfolding resetFile_def replaced_def
  by (rule steps_bind [OF truncate_does [OF assms(1)]], simp, simp add: MAX_SAFE_INTEGER_def, rule steps_bind [OF write_does])
    (use assms flush_does [of "changeFile name (Put 0 src) (changeFile name (Resize 0) v)"] in
      \<open>simp_all add: MAX_SAFE_INTEGER_def\<close>)

end

end
