(* ===== verification/SameState.thy ===== *)
theory SameState
  imports ValidateProofs "HOL-Library.Multiset"
begin

text \<open>
  When two states are the same file system: every table has the same entries, in whatever order, and
  every directory the same children. The invariant, the paths and the sizes do not see the order.
  What each metadata file retains is left out: a decoded base knows only its own generation.
\<close>

definition same_body :: "InodeBody \<Rightarrow> InodeBody \<Rightarrow> bool" where
  "same_body a b \<longleftrightarrow>
     (case (a, b) of
        (Directory es, Directory es') \<Rightarrow> map_of es = map_of es'
      | (File n xs, File n' xs') \<Rightarrow> n = n' \<and> xs = xs'
      | (Symlink t, Symlink t') \<Rightarrow> t = t'
      | _ \<Rightarrow> False)"

definition same_inode :: "Inode \<Rightarrow> Inode \<Rightarrow> bool" where
  "same_inode i j \<longleftrightarrow> inodeId i = inodeId j \<and> imode i = imode j \<and> atimeMs i = atimeMs j
     \<and> mtimeMs i = mtimeMs j \<and> ctimeMs i = ctimeMs j \<and> same_body (body i) (body j)"

definition same_state :: "VfsState \<Rightarrow> VfsState \<Rightarrow> bool" where
  "same_state st st' \<longleftrightarrow> generation st = generation st' \<and> nextInodeId st = nextInodeId st'
     \<and> rootInodeId st = rootInodeId st' \<and> extentSize st = extentSize st'
     \<and> activeMetadataFile st = activeMetadataFile st' \<and> basePayloadBytes st = basePayloadBytes st'
     \<and> (\<forall>k. rel_option same_inode (imap st k) (imap st' k)) \<and> pmap st = pmap st'
     \<and> totalExtents (allocator st) = totalExtents (allocator st')
     \<and> map_of (ownedBy (allocator st)) = map_of (ownedBy (allocator st'))
     \<and> extents_of (available (allocator st)) = extents_of (available (allocator st'))
     \<and> map_of (quarantine (allocator st)) = map_of (quarantine (allocator st'))"

lemma same_inode_parts:
  assumes "same_inode i j"
  shows "isDirectory i = isDirectory j" "map_of (children i) = map_of (children j)"
    "fileExtents i = fileExtents j"
  using assms by (auto simp: same_inode_def same_body_def isDirectory_def children_def fileExtents_def
      split: InodeBody.splits)

lemma same_state_imap:
  assumes "same_state st st'"
  shows "imap st k = Some i \<Longrightarrow> \<exists>j. imap st' k = Some j \<and> same_inode i j"
    and "imap st' k = Some j \<Longrightarrow> \<exists>i. imap st k = Some i \<and> same_inode i j"
    and "imap st k = None \<longleftrightarrow> imap st' k = None"
proof -
  have "rel_option same_inode (imap st k) (imap st' k)" using assms by (simp add: same_state_def)
  then show "imap st k = Some i \<Longrightarrow> \<exists>j. imap st' k = Some j \<and> same_inode i j"
    "imap st' k = Some j \<Longrightarrow> \<exists>i. imap st k = Some i \<and> same_inode i j"
    "imap st k = None \<longleftrightarrow> imap st' k = None"
    by (auto simp: option_rel_Some1 option_rel_Some2)
qed

lemma same_state_views:
  assumes "same_state st st'"
  shows same_child_of: "child_of st' = child_of st" and same_lookup: "lookup st' = lookup st"
    and same_file_extents: "file_extents st' = file_extents st" and same_dom: "dom (imap st') = dom (imap st)"
proof -
  have *: "child_of st' k = child_of st k \<and> file_extents st' k = file_extents st k" for k
  proof (cases "imap st k")
    case None
    with same_state_imap(3) [OF assms, of k] have "imap st' k = None" by simp
    with None show ?thesis by (simp add: child_of_def file_extents_def)
  next
    case (Some i)
    from same_state_imap(1) [OF assms this] obtain j where "imap st' k = Some j" "same_inode i j" by blast
    with Some same_inode_parts [of i j] show ?thesis by (simp add: child_of_def file_extents_def)
  qed
  then show ch: "child_of st' = child_of st" and "file_extents st' = file_extents st" by blast+
  have "rootInodeId st' = rootInodeId st" using assms by (simp add: same_state_def)
  with ch have "lookup st' cs = lookup st cs" for cs by (simp add: lookup_def)
  then show "lookup st' = lookup st" by blast
  show "dom (imap st') = dom (imap st)" using same_state_imap(3) [OF assms] by (intro set_eqI) (simp only: domIff)
qed

text \<open>Sums over tables with the same entries agree.\<close>

lemma msum_same: "wf_map m \<Longrightarrow> wf_map m' \<Longrightarrow> map_of m = map_of m' \<Longrightarrow> msum f m = msum f m'"
proof -
  assume m: "wf_map m" "wf_map m'" "map_of m = map_of m'"
  then have "set m = set m'" by (auto simp: wf_map_in_set)
  moreover have "distinct m" "distinct m'" using m by (simp_all add: wf_map_def distinct_map)
  ultimately have "mset m = mset m'" by (simp add: set_eq_iff_mset_eq_distinct)
  then have "mset (map (\<lambda>(k, v). f k v) m) = mset (map (\<lambda>(k, v). f k v) m')" by simp
  then have "sum_mset (mset (map (\<lambda>(k, v). f k v) m)) = sum_mset (mset (map (\<lambda>(k, v). f k v) m'))" by simp
  then show ?thesis by (simp only: msum_def sum_mset_sum_list)
qed

lemma length_same: "wf_map m \<Longrightarrow> wf_map m' \<Longrightarrow> map_of m = map_of m' \<Longrightarrow> length m = length m'"
  by (simp add: length_dom)

lemma same_inode_bytes:
  assumes "same_inode i j" and "wf_map (children i)" and "wf_map (children j)"
  shows "inode_bytes j = inode_bytes i"
  using assms msum_same [of "children j" "children i"]
  by (auto simp: same_inode_def same_body_def inode_bytes_def children_def split: InodeBody.splits)

lemma same_base_bytes:
  assumes s: "same_state st st'" and r: "rep_inv st" "rep_inv st'"
  shows "base_bytes st' = base_bytes st"
proof -
  have b: "inode_bytes (the (imap st' k)) = inode_bytes (the (imap st k))" if "k \<in> dom (imap st)" for k
  proof -
    from that obtain i where i: "imap st k = Some i" by blast
    obtain j where j: "imap st' k = Some j" "same_inode i j" using same_state_imap(1) [OF s i] by blast
    from i j r show ?thesis by (simp add: same_inode_bytes rep_inv_def)
  qed
  have "msum (\<lambda>_. inode_bytes) (inodes st') = msum (\<lambda>_. inode_bytes) (inodes st)"
    using r b by (simp add: msum_dom rep_inv_def same_dom [OF s] cong: sum.cong)
  moreover have "length (quarantine (allocator st')) = length (quarantine (allocator st))"
    using r s by (intro length_same) (simp_all add: rep_inv_def same_state_def)
  moreover have "sizeExtent (available (allocator st')) = sizeExtent (available (allocator st))"
    using r s by (simp add: pool.size_card rep_inv_def same_state_def)
  ultimately show ?thesis by (simp add: base_bytes_def pool_bytes_def)
qed

lemma same_body_ok:
  assumes "same_inode i j" and "body_ok ext (body i)" and "wf_map (children j)"
  shows "body_ok ext (body j)"
proof (cases "isDirectory i")
  case True
  with assms(1) have d: "body i = Directory (children i)" "body j = Directory (children j)"
    by (simp_all add: directory_body same_inode_parts(1))
  have "fst ` set (children j) = fst ` set (children i)"
    using same_inode_parts(2) [OF assms(1)] by (metis dom_map_of_conv_image_fst)
  with assms(2,3) d show ?thesis by auto
next
  case False
  with assms(1,2) show ?thesis
    by (auto simp: same_inode_def same_body_def isDirectory_def split: InodeBody.splits)
qed

text \<open>A well-formed representation of a valid state is valid.\<close>

lemma same_vfs_inv:
  assumes inv: "vfs_inv st" and s: "same_state st st'" and r: "rep_inv st'"
    and g: "retainedGenerations st' (activeMetadataFile st') = Some (generation st')"
      "retainedGenerations st' (otherMetadataFile (activeMetadataFile st')) = None"
  shows "vfs_inv st'"
proof -
  note v = vfs_invD [OF inv]
  note eqs = s [unfolded same_state_def]
  have table: "table_inv st'"
    unfolding table_inv_def
  proof (intro conjI allI impI)
    show "wf_map (inodes st')" "wf_map (parentByInode st')" using r by (simp_all add: rep_inv_def)
    show "extent_size_ok (extentSize st')" "u64 (nextInodeId st')"
      using table_invD(5,6) [OF v(1)] eqs by simp_all
    show "int (length (inodes st')) \<le> MAX_INODES"
      using table_invD(1,7) [OF v(1)] r same_dom [OF s] by (simp add: length_dom rep_inv_def)
    show "\<exists>root. imap st' (rootInodeId st') = Some root \<and> isDirectory root"
    proof -
      obtain root where root: "imap st (rootInodeId st) = Some root" "isDirectory root"
        using table_invD(4) [OF v(1)] by blast
      from same_state_imap(1) [OF s root(1)] root(2) eqs show ?thesis by (auto simp: same_inode_parts(1))
    qed
  next
    fix k j
    assume j: "imap st' k = Some j"
    then obtain i where i: "imap st k = Some i" "same_inode i j" using same_state_imap(2) [OF s] by blast
    have "inode_ok (extentSize st) (nextInodeId st) k i" by (rule table_invD(3) [OF v(1) i(1)])
    moreover have "wf_map (children j)" using r j by (simp add: rep_inv_def)
    ultimately show "inode_ok (extentSize st') (nextInodeId st') k j"
      using i(2) same_body_ok [OF i(2)] eqs by (simp add: inode_ok_def same_inode_def)
  qed
  have "tree_inv st'" using v(2) eqs by (simp add: tree_inv_def same_child_of [OF s] same_dom [OF s])
  moreover have "alloc_inv (allocator st') (file_extents st')"
    using v(3) r eqs by (simp add: alloc_inv_def same_file_extents [OF s] rep_inv_def)
  moreover have "gen_inv st'" using v(4) eqs g by (simp add: gen_inv_def)
  moreover have "bytes_inv st'"
    using v(5) same_base_bytes [OF s vfs_inv_rep [OF inv] r] eqs by (simp add: bytes_inv_def)
  ultimately show ?thesis using table by (simp add: vfs_inv_def)
qed

lemma same_paths_ok: "same_state st st' \<Longrightarrow> paths_ok st \<Longrightarrow> paths_ok st'"
  by (simp add: paths_ok_def same_lookup)

end
