(* ===== verification/BaseCodec.thy ===== *)
theory BaseCodec
  imports MetadataBase SameState
begin

text \<open>
  The metadata base round trip: what \<open>encodeMetadataBase\<close> writes for a valid state is decoded to the
  same file system, with its tables in canonical order.
\<close>

section \<open>Ordered reading loops\<close>

fun chain :: "('a \<Rightarrow> 'a \<Rightarrow> bool) \<Rightarrow> 'a option \<Rightarrow> 'a list \<Rightarrow> bool" where
  "chain after previous [] = True"
| "chain after previous (x # xs) =
     ((case previous of None \<Rightarrow> True | Some p \<Rightarrow> after p x) \<and> chain after (Some x) xs)"

lemma chain_sorted:
  assumes "\<And>x y. x \<in> set xs \<Longrightarrow> y \<in> set xs \<Longrightarrow> after x y \<longleftrightarrow> key x < (key y :: 'k :: linorder)"
    and "sorted (map key xs)" and "distinct (map key xs)"
  shows "chain after None xs"
proof -
  have "chain after (Some p) ys"
    if "\<And>x y. x \<in> set (p # ys) \<Longrightarrow> y \<in> set (p # ys) \<Longrightarrow> after x y \<longleftrightarrow> key x < key y"
      "sorted (map key (p # ys))" "distinct (map key (p # ys))" for p ys
    using that
  proof (induction ys arbitrary: p)
    case (Cons y ys)
    have "after p y" using Cons.prems by auto
    moreover have "chain after (Some y) ys" using Cons.prems by (intro Cons.IH) auto
    ultimately show ?case by simp
  qed simp
  with assms show ?thesis by (cases xs) auto
qed

context field
begin

lemma rd_ascending:
  "\<forall>x\<in>set xs. ok x \<Longrightarrow> chain after previous xs \<Longrightarrow> fold_res add xs s = Inr s' \<Longrightarrow>
     readAscending rd after add (length xs) previous s (concat (map enc xs) @ rest) = Inr (s', rest)"
proof (induction xs arbitrary: previous s)
  case (Cons x xs)
  from Cons.prems(3) obtain t where t: "add x s = Inr t" "fold_res add xs t = Inr s'"
    by (auto simp: ebind_eq_Inr)
  have "readAscending rd after add (length xs) (Some x) t (concat (map enc xs) @ rest) = Inr (s', rest)"
    using Cons.prems t(2) by (intro Cons.IH) simp_all
  with Cons.prems t(1) show ?case by (simp add: rd_seq rlift_def)
qed simp

end

lemma update_fresh: "k \<notin> set (keys_of m) \<Longrightarrow> AList.update k v m = m @ [(k, v)]"
  by (induction m) auto

text \<open>Collecting entries with distinct new keys appends them.\<close>

lemma fold_update:
  assumes "\<And>x m. add x m = (Inr (AList.update (key x) (val x) m) :: ('k \<times> 'v) list res)"
  shows "distinct (keys_of m @ map key xs) \<Longrightarrow> fold_res add xs m = Inr (m @ map (\<lambda>x. (key x, val x)) xs)"
  by (induction xs arbitrary: m) (auto simp: assms update_fresh)

text \<open>The same with a check that the key is new.\<close>

lemma fold_update_new:
  assumes "\<And>x m. add x m = (if map_of m (key x) \<noteq> None then Inl CorruptStoreError
      else Inr (AList.update (key x) (val x) m) :: ('k \<times> 'v) list res)"
  shows "distinct (keys_of m @ map key xs) \<Longrightarrow> fold_res add xs m = Inr (m @ map (\<lambda>x. (key x, val x)) xs)"
  by (induction xs arbitrary: m) (auto simp: assms update_fresh map_of_eq_None_iff)

section \<open>Inodes\<close>

definition encChild :: "js_string \<times> int \<Rightarrow> byte list" where
  "encChild c = encText (fst c) @ leBytes 8 (snd c)"

definition child_fits :: "js_string \<times> int \<Rightarrow> bool" where
  "child_fits c \<longleftrightarrow> name_ok (fst c) \<and> fits 8 (snd c)"

definition encBody :: "InodeBody \<Rightarrow> byte list" where
  "encBody b = (case b of
     Directory es \<Rightarrow> leBytes 4 (int (length es)) @ concat (map encChild es)
   | Symlink t \<Rightarrow> encText t
   | File n xs \<Rightarrow> leBytes 8 n @ leBytes 4 (int (length xs)) @ concat (map (leBytes 8) xs))"

definition encInode :: "Inode \<Rightarrow> byte list" where
  "encInode i = leBytes 8 (inodeId i) @ encU8 (inodeKind (body i)) @ leBytes 4 (imode i) @ leBytes 8 (atimeMs i)
     @ leBytes 8 (mtimeMs i) @ leBytes 8 (ctimeMs i) @ encBody (body i)"

definition body_fits :: "InodeBody \<Rightarrow> bool" where
  "body_fits b \<longleftrightarrow> (case b of
     Directory es \<Rightarrow> int (length es) \<le> MAX_INODES \<and> (\<forall>c\<in>set es. child_fits c) \<and> wf_map es
       \<and> sorted (map (\<lambda>c. scalarValues (fst c)) es)
   | Symlink t \<Rightarrow> symlink_target_ok t
   | File n xs \<Rightarrow> fits 8 n \<and> int (length xs) \<le> MAX_EXTENTS_PER_INODE \<and> (\<forall>x\<in>set xs. fits 8 x))"

definition inode_fits :: "Inode \<Rightarrow> bool" where
  "inode_fits i \<longleftrightarrow> fits 8 (inodeId i) \<and> fits 4 (imode i) \<and> fits 8 (atimeMs i) \<and> fits 8 (mtimeMs i)
     \<and> fits 8 (ctimeMs i) \<and> body_fits (body i)"

lemma child_utf8: "child_fits c \<Longrightarrow> utf8_ok (fst c)"
  by (simp add: child_fits_def name_ok_utf8)

lemma sortChildren_id:
  assumes "\<forall>c\<in>set es. utf8_ok (fst c)" and "sorted (map (\<lambda>c. scalarValues (fst c)) es)"
  shows "sortChildren es = es"
  unfolding sortChildren_def using assms by (intro sortIfNeeded_id [OF compares_names])

interpretation child: field writeChild readChild encChild child_fits
proof
  fix v w
  assume v: "child_fits v" and w: "has_room w (length (encChild v))"
  have "utf8_ok (fst v)" "utf8_bytes (fst v) < 65536"
    using v component_bounds [of "fst v"] by (simp_all add: child_fits_def name_ok_def MAX_COMPONENT_BYTES_def)
  then have "writeValidatedString (utf8Encode (fst v)) w = Inr (emit w (encText (fst v)))"
    using w by (intro writeText) (simp_all add: has_room_def encChild_def)
  with v w show "writeChild v w = Inr (emit w (encChild v))"
    by (simp add: writeChild_def andThen_def encChild_def child_fits_def v64.wr_enc has_room_def)
next
  fix v :: "js_string \<times> int" and rest
  assume "child_fits v"
  then show "readChild (encChild v @ rest) = Inr (v, rest)"
    by (simp add: readChild_def encChild_def child_fits_def rd_seqs)
qed

lemma names_distinct:
  assumes "\<forall>c\<in>set es. utf8_ok (fst c)"
  shows "distinct (map (\<lambda>c. scalarValues (fst c)) es) \<longleftrightarrow> distinct (keys_of es)"
proof -
  have "inj_on scalarValues (set (keys_of es))"
  proof (rule inj_onI)
    fix a b
    assume "a \<in> set (keys_of es)" "b \<in> set (keys_of es)" "scalarValues a = scalarValues b"
    moreover from this assms have "utf8_ok a" "utf8_ok b" by auto
    ultimately show "a = b" using scalarValues_inj by blast
  qed
  then have "distinct (map scalarValues (keys_of es)) \<longleftrightarrow> distinct (keys_of es)"
    by (simp add: distinct_map del: map_map)
  then show ?thesis by (simp add: comp_def)
qed

lemma readChildren_enc:
  assumes "\<forall>c\<in>set es. child_fits c" and "wf_map es" and "sorted (map (\<lambda>c. scalarValues (fst c)) es)"
  shows "readChildren (length es) (concat (map encChild es) @ rest) = Inr (es, rest)"
  unfolding readChildren_def
proof (rule child.rd_ascending [OF assms(1)])
  have u: "\<forall>c\<in>set es. utf8_ok (fst c)" using assms(1) child_utf8 by blast
  show "chain (\<lambda>previous child. \<not> compareUtf8Names (fst previous) (fst child) \<ge> 0) None es"
    using u assms(2,3) names_distinct [OF u]
    by (intro chain_sorted [where key = "\<lambda>c. scalarValues (fst c)"])
      (simp_all add: compareUtf8Names_order not_le wf_map_def)
  have "fold_res (\<lambda>child entries. Inr (AList.update (fst child) (snd child) entries)) es []
      = (Inr ([] @ map (\<lambda>c. (fst c, snd c)) es) :: (js_string \<times> int) list res)"
    by (rule fold_update) (use assms(2) in \<open>simp_all add: wf_map_def\<close>)
  then show "fold_res (\<lambda>child entries. Inr (AList.update (fst child) (snd child) entries)) es []
      = (Inr es :: (js_string \<times> int) list res)" by simp
qed

lemma kind_fits [simp]: "fits (Suc 0) (inodeKind b)"
  by (cases b) (simp_all add: fits_def)

interpretation inode: field writeInode readInode encInode inode_fits
proof
  fix i w
  assume i: "inode_fits i" and w: "has_room w (length (encInode i))"
  have "writeBody (body i) v = Inr (emit v (encBody (body i)))" if v: "has_room v (length (encBody (body i)))" for v
  proof (cases "body i")
    case (Directory es)
    with i have b: "int (length es) \<le> MAX_INODES" "\<forall>c\<in>set es. child_fits c"
      "sorted (map (\<lambda>c. scalarValues (fst c)) es)"
      by (simp_all add: inode_fits_def body_fits_def)
    then have "\<forall>c\<in>set es. utf8_ok (fst c)" using child_utf8 by blast
    from sortChildren_id [OF this b(3)] b(1,2)
    have es: "int (length es) \<le> MAX_INODES" "\<forall>c\<in>set es. child_fits c" "sortChildren es = es" by simp_all
    with Directory v show ?thesis
      by (simp add: writeBody_def encBody_def b32.wr_seq choices_fit child.wr_list has_room_def fits_def MAX_INODES_def)
  next
    case (File n xs)
    with i v show ?thesis
      by (simp add: inode_fits_def body_fits_def writeBody_def encBody_def v64.wr_seq b32.wr_seq v64.wr_list
          has_room_def fits_def [of 4] MAX_EXTENTS_PER_INODE_def)
  next
    case (Symlink t)
    with i v show ?thesis by (simp add: inode_fits_def body_fits_def writeBody_def encBody_def target.wr_enc)
  qed
  with i w show "writeInode i w = Inr (emit w (encInode i))"
    by (simp add: writeInode_def encInode_def inode_fits_def v64.wr_seq b8.wr_seq b32.wr_seq has_room_def)
next
  fix i :: Inode and rest
  assume i: "inode_fits i"
  have "readBody (inodeKind (body i)) (encBody (body i) @ rest) = Inr (body i, rest)"
  proof (cases "body i")
    case (Directory es)
    with i have "int (length es) \<le> MAX_INODES" "readChildren (length es) (concat (map encChild es) @ rest) = Inr (es, rest)"
      by (auto simp: inode_fits_def body_fits_def intro: readChildren_enc)
    with Directory show ?thesis
      by (simp add: readBody_def encBody_def readBoundedCount_enc MAX_INODES_def)
  next
    case (File n xs)
    with i have "readMany (length xs) readU64 (concat (map (leBytes 8) xs) @ rest) = Inr (xs, rest)"
      by (intro b64.rd_list) (simp add: inode_fits_def body_fits_def)
    with i File show ?thesis
      by (simp add: readBody_def encBody_def readBoundedCount_enc MAX_EXTENTS_PER_INODE_def b64.rd_seq
          inode_fits_def body_fits_def)
  next
    case (Symlink t)
    with i show ?thesis by (simp add: readBody_def encBody_def target.rd_seq inode_fits_def body_fits_def)
  qed
  with i show "readInode (encInode i @ rest) = Inr (i, rest)"
    by (simp add: readInode_def encInode_def inode_fits_def b64.rd_seq b8.rd_seq b32.rd_seq)
qed

section \<open>The canonical tables of a valid state\<close>

definition names_encodable :: "VfsState \<Rightarrow> bool" where
  "names_encodable st \<longleftrightarrow> (\<forall>k inode. imap st k = Some inode \<longrightarrow> (\<forall>n\<in>set (keys_of (children inode)). bom_free n))"

definition canonBody :: "InodeBody \<Rightarrow> InodeBody" where
  "canonBody b = (case b of Directory es \<Rightarrow> Directory (sortChildren es) | _ \<Rightarrow> b)"

definition canonInode :: "Inode \<Rightarrow> Inode" where
  "canonInode i = i\<lparr>body := canonBody (body i)\<rparr>"

definition canonInodes :: "VfsState \<Rightarrow> Inode list" where
  "canonInodes st = map canonInode (sortInodes (inodes st))"

definition canonAvailable :: "VfsState \<Rightarrow> int list" where
  "canonAvailable st = sortIfNeeded compareBigint (items (available (allocator st)))"

definition stampCode :: "int option \<Rightarrow> int" where
  "stampCode s = (case s of None \<Rightarrow> 0 | Some g \<Rightarrow> g)"

definition canonQuarantine :: "VfsState \<Rightarrow> (int \<times> int) list" where
  "canonQuarantine st = map (\<lambda>entry. (fst entry, stampCode (snd entry))) (sortQuarantine (quarantine (allocator st)))"

lemma wf_map_sort: "wf_map m \<Longrightarrow> wf_map (sortIfNeeded cmp m)"
proof -
  assume "wf_map m"
  moreover have "mset (keys_of (sortIfNeeded cmp m)) = mset (keys_of m)" by simp
  ultimately show ?thesis unfolding wf_map_def by (metis mset_eq_imp_distinct_iff)
qed

lemma map_of_set_eq:
  assumes "wf_map m" and "wf_map m'" and "set m = set m'"
  shows "map_of m = map_of m'"
proof
  fix k
  have "map_of m k = Some v \<longleftrightarrow> map_of m' k = Some v" for v
    using assms by (simp flip: wf_map_in_set)
  then show "map_of m k = map_of m' k" by (metis option.exhaust)
qed

lemma map_of_sort: "wf_map m \<Longrightarrow> map_of (sortIfNeeded cmp m) = map_of m"
  by (rule map_of_set_eq) (simp_all add: wf_map_sort)

lemma length_children:
  "\<forall>c\<in>set es. utf8_ok (fst c) \<Longrightarrow>
     int (length (concat (map encChild es))) = msum (\<lambda>n _. CHILD_FIXED_BYTES + utf8_bytes n) es"
  by (induction es) (auto simp: encChild_def length_encText CHILD_FIXED_BYTES_def)

lemma length_words: "length (concat (map (leBytes n) xs)) = n * length xs"
  by (simp add: length_concat comp_def sum_list_triv)

text \<open>A directory has no more children than there are inodes.\<close>

lemma children_count:
  assumes inv: "vfs_inv st" and i: "imap st k = Some inode" and wf: "wf_map (children inode)"
  shows "int (length (children inode)) \<le> MAX_INODES"
proof -
  note v = vfs_invD [OF inv]
  let ?m = "map_of (children inode)"
  have ch: "child_of st k n = ?m n" for n using i by (simp add: child_of_def)
  have "inj_on (\<lambda>n. the (?m n)) (dom ?m)"
  proof (rule inj_onI)
    fix a b
    assume "a \<in> dom ?m" "b \<in> dom ?m" "the (?m a) = the (?m b)"
    then obtain c where "child_of st k a = Some c" "child_of st k b = Some c" by (auto simp: ch)
    then show "a = b" using treeD(3) [OF tree_invD(1) [OF v(2)]] by blast
  qed
  moreover have "(\<lambda>n. the (?m n)) ` dom ?m \<subseteq> dom (imap st)"
    using child_in [OF v(2), of k] by (auto simp: ch)
  moreover have "finite (dom (imap st))" by (rule finite_dom_map_of)
  ultimately have "card (dom ?m) \<le> card (dom (imap st))" by (rule card_inj_on_le)
  then have "length (children inode) \<le> length (inodes st)"
    using wf table_invD(1) [OF v(1)] by (simp add: length_dom)
  with table_invD(7) [OF v(1)] show ?thesis by linarith
qed

lemma canonInode_fields [simp]:
  "inodeId (canonInode i) = inodeId i" "imode (canonInode i) = imode i" "atimeMs (canonInode i) = atimeMs i"
  "mtimeMs (canonInode i) = mtimeMs i" "ctimeMs (canonInode i) = ctimeMs i"
  "body (canonInode i) = canonBody (body i)"
  by (simp_all add: canonInode_def)

lemma wf_children_utf8: "\<forall>n\<in>set (keys_of es). component_ok n \<Longrightarrow> \<forall>c\<in>set es. utf8_ok (fst c)"
  using component_ok_utf8 by fastforce

text \<open>One inode of the table: its canonical form fits, is the same inode, and is what is written.\<close>

lemma canon_inode:
  assumes inv: "vfs_inv st" and names: "names_encodable st" and i: "imap st k = Some inode"
  shows canon_fits: "inode_fits (canonInode inode)" and canon_same: "same_inode inode (canonInode inode)"
    and canon_write: "writeInode inode = writeInode (canonInode inode)"
    and canon_length: "int (length (encInode (canonInode inode))) = inode_bytes inode"
proof -
  note v = vfs_invD [OF inv]
  have ok: "inode_ok (extentSize st) (nextInodeId st) k inode" by (rule table_invD(3) [OF v(1) i])
  note o = inode_okD [OF ok]
  have upper: "nextInodeId st \<le> MAX_U64" using table_invD(6) [OF v(1)] by (simp add: u64_def)
  have meta: "fits 8 (inodeId inode)" "fits 4 (imode inode)" "fits 8 (atimeMs inode)" "fits 8 (mtimeMs inode)"
    "fits 8 (ctimeMs inode)"
    using o upper by (simp_all add: mode_ok_def fits_def u64_def MAX_U64_def)
  have "body_fits (canonBody (body inode)) \<and> same_body (body inode) (canonBody (body inode))
    \<and> writeBody (body inode) = writeBody (canonBody (body inode))
    \<and> int (length (encInode (canonInode inode))) = inode_bytes inode"
  proof (cases "body inode")
    case (Directory es)
    then have es: "wf_map es" "\<forall>n\<in>set (keys_of es). component_ok n" using o(8) by simp_all
    let ?s = "sortChildren es"
    have u: "\<forall>c\<in>set es. utf8_ok (fst c)" by (rule wf_children_utf8 [OF es(2)])
    have s: "set ?s = set es" "length ?s = length es" "wf_map ?s" "map_of ?s = map_of es"
      using es(1) by (simp_all add: sortChildren_def wf_map_sort map_of_sort)
    have sorted: "sorted (map (\<lambda>c. scalarValues (fst c)) ?s)"
      unfolding sortChildren_def using u by (intro sorted_sortIfNeeded compares_names)
    have child: "child_fits c" if c: "c \<in> set es" for c
    proof -
      have ce: "children inode = es" using Directory by (simp add: children_def)
      then have "child_of st k (fst c) = Some (snd c)"
        using c es(1) i wf_map_in_set [OF es(1), of "fst c" "snd c"] by (simp add: child_of_def)
      then obtain d where "imap st (snd c) = Some d" using child_in [OF v(2)] by blast
      from inode_okD(2,3) [OF table_invD(3) [OF v(1) this]] upper have "fits 8 (snd c)"
        by (simp add: fits_def MAX_U64_def)
      moreover have "name_ok (fst c)"
        using names i ce c es(2) by (auto simp: names_encodable_def name_ok_def)
      ultimately show ?thesis by (simp add: child_fits_def)
    qed
    have amount: "int (length es) \<le> MAX_INODES"
      using children_count [OF inv i] Directory es(1) by (simp add: children_def)
    have "body_fits (Directory ?s)" using child amount s sorted by (simp add: body_fits_def)
    moreover have "sortChildren ?s = ?s" by (rule sortChildren_id [OF _ sorted]) (use u s(1) in simp)
    moreover have "int (length (concat (map encChild ?s))) = msum (\<lambda>n _. CHILD_FIXED_BYTES + utf8_bytes n) es"
      using length_children [of ?s] u s msum_same [OF s(3) es(1) s(4)] by simp
    ultimately show ?thesis using Directory s
      by (simp add: canonBody_def same_body_def writeBody_def encInode_def encBody_def inode_bytes_def
          DIRECTORY_INODE_FIXED_BYTES_def)
  next
    case (File n xs)
    then have "extentCountForSize n (extentSize st) = Inr (int (length xs))" using o(8) by simp
    then have "fits 8 n" "int (length xs) \<le> MAX_EXTENTS_PER_INODE"
      by (auto simp: extentCountForSize_def ebind_eq_Inr checkedU64_Inr u64_fits Let_def MAX_EXTENTS_PER_INODE_def
          split: if_splits)
    moreover have "fits 8 x" if "x \<in> set xs" for x
    proof -
      have "map_of (ownedBy (allocator st)) x = Some k"
        using that i File alloc_invD(4) [OF v(3)] by (simp add: file_extents_def fileExtents_def)
      then have "0 \<le> x" "x < totalExtents (allocator st)" using alloc_invD(8) [OF v(3), of x] by simp_all
      with alloc_invD(10) [OF v(3)] show ?thesis by (simp add: fits_def MAX_TOTAL_EXTENTS_def)
    qed
    ultimately show ?thesis using File
      by (simp add: canonBody_def same_body_def body_fits_def encInode_def encBody_def inode_bytes_def
          FILE_INODE_FIXED_BYTES_def length_words)
  next
    case (Symlink t)
    then have "symlink_target_ok t" using o(8) by simp
    with Symlink target_bounds [of t] show ?thesis
      by (simp add: canonBody_def same_body_def body_fits_def encInode_def encBody_def inode_bytes_def
          SYMLINK_INODE_FIXED_BYTES_def length_encText)
  qed
  then show "inode_fits (canonInode inode)" "same_inode inode (canonInode inode)"
    "writeInode inode = writeInode (canonInode inode)"
    "int (length (encInode (canonInode inode))) = inode_bytes inode"
    using meta by (simp_all add: inode_fits_def same_inode_def writeInode_def canonBody_def split: InodeBody.split)
qed

section \<open>The payload\<close>

definition encPair :: "int \<times> int \<Rightarrow> byte list" where
  "encPair p = leBytes 8 (fst p) @ leBytes 8 (snd p)"

definition pair_fits :: "int \<times> int \<Rightarrow> bool" where
  "pair_fits p \<longleftrightarrow> fits 8 (fst p) \<and> fits 8 (snd p)"

interpretation pair: field "\<lambda>p. andThen (writeValidatedU64 (fst p)) (writeValidatedU64 (snd p))"
  "rbind readU64 (\<lambda>extentId. rbind readU64 (\<lambda>stamp. rret (extentId, stamp)))" encPair pair_fits
proof
  fix v w
  assume "pair_fits v" "has_room w (length (encPair v))"
  then show "andThen (writeValidatedU64 (fst v)) (writeValidatedU64 (snd v)) w = Inr (emit w (encPair v))"
    by (simp add: encPair_def pair_fits_def v64.wr_seq v64.wr_enc has_room_def)
next
  fix v :: "int \<times> int" and rest
  assume "pair_fits v"
  then show "rbind readU64 (\<lambda>extentId. rbind readU64 (\<lambda>stamp. rret (extentId, stamp))) (encPair v @ rest) = Inr (v, rest)"
    by (simp add: encPair_def pair_fits_def rd_seqs)
qed

definition encPayload :: "VfsState \<Rightarrow> byte list" where
  "encPayload st = leBytes 8 (totalExtents (allocator st)) @ leBytes 8 (nextInodeId st)
     @ leBytes 4 (int (length (inodes st))) @ concat (map encInode (canonInodes st))
     @ concat (map (leBytes 8) (canonAvailable st)) @ concat (map encPair (canonQuarantine st))"

lemma fold_res_map: "(\<And>x. x \<in> set xs \<Longrightarrow> f x = g (h x)) \<Longrightarrow> fold_res f xs s = fold_res g (map h xs) s"
  by (induction xs arbitrary: s) (auto intro!: ebind_cong)

lemma sortInodes_set: "set (sortInodes m) = snd ` set m" "length (sortInodes m) = length m"
  by (simp_all add: sortInodes_def)

lemma canonInodes_in:
  assumes "vfs_inv st" and "i \<in> set (canonInodes st)"
  obtains k inode where "imap st k = Some inode" "i = canonInode inode" "inodeId i = k"
proof -
  note t = vfs_invD(1) [OF assms(1)]
  from assms(2) obtain k inode where k: "(k, inode) \<in> set (inodes st)" "i = canonInode inode"
    by (auto simp: canonInodes_def sortInodes_set)
  then have "imap st k = Some inode" using table_invD(1) [OF t] by (simp add: wf_map_in_set)
  with k(2) inode_id [OF t this] that show ?thesis by simp
qed

lemma canonInodes_fit: "vfs_inv st \<Longrightarrow> names_encodable st \<Longrightarrow> \<forall>i\<in>set (canonInodes st). inode_fits i"
  using canonInodes_in canon_fits by metis

lemma extents_fit:
  assumes "vfs_inv st"
  shows "\<forall>e\<in>set (canonAvailable st). fits 8 e" and "\<forall>p\<in>set (canonQuarantine st). pair_fits p"
proof -
  note a = vfs_invD(3) [OF assms] and g = vfs_invD(4) [OF assms]
  have small: "fits 8 e" if "0 \<le> e" "e < totalExtents (allocator st)" for e
    using that alloc_invD(10) [OF a] by (simp add: fits_def MAX_TOTAL_EXTENTS_def)
  show "\<forall>e\<in>set (canonAvailable st). fits 8 e"
    using alloc_invD(8) [OF a] small by (auto simp: canonAvailable_def extents_of_def)
  show "\<forall>p\<in>set (canonQuarantine st). pair_fits p"
  proof
    fix p
    assume "p \<in> set (canonQuarantine st)"
    then obtain e s where e: "(e, s) \<in> set (quarantine (allocator st))" "p = (e, stampCode s)"
      by (auto simp: canonQuarantine_def sortQuarantine_def)
    then have q: "map_of (quarantine (allocator st)) e = Some s"
      using alloc_invD(3) [OF a] by (simp add: wf_map_in_set)
    then have "fits 8 e" using alloc_invD(8) [OF a, of e] by (intro small) simp_all
    moreover have "fits 8 (stampCode s)"
      using q g by (cases s) (auto simp: stampCode_def gen_inv_def fits_def MAX_U64_def)
    ultimately show "pair_fits p" by (simp add: pair_fits_def e(2))
  qed
qed

lemma int_length_concat: "int (length (concat (map f xs))) = (\<Sum>x\<leftarrow>xs. int (length (f x)))"
  by (induction xs) simp_all

lemma length_encPayload:
  assumes inv: "vfs_inv st" and names: "names_encodable st"
  shows "int (length (encPayload st)) = basePayloadBytes st"
proof -
  note t = vfs_invD(1) [OF inv] and a = vfs_invD(3) [OF inv]
  have each: "int (length (encInode (canonInode inode))) = inode_bytes inode" if "inode \<in> set (map snd (inodes st))" for inode
  proof -
    from that obtain k where "(k, inode) \<in> set (inodes st)" by auto
    then have "imap st k = Some inode" using table_invD(1) [OF t] by (simp add: wf_map_in_set)
    from canon_length [OF inv names this] show ?thesis .
  qed
  have "int (length (concat (map encInode (canonInodes st))))
      = sum_list (map (\<lambda>i. int (length (encInode (canonInode i)))) (sortInodes (inodes st)))"
    by (simp add: canonInodes_def int_length_concat comp_def)
  also have "\<dots> = sum_list (map (\<lambda>i. int (length (encInode (canonInode i)))) (map snd (inodes st)))"
  proof -
    have "mset (map (\<lambda>i. int (length (encInode (canonInode i)))) (sortInodes (inodes st)))
      = mset (map (\<lambda>i. int (length (encInode (canonInode i)))) (map snd (inodes st)))"
      by (simp only: sortInodes_def mset_map mset_sortIfNeeded)
    then show ?thesis by (metis sum_mset_sum_list)
  qed
  also have "\<dots> = sum_list (map inode_bytes (map snd (inodes st)))"
    using each by (intro arg_cong [where f = sum_list] map_cong) auto
  also have "\<dots> = msum (\<lambda>_. inode_bytes) (inodes st)"
    by (simp add: msum_def comp_def split_def)
  finally have "int (length (concat (map encInode (canonInodes st)))) = msum (\<lambda>_. inode_bytes) (inodes st)" .
  moreover have "length (concat (map encPair (canonQuarantine st))) = 16 * length (quarantine (allocator st))"
    by (simp add: length_concat comp_def encPair_def sum_list_triv canonQuarantine_def sortQuarantine_def)
  moreover have "length (canonAvailable st) = sizeExtent (available (allocator st))"
    by (simp add: canonAvailable_def sizeExtent_def)
  ultimately show ?thesis
    using vfs_invD(5) [OF inv]
    by (simp add: encPayload_def bytes_inv_def base_bytes_def pool_bytes_def BASE_STATE_FIXED_BYTES_def length_words)
qed

lemma payload_written:
  assumes inv: "vfs_inv st" and names: "names_encodable st"
  shows "encodeMetadataPayload st (basePayloadBytes st) 80 = Inr (zeros 80 @ encPayload st)"
proof -
  note t = vfs_invD(1) [OF inv] and a = vfs_invD(3) [OF inv]
  let ?n = "basePayloadBytes st"
  let ?w = "\<lparr>limit = 80 + ?n, written = zeros 80\<rparr>"
  have len: "int (length (encPayload st)) = ?n" by (rule length_encPayload [OF inv names])
  have small: "?n \<le> MAX_METADATA_BASE_WRITER_BYTES" using vfs_invD(5) [OF inv] by (simp add: bytes_inv_def)
  have new: "newWriter (80 + ?n) 80 = Inr ?w"
    using small len by (simp add: newWriter_def isSafeInteger_def MAX_SAFE_INTEGER_def
        MAX_METADATA_BASE_WRITER_BYTES_def zeros_def)
  have inodes: "fold_res writeInode (sortInodes (inodes st)) = fold_res writeInode (canonInodes st)"
  proof
    fix w
    show "fold_res writeInode (sortInodes (inodes st)) w = fold_res writeInode (canonInodes st) w"
      unfolding canonInodes_def
    proof (rule fold_res_map)
      fix i
      assume "i \<in> set (sortInodes (inodes st))"
      then obtain k where "(k, i) \<in> set (inodes st)" by (auto simp: sortInodes_set)
      then have "imap st k = Some i" using table_invD(1) [OF t] by (simp add: wf_map_in_set)
      then show "writeInode i = writeInode (canonInode i)" by (rule canon_write [OF inv names])
    qed
  qed
  have held: "fold_res writeQuarantine (sortQuarantine (quarantine (allocator st)))
      = fold_res (\<lambda>p. andThen (writeValidatedU64 (fst p)) (writeValidatedU64 (snd p))) (canonQuarantine st)"
    unfolding canonQuarantine_def
    by (intro ext fold_res_map) (simp add: writeQuarantine_def stampCode_def split: option.split)
  have f: "fits 8 (totalExtents (allocator st))" "fits 8 (nextInodeId st)" "fits 4 (int (length (inodes st)))"
    using alloc_invD(9,10) [OF a] table_invD(6,7) [OF t]
    by (simp_all add: fits_def MAX_TOTAL_EXTENTS_def u64_def MAX_U64_def MAX_INODES_def)
  have room: "has_room ?w (length (encPayload st))" using len by (simp add: has_room_def)
  have step: "andThen g h w = h (emit w b)" if "g w = Inr (emit w b)" for g h w b
    using that by (simp add: andThen_def)
  have "fold_res writeInode (canonInodes st) v = Inr (emit v (concat (map encInode (canonInodes st))))"
    if "has_room v (length (concat (map encInode (canonInodes st))))" for v
    using canonInodes_fit [OF inv names] that by (rule inode.wr_list)
  moreover have "fold_res writeValidatedU64 (canonAvailable st) v = Inr (emit v (concat (map (leBytes 8) (canonAvailable st))))"
    if "has_room v (length (concat (map (leBytes 8) (canonAvailable st))))" for v
    using extents_fit(1) [OF inv] that by (rule v64.wr_list)
  moreover have "fold_res (\<lambda>p. andThen (writeValidatedU64 (fst p)) (writeValidatedU64 (snd p))) (canonQuarantine st) v
      = Inr (emit v (concat (map encPair (canonQuarantine st))))"
    if "has_room v (length (concat (map encPair (canonQuarantine st))))" for v
    using extents_fit(2) [OF inv] that by (rule pair.wr_list)
  ultimately have "andThen (writeValidatedU64 (totalExtents (allocator st)))
      (andThen (writeValidatedU64 (nextInodeId st)) (andThen (writeU32 (int (length (inodes st))))
      (andThen (fold_res writeInode (canonInodes st)) (andThen (fold_res writeValidatedU64 (canonAvailable st))
      (fold_res (\<lambda>p. andThen (writeValidatedU64 (fst p)) (writeValidatedU64 (snd p))) (canonQuarantine st)))))) ?w
    = Inr (emit ?w (encPayload st))"
    using f room by (simp add: v64.wr_seq b32.wr_seq step encPayload_def has_room_def)
  then show ?thesis
    using small new len
    by (simp add: encodeMetadataPayload_def inodes held canonAvailable_def [symmetric] finishWriter_def)
qed

end
