(* ===== verification/BaseRoundtrip.thy ===== *)
theory BaseRoundtrip
  imports BaseCodec
begin

text \<open>
  The whole metadata base: its header, the checksum over header and payload, and the decoding of
  the base of a valid state to the same file system.
\<close>

section \<open>The header\<close>

definition baseHead :: "int \<Rightarrow> int \<Rightarrow> int \<Rightarrow> int \<Rightarrow> int \<Rightarrow> int \<Rightarrow> int \<Rightarrow> byte list" where
  "baseHead gen ext code root len pool held = METADATA_MAGIC @ leBytes 4 FORMAT_VERSION
     @ leBytes 4 LIMITS_PROFILE_VERSION @ leBytes 8 gen @ leBytes 4 ext @ encU8 code @ zeros 3
     @ leBytes 8 root @ leBytes 4 len @ leBytes 4 pool @ leBytes 4 held @ zeros 4 @ leBytes 8 (80 + len)"

definition encBase :: "VfsState \<Rightarrow> byte list" where
  "encBase st = seal (baseHead (generation st) (extentSize st) (metadataFileCode (activeMetadataFile st))
     (rootInodeId st) (basePayloadBytes st) (int (sizeExtent (available (allocator st))))
     (int (length (quarantine (allocator st))))) (zeros 12 @ encPayload st)"

lemma length_baseHead [simp]: "length (baseHead gen ext code root len pool held) = 64"
  by (simp add: baseHead_def)

lemma set_left:
  "offset + length xs \<le> length a \<Longrightarrow> setBytes offset xs (a @ b) = setBytes offset xs a @ b"
  "offset + n \<le> length a \<Longrightarrow> setLE n offset v (a @ b) = setLE n offset v a @ b"
  by (simp_all add: setLE_def setBytes_def)

lemma fill_head:
  "setLE 8 56 (80 + len) (setLE 4 48 held (setLE 4 44 pool (setLE 4 40 len (setLE 8 32 root
     (setBytes 28 (encU8 code) (setLE 4 24 ext (setLE 8 16 gen (setLE 4 12 LIMITS_PROFILE_VERSION
     (setLE 4 8 FORMAT_VERSION (setBytes 0 METADATA_MAGIC (zeros 80)))))))))))
   = baseHead gen ext code root len pool held @ zeros 16"
proof -
  define pre where "pre = METADATA_MAGIC @ leBytes 4 FORMAT_VERSION @ leBytes 4 LIMITS_PROFILE_VERSION
    @ leBytes 8 gen @ leBytes 4 ext"
  define mid where "mid = encU8 code @ zeros 3"
  define more where "more = leBytes 8 root @ leBytes 4 len @ leBytes 4 pool @ leBytes 4 held"
  have m: "setBytes 0 METADATA_MAGIC (zeros 80) = METADATA_MAGIC @ zeros 72"
    using setBytes_zeros [of 0 "[]" 0 METADATA_MAGIC 80] by (simp add: zeros_simps)
  have front: "setLE 4 24 ext (setLE 8 16 gen (setLE 4 12 LIMITS_PROFILE_VERSION (setLE 4 8 FORMAT_VERSION
      (METADATA_MAGIC @ zeros 72)))) = pre @ zeros 52"
    by ((subst setLE_next, simp, simp)+) (simp add: pre_def)
  have byte: "setBytes 28 (encU8 code) (pre @ zeros 52) = (pre @ mid) @ zeros 48"
    using setBytes_zeros [of 28 pre 0 "encU8 code" 52] zeros_add [of 3 48] by (simp add: zeros_simps pre_def mid_def)
  have len: "length (pre @ mid) = 32" by (simp add: pre_def mid_def)
  have rear: "setLE 4 48 held (setLE 4 44 pool (setLE 4 40 len (setLE 8 32 root ((pre @ mid) @ zeros 48))))
    = (pre @ mid @ more) @ zeros 28"
    using len by ((subst setLE_next, simp, simp)+) (simp add: more_def)
  have len: "length (pre @ mid @ more) = 52" by (simp add: pre_def mid_def more_def)
  have "setLE 8 56 (80 + len) ((pre @ mid @ more) @ zeros 28) = (pre @ mid @ more) @ zeros 4 @ leBytes 8 (80 + len) @ zeros 16"
    using setBytes_zeros [of 56 "pre @ mid @ more" 4 "leBytes 8 (80 + len)" 28] len by (simp add: setLE_def)
  then show ?thesis
    unfolding m front byte rear by (simp add: baseHead_def pre_def mid_def more_def)
qed

lemma encodeValidated_ok:
  assumes inv: "vfs_inv st" and names: "names_encodable st"
  shows "encodeValidatedMetadataBase st = Inr (encBase st)"
proof -
  have small: "int (length (encPayload st)) \<le> MAX_METADATA_BASE_WRITER_BYTES"
    using length_encPayload [OF inv names] vfs_invD(5) [OF inv] by (simp add: bytes_inv_def)
  let ?head = "baseHead (generation st) (extentSize st) (metadataFileCode (activeMetadataFile st))
     (rootInodeId st) (basePayloadBytes st) (int (sizeExtent (available (allocator st))))
     (int (length (quarantine (allocator st))))"
  have "setChecksum 64 (?head @ zeros 4 @ (zeros 12 @ encPayload st)) = Inr (encBase st)"
    unfolding encBase_def
    by (rule setChecksum_seal) (use small in \<open>simp_all add: MAX_METADATA_BASE_WRITER_BYTES_def\<close>)
  moreover have "zeros 16 = zeros 4 @ zeros 12" using zeros_add [of 4 12] by simp
  ultimately show ?thesis
    using payload_written [OF inv names]
    by (simp add: encodeValidatedMetadataBase_def METADATA_HEADER_BYTES_def METADATA_HEADER_CHECKSUM_OFFSET_def
        Let_def set_left fill_head)
qed

lemma head_fields:
  fixes post :: "byte list" and m :: MetadataFile
  assumes "fits 8 gen" "fits 4 ext" "fits 8 root" "fits 4 len" "fits 4 pool" "fits 4 held"
  defines "head \<equiv> baseHead gen ext (metadataFileCode m) root len pool held @ post"
  shows "take 8 head = METADATA_MAGIC" "getLE 4 head 8 = FORMAT_VERSION" "getLE 4 head 12 = LIMITS_PROFILE_VERSION"
    "getLE 8 head 16 = gen" "getLE 4 head 24 = ext" "getLE 1 head 28 = metadataFileCode m"
    "getLE 8 head 32 = root" "getLE 4 head 40 = len" "getLE 4 head 44 = pool" "getLE 4 head 48 = held"
    "getLE 8 head 56 = 80 + len" "drop 29 head = zeros 3 @ drop 32 head" "drop 52 head = zeros 4 @ drop 56 head"
proof -
  have "fits 8 (80 + len)" using assms(4) by (simp add: fits_def)
  with assms version_fits leValue_fits [of "Suc 0" "metadataFileCode m"]
  show "take 8 head = METADATA_MAGIC" "getLE 4 head 8 = FORMAT_VERSION" "getLE 4 head 12 = LIMITS_PROFILE_VERSION"
    "getLE 8 head 16 = gen" "getLE 4 head 24 = ext" "getLE 1 head 28 = metadataFileCode m"
    "getLE 8 head 32 = root" "getLE 4 head 40 = len" "getLE 4 head 44 = pool" "getLE 4 head 48 = held"
    "getLE 8 head 56 = 80 + len" "drop 29 head = zeros 3 @ drop 32 head" "drop 52 head = zeros 4 @ drop 56 head"
    by (simp_all add: getLE_def baseHead_def leValue_fits encU8_def zeros_simps del: leBytes.simps)
qed

lemma sealed_header:
  assumes fits: "fits 8 gen" "fits 4 ext" "fits 8 root" "fits 4 len" "fits 4 pool" "fits 4 held"
    and len: "len \<le> MAX_METADATA_BASE_READER_BYTES"
  shows "inspectMetadataBaseHeader (take 80 (seal (baseHead gen ext (metadataFileCode m) root len pool held) (zeros 12 @ payload)))
    = Inr \<lparr>hdrFormatVersion = FORMAT_VERSION, hdrLimitsProfileVersion = LIMITS_PROFILE_VERSION, hdrGeneration = gen,
        hdrExtentSize = ext, hdrMetadataFileCode = metadataFileCode m, hdrRootInodeId = root, hdrPayloadLength = len,
        hdrAvailableCount = pool, hdrQuarantineCount = held, hdrBaseEnd = 80 + len\<rparr>"
proof -
  let ?head = "baseHead gen ext (metadataFileCode m) root len pool held"
  define c where "c = leBytes 4 (uint (crc32 (?head @ zeros 4 @ zeros 12 @ payload)))"
  have take: "take 80 (seal ?head (zeros 12 @ payload)) = ?head @ c @ zeros 12" by (simp add: seal_def c_def)
  define header where "header = ?head @ c @ zeros 12"
  have l: "length header = 80" "length c = 4" by (simp_all add: header_def c_def)
  note f = head_fields [OF fits, where post = "c @ zeros 12" and m = m, folded header_def]
  have "requireZero header 29 32 = Inr ()" "requireZero header 52 56 = Inr ()" "requireZero header 68 80 = Inr ()"
    using requireZero_iff [of 29 3 32 header] requireZero_iff [of 52 4 56 header] requireZero_iff [of 68 12 80 header]
      f(12,13) l by (simp_all add: header_def)
  moreover have "requireMagic header METADATA_MAGIC = Inr ()" using f(1) by (simp add: requireMagic_def)
  ultimately show ?thesis
    unfolding take header_def [symmetric] using f l len
    by (simp add: inspectMetadataBaseHeader_def METADATA_HEADER_BYTES_def Let_def)
qed

section \<open>The tables that are read back\<close>

definition ownerTable :: "Inode list \<Rightarrow> (int \<times> int) list" where
  "ownerTable is = concat (map (\<lambda>i. map (\<lambda>e. (e, inodeId i)) (fileExtents i)) is)"

definition parentTable :: "Inode list \<Rightarrow> (int \<times> (int \<times> js_string)) list" where
  "parentTable is = concat (map (\<lambda>i. map (\<lambda>c. (snd c, (inodeId i, fst c))) (children i)) is)"

definition byId :: "Inode list \<Rightarrow> (int \<times> Inode) list" where
  "byId is = map (\<lambda>i. (inodeId i, i)) is"

definition stampOf :: "int \<Rightarrow> int option" where
  "stampOf code = (if code = 0 then None else Some code)"

definition decodedOf :: "VfsState \<Rightarrow> VfsState" where
  "decodedOf st = st\<lparr>
     retainedGenerations := (\<lambda>_. None)(activeMetadataFile st := Some (generation st)),
     inodes := byId (canonInodes st),
     parentByInode := parentTable (canonInodes st),
     allocator := (allocator st)\<lparr>ownedBy := ownerTable (canonInodes st),
       available := fold (\<lambda>e s. addExtent s e) (canonAvailable st) emptyExtentSet,
       quarantine := map (\<lambda>p. (fst p, stampOf (snd p))) (canonQuarantine st)\<rparr>\<rparr>"

lemma distinct_concat_map:
  assumes "distinct xs" and "\<And>x. x \<in> set xs \<Longrightarrow> distinct (f x)"
    and "\<And>x y a. x \<in> set xs \<Longrightarrow> y \<in> set xs \<Longrightarrow> a \<in> set (f x) \<Longrightarrow> a \<in> set (f y) \<Longrightarrow> x = y"
  shows "distinct (concat (map f xs))"
  using assms
proof (induction xs)
  case (Cons x xs)
  have "distinct (concat (map f xs))" using Cons.prems by (intro Cons.IH) auto
  moreover have "set (f x) \<inter> set (concat (map f xs)) = {}"
  proof -
    have "y = x" if "y \<in> set xs" "a \<in> set (f x)" "a \<in> set (f y)" for a y
      using Cons.prems(3) [of y x a] that by simp
    with Cons.prems(1) show ?thesis by auto
  qed
  ultimately show ?case using Cons.prems(2) by simp
qed simp

lemma fold_addDecodedInode:
  "distinct (keys_of table @ map inodeId is) \<Longrightarrow> distinct (keys_of owned @ concat (map fileExtents is)) \<Longrightarrow>
     fold_res addDecodedInode is (table, owned) = Inr (table @ byId is, owned @ ownerTable is)"
proof (induction "is" arbitrary: table owned)
  case (Cons i js)
  let ?own = "map (\<lambda>e. (e, inodeId i)) (fileExtents i)"
  have "fold_res (\<lambda>extentId owned. if map_of owned extentId \<noteq> None then Inl CorruptStoreError
      else Inr (AList.update extentId (inodeId i) owned)) (fileExtents i) owned
    = (Inr (owned @ ?own) :: (int \<times> int) list res)"
    by (rule fold_update_new [where key = "\<lambda>e. e" and val = "\<lambda>_. inodeId i"]) (use Cons.prems(2) in auto)
  moreover have "AList.update (inodeId i) i table = table @ [(inodeId i, i)]"
    using Cons.prems(1) by (intro update_fresh) auto
  ultimately have "addDecodedInode i (table, owned) = Inr (table @ [(inodeId i, i)], owned @ ?own)"
    by (simp add: addDecodedInode_def)
  moreover have "fold_res addDecodedInode js (table @ [(inodeId i, i)], owned @ ?own)
      = Inr ((table @ [(inodeId i, i)]) @ byId js, (owned @ ?own) @ ownerTable js)"
    by (rule Cons.IH) (use Cons.prems in \<open>auto simp: comp_def\<close>)
  ultimately show ?case by (simp add: byId_def ownerTable_def)
qed (simp add: byId_def ownerTable_def)

lemma fold_parents:
  "distinct (keys_of parents @ concat (map (\<lambda>i. map snd (children i)) is)) \<Longrightarrow>
     fold_res (\<lambda>(iid, inode) parents.
         fold_res (\<lambda>(name, childId) parents.
             if map_of parents childId \<noteq> None then Inl CorruptStoreError
             else Inr (AList.update childId (inodeId inode, name) parents))
           (children inode) parents) (byId is) parents
       = Inr (parents @ parentTable is)"
proof (induction "is" arbitrary: parents)
  case (Cons i js)
  let ?new = "map (\<lambda>c. (snd c, (inodeId i, fst c))) (children i)"
  have "fold_res (\<lambda>(name, childId) parents.
      if map_of parents childId \<noteq> None then Inl CorruptStoreError
      else Inr (AList.update childId (inodeId i, name) parents)) (children i) parents
    = (Inr (parents @ ?new) :: (int \<times> (int \<times> js_string)) list res)"
    by (rule fold_update_new [where key = snd and val = "\<lambda>c. (inodeId i, fst c)"])
      (use Cons.prems in \<open>auto simp: split_def\<close>)
  moreover have "fold_res (\<lambda>(iid, inode) parents.
         fold_res (\<lambda>(name, childId) parents.
             if map_of parents childId \<noteq> None then Inl CorruptStoreError
             else Inr (AList.update childId (inodeId inode, name) parents))
           (children inode) parents) (byId js) (parents @ ?new) = Inr ((parents @ ?new) @ parentTable js)"
    by (rule Cons.IH) (use Cons.prems in \<open>auto simp: comp_def\<close>)
  ultimately show ?case by (simp add: byId_def parentTable_def)
qed (simp add: byId_def parentTable_def)

lemma wf_byId: "wf_map (byId is) \<longleftrightarrow> distinct (map inodeId is)"
  by (simp add: wf_map_def byId_def comp_def)

section \<open>Facts of the canonical tables\<close>

lemma canonInodes_ids:
  assumes "vfs_inv st"
  shows "distinct (map inodeId (canonInodes st))" "sorted (map inodeId (canonInodes st))" "distinct (canonInodes st)"
    "length (canonInodes st) = length (inodes st)"
proof -
  note t = vfs_invD(1) [OF assms]
  have ids: "map inodeId (canonInodes st) = map inodeId (sortInodes (inodes st))"
    by (simp add: canonInodes_def comp_def)
  have "map inodeId (map snd (inodes st)) = keys_of (inodes st)"
  proof -
    have "inodeId i = k" if "(k, i) \<in> set (inodes st)" for k i
      using that table_invD(1) [OF t] inode_id [OF t, of k i] by (simp add: wf_map_in_set)
    then show ?thesis by (auto simp: list_eq_iff_nth_eq dest: nth_mem)
  qed
  then have "distinct (map inodeId (map snd (inodes st)))"
    using table_invD(1) [OF t] unfolding wf_map_def by (simp only:)
  moreover have "mset (map inodeId (sortInodes (inodes st))) = mset (map inodeId (map snd (inodes st)))"
    by (simp only: sortInodes_def mset_map mset_sortIfNeeded)
  ultimately show d: "distinct (map inodeId (canonInodes st))" unfolding ids by (metis mset_eq_imp_distinct_iff)
  show "sorted (map inodeId (canonInodes st))"
    unfolding ids sortInodes_def by (rule sorted_sortIfNeeded [OF compares_bigint])
  from d show "distinct (canonInodes st)" by (simp only: distinct_map)
  show "length (canonInodes st) = length (inodes st)" by (simp add: canonInodes_def sortInodes_set)
qed

lemma canon_parts:
  assumes "vfs_inv st" and "names_encodable st" and "imap st k = Some inode"
  shows "map_of (children (canonInode inode)) = map_of (children inode)" "fileExtents (canonInode inode) = fileExtents inode"
    "wf_map (children (canonInode inode))"
proof -
  note same = canon_same [OF assms] and fits = canon_fits [OF assms]
  show "map_of (children (canonInode inode)) = map_of (children inode)" "fileExtents (canonInode inode) = fileExtents inode"
    using same_inode_parts [OF same] by simp_all
  show "wf_map (children (canonInode inode))"
    using fits by (auto simp: inode_fits_def body_fits_def children_def split: InodeBody.splits)
qed

section \<open>The decoded state is the same file system\<close>

lemma byId_imap:
  assumes inv: "vfs_inv st"
  shows "map_of (byId (canonInodes st)) k = map_option canonInode (imap st k)"
proof (cases "imap st k")
  case None
  have "k \<notin> inodeId ` set (canonInodes st)"
  proof
    assume "k \<in> inodeId ` set (canonInodes st)"
    then obtain i where i: "i \<in> set (canonInodes st)" "inodeId i = k" by blast
    show False by (rule canonInodes_in [OF inv i(1)]) (use i(2) None in simp)
  qed
  then have "k \<notin> set (keys_of (byId (canonInodes st)))" by (auto simp: byId_def)
  then have "map_of (byId (canonInodes st)) k = None" by (simp add: map_of_eq_None_iff)
  with None show ?thesis by simp
next
  case (Some inode)
  then have "canonInode inode \<in> set (canonInodes st)"
    using image_eqI [OF _ map_of_in_set [OF Some], of inode snd] by (simp add: canonInodes_def sortInodes_set)
  moreover have "inodeId (canonInode inode) = k" using inode_id [OF vfs_invD(1) [OF inv] Some] by simp
  ultimately have "(k, canonInode inode) \<in> set (byId (canonInodes st))"
    using image_eqI [of "(k, canonInode inode)" "\<lambda>i. (inodeId i, i)" "canonInode inode"] by (simp add: byId_def)
  moreover have "wf_map (byId (canonInodes st))" using canonInodes_ids(1) [OF inv] by (simp only: wf_byId)
  ultimately have "map_of (byId (canonInodes st)) k = Some (canonInode inode)" using wf_map_in_set by metis
  with Some show ?thesis by simp
qed

lemma canon_owned:
  assumes inv: "vfs_inv st" and names: "names_encodable st"
    and e: "e \<in> set (fileExtents i)" and i: "i \<in> set (canonInodes st)"
  shows "map_of (ownedBy (allocator st)) e = Some (inodeId i)"
proof -
  from i obtain k inode where k: "imap st k = Some inode" "i = canonInode inode" "inodeId i = k"
    using canonInodes_in [OF inv] by metis
  then have "e \<in> set (file_extents st k)" using e canon_parts(2) [OF inv names k(1)] by (simp add: file_extents_def)
  with alloc_invD(4) [OF vfs_invD(3) [OF inv]] k(3) show ?thesis by blast
qed

lemma canon_child:
  assumes inv: "vfs_inv st" and names: "names_encodable st"
    and c: "c \<in> set (children i)" and i: "i \<in> set (canonInodes st)"
  shows "child_of st (inodeId i) (fst c) = Some (snd c) \<and> wf_map (children i)"
proof -
  from i obtain k inode where k: "imap st k = Some inode" "i = canonInode inode" "inodeId i = k"
    using canonInodes_in [OF inv] by metis
  note p = canon_parts [OF inv names k(1)]
  have "map_of (children i) (fst c) = Some (snd c)"
    using c p(3) k(2) wf_map_in_set [of "children i" "fst c" "snd c"] by simp
  with k p show ?thesis by (simp add: child_of_def)
qed

lemma distinct_extents:
  assumes inv: "vfs_inv st" and names: "names_encodable st"
  shows "distinct (concat (map fileExtents (canonInodes st)))"
proof (rule distinct_concat_map [OF canonInodes_ids(3) [OF inv]])
  fix i
  assume "i \<in> set (canonInodes st)"
  then obtain k inode where k: "imap st k = Some inode" "i = canonInode inode"
    using canonInodes_in [OF inv] by metis
  have "distinct (file_extents st k)" by (rule alloc_invD(5) [OF vfs_invD(3) [OF inv]])
  then show "distinct (fileExtents i)" using k canon_parts(2) [OF inv names k(1)] by (simp add: file_extents_def)
next
  fix i j e
  assume i: "i \<in> set (canonInodes st)" and j: "j \<in> set (canonInodes st)"
    and e: "e \<in> set (fileExtents i)" "e \<in> set (fileExtents j)"
  have "inodeId i = inodeId j"
    using canon_owned [OF inv names e(1) i] canon_owned [OF inv names e(2) j] by simp
  with i j canonInodes_ids(1) [OF inv] show "i = j" by (auto simp: distinct_map dest: inj_onD)
qed

lemma distinct_children:
  assumes inv: "vfs_inv st" and names: "names_encodable st"
  shows "distinct (concat (map (\<lambda>i. map snd (children i)) (canonInodes st)))"
proof (rule distinct_concat_map [OF canonInodes_ids(3) [OF inv]])
  have unique: "p = q \<and> m = n" if "child_of st p m = Some c" "child_of st q n = Some c" for p q m n c
    using treeD(3) [OF tree_invD(1) [OF vfs_invD(2) [OF inv]] that(2,1)] by simp
  fix i
  assume i: "i \<in> set (canonInodes st)"
  show "distinct (map snd (children i))"
  proof (cases "children i")
    case (Cons c cs)
    then have wf: "distinct (children i)" using canon_child [OF inv names _ i, of c]
      by (simp only: wf_map_def distinct_map list.set_intros(1) simp_thms)
    have "inj_on snd (set (children i))"
    proof (rule inj_onI)
      fix a b
      assume "a \<in> set (children i)" "b \<in> set (children i)" "snd a = snd b"
      with canon_child [OF inv names _ i] have "fst a = fst b" using unique by metis
      with \<open>snd a = snd b\<close> show "a = b" by (simp add: prod_eq_iff)
    qed
    with wf show ?thesis by (simp add: distinct_map)
  qed simp
  fix j a
  assume j: "j \<in> set (canonInodes st)" and a: "a \<in> set (map snd (children i))" "a \<in> set (map snd (children j))"
  then obtain c d where "c \<in> set (children i)" "d \<in> set (children j)" "snd c = a" "snd d = a" by auto
  with canon_child [OF inv names] i j unique have "inodeId i = inodeId j" by metis
  with canonInodes_ids(1) [OF inv] i j show "i = j" by (auto simp: distinct_map dest: inj_onD)
qed

lemma decoded_pool:
  assumes "vfs_inv st"
  defines "pool \<equiv> fold (\<lambda>e s. addExtent s e) (canonAvailable st) emptyExtentSet"
  shows "extents_inv pool" "extents_of pool = extents_of (available (allocator st))"
proof -
  have "extents_inv (fold (\<lambda>e s. addExtent s e) es s) \<and> extents_of (fold (\<lambda>e s. addExtent s e) es s) = extents_of s \<union> set es"
    if "extents_inv s" for es s
    using that by (induction es arbitrary: s) (simp_all add: pool.laws pool.inv_ins)
  from this [OF extents_inv_empty] show "extents_inv pool" "extents_of pool = extents_of (available (allocator st))"
    by (simp_all add: pool_def extents_of_def emptyExtentSet_def canonAvailable_def)
qed

lemma decoded_quarantine:
  assumes inv: "vfs_inv st"
  shows "map (\<lambda>p. (fst p, stampOf (snd p))) (canonQuarantine st) = sortQuarantine (quarantine (allocator st))"
proof -
  note a = vfs_invD(3) [OF inv]
  have "stampOf (stampCode s) = s" if "(e, s) \<in> set (quarantine (allocator st))" for e s
  proof -
    have "map_of (quarantine (allocator st)) e = Some s" using that alloc_invD(3) [OF a] by (simp add: wf_map_in_set)
    with vfs_invD(4) [OF inv] show ?thesis
      by (cases s) (auto simp: stampOf_def stampCode_def gen_inv_def)
  qed
  then show ?thesis
    unfolding canonQuarantine_def by (auto simp: sortQuarantine_def comp_def intro!: map_idI)
qed

lemma rep_inv_decoded:
  assumes inv: "vfs_inv st" and names: "names_encodable st"
  shows "rep_inv (decodedOf st)"
proof -
  have wf: "wf_map (byId (canonInodes st))" using canonInodes_ids(1) [OF inv] by (simp only: wf_byId)
  have keys: "keys_of (ownerTable is) = concat (map fileExtents is)"
    "keys_of (parentTable is) = concat (map (\<lambda>i. map snd (children i)) is)" for "is"
    by (simp_all add: ownerTable_def parentTable_def map_concat comp_def)
  have "wf_map (children i)" if "map_of (byId (canonInodes st)) k = Some i" for i k
    using that canon_parts(3) [OF inv names] by (auto simp: byId_imap [OF inv])
  moreover have "wf_map (sortQuarantine (quarantine (allocator st)))"
    using alloc_invD(3) [OF vfs_invD(3) [OF inv]] by (simp add: sortQuarantine_def wf_map_sort)
  ultimately show ?thesis
    using wf distinct_extents [OF inv names] distinct_children [OF inv names] decoded_pool(1) [OF inv]
    by (simp add: rep_inv_def decodedOf_def wf_map_def [of "ownerTable _"] wf_map_def [of "parentTable _"] keys
        decoded_quarantine [OF inv])
qed

lemma same_decoded:
  assumes inv: "vfs_inv st" and names: "names_encodable st"
  shows "same_state st (decodedOf st)"
proof -
  note v = vfs_invD [OF inv] and rep = rep_inv_decoded [OF inv names]
  have canon: "canonInode i \<in> set (canonInodes st) \<and> inodeId i = k" if "imap st k = Some i" for i k
    using image_eqI [OF _ map_of_in_set [OF that], of i snd] inode_id [OF v(1) that]
    by (simp add: canonInodes_def sortInodes_set)
  have "rel_option same_inode (imap st k) (map_of (byId (canonInodes st)) k)" for k
    using canon_same [OF inv names] by (cases "imap st k") (simp_all add: byId_imap [OF inv])
  moreover have "map_of (ownedBy (allocator st)) = map_of (ownerTable (canonInodes st))"
  proof
    fix e
    have "map_of (ownerTable (canonInodes st)) e = Some k \<longleftrightarrow> map_of (ownedBy (allocator st)) e = Some k" for k
    proof -
      have wf: "wf_map (ownerTable (canonInodes st))" using rep by (simp add: rep_inv_def decodedOf_def)
      have "map_of (ownerTable (canonInodes st)) e = Some k
        \<longleftrightarrow> (\<exists>i\<in>set (canonInodes st). e \<in> set (fileExtents i) \<and> k = inodeId i)"
        unfolding wf_map_in_set [OF wf, symmetric] by (auto simp: ownerTable_def)
      also have "\<dots> \<longleftrightarrow> map_of (ownedBy (allocator st)) e = Some k"
      proof
        assume "map_of (ownedBy (allocator st)) e = Some k"
        then have "e \<in> set (file_extents st k)" using alloc_invD(4) [OF v(3)] by blast
        then obtain i where i: "imap st k = Some i" "e \<in> set (fileExtents i)"
          by (cases "imap st k") (simp_all add: file_extents_def)
        with canon [OF i(1)] canon_parts(2) [OF inv names i(1)]
        show "\<exists>i\<in>set (canonInodes st). e \<in> set (fileExtents i) \<and> k = inodeId i"
          by (intro bexI [of _ "canonInode i"]) simp_all
      qed (use canon_owned [OF inv names] in blast)
      finally show ?thesis .
    qed
    then show "map_of (ownedBy (allocator st)) e = map_of (ownerTable (canonInodes st)) e" by (metis option.exhaust)
  qed
  moreover have "pmap st = map_of (parentTable (canonInodes st))"
  proof
    fix c
    have "map_of (parentTable (canonInodes st)) c = Some p \<longleftrightarrow> pmap st c = Some p" for p
    proof -
      obtain d n where p: "p = (d, n)" by (cases p)
      have wf: "wf_map (parentTable (canonInodes st))" using rep by (simp add: rep_inv_def decodedOf_def)
      have "map_of (parentTable (canonInodes st)) c = Some p
        \<longleftrightarrow> (\<exists>i\<in>set (canonInodes st). d = inodeId i \<and> (n, c) \<in> set (children i))"
        unfolding wf_map_in_set [OF wf, symmetric] by (force simp: parentTable_def p)
      also have "\<dots> \<longleftrightarrow> child_of st d n = Some c"
      proof
        assume "child_of st d n = Some c"
        then obtain i where i: "imap st d = Some i" "map_of (children i) n = Some c" by (auto simp: child_of_Some)
        then have "(n, c) \<in> set (children (canonInode i))"
          using canon_parts(1) [OF inv names i(1)] map_of_in_set by metis
        with canon [OF i(1)] show "\<exists>i\<in>set (canonInodes st). d = inodeId i \<and> (n, c) \<in> set (children i)"
          by (intro bexI [of _ "canonInode i"]) simp_all
      qed (use canon_child [OF inv names] in force)
      also have "\<dots> \<longleftrightarrow> pmap st c = Some p" using tree_invD(2) [OF v(2)] by (simp add: p)
      finally show ?thesis .
    qed
    then show "pmap st c = map_of (parentTable (canonInodes st)) c" by (metis option.exhaust)
  qed
  moreover have "map_of (sortQuarantine (quarantine (allocator st))) = map_of (quarantine (allocator st))"
    using alloc_invD(3) [OF v(3)] by (simp add: sortQuarantine_def map_of_sort)
  ultimately show ?thesis
    using decoded_pool(2) [OF inv]
    by (simp add: same_state_def decodedOf_def decoded_quarantine [OF inv])
qed

lemma decoded_valid:
  assumes inv: "vfs_inv st" and names: "names_encodable st" and ok: "paths_ok st"
  shows "vfs_inv (decodedOf st)" "paths_ok (decodedOf st)" "validateState (decodedOf st) = Inr ()"
proof -
  note same = same_decoded [OF inv names]
  have "otherMetadataFile (activeMetadataFile st) \<noteq> activeMetadataFile st" by (cases "activeMetadataFile st") simp_all
  then show v: "vfs_inv (decodedOf st)"
    by (intro same_vfs_inv [OF inv same rep_inv_decoded [OF inv names]]) (simp_all add: decodedOf_def)
  show "paths_ok (decodedOf st)" by (rule same_paths_ok [OF same ok])
  with v show "validateState (decodedOf st) = Inr ()" by (rule validateState_complete)
qed

section \<open>Decoding the base\<close>

lemma readInodes_enc:
  assumes inv: "vfs_inv st" and names: "names_encodable st"
  shows "readInodes (length (inodes st)) (concat (map encInode (canonInodes st)) @ rest)
    = Inr ((byId (canonInodes st), ownerTable (canonInodes st)), rest)"
  unfolding readInodes_def canonInodes_ids(4) [OF inv, symmetric]
proof (rule inode.rd_ascending [OF canonInodes_fit [OF inv names]])
  show "chain (\<lambda>previous inode. \<not> inodeId inode \<le> inodeId previous) None (canonInodes st)"
    using canonInodes_ids [OF inv] by (intro chain_sorted [where key = inodeId]) (simp_all add: not_le)
  show "fold_res addDecodedInode (canonInodes st) ([], []) = Inr (byId (canonInodes st), ownerTable (canonInodes st))"
    using fold_addDecodedInode [of "[]" "canonInodes st" "[]"] canonInodes_ids(1) [OF inv]
      distinct_extents [OF inv names] by simp
qed

lemma fold_res_total: "fold_res (\<lambda>x s. Inr (f x s)) xs s = Inr (fold f xs s)"
  by (induction xs arbitrary: s) simp_all

lemma readAvailable_enc:
  assumes inv: "vfs_inv st"
  shows "readAvailable (sizeExtent (available (allocator st))) (concat (map (leBytes 8) (canonAvailable st)) @ rest)
    = Inr (fold (\<lambda>e s. addExtent s e) (canonAvailable st) emptyExtentSet, rest)"
proof -
  note a = vfs_invD(3) [OF inv]
  have len: "sizeExtent (available (allocator st)) = length (canonAvailable st)"
    by (simp add: canonAvailable_def sizeExtent_def)
  have d: "distinct (canonAvailable st)"
    using extents_invD(2) [OF alloc_invD(1) [OF a]] by (simp add: canonAvailable_def)
  have sorted: "sorted (map (\<lambda>e. e) (canonAvailable st))"
    unfolding canonAvailable_def by (rule sorted_sortIfNeeded) (simp add: compares_def compareBigint_def)
  show ?thesis
    unfolding readAvailable_def len
  proof (rule b64.rd_ascending [OF extents_fit(1) [OF inv] _ fold_res_total])
    show "chain (\<lambda>previous extentId. \<not> extentId \<le> previous) None (canonAvailable st)"
      using d sorted by (intro chain_sorted [where key = "\<lambda>e. e"]) (simp_all add: not_le)
  qed
qed

lemma readQuarantine_enc:
  assumes inv: "vfs_inv st"
  shows "readQuarantine (length (quarantine (allocator st))) (concat (map encPair (canonQuarantine st)) @ rest)
    = Inr (map (\<lambda>p. (fst p, stampOf (snd p))) (canonQuarantine st), rest)"
proof -
  note a = vfs_invD(3) [OF inv]
  have len: "length (quarantine (allocator st)) = length (canonQuarantine st)"
    by (simp add: canonQuarantine_def sortQuarantine_def)
  have keys: "map fst (canonQuarantine st) = keys_of (sortQuarantine (quarantine (allocator st)))"
    by (simp add: canonQuarantine_def comp_def)
  have d: "distinct (map fst (canonQuarantine st))"
    unfolding keys sortQuarantine_def using wf_map_sort [OF alloc_invD(3) [OF a]] by (simp add: wf_map_def)
  have sorted: "sorted (map fst (canonQuarantine st))"
    unfolding keys sortQuarantine_def by (rule sorted_sortIfNeeded [OF compares_bigint])
  show ?thesis
    unfolding readQuarantine_def len
  proof (rule pair.rd_ascending [OF extents_fit(2) [OF inv]])
    show "chain (\<lambda>previous entry. \<not> fst entry \<le> fst previous) None (canonQuarantine st)"
      using d sorted by (intro chain_sorted [where key = fst]) (simp_all add: not_le)
    have "fold_res (\<lambda>entry table. Inr (AList.update (fst entry) (if snd entry = 0 then None else Some (snd entry)) table))
        (canonQuarantine st) [] = (Inr ([] @ map (\<lambda>p. (fst p, stampOf (snd p))) (canonQuarantine st)) :: (int \<times> int option) list res)"
      by (rule fold_update) (use d in \<open>simp_all add: stampOf_def\<close>)
    then show "fold_res (\<lambda>entry table. Inr (AList.update (fst entry) (if snd entry = 0 then None else Some (snd entry)) table))
        (canonQuarantine st) [] = (Inr (map (\<lambda>p. (fst p, stampOf (snd p))) (canonQuarantine st)) :: (int \<times> int option) list res)"
      by simp
  qed
qed

definition headerOf :: "VfsState \<Rightarrow> MetadataBaseHeader" where
  "headerOf st = \<lparr>hdrFormatVersion = FORMAT_VERSION, hdrLimitsProfileVersion = LIMITS_PROFILE_VERSION,
     hdrGeneration = generation st, hdrExtentSize = extentSize st,
     hdrMetadataFileCode = metadataFileCode (activeMetadataFile st), hdrRootInodeId = rootInodeId st,
     hdrPayloadLength = basePayloadBytes st, hdrAvailableCount = int (sizeExtent (available (allocator st))),
     hdrQuarantineCount = int (length (quarantine (allocator st))), hdrBaseEnd = 80 + basePayloadBytes st\<rparr>"

lemma decodePayload_enc:
  assumes inv: "vfs_inv st" and names: "names_encodable st" and ok: "paths_ok st"
  shows "decodePayload (headerOf st) (activeMetadataFile st) (encPayload st) = Inr (decodedOf st)"
proof -
  note t = vfs_invD(1) [OF inv] and a = vfs_invD(3) [OF inv]
  have f: "fits 8 (totalExtents (allocator st))" "fits 8 (nextInodeId st)"
    using alloc_invD(9,10) [OF a] table_invD(6) [OF t]
    by (simp_all add: fits_def MAX_TOTAL_EXTENTS_def u64_def MAX_U64_def)
  have n: "int (length (inodes st)) \<le> MAX_INODES" by (rule table_invD(7) [OF t])
  have parents: "indexParents (byId (canonInodes st)) = Inr (parentTable (canonInodes st))"
    unfolding indexParents_def using fold_parents [of "[]" "canonInodes st"] distinct_children [OF inv names] by simp
  have reads: "readInodes (nat (int (length (inodes st)))) (concat (map encInode (canonInodes st)) @ rest)
      = Inr ((byId (canonInodes st), ownerTable (canonInodes st)), rest)"
    "readAvailable (nat (hdrAvailableCount (headerOf st))) (concat (map (leBytes 8) (canonAvailable st)) @ rest)
      = Inr (fold (\<lambda>e s. addExtent s e) (canonAvailable st) emptyExtentSet, rest)"
    "readQuarantine (nat (hdrQuarantineCount (headerOf st))) (concat (map encPair (canonQuarantine st)))
      = Inr (map (\<lambda>p. (fst p, stampOf (snd p))) (canonQuarantine st), [])" for rest
    using readInodes_enc [OF inv names, of rest] readAvailable_enc [OF inv, of rest] readQuarantine_enc [OF inv, of "[]"]
    by (simp_all add: headerOf_def)
  have "\<lparr>generation = generation st, nextInodeId = nextInodeId st, rootInodeId = rootInodeId st,
      extentSize = extentSize st, activeMetadataFile = activeMetadataFile st,
      retainedGenerations = (\<lambda>_. None)(activeMetadataFile st := Some (generation st)),
      basePayloadBytes = basePayloadBytes st, inodes = byId (canonInodes st),
      parentByInode = parentTable (canonInodes st),
      allocator = \<lparr>totalExtents = totalExtents (allocator st), ownedBy = ownerTable (canonInodes st),
        available = fold (\<lambda>e s. addExtent s e) (canonAvailable st) emptyExtentSet,
        quarantine = map (\<lambda>p. (fst p, stampOf (snd p))) (canonQuarantine st)\<rparr>\<rparr> = decodedOf st"
    by (simp add: decodedOf_def)
  then show ?thesis
    using f n reads parents alloc_invD(10) [OF a] decoded_valid(3) [OF inv names ok]
    by (simp add: decodePayload_def encPayload_def b64.rd_seq readBoundedCount_enc MAX_INODES_def endReader_def
        headerOf_def)
qed

lemma length_pairs: "length (concat (map encPair xs)) = 16 * length xs"
  by (simp add: length_concat comp_def encPair_def sum_list_triv)

text \<open>The pool and the quarantine are disjoint parts of the arena, so their counts are bounded.\<close>

lemma extent_counts:
  assumes a: "alloc_inv a F"
  shows "int (sizeExtent (available a)) \<le> MAX_TOTAL_EXTENTS" "int (length (quarantine a)) \<le> MAX_TOTAL_EXTENTS"
proof -
  have part: "int (card X) \<le> MAX_TOTAL_EXTENTS" if "X \<subseteq> {0..<totalExtents a}" for X :: "int set"
  proof -
    have "card X \<le> card {0..<totalExtents a}" using that by (intro card_mono) simp_all
    with alloc_invD(9,10) [OF a] show ?thesis by simp
  qed
  show "int (sizeExtent (available a)) \<le> MAX_TOTAL_EXTENTS"
    unfolding pool.size_card [OF alloc_invD(1) [OF a]] by (rule part) (use alloc_invD(8) [OF a] in auto)
  show "int (length (quarantine a)) \<le> MAX_TOTAL_EXTENTS"
    unfolding length_dom [OF alloc_invD(3) [OF a]] by (rule part) (use alloc_invD(8) [OF a] in auto)
qed

lemma length_canon:
  "length (canonAvailable st) = sizeExtent (available (allocator st))"
  "length (canonQuarantine st) = length (quarantine (allocator st))"
  by (simp_all add: canonAvailable_def sizeExtent_def canonQuarantine_def sortQuarantine_def)

lemma inspect_base:
  assumes inv: "vfs_inv st" and names: "names_encodable st"
  shows "inspectMetadataBaseHeader (take 80 (encBase st)) = Inr (headerOf st)"
proof -
  note t = vfs_invD(1) [OF inv] and a = vfs_invD(3) [OF inv] and g = vfs_invD(4) [OF inv]
  let ?pool = "int (sizeExtent (available (allocator st)))" and ?held = "int (length (quarantine (allocator st)))"
    and ?len = "basePayloadBytes st"
  let ?head = "baseHead (generation st) (extentSize st) (metadataFileCode (activeMetadataFile st)) (rootInodeId st) ?len ?pool ?held"
  have len: "0 \<le> ?len" "?len \<le> MAX_METADATA_BASE_WRITER_BYTES"
    using length_encPayload [OF inv names] vfs_invD(5) [OF inv] by (simp_all add: bytes_inv_def)
  have counts: "?pool * 8 + ?held * 16 \<le> ?len"
    using length_encPayload [OF inv names]
    by (simp add: encPayload_def length_words length_pairs length_canon)
  obtain root where "imap st (rootInodeId st) = Some root" using table_invD(4) [OF t] by blast
  from inode_okD(2,3) [OF table_invD(3) [OF t this]] table_invD(6) [OF t]
  have root: "fits 8 (rootInodeId st)" by (simp add: fits_def u64_def MAX_U64_def)
  have fits: "fits 8 (generation st)" "fits 4 (extentSize st)" "fits 8 (rootInodeId st)" "fits 4 ?len" "fits 4 ?pool" "fits 4 ?held"
    using g table_invD(5) [OF t] extent_size_fits root len counts
    by (simp_all add: gen_inv_def fits_def [of 8] MAX_U64_def)
      (simp_all add: fits_def MAX_METADATA_BASE_WRITER_BYTES_def)
  show ?thesis unfolding encBase_def headerOf_def
    by (rule sealed_header [OF fits]) (use len in \<open>simp add: MAX_METADATA_BASE_WRITER_BYTES_def MAX_METADATA_BASE_READER_BYTES_def\<close>)
qed

text \<open>The decoded base: the same file system, its extent, and the digest of the whole base.\<close>

definition decodedBase :: "VfsState \<Rightarrow> DecodedMetadataBase" where
  "decodedBase st = \<lparr>decodedState = decodedOf st, decodedPayloadBytes = basePayloadBytes st,
     decodedBaseEnd = 80 + basePayloadBytes st, decodedBaseDigest = uint (crc32 (encBase st))\<rparr>"

lemma length_encBase:
  "vfs_inv st \<Longrightarrow> names_encodable st \<Longrightarrow> int (length (encBase st)) = 80 + basePayloadBytes st"
  using length_encPayload [of st] by (simp add: encBase_def)

lemma encBase_checksum:
  assumes "vfs_inv st" and "names_encodable st"
  shows "requireChecksum (encBase st) 64 = Inr ()"
  unfolding encBase_def
  by (rule requireChecksum_seal)
    (use length_encPayload [OF assms] vfs_invD(5) [OF assms(1)] in
      \<open>simp_all add: bytes_inv_def MAX_METADATA_BASE_WRITER_BYTES_def\<close>)

lemma decodeMetadataBase_enc:
  assumes inv: "vfs_inv st" and names: "names_encodable st" and ok: "paths_ok st"
  shows "decodeMetadataBase (encBase st) = Inr (decodedBase st)"
proof -
  note t = vfs_invD(1) [OF inv] and a = vfs_invD(3) [OF inv] and g = vfs_invD(4) [OF inv]
  have len: "int (length (encBase st)) = 80 + basePayloadBytes st" by (rule length_encBase [OF inv names])
  have payload: "drop 80 (encBase st) = encPayload st" by (simp add: encBase_def seal_def)
  have n: "\<not> length (encBase st) < 80" by (simp add: encBase_def)
  have counts: "int (sizeExtent (available (allocator st))) \<le> MAX_TOTAL_EXTENTS"
    "int (length (quarantine (allocator st))) \<le> MAX_TOTAL_EXTENTS"
    by (rule extent_counts [OF a])+
  show ?thesis
    using inspect_base [OF inv names] n len encBase_checksum [OF inv names] decodePayload_enc [OF inv names ok] payload
      counts g table_invD(5) [OF t] metadataFile_code [of _ "activeMetadataFile st", THEN iffD2, OF refl]
    by (simp add: decodeMetadataBase_def METADATA_HEADER_BYTES_def METADATA_HEADER_CHECKSUM_OFFSET_def
        requireCurrentIdentity_def gen_inv_def orCorrupt_def validateExtentSize_Inr [THEN iffD2] decodedBase_def
        headerOf_def)
qed

end
