(* ===== verification/StoreRecovery.thy ===== *)
theory StoreRecovery
  imports StoreHost BaseRoundtrip
begin

text \<open>
  What recovery finds: the log is a sequence of encoded frames of committed transactions, followed by
  whatever a crash left of the next one, and replay returns the state after exactly the whole frames.
\<close>

section \<open>Logs\<close>

definition logFrame :: "int \<Rightarrow> int \<Rightarrow> TxnRecord \<Rightarrow> TxnFrame" where
  "logFrame gen seq record = \<lparr>frameGeneration = gen, frameSequence = seq, frameRecord = record\<rparr>"

fun logOf :: "int \<Rightarrow> int \<Rightarrow> TxnRecord list \<Rightarrow> byte list" where
  "logOf gen seq [] = []"
| "logOf gen seq (record # records) = encFrame (logFrame gen seq record) @ logOf gen (seq + 1) records"

fun log_fits :: "int \<Rightarrow> int \<Rightarrow> TxnRecord list \<Rightarrow> bool" where
  "log_fits gen seq [] \<longleftrightarrow> True"
| "log_fits gen seq (record # records) \<longleftrightarrow> frame_fits (logFrame gen seq record) \<and> log_fits gen (seq + 1) records"

fun committed :: "VfsState \<Rightarrow> TxnRecord list \<Rightarrow> VfsState option" where
  "committed state [] = Some state"
| "committed state (record # records) =
     (case applyTxn state record None of
        (None, state') \<Rightarrow> committed state' records
      | (Some _, _) \<Rightarrow> None)"

text \<open>Bytes at which the replay stops: no whole frame, or one that does not continue the log.\<close>

definition stopsHere :: "byte list \<Rightarrow> int \<Rightarrow> VfsState \<Rightarrow> bool" where
  "stopsHere rest seq state \<longleftrightarrow> length rest < TXN_FRAME_HEADER_BYTES
     \<or> (case inspectTxnFrameHeader (take TXN_FRAME_HEADER_BYTES rest) of
          Inl e \<Rightarrow> e = CorruptStoreError
        | Inr h \<Rightarrow> headerFrameBytes h > int (length rest)
            \<or> replayFrame (take (nat (headerFrameBytes h)) rest) seq state = (Inr False, state))"

section \<open>Frames\<close>

lemma frame_header:
  assumes "frame_fits f" and "buf = encFrame f @ rest"
  shows "inspectTxnFrameHeader (take 48 buf) = Inr \<lparr>headerGeneration = frameGeneration f, headerSequence = frameSequence f,
      headerPayloadLength = int (length (encRecord (frameRecord f))), headerFrameBytes = int (length (encFrame f))\<rparr>"
proof -
  let ?n = "int (length (encRecord (frameRecord f)))"
  let ?head = "frameHead (frameGeneration f) (frameSequence f) ?n"
  let ?c = "leBytes 4 (uint (crc32 (?head @ zeros 4 @ zeros 4 @ zeros 4 @ encRecord (frameRecord f))))"
  have "take 48 (encFrame f) = ?head @ zeros 4 @ ?c @ zeros 4"
    by (simp add: encFrame_def Let_def seal_def)
  moreover have "take 48 buf = take 48 (encFrame f)" by (simp add: assms(2) length_encFrame)
  ultimately show ?thesis
    using assms(1) by (auto simp: inspectTxnFrameHeader_iff length_encFrame frame_fits_def intro!: exI [of _ ?c])
qed

lemma frame_decodes: "frame_fits f \<Longrightarrow> decodeTxnFrame (encFrame f) = Inr f"
  by (simp add: decodeTxnFrame_iff)

text \<open>A frame of which only a part was written stops the replay.\<close>

lemma torn_stops:
  assumes "frame_fits f" and "k < length (encFrame f)"
  shows "stopsHere (take k (encFrame f)) seq state"
proof (cases "k < 48")
  case False
  then have "take 48 (take k (encFrame f)) = take 48 (encFrame f)" by (simp add: min_def)
  with frame_header [OF assms(1), of "encFrame f" "[]"] assms(2) show ?thesis
    by (simp add: stopsHere_def TXN_FRAME_HEADER_BYTES_def)
qed (simp add: stopsHere_def TXN_FRAME_HEADER_BYTES_def min_less_iff_disj)

lemma empty_stops: "stopsHere [] seq state"
  by (simp add: stopsHere_def TXN_FRAME_HEADER_BYTES_def)

lemma applyTxn_generation:
  assumes "vfs_inv st" and "applyTxn st record None = (None, st')"
  shows "generation st' = generation st" and "extentSize st' = extentSize st"
proof -
  from applyTxn_core [of st "record" st'] assms obtain s where "reduces st record s"
    "st' = s\<lparr>basePayloadBytes := basePayloadBytes st + (base_bytes s - base_bytes st)\<rparr>"
    by (auto simp: vfs_inv_core)
  with reducesD(5,6) show "generation st' = generation st" "extentSize st' = extentSize st" by auto
qed

lemma committed_Cons:
  "committed st (r # rs) = Some st' \<longleftrightarrow> (\<exists>next_st. applyTxn st r None = (None, next_st) \<and> committed next_st rs = Some st')"
  by (auto split: prod.splits option.splits)

declare committed.simps(2) [simp del]

lemma log_append:
  "logOf gen seq (rs @ rs') = logOf gen seq rs @ logOf gen (seq + int (length rs)) rs'"
  "log_fits gen seq (rs @ rs') \<longleftrightarrow> log_fits gen seq rs \<and> log_fits gen (seq + int (length rs)) rs'"
  by (induction rs arbitrary: seq) (simp_all add: algebra_simps)

lemma committed_append:
  "committed st (rs @ rs') = (case committed st rs of None \<Rightarrow> None | Some st' \<Rightarrow> committed st' rs')"
  by (induction rs arbitrary: st) (auto simp: committed.simps split: prod.split option.split)

lemma committed_keeps:
  "vfs_inv st \<Longrightarrow> committed st rs = Some st' \<Longrightarrow>
     vfs_inv st' \<and> generation st' = generation st \<and> extentSize st' = extentSize st"
proof (induction rs arbitrary: st)
  case (Cons r rs)
  then obtain next_st where step: "applyTxn st r None = (None, next_st)" "committed next_st rs = Some st'"
    by (auto simp: committed_Cons)
  with Cons.IH [of next_st] applyTxn_inv [OF Cons.prems(1) step(1)] applyTxn_generation [OF Cons.prems(1) step(1)]
  show ?case by simp
qed simp

section \<open>Replay\<close>

text \<open>One turn of the loop, from the reads it makes.\<close>

lemma replayLoop_done:
  "\<not> (cursor < len \<and> n < MAX_ACTIVE_LOG_FRAMES) \<or> len - cursor < 48 \<or> cursor - baseEnd + 48 > MAX_ACTIVE_LOG_BYTES \<Longrightarrow>
     replayLoop ops h len baseEnd cursor seq n st w = (Inr (cursor, seq, st), w)"
  by (subst replayLoop.simps) (auto simp: TXN_FRAME_HEADER_BYTES_def Let_def)

lemma replayLoop_header:
  assumes "cursor < len" "n < MAX_ACTIVE_LOG_FRAMES" "48 \<le> len - cursor" "cursor - baseEnd + 48 \<le> MAX_ACTIVE_LOG_BYTES"
    and "readAt ops h cursor 48 48 ''metadata.log.read-header'' w = (Inr header, w1)"
  shows "inspectTxnFrameHeader header = Inl CorruptStoreError \<Longrightarrow>
      replayLoop ops h len baseEnd cursor seq n st w = (Inr (cursor, seq, st), w1)"
    and "inspectTxnFrameHeader header = Inr i \<Longrightarrow>
      headerFrameBytes i > len - cursor \<or> cursor - baseEnd + headerFrameBytes i > MAX_ACTIVE_LOG_BYTES \<Longrightarrow>
      replayLoop ops h len baseEnd cursor seq n st w = (Inr (cursor, seq, st), w1)"
    and "inspectTxnFrameHeader header = Inr i \<Longrightarrow> headerFrameBytes i \<le> len - cursor \<Longrightarrow>
      cursor - baseEnd + headerFrameBytes i \<le> MAX_ACTIVE_LOG_BYTES \<Longrightarrow>
      readAt ops h cursor (headerFrameBytes i) (48 + headerPayloadLength i) ''metadata.log.read-frame'' w1 = (Inr fb, w2) \<Longrightarrow>
      replayLoop ops h len baseEnd cursor seq n st w =
       (case replayFrame fb seq st of
          (Inl e, _) \<Rightarrow> (Inl e, w2)
        | (Inr False, state') \<Rightarrow> (Inr (cursor, seq, state'), w2)
        | (Inr True, state') \<Rightarrow>
            replayLoop ops h len baseEnd (cursor + headerFrameBytes i) (seq + 1) (n + 1) state' w2)"
  using assms by (subst replayLoop.simps, auto simp: TXN_FRAME_HEADER_BYTES_def Let_def)+

context store_host
begin

lemma replay_stops:
  assumes valid: "hvValid v h name" and contents: "hvFiles v name = pre @ rest" "int (length pre) = cursor"
    and len: "int (length (hvFiles v name)) \<le> MAX_SAFE_INTEGER"
    and stop: "stopsHere rest seq st"
  shows "does v (replayLoop ops h (int (length (hvFiles v name))) baseEnd cursor seq n st) (Inr (cursor, seq, st)) v"
    (is "does v (replayLoop ops h ?len baseEnd cursor seq n st) ?r v")
proof (cases "cursor < ?len \<and> n < MAX_ACTIVE_LOG_FRAMES \<and> 48 \<le> ?len - cursor \<and> cursor - baseEnd + 48 \<le> MAX_ACTIVE_LOG_BYTES")
  case False
  then have "replayLoop ops h ?len baseEnd cursor seq n st w = (?r, w)" for w
    by (intro replayLoop_done) linarith
  then show ?thesis by (simp only: steps_def) blast
next
  case True
  then have room: "cursor + 48 \<le> ?len" "48 \<le> length rest" "?len - cursor = int (length rest)" using contents by simp_all
  have header: "does v (readAt ops h cursor 48 48 l) (Inr (take 48 rest)) v" for l
    using read_does [OF valid, of cursor 48 48 l] contents(1) len room by (simp add: MAX_SAFE_INTEGER_def flip: contents(2))
  show ?thesis unfolding steps_def
  proof (intro allI impI)
    fix w assume "showing inv view w v"
    with stepsD [OF header] obtain w1 where w1: "showing inv view w1 v"
      "readAt ops h cursor 48 48 ''metadata.log.read-header'' w = (Inr (take 48 rest), w1)" by blast
    note turn = replayLoop_header [OF _ _ _ _ w1(2), of ?len n baseEnd]
    show "\<exists>w'. replayLoop ops h ?len baseEnd cursor seq n st w = (?r, w') \<and> showing inv view w' v"
    proof (cases "inspectTxnFrameHeader (take 48 rest)")
      case (Inl e)
      with stop room have "e = CorruptStoreError" by (simp add: stopsHere_def TXN_FRAME_HEADER_BYTES_def)
      with turn(1) Inl True w1(1) show ?thesis by auto
    next
      case (Inr i)
      show ?thesis
      proof (cases "headerFrameBytes i > ?len - cursor \<or> cursor - baseEnd + headerFrameBytes i > MAX_ACTIVE_LOG_BYTES")
        case big: True
        with turn(2) [OF _ _ _ _ Inr] True w1(1) show ?thesis by auto
      next
        case fits: False
        have i: "headerFrameBytes i = 48 + headerPayloadLength i" "0 \<le> headerPayloadLength i"
          "headerPayloadLength i \<le> MAX_FRAME_PAYLOAD_BYTES"
          using Inr by (auto simp: inspectTxnFrameHeader_iff)
        have sizes: "0 \<le> headerFrameBytes i" "headerFrameBytes i \<le> 48 + headerPayloadLength i"
          "48 + headerPayloadLength i \<le> MAX_SAFE_INTEGER" "cursor + headerFrameBytes i \<le> ?len"
          using i fits by (simp_all add: MAX_SAFE_INTEGER_def MAX_FRAME_PAYLOAD_BYTES_def)
        have slice: "drop (nat cursor) (hvFiles v name) = rest" and pos: "0 \<le> cursor" using contents by auto
        have "does v (readAt ops h cursor (headerFrameBytes i) (48 + headerPayloadLength i) l)
            (Inr (take (nat (headerFrameBytes i)) rest)) v" for l
          unfolding slice [symmetric] by (rule read_does [OF valid pos]) (use sizes len in linarith)+
        from stepsD [OF this w1(1)] obtain w2 where w2: "showing inv view w2 v" "readAt ops h cursor (headerFrameBytes i)
            (48 + headerPayloadLength i) ''metadata.log.read-frame'' w1 = (Inr (take (nat (headerFrameBytes i)) rest), w2)"
          by blast
        have "replayFrame (take (nat (headerFrameBytes i)) rest) seq st = (Inr False, st)"
          using stop room fits Inr by (simp add: stopsHere_def TXN_FRAME_HEADER_BYTES_def)
        with turn(3) [OF _ _ _ _ Inr _ _ w2(2), of seq st] True fits w2(1) show ?thesis by auto
      qed
    qed
  qed
qed

text \<open>A whole frame that continues the log is applied.\<close>

lemma replay_step:
  assumes valid: "hvValid v h name" and contents: "hvFiles v name = pre @ encFrame f @ rest" "int (length pre) = cursor"
    and len: "int (length (hvFiles v name)) \<le> MAX_SAFE_INTEGER"
    and f: "frame_fits f" "frameGeneration f = generation st" "frameSequence f = seq"
      "applyTxn st (frameRecord f) None = (None, st')"
    and room: "n < MAX_ACTIVE_LOG_FRAMES" "cursor - baseEnd + int (length (encFrame f)) \<le> MAX_ACTIVE_LOG_BYTES"
    and further: "does v (replayLoop ops h (int (length (hvFiles v name))) baseEnd (cursor + int (length (encFrame f)))
        (seq + 1) (n + 1) st') r v"
  shows "does v (replayLoop ops h (int (length (hvFiles v name))) baseEnd cursor seq n st) r v"
    (is "does v (replayLoop ops h ?len baseEnd cursor seq n st) r v")
  unfolding steps_def
proof (intro allI impI)
  let ?f = "int (length (encFrame f))" and ?p = "int (length (encRecord (frameRecord f)))"
  fix w assume w: "showing inv view w v"
  have size: "?f = 48 + ?p" by (simp add: length_encFrame)
  have fits: "cursor < ?len" "48 \<le> ?len - cursor" "cursor - baseEnd + 48 \<le> MAX_ACTIVE_LOG_BYTES" "?f \<le> ?len - cursor"
    using contents room(2) size by simp_all
  have small: "48 + ?p \<le> MAX_SAFE_INTEGER" using fits(4) contents(2) len size by linarith
  have slice: "drop (nat cursor) (hvFiles v name) = encFrame f @ rest" and pos: "0 \<le> cursor" using contents by auto
  have "does v (readAt ops h cursor 48 48 l) (Inr (take (nat 48) (encFrame f @ rest))) v" for l
    unfolding slice [symmetric] by (rule read_does [OF valid pos]) (use fits len in \<open>simp_all add: MAX_SAFE_INTEGER_def\<close>)
  from stepsD [OF this w] obtain w1 where w1: "showing inv view w1 v"
    "readAt ops h cursor 48 48 ''metadata.log.read-header'' w = (Inr (take 48 (encFrame f @ rest)), w1)" by auto
  have "does v (readAt ops h cursor ?f (48 + ?p) l) (Inr (take (nat ?f) (encFrame f @ rest))) v" for l
    unfolding slice [symmetric] by (rule read_does [OF valid pos]) (use fits len small size in linarith)+
  from stepsD [OF this w1(1)] obtain w2 where w2: "showing inv view w2 v"
    "readAt ops h cursor ?f (48 + ?p) ''metadata.log.read-frame'' w1 = (Inr (encFrame f), w2)" by auto
  have "replayFrame (encFrame f) seq st = (Inr True, st')"
    using frame_decodes [OF f(1)] f(2-4) by (simp add: replayFrame_def)
  then have "replayLoop ops h ?len baseEnd cursor seq n st w
      = replayLoop ops h ?len baseEnd (cursor + ?f) (seq + 1) (n + 1) st' w2"
    using replayLoop_header(3) [OF fits(1) room(1) fits(2,3) w1(2) frame_header [OF f(1) refl], simplified, OF fits(4) room(2) w2(2)]
    by simp
  with stepsD [OF further w2(1)] show "\<exists>w'. replayLoop ops h ?len baseEnd cursor seq n st w = (r, w') \<and> showing inv view w' v"
    by simp
qed

lemma replay_log:
  assumes valid: "hvValid v h name" and len: "int (length (hvFiles v name)) \<le> MAX_SAFE_INTEGER"
  shows "hvFiles v name = pre @ logOf (generation st) seq rs @ rest \<Longrightarrow> int (length pre) = cursor \<Longrightarrow>
    log_fits (generation st) seq rs \<Longrightarrow> vfs_inv st \<Longrightarrow> committed st rs = Some st' \<Longrightarrow>
    stopsHere rest (seq + int (length rs)) st' \<Longrightarrow> n + int (length rs) \<le> MAX_ACTIVE_LOG_FRAMES \<Longrightarrow>
    cursor - baseEnd + int (length (logOf (generation st) seq rs)) \<le> MAX_ACTIVE_LOG_BYTES \<Longrightarrow>
    does v (replayLoop ops h (int (length (hvFiles v name))) baseEnd cursor seq n st)
      (Inr (cursor + int (length (logOf (generation st) seq rs)), seq + int (length rs), st')) v"
proof (induction rs arbitrary: pre cursor seq n st)
  case Nil
  then show ?case using replay_stops [OF valid, of pre rest cursor seq st] len by simp
next
  case (Cons r rs)
  let ?f = "logFrame (generation st) seq r"
  obtain next_st where step: "applyTxn st r None = (None, next_st)" "committed next_st rs = Some st'"
    using Cons.prems(5) by (auto simp: committed_Cons)
  note keep = applyTxn_inv [OF Cons.prems(4) step(1)] applyTxn_generation(1) [OF Cons.prems(4) step(1)]
  let ?c = "cursor + int (length (encFrame ?f))"
  have next_seq: "seq + int (length (r # rs)) = seq + 1 + int (length rs)" by simp
  have log: "logOf (generation st) seq (r # rs) = encFrame ?f @ logOf (generation next_st) (seq + 1) rs"
    by (simp add: keep(2))
  have tail: "does v (replayLoop ops h (int (length (hvFiles v name))) baseEnd ?c (seq + 1) (n + 1) next_st)
      (Inr (?c + int (length (logOf (generation next_st) (seq + 1) rs)), seq + 1 + int (length rs), st')) v"
  proof (rule Cons.IH [of "pre @ encFrame ?f"])
    show "hvFiles v name = (pre @ encFrame ?f) @ logOf (generation next_st) (seq + 1) rs @ rest"
      using Cons.prems(1) unfolding log by (simp only: append_assoc)
    show "log_fits (generation next_st) (seq + 1) rs" using Cons.prems(3) by (simp add: keep(2))
    show "stopsHere rest (seq + 1 + int (length rs)) st'" using Cons.prems(6) unfolding next_seq .
  qed (use Cons.prems(2,7,8) step(2) keep in \<open>simp_all add: log\<close>)
  have room: "n < MAX_ACTIVE_LOG_FRAMES" "cursor - baseEnd + int (length (encFrame ?f)) \<le> MAX_ACTIVE_LOG_BYTES"
    using Cons.prems(7,8) by (simp_all add: log)
  have f: "frame_fits ?f" "frameGeneration ?f = generation st" "frameSequence ?f = seq"
    "applyTxn st (frameRecord ?f) None = (None, next_st)"
    using Cons.prems(3) step(1) by (simp_all add: logFrame_def)
  have "hvFiles v name = pre @ encFrame ?f @ logOf (generation next_st) (seq + 1) rs @ rest"
    using Cons.prems(1) unfolding log by (simp only: append_assoc)
  from replay_step [OF valid this Cons.prems(2) len f room tail] show ?case
    unfolding next_seq log by (simp add: add.assoc)
qed

end

end
