(* ===== verification/StoreOpen.thy ===== *)
theory StoreOpen
  imports StoreRecovery
begin

text \<open>
  Opening a store: from the files a crash has left, \<open>openMetadataStore\<close> recovers the state that the
  selected base and the whole frames after it denote; from an empty directory it makes a store that the
  next opening recovers.
\<close>

section \<open>Images of a store\<close>

text \<open>A metadata file whose inspection raises nothing: short, corrupt, or of the current version.\<close>

definition harmless :: "byte list \<Rightarrow> bool" where
  "harmless buf \<longleftrightarrow> length buf < METADATA_HEADER_BYTES
     \<or> (case inspectMetadataBaseHeader (take METADATA_HEADER_BYTES buf) of
          Inl e \<Rightarrow> e = CorruptStoreError
        | Inr h \<Rightarrow> hdrBaseEnd h > int (length buf)
            \<or> onlyVersion (decodeMetadataBase (take (nat (hdrBaseEnd h)) buf)) = Inr ())"

text \<open>The state a base and its activation records stand for.\<close>

definition baseState :: "VfsState \<Rightarrow> ActivationRecord option \<Rightarrow> VfsState" where
  "baseState st other =
     (case other of
        None \<Rightarrow> decodedOf st
      | Some r \<Rightarrow> (decodedOf st)\<lparr>retainedGenerations := (retainedGenerations (decodedOf st))
          (actMetadataFile r := Some (actGeneration r))\<rparr>)"

text \<open>
  What the files of an activated store hold: two slots of which one is selected, an arena with a valid
  header, the selected base with a log of committed transactions and a torn rest, and another metadata
  file that is harmless.
\<close>

definition store_image ::
  "(OwnedFileName \<Rightarrow> byte list) \<Rightarrow> ActivationRecord \<Rightarrow> ActivationRecord option \<Rightarrow> VfsState \<Rightarrow> TxnRecord list
     \<Rightarrow> byte list \<Rightarrow> VfsState \<Rightarrow> bool" where
  "store_image files selected other st records rest final \<longleftrightarrow>
     length (files ActivationBin) \<le> 256
     \<and> selectActivationPair (take 128 (files ActivationBin)) (take 128 (drop 128 (files ActivationBin))) = Inr (selected, other)
     \<and> take 8192 (files ArenaBin) = encArena (extentSize st)
     \<and> vfs_inv st \<and> names_encodable st \<and> paths_ok st
     \<and> actMetadataFile selected = activeMetadataFile st \<and> actGeneration selected = generation st
     \<and> actBaseEnd selected = int (length (encBase st)) \<and> actBaseDigest selected = metadataBaseDigest (encBase st)
     \<and> (\<forall>r. other = Some r \<longrightarrow> actMetadataFile r \<noteq> activeMetadataFile st \<and> 0 < actGeneration r
          \<and> actGeneration r + 1 = generation st)
     \<and> files (metadataFileName (activeMetadataFile st)) = encBase st @ logOf (generation st) 1 records @ rest
     \<and> harmless (files (metadataFileName (otherMetadataFile (activeMetadataFile st))))
     \<and> log_fits (generation st) 1 records \<and> int (length records) \<le> MAX_ACTIVE_LOG_FRAMES
     \<and> int (length (logOf (generation st) 1 records)) \<le> MAX_ACTIVE_LOG_BYTES
     \<and> committed (baseState st other) records = Some final \<and> validateState final = Inr ()
     \<and> stopsHere rest (1 + int (length records)) final"

text \<open>A frame at the end of the log: in part it is a torn rest, in full another committed transaction.\<close>

lemma store_image_torn:
  assumes "store_image files selected other st records [] final" and "frame_fits f" and "k < length (encFrame f)"
    and "name = metadataFileName (activeMetadataFile st)"
  shows "store_image (files(name := files name @ take k (encFrame f))) selected other st records (take k (encFrame f)) final"
  using assms(1) torn_stops [OF assms(2,3)] unfolding store_image_def assms(4)
  by (cases "activeMetadataFile st") simp_all

lemma store_image_next:
  assumes "store_image files selected other st records [] final"
    and f: "f = logFrame (generation st) (1 + int (length records)) r" "frame_fits f"
    and step: "applyTxn final r None = (None, final')" "validateState final' = Inr ()"
    and room: "int (length records) < MAX_ACTIVE_LOG_FRAMES"
      "int (length (logOf (generation st) 1 records @ encFrame f)) \<le> MAX_ACTIVE_LOG_BYTES"
    and "name = metadataFileName (activeMetadataFile st)"
  shows "store_image (files(name := files name @ encFrame f)) selected other st (records @ [r]) [] final'"
proof -
  note i = assms(1) [unfolded store_image_def]
  have "committed (baseState st other) (records @ [r]) = Some final'"
    using i step(1) by (simp add: committed_append committed_Cons)
  with i f(2) step(2) room assms(8) show ?thesis unfolding store_image_def f(1)
    by (cases "activeMetadataFile st") (simp_all add: log_append empty_stops)
qed

text \<open>The generations of the metadata files are independent of the rest of the state.\<close>

lemma relabel_inv:
  assumes inv: "vfs_inv st" and paths: "paths_ok st" and gen: "gen_inv st'"
    and eqs: "inodes st' = inodes st" "parentByInode st' = parentByInode st" "rootInodeId st' = rootInodeId st"
      "extentSize st' = extentSize st" "nextInodeId st' = nextInodeId st" "allocator st' = allocator st"
      "basePayloadBytes st' = basePayloadBytes st"
  shows "vfs_inv st'" and "paths_ok st'"
proof -
  note v = vfs_invD [OF inv]
  have child: "child_of st' = child_of st" by (rule child_of_cong [OF eqs(1)])
  have files: "file_extents st' = file_extents st" by (rule file_extents_cong [OF eqs(1)])
  have "table_inv st'" by (rule table_cong [OF v(1) eqs(1-4)]) (use table_invD(6) [OF v(1)] eqs(5) in simp_all)
  moreover have "tree_inv st'" by (rule tree_inv_cong [OF v(2) child]) (simp_all add: eqs)
  moreover have "bytes_inv st'" using v(5) by (simp add: bytes_inv_def base_bytes_def eqs)
  moreover have "alloc_inv (allocator st') (file_extents st')" using v(3) files eqs(6) by simp
  ultimately show "vfs_inv st'" using gen by (simp add: vfs_inv_def)
  show "paths_ok st'" using paths lookup_cong [OF child eqs(3)] by (simp add: paths_ok_def)
qed

lemma base_state_inv:
  assumes "vfs_inv st" and "names_encodable st" and "paths_ok st"
    and "\<forall>r. other = Some r \<longrightarrow> actMetadataFile r \<noteq> activeMetadataFile st \<and> 0 < actGeneration r
          \<and> actGeneration r + 1 = generation st"
  shows "vfs_inv (baseState st other)" "validateState (baseState st other) = Inr ()"
    "generation (baseState st other) = generation st" "extentSize (baseState st other) = extentSize st"
proof -
  note d = decoded_valid [OF assms(1-3)]
  have v: "vfs_inv (baseState st other) \<and> paths_ok (baseState st other)"
  proof (cases other)
    case None
    with d show ?thesis by (simp add: baseState_def)
  next
    case (Some r)
    have flip: "actMetadataFile r = otherMetadataFile (activeMetadataFile st)"
      using assms(4) Some by (cases "actMetadataFile r"; cases "activeMetadataFile st") auto
    have "gen_inv (baseState st other)" using vfs_invD(4) [OF d(1)] assms(4) Some flip
      by (auto simp: baseState_def gen_inv_def decodedOf_def)
    with relabel_inv [OF d(1,2)] show ?thesis by (simp add: baseState_def Some)
  qed
  then show "vfs_inv (baseState st other)" "validateState (baseState st other) = Inr ()"
    using validateState_complete by blast+
  show "generation (baseState st other) = generation st" "extentSize (baseState st other) = extentSize st"
    by (simp_all add: baseState_def decodedOf_def split: option.split)
qed

section \<open>Inspecting and reading\<close>

lemma header_end:
  assumes "inspectMetadataBaseHeader buf = Inr i"
  shows "80 \<le> hdrBaseEnd i" and "hdrBaseEnd i \<le> 80 + MAX_METADATA_BASE_READER_BYTES"
proof -
  have "0 \<le> getLE 4 buf 40" using leValue_bound by (simp add: getLE_def)
  with assms show "80 \<le> hdrBaseEnd i" "hdrBaseEnd i \<le> 80 + MAX_METADATA_BASE_READER_BYTES"
    by (auto simp: inspectMetadataBaseHeader_def Let_def METADATA_HEADER_BYTES_def ebind_eq_Inr split: if_splits)
qed

context store_host
begin

lemma detect_does:
  assumes valid: "hvValid v h name" and len: "int (length (hvFiles v name)) \<le> MAX_SAFE_INTEGER"
    and harmless: "harmless (hvFiles v name)"
  shows "does v (detectCompleteMetadataVersion ops h (int (length (hvFiles v name))) label) (Inr ()) v"
proof (cases "length (hvFiles v name) < 80")
  case True
  then show ?thesis by (simp add: detectCompleteMetadataVersion_def METADATA_HEADER_BYTES_def)
next
  case False
  let ?f = "hvFiles v name"
  let ?attempt = "iobind (readAt ops h 0 80 80 label) (\<lambda>source.
        iobind (iolift (inspectMetadataBaseHeader source)) (\<lambda>header. ioret (Some header)))"
  define further where "further = (case_option (ioret ()) (\<lambda>header :: MetadataBaseHeader. if int (length ?f) < hdrBaseEnd header then ioret ()
      else iobind (readAt ops h 0 (hdrBaseEnd header) (int METADATA_HEADER_BYTES + MAX_METADATA_BASE_READER_BYTES) (label @ ''.base''))
        (\<lambda>base. iolift (onlyVersion (decodeMetadataBase base)))))"
  have split: "detectCompleteMetadataVersion ops h (int (length ?f)) label
      = iobind (iocatch ?attempt (\<lambda>cause. if cause = CorruptStoreError then ioret None else iofail cause)) further"
    using False by (simp add: detectCompleteMetadataVersion_def METADATA_HEADER_BYTES_def further_def)
  have header: "does v (readAt ops h 0 80 80 label) (Inr (take 80 ?f)) v"
    using read_does [OF valid, of 0 80 80 label] False len by (simp add: MAX_SAFE_INTEGER_def)
  show ?thesis unfolding split
  proof (cases "inspectMetadataBaseHeader (take 80 ?f)")
    case (Inl e)
    with harmless False have e: "e = CorruptStoreError" by (simp add: harmless_def METADATA_HEADER_BYTES_def)
    have "does v ?attempt (Inl CorruptStoreError) v" by (rule steps_bind [OF header]) (simp add: Inl e)
    from steps_catch_fail [OF this]
    have "does v (iocatch ?attempt (\<lambda>cause. if cause = CorruptStoreError then ioret None else iofail cause)) (Inr None) v" by simp
    then show "does v (iobind (iocatch ?attempt (\<lambda>cause. if cause = CorruptStoreError then ioret None else iofail cause)) further) (Inr ()) v"
      by (rule steps_bind) (simp add: further_def)
  next
    case (Inr i)
    note ends = header_end [OF Inr]
    have "does v ?attempt (Inr (Some i)) v" by (rule steps_bind [OF header]) (simp add: Inr)
    then have inspected: "does v (iocatch ?attempt (\<lambda>cause. if cause = CorruptStoreError then ioret None else iofail cause))
        (Inr (Some i)) v" by (rule steps_catch_ok)
    have base: "does v (readAt ops h 0 (hdrBaseEnd i) (int METADATA_HEADER_BYTES + MAX_METADATA_BASE_READER_BYTES) l)
        (Inr (take (nat (hdrBaseEnd i)) (drop (nat 0) ?f))) v" if "\<not> hdrBaseEnd i > int (length ?f)" for l
      by (rule read_does [OF valid])
        (use ends that len in \<open>simp_all add: MAX_SAFE_INTEGER_def MAX_METADATA_BASE_READER_BYTES_def METADATA_HEADER_BYTES_def\<close>)
    have "does v (further (Some i)) (Inr ()) v"
    proof (cases "hdrBaseEnd i > int (length ?f)")
      case whole: False
      then have "onlyVersion (decodeMetadataBase (take (nat (hdrBaseEnd i)) ?f)) = Inr ()"
        using harmless False Inr by (simp add: harmless_def METADATA_HEADER_BYTES_def)
      then have "does v (iobind (readAt ops h 0 (hdrBaseEnd i) (int METADATA_HEADER_BYTES + MAX_METADATA_BASE_READER_BYTES)
          (label @ ''.base'')) (\<lambda>base. iolift (onlyVersion (decodeMetadataBase base)))) (Inr ()) v"
        by (intro steps_bind [OF base [OF whole]]) simp
      with whole show ?thesis by (simp add: further_def)
    qed (simp add: further_def)
    with inspected show "does v (iobind (iocatch ?attempt (\<lambda>cause. if cause = CorruptStoreError then ioret None else iofail cause)) further) (Inr ()) v"
      by (rule steps_bind)
  qed
qed

lemma steps_ret_eq: "r = Inr x \<Longrightarrow> steps at v (ioret x) r v"
  by simp

lemma read_prefix_does:
  assumes "hvValid v h name" and "int (length (hvFiles v name)) \<le> MAX_SAFE_INTEGER"
    and "hvFiles v name = front @ rest" and "n = int (length front)" and "n \<le> maximum" and "maximum \<le> MAX_SAFE_INTEGER"
  shows "does v (readAt ops h 0 n maximum label) (Inr front) v"
proof -
  have "front = take (nat n) (drop (nat 0) (hvFiles v name))" using assms(3,4) by simp
  moreover have "does v (readAt ops h 0 n maximum label) (Inr (take (nat n) (drop (nat 0) (hvFiles v name)))) v"
    by (rule read_does [OF assms(1)]) (use assms in simp_all)
  ultimately show ?thesis by simp
qed

lemma selected_base_does:
  assumes valid: "hvValid v h name" and len: "int (length (hvFiles v name)) \<le> MAX_SAFE_INTEGER"
    and contents: "hvFiles v name = encBase st @ rest"
    and ok: "vfs_inv st" "names_encodable st" "paths_ok st"
    and selected: "actMetadataFile selected = activeMetadataFile st" "actGeneration selected = generation st"
      "actBaseEnd selected = int (length (encBase st))" "actBaseDigest selected = metadataBaseDigest (encBase st)"
  shows "does v (readSelectedBase ops h (int (length (hvFiles v name))) selected) (Inr (decodedBase st, headerOf st)) v"
proof -
  let ?f = "hvFiles v name"
  note size = length_encBase [OF ok(1,2)]
  have payload: "0 \<le> basePayloadBytes st" "basePayloadBytes st \<le> MAX_METADATA_BASE_READER_BYTES"
    using size vfs_invD(5) [OF ok(1)] length_encPayload [OF ok(1,2)]
    by (simp_all add: bytes_inv_def MAX_METADATA_BASE_WRITER_BYTES_def MAX_METADATA_BASE_READER_BYTES_def)
  have long: "80 \<le> length (encBase st)" using size payload(1) by linarith
  have header: "does v (readAt ops h 0 80 80 l) (Inr (take 80 (encBase st))) v" for l
    using read_does [OF valid, of 0 80 80 l] contents long len by (simp add: MAX_SAFE_INTEGER_def)
  have base: "does v (readAt ops h 0 (80 + basePayloadBytes st) (80 + MAX_METADATA_BASE_READER_BYTES) l) (Inr (encBase st)) v" for l
    by (rule read_prefix_does [OF valid len contents])
      (use size payload in \<open>simp_all add: MAX_SAFE_INTEGER_def MAX_METADATA_BASE_READER_BYTES_def\<close>)
  have hb: "hdrBaseEnd (headerOf st) = 80 + basePayloadBytes st" by (simp add: headerOf_def)
  have n1: "\<not> int (length ?f) < 80" using contents long by simp
  have n2: "\<not> (80 + basePayloadBytes st \<noteq> actBaseEnd selected \<or> 80 + basePayloadBytes st > int (length ?f))"
    using contents size selected(3) by simp
  have n3: "\<not> (activeMetadataFile (decodedState (decodedBase st)) \<noteq> actMetadataFile selected
      \<or> generation (decodedState (decodedBase st)) \<noteq> actGeneration selected
      \<or> decodedBaseEnd (decodedBase st) \<noteq> actBaseEnd selected \<or> decodedBaseDigest (decodedBase st) \<noteq> actBaseDigest selected)"
    using selected size by (simp add: decodedBase_def decodedOf_def metadataBaseDigest_def)
  show ?thesis
    unfolding readSelectedBase_def METADATA_HEADER_BYTES_def of_nat_numeral if_not_P [OF n1]
  proof (rule steps_bind [OF header], unfold inspect_base [OF ok(1,2)] iobind_lift hb if_not_P [OF n2], rule steps_bind [OF base])
    show "does v (iobind (iolift (decodeMetadataBase (encBase st))) (\<lambda>decoded.
        if activeMetadataFile (decodedState decoded) \<noteq> actMetadataFile selected
           \<or> generation (decodedState decoded) \<noteq> actGeneration selected
           \<or> decodedBaseEnd decoded \<noteq> actBaseEnd selected \<or> decodedBaseDigest decoded \<noteq> actBaseDigest selected
        then iofail CorruptStoreError else ioret (decoded, headerOf st))) (Inr (decodedBase st, headerOf st)) v"
      unfolding decodeMetadataBase_enc [OF ok] iobind_lift if_not_P [OF n3] by simp
  qed
qed

end

section \<open>The recovered store\<close>

definition requiredEnd :: "VfsState \<Rightarrow> int" where
  "requiredEnd state = ARENA_HEADER_BYTES + totalExtents (allocator state) * extentSize state"

lemma requiredArenaEnd_ok:
  assumes "vfs_inv st"
  shows "requiredArenaEnd st = Inr (requiredEnd st)" "checkedSafeNumber (requiredEnd st) = Inr (requiredEnd st)"
    "0 \<le> requiredEnd st" "requiredEnd st \<le> MAX_SAFE_INTEGER"
proof -
  note a = alloc_invD(9,10) [OF vfs_invD(3) [OF assms]] and e = table_invD(5) [OF vfs_invD(1) [OF assms]]
  have s: "0 \<le> extentSize st" "extentSize st \<le> 16777216"
    using e by (simp_all add: extent_size_ok_def MIN_EXTENT_BYTES_def MAX_EXTENT_BYTES_def)
  have "totalExtents (allocator st) * extentSize st \<le> 4194304 * 16777216"
    using a s by (intro mult_mono) (simp_all add: MAX_TOTAL_EXTENTS_def)
  moreover have "0 \<le> totalExtents (allocator st) * extentSize st" using a s by simp
  ultimately show "requiredArenaEnd st = Inr (requiredEnd st)" "checkedSafeNumber (requiredEnd st) = Inr (requiredEnd st)"
    "0 \<le> requiredEnd st" "requiredEnd st \<le> MAX_SAFE_INTEGER"
    by (simp_all add: requiredArenaEnd_def requiredEnd_def checkedMultiply_def checkedAdd_def checkedU64_def
        checkedSafeNumber_def ARENA_HEADER_BYTES_def MAX_U64_def MAX_SAFE_INTEGER_def)
qed

definition recoveredStore ::
  "(OwnedFileName \<Rightarrow> 'h) \<Rightarrow> int \<Rightarrow> ActivationRecord \<Rightarrow> VfsState \<Rightarrow> TxnRecord list \<Rightarrow> byte list \<Rightarrow> VfsState
     \<Rightarrow> 'h OpenedMetadataStore" where
  "recoveredStore handles arenaLength selected st records rest final =
     (let logBytes = int (length (logOf (generation st) 1 records)); total = totalExtents (allocator final);
          physical = (max 0 (arenaLength - ARENA_HEADER_BYTES) + extentSize st - 1) div extentSize st
      in \<lparr>storeHandles = handles, storeState = final, activeLogEnd = int (length (encBase st)) + logBytes,
          nextSequence = 1 + int (length records), activeLogBytes = logBytes,
          activeLogFrames = int (length records), activationSequence = actSequence selected,
          arenaHighWaterExtents = max physical total, arenaSize = max (requiredEnd final) arenaLength,
          arenaDirty = (arenaLength < requiredEnd final), activeMetadataDirty = (rest \<noteq> [])\<rparr>)"

text \<open>What recovery leaves in the files: an arena that reaches the last extent, and a log without its torn rest.\<close>

definition resizeIf :: "bool \<Rightarrow> OwnedFileName \<Rightarrow> int \<Rightarrow> 'h host_view \<Rightarrow> 'h host_view" where
  "resizeIf b name n v = (if b then changeFile name (Resize (nat n)) v else v)"

lemma resizeIf_simps [simp]:
  "hvDurable (resizeIf b name n v) = hvDurable v" "hvOpen (resizeIf b name n v) = hvOpen v"
  "hvValid (resizeIf b name n v) = hvValid v"
  "hvFiles (resizeIf b name n v) = (if b then (hvFiles v)(name := resized (nat n) (hvFiles v name)) else hvFiles v)"
  "hvPending (resizeIf b name n v) = (if b then (hvPending v)(name := hvPending v name @ [Resize (nat n)]) else hvPending v)"
  by (simp_all add: resizeIf_def)

definition recoveredView :: "VfsState \<Rightarrow> TxnRecord list \<Rightarrow> byte list \<Rightarrow> VfsState \<Rightarrow> 'h host_view \<Rightarrow> 'h host_view" where
  "recoveredView st records rest final v =
     resizeIf (rest \<noteq> []) (metadataFileName (activeMetadataFile st)) (int (length (encBase st @ logOf (generation st) 1 records)))
       (resizeIf (int (length (hvFiles v ArenaBin)) < requiredEnd final) ArenaBin (requiredEnd final) v)"

lemma resized_id [simp]: "resized (length f) f = f"
  by (simp add: resized_def)


text \<open>Every file is held by its handle, and its size is what the host reports.\<close>

definition held :: "'h host_view \<Rightarrow> (OwnedFileName \<Rightarrow> 'h) \<Rightarrow> bool" where
  "held v handles \<longleftrightarrow> (\<forall>name. hvValid v (handles name) name \<and> int (length (hvFiles v name)) \<le> MAX_SAFE_INTEGER)"

context store_host
begin

lemma grow_does:
  assumes "hvValid v h name" and "0 \<le> n" and "n \<le> MAX_SAFE_INTEGER"
  shows "does v (if int (length (hvFiles v name)) < n then truncateChecked (opTruncate ops h label) n else ioret ()) (Inr ())
    (resizeIf (int (length (hvFiles v name)) < n) name n v)"
  using truncateChecked_does [OF assms] by (simp add: resizeIf_def)

lemma discard_does:
  assumes "hvValid v h name" and "int (length (hvFiles v name)) \<le> MAX_SAFE_INTEGER" and "hvFiles v name = front @ rest"
    and "n = int (length front)"
  shows "does v (if n < int (length (hvFiles v name)) then truncateChecked (opTruncate ops h label) n else ioret ()) (Inr ())
    (resizeIf (rest \<noteq> []) name n v)"
  using truncateChecked_does [OF assms(1), of n label] assms(2-4) by (auto simp: resizeIf_def)

lemma replayLog_does:
  assumes valid: "hvValid v h name" and len: "int (length (hvFiles v name)) \<le> MAX_SAFE_INTEGER"
    and contents: "hvFiles v name = base @ logOf (generation st) 1 rs @ rest" and base: "baseEnd = int (length base)"
    and log: "log_fits (generation st) 1 rs" "int (length rs) \<le> MAX_ACTIVE_LOG_FRAMES"
      "int (length (logOf (generation st) 1 rs)) \<le> MAX_ACTIVE_LOG_BYTES"
    and run: "vfs_inv st" "committed st rs = Some st'" "validateState st' = Inr ()" "stopsHere rest (1 + int (length rs)) st'"
  shows "does v (replayLog ops h (int (length (hvFiles v name))) st baseEnd)
    (Inr \<lparr>replayedEnd = baseEnd + int (length (logOf (generation st) 1 rs)), replayedNext = 1 + int (length rs),
       replayedArenaEnd = requiredEnd st', replayedState = st'\<rparr>) v"
proof -
  have safe: "checkedSafeNumber baseEnd = Inr baseEnd"
    using base contents len by (simp add: checkedSafeNumber_def checkedU64_def MAX_U64_def MAX_SAFE_INTEGER_def)
  have loop: "does v (replayLoop ops h (int (length (hvFiles v name))) baseEnd baseEnd 1 0 st)
      (Inr (baseEnd + int (length (logOf (generation st) 1 rs)), 1 + int (length rs), st')) v"
    by (rule replay_log [OF valid len contents]) (use base log run in simp_all)
  have "vfs_inv st'" using committed_keeps [OF run(1,2)] by blast
  note needs = requiredArenaEnd_ok(1) [OF this]
  show ?thesis
    unfolding replayLog_def safe iobind_lift
    by (rule steps_bind [OF loop]) (simp add: run(3) needs)
qed

lemma arena_does:
  assumes "hvValid v h ArenaBin" and "int (length (hvFiles v ArenaBin)) \<le> MAX_SAFE_INTEGER"
    and "take 8192 (hvFiles v ArenaBin) = encArena e"
  shows "does v (readAt ops h 0 ARENA_HEADER_BYTES ARENA_HEADER_BYTES label) (Inr (encArena e)) v"
    and "\<not> int (length (hvFiles v ArenaBin)) < ARENA_HEADER_BYTES"
proof -
  have split: "hvFiles v ArenaBin = encArena e @ drop 8192 (hvFiles v ArenaBin)"
    using append_take_drop_id [of 8192 "hvFiles v ArenaBin"] assms(3) by simp
  show "does v (readAt ops h 0 ARENA_HEADER_BYTES ARENA_HEADER_BYTES label) (Inr (encArena e)) v"
    by (rule read_prefix_does [OF assms(1,2) split]) (simp_all add: ARENA_HEADER_BYTES_def MAX_SAFE_INTEGER_def)
  have "length (encArena e) \<le> length (hvFiles v ArenaBin)" unfolding assms(3) [symmetric] by simp
  then show "\<not> int (length (hvFiles v ArenaBin)) < ARENA_HEADER_BYTES" by (simp add: ARENA_HEADER_BYTES_def)
qed

lemma arena_decodes: "extent_size_ok e \<Longrightarrow> decodeArenaHeader (encArena e) None
    = Inr \<lparr>arenaExtentSize = e, arenaLimitsProfileVersion = 1, arenaFormatVersion = 2\<rparr>"
  by (simp add: decodeArenaHeader_iff)

lemma recover_does:
  assumes held: "held v handles" and sizes: "\<And>name. sizes name = int (length (hvFiles v name))"
    and img: "store_image (hvFiles v) selected other st records rest final"
    and slots: "leftBytes = take 128 (hvFiles v ActivationBin)" "rightBytes = take 128 (drop 128 (hvFiles v ActivationBin))"
    and config: "configured = None \<or> configured = Some (extentSize st)"
  shows "does v (recoverActivated ops handles sizes leftBytes rightBytes configured)
    (Inr (recoveredStore handles (sizes ArenaBin) selected st records rest final)) (recoveredView st records rest final v)"
proof -
  let ?file = "metadataFileName (activeMetadataFile st)" and ?other = "metadataFileName (otherMetadataFile (activeMetadataFile st))"
  let ?log = "logOf (generation st) 1 records" and ?base = "baseState st other"
  note i = img [unfolded store_image_def]
  have sel: "actMetadataFile selected = activeMetadataFile st" "actGeneration selected = generation st"
    "actBaseEnd selected = int (length (encBase st))" "actBaseDigest selected = metadataBaseDigest (encBase st)"
    using i by simp_all
  have valid: "hvValid v (handles name) name" and len: "int (length (hvFiles v name)) \<le> MAX_SAFE_INTEGER" for name
    using held by (simp_all add: held_def)
  have ok: "vfs_inv st" "names_encodable st" "paths_ok st" using i by simp_all
  have pair: "selectActivationPair leftBytes rightBytes = Inr (selected, other)" using i slots by simp
  have otherwise: "\<forall>r. other = Some r \<longrightarrow> actMetadataFile r \<noteq> activeMetadataFile st \<and> 0 < actGeneration r
      \<and> actGeneration r + 1 = generation st"
    using i by simp
  note b = base_state_inv [OF ok otherwise]
  have final: "vfs_inv final" using committed_keeps [OF b(1)] i by blast
  note ends = requiredArenaEnd_ok [OF final]
  have ext: "extent_size_ok (extentSize st)" by (rule table_invD(5) [OF vfs_invD(1) [OF ok(1)]])
  have arena: "take 8192 (hvFiles v ArenaBin) = encArena (extentSize st)" using i by simp
  have contents: "hvFiles v ?file = encBase st @ ?log @ rest" using i by simp
  have quiet: "does v (verifyInactiveVersion ops handles sizes (actMetadataFile selected)) (Inr ()) v"
    using detect_does [OF valid len, of ?other] i by (simp add: verifyInactiveVersion_def sel(1) sizes Let_def)
  have base: "does v (readSelectedBase ops (metadataHandle handles (actMetadataFile selected)) (int (length (hvFiles v ?file))) selected)
      (Inr (decodedBase st, headerOf st)) v"
    unfolding metadataHandle_def sel(1) by (rule selected_base_does [OF valid len contents ok sel])
  have log: "does v (replayLog ops (metadataHandle handles (activeMetadataFile st)) (int (length (hvFiles v ?file))) ?base
      (decodedBaseEnd (decodedBase st)))
    (Inr \<lparr>replayedEnd = decodedBaseEnd (decodedBase st) + int (length ?log), replayedNext = 1 + int (length records),
       replayedArenaEnd = requiredEnd final, replayedState = final\<rparr>) v"
    unfolding metadataHandle_def
    by (rule replayLog_does [OF valid len, of ?file _ ?base records rest, unfolded b(3), OF contents])
      (use i b(1) in \<open>simp_all add: decodedBase_def length_encBase [OF ok(1,2)]\<close>)
  let ?v1 = "resizeIf (int (length (hvFiles v ArenaBin)) < requiredEnd final) ArenaBin (requiredEnd final) v"
  have grow: "does v (if int (length (hvFiles v ArenaBin)) < requiredEnd final
      then truncateChecked (opTruncate ops (handles ArenaBin) ''recovery.arena.grow'') (requiredEnd final) else ioret ()) (Inr ()) ?v1"
    by (rule grow_does [OF valid ends(3,4)])
  have same: "hvFiles ?v1 ?file = hvFiles v ?file" by (cases "activeMetadataFile st") simp_all
  have log_end: "decodedBaseEnd (decodedBase st) + int (length ?log) = int (length (encBase st @ ?log))"
    by (simp add: decodedBase_def length_encBase [OF ok(1,2)])
  have discard: "does ?v1 (if decodedBaseEnd (decodedBase st) + int (length ?log) < int (length (hvFiles v ?file))
      then truncateChecked (opTruncate ops (metadataHandle handles (activeMetadataFile st)) ''recovery.metadata.discard-suffix'')
             (decodedBaseEnd (decodedBase st) + int (length ?log)) else ioret ()) (Inr ()) (recoveredView st records rest final v)"
    unfolding metadataHandle_def recoveredView_def same [symmetric] log_end
    by (rule discard_does [where rest = rest and front = "encBase st @ ?log"]) (use valid [of ?file] len [of ?file] contents same in simp_all)
  have state: "(case other of None \<Rightarrow> decodedState (decodedBase st)
      | Some o' \<Rightarrow> (decodedState (decodedBase st))\<lparr>retainedGenerations := (retainedGenerations (decodedState (decodedBase st)))
          (actMetadataFile o' := Some (actGeneration o'))\<rparr>) = ?base"
    by (cases other) (simp_all add: baseState_def decodedBase_def)
  have identity: "\<not> (extentSize (decodedState (decodedBase st)) \<noteq> extentSize st \<or> hdrLimitsProfileVersion (headerOf st) \<noteq> 1)"
    by (simp add: decodedBase_def decodedOf_def headerOf_def LIMITS_PROFILE_VERSION_def)
  have configured: "\<not> (configured \<noteq> None \<and> configured \<noteq> Some (extentSize st))" using config by auto
  have dirty: "(decodedBaseEnd (decodedBase st) + int (length ?log) < int (length (hvFiles v ?file))) = (rest \<noteq> [])"
    using contents by (simp add: decodedBase_def length_encBase [OF ok(1,2), symmetric])
  show ?thesis
    unfolding recoverActivated_def sizes if_not_P [OF arena_does(2) [OF valid len arena]]
  proof (rule steps_bind [OF arena_does(1) [OF valid len arena]],
      unfold arena_decodes [OF ext] iobind_lift pair prod.case ArenaHeader.simps,
      rule steps_bind [OF quiet [unfolded sizes]], unfold Let_def sel(1), rule steps_bind [OF base [unfolded sel(1)]],
      unfold prod.case if_not_P [OF identity] state b(2) sum.case iobind_lift,
      rule steps_bind [OF log], unfold if_not_P [OF configured] ReplayedLog.simps ends(2) iobind_lift,
      rule steps_bind [OF grow], rule steps_bind [OF discard], goal_cases)
    case 1
    show ?case
      by (rule steps_ret_eq)
        (use ends(3) dirty in \<open>auto simp: recoveredStore_def Let_def decodedBase_def length_encBase [OF ok(1,2)] sizes max_def\<close>)
  qed
qed

end

section \<open>Opening\<close>

lemma base_harmless:
  assumes ok: "vfs_inv st" "names_encodable st" "paths_ok st"
  shows "harmless (encBase st @ rest)"
proof -
  have end_eq: "hdrBaseEnd (headerOf st) = int (length (encBase st))"
    by (simp add: headerOf_def length_encBase [OF ok(1,2)])
  have long: "80 \<le> length (encBase st)" by (simp add: encBase_def)
  then have head: "take 80 (encBase st @ rest) = take 80 (encBase st)" by simp
  have "take (nat (int (length (encBase st)))) (encBase st @ rest) = encBase st" by simp
  with head inspect_base [OF ok(1,2)] decodeMetadataBase_enc [OF ok] end_eq show ?thesis
    by (simp del: take_append add: harmless_def METADATA_HEADER_BYTES_def onlyVersion_def)
qed

lemma pair_decodes:
  assumes "selectActivationPair leftBytes rightBytes = Inr p"
  obtains l r where "tryDecodeActivationSlot leftBytes = Inr l" "tryDecodeActivationSlot rightBytes = Inr r" "l \<noteq> None \<or> r \<noteq> None"
  using assms by (auto simp: selectActivationPair_def ebind_eq_Inr split: option.splits)

context store_host
begin

lemma slot_does:
  assumes "hvValid v h name" and "int (length (hvFiles v name)) \<le> MAX_SAFE_INTEGER"
  shows "does v (readSlot ops h (int (length (hvFiles v name))) 0) (Inr (take 128 (hvFiles v name))) v"
    and "does v (readSlot ops h (int (length (hvFiles v name))) 1) (Inr (take 128 (drop 128 (hvFiles v name)))) v"
proof -
  let ?n = "int (length (hvFiles v name))"
  have part: "does v (readAt ops h off (min 128 (?n - off)) 128 l) (Inr (take 128 (drop (nat off) (hvFiles v name)))) v"
    if "0 \<le> off" "off < ?n" for off l
  proof -
    have "take (nat (min 128 (?n - off))) (drop (nat off) (hvFiles v name)) = take 128 (drop (nat off) (hvFiles v name))"
      using that by (cases "128 \<le> ?n - off") (simp_all add: min_def nat_diff_distrib)
    moreover have "does v (readAt ops h off (min 128 (?n - off)) 128 l)
        (Inr (take (nat (min 128 (?n - off))) (drop (nat off) (hvFiles v name)))) v"
      by (rule read_does [OF assms(1)]) (use that assms(2) in \<open>simp_all add: MAX_SAFE_INTEGER_def min_def\<close>)
    ultimately show ?thesis by simp
  qed
  show "does v (readSlot ops h ?n 0) (Inr (take 128 (hvFiles v name))) v"
    using part [of 0] by (simp add: readSlot_def ACTIVATION_SLOT_BYTES_def Let_def)
  show "does v (readSlot ops h ?n 1) (Inr (take 128 (drop 128 (hvFiles v name)))) v"
    using part [of 128] by (simp add: readSlot_def ACTIVATION_SLOT_BYTES_def Let_def)
qed

lemma sizes_does:
  assumes "held v handles"
  shows "does v (getSizes ops handles) (Inr (\<lambda>name. int (length (hvFiles v name)))) v"
proof -
  have one: "does v (opGetSize ops (handles name) l) (Inr (int (length (hvFiles v name)))) v" for name l
    using assms size_does by (simp add: held_def)
  have each: "does v (sizesOf ops handles names) (Inr (map (\<lambda>name. (name, int (length (hvFiles v name)))) names)) v" for names
  proof (induction names)
    case (Cons name names)
    show ?case unfolding sizesOf.simps
      by (rule steps_bind [OF one], rule steps_bind [OF Cons.IH]) simp
  qed simp
  have "(\<lambda>name. the (map_of (map (\<lambda>name. (name, int (length (hvFiles v name)))) OWNED_FILE_NAMES) name))
      = (\<lambda>name. int (length (hvFiles v name)))"
    by (rule ext, case_tac name) (simp_all add: OWNED_FILE_NAMES_def)
  then show ?thesis unfolding getSizes_def by (intro steps_bind [OF each]) simp
qed

lemma enumerate_valid:
  assumes "inv w"
  shows "\<exists>entries w'. opEnumerate ops label w = (Inr entries, w') \<and> validateEntries entries = Inr () \<and> inv w' \<and> view w' = view w"
proof -
  from enumerates [OF assms, of label] obtain entries w' where e: "opEnumerate ops label w = (Inr entries, w')" "inv w'"
    "view w' = view w" "\<forall>entry \<in> set entries. \<exists>name. entry = (Inl name, FileEntry)" by blast
  moreover have "validateEntries entries = Inr ()"
    unfolding validateEntries_def each_res_Inr using e(4) by fastforce
  ultimately show ?thesis by blast
qed

lemma acquire_all:
  assumes inv: "inv w" and free: "hvOpen (view w) = {}"
  shows "\<exists>handles w'. acquireHandles ops w = (Inr handles, w') \<and> inv w' \<and> hvFiles (view w') = hvFiles (view w)
    \<and> hvDurable (view w') = hvDurable (view w) \<and> hvPending (view w') = hvPending (view w) \<and> held (view w') handles"
proof -
  obtain es w0 where w0: "opEnumerate ops ''store.enumerate.initial'' w = (Inr es, w0)" "validateEntries es = Inr ()"
    "inv w0" "view w0 = view w" using enumerate_valid [OF inv] by blast
  obtain h1 w1 where w1: "opAcquire ops ActivationBin ''store.acquire.activation'' w0 = (Inr h1, w1)" "inv w1"
    "hvFiles (view w1) = hvFiles (view w)" "hvDurable (view w1) = hvDurable (view w)" "hvPending (view w1) = hvPending (view w)" "hvOpen (view w1) = {ActivationBin}"
    "hvValid (view w1) h1 ActivationBin"
    using acquires [OF w0(3), of ActivationBin "''store.acquire.activation''"] w0(4) free by auto
  obtain es' w2 where w2: "opEnumerate ops ''store.enumerate.locked'' w1 = (Inr es', w2)" "validateEntries es' = Inr ()"
    "inv w2" "view w2 = view w1" using enumerate_valid [OF w1(2)] by blast
  obtain h2 w3 where w3: "opAcquire ops ArenaBin (''store.acquire.'' @ ownedName ArenaBin) w2 = (Inr h2, w3)" "inv w3"
    "hvFiles (view w3) = hvFiles (view w)" "hvDurable (view w3) = hvDurable (view w)" "hvPending (view w3) = hvPending (view w)" "hvOpen (view w3) = {ArenaBin, ActivationBin}"
    "hvValid (view w3) h2 ArenaBin" "hvValid (view w3) h1 ActivationBin"
    using acquires [OF w2(3), of ArenaBin "''store.acquire.'' @ ownedName ArenaBin"] w2(4) w1 by auto
  obtain h3 w4 where w4: "opAcquire ops MetadataABin (''store.acquire.'' @ ownedName MetadataABin) w3 = (Inr h3, w4)" "inv w4"
    "hvFiles (view w4) = hvFiles (view w)" "hvDurable (view w4) = hvDurable (view w)" "hvPending (view w4) = hvPending (view w)"
    "hvOpen (view w4) = {MetadataABin, ArenaBin, ActivationBin}"
    "hvValid (view w4) h3 MetadataABin" "hvValid (view w4) h2 ArenaBin" "hvValid (view w4) h1 ActivationBin"
    using acquires [OF w3(2), of MetadataABin "''store.acquire.'' @ ownedName MetadataABin"] w3 by auto
  obtain h4 w5 where w5: "opAcquire ops MetadataBBin (''store.acquire.'' @ ownedName MetadataBBin) w4 = (Inr h4, w5)" "inv w5"
    "hvFiles (view w5) = hvFiles (view w)" "hvDurable (view w5) = hvDurable (view w)" "hvPending (view w5) = hvPending (view w)"
    "hvValid (view w5) h4 MetadataBBin" "hvValid (view w5) h3 MetadataABin" "hvValid (view w5) h2 ArenaBin"
    "hvValid (view w5) h1 ActivationBin"
    using acquires [OF w4(2), of MetadataBBin "''store.acquire.'' @ ownedName MetadataBBin"] w4 by auto
  define handles where "handles = (\<lambda>name. the (map_of [(ActivationBin, h1), (ArenaBin, h2), (MetadataABin, h3), (MetadataBBin, h4)] name))"
  have "acquireHandles ops w = (Inr handles, w5)"
    unfolding acquireHandles_def acquireNext.simps
    by (simp add: iobind_def iocatch_def orClose_def w0 w1(1) w2 w3(1) [simplified]
        w4(1) [simplified] w5(1) [simplified] handles_def)
  moreover have "held (view w5) handles"
    unfolding held_def
  proof
    fix name show "hvValid (view w5) (handles name) name \<and> int (length (hvFiles (view w5) name)) \<le> MAX_SAFE_INTEGER"
      using w5(6-9) file_sizes [OF w5(2)] by (cases name) (simp_all add: handles_def)
  qed
  ultimately show ?thesis using w5(2-5) by blast
qed

lemma opened_does:
  assumes held: "held v handles" and img: "store_image (hvFiles v) selected other st records rest final"
    and config: "configured = None \<or> configured = Some (extentSize st)"
  shows "does v (openAcquired ops handles configured)
    (Inr (recoveredStore handles (int (length (hvFiles v ArenaBin))) selected st records rest final))
    (recoveredView st records rest final v)"
proof -
  note i = img [unfolded store_image_def]
  have valid: "hvValid v (handles name) name" and len: "int (length (hvFiles v name)) \<le> MAX_SAFE_INTEGER" for name
    using held by (simp_all add: held_def)
  have ok: "vfs_inv st" "names_encodable st" "paths_ok st" using i by simp_all
  have arena: "take 8192 (hvFiles v ArenaBin) = encArena (extentSize st)" using i by simp
  have ext: "extent_size_ok (extentSize st)" by (rule table_invD(5) [OF vfs_invD(1) [OF ok(1)]])
  have detect: "does v (detectArenaVersion ops (handles ArenaBin) (int (length (hvFiles v ArenaBin)))) (Inr ()) v"
    unfolding detectArenaVersion_def if_not_P [OF arena_does(2) [OF valid len arena]]
    by (rule steps_bind [OF arena_does(1) [OF valid len arena]]) (simp add: arena_decodes [OF ext] onlyVersion_def)
  have quiet: "harmless (hvFiles v (metadataFileName m))" for m
  proof (cases "m = activeMetadataFile st")
    case True
    with i base_harmless [OF ok] show ?thesis by simp
  next
    case False
    then have "m = otherMetadataFile (activeMetadataFile st)" by (cases m; cases "activeMetadataFile st") simp_all
    with i show ?thesis by simp
  qed
  have ab: "does v (detectCompleteMetadataVersion ops (handles MetadataABin) (int (length (hvFiles v MetadataABin))) l) (Inr ()) v"
    "does v (detectCompleteMetadataVersion ops (handles MetadataBBin) (int (length (hvFiles v MetadataBBin))) l) (Inr ()) v" for l
    using detect_does [OF valid len] quiet [of MetaA] quiet [of MetaB] by simp_all
  have pair: "selectActivationPair (take 128 (hvFiles v ActivationBin)) (take 128 (drop 128 (hvFiles v ActivationBin)))
      = Inr (selected, other)" using i by simp
  obtain l r where lr: "tryDecodeActivationSlot (take 128 (hvFiles v ActivationBin)) = Inr l"
    "tryDecodeActivationSlot (take 128 (drop 128 (hvFiles v ActivationBin))) = Inr r" "l \<noteq> None \<or> r \<noteq> None"
    by (rule pair_decodes [OF pair])
  have fit: "\<not> int (length (hvFiles v ActivationBin)) > int ACTIVATION_SLOT_BYTES * 2"
    using i by (simp add: ACTIVATION_SLOT_BYTES_def)
  have recover: "does v (recoverActivated ops handles (\<lambda>name. int (length (hvFiles v name))) (take 128 (hvFiles v ActivationBin))
      (take 128 (drop 128 (hvFiles v ActivationBin))) configured)
    (Inr (recoveredStore handles (int (length (hvFiles v ArenaBin))) selected st records rest final)) (recoveredView st records rest final v)"
    by (rule recover_does [OF held refl img refl refl config])
  show ?thesis unfolding openAcquired_def
    by (rule steps_bind [OF sizes_does [OF held]], rule steps_bind [OF slot_does(1) [OF valid len]],
        rule steps_bind [OF slot_does(2) [OF valid len]], rule steps_bind [OF detect], rule steps_bind [OF ab(1)],
        rule steps_bind [OF ab(2)], unfold lr(1,2) iobind_lift if_not_P [OF fit] if_P [OF lr(3)], rule recover)
qed

text \<open>Opening what a crash has left.\<close>

lemma open_recovers:
  assumes inv: "inv w" and free: "hvOpen (view w) = {}"
    and img: "store_image (hvFiles (view w)) selected other st records rest final"
    and config: "configured = None \<or> configured = Some (extentSize st)"
  shows "\<exists>handles w'. openMetadataStore ops configured w
      = (Inr (recoveredStore handles (int (length (hvFiles (view w) ArenaBin))) selected st records rest final), w')
    \<and> inv w' \<and> sameFiles (view w') (recoveredView st records rest final (view w)) \<and> held (view w') handles"
proof -
  obtain handles w1 where w1: "acquireHandles ops w = (Inr handles, w1)" "inv w1" "hvFiles (view w1) = hvFiles (view w)"
    "hvDurable (view w1) = hvDurable (view w)" "held (view w1) handles" "hvPending (view w1) = hvPending (view w)"
    using acquire_all [OF inv free] by blast
  have "showing inv view w1 (view w1)" using w1(2) by (simp add: showing_def)
  from stepsD [OF steps_catch_ok [OF opened_does [OF w1(5) img [folded w1(3)] config]] this]
  obtain w2 where w2: "orClose ops (map handles [ActivationBin, ArenaBin, MetadataABin, MetadataBBin])
      (openAcquired ops handles configured) w1
      = (Inr (recoveredStore handles (int (length (hvFiles (view w1) ArenaBin))) selected st records rest final), w2)"
    "inv w2" "view w2 = recoveredView st records rest final (view w1)"
    unfolding orClose_def showing_def by blast
  have "extent_size_ok (extentSize st)"
    using img table_invD(5) [OF vfs_invD(1)] by (simp add: store_image_def)
  then have c: "(case configured of None \<Rightarrow> Inr 0 | Some c \<Rightarrow> validateExtentSize c) = Inr (case configured of None \<Rightarrow> 0 | Some c \<Rightarrow> c)"
    using config by (auto simp: validateExtentSize_Inr)
  have "openMetadataStore ops configured w
      = (Inr (recoveredStore handles (int (length (hvFiles (view w1) ArenaBin))) selected st records rest final), w2)"
    unfolding openMetadataStore_def c iobind_lift by (simp only: iobind_def [of "acquireHandles ops"] w1(1) prod.case sum.case w2(1))
  moreover have "sameFiles (view w2) (recoveredView st records rest final (view w))" "hvValid (view w2) = hvValid (view w1)"
    by (simp_all add: w2(3) recoveredView_def sameFiles_def w1(3,4,6))
  moreover have "held (view w2) handles"
    using w1(5) file_sizes [OF w2(2)] calculation(3) by (simp add: held_def)
  ultimately show ?thesis using w2(2) w1(3) by auto
qed

end

end
