(* ===== verification/StoreBootstrap.thy ===== *)
theory StoreBootstrap
  imports StoreOpen
begin

text \<open>
  Creating a store: in an empty directory \<open>openMetadataStore\<close> writes and flushes an arena header, the base
  of the initial state and one activation slot; what is durable then is an image that opens again.
\<close>

section \<open>The initial state\<close>

definition initialState :: "int \<Rightarrow> VfsState" where
  "initialState ext = (case createInitialState ext of Inr st \<Rightarrow> st | Inl _ \<Rightarrow> undefined)"

definition initialOther :: "int \<Rightarrow> VfsState" where
  "initialOther ext = (initialState ext)\<lparr>activeMetadataFile := MetaB, retainedGenerations := (\<lambda>_. None)(MetaB := Some 1)\<rparr>"

definition firstRecord :: "int \<Rightarrow> ActivationRecord" where
  "firstRecord ext = \<lparr>actSequence = 1, actMetadataFile = MetaA, actGeneration = 1,
     actBaseEnd = int (length (encBase (initialState ext))), actBaseDigest = metadataBaseDigest (encBase (initialState ext))\<rparr>"

lemma initial_created: "extent_size_ok ext \<Longrightarrow> createInitialState ext = Inr (initialState ext)"
  by (simp add: initialState_def createInitialState_def validateExtentSize_Inr [THEN iffD2] Let_def)

lemma initial_eq:
  assumes "extent_size_ok ext"
  shows "initialState ext = \<lparr>generation = 1, nextInodeId = 2, rootInodeId = 1, extentSize = ext, activeMetadataFile = MetaA,
     retainedGenerations = (\<lambda>_. None)(MetaA := Some 1),
     basePayloadBytes = BASE_STATE_FIXED_BYTES + DIRECTORY_INODE_FIXED_BYTES,
     inodes = [(1, \<lparr>inodeId = 1, imode = 16895, atimeMs = 0, mtimeMs = 0, ctimeMs = 0, body = Directory []\<rparr>)],
     parentByInode = [], allocator = \<lparr>totalExtents = 0, ownedBy = [], available = emptyExtentSet, quarantine = []\<rparr>\<rparr>"
  using assms by (simp add: initialState_def createInitialState_def validateExtentSize_Inr [THEN iffD2] Let_def)

lemma initial_fields:
  assumes "extent_size_ok ext"
  shows "activeMetadataFile (initialState ext) = MetaA" "generation (initialState ext) = 1"
    "extentSize (initialState ext) = ext" "retainedGenerations (initialState ext) = (\<lambda>_. None)(MetaA := Some 1)"
    "totalExtents (allocator (initialState ext)) = 0" "quarantine (allocator (initialState ext)) = []"
    "names_encodable (initialState ext)"
  by (auto simp: initial_eq [OF assms] names_encodable_def children_def split: if_splits)

lemma initial_ok:
  assumes "extent_size_ok ext"
  shows "vfs_inv (initialState ext)" "paths_ok (initialState ext)"
    "vfs_inv (initialOther ext)" "paths_ok (initialOther ext)" "names_encodable (initialOther ext)"
proof -
  show i: "vfs_inv (initialState ext)" "paths_ok (initialState ext)"
    using createInitialState_inv [OF initial_created [OF assms]] by simp_all
  have "gen_inv (initialOther ext)"
    using initial_fields [OF assms] by (simp add: gen_inv_def initialOther_def MAX_U64_def)
  with relabel_inv [OF i] show "vfs_inv (initialOther ext)" "paths_ok (initialOther ext)"
    by (simp_all add: initialOther_def)
  show "names_encodable (initialOther ext)"
    using initial_fields(7) [OF assms] by (simp add: names_encodable_def initialOther_def)
qed

lemma encodeMetadataBase_ok:
  assumes "vfs_inv st" and "paths_ok st" and "names_encodable st"
  shows "encodeMetadataBase st = Inr (encBase st)"
  using validateState_complete [OF assms(1,2)] encodeValidated_ok [OF assms(1,3)] by (simp add: encodeMetadataBase_def)

lemma first_slot:
  assumes "extent_size_ok ext"
  shows "slot_fits (firstRecord ext)" "initialSlot (encBase (initialState ext)) = Inr (encSlot (firstRecord ext))"
proof -
  let ?st = "initialState ext"
  note ok = initial_ok(1,2) [OF assms] initial_fields(7) [OF assms]
  have "int (length (encBase ?st)) \<le> 80 + MAX_METADATA_BASE_WRITER_BYTES" "80 \<le> int (length (encBase ?st))"
    using length_encBase [OF ok(1,3)] vfs_invD(5) [OF ok(1)] length_encPayload [OF ok(1,3)] by (simp_all add: bytes_inv_def)
  moreover have "fits 4 (metadataBaseDigest (encBase ?st))" using crc_fits by (simp add: metadataBaseDigest_def)
  ultimately show fits: "slot_fits (firstRecord ext)"
    by (simp add: slot_fits_def firstRecord_def fits_def MAX_METADATA_BASE_WRITER_BYTES_def)
  show "initialSlot (encBase ?st) = Inr (encSlot (firstRecord ext))"
    using encodeActivationSlot_ok [OF fits] by (simp add: initialSlot_def firstRecord_def)
qed

lemma empty_slot: "tryDecodeActivationSlot [] = Inr None"
  by (simp add: tryDecodeActivationSlot_def decodeActivationSlot_def ACTIVATION_SLOT_BYTES_def)

section \<open>Creating the files\<close>

definition freshStore :: "(OwnedFileName \<Rightarrow> 'h) \<Rightarrow> int \<Rightarrow> 'h OpenedMetadataStore" where
  "freshStore handles ext = \<lparr>storeHandles = handles, storeState = decodedOf (initialState ext),
     activeLogEnd = int (length (encBase (initialState ext))), nextSequence = 1, activeLogBytes = 0, activeLogFrames = 0,
     activationSequence = 1, arenaHighWaterExtents = 0, arenaSize = 8192, arenaDirty = False,
     activeMetadataDirty = False\<rparr>"

definition freshFiles :: "int \<Rightarrow> OwnedFileName \<Rightarrow> byte list" where
  "freshFiles ext name =
     (case name of ArenaBin \<Rightarrow> encArena ext | MetadataABin \<Rightarrow> encBase (initialState ext) | MetadataBBin \<Rightarrow> []
      | ActivationBin \<Rightarrow> encSlot (firstRecord ext))"

definition freshView :: "int \<Rightarrow> 'h host_view \<Rightarrow> 'h host_view" where
  "freshView ext v =
     replaced ActivationBin (encSlot (firstRecord ext))
       (changeFile MetadataBBin (Resize 0)
         (replaced MetadataABin (encBase (initialState ext)) (replaced ArenaBin (encArena ext) v)))"

lemma freshView_files:
  "hvFiles (freshView ext v) = freshFiles ext"
  "hvDurable (freshView ext v) name = (if name = MetadataBBin then hvDurable v MetadataBBin else freshFiles ext name)"
  "hvPending (freshView ext v) name = (if name = MetadataBBin then hvPending v MetadataBBin @ [Resize 0] else [])"
  "hvOpen (freshView ext v) = hvOpen v" "hvValid (freshView ext v) = hvValid v"
  by (cases name; auto simp: freshView_def freshFiles_def replaced_def fun_eq_iff split: OwnedFileName.split)+

lemma length_base_small: "extent_size_ok ext \<Longrightarrow> int (length (encBase (initialState ext))) \<le> MAX_SAFE_INTEGER"
  using first_slot(1) [of ext] length_encBase [of "initialState ext"] initial_ok(1) [of ext] initial_fields(7) [of ext]
    vfs_invD(5) [of "initialState ext"]
  by (simp add: bytes_inv_def MAX_METADATA_BASE_WRITER_BYTES_def MAX_SAFE_INTEGER_def)

context store_host
begin

lemma bootstrap_does:
  assumes held: "held v handles" and ext: "extent_size_ok ext"
  shows "does v (bootstrap ops handles ext) (Inr (freshStore handles ext)) (freshView ext v)"
proof -
  note i = initial_ok(1,2) [OF ext] initial_fields(7) [OF ext]
  have valid: "hvValid v (handles name) name" for name using held by (simp add: held_def)
  have ne: "encBase (initialState ext) \<noteq> []" "encArena ext \<noteq> []" "encSlot (firstRecord ext) \<noteq> []"
    using length_slot length_encBase [OF i(1,3)] length_encPayload [OF i(1,3)] vfs_invD(5) [OF i(1)]
    by (auto simp: encBase_def simp flip: length_0_conv)
  have decoded: "decodeMetadataBase (encBase (initialState ext)) = Inr (decodedBase (initialState ext))"
    by (rule decodeMetadataBase_enc [OF i(1,3,2)])
  have arena: "encodeArenaHeader ext = Inr (encArena ext)" by (simp add: encodeArenaHeader_eq ext)
  let ?v1 = "replaced ArenaBin (encArena ext) v"
  let ?v2 = "replaced MetadataABin (encBase (initialState ext)) ?v1"
  let ?v3 = "changeFile MetadataBBin (Resize 0) ?v2"
  have r1: "does v (resetFile ops (handles ArenaBin) ''arena'' (encArena ext)) (Inr ()) ?v1"
    by (rule reset_does [OF valid ne(2)]) (simp add: MAX_SAFE_INTEGER_def)
  have r2: "does ?v1 (resetFile ops (handles MetadataABin) ''metadata-a'' (encBase (initialState ext))) (Inr ()) ?v2"
    by (rule reset_does) (use valid ne(1) length_base_small [OF ext] in simp_all)
  have r3: "does ?v2 (opTruncate ops (handles MetadataBBin) ''bootstrap.metadata-b.reset'' 0) (Inr ()) ?v3"
    using truncate_does [of ?v2 "handles MetadataBBin" MetadataBBin 0] valid by (simp add: MAX_SAFE_INTEGER_def)
  have r4: "does ?v3 (resetFile ops (handles ActivationBin) ''activation'' (encSlot (firstRecord ext))) (Inr ()) (freshView ext v)"
    unfolding freshView_def by (rule reset_does) (use valid ne(3) in \<open>simp_all add: MAX_SAFE_INTEGER_def\<close>)
  show ?thesis
    unfolding bootstrap_def initial_created [OF ext] arena encodeMetadataBase_ok [OF i] first_slot(2) [OF ext] iobind_lift
    by (rule steps_bind [OF r1], rule steps_bind [OF r2], rule steps_bind [OF r3], rule steps_bind [OF r4],
        unfold decoded iobind_lift, rule steps_ret_eq)
      (simp add: freshStore_def decodedBase_def length_encBase [OF i(1,3)])
qed

lemma classify_empty:
  assumes held: "held v handles" and none: "hvFiles v = (\<lambda>_. [])" and ext: "extent_size_ok ext"
    and config: "ext = (case configured of None \<Rightarrow> DEFAULT_EXTENT_BYTES | Some c \<Rightarrow> c)"
  shows "does v (classifyBootstrapResidue ops handles (\<lambda>_. 0) configured) (Inr ext) v"
proof -
  note i = initial_ok(1,2) [OF ext] initial_fields(7) [OF ext] and j = initial_ok(3-5) [OF ext]
  have valid: "hvValid v (handles name) name" for name using held by (simp add: held_def)
  have whole: "does v (readWhole ops (handles name) 0 (int (length canonical)) l) (Inr []) v"
    if "int (length canonical) \<le> MAX_SAFE_INTEGER" for name l and canonical :: "byte list"
    using read_does [OF valid, of 0 0 "int (length canonical)"] that by (simp add: readWhole_def MAX_SAFE_INTEGER_def)
  have small: "int (length (encBase st)) \<le> MAX_SAFE_INTEGER" if "vfs_inv st" "names_encodable st" for st
    using length_encBase [OF that] vfs_invD(5) [OF that(1)]
    by (simp add: bytes_inv_def MAX_METADATA_BASE_WRITER_BYTES_def MAX_SAFE_INTEGER_def)
  have meta: "does v (classifyMetadata ops handles (\<lambda>_. 0) name (encBase st)) (Inr ()) v"
    if "vfs_inv st" "names_encodable st" for name st
  proof -
    have "detectCompleteMetadataVersion ops (handles name) 0 l = ioret ()" for l
      by (simp add: detectCompleteMetadataVersion_def METADATA_HEADER_BYTES_def)
    moreover have "does v (iobind (readWhole ops (handles name) 0 (int (length (encBase st))) l)
        (\<lambda>source. if \<not> isPrefix source (encBase st) then iofail CorruptStoreError else ioret ())) (Inr ()) v" for l
      by (rule steps_bind [OF whole [OF small [OF that]]]) (simp add: isPrefix_def)
    ultimately show ?thesis by (simp add: classifyMetadata_def)
  qed
  have other: "(initialState ext)\<lparr>activeMetadataFile := MetaB, retainedGenerations := (\<lambda>_. None)(MetaB := Some 1)\<rparr> = initialOther ext"
    by (simp add: initialOther_def)
  have size: "bootstrapExtentSize ops (handles ArenaBin) 0 configured = ioret ext"
    by (simp add: bootstrapExtentSize_def config)
  have slot: "length (setBytes 0 s (zeros 256)) = 256" if "length s = 128" for s :: "byte list"
    using that by (simp add: setBytes_def)
  have "does v (iobind (readWhole ops (handles ActivationBin) 0
      (int (length (setBytes 0 (encSlot (firstRecord ext)) (zeros (ACTIVATION_SLOT_BYTES * 2))))) ''activation.read.bootstrap'')
    (\<lambda>manifest. if \<not> isPrefix manifest (setBytes 0 (encSlot (firstRecord ext)) (zeros (ACTIVATION_SLOT_BYTES * 2)))
       then iofail CorruptStoreError
       else if 0 = ARENA_HEADER_BYTES \<and> configured \<noteq> None \<and> configured \<noteq> Some ext
         then iofail (ExtentSizeMismatchError (the configured) ext)
       else ioret (if 0 < ARENA_HEADER_BYTES \<and> configured \<noteq> None then the configured else ext))) (Inr ext) v"
    by (rule steps_bind [OF whole])
      (use slot [of "encSlot (firstRecord ext)"] config in
        \<open>auto simp: MAX_SAFE_INTEGER_def ACTIVATION_SLOT_BYTES_def isPrefix_def ARENA_HEADER_BYTES_def\<close>)
  then show ?thesis
    unfolding classifyBootstrapResidue_def size iobind_lift initial_created [OF ext] encodeMetadataBase_ok [OF i]
      Let_def other encodeMetadataBase_ok [OF j(1,2,3)] first_slot(2) [OF ext]
    by (intro steps_bind [OF meta [OF i(1,3)]] steps_bind [OF meta [OF j(1,3)]]) (simp add: ACTIVATION_SLOT_BYTES_def)
qed

lemma open_creates:
  assumes inv: "inv w" and free: "hvOpen (view w) = {}" and none: "hvFiles (view w) = (\<lambda>_. [])"
    and config: "ext = (case configured of None \<Rightarrow> DEFAULT_EXTENT_BYTES | Some c \<Rightarrow> c)" and ext: "extent_size_ok ext"
  shows "\<exists>handles w'. openMetadataStore ops configured w = (Inr (freshStore handles ext), w')
    \<and> inv w' \<and> sameFiles (view w') (freshView ext (view w)) \<and> held (view w') handles"
proof -
  obtain handles w1 where w1: "acquireHandles ops w = (Inr handles, w1)" "inv w1" "hvFiles (view w1) = hvFiles (view w)"
    "hvDurable (view w1) = hvDurable (view w)" "held (view w1) handles" "hvPending (view w1) = hvPending (view w)"
    using acquire_all [OF inv free] by blast
  let ?v = "view w1"
  have empty: "hvFiles ?v = (\<lambda>_. [])" using w1(3) none by simp
  have sizes: "does ?v (getSizes ops handles) (Inr (\<lambda>_. 0)) ?v" using sizes_does [OF w1(5)] empty by simp
  have slots: "readSlot ops (handles ActivationBin) 0 0 = ioret []" "readSlot ops (handles ActivationBin) 0 1 = ioret []"
    by (simp_all add: readSlot_def ACTIVATION_SLOT_BYTES_def)
  have detects: "detectArenaVersion ops (handles ArenaBin) 0 = ioret ()"
    "detectCompleteMetadataVersion ops (handles name) 0 l = ioret ()" for name l
    by (simp_all add: detectArenaVersion_def ARENA_HEADER_BYTES_def detectCompleteMetadataVersion_def METADATA_HEADER_BYTES_def)
  have fit: "\<not> (0 :: int) > int ACTIVATION_SLOT_BYTES * 2" by (simp add: ACTIVATION_SLOT_BYTES_def)
  have no: "\<not> (None \<noteq> (None :: ActivationRecord option) \<or> None \<noteq> (None :: ActivationRecord option))" by simp
  have "does ?v (openAcquired ops handles configured) (Inr (freshStore handles ext)) (freshView ext ?v)"
    unfolding openAcquired_def
    by (rule steps_bind [OF sizes], unfold slots detects empty_slot iobind_lift if_not_P [OF fit] if_not_P [OF no],
        rule steps_bind [OF classify_empty [OF w1(5) empty ext config]], rule bootstrap_does [OF w1(5) ext])
  from stepsD [OF steps_catch_ok [OF this], of w1] w1(2)
  obtain w2 where w2: "orClose ops (map handles [ActivationBin, ArenaBin, MetadataABin, MetadataBBin])
      (openAcquired ops handles configured) w1 = (Inr (freshStore handles ext), w2)" "inv w2" "view w2 = freshView ext ?v"
    unfolding orClose_def showing_def by blast
  have c: "(case configured of None \<Rightarrow> Inr 0 | Some c \<Rightarrow> validateExtentSize c) = Inr (case configured of None \<Rightarrow> 0 | Some c \<Rightarrow> c)"
    using config ext by (auto simp: validateExtentSize_Inr split: option.splits)
  have "openMetadataStore ops configured w = (Inr (freshStore handles ext), w2)"
    unfolding openMetadataStore_def c iobind_lift
    by (simp only: iobind_def [of "acquireHandles ops"] w1(1) prod.case sum.case w2(1))
  moreover have "held (view w2) handles"
    using w1(5) file_sizes [OF w2(2)] freshView_files(5) [of ext ?v] by (simp add: held_def w2(3))
  moreover have "sameFiles (view w2) (freshView ext (view w))"
    using w1(3,4,6) by (simp add: sameFiles_def w2(3) freshView_files fun_eq_iff)
  ultimately show ?thesis using w2(2) by blast
qed

end

section \<open>The image of a fresh store\<close>

lemma fresh_small: "extent_size_ok ext \<Longrightarrow> int (length (freshFiles ext name)) \<le> MAX_SAFE_INTEGER"
  using length_base_small [of ext] by (cases name) (simp_all add: freshFiles_def MAX_SAFE_INTEGER_def)

lemma fresh_image:
  assumes ext: "extent_size_ok ext"
  shows "store_image (freshFiles ext) (firstRecord ext) None (initialState ext) [] [] (decodedOf (initialState ext))"
proof -
  note i = initial_ok(1,2) [OF ext] initial_fields [OF ext]
  have "selectActivationPair (encSlot (firstRecord ext)) [] = Inr (firstRecord ext, None)"
    using tryDecode_eqs(1) [OF first_slot(1) [OF ext]] empty_slot by (simp add: selectActivationPair_def)
  moreover have "baseState (initialState ext) None = decodedOf (initialState ext)" by (simp add: baseState_def)
  moreover have "harmless []" by (simp add: harmless_def METADATA_HEADER_BYTES_def)
  ultimately show ?thesis
    using i decoded_valid(3) [OF i(1) i(9) i(2)]
    by (simp add: store_image_def freshFiles_def firstRecord_def empty_stops MAX_ACTIVE_LOG_FRAMES_def MAX_ACTIVE_LOG_BYTES_def)
qed

end
