(* ===== verification/MemoryPort.thy ===== *)
theory MemoryPort
  imports Port Canonical
begin

text \<open>
  \<open>packages/pgwasm/src/opfs/core/memory-port.ts\<close>: the in-memory port, with a volatile and a durable
  image of every file, the log of effects that are not yet durable, fault injection and termination.
  A live image is a view of the first \<open>size\<close> bytes of a buffer that may be larger; images share no
  buffer, so a value is enough to model one. An injected failure is a \<open>HostError\<close>.
\<close>

section \<open>Images\<close>

record Image =
  buffer :: "byte list"
  imageSize :: nat

definition imageBytes :: "Image \<Rightarrow> byte list" where
  "imageBytes img = take (imageSize img) (buffer img)"

definition emptyImage :: Image where "emptyImage = \<lparr>buffer = [], imageSize = 0\<rparr>"

definition cloneImage :: "byte list \<Rightarrow> Image" where
  "cloneImage source = \<lparr>buffer = source, imageSize = length source\<rparr>"

text \<open>\<open>bytes.set(source, at)\<close>, inside the buffer.\<close>

definition setAt :: "nat \<Rightarrow> byte list \<Rightarrow> byte list \<Rightarrow> byte list" where
  "setAt at source target = take at target @ source @ drop (at + length source) target"

definition applyWrite :: "byte list \<Rightarrow> nat \<Rightarrow> byte list \<Rightarrow> byte list" where
  "applyWrite current at source =
     (let required = at + length source;
          next = (if required \<le> length current then current else replicate required 0);
          next = (if length next > length current then setAt 0 current next else next)
      in setAt at source next)"

definition applyTruncate :: "byte list \<Rightarrow> nat \<Rightarrow> byte list" where
  "applyTruncate current n =
     (if n = length current then current
      else setAt 0 (take (min n (length current)) current) (replicate n 0))"

definition resizeImage :: "Image \<Rightarrow> nat \<Rightarrow> Image" where
  "resizeImage current n =
     (if n \<le> imageSize current then current\<lparr>imageSize := n\<rparr>
      else if n \<le> length (buffer current) then
        \<lparr>buffer = setAt (imageSize current) (replicate (n - imageSize current) 0) (buffer current),
         imageSize = n\<rparr>
      else
        let capacity = max (max n (length (buffer current) * 2)) 64
        in \<lparr>buffer = setAt 0 (imageBytes current) (replicate capacity 0), imageSize = n\<rparr>)"

text \<open>Whether a resize moved the image to a new buffer (\<open>resized.buffer !== img.buffer\<close>).\<close>

definition reallocates :: "Image \<Rightarrow> nat \<Rightarrow> bool" where
  "reallocates current n \<longleftrightarrow> \<not> n \<le> imageSize current \<and> \<not> n \<le> length (buffer current)"

definition image_ok :: "Image \<Rightarrow> bool" where
  "image_ok img \<longleftrightarrow> imageSize img \<le> length (buffer img)"

definition writeImage :: "nat \<Rightarrow> byte list \<Rightarrow> Image \<Rightarrow> Image" where
  "writeImage at source current =
     (let required = at + length source;
          target = (if required > imageSize current then resizeImage current required else current)
      in target\<lparr>buffer := setAt at source (buffer target)\<rparr>)"

lemma length_setAt [simp]: "at + length source \<le> length target \<Longrightarrow> length (setAt at source target) = length target"
  by (simp add: setAt_def)

lemma image_ok_simps [simp, intro]:
  "image_ok emptyImage" "image_ok (cloneImage source)"
  "image_ok img \<Longrightarrow> image_ok (resizeImage img n)"
  "image_ok img \<Longrightarrow> image_ok (writeImage at source img)"
  by (auto simp: image_ok_def emptyImage_def cloneImage_def resizeImage_def writeImage_def setAt_def Let_def
      imageBytes_def)

lemma imageBytes_simps [simp]:
  "imageBytes emptyImage = []" "imageBytes (cloneImage source) = source"
  "image_ok img \<Longrightarrow> length (imageBytes img) = imageSize img"
  by (simp_all add: imageBytes_def emptyImage_def cloneImage_def image_ok_def)

lemma imageBytes_resize:
  assumes "image_ok img"
  shows "imageBytes (resizeImage img n) = resized n (imageBytes img)"
proof -
  have le: "imageSize img \<le> length (buffer img)" using assms by (simp add: image_ok_def)
  consider "n \<le> imageSize img" | "imageSize img < n" "n \<le> length (buffer img)" | "length (buffer img) < n"
    by linarith
  then show ?thesis
  proof cases
    case 1
    with le show ?thesis by (simp add: resizeImage_def imageBytes_def resized_def)
  next
    case 2
    with le show ?thesis by (simp add: resizeImage_def imageBytes_def resized_def setAt_def)
  next
    case 3
    define cap where "cap = max (max n (length (buffer img) * 2)) 64"
    have "n \<le> cap" "imageSize img < n" "\<not> n \<le> length (buffer img)" using 3 le by (simp_all add: cap_def)
    with le show ?thesis
      by (simp add: resizeImage_def imageBytes_def resized_def setAt_def Let_def flip: cap_def)
  qed
qed

lemma putBytes_resized:
  "putBytes (int at) src file = take at (resized (max (at + length src) (length file)) file) @ src
     @ drop (at + length src) (resized (max (at + length src) (length file)) file)"
  by (simp add: putBytes_def resized_def Let_def)

lemma imageBytes_write:
  assumes "image_ok img"
  shows "imageBytes (writeImage at src img) = putBytes (int at) src (imageBytes img)"
proof -
  let ?n = "at + length src" and ?f = "imageBytes img"
  define target where "target = (if ?n > imageSize img then resizeImage img ?n else img)"
  have ok: "image_ok target" and bytes: "imageBytes target = resized (max ?n (length ?f)) ?f"
    using assms by (auto simp: target_def imageBytes_resize resized_def max_def)
  have size: "imageSize target = max ?n (length ?f)" using assms by (auto simp: target_def resizeImage_def Let_def max_def)
  have "imageBytes (writeImage at src img) = take (imageSize target) (setAt at src (buffer target))"
    by (simp add: writeImage_def target_def imageBytes_def Let_def)
  also have "\<dots> = take at (imageBytes target) @ src @ drop ?n (imageBytes target)"
    using ok size by (simp add: setAt_def imageBytes_def image_ok_def min_absorb1 drop_take)
  finally show ?thesis using bytes by (simp add: putBytes_resized)
qed

lemma applyWrite_eq: "applyWrite file at src = putBytes (int at) src file"
  by (simp add: applyWrite_def putBytes_def setAt_def Let_def)

lemma applyTruncate_eq: "applyTruncate file n = resized n file"
  by (cases "n \<le> length file") (simp_all add: applyTruncate_def resized_def setAt_def min_def)

section \<open>The port\<close>

datatype MemoryOperation = OpEnumerate | OpAcquire | OpGetSize | OpRead | OpWrite | OpTruncate | OpFlush
datatype FaultOutcome = Short | ThrowBefore | ThrowAfter | Quota

record MemoryFault =
  faultOperation :: MemoryOperation
  faultOutcome :: FaultOutcome
  faultFile :: "OwnedFileName option"
  faultLabel :: "string option"
  faultBytes :: "int option"
  faultOccurrence :: "int option"

datatype MemoryEffect =
  WriteEffect int OwnedFileName nat "byte list"
| TruncateEffect int OwnedFileName nat

fun effectFile :: "MemoryEffect \<Rightarrow> OwnedFileName" where
  "effectFile (WriteEffect _ f _ _) = f"
| "effectFile (TruncateEffect _ f _) = f"

fun effectId :: "MemoryEffect \<Rightarrow> int" where
  "effectId (WriteEffect n _ _ _) = n"
| "effectId (TruncateEffect n _ _) = n"

datatype TerminationDecision = Absent | Full | Prefix int

text \<open>
  The port's private state; entries are listed by owned name or, for anything else in the directory,
  by their string.\<close>

record OperationRecord =
  recOperation :: MemoryOperation
  recFile :: "OwnedFileName option"
  recLabel :: string
  copiedBytes :: "nat option"

record MemoryPort =
  durable :: "(OwnedFileName \<times> Image) list"
  volatile :: "(OwnedFileName \<times> Image) list"
  entryKinds :: "((OwnedFileName + string) \<times> EntryKind) list"
  openFiles :: "OwnedFileName list"
  faults :: "MemoryFault list"
  operations :: "OperationRecord list"
  effects :: "MemoryEffect list"
  nextEffectId :: int
  epoch :: int

definition newMemoryPort :: MemoryPort where
  "newMemoryPort = \<lparr>durable = [], volatile = [], entryKinds = [], openFiles = [], faults = [], operations = [],
     effects = [], nextEffectId = 1, epoch = 1\<rparr>"

definition faultMatches :: "MemoryOperation \<Rightarrow> OwnedFileName option \<Rightarrow> string \<Rightarrow> MemoryFault \<Rightarrow> bool" where
  "faultMatches operation file label fault \<longleftrightarrow> faultOperation fault = operation
     \<and> (faultFile fault = None \<or> faultFile fault = file)
     \<and> (faultLabel fault = None \<or> faultLabel fault = Some label)"

fun findIndex :: "('a \<Rightarrow> bool) \<Rightarrow> 'a list \<Rightarrow> nat option" where
  "findIndex p [] = None"
| "findIndex p (x # xs) = (if p x then Some 0 else map_option Suc (findIndex p xs))"

definition takeFault ::
  "MemoryOperation \<Rightarrow> OwnedFileName option \<Rightarrow> string \<Rightarrow> MemoryPort \<Rightarrow> MemoryFault option \<times> MemoryPort" where
  "takeFault operation file label port =
     (case findIndex (faultMatches operation file label) (faults port) of
        None \<Rightarrow> (None, port)
      | Some k \<Rightarrow>
          let fault = faults port ! k in
          (case faultOccurrence fault of
             Some occurrence \<Rightarrow>
               if occurrence > 0
               then (None, port\<lparr>faults := (faults port)[k := fault\<lparr>faultOccurrence := Some (occurrence - 1)\<rparr>]\<rparr>)
               else (Some fault, port\<lparr>faults := take k (faults port) @ drop (Suc k) (faults port)\<rparr>)
           | None \<Rightarrow> (Some fault, port\<lparr>faults := take k (faults port) @ drop (Suc k) (faults port)\<rparr>)))"

definition recordOperation ::
  "MemoryOperation \<Rightarrow> OwnedFileName option \<Rightarrow> string \<Rightarrow> MemoryPort \<Rightarrow> MemoryPort" where
  "recordOperation operation file label port =
     port\<lparr>operations := operations port
       @ [\<lparr>recOperation = operation, recFile = file, recLabel = label, copiedBytes = None\<rparr>]\<rparr>"

text \<open>Every operation records itself and then looks for a fault.\<close>

definition startOperation ::
  "MemoryOperation \<Rightarrow> OwnedFileName option \<Rightarrow> string \<Rightarrow> MemoryPort \<Rightarrow> MemoryFault option \<times> MemoryPort" where
  "startOperation operation file label port =
     takeFault operation file label (recordOperation operation file label port)"

text \<open>\<open>handleFlush\<close> fills in the bytes copied in the record it has just pushed.\<close>

definition noteCopied :: "nat \<Rightarrow> MemoryPort \<Rightarrow> MemoryPort" where
  "noteCopied copied port =
     port\<lparr>operations := butlast (operations port) @ [(last (operations port))\<lparr>copiedBytes := Some copied\<rparr>]\<rparr>"

definition outcomeIs :: "FaultOutcome \<Rightarrow> MemoryFault option \<Rightarrow> bool" where
  "outcomeIs outcome fault \<longleftrightarrow> (case fault of None \<Rightarrow> False | Some f \<Rightarrow> faultOutcome f = outcome)"

definition validateRange :: "int \<Rightarrow> int \<Rightarrow> unit res" where
  "validateRange at len =
     (if \<not> isSafeInteger at \<or> \<not> isSafeInteger len \<or> at < 0 \<or> len < 0 then Inl RangeError
      else if \<not> isSafeInteger (at + len) then Inl RangeError
      else Inr ())"

definition fileImage :: "OwnedFileName \<Rightarrow> MemoryPort \<Rightarrow> Image res" where
  "fileImage name port = (case map_of (volatile port) name of None \<Rightarrow> Inl HostError | Some img \<Rightarrow> Inr img)"

record MemoryHandle =
  handleName :: OwnedFileName
  handleEpoch :: int
  handleClosed :: bool

definition acquireFile :: "OwnedFileName \<Rightarrow> string \<Rightarrow> MemoryPort \<Rightarrow> MemoryHandle res \<times> MemoryPort" where
  "acquireFile name label port =
     (let (fault, port) = startOperation OpAcquire (Some name) label port in
      if outcomeIs ThrowBefore fault then (Inl HostError, port)
      else if name \<in> set (openFiles port) then (Inl StoreOwnedError, port)
      else if map_of (entryKinds port) (Inl name) = Some DirectoryEntry then (Inl HostError, port)
      else
        let port =
          (if map_of (volatile port) name = None then
             port\<lparr>volatile := AList.update name emptyImage (volatile port),
                  durable := AList.update name emptyImage (durable port),
                  entryKinds := AList.update (Inl name) FileEntry (entryKinds port)\<rparr>
           else port)
        in
        if fault \<noteq> None then (Inl HostError, port)
        else (Inr \<lparr>handleName = name, handleEpoch = epoch port, handleClosed = False\<rparr>,
              port\<lparr>openFiles := name # openFiles port\<rparr>))"

definition handleGetSize :: "OwnedFileName \<Rightarrow> string \<Rightarrow> MemoryPort \<Rightarrow> int res \<times> MemoryPort" where
  "handleGetSize name label port =
     (let (fault, port) = startOperation OpGetSize (Some name) label port in
      if fault \<noteq> None then (Inl HostError, port)
      else (ebind (fileImage name port) (\<lambda>img. Inr (int (imageSize img))), port))"

definition handleRead ::
  "OwnedFileName \<Rightarrow> int \<Rightarrow> int \<Rightarrow> string \<Rightarrow> MemoryPort \<Rightarrow> (int \<times> byte list) res \<times> MemoryPort" where
  "handleRead name room at label port =
     (case validateRange at room of
        Inl e \<Rightarrow> (Inl e, port)
      | Inr _ \<Rightarrow>
          let (fault, port) = startOperation OpRead (Some name) label port in
          if outcomeIs ThrowBefore fault \<or> outcomeIs ThrowAfter fault then (Inl HostError, port)
          else
            (ebind (fileImage name port) (\<lambda>source.
               let available = max 0 (min room (int (imageSize source) - at));
                   amount = (case fault of
                       Some f \<Rightarrow> if faultOutcome f = Short
                         then min available (case faultBytes f of None \<Rightarrow> 0 | Some b \<Rightarrow> b) else available
                     | None \<Rightarrow> available)
               in Inr (amount, take (nat amount) (drop (nat at) (imageBytes source)))), port))"

definition recordWrite :: "OwnedFileName \<Rightarrow> nat \<Rightarrow> byte list \<Rightarrow> MemoryPort \<Rightarrow> unit res \<times> MemoryPort" where
  "recordWrite name at source port =
     (case fileImage name port of
        Inl e \<Rightarrow> (Inl e, port)
      | Inr current \<Rightarrow>
          (Inr (), port\<lparr>volatile := AList.update name (writeImage at source current) (volatile port),
                       effects := effects port @ [WriteEffect (nextEffectId port) name at source],
                       nextEffectId := nextEffectId port + 1\<rparr>))"

definition handleWrite ::
  "OwnedFileName \<Rightarrow> byte list \<Rightarrow> int \<Rightarrow> string \<Rightarrow> MemoryPort \<Rightarrow> int res \<times> MemoryPort" where
  "handleWrite name source at label port =
     (case validateRange at (int (length source)) of
        Inl e \<Rightarrow> (Inl e, port)
      | Inr _ \<Rightarrow>
          let (fault, port) = startOperation OpWrite (Some name) label port in
          if outcomeIs ThrowBefore fault then (Inl HostError, port)
          else
            let amount = (case fault of
                Some f \<Rightarrow> if faultOutcome f = Short \<or> faultOutcome f = ThrowAfter
                  then min (int (length source)) (case faultBytes f of None \<Rightarrow> int (length source) | Some b \<Rightarrow> b)
                  else int (length source)
              | None \<Rightarrow> int (length source));
              (recorded, port) = (if amount > 0 then recordWrite name (nat at) (take (nat amount) source) port
                                  else (Inr (), port))
            in case recorded of
                 Inl e \<Rightarrow> (Inl e, port)
               | Inr _ \<Rightarrow> if outcomeIs ThrowAfter fault then (Inl HostError, port) else (Inr amount, port))"

definition handleTruncate :: "OwnedFileName \<Rightarrow> int \<Rightarrow> string \<Rightarrow> MemoryPort \<Rightarrow> unit res \<times> MemoryPort" where
  "handleTruncate name fileSize label port =
     (case validateRange fileSize 0 of
        Inl e \<Rightarrow> (Inl e, port)
      | Inr _ \<Rightarrow>
          let (fault, port) = startOperation OpTruncate (Some name) label port in
          if outcomeIs Quota fault then (Inl QuotaExceededError, port)
          else if outcomeIs ThrowBefore fault then (Inl HostError, port)
          else
            (case fileImage name port of
               Inl e \<Rightarrow> (Inl e, port)
             | Inr current \<Rightarrow>
                 let port = port\<lparr>volatile := AList.update name (resizeImage current (nat fileSize)) (volatile port),
                              effects := effects port @ [TruncateEffect (nextEffectId port) name (nat fileSize)],
                              nextEffectId := nextEffectId port + 1\<rparr>
                 in (if outcomeIs ThrowAfter fault then Inl HostError else Inr (), port)))"

text \<open>
  A flush replays this file's pending effects onto its durable image. The bytes it copies are the
  written ones and, when the image outgrows its buffer, the bytes carried into the new one.
\<close>

fun redoEffect :: "MemoryEffect \<Rightarrow> Image \<Rightarrow> Image" where
  "redoEffect (TruncateEffect _ _ n) img = resizeImage img n"
| "redoEffect (WriteEffect _ _ at source) img = writeImage at source img"

fun copiedBy :: "MemoryEffect \<Rightarrow> Image \<Rightarrow> nat" where
  "copiedBy (TruncateEffect _ _ n) img = (if reallocates img n then imageSize img else 0)"
| "copiedBy (WriteEffect _ _ at source) img =
     (if at + length source > imageSize img \<and> reallocates img (at + length source)
      then imageSize img else 0) + length source"

definition flushEffect ::
  "OwnedFileName \<Rightarrow> MemoryEffect \<Rightarrow> Image \<times> MemoryEffect list \<times> nat \<Rightarrow> Image \<times> MemoryEffect list \<times> nat" where
  "flushEffect name effect = (\<lambda>(img, remaining, copied).
     if effectFile effect \<noteq> name then (img, remaining @ [effect], copied)
     else (redoEffect effect img, remaining, copied + copiedBy effect img))"

definition imageOf :: "(OwnedFileName \<times> Image) list \<Rightarrow> OwnedFileName \<Rightarrow> Image" where
  "imageOf files name = (case map_of files name of None \<Rightarrow> emptyImage | Some img \<Rightarrow> img)"

definition makeDurable :: "OwnedFileName \<Rightarrow> MemoryPort \<Rightarrow> nat \<times> MemoryPort" where
  "makeDurable name port =
     (let (img, remaining, copied) = fold (flushEffect name) (effects port) (imageOf (durable port) name, [], 0)
      in (copied, port\<lparr>durable := AList.update name img (durable port), effects := remaining\<rparr>))"

definition handleFlush :: "OwnedFileName \<Rightarrow> string \<Rightarrow> MemoryPort \<Rightarrow> unit res \<times> MemoryPort" where
  "handleFlush name label port =
     (let port = noteCopied 0 (recordOperation OpFlush (Some name) label port);
          (fault, port) = takeFault OpFlush (Some name) label port in
      if outcomeIs ThrowBefore fault then (Inl HostError, port)
      else
        let (copied, port) = makeDurable name port
        in (if outcomeIs ThrowAfter fault then Inl HostError else Inr (), noteCopied copied port))"

definition handleClose :: "OwnedFileName \<Rightarrow> MemoryPort \<Rightarrow> MemoryPort" where
  "handleClose name port = port\<lparr>openFiles := removeAll name (openFiles port)\<rparr>"

text \<open>A handle works until it is closed or the port has been terminated.\<close>

definition assertOpen :: "MemoryHandle \<Rightarrow> MemoryPort \<Rightarrow> unit res" where
  "assertOpen handle port =
     (if handleClosed handle \<or> handleEpoch handle \<noteq> epoch port then Inl HostError else Inr ())"

definition throughHandle ::
  "(OwnedFileName \<Rightarrow> MemoryPort \<Rightarrow> 'a res \<times> MemoryPort) \<Rightarrow> MemoryHandle \<Rightarrow> MemoryPort \<Rightarrow> 'a res \<times> MemoryPort" where
  "throughHandle operation handle port =
     (case assertOpen handle port of
        Inl e \<Rightarrow> (Inl e, port)
      | Inr _ \<Rightarrow> operation (handleName handle) port)"

definition closeHandle :: "MemoryHandle \<Rightarrow> MemoryPort \<Rightarrow> MemoryHandle \<times> MemoryPort" where
  "closeHandle handle port =
     (if handleClosed handle then (handle, port)
      else (handle\<lparr>handleClosed := True\<rparr>,
            if handleEpoch handle = epoch port then handleClose (handleName handle) port else port))"

section \<open>Injection and termination\<close>

definition injectEntry :: "OwnedFileName + string \<Rightarrow> EntryKind \<Rightarrow> MemoryPort \<Rightarrow> unit res \<times> MemoryPort" where
  "injectEntry entry kind port =
     (case entry of
        Inr _ \<Rightarrow> (Inr (), port\<lparr>entryKinds := AList.update entry kind (entryKinds port)\<rparr>)
      | Inl name \<Rightarrow>
          if name \<in> set (openFiles port) then (Inl HostError, port)
          else
            let port = port\<lparr>entryKinds := AList.update entry kind (entryKinds port),
                            effects := filter (\<lambda>effect. effectFile effect \<noteq> name) (effects port)\<rparr>
            in (Inr (),
                if kind = FileEntry
                then port\<lparr>volatile := AList.update name emptyImage (volatile port),
                          durable := AList.update name emptyImage (durable port)\<rparr>
                else port\<lparr>volatile := AList.delete name (volatile port),
                          durable := AList.delete name (durable port)\<rparr>))"

definition injectFault :: "MemoryFault \<Rightarrow> MemoryPort \<Rightarrow> unit res \<times> MemoryPort" where
  "injectFault fault port =
     (if faultOutcome fault = Quota \<and> faultOperation fault \<noteq> OpTruncate then (Inl TypeError, port)
      else if (case faultBytes fault of None \<Rightarrow> False | Some n \<Rightarrow> \<not> isSafeInteger n \<or> n < 0) then (Inl TypeError, port)
      else if (case faultOccurrence fault of None \<Rightarrow> False | Some n \<Rightarrow> \<not> isSafeInteger n \<or> n < 0)
        then (Inl TypeError, port)
      else (Inr (), port\<lparr>faults := faults port @ [fault]\<rparr>))"

text \<open>
  Termination is a crash: of the effects that are not durable, each is lost, kept, or, for a write,
  kept in part, as decided per effect.
\<close>

definition applyDecision ::
  "(int \<Rightarrow> TerminationDecision option) \<Rightarrow> MemoryEffect \<Rightarrow> (OwnedFileName \<times> byte list) list
     \<Rightarrow> (OwnedFileName \<times> byte list) list res" where
  "applyDecision decisions effect files =
     (let decision = (case decisions (effectId effect) of None \<Rightarrow> Absent | Some d \<Rightarrow> d) in
      if decision = Absent then Inr files
      else
        let current = (case map_of files (effectFile effect) of None \<Rightarrow> [] | Some c \<Rightarrow> c) in
        case effect of
          TruncateEffect _ name n \<Rightarrow>
            if decision \<noteq> Full then Inl TypeError
            else Inr (AList.update name (applyTruncate current n) files)
        | WriteEffect _ name at source \<Rightarrow>
            let amount = (case decision of Prefix n \<Rightarrow> n | _ \<Rightarrow> int (length source)) in
            if \<not> isSafeInteger amount \<or> amount < 0 \<or> amount > int (length source) then Inl TypeError
            else if amount > 0
              then Inr (AList.update name (applyWrite current at (take (nat amount) source)) files)
            else Inr files)"

definition terminate :: "(int \<Rightarrow> TerminationDecision option) \<Rightarrow> MemoryPort \<Rightarrow> unit res \<times> MemoryPort" where
  "terminate decisions port =
     (case fold_res (applyDecision decisions) (effects port)
             (map (\<lambda>(name, img). (name, imageBytes img)) (durable port)) of
        Inl e \<Rightarrow> (Inl e, port)
      | Inr files \<Rightarrow>
          let images = map (\<lambda>(name, source). (name, cloneImage source)) files in
          (Inr (), port\<lparr>durable := images, volatile := images, effects := [], faults := [], openFiles := [],
                        epoch := epoch port + 1\<rparr>))"

section \<open>Observation\<close>

text \<open>The order of names is the host's \<open>localeCompare\<close>, a parameter.\<close>

definition enumerate ::
  "(string \<Rightarrow> string \<Rightarrow> int) \<Rightarrow> string \<Rightarrow> MemoryPort \<Rightarrow> ((OwnedFileName + string) \<times> EntryKind) list res \<times> MemoryPort" where
  "enumerate localeCompare label port =
     (let (fault, port) = startOperation OpEnumerate None label port in
      if fault \<noteq> None then (Inl HostError, port)
      else (Inr (sortBy (\<lambda>left right. localeCompare (case_sum ownedName id (fst left)) (case_sum ownedName id (fst right)))
                  (entryKinds port)), port))"

definition pendingEffects :: "MemoryPort \<Rightarrow> (int \<times> OwnedFileName \<times> MemoryOperation \<times> nat) list" where
  "pendingEffects port =
     map (\<lambda>effect. case effect of
        WriteEffect n name _ source \<Rightarrow> (n, name, OpWrite, length source)
      | TruncateEffect n name fileSize \<Rightarrow> (n, name, OpTruncate, fileSize)) (effects port)"

definition openHandleCount :: "MemoryPort \<Rightarrow> nat" where
  "openHandleCount port = length (openFiles port)"

definition observedOperations :: "MemoryPort \<Rightarrow> OperationRecord list" where
  "observedOperations port = operations port"

definition clearObservedOperations :: "MemoryPort \<Rightarrow> MemoryPort" where
  "clearObservedOperations port = port\<lparr>operations := []\<rparr>"

definition durableBytes :: "OwnedFileName \<Rightarrow> MemoryPort \<Rightarrow> byte list" where
  "durableBytes name port = imageBytes (imageOf (durable port) name)"

end
