(* ===== verification/MemoryDurability.thy ===== *)
theory MemoryDurability
  imports MemoryPort
begin

text \<open>
  What the in-memory port promises: every file's durable image and pending effects together determine
  its volatile image, a flush makes one file durable, and a crash keeps of the pending effects exactly
  what was decided.
\<close>

section \<open>The state of a file\<close>

fun effectBytes :: "MemoryEffect \<Rightarrow> byte list \<Rightarrow> byte list" where
  "effectBytes (WriteEffect _ _ at source) file = putBytes (int at) source file"
| "effectBytes (TruncateEffect _ _ n) file = resized n file"

fun effect_safe :: "MemoryEffect \<Rightarrow> bool" where
  "effect_safe (WriteEffect _ _ at source) \<longleftrightarrow> isSafeInteger (int (length source)) \<and> source \<noteq> []"
| "effect_safe (TruncateEffect _ _ n) \<longleftrightarrow> isSafeInteger (int n)"

definition pending :: "OwnedFileName \<Rightarrow> MemoryPort \<Rightarrow> MemoryEffect list" where
  "pending name port = filter (\<lambda>effect. effectFile effect = name) (effects port)"

definition volatileBytes :: "OwnedFileName \<Rightarrow> MemoryPort \<Rightarrow> byte list" where
  "volatileBytes name port = imageBytes (imageOf (volatile port) name)"

definition present :: "MemoryPort \<Rightarrow> OwnedFileName \<Rightarrow> bool" where
  "present port name \<longleftrightarrow> map_of (volatile port) name \<noteq> None"

definition port_inv :: "MemoryPort \<Rightarrow> bool" where
  "port_inv port \<longleftrightarrow>
     (\<forall>name. image_ok (imageOf (durable port) name) \<and> image_ok (imageOf (volatile port) name)
        \<and> (map_of (durable port) name \<noteq> None \<longleftrightarrow> present port name)
        \<and> volatileBytes name port = fold effectBytes (pending name port) (durableBytes name port))
     \<and> (\<forall>effect \<in> set (effects port). effect_safe effect \<and> present port (effectFile effect)
          \<and> effectId effect < nextEffectId port)
     \<and> sorted_wrt (<) (map effectId (effects port))
     \<and> (\<forall>name \<in> set (openFiles port). present port name)"

lemma port_invI:
  assumes "\<And>name. image_ok (imageOf (durable port) name)" and "\<And>name. image_ok (imageOf (volatile port) name)"
    and "\<And>name. (map_of (durable port) name \<noteq> None) = present port name"
    and "\<And>name. volatileBytes name port = fold effectBytes (pending name port) (durableBytes name port)"
    and "\<And>effect. effect \<in> set (effects port) \<Longrightarrow> effect_safe effect \<and> present port (effectFile effect)
          \<and> effectId effect < nextEffectId port"
    and "sorted_wrt (<) (map effectId (effects port))"
    and "\<And>name. name \<in> set (openFiles port) \<Longrightarrow> present port name"
  shows "port_inv port"
  using assms by (simp add: port_inv_def)

lemma port_invD:
  assumes "port_inv port"
  shows "image_ok (imageOf (durable port) name)" "image_ok (imageOf (volatile port) name)"
    "(map_of (durable port) name \<noteq> None) = present port name"
    "volatileBytes name port = fold effectBytes (pending name port) (durableBytes name port)"
    "effect \<in> set (effects port) \<Longrightarrow> effect_safe effect \<and> present port (effectFile effect)
       \<and> effectId effect < nextEffectId port"
    "sorted_wrt (<) (map effectId (effects port))"
    "name \<in> set (openFiles port) \<Longrightarrow> present port name"
  using assms by (simp_all add: port_inv_def)

lemma imageOf_simps [simp]:
  "imageOf [] name = emptyImage"
  "imageOf (AList.update name img files) other = (if other = name then img else imageOf files other)"
  "imageOf (AList.delete name files) other = (if other = name then emptyImage else imageOf files other)"
  "map_of files name = Some img \<Longrightarrow> imageOf files name = img"
  by (simp_all add: imageOf_def map_of_delete)

lemma port_inv_frame [simp]:
  "port_inv (port\<lparr>faults := fs\<rparr>) = port_inv port" "port_inv (port\<lparr>entryKinds := ks\<rparr>) = port_inv port"
  "port_inv (port\<lparr>operations := ops\<rparr>) = port_inv port"
  by (simp_all add: port_inv_def pending_def volatileBytes_def durableBytes_def present_def)

lemma port_inv_new: "port_inv newMemoryPort"
  by (rule port_invI) (simp_all add: newMemoryPort_def pending_def volatileBytes_def durableBytes_def present_def)

lemma takeFault_frame: "\<exists>fs. snd (takeFault operation file label port) = port\<lparr>faults := fs\<rparr>"
proof (cases "findIndex (faultMatches operation file label) (faults port)")
  case None
  then show ?thesis by (intro exI [of _ "faults port"]) (simp add: takeFault_def)
next
  case (Some k)
  then show ?thesis by (cases "faultOccurrence (faults port ! k)") (auto simp: takeFault_def Let_def)
qed

lemma startOperation_frame:
  "\<exists>ops fs. snd (startOperation operation file label port) = port\<lparr>operations := ops, faults := fs\<rparr>"
  using takeFault_frame unfolding startOperation_def recordOperation_def by metis

lemma startOperation_cases:
  obtains fault ops fs where "startOperation operation file label port = (fault, port\<lparr>operations := ops, faults := fs\<rparr>)"
  using startOperation_frame by (metis prod.collapse)

section \<open>Operations\<close>

lemma putBytes_Nil_take [simp]: "length (putBytes (int at) [] file) = max at (length file)"
  by (simp add: putBytes_def Let_def)

lemma redo_effect:
  "image_ok img \<Longrightarrow> image_ok (redoEffect effect img) \<and> imageBytes (redoEffect effect img) = effectBytes effect (imageBytes img)"
  by (cases effect) (simp_all add: imageBytes_resize imageBytes_write)

text \<open>Recording an effect and applying it to the volatile image.\<close>

lemma port_inv_record:
  assumes inv: "port_inv port" and img: "map_of (volatile port) name = Some img"
    and eff: "effectFile effect = name" "effectId effect = nextEffectId port" "effect_safe effect"
  shows "port_inv (port\<lparr>volatile := AList.update name (redoEffect effect img) (volatile port),
                        effects := effects port @ [effect], nextEffectId := nextEffectId port + 1\<rparr>)"
proof (rule port_invI, goal_cases)
  case (4 other)
  have "volatileBytes name port = imageBytes img" using img by (simp add: volatileBytes_def)
  moreover have "image_ok img" using port_invD(2) [OF inv, of name] img by simp
  ultimately show ?case
    using port_invD(4) [OF inv, of other] eff(1) redo_effect [of img effect]
    by (auto simp: volatileBytes_def durableBytes_def pending_def)
next
  case (5 e)
  with port_invD(5) [OF inv, of e] eff img show ?case by (force simp: present_def)
next
  case 6
  show ?case using port_invD(5,6) [OF inv] eff(2) by (auto simp: sorted_wrt_append)
next
  case (2 other)
  then show ?case using port_invD(2) [OF inv, of other] port_invD(2) [OF inv, of name] img redo_effect by auto
next
  case (3 other)
  then show ?case using port_invD(3) [OF inv, of other] img by (auto simp: present_def)
next
  case (7 other)
  then show ?case using port_invD(7) [OF inv, of other] by (auto simp: present_def)
qed (simp add: port_invD(1) [OF inv])

lemma snd_cases:
  "snd (case r of Inl e \<Rightarrow> (f e, p) | Inr x \<Rightarrow> if b then (g, p) else (h x, p)) = p"
  "snd (if b then x else y) = (if b then snd x else snd y)"
  by (simp_all split: sum.split)

lemma port_inv_write:
  assumes inv: "port_inv port"
  shows "port_inv (snd (handleWrite name source at label port))"
proof (cases "validateRange at (int (length source))")
  case (Inr u)
  obtain fault ops fs where take: "startOperation OpWrite (Some name) label port = (fault, port\<lparr>operations := ops, faults := fs\<rparr>)"
    by (rule startOperation_cases)
  have recorded: "port_inv (snd (recordWrite name (nat at) (take (nat n) source) (port\<lparr>operations := ops, faults := fs\<rparr>)))"
    if n: "0 < n" "source \<noteq> []" for n
  proof (cases "map_of (volatile port) name")
    case (Some img)
    have "effect_safe (WriteEffect (nextEffectId port) name (nat at) (take (nat n) source))"
      using Inr n by (auto simp: validateRange_def isSafeInteger_def MAX_SAFE_INTEGER_def split: if_splits)
    with port_inv_record [of "port\<lparr>operations := ops, faults := fs\<rparr>" name img "WriteEffect (nextEffectId port) name (nat at) (take (nat n) source)"]
      inv Some
    show ?thesis by (simp add: recordWrite_def fileImage_def)
  qed (simp add: recordWrite_def fileImage_def inv)
  define amount where "amount = (case fault of
      Some f \<Rightarrow> if faultOutcome f = Short \<or> faultOutcome f = ThrowAfter
        then min (int (length source)) (case faultBytes f of None \<Rightarrow> int (length source) | Some b \<Rightarrow> b)
        else int (length source)
    | None \<Rightarrow> int (length source))"
  have "source \<noteq> []" if "0 < amount" using that by (auto simp: amount_def split: option.splits if_splits)
  with recorded inv show ?thesis
    by (simp add: handleWrite_def Inr take Let_def case_prod_beta snd_cases flip: amount_def del: snd_conv) simp
qed (simp add: handleWrite_def inv)

lemma port_inv_truncate:
  assumes inv: "port_inv port"
  shows "port_inv (snd (handleTruncate name fileSize label port))"
proof (cases "validateRange fileSize 0")
  case (Inr u)
  obtain fault ops fs where take: "startOperation OpTruncate (Some name) label port = (fault, port\<lparr>operations := ops, faults := fs\<rparr>)"
    by (rule startOperation_cases)
  have "effect_safe (TruncateEffect (nextEffectId port) name (nat fileSize))"
    using Inr by (auto simp: validateRange_def split: if_splits)
  with port_inv_record [of "port\<lparr>operations := ops, faults := fs\<rparr>" name _ "TruncateEffect (nextEffectId port) name (nat fileSize)"] inv
  have "port_inv (port\<lparr>operations := ops, faults := fs, volatile := AList.update name (resizeImage img (nat fileSize)) (volatile port),
      effects := effects port @ [TruncateEffect (nextEffectId port) name (nat fileSize)],
      nextEffectId := nextEffectId port + 1\<rparr>)" if "map_of (volatile port) name = Some img" for img
    using that by simp
  then show ?thesis using inv
    by (cases "map_of (volatile port) name") (simp_all add: handleTruncate_def Inr take fileImage_def Let_def snd_cases)
qed (simp add: handleTruncate_def inv)

lemma port_inv_reads:
  assumes inv: "port_inv port"
  shows "port_inv (snd (handleGetSize name label port))" "port_inv (snd (handleRead name room at label port))"
    "port_inv (snd (enumerate cmp label port))"
proof -
  have faulted: "port_inv (snd (startOperation operation f label port))" for operation f
    using startOperation_frame inv by (metis port_inv_frame(1,3))
  have pair: "snd (if b then (x, p) else (y, p)) = p" for b and x y :: "'x" and p :: MemoryPort by simp
  show "port_inv (snd (handleGetSize name label port))" "port_inv (snd (enumerate cmp label port))"
    using faulted by (simp_all add: handleGetSize_def enumerate_def case_prod_beta pair)
  show "port_inv (snd (handleRead name room at label port))"
    using faulted inv by (simp add: handleRead_def case_prod_beta pair split: sum.split)
qed


text \<open>A flush of a present file makes its volatile image the durable one and leaves the others.\<close>

lemma flushEffect_step:
  "flushEffect name e (img, remaining, copied) =
     (if effectFile e \<noteq> name then (img, remaining @ [e], copied)
      else (redoEffect e img, remaining, copied + copiedBy e img))"
  by (simp add: flushEffect_def)

lemma flush_effects:
  "\<exists>n. fold (flushEffect name) es (img, remaining, copied) =
     (fold redoEffect (filter (\<lambda>e. effectFile e = name) es) img,
      remaining @ filter (\<lambda>e. effectFile e \<noteq> name) es, n)"
proof (induction es arbitrary: img remaining copied)
  case (Cons e es)
  show ?case using Cons.IH [of img "remaining @ [e]" copied] Cons.IH [of "redoEffect e img" remaining "copied + copiedBy e img"]
    by (simp add: flushEffect_step)
qed simp

lemma redo_effects:
  "image_ok img \<Longrightarrow> image_ok (fold redoEffect es img) \<and> imageBytes (fold redoEffect es img) = fold effectBytes es (imageBytes img)"
  by (induction es arbitrary: img) (simp_all add: redo_effect)

lemma makeDurable_parts:
  assumes inv: "port_inv port"
  shows "snd (makeDurable name port) = port
    \<lparr>durable := AList.update name (fold redoEffect (pending name port) (imageOf (durable port) name)) (durable port),
     effects := filter (\<lambda>e. effectFile e \<noteq> name) (effects port)\<rparr>"
    and "image_ok (fold redoEffect (pending name port) (imageOf (durable port) name))"
    and "imageBytes (fold redoEffect (pending name port) (imageOf (durable port) name)) = volatileBytes name port"
proof -
  obtain n where "fold (flushEffect name) (effects port) (imageOf (durable port) name, [], 0) =
      (fold redoEffect (pending name port) (imageOf (durable port) name),
       filter (\<lambda>e. effectFile e \<noteq> name) (effects port), n)"
    using flush_effects [of name "effects port" "imageOf (durable port) name" "[]" 0]
    by (simp only: pending_def append_Nil) blast
  then show "snd (makeDurable name port) = port
    \<lparr>durable := AList.update name (fold redoEffect (pending name port) (imageOf (durable port) name)) (durable port),
     effects := filter (\<lambda>e. effectFile e \<noteq> name) (effects port)\<rparr>"
    by (simp add: makeDurable_def)
  show "image_ok (fold redoEffect (pending name port) (imageOf (durable port) name))"
    "imageBytes (fold redoEffect (pending name port) (imageOf (durable port) name)) = volatileBytes name port"
    using port_invD(1,4) [OF inv, of name] by (simp_all add: redo_effects durableBytes_def)
qed

lemma pending_other: "other \<noteq> name \<Longrightarrow>
  filter (\<lambda>e. effectFile e \<noteq> name \<and> effectFile e = other) es = filter (\<lambda>e. effectFile e = other) es"
  by (induction es) auto

lemma sorted_filter_ids: "sorted_wrt (<) (map effectId es) \<Longrightarrow> sorted_wrt (<) (map effectId (filter P es))"
  by (induction es) auto

lemma port_inv_durable:
  assumes inv: "port_inv port" and there: "present port name"
  shows "port_inv (snd (makeDurable name port))"
proof (rule port_invI, goal_cases)
  case (1 other)
  with port_invD(1) [OF inv, of other] makeDurable_parts(2) [OF inv, of name] show ?case
    by (simp add: makeDurable_parts(1) [OF inv])
next
  case (4 other)
  with port_invD(4) [OF inv, of other] makeDurable_parts(3) [OF inv, of name] show ?case
    by (cases "other = name") (simp_all add: makeDurable_parts(1) [OF inv] volatileBytes_def durableBytes_def pending_def pending_other)
next
  case (3 other)
  with port_invD(3) [OF inv, of other] there show ?case by (simp add: makeDurable_parts(1) [OF inv] present_def)
next
  case (6)
  with port_invD(6) [OF inv] show ?case by (simp add: makeDurable_parts(1) [OF inv] sorted_filter_ids)
qed (use port_invD [OF inv] in \<open>simp_all add: makeDurable_parts(1) [OF inv] present_def\<close>)

lemma port_inv_flush:
  assumes inv: "port_inv port" and there: "present port name"
  shows "port_inv (snd (handleFlush name label port))"
proof -
  define p where "p = noteCopied 0 (recordOperation OpFlush (Some name) label port)"
  obtain fs where fs: "snd (takeFault OpFlush (Some name) label p) = p\<lparr>faults := fs\<rparr>" using takeFault_frame by blast
  have ok: "port_inv p" "present (p\<lparr>faults := fs\<rparr>) name"
    using inv there by (simp_all add: p_def noteCopied_def recordOperation_def present_def)
  moreover have "port_inv (noteCopied n q) = port_inv q" for n q by (simp add: noteCopied_def)
  ultimately show ?thesis using fs port_inv_durable [of "p\<lparr>faults := fs\<rparr>" name]
    by (simp add: handleFlush_def Let_def case_prod_beta flip: p_def)
qed


section \<open>Injection, termination and ownership\<close>

lemma port_inv_injectFault: "port_inv port \<Longrightarrow> port_inv (snd (injectFault fault port))"
  by (simp add: injectFault_def)

lemma port_inv_injectEntry:
  assumes inv: "port_inv port"
  shows "port_inv (snd (injectEntry entry kind port))"
proof (cases entry)
  case (Inl name)
  show ?thesis
  proof (cases "name \<in> set (openFiles port)")
    case False
    have "port_inv (snd (injectEntry (Inl name) kind port))"
    proof (rule port_invI, goal_cases)
      case (4 other)
      then show ?case using port_invD(4) [OF inv, of other] False
        by (cases "other = name")
          (simp_all add: injectEntry_def Let_def volatileBytes_def durableBytes_def pending_def pending_other)
    next
      case (6)
      then show ?case using port_invD(6) [OF inv] by (simp add: injectEntry_def False Let_def sorted_filter_ids)
    next
      case (7 other)
      then show ?case using port_invD(7) [OF inv, of other] False
        by (auto simp: injectEntry_def Let_def present_def map_of_delete split: if_splits)
    qed (use port_invD [OF inv] False in
        \<open>auto simp: injectEntry_def Let_def present_def map_of_delete split: if_splits\<close>)
    with Inl show ?thesis by simp
  qed (simp add: Inl injectEntry_def inv)
qed (simp add: injectEntry_def inv)

text \<open>What an acquisition does to the files: an absent one is created empty, in both images.\<close>

definition ensureFile :: "OwnedFileName \<Rightarrow> MemoryPort \<Rightarrow> MemoryPort" where
  "ensureFile name port =
     (if map_of (volatile port) name = None then
        port\<lparr>volatile := AList.update name emptyImage (volatile port),
             durable := AList.update name emptyImage (durable port),
             entryKinds := AList.update (Inl name) FileEntry (entryKinds port)\<rparr>
      else port)"

lemma acquire_cases:
  obtains e ops fs where
    "acquireFile name label port = (Inl e, port\<lparr>operations := ops, faults := fs\<rparr>)"
  | ops fs where "acquireFile name label port = (Inl HostError, ensureFile name (port\<lparr>operations := ops, faults := fs\<rparr>))"
  | ops fs q where "q = ensureFile name (port\<lparr>operations := ops, faults := fs\<rparr>)" "name \<notin> set (openFiles port)"
      "acquireFile name label port = (Inr \<lparr>handleName = name, handleEpoch = epoch q, handleClosed = False\<rparr>,
         q\<lparr>openFiles := name # openFiles q\<rparr>)"
proof -
  obtain fault ops fs where take: "startOperation OpAcquire (Some name) label port = (fault, port\<lparr>operations := ops, faults := fs\<rparr>)"
    by (rule startOperation_cases)
  define q where "q = ensureFile name (port\<lparr>operations := ops, faults := fs\<rparr>)"
  have eq: "acquireFile name label port =
     (if outcomeIs ThrowBefore fault then (Inl HostError, port\<lparr>operations := ops, faults := fs\<rparr>)
      else if name \<in> set (openFiles port) then (Inl StoreOwnedError, port\<lparr>operations := ops, faults := fs\<rparr>)
      else if map_of (entryKinds port) (Inl name) = Some DirectoryEntry
        then (Inl HostError, port\<lparr>operations := ops, faults := fs\<rparr>)
      else if fault \<noteq> None then (Inl HostError, q)
      else (Inr \<lparr>handleName = name, handleEpoch = epoch q, handleClosed = False\<rparr>, q\<lparr>openFiles := name # openFiles q\<rparr>))"
    by (simp add: acquireFile_def take Let_def q_def ensureFile_def)
  consider e where "acquireFile name label port = (Inl e, port\<lparr>operations := ops, faults := fs\<rparr>)"
    | "acquireFile name label port = (Inl HostError, q)"
    | "name \<notin> set (openFiles port)" "acquireFile name label port
        = (Inr \<lparr>handleName = name, handleEpoch = epoch q, handleClosed = False\<rparr>, q\<lparr>openFiles := name # openFiles q\<rparr>)"
    using eq by (auto split: if_splits)
  then show thesis by cases (use that q_def in blast)+
qed

lemma port_inv_ensure:
  assumes inv: "port_inv port"
  shows "port_inv (ensureFile name port)" "present (ensureFile name port) name"
    "openFiles (ensureFile name port) = openFiles port" "epoch (ensureFile name port) = epoch port"
proof -
  have none: "pending name port = []" if "\<not> present port name"
    using that port_invD(5) [OF inv] by (auto simp: pending_def filter_empty_conv)
  show "port_inv (ensureFile name port)"
  proof (cases "present port name")
    case False
    with none inv show ?thesis
      by (auto simp: ensureFile_def port_inv_def present_def volatileBytes_def durableBytes_def pending_def)
  qed (use inv in \<open>auto simp: ensureFile_def present_def\<close>)
qed (simp_all add: ensureFile_def present_def)

lemma port_inv_open: "port_inv port \<Longrightarrow> present port name \<Longrightarrow> port_inv (port\<lparr>openFiles := name # openFiles port\<rparr>)"
  by (simp add: port_inv_def present_def volatileBytes_def durableBytes_def pending_def)

lemma port_inv_acquire: "port_inv port \<Longrightarrow> port_inv (snd (acquireFile name label port))"
proof (rule acquire_cases [of name label port], goal_cases)
  case (3 ops fs q)
  then have "port_inv q" "present q name" by (simp_all add: port_inv_ensure)
  with 3 port_inv_open show ?case by simp
qed (simp_all add: port_inv_ensure)

lemma port_inv_close: "port_inv port \<Longrightarrow> port_inv (handleClose name port)"
  by (auto simp: handleClose_def port_inv_def present_def volatileBytes_def durableBytes_def pending_def)

text \<open>What a crash leaves of an effect, and the decisions a crash accepts.\<close>

fun survivor :: "TerminationDecision option \<Rightarrow> MemoryEffect \<Rightarrow> MemoryEffect list" where
  "survivor (Some Full) effect = [effect]"
| "survivor (Some (Prefix n)) (WriteEffect i name at source) =
     (if n > 0 then [WriteEffect i name at (take (nat n) source)] else [])"
| "survivor _ _ = []"

fun decision_ok :: "TerminationDecision option \<Rightarrow> MemoryEffect \<Rightarrow> bool" where
  "decision_ok (Some (Prefix n)) (WriteEffect _ _ _ source) \<longleftrightarrow> 0 \<le> n \<and> n \<le> int (length source)"
| "decision_ok (Some (Prefix n)) (TruncateEffect _ _ _) \<longleftrightarrow> False"
| "decision_ok _ _ \<longleftrightarrow> True"

definition survivors :: "(int \<Rightarrow> TerminationDecision option) \<Rightarrow> MemoryEffect list \<Rightarrow> MemoryEffect list" where
  "survivors decisions es = concat (map (\<lambda>e. survivor (decisions (effectId e)) e) es)"

definition bytesOf :: "(OwnedFileName \<times> byte list) list \<Rightarrow> OwnedFileName \<Rightarrow> byte list" where
  "bytesOf files name = (case map_of files name of None \<Rightarrow> [] | Some f \<Rightarrow> f)"

lemma bytesOf_simps [simp]:
  "bytesOf (AList.update name f files) other = (if other = name then f else bytesOf files other)"
  by (simp add: bytesOf_def)

lemma applyDecision_ok:
  assumes safe: "effect_safe e" and ok: "decision_ok (decisions (effectId e)) e"
  shows "\<exists>files'. applyDecision decisions e files = Inr files' \<and> dom (map_of files') \<subseteq> insert (effectFile e) (dom (map_of files))
    \<and> dom (map_of files) \<subseteq> dom (map_of files')
    \<and> (\<forall>name. bytesOf files' name =
          fold effectBytes (filter (\<lambda>e. effectFile e = name) (survivor (decisions (effectId e)) e)) (bytesOf files name))"
proof (cases e)
  case (WriteEffect i name at source)
  with safe ok show ?thesis
    by (cases "decisions i" rule: option.exhaust; cases "the (decisions i)")
      (auto simp: applyDecision_def Let_def applyWrite_eq isSafeInteger_def MAX_SAFE_INTEGER_def bytesOf_def)
next
  case (TruncateEffect i name n)
  with safe ok show ?thesis
    by (cases "decisions i" rule: option.exhaust; cases "the (decisions i)")
      (auto simp: applyDecision_def Let_def applyTruncate_eq bytesOf_def)
qed

lemma applyDecision_bad:
  assumes "effect_safe e" and "\<not> decision_ok (decisions (effectId e)) e"
  shows "applyDecision decisions e files = Inl TypeError"
  using assms by (cases e; cases "decisions (effectId e)"; cases "the (decisions (effectId e))")
    (auto simp: applyDecision_def Let_def)


lemma survivors_Cons [simp]:
  "survivors decisions [] = []"
  "survivors decisions (e # es) = survivor (decisions (effectId e)) e @ survivors decisions es"
  by (simp_all add: survivors_def)

lemma apply_decisions:
  assumes "\<forall>e \<in> set es. effect_safe e \<and> decision_ok (decisions (effectId e)) e \<and> effectFile e \<in> dom (map_of files)"
  shows "\<exists>files'. fold_res (applyDecision decisions) es files = Inr files' \<and> dom (map_of files') = dom (map_of files)
    \<and> (\<forall>name. bytesOf files' name
          = fold effectBytes (filter (\<lambda>e. effectFile e = name) (survivors decisions es)) (bytesOf files name))"
  using assms
proof (induction es arbitrary: files)
  case (Cons e es)
  then obtain next_files where first: "applyDecision decisions e files = Inr next_files"
    "dom (map_of next_files) = dom (map_of files)"
    "\<And>name. bytesOf next_files name =
       fold effectBytes (filter (\<lambda>e. effectFile e = name) (survivor (decisions (effectId e)) e)) (bytesOf files name)"
    using applyDecision_ok [of e decisions files] by (metis insert_absorb list.set_intros(1) subset_antisym)
  with Cons.IH [of next_files] Cons.prems show ?case by auto
qed simp

lemma apply_decisions_bad:
  assumes "\<forall>e \<in> set es. effect_safe e" and "\<exists>e \<in> set es. \<not> decision_ok (decisions (effectId e)) e"
  shows "fold_res (applyDecision decisions) es files = Inl TypeError"
  using assms
proof (induction es arbitrary: files)
  case (Cons e es)
  show ?case
  proof (cases "decision_ok (decisions (effectId e)) e")
    case True
    then show ?thesis using applyDecision_ok [of e decisions files] Cons by auto
  qed (use Cons.prems applyDecision_bad in simp)
qed simp

lemma durable_files:
  "map_of (map (\<lambda>(name, img). (name, f img)) files) name = map_option f (map_of files name)"
  by (induction files) auto

lemma terminate_ok:
  assumes inv: "port_inv port" and ok: "\<forall>e \<in> set (effects port). decision_ok (decisions (effectId e)) e"
  shows "\<exists>q. terminate decisions port = (Inr (), q) \<and> port_inv q \<and> effects q = [] \<and> openFiles q = []
    \<and> epoch q = epoch port + 1
    \<and> (\<forall>name. present q name = present port name \<and> volatileBytes name q = durableBytes name q
        \<and> durableBytes name q = fold effectBytes (filter (\<lambda>e. effectFile e = name) (survivors decisions (effects port)))
            (durableBytes name port))"
proof -
  let ?files = "map (\<lambda>(name, img). (name, imageBytes img)) (durable port)"
  have there: "effectFile e \<in> dom (map_of ?files)" if "e \<in> set (effects port)" for e
    using port_invD(5) [OF inv that] port_invD(3) [OF inv, of "effectFile e"] by (auto simp: durable_files)
  then obtain files where files: "fold_res (applyDecision decisions) (effects port) ?files = Inr files"
    "dom (map_of files) = dom (map_of ?files)"
    "\<And>name. bytesOf files name
       = fold effectBytes (filter (\<lambda>e. effectFile e = name) (survivors decisions (effects port))) (bytesOf ?files name)"
    using apply_decisions [of "effects port" decisions ?files] port_invD(5) [OF inv] ok by blast
  define q where "q = snd (terminate decisions port)"
  have q: "terminate decisions port = (Inr (), q)" "effects q = []" "openFiles q = []" "epoch q = epoch port + 1"
    "durable q = map (\<lambda>(name, source). (name, cloneImage source)) files" "volatile q = durable q"
    by (simp_all add: q_def terminate_def files(1) Let_def)
  have image: "imageOf (durable q) name = (if map_of files name = None then emptyImage else cloneImage (bytesOf files name))" for name
    by (simp add: q imageOf_def durable_files bytesOf_def split: option.split)
  have bytes: "imageBytes (imageOf (durable q) name) = bytesOf files name" for name
    by (simp add: image) (simp add: bytesOf_def)
  have old: "bytesOf ?files name = durableBytes name port" for name
    by (simp add: bytesOf_def durable_files durableBytes_def imageOf_def split: option.split)
  have "map_of files name \<noteq> None \<longleftrightarrow> map_of (durable port) name \<noteq> None" for name
    using files(2) by (auto simp: durable_files dom_def set_eq_iff)
  with port_invD(3) [OF inv] have there': "present q name = present port name" for name
    by (simp add: present_def q durable_files)
  have "port_inv q"
    by (rule port_invI) (simp_all add: q(2,3) volatileBytes_def durableBytes_def pending_def image present_def
        q(6))
  with q there' bytes files(3) old show ?thesis
    by (auto simp: volatileBytes_def durableBytes_def)
qed

lemma terminate_bad:
  assumes inv: "port_inv port" and bad: "\<not> (\<forall>e \<in> set (effects port). decision_ok (decisions (effectId e)) e)"
  shows "terminate decisions port = (Inl TypeError, port)"
  using apply_decisions_bad [of "effects port" decisions] port_invD(5) [OF inv] bad
  by (auto simp: terminate_def)

text \<open>Deciding for all effects, or for none.\<close>

lemma survivors_all: "survivors (\<lambda>_. Some Full) es = es"
  by (induction es) simp_all

lemma survivors_none: "survivors (\<lambda>_. None) es = []"
  by (induction es) simp_all


section \<open>Sessions\<close>

text \<open>Everything a client can do with the port and the handles it was given, in any order.\<close>

datatype HandleCall = CallGetSize | CallRead int int | CallWrite "byte list" int | CallTruncate int | CallFlush

fun runCall :: "HandleCall \<Rightarrow> string \<Rightarrow> OwnedFileName \<Rightarrow> MemoryPort \<Rightarrow> unit res \<times> MemoryPort" where
  "runCall CallGetSize label name port = map_prod (map_sum id (\<lambda>_. ())) id (handleGetSize name label port)"
| "runCall (CallRead room at) label name port = map_prod (map_sum id (\<lambda>_. ())) id (handleRead name room at label port)"
| "runCall (CallWrite source at) label name port =
     map_prod (map_sum id (\<lambda>_. ())) id (handleWrite name source at label port)"
| "runCall (CallTruncate n) label name port = handleTruncate name n label port"
| "runCall CallFlush label name port = handleFlush name label port"

inductive session :: "MemoryPort \<Rightarrow> MemoryHandle list \<Rightarrow> bool" where
  fresh: "session newMemoryPort []"
| acquired: "session port hs \<Longrightarrow> acquireFile name label port = (Inr h, port') \<Longrightarrow> session port' (h # hs)"
| refused: "session port hs \<Longrightarrow> acquireFile name label port = (Inl e, port') \<Longrightarrow> session port' hs"
| called: "session port hs \<Longrightarrow> h \<in> set hs \<Longrightarrow> session (snd (throughHandle (runCall call label) h port)) hs"
| closed: "session port (before @ h # after) \<Longrightarrow> closeHandle h port = (h', port') \<Longrightarrow> session port' (before @ h' # after)"
| enumerated: "session port hs \<Longrightarrow> session (snd (enumerate cmp label port)) hs"
| entry: "session port hs \<Longrightarrow> session (snd (injectEntry entry kind port)) hs"
| faulted: "session port hs \<Longrightarrow> session (snd (injectFault fault port)) hs"
| crashed: "session port hs \<Longrightarrow> session (snd (terminate decisions port)) hs"
| cleared: "session port hs \<Longrightarrow> session (clearObservedOperations port) hs"

definition usable :: "MemoryPort \<Rightarrow> MemoryHandle \<Rightarrow> bool" where
  "usable port h \<longleftrightarrow> assertOpen h port = Inr ()"

lemma usable_iff: "usable port h \<longleftrightarrow> \<not> handleClosed h \<and> handleEpoch h = epoch port"
  by (simp add: usable_def assertOpen_def)

definition session_inv :: "MemoryPort \<Rightarrow> MemoryHandle list \<Rightarrow> bool" where
  "session_inv port hs \<longleftrightarrow> port_inv port \<and> (\<forall>h \<in> set hs. handleEpoch h \<le> epoch port)
     \<and> distinct (openFiles port) \<and> distinct (map handleName (filter (usable port) hs))
     \<and> set (openFiles port) = handleName ` set (filter (usable port) hs)"

lemma session_inv_frame:
  "session_inv port hs \<Longrightarrow> port_inv q \<Longrightarrow> openFiles q = openFiles port \<Longrightarrow> epoch q = epoch port \<Longrightarrow> session_inv q hs"
  by (simp add: session_inv_def usable_iff [abs_def])

definition keeps :: "MemoryPort \<Rightarrow> MemoryPort \<Rightarrow> bool" where
  "keeps port q \<longleftrightarrow> openFiles q = openFiles port \<and> epoch q = epoch port"

lemma keeps_simps [simp]:
  "keeps port port" "keeps port (q\<lparr>faults := fs\<rparr>) = keeps port q" "keeps port (q\<lparr>operations := ops\<rparr>) = keeps port q"
  "keeps port (q\<lparr>volatile := fl\<rparr>) = keeps port q" "keeps port (q\<lparr>durable := fl\<rparr>) = keeps port q"
  "keeps port (q\<lparr>effects := es\<rparr>) = keeps port q" "keeps port (q\<lparr>nextEffectId := n\<rparr>) = keeps port q"
  "keeps port (q\<lparr>entryKinds := ks\<rparr>) = keeps port q"
  "keeps port (noteCopied k q) = keeps port q" "keeps port (recordOperation operation f label q) = keeps port q"
  by (simp_all add: keeps_def noteCopied_def recordOperation_def)

lemma session_inv_keeps: "session_inv port hs \<Longrightarrow> (port_inv port \<Longrightarrow> port_inv q) \<Longrightarrow> keeps port q \<Longrightarrow> session_inv q hs"
  by (auto simp: keeps_def session_inv_def usable_iff [abs_def])

lemma keeps_takeFault [simp]: "keeps port (snd (takeFault operation f label q)) = keeps port q"
  using takeFault_frame keeps_simps(2) by metis

lemma keeps_startOperation [simp]: "keeps port (snd (startOperation operation f label q)) = keeps port q"
  by (simp add: startOperation_def)

lemma keeps_recordWrite [simp]: "keeps port (snd (recordWrite name at source q)) = keeps port q"
  by (simp add: recordWrite_def split: sum.split)

lemma keeps_makeDurable [simp]: "keeps port (snd (makeDurable name q)) = keeps port q"
  by (simp add: makeDurable_def case_prod_beta)

lemma keeps_runCall: "keeps port (snd (runCall call label name port))"
proof (cases call)
  case (CallWrite source at)
  have "keeps port (snd (if b then recordWrite name n src q else (r, q))) = keeps port q" for b n src q r by simp
  then show ?thesis unfolding CallWrite
    by (simp add: handleWrite_def case_prod_beta Let_def snd_cases split: sum.split del: if_cancel)
qed (simp_all add: handleGetSize_def handleRead_def handleTruncate_def handleFlush_def case_prod_beta Let_def
      split: sum.split)

lemma port_inv_runCall:
  "port_inv port \<Longrightarrow> present port name \<Longrightarrow> port_inv (snd (runCall call label name port))"
  by (cases call) (simp_all add: port_inv_reads port_inv_write port_inv_truncate port_inv_flush)

lemma session_inv_call:
  assumes inv: "session_inv port hs" and "h \<in> set hs"
  shows "session_inv (snd (throughHandle (runCall call label) h port)) hs"
proof (cases "usable port h")
  case True
  then have "present port (handleName h)"
    using inv assms(2) port_invD(7) [of port "handleName h"] by (auto simp: session_inv_def)
  then have "port_inv (snd (runCall call label (handleName h) port))"
    using inv port_inv_runCall by (simp add: session_inv_def)
  with True session_inv_frame [OF inv] keeps_runCall [of port call label "handleName h"] show ?thesis
    by (simp add: throughHandle_def usable_def keeps_def)
next
  case False
  then obtain e where "assertOpen h port = Inl e" by (cases "assertOpen h port") (simp_all add: usable_def)
  with inv show ?thesis by (simp add: throughHandle_def)
qed

lemma session_inv_acquire:
  assumes inv: "session_inv port hs" and acq: "acquireFile name label port = (r, q)"
  shows "session_inv q (case r of Inl _ \<Rightarrow> hs | Inr h \<Rightarrow> h # hs)"
proof (rule acquire_cases [of name label port], goal_cases)
  case (1 e ops fs)
  then show ?case using acq session_inv_frame [OF inv] inv by (auto simp: session_inv_def)
next
  case (2 ops fs)
  then show ?case
    using acq session_inv_frame [OF inv, of q] port_inv_ensure [of "port\<lparr>operations := ops, faults := fs\<rparr>" name] inv
    by (auto simp: session_inv_def)
next
  case (3 ops fs q')
  let ?p = "port\<lparr>operations := ops, faults := fs\<rparr>"
  have ok: "port_inv ?p" using inv by (simp add: session_inv_def)
  have q: "q = q'\<lparr>openFiles := name # openFiles port\<rparr>" "r = Inr \<lparr>handleName = name, handleEpoch = epoch port, handleClosed = False\<rparr>"
    and epoch: "epoch q' = epoch port"
    using 3 acq port_inv_ensure(3,4) [OF ok, of name] by simp_all
  have "port_inv q" using port_inv_open [of q' name] port_inv_ensure [OF ok, of name] 3(1) q(1) by simp
  moreover have "usable q = usable port" using q(1) epoch by (simp add: usable_iff fun_eq_iff)
  moreover have "name \<notin> handleName ` set (filter (usable port) hs)" using 3(2) inv by (simp add: session_inv_def)
  moreover have "usable port \<lparr>handleName = name, handleEpoch = epoch port, handleClosed = False\<rparr>" by (simp add: usable_iff)
  ultimately show ?case using inv 3(2) q epoch by (auto simp: session_inv_def)
qed


lemma session_inv_close:
  assumes inv: "session_inv port (before @ h # after)" and close: "closeHandle h port = (h', q)"
  shows "session_inv q (before @ h' # after)"
proof (cases "usable port h")
  case True
  then have q: "h' = h\<lparr>handleClosed := True\<rparr>" "q = handleClose (handleName h) port"
    using close by (simp_all add: closeHandle_def usable_iff)
  have same: "usable q = usable port" "\<not> usable port h'" by (simp_all add: q usable_iff fun_eq_iff handleClose_def)
  have "handleName h \<notin> handleName ` set (filter (usable port) (before @ after))"
    using inv True by (auto simp: session_inv_def)
  moreover have "port_inv q" using inv by (simp add: session_inv_def q port_inv_close)
  ultimately show ?thesis
    using inv True same by (auto simp: session_inv_def q handleClose_def distinct_removeAll)
next
  case False
  then have "q = port" "\<not> usable port h'" "handleEpoch h' = handleEpoch h"
    using close by (auto simp: closeHandle_def usable_iff split: if_splits)
  with inv False show ?thesis by (simp add: session_inv_def)
qed

lemma session_inv_crash:
  assumes inv: "session_inv port hs"
  shows "session_inv (snd (terminate decisions port)) hs"
proof (cases "\<forall>e \<in> set (effects port). decision_ok (decisions (effectId e)) e")
  case True
  then obtain q where q: "terminate decisions port = (Inr (), q)" "port_inv q" "openFiles q = []" "epoch q = epoch port + 1"
    using terminate_ok [of port decisions] inv by (auto simp: session_inv_def)
  have "\<not> usable q h" if "h \<in> set hs" for h using that inv q(4) by (auto simp: session_inv_def usable_iff)
  then have "filter (usable q) hs = []" by (simp add: filter_empty_conv)
  with q inv show ?thesis by (auto simp: session_inv_def)
next
  case False
  with terminate_bad [of port decisions] inv show ?thesis by (simp add: session_inv_def)
qed

lemma session_invariant: "session port hs \<Longrightarrow> session_inv port hs"
proof (induction rule: session.induct)
  case fresh
  show ?case by (simp add: session_inv_def port_inv_new) (simp add: newMemoryPort_def)
next
  case (acquired port hs name label h port')
  show ?case using session_inv_acquire [OF acquired(3,2)] by simp
next
  case (refused port hs name label e port')
  show ?case using session_inv_acquire [OF refused(3,2)] by simp
next
  case (called port hs h call label)
  then show ?case by (simp add: session_inv_call)
next
  case (closed port before h after h' port')
  from closed(3,2) show ?case by (rule session_inv_close)
next
  case (enumerated port hs cmp label)
  have "keeps port (snd (enumerate cmp label port))" by (simp add: enumerate_def case_prod_beta)
  with session_inv_keeps [OF enumerated(2)] port_inv_reads(3) show ?case by blast
next
  case (entry port hs e kind)
  have "keeps port (snd (injectEntry e kind port))" by (simp add: injectEntry_def Let_def split: sum.split)
  with session_inv_keeps [OF entry(2)] port_inv_injectEntry show ?case by blast
next
  case (faulted port hs fault)
  have "keeps port (snd (injectFault fault port))" by (simp add: injectFault_def)
  with session_inv_keeps [OF faulted(2)] port_inv_injectFault show ?case by blast
next
  case (crashed port hs decisions)
  then show ?case by (simp add: session_inv_crash)
next
  case (cleared port hs)
  have "keeps port (clearObservedOperations port)" "port_inv port \<Longrightarrow> port_inv (clearObservedOperations port)"
    by (simp_all add: clearObservedOperations_def)
  with session_inv_keeps [OF cleared(2)] show ?case by blast
qed

end
