(* ===== verification/MemoryHost.thy ===== *)
theory MemoryHost
  imports StoreBootstrap MemoryDurability
begin

text \<open>
  The in-memory port is a host of the store: with no faults injected and nothing foreign in its
  directory, its operations keep the store's contract.
\<close>

definition memoryOps :: "(string \<Rightarrow> string \<Rightarrow> int) \<Rightarrow> (MemoryPort, MemoryHandle) store_ops" where
  "memoryOps localeCompare = \<lparr>
     opEnumerate = enumerate localeCompare,
     opAcquire = acquireFile,
     opGetSize = (\<lambda>h label. throughHandle (\<lambda>name. handleGetSize name label) h),
     opRead = (\<lambda>h label at room. throughHandle (\<lambda>name. handleRead name room at label) h),
     opWrite = (\<lambda>h label at source. throughHandle (\<lambda>name. handleWrite name source at label) h),
     opTruncate = (\<lambda>h label n. throughHandle (\<lambda>name. handleTruncate name n label) h),
     opFlush = (\<lambda>h label. throughHandle (\<lambda>name. handleFlush name label) h),
     opClose = (\<lambda>h port. (Inr (), snd (closeHandle h port)))\<rparr>"

definition memory_good :: "MemoryPort \<Rightarrow> bool" where
  "memory_good port \<longleftrightarrow> port_inv port \<and> faults port = []
     \<and> (\<forall>entry \<in> set (entryKinds port). \<exists>name. entry = (Inl name, FileEntry))
     \<and> (\<forall>name. int (length (volatileBytes name port)) \<le> MAX_SAFE_INTEGER)"

fun changeOf :: "MemoryEffect \<Rightarrow> change" where
  "changeOf (WriteEffect _ _ at src) = Put (int at) src"
| "changeOf (TruncateEffect _ _ n) = Resize n"

lemma applied_changeOf: "applied (changeOf e) = effectBytes e"
  by (cases e) auto

lemma fold_changes: "fold applied (map changeOf es) f = fold effectBytes es f"
  by (simp add: fold_map comp_def applied_changeOf)

definition memory_view :: "MemoryPort \<Rightarrow> MemoryHandle host_view" where
  "memory_view port = \<lparr>hvFiles = (\<lambda>name. volatileBytes name port), hvDurable = (\<lambda>name. durableBytes name port),
     hvPending = (\<lambda>name. map changeOf (pending name port)),
     hvOpen = set (openFiles port),
     hvValid = (\<lambda>h name. usable port h \<and> handleName h = name \<and> name \<in> set (openFiles port))\<rparr>"

lemma view_memory [simp]:
  "hvFiles (memory_view port) = (\<lambda>name. volatileBytes name port)"
  "hvDurable (memory_view port) = (\<lambda>name. durableBytes name port)"
  "hvPending (memory_view port) = (\<lambda>name. map changeOf (pending name port))"
  "hvOpen (memory_view port) = set (openFiles port)"
  "hvValid (memory_view port) h name \<longleftrightarrow> usable port h \<and> handleName h = name \<and> name \<in> set (openFiles port)"
  by (simp_all add: memory_view_def)

text \<open>Without faults an operation only records itself.\<close>

definition noted :: "OperationRecord list \<Rightarrow> MemoryPort \<Rightarrow> MemoryPort" where
  "noted ops port = port\<lparr>operations := ops\<rparr>"

lemma noted_simps [simp]:
  "memory_good (noted ops port) = memory_good port" "memory_view (noted ops port) = memory_view port"
  "volatile (noted ops port) = volatile port" "durable (noted ops port) = durable port"
  "openFiles (noted ops port) = openFiles port" "epoch (noted ops port) = epoch port"
  "effects (noted ops port) = effects port" "faults (noted ops port) = faults port"
  "entryKinds (noted ops port) = entryKinds port" "nextEffectId (noted ops port) = nextEffectId port"
  "volatileBytes name (noted ops port) = volatileBytes name port" "durableBytes name (noted ops port) = durableBytes name port"
  "port_inv (noted ops port) = port_inv port" "present (noted ops port) name = present port name"
  by (simp_all add: noted_def memory_good_def memory_view_def volatileBytes_def durableBytes_def usable_iff
      present_def pending_def)

lemma start_quiet:
  assumes "faults port = []"
  obtains ops where "startOperation operation f label port = (None, noted ops port)"
  using assms by (auto simp: startOperation_def recordOperation_def takeFault_def noted_def)

lemma through_open: "usable port h \<Longrightarrow> throughHandle operation h port = operation (handleName h) port"
  by (simp add: throughHandle_def usable_def)

lemma open_image:
  assumes "port_inv port" and "name \<in> set (openFiles port)"
  obtains img where "fileImage name port = Inr img" "image_ok img" "imageBytes img = volatileBytes name port"
    "map_of (volatile port) name = Some img" "imageSize img = length (volatileBytes name port)"
proof -
  obtain img where m: "map_of (volatile port) name = Some img"
    using port_invD(7) [OF assms] by (auto simp: present_def)
  then have "image_ok img" using port_invD(2) [OF assms(1), of name] by simp
  moreover from this have "imageSize img = length (volatileBytes name port)" using m by (simp add: volatileBytes_def)
  ultimately show thesis by (intro that [of img]) (use m in \<open>simp_all add: fileImage_def volatileBytes_def\<close>)
qed

lemma range_ok: "0 \<le> at \<Longrightarrow> 0 \<le> len \<Longrightarrow> at + len \<le> MAX_SAFE_INTEGER \<Longrightarrow> validateRange at len = Inr ()"
  by (simp add: validateRange_def isSafeInteger_def MAX_SAFE_INTEGER_def)

lemma memory_size:
  assumes "memory_good port" and "hvValid (memory_view port) h name"
  shows "\<exists>w'. throughHandle (\<lambda>name. handleGetSize name label) h port = (Inr (int (length (volatileBytes name port))), w')
    \<and> memory_good w' \<and> memory_view w' = memory_view port"
proof -
  have good: "port_inv port" "faults port = []" using assms(1) by (simp_all add: memory_good_def)
  obtain ops where "startOperation OpGetSize (Some name) label port = (None, noted ops port)"
    by (rule start_quiet [OF good(2)])
  moreover obtain img where "fileImage name (noted ops port) = Inr img" "imageSize img = length (volatileBytes name port)"
    using open_image [of "noted ops port" name] good assms(2) by auto
  ultimately show ?thesis using assms by (auto simp: through_open handleGetSize_def)
qed

lemma memory_read:
  assumes "memory_good port" and "hvValid (memory_view port) h name" and "0 \<le> at" and "0 < room" and "at + room \<le> MAX_SAFE_INTEGER"
  shows "\<exists>w'. throughHandle (\<lambda>name. handleRead name room at label) h port
      = (let n = max 0 (min room (int (length (volatileBytes name port)) - at))
         in Inr (n, take (nat n) (drop (nat at) (volatileBytes name port))), w')
    \<and> memory_good w' \<and> memory_view w' = memory_view port"
proof -
  have good: "port_inv port" "faults port = []" using assms(1) by (simp_all add: memory_good_def)
  obtain ops where "startOperation OpRead (Some name) label port = (None, noted ops port)"
    by (rule start_quiet [OF good(2)])
  moreover obtain img where "fileImage name (noted ops port) = Inr img" "imageSize img = length (volatileBytes name port)"
    "imageBytes img = volatileBytes name port"
    using open_image [of "noted ops port" name] good assms(2) by auto
  ultimately show ?thesis using assms range_ok [of at room]
    by (auto simp: through_open handleRead_def outcomeIs_def Let_def)
qed


text \<open>A recorded effect changes the volatile bytes of one file.\<close>

lemma recorded_view:
  assumes good: "memory_good port" and img: "map_of (volatile port) name = Some img" and "image_ok img"
    and eff: "effectFile effect = name" "effectId effect = nextEffectId port" "effect_safe effect"
    and small: "int (length (effectBytes effect (volatileBytes name port))) \<le> MAX_SAFE_INTEGER"
  shows "memory_good (port\<lparr>volatile := AList.update name (redoEffect effect img) (volatile port),
      effects := effects port @ [effect], nextEffectId := nextEffectId port + 1\<rparr>)" (is "memory_good ?q")
    and "memory_view (port\<lparr>volatile := AList.update name (redoEffect effect img) (volatile port),
      effects := effects port @ [effect], nextEffectId := nextEffectId port + 1\<rparr>)
      = changeFile name (changeOf effect) (memory_view port)"
proof -
  have "imageBytes (redoEffect effect img) = effectBytes effect (volatileBytes name port)"
    using redo_effect [OF assms(3)] img by (simp add: volatileBytes_def)
  then have files: "volatileBytes other ?q = (if other = name then effectBytes effect (volatileBytes name port)
      else volatileBytes other port)" for other
    by (simp add: volatileBytes_def)
  have "port_inv ?q" using good port_inv_record [OF _ img eff] by (simp add: memory_good_def)
  with files good small show "memory_good ?q" by (simp add: memory_good_def)
  show "memory_view ?q = changeFile name (changeOf effect) (memory_view port)"
    using files eff(1) by (auto simp: memory_view_def changeFile_def fun_eq_iff durableBytes_def usable_iff applied_changeOf
        pending_def)
qed

lemma putBytes_length: "0 \<le> at \<Longrightarrow> int (length (putBytes at src f)) = max (int (length f)) (at + int (length src))"
  by (simp add: putBytes_def Let_def)

lemma memory_write:
  assumes "memory_good port" and "hvValid (memory_view port) h name" and "0 \<le> at" and "src \<noteq> []"
    and "at + int (length src) \<le> MAX_SAFE_INTEGER"
  shows "\<exists>w'. throughHandle (\<lambda>name. handleWrite name src at label) h port = (Inr (int (length src)), w') \<and> memory_good w'
    \<and> memory_view w' = changeFile name (Put at src) (memory_view port)"
proof -
  have good: "port_inv port" "faults port = []" using assms(1) by (simp_all add: memory_good_def)
  obtain ops where start: "startOperation OpWrite (Some name) label port = (None, noted ops port)"
    by (rule start_quiet [OF good(2)])
  let ?p = "noted ops port" and ?e = "WriteEffect (nextEffectId port) name (nat at) src"
  obtain img where img: "fileImage name ?p = Inr img" "image_ok img" "map_of (volatile ?p) name = Some img"
    using open_image [of ?p name] good assms(2) by auto
  have small: "int (length (effectBytes ?e (volatileBytes name ?p))) \<le> MAX_SAFE_INTEGER"
    using assms(1,3,5) putBytes_length [of at src "volatileBytes name port"] by (simp add: memory_good_def)
  have safe: "effect_safe ?e" using assms(3-5) by (simp add: isSafeInteger_def MAX_SAFE_INTEGER_def)
  note q = recorded_view [OF _ img(3,2) _ _ safe small]
  have "throughHandle (\<lambda>name. handleWrite name src at label) h port
      = (Inr (int (length src)), ?p\<lparr>volatile := AList.update name (redoEffect ?e img) (volatile ?p),
          effects := effects ?p @ [?e], nextEffectId := nextEffectId ?p + 1\<rparr>)"
    using assms(2-5) range_ok [of at "int (length src)"] img(1)
    by (simp add: through_open handleWrite_def start outcomeIs_def recordWrite_def Let_def)
  with q assms(1,3) show ?thesis by simp
qed

lemma memory_truncate:
  assumes "memory_good port" and "hvValid (memory_view port) h name" and "0 \<le> n" and "n \<le> MAX_SAFE_INTEGER"
  shows "\<exists>w'. throughHandle (\<lambda>name. handleTruncate name n label) h port = (Inr (), w') \<and> memory_good w'
    \<and> memory_view w' = changeFile name (Resize (nat n)) (memory_view port)"
proof -
  have good: "port_inv port" "faults port = []" using assms(1) by (simp_all add: memory_good_def)
  obtain ops where start: "startOperation OpTruncate (Some name) label port = (None, noted ops port)"
    by (rule start_quiet [OF good(2)])
  let ?p = "noted ops port" and ?e = "TruncateEffect (nextEffectId port) name (nat n)"
  obtain img where img: "fileImage name ?p = Inr img" "image_ok img" "map_of (volatile ?p) name = Some img"
    using open_image [of ?p name] good assms(2) by auto
  have small: "int (length (effectBytes ?e (volatileBytes name ?p))) \<le> MAX_SAFE_INTEGER"
    using assms(3,4) by (simp add: resized_def)
  have safe: "effect_safe ?e" using assms(3,4) by (simp add: isSafeInteger_def MAX_SAFE_INTEGER_def)
  note q = recorded_view [OF _ img(3,2) _ _ safe small]
  have "throughHandle (\<lambda>name. handleTruncate name n label) h port
      = (Inr (), ?p\<lparr>volatile := AList.update name (redoEffect ?e img) (volatile ?p),
          effects := effects ?p @ [?e], nextEffectId := nextEffectId ?p + 1\<rparr>)"
    using assms(2-4) range_ok [of n 0] img(1)
    by (simp add: through_open handleTruncate_def start outcomeIs_def Let_def)
  with q assms(1) show ?thesis by simp
qed

lemma noteCopied_noted: "\<exists>ops. noteCopied n port = noted ops port"
  by (simp add: noteCopied_def noted_def) blast

lemma memory_flush:
  assumes "memory_good port" and "hvValid (memory_view port) h name"
  shows "\<exists>w'. throughHandle (\<lambda>name. handleFlush name label) h port = (Inr (), w') \<and> memory_good w'
    \<and> memory_view w' = keepFile name (memory_view port)"
proof -
  have good: "port_inv port" "faults port = []" using assms(1) by (simp_all add: memory_good_def)
  obtain ops where start: "takeFault OpFlush (Some name) label (noteCopied 0 (recordOperation OpFlush (Some name) label port))
      = (None, noted ops port)"
    using good(2) by (auto simp: takeFault_def noteCopied_def recordOperation_def noted_def)
  let ?p = "noted ops port" and ?q = "snd (makeDurable name (noted ops port))"
  have there: "present ?p name" using port_invD(7) [OF good(1)] assms(2) by simp
  have inv: "port_inv ?p" using good(1) by simp
  note parts = makeDurable_parts [OF inv, of name]
  have q: "volatileBytes other ?q = volatileBytes other port"
    "durableBytes other ?q = (if other = name then volatileBytes name port else durableBytes other port)" for other
    using parts(3) by (simp_all add: parts(1) volatileBytes_def durableBytes_def)
  have p: "pending other ?q = (if other = name then [] else pending other port)" for other
    by (simp add: parts(1) pending_def) (simp add: pending_other)
  have "memory_good ?q" using port_inv_durable [OF inv there] assms(1) q(1)
    by (simp add: memory_good_def) (simp add: parts(1))
  moreover have "memory_view ?q = keepFile name (memory_view port)"
    using q p by (auto simp: memory_view_def keepFile_def fun_eq_iff usable_iff) (simp_all add: parts(1))
  moreover have "\<exists>ops'. throughHandle (\<lambda>name. handleFlush name label) h port = (Inr (), noted ops' ?q)"
    using assms(2) noteCopied_noted [of _ ?q] by (simp add: through_open handleFlush_def start outcomeIs_def Let_def case_prod_beta)
  ultimately show ?thesis by fastforce
qed

lemma memory_enumerate:
  assumes "memory_good port"
  shows "\<exists>entries w'. enumerate cmp label port = (Inr entries, w') \<and> memory_good w' \<and> memory_view w' = memory_view port
    \<and> (\<forall>entry \<in> set entries. \<exists>name. entry = (Inl name, FileEntry))"
proof -
  have "faults port = []" using assms by (simp add: memory_good_def)
  then obtain ops where "startOperation OpEnumerate None label port = (None, noted ops port)" by (rule start_quiet)
  moreover have "set (sortBy c xs) = set xs" for c and xs :: "((OwnedFileName + string) \<times> EntryKind) list"
    by (metis mset_sortBy set_mset_mset)
  ultimately show ?thesis using assms by (simp add: enumerate_def) (simp add: memory_good_def)
qed

lemma in_updated: "p \<in> set (AList.update k v m) \<Longrightarrow> p = (k, v) \<or> p \<in> set m"
  by (induction m) (auto split: if_splits)

lemma memory_acquire:
  assumes good: "memory_good port" and free: "name \<notin> hvOpen (memory_view port)"
  shows "\<exists>h w'. acquireFile name label port = (Inr h, w') \<and> memory_good w'
    \<and> hvFiles (memory_view w') = hvFiles (memory_view port) \<and> hvDurable (memory_view w') = hvDurable (memory_view port)
    \<and> hvPending (memory_view w') = hvPending (memory_view port)
    \<and> hvOpen (memory_view w') = insert name (hvOpen (memory_view port)) \<and> hvValid (memory_view w') h name
    \<and> (\<forall>h' other. hvValid (memory_view port) h' other \<longrightarrow> hvValid (memory_view w') h' other)"
proof -
  have inv: "port_inv port" "faults port = []" using good by (simp_all add: memory_good_def)
  obtain ops where start: "startOperation OpAcquire (Some name) label port = (None, noted ops port)"
    by (rule start_quiet [OF inv(2)])
  have kind: "map_of (entryKinds port) (Inl name) \<noteq> Some DirectoryEntry"
    using good by (force simp: memory_good_def dest: map_of_SomeD)
  let ?q = "ensureFile name (noted ops port)"
  let ?w = "?q\<lparr>openFiles := name # openFiles ?q\<rparr>"
  have acq: "acquireFile name label port = (Inr \<lparr>handleName = name, handleEpoch = epoch ?q, handleClosed = False\<rparr>, ?w)"
    using free kind by (simp add: acquireFile_def start outcomeIs_def Let_def ensureFile_def)
  note q = port_inv_ensure [of "noted ops port" name]
  have files: "volatileBytes other ?w = volatileBytes other port" "durableBytes other ?w = durableBytes other port" for other
    using port_invD(3) [OF inv(1), of name]
    by (auto simp: ensureFile_def volatileBytes_def durableBytes_def present_def imageOf_def)
  have pend: "pending other ?w = pending other port" for other
    by (simp add: pending_def ensureFile_def)
  have "\<forall>entry \<in> set (entryKinds ?w). \<exists>n. entry = (Inl n, FileEntry)"
    using good by (auto simp: ensureFile_def memory_good_def dest: in_updated)
  then have "memory_good ?w"
    using q inv port_inv_open [of ?q name] files good by (simp add: memory_good_def) (simp add: ensureFile_def)
  with acq files pend q inv show ?thesis by (auto simp: usable_iff fun_eq_iff)
qed

interpretation memory: store_host "memoryOps cmp" memory_good memory_view for cmp
proof (unfold_locales, goal_cases)
  case (1 w name)
  then show ?case by (simp add: memory_good_def)
next
  case (2 w name)
  then show ?case using port_invD(4) by (simp add: memory_good_def fold_changes)
next
  case (3 w label)
  then show ?case using memory_enumerate [of w cmp label] by (simp add: memoryOps_def)
next
  case (4 w name label)
  then show ?case using memory_acquire [of w name label] by (simp add: memoryOps_def)
next
  case (5 w h name label)
  then show ?case using memory_size [of w h name label] by (simp add: memoryOps_def)
next
  case (6 w h name at room label)
  then obtain w' where w': "opRead (memoryOps cmp) h label at room w = (Inr (min room (int (length (volatileBytes name w)) - at),
      take (nat (min room (int (length (volatileBytes name w)) - at))) (drop (nat at) (volatileBytes name w))), w')"
    "memory_good w'" "memory_view w' = memory_view w"
    using memory_read [of w h name at room label] by (auto simp: memoryOps_def Let_def max_def min_def split: if_splits)
  let ?n = "nat (min room (int (length (volatileBytes name w)) - at))"
  have "0 < ?n" "int ?n = min room (int (length (volatileBytes name w)) - at)" "nat at + ?n \<le> length (volatileBytes name w)"
    using 6 by (auto simp: min_def)
  with w' show ?case by (intro exI [of _ ?n] exI [of _ w']) simp
next
  case (7 w h name room at label)
  then show ?case using memory_read [of w h name at room label] by (auto simp: memoryOps_def Let_def)
next
  case (8 w h name at src label)
  then show ?case using memory_write [of w h name at src label] by (simp add: memoryOps_def)
next
  case (9 w h name n label)
  then show ?case using memory_truncate [of w h name n label] by (simp add: memoryOps_def)
next
  case (10 w h name label)
  then show ?case using memory_flush [of w h name label] by (simp add: memoryOps_def)
qed

section \<open>Crashes\<close>

text \<open>
  A crash of the port that its caller's decisions allow leaves a crash image, closed, with nothing
  pending.
\<close>

lemma survivor_outcome:
  assumes "decision_ok d e" and "effect_safe e"
  shows "fold effectBytes (survivor d e) f \<in> outcomes (changeOf e) f"
proof (cases e)
  case (WriteEffect i name at source)
  then show ?thesis
  proof (cases d)
    case (Some dec)
    have some: "\<exists>n. putBytes (int at) source f = putBytes (int at) (take n source) f \<and> 0 < n \<and> n \<le> length source"
      if "source \<noteq> []"
      using that by (intro exI [of _ "length source"]) simp
    with Some WriteEffect assms show ?thesis
      by (cases dec) (auto simp: nat_le_iff intro!: exI [of _ "nat n" for n])
  qed simp
next
  case (TruncateEffect i name n)
  with assms show ?thesis by (cases "(d, e)" rule: survivor.cases) auto
qed

lemma survivors_crash:
  "\<forall>e \<in> set es. decision_ok (decisions (effectId e)) e \<and> effect_safe e \<Longrightarrow>
     fold effectBytes (survivors decisions es) f \<in> crashes (map changeOf es) f"
proof (induction es arbitrary: f)
  case (Cons e es)
  then show ?case using survivor_outcome [of "decisions (effectId e)" e f] by auto
qed simp

lemma survivors_of_file:
  "filter (\<lambda>e. effectFile e = name) (survivors decisions es) = survivors decisions (filter (\<lambda>e. effectFile e = name) es)"
proof (induction es)
  case (Cons e es)
  have "\<forall>s \<in> set (survivor (decisions (effectId e)) e). effectFile s = effectFile e"
    by (cases "(decisions (effectId e), e)" rule: survivor.cases) auto
  with Cons show ?case by (auto simp: filter_id_conv filter_empty_conv)
qed simp

lemma terminate_image:
  assumes good: "memory_good port" and t: "terminate decisions port = (Inr (), q)"
  shows "crash_image (memory_view port) (\<lambda>name. volatileBytes name q) \<and> port_inv q \<and> effects q = [] \<and> openFiles q = []
    \<and> (\<forall>name. volatileBytes name q = durableBytes name q)"
proof -
  have inv: "port_inv port" using good by (simp add: memory_good_def)
  have ok: "\<forall>e \<in> set (effects port). decision_ok (decisions (effectId e)) e"
    using terminate_bad [OF inv, of decisions] t by auto
  from terminate_ok [OF inv ok] t have q: "port_inv q" "effects q = []" "openFiles q = []"
    "\<And>name. volatileBytes name q = durableBytes name q"
    "\<And>name. durableBytes name q = fold effectBytes (filter (\<lambda>e. effectFile e = name) (survivors decisions (effects port)))
            (durableBytes name port)" by auto
  have "durableBytes name q \<in> crashes (map changeOf (pending name port)) (durableBytes name port)" for name
    unfolding q(5) survivors_of_file pending_def
    by (rule survivors_crash) (use ok port_invD(5) [OF inv] in auto)
  with q(1-4) show ?thesis by (simp add: crash_image_def)
qed

lemma terminate_crashes:
  assumes good: "memory_good port" and t: "terminate decisions port = (Inr (), q)"
    and small: "\<forall>name. int (length (volatileBytes name q)) \<le> MAX_SAFE_INTEGER"
  shows "memory_good q" and "crash_image (memory_view port) (\<lambda>name. volatileBytes name q)" and "hvOpen (memory_view q) = {}"
    and "hvDurable (memory_view q) = hvFiles (memory_view q)" and "hvPending (memory_view q) = (\<lambda>_. [])"
proof -
  note q = terminate_image [OF good t]
  have frame: "faults q = [] \<and> entryKinds q = entryKinds port"
    using t by (auto simp: terminate_def Let_def split: sum.splits)
  show "memory_good q" using good q small frame by (simp add: memory_good_def)
  show "crash_image (memory_view port) (\<lambda>name. volatileBytes name q)" using q by blast
  show "hvOpen (memory_view q) = {}" "hvDurable (memory_view q) = hvFiles (memory_view q)"
    "hvPending (memory_view q) = (\<lambda>_. [])"
    using q by (simp_all add: pending_def fun_eq_iff)
qed

end
