(* ===== verification/CodecProperties.thy ===== *)
theory CodecProperties
  imports MemoryHost Scenario
begin

text \<open>
  The properties of the on-disk format: every block of the store is read back as what was written,
  nothing else is accepted, and damage is noticed.
\<close>

lemma encodeActivationSlot_iff: "encodeActivationSlot r = Inr buf \<longleftrightarrow> slot_fits r \<and> buf = encSlot r"
proof -
  have "slot_fits r" if "encodeActivationSlot r = Inr buf"
    using that by (auto simp: encodeActivationSlot_def Let_def ebind_eq_Inr checkedU64_Inr u64_fits slot_fits_def
        METADATA_HEADER_BYTES_def fits_def [of 4] split: if_splits)
  with encodeActivationSlot_ok [of r] show ?thesis by auto
qed

lemma demo_names: "names_encodable demo5"
proof -
  have "list_all (\<lambda>inode. list_all bom_free (keys_of (children (snd inode)))) (inodes demo5)" by code_simp
  then show ?thesis unfolding names_encodable_def list_all_iff by (metis map_of_SomeD snd_conv)
qed

text \<open>
  C26. A metadata base round-trips: for every reachable state whose names start with no byte order mark,
  \<open>encodeMetadataBase\<close> succeeds and \<open>decodeMetadataBase\<close> returns the same file system (the same inodes,
  children, owners, free and quarantined extents, in a canonical order), with its exact length and digest.
\<close>

theorem metadata_base_roundtrip:
  assumes "reachable st" and "names_encodable st"
  shows "\<exists>buf base. encodeMetadataBase st = Inr buf \<and> decodeMetadataBase buf = Inr base
    \<and> same_state st (decodedState base) \<and> decodedPayloadBytes base = basePayloadBytes st
    \<and> decodedBaseEnd base = int (length buf) \<and> decodedBaseDigest base = metadataBaseDigest buf"
  using encodeMetadataBase_ok [OF reachable_vfs [OF assms(1)] reachable_paths [OF assms(1)] assms(2)]
    decodeMetadataBase_enc [OF reachable_vfs [OF assms(1)] assms(2) reachable_paths [OF assms(1)]]
    length_encBase [OF reachable_vfs [OF assms(1)] assms(2)]
    same_decoded [OF reachable_vfs [OF assms(1)] assms(2)]
  by (simp add: decodedBase_def metadataBaseDigest_def)

theorem metadata_base_roundtrip_witness:
  "\<exists>buf base. encodeMetadataBase demo5 = Inr buf \<and> decodeMetadataBase buf = Inr base
     \<and> same_state demo5 (decodedState base)"
  using metadata_base_roundtrip [OF demo_reachable(6) demo_names] by blast

text \<open>
  C27. \<open>decodeTxnFrame\<close> accepts exactly the frames \<open>encodeTxnFrame\<close> writes for records whose fields fit
  their encoding, and returns the frame that was written: nothing that is not canonical is accepted.
\<close>

theorem txn_frame_roundtrip:
  "decodeTxnFrame buf = Inr f \<longleftrightarrow> frame_fits f \<and> encodeTxnFrame f = Inr buf"
  using decodeTxnFrame_iff [of buf f] encodeTxnFrame_ok [of f] by auto

text \<open>
  Activation slots are a bijection: \<open>decodeActivationSlot\<close> returns a record exactly for the bytes
  \<open>encodeActivationSlot\<close> writes for it.
\<close>

lemma activation_slot_roundtrip:
  "decodeActivationSlot buf = Inr r \<longleftrightarrow> encodeActivationSlot r = Inr buf"
  by (simp add: decodeActivationSlot_iff encodeActivationSlot_iff)

text \<open>
  C28. A damaged slot falls back to the other one: whatever single byte of one slot is changed, the
  selection takes the intact slot and reports no other.
\<close>

theorem damaged_slot_falls_back:
  assumes "encodeActivationSlot l = Inr left" and "encodeActivationSlot r = Inr right"
    and "i < length right" and "b \<noteq> right ! i"
  shows "selectActivationPair left (right[i := b]) = Inr (l, None)
    \<and> selectActivationPair (right[i := b]) left = Inr (l, None)"
proof -
  have e: "slot_fits l" "left = encSlot l" "right = encSlot r" using assms(1,2) by (simp_all add: encodeActivationSlot_iff)
  have "decodeActivationSlot (right[i := b]) = Inl CorruptStoreError"
    using decodeActivationSlot_changed [of i b r] assms(3,4) e(3) by simp
  with tryDecode_eqs(1) [OF e(1)] tryDecode_eqs(2) show ?thesis by (simp add: selectActivationPair_def e(2))
qed

theorem damaged_slot_falls_back_witness:
  "\<exists>left right. selectActivationPair left (right[16 := 7]) = Inr (firstRecord 8192, None)"
proof -
  let ?r = "\<lparr>actSequence = 2, actMetadataFile = MetaB, actGeneration = 2, actBaseEnd = 80, actBaseDigest = 0\<rparr>"
  have ext: "extent_size_ok 8192" by (simp add: extent_size_ok_def MIN_EXTENT_BYTES_def MAX_EXTENT_BYTES_def ARENA_HEADER_BYTES_def)
  have fits: "slot_fits (firstRecord 8192)" "slot_fits ?r"
    using first_slot(1) [OF ext] by (simp_all add: slot_fits_def fits_def decodeActivationSlot_iff)
  have leBytes_2: "leBytes 8 2 ! 0 = 2" by code_simp
  have two: "encSlot ?r ! 16 = 2"
    using leBytes_2 by (simp add: encSlot_def seal_def slotHead_def nth_append FORMAT_VERSION_def LIMITS_PROFILE_VERSION_def)
  have "encodeActivationSlot (firstRecord 8192) = Inr (encSlot (firstRecord 8192))"
    "encodeActivationSlot ?r = Inr (encSlot ?r)" using fits by (simp_all add: encodeActivationSlot_iff)
  from damaged_slot_falls_back [OF this, of 16 7] two show ?thesis by auto
qed

end
