(* ===== verification/StoreProperties.thy ===== *)
theory StoreProperties
  imports MemoryHost Scenario
begin

text \<open>
  The properties of the store below the file system: what the memory port keeps across every session
  and every crash, and what opening a store recovers.
\<close>

section \<open>The memory port\<close>

text \<open>
  C29. Whatever a client does with a memory port, in any order and with any faults injected and any
  crashes: the bytes a file shows are its durable bytes with the pending effects applied, in order, and
  every buffer is at least as long as its file.
\<close>

theorem memory_port_is_durable_plus_pending:
  assumes "session port handles"
  shows "volatileBytes name port = fold effectBytes (pending name port) (durableBytes name port)
    \<and> image_ok (imageOf (volatile port) name) \<and> image_ok (imageOf (durable port) name)"
  using session_invariant [OF assms] port_invD [of port] by (simp add: session_inv_def)

text \<open>
  A file has at most one usable handle: of all the handles a session was ever given, those that
  are neither closed nor of an epoch before a crash belong to different files, and they are exactly the
  files the port counts as open.
\<close>

lemma memory_port_handles_exclusive:
  assumes "session port handles"
  shows "distinct (map handleName (filter (usable port) handles))
    \<and> set (openFiles port) = handleName ` set (filter (usable port) handles)
    \<and> openHandleCount port = length (filter (usable port) handles)"
proof -
  have i: "distinct (map handleName (filter (usable port) handles))" "distinct (openFiles port)"
    "set (openFiles port) = handleName ` set (filter (usable port) handles)"
    using session_invariant [OF assms] by (simp_all add: session_inv_def)
  then have "set (openFiles port) = set (map handleName (filter (usable port) handles))" by simp
  from distinct_card [OF i(2)] distinct_card [OF i(1)] this
  have "length (openFiles port) = length (filter (usable port) handles)" by simp
  with i show ?thesis by (simp add: openHandleCount_def)
qed

text \<open>
  C30. A crash keeps of every file its durable bytes and exactly the effects the decisions keep, a write
  perhaps in part, in their order; nothing is pending or open afterwards, and what is visible is
  durable. Decisions no effect can have are refused, without any effect.
\<close>

theorem memory_port_crash:
  assumes "session port handles"
  shows "if \<forall>e \<in> set (effects port). decision_ok (decisions (effectId e)) e
    then \<exists>q. terminate decisions port = (Inr (), q) \<and> effects q = [] \<and> openFiles q = [] \<and> epoch q = epoch port + 1
      \<and> (\<forall>name. volatileBytes name q = durableBytes name q
          \<and> durableBytes name q = fold effectBytes (survivors decisions (pending name port)) (durableBytes name port))
    else terminate decisions port = (Inl TypeError, port)"
proof -
  have inv: "port_inv port" using session_invariant [OF assms] by (simp add: session_inv_def)
  show ?thesis
    using terminate_ok [OF inv, of decisions] terminate_bad [OF inv, of decisions]
    by (auto simp: survivors_of_file pending_def)
qed

definition demoSession :: MemoryPort where
  "demoSession = snd (throughHandle (runCall (CallWrite [1, 2, 3] 1) ''write'')
     \<lparr>handleName = ArenaBin, handleEpoch = 1, handleClosed = False\<rparr> (snd (acquireFile ArenaBin ''acquire'' newMemoryPort)))"

lemma demo_session: "session demoSession [\<lparr>handleName = ArenaBin, handleEpoch = 1, handleClosed = False\<rparr>]"
proof -
  let ?h = "\<lparr>handleName = ArenaBin, handleEpoch = 1, handleClosed = False\<rparr>"
  have "acquireFile ArenaBin ''acquire'' newMemoryPort = (Inr ?h, snd (acquireFile ArenaBin ''acquire'' newMemoryPort))"
    by code_simp
  from called [OF acquired [OF fresh this], of ?h "CallWrite [1, 2, 3] 1" "''write''"] show ?thesis
    by (simp add: demoSession_def)
qed

theorem memory_port_is_durable_plus_pending_witness:
  "volatileBytes ArenaBin demoSession = [0, 1, 2, 3] \<and> durableBytes ArenaBin demoSession = []"
proof -
  have "fold effectBytes (pending ArenaBin demoSession) (durableBytes ArenaBin demoSession) = [0, 1, 2, 3]"
    "durableBytes ArenaBin demoSession = []" by code_simp+
  with memory_port_is_durable_plus_pending [OF demo_session, of ArenaBin] show ?thesis by simp
qed

theorem memory_port_crash_witness:
  "\<exists>q. terminate (\<lambda>_. Some (Prefix 2)) demoSession = (Inr (), q) \<and> volatileBytes ArenaBin q = [0, 1, 2]"
proof -
  have "\<forall>e \<in> set (effects demoSession). decision_ok (Some (Prefix 2)) e" by code_simp
  moreover have "fold effectBytes (survivors (\<lambda>_. Some (Prefix 2)) (pending ArenaBin demoSession))
      (durableBytes ArenaBin demoSession) = [0, 1, 2]" by code_simp
  ultimately show ?thesis using memory_port_crash [OF demo_session, of "\<lambda>_. Some (Prefix 2)"] by auto
qed

section \<open>Opening a store\<close>

lemma memory_good_new: "memory_good newMemoryPort"
  using port_inv_new by (simp add: memory_good_def newMemoryPort_def volatileBytes_def emptyImage_def imageBytes_def
      MAX_SAFE_INTEGER_def)

lemma fresh_crash: "crash_image (freshView ext v) files \<Longrightarrow> hvDurable v MetadataBBin = [] \<Longrightarrow> hvPending v MetadataBBin = []
    \<Longrightarrow> files = freshFiles ext"
proof
  fix name
  assume "crash_image (freshView ext v) files" "hvDurable v MetadataBBin = []" "hvPending v MetadataBBin = []"
  then have "files name \<in> crashes (hvPending (freshView ext v) name) (hvDurable (freshView ext v) name)"
    and v: "hvDurable v MetadataBBin = []" "hvPending v MetadataBBin = []" by (simp_all add: crash_image_def)
  then show "files name = freshFiles ext name"
    by (cases "name = MetadataBBin") (simp_all add: freshView_files freshFiles_def)
qed

lemma crash_image_same: "sameFiles v v' \<Longrightarrow> crash_image v = crash_image v'"
  by (simp add: sameFiles_def crash_image_def fun_eq_iff)

text \<open>
  C31. Opening an empty directory creates a store, durably: the state is the initial one, and after any
  crash, whatever it keeps of the pending effects, opening again recovers that state.
\<close>

theorem open_creates_durable_store:
  assumes "extent_size_ok ext" and "ext = (case configured of None \<Rightarrow> DEFAULT_EXTENT_BYTES | Some c \<Rightarrow> c)"
  shows "\<exists>store port. openMetadataStore (memoryOps cmp) configured newMemoryPort = (Inr store, port)
    \<and> same_state (initialState ext) (storeState store) \<and> createInitialState ext = Inr (initialState ext)
    \<and> (\<forall>decisions q. terminate decisions port = (Inr (), q) \<longrightarrow>
        (\<exists>store' q'. openMetadataStore (memoryOps cmp) configured q = (Inr store', q') \<and> storeState store' = storeState store))"
proof -
  let ?v = "memory_view newMemoryPort"
  have new: "hvOpen ?v = {}" "hvFiles ?v = (\<lambda>_. [])" "hvDurable ?v = (\<lambda>_. [])" "hvPending ?v = (\<lambda>_. [])"
    by (auto simp: newMemoryPort_def volatileBytes_def durableBytes_def emptyImage_def imageBytes_def pending_def)
  obtain handles port where port: "openMetadataStore (memoryOps cmp) configured newMemoryPort = (Inr (freshStore handles ext), port)"
    "memory_good port" "sameFiles (memory_view port) (freshView ext ?v)"
    using memory.open_creates [OF memory_good_new new(1,2) assms(2,1)] by blast
  have again: "\<exists>store' q'. openMetadataStore (memoryOps cmp) configured q = (Inr store', q')
      \<and> storeState store' = storeState (freshStore handles ext)" if t: "terminate decisions port = (Inr (), q)" for decisions q
  proof -
    have files: "(\<lambda>name. volatileBytes name q) = freshFiles ext"
      if "crash_image (memory_view port) (\<lambda>name. volatileBytes name q)"
      using fresh_crash [of ext ?v] that crash_image_same [OF port(3)] fun_cong [OF new(3)] fun_cong [OF new(4)] by simp
    have crash: "crash_image (memory_view port) (\<lambda>name. volatileBytes name q)"
      using terminate_image [OF port(2) t] by blast
    have small: "\<forall>name. int (length (volatileBytes name q)) \<le> MAX_SAFE_INTEGER"
      using fun_cong [OF files [OF crash]] fresh_small [OF assms(1)] by simp
    note q = terminate_crashes [OF port(2) t small]
    have "store_image (hvFiles (memory_view q)) (firstRecord ext) None (initialState ext) [] [] (decodedOf (initialState ext))"
      using fresh_image [OF assms(1)] files [OF crash] by simp
    from memory.open_recovers [OF q(1,3) this, of configured cmp] assms(2) initial_fields(3) [OF assms(1)]
    show ?thesis by (auto simp: freshStore_def recoveredStore_def Let_def split: option.splits)
  qed
  have "same_state (initialState ext) (storeState (freshStore handles ext))"
    using same_decoded [OF initial_ok(1) [OF assms(1)] initial_fields(7) [OF assms(1)]] by (simp add: freshStore_def)
  with port(1) again initial_created [OF assms(1)] show ?thesis by blast
qed

theorem open_creates_durable_store_witness:
  "\<exists>store port. openMetadataStore (memoryOps (\<lambda>_ _. 0)) None newMemoryPort = (Inr store, port)
    \<and> same_state demo0 (storeState store)"
proof -
  have "extent_size_ok 65536" "65536 = (case None of None \<Rightarrow> DEFAULT_EXTENT_BYTES | Some c \<Rightarrow> c)"
    by (simp_all add: extent_size_ok_def MIN_EXTENT_BYTES_def MAX_EXTENT_BYTES_def ARENA_HEADER_BYTES_def DEFAULT_EXTENT_BYTES_def)
  from open_creates_durable_store [OF this, of "\<lambda>_ _. 0"] demo0_init show ?thesis by auto
qed

text \<open>What opening makes of the image of a store.\<close>

lemma recovers_committed_log:
  assumes "memory_good port" and "openFiles port = []"
    and "store_image (\<lambda>name. volatileBytes name port) selected other st records rest final"
    and "configured = None \<or> configured = Some (extentSize st)"
  shows "\<exists>store port'. openMetadataStore (memoryOps cmp) configured port = (Inr store, port')
    \<and> storeState store = final \<and> nextSequence store = 1 + int (length records)
    \<and> activeLogFrames store = int (length records)
    \<and> activeLogEnd store = int (length (encBase st @ logOf (generation st) 1 records))
    \<and> volatileBytes (metadataFileName (activeMetadataFile st)) port' = encBase st @ logOf (generation st) 1 records"
proof -
  have free: "hvOpen (memory_view port) = {}" using assms(2) by simp
  have img: "store_image (hvFiles (memory_view port)) selected other st records rest final" using assms(3) by simp
  obtain handles port' where port': "openMetadataStore (memoryOps cmp) configured port
      = (Inr (recoveredStore handles (int (length (hvFiles (memory_view port) ArenaBin))) selected st records rest final), port')"
    "sameFiles (memory_view port') (recoveredView st records rest final (memory_view port))"
    using memory.open_recovers [OF assms(1) free img assms(4)] by blast
  let ?name = "metadataFileName (activeMetadataFile st)" and ?front = "encBase st @ logOf (generation st) 1 records"
  have "volatileBytes ?name port = ?front @ rest" "?name \<noteq> ArenaBin"
    using assms(3) by (auto simp: store_image_def) (cases "activeMetadataFile st"; simp)
  then have "hvFiles (recoveredView st records rest final (memory_view port)) ?name = ?front"
    by (simp add: recoveredView_def resized_le)
  moreover have "volatileBytes ?name port' = hvFiles (recoveredView st records rest final (memory_view port)) ?name"
    using port'(2) by (auto simp: sameFiles_def dest: fun_cong)
  ultimately show ?thesis using port'(1) by (auto simp: recoveredStore_def Let_def)
qed

text \<open>
  C32. Opening recovers the committed transactions: from a port whose files are the image of a store, a
  base and a log of whole frames followed by anything at which the replay stops, the opened store has
  the state after exactly those frames, continues the log right after them, and discards the rest.
\<close>

theorem open_recovers_committed_log:
  assumes "memory_good port" and "openFiles port = []"
    and "store_image (\<lambda>name. volatileBytes name port) selected other st records rest final"
    and "configured = None \<or> configured = Some (extentSize st)"
  shows "\<exists>store port'. openMetadataStore (memoryOps cmp) configured port = (Inr store, port')
    \<and> storeState store = final \<and> nextSequence store = 1 + int (length records)
    \<and> activeLogFrames store = int (length records)
    \<and> activeLogEnd store = int (length (encBase st @ logOf (generation st) 1 records))
    \<and> volatileBytes (metadataFileName (activeMetadataFile st)) port' = encBase st @ logOf (generation st) 1 records"
  by (rule recovers_committed_log [OF assms])

text \<open>A port that holds given files, durably.\<close>

definition portOf :: "(OwnedFileName \<Rightarrow> byte list) \<Rightarrow> MemoryPort" where
  "portOf files = (let images = map (\<lambda>name. (name, cloneImage (files name))) OWNED_FILE_NAMES in
     newMemoryPort\<lparr>durable := images, volatile := images,
       entryKinds := map (\<lambda>name. (Inl name, FileEntry)) OWNED_FILE_NAMES\<rparr>)"

lemma portOf_bytes [simp]:
  "volatileBytes name (portOf files) = files name" "durableBytes name (portOf files) = files name"
  "openFiles (portOf files) = []" "effects (portOf files) = []"
  by (cases name; simp add: portOf_def Let_def OWNED_FILE_NAMES_def volatileBytes_def durableBytes_def imageOf_def
      imageBytes_def cloneImage_def newMemoryPort_def)+

lemma portOf_good:
  assumes "\<And>name. int (length (files name)) \<le> MAX_SAFE_INTEGER"
  shows "memory_good (portOf files)"
proof -
  have "port_inv (portOf files)"
  proof (rule port_invI, goal_cases)
    case (1 name)
    show ?case by (cases name) (simp_all add: portOf_def Let_def OWNED_FILE_NAMES_def imageOf_def cloneImage_def image_ok_def)
  next
    case (2 name)
    show ?case by (cases name) (simp_all add: portOf_def Let_def OWNED_FILE_NAMES_def imageOf_def cloneImage_def image_ok_def)
  qed (simp_all add: pending_def present_def, simp_all add: portOf_def Let_def)
  moreover have "\<forall>entry \<in> set (entryKinds (portOf files)). \<exists>name. entry = (Inl name, FileEntry)"
    by (auto simp: portOf_def Let_def)
  ultimately show ?thesis using assms by (simp add: memory_good_def) (simp add: portOf_def Let_def newMemoryPort_def)
qed

text \<open>A store of one transaction, with a torn second frame.\<close>

definition demoRecord :: TxnRecord where "demoRecord = CreateDirectories (mkChain 16895 5 1 2 [[97]])"

definition demoFiles :: "TxnRecord list \<Rightarrow> byte list \<Rightarrow> OwnedFileName \<Rightarrow> byte list" where
  "demoFiles records rest = (freshFiles 65536)(MetadataABin := encBase demo0 @ logOf 1 1 records @ rest)"

lemma demo_initial: "initialState 65536 = demo0"
  using demo0_init by (simp add: initialState_def)

lemma demo_decoded: "decodedOf demo0 = demo0"
  by code_simp

lemma demo_ext: "extent_size_ok 65536"
  by (simp add: extent_size_ok_def MIN_EXTENT_BYTES_def MAX_EXTENT_BYTES_def ARENA_HEADER_BYTES_def)

lemma demo_record:
  "applyTxn demo0 demoRecord None = (None, demo1)" "length (encRecord demoRecord) = 52" "name_ok [97]"
  "mkChain 16895 5 1 2 [[97]] = [\<lparr>choiceParentId = 1, choiceName = [97], choiceInodeId = 2, choiceMode = 16895,
     choiceAtimeMs = 5, choiceMtimeMs = 5, choiceCtimeMs = 5\<rparr>]"
  by code_simp+

lemma demo_fields: "generation demo0 = 1" "activeMetadataFile demo0 = MetaA" "extentSize demo0 = 65536"
  by code_simp+

lemma demo_frame_fits: "frame_fits (logFrame 1 1 demoRecord)" "frame_fits (logFrame 1 2 demoRecord)"
  using demo_record(2,3)
  by (simp_all add: frame_fits_def logFrame_def record_fits_def)
   (simp_all add: demoRecord_def demo_record(4) choice_fits_def fits_def MAX_FRAME_PAYLOAD_BYTES_def MAX_INODES_def)

lemma demo_image:
  assumes "stopsHere rest 2 demo1"
  shows "store_image (demoFiles [demoRecord] rest) (firstRecord 65536) None demo0 [demoRecord] rest demo1"
proof -
  note base = fresh_image [OF demo_ext, unfolded demo_initial demo_decoded]
  have bs: "baseState demo0 None = demo0" by (simp add: baseState_def demo_decoded)
  have log: "int (length (logOf 1 1 [demoRecord])) = 100" using demo_record(2) by (simp add: length_encFrame logFrame_def)
  have v: "validateState demo1 = Inr ()" by code_simp
  have c: "committed demo0 [demoRecord] = Some demo1" by (simp add: committed_Cons demo_record(1))
  from base show ?thesis
    using assms log v c bs demo_frame_fits(1)
    by (simp add: store_image_def demoFiles_def MAX_ACTIVE_LOG_FRAMES_def MAX_ACTIVE_LOG_BYTES_def demo_fields)
qed

lemma demoFiles_small: "int (length records) \<le> 1 \<Longrightarrow> length rest \<le> 100 \<Longrightarrow> set records \<subseteq> {demoRecord} \<Longrightarrow>
    int (length (demoFiles records rest name)) \<le> MAX_SAFE_INTEGER"
proof -
  assume r: "int (length records) \<le> 1" "length rest \<le> 100" "set records \<subseteq> {demoRecord}"
  then have "records = [] \<or> records = [demoRecord]" by (cases records) auto
  then have log: "length (logOf 1 1 records) \<le> 100" using demo_record(2) by (auto simp: length_encFrame logFrame_def)
  have "int (length (encBase demo0)) \<le> 80 + MAX_METADATA_BASE_WRITER_BYTES"
    using length_encBase [OF initial_ok(1) [OF demo_ext] initial_fields(7) [OF demo_ext]] vfs_invD(5) [OF initial_ok(1) [OF demo_ext]]
    by (simp add: demo_initial bytes_inv_def)
  with log r(2) fresh_small [OF demo_ext, of name] show ?thesis
    by (simp add: demoFiles_def MAX_METADATA_BASE_WRITER_BYTES_def MAX_SAFE_INTEGER_def)
qed

theorem open_recovers_committed_log_witness:
  "\<exists>store port'. openMetadataStore (memoryOps (\<lambda>_ _. 0)) None
      (portOf (demoFiles [demoRecord] (take 60 (encFrame (logFrame 1 2 demoRecord))))) = (Inr store, port')
    \<and> storeState store = demo1 \<and> nextSequence store = 2"
proof -
  let ?rest = "take 60 (encFrame (logFrame 1 2 demoRecord))"
  have "stopsHere ?rest 2 demo1"
    by (rule torn_stops [OF demo_frame_fits(2)]) (simp add: length_encFrame logFrame_def demo_record(2))
  from demo_image [OF this]
  have "store_image (\<lambda>name. volatileBytes name (portOf (demoFiles [demoRecord] ?rest))) (firstRecord 65536) None demo0
      [demoRecord] ?rest demo1" by simp
  from open_recovers_committed_log [OF portOf_good [OF demoFiles_small] _ this, of None "\<lambda>_ _. 0"]
  show ?thesis by (auto simp: min_le_iff_disj)
qed

text \<open>
  C33. Appending a frame is atomic: if a crash keeps any part of the pending write of one whole frame at
  the end of the log, opening again recovers the state with its transaction when all of the frame is
  there, and the state without it otherwise.
\<close>

theorem torn_append_is_atomic:
  assumes good: "memory_good port"
    and img: "store_image (\<lambda>name. durableBytes name port) selected other st records [] final"
    and eff: "effects port = [WriteEffect i (metadataFileName (activeMetadataFile st))
        (length (encBase st @ logOf (generation st) 1 records)) (encFrame f)]"
    and f: "f = logFrame (generation st) (1 + int (length records)) r" "frame_fits f"
    and step: "applyTxn final r None = (None, final')" "validateState final' = Inr ()"
    and room: "int (length records) < MAX_ACTIVE_LOG_FRAMES"
      "int (length (logOf (generation st) 1 records @ encFrame f)) \<le> MAX_ACTIVE_LOG_BYTES"
    and crash: "terminate decisions port = (Inr (), q)"
  shows "\<exists>store q'. openMetadataStore (memoryOps cmp) None q = (Inr store, q')
    \<and> storeState store = (if decisions i \<in> {Some Full, Some (Prefix (int (length (encFrame f))))} then final' else final)"
proof -
  let ?name = "metadataFileName (activeMetadataFile st)" and ?front = "encBase st @ logOf (generation st) 1 records"
  define k where "k = (case decisions i of Some Full \<Rightarrow> length (encFrame f) | Some (Prefix n) \<Rightarrow> nat n | _ \<Rightarrow> 0)"
  have pend: "pending name port = (if name = ?name then effects port else [])" for name
    by (simp add: pending_def eff)
  have inv: "port_inv port" using good by (simp add: memory_good_def)
  have ok: "decision_ok (decisions i) (WriteEffect i ?name (length ?front) (encFrame f))"
    using crash terminate_bad [OF inv, of decisions] by (auto simp: eff)
  then have k: "k \<le> length (encFrame f)" by (auto simp: k_def nat_le_iff split: option.split TerminationDecision.split)
  have all: "k = length (encFrame f) \<longleftrightarrow> decisions i \<in> {Some Full, Some (Prefix (int (length (encFrame f))))}"
    using ok length_encFrame [of f] by (auto simp: k_def split: option.split TerminationDecision.split)
  have "\<forall>e \<in> set (effects port). decision_ok (decisions (effectId e)) e" using ok by (simp add: eff)
  from terminate_ok [OF inv this] crash
  have left: "volatileBytes name q = fold effectBytes (survivors decisions (pending name port)) (durableBytes name port)" for name
    by (auto simp: survivors_of_file pending_def)
  have files: "volatileBytes name q = (if name = ?name then ?front @ take k (encFrame f) else durableBytes name port)" for name
  proof (cases "name = ?name")
    case True
    have "durableBytes name port = ?front" using img True by (simp add: store_image_def)
    moreover have "survivors decisions (pending name port) =
        (if k = 0 then [] else [WriteEffect i ?name (length ?front) (take k (encFrame f))])"
      using True length_encFrame [of f] by (auto simp: pend eff k_def split: option.split TerminationDecision.split)
    moreover have "putBytes (int (length ?front)) src ?front = ?front @ src" for src
      by (simp add: putBytes_def Let_def)
    ultimately show ?thesis using True left by simp
  qed (use left pend in simp)
  have vol: "(\<lambda>name. volatileBytes name q)
      = (\<lambda>name. durableBytes name port)(?name := durableBytes ?name port @ take k (encFrame f))"
    using files img by (auto simp: store_image_def fun_eq_iff)
  have mem: "memory_good q"
  proof (rule terminate_crashes(1) [OF good crash], rule)
    fix name
    have whole: "volatileBytes name port = (if name = ?name then ?front @ encFrame f else durableBytes name port)"
      using port_invD(4) [OF inv, of name] img by (simp add: pend eff store_image_def putBytes_def Let_def)
    have "length (volatileBytes name q) \<le> length (volatileBytes name port)" by (simp add: files whole)
    moreover have "int (length (volatileBytes name port)) \<le> MAX_SAFE_INTEGER" using good by (simp add: memory_good_def)
    ultimately show "int (length (volatileBytes name q)) \<le> MAX_SAFE_INTEGER" by linarith
  qed
  have next_img: "store_image (\<lambda>name. volatileBytes name q) selected other st (if k = length (encFrame f) then records @ [r] else records)
      (if k = length (encFrame f) then [] else take k (encFrame f)) (if k = length (encFrame f) then final' else final)"
    unfolding vol using store_image_torn [OF img f(2) _ refl] store_image_next [OF img f step room refl] k by auto
  have "openFiles q = []" using terminate_image [OF good crash] by blast
  from recovers_committed_log [OF mem this next_img, of None cmp]
  show ?thesis by (cases "k = length (encFrame f)") (use all in auto)
qed

text \<open>The port of a fresh store with one appended frame that is not flushed.\<close>

definition demoAppended :: MemoryPort where
  "demoAppended = (let files = demoFiles [] []; whole = demoFiles [demoRecord] []; p = portOf files in
     p\<lparr>volatile := volatile (portOf whole), nextEffectId := 2,
       effects := [WriteEffect 1 MetadataABin (length (encBase demo0)) (encFrame (logFrame 1 1 demoRecord))]\<rparr>)"

lemma demoAppended_bytes [simp]:
  "volatileBytes name demoAppended = demoFiles [demoRecord] [] name" "durableBytes name demoAppended = demoFiles [] [] name"
  using portOf_bytes(1) [of name "demoFiles [demoRecord] []"] portOf_bytes(2) [of name "demoFiles [] []"]
  by (simp_all add: demoAppended_def Let_def volatileBytes_def durableBytes_def)

lemma demoAppended_good: "memory_good demoAppended"
proof -
  have img: "image_ok (imageOf (volatile (portOf files)) name)" "image_ok (imageOf (durable (portOf files)) name)"
    "map_of (volatile (portOf files)) name \<noteq> None" "map_of (durable (portOf files)) name \<noteq> None" for files name
    by (cases name; simp add: portOf_def Let_def OWNED_FILE_NAMES_def imageOf_def cloneImage_def image_ok_def)+
  have base: "demoFiles [] [] MetadataABin = encBase demo0" by (simp add: demoFiles_def)
  have "port_inv demoAppended"
  proof (rule port_invI, goal_cases)
    case (4 name)
    show ?case
      using base by (simp add: pending_def) (simp add: demoAppended_def Let_def demoFiles_def putBytes_def)
  next
    case (5 e)
    then have "e = WriteEffect 1 MetadataABin (length (encBase demo0)) (encFrame (logFrame 1 1 demoRecord))"
      by (simp add: demoAppended_def Let_def)
    moreover have "isSafeInteger (int (length (encFrame (logFrame 1 1 demoRecord))))" "encFrame (logFrame 1 1 demoRecord) \<noteq> []"
      using demo_record(2) length_encFrame [of "logFrame 1 1 demoRecord"]
      by (auto simp: isSafeInteger_def MAX_SAFE_INTEGER_def logFrame_def simp flip: length_0_conv)
    ultimately show ?case using img(3) [of "demoFiles [demoRecord] []"] by (simp add: present_def demoAppended_def Let_def)
  qed (use img in \<open>auto simp: demoAppended_def Let_def present_def\<close>)
  moreover have "faults demoAppended = [] \<and> entryKinds demoAppended = map (\<lambda>name. (Inl name, FileEntry)) OWNED_FILE_NAMES"
    by (simp add: demoAppended_def portOf_def Let_def newMemoryPort_def)
  ultimately show ?thesis using demoFiles_small [of "[demoRecord]" "[]"] by (auto simp: memory_good_def)
qed

theorem torn_append_is_atomic_witness:
  "\<exists>q store q'. terminate (\<lambda>_. Some (Prefix 60)) demoAppended = (Inr (), q)
    \<and> openMetadataStore (memoryOps (\<lambda>_ _. 0)) None q = (Inr store, q') \<and> storeState store = demo0"
proof -
  have len: "length (encFrame (logFrame 1 1 demoRecord)) = 100"
    by (simp add: length_encFrame logFrame_def demo_record(2))
  have eff: "effects demoAppended = [WriteEffect 1 (metadataFileName (activeMetadataFile demo0))
      (length (encBase demo0 @ logOf (generation demo0) 1 [])) (encFrame (logFrame (generation demo0) (1 + int (length [])) demoRecord))]"
    by (simp add: demoAppended_def Let_def demo_fields)
  have "demoFiles [] [] = freshFiles 65536" using demo_initial by (simp add: demoFiles_def freshFiles_def fun_eq_iff)
  then have img: "store_image (\<lambda>name. durableBytes name demoAppended) (firstRecord 65536) None demo0 [] [] demo0"
    using fresh_image [OF demo_ext] by (simp add: demo_initial demo_decoded)
  have "port_inv demoAppended" using demoAppended_good by (simp add: memory_good_def)
  moreover have "\<forall>e \<in> set (effects demoAppended). decision_ok (Some (Prefix 60)) e"
    by (simp add: demoAppended_def Let_def len)
  ultimately obtain q where q: "terminate (\<lambda>_. Some (Prefix 60)) demoAppended = (Inr (), q)"
    using terminate_ok [of demoAppended "\<lambda>_. Some (Prefix 60)"] by auto
  have "validateState demo1 = Inr ()" by code_simp
  from torn_append_is_atomic [OF demoAppended_good img eff refl _ demo_record(1) this _ _ q, of "\<lambda>_ _. 0"] q
  show ?thesis by (auto simp: demo_fields demo_frame_fits len MAX_ACTIVE_LOG_FRAMES_def MAX_ACTIVE_LOG_BYTES_def)
qed

end
