(* ===== verification/PlannedRecords.thy ===== *)
theory PlannedRecords
  imports VfsProperties TxnProofs TxnCodec
begin

text \<open>
  Every record a planner returns fits its encoding: the numbers their fields, the lists their bounds, the
  names the components of a path. The one thing a planner does not see to is the byte order mark.
\<close>

section \<open>The names in a record\<close>

definition recordNames :: "TxnRecord \<Rightarrow> js_string list" where
  "recordNames record = (case record of
     CreateDirectories entries \<Rightarrow> map choiceName entries
   | CreateFile choice _ _ \<Rightarrow> [choiceName choice]
   | RemoveFile _ nm _ _ \<Rightarrow> [nm]
   | RemoveDirectory _ nm _ _ \<Rightarrow> [nm]
   | Rename _ sn _ dn _ \<Rightarrow> [sn, dn]
   | CreateSymlink choice _ \<Rightarrow> [choiceName choice]
   | _ \<Rightarrow> [])"

definition choice_shape :: "CreateDirectoryChoice \<Rightarrow> bool" where
  "choice_shape c \<longleftrightarrow> fits 8 (choiceParentId c) \<and> component_ok (choiceName c) \<and> fits 8 (choiceInodeId c)
     \<and> fits 4 (choiceMode c) \<and> fits 8 (choiceAtimeMs c) \<and> fits 8 (choiceMtimeMs c) \<and> fits 8 (choiceCtimeMs c)"

text \<open>\<open>record_fits\<close> but for the byte order marks.\<close>

definition record_shape :: "TxnRecord \<Rightarrow> bool" where
  "record_shape record \<longleftrightarrow>
     (case record of
        CreateDirectories entries \<Rightarrow> entries \<noteq> [] \<and> int (length entries) \<le> MAX_INODES \<and> (\<forall>c\<in>set entries. choice_shape c)
      | CreateFile choice fsize extents \<Rightarrow> choice_shape choice \<and> fits 8 fsize \<and> runs_fit extents
      | RemoveFile parentId nm mtime ctime \<Rightarrow> fits 8 parentId \<and> component_ok nm \<and> fits 8 mtime \<and> fits 8 ctime
      | RemoveDirectory parentId nm mtime ctime \<Rightarrow> fits 8 parentId \<and> component_ok nm \<and> fits 8 mtime \<and> fits 8 ctime
      | ChangeMode iid mode ctime \<Rightarrow> fits 8 iid \<and> fits 4 mode \<and> fits 8 ctime
      | ChangeTimes iid atime mtime ctime \<Rightarrow> fits 8 iid \<and> fits 8 atime \<and> fits 8 mtime \<and> fits 8 ctime
      | ResizeFile operation iid fsize allocated mtime ctime \<Rightarrow>
          fits 8 iid \<and> fits 8 fsize \<and> runs_fit allocated \<and> fits 8 mtime \<and> fits 8 ctime
      | Rename sp sn dp dn timestamp \<Rightarrow>
          fits 8 sp \<and> component_ok sn \<and> fits 8 dp \<and> component_ok dn \<and> fits 8 timestamp
      | CreateSymlink choice target \<Rightarrow> choice_shape choice \<and> symlink_target_ok target
      | ReserveQuarantine extents \<Rightarrow> runs_fit extents)"

lemma record_fits_shape: "record_fits r \<longleftrightarrow> record_shape r \<and> (\<forall>n\<in>set (recordNames r). bom_free n)"
  by (cases r) (auto simp: record_fits_def record_shape_def recordNames_def choice_fits_def choice_shape_def name_ok_def)

section \<open>Planned records\<close>

lemma chosen_runs_fit:
  assumes "alloc_inv (allocator st) fe" "chooseExtents st n = Inr chosen" "toExtentRuns chosen = Inr rs"
  shows "runs_fit rs"
proof -
  note flat = toExtentRuns_flat [OF assms(3)]
  have runs: "run_fits q \<and> runCount q \<noteq> 0 \<and> 0 \<le> runCount q" if "q \<in> set rs" for q
    using flat(2,3) that by (auto simp: run_ok_def run_fits_def fits_def MAX_RUN_def MAX_U64_def)
  then have "(\<Sum>q\<leftarrow>rs. runCount q) = int (length chosen)" using length_flat [of rs] flat(1) by simp
  with runs show ?thesis using chooseExtents_Inr(3,4) [OF assms(2,1)] by (simp add: runs_fit_def)
qed

lemma inode_u64:
  assumes "table_inv st" "imap st k = Some inode"
  shows "fits 8 k" "fits 8 (inodeId inode)"
  using table_invD(3) [OF assms] table_invD(6) [OF assms(1)] inode_id [OF assms]
  by (auto simp: inode_ok_def u64_def u64_fits [symmetric])

lemma mkdirLoop_choices:
  "mkdirLoop st recursive mode now parent nextId entries comps = Inr es \<Longrightarrow> table_inv st \<Longrightarrow> fits 8 (inodeId parent) \<Longrightarrow>
     fits 4 mode \<Longrightarrow> fits 8 now \<Longrightarrow> (\<forall>n\<in>set comps. component_ok n) \<Longrightarrow> (\<forall>c\<in>set entries. choice_shape c) \<Longrightarrow>
     int (length entries) \<le> MAX_INODES \<Longrightarrow> (\<forall>c\<in>set es. choice_shape c) \<and> int (length es) \<le> MAX_INODES"
proof (induction st recursive mode now parent nextId entries comps rule: mkdirLoop.induct)
  case (2 st recursive mode now parent nextId entries name rest)
  show ?case
  proof (cases "map_of (children parent) name")
    case None
    let ?entry = "\<lparr>choiceParentId = inodeId parent, choiceName = name, choiceInodeId = nextId, choiceMode = mode,
      choiceAtimeMs = now, choiceMtimeMs = now, choiceCtimeMs = now\<rparr>"
    let ?created = "\<lparr>inodeId = nextId, imode = mode, atimeMs = now, mtimeMs = now, ctimeMs = now, body = Directory []\<rparr>"
    from "2.prems"(1) None obtain following where n: "\<not> (\<not> recursive \<and> rest \<noteq> [])"
      "\<not> int (length (inodes st)) + int (length entries) \<ge> MAX_INODES" "checkedU64 nextId = Inr nextId"
      "advanceNextInodeId nextId = Inr following"
      "mkdirLoop st recursive mode now ?created following (entries @ [?entry]) rest = Inr es"
      by (auto simp: ebind_eq_Inr Let_def checkedU64_Inr split: if_splits)
    have "fits 8 nextId" using n(3) by (simp add: checkedU64_Inr u64_fits)
    then have "choice_shape ?entry" using "2.prems"(3-6) by (simp add: choice_shape_def)
    with "2.IH"(1) [OF None n(1,2,3,4) refl refl n(5) "2.prems"(2)] "2.prems" n(2) \<open>fits 8 nextId\<close> show ?thesis by simp
  next
    case (Some k)
    then obtain inode where i: "imap st k = Some inode" "isDirectory inode" "rest \<noteq> []"
      "mkdirLoop st recursive mode now inode nextId entries rest = Inr es"
      using "2.prems"(1) by (auto split: option.splits if_splits)
    from "2.IH"(2) [OF Some i(1) _ i(3,4) "2.prems"(2) inode_u64(2) [OF "2.prems"(2) i(1)]] "2.prems" i(2) show ?thesis by simp
  qed
qed simp

lemma planned_shape:
  assumes inv: "vfs_inv st" and plan: "planned st r"
  shows "record_shape r"
proof -
  note v = vfs_invD [OF inv]
  note fit = u64_fits [symmetric]
  have next1: "fits 8 (nextInodeId st)" using table_invD(6) [OF v(1)] by (auto simp: u64_def fit)
  have parent: "component_ok name \<and> fits 8 (inodeId parent)" if "parentAndName st p = Inr (parent, name)" for p parent name
    using parentAndName_Inr [OF v(1), THEN iffD1, OF that] inode_u64(2) [OF v(1)] by (auto simp: path_ok_def)
  have found: "fits 8 (inodeId inode)" if "getInodeAtPath st p = Inr inode" for p inode
    using getInodeAtPath_Inr [OF v(1,2)] that inode_u64(2) [OF v(1)] by auto
  have mode: "mode_ok m \<Longrightarrow> fits 4 m" for m by (simp add: mode_ok_def fits_def)
  have resize: "record_shape r" if given: "planResizeFileForInode st inode stop now operation = Inr r" for inode stop now operation
  proof -
    have k: "imap st (inodeId inode) = Some inode" using given by (auto simp: planResizeFileForInode_def split: if_splits)
    obtain m chosen rs where p: "u64 stop" "u64 now" "chooseExtents st m = Inr chosen" "toExtentRuns chosen = Inr rs"
      "r = ResizeFile operation (inodeId inode) stop rs now now"
      using given unfolding planResizeFileForInode_def
      by (auto simp: res_simps Let_def checkedPlan_Inr validateTimestamp_Inr split: if_splits)
    with chosen_runs_fit [OF v(3) p(3,4)] inode_u64(1) [OF v(1) k] show ?thesis by (simp add: record_shape_def fit)
  qed
  show ?thesis using plan
  proof cases
    case (planned_mkdir p recursive modeOption now)
    obtain root comps es where m: "imap st (rootInodeId st) = Some root" "path_ok comps"
      "mode_ok (case modeOption of None \<Rightarrow> 16895 | Some m \<Rightarrow> m)" "u64 now" "es \<noteq> []" "r = CreateDirectories es"
      "mkdirLoop st recursive (case modeOption of None \<Rightarrow> 16895 | Some m \<Rightarrow> m) now root (nextInodeId st) [] comps = Inr es"
      using planned_mkdir unfolding planMkdir_def by (auto simp: res_simps directoryById_Inr checkedPlan_Inr split: if_splits)
    have "\<forall>n\<in>set comps. component_ok n" using m(2) by (simp add: path_ok_def)
    from mkdirLoop_choices [OF m(7) v(1) inode_u64(2) [OF v(1) m(1)] mode [OF m(3)] _ this] m(4-6) show ?thesis
      by (simp add: record_shape_def fit MAX_INODES_def)
  next
    case (planned_create p modeOption now sizeOption)
    then obtain pd name n chosen rs where c: "parentAndName st p = Inr (pd, name)" "u64 now"
      "mode_ok (case modeOption of None \<Rightarrow> 33206 | Some m \<Rightarrow> m)" "u64 (case sizeOption of None \<Rightarrow> 0 | Some s \<Rightarrow> s)"
      "chooseExtents st n = Inr chosen" "toExtentRuns chosen = Inr rs"
      "r = CreateFile \<lparr>choiceParentId = inodeId pd, choiceName = name, choiceInodeId = nextInodeId st,
         choiceMode = (case modeOption of None \<Rightarrow> 33206 | Some m \<Rightarrow> m), choiceAtimeMs = now, choiceMtimeMs = now,
         choiceCtimeMs = now\<rparr> (case sizeOption of None \<Rightarrow> 0 | Some s \<Rightarrow> s) rs"
      unfolding planCreateFile_def by (auto simp: res_simps checkedPlan_Inr split: if_splits)
    with chosen_runs_fit [OF v(3) c(5,6)] parent [OF c(1)] mode [OF c(3)] next1 show ?thesis
      by (simp add: record_shape_def choice_shape_def fit)
  next
    case (planned_symlink p target modeOption now)
    then obtain pd name where c: "parentAndName st p = Inr (pd, name)" "u64 now" "symlink_target_ok target"
      "mode_ok (case modeOption of None \<Rightarrow> SYMLINK_MODE | Some m \<Rightarrow> m)"
      "r = CreateSymlink \<lparr>choiceParentId = inodeId pd, choiceName = name, choiceInodeId = nextInodeId st,
         choiceMode = (case modeOption of None \<Rightarrow> SYMLINK_MODE | Some m \<Rightarrow> m), choiceAtimeMs = now, choiceMtimeMs = now,
         choiceCtimeMs = now\<rparr> target"
      unfolding planSymlink_def by (auto simp: res_simps checkedPlan_Inr split: if_splits)
    with parent [OF c(1)] mode [OF c(4)] next1 show ?thesis by (simp add: record_shape_def choice_shape_def fit)
  next
    case (planned_unlink p now)
    then obtain pd name where "parentAndName st p = Inr (pd, name)" "u64 now" "r = RemoveFile (inodeId pd) name now now"
      unfolding planUnlink_def by (auto simp: res_simps bind_eq_Some_conv checkedPlan_Inr split: if_splits option.splits)
    with parent show ?thesis by (simp add: record_shape_def fit)
  next
    case (planned_rmdir p now)
    then obtain pd name where "parentAndName st p = Inr (pd, name)" "u64 now" "r = RemoveDirectory (inodeId pd) name now now"
      unfolding planRmdir_def by (auto simp: res_simps bind_eq_Some_conv checkedPlan_Inr split: if_splits option.splits)
    with parent show ?thesis by (simp add: record_shape_def fit)
  next
    case (planned_chmod p m now)
    then obtain inode where c: "getInodeAtPath st p = Inr inode" "mode_ok m" "u64 now" "r = ChangeMode (inodeId inode) m now"
      unfolding planChmod_def by (auto simp: res_simps checkedPlan_Inr)
    with found [OF c(1)] mode [OF c(2)] show ?thesis by (simp add: record_shape_def fit)
  next
    case (planned_utimes p atime mtime ctime)
    then obtain inode where c: "getInodeAtPath st p = Inr inode" "u64 atime" "u64 mtime" "u64 ctime"
      "r = ChangeTimes (inodeId inode) atime mtime ctime"
      unfolding planUtimes_def by (auto simp: res_simps checkedPlan_Inr)
    with found [OF c(1)] show ?thesis by (simp add: record_shape_def fit)
  next
    case (planned_resize p fsize now operation)
    then obtain inode where "(case body inode of File _ _ \<Rightarrow> planResizeFileForInode st inode fsize now operation
        | _ \<Rightarrow> Inl (FsError EISDIR)) = Inr r"
      unfolding planResizeFile_def ebind_eq_Inr by blast
    then have "planResizeFileForInode st inode fsize now operation = Inr r" by (cases "body inode") simp_all
    then show ?thesis by (rule resize)
  next
    case (planned_resize_inode inode fsize now operation old extents)
    from resize [OF planned_resize_inode(1)] show ?thesis .
  next
    case (planned_rename old new now)
    then obtain sd sn dd dn where c: "parentAndName st old = Inr (sd, sn)" "parentAndName st new = Inr (dd, dn)" "u64 now"
      "checkedPlan st (Rename (inodeId sd) sn (inodeId dd) dn now) = Inr r"
      unfolding planRename_def
      by (simp only: ebind_eq_Inr if_Inl_eq_Inr option_Inl_eq_Inr split_paired_Ex prod.case
          validateTimestamp_Inr inodeById_Inr) (elim exE conjE, rule that, (assumption | simp)+)
    then have "r = Rename (inodeId sd) sn (inodeId dd) dn now" by (simp add: checkedPlan_Inr)
    with parent [OF c(1)] parent [OF c(2)] c(3) show ?thesis by (simp add: record_shape_def fit)
  next
    case (planned_reserve n)
    then obtain chosen rs where c: "chooseExtents st n = Inr chosen" "toExtentRuns chosen = Inr rs" "r = ReserveQuarantine rs"
      unfolding planReserveQuarantine_def by (auto simp: res_simps checkedPlan_Inr split: if_splits)
    with chosen_runs_fit [OF v(3) c(1,2)] show ?thesis by (simp add: record_shape_def)
  qed
qed

end
