(* ===== verification/Engine.thy ===== *)
theory Engine
  imports MetadataStore
begin

text \<open>
  \<open>packages/pgwasm/src/opfs/core/repacked-vfs.ts\<close>, the class \<open>RepackedVfs\<close>: the state of an open store,
  and the guards every operation goes through. A method is a computation over the host's world and the
  instance: a throw leaves both as they are at that point.
\<close>

section \<open>State\<close>

text \<open>
  An orphan record is an object that several descriptors share and write to: descriptors hold its index
  in a table of the instance.
\<close>

record Descriptor =
  descInodeId :: int
  descOffset :: int
  descReadable :: bool
  descWritable :: bool
  descAppend :: bool
  descOrphan :: "nat option"

record ParsedFlags =
  flagReadable :: bool
  flagWritable :: bool
  flagCreate :: bool
  flagExclusive :: bool
  flagTruncate :: bool
  flagAppend :: bool

record WriteProgress =
  progressBytes :: int
  progressError :: "store_error option"

record PreparedCommit =
  commitFrame :: "byte list option"
  commitFrameBytes :: int
  commitProjection :: PreparedTxnProjection
  materializedRecord :: TxnRecord
  deferResize :: bool
  replacesPendingResize :: bool

text \<open>The pending record is always a \<open>ResizeFile\<close>.\<close>

record PendingResizeCommit =
  pendingRecord :: TxnRecord
  pendingFrameBytes :: int
  pendingSequence :: int

datatype FlushKind = AmortizedFlush | ArenaFlush | MetadataFlush | ZeroBarrierFlush | ManifestFlush

definition REPACK_INTERVAL_MS :: int where "REPACK_INTERVAL_MS = 30000"
definition AMORTIZED_ARENA_FLUSH_BYTES :: int where "AMORTIZED_ARENA_FLUSH_BYTES = 4 * 1024 * 1024"
definition BASE_REPACK_PRESSURE_BYTES :: int where
  "BASE_REPACK_PRESSURE_BYTES = MAX_METADATA_BASE_WRITER_BYTES * 3 div 4"
definition QUARANTINE_PRESSURE_EXTENTS :: nat where "QUARANTINE_PRESSURE_EXTENTS = 64"

datatype RepackReason =
  ManualReason | TimeReason | LogBytesReason | LogFramesReason | WriterLimitReason | QuarantineReason | QuotaReason

text \<open>\<open>#status\<close> with \<open>#failure\<close>: a poisoned instance keeps its first terminal cause.\<close>

datatype VfsStatus = StatusOpen | StatusFailed store_error | StatusClosed

record 'h RepackedVfs =
  vfsStore :: "'h OpenedMetadataStore"
  vfsStatus :: VfsStatus
  descriptors :: "(int \<times> Descriptor) list"
  orphans :: "OrphanRecord list"
  nextDescriptor :: int
  pendingResizeCommit :: "PendingResizeCommit option"
  vfsArenaSize :: "int option"
  vfsArenaDirty :: bool
  arenaDirtyBytesSinceFlush :: int
  metadataDirtySinceFlush :: bool
  repacking :: bool
  lastRepackReason :: "RepackReason option"
  lastRepackDurationMs :: "int option"
  pendingRepackReason :: "RepackReason option"
  repackCount :: int
  lastRepackAtMs :: int
  flushes :: "FlushKind \<Rightarrow> int"

text \<open>\<open>Date.now()\<close> and \<open>performance.now()\<close>, in whole milliseconds.\<close>

record 'w vfs_clock =
  dateNow :: "('w, int) io"
  performanceNow :: "('w, int) io"

definition newRepackedVfs :: "'h OpenedMetadataStore \<Rightarrow> int \<Rightarrow> 'h RepackedVfs" where
  "newRepackedVfs opened nowMs = \<lparr>vfsStore = opened, vfsStatus = StatusOpen, descriptors = [], orphans = [],
     nextDescriptor = 3, pendingResizeCommit = None, vfsArenaSize = Some (arenaSize opened),
     vfsArenaDirty = arenaDirty opened, arenaDirtyBytesSinceFlush = 0,
     metadataDirtySinceFlush = activeMetadataDirty opened, repacking = False, lastRepackReason = None,
     lastRepackDurationMs = None, pendingRepackReason = None, repackCount = 0, lastRepackAtMs = nowMs,
     flushes = (\<lambda>_. 0)\<rparr>"

definition openRepackedVfs ::
  "('w, 'h) store_ops \<Rightarrow> 'w vfs_clock \<Rightarrow> int option \<Rightarrow> ('w, 'h RepackedVfs) io" where
  "openRepackedVfs ops clock extSize =
     iobind (openMetadataStore ops extSize) (\<lambda>opened.
     iobind (dateNow clock) (\<lambda>now. ioret (newRepackedVfs opened now)))"

section \<open>Methods\<close>

type_synonym ('w, 'h, 'a) vfs = "('w \<times> 'h RepackedVfs, 'a) io"

definition onHost :: "('w, 'a) io \<Rightarrow> ('w \<times> 'e, 'a) io" where
  "onHost m we = (case m (fst we) of (r, w) \<Rightarrow> (r, (w, snd we)))"

definition asks :: "('e \<Rightarrow> 'a) \<Rightarrow> ('w \<times> 'e, 'a) io" where
  "asks f we = (Inr (f (snd we)), we)"

definition asksRes :: "('e \<Rightarrow> 'a res) \<Rightarrow> ('w \<times> 'e, 'a) io" where
  "asksRes f we = (f (snd we), we)"

definition updates :: "('e \<Rightarrow> 'e) \<Rightarrow> ('w \<times> 'e, unit) io" where
  "updates f we = (Inr (), (fst we, f (snd we)))"

text \<open>A computation whose outcome, result or error, is looked at.\<close>

definition iotry :: "('w, 'a) io \<Rightarrow> ('w, 'a res) io" where
  "iotry m w = (case m w of (r, w') \<Rightarrow> (Inr r, w'))"

definition onStore :: "('h OpenedMetadataStore \<Rightarrow> 'h OpenedMetadataStore) \<Rightarrow> 'h RepackedVfs \<Rightarrow> 'h RepackedVfs" where
  "onStore f vfs = vfs\<lparr>vfsStore := f (vfsStore vfs)\<rparr>"

abbreviation vfsState :: "'h RepackedVfs \<Rightarrow> VfsState" where
  "vfsState vfs \<equiv> storeState (vfsStore vfs)"

definition fileOf :: "OwnedFileName \<Rightarrow> 'h RepackedVfs \<Rightarrow> 'h" where
  "fileOf name vfs = storeHandles (vfsStore vfs) name"

definition activeFile :: "'h RepackedVfs \<Rightarrow> OwnedFileName" where
  "activeFile vfs = metadataFileName (activeMetadataFile (vfsState vfs))"

definition checkOpen :: "'h RepackedVfs \<Rightarrow> unit res" where
  "checkOpen vfs =
     (case vfsStatus vfs of
        StatusOpen \<Rightarrow> Inr ()
      | StatusFailed cause \<Rightarrow> Inl (StoreFailedError cause)
      | StatusClosed \<Rightarrow> Inl StoreClosedError)"

definition assertHealthy :: "('w, 'h, unit) vfs" where
  "assertHealthy = asksRes checkOpen"

definition poisoned :: "store_error \<Rightarrow> 'h RepackedVfs \<Rightarrow> 'h RepackedVfs" where
  "poisoned cause vfs = (if vfsStatus vfs = StatusOpen then vfs\<lparr>vfsStatus := StatusFailed cause\<rparr> else vfs)"

text \<open>\<open>try { m } catch (cause) { this.#poison(cause); throw cause; }\<close>\<close>

definition orPoison :: "('w, 'h, 'a) vfs \<Rightarrow> ('w, 'h, 'a) vfs" where
  "orPoison m = iocatch m (\<lambda>cause. iobind (updates (poisoned cause)) (\<lambda>_. iofail cause))"

definition failVfs :: "store_error \<Rightarrow> ('w, 'h, 'a) vfs" where
  "failVfs cause = iobind assertHealthy (\<lambda>_. iobind (updates (poisoned cause)) (\<lambda>_. iofail cause))"

definition failStore :: "store_error \<Rightarrow> ('w, 'h, 'a) vfs" where
  "failStore cause =
     iobind (updates (poisoned cause)) (\<lambda>_.
     iobind (asks vfsStatus) (\<lambda>status.
       iofail (StoreFailedError (case status of StatusFailed first \<Rightarrow> first | _ \<Rightarrow> cause))))"

definition flushFile :: "('w, 'h) store_ops \<Rightarrow> OwnedFileName \<Rightarrow> string \<Rightarrow> FlushKind \<Rightarrow> ('w, 'h, unit) vfs" where
  "flushFile ops name label kind =
     iobind (updates (\<lambda>vfs. vfs\<lparr>flushes := (flushes vfs)(kind := flushes vfs kind + 1)\<rparr>)) (\<lambda>_.
     iobind (asks (fileOf name)) (\<lambda>handle. onHost (opFlush ops handle label)))"

section \<open>Descriptors and results\<close>

record RepackedStat =
  statKind :: string
  statMode :: int
  statSize :: int
  statAtimeMs :: int
  statMtimeMs :: int
  statCtimeMs :: int

definition statValue :: "Inode \<Rightarrow> RepackedStat res" where
  "statValue inode =
     ebind (case body inode of
              File n _ \<Rightarrow> Inr (''file'', n)
            | Symlink target \<Rightarrow> ebind (encodedUtf8Length target) (\<lambda>n. Inr (''symlink'', n))
            | Directory _ \<Rightarrow> Inr (''directory'', 0)) (\<lambda>(kind, n).
       Inr \<lparr>statKind = kind, statMode = imode inode, statSize = n, statAtimeMs = atimeMs inode,
            statMtimeMs = mtimeMs inode, statCtimeMs = ctimeMs inode\<rparr>)"

definition statOrphan :: "OrphanRecord \<Rightarrow> RepackedStat" where
  "statOrphan orphan = \<lparr>statKind = ''file'', statMode = orphanMode orphan, statSize = orphanSize orphan,
     statAtimeMs = orphanAtimeMs orphan, statMtimeMs = orphanMtimeMs orphan, statCtimeMs = orphanCtimeMs orphan\<rparr>"

definition descriptor :: "int \<Rightarrow> 'h RepackedVfs \<Rightarrow> Descriptor res" where
  "descriptor fd vfs =
     (if \<not> isSafeInteger fd then Inl (FsError EBADF)
      else case map_of (descriptors vfs) fd of None \<Rightarrow> Inl (FsError EBADF) | Some d \<Rightarrow> Inr d)"

text \<open>The file of a descriptor that was never orphaned: its inode, size and extents.\<close>

definition linkedFile :: "int \<Rightarrow> 'h RepackedVfs \<Rightarrow> (Inode \<times> int \<times> int list) res" where
  "linkedFile iid vfs =
     (case map_of (inodes (vfsState vfs)) iid of
        None \<Rightarrow> Inl (FsError EBADF)
      | Some inode \<Rightarrow> (case body inode of File n extents \<Rightarrow> Inr (inode, n, extents) | _ \<Rightarrow> Inl (FsError EBADF)))"

definition setDescriptor :: "int \<Rightarrow> (Descriptor \<Rightarrow> Descriptor) \<Rightarrow> 'h RepackedVfs \<Rightarrow> 'h RepackedVfs" where
  "setDescriptor fd f vfs = vfs\<lparr>descriptors := map (\<lambda>(k, d). (k, if k = fd then f d else d)) (descriptors vfs)\<rparr>"

definition setOrphan :: "nat \<Rightarrow> (OrphanRecord \<Rightarrow> OrphanRecord) \<Rightarrow> 'h RepackedVfs \<Rightarrow> 'h RepackedVfs" where
  "setOrphan i f vfs = vfs\<lparr>orphans := (orphans vfs)[i := f (orphans vfs ! i)]\<rparr>"

definition validateBufferRange :: "byte list \<Rightarrow> int \<Rightarrow> int \<Rightarrow> unit res" where
  "validateBufferRange buffer offset len =
     (if \<not> isSafeInteger offset \<or> \<not> isSafeInteger len \<or> offset < 0 \<or> len < 0 \<or> offset + len > int (length buffer)
      then Inl (FsError EINVAL) else Inr ())"

definition resolveIn :: "js_string \<Rightarrow> bool \<Rightarrow> 'h RepackedVfs \<Rightarrow> js_string res" where
  "resolveIn path follow vfs = resolveLinks (vfsState vfs) path follow"

section \<open>Open flags\<close>

text \<open>
  The flags are looked up in an object literal, so that a name every object inherits is found too: its
  value has none of the fields, and each reads as false.
\<close>

definition OBJECT_PROTOTYPE_NAMES :: "string list" where
  "OBJECT_PROTOTYPE_NAMES = [''constructor'', ''__defineGetter__'', ''__defineSetter__'', ''hasOwnProperty'',
     ''__lookupGetter__'', ''__lookupSetter__'', ''isPrototypeOf'', ''propertyIsEnumerable'', ''toString'',
     ''valueOf'', ''__proto__'', ''toLocaleString'']"

definition openFlags :: "bool \<Rightarrow> bool \<Rightarrow> bool \<Rightarrow> bool \<Rightarrow> bool \<Rightarrow> bool \<Rightarrow> ParsedFlags" where
  "openFlags r w c x t a = \<lparr>flagReadable = r, flagWritable = w, flagCreate = c, flagExclusive = x, flagTruncate = t,
     flagAppend = a\<rparr>"

definition OPEN_FLAGS :: "(string \<times> ParsedFlags) list" where
  "OPEN_FLAGS =
    [(''r'', openFlags True False False False False False),
     (''r+'', openFlags True True False False False False),
     (''w'', openFlags False True True False True False),
     (''w+'', openFlags True True True False True False),
     (''wx'', openFlags False True True True True False),
     (''wx+'', openFlags True True True True True False),
     (''a'', openFlags False True True False False True),
     (''a+'', openFlags True True True False False True),
     (''ax'', openFlags False True True True False True),
     (''ax+'', openFlags True True True True False True)]"

definition parseFlags :: "string \<Rightarrow> ParsedFlags res" where
  "parseFlags flags =
     (case map_of OPEN_FLAGS flags of
        Some parsed \<Rightarrow> Inr parsed
      | None \<Rightarrow>
          if flags \<in> set OBJECT_PROTOTYPE_NAMES then Inr (openFlags False False False False False False)
          else Inl (FsError EINVAL))"

definition validateEncoding :: "string \<Rightarrow> unit res" where
  "validateEncoding encoding = (if encoding \<noteq> ''utf8'' \<and> encoding \<noteq> ''utf-8'' then Inl (FsError EINVAL) else Inr ())"

definition extentCount :: "int \<Rightarrow> 'h RepackedVfs \<Rightarrow> int res" where
  "extentCount n vfs =
     ebind (checkedU64 n) (\<lambda>_.
     if n = 0 then Inr 0
     else
       let ext = extentSize (vfsState vfs) in
       ebind (checkedSafeNumber ((n + ext - 1) div ext)) (\<lambda>result.
         if result > MAX_EXTENTS_PER_INODE then Inl StoreLimitError else Inr result))"

end
