(* ===== verification/EngineArena.thy ===== *)
theory EngineArena
  imports Engine
begin

text \<open>
  \<open>repacked-vfs.ts\<close>: the arena. File data lives in extents of one arena file; the instance tracks the
  arena's size and whether it has unflushed bytes.
\<close>

section \<open>One arena file\<close>

definition recordArenaWrite :: "int \<Rightarrow> ('w, 'h, unit) vfs" where
  "recordArenaWrite n =
     (if \<not> isSafeInteger n \<or> n < 0 then iofail TypeError
      else updates (\<lambda>vfs. vfs\<lparr>arenaDirtyBytesSinceFlush := min MAX_SAFE_INTEGER (arenaDirtyBytesSinceFlush vfs + n)\<rparr>))"

definition setArenaSize :: "int option \<Rightarrow> ('w, 'h, unit) vfs" where
  "setArenaSize n = updates (\<lambda>vfs. vfs\<lparr>vfsArenaSize := n\<rparr>)"

definition setArenaDirty :: "bool \<Rightarrow> ('w, 'h, unit) vfs" where
  "setArenaDirty b = updates (\<lambda>vfs. vfs\<lparr>vfsArenaDirty := b\<rparr>)"

definition arenaClean :: "('w, 'h, unit) vfs" where
  "arenaClean = updates (\<lambda>vfs. vfs\<lparr>vfsArenaDirty := False, arenaDirtyBytesSinceFlush := 0\<rparr>)"

definition flushPreparedArena :: "('w, 'h) store_ops \<Rightarrow> string \<Rightarrow> ('w, 'h, unit) vfs" where
  "flushPreparedArena ops label = iobind (flushFile ops ArenaBin label ZeroBarrierFlush) (\<lambda>_. arenaClean)"

definition arenaSizeChecked :: "('w, 'h) store_ops \<Rightarrow> string \<Rightarrow> ('w, 'h, int) vfs" where
  "arenaSizeChecked ops label =
     iobind (asks vfsArenaSize) (\<lambda>known.
       case known of
         Some n \<Rightarrow> ioret n
       | None \<Rightarrow>
           iobind (asks (fileOf ArenaBin)) (\<lambda>handle.
           iobind (onHost (opGetSize ops handle label)) (\<lambda>n.
           if \<not> isSafeInteger n \<or> n < 0 then iofail HostError
           else iobind (setArenaSize (Some n)) (\<lambda>_. ioret n))))"

definition writeArena :: "('w, 'h) store_ops \<Rightarrow> byte list \<Rightarrow> int \<Rightarrow> string \<Rightarrow> ('w, 'h, int) vfs" where
  "writeArena ops source at label =
     iobind (asks vfsArenaSize) (\<lambda>sizeBefore.
     iobind (setArenaSize None) (\<lambda>_.
     iobind (asks (fileOf ArenaBin)) (\<lambda>handle.
     iobind (onHost (opWrite ops handle label at source)) (\<lambda>amount.
       case sizeBefore of
         None \<Rightarrow> ioret amount
       | Some before \<Rightarrow>
           if isSafeInteger amount \<and> amount \<ge> 0 \<and> amount \<le> int (length source) \<and> isSafeInteger (at + amount)
           then iobind (setArenaSize (Some (max before (at + amount)))) (\<lambda>_. ioret amount)
           else ioret amount))))"

definition writeArenaExact :: "('w, 'h) store_ops \<Rightarrow> int \<Rightarrow> byte list \<Rightarrow> string \<Rightarrow> ('w, 'h, unit) vfs" where
  "writeArenaExact ops at source label =
     iobind (asks vfsArenaSize) (\<lambda>sizeBefore.
     iobind (setArenaSize None) (\<lambda>_.
     iobind (asks (fileOf ArenaBin)) (\<lambda>handle.
     iobind (onHost (writeExact (opWrite ops handle label) at source)) (\<lambda>_.
       case sizeBefore of
         None \<Rightarrow> ioret ()
       | Some before \<Rightarrow>
           iobind (iolift (ebind (checkedAdd at (int (length source))) checkedSafeNumber)) (\<lambda>stop.
             setArenaSize (Some (max before stop)))))))"

definition truncateArena :: "('w, 'h) store_ops \<Rightarrow> int \<Rightarrow> string \<Rightarrow> ('w, 'h, unit) vfs" where
  "truncateArena ops n label =
     iobind (setArenaSize None) (\<lambda>_.
     iobind (asks (fileOf ArenaBin)) (\<lambda>handle.
     iobind (onHost (truncateChecked (opTruncate ops handle label) n)) (\<lambda>_.
     iobind (iolift (checkedSafeNumber n)) (\<lambda>checked. setArenaSize (Some checked)))))"

section \<open>Preparing extents\<close>

text \<open>
  The extents a plan allocates must read as zeros before a frame names them: the arena grows to hold the
  fresh ones, and the reused ones are overwritten and flushed. The zero-filled source has 64 KiB at most.
\<close>

function zeroExtent :: "('w, 'h) store_ops \<Rightarrow> int \<Rightarrow> int \<Rightarrow> int \<Rightarrow> ('w, 'h, unit) vfs" where
  "zeroExtent ops ext extentId within =
     (if within < ext then
        let n = min (min ext 65536) (ext - within) in
        iobind (setArenaDirty True) (\<lambda>_.
        iobind (iolift (arenaByteOffset extentId ext within)) (\<lambda>at.
        iobind (writeArenaExact ops at (zeros (nat n)) ''arena.allocation.zero'') (\<lambda>_.
        iobind (recordArenaWrite n) (\<lambda>_.
        if 0 < n then zeroExtent ops ext extentId (within + n) else iofail HostError))))
      else ioret ())"
  by pat_completeness auto
termination
  by (relation "measure (\<lambda>(ops, ext, i, within). nat (ext - within))") auto

declare zeroExtent.simps [simp del]

definition growArena :: "('w, 'h) store_ops \<Rightarrow> int \<Rightarrow> int \<Rightarrow> ('w, 'h, unit) vfs" where
  "growArena ops requiredExtents arenaSizeBefore =
     iobind (asks (\<lambda>vfs. extentSize (vfsState vfs))) (\<lambda>ext.
     iobind (iolift (ebind (checkedMultiply requiredExtents ext) (\<lambda>len. checkedAdd ARENA_HEADER_BYTES len))) (\<lambda>requiredEnd.
     if requiredEnd > arenaSizeBefore then
       iobind (setArenaDirty True) (\<lambda>_.
       iobind (updates (onStore (\<lambda>s. s\<lparr>arenaHighWaterExtents := max requiredExtents (arenaHighWaterExtents s)\<rparr>))) (\<lambda>_.
         iocatch (truncateArena ops requiredEnd ''arena.grow'')
           (\<lambda>cause. iofail (if cause = QuotaExceededError then ArenaGrowthQuotaError cause else cause))))
     else ioret ()))"

definition prepareAllocated :: "('w, 'h) store_ops \<Rightarrow> int list \<Rightarrow> ('w, 'h, unit) vfs" where
  "prepareAllocated ops extents =
     (if extents = [] then ioret ()
      else
        iobind (asks (\<lambda>vfs. totalExtents (allocator (vfsState vfs)))) (\<lambda>totalBefore.
        iobind (asks (\<lambda>vfs. arenaHighWaterExtents (vfsStore vfs))) (\<lambda>highWaterBefore.
        let fresh = filter (\<lambda>e. e \<ge> totalBefore) extents;
            reused = filter (\<lambda>e. e < totalBefore \<or> e < highWaterBefore) extents in
        iobind (arenaSizeChecked ops ''arena.size.before-allocation'') (\<lambda>arenaSizeBefore.
        iobind (if fresh = [] then ioret ()
                else iobind (iolift (checkedAdd (last fresh) 1)) (\<lambda>requiredExtents.
                       growArena ops requiredExtents arenaSizeBefore)) (\<lambda>_.
        if reused = [] then ioret ()
        else
          iobind (asks (\<lambda>vfs. extentSize (vfsState vfs))) (\<lambda>ext.
          iobind (ioeach (\<lambda>extentId. zeroExtent ops ext extentId 0) reused) (\<lambda>_.
            flushPreparedArena ops ''arena.allocation.flush'')))))))"

section \<open>File data\<close>

text \<open>
  A position of a file lies in one of its extents: those it has, then those a plan allocates. Division of a
  BigInt by an extent size of zero throws; no store has one.
\<close>

definition extentAt :: "int list \<Rightarrow> int list \<Rightarrow> int \<Rightarrow> int option" where
  "extentAt front tail i =
     (if i < 0 then None
      else if i < int (length front) then Some (front ! nat i)
      else if nat i - length front < length tail then Some (tail ! (nat i - length front))
      else None)"

definition locate :: "int \<Rightarrow> int list \<Rightarrow> int list \<Rightarrow> store_error \<Rightarrow> int \<Rightarrow> int \<Rightarrow> (int \<times> int) res" where
  "locate ext front tail missing position completed =
     ebind (checkedAdd position completed) (\<lambda>logical.
     if ext \<le> 0 then Inl RangeError
     else
       ebind (checkedSafeNumber (logical div ext)) (\<lambda>i.
         case extentAt front tail i of
           None \<Rightarrow> Inl missing
         | Some extentId \<Rightarrow> Inr (extentId, logical mod ext)))"

lemma locate_within: "locate ext front tail missing position completed = Inr (e, within) \<Longrightarrow> 0 \<le> within \<and> within < ext"
  by (auto simp: locate_def ebind_eq_Inr split: if_splits option.splits)

text \<open>\<open>target.subarray(from, from + n)\<close> replaced.\<close>

definition fillFrom :: "int \<Rightarrow> byte list \<Rightarrow> byte list \<Rightarrow> byte list" where
  "fillFrom start part target = take (nat start) target @ part @ drop (nat start + length part) target"

function readExtent ::
  "('w, 'h) store_ops \<Rightarrow> 'h \<Rightarrow> int \<Rightarrow> int \<Rightarrow> int \<Rightarrow> int \<Rightarrow> byte list \<Rightarrow> int \<Rightarrow> ('w, byte list) io" where
  "readExtent ops handle ext extentId within n target completed w =
     (if completed < n then
        (case ebind (arenaByteOffset extentId ext (within + completed)) checkedSafeNumber of
           Inl e \<Rightarrow> (Inl e, w)
         | Inr at \<Rightarrow>
             (case opRead ops handle ''arena.read'' at (n - completed) w of
                (Inl e, w') \<Rightarrow> (Inl e, w')
              | (Inr (amount, part), w') \<Rightarrow>
                  if \<not> isSafeInteger amount \<or> amount \<le> 0 \<or> amount > n - completed then (Inl CorruptStoreError, w')
                  else readExtent ops handle ext extentId within n
                         (fillFrom completed (take (nat amount) part) target) (completed + amount) w'))
      else (Inr target, w))"
  by pat_completeness auto
termination
  by (relation "measure (\<lambda>(ops, h, ext, i, within, n, target, completed, w). nat (n - completed))") auto

declare readExtent.simps [simp del]

function readLogicalLoop ::
  "('w, 'h) store_ops \<Rightarrow> 'h \<Rightarrow> int \<Rightarrow> int list \<Rightarrow> int \<Rightarrow> int \<Rightarrow> byte list \<Rightarrow> int \<Rightarrow> ('w, byte list) io" where
  "readLogicalLoop ops handle ext extents position wanted target completed =
     (if completed < wanted then
        (case locate ext extents [] CorruptStoreError position completed of
           Inl e \<Rightarrow> iofail e
         | Inr (extentId, within) \<Rightarrow>
             let n = min (wanted - completed) (ext - within) in
             iobind (readExtent ops handle ext extentId within n (take (nat n) (drop (nat completed) target)) 0) (\<lambda>part.
               readLogicalLoop ops handle ext extents position wanted (fillFrom completed part target) (completed + n)))
      else ioret target)"
  by pat_completeness auto
termination
  by (relation "measure (\<lambda>(ops, h, ext, es, pos, wanted, target, completed). nat (wanted - completed))")
    (auto dest: locate_within)

declare readLogicalLoop.simps [simp del]

text \<open>Reading into a target: the target with the bytes of the file. A read that throws leaves the target unspecified.\<close>

definition readLogical :: "('w, 'h) store_ops \<Rightarrow> int list \<Rightarrow> int \<Rightarrow> byte list \<Rightarrow> ('w, 'h, byte list) vfs" where
  "readLogical ops extents position target =
     iobind (iolift (checkedU64 position)) (\<lambda>_.
     iobind (asks (\<lambda>vfs. extentSize (vfsState vfs))) (\<lambda>ext.
     iobind (asks (fileOf ArenaBin)) (\<lambda>handle.
       onHost (readLogicalLoop ops handle ext extents position (int (length target)) target 0))))"

text \<open>Writing stops at the first failure and reports how far it came.\<close>

function writeLogicalLoop ::
  "('w, 'h) store_ops \<Rightarrow> int \<Rightarrow> int list \<Rightarrow> int list \<Rightarrow> int \<Rightarrow> byte list \<Rightarrow> string \<Rightarrow> int \<Rightarrow> ('w, 'h, WriteProgress) vfs" where
  "writeLogicalLoop ops ext extents allocated position source label completed =
     (if completed < int (length source) then
        (case locate ext extents allocated StoreLimitError position completed of
           Inl e \<Rightarrow> iofail e
         | Inr (extentId, within) \<Rightarrow>
             let requested = min (int (length source) - completed) (ext - within) in
             iobind (setArenaDirty True) (\<lambda>_.
             iobind (iotry
               (iobind (iolift (ebind (arenaByteOffset extentId ext within) checkedSafeNumber)) (\<lambda>at.
                 writeArena ops (take (nat requested) (drop (nat completed) source)) at label))) (\<lambda>r.
               case r of
                 Inl e \<Rightarrow> ioret \<lparr>progressBytes = completed, progressError = Some e\<rparr>
               | Inr amount \<Rightarrow>
                   if \<not> isSafeInteger amount \<or> amount \<le> 0 \<or> amount > requested
                   then ioret \<lparr>progressBytes = completed, progressError = Some PortWriteError\<rparr>
                   else
                     iobind (recordArenaWrite amount) (\<lambda>_.
                       writeLogicalLoop ops ext extents allocated position source label (completed + amount)))))
      else ioret \<lparr>progressBytes = completed, progressError = None\<rparr>)"
  by pat_completeness auto
termination
  by (relation "measure (\<lambda>(ops, ext, es, al, pos, source, label, completed). nat (int (length source) - completed))") auto

declare writeLogicalLoop.simps [simp del]

definition writeLogical ::
  "('w, 'h) store_ops \<Rightarrow> int list \<Rightarrow> int \<Rightarrow> byte list \<Rightarrow> string \<Rightarrow> int list \<Rightarrow> ('w, 'h, WriteProgress) vfs" where
  "writeLogical ops extents position source label allocated =
     iobind (iolift (checkedU64 position)) (\<lambda>_.
     iobind (asks (\<lambda>vfs. extentSize (vfsState vfs))) (\<lambda>ext.
       writeLogicalLoop ops ext extents allocated position source label 0))"

text \<open>Zeroing touches only bytes the arena had before it grew; it reports whether there were any.\<close>

function zeroLogicalLoop ::
  "('w, 'h) store_ops \<Rightarrow> int \<Rightarrow> int list \<Rightarrow> int list \<Rightarrow> int \<Rightarrow> int \<Rightarrow> int \<Rightarrow> bool \<Rightarrow> int \<Rightarrow> ('w, 'h, bool) vfs" where
  "zeroLogicalLoop ops ext extents allocated position len previousEnd touched completed =
     (if completed < len then
        (case locate ext extents allocated StoreLimitError position completed of
           Inl e \<Rightarrow> iofail e
         | Inr (extentId, within) \<Rightarrow>
             iobind (iolift (checkedSafeNumber (len - completed))) (\<lambda>remaining.
             let n = min (min 65536 (ext - within)) (len - completed) in
             iobind (iolift (arenaByteOffset extentId ext within)) (\<lambda>physical.
             if physical < previousEnd then
               iobind (iolift (checkedSafeNumber (previousEnd - physical))) (\<lambda>existing.
               iobind (setArenaDirty True) (\<lambda>_.
               iobind (writeArenaExact ops physical (zeros (nat (min n existing))) ''arena.gap-zero.write'') (\<lambda>_.
               iobind (recordArenaWrite (min n existing)) (\<lambda>_.
                 zeroLogicalLoop ops ext extents allocated position len previousEnd True (completed + n)))))
             else zeroLogicalLoop ops ext extents allocated position len previousEnd touched (completed + n))))
      else ioret touched)"
  by pat_completeness auto
termination
  by (relation "measure (\<lambda>(ops, ext, es, al, pos, len, pe, t, completed). nat (len - completed))")
    (auto dest: locate_within)

declare zeroLogicalLoop.simps [simp del]

definition zeroLogical ::
  "('w, 'h) store_ops \<Rightarrow> int list \<Rightarrow> int \<Rightarrow> int \<Rightarrow> int \<Rightarrow> int list \<Rightarrow> ('w, 'h, bool) vfs" where
  "zeroLogical ops extents position len arenaSizeBefore allocated =
     iobind (iolift (ebind (checkedU64 position) (\<lambda>_. checkedU64 len))) (\<lambda>_.
     iobind (asks (\<lambda>vfs. extentSize (vfsState vfs))) (\<lambda>ext.
       zeroLogicalLoop ops ext extents allocated position len arenaSizeBefore False 0))"

end
