(* ===== verification/EngineCommit.thy ===== *)
theory EngineCommit
  imports EngineArena
begin

text \<open>
  \<open>repacked-vfs.ts\<close>: committing a record. A record is checked and encoded before anything changes, its
  frame is appended to the log of the active metadata file, then it is applied. A growing write is applied
  at once and its frame held back, so that writes that follow it on the same file replace it.
\<close>

section \<open>Preflight\<close>

definition isDeferrableResize :: "TxnRecord \<Rightarrow> VfsState \<Rightarrow> bool" where
  "isDeferrableResize txn state =
     (case txn of
        ResizeFile WriteOp iid n _ _ _ \<Rightarrow>
          (case map_of (inodes state) iid of
             None \<Rightarrow> False
           | Some inode \<Rightarrow> (case body inode of File current _ \<Rightarrow> n > current | _ \<Rightarrow> False))
      | _ \<Rightarrow> False)"

definition pendingReplacedBy :: "TxnRecord \<Rightarrow> 'h RepackedVfs \<Rightarrow> PendingResizeCommit option" where
  "pendingReplacedBy txn vfs =
     (if \<not> isDeferrableResize txn (vfsState vfs) then None
      else case (pendingResizeCommit vfs, txn) of
        (Some pending, ResizeFile _ iid _ _ _ _) \<Rightarrow>
          (case pendingRecord pending of
             ResizeFile _ pendingId _ _ _ _ \<Rightarrow> if pendingId = iid then Some pending else None
           | _ \<Rightarrow> None)
      | _ \<Rightarrow> None)"

text \<open>The new record with the extents of the one it replaces in front of its own.\<close>

definition mergedResize :: "TxnRecord \<Rightarrow> TxnRecord \<Rightarrow> TxnRecord" where
  "mergedResize earlier txn =
     (case (earlier, txn) of
        (ResizeFile _ _ _ allocatedBefore _ _, ResizeFile operation iid n allocated m c) \<Rightarrow>
          ResizeFile operation iid n (mergeExtentRuns allocatedBefore allocated) m c
      | _ \<Rightarrow> txn)"

definition preflightCommit :: "TxnRecord \<Rightarrow> 'h RepackedVfs \<Rightarrow> PreparedCommit res" where
  "preflightCommit txn vfs =
     ebind (checkOpen vfs) (\<lambda>_.
     ebind (prepareTxnProjection (vfsState vfs) txn) (\<lambda>projection.
     let defer = isDeferrableResize txn (vfsState vfs);
         replaced = pendingReplacedBy txn vfs;
         materialized = (case replaced of None \<Rightarrow> txn | Some pending \<Rightarrow> mergedResize (pendingRecord pending) txn);
         sequence = (case replaced of None \<Rightarrow> nextSequence (vfsStore vfs) | Some pending \<Rightarrow> pendingSequence pending)
     in
     ebind (txnFrameBytes materialized) (\<lambda>frameBytes.
     ebind (if defer then Inr None
            else
              ebind (encodeTxnFrame \<lparr>frameGeneration = generation (vfsState vfs), frameSequence = sequence,
                       frameRecord = materialized\<rparr>) (\<lambda>frame. Inr (Some frame))) (\<lambda>frame.
     let projectedLogBytes =
           (case replaced of
              None \<Rightarrow> activeLogBytes (vfsStore vfs) + frameBytes
            | Some pending \<Rightarrow> activeLogBytes (vfsStore vfs) - pendingFrameBytes pending + frameBytes)
     in
     if (replaced = None \<and> activeLogFrames (vfsStore vfs) \<ge> MAX_ACTIVE_LOG_FRAMES)
        \<or> projectedLogBytes > MAX_ACTIVE_LOG_BYTES
     then Inl StoreLimitError
     else Inr \<lparr>commitFrame = frame, commitFrameBytes = frameBytes, commitProjection = projection,
               materializedRecord = materialized, deferResize = defer,
               replacesPendingResize = replaced \<noteq> None\<rparr>))))"

section \<open>The log\<close>

text \<open>What a failed append left in the log is unknown: it poisons the store, as does any write without progress.\<close>

definition appendFrame :: "('w, 'h) store_ops \<Rightarrow> byte list \<Rightarrow> ('w, 'h, unit) vfs" where
  "appendFrame ops frame =
     iocatch
       (iobind (asks activeFile) (\<lambda>name.
        iobind (asks (fileOf name)) (\<lambda>handle.
        iobind (asks (\<lambda>vfs. activeLogEnd (vfsStore vfs))) (\<lambda>logEnd.
        iobind (onHost (writeExact (opWrite ops handle ''metadata.log.append'') logEnd frame)) (\<lambda>_.
          updates (\<lambda>vfs. (onStore (\<lambda>s. s\<lparr>activeLogEnd := activeLogEnd s + int (length frame)\<rparr>) vfs)
            \<lparr>metadataDirtySinceFlush := True\<rparr>))))))
       failStore"

definition pendingFrame :: "PendingResizeCommit \<Rightarrow> 'h RepackedVfs \<Rightarrow> byte list res" where
  "pendingFrame pending vfs =
     ebind (encodeTxnFrame \<lparr>frameGeneration = generation (vfsState vfs), frameSequence = pendingSequence pending,
              frameRecord = pendingRecord pending\<rparr>) (\<lambda>frame.
       if int (length frame) \<noteq> pendingFrameBytes pending then Inl HostError else Inr frame)"

definition materializePendingResize :: "('w, 'h) store_ops \<Rightarrow> ('w, 'h, unit) vfs" where
  "materializePendingResize ops =
     iobind (asks pendingResizeCommit) (\<lambda>pendingOption.
       case pendingOption of
         None \<Rightarrow> ioret ()
       | Some pending \<Rightarrow>
           iobind (orPoison (asksRes (pendingFrame pending))) (\<lambda>frame.
           iobind (appendFrame ops frame) (\<lambda>_.
             updates (\<lambda>vfs. vfs\<lparr>pendingResizeCommit := None\<rparr>))))"

definition scheduleRepack :: "'h RepackedVfs \<Rightarrow> 'h RepackedVfs" where
  "scheduleRepack vfs =
     (let store = vfsStore vfs;
          alloc = allocator (storeState store);
          quarantined = length (quarantine alloc)
      in
      if activeLogBytes store \<ge> SOFT_ACTIVE_LOG_BYTES then vfs\<lparr>pendingRepackReason := Some LogBytesReason\<rparr>
      else if activeLogFrames store \<ge> SOFT_ACTIVE_LOG_FRAMES then vfs\<lparr>pendingRepackReason := Some LogFramesReason\<rparr>
      else if basePayloadBytes (storeState store) \<ge> BASE_REPACK_PRESSURE_BYTES
        then vfs\<lparr>pendingRepackReason := Some WriterLimitReason\<rparr>
      else if quarantined \<ge> QUARANTINE_PRESSURE_EXTENTS
              \<or> (quarantined > 0 \<and> sizeExtent (available alloc) = 0)
        then vfs\<lparr>pendingRepackReason :=
               (case pendingRepackReason vfs of None \<Rightarrow> Some QuarantineReason | Some reason \<Rightarrow> Some reason)\<rparr>
      else vfs)"

definition dueRepackReason :: "int \<Rightarrow> 'h RepackedVfs \<Rightarrow> RepackReason option" where
  "dueRepackReason nowMs vfs =
     (let store = vfsStore vfs in
      case pendingRepackReason vfs of
        Some reason \<Rightarrow> Some reason
      | None \<Rightarrow>
          if activeLogBytes store \<ge> SOFT_ACTIVE_LOG_BYTES then Some LogBytesReason
          else if activeLogFrames store \<ge> SOFT_ACTIVE_LOG_FRAMES then Some LogFramesReason
          else if basePayloadBytes (storeState store) \<ge> BASE_REPACK_PRESSURE_BYTES then Some WriterLimitReason
          else if activeLogFrames store > 0 \<and> nowMs - lastRepackAtMs vfs \<ge> REPACK_INTERVAL_MS then Some TimeReason
          else None)"

section \<open>Commit\<close>

text \<open>\<open>applyTxn\<close> on the live state: a record it refuses may have changed the state and poisons the store.\<close>

definition applyLive :: "TxnRecord \<Rightarrow> PreparedTxnProjection \<Rightarrow> ('w, 'h, unit) vfs" where
  "applyLive txn projection we =
     (case applyTxn (vfsState (snd we)) txn (Some projection) of
        (failure, state) \<Rightarrow>
          (let we' = (fst we, onStore (\<lambda>s. s\<lparr>storeState := state\<rparr>) (snd we)) in
           case failure of
             None \<Rightarrow> (Inr (), we')
           | Some cause \<Rightarrow> (Inl cause, (fst we', poisoned cause (snd we')))))"

definition countFrame :: "int \<Rightarrow> 'h RepackedVfs \<Rightarrow> 'h RepackedVfs" where
  "countFrame frameBytes = onStore (\<lambda>s. s\<lparr>activeLogBytes := activeLogBytes s + frameBytes,
     activeLogFrames := activeLogFrames s + 1, nextSequence := nextSequence s + 1\<rparr>)"

definition commitReplacing :: "TxnRecord \<Rightarrow> PreparedCommit \<Rightarrow> ('w, 'h, unit) vfs" where
  "commitReplacing txn prepared =
     iobind (asks pendingResizeCommit) (\<lambda>pendingOption.
       case (pendingOption, materializedRecord prepared) of
         (Some pending, ResizeFile _ _ _ _ _ _) \<Rightarrow>
           iobind (applyLive txn (commitProjection prepared)) (\<lambda>_.
             updates (\<lambda>vfs. scheduleRepack
               ((onStore (\<lambda>s. s\<lparr>activeLogBytes :=
                    activeLogBytes s + (commitFrameBytes prepared - pendingFrameBytes pending)\<rparr>) vfs)
                \<lparr>pendingResizeCommit := Some \<lparr>pendingRecord = materializedRecord prepared,
                   pendingFrameBytes = commitFrameBytes prepared, pendingSequence = pendingSequence pending\<rparr>\<rparr>)))
       | _ \<Rightarrow> orPoison (iofail HostError))"

definition commitDeferred :: "TxnRecord \<Rightarrow> PreparedCommit \<Rightarrow> ('w, 'h, unit) vfs" where
  "commitDeferred txn prepared =
     iobind (applyLive txn (commitProjection prepared)) (\<lambda>_.
       updates (\<lambda>vfs. scheduleRepack (countFrame (commitFrameBytes prepared)
         (vfs\<lparr>pendingResizeCommit := Some \<lparr>pendingRecord = materializedRecord prepared,
            pendingFrameBytes = commitFrameBytes prepared, pendingSequence = nextSequence (vfsStore vfs)\<rparr>\<rparr>))))"

definition commitNow :: "('w, 'h) store_ops \<Rightarrow> TxnRecord \<Rightarrow> PreparedCommit \<Rightarrow> ('w, 'h, unit) vfs" where
  "commitNow ops txn prepared =
     (case commitFrame prepared of
        None \<Rightarrow> orPoison (iofail HostError)
      | Some frame \<Rightarrow>
          iobind (appendFrame ops frame) (\<lambda>_.
          iobind (applyLive txn (commitProjection prepared)) (\<lambda>_.
            updates (\<lambda>vfs. scheduleRepack (countFrame (commitFrameBytes prepared) vfs)))))"

definition isResizeRecord :: "TxnRecord \<Rightarrow> bool" where
  "isResizeRecord txn = (case txn of ResizeFile _ _ _ _ _ _ \<Rightarrow> True | _ \<Rightarrow> False)"

definition commitPrepared :: "('w, 'h) store_ops \<Rightarrow> TxnRecord \<Rightarrow> PreparedCommit \<Rightarrow> ('w, 'h, unit) vfs" where
  "commitPrepared ops txn prepared =
     (if replacesPendingResize prepared then commitReplacing txn prepared
      else
        iobind (materializePendingResize ops) (\<lambda>_.
          if deferResize prepared \<and> isResizeRecord (materializedRecord prepared) then commitDeferred txn prepared
          else commitNow ops txn prepared))"

definition commit ::
  "('w, 'h) store_ops \<Rightarrow> TxnRecord \<Rightarrow> PreparedCommit option \<Rightarrow> ('w, 'h, unit) vfs" where
  "commit ops txn preparedOption =
     iobind assertHealthy (\<lambda>_.
     iobind (case preparedOption of Some prepared \<Rightarrow> ioret prepared | None \<Rightarrow> asksRes (preflightCommit txn))
       (commitPrepared ops txn))"

end
