(* ===== verification/EngineRepack.thy ===== *)
theory EngineRepack
  imports EngineCommit
begin

text \<open>
  \<open>repacked-vfs.ts\<close>: making the store durable. A strict sync flushes the arena before the log; a repack
  writes the whole state as a new base into the metadata file not in use and then names it in the
  activation slot not in use; an allocation that exhausts the quota is tried again after two repacks.
\<close>

section \<open>Strict sync\<close>

definition strictSync :: "('w, 'h) store_ops \<Rightarrow> ('w, 'h, unit) vfs" where
  "strictSync ops =
     iobind assertHealthy (\<lambda>_. orPoison
       (iobind (asks vfsArenaDirty) (\<lambda>dirty.
        iobind (if dirty then flushFile ops ArenaBin ''sync.arena.flush'' ArenaFlush else ioret ()) (\<lambda>_.
        iobind (materializePendingResize ops) (\<lambda>_.
        iobind (asks metadataDirtySinceFlush) (\<lambda>metadataDirty.
        iobind (if metadataDirty
                then iobind (asks activeFile) (\<lambda>name. flushFile ops name ''sync.metadata.flush'' MetadataFlush)
                else ioret ()) (\<lambda>_.
        iobind arenaClean (\<lambda>_.
          updates (\<lambda>vfs. vfs\<lparr>metadataDirtySinceFlush := False\<rparr>)))))))))"

section \<open>Repack\<close>

text \<open>The extents of unlinked files that are still open.\<close>

definition pinnedExtents :: "'h RepackedVfs \<Rightarrow> int set" where
  "pinnedExtents vfs =
     (\<Union>(fd, d) \<in> set (descriptors vfs).
        case descOrphan d of None \<Rightarrow> {} | Some i \<Rightarrow> set (orphanExtents (orphans vfs ! i)))"

text \<open>The state a repack activates, its base and the record that names it.\<close>

definition preparedRepack :: "int \<Rightarrow> 'h RepackedVfs \<Rightarrow> (VfsState \<times> byte list \<times> byte list) res" where
  "preparedRepack sequence vfs =
     ebind (projectRepackForActivation (vfsState vfs) (pinnedExtents vfs)) (\<lambda>projected.
     ebind (encodeValidatedMetadataBase projected) (\<lambda>base.
     ebind (encodeActivationSlot \<lparr>actSequence = sequence, actMetadataFile = activeMetadataFile projected,
              actGeneration = generation projected, actBaseEnd = int (length base),
              actBaseDigest = metadataBaseDigest base\<rparr>) (\<lambda>activation.
       Inr (projected, base, activation))))"

definition activationOffset :: "int \<Rightarrow> int" where
  "activationOffset sequence = ((sequence - 1) mod 2) * int ACTIVATION_SLOT_BYTES"

definition writeRepackedBase :: "('w, 'h) store_ops \<Rightarrow> OwnedFileName \<Rightarrow> byte list \<Rightarrow> ('w, 'h, unit) vfs" where
  "writeRepackedBase ops name base =
     iobind (asks (fileOf name)) (\<lambda>handle.
     iobind (onHost (opTruncate ops handle ''repack.metadata.reset'' 0)) (\<lambda>_.
     iobind (onHost (writeExact (opWrite ops handle ''repack.metadata.write'') 0 base)) (\<lambda>_.
       flushFile ops name ''repack.metadata.flush'' MetadataFlush)))"

definition writeActivation :: "('w, 'h) store_ops \<Rightarrow> int \<Rightarrow> byte list \<Rightarrow> ('w, 'h, unit) vfs" where
  "writeActivation ops sequence activation =
     orPoison
       (iobind (asks (fileOf ActivationBin)) (\<lambda>handle.
        iobind (onHost (writeExact (opWrite ops handle ''repack.activation.write'') (activationOffset sequence) activation)) (\<lambda>_.
          flushFile ops ActivationBin ''repack.activation.flush'' ManifestFlush)))"

definition activated :: "VfsState \<Rightarrow> int \<Rightarrow> int \<Rightarrow> RepackReason \<Rightarrow> 'h RepackedVfs \<Rightarrow> 'h RepackedVfs" where
  "activated projected baseEnd sequence reason vfs =
     (onStore (\<lambda>s. s\<lparr>storeState := projected, activeLogEnd := baseEnd, nextSequence := 1, activeLogBytes := 0,
        activeLogFrames := 0, activationSequence := sequence\<rparr>) vfs)
     \<lparr>metadataDirtySinceFlush := False, lastRepackReason := Some reason, pendingRepackReason := None,
      repackCount := repackCount vfs + 1\<rparr>"

text \<open>The tail of the arena that no allocated extent names; not trimming it does no harm.\<close>

definition trimArena :: "('w, 'h) store_ops \<Rightarrow> int \<Rightarrow> ('w, 'h, unit) vfs" where
  "trimArena ops requiredEnd =
     iocatch
       (iobind (arenaSizeChecked ops ''repack.arena.size-before-trim'') (\<lambda>arenaBytes.
        if arenaBytes > requiredEnd
        then iobind (setArenaDirty True) (\<lambda>_. truncateArena ops requiredEnd ''repack.arena.trim'')
        else ioret ()))
       (\<lambda>_. ioret ())"

definition repackBody ::
  "('w, 'h) store_ops \<Rightarrow> 'w vfs_clock \<Rightarrow> RepackReason \<Rightarrow> int \<Rightarrow> int \<Rightarrow> ('w, 'h, unit) vfs" where
  "repackBody ops clock reason sequence startedAt =
     iobind (materializePendingResize ops) (\<lambda>_.
     iobind (asksRes (preparedRepack sequence)) (\<lambda>(projected, base, activation).
     iobind (flushFile ops ArenaBin ''repack.arena.flush'' ArenaFlush) (\<lambda>_.
     iobind arenaClean (\<lambda>_.
     iobind (writeRepackedBase ops (metadataFileName (activeMetadataFile projected)) base) (\<lambda>_.
     iobind (writeActivation ops sequence activation) (\<lambda>_.
     iobind (updates (activated projected (int (length base)) sequence reason)) (\<lambda>_.
     iobind (orPoison (iobind (onHost (dateNow clock)) (\<lambda>now.
              updates (\<lambda>vfs. scheduleRepack (vfs\<lparr>lastRepackAtMs := now\<rparr>))))) (\<lambda>_.
     iobind (iolift (ebind (checkedMultiply (totalExtents (allocator projected)) (extentSize projected)) (\<lambda>len.
              checkedAdd ARENA_HEADER_BYTES len))) (\<lambda>requiredEnd.
     iobind (trimArena ops requiredEnd) (\<lambda>_.
     iobind (onHost (performanceNow clock)) (\<lambda>stopped.
       updates (\<lambda>vfs. vfs\<lparr>lastRepackDurationMs := Some (stopped - startedAt)\<rparr>))))))))))))"

text \<open>\<open>try { m } finally { step }\<close>\<close>

definition iofinally :: "('w, 'a) io \<Rightarrow> ('w \<Rightarrow> 'w) \<Rightarrow> ('w, 'a) io" where
  "iofinally m step w = (case m w of (r, w') \<Rightarrow> (r, step w'))"

definition repack :: "('w, 'h) store_ops \<Rightarrow> 'w vfs_clock \<Rightarrow> RepackReason \<Rightarrow> ('w, 'h, unit) vfs" where
  "repack ops clock reason =
     iobind assertHealthy (\<lambda>_.
     iobind (asks repacking) (\<lambda>busy.
     if busy then iofail HostError
     else
       iobind (asksRes (\<lambda>vfs. ebind (checkedAdd (generation (vfsState vfs)) 1) (\<lambda>_.
                 checkedAdd (activationSequence (vfsStore vfs)) 1))) (\<lambda>sequence.
       iobind (updates (\<lambda>vfs. vfs\<lparr>repacking := True\<rparr>)) (\<lambda>_.
       iobind (onHost (performanceNow clock)) (\<lambda>startedAt.
         iofinally (repackBody ops clock reason sequence startedAt)
           (\<lambda>(w, vfs). (w, vfs\<lparr>repacking := False\<rparr>)))))))"

definition amortizedFlush :: "('w, 'h) store_ops \<Rightarrow> ('w, 'h, unit) vfs" where
  "amortizedFlush ops =
     iobind (asks arenaDirtyBytesSinceFlush) (\<lambda>dirtyBytes.
       if dirtyBytes \<ge> AMORTIZED_ARENA_FLUSH_BYTES then
         orPoison (iobind (flushFile ops ArenaBin ''sync.arena.amortized.flush'' AmortizedFlush) (\<lambda>_. arenaClean))
       else ioret ())"

definition runScheduledRepack :: "('w, 'h) store_ops \<Rightarrow> 'w vfs_clock \<Rightarrow> int \<Rightarrow> ('w, 'h, bool) vfs" where
  "runScheduledRepack ops clock nowMs =
     iobind assertHealthy (\<lambda>_.
     if \<not> isSafeInteger nowMs \<or> nowMs < 0 then iofail TypeError
     else
       iobind (materializePendingResize ops) (\<lambda>_.
       iobind (amortizedFlush ops) (\<lambda>_.
       iobind (asks (dueRepackReason nowMs)) (\<lambda>due.
         case due of
           None \<Rightarrow> ioret False
         | Some reason \<Rightarrow>
             iobind (repack ops clock reason) (\<lambda>_.
             iobind (updates (\<lambda>vfs. vfs\<lparr>lastRepackAtMs := nowMs\<rparr>)) (\<lambda>_. ioret True))))))"

section \<open>Allocation under a quota\<close>

text \<open>\<open>allocatedOf\<close> is the field \<open>allocated\<close> of a plan.\<close>

definition retriedAllocation ::
  "('w, 'h) store_ops \<Rightarrow> 'w vfs_clock \<Rightarrow> ('p \<Rightarrow> int list) \<Rightarrow> ('w, 'h, 'p) vfs \<Rightarrow> ('w, 'h, 'p) vfs" where
  "retriedAllocation ops clock allocatedOf retry =
     iobind (repack ops clock QuotaReason) (\<lambda>_.
     iobind (repack ops clock QuotaReason) (\<lambda>_.
     iobind retry (\<lambda>retried.
     iobind (iocatch (prepareAllocated ops (allocatedOf retried))
               (\<lambda>cause. iofail (case cause of ArenaGrowthQuotaError inner \<Rightarrow> inner | _ \<Rightarrow> cause))) (\<lambda>_.
       ioret retried))))"

definition prepareAllocationWithQuotaRetry ::
  "('w, 'h) store_ops \<Rightarrow> 'w vfs_clock \<Rightarrow> ('p \<Rightarrow> int list) \<Rightarrow> 'p \<Rightarrow> ('w, 'h, 'p) vfs \<Rightarrow> ('w, 'h, 'p) vfs" where
  "prepareAllocationWithQuotaRetry ops clock allocatedOf initial retry =
     iocatch (iobind (prepareAllocated ops (allocatedOf initial)) (\<lambda>_. ioret initial))
       (\<lambda>cause. case cause of
          ArenaGrowthQuotaError _ \<Rightarrow> retriedAllocation ops clock allocatedOf retry
        | _ \<Rightarrow> iofail cause)"

end
