(* ===== verification/EnginePaths.thy ===== *)
theory EnginePaths
  imports EngineRepack "HOL-Library.List_Lexorder"
begin

text \<open>
  \<open>repacked-vfs.ts\<close>: the operations on paths. Every path is resolved once, a plan is made for the resolved
  one, and its record committed. A file that is removed or replaced while it is open lives on as an orphan
  of its descriptors.
\<close>

definition resolvePath :: "js_string \<Rightarrow> bool \<Rightarrow> ('w, 'h, js_string) vfs" where
  "resolvePath path follow = iobind assertHealthy (\<lambda>_. asksRes (resolveIn path follow))"

definition inodeAt :: "js_string \<Rightarrow> 'h RepackedVfs \<Rightarrow> Inode res" where
  "inodeAt path vfs = getInodeAtPath (vfsState vfs) path"

definition statFollowing :: "js_string \<Rightarrow> bool \<Rightarrow> 'h RepackedVfs \<Rightarrow> RepackedStat res" where
  "statFollowing path follow vfs =
     ebind (resolveIn path follow vfs) (\<lambda>resolved. ebind (inodeAt resolved vfs) statValue)"

definition stat :: "js_string \<Rightarrow> ('w, 'h, RepackedStat) vfs" where
  "stat path = iobind assertHealthy (\<lambda>_. asksRes (statFollowing path True))"

definition lstat :: "js_string \<Rightarrow> ('w, 'h, RepackedStat) vfs" where
  "lstat path = iobind assertHealthy (\<lambda>_. asksRes (statFollowing path False))"

definition readlink :: "js_string \<Rightarrow> ('w, 'h, js_string) vfs" where
  "readlink path =
     iobind assertHealthy (\<lambda>_. asksRes (\<lambda>vfs.
       ebind (resolveIn path False vfs) (\<lambda>resolved.
       ebind (inodeAt resolved vfs) (\<lambda>inode.
         case body inode of Symlink target \<Rightarrow> Inr target | _ \<Rightarrow> Inl (FsError EINVAL)))))"

text \<open>Strings are sorted by their code units.\<close>

definition sortNames :: "js_string list \<Rightarrow> js_string list" where
  "sortNames = sort_key (map uint)"

definition readdir :: "js_string \<Rightarrow> ('w, 'h, js_string list) vfs" where
  "readdir path =
     iobind assertHealthy (\<lambda>_. asksRes (\<lambda>vfs.
       ebind (resolveIn path True vfs) (\<lambda>resolved.
       ebind (inodeAt resolved vfs) (\<lambda>inode.
         case body inode of
           Directory entries \<Rightarrow> Inr (sortNames (map fst entries))
         | _ \<Rightarrow> Inl (FsError ENOTDIR)))))"

section \<open>Changing the tree\<close>

text \<open>Plan on the resolved path, commit the record.\<close>

definition commitPlanned ::
  "('w, 'h) store_ops \<Rightarrow> js_string \<Rightarrow> bool \<Rightarrow> (VfsState \<Rightarrow> js_string \<Rightarrow> TxnRecord res) \<Rightarrow> ('w, 'h, unit) vfs" where
  "commitPlanned ops path follow plan =
     iobind assertHealthy (\<lambda>_.
     iobind (asksRes (resolveIn path follow)) (\<lambda>resolved.
     iobind (asksRes (\<lambda>vfs. plan (vfsState vfs) resolved)) (\<lambda>txn.
       commit ops txn None)))"

definition symlink :: "('w, 'h) store_ops \<Rightarrow> js_string \<Rightarrow> js_string \<Rightarrow> int \<Rightarrow> ('w, 'h, unit) vfs" where
  "symlink ops target path nowMs =
     commitPlanned ops path False (\<lambda>state resolved. planSymlink state resolved target None nowMs)"

definition mkdir :: "('w, 'h) store_ops \<Rightarrow> js_string \<Rightarrow> bool \<Rightarrow> int option \<Rightarrow> int \<Rightarrow> ('w, 'h, unit) vfs" where
  "mkdir ops path recursive mode nowMs =
     commitPlanned ops path False (\<lambda>state resolved. planMkdir state resolved recursive mode nowMs)"

definition chmod :: "('w, 'h) store_ops \<Rightarrow> js_string \<Rightarrow> int \<Rightarrow> int \<Rightarrow> ('w, 'h, unit) vfs" where
  "chmod ops path mode nowMs =
     commitPlanned ops path True (\<lambda>state resolved. planChmod state resolved mode nowMs)"

definition utimes :: "('w, 'h) store_ops \<Rightarrow> js_string \<Rightarrow> int \<Rightarrow> int \<Rightarrow> int \<Rightarrow> ('w, 'h, unit) vfs" where
  "utimes ops path atime mtime ctime =
     commitPlanned ops path True (\<lambda>state resolved. planUtimes state resolved atime mtime ctime)"

definition rmdir :: "('w, 'h) store_ops \<Rightarrow> js_string \<Rightarrow> int \<Rightarrow> ('w, 'h, unit) vfs" where
  "rmdir ops path nowMs = commitPlanned ops path False (\<lambda>state resolved. planRmdir state resolved nowMs)"

section \<open>Orphans\<close>

text \<open>The open descriptors of a file that is still linked.\<close>

definition linkedDescriptors :: "int \<Rightarrow> 'h RepackedVfs \<Rightarrow> int list" where
  "linkedDescriptors iid vfs =
     map fst (filter (\<lambda>(fd, d). descOrphan d = None \<and> descInodeId d = iid) (descriptors vfs))"

definition affectedBy :: "Inode \<Rightarrow> 'h RepackedVfs \<Rightarrow> int list" where
  "affectedBy inode vfs =
     (case body inode of File _ _ \<Rightarrow> linkedDescriptors (inodeId inode) vfs | _ \<Rightarrow> [])"

definition orphanOf :: "Inode \<Rightarrow> OrphanRecord" where
  "orphanOf inode =
     (case body inode of
        File n extents \<Rightarrow> makeOrphanRecord inode n extents
      | _ \<Rightarrow> makeOrphanRecord inode 0 [])"

text \<open>The affected descriptors share one new orphan.\<close>

definition orphaned :: "int list \<Rightarrow> OrphanRecord \<Rightarrow> 'h RepackedVfs \<Rightarrow> 'h RepackedVfs" where
  "orphaned affected orphan vfs =
     (if affected = [] then vfs
      else vfs\<lparr>orphans := orphans vfs @ [orphan],
               descriptors := map (\<lambda>(fd, d).
                 (fd, if fd \<in> set affected then d\<lparr>descOrphan := Some (length (orphans vfs))\<rparr> else d))
                 (descriptors vfs)\<rparr>)"

definition unlink :: "('w, 'h) store_ops \<Rightarrow> js_string \<Rightarrow> int \<Rightarrow> ('w, 'h, unit) vfs" where
  "unlink ops path nowMs =
     iobind assertHealthy (\<lambda>_.
     iobind (asksRes (resolveIn path False)) (\<lambda>resolved.
     iobind (asksRes (inodeAt resolved)) (\<lambda>inode.
     if isDirectory inode then iofail (FsError EISDIR)
     else
       iobind (asks (affectedBy inode)) (\<lambda>affected.
       iobind (asksRes (\<lambda>vfs. planUnlink (vfsState vfs) resolved nowMs)) (\<lambda>txn.
       iobind (commit ops txn None) (\<lambda>_.
         updates (orphaned affected (orphanOf inode))))))))"

text \<open>A destination that does not exist is no error; nor does a link or a directory leave an orphan.\<close>

definition replacedFile :: "js_string \<Rightarrow> 'h RepackedVfs \<Rightarrow> Inode option res" where
  "replacedFile path vfs =
     (case inodeAt path vfs of
        Inr inode \<Rightarrow> Inr (case body inode of File _ _ \<Rightarrow> Some inode | _ \<Rightarrow> None)
      | Inl cause \<Rightarrow> if cause = FsError ENOENT then Inr None else Inl cause)"

definition rename :: "('w, 'h) store_ops \<Rightarrow> js_string \<Rightarrow> js_string \<Rightarrow> int \<Rightarrow> ('w, 'h, unit) vfs" where
  "rename ops oldPath newPath nowMs =
     iobind assertHealthy (\<lambda>_.
     iobind (asksRes (resolveIn oldPath False)) (\<lambda>oldResolved.
     iobind (asksRes (resolveIn newPath False)) (\<lambda>newResolved.
     iobind (asksRes (replacedFile newResolved)) (\<lambda>destination.
     iobind (asks (\<lambda>vfs. case destination of None \<Rightarrow> [] | Some inode \<Rightarrow> affectedBy inode vfs)) (\<lambda>affected.
     iobind (asksRes (\<lambda>vfs. planRename (vfsState vfs) oldResolved newResolved nowMs)) (\<lambda>txn.
     iobind (commit ops txn None) (\<lambda>_.
       case destination of
         None \<Rightarrow> ioret ()
       | Some inode \<Rightarrow> updates (orphaned affected (orphanOf inode)))))))))"

section \<open>Closing\<close>

text \<open>Every handle is closed; the first failure is reported.\<close>

fun closeEach :: "('w, 'h) store_ops \<Rightarrow> 'h list \<Rightarrow> store_error option \<Rightarrow> 'w \<Rightarrow> store_error option \<times> 'w" where
  "closeEach ops [] firstError w = (firstError, w)"
| "closeEach ops (handle # rest) firstError w =
     (case opClose ops handle w of
        (Inr _, w') \<Rightarrow> closeEach ops rest firstError w'
      | (Inl cause, w') \<Rightarrow>
          closeEach ops rest (case firstError of None \<Rightarrow> Some cause | Some e \<Rightarrow> Some e) w')"

definition vfsCloseHandles :: "('w, 'h) store_ops \<Rightarrow> ('w, 'h, store_error option) vfs" where
  "vfsCloseHandles ops we =
     (case closeEach ops (map (\<lambda>name. fileOf name (snd we)) [MetadataBBin, MetadataABin, ArenaBin, ActivationBin])
             None (fst we) of
        (firstError, w') \<Rightarrow> (Inr firstError, (w', snd we)))"

definition closeDescriptor :: "int \<Rightarrow> ('w, 'h, unit) vfs" where
  "closeDescriptor fd =
     iobind assertHealthy (\<lambda>_.
     iobind (asks (\<lambda>vfs. map_of (descriptors vfs) fd)) (\<lambda>found.
       case found of
         None \<Rightarrow> iofail (FsError EBADF)
       | Some _ \<Rightarrow> updates (\<lambda>vfs. vfs\<lparr>descriptors := filter (\<lambda>(k, _). k \<noteq> fd) (descriptors vfs)\<rparr>)))"

definition shut :: "'h RepackedVfs \<Rightarrow> 'h RepackedVfs" where
  "shut vfs = vfs\<lparr>vfsStatus := StatusClosed, descriptors := []\<rparr>"

definition raise :: "store_error option \<Rightarrow> ('w, unit) io" where
  "raise failure = (case failure of None \<Rightarrow> ioret () | Some cause \<Rightarrow> iofail cause)"

definition closeVfs :: "('w, 'h) store_ops \<Rightarrow> ('w, 'h, unit) vfs" where
  "closeVfs ops =
     iobind (asks vfsStatus) (\<lambda>status.
       case status of
         StatusClosed \<Rightarrow> ioret ()
       | _ \<Rightarrow>
           iobind (case status of
                     StatusFailed cause \<Rightarrow> ioret (Inl (StoreFailedError cause))
                   | _ \<Rightarrow> iotry (strictSync ops)) (\<lambda>synced.
           iobind (updates shut) (\<lambda>_.
           iobind (vfsCloseHandles ops) (\<lambda>closeError.
             raise (case synced of Inl cause \<Rightarrow> Some cause | Inr _ \<Rightarrow> closeError)))))"

definition cleanupFailedInit :: "('w, 'h) store_ops \<Rightarrow> ('w, 'h, unit) vfs" where
  "cleanupFailedInit ops =
     iobind (asks vfsStatus) (\<lambda>status.
       if status = StatusClosed then ioret ()
       else
         iobind (updates shut) (\<lambda>_.
         iobind (vfsCloseHandles ops) raise))"

section \<open>Metrics\<close>

record RepackedVfsMetrics =
  metricGeneration :: int
  metricTotalExtents :: int
  metricAvailableExtents :: nat
  metricQuarantineExtents :: nat
  metricQuarantineBytes :: int
  metricActiveLogBytes :: int
  metricActiveLogFrames :: int
  metricLastRepackReason :: "RepackReason option"
  metricLastRepackDurationMs :: "int option"
  metricRepackCount :: int
  metricPendingRepackReason :: "RepackReason option"
  metricFlushes :: "FlushKind \<Rightarrow> int"

definition metricsOf :: "'h RepackedVfs \<Rightarrow> RepackedVfsMetrics" where
  "metricsOf vfs =
     (let store = vfsStore vfs; alloc = allocator (storeState store) in
      \<lparr>metricGeneration = generation (storeState store), metricTotalExtents = totalExtents alloc,
       metricAvailableExtents = sizeExtent (available alloc),
       metricQuarantineExtents = length (quarantine alloc),
       metricQuarantineBytes = int (length (quarantine alloc)) * extentSize (storeState store),
       metricActiveLogBytes = activeLogBytes store, metricActiveLogFrames = activeLogFrames store,
       metricLastRepackReason = lastRepackReason vfs, metricLastRepackDurationMs = lastRepackDurationMs vfs,
       metricRepackCount = repackCount vfs, metricPendingRepackReason = pendingRepackReason vfs,
       metricFlushes = flushes vfs\<rparr>)"

definition metrics :: "('w, 'h, RepackedVfsMetrics) vfs" where
  "metrics = iobind assertHealthy (\<lambda>_. asks metricsOf)"

end
