(* ===== verification/EngineFiles.thy ===== *)
theory EngineFiles
  imports EnginePaths
begin

text \<open>
  \<open>repacked-vfs.ts\<close>: the operations on file data. A growing write plans its extents, prepares them, writes
  the data and only then commits the new size; a write the platform cut short commits the part that
  arrived.
\<close>

section \<open>Plans\<close>

definition plannedRuns :: "TxnRecord \<Rightarrow> ExtentRun list" where
  "plannedRuns txn =
     (case txn of
        CreateFile _ _ runs \<Rightarrow> runs
      | ResizeFile _ _ _ runs _ _ \<Rightarrow> runs
      | ReserveQuarantine runs \<Rightarrow> runs
      | _ \<Rightarrow> [])"

definition plannedExtents :: "TxnRecord \<Rightarrow> int list res" where
  "plannedExtents txn = expandExtentRuns (plannedRuns txn) MAX_EXTENTS_PER_INODE"

definition plannedSize :: "TxnRecord \<Rightarrow> int" where
  "plannedSize txn = (case txn of ResizeFile _ _ n _ _ _ \<Rightarrow> n | _ \<Rightarrow> 0)"

definition fileAt :: "js_string \<Rightarrow> 'h RepackedVfs \<Rightarrow> (Inode \<times> int \<times> int list) res" where
  "fileAt path vfs =
     ebind (inodeAt path vfs) (\<lambda>inode.
       case body inode of File n extents \<Rightarrow> Inr (inode, n, extents) | _ \<Rightarrow> Inl (FsError EISDIR))"

text \<open>A write that made no progress has an error: its range is not empty.\<close>

definition progressCause :: "WriteProgress \<Rightarrow> store_error" where
  "progressCause progress = (case progressError progress of Some cause \<Rightarrow> cause | None \<Rightarrow> HostError)"

section \<open>Whole files\<close>

definition readFile :: "('w, 'h) store_ops \<Rightarrow> js_string \<Rightarrow> ('w, 'h, byte list) vfs" where
  "readFile ops path =
     iobind assertHealthy (\<lambda>_.
     iobind (asksRes (resolveIn path True)) (\<lambda>resolved.
     iobind (asksRes (fileAt resolved)) (\<lambda>(inode, n, extents).
     iobind (iolift (checkedSafeNumber n)) (\<lambda>len.
       readLogical ops extents 0 (zeros (nat len))))))"

datatype FileData = TextData js_string | BinaryData "byte list"

record WriteFileOptions =
  optEncoding :: "string option"
  optMode :: "int option"
  optFlag :: "string option"
  optNowMs :: int

record WriteFilePlan =
  wfpExisting :: "(Inode \<times> int \<times> int list) option"
  wfpStart :: int
  wfpRecord :: TxnRecord
  wfpCommit :: PreparedCommit
  wfpAllocated :: "int list"

definition fileBytes :: "FileData \<Rightarrow> string option \<Rightarrow> byte list res" where
  "fileBytes content encoding =
     (case content of
        TextData text \<Rightarrow>
          ebind (validateEncoding (case encoding of None \<Rightarrow> ''utf8'' | Some e \<Rightarrow> e)) (\<lambda>_. Inr (utf8Encode text))
      | BinaryData source \<Rightarrow> Inr source)"

text \<open>The file at a path that need not exist.\<close>

definition existingFile :: "js_string \<Rightarrow> 'h RepackedVfs \<Rightarrow> (Inode \<times> int \<times> int list) option res" where
  "existingFile path vfs =
     (case fileAt path vfs of
        Inr found \<Rightarrow> Inr (Some found)
      | Inl cause \<Rightarrow> if cause = FsError ENOENT then Inr None else Inl cause)"

definition targetSize :: "ParsedFlags \<Rightarrow> int option \<Rightarrow> int \<Rightarrow> int res" where
  "targetSize flags current n =
     (case current of
        None \<Rightarrow> Inr n
      | Some present \<Rightarrow>
          if flagAppend flags then checkedAdd present n
          else if flagTruncate flags then Inr n
          else Inr (max present n))"

definition sizePlan ::
  "js_string \<Rightarrow> WriteFileOptions \<Rightarrow> bool \<Rightarrow> int \<Rightarrow> VfsState \<Rightarrow> TxnRecord res" where
  "sizePlan path options present n state =
     (if present then planResizeFile state path n (optNowMs options) WriteOp
      else planCreateFile state path (optMode options) (optNowMs options) (Some n))"

definition writeFilePlan ::
  "js_string \<Rightarrow> WriteFileOptions \<Rightarrow> ParsedFlags \<Rightarrow> bool \<Rightarrow> int \<Rightarrow> 'h RepackedVfs \<Rightarrow> WriteFilePlan res" where
  "writeFilePlan path options flags wasExisting n vfs =
     ebind (if wasExisting then ebind (fileAt path vfs) (\<lambda>found. Inr (Some found)) else Inr None) (\<lambda>current.
     let start = (case current of Some (_, present, _) \<Rightarrow> if flagAppend flags then present else 0 | None \<Rightarrow> 0) in
     ebind (targetSize flags (map_option (\<lambda>(_, present, _). present) current) n) (\<lambda>target.
     ebind (sizePlan path options (current \<noteq> None) target (vfsState vfs)) (\<lambda>txn.
     ebind (preflightCommit txn vfs) (\<lambda>prepared.
     ebind (plannedExtents txn) (\<lambda>allocated.
       Inr \<lparr>wfpExisting = current, wfpStart = start, wfpRecord = txn, wfpCommit = prepared,
            wfpAllocated = allocated\<rparr>)))))"

text \<open>The size the file has once \<open>n\<close> bytes of the data have arrived.\<close>

definition partialSize :: "ParsedFlags \<Rightarrow> int option \<Rightarrow> int \<Rightarrow> int \<Rightarrow> int res" where
  "partialSize flags current start n =
     (case current of
        Some present \<Rightarrow>
          if flagTruncate flags then Inr n
          else ebind (checkedAdd start n) (\<lambda>stop. Inr (max present stop))
      | None \<Rightarrow> Inr n)"

definition writeFileData ::
  "('w, 'h) store_ops \<Rightarrow> js_string \<Rightarrow> WriteFileOptions \<Rightarrow> ParsedFlags \<Rightarrow> byte list \<Rightarrow> WriteFilePlan \<Rightarrow> ('w, 'h, unit) vfs" where
  "writeFileData ops path options flags source plan =
     (if source = [] then commit ops (wfpRecord plan) (Some (wfpCommit plan))
      else
        let current = map_option (\<lambda>(_, present, _). present) (wfpExisting plan);
            extents = (case wfpExisting plan of Some (_, _, extents) \<Rightarrow> extents | None \<Rightarrow> [])
        in
        iobind (writeLogical ops extents (wfpStart plan) source ''arena.write-file'' (wfpAllocated plan)) (\<lambda>progress.
        if progressBytes progress = 0 then failStore (progressCause progress)
        else
          iobind (iolift (partialSize flags current (wfpStart plan) (progressBytes progress))) (\<lambda>reached.
          let whole = progressBytes progress = int (length source) in
          iobind (if whole then ioret (wfpRecord plan)
                  else asksRes (\<lambda>vfs. sizePlan path options (current \<noteq> None) reached (vfsState vfs))) (\<lambda>txn.
          iobind (if progressError progress = None \<or> current \<noteq> Some reached
                  then commit ops txn (if whole then Some (wfpCommit plan) else None)
                  else ioret ()) (\<lambda>_.
            raise (progressError progress))))))"

definition writeFile ::
  "('w, 'h) store_ops \<Rightarrow> 'w vfs_clock \<Rightarrow> js_string \<Rightarrow> FileData \<Rightarrow> WriteFileOptions \<Rightarrow> ('w, 'h, unit) vfs" where
  "writeFile ops clock path content options =
     iobind assertHealthy (\<lambda>_.
     iobind (asksRes (resolveIn path True)) (\<lambda>resolved.
     iobind (iolift (parseFlags (case optFlag options of None \<Rightarrow> ''w'' | Some flag \<Rightarrow> flag))) (\<lambda>flags.
     if \<not> flagWritable flags then iofail (FsError EBADF)
     else
       iobind (iolift (fileBytes content (optEncoding options))) (\<lambda>source.
       iobind (iolift (checkedU64 (optNowMs options))) (\<lambda>_.
       iobind (asksRes (existingFile resolved)) (\<lambda>existing.
       if existing \<noteq> None \<and> flagCreate flags \<and> flagExclusive flags then iofail (FsError EEXIST)
       else if existing = None \<and> \<not> flagCreate flags then iofail (FsError ENOENT)
       else if source = [] \<and> existing \<noteq> None \<and> \<not> flagTruncate flags then ioret ()
       else
         let buildPlan = asksRes (writeFilePlan resolved options flags (existing \<noteq> None) (int (length source))) in
         iobind buildPlan (\<lambda>initial.
         iobind (prepareAllocationWithQuotaRetry ops clock wfpAllocated initial buildPlan) (\<lambda>plan.
           writeFileData ops resolved options flags source plan))))))))"

section \<open>Truncating\<close>

record ResizePlan =
  rpExtents :: "int list"
  rpSize :: int
  rpRecord :: TxnRecord
  rpCommit :: PreparedCommit
  rpAllocated :: "int list"
  rpArenaSizeBefore :: int

definition flushIfTouched :: "('w, 'h) store_ops \<Rightarrow> bool \<Rightarrow> ('w, 'h, unit) vfs" where
  "flushIfTouched ops touched = (if touched then flushPreparedArena ops ''arena.gap-zero.flush'' else ioret ())"

definition extensionPlan ::
  "('w, 'h) store_ops \<Rightarrow> js_string \<Rightarrow> int \<Rightarrow> int \<Rightarrow> ('w, 'h, ResizePlan) vfs" where
  "extensionPlan ops path n nowMs =
     iobind (asksRes (fileAt path)) (\<lambda>(inode, present, extents).
     iobind (asksRes (\<lambda>vfs. planResizeFile (vfsState vfs) path n nowMs TruncateOp)) (\<lambda>txn.
     iobind (asksRes (preflightCommit txn)) (\<lambda>prepared.
     iobind (iolift (plannedExtents txn)) (\<lambda>allocated.
     iobind (arenaSizeChecked ops ''arena.size.before-extension'') (\<lambda>arenaSizeBefore.
       ioret \<lparr>rpExtents = extents, rpSize = present, rpRecord = txn, rpCommit = prepared,
              rpAllocated = allocated, rpArenaSizeBefore = arenaSizeBefore\<rparr>)))))"

definition truncatePath ::
  "('w, 'h) store_ops \<Rightarrow> 'w vfs_clock \<Rightarrow> js_string \<Rightarrow> int \<Rightarrow> int \<Rightarrow> ('w, 'h, unit) vfs" where
  "truncatePath ops clock path n nowMs =
     iobind assertHealthy (\<lambda>_.
     iobind (asksRes (resolveIn path True)) (\<lambda>resolved.
     iobind (asksRes (fileAt resolved)) (\<lambda>(inode, present, extents).
     if n = present then ioret ()
     else if n > present then
       iobind (extensionPlan ops resolved n nowMs) (\<lambda>initial.
       iobind (prepareAllocationWithQuotaRetry ops clock rpAllocated initial (extensionPlan ops resolved n nowMs)) (\<lambda>plan.
       iobind (zeroLogical ops (rpExtents plan) (rpSize plan) (n - rpSize plan) (rpArenaSizeBefore plan)
                 (rpAllocated plan)) (\<lambda>touched.
       iobind (flushIfTouched ops touched) (\<lambda>_.
         commit ops (rpRecord plan) (Some (rpCommit plan))))))
     else
       iobind (asksRes (\<lambda>vfs. planResizeFile (vfsState vfs) resolved n nowMs TruncateOp)) (\<lambda>txn.
       iobind (asksRes (preflightCommit txn)) (\<lambda>prepared.
         commit ops txn (Some prepared))))))"

section \<open>Descriptors\<close>

definition openExisting ::
  "('w, 'h) store_ops \<Rightarrow> 'w vfs_clock \<Rightarrow> js_string \<Rightarrow> ParsedFlags \<Rightarrow> int \<Rightarrow> ('w, 'h, Inode \<times> int \<times> int list) vfs" where
  "openExisting ops clock path flags nowMs =
     iobind (asksRes (fileAt path)) (\<lambda>found.
     if flagExclusive flags \<and> flagCreate flags then iofail (FsError EEXIST)
     else if flagTruncate flags then
       iobind (truncatePath ops clock path 0 nowMs) (\<lambda>_. asksRes (fileAt path))
     else ioret found)"

definition openDescriptor :: "ParsedFlags \<Rightarrow> Inode \<Rightarrow> int \<Rightarrow> ('w, 'h, int) vfs" where
  "openDescriptor flags inode n =
     iobind (asks nextDescriptor) (\<lambda>fd.
     iobind (updates (\<lambda>vfs. vfs\<lparr>nextDescriptor := fd + 1,
        descriptors := descriptors vfs @ [(fd, \<lparr>descInodeId = inodeId inode,
          descOffset = (if flagAppend flags then n else 0), descReadable = flagReadable flags,
          descWritable = flagWritable flags, descAppend = flagAppend flags, descOrphan = None\<rparr>)]\<rparr>)) (\<lambda>_.
       ioret fd))"

definition open_file ::
  "('w, 'h) store_ops \<Rightarrow> 'w vfs_clock \<Rightarrow> js_string \<Rightarrow> string \<Rightarrow> int \<Rightarrow> int \<Rightarrow> ('w, 'h, int) vfs" where
  "open_file ops clock path flags mode nowMs =
     iobind assertHealthy (\<lambda>_.
     iobind (asksRes (resolveIn path True)) (\<lambda>resolved.
     iobind (iolift (parseFlags flags)) (\<lambda>parsed.
     iobind (iocatch (openExisting ops clock resolved parsed nowMs) (\<lambda>cause.
               if cause \<noteq> FsError ENOENT \<or> \<not> flagCreate parsed then iofail cause
               else
                 iobind (asksRes (\<lambda>vfs. planCreateFile (vfsState vfs) resolved (Some mode) nowMs (Some 0))) (\<lambda>txn.
                 iobind (commit ops txn None) (\<lambda>_. asksRes (fileAt resolved))))) (\<lambda>(inode, n, extents).
       openDescriptor parsed inode n))))"

text \<open>The file a descriptor reads and writes: its orphan, else the linked file. Size and extents.\<close>

definition descriptorFile :: "Descriptor \<Rightarrow> 'h RepackedVfs \<Rightarrow> (int \<times> int list) res" where
  "descriptorFile d vfs =
     (case descOrphan d of
        Some i \<Rightarrow> Inr (orphanSize (orphans vfs ! i), orphanExtents (orphans vfs ! i))
      | None \<Rightarrow> ebind (linkedFile (descInodeId d) vfs) (\<lambda>(inode, n, extents). Inr (n, extents)))"

definition fstat :: "int \<Rightarrow> ('w, 'h, RepackedStat) vfs" where
  "fstat fd =
     iobind assertHealthy (\<lambda>_. asksRes (\<lambda>vfs.
       ebind (descriptor fd vfs) (\<lambda>d.
         case descOrphan d of
           Some i \<Rightarrow> Inr (statOrphan (orphans vfs ! i))
         | None \<Rightarrow> ebind (linkedFile (descInodeId d) vfs) (\<lambda>(inode, n, extents). statValue inode))))"

definition moveOffset :: "int \<Rightarrow> int option \<Rightarrow> int \<Rightarrow> ('w, 'h, unit) vfs" where
  "moveOffset fd position n =
     (case position of
        None \<Rightarrow> updates (setDescriptor fd (\<lambda>d. d\<lparr>descOffset := n\<rparr>))
      | Some _ \<Rightarrow> ioret ())"

text \<open>Reading fills a part of the buffer: the count and the buffer afterwards.\<close>

definition read_file ::
  "('w, 'h) store_ops \<Rightarrow> int \<Rightarrow> byte list \<Rightarrow> int \<Rightarrow> int \<Rightarrow> int option \<Rightarrow> ('w, 'h, int \<times> byte list) vfs" where
  "read_file ops fd buffer offset len position =
     iobind assertHealthy (\<lambda>_.
     iobind (iolift (validateBufferRange buffer offset len)) (\<lambda>_.
     iobind (asksRes (descriptor fd)) (\<lambda>d.
     if \<not> descReadable d then iofail (FsError EBADF)
     else
       iobind (asksRes (descriptorFile d)) (\<lambda>(n, extents).
       let start = (case position of Some at \<Rightarrow> at | None \<Rightarrow> descOffset d) in
       if start < 0 then iofail (FsError EINVAL)
       else
         iobind (if start \<ge> n then ioret 0
                 else iobind (iolift (checkedSafeNumber (n - start))) (\<lambda>rest. ioret (min len rest))) (\<lambda>available.
         iobind (if available > 0
                 then iobind (readLogical ops extents start (take (nat available) (drop (nat offset) buffer))) (\<lambda>part.
                        ioret (fillFrom offset part buffer))
                 else ioret buffer) (\<lambda>filled.
         iobind (moveOffset fd position (start + available)) (\<lambda>_.
           ioret (available, filled))))))))"

end
