(* ===== verification/EngineWrite.thy ===== *)
theory EngineWrite
  imports EngineFiles
begin

text \<open>
  \<open>repacked-vfs.ts\<close>: \<open>write\<close> on a descriptor. Where a limit refuses a write, the longest prefix it admits
  is looked for by bisection; an orphan grows into extents reserved in the quarantine.
\<close>

section \<open>The longest admitted prefix\<close>

text \<open>
  The two searches of the source differ in the attempt only. An attempt depends on the state alone. The
  bisection does not assume that a longer prefix is refused whenever a shorter one is.
\<close>

function bisect :: "(int \<Rightarrow> 'p res) \<Rightarrow> int \<Rightarrow> int \<Rightarrow> int \<Rightarrow> 'p option \<Rightarrow> (int \<times> 'p option) res" where
  "bisect attempt low high admitted best =
     (if low \<le> high then
        let candidate = low + (high - low) div 2 in
        (case attempt candidate of
           Inr plan \<Rightarrow> bisect attempt (candidate + 1) high candidate (Some plan)
         | Inl cause \<Rightarrow>
             if cause = StoreLimitError then bisect attempt low (candidate - 1) admitted best else Inl cause)
      else Inr (admitted, best))"
  by pat_completeness auto
termination
  by (relation "measure (\<lambda>(attempt, low, high, admitted, best). nat (high - low + 1))") auto

declare bisect.simps [simp del]

definition longestAdmitted :: "(int \<Rightarrow> 'p res) \<Rightarrow> int \<Rightarrow> (int \<times> 'p) res" where
  "longestAdmitted attempt requested =
     (case attempt requested of
        Inr plan \<Rightarrow> Inr (requested, plan)
      | Inl cause \<Rightarrow>
          if cause \<noteq> StoreLimitError then Inl cause
          else
            ebind (bisect attempt 0 (requested - 1) 0 None) (\<lambda>(admitted, best).
              if admitted = 0 then Inl cause else Inr (admitted, the best)))"

definition attemptLinked ::
  "Inode \<Rightarrow> int \<Rightarrow> int \<Rightarrow> int \<Rightarrow> 'h RepackedVfs \<Rightarrow> int \<Rightarrow> (TxnRecord \<times> PreparedCommit) option res" where
  "attemptLinked inode present start nowMs vfs n =
     ebind (checkedAdd start n) (\<lambda>stop.
     if stop \<le> present then Inr None
     else
       ebind (planResizeFileForInode (vfsState vfs) inode stop nowMs WriteOp) (\<lambda>txn.
       ebind (preflightCommit txn vfs) (\<lambda>prepared. Inr (Some (txn, prepared)))))"

definition planLinkedWrite ::
  "Inode \<Rightarrow> int \<Rightarrow> int \<Rightarrow> int \<Rightarrow> int \<Rightarrow> 'h RepackedVfs \<Rightarrow> (int \<times> (TxnRecord \<times> PreparedCommit) option) res" where
  "planLinkedWrite inode present start requested nowMs vfs =
     longestAdmitted (attemptLinked inode present start nowMs vfs) requested"

definition attemptOrphan :: "OrphanRecord \<Rightarrow> int \<Rightarrow> 'h RepackedVfs \<Rightarrow> int \<Rightarrow> TxnRecord option res" where
  "attemptOrphan orphan start vfs n =
     ebind (checkedAdd start n) (\<lambda>stop.
     ebind (extentCount stop vfs) (\<lambda>required.
     let additional = max 0 (required - int (length (orphanExtents orphan))) in
     if additional = 0 then Inr None
     else
       ebind (planReserveQuarantine (vfsState vfs) additional) (\<lambda>txn.
       ebind (preflightCommit txn vfs) (\<lambda>_. Inr (Some txn)))))"

definition planOrphanWrite ::
  "OrphanRecord \<Rightarrow> int \<Rightarrow> int \<Rightarrow> 'h RepackedVfs \<Rightarrow> (int \<times> TxnRecord option) res" where
  "planOrphanWrite orphan start requested vfs = longestAdmitted (attemptOrphan orphan start vfs) requested"

section \<open>Writing an orphan\<close>

record OrphanWritePlan =
  owpLength :: int
  owpReservation :: "TxnRecord option"
  owpAllocated :: "int list"
  owpArenaSizeBefore :: int

definition orphanWritePlan ::
  "('w, 'h) store_ops \<Rightarrow> nat \<Rightarrow> int \<Rightarrow> int \<Rightarrow> ('w, 'h, OrphanWritePlan) vfs" where
  "orphanWritePlan ops i start requested =
     iobind (asksRes (\<lambda>vfs. planOrphanWrite (orphans vfs ! i) start requested vfs)) (\<lambda>(admitted, reservation).
     iobind (iolift (case reservation of None \<Rightarrow> Inr [] | Some txn \<Rightarrow> plannedExtents txn)) (\<lambda>allocated.
     iobind (arenaSizeChecked ops ''arena.size.before-orphan-extension'') (\<lambda>arenaSizeBefore.
       ioret \<lparr>owpLength = admitted, owpReservation = reservation, owpAllocated = allocated,
              owpArenaSizeBefore = arenaSizeBefore\<rparr>)))"

definition extendOrphan :: "('w, 'h) store_ops \<Rightarrow> nat \<Rightarrow> OrphanWritePlan \<Rightarrow> ('w, 'h, unit) vfs" where
  "extendOrphan ops i plan =
     (case owpReservation plan of
        None \<Rightarrow> ioret ()
      | Some txn \<Rightarrow>
          iobind (commit ops txn None) (\<lambda>_.
            updates (setOrphan i (\<lambda>orphan. orphan\<lparr>orphanExtents := orphanExtents orphan @ owpAllocated plan\<rparr>))))"

definition zeroOrphanGap :: "('w, 'h) store_ops \<Rightarrow> nat \<Rightarrow> int \<Rightarrow> int \<Rightarrow> ('w, 'h, unit) vfs" where
  "zeroOrphanGap ops i start arenaSizeBefore =
     iobind (asks (\<lambda>vfs. orphans vfs ! i)) (\<lambda>orphan.
     if start > orphanSize orphan then
       iobind (zeroLogical ops (orphanExtents orphan) (orphanSize orphan) (start - orphanSize orphan)
                 arenaSizeBefore []) (flushIfTouched ops)
     else ioret ())"

definition orphanWritten :: "int \<Rightarrow> int \<Rightarrow> OrphanRecord \<Rightarrow> OrphanRecord" where
  "orphanWritten completedEnd nowMs orphan =
     orphan\<lparr>orphanSize := max (orphanSize orphan) completedEnd, orphanMtimeMs := nowMs, orphanCtimeMs := nowMs\<rparr>"

definition writeOrphan ::
  "('w, 'h) store_ops \<Rightarrow> 'w vfs_clock \<Rightarrow> int \<Rightarrow> Descriptor \<Rightarrow> nat \<Rightarrow> byte list \<Rightarrow> int option \<Rightarrow> int \<Rightarrow> ('w, 'h, int) vfs" where
  "writeOrphan ops clock fd d i source position nowMs =
     iobind (asks (\<lambda>vfs. orphans vfs ! i)) (\<lambda>orphan.
     let start = (if descAppend d then orphanSize orphan
                  else case position of Some at \<Rightarrow> at | None \<Rightarrow> descOffset d) in
     if start < 0 then iofail (FsError EINVAL)
     else if source = [] then ioret 0
     else
       let buildPlan = orphanWritePlan ops i start (int (length source)) in
       iobind buildPlan (\<lambda>initial.
       iobind (prepareAllocationWithQuotaRetry ops clock owpAllocated initial buildPlan) (\<lambda>plan.
       iobind (extendOrphan ops i plan) (\<lambda>_.
       iobind (zeroOrphanGap ops i start (owpArenaSizeBefore plan)) (\<lambda>_.
       iobind (asks (\<lambda>vfs. orphanExtents (orphans vfs ! i))) (\<lambda>extents.
       iobind (writeLogical ops extents start (take (nat (owpLength plan)) source) ''arena.write'' []) (\<lambda>progress.
       if progressBytes progress = 0 then failStore (progressCause progress)
       else
         iobind (iolift (checkedAdd start (progressBytes progress))) (\<lambda>completedEnd.
         iobind (updates (setOrphan i (orphanWritten completedEnd nowMs))) (\<lambda>_.
         iobind (moveOffset fd position completedEnd) (\<lambda>_.
           ioret (progressBytes progress)))))))))))"

section \<open>Writing a linked file\<close>

record LinkedWritePlan =
  lwpInode :: Inode
  lwpSize :: int
  lwpExtents :: "int list"
  lwpLength :: int
  lwpPlan :: "(TxnRecord \<times> PreparedCommit) option"
  lwpAllocated :: "int list"
  lwpArenaSizeBefore :: int

definition linkedWritePlan ::
  "('w, 'h) store_ops \<Rightarrow> int \<Rightarrow> int \<Rightarrow> int \<Rightarrow> int \<Rightarrow> ('w, 'h, LinkedWritePlan) vfs" where
  "linkedWritePlan ops iid start requested nowMs =
     iobind (asksRes (linkedFile iid)) (\<lambda>(inode, present, extents).
     iobind (asksRes (planLinkedWrite inode present start requested nowMs)) (\<lambda>(admitted, plan).
     iobind (iolift (case plan of None \<Rightarrow> Inr [] | Some (txn, _) \<Rightarrow> plannedExtents txn)) (\<lambda>allocated.
     iobind (if start > present then arenaSizeChecked ops ''arena.size.before-write-extension'' else ioret 0)
       (\<lambda>arenaSizeBefore.
       ioret \<lparr>lwpInode = inode, lwpSize = present, lwpExtents = extents, lwpLength = admitted, lwpPlan = plan,
              lwpAllocated = allocated, lwpArenaSizeBefore = arenaSizeBefore\<rparr>))))"

text \<open>A write that ends within the file needs no plan; one past its end fills the gap before it with zeros.\<close>

definition admitLinked ::
  "('w, 'h) store_ops \<Rightarrow> 'w vfs_clock \<Rightarrow> int \<Rightarrow> (Inode \<times> int \<times> int list) \<Rightarrow> int \<Rightarrow> int \<Rightarrow> int \<Rightarrow> int
    \<Rightarrow> ('w, 'h, LinkedWritePlan) vfs" where
  "admitLinked ops clock iid file start len requestedEnd nowMs =
     (case file of (inode, present, extents) \<Rightarrow>
        if requestedEnd > present then
          let buildPlan = linkedWritePlan ops iid start len nowMs in
          iobind buildPlan (\<lambda>initial.
          iobind (prepareAllocationWithQuotaRetry ops clock lwpAllocated initial buildPlan) (\<lambda>plan.
          iobind (if lwpPlan plan \<noteq> None \<and> start > lwpSize plan
                  then iobind (zeroLogical ops (lwpExtents plan) (lwpSize plan) (start - lwpSize plan)
                                 (lwpArenaSizeBefore plan) (lwpAllocated plan)) (flushIfTouched ops)
                  else ioret ()) (\<lambda>_. ioret plan)))
        else ioret \<lparr>lwpInode = inode, lwpSize = present, lwpExtents = extents, lwpLength = len, lwpPlan = None,
                    lwpAllocated = [], lwpArenaSizeBefore = 0\<rparr>)"

definition commitGrowth ::
  "('w, 'h) store_ops \<Rightarrow> LinkedWritePlan \<Rightarrow> int \<Rightarrow> int \<Rightarrow> ('w, 'h, unit) vfs" where
  "commitGrowth ops plan completedEnd nowMs =
     (if completedEnd > lwpSize plan then
        (case lwpPlan plan of
           Some (txn, prepared) \<Rightarrow>
             if completedEnd = plannedSize txn then commit ops txn (Some prepared)
             else
               iobind (asksRes (\<lambda>vfs. planResizeFileForInode (vfsState vfs) (lwpInode plan) completedEnd nowMs WriteOp))
                 (\<lambda>txn'. commit ops txn' None)
         | None \<Rightarrow>
             iobind (asksRes (\<lambda>vfs. planResizeFileForInode (vfsState vfs) (lwpInode plan) completedEnd nowMs WriteOp))
               (\<lambda>txn'. commit ops txn' None))
      else ioret ())"

definition writeLinked ::
  "('w, 'h) store_ops \<Rightarrow> 'w vfs_clock \<Rightarrow> int \<Rightarrow> Descriptor \<Rightarrow> byte list \<Rightarrow> int option \<Rightarrow> int \<Rightarrow> ('w, 'h, int) vfs" where
  "writeLinked ops clock fd d source position nowMs =
     iobind (asksRes (linkedFile (descInodeId d))) (\<lambda>(inode, present, extents).
     let start = (if descAppend d then present
                  else case position of Some at \<Rightarrow> at | None \<Rightarrow> descOffset d) in
     if start < 0 then iofail (FsError EINVAL)
     else if source = [] then ioret 0
     else
       iobind (iolift (checkedAdd start (int (length source)))) (\<lambda>requestedEnd.
       iobind (admitLinked ops clock (descInodeId d) (inode, present, extents) start (int (length source)) requestedEnd nowMs) (\<lambda>plan.
       iobind (writeLogical ops (lwpExtents plan) start (take (nat (lwpLength plan)) source) ''arena.write''
                 (lwpAllocated plan)) (\<lambda>progress.
       if progressBytes progress = 0 then failStore (progressCause progress)
       else
         iobind (iolift (checkedAdd start (progressBytes progress))) (\<lambda>completedEnd.
         iobind (commitGrowth ops plan completedEnd nowMs) (\<lambda>_.
         iobind (moveOffset fd position completedEnd) (\<lambda>_.
           ioret (progressBytes progress))))))))"

definition write_file ::
  "('w, 'h) store_ops \<Rightarrow> 'w vfs_clock \<Rightarrow> int \<Rightarrow> byte list \<Rightarrow> int \<Rightarrow> int \<Rightarrow> int option \<Rightarrow> int \<Rightarrow> ('w, 'h, int) vfs" where
  "write_file ops clock fd buffer offset len position nowMs =
     iobind assertHealthy (\<lambda>_.
     iobind (iolift (validateBufferRange buffer offset len)) (\<lambda>_.
     iobind (iolift (checkedU64 nowMs)) (\<lambda>_.
     iobind (asksRes (descriptor fd)) (\<lambda>d.
     if \<not> descWritable d then iofail (FsError EBADF)
     else
       let source = take (nat len) (drop (nat offset) buffer) in
       case descOrphan d of
         Some i \<Rightarrow> writeOrphan ops clock fd d i source position nowMs
       | None \<Rightarrow> writeLinked ops clock fd d source position nowMs))))"

end
