(* ===== verification/EngineFailStop.thy ===== *)
theory EngineFailStop
  imports EngineWrite
begin

text \<open>
  What holds of the engine on any host, however it fails: a store that is not open refuses every
  operation, a commit that fails has either done nothing or poisoned the store, and a commit that succeeds
  has applied its record.
\<close>

section \<open>Looking at computations\<close>

lemma iobind_run: "iobind m f w = (case m w of (Inl e, w') \<Rightarrow> (Inl e, w') | (Inr x, w') \<Rightarrow> f x w')"
  by (simp add: iobind_def)

lemma iobind_Inr: "iobind m f w = (Inr y, w') \<longleftrightarrow> (\<exists>x w1. m w = (Inr x, w1) \<and> f x w1 = (Inr y, w'))"
  by (auto simp: iobind_def split: prod.splits sum.splits)

lemma iobind_Inl:
  "iobind m f w = (Inl e, w') \<longleftrightarrow> m w = (Inl e, w') \<or> (\<exists>x w1. m w = (Inr x, w1) \<and> f x w1 = (Inl e, w'))"
  by (auto simp: iobind_def split: prod.splits sum.splits)

lemma iocatch_Inr:
  "iocatch m h w = (Inr y, w') \<longleftrightarrow> m w = (Inr y, w') \<or> (\<exists>e w1. m w = (Inl e, w1) \<and> h e w1 = (Inr y, w'))"
  by (auto simp: iocatch_def split: prod.splits sum.splits)

lemma iocatch_Inl: "iocatch m h w = (Inl e, w') \<longleftrightarrow> (\<exists>e1 w1. m w = (Inl e1, w1) \<and> h e1 w1 = (Inl e, w'))"
  by (auto simp: iocatch_def split: prod.splits sum.splits)

lemmas io_runs = iobind_Inr iobind_Inl iocatch_Inr iocatch_Inl

lemma engine_simps [simp]:
  "asks f we = (Inr (f (snd we)), we)" "asksRes g we = (g (snd we), we)"
  "updates u we = (Inr (), (fst we, u (snd we)))"
  by (simp_all add: asks_def asksRes_def updates_def)

lemma engine_binds:
  "iobind (asks f) k we = k (f (snd we)) we"
  "iobind (asksRes g) l we = (case g (snd we) of Inl e \<Rightarrow> (Inl e, we) | Inr x \<Rightarrow> l x we)"
  "iobind (updates u) m we = m () (fst we, u (snd we))"
  by (simp_all add: iobind_run)

lemma onHost_run: "onHost m we = (r, we') \<longleftrightarrow> m (fst we) = (r, fst we') \<and> snd we' = snd we"
  by (cases we') (auto simp: onHost_def split: prod.splits)

section \<open>A store that is not open\<close>

lemma guarded_refuses: "checkOpen (snd we) = Inl e \<Longrightarrow> iobind assertHealthy f we = (Inl e, we)"
  by (simp add: assertHealthy_def iobind_def)

lemma closed_refuses:
  assumes "checkOpen vfs = Inl e"
  shows "strictSync ops (w, vfs) = (Inl e, (w, vfs))" "repack ops clock reason (w, vfs) = (Inl e, (w, vfs))"
    "runScheduledRepack ops clock now (w, vfs) = (Inl e, (w, vfs))" "resolvePath path follow (w, vfs) = (Inl e, (w, vfs))"
    "stat path (w, vfs) = (Inl e, (w, vfs))" "lstat path (w, vfs) = (Inl e, (w, vfs))"
    "readlink path (w, vfs) = (Inl e, (w, vfs))" "readdir path (w, vfs) = (Inl e, (w, vfs))"
    "symlink ops target path now (w, vfs) = (Inl e, (w, vfs))"
    "mkdir ops path recursive mode now (w, vfs) = (Inl e, (w, vfs))"
    "chmod ops path bits now (w, vfs) = (Inl e, (w, vfs))" "utimes ops path a m c (w, vfs) = (Inl e, (w, vfs))"
    "rmdir ops path now (w, vfs) = (Inl e, (w, vfs))" "unlink ops path now (w, vfs) = (Inl e, (w, vfs))"
    "rename ops path target now (w, vfs) = (Inl e, (w, vfs))" "readFile ops path (w, vfs) = (Inl e, (w, vfs))"
    "writeFile ops clock path content options (w, vfs) = (Inl e, (w, vfs))"
    "truncatePath ops clock path n now (w, vfs) = (Inl e, (w, vfs))"
    "open_file ops clock path flag bits now (w, vfs) = (Inl e, (w, vfs))" "fstat fd (w, vfs) = (Inl e, (w, vfs))"
    "read_file ops fd buffer offset len position (w, vfs) = (Inl e, (w, vfs))"
    "write_file ops clock fd buffer offset len position now (w, vfs) = (Inl e, (w, vfs))"
    "closeDescriptor fd (w, vfs) = (Inl e, (w, vfs))" "metrics (w, vfs) = (Inl e, (w, vfs))"
    "commit ops txn prepared (w, vfs) = (Inl e, (w, vfs))" "failVfs cause (w, vfs) = (Inl e, (w, vfs))"
  using assms guarded_refuses [of "(w, vfs)" e]
  by (simp_all split del: if_split add: strictSync_def repack_def runScheduledRepack_def resolvePath_def stat_def lstat_def readlink_def
      readdir_def symlink_def mkdir_def chmod_def utimes_def rmdir_def commitPlanned_def unlink_def rename_def readFile_def
      writeFile_def truncatePath_def open_file_def fstat_def read_file_def write_file_def closeDescriptor_def metrics_def
      commit_def failVfs_def)

section \<open>Commit\<close>

lemma poisoned_open: "vfsStatus (poisoned cause vfs) \<noteq> StatusOpen"
  by (simp add: poisoned_def)

lemma poisoned_status: "vfsStatus (poisoned cause vfs) = (if vfsStatus vfs = StatusOpen then StatusFailed cause else vfsStatus vfs)"
  by (simp add: poisoned_def)

lemma poisoned_keeps [simp]: "vfsStore (poisoned cause vfs) = vfsStore vfs" "descriptors (poisoned cause vfs) = descriptors vfs"
  "pendingResizeCommit (poisoned cause vfs) = pendingResizeCommit vfs"
  by (simp_all add: poisoned_def)

lemma failStore_fails: "failStore cause we = (r, we') \<Longrightarrow> vfsStatus (snd we') \<noteq> StatusOpen \<and> (\<exists>e. r = Inl e)"
  using poisoned_open [of cause "snd we"] by (auto simp: failStore_def iobind_def)

lemma orPoison_fails: "orPoison m we = (Inl e, we') \<Longrightarrow> vfsStatus (snd we') \<noteq> StatusOpen"
  by (auto simp: orPoison_def io_runs poisoned_open)

lemma orPoison_ok: "orPoison m we = (Inr x, we') \<longleftrightarrow> m we = (Inr x, we')"
  by (auto simp: orPoison_def io_runs)

lemma appendFrame_fails: "appendFrame ops frame we = (Inl e, we') \<Longrightarrow> vfsStatus (snd we') \<noteq> StatusOpen"
  by (auto simp: appendFrame_def iocatch_Inl dest: failStore_fails)

lemma applyLive_fails: "applyLive txn projection we = (Inl e, we') \<Longrightarrow> vfsStatus (snd we') \<noteq> StatusOpen"
  by (auto simp: applyLive_def Let_def poisoned_status split: prod.splits option.splits if_splits)

lemma materialize_fails: "materializePendingResize ops we = (Inl e, we') \<Longrightarrow> vfsStatus (snd we') \<noteq> StatusOpen"
  by (auto simp: materializePendingResize_def io_runs split: option.splits dest: orPoison_fails appendFrame_fails)

lemma commitPrepared_fails:
  assumes "commitPrepared ops txn prepared we = (Inl e, we')"
  shows "vfsStatus (snd we') \<noteq> StatusOpen"
proof -
  have "vfsStatus (snd we') \<noteq> StatusOpen" if "commitReplacing txn prepared we = (Inl e, we')"
    using that by (auto simp: commitReplacing_def io_runs split: option.splits TxnRecord.splits
        dest: applyLive_fails orPoison_fails)
  moreover have "vfsStatus (snd we') \<noteq> StatusOpen" if "commitDeferred txn prepared we1 = (Inl e, we')" for we1
    using that by (auto simp: commitDeferred_def io_runs dest: applyLive_fails)
  moreover have "vfsStatus (snd we') \<noteq> StatusOpen" if "commitNow ops txn prepared we1 = (Inl e, we')" for we1
    using that by (auto simp: commitNow_def io_runs split: option.splits dest: applyLive_fails appendFrame_fails orPoison_fails)
  ultimately show ?thesis using assms
    by (auto simp: commitPrepared_def io_runs split: if_splits dest: materialize_fails)
qed

text \<open>A commit that fails has poisoned the store or not touched anything.\<close>

lemma commit_fails:
  assumes "commit ops txn prepared we = (Inl e, we')"
  shows "vfsStatus (snd we') \<noteq> StatusOpen \<or> we' = we"
proof -
  have "we' = we \<or> (\<exists>p. commitPrepared ops txn p we = (Inl e, we'))"
    using assms by (auto simp: commit_def assertHealthy_def io_runs split: option.splits)
  then show ?thesis using commitPrepared_fails by blast
qed

section \<open>What a commit does\<close>

lemma onStore_simps [simp]:
  "vfsStore (onStore f vfs) = f (vfsStore vfs)" "vfsStatus (onStore f vfs) = vfsStatus vfs"
  "descriptors (onStore f vfs) = descriptors vfs" "orphans (onStore f vfs) = orphans vfs"
  "pendingResizeCommit (onStore f vfs) = pendingResizeCommit vfs"
  "metadataDirtySinceFlush (onStore f vfs) = metadataDirtySinceFlush vfs" "repacking (onStore f vfs) = repacking vfs"
  by (simp_all add: onStore_def)

lemma scheduleRepack_keeps [simp]:
  "vfsStore (scheduleRepack vfs) = vfsStore vfs" "vfsStatus (scheduleRepack vfs) = vfsStatus vfs"
  "descriptors (scheduleRepack vfs) = descriptors vfs" "orphans (scheduleRepack vfs) = orphans vfs"
  "pendingResizeCommit (scheduleRepack vfs) = pendingResizeCommit vfs"
  "metadataDirtySinceFlush (scheduleRepack vfs) = metadataDirtySinceFlush vfs"
  "vfsArenaDirty (scheduleRepack vfs) = vfsArenaDirty vfs" "repacking (scheduleRepack vfs) = repacking vfs"
  by (simp_all add: scheduleRepack_def Let_def)

definition appended :: "byte list \<Rightarrow> 'h RepackedVfs \<Rightarrow> 'h RepackedVfs" where
  "appended frame vfs =
     (onStore (\<lambda>s. s\<lparr>activeLogEnd := activeLogEnd s + int (length frame)\<rparr>) vfs)\<lparr>metadataDirtySinceFlush := True\<rparr>"

lemma appended_simps [simp]:
  "vfsState (appended frame vfs) = vfsState vfs" "vfsStatus (appended frame vfs) = vfsStatus vfs"
  "descriptors (appended frame vfs) = descriptors vfs" "orphans (appended frame vfs) = orphans vfs"
  "pendingResizeCommit (appended frame vfs) = pendingResizeCommit vfs"
  "activeLogEnd (vfsStore (appended frame vfs)) = activeLogEnd (vfsStore vfs) + int (length frame)"
  "nextSequence (vfsStore (appended frame vfs)) = nextSequence (vfsStore vfs)"
  "activeLogBytes (vfsStore (appended frame vfs)) = activeLogBytes (vfsStore vfs)"
  "activeLogFrames (vfsStore (appended frame vfs)) = activeLogFrames (vfsStore vfs)"
  "metadataDirtySinceFlush (appended frame vfs)" "vfsArenaDirty (appended frame vfs) = vfsArenaDirty vfs"
  by (simp_all add: appended_def) (simp add: onStore_def)

lemma appendFrame_ok: "appendFrame ops frame we = (Inr (), we') \<Longrightarrow> snd we' = appended frame (snd we)"
  by (auto simp: appendFrame_def iocatch_Inr iobind_Inr onHost_run appended_def dest: failStore_fails)

text \<open>What the engine is after its pending record was written.\<close>

definition materialized :: "byte list \<Rightarrow> 'h RepackedVfs \<Rightarrow> 'h RepackedVfs" where
  "materialized frame vfs = (appended frame vfs)\<lparr>pendingResizeCommit := None\<rparr>"

lemma materialize_ok:
  assumes "materializePendingResize ops we = (Inr (), we')"
  shows "snd we' = (case pendingResizeCommit (snd we) of
      None \<Rightarrow> snd we | Some pending \<Rightarrow> materialized (projr (pendingFrame pending (snd we))) (snd we))"
  using assms by (auto simp: materializePendingResize_def iobind_Inr orPoison_ok materialized_def
      split: option.splits dest!: appendFrame_ok)

lemma applyLive_ok:
  assumes "applyLive txn projection we = (Inr (), we')"
  shows "fst we' = fst we" "applyTxn (vfsState (snd we)) txn (Some projection) = (None, vfsState (snd we'))"
    "snd we' = onStore (\<lambda>s. s\<lparr>storeState := vfsState (snd we')\<rparr>) (snd we)"
  using assms by (auto simp: applyLive_def Let_def split: prod.splits option.splits)

lemma preflight_projection:
  "preflightCommit txn vfs = Inr prepared \<Longrightarrow> prepareTxnProjection (vfsState vfs) txn = Inr (commitProjection prepared)"
  by (auto simp: preflightCommit_def ebind_eq_Inr Let_def split: if_splits)

lemma prepared_applies:
  assumes "prepareTxnProjection state txn = Inr projection"
  shows "applyTxn state txn (Some projection) = applyTxn state txn None"
proof -
  from assms obtain projected where "preflightTxn state txn defaultLimits = Inr projected"
    "projection = \<lparr>projectedBasePayloadBytes = projected, preparedState = state, preparedRecord = txn\<rparr>"
    by (auto simp: prepareTxnProjection_def ebind_eq_Inr)
  then show ?thesis by (simp add: applyTxn_def)
qed

definition withState :: "VfsState \<Rightarrow> 'h RepackedVfs \<Rightarrow> 'h RepackedVfs" where
  "withState state = onStore (\<lambda>s. s\<lparr>storeState := state\<rparr>)"

definition withPending :: "PreparedCommit \<Rightarrow> int \<Rightarrow> 'h RepackedVfs \<Rightarrow> 'h RepackedVfs" where
  "withPending prepared sequence vfs = vfs\<lparr>pendingResizeCommit := Some \<lparr>pendingRecord = materializedRecord prepared,
     pendingFrameBytes = commitFrameBytes prepared, pendingSequence = sequence\<rparr>\<rparr>"

lemma withState_simps [simp]:
  "vfsStore (withState state vfs) = (vfsStore vfs)\<lparr>storeState := state\<rparr>" "vfsStatus (withState state vfs) = vfsStatus vfs"
  "descriptors (withState state vfs) = descriptors vfs" "orphans (withState state vfs) = orphans vfs"
  "pendingResizeCommit (withState state vfs) = pendingResizeCommit vfs"
  "metadataDirtySinceFlush (withState state vfs) = metadataDirtySinceFlush vfs"
  "vfsArenaDirty (withState state vfs) = vfsArenaDirty vfs"
  by (simp_all add: withState_def) (simp add: onStore_def)

lemma withPending_simps [simp]:
  "vfsStore (withPending prepared sequence vfs) = vfsStore vfs" "vfsStatus (withPending prepared sequence vfs) = vfsStatus vfs"
  "descriptors (withPending prepared sequence vfs) = descriptors vfs" "orphans (withPending prepared sequence vfs) = orphans vfs"
  "pendingResizeCommit (withPending prepared sequence vfs) = Some \<lparr>pendingRecord = materializedRecord prepared,
     pendingFrameBytes = commitFrameBytes prepared, pendingSequence = sequence\<rparr>"
  "metadataDirtySinceFlush (withPending prepared sequence vfs) = metadataDirtySinceFlush vfs"
  "vfsArenaDirty (withPending prepared sequence vfs) = vfsArenaDirty vfs"
  by (simp_all add: withPending_def)

lemma countFrame_simps [simp]:
  "vfsStore (countFrame n vfs) = (vfsStore vfs)\<lparr>activeLogBytes := activeLogBytes (vfsStore vfs) + n,
     activeLogFrames := activeLogFrames (vfsStore vfs) + 1, nextSequence := nextSequence (vfsStore vfs) + 1\<rparr>"
  "vfsStatus (countFrame n vfs) = vfsStatus vfs"
  "descriptors (countFrame n vfs) = descriptors vfs" "orphans (countFrame n vfs) = orphans vfs"
  "pendingResizeCommit (countFrame n vfs) = pendingResizeCommit vfs"
  "metadataDirtySinceFlush (countFrame n vfs) = metadataDirtySinceFlush vfs"
  "vfsArenaDirty (countFrame n vfs) = vfsArenaDirty vfs"
  by (simp_all add: countFrame_def) (simp add: onStore_def)

lemma applyLive_run:
  "applyTxn (vfsState (snd we)) txn (Some projection) = (None, state) \<Longrightarrow>
     applyLive txn projection we = (Inr (), (fst we, withState state (snd we)))"
  by (simp add: applyLive_def withState_def Let_def)

lemma applyLive_effect:
  assumes "applyLive txn projection we = (Inr (), we')"
  obtains state where "applyTxn (vfsState (snd we)) txn (Some projection) = (None, state)"
    "we' = (fst we, withState state (snd we))"
  using assms by (auto simp: applyLive_def withState_def Let_def split: prod.splits option.splits)

lemma commitDeferred_effect:
  assumes "commitDeferred txn prepared we = (Inr (), we')"
  obtains state where "applyTxn (vfsState (snd we)) txn (Some (commitProjection prepared)) = (None, state)"
    "we' = (fst we, scheduleRepack (countFrame (commitFrameBytes prepared)
        (withPending prepared (nextSequence (vfsStore (snd we))) (withState state (snd we)))))"
  using assms by (auto simp: commitDeferred_def iobind_Inr withPending_def elim!: applyLive_effect)

lemma commitReplacing_effect:
  assumes "commitReplacing txn prepared we = (Inr (), we')"
  obtains pending state where "pendingResizeCommit (snd we) = Some pending"
    "applyTxn (vfsState (snd we)) txn (Some (commitProjection prepared)) = (None, state)"
    "we' = (fst we, scheduleRepack (withPending prepared (pendingSequence pending)
        (onStore (\<lambda>s. s\<lparr>activeLogBytes := activeLogBytes s + (commitFrameBytes prepared - pendingFrameBytes pending)\<rparr>)
          (withState state (snd we)))))"
  using assms by (auto simp: commitReplacing_def iobind_Inr withPending_def orPoison_ok elim!: applyLive_effect
      split: option.splits TxnRecord.splits)

lemma commitNow_effect:
  assumes "commitNow ops txn prepared we = (Inr (), we')"
  obtains frame state where "commitFrame prepared = Some frame"
    "applyTxn (vfsState (snd we)) txn (Some (commitProjection prepared)) = (None, state)"
    "snd we' = scheduleRepack (countFrame (commitFrameBytes prepared) (withState state (appended frame (snd we))))"
proof -
  from assms obtain frame we1 where frame: "commitFrame prepared = Some frame" "appendFrame ops frame we = (Inr (), we1)"
    "iobind (applyLive txn (commitProjection prepared)) (\<lambda>_. updates (\<lambda>vfs. scheduleRepack
       (countFrame (commitFrameBytes prepared) vfs))) we1 = (Inr (), we')"
    by (auto simp: commitNow_def iobind_Inr orPoison_ok split: option.splits)
  have "snd we1 = appended frame (snd we)" using appendFrame_ok [OF frame(2)] .
  with frame(1,3) that show ?thesis by (auto simp: iobind_Inr elim!: applyLive_effect)
qed

text \<open>A commit that succeeds has left the open store in the state its record leads to.\<close>

lemma commitPrepared_applies:
  assumes "commitPrepared ops txn prepared we = (Inr (), we')"
  shows "applyTxn (vfsState (snd we)) txn (Some (commitProjection prepared)) = (None, vfsState (snd we'))
    \<and> descriptors (snd we') = descriptors (snd we) \<and> orphans (snd we') = orphans (snd we)
    \<and> vfsStatus (snd we') = vfsStatus (snd we)"
proof (cases "replacesPendingResize prepared")
  case True
  with assms show ?thesis by (auto simp: commitPrepared_def elim!: commitReplacing_effect)
next
  case False
  with assms obtain we1 where we1: "materializePendingResize ops we = (Inr (), we1)"
    "(if deferResize prepared \<and> isResizeRecord (materializedRecord prepared) then commitDeferred txn prepared
      else commitNow ops txn prepared) we1 = (Inr (), we')"
    by (auto simp: commitPrepared_def iobind_Inr)
  have "vfsState (snd we1) = vfsState (snd we) \<and> descriptors (snd we1) = descriptors (snd we)
      \<and> orphans (snd we1) = orphans (snd we) \<and> vfsStatus (snd we1) = vfsStatus (snd we)"
    using materialize_ok [OF we1(1)] by (auto simp: materialized_def split: option.splits)
  with we1(2) show ?thesis by (auto split: if_splits elim!: commitDeferred_effect commitNow_effect)
qed

lemma commit_applies:
  assumes "commit ops txn None we = (Inr (), we')"
  shows "applyTxn (vfsState (snd we)) txn None = (None, vfsState (snd we')) \<and> descriptors (snd we') = descriptors (snd we)
    \<and> orphans (snd we') = orphans (snd we) \<and> vfsStatus (snd we') = StatusOpen"
proof -
  from assms obtain prepared where prepared: "preflightCommit txn (snd we) = Inr prepared"
    "commitPrepared ops txn prepared we = (Inr (), we')" "checkOpen (snd we) = Inr ()"
    by (auto simp: commit_def assertHealthy_def iobind_Inr)
  from prepared(3) have "vfsStatus (snd we) = StatusOpen" by (auto simp: checkOpen_def split: VfsStatus.splits)
  with commitPrepared_applies [OF prepared(2)] prepared_applies [OF preflight_projection [OF prepared(1)]]
  show ?thesis by simp
qed

end
