(* ===== verification/EngineRuns.thy ===== *)
theory EngineRuns
  imports EngineFailStop MemoryHost
begin

text \<open>
  The engine on a host that keeps the store's contract: what each step does to the view of the files and
  to the engine, exactly.
\<close>

definition withEngine :: "('w \<Rightarrow> 'v \<Rightarrow> bool) \<Rightarrow> 'w \<times> 'e \<Rightarrow> 'v \<times> 'e \<Rightarrow> bool" where
  "withEngine at we ve \<longleftrightarrow> at (fst we) (fst ve) \<and> snd we = snd ve"

lemma steps_onHost: "steps at v m r v' \<Longrightarrow> steps (withEngine at) (v, vfs) (onHost m) r (v', vfs)"
  by (fastforce simp: steps_def withEngine_def onHost_def)

lemma steps_engine [simp]:
  "steps (withEngine at) (v, vfs) (asks f) (Inr (f vfs)) (v, vfs)"
  "steps (withEngine at) (v, vfs) (asksRes g) (g vfs) (v, vfs)"
  "steps (withEngine at) (v, vfs) (updates u) (Inr ()) (v, u vfs)"
  by (auto simp: steps_def withEngine_def)

lemma steps_update: "u vfs = vfs' \<Longrightarrow> steps (withEngine at) (v, vfs) (updates u) (Inr ()) (v, vfs')"
  by (auto simp: steps_def withEngine_def)

lemma steps_asks: "steps (withEngine at) (v, vfs) (k (f vfs)) r ve \<Longrightarrow> steps (withEngine at) (v, vfs) (iobind (asks f) k) r ve"
  by (rule steps_bind [OF steps_engine(1)])

lemma steps_asksRes:
  "f vfs = Inr x \<Longrightarrow> steps (withEngine at) (v, vfs) (k x) r ve \<Longrightarrow> steps (withEngine at) (v, vfs) (iobind (asksRes f) k) r ve"
  using steps_bind [of "withEngine at" "(v, vfs)" "asksRes f" x] steps_engine(2) [of at v vfs f] by simp

lemma steps_updates:
  "steps (withEngine at) (v, u vfs) m r ve \<Longrightarrow> steps (withEngine at) (v, vfs) (iobind (updates u) (\<lambda>_. m)) r ve"
  by (rule steps_bind [OF steps_engine(3)])

lemma steps_ask_fails:
  "f vfs = Inl e \<Longrightarrow> steps (withEngine at) (v, vfs) (iobind (asksRes f) k) (Inl e) (v, vfs)"
  using steps_bind_fail [of "withEngine at" "(v, vfs)" "asksRes f" e] steps_engine(2) [of at v vfs f] by simp

lemma steps_poison_ok: "steps at v m (Inr x) v' \<Longrightarrow> steps at v (orPoison m) (Inr x) v'" for v :: "'v \<times> 'h RepackedVfs"
  by (fastforce simp: steps_def orPoison_def iocatch_def)

lemma steps_result: "steps at v m r v' \<Longrightarrow> at w v \<Longrightarrow> m w = (s, w') \<Longrightarrow> s = r \<and> at w' v'"
  by (fastforce simp: steps_def)

context store_host
begin

abbreviation runs where "runs \<equiv> steps (withEngine (showing inv view))"

lemma flush_runs:
  assumes "hvValid v (fileOf name vfs) name"
  shows "\<exists>counts. runs (v, vfs) (flushFile ops name label kind) (Inr ()) (keepFile name v, vfs\<lparr>flushes := counts\<rparr>)"
  unfolding flushFile_def
  by (rule exI, rule steps_updates, rule steps_asks, rule steps_onHost, rule flush_does) (use assms in \<open>simp add: fileOf_def\<close>)

lemma append_runs:
  assumes valid: "hvValid v (fileOf (activeFile vfs) vfs) (activeFile vfs)" and pos: "0 \<le> activeLogEnd (vfsStore vfs)"
    and frame: "frame \<noteq> []" "activeLogEnd (vfsStore vfs) + int (length frame) \<le> MAX_SAFE_INTEGER"
  shows "runs (v, vfs) (appendFrame ops frame) (Inr ())
    (changeFile (activeFile vfs) (Put (activeLogEnd (vfsStore vfs)) frame) v, appended frame vfs)"
proof -
  have upd: "runs (w, vfs) (updates (\<lambda>vfs. (onStore (\<lambda>s. s\<lparr>activeLogEnd := activeLogEnd s + int (length frame)\<rparr>) vfs)
      \<lparr>metadataDirtySinceFlush := True\<rparr>)) (Inr ()) (w, appended frame vfs)" for w
    by (rule steps_update) (simp add: appended_def)
  show ?thesis unfolding appendFrame_def
    by (rule steps_catch_ok, (rule steps_asks)+, rule steps_bind [OF steps_onHost [OF write_does [OF valid pos frame]]])
      (rule upd)
qed

lemma materialize_runs:
  assumes valid: "hvValid v (fileOf (activeFile vfs) vfs) (activeFile vfs)" and pos: "0 \<le> activeLogEnd (vfsStore vfs)"
    and held_back: "pendingResizeCommit vfs = Some p" "pendingFrame p vfs = Inr frame"
    and frame: "frame \<noteq> []" "activeLogEnd (vfsStore vfs) + int (length frame) \<le> MAX_SAFE_INTEGER"
  shows "runs (v, vfs) (materializePendingResize ops) (Inr ())
    (changeFile (activeFile vfs) (Put (activeLogEnd (vfsStore vfs)) frame) v, materialized frame vfs)"
proof -
  have res: "runs (v, vfs) (orPoison (asksRes (pendingFrame p))) (Inr frame) (v, vfs)"
    by (rule steps_poison_ok) (use steps_engine(2) [of _ v vfs "pendingFrame p"] held_back(2) in simp)
  show ?thesis unfolding materializePendingResize_def
    by (rule steps_asks, simp only: held_back(1) option.case, rule steps_bind [OF res],
        rule steps_bind [OF append_runs [OF valid pos frame]], rule steps_update)
      (simp add: materialized_def)
qed

lemma nothing_pending_runs:
  "pendingResizeCommit vfs = None \<Longrightarrow> runs (v, vfs) (materializePendingResize ops) (Inr ()) (v, vfs)"
  unfolding materializePendingResize_def by (rule steps_asks) simp

lemma apply_runs:
  assumes "applyTxn (vfsState vfs) txn (Some projection) = (None, state)"
  shows "runs (v, vfs) (applyLive txn projection) (Inr ()) (v, withState state vfs)"
  using applyLive_run [of "(_, vfs)" txn projection state] assms by (fastforce simp: steps_def withEngine_def)

lemma now_runs:
  assumes valid: "hvValid v (fileOf (activeFile vfs) vfs) (activeFile vfs)" and pos: "0 \<le> activeLogEnd (vfsStore vfs)"
    and frame: "commitFrame prepared = Some frame" "frame \<noteq> []"
      "activeLogEnd (vfsStore vfs) + int (length frame) \<le> MAX_SAFE_INTEGER"
    and step: "applyTxn (vfsState vfs) txn (Some (commitProjection prepared)) = (None, state)"
  shows "runs (v, vfs) (commitNow ops txn prepared) (Inr ())
    (changeFile (activeFile vfs) (Put (activeLogEnd (vfsStore vfs)) frame) v,
     scheduleRepack (countFrame (commitFrameBytes prepared) (withState state (appended frame vfs))))"
  unfolding commitNow_def frame(1) option.case
  by (rule steps_bind [OF append_runs [OF valid pos frame(2,3)]], rule steps_bind [OF apply_runs], rule_tac [2] steps_update)
    (use step in simp_all)

lemma deferred_runs:
  assumes "applyTxn (vfsState vfs) txn (Some (commitProjection prepared)) = (None, state)"
  shows "runs (v, vfs) (commitDeferred txn prepared) (Inr ()) (v, scheduleRepack (countFrame (commitFrameBytes prepared)
     (withPending prepared (nextSequence (vfsStore vfs)) (withState state vfs))))"
  unfolding commitDeferred_def
  by (rule steps_bind [OF apply_runs [OF assms]], rule steps_update) (simp add: withPending_def)

lemma replacing_runs:
  assumes "pendingResizeCommit vfs = Some p" and "isResizeRecord (materializedRecord prepared)"
    and "applyTxn (vfsState vfs) txn (Some (commitProjection prepared)) = (None, state)"
  shows "runs (v, vfs) (commitReplacing txn prepared) (Inr ()) (v, scheduleRepack (withPending prepared (pendingSequence p)
     (onStore (\<lambda>s. s\<lparr>activeLogBytes := activeLogBytes s + (commitFrameBytes prepared - pendingFrameBytes p)\<rparr>)
       (withState state vfs))))"
proof -
  obtain op iid n rs m c where r: "materializedRecord prepared = ResizeFile op iid n rs m c"
    using assms(2) by (auto simp: isResizeRecord_def split: TxnRecord.splits)
  show ?thesis unfolding commitReplacing_def
    by (rule steps_asks, simp only: assms(1) r option.case prod.case TxnRecord.case,
        rule steps_bind [OF apply_runs [OF assms(3)]], rule steps_update) (simp add: withPending_def r)
qed

end

end
