(* ===== verification/EngineDurability.thy ===== *)
theory EngineDurability
  imports EngineRuns
begin

text \<open>
  The engine and its files: the log holds the committed records, in order, after the selected base; a
  record that is held back is the only one missing; what is not flushed is marked dirty. Commits keep this,
  and a strict sync leaves nothing pending.
\<close>

section \<open>What a record leaves alone\<close>

lemma applyDirectoryEntry_active:
  "activeMetadataFile (snd (applyDirectoryEntry entry state)) = activeMetadataFile state"
  by (auto simp: applyDirectoryEntry_def Let_def update_simps split: sum.splits)

lemma applyDirectoryEntries_active:
  "activeMetadataFile (snd (applyDirectoryEntries entries state)) = activeMetadataFile state"
proof (induction entries arbitrary: state)
  case (Cons entry rest)
  with applyDirectoryEntry_active [of entry state] show ?case by (auto split: prod.splits option.splits)
qed simp

lemma reducer_active:
  "applyCreateFile st choice n extents = Inr st' \<Longrightarrow> activeMetadataFile st' = activeMetadataFile st"
  "applyRemoveFile st i nm m c = Inr st' \<Longrightarrow> activeMetadataFile st' = activeMetadataFile st"
  "applyChangeMode st i bits c = Inr st' \<Longrightarrow> activeMetadataFile st' = activeMetadataFile st"
  "applyChangeTimes st i a m c = Inr st' \<Longrightarrow> activeMetadataFile st' = activeMetadataFile st"
  "applyResizeFile st i n extents m c = Inr st' \<Longrightarrow> activeMetadataFile st' = activeMetadataFile st"
  "applyRemoveDirectory st i nm m c = Inr st' \<Longrightarrow> activeMetadataFile st' = activeMetadataFile st"
  "applyRename st i nm j nn m = Inr st' \<Longrightarrow> activeMetadataFile st' = activeMetadataFile st"
  "applyCreateSymlink st choice target = Inr st' \<Longrightarrow> activeMetadataFile st' = activeMetadataFile st"
  "applyReserveQuarantine st extents = Inr st' \<Longrightarrow> activeMetadataFile st' = activeMetadataFile st"
          apply (unfold applyCreateFile_def, force simp: res_simps Let_def update_simps)
         apply (unfold applyRemoveFile_def, force simp: res_simps Let_def update_simps split: option.splits)
        apply (unfold applyChangeMode_def, force simp: res_simps Let_def update_simps)
       apply (unfold applyChangeTimes_def, force simp: res_simps Let_def update_simps)
      apply (unfold applyResizeFile_def, force simp: res_simps Let_def update_simps)
     apply (unfold applyRemoveDirectory_def, force simp: res_simps Let_def update_simps split: option.splits)
    apply (unfold applyRename_def commitRename_def, force simp: res_simps Let_def update_simps split: option.splits)
   apply (unfold applyCreateSymlink_def, force simp: res_simps Let_def update_simps)
  apply (unfold applyReserveQuarantine_def, force simp: res_simps Let_def update_simps)
  done

lemma reduceTxn_active:
  "reduceTxn state txn = (None, state') \<Longrightarrow> activeMetadataFile state' = activeMetadataFile state"
  using applyDirectoryEntries_active [of _ state]
  by (cases txn) (auto simp: reduceTxn_def liftReducer_def split: sum.splits dest: reducer_active, metis snd_conv)

lemma applyTxn_active: "applyTxn st txn None = (None, st') \<Longrightarrow> activeMetadataFile st' = activeMetadataFile st"
  by (auto simp: applyTxn_None dest: reduceTxn_active)

lemma committed_active: "committed st txns = Some st' \<Longrightarrow> activeMetadataFile st' = activeMetadataFile st"
proof (induction txns arbitrary: st)
  case (Cons txn txns)
  then show ?case by (auto simp: committed_Cons dest: applyTxn_active)
qed simp

lemma base_active: "activeMetadataFile (baseState st other) = activeMetadataFile st"
  by (simp add: baseState_def decodedOf_def split: option.split)

section \<open>The invariant of the engine and its files\<close>

text \<open>The counters of a log of \<open>n\<close> frames in \<open>b\<close> bytes.\<close>

definition log_counts :: "'h OpenedMetadataStore \<Rightarrow> int \<Rightarrow> int \<Rightarrow> bool" where
  "log_counts store n b \<longleftrightarrow> nextSequence store = 1 + n \<and> activeLogFrames store = n \<and> activeLogBytes store = b
     \<and> n \<le> MAX_ACTIVE_LOG_FRAMES \<and> b \<le> MAX_ACTIVE_LOG_BYTES"

text \<open>A record that is applied but not in the log: written as the next frame, it leads from the logged state to the live one.\<close>

definition held_back :: "VfsState \<Rightarrow> VfsState \<Rightarrow> int \<Rightarrow> PendingResizeCommit \<Rightarrow> bool" where
  "held_back logged live seq p \<longleftrightarrow> isDeferrableResize (pendingRecord p) logged \<and> pendingSequence p = seq
     \<and> frame_fits (logFrame (generation logged) seq (pendingRecord p))
     \<and> pendingFrameBytes p = int (length (encFrame (logFrame (generation logged) seq (pendingRecord p))))
     \<and> applyTxn logged (pendingRecord p) None = (None, live)"

definition engine_image ::
  "'h host_view \<Rightarrow> 'h RepackedVfs \<Rightarrow> ActivationRecord \<Rightarrow> ActivationRecord option \<Rightarrow> VfsState \<Rightarrow> TxnRecord list
     \<Rightarrow> VfsState \<Rightarrow> bool" where
  "engine_image v vfs selected other st txns logged \<longleftrightarrow>
     held v (storeHandles (vfsStore vfs)) \<and> vfsStatus vfs = StatusOpen
     \<and> store_image (hvFiles v) selected other st txns [] logged
     \<and> paths_ok (vfsState vfs)
     \<and> activeLogEnd (vfsStore vfs) = int (length (encBase st @ logOf (generation st) 1 txns))
     \<and> (\<forall>name. hvPending v name \<noteq> [] \<longrightarrow> (name = ArenaBin \<and> vfsArenaDirty vfs)
          \<or> (name = metadataFileName (activeMetadataFile st) \<and> metadataDirtySinceFlush vfs))
     \<and> (case pendingResizeCommit vfs of
          None \<Rightarrow> vfsState vfs = logged
            \<and> log_counts (vfsStore vfs) (int (length txns)) (int (length (logOf (generation st) 1 txns)))
        | Some p \<Rightarrow> held_back logged (vfsState vfs) (1 + int (length txns)) p
            \<and> log_counts (vfsStore vfs) (1 + int (length txns))
                (int (length (logOf (generation st) 1 txns)) + pendingFrameBytes p))"

lemma image_base:
  assumes "store_image files selected other st txns rest final"
  shows "vfs_inv final" "generation final = generation st" "extentSize final = extentSize st"
    "activeMetadataFile final = activeMetadataFile st"
    "int (length (encBase st)) \<le> 80 + MAX_METADATA_BASE_WRITER_BYTES"
    "int (length (logOf (generation st) 1 txns)) \<le> MAX_ACTIVE_LOG_BYTES"
proof -
  note i = assms [unfolded store_image_def]
  have c: "committed (baseState st other) txns = Some final" using i by blast
  have b: "vfs_inv (baseState st other)" "generation (baseState st other) = generation st"
    "extentSize (baseState st other) = extentSize st"
    using base_state_inv [of st other] i by blast+
  from committed_keeps [OF b(1) c] b(2,3) show "vfs_inv final" "generation final = generation st" "extentSize final = extentSize st"
    by simp_all
  show "activeMetadataFile final = activeMetadataFile st" using committed_active [OF c] by (simp add: base_active)
  show "int (length (encBase st)) \<le> 80 + MAX_METADATA_BASE_WRITER_BYTES"
    using length_encBase [of st] vfs_invD(5) [of st] i by (simp add: bytes_inv_def)
  show "int (length (logOf (generation st) 1 txns)) \<le> MAX_ACTIVE_LOG_BYTES" using i by blast
qed

lemma active_not_arena [simp]: "metadataFileName m \<noteq> ArenaBin" "ArenaBin \<noteq> metadataFileName m"
  by (cases m; simp)+

lemma putBytes_end: "at = int (length f) \<Longrightarrow> putBytes at src f = f @ src"
  by (simp add: putBytes_def Let_def)

lemma engine_imageD:
  assumes "engine_image v vfs selected other st txns logged"
  shows "held v (storeHandles (vfsStore vfs))" "vfsStatus vfs = StatusOpen"
    "store_image (hvFiles v) selected other st txns [] logged" "paths_ok (vfsState vfs)"
    "activeLogEnd (vfsStore vfs) = int (length (encBase st @ logOf (generation st) 1 txns))"
    "\<And>name. hvPending v name \<noteq> [] \<Longrightarrow> (name = ArenaBin \<and> vfsArenaDirty vfs)
          \<or> (name = metadataFileName (activeMetadataFile st) \<and> metadataDirtySinceFlush vfs)"
  using assms by (simp_all add: engine_image_def)

lemma engine_image_live:
  assumes "engine_image v vfs selected other st txns logged"
  shows "vfs_inv (vfsState vfs)" "generation (vfsState vfs) = generation st"
    "activeMetadataFile (vfsState vfs) = activeMetadataFile st"
    "activeFile vfs = metadataFileName (activeMetadataFile st)"
    "hvValid v (fileOf name vfs) name"
    "0 \<le> activeLogEnd (vfsStore vfs)" "checkOpen vfs = Inr ()"
proof -
  note e = engine_imageD [OF assms]
  note b = image_base [OF e(3)]
  show "vfs_inv (vfsState vfs)" "generation (vfsState vfs) = generation st"
    "activeMetadataFile (vfsState vfs) = activeMetadataFile st"
    using assms b applyTxn_inv [OF b(1)] applyTxn_generation [OF b(1)] applyTxn_active [of logged]
    by (auto simp: engine_image_def held_back_def split: option.splits)
  then show "activeFile vfs = metadataFileName (activeMetadataFile st)" by (simp add: activeFile_def)
  show "hvValid v (fileOf name vfs) name" using e(1) by (simp add: held_def fileOf_def)
  show "0 \<le> activeLogEnd (vfsStore vfs)" using e(5) by simp
  show "checkOpen vfs = Inr ()" using e(2) by (simp add: checkOpen_def)
qed

lemma append_image:
  assumes img: "store_image (hvFiles v) selected other st txns [] logged" and held: "held v handles"
    and logEnd: "logEnd = int (length (encBase st @ logOf (generation st) 1 txns))"
    and f: "f = logFrame (generation st) (1 + int (length txns)) txn" "frame_fits f"
    and step: "applyTxn logged txn None = (None, state)" and ok: "paths_ok state"
    and room: "1 + int (length txns) \<le> MAX_ACTIVE_LOG_FRAMES"
      "int (length (logOf (generation st) 1 txns)) + int (length (encFrame f)) \<le> MAX_ACTIVE_LOG_BYTES"
    and name: "name = metadataFileName (activeMetadataFile st)"
  shows "store_image (hvFiles (changeFile name (Put logEnd (encFrame f)) v)) selected other st (txns @ [txn]) [] state"
    and "held (changeFile name (Put logEnd (encFrame f)) v) handles"
    and "logEnd + int (length (encFrame f)) = int (length (encBase st @ logOf (generation st) 1 (txns @ [txn])))"
    and "logEnd + int (length (encFrame f)) \<le> MAX_SAFE_INTEGER" and "encFrame f \<noteq> []"
proof -
  note b = image_base [OF img]
  have front: "hvFiles v name = encBase st @ logOf (generation st) 1 txns"
    using img name by (simp add: store_image_def)
  have files: "hvFiles (changeFile name (Put logEnd (encFrame f)) v) = (hvFiles v)(name := hvFiles v name @ encFrame f)"
    using putBytes_end [of logEnd "hvFiles v name"] front logEnd by simp
  have "validateState state = Inr ()" using validateState_complete [OF applyTxn_inv [OF b(1) step] ok] .
  from store_image_next [OF img f step this _ _ name] room
  show "store_image (hvFiles (changeFile name (Put logEnd (encFrame f)) v)) selected other st (txns @ [txn]) [] state"
    unfolding files by simp
  show eq: "logEnd + int (length (encFrame f)) = int (length (encBase st @ logOf (generation st) 1 (txns @ [txn])))"
    using logEnd by (simp add: log_append f(1))
  show bound: "logEnd + int (length (encFrame f)) \<le> MAX_SAFE_INTEGER"
    using logEnd b(5) room(2) by (simp add: MAX_SAFE_INTEGER_def MAX_METADATA_BASE_WRITER_BYTES_def MAX_ACTIVE_LOG_BYTES_def)
  then show "held (changeFile name (Put logEnd (encFrame f)) v) handles"
    unfolding held_def files using held front logEnd by (auto simp: held_def)
  show "encFrame f \<noteq> []" using length_encFrame [of f] by auto
qed

section \<open>Commits\<close>

text \<open>What a commit leaves of the engine but its state, log and dirt.\<close>

definition same_engine :: "'h RepackedVfs \<Rightarrow> 'h RepackedVfs \<Rightarrow> bool" where
  "same_engine vfs vfs' \<longleftrightarrow> descriptors vfs' = descriptors vfs \<and> orphans vfs' = orphans vfs
     \<and> nextDescriptor vfs' = nextDescriptor vfs
     \<and> storeHandles (vfsStore vfs') = storeHandles (vfsStore vfs) \<and> vfsArenaDirty vfs' = vfsArenaDirty vfs
     \<and> vfsArenaSize vfs' = vfsArenaSize vfs
     \<and> arenaHighWaterExtents (vfsStore vfs') = arenaHighWaterExtents (vfsStore vfs)"

text \<open>What a commit leaves of the arena.\<close>

definition same_arena :: "'h host_view \<Rightarrow> 'h host_view \<Rightarrow> bool" where
  "same_arena v v' \<longleftrightarrow> hvFiles v' ArenaBin = hvFiles v ArenaBin \<and> hvPending v' ArenaBin = hvPending v ArenaBin
     \<and> hvDurable v' ArenaBin = hvDurable v ArenaBin"

lemma same_arena_trans: "same_arena a b \<Longrightarrow> same_arena b c \<Longrightarrow> same_arena a c"
  by (simp add: same_arena_def)

lemma same_engine_trans: "same_engine a b \<Longrightarrow> same_engine b c \<Longrightarrow> same_engine a c"
  by (simp add: same_engine_def)

lemma appended_store: "vfsStore (appended frame vfs) = (vfsStore vfs)
    \<lparr>activeLogEnd := activeLogEnd (vfsStore vfs) + int (length frame)\<rparr>"
  by (simp add: appended_def)

lemma materialized_simps [simp]:
  "vfsStore (materialized frame vfs) = vfsStore (appended frame vfs)" "pendingResizeCommit (materialized frame vfs) = None"
  "vfsStatus (materialized frame vfs) = vfsStatus vfs" "descriptors (materialized frame vfs) = descriptors vfs"
  "orphans (materialized frame vfs) = orphans vfs" "metadataDirtySinceFlush (materialized frame vfs)"
  "vfsArenaDirty (materialized frame vfs) = vfsArenaDirty vfs"
  by (simp_all add: materialized_def)

lemma commit_bookkeeping [simp]:
  "vfsArenaSize (scheduleRepack vfs) = vfsArenaSize vfs" "nextDescriptor (scheduleRepack vfs) = nextDescriptor vfs"
  "vfsArenaSize (appended frame vfs) = vfsArenaSize vfs" "nextDescriptor (appended frame vfs) = nextDescriptor vfs"
  "vfsArenaSize (materialized frame vfs) = vfsArenaSize vfs" "nextDescriptor (materialized frame vfs) = nextDescriptor vfs"
  "vfsArenaSize (withState state vfs) = vfsArenaSize vfs" "nextDescriptor (withState state vfs) = nextDescriptor vfs"
  "vfsArenaSize (withPending prepared seq vfs) = vfsArenaSize vfs"
  "nextDescriptor (withPending prepared seq vfs) = nextDescriptor vfs"
  "vfsArenaSize (countFrame n vfs) = vfsArenaSize vfs" "nextDescriptor (countFrame n vfs) = nextDescriptor vfs"
  "vfsArenaSize (onStore f vfs) = vfsArenaSize vfs" "nextDescriptor (onStore f vfs) = nextDescriptor vfs"
  by (simp_all add: scheduleRepack_def Let_def appended_def materialized_def withState_def withPending_def countFrame_def
      onStore_def)

lemma pendingFrame_ok:
  assumes "held_back logged (vfsState vfs) seq p" and "generation (vfsState vfs) = generation logged"
  shows "pendingFrame p vfs = Inr (encFrame (logFrame (generation logged) seq (pendingRecord p)))"
  using assms encodeTxnFrame_ok [of "logFrame (generation logged) seq (pendingRecord p)"]
  by (simp add: pendingFrame_def held_back_def logFrame_def)

text \<open>A record and its frame, from a preflight that finds nothing to replace.\<close>

lemma preflight_now:
  assumes "preflightCommit txn vfs = Inr prepared" and "pendingReplacedBy txn vfs = None" and fits: "record_fits txn"
    and u: "u64 (generation (vfsState vfs))" "u64 (nextSequence (vfsStore vfs))"
  shows "materializedRecord prepared = txn" "\<not> replacesPendingResize prepared"
    "deferResize prepared = isDeferrableResize txn (vfsState vfs)"
    "frame_fits (logFrame (generation (vfsState vfs)) (nextSequence (vfsStore vfs)) txn)"
    "commitFrameBytes prepared
      = int (length (encFrame (logFrame (generation (vfsState vfs)) (nextSequence (vfsStore vfs)) txn)))"
    "commitFrame prepared = (if isDeferrableResize txn (vfsState vfs) then None
      else Some (encFrame (logFrame (generation (vfsState vfs)) (nextSequence (vfsStore vfs)) txn)))"
    "activeLogFrames (vfsStore vfs) < MAX_ACTIVE_LOG_FRAMES"
    "activeLogBytes (vfsStore vfs) + commitFrameBytes prepared \<le> MAX_ACTIVE_LOG_BYTES"
proof -
  let ?f = "logFrame (generation (vfsState vfs)) (nextSequence (vfsStore vfs)) txn"
  obtain projection n frame where p: "txnFrameBytes txn = Inr n"
    "(if isDeferrableResize txn (vfsState vfs) then Inr None
      else ebind (encodeTxnFrame ?f) (\<lambda>frame. Inr (Some frame))) = Inr frame"
    "activeLogFrames (vfsStore vfs) < MAX_ACTIVE_LOG_FRAMES" "activeLogBytes (vfsStore vfs) + n \<le> MAX_ACTIVE_LOG_BYTES"
    "prepared = \<lparr>commitFrame = frame, commitFrameBytes = n, commitProjection = projection, materializedRecord = txn,
       deferResize = isDeferrableResize txn (vfsState vfs), replacesPendingResize = False\<rparr>"
    using assms(1,2) by (auto simp: preflightCommit_def ebind_eq_Inr Let_def logFrame_def split: if_splits)
  have n: "n = 48 + int (length (encRecord txn))" "int (length (encRecord txn)) \<le> MAX_FRAME_PAYLOAD_BYTES"
    using p(1) estimate_length [OF fits] by (auto simp: txnFrameBytes_def TXN_FRAME_HEADER_BYTES_def split: if_splits)
  then show f: "frame_fits ?f" using fits u by (simp add: frame_fits_def logFrame_def u64_fits)
  show "materializedRecord prepared = txn" "\<not> replacesPendingResize prepared"
    "deferResize prepared = isDeferrableResize txn (vfsState vfs)"
    "activeLogFrames (vfsStore vfs) < MAX_ACTIVE_LOG_FRAMES"
    "activeLogBytes (vfsStore vfs) + commitFrameBytes prepared \<le> MAX_ACTIVE_LOG_BYTES"
    using p(3-5) by simp_all
  show "commitFrameBytes prepared = int (length (encFrame ?f))"
    using p(5) n(1) by (simp add: length_encFrame logFrame_def)
  show "commitFrame prepared = (if isDeferrableResize txn (vfsState vfs) then None else Some (encFrame ?f))"
    using p(2,5) encodeTxnFrame_ok [OF f] by (auto split: if_splits)
qed

context store_host
begin

lemma materialize_image:
  assumes e: "engine_image v vfs selected other st txns logged"
  shows "\<exists>v' vfs' txns'. runs (v, vfs) (materializePendingResize ops) (Inr ()) (v', vfs')
    \<and> engine_image v' vfs' selected other st txns' (vfsState vfs) \<and> pendingResizeCommit vfs' = None
    \<and> vfsState vfs' = vfsState vfs \<and> same_engine vfs vfs'
    \<and> nextSequence (vfsStore vfs') = nextSequence (vfsStore vfs)
    \<and> activeLogFrames (vfsStore vfs') = activeLogFrames (vfsStore vfs)
    \<and> activeLogBytes (vfsStore vfs') = activeLogBytes (vfsStore vfs) \<and> same_arena v v'"
proof (cases "pendingResizeCommit vfs")
  case None
  with e nothing_pending_runs [OF None] show ?thesis
    by (intro exI [of _ v] exI [of _ vfs] exI [of _ txns]) (auto simp: engine_image_def same_engine_def same_arena_def)
next
  case (Some p)
  note d = engine_imageD [OF e] and live = engine_image_live [OF e]
  note b = image_base [OF d(3)]
  let ?f = "logFrame (generation st) (1 + int (length txns)) (pendingRecord p)"
  have p: "held_back logged (vfsState vfs) (1 + int (length txns)) p"
    "log_counts (vfsStore vfs) (1 + int (length txns)) (int (length (logOf (generation st) 1 txns)) + pendingFrameBytes p)"
    using e Some by (simp_all add: engine_image_def)
  have f: "frame_fits ?f" "pendingFrameBytes p = int (length (encFrame ?f))"
    "applyTxn logged (pendingRecord p) None = (None, vfsState vfs)"
    using p(1) b(2) by (simp_all add: held_back_def)
  have room: "1 + int (length txns) \<le> MAX_ACTIVE_LOG_FRAMES"
    "int (length (logOf (generation st) 1 txns)) + int (length (encFrame ?f)) \<le> MAX_ACTIVE_LOG_BYTES"
    using p(2) f(2) by (simp_all add: log_counts_def)
  note img = append_image [OF d(3,1,5) refl f(1,3) d(4) room refl]
  have frame: "pendingFrame p vfs = Inr (encFrame ?f)" using pendingFrame_ok [OF p(1)] live(2) b(2) by simp
  let ?v = "changeFile (activeFile vfs) (Put (activeLogEnd (vfsStore vfs)) (encFrame ?f)) v"
  have "runs (v, vfs) (materializePendingResize ops) (Inr ()) (?v, materialized (encFrame ?f) vfs)"
    using materialize_runs [OF live(5,6) Some frame img(5,4)] .
  moreover have "engine_image ?v (materialized (encFrame ?f) vfs) selected other st (txns @ [pendingRecord p]) (vfsState vfs)"
    using img(1-3) d(2,4,6) p(2) f(2) unfolding live(4)
    by (auto simp: engine_image_def appended_store log_counts_def log_append)
  ultimately show ?thesis by - (intro exI conjI, assumption, assumption, simp_all add: same_engine_def same_arena_def appended_store live(4) active_not_arena)
qed

lemma now_image:
  assumes e: "engine_image v vfs selected other st txns logged"
    and pre: "preflightCommit txn vfs = Inr prepared" "record_fits txn" "\<not> isDeferrableResize txn (vfsState vfs)"
    and step: "applyTxn (vfsState vfs) txn None = (None, state)" "paths_ok state"
  shows "\<exists>v' vfs' txns'. runs (v, vfs) (commit ops txn None) (Inr ()) (v', vfs')
    \<and> engine_image v' vfs' selected other st txns' state \<and> vfsState vfs' = state \<and> same_engine vfs vfs'
    \<and> same_arena v v'"
proof -
  note live = engine_image_live [OF e]
  have u: "u64 (generation (vfsState vfs))" "u64 (nextSequence (vfsStore vfs))"
    using vfs_invD(4) [OF live(1)] e by (auto simp: gen_inv_def u64_def engine_image_def log_counts_def MAX_U64_def
        MAX_ACTIVE_LOG_FRAMES_def split: option.splits)
  have none: "pendingReplacedBy txn vfs = None" using pre(3) by (simp add: pendingReplacedBy_def)
  note p = preflight_now [OF pre(1) none pre(2) u]
  obtain v1 vfs1 txns1 where one: "runs (v, vfs) (materializePendingResize ops) (Inr ()) (v1, vfs1)"
    "engine_image v1 vfs1 selected other st txns1 (vfsState vfs)" "pendingResizeCommit vfs1 = None"
    "vfsState vfs1 = vfsState vfs" "same_engine vfs vfs1"
    "nextSequence (vfsStore vfs1) = nextSequence (vfsStore vfs)"
    "activeLogFrames (vfsStore vfs1) = activeLogFrames (vfsStore vfs)"
    "activeLogBytes (vfsStore vfs1) = activeLogBytes (vfsStore vfs)" "same_arena v v1"
    using materialize_image [OF e] by blast
  note d1 = engine_imageD [OF one(2)] and live1 = engine_image_live [OF one(2)]
  have counts: "log_counts (vfsStore vfs1) (int (length txns1)) (int (length (logOf (generation st) 1 txns1)))"
    using one(2,3) by (simp add: engine_image_def)
  let ?f = "logFrame (generation st) (1 + int (length txns1)) txn"
  have f: "logFrame (generation (vfsState vfs)) (nextSequence (vfsStore vfs)) txn = ?f"
    using live(2) counts one(6) by (simp add: log_counts_def)
  note p = p [unfolded f]
  have room: "1 + int (length txns1) \<le> MAX_ACTIVE_LOG_FRAMES"
    "int (length (logOf (generation st) 1 txns1)) + int (length (encFrame ?f)) \<le> MAX_ACTIVE_LOG_BYTES"
    using counts p(5,7,8) one(7,8) by (simp_all add: log_counts_def)
  note img = append_image [OF d1(3,1,5) refl p(4) step room refl]
  have frame: "commitFrame prepared = Some (encFrame ?f)" using p(6) pre(3) by simp
  have apply1: "applyTxn (vfsState vfs1) txn (Some (commitProjection prepared)) = (None, state)"
    using prepared_applies [OF preflight_projection [OF pre(1)]] step(1) one(4) by simp
  let ?v = "changeFile (activeFile vfs1) (Put (activeLogEnd (vfsStore vfs1)) (encFrame ?f)) v1"
  let ?e = "scheduleRepack (countFrame (commitFrameBytes prepared) (withState state (appended (encFrame ?f) vfs1)))"
  have now: "runs (v1, vfs1) (commitNow ops txn prepared) (Inr ()) (?v, ?e)"
    by (rule now_runs [OF live1(5,6) frame img(5,4) apply1])
  have "runs (v, vfs) (commitPrepared ops txn prepared) (Inr ()) (?v, ?e)"
    unfolding commitPrepared_def using p(2,3) pre(3) by (simp add: steps_bind [OF one(1)] now)
  then have "runs (v, vfs) (commit ops txn None) (Inr ()) (?v, ?e)"
    unfolding commit_def assertHealthy_def
    by (intro steps_asksRes [where f = checkOpen, OF live(7)]) (simp, rule steps_asksRes [where f = "preflightCommit txn", OF pre(1)])
  moreover have "engine_image ?v ?e selected other st (txns1 @ [txn]) state"
    using img(1-3) d1(2,6) step(2) counts p(5) one(3) room unfolding live1(4)
    by (auto simp: engine_image_def appended_store log_counts_def log_append)
  moreover have "same_engine vfs ?e" using one(5) by (simp add: same_engine_def appended_store)
  moreover have "same_arena v ?v" using one(9) by (simp add: same_arena_def live1(4))
  ultimately show ?thesis by - (intro exI conjI, assumption, assumption, simp_all)
qed

lemma keep_image:
  assumes "engine_image v vfs selected other st txns logged"
  shows "engine_image (keepFile name v) (vfs\<lparr>flushes := counts\<rparr>) selected other st txns logged"
  using assms by (auto simp: engine_image_def held_def split: option.split)

lemma flush_if_runs:
  assumes "engine_image v vfs selected other st txns logged"
  shows "\<exists>v' counts. runs (v, vfs) (if dirty then flushFile ops name label kind else ioret ()) (Inr ())
        (v', vfs\<lparr>flushes := counts\<rparr>)
      \<and> engine_image v' (vfs\<lparr>flushes := counts\<rparr>) selected other st txns logged
      \<and> hvPending v' = (if dirty then (hvPending v)(name := []) else hvPending v) \<and> hvFiles v' = hvFiles v"
proof (cases dirty)
  case True
  obtain counts where "runs (v, vfs) (flushFile ops name label kind) (Inr ()) (keepFile name v, vfs\<lparr>flushes := counts\<rparr>)"
    using flush_runs [of v name vfs label kind] engine_image_live(5) [OF assms] by blast
  with keep_image [OF assms, of name counts] True show ?thesis by (intro exI conjI) (auto simp: fun_eq_iff)
next
  case False
  then show ?thesis using assms by (intro exI [of _ v] exI [of _ "flushes vfs"]) simp
qed

text \<open>A strict sync writes what was held back and leaves nothing pending in any file.\<close>

lemma sync_image:
  assumes e: "engine_image v vfs selected other st txns logged"
  shows "\<exists>v' vfs' txns'. runs (v, vfs) (strictSync ops) (Inr ()) (v', vfs')
    \<and> engine_image v' vfs' selected other st txns' (vfsState vfs) \<and> vfsState vfs' = vfsState vfs
    \<and> pendingResizeCommit vfs' = None \<and> descriptors vfs' = descriptors vfs \<and> orphans vfs' = orphans vfs
    \<and> (\<forall>name. hvPending v' name = []) \<and> hvFiles v' ArenaBin = hvFiles v ArenaBin \<and> nextDescriptor vfs' = nextDescriptor vfs
    \<and> vfsArenaSize vfs' = vfsArenaSize vfs \<and> arenaHighWaterExtents (vfsStore vfs') = arenaHighWaterExtents (vfsStore vfs)"
proof -
  let ?active = "metadataFileName (activeMetadataFile st)"
  obtain v1 c1 where one: "runs (v, vfs) (if vfsArenaDirty vfs then flushFile ops ArenaBin ''sync.arena.flush'' ArenaFlush
        else ioret ()) (Inr ()) (v1, vfs\<lparr>flushes := c1\<rparr>)"
    "engine_image v1 (vfs\<lparr>flushes := c1\<rparr>) selected other st txns logged"
    "hvPending v1 = (if vfsArenaDirty vfs then (hvPending v)(ArenaBin := []) else hvPending v)" "hvFiles v1 = hvFiles v"
    using flush_if_runs [OF e] by blast
  obtain v2 vfs2 txns2 where two: "runs (v1, vfs\<lparr>flushes := c1\<rparr>) (materializePendingResize ops) (Inr ()) (v2, vfs2)"
    "engine_image v2 vfs2 selected other st txns2 (vfsState vfs)" "pendingResizeCommit vfs2 = None"
    "vfsState vfs2 = vfsState vfs" "same_engine (vfs\<lparr>flushes := c1\<rparr>) vfs2" "hvPending v2 ArenaBin = hvPending v1 ArenaBin"
    "hvFiles v2 ArenaBin = hvFiles v1 ArenaBin"
    using materialize_image [OF one(2)] by (auto simp: same_arena_def)
  obtain v3 c3 where three: "runs (v2, vfs2) (if metadataDirtySinceFlush vfs2
        then flushFile ops ?active ''sync.metadata.flush'' MetadataFlush else ioret ()) (Inr ()) (v3, vfs2\<lparr>flushes := c3\<rparr>)"
    "engine_image v3 (vfs2\<lparr>flushes := c3\<rparr>) selected other st txns2 (vfsState vfs)"
    "hvPending v3 = (if metadataDirtySinceFlush vfs2 then (hvPending v2)(?active := []) else hvPending v2)" "hvFiles v3 = hvFiles v2"
    using flush_if_runs [OF two(2)] by blast
  let ?e = "vfs2\<lparr>flushes := c3, vfsArenaDirty := False, arenaDirtyBytesSinceFlush := 0, metadataDirtySinceFlush := False\<rparr>"
  have "hvPending v3 name = []" for name
  proof (rule ccontr)
    assume "hvPending v3 name \<noteq> []"
    then have left: "hvPending v2 name \<noteq> []" "\<not> (metadataDirtySinceFlush vfs2 \<and> name = ?active)"
      using three(3) by (auto split: if_splits)
    from engine_imageD(6) [OF two(2) left(1)] left(2) have "name = ArenaBin" "vfsArenaDirty vfs2" by auto
    then have "hvPending v1 ArenaBin \<noteq> []" "vfsArenaDirty vfs" using left(1) two(5,6) by (auto simp: same_engine_def)
    then show False using one(3) by simp
  qed
  moreover from this have "engine_image v3 ?e selected other st txns2 (vfsState vfs)"
    using three(2) by (auto simp: engine_image_def split: option.split)
  moreover have "runs (v, vfs) (strictSync ops) (Inr ()) (v3, ?e)"
    unfolding strictSync_def assertHealthy_def
    apply (rule steps_asksRes [where f = checkOpen, OF engine_image_live(7) [OF e]])
    apply (rule steps_poison_ok, rule steps_asks, rule steps_bind [OF one(1)], rule steps_bind [OF two(1)], rule steps_asks)
    apply (rule steps_bind)
     apply (cases "metadataDirtySinceFlush vfs2"; simp only: if_True if_False)
      apply (rule steps_asks, use three(1) engine_image_live(4) [OF two(2)] in simp)
     apply (use three(1) in simp)
    apply (unfold arenaClean_def, rule steps_updates, rule steps_update, simp)
    done
  ultimately show ?thesis using two(3,4,5,7) one(4) three(4)
    by - (rule exI [of _ v3], rule exI [of _ ?e], rule exI [of _ txns2], simp add: same_engine_def)
qed

end

end
