(* ===== verification/ByteOrderMark.thy ===== *)
theory ByteOrderMark
  imports PlannedRecords EngineDurability StoreProperties "HOL-Library.Code_Target_Nat"
begin

text \<open>
  A name may start with U+FEFF: the path grammar accepts it, so do the planner and the reducer, and the
  frame of its transaction is written; but the reader's text decoder drops the mark, finds the length
  changed and calls the frame corrupt. The next opening ends the log there; a base with such a name is corrupt
  as a whole.
\<close>

section \<open>The reader\<close>

lemma marked_text:
  assumes ok: "component_ok s" and marked: "\<not> bom_free s"
  shows "readString (encText s @ rest) = Inl CorruptStoreError"
proof -
  note b = component_bounds [OF ok]
  obtain t where t: "s = bom_unit # t" using marked by (cases s) (auto simp: bom_free_def)
  have unit: "\<not> highSurrogate bom_unit" "\<not> lowSurrogate bom_unit" by (simp_all add: surrogate_unat bom_unit_def)
  then have okt: "utf8_ok t" using b(1) t by (simp add: utf8_ok_eqs)
  have shorter: "utf8_bytes t < utf8_bytes s" using utf8_bytes_eqs(2) [OF unit okt] t by (simp add: unitBytes_def bom_unit_def)
  let ?l = "int (length (utf8Encode s))"
  have l: "?l = utf8_bytes s" by (rule length_utf8Encode [OF b(1)])
  have "fits 2 ?l" using l b by (simp add: fits_def MAX_COMPONENT_BYTES_def)
  then have "readU16 (encText s @ rest) = Inr (?l, utf8Encode s @ rest)" by (simp add: encText_def b16.rd_enc)
  moreover have "readRaw ?l (utf8Encode s @ rest) = Inr (utf8Encode s, rest)"
    using l b by (simp add: readRaw_def requireBytes_def isSafeInteger_def MAX_SAFE_INTEGER_def MAX_COMPONENT_BYTES_def)
  moreover have "utf8Decode (utf8Encode s) = Some t" using utf8Decode_encode [OF b(1)] marked t by simp
  ultimately show ?thesis
    using b l shorter length_utf8Encode [OF okt] by (simp add: readString_def readText_def rcheck_def rbind_def)
qed

lemma marked_choice:
  assumes "choice_shape c" "\<not> bom_free (choiceName c)"
  shows "readChoice (encChoice c @ rest) = Inl CorruptStoreError"
proof -
  have "readString (encText (choiceName c) @ more) = Inl CorruptStoreError" for more
    by (rule marked_text) (use assms in \<open>simp_all add: choice_shape_def\<close>)
  then show ?thesis using assms(1) by (simp add: readChoice_def encChoice_def choice_shape_def b64.rd_seq)
qed

lemma choice_fits_shape: "choice_fits c \<longleftrightarrow> choice_shape c \<and> bom_free (choiceName c)"
  by (auto simp: choice_fits_def choice_shape_def name_ok_def)

lemma marked_choices:
  "\<forall>c\<in>set cs. choice_shape c \<Longrightarrow> \<exists>c\<in>set cs. \<not> bom_free (choiceName c) \<Longrightarrow>
     readMany (length cs) readChoice (concat (map encChoice cs) @ rest) = Inl CorruptStoreError"
proof (induction cs)
  case (Cons c cs)
  show ?case
  proof (cases "bom_free (choiceName c)")
    case True
    then have "choice_fits c" using Cons.prems(1) by (simp add: choice_fits_shape)
    with Cons True show ?thesis by (simp add: choice.rd_seq)
  next
    case False
    with Cons.prems(1) show ?thesis by (simp add: rbind_def marked_choice)
  qed
qed simp

text \<open>A record with a marked name is corrupt to its reader.\<close>

lemma marked_record:
  assumes shape: "record_shape r" and marked: "n \<in> set (recordNames r)" "\<not> bom_free n"
  shows "decodeTxnRecord (encRecord r) = Inl CorruptStoreError"
proof -
  have "fits 1 (RECORD_CODES r)" by (simp add: RECORD_CODES_def fits_def split: TxnRecord.split)
  moreover have fields: "readFields (RECORD_CODES r) (encFields r @ []) = Inl CorruptStoreError"
  proof (cases r)
    case (CreateDirectories cs)
    then have cs: "\<forall>c\<in>set cs. choice_shape c" "\<exists>c\<in>set cs. \<not> bom_free (choiceName c)" "cs \<noteq> []" "int (length cs) \<le> MAX_INODES"
      using assms by (auto simp: record_shape_def recordNames_def)
    with marked_choices [OF cs(1,2), of "[]"] CreateDirectories show ?thesis
      by (simp add: readFields_def RECORD_CODES_def encFields_def readBoundedCount_enc MAX_INODES_def)
  next
    case (CreateFile c fsize rs)
    with assms marked_choice [of c] show ?thesis
      by (simp add: readFields_def RECORD_CODES_def encFields_def record_shape_def recordNames_def)
  next
    case (CreateSymlink c target)
    with assms marked_choice [of c] show ?thesis
      by (simp add: readFields_def RECORD_CODES_def encFields_def record_shape_def recordNames_def)
  next
    case (RemoveFile p nm m c)
    with assms marked_text [of nm] show ?thesis
      by (simp add: readFields_def readNameChange_def RECORD_CODES_def encFields_def record_shape_def recordNames_def b64.rd_seq)
  next
    case (RemoveDirectory p nm m c)
    with assms marked_text [of nm] show ?thesis
      by (simp add: readFields_def readNameChange_def RECORD_CODES_def encFields_def record_shape_def recordNames_def b64.rd_seq)
  next
    case (Rename sp sn dp dn now)
    show ?thesis
    proof (cases "bom_free sn")
      case True
      then have "name_ok sn" "\<not> bom_free dn" using assms Rename by (auto simp: record_shape_def recordNames_def name_ok_def)
      with assms Rename marked_text [of dn] show ?thesis
        by (simp add: readFields_def RECORD_CODES_def encFields_def record_shape_def b64.rd_seq name.rd_seq)
    next
      case False
      with assms Rename marked_text [of sn] show ?thesis
        by (simp add: readFields_def RECORD_CODES_def encFields_def record_shape_def b64.rd_seq)
    qed
  qed (use assms in \<open>simp_all add: recordNames_def\<close>)
  ultimately show ?thesis by (simp add: decodeTxnRecord_def encRecord_def b8.rd_seq)
qed

section \<open>The writer\<close>

lemma shape_string:
  "component_ok s \<Longrightarrow> has_room w (length (encText s)) \<Longrightarrow> writeString s w = Inr (emit w (encText s))"
  using component_bounds [of s]
  by (simp add: writeString_def writeText MAX_COMPONENT_BYTES_def validatePathComponent_Inr [THEN iffD2])

lemma shape_string_seq:
  "component_ok s \<Longrightarrow> has_room w (length (encText s)) \<Longrightarrow> andThen (writeString s) g w = g (emit w (encText s))"
  by (simp add: andThen_def shape_string)

lemma shape_choice:
  "choice_shape c \<Longrightarrow> has_room w (length (encChoice c)) \<Longrightarrow> writeChoice c w = Inr (emit w (encChoice c))"
  by (simp add: writeChoice_def encChoice_def choice_shape_def wr_seqs wr_encs shape_string_seq has_room_def)

lemma shape_choice_seq:
  "choice_shape c \<Longrightarrow> has_room w (length (encChoice c)) \<Longrightarrow> andThen (writeChoice c) g w = g (emit w (encChoice c))"
  by (simp add: andThen_def shape_choice)

lemma shape_choices:
  "\<forall>c\<in>set cs. choice_shape c \<Longrightarrow> has_room w (length (concat (map encChoice cs)))
     \<Longrightarrow> fold_res writeChoice cs w = Inr (emit w (concat (map encChoice cs)))"
proof (induction cs arbitrary: w)
  case (Cons c cs)
  have "has_room w (length (encChoice c))" using Cons.prems(2) by (rule has_room_le) simp
  with Cons.prems(1) have "writeChoice c w = Inr (emit w (encChoice c))" by (intro shape_choice) simp_all
  moreover have "fold_res writeChoice cs (emit w (encChoice c)) = Inr (emit (emit w (encChoice c)) (concat (map encChoice cs)))"
    using Cons.prems by (intro Cons.IH) simp_all
  ultimately show ?case by simp
qed simp

lemma shape_utf8: "component_ok s \<Longrightarrow> encodedUtf8Length s = Inr (utf8_bytes s)" "component_ok s \<Longrightarrow> int (length (encText s)) = 2 + utf8_bytes s"
  by (simp_all add: encodedUtf8Length_eq length_encText component_ok_utf8)

lemma shape_choice_length: "choice_shape c \<Longrightarrow> int (length (encChoice c)) = 46 + utf8_bytes (choiceName c)"
  by (simp add: encChoice_def choice_shape_def shape_utf8)

lemma shape_choices_length:
  "\<forall>c\<in>set cs. choice_shape c \<Longrightarrow>
     fold_res (\<lambda>entry bytes. ebind (encodedUtf8Length (choiceName entry))
        (\<lambda>n. Inr (bytes + 8 + 2 + n + 8 + 4 + 24))) cs b = Inr (b + int (length (concat (map encChoice cs))))"
proof (induction cs arbitrary: b)
  case (Cons c cs)
  then have "encodedUtf8Length (choiceName c) = Inr (utf8_bytes (choiceName c))" by (simp add: choice_shape_def shape_utf8)
  with Cons show ?case by (simp add: shape_choice_length algebra_simps)
qed simp

lemma shape_length: "record_shape r \<Longrightarrow> estimateTxnPayloadBytes r = Inr (int (length (encRecord r)))"
proof (cases r)
  case (CreateDirectories cs)
  moreover assume "record_shape r"
  ultimately show ?thesis using shape_choices_length [of cs 0]
    by (simp add: estimateTxnPayloadBytes_def record_shape_def encRecord_def encFields_def)
qed (simp add: estimateTxnPayloadBytes_def record_shape_def encRecord_def encFields_def shape_choice_length shape_utf8
      length_encText length_encRuns encodedUtf8Length_eq target_bounds choice_shape_def)+

lemma shape_written:
  assumes shape: "record_shape r" and small: "int (length (encRecord r)) \<le> MAX_SAFE_INTEGER"
  shows "encodeTxnRecord r = Inr (encRecord r)"
proof -
  let ?w = "\<lparr>limit = int (length (encRecord r)), written = []\<rparr>"
  have "newWriter (int (length (encRecord r))) 0 = Inr ?w"
    using small by (simp add: newWriter_def isSafeInteger_def MAX_SAFE_INTEGER_def)
  moreover have "andThen (writeU8 (RECORD_CODES r)) (writeFields r) ?w = Inr (emit ?w (encRecord r))"
  proof -
    let ?v = "emit ?w (encU8 (RECORD_CODES r))"
    have code: "fits 1 (RECORD_CODES r)" by (simp add: RECORD_CODES_def fits_def split: TxnRecord.split)
    have w: "has_room ?w (length (encRecord r))" by (simp add: has_room_def)
    then have room: "has_room ?v (length (encFields r))" by (simp add: encRecord_def)
    have "writeFields r ?v = Inr (emit ?v (encFields r))"
    proof (cases r)
      case (CreateDirectories cs)
      with shape room show ?thesis
        by (simp add: writeFields_def encFields_def record_shape_def part_wr choices_fit shape_choices has_room_def)
    next
      case (ResizeFile operation iid fsize allocated mtime ctime)
      with shape room show ?thesis
        by (cases operation) (simp_all add: writeFields_def encFields_def record_shape_def part_wr has_room_def)
    qed (use shape room in \<open>simp add: writeFields_def encFields_def record_shape_def writeNameChange_def
        part_wr shape_string_seq shape_choice_seq has_room_def\<close>)+
    moreover have "has_room ?w 1" using w by (rule has_room_le) (simp add: encRecord_def)
    ultimately show ?thesis using code by (simp add: b8.wr_seq encRecord_def)
  qed
  ultimately show ?thesis by (simp add: encodeTxnRecord_def shape_length [OF shape] finishWriter_def)
qed

section \<open>What the next opening finds\<close>

lemma written_header:
  assumes "fits 8 (frameGeneration f)" "fits 8 (frameSequence f)" "int (length (encRecord (frameRecord f))) \<le> MAX_FRAME_PAYLOAD_BYTES"
  shows "inspectTxnFrameHeader (take 48 (encFrame f @ rest)) = Inr \<lparr>headerGeneration = frameGeneration f,
      headerSequence = frameSequence f, headerPayloadLength = int (length (encRecord (frameRecord f))),
      headerFrameBytes = int (length (encFrame f))\<rparr>"
proof -
  let ?n = "int (length (encRecord (frameRecord f)))"
  let ?head = "frameHead (frameGeneration f) (frameSequence f) ?n"
  let ?c = "leBytes 4 (uint (crc32 (?head @ zeros 4 @ zeros 4 @ zeros 4 @ encRecord (frameRecord f))))"
  have "take 48 (encFrame f) = ?head @ zeros 4 @ ?c @ zeros 4" by (simp add: encFrame_def Let_def seal_def)
  moreover have "take 48 (encFrame f @ rest) = take 48 (encFrame f)" by (simp add: length_encFrame)
  ultimately show ?thesis
    using assms by (auto simp: inspectTxnFrameHeader_iff length_encFrame intro!: exI [of _ ?c])
qed

text \<open>The replay stops at a frame whose record has a marked name, whatever follows.\<close>

lemma marked_stops:
  assumes f: "fits 8 (frameGeneration f)" "fits 8 (frameSequence f)" "int (length (encRecord (frameRecord f))) \<le> MAX_FRAME_PAYLOAD_BYTES"
    and dec: "decodeTxnFrame (encFrame f) = Inl CorruptStoreError"
  shows "stopsHere (encFrame f @ later) seq state"
  using written_header [OF f, of later] dec
  by (simp add: stopsHere_def TXN_FRAME_HEADER_BYTES_def replayFrame_def stopsReplay_def)

text \<open>
  C34. A name that starts with U+FEFF loses its transaction, and all that follow it: in every store, a
  record the planner returns with such a name applies to a valid state, and its frame is encoded;
  but the frame cannot be decoded, and the next opening of the store ends its log before it and
  recovers the state without it, whatever else was logged later.
\<close>

theorem byte_order_mark_names_are_lost:
  assumes img: "store_image files selected other st txns [] state"
    and plan: "planned state r" "nm \<in> set (recordNames r)" "nm = 0xFEFF # rest"
    and f: "f = logFrame (generation st) (1 + int (length txns)) r" "int (length (encRecord r)) \<le> MAX_FRAME_PAYLOAD_BYTES"
    and port: "memory_good port" "openFiles port = []"
      "(\<lambda>name. volatileBytes name port) = files (metadataFileName (activeMetadataFile st)
          := files (metadataFileName (activeMetadataFile st)) @ encFrame f @ later)"
  shows "(\<exists>state'. applyTxn state r None = (None, state') \<and> validateState state' = Inr ())
    \<and> encodeTxnFrame f = Inr (encFrame f) \<and> decodeTxnFrame (encFrame f) = Inl CorruptStoreError
    \<and> (\<exists>store port'. openMetadataStore (memoryOps cmp) None port = (Inr store, port') \<and> storeState store = state)"
proof -
  note i = img [unfolded store_image_def]
  have inv: "vfs_inv state" and ok: "paths_ok state"
    using image_base(1) [OF img] validateState_sound [OF vfs_inv_rep [OF image_base(1) [OF img]]] i by blast+
  obtain state' where done1: "applyTxn state r None = (None, state')" "vfs_inv state'" "paths_ok state'"
    by (rule planned_applies [OF inv ok plan(1)])
  have shape: "record_shape r" by (rule planned_shape [OF inv plan(1)])
  have "gen_inv st" using vfs_invD(4) i by blast
  then have gen: "u64 (generation st)" "u64 (1 + int (length txns))"
    using i by (auto simp: gen_inv_def u64_def MAX_U64_def MAX_ACTIVE_LOG_FRAMES_def)
  have marked: "\<not> bom_free nm" using plan(3) by (simp add: bom_free_def bom_unit_def)
  have fields: "frameGeneration f = generation st" "frameSequence f = 1 + int (length txns)" "frameRecord f = r"
    by (simp_all add: f(1) logFrame_def)
  have enc: "encodeTxnFrame f = Inr (encFrame f)"
    by (rule encodeTxnFrame_written) (use shape_written [OF shape] f(2) gen in \<open>simp_all add: fields MAX_FRAME_PAYLOAD_BYTES_def MAX_SAFE_INTEGER_def\<close>)
  have dec: "decodeTxnFrame (encFrame f) = Inl CorruptStoreError"
    using decodeTxnFrame_written [of f] marked_record [OF shape plan(2) marked] gen f(2) by (simp add: fields u64_fits)
  have "stopsHere (encFrame f @ later) (1 + int (length txns)) state"
    by (rule marked_stops [OF _ _ _ dec]) (use gen f(2) in \<open>simp_all add: fields u64_fits\<close>)
  then have "store_image (\<lambda>name. volatileBytes name port) selected other st txns (encFrame f @ later) state"
    unfolding port(3) using i by (cases "activeMetadataFile st") (simp_all add: store_image_def)
  then have "store_image (hvFiles (memory_view port)) selected other st txns (encFrame f @ later) state" by simp
  from memory.open_recovers [OF port(1) _ this, of None cmp] port(2)
  have "\<exists>store port'. openMetadataStore (memoryOps cmp) None port = (Inr store, port') \<and> storeState store = state"
    by (auto simp: recoveredStore_def Let_def)
  with enc dec done1 validateState_complete [OF done1(2,3)] show ?thesis by blast
qed

text \<open>A directory with a marked name in an empty store, and a second frame after it.\<close>

abbreviation path_bom :: js_string where "path_bom \<equiv> [slash, 0xFEFF, 97]"

definition bomRecord :: TxnRecord where "bomRecord = CreateDirectories (mkChain 16895 5 1 2 [[0xFEFF, 97]])"

lemma bom_plan: "planMkdir demo0 path_bom False None 5 = Inr bomRecord" "length (encRecord bomRecord) = 55"
  "recordNames bomRecord = [[0xFEFF, 97]]"
  by code_simp+

theorem byte_order_mark_names_are_lost_witness:
  "planMkdir demo0 path_bom False None 5 = Inr bomRecord
    \<and> (\<exists>port store port'. volatileBytes MetadataABin port = encBase demo0 @ encFrame (logFrame 1 1 bomRecord) @ encFrame (logFrame 1 2 demoRecord)
      \<and> openMetadataStore (memoryOps (\<lambda>_ _. 0)) None port = (Inr store, port') \<and> storeState store = demo0)"
proof -
  let ?f = "logFrame 1 1 bomRecord" and ?later = "encFrame (logFrame 1 2 demoRecord)"
  let ?files = "(freshFiles 65536)(MetadataABin := freshFiles 65536 MetadataABin @ encFrame ?f @ ?later)"
  have img: "store_image (freshFiles 65536) (firstRecord 65536) None demo0 [] [] demo0"
    using fresh_image [OF demo_ext] by (simp add: demo_initial demo_decoded)
  have len: "length (encFrame ?f) = 103" "length ?later = 100"
    using bom_plan(2) demo_record(2) by (simp_all add: length_encFrame logFrame_def)
  have small: "int (length (?files name)) \<le> MAX_SAFE_INTEGER" for name
  proof (cases "name = MetadataABin")
    case True
    with len image_base(5) [OF img] show ?thesis
      by (simp add: freshFiles_def demo_initial MAX_SAFE_INTEGER_def MAX_METADATA_BASE_WRITER_BYTES_def)
  qed (use fresh_small [OF demo_ext, of name] in simp)
  have plan: "planned demo0 bomRecord" by (rule planned.intros, rule bom_plan(1))
  have at: "(\<lambda>name. volatileBytes name (portOf ?files)) = (freshFiles 65536)(metadataFileName (activeMetadataFile demo0)
      := freshFiles 65536 (metadataFileName (activeMetadataFile demo0)) @ encFrame ?f @ ?later)"
    by (simp add: demo_fields fun_eq_iff)
  have f: "?f = logFrame (generation demo0) (1 + int (length ([] :: TxnRecord list))) bomRecord" by (simp add: demo_fields)
  have "\<exists>store port'. openMetadataStore (memoryOps (\<lambda>_ _. 0)) None (portOf ?files) = (Inr store, port') \<and> storeState store = demo0"
    using byte_order_mark_names_are_lost [OF img plan _ refl f _ portOf_good [OF small] _ at] bom_plan(2,3)
    by (simp add: MAX_FRAME_PAYLOAD_BYTES_def)
  then obtain store port' where "openMetadataStore (memoryOps (\<lambda>_ _. 0)) None (portOf ?files) = (Inr store, port')" "storeState store = demo0"
    by blast
  moreover have "volatileBytes MetadataABin (portOf ?files) = encBase demo0 @ encFrame ?f @ ?later"
    by (simp add: freshFiles_def demo_initial)
  ultimately show ?thesis using bom_plan(1) by blast
qed

section \<open>The base\<close>

text \<open>The state after the record: its base is written by the next repack, and cannot be decoded either.\<close>

definition bomState :: VfsState where
  "bomState = demo0\<lparr>nextInodeId := 3, basePayloadBytes := 116,
     inodes := [node 1 16895 0 0 0 (Directory [([0xFEFF, 97], 2)]), node 2 16895 5 5 5 (Directory [])],
     parentByInode := [(2, 1, [0xFEFF, 97])]\<rparr>"

definition bomPayload :: "byte list" where
  "bomPayload = [0, 0, 0, 0, 0, 0, 0, 0, 3, 0, 0, 0, 0, 0, 0, 0, 2, 0, 0, 0, 1, 0, 0, 0, 0, 0, 0, 0, 0, 255, 65, 0, 0,
     0, 0, 0, 0, 0, 0, 0, 0, 0, 0, 0, 0, 0, 0, 0, 0, 0, 0, 0, 0, 0, 0, 0, 0, 1, 0, 0, 0, 4, 0, 239, 187, 191, 97,
     2, 0, 0, 0, 0, 0, 0, 0, 2, 0, 0, 0, 0, 0, 0, 0, 0, 255, 65, 0, 0, 5, 0, 0, 0, 0, 0, 0, 0, 5, 0, 0, 0, 0, 0, 0, 0,
     5, 0, 0, 0, 0, 0, 0, 0, 0, 0, 0, 0]"

lemma bom_applied: "applyTxn demo0 bomRecord None = (None, bomState)"
  by code_simp

lemma bom_payload:
  "encodeMetadataPayload bomState 116 80 = Inr (zeros 80 @ bomPayload)" "length bomPayload = 116"
  by code_simp+

lemma bom_state:
  "validateState bomState = Inr ()" "generation bomState = 1" "extentSize bomState = 65536" "rootInodeId bomState = 1"
  "basePayloadBytes bomState = 116" "activeMetadataFile bomState = MetaA"
  "sizeExtent (available (allocator bomState)) = 0" "length (quarantine (allocator bomState)) = 0"
  by code_simp+

lemma bom_unreadable:
  "decodePayload \<lparr>hdrFormatVersion = FORMAT_VERSION, hdrLimitsProfileVersion = LIMITS_PROFILE_VERSION, hdrGeneration = 1,
     hdrExtentSize = 65536, hdrMetadataFileCode = 0, hdrRootInodeId = 1, hdrPayloadLength = 116, hdrAvailableCount = 0,
     hdrQuarantineCount = 0, hdrBaseEnd = 196\<rparr> MetaA bomPayload = Inl CorruptStoreError"
  by code_simp

lemma bom_base_unreadable:
  "\<exists>buf. encodeMetadataBase bomState = Inr buf \<and> decodeMetadataBase buf = Inl CorruptStoreError"
proof -
  let ?head = "baseHead 1 65536 (metadataFileCode MetaA) 1 116 0 0"
  let ?buf = "seal ?head (zeros 12 @ bomPayload)"
  note len = bom_payload(2) and head = fill_head [of 116 0 0 1 0 65536 1, simplified]
  have "setChecksum 64 (?head @ zeros 4 @ (zeros 12 @ bomPayload)) = Inr ?buf"
    by (rule setChecksum_seal) (simp_all add: len)
  moreover have "zeros 16 = zeros 4 @ zeros 12" using zeros_add [of 4 12] by simp
  ultimately have "encodeMetadataBase bomState = Inr ?buf"
    using bom_payload(1)
    by (simp add: encodeMetadataBase_def encodeValidatedMetadataBase_def METADATA_HEADER_BYTES_def
        METADATA_HEADER_CHECKSUM_OFFSET_def Let_def set_left head bom_state del: leBytes.simps)
  moreover have "decodeMetadataBase ?buf = Inl CorruptStoreError"
  proof -
    have extent: "validateExtentSize 65536 = Inr 65536" by code_simp
    note h = sealed_header [of 1 65536 1 116 0 0 MetaA bomPayload]
    have "requireChecksum ?buf 64 = Inr ()" by (rule requireChecksum_seal) (simp_all add: len)
    moreover have "drop 80 ?buf = bomPayload" by (simp add: seal_def)
    ultimately show ?thesis
      using h bom_unreadable len extent
      by (simp add: decodeMetadataBase_def METADATA_HEADER_BYTES_def METADATA_HEADER_CHECKSUM_OFFSET_def fits_def
          MAX_METADATA_BASE_READER_BYTES_def requireCurrentIdentity_def orCorrupt_def
          decodeMetadataFile_def)
  qed
  ultimately show ?thesis by blast
qed

end
