(* ===== verification/EngineProperties.thy ===== *)
theory EngineProperties
  imports EngineFailStop MemoryHost Scenario
begin

text \<open>
  The properties of the engine that hold on every host: what a failure leaves behind, how the operations
  on the tree follow their plans, and what an open file keeps when its path is taken away.
\<close>

section \<open>The operations on the tree\<close>

datatype TreeCall =
  SymlinkCall js_string js_string int
| MkdirCall js_string bool "int option" int
| ChmodCall js_string int int
| UtimesCall js_string int int int
| RmdirCall js_string int
| UnlinkCall js_string int
| RenameCall js_string js_string int

fun runTree :: "('w, 'h) store_ops \<Rightarrow> TreeCall \<Rightarrow> ('w, 'h, unit) vfs" where
  "runTree ops (SymlinkCall target p now) = symlink ops target p now"
| "runTree ops (MkdirCall p recursive bits now) = mkdir ops p recursive bits now"
| "runTree ops (ChmodCall p bits now) = chmod ops p bits now"
| "runTree ops (UtimesCall p a m c) = utimes ops p a m c"
| "runTree ops (RmdirCall p now) = rmdir ops p now"
| "runTree ops (UnlinkCall p now) = unlink ops p now"
| "runTree ops (RenameCall p target now) = rename ops p target now"

text \<open>The record a call plans in a state, after its paths are resolved.\<close>

fun treePlan :: "TreeCall \<Rightarrow> VfsState \<Rightarrow> TxnRecord res" where
  "treePlan (SymlinkCall target p now) st =
     ebind (resolveLinks st p False) (\<lambda>r. planSymlink st r target None now)"
| "treePlan (MkdirCall p recursive bits now) st =
     ebind (resolveLinks st p False) (\<lambda>r. planMkdir st r recursive bits now)"
| "treePlan (ChmodCall p bits now) st = ebind (resolveLinks st p True) (\<lambda>r. planChmod st r bits now)"
| "treePlan (UtimesCall p a m c) st = ebind (resolveLinks st p True) (\<lambda>r. planUtimes st r a m c)"
| "treePlan (RmdirCall p now) st = ebind (resolveLinks st p False) (\<lambda>r. planRmdir st r now)"
| "treePlan (UnlinkCall p now) st = ebind (resolveLinks st p False) (\<lambda>r. planUnlink st r now)"
| "treePlan (RenameCall p target now) st =
     ebind (resolveLinks st p False) (\<lambda>r. ebind (resolveLinks st target False) (\<lambda>q. planRename st r q now))"

lemma orphaned_keeps [simp]:
  "vfsStore (orphaned fds orphan vfs) = vfsStore vfs" "vfsStatus (orphaned fds orphan vfs) = vfsStatus vfs"
  by (simp_all add: orphaned_def)

text \<open>A guarded call whose last step is a commit: refused without effect, or what the commit did.\<close>

definition follows :: "TxnRecord res \<Rightarrow> 'w \<times> 'h RepackedVfs \<Rightarrow> unit res \<Rightarrow> 'w \<times> 'h RepackedVfs \<Rightarrow> bool" where
  "follows plan we r we' \<longleftrightarrow>
     (case r of
        Inr _ \<Rightarrow> \<exists>txn. plan = Inr txn \<and> applyTxn (vfsState (snd we)) txn None = (None, vfsState (snd we'))
          \<and> vfsStatus (snd we') = StatusOpen
      | Inl e \<Rightarrow> vfsStatus (snd we') \<noteq> StatusOpen \<or> we' = we)"

lemma refused_follows: "follows plan we (Inl e) we" "Inl e = r \<Longrightarrow> follows plan we r we"
  by (auto simp: follows_def)

text \<open>Steps after the commit that only concern the descriptors.\<close>

lemma follows_commit:
  assumes "iobind (commit ops txn None) (\<lambda>_. m) we = (r, we')"
    and m: "\<And>we1. \<exists>vfs. m we1 = (Inr (), (fst we1, vfs)) \<and> vfsStore vfs = vfsStore (snd we1) \<and> vfsStatus vfs = vfsStatus (snd we1)"
  shows "follows (Inr txn) we r we'"
proof -
  obtain rc we1 where c: "commit ops txn None we = (rc, we1)" by (cases "commit ops txn None we")
  show ?thesis
  proof (cases rc)
    case (Inl e)
    with assms(1) c commit_fails [of ops txn None we e we1] show ?thesis by (auto simp: iobind_run follows_def)
  next
    case (Inr u)
    with assms(1) c m [of we1] commit_applies [of ops txn we we1] show ?thesis by (auto simp: iobind_run follows_def)
  qed
qed

lemma follows_commit_only: "commit ops txn None we = (r, we') \<Longrightarrow> follows (Inr txn) we r we'"
  using commit_fails [of ops txn None we] commit_applies [of ops txn we we'] by (auto simp: follows_def split: sum.split)

lemma follows_planned:
  assumes "commitPlanned ops pth follow plan we = (r, we')"
  shows "follows (ebind (resolveIn pth follow (snd we)) (\<lambda>p. plan (vfsState (snd we)) p)) we r we'"
  using assms
  by (auto simp: commitPlanned_def assertHealthy_def engine_binds follows_commit_only split: sum.splits
      intro: refused_follows)

lemma unlink_follows:
  assumes "unlink ops pth now we = (r, we')"
  shows "follows (ebind (resolveIn pth False (snd we)) (\<lambda>p. planUnlink (vfsState (snd we)) p now)) we r we'"
  using assms
  by (auto simp: unlink_def assertHealthy_def engine_binds split: sum.splits if_splits
      intro: refused_follows elim!: follows_commit)

lemma rename_follows:
  assumes "rename ops pth target now we = (r, we')"
  shows "follows (ebind (resolveIn pth False (snd we)) (\<lambda>p. ebind (resolveIn target False (snd we))
      (\<lambda>q. planRename (vfsState (snd we)) p q now))) we r we'"
  using assms
  by (auto simp: rename_def assertHealthy_def engine_binds split: sum.splits if_splits
      intro: refused_follows elim!: follows_commit split: option.split)

lemma runTree_follows:
  "runTree ops call we = (r, we') \<Longrightarrow> follows (treePlan call (vfsState (snd we))) we r we'"
  by (cases call) (auto simp: symlink_def mkdir_def chmod_def utimes_def rmdir_def resolveIn_def
      dest!: follows_planned unlink_follows rename_follows)

section \<open>A small engine\<close>

text \<open>The initial state on an open memory port, its log at byte 141 of the first metadata file.\<close>

definition demoHandle :: "OwnedFileName \<Rightarrow> MemoryHandle" where
  "demoHandle name = \<lparr>handleName = name, handleEpoch = 1, handleClosed = False\<rparr>"

definition demoOpenPort :: MemoryPort where
  "demoOpenPort = fold (\<lambda>name port. snd (acquireFile name ''demo'' port)) OWNED_FILE_NAMES newMemoryPort"

definition demoEngine :: "MemoryHandle RepackedVfs" where
  "demoEngine = newRepackedVfs \<lparr>storeHandles = demoHandle, storeState = demo0, activeLogEnd = 141, nextSequence = 1,
     activeLogBytes = 0, activeLogFrames = 0, activationSequence = 1, arenaHighWaterExtents = 0, arenaSize = 8192,
     arenaDirty = False, activeMetadataDirty = False\<rparr> 0"

abbreviation demoOps :: "(MemoryPort, MemoryHandle) store_ops" where "demoOps \<equiv> memoryOps (\<lambda>_ _. 0)"

lemma demo_open: "checkOpen demoEngine = Inr ()" "vfsState demoEngine = demo0"
  by (simp_all add: demoEngine_def newRepackedVfs_def checkOpen_def)

definition demoFailed :: "MemoryHandle RepackedVfs" where "demoFailed = poisoned HostError demoEngine"

section \<open>Failures\<close>

lemma closes: "\<exists>failure w'. vfsCloseHandles ops we = (Inr failure, (w', snd we))"
proof -
  obtain failure w' where "closeEach ops (map (\<lambda>name. fileOf name (snd we)) [MetadataBBin, MetadataABin, ArenaBin, ActivationBin])
      None (fst we) = (failure, w')" by fastforce
  then show ?thesis by (simp add: vfsCloseHandles_def del: closeEach.simps list.map)
qed

text \<open>
  C36. A store that has failed or been closed refuses: every method but \<open>close()\<close> and
  \<open>cleanupFailedInit\<close> throws, the same error each time, without any effect. \<open>close()\<close> on a failed
  store shuts it and reports the cause of the failure; \<open>cleanupFailedInit\<close> shuts it and reports what
  closing the handles threw, if anything; on a closed store, and after either of them, both do nothing.
\<close>

theorem unhealthy_store_refuses:
  assumes "checkOpen vfs = Inl e"
  shows "runTree ops call (w, vfs) = (Inl e, (w, vfs)) \<and> commit ops txn prepared (w, vfs) = (Inl e, (w, vfs))
    \<and> strictSync ops (w, vfs) = (Inl e, (w, vfs)) \<and> repack ops clock reason (w, vfs) = (Inl e, (w, vfs))
    \<and> runScheduledRepack ops clock now (w, vfs) = (Inl e, (w, vfs)) \<and> stat p (w, vfs) = (Inl e, (w, vfs))
    \<and> lstat p (w, vfs) = (Inl e, (w, vfs)) \<and> resolvePath p follow (w, vfs) = (Inl e, (w, vfs))
    \<and> readdir p (w, vfs) = (Inl e, (w, vfs)) \<and> readlink p (w, vfs) = (Inl e, (w, vfs))
    \<and> readFile ops p (w, vfs) = (Inl e, (w, vfs)) \<and> writeFile ops clock p content options (w, vfs) = (Inl e, (w, vfs))
    \<and> truncatePath ops clock p n now (w, vfs) = (Inl e, (w, vfs))
    \<and> open_file ops clock p flag bits now (w, vfs) = (Inl e, (w, vfs)) \<and> fstat fd (w, vfs) = (Inl e, (w, vfs))
    \<and> read_file ops fd buf offset len position (w, vfs) = (Inl e, (w, vfs))
    \<and> write_file ops clock fd buf offset len position now (w, vfs) = (Inl e, (w, vfs))
    \<and> closeDescriptor fd (w, vfs) = (Inl e, (w, vfs)) \<and> EnginePaths.metrics (w, vfs) = (Inl e, (w, vfs))
    \<and> assertHealthy (w, vfs) = (Inl e, (w, vfs)) \<and> failVfs cause (w, vfs) = (Inl e, (w, vfs))
    \<and> (\<exists>w' failure. vfsCloseHandles ops (w, shut vfs) = (Inr failure, (w', shut vfs))
         \<and> closeVfs ops (w, vfs) = (if vfsStatus vfs = StatusClosed then (Inr (), (w, vfs)) else (Inl e, (w', shut vfs)))
         \<and> cleanupFailedInit ops (w, vfs) = (if vfsStatus vfs = StatusClosed then (Inr (), (w, vfs))
              else (case failure of None \<Rightarrow> Inr () | Some closeError \<Rightarrow> Inl closeError, (w', shut vfs)))
         \<and> closeVfs ops (w', shut vfs) = (Inr (), (w', shut vfs))
         \<and> cleanupFailedInit ops (w', shut vfs) = (Inr (), (w', shut vfs)))"
proof -
  have tree: "runTree ops call (w, vfs) = (Inl e, (w, vfs))" using closed_refuses [OF assms] by (cases call) simp_all
  have healthy: "assertHealthy (w, vfs) = (Inl e, (w, vfs))" using assms by (simp add: assertHealthy_def asksRes_def)
  obtain failure w' where c: "vfsCloseHandles ops (w, shut vfs) = (Inr failure, (w', shut vfs))"
    using closes [of ops "(w, shut vfs)"] by auto
  have closing: "closeVfs ops (w, vfs) = (if vfsStatus vfs = StatusClosed then (Inr (), (w, vfs)) else (Inl e, (w', shut vfs)))"
    using assms c by (auto simp: closeVfs_def engine_binds checkOpen_def iobind_run raise_def split: VfsStatus.splits)
  have cleaning: "cleanupFailedInit ops (w, vfs) = (if vfsStatus vfs = StatusClosed then (Inr (), (w, vfs))
      else (case failure of None \<Rightarrow> Inr () | Some closeError \<Rightarrow> Inl closeError, (w', shut vfs)))"
    using c by (simp add: cleanupFailedInit_def engine_binds iobind_run raise_def split: option.split)
  have again: "closeVfs ops (w', shut vfs) = (Inr (), (w', shut vfs))"
    "cleanupFailedInit ops (w', shut vfs) = (Inr (), (w', shut vfs))"
    by (simp_all add: closeVfs_def cleanupFailedInit_def engine_binds shut_def)
  show ?thesis by (intro conjI tree healthy closed_refuses [OF assms] exI [of _ w'] exI [of _ failure] c closing cleaning again)
qed

theorem unhealthy_store_refuses_witness:
  "runTree demoOps (MkdirCall path_a False None 5) (newMemoryPort, demoFailed)
    = (Inl (StoreFailedError HostError), (newMemoryPort, demoFailed))"
proof -
  have "checkOpen demoFailed = Inl (StoreFailedError HostError)"
    by (simp add: demoFailed_def poisoned_def checkOpen_def demoEngine_def newRepackedVfs_def)
  from unhealthy_store_refuses [OF this] show ?thesis by (rule conjunct1)
qed

text \<open>
  C5. On any host, however it fails, an operation on the tree is atomic for the open store: if it
  succeeds, the state is the one its planned record leads to; if it throws, the store is as it was before
  the call, files included, or it is poisoned and stays so.
\<close>

theorem tree_operation_is_atomic:
  assumes "runTree ops call (w, vfs) = (r, (w', vfs'))"
  shows "case r of
      Inr _ \<Rightarrow> \<exists>txn. treePlan call (vfsState vfs) = Inr txn \<and> applyTxn (vfsState vfs) txn None = (None, vfsState vfs')
        \<and> vfsStatus vfs' = StatusOpen
    | Inl e \<Rightarrow> vfsStatus vfs' \<noteq> StatusOpen \<or> (w' = w \<and> vfs' = vfs)"
  using runTree_follows [OF assms] by (auto simp: follows_def split: sum.splits)

theorem tree_operation_is_atomic_witness:
  "\<exists>w' vfs'. runTree demoOps (RmdirCall path_a 5) (newMemoryPort, demoEngine) = (Inl (FsError ENOENT), (w', vfs'))
    \<and> (vfsStatus vfs' \<noteq> StatusOpen \<or> (w' = newMemoryPort \<and> vfs' = demoEngine))"
proof -
  have "fst (runTree demoOps (RmdirCall path_a 5) (newMemoryPort, demoEngine)) = Inl (FsError ENOENT)" by code_simp
  then obtain w' vfs' where "runTree demoOps (RmdirCall path_a 5) (newMemoryPort, demoEngine)
      = (Inl (FsError ENOENT), (w', vfs'))" by (metis fst_conv surj_pair)
  with tree_operation_is_atomic [OF this] show ?thesis by simp
qed

section \<open>Open files\<close>

lemma orphaned_map_of:
  "map_of (descriptors (orphaned fds orphan vfs)) fd = map_option (\<lambda>d. if fd \<in> set fds
     then d\<lparr>descOrphan := Some (length (orphans vfs))\<rparr> else d) (map_of (descriptors vfs) fd)"
proof -
  have "map_of (map (\<lambda>(fd, d). (fd, if fd \<in> set fds then d\<lparr>descOrphan := Some n\<rparr> else d)) ds) fd
      = map_option (\<lambda>d. if fd \<in> set fds then d\<lparr>descOrphan := Some n\<rparr> else d) (map_of ds fd)" for ds and n :: nat
    by (induction ds) auto
  then show ?thesis by (auto simp: orphaned_def option.map_ident)
qed

lemma in_filtered:
  "distinct (map fst ds) \<Longrightarrow> map_of ds k = Some d \<Longrightarrow> k \<in> set (map fst (filter P ds)) \<longleftrightarrow> P (k, d)"
  by (induction ds) (auto split: if_splits dest: map_of_SomeD)

lemma unlink_effect:
  assumes "unlink ops p now we = (Inr (), we')"
  obtains resolved inode we1 txn where "resolveIn p False (snd we) = Inr resolved" "inodeAt resolved (snd we) = Inr inode"
    "commit ops txn None we = (Inr (), we1)"
    "snd we' = orphaned (affectedBy inode (snd we)) (orphanOf inode) (snd we1)"
  using assms by (auto simp: unlink_def assertHealthy_def engine_binds iobind_Inr split: sum.splits if_splits)

end
