(* ===== verification/FileContents.thy ===== *)
theory FileContents
  imports EngineWrite TxnProofs EngineDurability
begin

text \<open>
  The contents of a file, as an abstract byte list: what its extents hold in the arena, cut at its size.
  Where a position of a file lies in the arena, and what overwriting a range of positions does to the
  contents of this file and of every other.
\<close>

section \<open>Contents\<close>

definition extentBytes :: "byte list \<Rightarrow> int \<Rightarrow> int \<Rightarrow> byte list" where
  "extentBytes arena ext e = take (nat ext) (drop (nat (ARENA_HEADER_BYTES + e * ext)) arena)"

definition fileContents :: "byte list \<Rightarrow> int \<Rightarrow> int list \<Rightarrow> int \<Rightarrow> byte list" where
  "fileContents arena ext xs n = take (nat n) (concat (map (extentBytes arena ext) xs))"

definition physical :: "int \<Rightarrow> int list \<Rightarrow> int \<Rightarrow> int" where
  "physical ext xs i = ARENA_HEADER_BYTES + xs ! nat (i div ext) * ext + i mod ext"

text \<open>The arena holds every extent of the list.\<close>

definition spans :: "byte list \<Rightarrow> int \<Rightarrow> int list \<Rightarrow> bool" where
  "spans arena ext xs \<longleftrightarrow> 0 < ext \<and> (\<forall>e\<in>set xs. 0 \<le> e \<and> ARENA_HEADER_BYTES + (e + 1) * ext \<le> int (length arena))"

lemma header_pos: "0 \<le> ARENA_HEADER_BYTES"
  by (simp add: ARENA_HEADER_BYTES_def)

lemma spans_pos: "spans arena ext xs \<Longrightarrow> 0 < ext"
  by (simp add: spans_def)

lemma spans_append [simp]: "spans arena ext (xs @ ys) \<longleftrightarrow> spans arena ext xs \<and> spans arena ext ys"
  by (auto simp: spans_def)

lemma spans_longer: "spans arena ext xs \<Longrightarrow> length arena \<le> length arena' \<Longrightarrow> spans arena' ext xs"
  by (fastforce simp: spans_def)

lemma length_extentBytes:
  assumes "spans arena ext xs" "e \<in> set xs"
  shows "length (extentBytes arena ext e) = nat ext"
proof -
  have "0 \<le> e * ext" "ARENA_HEADER_BYTES + e * ext + ext \<le> int (length arena)"
    using assms by (auto simp: spans_def algebra_simps)
  then have "nat (ARENA_HEADER_BYTES + e * ext) + nat ext \<le> length arena"
    using header_pos spans_pos [OF assms(1)] by linarith
  then show ?thesis by (simp add: extentBytes_def)
qed

lemma nth_concat_blocks:
  "\<forall>b\<in>set bs. length b = k \<Longrightarrow> i < length bs * k \<Longrightarrow> concat bs ! i = bs ! (i div k) ! (i mod k)"
proof (induction bs arbitrary: i)
  case (Cons b bs)
  then have k: "0 < k" "length b = k" by (cases "k = 0"; simp)+
  show ?case
  proof (cases "i < k")
    case False
    then have "i - k < length bs * k" using Cons.prems(2) by simp
    with Cons.IH [of "i - k"] Cons.prems(1) have "concat bs ! (i - k) = bs ! ((i - k) div k) ! ((i - k) mod k)" by simp
    moreover have "i div k = Suc ((i - k) div k)" "(i - k) mod k = i mod k"
      using le_div_geq [of k i] le_mod_geq [of k i] False k by simp_all
    ultimately show ?thesis using False k by (simp add: nth_append)
  qed (use k in \<open>simp add: nth_append\<close>)
qed simp

lemma length_concat_blocks: "\<forall>b\<in>set bs. length b = k \<Longrightarrow> length (concat bs) = length bs * k"
  by (induction bs) auto


lemma length_fileContents:
  assumes "spans arena ext xs" "n \<le> int (length xs) * ext"
  shows "length (fileContents arena ext xs n) = nat n"
proof -
  have "\<forall>b\<in>set (map (extentBytes arena ext) xs). length b = nat ext"
    using length_extentBytes [OF assms(1)] by auto
  from length_concat_blocks [OF this] have "length (concat (map (extentBytes arena ext) xs)) = length xs * nat ext" by simp
  moreover have "nat n \<le> length xs * nat ext" using assms spans_pos [OF assms(1)] by (simp add: nat_le_iff)
  ultimately show ?thesis by (simp add: fileContents_def)
qed

lemma block_index:
  assumes "0 < ext" "0 \<le> i" "i < int (length xs) * ext"
  shows "0 \<le> i div ext" "nat (i div ext) < length xs" "0 \<le> i mod ext" "i mod ext < ext" "xs ! nat (i div ext) \<in> set xs"
proof -
  show pos: "0 \<le> i div ext" "0 \<le> i mod ext" "i mod ext < ext" using assms by (simp_all add: pos_imp_zdiv_nonneg_iff)
  have "i div ext < int (length xs)"
  proof (rule ccontr)
    assume "\<not> i div ext < int (length xs)"
    then have "int (length xs) * ext \<le> i div ext * ext" using assms(1) by (intro mult_right_mono) auto
    also have "\<dots> \<le> i" using div_mult_mod_eq [of i ext] pos(2) by linarith
    finally show False using assms(3) by simp
  qed
  then show "nat (i div ext) < length xs" using pos by linarith
  then show "xs ! nat (i div ext) \<in> set xs" by simp
qed

lemma physical_range:
  assumes "spans arena ext xs" "0 \<le> i" "i < int (length xs) * ext"
  shows "ARENA_HEADER_BYTES \<le> physical ext xs i" "nat (physical ext xs i) < length arena"
proof -
  note b = block_index [OF spans_pos [OF assms(1)] assms(2,3)]
  let ?e = "xs ! nat (i div ext)"
  have e: "0 \<le> ?e" "ARENA_HEADER_BYTES + (?e + 1) * ext \<le> int (length arena)" using assms(1) b(5) by (auto simp: spans_def)
  have "0 \<le> ?e * ext" using e(1) spans_pos [OF assms(1)] by simp
  then show "ARENA_HEADER_BYTES \<le> physical ext xs i" using b(3) by (simp add: physical_def)
  moreover have "(?e + 1) * ext = ?e * ext + ext" by (simp add: algebra_simps)
  ultimately show "nat (physical ext xs i) < length arena" using e(2) b(4) header_pos by (simp add: physical_def)
qed

lemma fileContents_nth:
  assumes "spans arena ext xs" "n \<le> int (length xs) * ext" "0 \<le> i" "i < n"
  shows "fileContents arena ext xs n ! nat i = arena ! nat (physical ext xs i)"
proof -
  have "i < int (length xs) * ext" using assms by linarith
  note b = block_index [OF spans_pos [OF assms(1)] assms(3) this]
  let ?e = "xs ! nat (i div ext)"
  have blocks: "\<forall>b\<in>set (map (extentBytes arena ext) xs). length b = nat ext" using length_extentBytes [OF assms(1)] by auto
  have ni: "nat i < length xs * nat ext" using assms spans_pos [OF assms(1)] by (simp add: nat_less_iff)
  have dm: "nat i div nat ext = nat (i div ext)" "nat i mod nat ext = nat (i mod ext)"
    using assms(3) spans_pos [OF assms(1)] by (simp_all add: nat_div_distrib nat_mod_distrib)
  have e: "0 \<le> ?e" "ARENA_HEADER_BYTES + (?e + 1) * ext \<le> int (length arena)" using assms(1) b(5) by (auto simp: spans_def)
  then have e': "0 \<le> ?e * ext" "ARENA_HEADER_BYTES + ?e * ext + ext \<le> int (length arena)"
    using spans_pos [OF assms(1)] by (simp_all add: algebra_simps)
  have "fileContents arena ext xs n ! nat i = concat (map (extentBytes arena ext) xs) ! nat i"
    using assms(3,4) by (simp add: fileContents_def)
  also have "\<dots> = extentBytes arena ext ?e ! nat (i mod ext)"
    using nth_concat_blocks [OF blocks, of "nat i"] ni b(2) by (simp add: dm)
  also have "\<dots> = arena ! nat (physical ext xs i)"
    using b(3,4) e' header_pos by (simp add: extentBytes_def physical_def nat_add_distrib add.assoc)
  finally show ?thesis .
qed

lemma physical_eq:
  assumes "spans arena ext xs" "0 \<le> i" "i < int (length xs) * ext"
    and "spans arena ext ys" "0 \<le> j" "j < int (length ys) * ext" and "physical ext xs i = physical ext ys j"
  shows "xs ! nat (i div ext) = ys ! nat (j div ext)" "i mod ext = j mod ext"
proof -
  have pos: "0 < ext" using assms(1) by (rule spans_pos)
  have eq: "xs ! nat (i div ext) * ext + i mod ext = ys ! nat (j div ext) * ext + j mod ext"
    using assms(7) by (simp add: physical_def)
  have r: "0 \<le> i mod ext" "i mod ext < ext" "0 \<le> j mod ext" "j mod ext < ext" using pos by simp_all
  have "(xs ! nat (i div ext) * ext + i mod ext) div ext = xs ! nat (i div ext)" using r pos by simp
  moreover have "(ys ! nat (j div ext) * ext + j mod ext) div ext = ys ! nat (j div ext)" using r pos by simp
  ultimately show "xs ! nat (i div ext) = ys ! nat (j div ext)" using eq by simp
  with eq show "i mod ext = j mod ext" by simp
qed

lemma physical_inj:
  assumes "spans arena ext xs" "distinct xs" "0 \<le> i" "i < int (length xs) * ext" "0 \<le> j" "j < int (length xs) * ext"
    and "physical ext xs i = physical ext xs j"
  shows "i = j"
proof -
  note pos = spans_pos [OF assms(1)]
  note p = physical_eq [OF assms(1,3,4,1,5,6,7)]
  have "nat (i div ext) = nat (j div ext)"
    using p(1) block_index(2) [OF pos assms(3,4)] block_index(2) [OF pos assms(5,6)] assms(2) by (simp add: nth_eq_iff_index_eq)
  then have "i div ext = j div ext" using block_index(1) [OF pos assms(3,4)] block_index(1) [OF pos assms(5,6)] by simp
  with p(2) show ?thesis by (metis div_mult_mod_eq)
qed

text \<open>Contents depend on the bytes of the extents only.\<close>

lemma fileContents_cong:
  "(\<And>e. e \<in> set xs \<Longrightarrow> extentBytes arena ext e = extentBytes arena' ext e) \<Longrightarrow>
     fileContents arena ext xs n = fileContents arena' ext xs n"
  by (simp add: fileContents_def cong: map_cong)

lemma fileContents_more:
  assumes "spans arena ext xs" "n \<le> int (length xs) * ext"
  shows "fileContents arena ext (xs @ ys) n = fileContents arena ext xs n"
proof -
  have "length (concat (map (extentBytes arena ext) xs)) = length xs * nat ext"
    using length_concat_blocks [of "map (extentBytes arena ext) xs" "nat ext"] length_extentBytes [OF assms(1)] by auto
  moreover have "nat n \<le> length xs * nat ext" using assms spans_pos [OF assms(1)] by (simp add: nat_le_iff)
  ultimately show ?thesis by (simp add: fileContents_def)
qed

lemma fileContents_take: "m \<le> n \<Longrightarrow> fileContents arena ext xs m = take (nat m) (fileContents arena ext xs n)"
  by (simp add: fileContents_def min_absorb1 nat_mono)

section \<open>Overwriting\<close>

lemma putBytes_within:
  assumes "0 \<le> at" "at + int (length src) \<le> int (length file)"
  shows "length (putBytes at src file) = length file"
    and "p < length file \<Longrightarrow> putBytes at src file ! p
      = (if nat at \<le> p \<and> p < nat at + length src then src ! (p - nat at) else file ! p)"
proof -
  have put: "putBytes at src file = take (nat at) file @ src @ drop (nat at + length src) file"
    using assms by (simp add: putBytes_def Let_def)
  have len: "length (take (nat at) file) = nat at" using assms by simp
  show "length (putBytes at src file) = length file" unfolding put using assms by simp
  show "putBytes at src file ! p = (if nat at \<le> p \<and> p < nat at + length src then src ! (p - nat at) else file ! p)"
    if "p < length file"
    unfolding put nth_append len using that assms by (auto simp: nth_append)
qed

text \<open>In an arena, the positions of a file from \<open>pos\<close> on get the bytes of a source, and nothing else changes.\<close>

definition overwritten :: "int \<Rightarrow> int list \<Rightarrow> int \<Rightarrow> byte list \<Rightarrow> byte list \<Rightarrow> byte list \<Rightarrow> bool" where
  "overwritten ext xs pos src arena arena' \<longleftrightarrow> length arena' = length arena
     \<and> (\<forall>i < length src. arena' ! nat (physical ext xs (pos + int i)) = src ! i)
     \<and> (\<forall>p < length arena. (\<forall>i < length src. p \<noteq> nat (physical ext xs (pos + int i))) \<longrightarrow> arena' ! p = arena ! p)"

lemma overwritten_Nil [simp]: "overwritten ext xs pos [] arena arena' \<longleftrightarrow> arena' = arena"
  by (auto simp: overwritten_def intro: nth_equalityI)

lemma overwritten_length: "overwritten ext xs pos src arena arena' \<Longrightarrow> length arena' = length arena"
  by (simp add: overwritten_def)

text \<open>One write within an extent.\<close>

lemma physical_shift:
  assumes "0 < ext" "0 \<le> pos" "0 \<le> i" "pos mod ext + i < ext"
  shows "physical ext xs (pos + i) = physical ext xs pos + i"
proof -
  have split: "(q * ext + r) div ext = q \<and> (q * ext + r) mod ext = r" if "0 \<le> r" "r < ext" for q r :: int
    using that by simp
  have "0 \<le> pos mod ext" using assms(1) by simp
  then have "0 \<le> pos mod ext + i" using assms(3) by simp
  note split [OF this assms(4), of "pos div ext"]
  moreover have "pos div ext * ext + (pos mod ext + i) = pos + i" using div_mult_mod_eq [of pos ext] by simp
  ultimately show ?thesis by (simp add: physical_def)
qed

lemma overwritten_put:
  assumes "spans arena ext xs" "0 \<le> pos" "pos < int (length xs) * ext" "pos mod ext + int (length src) \<le> ext"
  shows "overwritten ext xs pos src arena (putBytes (physical ext xs pos) src arena)"
proof -
  note ext = spans_pos [OF assms(1)]
  note b = block_index [OF ext assms(2,3)]
  let ?e = "xs ! nat (pos div ext)"
  have e: "0 \<le> ?e * ext" "ARENA_HEADER_BYTES + ?e * ext + ext \<le> int (length arena)"
    using assms(1) b(5) ext by (auto simp: spans_def algebra_simps)
  have at: "0 \<le> physical ext xs pos" using physical_range(1) [OF assms(1-3)] header_pos by linarith
  have stop: "physical ext xs pos + int (length src) \<le> int (length arena)" using e assms(4) by (simp add: physical_def)
  have ph: "nat (physical ext xs (pos + int i)) = nat (physical ext xs pos) + i" if "i < length src" for i
    using physical_shift [OF ext assms(2), of "int i" xs] that assms(4) at by (simp add: nat_add_distrib)
  note put = putBytes_within [OF at stop]
  show ?thesis
    unfolding overwritten_def
  proof (intro conjI allI impI)
    fix i assume i: "i < length src"
    then have "nat (physical ext xs pos) + i < length arena" using stop at by linarith
    with put(2) i show "putBytes (physical ext xs pos) src arena ! nat (physical ext xs (pos + int i)) = src ! i" by (simp add: ph)
  next
    fix p assume p: "p < length arena" "\<forall>i < length src. p \<noteq> nat (physical ext xs (pos + int i))"
    have "\<not> (nat (physical ext xs pos) \<le> p \<and> p < nat (physical ext xs pos) + length src)"
    proof
      assume r: "nat (physical ext xs pos) \<le> p \<and> p < nat (physical ext xs pos) + length src"
      define i where "i = p - nat (physical ext xs pos)"
      have "i < length src" "p = nat (physical ext xs pos) + i" using r by (auto simp: i_def)
      with ph [of i] p(2) show False by auto
    qed
    with put(2) [OF p(1)] show "putBytes (physical ext xs pos) src arena ! p = arena ! p" by (simp only: if_False)
  qed (rule put(1))
qed

lemma overwritten_trans:
  assumes one: "overwritten ext xs pos src arena arena1" and two: "overwritten ext xs (pos + int (length src)) src' arena1 arena2"
    and ok: "spans arena ext xs" "distinct xs" "0 \<le> pos" "pos + int (length src) + int (length src') \<le> int (length xs) * ext"
  shows "overwritten ext xs pos (src @ src') arena arena2"
proof -
  have len: "length arena1 = length arena" "length arena2 = length arena" using one two by (simp_all add: overwritten_def)
  have apart: "nat (physical ext xs (pos + int i)) \<noteq> nat (physical ext xs (pos + int (length src) + int j))"
    if "i < length src" "j < length src'" for i j
  proof
    assume eq: "nat (physical ext xs (pos + int i)) = nat (physical ext xs (pos + int (length src) + int j))"
    have r: "0 \<le> pos + int i" "pos + int i < int (length xs) * ext" "0 \<le> pos + int (length src) + int j"
      "pos + int (length src) + int j < int (length xs) * ext"
      using that ok(3,4) by linarith+
    have "physical ext xs (pos + int i) = physical ext xs (pos + int (length src) + int j)"
      using eq physical_range(1) [OF ok(1) r(1,2)] physical_range(1) [OF ok(1) r(3,4)] header_pos by linarith
    from physical_inj [OF ok(1,2) r this] that show False by simp
  qed
  show ?thesis
    unfolding overwritten_def
  proof (intro conjI allI impI)
    fix i assume i: "i < length (src @ src')"
    show "arena2 ! nat (physical ext xs (pos + int i)) = (src @ src') ! i"
    proof (cases "i < length src")
      case True
      have "nat (physical ext xs (pos + int i)) < length arena"
        by (rule physical_range(2) [OF ok(1)]) (use True ok(3,4) in linarith)+
      then have "arena2 ! nat (physical ext xs (pos + int i)) = arena1 ! nat (physical ext xs (pos + int i))"
        using two apart [OF True] len by (simp add: overwritten_def)
      with one True show ?thesis by (simp add: overwritten_def nth_append)
    next
      case False
      then have "i - length src < length src'" using i by simp
      with two have "arena2 ! nat (physical ext xs (pos + int (length src) + int (i - length src))) = src' ! (i - length src)"
        by (simp only: overwritten_def)
      moreover have "pos + int (length src) + int (i - length src) = pos + int i" using False by linarith
      ultimately show ?thesis using False by (simp add: nth_append)
    qed
  next
    fix p assume p: "p < length arena" "\<forall>i < length (src @ src'). p \<noteq> nat (physical ext xs (pos + int i))"
    have "\<forall>j < length src'. p \<noteq> nat (physical ext xs (pos + int (length src) + int j))"
    proof (intro allI impI)
      fix j assume "j < length src'"
      then show "p \<noteq> nat (physical ext xs (pos + int (length src) + int j))"
        using p(2) [rule_format, of "length src + j"] by (simp add: add.assoc)
    qed
    then have "arena2 ! p = arena1 ! p" using two p(1) len by (simp add: overwritten_def)
    also have "\<dots> = arena ! p" using one p by (simp add: overwritten_def)
    finally show "arena2 ! p = arena ! p" .
  qed (rule len)
qed

text \<open>What overwriting means: the contents of the file are patched, other extents keep their bytes.\<close>

lemma overwritten_contents:
  assumes ow: "overwritten ext xs pos src arena arena'" and ok: "spans arena ext xs" "distinct xs"
    and pos: "0 \<le> pos" "pos \<le> n" "n \<le> int (length xs) * ext" "pos + int (length src) \<le> int (length xs) * ext"
  shows "fileContents arena' ext xs (max n (pos + int (length src))) = putBytes pos src (fileContents arena ext xs n)"
proof -
  let ?m = "max n (pos + int (length src))" and ?f = "fileContents arena ext xs n"
  have spans': "spans arena' ext xs" using spans_longer [OF ok(1)] overwritten_length [OF ow] by simp
  have lens: "length (fileContents arena' ext xs ?m) = nat ?m" "length ?f = nat n"
    using length_fileContents [OF spans', of ?m] length_fileContents [OF ok(1), of n] pos by simp_all
  have put: "putBytes pos src ?f = take (nat pos) ?f @ src @ drop (nat pos + length src) ?f"
    using pos(1,2) lens(2) by (simp add: putBytes_def Let_def nat_mono)
  have plen: "length (putBytes pos src ?f) = nat ?m" unfolding put using pos(1,2) lens(2) by (auto simp: nat_mono)
  show ?thesis
  proof (rule nth_equalityI)
    fix k assume "k < length (fileContents arena' ext xs ?m)"
    then have k: "int k < ?m" using lens(1) by linarith
    have "int k < int (length xs) * ext" using k pos(3,4) by (auto simp: less_max_iff_disj)
    note at = physical_range(2) [OF ok(1) of_nat_0_le_iff this]
    have l: "fileContents arena' ext xs ?m ! k = arena' ! nat (physical ext xs (int k))"
      using fileContents_nth [OF spans', of ?m "int k"] k pos by simp
    show "fileContents arena' ext xs ?m ! k = putBytes pos src ?f ! k"
    proof (cases "pos \<le> int k \<and> int k < pos + int (length src)")
      case True
      define i where "i = k - nat pos"
      have i: "i < length src" "int k = pos + int i" using True pos(1) by (auto simp: i_def)
      have "arena' ! nat (physical ext xs (int k)) = src ! i" using ow i(1) unfolding i(2) by (simp add: overwritten_def)
      moreover have "putBytes pos src ?f ! k = src ! i"
        unfolding put nth_append using True pos(1,2) nat_mono [OF pos(2)] lens(2) by (auto simp: i_def min_def)
      ultimately show ?thesis using l by simp
    next
      case False
      then have kn: "int k < n" using k pos(2) by (auto simp: less_max_iff_disj)
      have "nat (physical ext xs (int k)) \<noteq> nat (physical ext xs (pos + int i))" if "i < length src" for i
      proof
        have r: "0 \<le> pos + int i" "pos + int i < int (length xs) * ext" using that pos by linarith+
        have kr: "int k < int (length xs) * ext" using kn pos(3) by linarith
        assume "nat (physical ext xs (int k)) = nat (physical ext xs (pos + int i))"
        then have "physical ext xs (int k) = physical ext xs (pos + int i)"
          using physical_range(1) [OF ok(1) of_nat_0_le_iff kr] physical_range(1) [OF ok(1) r] header_pos by linarith
        from physical_inj [OF ok(1,2) of_nat_0_le_iff kr r this] that False show False by linarith
      qed
      then have "arena' ! nat (physical ext xs (int k)) = arena ! nat (physical ext xs (int k))"
        using ow at by (simp add: overwritten_def)
      also have "\<dots> = ?f ! k" using fileContents_nth [OF ok(1) pos(3) of_nat_0_le_iff kn] by simp
      also have "\<dots> = putBytes pos src ?f ! k"
      proof (cases "int k < pos")
        case True
        then show ?thesis unfolding put nth_append using lens(2) kn by (auto simp: min_def)
      next
        case no: False
        then have "nat pos + length src \<le> k" using False pos(1) by linarith
        then show ?thesis unfolding put nth_append using lens(2) kn pos by (auto simp: min_def)
      qed
      finally show ?thesis using l by simp
    qed
  qed (simp add: lens(1) plen)
qed

lemma overwritten_extent:
  assumes ow: "overwritten ext xs pos src arena arena'" and ok: "spans arena ext xs" "0 \<le> pos"
    "pos + int (length src) \<le> int (length xs) * ext" and e: "spans arena ext [e]" "e \<notin> set xs"
  shows "extentBytes arena' ext e = extentBytes arena ext e"
proof (rule nth_equalityI)
  have len: "length arena' = length arena" using overwritten_length [OF ow] .
  then show "length (extentBytes arena' ext e) = length (extentBytes arena ext e)" by (simp add: extentBytes_def)
  fix k assume k: "k < length (extentBytes arena' ext e)"
  note pos = spans_pos [OF ok(1)]
  have bounds: "0 \<le> e * ext" "ARENA_HEADER_BYTES + e * ext + ext \<le> int (length arena)"
    using e(1) pos by (simp_all add: spans_def algebra_simps)
  have k': "int k < ext" using k pos by (simp add: extentBytes_def) linarith
  let ?p = "nat (ARENA_HEADER_BYTES + e * ext) + k"
  have p: "?p < length arena" "int ?p = physical ext [e] (int k)"
    using bounds k' header_pos by (simp_all add: physical_def)
  have "?p \<noteq> nat (physical ext xs (pos + int i))" if "i < length src" for i
  proof
    have r: "0 \<le> pos + int i" "pos + int i < int (length xs) * ext" using that ok(2,3) by linarith+
    assume "?p = nat (physical ext xs (pos + int i))"
    then have "physical ext xs (pos + int i) = physical ext [e] (int k)"
      using p(2) physical_range(1) [OF ok(1) r] header_pos by linarith
    from physical_eq(1) [OF ok(1) r e(1) _ _ this] k' block_index(5) [OF pos r] e(2) show False by simp
  qed
  then have "arena' ! ?p = arena ! ?p" using ow p(1) by (simp add: overwritten_def)
  then show "extentBytes arena' ext e ! k = extentBytes arena ext e ! k" using k k' len bounds header_pos
    by (simp add: extentBytes_def nth_drop)
qed

text \<open>A put past the end first fills the gap with zeros.\<close>

lemma putBytes_gap: "n = int (length f) \<Longrightarrow> n \<le> at \<Longrightarrow> putBytes at src (putBytes n (zeros (nat (at - n))) f) = putBytes at src f"
  by (simp add: putBytes_def Let_def zeros_def)


text \<open>
  Reading file data on a host that keeps the store's contract: whatever amounts the host returns, the
  loops over extents and within an extent deliver the contents of the file.
\<close>

section \<open>Addresses\<close>

lemma max_arena: "8192 + MAX_TOTAL_EXTENTS * MAX_EXTENT_BYTES \<le> MAX_SAFE_INTEGER"
  by (simp add: limit_defs)

lemma safe_Inr: "0 \<le> n \<Longrightarrow> n \<le> MAX_SAFE_INTEGER \<Longrightarrow> checkedSafeNumber n = Inr n"
  and u64_Inr: "0 \<le> n \<Longrightarrow> n \<le> MAX_SAFE_INTEGER \<Longrightarrow> checkedU64 n = Inr n"
  and add_Inr: "0 \<le> n + m \<Longrightarrow> n + m \<le> MAX_SAFE_INTEGER \<Longrightarrow> checkedAdd n m = Inr (n + m)"
  and mult_Inr: "0 \<le> n * m \<Longrightarrow> n * m \<le> MAX_SAFE_INTEGER \<Longrightarrow> checkedMultiply n m = Inr (n * m)"
  and safe_Integer: "0 \<le> n \<Longrightarrow> n \<le> MAX_SAFE_INTEGER \<Longrightarrow> isSafeInteger n"
  by (simp_all add: checkedSafeNumber_def checkedU64_def checkedAdd_def checkedMultiply_def isSafeInteger_def limit_defs)

text \<open>A list of extents whose every byte has an address: what the extents of a file, old and new, are.\<close>

definition addressable :: "int \<Rightarrow> int list \<Rightarrow> bool" where
  "addressable ext xs \<longleftrightarrow> extent_size_ok ext \<and> (\<forall>e\<in>set xs. 0 \<le> e \<and> e < MAX_TOTAL_EXTENTS)
     \<and> int (length xs) \<le> MAX_EXTENTS_PER_INODE"

lemma addressable_size:
  assumes "addressable ext xs"
  shows "0 < ext" "ext \<le> MAX_EXTENT_BYTES" "int (length xs) * ext \<le> MAX_SAFE_INTEGER"
proof -
  show e: "0 < ext" "ext \<le> MAX_EXTENT_BYTES" using assms by (auto simp: addressable_def extent_size_pos extent_size_ok_def)
  have "int (length xs) * ext \<le> MAX_EXTENTS_PER_INODE * MAX_EXTENT_BYTES"
    using assms e by (intro mult_mono) (auto simp: addressable_def limit_defs)
  then show "int (length xs) * ext \<le> MAX_SAFE_INTEGER" by (simp add: limit_defs)
qed

lemma extent_address:
  assumes "extent_size_ok ext" "0 \<le> e" "e < MAX_TOTAL_EXTENTS" "0 \<le> off" "off < ext"
  shows "arenaByteOffset e ext off = Inr (ARENA_HEADER_BYTES + e * ext + off)"
    and "0 \<le> ARENA_HEADER_BYTES + e * ext + off" "ARENA_HEADER_BYTES + e * ext + ext \<le> MAX_SAFE_INTEGER"
proof -
  have ext: "0 < ext" "ext \<le> MAX_EXTENT_BYTES" using assms(1) by (auto simp: extent_size_pos extent_size_ok_def)
  have prod: "0 \<le> e * ext" using assms(2) ext(1) by simp
  have "(e + 1) * ext \<le> MAX_TOTAL_EXTENTS * MAX_EXTENT_BYTES" using assms(2,3) ext by (intro mult_mono) (auto simp: limit_defs)
  then show top: "ARENA_HEADER_BYTES + e * ext + ext \<le> MAX_SAFE_INTEGER"
    using max_arena by (simp add: ARENA_HEADER_BYTES_def algebra_simps)
  show low: "0 \<le> ARENA_HEADER_BYTES + e * ext + off" using prod assms(4) header_pos by simp
  have "checkedMultiply e ext = Inr (e * ext)" "checkedAdd ARENA_HEADER_BYTES (e * ext) = Inr (ARENA_HEADER_BYTES + e * ext)"
    "checkedAdd (ARENA_HEADER_BYTES + e * ext) off = Inr (ARENA_HEADER_BYTES + e * ext + off)"
    "checkedU64 e = Inr e" "isSafeInteger off" "validateExtentSize ext = Inr ext"
    using prod top header_pos assms ext
    by (auto intro!: mult_Inr add_Inr u64_Inr safe_Integer simp: validateExtentSize_Inr limit_defs)
  then show "arenaByteOffset e ext off = Inr (ARENA_HEADER_BYTES + e * ext + off)"
    using assms(3-5) by (simp add: arenaByteOffset_def)
qed

lemma address_safe: "0 \<le> n \<Longrightarrow> n < m \<Longrightarrow> m \<le> MAX_SAFE_INTEGER \<Longrightarrow> checkedSafeNumber n = Inr n"
  by (rule safe_Inr) simp_all

lemma extentAt_append: "0 \<le> i \<Longrightarrow> nat i < length (front @ tail) \<Longrightarrow> extentAt front tail i = Some ((front @ tail) ! nat i)"
  by (auto simp: extentAt_def nth_append)

text \<open>Every position below the capacity of the extents is found.\<close>

lemma locate_ok:
  assumes ok: "addressable ext (front @ tail)" and i: "0 \<le> position + completed"
    "position + completed < int (length (front @ tail)) * ext"
  defines "e \<equiv> (front @ tail) ! nat ((position + completed) div ext)" and "off \<equiv> (position + completed) mod ext"
  shows "locate ext front tail missing position completed = Inr (e, off)"
    and "0 \<le> off" "off < ext" "0 \<le> e" "e < MAX_TOTAL_EXTENTS"
    and "physical ext (front @ tail) (position + completed) = ARENA_HEADER_BYTES + e * ext + off"
proof -
  note s = addressable_size [OF ok]
  note b = block_index [OF s(1) i]
  have "int (length (front @ tail)) \<le> MAX_SAFE_INTEGER" using ok by (simp add: addressable_def limit_defs)
  then have safe: "checkedSafeNumber ((position + completed) div ext) = Inr ((position + completed) div ext)"
    using b(1,2) by (intro safe_Inr) linarith+
  have "checkedAdd position completed = Inr (position + completed)" using i s(3) by (intro add_Inr) linarith+
  with safe extentAt_append [OF b(1,2)] s(1) show "locate ext front tail missing position completed = Inr (e, off)"
    by (simp add: locate_def e_def off_def)
  show "0 \<le> off" "off < ext" using b(3,4) by (simp_all add: off_def)
  show "0 \<le> e" "e < MAX_TOTAL_EXTENTS" using ok b(5) by (auto simp: addressable_def e_def)
  show "physical ext (front @ tail) (position + completed) = ARENA_HEADER_BYTES + e * ext + off"
    by (simp add: physical_def e_def off_def)
qed

section \<open>Slices\<close>

definition sliceOf :: "int \<Rightarrow> int \<Rightarrow> byte list \<Rightarrow> byte list" where
  "sliceOf start n file = take (nat n) (drop (nat start) file)"

lemma length_slice: "0 \<le> start \<Longrightarrow> 0 \<le> n \<Longrightarrow> start + n \<le> int (length file) \<Longrightarrow> length (sliceOf start n file) = nat n"
  by (simp add: sliceOf_def)

lemma slice_split:
  assumes "0 \<le> start" "0 \<le> m" "m \<le> n"
  shows "sliceOf start m file @ sliceOf (start + m) (n - m) file = sliceOf start n file"
proof -
  have "nat n = nat m + nat (n - m)" using assms by simp
  moreover have "nat (start + m) = nat start + nat m" using assms by simp
  ultimately show ?thesis by (simp add: sliceOf_def take_add add.commute)
qed

text \<open>A target of \<open>n\<close> bytes of which the first \<open>completed\<close> are read.\<close>

lemma fill_next:
  assumes "0 \<le> completed" "int (length target) = n" "completed + int (length part) \<le> n"
  shows "take (nat (completed + int (length part))) (fillFrom completed part target) = take (nat completed) target @ part"
    and "int (length (fillFrom completed part target)) = n"
  using assms by (simp_all add: fillFrom_def nat_add_distrib)

text \<open>A piece of the contents that lies in one extent is a piece of the arena.\<close>

lemma slice_physical:
  assumes "spans arena ext xs" "0 \<le> i" "0 < n" "i + n \<le> int (length xs) * ext" "i mod ext + n \<le> ext"
  shows "sliceOf (physical ext xs i) n arena = sliceOf i n (fileContents arena ext xs (int (length xs) * ext))"
proof -
  let ?N = "int (length xs) * ext"
  have iN: "i < ?N" using assms(3,4) by simp
  note r = physical_range [OF assms(1,2) iN]
  have last: "physical ext xs (i + (n - 1)) = physical ext xs i + (n - 1)"
    using physical_shift [OF spans_pos [OF assms(1)] assms(2), of "n - 1" xs] assms(3,5) by simp
  have "nat (physical ext xs (i + (n - 1))) < length arena"
    by (rule physical_range(2) [OF assms(1)]) (use assms(2,3,4) in linarith)+
  then have inA: "physical ext xs i + n \<le> int (length arena)" using r(1) header_pos unfolding last by linarith
  have len: "length (fileContents arena ext xs ?N) = nat ?N" using length_fileContents [OF assms(1)] by simp
  have lens: "length (sliceOf (physical ext xs i) n arena) = nat n" "length (sliceOf i n (fileContents arena ext xs ?N)) = nat n"
    using assms(2-4) inA r(1) header_pos len by (auto intro!: length_slice)
  show ?thesis
  proof (rule nth_equalityI)
    fix k assume "k < length (sliceOf (physical ext xs i) n arena)"
    then have k: "int k < n" using lens by linarith
    have "fileContents arena ext xs ?N ! nat (i + int k) = arena ! nat (physical ext xs (i + int k))"
      by (rule fileContents_nth [OF assms(1)]) (use k assms in linarith)+
    also have "physical ext xs (i + int k) = physical ext xs i + int k"
      using physical_shift [OF spans_pos [OF assms(1)] assms(2), of "int k" xs] k assms(5) by simp
    finally show "sliceOf (physical ext xs i) n arena ! k = sliceOf i n (fileContents arena ext xs ?N) ! k"
      using k assms(2,4) r(1) header_pos inA len by (simp add: sliceOf_def nat_add_distrib nat_le_iff)
  qed (simp add: lens)
qed

section \<open>Reading\<close>

context store_host
begin

text \<open>Within an extent, however much a call to the host delivers.\<close>

lemma readExtent_reads:
  assumes "inv w" "hvValid (view w) h ArenaBin" "extent_size_ok ext" "0 \<le> e" "e < MAX_TOTAL_EXTENTS"
    and "0 \<le> off" "off + n \<le> ext" "ARENA_HEADER_BYTES + (e + 1) * ext \<le> int (length (hvFiles (view w) ArenaBin))"
    and "0 \<le> completed" "completed \<le> n" "int (length target) = n"
  shows "\<exists>w'. readExtent ops h ext e off n target completed w = (Inr (take (nat completed) target
      @ sliceOf (ARENA_HEADER_BYTES + e * ext + off + completed) (n - completed) (hvFiles (view w) ArenaBin)), w')
    \<and> inv w' \<and> view w' = view w"
  using assms
proof (induction "nat (n - completed)" arbitrary: completed target w rule: less_induct)
  case less
  let ?arena = "hvFiles (view w) ArenaBin" and ?at = "ARENA_HEADER_BYTES + e * ext + (off + completed)"
  show ?case
  proof (cases "completed < n")
    case False
    then show ?thesis using less.prems by (subst readExtent.simps) (simp add: sliceOf_def)
  next
    case True
    have off: "0 \<le> off + completed" "off + completed < ext" using less.prems True by linarith+
    note a = extent_address [OF less.prems(3,4,5) off]
    have stop: "?at + (n - completed) \<le> int (length ?arena)" using less.prems by (simp add: algebra_simps)
    have len: "int (length ?arena) \<le> MAX_SAFE_INTEGER" using file_sizes [OF less.prems(1)] .
    obtain k w1 where k: "0 < k" "int k \<le> n - completed" "nat ?at + k \<le> length ?arena"
      "opRead ops h ''arena.read'' ?at (n - completed) w = (Inr (int k, take k (drop (nat ?at) ?arena)), w1)"
      "inv w1" "view w1 = view w"
      using reads [OF less.prems(1,2) a(2), of "n - completed" "''arena.read''"] stop len True by (auto simp: nat_less_iff)
    let ?part = "take k (drop (nat ?at) ?arena)"
    have part: "length ?part = k" using k(3) by simp
    have safe: "checkedSafeNumber ?at = Inr ?at" using a(2) stop len True by (intro safe_Inr) linarith+
    have amount: "\<not> (\<not> isSafeInteger (int k) \<or> int k \<le> 0 \<or> int k > n - completed)"
      using k(1-3) len by (simp add: safe_Integer)
    have step: "readExtent ops h ext e off n target completed w
        = readExtent ops h ext e off n (fillFrom completed ?part target) (completed + int k) w1"
      unfolding readExtent.simps [of ops h ext e off n target completed w]
      using True a(1) safe k(4) amount by simp
    note fill = fill_next [OF less.prems(9,11), of ?part, unfolded part]
    have "nat (n - (completed + int k)) < nat (n - completed)" using k(1,2) by linarith
    from less.hyps [OF this k(5), unfolded k(6), OF less.prems(2-8) _ _ fill(2)] less.prems(9) k(2)
    obtain w2 where w2: "readExtent ops h ext e off n (fillFrom completed ?part target) (completed + int k) w1
        = (Inr (take (nat (completed + int k)) (fillFrom completed ?part target)
            @ sliceOf (ARENA_HEADER_BYTES + e * ext + off + (completed + int k)) (n - (completed + int k)) ?arena), w2)"
      "inv w2" "view w2 = view w" by auto
    have "?part = sliceOf (ARENA_HEADER_BYTES + e * ext + off + completed) (int k) ?arena" by (simp add: sliceOf_def add.assoc)
    moreover have "sliceOf (ARENA_HEADER_BYTES + e * ext + off + completed) (int k) ?arena
        @ sliceOf (ARENA_HEADER_BYTES + e * ext + off + completed + int k) (n - completed - int k) ?arena
        = sliceOf (ARENA_HEADER_BYTES + e * ext + off + completed) (n - completed) ?arena"
      by (rule slice_split) (use a(2) k(2) in \<open>simp_all add: add.assoc\<close>)
    ultimately have "take (nat (completed + int k)) (fillFrom completed ?part target)
            @ sliceOf (ARENA_HEADER_BYTES + e * ext + off + (completed + int k)) (n - (completed + int k)) ?arena
        = take (nat completed) target @ sliceOf (ARENA_HEADER_BYTES + e * ext + off + completed) (n - completed) ?arena"
      using fill(1) k(2) by (simp add: algebra_simps)
    with step w2 show ?thesis by simp
  qed
qed

text \<open>Over extents: the target ends up with the contents of the file at that range.\<close>

lemma readLogicalLoop_does:
  assumes "hvValid v h ArenaBin" "spans (hvFiles v ArenaBin) ext xs" "addressable ext xs"
    and "0 \<le> position" "position + wanted \<le> int (length xs) * ext"
    and "0 \<le> completed" "completed \<le> wanted" "int (length target) = wanted"
  shows "does v (readLogicalLoop ops h ext xs position wanted target completed) (Inr (take (nat completed) target
      @ sliceOf (position + completed) (wanted - completed) (fileContents (hvFiles v ArenaBin) ext xs (int (length xs) * ext)))) v"
  using assms
proof (induction "nat (wanted - completed)" arbitrary: completed target rule: less_induct)
  case less
  let ?arena = "hvFiles v ArenaBin"
  let ?F = "fileContents ?arena ext xs (int (length xs) * ext)"
  show ?case
  proof (cases "completed < wanted")
    case False
    then show ?thesis using less.prems by (subst readLogicalLoop.simps) (simp add: sliceOf_def)
  next
    case True
    have i: "0 \<le> position + completed" "position + completed < int (length xs) * ext" using less.prems True by linarith+
    define e where "e = xs ! nat ((position + completed) div ext)"
    define off where "off = (position + completed) mod ext"
    define n where "n = min (wanted - completed) (ext - off)"
    note loc = locate_ok [of ext xs "[]" position completed, simplified, OF less.prems(3) i, folded e_def off_def]
    have n: "0 < n" "completed + n \<le> wanted" "off + n \<le> ext" using loc(3) True by (auto simp: n_def)
    have "e \<in> set xs" using block_index(5) [OF addressable_size(1) [OF less.prems(3)] i] by (simp add: e_def)
    then have inA: "ARENA_HEADER_BYTES + (e + 1) * ext \<le> int (length ?arena)" using less.prems(2) by (auto simp: spans_def)
    let ?piece = "sliceOf (physical ext xs (position + completed)) n ?arena"
    have piece: "?piece = sliceOf (position + completed) n ?F"
      by (rule slice_physical [OF less.prems(2)]) (use i n less.prems(5) in \<open>auto simp: off_def\<close>)
    have "length ?F = nat (int (length xs) * ext)" using length_fileContents [OF less.prems(2)] by simp
    then have plen: "length ?piece = nat n"
      unfolding piece using i n less.prems(4,5) by (intro length_slice) auto
    have tgt: "int (length (take (nat n) (drop (nat completed) target))) = n" using less.prems(6,8) n by auto
    have size: "extent_size_ok ext" using less.prems(3) by (simp add: addressable_def)
    have one: "does v (readExtent ops h ext e off n (take (nat n) (drop (nat completed) target)) 0) (Inr ?piece) v"
      unfolding steps_def showing_def
    proof (intro allI impI)
      fix w assume w: "inv w \<and> view w = v"
      from readExtent_reads [OF conjunct1 [OF w] _ size loc(4,5,2) n(3) _ order_refl _ tgt] w less.prems(1) inA n(1) loc(6)
      show "\<exists>w'. readExtent ops h ext e off n (take (nat n) (drop (nat completed) target)) 0 w = (Inr ?piece, w')
          \<and> inv w' \<and> view w' = v" by (auto simp: add.assoc)
    qed
    note fill = fill_next [OF less.prems(6,8), of ?piece, unfolded plen]
    have fill': "take (nat (completed + n)) (fillFrom completed ?piece target) = take (nat completed) target @ ?piece"
      "int (length (fillFrom completed ?piece target)) = wanted"
      using fill n by auto
    have "nat (wanted - (completed + n)) < nat (wanted - completed)" using n by linarith
    note two = less.hyps [OF this less.prems(1-5) _ _ fill'(2)]
    have "?piece @ sliceOf (position + completed + n) (wanted - completed - n) ?F = sliceOf (position + completed) (wanted - completed) ?F"
      unfolding piece by (rule slice_split) (use i n in simp_all)
    then have eq: "take (nat (completed + n)) (fillFrom completed ?piece target)
        @ sliceOf (position + (completed + n)) (wanted - (completed + n)) ?F
      = take (nat completed) target @ sliceOf (position + completed) (wanted - completed) ?F"
      unfolding fill'(1) by (simp add: algebra_simps)
    have run: "readLogicalLoop ops h ext xs position wanted target completed
        = iobind (readExtent ops h ext e off n (take (nat n) (drop (nat completed) target)) 0)
            (\<lambda>part. readLogicalLoop ops h ext xs position wanted (fillFrom completed part target) (completed + n))"
      using True loc(1) [of CorruptStoreError]
      by (subst readLogicalLoop.simps) (simp add: Let_def n_def)
    show ?thesis unfolding run eq [symmetric]
      by (rule steps_bind [OF one], rule two) (use less.prems(6) n in linarith)+
  qed
qed

text \<open>A read of a range of the file is that slice of its contents.\<close>

lemma readLogical_runs:
  assumes "hvValid v (fileOf ArenaBin vfs) ArenaBin" "ext = extentSize (vfsState vfs)"
    and "spans (hvFiles v ArenaBin) ext xs" "addressable ext xs"
    and "0 \<le> position" "position + int (length target) \<le> n" "n \<le> int (length xs) * ext"
  shows "runs (v, vfs) (readLogical ops xs position target)
    (Inr (sliceOf position (int (length target)) (fileContents (hvFiles v ArenaBin) ext xs n))) (v, vfs)"
proof -
  let ?F = "fileContents (hvFiles v ArenaBin) ext xs (int (length xs) * ext)"
  have "checkedU64 position = Inr position"
    using assms(5-7) addressable_size(3) [OF assms(4)] by (intro u64_Inr) linarith+
  note checked = this
  have "does v (readLogicalLoop ops (fileOf ArenaBin vfs) ext xs position (int (length target)) target 0)
      (Inr (sliceOf position (int (length target)) ?F)) v"
    using readLogicalLoop_does [OF assms(1,3,4,5), of "int (length target)" 0 target] assms(6,7) by simp
  moreover have "sliceOf position (int (length target)) ?F = sliceOf position (int (length target)) (fileContents (hvFiles v ArenaBin) ext xs n)"
    using assms(5,6) unfolding fileContents_take [OF assms(7)]
    by (simp add: sliceOf_def drop_take nat_diff_distrib' min_def)
  ultimately show ?thesis
    unfolding readLogical_def checked iobind_lift
    by - ((rule steps_asks)+, simp add: assms(2) steps_onHost)
qed

end

end
