(* ===== verification/ArenaWrites.thy ===== *)
theory ArenaWrites
  imports FileContents
begin

text \<open>
  Writing file data on a host that keeps the store's contract: overwriting, filling with zeros, and
  preparing the extents a plan allocates. Only the arena changes, and in it only the positions meant.
\<close>

section \<open>What these steps may touch\<close>

definition arena_of :: "'h host_view \<Rightarrow> byte list" where
  "arena_of v = hvFiles v ArenaBin"

text \<open>From one view and engine to another, only the arena and its bookkeeping change.\<close>

definition but_arena :: "'h host_view \<Rightarrow> 'h host_view" where
  "but_arena v = v\<lparr>hvFiles := (hvFiles v)(ArenaBin := []), hvDurable := (hvDurable v)(ArenaBin := []),
     hvPending := (hvPending v)(ArenaBin := [])\<rparr>"

definition but_bookkeeping :: "'h RepackedVfs \<Rightarrow> 'h RepackedVfs" where
  "but_bookkeeping vfs = vfs\<lparr>vfsArenaSize := None, vfsArenaDirty := False, arenaDirtyBytesSinceFlush := 0,
     flushes := (\<lambda>_. 0)\<rparr>"

definition arena_step :: "'h host_view \<times> 'h RepackedVfs \<Rightarrow> 'h host_view \<times> 'h RepackedVfs \<Rightarrow> bool" where
  "arena_step ve ve' \<longleftrightarrow> but_arena (fst ve') = but_arena (fst ve) \<and> but_bookkeeping (snd ve') = but_bookkeeping (snd ve)"

lemma arena_step_refl [simp]: "arena_step ve ve"
  by (simp add: arena_step_def)

lemma arena_step_trans: "arena_step a b \<Longrightarrow> arena_step b c \<Longrightarrow> arena_step a c"
  by (simp add: arena_step_def)

lemma but_simps [simp]:
  "but_arena (changeFile ArenaBin c v) = but_arena v" "but_arena (keepFile ArenaBin v) = but_arena v"
  "but_bookkeeping (vfs\<lparr>vfsArenaSize := n\<rparr>) = but_bookkeeping vfs"
  "but_bookkeeping (vfs\<lparr>vfsArenaDirty := dirty\<rparr>) = but_bookkeeping vfs"
  "but_bookkeeping (vfs\<lparr>arenaDirtyBytesSinceFlush := amount\<rparr>) = but_bookkeeping vfs"
  "but_bookkeeping (vfs\<lparr>flushes := counts\<rparr>) = but_bookkeeping vfs"
  by (simp_all add: but_arena_def but_bookkeeping_def changeFile_def keepFile_def)

lemma arena_step_view:
  assumes "arena_step (v, vfs) (v', vfs')"
  shows "name \<noteq> ArenaBin \<Longrightarrow> hvFiles v' name = hvFiles v name" "name \<noteq> ArenaBin \<Longrightarrow> hvPending v' name = hvPending v name"
    "name \<noteq> ArenaBin \<Longrightarrow> hvDurable v' name = hvDurable v name" "hvValid v' = hvValid v" "hvOpen v' = hvOpen v"
proof -
  have eq: "but_arena v' = but_arena v" using assms by (simp add: arena_step_def)
  show "hvFiles v' name = hvFiles v name" "hvPending v' name = hvPending v name" "hvDurable v' name = hvDurable v name"
    if "name \<noteq> ArenaBin"
    using that arg_cong [OF eq, of "\<lambda>v. hvFiles v name"] arg_cong [OF eq, of "\<lambda>v. hvPending v name"]
      arg_cong [OF eq, of "\<lambda>v. hvDurable v name"] by (simp_all add: but_arena_def)
  show "hvValid v' = hvValid v" "hvOpen v' = hvOpen v"
    using arg_cong [OF eq, of hvValid] arg_cong [OF eq, of hvOpen] by (simp_all add: but_arena_def)
qed

lemma arena_step_engine:
  assumes "arena_step (v, vfs) (v', vfs')"
  shows "vfsStore vfs' = vfsStore vfs" "fileOf name vfs' = fileOf name vfs" "vfsStatus vfs' = vfsStatus vfs"
    "descriptors vfs' = descriptors vfs" "orphans vfs' = orphans vfs" "nextDescriptor vfs' = nextDescriptor vfs"
    "pendingResizeCommit vfs' = pendingResizeCommit vfs" "metadataDirtySinceFlush vfs' = metadataDirtySinceFlush vfs"
    "pendingRepackReason vfs' = pendingRepackReason vfs" "repacking vfs' = repacking vfs"
proof -
  have eq: "but_bookkeeping vfs' = but_bookkeeping vfs" using assms by (simp add: arena_step_def)
  note c = arg_cong [OF eq]
  show "vfsStore vfs' = vfsStore vfs" "fileOf name vfs' = fileOf name vfs" "vfsStatus vfs' = vfsStatus vfs"
    "descriptors vfs' = descriptors vfs" "orphans vfs' = orphans vfs" "nextDescriptor vfs' = nextDescriptor vfs"
    "pendingResizeCommit vfs' = pendingResizeCommit vfs" "metadataDirtySinceFlush vfs' = metadataDirtySinceFlush vfs"
    "pendingRepackReason vfs' = pendingRepackReason vfs" "repacking vfs' = repacking vfs"
    using c [of "\<lambda>e. vfsStore e"] c [of "\<lambda>e. vfsStatus e"] c [of "\<lambda>e. descriptors e"] c [of "\<lambda>e. orphans e"]
      c [of "\<lambda>e. nextDescriptor e"] c [of "\<lambda>e. pendingResizeCommit e"] c [of "\<lambda>e. metadataDirtySinceFlush e"]
      c [of "\<lambda>e. pendingRepackReason e"] c [of "\<lambda>e. repacking e"]
    by (simp_all add: but_bookkeeping_def fileOf_def)
qed

text \<open>The engine knows the arena: its size when it has one on record, and that it has changes to flush.\<close>

definition arena_tracked :: "'h host_view \<times> 'h RepackedVfs \<Rightarrow> bool" where
  "arena_tracked ve \<longleftrightarrow> hvValid (fst ve) (fileOf ArenaBin (snd ve)) ArenaBin
     \<and> int (length (arena_of (fst ve))) \<le> MAX_SAFE_INTEGER
     \<and> (\<forall>n. vfsArenaSize (snd ve) = Some n \<longrightarrow> n = int (length (arena_of (fst ve))))
     \<and> (hvPending (fst ve) ArenaBin \<noteq> [] \<longrightarrow> vfsArenaDirty (snd ve))"

lemma arena_trackedD:
  assumes "arena_tracked (v, vfs)"
  shows "hvValid v (fileOf ArenaBin vfs) ArenaBin" "int (length (arena_of v)) \<le> MAX_SAFE_INTEGER"
    "vfsArenaSize vfs = Some n \<Longrightarrow> n = int (length (arena_of v))" "hvPending v ArenaBin \<noteq> [] \<Longrightarrow> vfsArenaDirty vfs"
  using assms by (simp_all add: arena_tracked_def)

text \<open>What a computation that changes the arena only leads to.\<close>

definition arena_to ::
  "'h host_view \<times> 'h RepackedVfs \<Rightarrow> (byte list \<Rightarrow> bool) \<Rightarrow> 'h host_view \<times> 'h RepackedVfs \<Rightarrow> bool" where
  "arena_to ve R ve' \<longleftrightarrow> arena_step ve ve' \<and> arena_tracked ve' \<and> R (arena_of (fst ve'))"

lemma arena_to_next: "arena_to a P b \<Longrightarrow> arena_to b Q c \<Longrightarrow> arena_to a Q c"
  by (auto simp: arena_to_def intro: arena_step_trans)

lemma arena_to_weaken: "arena_to a P b \<Longrightarrow> (P (arena_of (fst b)) \<Longrightarrow> Q (arena_of (fst b))) \<Longrightarrow> arena_to a Q b"
  by (simp add: arena_to_def)

section \<open>Computations that succeed\<close>

text \<open>From every world with a view, to a result and a view that satisfy a property.\<close>

definition reaches :: "('w \<Rightarrow> 'v \<Rightarrow> bool) \<Rightarrow> 'v \<Rightarrow> ('w, 'a) io \<Rightarrow> ('a \<Rightarrow> 'v \<Rightarrow> bool) \<Rightarrow> bool" where
  "reaches at v m P \<longleftrightarrow> (\<exists>x v'. steps at v m (Inr x) v' \<and> P x v')"

lemma reachesI: "steps at v m (Inr x) v' \<Longrightarrow> P x v' \<Longrightarrow> reaches at v m P"
  by (auto simp: reaches_def)

lemma reaches_weaken: "reaches at v m P \<Longrightarrow> (\<And>x v'. P x v' \<Longrightarrow> Q x v') \<Longrightarrow> reaches at v m Q"
  by (auto simp: reaches_def)

lemma reaches_bind: "reaches at v m P \<Longrightarrow> (\<And>x v'. P x v' \<Longrightarrow> reaches at v' (f x) Q) \<Longrightarrow> reaches at v (iobind m f) Q"
  unfolding reaches_def by (meson steps_bind)

lemma reaches_ret: "P x v \<Longrightarrow> reaches at v (ioret x) P"
  by (rule reachesI [OF steps_pure(1)])

lemma reaches_asks: "reaches (withEngine at) (v, vfs) (k (f vfs)) P \<Longrightarrow> reaches (withEngine at) (v, vfs) (iobind (asks f) k) P"
  unfolding reaches_def by (meson steps_asks)

lemma reaches_asksRes:
  "f vfs = Inr x \<Longrightarrow> reaches (withEngine at) (v, vfs) (k x) P \<Longrightarrow> reaches (withEngine at) (v, vfs) (iobind (asksRes f) k) P"
  unfolding reaches_def by (meson steps_asksRes)

lemma reaches_updates:
  "reaches (withEngine at) (v, u vfs) m P \<Longrightarrow> reaches (withEngine at) (v, vfs) (iobind (updates u) (\<lambda>_. m)) P"
  unfolding reaches_def by (elim exE conjE, intro exI conjI, rule steps_updates, assumption+)

lemma reaches_update: "P () (v, u vfs) \<Longrightarrow> reaches (withEngine at) (v, vfs) (updates u) P"
  by (rule reachesI [OF steps_update [OF refl]])

lemma reaches_onHost:
  "steps at v m (Inr x) v' \<Longrightarrow> reaches (withEngine at) (v', vfs) (k x) P \<Longrightarrow>
     reaches (withEngine at) (v, vfs) (iobind (onHost m) k) P"
  unfolding reaches_def by (meson steps_bind steps_onHost)

lemma reaches_try: "reaches at v m (\<lambda>x. P (Inr x)) \<Longrightarrow> reaches at v (iotry m) P"
  unfolding reaches_def steps_def iotry_def
  by (elim exE conjE, rule_tac x = "Inr x" in exI, rule_tac x = v' in exI) fastforce

lemma reaches_catch: "reaches at v m P \<Longrightarrow> reaches at v (iocatch m f) P"
  unfolding reaches_def by (meson steps_catch_ok)

section \<open>Single writes\<close>

lemma changed_arena:
  assumes "arena_tracked (v, vfs)" "vfsArenaDirty vfs" "int (length (applied c (arena_of v))) \<le> MAX_SAFE_INTEGER"
    and "\<forall>k. n = Some k \<longrightarrow> k = int (length (applied c (arena_of v)))"
  shows "arena_to (v, vfs) (\<lambda>a. a = applied c (arena_of v)) (changeFile ArenaBin c v, vfs\<lparr>vfsArenaSize := n\<rparr>)"
proof -
  have "arena_step (v, vfs) (changeFile ArenaBin c v, vfs\<lparr>vfsArenaSize := n\<rparr>)" by (simp add: arena_step_def)
  with assms show ?thesis by (simp add: arena_to_def arena_tracked_def arena_of_def fileOf_def)
qed

context store_host
begin

abbreviation leads where "leads \<equiv> reaches (withEngine (showing inv view))"

lemma writeArena_leads:
  assumes t: "arena_tracked (v, vfs)" "vfsArenaDirty vfs" and at: "0 \<le> at" "src \<noteq> []" "at + int (length src) \<le> int (length (arena_of v))"
  shows "leads (v, vfs) (writeArena ops src at label)
    (\<lambda>n. \<lambda>ve. n = int (length src) \<and> arena_to (v, vfs) (\<lambda>a. a = putBytes at src (arena_of v)) ve)"
proof -
  note d = arena_trackedD [OF t(1)]
  have stop: "at + int (length src) \<le> MAX_SAFE_INTEGER" using at(3) d(2) by linarith
  have w: "steps (showing inv view) v (opWrite ops (fileOf ArenaBin vfs) label at src) (Inr (int (length src)))
      (changeFile ArenaBin (Put at src) v)"
    using writes [OF _ _ at(1,2) stop] d(1) by (fastforce simp: steps_def showing_def)
  have len: "length (putBytes at src (arena_of v)) = length (arena_of v)" using putBytes_within(1) [OF at(1,3)] .
  have to: "arena_to (v, vfs) (\<lambda>a. a = putBytes at src (arena_of v)) (changeFile ArenaBin (Put at src) v, vfs\<lparr>vfsArenaSize := n\<rparr>)"
    if "\<forall>k. n = Some k \<longrightarrow> k = int (length (arena_of v))" for n
    using changed_arena [OF t, of "Put at src" n] that len d(2) by simp
  show ?thesis
  proof (cases "vfsArenaSize vfs")
    case None
    show ?thesis unfolding writeArena_def setArenaSize_def
      by (rule reaches_asks, rule reaches_updates, rule reaches_asks, rule reaches_onHost, use w in \<open>simp add: fileOf_def\<close>)
        (simp add: None, rule reaches_ret, use to [of None] in simp)
  next
    case (Some before)
    then have before: "before = int (length (arena_of v))" using d(3) by simp
    have guard: "isSafeInteger (int (length src))" "isSafeInteger (at + int (length src))"
      using at stop by (auto intro!: safe_Integer)
    have mx: "max before (at + int (length src)) = before" using before at(3) by simp
    show ?thesis unfolding writeArena_def setArenaSize_def
      by (rule reaches_asks, rule reaches_updates, rule reaches_asks, rule reaches_onHost, use w in \<open>simp add: fileOf_def\<close>)
        (simp add: Some guard mx, rule reaches_updates, rule reaches_ret, use to [of "Some before"] before in simp)
  qed
qed

lemma writeArenaExact_leads:
  assumes t: "arena_tracked (v, vfs)" "vfsArenaDirty vfs" and at: "0 \<le> at" "src \<noteq> []" "at + int (length src) \<le> int (length (arena_of v))"
  shows "leads (v, vfs) (writeArenaExact ops at src label) (\<lambda>_. arena_to (v, vfs) (\<lambda>a. a = putBytes at src (arena_of v)))"
proof -
  note d = arena_trackedD [OF t(1)]
  have stop: "at + int (length src) \<le> MAX_SAFE_INTEGER" using at(3) d(2) by linarith
  note w = write_does [OF d(1) at(1,2) stop, of label]
  have len: "length (putBytes at src (arena_of v)) = length (arena_of v)" using putBytes_within(1) [OF at(1,3)] .
  have to: "arena_to (v, vfs) (\<lambda>a. a = putBytes at src (arena_of v)) (changeFile ArenaBin (Put at src) v, vfs\<lparr>vfsArenaSize := n\<rparr>)"
    if "\<forall>k. n = Some k \<longrightarrow> k = int (length (arena_of v))" for n
    using changed_arena [OF t, of "Put at src" n] that len d(2) by simp
  show ?thesis
  proof (cases "vfsArenaSize vfs")
    case None
    show ?thesis unfolding writeArenaExact_def setArenaSize_def
      by (rule reaches_asks, rule reaches_updates, rule reaches_asks, rule reaches_onHost, use w in \<open>simp add: fileOf_def\<close>)
        (simp add: None, rule reaches_ret, use to [of None] in simp)
  next
    case (Some before)
    then have before: "before = int (length (arena_of v))" using d(3) by simp
    have guard: "checkedAdd at (int (length src)) = Inr (at + int (length src))"
      "checkedSafeNumber (at + int (length src)) = Inr (at + int (length src))"
      using at(1) stop by (auto intro!: add_Inr safe_Inr)
    have mx: "max before (at + int (length src)) = before" using before at(3) by simp
    show ?thesis unfolding writeArenaExact_def setArenaSize_def
      by (rule reaches_asks, rule reaches_updates, rule reaches_asks, rule reaches_onHost, use w in \<open>simp add: fileOf_def\<close>)
        (simp only: Some option.case guard ebind_simps iobind_lift mx, rule reaches_update, use to [of "Some before"] before in simp)
  qed
qed

text \<open>Marking the arena as changed is a step of its own.\<close>

lemma tracked_dirty:
  "arena_tracked (v, vfs) \<Longrightarrow> arena_to (v, vfs) (\<lambda>a. a = arena_of v) (v, vfs\<lparr>vfsArenaDirty := True\<rparr>)"
  by (simp add: arena_to_def arena_step_def arena_tracked_def fileOf_def)

lemma tracked_recorded:
  "arena_to ve R (v, vfs) \<Longrightarrow> arena_to ve R (v, vfs\<lparr>arenaDirtyBytesSinceFlush := n\<rparr>)"
  by (simp add: arena_to_def arena_step_def arena_tracked_def fileOf_def)

lemma recordArenaWrite_leads:
  assumes "0 \<le> n" "n \<le> MAX_SAFE_INTEGER" "arena_to ve R ve1"
    and "\<And>ve2. arena_to ve R ve2 \<Longrightarrow> leads ve2 m Q"
  shows "leads ve1 (iobind (recordArenaWrite n) (\<lambda>_. m)) Q"
proof -
  obtain v vfs where ve1: "ve1 = (v, vfs)" by (metis surj_pair)
  have "\<not> (\<not> isSafeInteger n \<or> n < 0)" using assms(1,2) by (simp add: safe_Integer)
  then have run: "recordArenaWrite n = updates (\<lambda>vfs. vfs\<lparr>arenaDirtyBytesSinceFlush := min MAX_SAFE_INTEGER (arenaDirtyBytesSinceFlush vfs + n)\<rparr>)"
    by (simp only: recordArenaWrite_def if_False)
  show ?thesis unfolding run ve1
    by (rule reaches_updates, rule assms(4)) (use assms(3) tracked_recorded in \<open>simp add: ve1\<close>)
qed

lemma writeLogicalLoop_leads:
  assumes "arena_tracked (v, vfs)" "spans (arena_of v) ext (front @ tail)" "addressable ext (front @ tail)"
    and "distinct (front @ tail)" "0 \<le> pos" "pos + int (length src) \<le> int (length (front @ tail)) * ext"
    and "0 \<le> completed" "completed \<le> int (length src)"
  shows "leads (v, vfs) (writeLogicalLoop ops ext front tail pos src label completed)
    (\<lambda>p. \<lambda>ve. p = \<lparr>progressBytes = int (length src), progressError = None\<rparr>
       \<and> arena_to (v, vfs) (overwritten ext (front @ tail) (pos + completed) (drop (nat completed) src) (arena_of v)) ve)"
  using assms
proof (induction "nat (int (length src) - completed)" arbitrary: completed v vfs rule: less_induct)
  case less
  let ?xs = "front @ tail" and ?len = "int (length src)"
  show ?case
  proof (cases "completed < ?len")
    case False
    then have "completed = ?len" using less.prems(8) by simp
    then show ?thesis using less.prems(1)
      by (subst writeLogicalLoop.simps, simp) (rule reaches_ret, simp add: arena_to_def)
  next
    case True
    have i: "0 \<le> pos + completed" "pos + completed < int (length ?xs) * ext" using less.prems True by linarith+
    define e where "e = ?xs ! nat ((pos + completed) div ext)"
    define off where "off = (pos + completed) mod ext"
    define n where "n = min (?len - completed) (ext - off)"
    note loc = locate_ok [OF less.prems(3) i, folded e_def off_def]
    have n: "0 < n" "completed + n \<le> ?len" "off + n \<le> ext" using loc(3) True by (auto simp: n_def)
    have size: "extent_size_ok ext" using less.prems(3) by (simp add: addressable_def)
    note a = extent_address [OF size loc(4,5,2,3)]
    let ?at = "physical ext ?xs (pos + completed)" and ?piece = "take (nat n) (drop (nat completed) src)"
    have at: "ebind (arenaByteOffset e ext off) checkedSafeNumber = Inr ?at"
      unfolding loc(6) using a loc(3) by (simp add: safe_Inr)
    have piece: "?piece \<noteq> []" "int (length ?piece) = n" using n less.prems(7) True by auto
    have "e \<in> set ?xs" using block_index(5) [OF addressable_size(1) [OF less.prems(3)] i] by (simp add: e_def)
    then have inA: "ARENA_HEADER_BYTES + (e + 1) * ext \<le> int (length (arena_of v))"
      using less.prems(2) by (auto simp: spans_def simp del: spans_append)
    then have stop: "?at + int (length ?piece) \<le> int (length (arena_of v))"
      unfolding piece(2) loc(6) using n(3) by (simp add: algebra_simps)
    let ?put = "putBytes ?at ?piece (arena_of v)"
    have ow: "overwritten ext ?xs (pos + completed) ?piece (arena_of v) ?put"
      by (rule overwritten_put [OF less.prems(2) i]) (use n(3) piece(2) in \<open>simp add: off_def\<close>)
    have run: "writeLogicalLoop ops ext front tail pos src label completed =
        iobind (setArenaDirty True) (\<lambda>_.
          iobind (iotry (writeArena ops ?piece ?at label)) (\<lambda>r.
            case r of Inl e \<Rightarrow> ioret \<lparr>progressBytes = completed, progressError = Some e\<rparr>
            | Inr amount \<Rightarrow>
                if \<not> isSafeInteger amount \<or> amount \<le> 0 \<or> amount > n
                then ioret \<lparr>progressBytes = completed, progressError = Some PortWriteError\<rparr>
                else iobind (recordArenaWrite amount) (\<lambda>_.
                  writeLogicalLoop ops ext front tail pos src label (completed + amount))))"
      using True loc(1) [of StoreLimitError] at by (subst writeLogicalLoop.simps) (simp add: Let_def n_def)
    note dirty = tracked_dirty [OF less.prems(1)]
    have one: "leads (v, vfs\<lparr>vfsArenaDirty := True\<rparr>) (iotry (writeArena ops ?piece ?at label))
        (\<lambda>r. \<lambda>ve. r = Inr n \<and> arena_to (v, vfs) (\<lambda>a. a = ?put) ve)"
      by (rule reaches_try, rule reaches_weaken, rule writeArena_leads)
        (use dirty a(2) loc(6) piece stop in \<open>auto simp: arena_to_def intro: arena_step_trans\<close>)
    have safe: "n \<le> MAX_SAFE_INTEGER" using n(3) loc(2) addressable_size(2) [OF less.prems(3)] by (simp add: limit_defs)
    have guard: "(\<not> isSafeInteger n \<or> n \<le> 0 \<or> n > n) = False" using n(1) safe by (simp add: safe_Integer)
    have two: "leads ve (writeLogicalLoop ops ext front tail pos src label (completed + n))
      (\<lambda>p. \<lambda>ve. p = \<lparr>progressBytes = ?len, progressError = None\<rparr>
         \<and> arena_to (v, vfs) (overwritten ext ?xs (pos + completed) (drop (nat completed) src) (arena_of v)) ve)"
      if to: "arena_to (v, vfs) (\<lambda>a. a = ?put) ve" for ve
    proof -
      obtain v1 vfs1 where ve: "ve = (v1, vfs1)" by (metis surj_pair)
      have v1: "arena_tracked (v1, vfs1)" "arena_of v1 = ?put" using to by (simp_all add: ve arena_to_def)
      have "length ?put = length (arena_of v)" using overwritten_length [OF ow] .
      then have spans1: "spans (arena_of v1) ext ?xs" using spans_longer [OF less.prems(2)] v1(2) by (simp del: spans_append)
      have "nat (?len - (completed + n)) < nat (?len - completed)" using n by linarith
      note ih = less.hyps [OF this v1(1) spans1 less.prems(3-6)]
      have nat: "nat (completed + n) = nat completed + nat n" using less.prems(7) n(1) by simp
      show ?thesis unfolding ve
      proof (rule reaches_weaken, rule ih)
        show "0 \<le> completed + n" "completed + n \<le> ?len" using less.prems(7) n by linarith+
        fix p ve' assume p: "p = \<lparr>progressBytes = ?len, progressError = None\<rparr>
           \<and> arena_to (v1, vfs1) (overwritten ext ?xs (pos + (completed + n)) (drop (nat (completed + n)) src) (arena_of v1)) ve'"
        have "overwritten ext ?xs (pos + completed) (?piece @ drop (nat (completed + n)) src) (arena_of v) (arena_of (fst ve'))"
        proof (rule overwritten_trans [OF ow _ less.prems(2,4) i(1)])
          show "overwritten ext ?xs (pos + completed + int (length ?piece)) (drop (nat (completed + n)) src) ?put (arena_of (fst ve'))"
            using p v1(2) unfolding piece(2) by (simp add: arena_to_def add.assoc)
          show "pos + completed + int (length ?piece) + int (length (drop (nat (completed + n)) src)) \<le> int (length ?xs) * ext"
            unfolding piece(2) using n less.prems(6,7) by simp
        qed
        moreover have "?piece @ drop (nat (completed + n)) src = drop (nat completed) src"
          unfolding nat using append_take_drop_id [of "nat n" "drop (nat completed) src"] by (simp add: add.commute)
        ultimately show "p = \<lparr>progressBytes = ?len, progressError = None\<rparr>
           \<and> arena_to (v, vfs) (overwritten ext ?xs (pos + completed) (drop (nat completed) src) (arena_of v)) ve'"
          using p to unfolding ve by (auto simp: arena_to_def intro: arena_step_trans)
      qed
    qed
    show ?thesis unfolding run setArenaDirty_def
      by (rule reaches_updates, rule reaches_bind [OF one], elim conjE, simp only: sum.case guard if_False)
        (rule recordArenaWrite_leads [OF less_imp_le [OF n(1)] safe], assumption, rule two)
  qed
qed

lemma writeLogical_leads:
  assumes "arena_tracked (v, vfs)" "ext = extentSize (vfsState vfs)" "spans (arena_of v) ext (front @ tail)"
    and "addressable ext (front @ tail)" "distinct (front @ tail)" "0 \<le> pos"
    and "pos + int (length src) \<le> int (length (front @ tail)) * ext"
  shows "leads (v, vfs) (writeLogical ops front pos src label tail)
    (\<lambda>p. \<lambda>ve. p = \<lparr>progressBytes = int (length src), progressError = None\<rparr>
       \<and> arena_to (v, vfs) (overwritten ext (front @ tail) pos src (arena_of v)) ve)"
proof -
  have "checkedU64 pos = Inr pos"
    using assms(6,7) addressable_size(3) [OF assms(4)] by (intro u64_Inr) linarith+
  then show ?thesis unfolding writeLogical_def
    using writeLogicalLoop_leads [OF assms(1,3-7), of 0 label]
    by (simp only: iobind_lift) (rule reaches_asks, simp add: assms(2))
qed

end


text \<open>
  Filling with zeros on a host that keeps the store's contract: the gap a write leaves behind the end of a
  file, and the extents a plan allocates, which read as zeros before a frame names them.
\<close>

section \<open>Zeros that are there already\<close>

lemma zeros_nth [simp]: "length (zeros n) = n" "i < n \<Longrightarrow> zeros n ! i = 0" "zeros 0 = []"
  by (simp_all add: zeros_def)

lemma zeros_join: "zeros m @ zeros n = zeros (m + n)"
  by (simp add: zeros_def replicate_add)

lemma zeros_eq_Nil [simp]: "zeros n = [] \<longleftrightarrow> n = 0"
  by (simp add: zeros_def)

lemma overwritten_same:
  "(\<And>i. i < length src \<Longrightarrow> arena ! nat (physical ext xs (pos + int i)) = src ! i) \<Longrightarrow> overwritten ext xs pos src arena arena"
  by (simp add: overwritten_def)

text \<open>Overwriting with zeros keeps zeros.\<close>

lemma overwritten_zero:
  "overwritten ext xs pos (zeros n) arena arena' \<Longrightarrow> p < length arena \<Longrightarrow> arena ! p = 0 \<Longrightarrow> arena' ! p = 0"
  by (auto simp: overwritten_def)

lemma overwritten_zeros_more:
  assumes ow: "overwritten ext xs pos (zeros m) arena arena'" and ok: "spans arena ext xs" "distinct xs" "0 \<le> pos" "m \<le> n"
    "pos + int n \<le> int (length xs) * ext"
    and zero: "\<And>i. m \<le> i \<Longrightarrow> i < n \<Longrightarrow> arena ! nat (physical ext xs (pos + int i)) = 0"
  shows "overwritten ext xs pos (zeros n) arena arena'"
proof -
  have "overwritten ext xs (pos + int m) (zeros (n - m)) arena' arena'"
  proof (rule overwritten_same)
    fix i assume i: "i < length (zeros (n - m))"
    then have mi: "m \<le> m + i" "m + i < n" by simp_all
    have "nat (physical ext xs (pos + int (m + i))) < length arena"
      by (rule physical_range(2) [OF ok(1)]) (use ok(3,5) mi in linarith)+
    from overwritten_zero [OF ow this zero [OF mi]] i
    show "arena' ! nat (physical ext xs (pos + int m + int i)) = zeros (n - m) ! i" by (simp add: add.assoc)
  qed
  then have "overwritten ext xs (pos + int (length (zeros m))) (zeros (n - m)) arena' arena'" by simp
  from overwritten_trans [OF ow this ok(1-3)] ok(4,5) show ?thesis by (simp add: zeros_join)
qed

lemma overwritten_head:
  assumes "overwritten ext xs pos src arena arena'" "spans arena ext xs" "0 \<le> pos" "pos + int (length src) \<le> int (length xs) * ext"
  shows "take 8192 arena' = take 8192 arena"
proof (rule nth_equalityI)
  have len: "length arena' = length arena" using overwritten_length [OF assms(1)] .
  then show "length (take 8192 arena') = length (take 8192 arena)" by simp
  fix p assume p: "p < length (take 8192 arena')"
  have "p \<noteq> nat (physical ext xs (pos + int i))" if "i < length src" for i
  proof -
    have "ARENA_HEADER_BYTES \<le> physical ext xs (pos + int i)"
      by (rule physical_range(1) [OF assms(2)]) (use that assms(3,4) in linarith)+
    moreover have "p < 8192" using p by simp
    ultimately show ?thesis unfolding ARENA_HEADER_BYTES_def by linarith
  qed
  with assms(1) p len show "take 8192 arena' ! p = take 8192 arena ! p" by (simp add: overwritten_def)
qed

text \<open>An extent of the list that is overwritten with zeros from end to end reads as zeros.\<close>

lemma overwritten_zero_extent:
  assumes ow: "overwritten ext xs 0 (zeros (nat (int (length xs) * ext))) arena arena'" and ok: "spans arena ext xs" "e \<in> set xs"
  shows "extentBytes arena' ext e = zeros (nat ext)"
proof -
  obtain k where k: "k < length xs" "e = xs ! k" using ok(2) by (auto simp: in_set_conv_nth)
  have spans': "spans arena' ext xs" using spans_longer [OF ok(1)] overwritten_length [OF ow] by simp
  note ext = spans_pos [OF ok(1)]
  show ?thesis
  proof (rule nth_equalityI)
    show len: "length (extentBytes arena' ext e) = length (zeros (nat ext))" using length_extentBytes [OF spans' ok(2)] by simp
    fix j assume "j < length (extentBytes arena' ext e)"
    then have j: "int j < ext" using len by simp
    define i where "i = int k * ext + int j"
    have div: "i div ext = int k" "i mod ext = int j" using j by (simp_all add: i_def)
    have "i < (int k + 1) * ext" using j by (simp add: i_def algebra_simps)
    also have "\<dots> \<le> int (length xs) * ext" using k(1) ext by (intro mult_right_mono) auto
    finally have i: "0 \<le> i" "i < int (length xs) * ext" using ext by (simp_all add: i_def)
    have "\<forall>k < nat (int (length xs) * ext). arena' ! nat (physical ext xs (int k)) = 0"
      using ow by (simp add: overwritten_def)
    moreover have "nat i < nat (int (length xs) * ext)" using i by simp
    ultimately have "arena' ! nat (physical ext xs (int (nat i))) = 0" by blast
    then have "arena' ! nat (physical ext xs i) = 0" using i(1) by simp
    moreover have "physical ext xs i = ARENA_HEADER_BYTES + e * ext + int j" by (simp add: physical_def div k(2))
    moreover have "0 \<le> e * ext" "ARENA_HEADER_BYTES + e * ext + ext \<le> int (length arena')"
      using spans' ok(2) ext by (auto simp: spans_def algebra_simps)
    ultimately show "extentBytes arena' ext e ! j = zeros (nat ext) ! j"
      using j header_pos by (simp add: extentBytes_def nat_add_distrib nat_less_iff)
  qed
qed

context store_host
begin

section \<open>Filling a range of a file\<close>

lemma zeroLogicalLoop_leads:
  assumes "arena_tracked (v, vfs)" "spans (arena_of v) ext (front @ tail)" "addressable ext (front @ tail)"
    and "distinct (front @ tail)" "0 \<le> pos" "pos + len \<le> int (length (front @ tail)) * ext"
    and "0 \<le> completed" "completed \<le> len"
    and "\<And>p. previous \<le> int p \<Longrightarrow> p < length (arena_of v) \<Longrightarrow> arena_of v ! p = 0"
    and "previous \<le> int (length (arena_of v))"
  shows "leads (v, vfs) (zeroLogicalLoop ops ext front tail pos len previous touched completed)
    (\<lambda>_. arena_to (v, vfs) (overwritten ext (front @ tail) (pos + completed) (zeros (nat (len - completed))) (arena_of v)))"
  using assms
proof (induction "nat (len - completed)" arbitrary: completed v vfs touched rule: less_induct)
  case less
  let ?xs = "front @ tail"
  show ?case
  proof (cases "completed < len")
    case False
    then have "completed = len" using less.prems(8) by simp
    then show ?thesis using less.prems(1)
      by (subst zeroLogicalLoop.simps, simp) (rule reaches_ret, simp add: arena_to_def)
  next
    case True
    have i: "0 \<le> pos + completed" "pos + completed < int (length ?xs) * ext" using less.prems True by linarith+
    define e where "e = ?xs ! nat ((pos + completed) div ext)"
    define off where "off = (pos + completed) mod ext"
    define n where "n = min (min 65536 (ext - off)) (len - completed)"
    let ?at = "physical ext ?xs (pos + completed)"
    note loc = locate_ok [OF less.prems(3) i, folded e_def off_def]
    have n: "0 < n" "completed + n \<le> len" "off + n \<le> ext" "n \<le> 65536" using loc(3) True by (auto simp: n_def)
    have size: "extent_size_ok ext" using less.prems(3) by (simp add: addressable_def)
    note a = extent_address [OF size loc(4,5,2,3)]
    have pos_at: "0 \<le> ?at" using a(2) loc(6) by simp
    have cap: "len \<le> MAX_SAFE_INTEGER" using less.prems(5,6) addressable_size(3) [OF less.prems(3)] by linarith
    have remaining: "checkedSafeNumber (len - completed) = Inr (len - completed)"
      using less.prems(7) True cap by (intro safe_Inr) linarith+
    have "e \<in> set ?xs" using block_index(5) [OF addressable_size(1) [OF less.prems(3)] i] by (simp add: e_def)
    then have "ARENA_HEADER_BYTES + (e + 1) * ext \<le> int (length (arena_of v))"
      using less.prems(2) by (auto simp: spans_def simp del: spans_append)
    then have stop: "?at + n \<le> int (length (arena_of v))" unfolding loc(6) using n(3) by (simp add: algebra_simps)
    have ph: "physical ext ?xs (pos + completed + int j) = ?at + int j" if "int j < n" for j
      using physical_shift [OF addressable_size(1) [OF less.prems(3)] i(1), of "int j" ?xs] that n(3) by (simp add: off_def)
    have capn: "pos + completed + int (nat n) \<le> int (length ?xs) * ext" using n less.prems(6) by simp
    have two: "leads ve (zeroLogicalLoop ops ext front tail pos len previous touched' (completed + n))
      (\<lambda>_. arena_to (v, vfs) (overwritten ext ?xs (pos + completed) (zeros (nat (len - completed))) (arena_of v)))"
      if to: "arena_to (v, vfs) (overwritten ext ?xs (pos + completed) (zeros (nat n)) (arena_of v)) ve" for ve touched'
    proof -
      obtain v1 vfs1 where ve: "ve = (v1, vfs1)" by (metis surj_pair)
      have v1: "arena_tracked (v1, vfs1)" "overwritten ext ?xs (pos + completed) (zeros (nat n)) (arena_of v) (arena_of v1)"
        using to by (simp_all add: ve arena_to_def)
      note len1 = overwritten_length [OF v1(2)]
      have spans1: "spans (arena_of v1) ext ?xs" using spans_longer [OF less.prems(2)] len1 by (simp del: spans_append)
      have zero1: "arena_of v1 ! p = 0" if "previous \<le> int p" "p < length (arena_of v1)" for p
        using overwritten_zero [OF v1(2)] less.prems(9) that len1 by simp
      have "nat (len - (completed + n)) < nat (len - completed)" using n by linarith
      have "previous \<le> int (length (arena_of v1))" using less.prems(10) len1 by simp
      note ih = less.hyps [OF \<open>nat (len - (completed + n)) < nat (len - completed)\<close> v1(1) spans1 less.prems(3-6) _ _ zero1 this]
      show ?thesis unfolding ve
      proof (rule reaches_weaken, rule ih)
        show "0 \<le> completed + n" "completed + n \<le> len" using less.prems(7) n by linarith+
        fix x :: bool and ve' assume p: "arena_to (v1, vfs1) (overwritten ext ?xs (pos + (completed + n))
            (zeros (nat (len - (completed + n)))) (arena_of v1)) ve'"
        have "overwritten ext ?xs (pos + completed) (zeros (nat n) @ zeros (nat (len - (completed + n)))) (arena_of v) (arena_of (fst ve'))"
          by (rule overwritten_trans [OF v1(2) _ less.prems(2,4) i(1)])
            (use p n less.prems(6) in \<open>simp_all add: arena_to_def add.assoc\<close>)
        moreover have "nat n + nat (len - (completed + n)) = nat (len - completed)" using n by simp
        ultimately show "arena_to (v, vfs) (overwritten ext ?xs (pos + completed) (zeros (nat (len - completed))) (arena_of v)) ve'"
          using p to unfolding ve by (auto simp: arena_to_def zeros_join intro: arena_step_trans)
      qed
    qed
    show ?thesis
    proof (cases "?at < previous")
      case False
      have "overwritten ext ?xs (pos + completed) (zeros (nat n)) (arena_of v) (arena_of v)"
      proof (rule overwritten_same)
        fix j assume "j < length (zeros (nat n))"
        then have j: "int j < n" by simp
        have "previous \<le> int (nat (?at + int j))" "nat (?at + int j) < length (arena_of v)" using False pos_at j stop by linarith+
        with less.prems(9) j show "arena_of v ! nat (physical ext ?xs (pos + completed + int j)) = zeros (nat n) ! j" by (simp add: ph)
      qed
      then have to: "arena_to (v, vfs) (overwritten ext ?xs (pos + completed) (zeros (nat n)) (arena_of v)) (v, vfs)"
        using less.prems(1) by (simp add: arena_to_def)
      have run: "zeroLogicalLoop ops ext front tail pos len previous touched completed
          = zeroLogicalLoop ops ext front tail pos len previous touched (completed + n)"
        using True loc(1) [of StoreLimitError] remaining a(1) False
        by (subst zeroLogicalLoop.simps) (simp add: Let_def n_def loc(6))
      show ?thesis unfolding run by (rule two [OF to])
    next
      case True': True
      define m where "m = min n (previous - ?at)"
      have m: "0 < m" "m \<le> n" using True' n(1) by (auto simp: m_def)
      let ?put = "putBytes ?at (zeros (nat m)) (arena_of v)"
      have "overwritten ext ?xs (pos + completed) (zeros (nat m)) (arena_of v) ?put"
        by (rule overwritten_put [OF less.prems(2) i]) (use n(3) m in \<open>simp add: off_def\<close>)
      then have ow: "overwritten ext ?xs (pos + completed) (zeros (nat n)) (arena_of v) ?put"
      proof (rule overwritten_zeros_more [OF _ less.prems(2,4) i(1) _ capn])
        show "nat m \<le> nat n" using m by simp
        fix j assume j: "nat m \<le> j" "j < nat n"
        then have "m = previous - ?at" using m(1) by (auto simp: m_def min_def split: if_splits)
        then have "previous \<le> int (nat (?at + int j))" "nat (?at + int j) < length (arena_of v)" using j m pos_at stop by linarith+
        moreover have "int j < n" using j m by linarith
        ultimately show "arena_of v ! nat (physical ext ?xs (pos + completed + int j)) = 0" using less.prems(9) by (simp add: ph)
      qed
      have existing: "checkedSafeNumber (previous - ?at) = Inr (previous - ?at)"
        using True' less.prems(10) arena_trackedD(2) [OF less.prems(1)] pos_at by (intro safe_Inr) linarith+
      have run: "zeroLogicalLoop ops ext front tail pos len previous touched completed =
          iobind (setArenaDirty True) (\<lambda>_. iobind (writeArenaExact ops ?at (zeros (nat m)) ''arena.gap-zero.write'') (\<lambda>_.
          iobind (recordArenaWrite m) (\<lambda>_. zeroLogicalLoop ops ext front tail pos len previous True (completed + n))))"
        using True True' loc(1) [of StoreLimitError] remaining a(1) existing
        by (subst zeroLogicalLoop.simps) (simp add: Let_def n_def m_def loc(6))
      note dirty = tracked_dirty [OF less.prems(1)]
      have one: "leads (v, vfs\<lparr>vfsArenaDirty := True\<rparr>) (writeArenaExact ops ?at (zeros (nat m)) ''arena.gap-zero.write'')
          (\<lambda>_. arena_to (v, vfs) (overwritten ext ?xs (pos + completed) (zeros (nat n)) (arena_of v)))"
        by (rule reaches_weaken, rule writeArenaExact_leads)
          (use dirty pos_at m stop ow in \<open>auto simp: arena_to_def intro: arena_step_trans\<close>)
      have safe: "m \<le> MAX_SAFE_INTEGER" using m(2) n(4) by (simp add: limit_defs)
      show ?thesis unfolding run setArenaDirty_def
        by (rule reaches_updates, rule reaches_bind [OF one])
          (rule recordArenaWrite_leads [OF less_imp_le [OF m(1)] safe], assumption, rule two)
    qed
  qed
qed

end

end
