(* ===== verification/ArenaPrepare.thy ===== *)
theory ArenaPrepare
  imports ArenaWrites
begin

text \<open>
  Preparing the extents a plan allocates: the arena grows to hold the fresh ones, the others are
  overwritten, and all of them read as zeros; every other extent keeps its bytes.
\<close>

section \<open>The extents of a plan\<close>

definition newTotal :: "AllocatorState \<Rightarrow> int list \<Rightarrow> int" where
  "newTotal a es = totalExtents (fold takeExtent es a)"

lemma newTotal_Cons [simp]: "newTotal a (e # es) = newTotal (takeExtent e a) es"
  by (simp add: newTotal_def)

lemma owned_total: "totalExtents (fold (ownExtent i) es a) = newTotal a es"
  and reserved_total: "totalExtents (fold reserveExtent es a) = newTotal a es"
proof -
  have "totalExtents a = totalExtents b \<Longrightarrow> totalExtents (fold (ownExtent i) es a) = totalExtents (fold takeExtent es b)"
    "totalExtents a = totalExtents b \<Longrightarrow> totalExtents (fold reserveExtent es a) = totalExtents (fold takeExtent es b)" for b
    by (induction es arbitrary: a b) simp_all
  then show "totalExtents (fold (ownExtent i) es a) = newTotal a es" "totalExtents (fold reserveExtent es a) = newTotal a es"
    by (simp_all add: newTotal_def)
qed

lemma assignable_shape:
  assumes "assignable a es" "extents_inv (available a)" "\<forall>e\<in>extents_of (available a). 0 \<le> e \<and> e < totalExtents a" "0 \<le> totalExtents a"
  defines "fresh \<equiv> filter (\<lambda>e. totalExtents a \<le> e) es"
  shows "fresh = map (\<lambda>k. totalExtents a + int k) [0..<length fresh]" "newTotal a es = totalExtents a + int (length fresh)"
    "newTotal a es \<le> MAX_TOTAL_EXTENTS" "\<forall>e\<in>set es. 0 \<le> e \<and> e < newTotal a es \<and> (e < totalExtents a \<longrightarrow> e \<in> extents_of (available a))"
proof -
  have "filter (\<lambda>e. totalExtents a \<le> e) es = map (\<lambda>k. totalExtents a + int k) [0..<length (filter (\<lambda>e. totalExtents a \<le> e) es)]
    \<and> newTotal a es = totalExtents a + int (length (filter (\<lambda>e. totalExtents a \<le> e) es))
    \<and> newTotal a es \<le> MAX_TOTAL_EXTENTS
    \<and> (\<forall>e\<in>set es. 0 \<le> e \<and> e < newTotal a es \<and> (e < totalExtents a \<longrightarrow> e \<in> extents_of (available a)))"
    using assms(1-4)
  proof (induction es arbitrary: a)
    case (Cons e es)
    let ?b = "takeExtent e a" and ?t = "totalExtents a"
    note av = takeExtent_available [OF Cons.prems(2), of e]
    have b: "assignable ?b es" "extents_inv (available ?b)" "\<forall>e\<in>extents_of (available ?b). 0 \<le> e \<and> e < totalExtents ?b"
      "0 \<le> totalExtents ?b"
      using Cons.prems av by (auto split: if_splits)
    note ih = Cons.IH [OF b]
    show ?case
    proof (cases "e < ?t")
      case True
      then have "totalExtents ?b = ?t" by simp
      moreover have "0 \<le> e" "e \<in> extents_of (available a)" using True Cons.prems(1,3) by auto
      ultimately show ?thesis using ih True av by auto
    next
      case False
      then have e: "e = ?t" "totalExtents ?b = ?t + 1" using Cons.prems(1) by auto
      have "(?t \<le> f) = (?t + 1 \<le> f)" if "f \<in> set es" for f
        using ih that e(2) av(2) False Cons.prems(3) by fastforce
      then have same: "filter (\<lambda>e. ?t \<le> e) es = filter (\<lambda>e. ?t + 1 \<le> e) es" by (intro filter_cong refl)
      let ?m = "length (filter (\<lambda>e. ?t + 1 \<le> e) es)"
      have "map (\<lambda>k. ?t + int k) [0..<Suc ?m] = ?t # map (\<lambda>k. ?t + 1 + int k) [0..<?m]"
        unfolding upt_conv_Cons [OF zero_less_Suc] map_Suc_upt [symmetric] by simp
      then have "filter (\<lambda>e. ?t \<le> e) (e # es) = map (\<lambda>k. ?t + int k) [0..<length (filter (\<lambda>e. ?t \<le> e) (e # es))]"
        using ih e by (simp add: same)
      moreover have "newTotal a (e # es) = ?t + int (length (filter (\<lambda>e. ?t \<le> e) (e # es)))"
        using ih e by (simp add: same)
      moreover have "\<forall>f\<in>set (e # es). 0 \<le> f \<and> f < newTotal a (e # es) \<and> (f < ?t \<longrightarrow> f \<in> extents_of (available a))"
        using ih e av(2) False Cons.prems(4) by auto
      ultimately show ?thesis using ih by simp
    qed
  qed (simp add: newTotal_def)
  then show "fresh = map (\<lambda>k. totalExtents a + int k) [0..<length fresh]" "newTotal a es = totalExtents a + int (length fresh)"
    "newTotal a es \<le> MAX_TOTAL_EXTENTS" "\<forall>e\<in>set es. 0 \<le> e \<and> e < newTotal a es \<and> (e < totalExtents a \<longrightarrow> e \<in> extents_of (available a))"
    unfolding fresh_def by blast+
qed

text \<open>What preparing does to the arena: it grows by zeros, and the extents of the plan read as zeros.\<close>

definition prepared_arena :: "int \<Rightarrow> int list \<Rightarrow> byte list \<Rightarrow> byte list \<Rightarrow> bool" where
  "prepared_arena ext es arena arena' \<longleftrightarrow> length arena \<le> length arena' \<and> spans arena' ext es
     \<and> (\<forall>e\<in>set es. extentBytes arena' ext e = zeros (nat ext))
     \<and> (\<forall>e. e \<notin> set es \<and> spans arena ext [e] \<longrightarrow> extentBytes arena' ext e = extentBytes arena ext e)
     \<and> take 8192 arena' = take 8192 arena \<and> (\<forall>p. length arena \<le> p \<and> p < length arena' \<longrightarrow> arena' ! p = 0)"

definition setHigh :: "int \<Rightarrow> 'h RepackedVfs \<Rightarrow> 'h RepackedVfs" where
  "setHigh h vfs = onStore (\<lambda>s. s\<lparr>arenaHighWaterExtents := h\<rparr>) vfs"

lemma setHigh_simps [simp]:
  "vfsState (setHigh h vfs) = vfsState vfs" "arenaHighWaterExtents (vfsStore (setHigh h vfs)) = h"
  "setHigh (arenaHighWaterExtents (vfsStore vfs)) vfs = vfs" "fileOf name (setHigh h vfs) = fileOf name vfs"
  "vfsArenaSize (setHigh h vfs) = vfsArenaSize vfs" "vfsArenaDirty (setHigh h vfs) = vfsArenaDirty vfs"
  by (simp_all add: setHigh_def onStore_def fileOf_def)

lemma but_setHigh: "but_bookkeeping (setHigh h vfs) = setHigh h (but_bookkeeping vfs)"
  by (simp add: but_bookkeeping_def setHigh_def onStore_def)

lemma tracked_setHigh [simp]: "arena_tracked (v, setHigh h vfs) = arena_tracked (v, vfs)"
  by (simp add: arena_tracked_def)

text \<open>An arena that grew by zeros, with the reused extents overwritten, is prepared.\<close>

lemma extentBytes_append:
  assumes "spans arena ext [e]"
  shows "extentBytes (arena @ z) ext e = extentBytes arena ext e"
proof -
  have "0 \<le> e * ext" "ARENA_HEADER_BYTES + e * ext + ext \<le> int (length arena)" "0 < ext"
    using assms by (simp_all add: spans_def algebra_simps)
  then have "nat (ARENA_HEADER_BYTES + e * ext) + nat ext \<le> length arena" using header_pos by linarith
  then show ?thesis by (simp add: extentBytes_def)
qed

lemma extentBytes_zeros:
  assumes "int (length arena) \<le> ARENA_HEADER_BYTES + e * ext" "spans (arena @ zeros z) ext [e]"
  shows "extentBytes (arena @ zeros z) ext e = zeros (nat ext)"
proof -
  let ?at = "nat (ARENA_HEADER_BYTES + e * ext)"
  have len: "length (extentBytes (arena @ zeros z) ext e) = nat ext" using length_extentBytes [OF assms(2)] by simp
  have "drop ?at (arena @ zeros z) = zeros (z - (?at - length arena))" using assms(1) by (simp add: zeros_def)
  then have "extentBytes (arena @ zeros z) ext e = zeros (min (nat ext) (z - (?at - length arena)))"
    by (simp add: extentBytes_def zeros_def)
  with len show ?thesis by (metis zeros_nth(1))
qed

lemma prepared_by_zeroing:
  assumes grown: "arena2 = arena @ zeros z" and spans: "spans arena2 ext es" and head: "8192 \<le> length arena"
    and reused: "set reused \<subseteq> set es" "distinct reused"
    and fresh: "\<And>e. e \<in> set es \<Longrightarrow> e \<notin> set reused \<Longrightarrow> int (length arena) \<le> ARENA_HEADER_BYTES + e * ext"
    and ow: "overwritten ext reused 0 (zeros (nat (int (length reused) * ext))) arena2 arena3"
  shows "prepared_arena ext es arena arena3"
proof -
  have sr: "spans arena2 ext reused" using spans reused(1) by (auto simp: spans_def)
  have len: "length arena3 = length arena2" using overwritten_length [OF ow] .
  have cap: "0 + int (length (zeros (nat (int (length reused) * ext)))) \<le> int (length reused) * ext"
    using spans_pos [OF spans] by simp
  note other = overwritten_extent [OF ow sr order_refl cap]
  show ?thesis unfolding prepared_arena_def
  proof (intro conjI ballI allI impI)
    show "length arena \<le> length arena3" using len grown by simp
    show "spans arena3 ext es" using spans_longer [OF spans] len by simp
    fix e assume e: "e \<in> set es"
    show "extentBytes arena3 ext e = zeros (nat ext)"
    proof (cases "e \<in> set reused")
      case True
      show ?thesis by (rule overwritten_zero_extent [OF ow sr True])
    next
      case False
      have se: "spans arena2 ext [e]" using spans e by (simp add: spans_def)
      show ?thesis unfolding other [OF se False] unfolding grown
        by (rule extentBytes_zeros [OF fresh [OF e False]]) (use se grown in simp)
    qed
  next
    fix e assume e: "e \<notin> set es \<and> spans arena ext [e]"
    then have se: "spans arena2 ext [e]" using spans_longer [of arena ext "[e]" arena2] grown by simp
    have "e \<notin> set reused" using e reused(1) by blast
    then show "extentBytes arena3 ext e = extentBytes arena ext e"
      using other [OF se] extentBytes_append e grown by simp
  next
    show "take 8192 arena3 = take 8192 arena" using overwritten_head [OF ow sr order_refl cap] grown head by simp
    fix p assume p: "length arena \<le> p \<and> p < length arena3"
    then have "arena2 ! p = 0" "p < length arena2" using grown len by (auto simp: nth_append)
    with overwritten_zero [OF ow] show "arena3 ! p = 0" by blast
  qed
qed

section \<open>Steps\<close>

context store_host
begin

lemma arenaSizeChecked_leads:
  assumes "arena_tracked (v, vfs)"
  shows "leads (v, vfs) (arenaSizeChecked ops label)
    (\<lambda>n. \<lambda>ve. n = int (length (arena_of v)) \<and> arena_to (v, vfs) (\<lambda>a. a = arena_of v) ve)"
proof -
  note d = arena_trackedD [OF assms]
  have same: "arena_to (v, vfs) (\<lambda>a. a = arena_of v) (v, vfs\<lparr>vfsArenaSize := Some (int (length (arena_of v)))\<rparr>)"
    using assms by (simp add: arena_to_def arena_step_def arena_tracked_def fileOf_def)
  show ?thesis
  proof (cases "vfsArenaSize vfs")
    case None
    have guard: "(\<not> isSafeInteger (int (length (arena_of v))) \<or> int (length (arena_of v)) < 0) = False"
      using d(2) by (simp add: safe_Integer)
    show ?thesis unfolding arenaSizeChecked_def setArenaSize_def
      by (rule reaches_asks, simp only: None option.case, rule reaches_asks,
          rule reaches_onHost [OF size_does [OF d(1)]], simp only: arena_of_def [symmetric] guard if_False,
          rule reaches_updates, rule reaches_ret, use same in simp)
  next
    case (Some n)
    with d(3) have "n = int (length (arena_of v))" by simp
    then show ?thesis unfolding arenaSizeChecked_def
      by - (rule reaches_asks, simp only: Some option.case, rule reaches_ret, use assms in \<open>simp add: arena_to_def\<close>)
  qed
qed

lemma flushPreparedArena_leads:
  assumes "arena_tracked (v, vfs)"
  shows "leads (v, vfs) (flushPreparedArena ops label) (\<lambda>_. arena_to (v, vfs) (\<lambda>a. a = arena_of v))"
proof -
  have "leads (v, vfs) (flushFile ops ArenaBin label ZeroBarrierFlush)
      (\<lambda>_ ve. \<exists>counts. ve = (keepFile ArenaBin v, vfs\<lparr>flushes := counts\<rparr>))"
    using flush_runs [of v ArenaBin vfs label ZeroBarrierFlush] arena_trackedD(1) [OF assms] by (auto simp: reaches_def)
  then show ?thesis unfolding flushPreparedArena_def arenaClean_def
    by (rule reaches_bind, elim exE)
      (hypsubst, rule reaches_update, use assms in \<open>simp add: arena_to_def arena_step_def arena_tracked_def arena_of_def fileOf_def but_bookkeeping_def but_arena_def keepFile_def\<close>)
qed

lemma truncateArena_leads:
  assumes "arena_tracked (v, vfs)" "vfsArenaDirty vfs" "0 \<le> n" "n \<le> MAX_SAFE_INTEGER" "int (length (arena_of v)) \<le> n"
  shows "leads (v, vfs) (truncateArena ops n label)
    (\<lambda>_. arena_to (v, vfs) (\<lambda>a. a = arena_of v @ zeros (nat (n - int (length (arena_of v))))))"
proof -
  note d = arena_trackedD [OF assms(1)]
  have eq: "resized (nat n) (arena_of v) = arena_of v @ zeros (nat (n - int (length (arena_of v))))"
    using assms(5) by (simp add: resized_def zeros_def nat_diff_distrib')
  have len: "length (resized (nat n) (arena_of v)) = nat n" unfolding eq using assms(5) by simp
  have to: "arena_to (v, vfs) (\<lambda>a. a = resized (nat n) (arena_of v))
      (changeFile ArenaBin (Resize (nat n)) v, vfs\<lparr>vfsArenaSize := Some n\<rparr>)"
    using changed_arena [OF assms(1,2), of "Resize (nat n)" "Some n"] assms(3,4) len by simp
  have safe: "checkedSafeNumber n = Inr n" by (rule safe_Inr [OF assms(3,4)])
  show ?thesis unfolding truncateArena_def setArenaSize_def eq [symmetric]
    by (rule reaches_updates, rule reaches_asks, rule reaches_onHost [OF truncateChecked_does [OF _ assms(3,4)]])
      (use d(1) in \<open>simp add: fileOf_def\<close>, simp only: safe iobind_lift, rule reaches_update, use to in simp)
qed

lemma growArena_leads:
  assumes "arena_tracked (v, vfs)" "ext = extentSize (vfsState vfs)" "extent_size_ok ext" "0 \<le> n" "n \<le> MAX_TOTAL_EXTENTS"
    and "int (length (arena_of v)) \<le> ARENA_HEADER_BYTES + arenaHighWaterExtents (vfsStore vfs) * ext"
  shows "leads (v, vfs) (growArena ops n (int (length (arena_of v)))) (\<lambda>_ ve. \<exists>h.
    arena_to (v, setHigh h vfs) (\<lambda>a. a = arena_of v @ zeros (nat (ARENA_HEADER_BYTES + n * ext - int (length (arena_of v))))) ve
    \<and> int (length (arena_of (fst ve))) \<le> ARENA_HEADER_BYTES + h * ext)"
proof -
  have ext: "0 < ext" "ext \<le> MAX_EXTENT_BYTES" using assms(3) by (auto simp: extent_size_pos extent_size_ok_def)
  let ?upto = "ARENA_HEADER_BYTES + n * ext" and ?len = "int (length (arena_of v))"
  have "n * ext \<le> MAX_TOTAL_EXTENTS * MAX_EXTENT_BYTES" using assms(4,5) ext by (intro mult_mono) (auto simp: limit_defs)
  then have top: "?upto \<le> MAX_SAFE_INTEGER" using max_arena by (simp add: ARENA_HEADER_BYTES_def)
  have low: "0 \<le> n * ext" using assms(4) ext(1) by simp
  have checks: "ebind (checkedMultiply n ext) (\<lambda>len. checkedAdd ARENA_HEADER_BYTES len) = Inr ?upto"
    using low top header_pos by (simp add: mult_Inr add_Inr)
  show ?thesis
  proof (cases "?upto > ?len")
    case True
    let ?h = "max n (arenaHighWaterExtents (vfsStore vfs))"
    let ?vfs = "onStore (\<lambda>s. s\<lparr>arenaHighWaterExtents := max n (arenaHighWaterExtents s)\<rparr>) (vfs\<lparr>vfsArenaDirty := True\<rparr>)"
    have vfs: "?vfs = (setHigh ?h vfs)\<lparr>vfsArenaDirty := True\<rparr>" by (simp add: setHigh_def onStore_def)
    have t: "arena_to (v, setHigh ?h vfs) (\<lambda>a. a = arena_of v) (v, ?vfs)"
      unfolding vfs by (rule tracked_dirty) (use assms(1) in simp)
    have "n * ext \<le> ?h * ext" using ext(1) by (intro mult_right_mono) auto
    then have bound: "?upto \<le> ARENA_HEADER_BYTES + ?h * ext" by simp
    have "leads (v, ?vfs) (truncateArena ops ?upto ''arena.grow'')
        (\<lambda>_. arena_to (v, ?vfs) (\<lambda>a. a = arena_of v @ zeros (nat (?upto - ?len))))"
      by (rule truncateArena_leads) (use t True top low header_pos in \<open>auto simp: arena_to_def vfs\<close>)
    then have "leads (v, ?vfs) (iocatch (truncateArena ops ?upto ''arena.grow'')
          (\<lambda>cause. iofail (if cause = QuotaExceededError then ArenaGrowthQuotaError cause else cause)))
        (\<lambda>_ ve. \<exists>h. arena_to (v, setHigh h vfs) (\<lambda>a. a = arena_of v @ zeros (nat (?upto - ?len))) ve
          \<and> int (length (arena_of (fst ve))) \<le> ARENA_HEADER_BYTES + h * ext)"
      by (rule reaches_catch [OF reaches_weaken])
        (rule exI [of _ ?h], use t bound True in \<open>auto simp: arena_to_def intro: arena_step_trans\<close>)
    then show ?thesis unfolding growArena_def setArenaDirty_def
      by - (rule reaches_asks, simp only: assms(2) [symmetric] checks iobind_lift True if_True, (rule reaches_updates)+)
  next
    case False
    have "arena_to (v, setHigh (arenaHighWaterExtents (vfsStore vfs)) vfs) (\<lambda>a. a = arena_of v @ zeros (nat (?upto - ?len))) (v, vfs)"
      using False assms(1) by (simp add: arena_to_def)
    then show ?thesis unfolding growArena_def
      by - (rule reaches_asks, simp only: assms(2) [symmetric] checks iobind_lift False if_False, rule reaches_ret,
        rule exI, rule conjI, assumption, use assms(6) in simp)
  qed
qed

text \<open>One reused extent, and all of them.\<close>

lemma zeroExtent_leads:
  assumes "arena_tracked (v, vfs)" "spans (arena_of v) ext xs" "distinct xs" "extent_size_ok ext"
    and "k < length xs" "0 \<le> xs ! k" "xs ! k < MAX_TOTAL_EXTENTS" "0 \<le> off" "off \<le> ext"
  shows "leads (v, vfs) (zeroExtent ops ext (xs ! k) off)
    (\<lambda>_. arena_to (v, vfs) (overwritten ext xs (int k * ext + off) (zeros (nat (ext - off))) (arena_of v)))"
  using assms
proof (induction "nat (ext - off)" arbitrary: off v vfs rule: less_induct)
  case less
  show ?case
  proof (cases "off < ext")
    case False
    then show ?thesis using less.prems(1,9)
      by (subst zeroExtent.simps, simp) (rule reaches_ret, simp add: arena_to_def)
  next
    case True
    have ext: "0 < ext" using less.prems(2) by (rule spans_pos)
    define n where "n = min (min ext 65536) (ext - off)"
    have n: "0 < n" "off + n \<le> ext" "n \<le> 65536" using True ext by (auto simp: n_def)
    let ?pos = "int k * ext + off"
    note a = extent_address [OF less.prems(4,6,7,8) True]
    have div: "?pos div ext = int k" "?pos mod ext = off" using less.prems(8) True by simp_all
    have kext: "0 \<le> int k * ext" "(int k + 1) * ext \<le> int (length xs) * ext"
      using less.prems(5) ext by (auto intro: mult_right_mono)
    have pos: "0 \<le> ?pos" "?pos + (ext - off) \<le> int (length xs) * ext" using kext less.prems(8) by (simp_all add: algebra_simps)
    have at: "physical ext xs ?pos = ARENA_HEADER_BYTES + xs ! k * ext + off" unfolding physical_def div by simp
    have "ARENA_HEADER_BYTES + (xs ! k + 1) * ext \<le> int (length (arena_of v))"
      using less.prems(2,5) by (auto simp: spans_def)
    then have stop: "physical ext xs ?pos + n \<le> int (length (arena_of v))" unfolding at using n(2) by (simp add: algebra_simps)
    let ?put = "putBytes (physical ext xs ?pos) (zeros (nat n)) (arena_of v)"
    have ow: "overwritten ext xs ?pos (zeros (nat n)) (arena_of v) ?put"
      by (rule overwritten_put [OF less.prems(2) pos(1)]) (use pos(2) n True div in simp_all)
    have run: "zeroExtent ops ext (xs ! k) off = iobind (setArenaDirty True) (\<lambda>_.
        iobind (writeArenaExact ops (physical ext xs ?pos) (zeros (nat n)) ''arena.allocation.zero'') (\<lambda>_.
        iobind (recordArenaWrite n) (\<lambda>_. zeroExtent ops ext (xs ! k) (off + n))))"
      using True a(1) n(1) by (subst zeroExtent.simps) (simp add: Let_def n_def at)
    note dirty = tracked_dirty [OF less.prems(1)]
    have one: "leads (v, vfs\<lparr>vfsArenaDirty := True\<rparr>) (writeArenaExact ops (physical ext xs ?pos) (zeros (nat n)) ''arena.allocation.zero'')
        (\<lambda>_. arena_to (v, vfs) (\<lambda>a. a = ?put))"
      by (rule reaches_weaken, rule writeArenaExact_leads)
        (use dirty a(2) at n stop in \<open>auto simp: arena_to_def intro: arena_step_trans\<close>)
    have two: "leads ve (zeroExtent ops ext (xs ! k) (off + n))
        (\<lambda>_. arena_to (v, vfs) (overwritten ext xs ?pos (zeros (nat (ext - off))) (arena_of v)))"
      if to: "arena_to (v, vfs) (\<lambda>a. a = ?put) ve" for ve
    proof -
      obtain v1 vfs1 where ve: "ve = (v1, vfs1)" by (metis surj_pair)
      have v1: "arena_tracked (v1, vfs1)" "arena_of v1 = ?put" using to by (simp_all add: ve arena_to_def)
      have spans1: "spans (arena_of v1) ext xs" using spans_longer [OF less.prems(2)] v1(2) overwritten_length [OF ow] by simp
      have smaller: "nat (ext - (off + n)) < nat (ext - off)" using n True by linarith
      show ?thesis unfolding ve
      proof (rule reaches_weaken, rule less.hyps [OF smaller v1(1) spans1 less.prems(3-7)])
        show "0 \<le> off + n" "off + n \<le> ext" using less.prems(8) n by linarith+
        fix x :: unit and ve' assume p: "arena_to (v1, vfs1) (overwritten ext xs (int k * ext + (off + n))
            (zeros (nat (ext - (off + n)))) (arena_of v1)) ve'"
        have "overwritten ext xs ?pos (zeros (nat n) @ zeros (nat (ext - (off + n)))) (arena_of v) (arena_of (fst ve'))"
          by (rule overwritten_trans [OF ow _ less.prems(2,3) pos(1)])
            (use p n pos(2) v1(2) in \<open>simp_all add: arena_to_def add.assoc\<close>)
        moreover have "nat n + nat (ext - (off + n)) = nat (ext - off)" using n by simp
        ultimately show "arena_to (v, vfs) (overwritten ext xs ?pos (zeros (nat (ext - off))) (arena_of v)) ve'"
          using p to unfolding ve by (auto simp: arena_to_def zeros_join intro: arena_step_trans)
      qed
    qed
    have safe: "n \<le> MAX_SAFE_INTEGER" using n(3) by (simp add: limit_defs)
    show ?thesis unfolding run setArenaDirty_def
      by (rule reaches_updates, rule reaches_bind [OF one])
        (rule recordArenaWrite_leads [OF less_imp_le [OF n(1)] safe], assumption, rule two)
  qed
qed

lemma zeroExtents_leads:
  assumes "arena_tracked (v, vfs)" "spans (arena_of v) ext xs" "distinct xs" "extent_size_ok ext"
    and "\<forall>e\<in>set xs. 0 \<le> e \<and> e < MAX_TOTAL_EXTENTS" "k \<le> length xs"
  shows "leads (v, vfs) (ioeach (\<lambda>e. zeroExtent ops ext e 0) (drop k xs))
    (\<lambda>_. arena_to (v, vfs) (overwritten ext xs (int k * ext) (zeros (nat (int (length xs - k) * ext))) (arena_of v)))"
  using assms
proof (induction "length xs - k" arbitrary: k v vfs)
  case 0
  then have "drop k xs = []" by simp
  show ?case unfolding \<open>drop k xs = []\<close> ioeach.simps
    by (rule reaches_ret) (use 0 in \<open>simp add: arena_to_def\<close>)
next
  case (Suc m)
  have k: "k < length xs" "drop k xs = xs ! k # drop (Suc k) xs" using Suc.hyps(2) by (simp_all add: Cons_nth_drop_Suc)
  have ext: "0 < ext" using Suc.prems(2) by (rule spans_pos)
  have e: "0 \<le> xs ! k" "xs ! k < MAX_TOTAL_EXTENTS" using Suc.prems(5) k(1) by simp_all
  have one: "leads (v, vfs) (zeroExtent ops ext (xs ! k) 0)
      (\<lambda>_. arena_to (v, vfs) (overwritten ext xs (int k * ext) (zeros (nat ext)) (arena_of v)))"
    using zeroExtent_leads [OF Suc.prems(1-4) k(1) e, of 0] ext by simp
  have len: "int (length xs - k) * ext = ext + int (length xs - Suc k) * ext"
    using Suc.hyps(2) k(1) by (simp add: of_nat_diff algebra_simps)
  have rest: "0 \<le> int (length xs - Suc k) * ext" using ext by simp
  have cap: "int k * ext + ext + int (length xs - Suc k) * ext = int (length xs) * ext"
    using k(1) by (simp add: of_nat_diff algebra_simps)
  have two: "leads ve (ioeach (\<lambda>e. zeroExtent ops ext e 0) (drop (Suc k) xs))
      (\<lambda>_. arena_to (v, vfs) (overwritten ext xs (int k * ext) (zeros (nat (int (length xs - k) * ext))) (arena_of v)))"
    if to: "arena_to (v, vfs) (overwritten ext xs (int k * ext) (zeros (nat ext)) (arena_of v)) ve" for ve
  proof -
    obtain v1 vfs1 where ve: "ve = (v1, vfs1)" by (metis surj_pair)
    have v1: "arena_tracked (v1, vfs1)" "overwritten ext xs (int k * ext) (zeros (nat ext)) (arena_of v) (arena_of v1)"
      using to by (simp_all add: ve arena_to_def)
    have spans1: "spans (arena_of v1) ext xs" using spans_longer [OF Suc.prems(2)] overwritten_length [OF v1(2)] by simp
    have m: "m = length xs - Suc k" "Suc k \<le> length xs" using Suc.hyps(2) by simp_all
    show ?thesis unfolding ve
    proof (rule reaches_weaken, rule Suc.hyps(1) [OF m(1) v1(1) spans1 Suc.prems(3-5) m(2)])
      fix x :: unit and ve' assume p: "arena_to (v1, vfs1) (overwritten ext xs (int (Suc k) * ext)
          (zeros (nat (int (length xs - Suc k) * ext))) (arena_of v1)) ve'"
      have "overwritten ext xs (int k * ext + int (length (zeros (nat ext)))) (zeros (nat (int (length xs - Suc k) * ext)))
          (arena_of v1) (arena_of (fst ve'))"
        using p ext by (simp add: arena_to_def algebra_simps)
      moreover have "int k * ext + int (length (zeros (nat ext))) + int (length (zeros (nat (int (length xs - Suc k) * ext))))
          \<le> int (length xs) * ext"
        using ext rest cap by simp
      ultimately have "overwritten ext xs (int k * ext) (zeros (nat ext) @ zeros (nat (int (length xs - Suc k) * ext)))
          (arena_of v) (arena_of (fst ve'))"
        using overwritten_trans [OF v1(2) _ Suc.prems(2,3)] ext by simp
      moreover have "nat ext + nat (int (length xs - Suc k) * ext) = nat (int (length xs - k) * ext)"
        unfolding len using ext rest by (simp add: nat_add_distrib)
      ultimately show "arena_to (v, vfs) (overwritten ext xs (int k * ext) (zeros (nat (int (length xs - k) * ext))) (arena_of v)) ve'"
        using p to unfolding ve by (auto simp: arena_to_def zeros_join intro: arena_step_trans)
    qed
  qed
  show ?case unfolding k(2) ioeach.simps by (rule reaches_bind [OF one], rule two)
qed

section \<open>All extents of a plan\<close>

lemma zeroReused_leads:
  assumes "arena_tracked (v, vfs)" "spans (arena_of v) ext xs" "distinct xs" "ext = extentSize (vfsState vfs)" "extent_size_ok ext"
    and "\<forall>e\<in>set xs. 0 \<le> e \<and> e < MAX_TOTAL_EXTENTS"
  shows "leads (v, vfs) (if xs = [] then ioret ()
      else iobind (asks (\<lambda>vfs. extentSize (vfsState vfs))) (\<lambda>ext.
        iobind (ioeach (\<lambda>extentId. zeroExtent ops ext extentId 0) xs) (\<lambda>_. flushPreparedArena ops label)))
    (\<lambda>_. arena_to (v, vfs) (overwritten ext xs 0 (zeros (nat (int (length xs) * ext))) (arena_of v)))"
proof (cases "xs = []")
  case True
  show ?thesis unfolding if_P [OF True] by (rule reaches_ret) (use assms(1) True in \<open>simp add: arena_to_def\<close>)
next
  case False
  let ?R = "overwritten ext xs 0 (zeros (nat (int (length xs) * ext))) (arena_of v)"
  have zero: "leads (v, vfs) (ioeach (\<lambda>extentId. zeroExtent ops ext extentId 0) xs) (\<lambda>_. arena_to (v, vfs) ?R)"
    using zeroExtents_leads [OF assms(1-3,5,6), of 0] by simp
  have flush: "leads ve (flushPreparedArena ops label) (\<lambda>_. arena_to (v, vfs) ?R)" if to: "arena_to (v, vfs) ?R ve" for ve
  proof -
    obtain v1 vfs1 where ve: "ve = (v1, vfs1)" by (metis surj_pair)
    have "arena_tracked (v1, vfs1)" using to by (simp add: ve arena_to_def)
    from flushPreparedArena_leads [OF this] show ?thesis unfolding ve
      by (rule reaches_weaken) (use to ve in \<open>auto simp: arena_to_def intro: arena_step_trans\<close>)
  qed
  show ?thesis unfolding if_not_P [OF False]
    by (rule reaches_asks, simp only: assms(4) [symmetric], rule reaches_bind [OF zero], rule flush)
qed

lemma prepareAllocated_leads:
  assumes t: "arena_tracked (v, vfs)" and a: "a = allocator (vfsState vfs)" and ext: "ext = extentSize (vfsState vfs)" "extent_size_ok ext"
    and inv: "alloc_inv a F" and es: "assignable a es" "distinct es"
    and low: "ARENA_HEADER_BYTES + totalExtents a * ext \<le> int (length (arena_of v))"
    and up: "int (length (arena_of v)) \<le> ARENA_HEADER_BYTES + arenaHighWaterExtents (vfsStore vfs) * ext"
  shows "leads (v, vfs) (prepareAllocated ops es) (\<lambda>_ ve. \<exists>h.
    arena_to (v, setHigh h vfs) (prepared_arena ext es (arena_of v)) ve
    \<and> ARENA_HEADER_BYTES + newTotal a es * ext \<le> int (length (arena_of (fst ve)))
    \<and> int (length (arena_of (fst ve))) \<le> ARENA_HEADER_BYTES + h * ext)"
proof -
  let ?high = "arenaHighWaterExtents (vfsStore vfs)" and ?len = "int (length (arena_of v))" and ?total = "totalExtents a"
  let ?fresh = "filter (\<lambda>e. e \<ge> ?total) es" and ?reused = "filter (\<lambda>e. e < ?total \<or> e < ?high) es"
  have av: "\<forall>e\<in>extents_of (available a). 0 \<le> e \<and> e < ?total" using alloc_inv_range [OF inv] by blast
  note shape = assignable_shape [OF es(1) alloc_invD(1) [OF inv] av alloc_invD(9) [OF inv]]
  have pos: "0 < ext" using ext(2) by (rule extent_size_pos)
  have total0: "0 \<le> ?total * ext" using alloc_invD(9) [OF inv] pos by simp
  then have head: "8192 \<le> length (arena_of v)" using low by (simp add: ARENA_HEADER_BYTES_def)
  have spans_of: "spans arena ext es" if "ARENA_HEADER_BYTES + newTotal a es * ext \<le> int (length arena)" for arena
    unfolding spans_def
  proof (intro conjI ballI)
    fix e assume "e \<in> set es"
    then have e: "0 \<le> e" "e + 1 \<le> newTotal a es" using shape(4) by auto
    then show "0 \<le> e" by simp
    have "(e + 1) * ext \<le> newTotal a es * ext" using e pos by (intro mult_right_mono) auto
    with that show "ARENA_HEADER_BYTES + (e + 1) * ext \<le> int (length arena)" by simp
  qed (rule pos)
  define stage where "stage = (\<lambda>ve. \<exists>h. arena_to (v, setHigh h vfs) (\<lambda>arena. \<exists>z. arena = arena_of v @ zeros z) ve
    \<and> ARENA_HEADER_BYTES + newTotal a es * ext \<le> int (length (arena_of (fst ve)))
    \<and> int (length (arena_of (fst ve))) \<le> ARENA_HEADER_BYTES + h * ext)"
  have grow: "leads (v1, vfs1) (if ?fresh = [] then ioret ()
      else iobind (iolift (checkedAdd (last ?fresh) 1)) (\<lambda>n. growArena ops n ?len)) (\<lambda>_. stage)"
    if to: "arena_to (v, vfs) (\<lambda>arena. arena = arena_of v) (v1, vfs1)" for v1 vfs1
  proof -
    have v1: "arena_tracked (v1, vfs1)" "arena_of v1 = arena_of v" "arena_step (v, vfs) (v1, vfs1)" using to by (simp_all add: arena_to_def)
    note e1 = arena_step_engine(1) [OF v1(3)]
    have step_high: "arena_step (v, setHigh h vfs) (v1, setHigh h vfs1)" for h
      using v1(3) by (simp add: arena_step_def but_setHigh)
    show ?thesis
    proof (cases "?fresh = []")
      case True
      then have "newTotal a es = ?total" using shape(2) by simp
      then have "stage (v1, vfs1)" unfolding stage_def
        using v1 low up by (intro exI [of _ ?high]) (auto simp: arena_to_def intro: exI [of _ 0])
      then show ?thesis unfolding if_P [OF True] by (rule reaches_ret)
    next
      case False
      have "0 < length ?fresh" using False by (simp only: length_greater_0_conv not_False_eq_True)
      then obtain m where m: "length ?fresh = Suc m" by (cases "length ?fresh") auto
      have "last ?fresh = ?total + int m" by (subst shape(1)) (simp add: m)
      then have last: "last ?fresh + 1 = newTotal a es" using shape(2) m by simp
      have bounds: "0 \<le> newTotal a es" "newTotal a es \<le> MAX_SAFE_INTEGER"
        using shape(2,3) alloc_invD(9) [OF inv] by (simp_all add: limit_defs)
      have add: "checkedAdd (last ?fresh) 1 = Inr (newTotal a es)" using bounds unfolding last [symmetric] by (rule add_Inr)
      have "leads (v1, vfs1) (growArena ops (newTotal a es) (int (length (arena_of v1)))) (\<lambda>_ ve. \<exists>h.
          arena_to (v1, setHigh h vfs1) (\<lambda>arena. arena = arena_of v1
            @ zeros (nat (ARENA_HEADER_BYTES + newTotal a es * ext - int (length (arena_of v1))))) ve
          \<and> int (length (arena_of (fst ve))) \<le> ARENA_HEADER_BYTES + h * ext)"
        by (rule growArena_leads) (use v1 e1 ext bounds shape(3) up in simp_all)
      then have "leads (v1, vfs1) (growArena ops (newTotal a es) ?len) (\<lambda>_. stage)"
        unfolding v1(2)
      proof (rule reaches_weaken)
        fix x ve assume "\<exists>h. arena_to (v1, setHigh h vfs1) (\<lambda>arena. arena = arena_of v
            @ zeros (nat (ARENA_HEADER_BYTES + newTotal a es * ext - ?len))) ve
          \<and> int (length (arena_of (fst ve))) \<le> ARENA_HEADER_BYTES + h * ext"
        then obtain h where h: "arena_to (v1, setHigh h vfs1) (\<lambda>arena. arena = arena_of v
            @ zeros (nat (ARENA_HEADER_BYTES + newTotal a es * ext - ?len))) ve"
          "int (length (arena_of (fst ve))) \<le> ARENA_HEADER_BYTES + h * ext" by blast
        then have "ARENA_HEADER_BYTES + newTotal a es * ext \<le> int (length (arena_of (fst ve)))" by (auto simp: arena_to_def)
        moreover have "arena_to (v, setHigh h vfs) (\<lambda>arena. \<exists>z. arena = arena_of v @ zeros z) ve"
          using h(1) step_high [of h] by (auto simp: arena_to_def intro: arena_step_trans)
        ultimately show "stage ve" using h(2) unfolding stage_def by blast
      qed
      then show ?thesis unfolding if_not_P [OF False] add iobind_lift .
    qed
  qed
  have grow': "leads ve (if ?fresh = [] then ioret ()
      else iobind (iolift (checkedAdd (last ?fresh) 1)) (\<lambda>n. growArena ops n ?len)) (\<lambda>_. stage)"
    if "arena_to (v, vfs) (\<lambda>arena. arena = arena_of v) ve" for ve
    using grow [of "fst ve" "snd ve"] that by simp
  have finish: "leads ve (if ?reused = [] then ioret () else iobind (asks (\<lambda>vfs. extentSize (vfsState vfs))) (\<lambda>ext.
      iobind (ioeach (\<lambda>extentId. zeroExtent ops ext extentId 0) ?reused) (\<lambda>_. flushPreparedArena ops ''arena.allocation.flush'')))
      (\<lambda>_ ve. \<exists>h. arena_to (v, setHigh h vfs) (prepared_arena ext es (arena_of v)) ve
        \<and> ARENA_HEADER_BYTES + newTotal a es * ext \<le> int (length (arena_of (fst ve)))
        \<and> int (length (arena_of (fst ve))) \<le> ARENA_HEADER_BYTES + h * ext)"
    if st: "stage ve" for ve
  proof -
    obtain v2 vfs2 where ve: "ve = (v2, vfs2)" by (metis surj_pair)
    obtain h z where h: "arena_step (v, setHigh h vfs) (v2, vfs2)" "arena_tracked (v2, vfs2)" "arena_of v2 = arena_of v @ zeros z"
      "ARENA_HEADER_BYTES + newTotal a es * ext \<le> int (length (arena_of v2))" "int (length (arena_of v2)) \<le> ARENA_HEADER_BYTES + h * ext"
      using st unfolding stage_def ve arena_to_def fst_conv by blast
    have spans2: "spans (arena_of v2) ext es" by (rule spans_of [OF h(4)])
    have same: "ext = extentSize (vfsState vfs2)" using arena_step_engine(1) [OF h(1)] ext(1) by (simp add: setHigh_def onStore_def)
    have inarena: "spans (arena_of v2) ext ?reused" using spans2 by (simp add: spans_def)
    have small: "\<forall>e\<in>set ?reused. 0 \<le> e \<and> e < MAX_TOTAL_EXTENTS" using shape(3,4) by fastforce
    have "distinct ?reused" using es(2) by simp
    note zero = zeroReused_leads [OF h(2) inarena this same ext(2) small, of "''arena.allocation.flush''"]
    show ?thesis unfolding ve
    proof (rule reaches_weaken [OF zero])
      fix x ve' assume to: "arena_to (v2, vfs2) (overwritten ext ?reused 0 (zeros (nat (int (length ?reused) * ext))) (arena_of v2)) ve'"
      then have ow: "overwritten ext ?reused 0 (zeros (nat (int (length ?reused) * ext))) (arena_of v2) (arena_of (fst ve'))"
        by (simp add: arena_to_def)
      have "prepared_arena ext es (arena_of v) (arena_of (fst ve'))"
      proof (rule prepared_by_zeroing [OF h(3) spans2 head _ _ _ ow])
        fix e assume "e \<in> set es" "e \<notin> set ?reused"
        then have "?high \<le> e" by simp
        then have "?high * ext \<le> e * ext" using pos by (intro mult_right_mono) auto
        with up show "int (length (arena_of v)) \<le> ARENA_HEADER_BYTES + e * ext" by simp
      qed (use es(2) in auto)
      then show "\<exists>h. arena_to (v, setHigh h vfs) (prepared_arena ext es (arena_of v)) ve'
        \<and> ARENA_HEADER_BYTES + newTotal a es * ext \<le> int (length (arena_of (fst ve')))
        \<and> int (length (arena_of (fst ve'))) \<le> ARENA_HEADER_BYTES + h * ext"
        using to h overwritten_length [OF ow] by (intro exI [of _ h]) (auto simp: arena_to_def intro: arena_step_trans)
    qed
  qed
  show ?thesis
  proof (cases "es = []")
    case True
    have "arena_to (v, setHigh ?high vfs) (prepared_arena ext es (arena_of v)) (v, vfs)"
      using t pos by (auto simp: arena_to_def prepared_arena_def True spans_def)
    moreover have "newTotal a es = ?total" by (simp add: newTotal_def True)
    ultimately show ?thesis unfolding prepareAllocated_def if_P [OF True] using low up
      by (intro reaches_ret exI [of _ ?high]) simp
  next
    case False
    show ?thesis unfolding prepareAllocated_def if_not_P [OF False] Let_def
      by (rule reaches_asks, rule reaches_asks, simp only: a [symmetric], rule reaches_bind [OF arenaSizeChecked_leads [OF t]], elim conjE)
        (hypsubst, rule reaches_bind, rule grow', assumption, rule finish)
  qed
qed

end

end
