(* ===== verification/EngineResizes.thy ===== *)
theory EngineResizes
  imports EngineRuns Retention EngineDurability
begin

text \<open>
  A write that grows a file is applied at once, and its record held back; a second one on the same file
  replaces it by one record for both. That record, applied where the first one was, leads to the state the
  two lead to in turn.
\<close>

section \<open>Runs of extents\<close>

definition run_short :: "ExtentRun \<Rightarrow> bool" where
  "run_short r \<longleftrightarrow> run_ok r \<and> runCount r \<le> MAX_RUN"

lemma mergeRun_short:
  assumes "\<forall>r\<in>set runs. run_short r" "run_short r"
  shows "\<forall>q\<in>set (mergeRun runs r). run_short q"
proof (cases "runs \<noteq> [] \<and> runStart (last runs) + runCount (last runs) = runStart r
    \<and> runCount (last runs) + runCount r \<le> MAX_RUN")
  case True
  then have "run_short (last runs)" using assms(1) by simp
  with True assms(2) have "run_short ((last runs)\<lparr>runCount := runCount (last runs) + runCount r\<rparr>)"
    by (auto simp: run_short_def run_ok_def isSafeInteger_def MAX_RUN_def MAX_SAFE_INTEGER_def)
  with True assms(1) show ?thesis by (auto simp: mergeRun_def dest: in_set_butlastD)
qed (use assms in \<open>auto simp: mergeRun_def\<close>)

lemma mergeExtentRuns_short:
  "\<forall>r\<in>set runs. run_short r \<Longrightarrow> \<forall>r\<in>set runs'. run_short r \<Longrightarrow> \<forall>q\<in>set (mergeExtentRuns runs runs'). run_short q"
proof (induction runs' arbitrary: runs)
  case (Cons r runs')
  have "mergeExtentRuns runs (r # runs') = mergeExtentRuns (mergeRun runs r) runs'" by (simp add: mergeExtentRuns_def)
  moreover have "\<forall>q\<in>set (mergeRun runs r). run_short q" by (rule mergeRun_short [OF Cons.prems(1)]) (use Cons.prems(2) in simp)
  moreover have "\<forall>q\<in>set runs'. run_short q" using Cons.prems(2) by simp
  ultimately show ?case using Cons.IH by presburger
qed (simp add: mergeExtentRuns_def)

lemma mergeExtentRuns_ne: "mergeExtentRuns runs runs' = [] \<Longrightarrow> runs = [] \<and> runs' = []"
proof (induction runs' arbitrary: runs)
  case (Cons r runs')
  have "mergeExtentRuns runs (r # runs') = mergeExtentRuns (mergeRun runs r) runs'" by (simp add: mergeExtentRuns_def)
  moreover have "mergeRun runs r \<noteq> []" by (simp add: mergeRun_def)
  ultimately show ?case using Cons by simp
qed (simp add: mergeExtentRuns_def)

lemma merged_expands:
  assumes "expandExtentRuns runs m = Inr es" "expandExtentRuns runs' m' = Inr es'" "int (length (es @ es')) \<le> n"
    and "\<forall>r\<in>set (runs @ runs'). runCount r \<le> MAX_RUN"
  shows "expandExtentRuns (mergeExtentRuns runs runs') n = Inr (es @ es')"
    and "\<forall>q\<in>set (mergeExtentRuns runs runs'). run_short q"
proof -
  have short: "\<forall>r\<in>set runs. run_short r" "\<forall>r\<in>set runs'. run_short r"
    using assms by (auto simp: expandExtentRuns_Inr run_short_def)
  then show "\<forall>q\<in>set (mergeExtentRuns runs runs'). run_short q" by (rule mergeExtentRuns_short)
  moreover have "flat (mergeExtentRuns runs runs') = flat runs @ flat runs'"
    by (rule mergeExtentRuns_flat) (use short in \<open>auto simp: run_short_def run_ok_def\<close>)
  ultimately show "expandExtentRuns (mergeExtentRuns runs runs') n = Inr (es @ es')"
    using assms(1-3) by (auto simp: expandExtentRuns_Inr run_short_def)
qed

lemma assignable_append:
  "alloc_inv a F \<Longrightarrow> assignable a es \<Longrightarrow> assignable (fold (ownExtent i) es a) es' \<Longrightarrow> assignable a (es @ es')"
proof (induction es arbitrary: a F)
  case (Cons e es)
  have "assignable (ownExtent i e a) (es @ es')"
    using Cons.IH [OF ownExtent_inv [OF Cons.prems(1,2), of i] assignable_Cons(1) [OF Cons.prems(2)]] Cons.prems(3) by simp
  then have "assignable (takeExtent e a) (es @ es')"
    using assignable_cong [of "ownExtent i e a" "takeExtent e a" "es @ es'"] by (simp add: ownExtent_def Let_def)
  with Cons.prems(2) show ?case by simp
qed simp

section \<open>A growing resize\<close>

lemma applyResizeFile_grow:
  assumes "table_inv st" "imap st k = Some inode" "body inode = File old xs" "extentCountForSize n (extentSize st) = Inr c"
    and "int (length xs) \<le> c"
  shows "applyResizeFile st k n runs m t = Inr st' \<longleftrightarrow> u64 n \<and> u64 m \<and> u64 t
    \<and> (\<exists>es. validateExtentAssignment st runs (c - int (length xs)) = Inr es
        \<and> st' = touch k (\<lambda>i. i\<lparr>body := File n (xs @ es), mtimeMs := m, ctimeMs := t\<rparr>)
            (st\<lparr>allocator := fold (ownExtent k) es (allocator st)\<rparr>))"
proof -
  have "inodeId inode = k" using inode_id [OF assms(1,2)] .
  moreover have "max 0 (c - int (length xs)) = c - int (length xs)" "drop (nat c) xs = []" using assms(5) by auto
  ultimately show ?thesis
    unfolding applyResizeFile_def using assms(2-5)
    by (auto simp: res_simps Let_def checkOwnedBy_def)
qed

lemma deferrable_grows:
  assumes "vfs_inv st" "isDeferrableResize (ResizeFile operation k n runs m t) st"
  obtains inode old xs where "operation = WriteOp" "imap st k = Some inode" "body inode = File old xs" "old < n"
    "extentCountForSize old (extentSize st) = Inr (int (length xs))"
proof -
  obtain inode old xs where i: "operation = WriteOp" "imap st k = Some inode" "body inode = File old xs" "old < n"
    using assms(2) by (auto simp: isDeferrableResize_def split: ResizeOperation.splits option.splits InodeBody.splits)
  from table_invD(3) [OF vfs_invD(1) [OF assms(1)] i(2)] i(3)
  have "extentCountForSize old (extentSize st) = Inr (int (length xs))" by (simp add: inode_ok_def)
  with i that show thesis by blast
qed

lemma extentCount_mono:
  assumes "extentCountForSize n ext = Inr c" "extentCountForSize n' ext = Inr c'" "n \<le> n'" "extent_size_ok ext"
  shows "c \<le> c'"
proof (rule ccontr)
  note e = extentCount_Inr [OF assms(1,4)] and e' = extentCount_Inr [OF assms(2,4)]
  assume "\<not> c \<le> c'"
  then have "c' * ext \<le> (c - 1) * ext" using extent_size_pos [OF assms(4)] by (intro mult_right_mono) auto
  with e(4) e'(1,5) assms(3) \<open>\<not> c \<le> c'\<close> show False by auto
qed

text \<open>What a growing resize does, and that nothing else decides it.\<close>

lemma growing_applies:
  assumes inv: "vfs_inv st" and def: "isDeferrableResize (ResizeFile operation k n runs m t) st"
    and run: "applyTxn st (ResizeFile operation k n runs m t) None = (None, st')"
  obtains inode old xs es c where "imap st k = Some inode" "body inode = File old xs" "old < n"
    "extentCountForSize n (extentSize st) = Inr c" "int (length xs) \<le> c" "u64 n" "u64 m" "u64 t"
    "validateExtentAssignment st runs (c - int (length xs)) = Inr es"
    "st' = (touch k (\<lambda>i. i\<lparr>body := File n (xs @ es), mtimeMs := m, ctimeMs := t\<rparr>)
      (st\<lparr>allocator := fold (ownExtent k) es (allocator st)\<rparr>))\<lparr>basePayloadBytes := base_bytes st'\<rparr>"
proof -
  obtain inode old xs where i: "imap st k = Some inode" "body inode = File old xs" "old < n"
    "extentCountForSize old (extentSize st) = Inr (int (length xs))"
    by (rule deferrable_grows [OF inv def])
  obtain projected s where s: "reduceTxn st (ResizeFile operation k n runs m t) = (None, s)" "st' = s\<lparr>basePayloadBytes := projected\<rparr>"
    using run by (auto simp: applyTxn_None)
  then have app: "applyResizeFile st k n runs m t = Inr s" by (simp add: reduceTxn_def liftReducer_eq)
  then obtain c where c: "extentCountForSize n (extentSize st) = Inr c"
    by (auto simp: applyResizeFile_def res_simps)
  note t = vfs_invD(1) [OF inv]
  have le: "int (length xs) \<le> c" using extentCount_mono [OF i(4) c _ table_invD(5) [OF t]] i(3) by simp
  have "basePayloadBytes st' = base_bytes st'" using vfs_invD(5) [OF applyTxn_inv [OF inv run]] by (simp add: bytes_inv_def)
  with s(2) have st': "st' = s\<lparr>basePayloadBytes := base_bytes st'\<rparr>" by simp
  obtain es where es: "u64 n" "u64 m" "u64 t" "validateExtentAssignment st runs (c - int (length xs)) = Inr es"
    "s = touch k (\<lambda>i. i\<lparr>body := File n (xs @ es), mtimeMs := m, ctimeMs := t\<rparr>)
      (st\<lparr>allocator := fold (ownExtent k) es (allocator st)\<rparr>)"
    using app unfolding applyResizeFile_grow [OF t i(1,2) c le] by blast
  from st' es(5) have "st' = (touch k (\<lambda>i. i\<lparr>body := File n (xs @ es), mtimeMs := m, ctimeMs := t\<rparr>)
      (st\<lparr>allocator := fold (ownExtent k) es (allocator st)\<rparr>))\<lparr>basePayloadBytes := base_bytes st'\<rparr>" by simp
  from that [OF i(1-3) c le es(1-4) this] show thesis .
qed

lemma touch_twice:
  "(touch k g (((touch k f (st\<lparr>allocator := a\<rparr>))\<lparr>basePayloadBytes := b\<rparr>)\<lparr>allocator := a'\<rparr>))\<lparr>basePayloadBytes := b'\<rparr>
     = (touch k (g \<circ> f) (st\<lparr>allocator := a'\<rparr>))\<lparr>basePayloadBytes := b'\<rparr>"
proof -
  have "alter k g (alter k f ys) = alter k (g \<circ> f) ys" for ys
    by (induction ys) (auto simp: alter_def)
  then show ?thesis by (simp add: touch_def)
qed

theorem merged_resize_applies:
  assumes inv: "vfs_inv st"
    and one: "isDeferrableResize r1 st" "applyTxn st r1 None = (None, live)"
    and two: "isDeferrableResize r2 live" "applyTxn live r2 None = (None, final)"
    and same: "r1 = ResizeFile op1 k n1 runs1 m1 t1" "r2 = ResizeFile op2 k n2 runs2 m2 t2"
    and small: "\<forall>r\<in>set (runs1 @ runs2). runCount r \<le> MAX_RUN"
    and fits: "txnFrameBytes (mergedResize r1 r2) = Inr n"
  shows "applyTxn st (mergedResize r1 r2) None = (None, final)" "isDeferrableResize (mergedResize r1 r2) st"
    "\<forall>q\<in>set (mergeExtentRuns runs1 runs2). run_short q"
    "(\<Sum>q\<leftarrow>mergeExtentRuns runs1 runs2. runCount q) \<le> MAX_EXTENTS_PER_INODE"
proof -
  have live: "vfs_inv live" by (rule applyTxn_inv [OF inv one(2)])
  have final: "vfs_inv final" by (rule applyTxn_inv [OF live two(2)])
  obtain inode old xs es1 c1 where a: "imap st k = Some inode" "body inode = File old xs" "old < n1"
    "extentCountForSize n1 (extentSize st) = Inr c1" "int (length xs) \<le> c1" "u64 n1" "u64 m1" "u64 t1"
    "validateExtentAssignment st runs1 (c1 - int (length xs)) = Inr es1"
    "live = (touch k (\<lambda>i. i\<lparr>body := File n1 (xs @ es1), mtimeMs := m1, ctimeMs := t1\<rparr>)
      (st\<lparr>allocator := fold (ownExtent k) es1 (allocator st)\<rparr>))\<lparr>basePayloadBytes := base_bytes live\<rparr>"
    by (rule growing_applies [OF inv one [unfolded same(1)]])
  obtain inode' old' xs' es2 c2 where b: "imap live k = Some inode'" "body inode' = File old' xs'" "old' < n2"
    "extentCountForSize n2 (extentSize live) = Inr c2" "int (length xs') \<le> c2" "u64 n2" "u64 m2" "u64 t2"
    "validateExtentAssignment live runs2 (c2 - int (length xs')) = Inr es2"
    "final = (touch k (\<lambda>i. i\<lparr>body := File n2 (xs' @ es2), mtimeMs := m2, ctimeMs := t2\<rparr>)
      (live\<lparr>allocator := fold (ownExtent k) es2 (allocator live)\<rparr>))\<lparr>basePayloadBytes := base_bytes final\<rparr>"
    by (rule growing_applies [OF live two [unfolded same(2)]])
  define live1 where "live1 = touch k (\<lambda>i. i\<lparr>body := File n1 (xs @ es1), mtimeMs := m1, ctimeMs := t1\<rparr>)
      (st\<lparr>allocator := fold (ownExtent k) es1 (allocator st)\<rparr>)"
  have live1: "live = live1\<lparr>basePayloadBytes := base_bytes live\<rparr>" using a(10) by (simp only: live1_def)
  have fields: "imap live = imap live1" "extentSize live = extentSize st" "allocator live = fold (ownExtent k) es1 (allocator st)"
    by (subst live1, simp add: live1_def update_simps)+
  have inode': "inode' = inode\<lparr>body := File n1 (xs @ es1), mtimeMs := m1, ctimeMs := t1\<rparr>"
    using b(1) a(1) by (simp add: fields live1_def update_simps)
  then have old': "old' = n1" "xs' = xs @ es1" using b(2) by simp_all
  let ?A = "allocator st" and ?xs = "extentSize st"
  note al = vfs_invD(3) [OF inv]
  note v1 = validateExtentAssignment_Inr [OF a(9) alloc_invD(1) [OF al]]
  note v2 = validateExtentAssignment_Inr [OF b(9) alloc_invD(1) [OF vfs_invD(3) [OF live]]]
  have asg: "assignable ?A (es1 @ es2)"
    using assignable_append [OF al v1(1)] v2(1) fields(3) by simp
  have own: "alloc_inv (fold (ownExtent k) es1 ?A) ((file_extents st)(k := file_extents st k @ es1))"
    by (rule ownExtents_inv [OF al v1(1)])
  have "e \<notin> set es1" if "e \<in> set es2" for e
  proof
    assume "e \<in> set es1"
    then have "map_of (ownedBy (allocator live)) e = Some k"
      using alloc_invD(4) [OF own, of e k] fields(3) by simp
    moreover have "map_of (ownedBy (allocator live)) e = None"
      using assignable_source [OF v2(1) alloc_invD(1) [OF vfs_invD(3) [OF live]] that]
        alloc_invD(6) [OF vfs_invD(3) [OF live], of e] alloc_inv_range [OF vfs_invD(3) [OF live], of e] by auto
    ultimately show False by simp
  qed
  then have dis: "distinct (es1 @ es2)" using v1(2) v2(2) by auto
  have c2: "extentCountForSize n2 ?xs = Inr c2" using b(4) fields(2) by simp
  note bound = extentCount_Inr [OF c2 table_invD(5) [OF vfs_invD(1) [OF inv]]]
  have len: "int (length (es1 @ es2)) = c2 - int (length xs)" using v1(3) v2(3) old'(2) by simp
  then have short: "int (length (es1 @ es2)) \<le> MAX_EXTENTS_PER_INODE" using bound(2) by simp
  note m = merged_expands [OF v1(4) v2(4) short small]
  show runs: "\<forall>q\<in>set (mergeExtentRuns runs1 runs2). run_short q" by (rule m(2))
  have "es1 @ es2 = flat (mergeExtentRuns runs1 runs2)" using m(1) by (simp add: expandExtentRuns_Inr)
  moreover have "\<forall>r\<in>set (mergeExtentRuns runs1 runs2). 0 \<le> runCount r" using m(2) by (auto simp: run_short_def run_ok_def)
  ultimately show "(\<Sum>q\<leftarrow>mergeExtentRuns runs1 runs2. runCount q) \<le> MAX_EXTENTS_PER_INODE"
    using short length_flat by metis
  have "\<forall>e\<in>extents_of (available ?A). e < totalExtents ?A" using alloc_inv_range [OF al] by blast
  from assignable_checked [OF asg alloc_invD(1) [OF al] alloc_invD(1) [OF al] order_refl order_refl this]
  have valid: "validateExtentAssignment st (mergeExtentRuns runs1 runs2) (c2 - int (length xs)) = Inr (es1 @ es2)"
    using m(1) dis len by (auto simp: validateExtentAssignment_def not_less)
  let ?s = "touch k (\<lambda>i. i\<lparr>body := File n2 (xs @ es1 @ es2), mtimeMs := m2, ctimeMs := t2\<rparr>)
      (st\<lparr>allocator := fold (ownExtent k) (es1 @ es2) ?A\<rparr>)"
  have le: "int (length xs) \<le> c2" using b(5) old'(2) by simp
  have app: "applyResizeFile st k n2 (mergeExtentRuns runs1 runs2) m2 t2 = Inr ?s"
    unfolding applyResizeFile_grow [OF vfs_invD(1) [OF inv] a(1,2) c2 le] using b(6-8) valid by blast
  have mr: "mergedResize r1 r2 = ResizeFile op2 k n2 (mergeExtentRuns runs1 runs2) m2 t2" by (simp add: mergedResize_def same)
  have "op2 = WriteOp" using two(1) same(2) by (auto simp: isDeferrableResize_def split: ResizeOperation.splits)
  then show "isDeferrableResize (mergedResize r1 r2) st"
    using a(1-3) b(3) old'(1) by (simp add: mr isDeferrableResize_def)
  have red: "reduceTxn st (mergedResize r1 r2) = (None, ?s)" unfolding mr by (simp add: reduceTxn_def liftReducer_def app)
  have core: "core_inv st" using inv by (simp add: vfs_inv_core)
  have delta: "projectedBaseDelta st (mergedResize r1 r2) = Inr (base_bytes ?s - base_bytes st)"
    by (rule reducesD(2) [OF reduceTxn_reduces [OF core red]])
  have eq: "final = ?s\<lparr>basePayloadBytes := base_bytes final\<rparr>"
  proof -
    define lb where "lb = base_bytes live"
    define fb where "fb = base_bytes final"
    have l: "live = live1\<lparr>basePayloadBytes := lb\<rparr>" using live1 by (simp only: lb_def)
    have "final = (touch k (\<lambda>i. i\<lparr>body := File n2 (xs @ es1 @ es2), mtimeMs := m2, ctimeMs := t2\<rparr>)
        (live\<lparr>allocator := fold (ownExtent k) es2 (fold (ownExtent k) es1 ?A)\<rparr>))\<lparr>basePayloadBytes := fb\<rparr>"
      using b(10) by (simp only: fb_def old'(2) fields(3) append_assoc)
    also have "\<dots> = ?s\<lparr>basePayloadBytes := fb\<rparr>"
      unfolding l live1_def by (simp add: touch_twice comp_def)
    finally show ?thesis by (simp only: fb_def)
  qed
  then have "base_bytes final = base_bytes ?s" by (metis base_bytes_bytes)
  moreover have "basePayloadBytes st = base_bytes st" "base_bytes final \<le> MAX_METADATA_BASE_WRITER_BYTES"
    using vfs_invD(5) [OF inv] vfs_invD(5) [OF final] by (simp_all add: bytes_inv_def)
  moreover have "0 \<le> base_bytes final" using vfs_invD(5) [OF final] two(2) by (auto simp: applyTxn_None preflight_Inr bytes_inv_def)
  moreover obtain payload where "estimateTxnPayloadBytes (mergedResize r1 r2) = Inr payload" "payload \<le> MAX_FRAME_PAYLOAD_BYTES"
    using fits by (auto simp: txnFrameBytes_def ebind_eq_Inr split: if_splits)
  ultimately have "preflightTxn st (mergedResize r1 r2) defaultLimits = Inr (base_bytes final)"
    using delta by (auto simp: preflight_Inr defaultLimits_def isSafeInteger_def limit_defs)
  from applyTxn_ok [OF this red] eq show "applyTxn st (mergedResize r1 r2) None = (None, final)" by simp
qed


text \<open>
  Committing a record of any kind keeps the engine and its files in step: one that goes to the log at once,
  a growing write that is held back, and one that replaces the write held back before it.
\<close>

section \<open>Preflight\<close>

lemma replaced_deferrable:
  assumes "pendingReplacedBy txn vfs = Some p"
  obtains operation k n runs m t op' n' runs' m' t' where "isDeferrableResize txn (vfsState vfs)" "pendingResizeCommit vfs = Some p"
    "txn = ResizeFile operation k n runs m t" "pendingRecord p = ResizeFile op' k n' runs' m' t'"
  using assms by (auto simp: pendingReplacedBy_def split: if_splits option.splits TxnRecord.splits)

lemma preflight_replacing:
  assumes "preflightCommit txn vfs = Inr prepared" and "pendingReplacedBy txn vfs = Some p"
  shows "materializedRecord prepared = mergedResize (pendingRecord p) txn" "replacesPendingResize prepared"
    "txnFrameBytes (mergedResize (pendingRecord p) txn) = Inr (commitFrameBytes prepared)"
    "activeLogBytes (vfsStore vfs) - pendingFrameBytes p + commitFrameBytes prepared \<le> MAX_ACTIVE_LOG_BYTES"
proof -
  have "isDeferrableResize txn (vfsState vfs)" using assms(2) by (auto simp: pendingReplacedBy_def split: if_splits)
  with assms show "materializedRecord prepared = mergedResize (pendingRecord p) txn" "replacesPendingResize prepared"
    "txnFrameBytes (mergedResize (pendingRecord p) txn) = Inr (commitFrameBytes prepared)"
    "activeLogBytes (vfsStore vfs) - pendingFrameBytes p + commitFrameBytes prepared \<le> MAX_ACTIVE_LOG_BYTES"
    by (auto simp: preflightCommit_def ebind_eq_Inr Let_def split: if_splits)
qed

text \<open>A preflight depends on the state, the log and what is held back, not on the arena.\<close>

lemma preflight_cong:
  "vfsStatus vfs' = vfsStatus vfs \<Longrightarrow> vfsState vfs' = vfsState vfs \<Longrightarrow> pendingResizeCommit vfs' = pendingResizeCommit vfs \<Longrightarrow>
     nextSequence (vfsStore vfs') = nextSequence (vfsStore vfs) \<Longrightarrow> activeLogBytes (vfsStore vfs') = activeLogBytes (vfsStore vfs) \<Longrightarrow>
     activeLogFrames (vfsStore vfs') = activeLogFrames (vfsStore vfs) \<Longrightarrow> preflightCommit txn vfs' = preflightCommit txn vfs"
  unfolding preflightCommit_def checkOpen_def pendingReplacedBy_def by (simp only:)

lemma record_fits_resize:
  "record_fits (ResizeFile operation k n runs m t) \<Longrightarrow> \<forall>r\<in>set runs. runCount r \<le> MAX_RUN"
  by (auto simp: record_fits_def runs_fit_def run_fits_def fits_def MAX_RUN_def)

lemma record_fits_merged:
  assumes "record_fits (ResizeFile operation k n runs m t)" "\<forall>q\<in>set runs'. run_short q"
    "(\<Sum>q\<leftarrow>runs'. runCount q) \<le> MAX_EXTENTS_PER_INODE"
  shows "record_fits (ResizeFile operation k n runs' m t)"
proof -
  have "run_fits q \<and> runCount q \<noteq> 0" if "q \<in> set runs'" for q
    using assms(2) that by (auto simp: run_short_def run_ok_def run_fits_def fits_def MAX_RUN_def MAX_U64_def)
  with assms(1,3) show ?thesis by (simp add: record_fits_def runs_fit_def)
qed

lemma resize_record [simp]: "isResizeRecord (mergedResize r (ResizeFile operation k n runs m t))"
  by (auto simp: mergedResize_def isResizeRecord_def split: TxnRecord.split)

context store_host
begin

section \<open>A write that is held back\<close>

lemma deferred_image:
  assumes e: "engine_image v vfs selected other st txns logged"
    and pre: "preflightCommit txn vfs = Inr prepared" "record_fits txn" "isDeferrableResize txn (vfsState vfs)"
      "pendingReplacedBy txn vfs = None"
    and step: "applyTxn (vfsState vfs) txn None = (None, state)" "paths_ok state"
  shows "\<exists>v' vfs' txns'. runs (v, vfs) (commitPrepared ops txn prepared) (Inr ()) (v', vfs')
    \<and> engine_image v' vfs' selected other st txns' (vfsState vfs) \<and> vfsState vfs' = state \<and> same_engine vfs vfs'
    \<and> same_arena v v' \<and> pendingResizeCommit vfs' \<noteq> None"
proof -
  note live = engine_image_live [OF e]
  have u: "u64 (generation (vfsState vfs))" "u64 (nextSequence (vfsStore vfs))"
    using vfs_invD(4) [OF live(1)] e by (auto simp: gen_inv_def u64_def engine_image_def log_counts_def MAX_U64_def
        MAX_ACTIVE_LOG_FRAMES_def split: option.splits)
  note p = preflight_now [OF pre(1,4,2) u]
  obtain v1 vfs1 txns1 where one: "runs (v, vfs) (materializePendingResize ops) (Inr ()) (v1, vfs1)"
    "engine_image v1 vfs1 selected other st txns1 (vfsState vfs)" "pendingResizeCommit vfs1 = None"
    "vfsState vfs1 = vfsState vfs" "same_engine vfs vfs1"
    "nextSequence (vfsStore vfs1) = nextSequence (vfsStore vfs)"
    "activeLogFrames (vfsStore vfs1) = activeLogFrames (vfsStore vfs)"
    "activeLogBytes (vfsStore vfs1) = activeLogBytes (vfsStore vfs)" "same_arena v v1"
    using materialize_image [OF e] by blast
  note d1 = engine_imageD [OF one(2)]
  have counts: "log_counts (vfsStore vfs1) (int (length txns1)) (int (length (logOf (generation st) 1 txns1)))"
    using one(2,3) by (simp add: engine_image_def)
  have apply1: "applyTxn (vfsState vfs1) txn (Some (commitProjection prepared)) = (None, state)"
    using prepared_applies [OF preflight_projection [OF pre(1)]] step(1) one(4) by simp
  obtain operation k n rs m t where txn: "txn = ResizeFile operation k n rs m t"
    using pre(3) by (auto simp: isDeferrableResize_def split: TxnRecord.splits)
  let ?e = "scheduleRepack (countFrame (commitFrameBytes prepared)
     (withPending prepared (nextSequence (vfsStore vfs1)) (withState state vfs1)))"
  have run: "runs (v, vfs) (commitPrepared ops txn prepared) (Inr ()) (v1, ?e)"
    unfolding commitPrepared_def
    using p(1,2,3) pre(3) steps_bind [OF one(1) deferred_runs [OF apply1]] by (simp add: txn isResizeRecord_def)
  have held: "held_back (vfsState vfs) state (1 + int (length txns1)) \<lparr>pendingRecord = txn,
      pendingFrameBytes = commitFrameBytes prepared, pendingSequence = nextSequence (vfsStore vfs1)\<rparr>"
    using pre(3) p(4,5) counts one(6) live(2) step(1) by (simp add: held_back_def log_counts_def)
  have "engine_image v1 ?e selected other st txns1 (vfsState vfs)"
    using d1 step(2) counts held p(1,7,8) one(6,7,8)
    by (auto simp: engine_image_def withPending_def log_counts_def)
  moreover have "same_engine vfs ?e" "pendingResizeCommit ?e \<noteq> None" using one(5) by (simp_all add: same_engine_def withPending_def)
  ultimately show ?thesis using run one(9)
    by - (rule exI [of _ v1], rule exI [of _ ?e], rule exI [of _ txns1], simp)
qed

text \<open>One that replaces the write held back before it: the log still lacks exactly one record.\<close>

lemma replacing_image:
  assumes e: "engine_image v vfs selected other st txns logged"
    and pre: "preflightCommit txn vfs = Inr prepared" "record_fits txn" "pendingReplacedBy txn vfs = Some p"
    and step: "applyTxn (vfsState vfs) txn None = (None, state)" "paths_ok state"
  shows "\<exists>vfs'. runs (v, vfs) (commitPrepared ops txn prepared) (Inr ()) (v, vfs')
    \<and> engine_image v vfs' selected other st txns logged \<and> vfsState vfs' = state \<and> same_engine vfs vfs'
    \<and> pendingResizeCommit vfs' \<noteq> None"
proof -
  note live = engine_image_live [OF e] and d = engine_imageD [OF e]
  note b = image_base [OF d(3)]
  note p = preflight_replacing [OF pre(1,3)]
  obtain operation k n rs m t op' n' rs' m' t' where r: "isDeferrableResize txn (vfsState vfs)" "pendingResizeCommit vfs = Some p"
    "txn = ResizeFile operation k n rs m t" "pendingRecord p = ResizeFile op' k n' rs' m' t'"
    by (rule replaced_deferrable [OF pre(3)])
  have pend: "held_back logged (vfsState vfs) (1 + int (length txns)) p"
    "log_counts (vfsStore vfs) (1 + int (length txns)) (int (length (logOf (generation st) 1 txns)) + pendingFrameBytes p)"
    using e r(2) by (simp_all add: engine_image_def)
  then have h: "isDeferrableResize (pendingRecord p) logged" "pendingSequence p = 1 + int (length txns)"
    "frame_fits (logFrame (generation logged) (1 + int (length txns)) (pendingRecord p))"
    "applyTxn logged (pendingRecord p) None = (None, vfsState vfs)"
    by (simp_all add: held_back_def)
  have "record_fits (pendingRecord p)" using h(3) by (simp add: frame_fits_def logFrame_def)
  then have small: "\<forall>r\<in>set (rs' @ rs). runCount r \<le> MAX_RUN"
    using record_fits_resize pre(2) r(3,4) by auto
  note merged = merged_resize_applies [OF b(1) h(1,4) r(1) step(1) r(4,3) small p(3)]
  let ?merged = "mergedResize (pendingRecord p) txn"
  have m: "?merged = ResizeFile operation k n (mergeExtentRuns rs' rs) m t" by (simp add: mergedResize_def r(3,4))
  have fits: "record_fits ?merged" unfolding m
    by (rule record_fits_merged [OF _ merged(3,4)]) (use pre(2) r(3) in simp)
  have len: "commitFrameBytes prepared = 48 + int (length (encRecord ?merged))" "int (length (encRecord ?merged)) \<le> MAX_FRAME_PAYLOAD_BYTES"
    using p(3) estimate_length [OF fits] by (auto simp: txnFrameBytes_def TXN_FRAME_HEADER_BYTES_def split: if_splits)
  let ?f = "logFrame (generation logged) (1 + int (length txns)) ?merged"
  have f: "frame_fits ?f" using h(3) fits len(2) by (simp add: frame_fits_def logFrame_def)
  have fl: "commitFrameBytes prepared = int (length (encFrame ?f))" using len(1) by (simp add: length_encFrame logFrame_def)
  let ?p = "\<lparr>pendingRecord = ?merged, pendingFrameBytes = commitFrameBytes prepared, pendingSequence = pendingSequence p\<rparr>"
  have held: "held_back logged state (1 + int (length txns)) ?p"
    using merged(1,2) h(2) f fl by (simp add: held_back_def)
  have apply1: "applyTxn (vfsState vfs) txn (Some (commitProjection prepared)) = (None, state)"
    using prepared_applies [OF preflight_projection [OF pre(1)]] step(1) by simp
  have isr: "isResizeRecord (materializedRecord prepared)" unfolding p(1) r(3) by simp
  let ?e = "scheduleRepack (withPending prepared (pendingSequence p)
     (onStore (\<lambda>s. s\<lparr>activeLogBytes := activeLogBytes s + (commitFrameBytes prepared - pendingFrameBytes p)\<rparr>)
       (withState state vfs)))"
  have run: "runs (v, vfs) (commitPrepared ops txn prepared) (Inr ()) (v, ?e)"
    unfolding commitPrepared_def using p(2) by (simp add: replacing_runs [OF r(2) isr apply1])
  have "engine_image v ?e selected other st txns logged"
    using d step(2) pend(2) held p(1,4)
    by (auto simp: engine_image_def withPending_def log_counts_def onStore_def)
  moreover have "same_engine vfs ?e" by (simp add: same_engine_def withPending_def onStore_def)
  moreover have "vfsState ?e = state" by (simp add: withPending_def onStore_def)
  moreover have "pendingResizeCommit ?e \<noteq> None" by (simp add: withPending_def)
  ultimately show ?thesis using run by blast
qed

section \<open>Any commit\<close>

lemma commit_image:
  assumes e: "engine_image v vfs selected other st txns logged"
    and pre: "preflightCommit txn vfs = Inr prepared" "record_fits txn"
    and step: "applyTxn (vfsState vfs) txn None = (None, state)" "paths_ok state"
    and given: "po = None \<or> po = Some prepared"
  shows "\<exists>v' vfs' txns' logged'. runs (v, vfs) (commit ops txn po) (Inr ()) (v', vfs')
    \<and> engine_image v' vfs' selected other st txns' logged' \<and> vfsState vfs' = state \<and> same_engine vfs vfs'
    \<and> same_arena v v' \<and> (isDeferrableResize txn (vfsState vfs) \<longrightarrow> pendingResizeCommit vfs' \<noteq> None)"
proof -
  note live = engine_image_live [OF e]
  have same: "runs (v, vfs) (commit ops txn po) r ve" if "runs (v, vfs) (commitPrepared ops txn prepared) r ve" for r ve
    unfolding commit_def assertHealthy_def
    using given that
    by (intro steps_asksRes [where f = checkOpen, OF live(7)])
      (auto intro: steps_asksRes [where f = "preflightCommit txn", OF pre(1)])
  show ?thesis
  proof (cases "isDeferrableResize txn (vfsState vfs)")
    case True
    show ?thesis
    proof (cases "pendingReplacedBy txn vfs")
      case None
      from deferred_image [OF e pre True None step] same show ?thesis by blast
    next
      case (Some p)
      have "same_arena v v" by (simp add: same_arena_def)
      with replacing_image [OF e pre Some step] same show ?thesis by blast
    qed
  next
    case False
    have eq: "commit ops txn po (w, vfs) = commit ops txn None (w, vfs)" for w
      using given live(7) pre(1) by (auto simp: commit_def assertHealthy_def engine_binds iobind_run)
    obtain v' vfs' txns' where n: "runs (v, vfs) (commit ops txn None) (Inr ()) (v', vfs')"
      "engine_image v' vfs' selected other st txns' state" "vfsState vfs' = state" "same_engine vfs vfs'" "same_arena v v'"
      using now_image [OF e pre False step] by blast
    have "runs (v, vfs) (commit ops txn po) (Inr ()) (v', vfs')"
      using n(1) eq unfolding steps_def withEngine_def by simp
    with n False show ?thesis by blast
  qed
qed

end

end
