(* ===== verification/EngineData.thy ===== *)
theory EngineData
  imports ArenaPrepare EngineResizes
begin

text \<open>
  The data of the files of an open store. The abstract state is one byte list per file; the engine keeps
  it in the extents of the arena. What the engine and its arena agree on, what follows for each file, and
  that the arena of an engine can change without changing what its metadata files say.
\<close>

section \<open>The extents of one file\<close>

text \<open>A size and extents within an arena of so many extents.\<close>

definition extents_ok :: "VfsState \<Rightarrow> int \<Rightarrow> int list \<Rightarrow> bool" where
  "extents_ok st n xs \<longleftrightarrow> distinct xs \<and> int (length xs) \<le> MAX_EXTENTS_PER_INODE
     \<and> (\<forall>e\<in>set xs. 0 \<le> e \<and> e < totalExtents (allocator st))
     \<and> 0 \<le> n \<and> n \<le> int (length xs) * extentSize st"

definition fileState :: "VfsState \<Rightarrow> int \<Rightarrow> (int \<times> int list) option" where
  "fileState st k = (case imap st k of
     Some inode \<Rightarrow> (case body inode of File n xs \<Rightarrow> Some (n, xs) | _ \<Rightarrow> None)
   | None \<Rightarrow> None)"

lemma fileState_Some: "fileState st k = Some (n, xs) \<longleftrightarrow> (\<exists>inode. imap st k = Some inode \<and> body inode = File n xs)"
  by (auto simp: fileState_def split: option.split InodeBody.split)

lemma linkedFile_Inr:
  "linkedFile k vfs = Inr (inode, n, xs) \<longleftrightarrow> imap (vfsState vfs) k = Some inode \<and> body inode = File n xs"
  by (auto simp: linkedFile_def split: option.split InodeBody.split)

lemma linkedFile_state: "linkedFile k vfs = Inr (inode, n, xs) \<Longrightarrow> fileState (vfsState vfs) k = Some (n, xs)"
  by (auto simp: linkedFile_Inr fileState_Some)

lemma fileState_owned:
  assumes "vfs_inv st" "fileState st k = Some (n, xs)"
  shows "e \<in> set xs \<longleftrightarrow> map_of (ownedBy (allocator st)) e = Some k"
proof -
  obtain inode where i: "imap st k = Some inode" "body inode = File n xs" using assms(2) by (auto simp: fileState_Some)
  have "file_extents st k = xs" using i by (simp add: file_extents_def fileExtents_body(3) [OF i(2)])
  then show ?thesis using alloc_invD(4) [OF vfs_invD(3) [OF assms(1)], of e k] by simp
qed

lemma file_extents_ok:
  assumes "vfs_inv st" "fileState st k = Some (n, xs)"
  shows "extents_ok st n xs"
proof -
  obtain inode where i: "imap st k = Some inode" "body inode = File n xs" using assms(2) by (auto simp: fileState_Some)
  have fe: "file_extents st k = xs" using i by (simp add: file_extents_def fileExtents_body(3) [OF i(2)])
  note a = vfs_invD(3) [OF assms(1)] and t = vfs_invD(1) [OF assms(1)]
  have "extentCountForSize n (extentSize st) = Inr (int (length xs))"
    using table_invD(3) [OF t i(1)] i(2) by (simp add: inode_ok_def)
  note c = extentCount_Inr [OF this table_invD(5) [OF t]]
  moreover have "distinct xs" using alloc_invD(5) [OF a, of k] fe by simp
  moreover have "0 \<le> e \<and> e < totalExtents (allocator st)" if "e \<in> set xs" for e
    using fileState_owned [OF assms] that alloc_inv_range [OF a, of e] by auto
  ultimately show ?thesis using c by (simp add: extents_ok_def u64_def)
qed

lemma extents_ok_addressable:
  assumes "vfs_inv st" "extents_ok st n xs"
  shows "addressable (extentSize st) xs"
proof -
  have "totalExtents (allocator st) \<le> MAX_TOTAL_EXTENTS" using alloc_invD(10) [OF vfs_invD(3) [OF assms(1)]] .
  then show ?thesis using assms(2) table_invD(5) [OF vfs_invD(1) [OF assms(1)]]
    by (auto simp: addressable_def extents_ok_def)
qed

text \<open>An arena as long as its extents need holds every file.\<close>

lemma extents_span:
  assumes "0 < ext" "\<forall>e\<in>set xs. 0 \<le> e \<and> e < t" "ARENA_HEADER_BYTES + t * ext \<le> int (length arena)"
  shows "spans arena ext xs"
  unfolding spans_def
proof (intro conjI ballI)
  fix e assume "e \<in> set xs"
  then have e: "0 \<le> e" "e + 1 \<le> t" using assms(2) by auto
  then show "0 \<le> e" by simp
  have "(e + 1) * ext \<le> t * ext" using e assms(1) by (intro mult_right_mono) auto
  with assms(3) show "ARENA_HEADER_BYTES + (e + 1) * ext \<le> int (length arena)" by simp
qed (rule assms(1))

section \<open>A planned growth\<close>

lemma resize_plan_fits:
  assumes inv: "vfs_inv st" and k: "imap st (inodeId inode) = Some inode"
    and plan: "planResizeFileForInode st inode stop now operation = Inr txn"
  shows "record_fits txn"
proof -
  note a = vfs_invD(3) [OF inv] and t = vfs_invD(1) [OF inv]
  obtain m chosen rs where p: "u64 stop" "u64 now" "chooseExtents st m = Inr chosen" "toExtentRuns chosen = Inr rs"
    "txn = ResizeFile operation (inodeId inode) stop rs now now"
    using plan unfolding planResizeFileForInode_def
    by (auto simp: res_simps Let_def checkedPlan_Inr validateTimestamp_Inr split: if_splits)
  note flat = toExtentRuns_flat [OF p(4)]
  have runs: "run_fits q \<and> runCount q \<noteq> 0 \<and> 0 \<le> runCount q" if "q \<in> set rs" for q
    using flat(2,3) that by (auto simp: run_ok_def run_fits_def fits_def MAX_RUN_def MAX_U64_def)
  then have "(\<Sum>q\<leftarrow>rs. runCount q) = int (length chosen)" using length_flat [of rs] flat(1) by simp
  with runs have "runs_fit rs" using chooseExtents_Inr(3,4) [OF p(3) a] by (simp add: runs_fit_def)
  moreover have "u64 (inodeId inode)"
    using table_invD(3) [OF t k] table_invD(6) [OF t] by (auto simp: inode_ok_def u64_def)
  ultimately show ?thesis using p(1,2) by (simp add: record_fits_def p(5) u64_fits)
qed

lemma grown_file:
  assumes inv: "vfs_inv st" and k: "imap st k = Some inode" "body inode = File n xs"
    and plan: "planResizeFileForInode st inode stop now WriteOp = Inr txn" and more: "n < stop"
    and run: "applyTxn st txn None = (None, st')"
  obtains es where "plannedExtents txn = Inr es" "plannedSize txn = stop" "record_fits txn" "isDeferrableResize txn st"
    "assignable (allocator st) es" "distinct es" "extents_ok st' stop (xs @ es)"
    "fileState st' = (fileState st)(k := Some (stop, xs @ es))" "extentSize st' = extentSize st"
    "totalExtents (allocator st') = newTotal (allocator st) es"
    "\<And>e. e \<in> set es \<Longrightarrow> map_of (ownedBy (allocator st)) e = None \<and> map_of (quarantine (allocator st)) e = None"
proof -
  have id: "inodeId inode = k" by (rule inode_id [OF vfs_invD(1) [OF inv] k(1)])
  obtain runs s where sh: "txn = ResizeFile WriteOp k stop runs now now"
    by (rule planResizeFileForInode_shape [OF inv plan k(2)]) (simp add: id)
  have held: "isDeferrableResize txn st" using k more by (simp add: sh isDeferrableResize_def)
  note gr = this [unfolded sh] run [unfolded sh]
  obtain inode' old xs' es c where g: "imap st k = Some inode'" "body inode' = File old xs'"
    "extentCountForSize stop (extentSize st) = Inr c" "int (length xs') \<le> c" "u64 stop" "u64 now"
    "validateExtentAssignment st runs (c - int (length xs')) = Inr es"
    "st' = (touch k (\<lambda>i. i\<lparr>body := File stop (xs' @ es), mtimeMs := now, ctimeMs := now\<rparr>)
      (st\<lparr>allocator := fold (ownExtent k) es (allocator st)\<rparr>))\<lparr>basePayloadBytes := base_bytes st'\<rparr>"
    by (rule growing_applies [OF inv gr])
  have same: "inode' = inode" "old = n" "xs' = xs" using g(1,2) k by simp_all
  note a = vfs_invD(3) [OF inv] and t = vfs_invD(1) [OF inv]
  note v = validateExtentAssignment_Inr [OF g(7) alloc_invD(1) [OF a]]
  have st': "imap st' = (imap st)(k := Some (inode\<lparr>body := File stop (xs @ es), mtimeMs := now, ctimeMs := now\<rparr>))"
    "extentSize st' = extentSize st" "allocator st' = fold (ownExtent k) es (allocator st)"
    by (subst g(8), use k(1) in \<open>auto simp: update_simps same fun_eq_iff\<close>)+
  have fs: "fileState st' = (fileState st)(k := Some (stop, xs @ es))"
    by (auto simp: fileState_def st' fun_eq_iff)
  show thesis
  proof (rule that)
    show "plannedExtents txn = Inr es" using v(4) by (simp add: plannedExtents_def plannedRuns_def sh)
    show "plannedSize txn = stop" by (simp add: plannedSize_def sh)
    show "isDeferrableResize txn st" by (rule held)
    show "assignable (allocator st) es" "distinct es" by (rule v)+
    show "fileState st' = (fileState st)(k := Some (stop, xs @ es))" by (rule fs)
    show "extents_ok st' stop (xs @ es)"
      by (rule file_extents_ok [OF applyTxn_inv [OF inv run], of k]) (simp add: fs)
    show "totalExtents (allocator st') = newTotal (allocator st) es" by (simp add: st' owned_total)
    show "map_of (ownedBy (allocator st)) e = None \<and> map_of (quarantine (allocator st)) e = None" if "e \<in> set es" for e
      using assignable_source [OF v(1) alloc_invD(1) [OF a] that] alloc_invD(6) [OF a, of e] alloc_inv_range [OF a, of e] by auto
    show "record_fits txn" by (rule resize_plan_fits [OF inv _ plan]) (simp add: id k(1))
  qed (rule st')
qed

section \<open>What the engine and its arena agree on\<close>

text \<open>The arena holds every extent, and the engine knows how far it was ever grown.\<close>

definition arena_agrees :: "'h host_view \<Rightarrow> 'h RepackedVfs \<Rightarrow> bool" where
  "arena_agrees v vfs \<longleftrightarrow> arena_tracked (v, vfs)
     \<and> ARENA_HEADER_BYTES + totalExtents (allocator (vfsState vfs)) * extentSize (vfsState vfs) \<le> int (length (arena_of v))
     \<and> int (length (arena_of v)) \<le> ARENA_HEADER_BYTES + arenaHighWaterExtents (vfsStore vfs) * extentSize (vfsState vfs)"

text \<open>Every orphan a descriptor refers to exists, and its extents are quarantined.\<close>

definition orphan_kept :: "VfsState \<Rightarrow> OrphanRecord \<Rightarrow> bool" where
  "orphan_kept st orphan \<longleftrightarrow> extents_ok st (orphanSize orphan) (orphanExtents orphan)
     \<and> (\<forall>e\<in>set (orphanExtents orphan). map_of (quarantine (allocator st)) e \<noteq> None)"

definition descriptors_kept :: "(int \<times> Descriptor) list \<Rightarrow> nat \<Rightarrow> bool" where
  "descriptors_kept ds bound \<longleftrightarrow> (\<forall>fd d i. (fd, d) \<in> set ds \<longrightarrow> descOrphan d = Some i \<longrightarrow> i < bound)"

definition orphans_kept :: "'h RepackedVfs \<Rightarrow> bool" where
  "orphans_kept vfs \<longleftrightarrow> (\<forall>orphan\<in>set (orphans vfs). orphan_kept (vfsState vfs) orphan)
     \<and> descriptors_kept (descriptors vfs) (length (orphans vfs))"

definition live_engine :: "'h host_view \<Rightarrow> 'h RepackedVfs \<Rightarrow> bool" where
  "live_engine v vfs \<longleftrightarrow> (\<exists>selected other st txns logged. engine_image v vfs selected other st txns logged)
     \<and> arena_agrees v vfs \<and> orphans_kept vfs"

lemma live_engineD:
  assumes "live_engine v vfs"
  shows "vfs_inv (vfsState vfs)" "paths_ok (vfsState vfs)" "checkOpen vfs = Inr ()" "hvValid v (fileOf name vfs) name"
    "arena_agrees v vfs" "orphans_kept vfs" "arena_tracked (v, vfs)" "0 < extentSize (vfsState vfs)"
    "extent_size_ok (extentSize (vfsState vfs))"
proof -
  obtain selected other st txns logged where e: "engine_image v vfs selected other st txns logged"
    using assms by (auto simp: live_engine_def)
  show "vfs_inv (vfsState vfs)" "paths_ok (vfsState vfs)" "checkOpen vfs = Inr ()" "hvValid v (fileOf name vfs) name"
    using engine_image_live [OF e] engine_imageD(4) [OF e] by simp_all
  then show "extent_size_ok (extentSize (vfsState vfs))" "0 < extentSize (vfsState vfs)"
    using table_invD(5) [OF vfs_invD(1)] extent_size_pos by blast+
  show "arena_agrees v vfs" "orphans_kept vfs" "arena_tracked (v, vfs)"
    using assms by (simp_all add: live_engine_def arena_agrees_def)
qed

section \<open>The abstract files\<close>

definition fileData :: "'h host_view \<Rightarrow> VfsState \<Rightarrow> int \<Rightarrow> byte list option" where
  "fileData v st k = map_option (\<lambda>(n, xs). fileContents (arena_of v) (extentSize st) xs n) (fileState st k)"

definition orphanData :: "'h host_view \<Rightarrow> VfsState \<Rightarrow> OrphanRecord \<Rightarrow> byte list" where
  "orphanData v st orphan = fileContents (arena_of v) (extentSize st) (orphanExtents orphan) (orphanSize orphan)"

text \<open>The data behind a descriptor: that of its orphan, else that of the linked file.\<close>

definition descriptorData :: "'h host_view \<Rightarrow> 'h RepackedVfs \<Rightarrow> Descriptor \<Rightarrow> byte list option" where
  "descriptorData v vfs d = (case descOrphan d of
     Some i \<Rightarrow> Some (orphanData v (vfsState vfs) (orphans vfs ! i))
   | None \<Rightarrow> fileData v (vfsState vfs) (descInodeId d))"

lemma live_spans:
  assumes "live_engine v vfs" "extents_ok (vfsState vfs) n xs"
  shows "spans (arena_of v) (extentSize (vfsState vfs)) xs"
  using extents_span [OF live_engineD(8) [OF assms(1)]] live_engineD(5) [OF assms(1)] assms(2)
  by (auto simp: extents_ok_def arena_agrees_def)

lemma length_contents:
  assumes "live_engine v vfs" "extents_ok (vfsState vfs) n xs"
  shows "int (length (fileContents (arena_of v) (extentSize (vfsState vfs)) xs n)) = n"
  using length_fileContents [OF live_spans [OF assms]] assms(2) by (simp add: extents_ok_def)

lemma descriptor_Inr: "descriptor fd vfs = Inr d \<longleftrightarrow> isSafeInteger fd \<and> map_of (descriptors vfs) fd = Some d"
  by (auto simp: descriptor_def split: option.split)

text \<open>The file of a descriptor, concretely.\<close>

lemma descriptorData_file:
  assumes live: "live_engine v vfs" and d: "descriptor fd vfs = Inr d" and dat: "descriptorData v vfs d = Some file"
  obtains n xs where "descriptorFile d vfs = Inr (n, xs)" "extents_ok (vfsState vfs) n xs"
    "file = fileContents (arena_of v) (extentSize (vfsState vfs)) xs n" "int (length file) = n"
proof (cases "descOrphan d")
  case None
  then obtain n xs where f: "fileState (vfsState vfs) (descInodeId d) = Some (n, xs)"
    "file = fileContents (arena_of v) (extentSize (vfsState vfs)) xs n"
    using dat by (auto simp: descriptorData_def fileData_def)
  have ok: "extents_ok (vfsState vfs) n xs" by (rule file_extents_ok [OF live_engineD(1) [OF live] f(1)])
  have "descriptorFile d vfs = Inr (n, xs)"
    using f(1) None by (auto simp: descriptorFile_def fileState_Some linkedFile_def)
  with that ok f(2) length_contents [OF live ok] show thesis by blast
next
  case (Some i)
  let ?o = "orphans vfs ! i"
  have "(fd, d) \<in> set (descriptors vfs)" using d by (auto simp: descriptor_Inr dest: map_of_SomeD)
  then have "i < length (orphans vfs)" using live_engineD(6) [OF live] Some by (auto simp: orphans_kept_def descriptors_kept_def)
  then have ok: "extents_ok (vfsState vfs) (orphanSize ?o) (orphanExtents ?o)"
    using live_engineD(6) [OF live] by (simp add: orphans_kept_def orphan_kept_def)
  have "file = fileContents (arena_of v) (extentSize (vfsState vfs)) (orphanExtents ?o) (orphanSize ?o)"
    using dat Some by (simp add: descriptorData_def orphanData_def)
  with that [of "orphanSize ?o" "orphanExtents ?o"] ok length_contents [OF live ok] Some show thesis by (simp add: descriptorFile_def)
qed

section \<open>Reading a descriptor\<close>

definition startAt :: "Descriptor \<Rightarrow> int option \<Rightarrow> int" where
  "startAt d position = (case position of Some at \<Rightarrow> at | None \<Rightarrow> descOffset d)"

definition movedTo :: "int \<Rightarrow> int option \<Rightarrow> int \<Rightarrow> 'h RepackedVfs \<Rightarrow> 'h RepackedVfs" where
  "movedTo fd position n vfs =
     (case position of None \<Rightarrow> setDescriptor fd (\<lambda>d. d\<lparr>descOffset := n\<rparr>) vfs | Some _ \<Rightarrow> vfs)"

lemma moveOffset_updates: "moveOffset fd position n = updates (movedTo fd position n)"
  by (auto simp: moveOffset_def movedTo_def updates_def fun_eq_iff split: option.split)

context store_host
begin

lemma read_file_runs:
  assumes live: "live_engine v vfs" and d: "descriptor fd vfs = Inr d" "descReadable d"
    and range: "validateBufferRange target offset len = Inr ()" and dat: "descriptorData v vfs d = Some file"
    and start: "start = startAt d position" "0 \<le> start"
    and amount: "got = max 0 (min len (int (length file) - start))"
  shows "runs (v, vfs) (read_file ops fd target offset len position)
    (Inr (got, fillFrom offset (sliceOf start got file) target)) (v, movedTo fd position (start + got) vfs)"
proof -
  obtain n xs where f: "descriptorFile d vfs = Inr (n, xs)" "extents_ok (vfsState vfs) n xs"
    "file = fileContents (arena_of v) (extentSize (vfsState vfs)) xs n" "int (length file) = n"
    by (rule descriptorData_file [OF live d(1) dat])
  note adr = extents_ok_addressable [OF live_engineD(1) [OF live] f(2)]
  have bound: "n \<le> MAX_SAFE_INTEGER" "n \<le> int (length xs) * extentSize (vfsState vfs)"
    using f(2) addressable_size(3) [OF adr] by (auto simp: extents_ok_def)
  have buf: "0 \<le> offset" "0 \<le> len" "offset + len \<le> int (length target)"
    using range by (auto simp: validateBufferRange_def split: if_splits)
  let ?part = "take (nat got) (drop (nat offset) target)"
  have avail: "runs (v, vfs) (if start \<ge> n then ioret 0
      else iobind (iolift (checkedSafeNumber (n - start))) (\<lambda>rest. ioret (min len rest))) (Inr got) (v, vfs)"
  proof (cases "start \<ge> n")
    case True
    then have "got = 0" using f(4) amount by auto
    with True show ?thesis by simp
  next
    case False
    then have "checkedSafeNumber (n - start) = Inr (n - start)" using bound(1) start(2) by (intro safe_Inr) linarith+
    with False show ?thesis using buf(2) f(4) amount by (simp add: max_def min_def)
  qed
  have fill: "runs (v, vfs) (if got > 0
      then iobind (readLogical ops xs start ?part) (\<lambda>part. ioret (fillFrom offset part target)) else ioret target)
      (Inr (fillFrom offset (sliceOf start got file) target)) (v, vfs)"
  proof (cases "got > 0")
    case True
    then have c: "got \<le> len" "start + got \<le> n" using amount f(4) by (auto simp: max_def min_def split: if_splits)
    then have len: "int (length ?part) = got" using buf True by simp
    have "runs (v, vfs) (readLogical ops xs start ?part) (Inr (sliceOf start (int (length ?part)) file)) (v, vfs)"
      unfolding f(3) arena_of_def
      by (rule readLogical_runs [OF live_engineD(4) [OF live] refl live_spans [OF live f(2), unfolded arena_of_def] adr start(2)])
        (use c(2) len bound(2) in simp_all)
    with True show ?thesis unfolding len by (simp add: steps_bind)
  next
    case False
    then have "got = 0" using amount by simp
    then show ?thesis by (simp add: sliceOf_def fillFrom_def)
  qed
  show ?thesis
    unfolding read_file_def assertHealthy_def
    apply (rule steps_asksRes [where f = checkOpen, OF live_engineD(3) [OF live]])
    apply (simp only: range iobind_lift)
    apply (rule steps_asksRes [where f = "descriptor fd", OF d(1)])
    apply (simp only: d(2) not_True_eq_False if_False)
    apply (rule steps_asksRes [where f = "descriptorFile d", OF f(1)])
    apply (simp only: prod.case startAt_def [symmetric] start(1) [symmetric] Let_def)
    apply (simp only: not_less [symmetric] start(2) [unfolded not_less [symmetric]] if_False)
    apply (rule steps_bind [OF avail [unfolded not_less [symmetric]]])
    apply (rule steps_bind [OF fill])
    apply (simp only: moveOffset_updates)
    apply (rule steps_updates)
    apply simp
    done
qed

end

end
