(* ===== verification/EngineGrowth.thy ===== *)
theory EngineGrowth
  imports EngineData
begin

text \<open>
  Writing to a linked file, in the arena: the extents are prepared, the gap before the data is filled with
  zeros, the data is written. The file reads as its old contents patched by the data; no other extent
  changes; and the metadata files still say what they said.
\<close>

section \<open>A patched file\<close>

definition patched :: "int \<Rightarrow> int list \<Rightarrow> int \<Rightarrow> byte list \<Rightarrow> byte list \<Rightarrow> byte list \<Rightarrow> bool" where
  "patched ext ys n file arena arena' \<longleftrightarrow> length arena \<le> length arena' \<and> spans arena' ext ys
     \<and> take 8192 arena' = take 8192 arena
     \<and> (\<forall>e. e \<notin> set ys \<and> spans arena ext [e] \<longrightarrow> extentBytes arena' ext e = extentBytes arena ext e)
     \<and> fileContents arena' ext ys n = file"

lemma patched_refl: "spans arena ext ys \<Longrightarrow> patched ext ys n (fileContents arena ext ys n) arena arena"
  by (simp add: patched_def)

lemma patched_overwritten:
  assumes p: "patched ext ys n file arena arena1" and ow: "overwritten ext ys pos src arena1 arena2"
    and ok: "distinct ys" "0 \<le> pos" "pos \<le> n" "n \<le> int (length ys) * ext" "pos + int (length src) \<le> int (length ys) * ext"
  shows "patched ext ys (max n (pos + int (length src))) (putBytes pos src file) arena arena2"
proof -
  have p1: "spans arena1 ext ys" "length arena \<le> length arena1" "take 8192 arena1 = take 8192 arena" "fileContents arena1 ext ys n = file"
    using p by (simp_all add: patched_def)
  note len = overwritten_length [OF ow]
  have "extentBytes arena2 ext e = extentBytes arena ext e" if "e \<notin> set ys" "spans arena ext [e]" for e
    using overwritten_extent [OF ow p1(1) ok(2,5) spans_longer [OF that(2) p1(2)] that(1)] p that by (simp add: patched_def)
  then show ?thesis
    unfolding patched_def
    using overwritten_contents [OF ow p1(1) ok(1-5)] overwritten_head [OF ow p1(1) ok(2,5)] p1 len
      spans_longer [OF p1(1), of arena2] by simp
qed

text \<open>Preparing extents leaves the contents of every file alone.\<close>

lemma prepared_patched:
  assumes p: "prepared_arena ext es arena arena'" and s: "spans arena ext xs" and ok: "set xs \<inter> set es = {}" "n \<le> int (length xs) * ext"
  shows "patched ext (xs @ es) n (fileContents arena ext xs n) arena arena'"
proof -
  have d: "length arena \<le> length arena'" "spans arena' ext es" "take 8192 arena' = take 8192 arena"
    "\<And>e. e \<notin> set es \<Longrightarrow> spans arena ext [e] \<Longrightarrow> extentBytes arena' ext e = extentBytes arena ext e"
    using p by (simp_all add: prepared_arena_def)
  note s' = spans_longer [OF s d(1)]
  have one: "spans arena ext [e]" if "e \<in> set xs" for e using s that by (simp add: spans_def)
  have "fileContents arena' ext (xs @ es) n = fileContents arena' ext xs n" by (rule fileContents_more [OF s' ok(2)])
  also have "\<dots> = fileContents arena ext xs n" by (rule fileContents_cong) (use d(4) one ok(1) in auto)
  finally show ?thesis using d s' by (auto simp: patched_def)
qed

section \<open>The arena and the rest of the engine\<close>

lemma image_arena_step:
  assumes e: "engine_image v vfs selected other st txns logged"
    and step: "arena_step (v, setHigh h vfs) (v', vfs')" and tracked: "arena_tracked (v', vfs')"
    and head: "take 8192 (arena_of v') = take 8192 (arena_of v)"
  shows "engine_image v' vfs' selected other st txns logged"
proof -
  note view = arena_step_view [OF step] and engine = arena_step_engine [OF step] and d = engine_imageD [OF e]
  have store: "vfsStore vfs' = (vfsStore vfs)\<lparr>arenaHighWaterExtents := h\<rparr>" using engine(1) by (simp add: setHigh_def onStore_def)
  have same: "vfsStatus vfs' = vfsStatus vfs" "pendingResizeCommit vfs' = pendingResizeCommit vfs"
    "metadataDirtySinceFlush vfs' = metadataDirtySinceFlush vfs" using engine(3,7,8) by (simp_all add: setHigh_def onStore_def)
  have pend: "hvPending v' name \<noteq> [] \<Longrightarrow> (name = ArenaBin \<and> vfsArenaDirty vfs')
      \<or> (name = metadataFileName (activeMetadataFile st) \<and> metadataDirtySinceFlush vfs')" for name
    using d(6) [of name] view(2) [of name] arena_trackedD(4) [OF tracked] same(3) by (cases "name = ArenaBin") auto
  have "held v' (storeHandles (vfsStore vfs'))"
    unfolding held_def
  proof (intro allI conjI)
    fix name
    show "hvValid v' (storeHandles (vfsStore vfs') name) name" using d(1) view(4) by (simp add: held_def store)
    show "int (length (hvFiles v' name)) \<le> MAX_SAFE_INTEGER"
      using d(1) view(1) [of name] arena_trackedD(2) [OF tracked] by (cases "name = ArenaBin") (auto simp: held_def arena_of_def)
  qed
  moreover have "store_image (hvFiles v') selected other st txns [] logged"
    using d(3) view(1) head by (simp add: store_image_def arena_of_def)
  ultimately show ?thesis
    using e pend unfolding engine_image_def store same by (auto simp: log_counts_def split: option.splits)
qed

section \<open>The prefix a write is cut to\<close>

lemma bisect_admits:
  "bisect attempt low high admitted best = Inr (n, best') \<Longrightarrow> 0 \<le> low \<Longrightarrow> admitted \<le> most \<Longrightarrow> high \<le> most \<Longrightarrow>
     admitted = 0 \<or> (0 < admitted \<and> (\<exists>plan. best = Some plan \<and> attempt admitted = Inr plan)) \<Longrightarrow>
     n = 0 \<or> (0 < n \<and> n \<le> most \<and> (\<exists>plan. best' = Some plan \<and> attempt n = Inr plan))"
proof (induction attempt low high admitted best rule: bisect.induct)
  case (1 attempt low high admitted best)
  let ?c = "low + (high - low) div 2"
  show ?case
  proof (cases "low \<le> high")
    case False
    then show ?thesis using "1.prems" by (auto simp: bisect.simps)
  next
    case True
    then have c: "low \<le> ?c" "?c \<le> high" by auto
    show ?thesis
    proof (cases "attempt ?c")
      case (Inr plan)
      then have next_run: "bisect attempt (?c + 1) high ?c (Some plan) = Inr (n, best')"
        using "1.prems"(1) True by (subst (asm) bisect.simps) (simp add: Let_def)
      show ?thesis
      proof (rule "1.IH"(2) [OF True refl Inr next_run])
        have mid: "0 \<le> ?c" "?c \<le> most" using c "1.prems"(2,4) by linarith+
        then show "0 \<le> ?c + 1" "?c \<le> most" by simp_all
        show "?c = 0 \<or> 0 < ?c \<and> (\<exists>p. Some plan = Some p \<and> attempt ?c = Inr p)"
          using mid Inr by (cases "?c = 0") simp_all
      qed (rule "1.prems"(4))
    next
      case (Inl e)
      then have run: "e = StoreLimitError" "bisect attempt low (?c - 1) admitted best = Inr (n, best')"
        using "1.prems"(1) True by (subst (asm) bisect.simps, simp add: Let_def split: if_splits)+
      show ?thesis by (rule "1.IH"(1) [OF True refl Inl run]) (use "1.prems" c in \<open>linarith | simp\<close>)+
    qed
  qed
qed

lemma longestAdmitted_Inr:
  assumes "longestAdmitted attempt requested = Inr (n, plan)" "0 < requested"
  shows "0 < n \<and> n \<le> requested \<and> attempt n = Inr plan"
proof (cases "attempt requested")
  case (Inr p)
  with assms show ?thesis by (simp add: longestAdmitted_def)
next
  case (Inl e)
  with assms(1) obtain m best where b: "bisect attempt 0 (requested - 1) 0 None = Inr (m, best)" "m \<noteq> 0" "n = m" "plan = the best"
    by (auto simp: longestAdmitted_def ebind_eq_Inr split: if_splits)
  from bisect_admits [OF b(1) order_refl, of requested] assms(2) b(2-4) show ?thesis by auto
qed

section \<open>The gap before the data\<close>

lemma putBytes_nothing: "at = int (length f) \<Longrightarrow> putBytes at [] f = f"
  by (simp add: putBytes_end)

context store_host
begin

lemma zeroLogical_leads:
  assumes t: "arena_tracked (v, vfs)" and ext: "ext = extentSize (vfsState vfs)"
    and ys: "spans (arena_of v) ext (front @ tail)" "addressable ext (front @ tail)" "distinct (front @ tail)"
    and range: "0 \<le> pos" "0 \<le> len" "pos + len \<le> int (length (front @ tail)) * ext"
    and zero: "\<And>p. previous \<le> int p \<Longrightarrow> p < length (arena_of v) \<Longrightarrow> arena_of v ! p = 0" "previous \<le> int (length (arena_of v))"
  shows "leads (v, vfs) (zeroLogical ops front pos len previous tail)
    (\<lambda>_. arena_to (v, vfs) (overwritten ext (front @ tail) pos (zeros (nat len)) (arena_of v)))"
proof -
  have "checkedU64 pos = Inr pos" "checkedU64 len = Inr len"
    using range addressable_size(3) [OF ys(2)] by (auto intro!: u64_Inr)
  then have checks: "ebind (checkedU64 pos) (\<lambda>_. checkedU64 len) = Inr len" by simp
  show ?thesis unfolding zeroLogical_def
    using zeroLogicalLoop_leads [OF t ys range(1,3) order_refl range(2) zero, of False]
    by (simp only: checks iobind_lift) (rule reaches_asks, simp add: ext)
qed

lemma flushIfTouched_leads:
  assumes "arena_tracked (v, vfs)"
  shows "leads (v, vfs) (flushIfTouched ops touched) (\<lambda>_. arena_to (v, vfs) (\<lambda>a. a = arena_of v))"
proof (cases touched)
  case True
  then show ?thesis using flushPreparedArena_leads [OF assms] by (simp add: flushIfTouched_def)
next
  case False
  then show ?thesis unfolding flushIfTouched_def if_not_P [OF False]
    by - (rule reaches_ret, use assms in \<open>simp add: arena_to_def\<close>)
qed

lemma gap_leads:
  assumes t: "arena_tracked (v, vfs)" and ext: "ext = extentSize (vfsState vfs)"
    and ys: "addressable ext (xs @ es)" "distinct (xs @ es)" and p: "patched ext (xs @ es) n f arena (arena_of v)" "n = int (length f)"
    and range: "start \<le> int (length (xs @ es)) * ext" "n \<le> int (length (xs @ es)) * ext"
    and zero: "n < start \<Longrightarrow> previous \<le> int (length (arena_of v))
      \<and> (\<forall>p. previous \<le> int p \<and> p < length (arena_of v) \<longrightarrow> arena_of v ! p = 0)"
  shows "leads (v, vfs) (if n < start then iobind (zeroLogical ops xs n (start - n) previous es) (flushIfTouched ops) else ioret ())
    (\<lambda>_. arena_to (v, vfs) (\<lambda>a. length a = length (arena_of v)
       \<and> patched ext (xs @ es) (max n start) (putBytes n (zeros (nat (start - n))) f) arena a))"
proof (cases "n < start")
  case False
  then have "max n start = n" "putBytes n (zeros (nat (start - n))) f = f"
    using putBytes_nothing [OF p(2)] by (simp_all add: max_def)
  then show ?thesis unfolding if_not_P [OF False] using t p(1) by - (rule reaches_ret, simp add: arena_to_def)
next
  case True
  have spans: "spans (arena_of v) ext (xs @ es)" using p(1) by (simp add: patched_def)
  have n: "0 \<le> n" using p(2) by simp
  have z: "leads (v, vfs) (zeroLogical ops xs n (start - n) previous es)
      (\<lambda>_. arena_to (v, vfs) (overwritten ext (xs @ es) n (zeros (nat (start - n))) (arena_of v)))"
    by (rule zeroLogical_leads [OF t ext spans ys]) (use n True range(1) zero [OF True] in auto)
  show ?thesis unfolding if_P [OF True]
  proof (rule reaches_bind [OF z])
    fix touched ve assume to: "arena_to (v, vfs) (overwritten ext (xs @ es) n (zeros (nat (start - n))) (arena_of v)) ve"
    obtain v1 vfs1 where ve: "ve = (v1, vfs1)" by (metis surj_pair)
    have "patched ext (xs @ es) (max n (n + int (length (zeros (nat (start - n)))))) (putBytes n (zeros (nat (start - n))) f)
        arena (arena_of v1)"
      by (rule patched_overwritten [OF p(1) _ ys(2) n order_refl range(2)])
        (use to True range(1) in \<open>simp_all add: arena_to_def ve\<close>)
    moreover have "max n (n + int (length (zeros (nat (start - n))))) = max n start" using True by simp
    ultimately have p1: "patched ext (xs @ es) (max n start) (putBytes n (zeros (nat (start - n))) f) arena (arena_of v1)" by simp
    have t1: "arena_tracked (v1, vfs1)" "length (arena_of v1) = length (arena_of v)"
      using to by (auto simp: arena_to_def ve dest: overwritten_length)
    show "leads ve (flushIfTouched ops touched) (\<lambda>_. arena_to (v, vfs) (\<lambda>a. length a = length (arena_of v)
        \<and> patched ext (xs @ es) (max n start) (putBytes n (zeros (nat (start - n))) f) arena a))"
      unfolding ve
      by (rule reaches_weaken [OF flushIfTouched_leads [OF t1(1)]])
        (use to p1 t1(2) in \<open>auto simp: arena_to_def ve intro: arena_step_trans\<close>)
  qed
qed

end


text \<open>
  What a write is admitted with: the length the limits allow and, if the file grows, the record that says
  so; and the arena once the extents of that record are prepared and the gap before the data is zero.
\<close>

section \<open>An admitted plan\<close>

text \<open>The record of a growth and what it leads to.\<close>

definition grows_to :: "'h RepackedVfs \<Rightarrow> int \<Rightarrow> int list \<Rightarrow> int \<Rightarrow> int list \<Rightarrow> TxnRecord \<Rightarrow> PreparedCommit \<Rightarrow> bool" where
  "grows_to vfs k xs stop es txn prepared \<longleftrightarrow> plannedSize txn = stop \<and> record_fits txn \<and> isDeferrableResize txn (vfsState vfs)
     \<and> preflightCommit txn vfs = Inr prepared
     \<and> (\<exists>st'. applyTxn (vfsState vfs) txn None = (None, st') \<and> paths_ok st'
         \<and> fileState st' = (fileState (vfsState vfs))(k := Some (stop, xs @ es))
         \<and> extentSize st' = extentSize (vfsState vfs)
         \<and> totalExtents (allocator st') = newTotal (allocator (vfsState vfs)) es)"

definition admitted_write ::
  "'h RepackedVfs \<Rightarrow> int \<Rightarrow> int \<Rightarrow> int list \<Rightarrow> int \<Rightarrow> int \<Rightarrow> (TxnRecord \<times> PreparedCommit) option \<Rightarrow> int list \<Rightarrow> bool" where
  "admitted_write vfs k n xs start m plan es \<longleftrightarrow> 0 < m
     \<and> (case plan of None \<Rightarrow> Inr [] | Some (txn, _) \<Rightarrow> plannedExtents txn) = Inr es
     \<and> distinct (xs @ es) \<and> addressable (extentSize (vfsState vfs)) (xs @ es)
     \<and> assignable (allocator (vfsState vfs)) es
     \<and> (\<forall>e\<in>set es. map_of (ownedBy (allocator (vfsState vfs))) e = None
          \<and> map_of (quarantine (allocator (vfsState vfs))) e = None)
     \<and> start + m \<le> int (length (xs @ es)) * extentSize (vfsState vfs)
     \<and> n \<le> int (length (xs @ es)) * extentSize (vfsState vfs)
     \<and> (case plan of None \<Rightarrow> es = [] \<and> start + m \<le> n
        | Some (txn, prepared) \<Rightarrow> n < start + m \<and> grows_to vfs k xs (start + m) es txn prepared)"

lemma planLinkedWrite_admits:
  assumes live: "live_engine v vfs" and linked: "linkedFile k vfs = Inr (inode, n, xs)"
    and plan: "planLinkedWrite inode n start requested now vfs = Inr (m, plan)" and pos: "0 < requested"
  shows "m \<le> requested \<and> (\<exists>es. admitted_write vfs k n xs start m plan es)"
proof -
  let ?st = "vfsState vfs"
  note inv = live_engineD(1) [OF live] and ok = live_engineD(2) [OF live]
  have k: "imap ?st k = Some inode" "body inode = File n xs" using linked by (simp_all add: linkedFile_Inr)
  have fs: "fileState ?st k = Some (n, xs)" by (rule linkedFile_state [OF linked])
  note ext_ok = file_extents_ok [OF inv fs]
  have m: "0 < m" "m \<le> requested" "attemptLinked inode n start now vfs m = Inr plan"
    using longestAdmitted_Inr [OF plan [unfolded planLinkedWrite_def] pos] by simp_all
  have add: "checkedAdd start m = Inr (start + m)" using m(3) by (auto simp: attemptLinked_def ebind_eq_Inr checkedAdd_def checkedU64_Inr)
  have "\<exists>es. admitted_write vfs k n xs start m plan es"
  proof (cases "start + m \<le> n")
    case True
    then have "plan = None" using m(3) by (simp add: attemptLinked_def add)
    then have "admitted_write vfs k n xs start m plan []"
      using m(1) True ext_ok extents_ok_addressable [OF inv ext_ok] alloc_invD(10) [OF vfs_invD(3) [OF inv]]
      by (simp add: admitted_write_def extents_ok_def)
    then show ?thesis by blast
  next
    case False
    then obtain txn prepared where t: "planResizeFileForInode ?st inode (start + m) now WriteOp = Inr txn"
      "preflightCommit txn vfs = Inr prepared" "plan = Some (txn, prepared)"
      using m(3) by (auto simp: attemptLinked_def add ebind_eq_Inr)
    obtain st' where st': "applyTxn ?st txn None = (None, st')" "vfs_inv st'" "paths_ok st'"
      by (rule planned_applies [OF inv ok planned_resize_inode [OF t(1) k(2)]])
    have more: "n < start + m" using False by simp
    obtain es where g: "plannedExtents txn = Inr es" "plannedSize txn = start + m" "record_fits txn" "isDeferrableResize txn ?st"
      "assignable (allocator ?st) es" "distinct es" "extents_ok st' (start + m) (xs @ es)"
      "fileState st' = (fileState ?st)(k := Some (start + m, xs @ es))" "extentSize st' = extentSize ?st"
      "totalExtents (allocator st') = newTotal (allocator ?st) es"
      "\<And>e. e \<in> set es \<Longrightarrow> map_of (ownedBy (allocator ?st)) e = None \<and> map_of (quarantine (allocator ?st)) e = None"
      by (rule grown_file [OF inv k t(1) more st'(1)]) blast
    have "addressable (extentSize ?st) (xs @ es)" using extents_ok_addressable [OF st'(2) g(7)] g(9) by simp
    moreover have "grows_to vfs k xs (start + m) es txn prepared"
      using g t(2) st' by (auto simp: grows_to_def)
    ultimately have "admitted_write vfs k n xs start m plan es"
      using m(1) g more t(3) by (auto simp: admitted_write_def extents_ok_def)
    then show ?thesis by blast
  qed
  with m(2) show ?thesis by blast
qed

text \<open>The arena on the way to a write: what the plan needs is there, and the file reads as meant.\<close>

definition grown_arena ::
  "'h host_view \<Rightarrow> 'h RepackedVfs \<Rightarrow> int list \<Rightarrow> int list \<Rightarrow> int \<Rightarrow> byte list
    \<Rightarrow> 'h host_view \<times> 'h RepackedVfs \<Rightarrow> bool" where
  "grown_arena v vfs xs es m file ve \<longleftrightarrow> (\<exists>h.
     arena_to (v, setHigh h vfs) (patched (extentSize (vfsState vfs)) (xs @ es) m file (arena_of v)) ve
     \<and> ARENA_HEADER_BYTES + newTotal (allocator (vfsState vfs)) es * extentSize (vfsState vfs) \<le> int (length (arena_of (fst ve)))
     \<and> int (length (arena_of (fst ve))) \<le> ARENA_HEADER_BYTES + h * extentSize (vfsState vfs))"

section \<open>Planning\<close>

context store_host
begin

lemma linkedWritePlan_leads:
  assumes t: "arena_tracked (v, vfs)" and linked: "linkedFile k vfs = Inr (inode, n, xs)"
    and plan: "planLinkedWrite inode n start requested now vfs = Inr (m, plan)"
    and es: "(case plan of None \<Rightarrow> Inr [] | Some (txn, _) \<Rightarrow> plannedExtents txn) = Inr es"
  shows "leads (v, vfs) (linkedWritePlan ops k start requested now) (\<lambda>p ve.
    p = \<lparr>lwpInode = inode, lwpSize = n, lwpExtents = xs, lwpLength = m, lwpPlan = plan, lwpAllocated = es,
         lwpArenaSizeBefore = (if n < start then int (length (arena_of v)) else 0)\<rparr>
    \<and> arena_to (v, vfs) (\<lambda>a. a = arena_of v) ve)"
proof -
  have size: "leads (v, vfs) (if start > n then arenaSizeChecked ops label else ioret 0) (\<lambda>size ve.
      size = (if n < start then int (length (arena_of v)) else 0) \<and> arena_to (v, vfs) (\<lambda>a. a = arena_of v) ve)" for label
  proof (cases "n < start")
    case True
    with arenaSizeChecked_leads [OF t, of label] show ?thesis by simp
  next
    case False
    then show ?thesis unfolding if_not_P [OF False] using t by - (rule reaches_ret, simp add: arena_to_def)
  qed
  show ?thesis unfolding linkedWritePlan_def
    apply (rule reaches_asksRes [where f = "linkedFile k", OF linked], simp only: prod.case)
    apply (rule reaches_asksRes [where f = "planLinkedWrite inode n start requested now", OF plan], simp only: prod.case)
    apply (simp only: es iobind_lift)
    apply (rule reaches_bind [OF size])
    apply (rule reaches_ret, simp)
    done
qed

text \<open>Preparing what the plan allocates, after it was made.\<close>

lemma prepare_leads:
  assumes live: "live_engine v vfs" and same: "arena_to (v, vfs) (\<lambda>a. a = arena_of v) (v1, vfs1)"
    and es: "allocatedOf p = es" "assignable (allocator (vfsState vfs)) es" "distinct es"
  defines "ext \<equiv> extentSize (vfsState vfs)"
  shows "leads (v1, vfs1) (prepareAllocationWithQuotaRetry ops clock allocatedOf p retry) (\<lambda>q ve. q = p \<and> (\<exists>h.
    arena_to (v, setHigh h vfs) (prepared_arena ext es (arena_of v)) ve
    \<and> ARENA_HEADER_BYTES + newTotal (allocator (vfsState vfs)) es * ext \<le> int (length (arena_of (fst ve)))
    \<and> int (length (arena_of (fst ve))) \<le> ARENA_HEADER_BYTES + h * ext))"
proof -
  have step: "arena_step (v, vfs) (v1, vfs1)" "arena_tracked (v1, vfs1)" "arena_of v1 = arena_of v"
    using same by (simp_all add: arena_to_def)
  note engine = arena_step_engine [OF step(1)]
  have ag: "arena_agrees v vfs" by (rule live_engineD(5) [OF live])
  have one: "leads (v1, vfs1) (prepareAllocated ops es) (\<lambda>_ ve. \<exists>h.
      arena_to (v1, setHigh h vfs1) (prepared_arena ext es (arena_of v1)) ve
      \<and> ARENA_HEADER_BYTES + newTotal (allocator (vfsState vfs)) es * ext \<le> int (length (arena_of (fst ve)))
      \<and> int (length (arena_of (fst ve))) \<le> ARENA_HEADER_BYTES + h * ext)"
    by (rule prepareAllocated_leads [OF step(2) _ _ _ vfs_invD(3) [OF live_engineD(1) [OF live]] es(2,3)])
      (use engine(1) live_engineD(9) [OF live] ag step(3) in \<open>simp_all add: ext_def arena_agrees_def\<close>)
  have high: "arena_step (v, setHigh h vfs) (v1, setHigh h vfs1)" for h
    using step(1) by (simp add: arena_step_def but_setHigh)
  show ?thesis unfolding prepareAllocationWithQuotaRetry_def es(1)
  proof (rule reaches_catch, rule reaches_bind [OF one], rule reaches_ret, elim exE conjE)
    fix x :: unit and ve h
    assume h: "arena_to (v1, setHigh h vfs1) (prepared_arena ext es (arena_of v1)) ve"
      "ARENA_HEADER_BYTES + newTotal (allocator (vfsState vfs)) es * ext \<le> int (length (arena_of (fst ve)))"
      "int (length (arena_of (fst ve))) \<le> ARENA_HEADER_BYTES + h * ext"
    have "arena_to (v, setHigh h vfs) (prepared_arena ext es (arena_of v)) ve"
      using h(1) high [of h] step(3) by (auto simp: arena_to_def intro: arena_step_trans)
    with h(2,3) show "p = p \<and> (\<exists>h. arena_to (v, setHigh h vfs) (prepared_arena ext es (arena_of v)) ve
      \<and> ARENA_HEADER_BYTES + newTotal (allocator (vfsState vfs)) es * ext \<le> int (length (arena_of (fst ve)))
      \<and> int (length (arena_of (fst ve))) \<le> ARENA_HEADER_BYTES + h * ext)" by blast
  qed
qed

lemma admitLinked_leads:
  assumes live: "live_engine v vfs" and linked: "linkedFile k vfs = Inr (inode, n, xs)"
    and plan: "planLinkedWrite inode n start len now vfs = Inr (m, plan)" and adm: "admitted_write vfs k n xs start m plan es"
    and data: "fileData v (vfsState vfs) k = Some data" and range: "0 \<le> start" "n < requestedEnd"
  shows "leads (v, vfs) (admitLinked ops clock k (inode, n, xs) start len requestedEnd now) (\<lambda>p ve.
    p = \<lparr>lwpInode = inode, lwpSize = n, lwpExtents = xs, lwpLength = m, lwpPlan = plan, lwpAllocated = es,
         lwpArenaSizeBefore = (if n < start then int (length (arena_of v)) else 0)\<rparr>
    \<and> grown_arena v vfs xs es (max n start) (putBytes n (zeros (nat (start - n))) data) ve)"
proof -
  let ?ext = "extentSize (vfsState vfs)" and ?A = "arena_of v"
  let ?p = "\<lparr>lwpInode = inode, lwpSize = n, lwpExtents = xs, lwpLength = m, lwpPlan = plan, lwpAllocated = es,
         lwpArenaSizeBefore = (if n < start then int (length (arena_of v)) else 0)\<rparr>"
  have fs: "fileState (vfsState vfs) k = Some (n, xs)" by (rule linkedFile_state [OF linked])
  note ext_ok = file_extents_ok [OF live_engineD(1) [OF live] fs]
  note spans = live_spans [OF live ext_ok]
  have F: "data = fileContents ?A ?ext xs n" using data fs by (simp add: fileData_def)
  then have n: "n = int (length data)" using length_contents [OF live ext_ok] by simp
  have a: "(case plan of None \<Rightarrow> Inr [] | Some (txn, _) \<Rightarrow> plannedExtents txn) = Inr es" "distinct (xs @ es)" "addressable ?ext (xs @ es)"
    "assignable (allocator (vfsState vfs)) es" "start + m \<le> int (length (xs @ es)) * ?ext" "n \<le> int (length (xs @ es)) * ?ext"
    "plan = None \<longleftrightarrow> start + m \<le> n" "0 < m"
    using adm by (auto simp: admitted_write_def split: option.splits)
  let ?previous = "if n < start then int (length ?A) else 0"
  have gap: "(plan \<noteq> None \<and> n < start) = (n < start)" using a(7,8) by auto
  note one = linkedWritePlan_leads [OF live_engineD(7) [OF live] linked plan a(1)]
  have two: "leads ve (prepareAllocationWithQuotaRetry ops clock lwpAllocated ?p retry) (\<lambda>q ve. q = ?p \<and> (\<exists>h.
      arena_to (v, setHigh h vfs) (prepared_arena ?ext es ?A) ve
      \<and> ARENA_HEADER_BYTES + newTotal (allocator (vfsState vfs)) es * ?ext \<le> int (length (arena_of (fst ve)))
      \<and> int (length (arena_of (fst ve))) \<le> ARENA_HEADER_BYTES + h * ?ext))"
    if "arena_to (v, vfs) (\<lambda>a. a = ?A) ve" for ve retry
    using prepare_leads [OF live _ _ a(4), of "fst ve" "snd ve" lwpAllocated ?p] that a(2) by simp
  have three: "leads ve (if n < start then iobind (zeroLogical ops xs n (start - n) ?previous es) (flushIfTouched ops)
        else ioret ()) (\<lambda>_. grown_arena v vfs xs es (max n start) (putBytes n (zeros (nat (start - n))) data))"
    if to: "arena_to (v, setHigh h vfs) (prepared_arena ?ext es ?A) ve"
      and low: "ARENA_HEADER_BYTES + newTotal (allocator (vfsState vfs)) es * ?ext \<le> int (length (arena_of (fst ve)))"
      and up: "int (length (arena_of (fst ve))) \<le> ARENA_HEADER_BYTES + h * ?ext" for ve h
  proof -
    obtain v2 vfs2 where ve: "ve = (v2, vfs2)" by (metis surj_pair)
    have s: "arena_step (v, setHigh h vfs) (v2, vfs2)" "arena_tracked (v2, vfs2)" "prepared_arena ?ext es ?A (arena_of v2)"
      using to by (simp_all add: ve arena_to_def)
    have e2: "?ext = extentSize (vfsState vfs2)" using arena_step_engine(1) [OF s(1)] by (simp add: setHigh_def onStore_def)
    have p: "patched ?ext (xs @ es) n data ?A (arena_of v2)"
      unfolding F by (rule prepared_patched [OF s(3) spans]) (use a(2) ext_ok in \<open>auto simp: extents_ok_def\<close>)
    have zero: "?previous \<le> int (length (arena_of v2))
        \<and> (\<forall>p. ?previous \<le> int p \<and> p < length (arena_of v2) \<longrightarrow> arena_of v2 ! p = 0)" if "n < start"
      using s(3) that by (simp add: prepared_arena_def)
    have start: "start \<le> int (length (xs @ es)) * ?ext" using a(5,8) by linarith
    note gap = gap_leads [OF s(2) e2 a(3,2) p n start a(6), of ?previous]
    show ?thesis unfolding ve
    proof (rule reaches_weaken, rule gap)
      fix x :: unit and ve'
      assume g: "arena_to (v2, vfs2) (\<lambda>a. length a = length (arena_of v2)
        \<and> patched ?ext (xs @ es) (max n start) (putBytes n (zeros (nat (start - n))) data) ?A a) ve'"
      have "arena_step (v, setHigh h vfs) ve'" using s(1) g by (auto simp: arena_to_def intro: arena_step_trans)
      then show "grown_arena v vfs xs es (max n start) (putBytes n (zeros (nat (start - n))) data) ve'"
        unfolding grown_arena_def using g low up by (intro exI [of _ h]) (simp add: arena_to_def ve)
    qed (use zero in simp)
  qed
  show ?thesis
    unfolding admitLinked_def prod.case if_P [OF range(2)] Let_def
    apply (rule reaches_bind [OF one], elim conjE, hypsubst)
    apply (rule reaches_bind [OF two], assumption)
    apply (elim conjE exE, hypsubst)
    apply (rule reaches_bind)
     apply (simp only: LinkedWritePlan.select_convs gap, rule three, assumption+)
    apply (rule reaches_ret, simp)
    done
qed

end

end
