(* ===== verification/DescriptorWrites.thy ===== *)
theory DescriptorWrites
  imports EngineGrowth
begin

text \<open>
  Writing to a linked file of an open store: the contents of that file are patched by what was written, and
  no other file, linked or unlinked but still open, changes.
\<close>

section \<open>What a write leaves\<close>

lemma patched_other:
  assumes "patched ext ys m f arena arena'" "spans arena ext zs" "set zs \<inter> set ys = {}"
  shows "fileContents arena' ext zs n = fileContents arena ext zs n"
proof (rule fileContents_cong)
  fix e assume "e \<in> set zs"
  with assms show "extentBytes arena' ext e = extentBytes arena ext e" by (auto simp: patched_def spans_def)
qed

lemma fileData_patched:
  assumes live: "live_engine v vfs" and old: "fileState (vfsState vfs) k = Some (n, xs)"
    and p: "patched (extentSize (vfsState vfs)) (xs @ es) m f (arena_of v) (arena_of v')"
    and es: "\<forall>e\<in>set es. map_of (ownedBy (allocator (vfsState vfs))) e = None"
    and st: "fileState st' = (fileState (vfsState vfs))(k := Some (m, xs @ es))" "extentSize st' = extentSize (vfsState vfs)"
  shows "fileData v' st' = (fileData v (vfsState vfs))(k \<mapsto> f)"
proof (rule ext)
  fix k'
  note inv = live_engineD(1) [OF live]
  show "fileData v' st' k' = ((fileData v (vfsState vfs))(k \<mapsto> f)) k'"
  proof (cases "k' = k")
    case True
    then show ?thesis using p by (simp add: fileData_def st patched_def)
  next
    case False
    show ?thesis
    proof (cases "fileState (vfsState vfs) k'")
      case None
      with False show ?thesis by (simp add: fileData_def st)
    next
      case (Some f')
      obtain n' zs where f': "f' = (n', zs)" by (metis surj_pair)
      note s = Some [unfolded f']
      have "set zs \<inter> set (xs @ es) = {}"
        using fileState_owned [OF inv s] fileState_owned [OF inv old] False es by auto
      from patched_other [OF p live_spans [OF live file_extents_ok [OF inv s]] this] False s
      show ?thesis by (simp add: fileData_def st)
    qed
  qed
qed

lemma orphanData_patched:
  assumes live: "live_engine v vfs" and old: "fileState (vfsState vfs) k = Some (n, xs)"
    and p: "patched (extentSize (vfsState vfs)) (xs @ es) m f (arena_of v) (arena_of v')"
    and es: "\<forall>e\<in>set es. map_of (quarantine (allocator (vfsState vfs))) e = None"
    and st: "extentSize st' = extentSize (vfsState vfs)" and orphan: "orphan \<in> set (orphans vfs)"
  shows "orphanData v' st' orphan = orphanData v (vfsState vfs) orphan"
proof -
  note inv = live_engineD(1) [OF live] and kept = live_engineD(6) [OF live]
  have o: "extents_ok (vfsState vfs) (orphanSize orphan) (orphanExtents orphan)"
    "\<forall>e\<in>set (orphanExtents orphan). map_of (quarantine (allocator (vfsState vfs))) e \<noteq> None"
    using kept orphan by (auto simp: orphans_kept_def orphan_kept_def)
  have "map_of (quarantine (allocator (vfsState vfs))) e = None" if "e \<in> set (xs @ es)" for e
    using that es fileState_owned [OF inv old, of e] alloc_invD(7) [OF vfs_invD(3) [OF inv], of e] by auto
  then have "set (orphanExtents orphan) \<inter> set (xs @ es) = {}" using o(2) by blast
  from patched_other [OF p live_spans [OF live o(1)] this] show ?thesis by (simp add: orphanData_def st)
qed

text \<open>Orphans stay as they are over anything a transaction does.\<close>

lemma orphans_kept_txn:
  assumes kept: "orphans_kept vfs" and same: "orphans vfs' = orphans vfs" "descriptors vfs' = descriptors vfs"
    and inv: "vfs_inv (vfsState vfs')" and framed: "framed (vfsState vfs) (vfsState vfs')"
    and ext: "extentSize (vfsState vfs') = extentSize (vfsState vfs)"
  shows "orphans_kept vfs'"
proof -
  have q: "map_of (quarantine (allocator (vfsState vfs'))) e \<noteq> None"
    if "map_of (quarantine (allocator (vfsState vfs))) e \<noteq> None" for e
    using framed that unfolding framed_def guards_def by blast
  have r: "0 \<le> e \<and> e < totalExtents (allocator (vfsState vfs'))"
    if "map_of (quarantine (allocator (vfsState vfs))) e \<noteq> None" for e
    using alloc_inv_range [OF vfs_invD(3) [OF inv], of e] q [OF that] by blast
  show ?thesis using kept q r unfolding orphans_kept_def same orphan_kept_def extents_ok_def ext by blast
qed

text \<open>The outcome of a write: the file has new contents, and every other file of the store its old ones.\<close>

definition written ::
  "'h host_view \<Rightarrow> 'h RepackedVfs \<Rightarrow> int \<Rightarrow> byte list \<Rightarrow> 'h host_view \<times> 'h RepackedVfs \<Rightarrow> bool" where
  "written v vfs k file ve \<longleftrightarrow> live_engine (fst ve) (snd ve)
     \<and> fileData (fst ve) (vfsState (snd ve)) = (fileData v (vfsState vfs))(k \<mapsto> file)
     \<and> orphans (snd ve) = orphans vfs \<and> descriptors (snd ve) = descriptors vfs \<and> nextDescriptor (snd ve) = nextDescriptor vfs
     \<and> (\<forall>old. fileData v (vfsState vfs) k = Some old \<and> length old < length file \<longrightarrow> pendingResizeCommit (snd ve) \<noteq> None)
     \<and> (\<forall>orphan\<in>set (orphans vfs). orphanData (fst ve) (vfsState (snd ve)) orphan = orphanData v (vfsState vfs) orphan)"

lemma grown_arenaD:
  assumes "live_engine v vfs" "grown_arena v vfs xs es m f (v', vfs')"
  obtains h where "arena_step (v, setHigh h vfs) (v', vfs')" "arena_tracked (v', vfs')"
    "patched (extentSize (vfsState vfs)) (xs @ es) m f (arena_of v) (arena_of v')" "vfsState vfs' = vfsState vfs"
    "\<forall>selected other st txns logged. engine_image v vfs selected other st txns logged \<longrightarrow>
       engine_image v' vfs' selected other st txns logged"
    "arenaHighWaterExtents (vfsStore vfs') = h"
    "ARENA_HEADER_BYTES + newTotal (allocator (vfsState vfs)) es * extentSize (vfsState vfs) \<le> int (length (arena_of v'))"
    "int (length (arena_of v')) \<le> ARENA_HEADER_BYTES + h * extentSize (vfsState vfs)"
proof -
  obtain h where h: "arena_step (v, setHigh h vfs) (v', vfs')" "arena_tracked (v', vfs')"
    "patched (extentSize (vfsState vfs)) (xs @ es) m f (arena_of v) (arena_of v')"
    "ARENA_HEADER_BYTES + newTotal (allocator (vfsState vfs)) es * extentSize (vfsState vfs) \<le> int (length (arena_of v'))"
    "int (length (arena_of v')) \<le> ARENA_HEADER_BYTES + h * extentSize (vfsState vfs)"
    using assms(2) by (auto simp: grown_arena_def arena_to_def)
  have "engine_image v' vfs' selected other st txns logged" if "engine_image v vfs selected other st txns logged"
    for selected other st txns logged
    by (rule image_arena_step [OF that h(1,2)]) (use h(3) in \<open>simp add: patched_def\<close>)
  with that h arena_step_engine(1) [OF h(1)] show thesis by (simp add: setHigh_def onStore_def)
qed

text \<open>A write within the file leaves the state as it was.\<close>

lemma written_in_place:
  assumes live: "live_engine v vfs" and old: "fileState (vfsState vfs) k = Some (n, xs)"
    and grown: "grown_arena v vfs xs [] n f (v', vfs')"
  shows "written v vfs k f (v', vfs')"
proof -
  obtain h where h: "arena_step (v, setHigh h vfs) (v', vfs')" "arena_tracked (v', vfs')"
    "patched (extentSize (vfsState vfs)) (xs @ []) n f (arena_of v) (arena_of v')" "vfsState vfs' = vfsState vfs"
    "\<forall>selected other st txns logged. engine_image v vfs selected other st txns logged \<longrightarrow>
       engine_image v' vfs' selected other st txns logged"
    "arenaHighWaterExtents (vfsStore vfs') = h"
    "ARENA_HEADER_BYTES + newTotal (allocator (vfsState vfs)) [] * extentSize (vfsState vfs) \<le> int (length (arena_of v'))"
    "int (length (arena_of v')) \<le> ARENA_HEADER_BYTES + h * extentSize (vfsState vfs)"
    by (rule grown_arenaD [OF live grown])
  note engine = arena_step_engine [OF h(1)]
  have same: "orphans vfs' = orphans vfs" "descriptors vfs' = descriptors vfs" "nextDescriptor vfs' = nextDescriptor vfs"
    using engine by (simp_all add: setHigh_def onStore_def)
  have "orphans_kept vfs'"
    by (rule orphans_kept_txn [OF live_engineD(6) [OF live] same(1,2)]) (simp_all add: h(4) live_engineD(1) [OF live])
  moreover have "arena_agrees v' vfs'" using h(2,6-8) by (simp add: arena_agrees_def h(4) newTotal_def)
  ultimately have "live_engine v' vfs'" using live h(5) unfolding live_engine_def by blast
  moreover have "fileData v' (vfsState vfs') = (fileData v (vfsState vfs))(k \<mapsto> f)"
    by (rule fileData_patched [OF live old h(3)]) (use old h(4) in auto)
  moreover have "orphanData v' (vfsState vfs') orphan = orphanData v (vfsState vfs) orphan" if "orphan \<in> set (orphans vfs)" for orphan
    by (rule orphanData_patched [OF live old h(3) _ _ that]) (use h(4) in auto)
  moreover have "length f = length old" if "fileData v (vfsState vfs) k = Some old" for old
  proof -
    have "f = fileContents (arena_of v') (extentSize (vfsState vfs')) xs n"
      using calculation(2) old h(4) by (auto simp: fileData_def fun_eq_iff split: if_splits dest!: spec [of _ k])
    moreover have ok: "extents_ok (vfsState vfs) n xs" by (rule file_extents_ok [OF live_engineD(1) [OF live] old])
    ultimately have "int (length f) = n" using length_contents [OF \<open>live_engine v' vfs'\<close>, of n xs] h(4) by simp
    with length_contents [OF live ok] that old show ?thesis by (auto simp: fileData_def)
  qed
  ultimately show ?thesis by (fastforce simp: written_def same)
qed

context store_host
begin

text \<open>One that grows the file is committed, with the record its plan was made with.\<close>

lemma written_by_commit:
  assumes live: "live_engine v vfs" and old: "fileState (vfsState vfs) k = Some (n, xs)"
    and grown: "grown_arena v vfs xs es stop f ve" and grows: "grows_to vfs k xs stop es txn prepared"
    and es: "\<forall>e\<in>set es. map_of (ownedBy (allocator (vfsState vfs))) e = None \<and> map_of (quarantine (allocator (vfsState vfs))) e = None"
  shows "leads ve (commit ops txn (Some prepared)) (\<lambda>_. written v vfs k f)"
proof -
  obtain v' vfs' where ve: "ve = (v', vfs')" by (metis surj_pair)
  obtain h where h: "arena_step (v, setHigh h vfs) (v', vfs')" "arena_tracked (v', vfs')"
    "patched (extentSize (vfsState vfs)) (xs @ es) stop f (arena_of v) (arena_of v')" "vfsState vfs' = vfsState vfs"
    "\<forall>selected other st txns logged. engine_image v vfs selected other st txns logged \<longrightarrow>
       engine_image v' vfs' selected other st txns logged"
    "arenaHighWaterExtents (vfsStore vfs') = h"
    "ARENA_HEADER_BYTES + newTotal (allocator (vfsState vfs)) es * extentSize (vfsState vfs) \<le> int (length (arena_of v'))"
    "int (length (arena_of v')) \<le> ARENA_HEADER_BYTES + h * extentSize (vfsState vfs)"
    by (rule grown_arenaD [OF live grown [unfolded ve]])
  note engine = arena_step_engine [OF h(1)]
  have same: "orphans vfs' = orphans vfs" "descriptors vfs' = descriptors vfs" "nextDescriptor vfs' = nextDescriptor vfs"
    using engine by (simp_all add: setHigh_def onStore_def)
  obtain selected other st txns logged where e: "engine_image v' vfs' selected other st txns logged"
    using live h(5) unfolding live_engine_def by blast
  obtain st' where g: "plannedSize txn = stop" "record_fits txn" "preflightCommit txn vfs = Inr prepared" "isDeferrableResize txn (vfsState vfs)"
    "applyTxn (vfsState vfs) txn None = (None, st')" "paths_ok st'"
    "fileState st' = (fileState (vfsState vfs))(k := Some (stop, xs @ es))" "extentSize st' = extentSize (vfsState vfs)"
    "totalExtents (allocator st') = newTotal (allocator (vfsState vfs)) es"
    using grows by (auto simp: grows_to_def)
  have pre: "preflightCommit txn vfs' = Inr prepared"
    using preflight_cong [of vfs' vfs txn] engine(1,3,7) h(4) g(3) by (simp add: setHigh_def onStore_def)
  obtain v'' vfs'' txns' logged' where c: "runs (v', vfs') (commit ops txn (Some prepared)) (Inr ()) (v'', vfs'')"
    "engine_image v'' vfs'' selected other st txns' logged'" "vfsState vfs'' = st'" "same_engine vfs' vfs''" "same_arena v' v''"
    "pendingResizeCommit vfs'' \<noteq> None"
    using commit_image [OF e pre g(2) _ g(6), of "Some prepared"] g(4,5) h(4) by auto
  have arena: "arena_of v'' = arena_of v'" using c(5) by (simp add: same_arena_def arena_of_def)
  have keep: "orphans vfs'' = orphans vfs" "descriptors vfs'' = descriptors vfs" "nextDescriptor vfs'' = nextDescriptor vfs"
    "arenaHighWaterExtents (vfsStore vfs'') = h"
    using c(4) same h(6) by (simp_all add: same_engine_def)
  have "arena_tracked (v'', vfs'')"
    using h(2) engine_image_live(5) [OF c(2)] c(4,5) arena by (auto simp: arena_tracked_def same_engine_def same_arena_def)
  then have "arena_agrees v'' vfs''" using h(7,8) g(8,9) by (simp add: arena_agrees_def c(3) arena keep(4))
  moreover have "orphans_kept vfs''"
    by (rule orphans_kept_txn [OF live_engineD(6) [OF live] keep(1,2)])
      (use engine_image_live(1) [OF c(2)] txn_framed [OF g(5)] g(8) c(3) in simp_all)
  ultimately have "live_engine v'' vfs''" using c(2) unfolding live_engine_def by blast
  moreover have "fileData v'' (vfsState vfs'') = (fileData v (vfsState vfs))(k \<mapsto> f)"
    by (rule fileData_patched [OF live old, of es stop]) (use h(3) arena es g(7,8) c(3) in simp_all)
  moreover have "orphanData v'' (vfsState vfs'') orphan = orphanData v (vfsState vfs) orphan" if "orphan \<in> set (orphans vfs)" for orphan
    by (rule orphanData_patched [OF live old, of es stop f]) (use h(3) arena es g(8) c(3) that in simp_all)
  ultimately have "written v vfs k f (v'', vfs'')" by (simp add: written_def keep c(6))
  with c(1) show ?thesis unfolding ve by (rule reachesI)
qed

text \<open>The data itself.\<close>

lemma data_leads:
  assumes live: "live_engine v vfs" and grown: "grown_arena v vfs xs es m f ve" and m: "int (length f) = m"
    and ys: "distinct (xs @ es)" "addressable (extentSize (vfsState vfs)) (xs @ es)" "m \<le> int (length (xs @ es)) * extentSize (vfsState vfs)"
    and range: "0 \<le> start" "start \<le> m" "start + int (length src) \<le> int (length (xs @ es)) * extentSize (vfsState vfs)"
  shows "leads ve (writeLogical ops xs start src label es)
    (\<lambda>p ve'. p = \<lparr>progressBytes = int (length src), progressError = None\<rparr>
       \<and> grown_arena v vfs xs es (max m (start + int (length src))) (putBytes start src f) ve')"
proof -
  let ?ext = "extentSize (vfsState vfs)"
  obtain v' vfs' h where ve: "ve = (v', vfs')" and h: "arena_step (v, setHigh h vfs) (v', vfs')" "arena_tracked (v', vfs')"
    "patched ?ext (xs @ es) m f (arena_of v) (arena_of v')"
    "ARENA_HEADER_BYTES + newTotal (allocator (vfsState vfs)) es * ?ext \<le> int (length (arena_of v'))"
    "int (length (arena_of v')) \<le> ARENA_HEADER_BYTES + h * ?ext"
    using grown by (cases ve) (auto simp: grown_arena_def arena_to_def)
  have ext: "?ext = extentSize (vfsState vfs')" using arena_step_engine(1) [OF h(1)] by (simp add: setHigh_def onStore_def)
  have spans: "spans (arena_of v') ?ext (xs @ es)" using h(3) by (simp add: patched_def)
  show ?thesis unfolding ve
  proof (rule reaches_weaken, rule writeLogical_leads [OF h(2) ext spans ys(2,1) range(1,3)])
    fix p ve' assume "p = \<lparr>progressBytes = int (length src), progressError = None\<rparr>
      \<and> arena_to (v', vfs') (overwritten ?ext (xs @ es) start src (arena_of v')) ve'"
    then have p: "p = \<lparr>progressBytes = int (length src), progressError = None\<rparr>" "arena_step (v', vfs') ve'" "arena_tracked ve'"
      "overwritten ?ext (xs @ es) start src (arena_of v') (arena_of (fst ve'))" by (simp_all add: arena_to_def)
    have "patched ?ext (xs @ es) (max m (start + int (length src))) (putBytes start src f) (arena_of v) (arena_of (fst ve'))"
      by (rule patched_overwritten [OF h(3) p(4) ys(1) range(1,2) ys(3) range(3)])
    then have "grown_arena v vfs xs es (max m (start + int (length src))) (putBytes start src f) ve'"
      unfolding grown_arena_def arena_to_def
      using h(4,5) p(2,3) overwritten_length [OF p(4)] arena_step_trans [OF h(1) p(2)] by (intro exI [of _ h]) simp
    with p(1) show "p = \<lparr>progressBytes = int (length src), progressError = None\<rparr>
       \<and> grown_arena v vfs xs es (max m (start + int (length src))) (putBytes start src f) ve'" by simp
  qed
qed

end


text \<open>
  \<open>write\<close> on a descriptor of a linked file, as a whole: it is refused without any effect, or a prefix of
  the data, not empty, is in the file when it returns.
\<close>

section \<open>Outcomes\<close>

text \<open>Where a write starts: at the end of the file, at the position given, or at the offset of the descriptor.\<close>

definition writeStart :: "Descriptor \<Rightarrow> byte list \<Rightarrow> int option \<Rightarrow> int" where
  "writeStart d file position = (if descAppend d then int (length file) else startAt d position)"

definition wrote ::
  "'h host_view \<Rightarrow> 'h RepackedVfs \<Rightarrow> int \<Rightarrow> Descriptor \<Rightarrow> byte list \<Rightarrow> int option \<Rightarrow> byte list \<Rightarrow> int
    \<Rightarrow> 'h host_view \<times> 'h RepackedVfs \<Rightarrow> bool" where
  "wrote v vfs fd d file position src m ve \<longleftrightarrow> 0 \<le> writeStart d file position \<and> (\<exists>v1 vfs1.
     written v vfs (descInodeId d) (putBytes (writeStart d file position) (take (nat m) src) file) (v1, vfs1)
     \<and> ve = (v1, movedTo fd position (writeStart d file position + m) vfs1))"

text \<open>The limits admit at least a part of the data.\<close>

definition write_admitted ::
  "'h RepackedVfs \<Rightarrow> Descriptor \<Rightarrow> byte list \<Rightarrow> int option \<Rightarrow> byte list \<Rightarrow> int \<Rightarrow> bool" where
  "write_admitted vfs d file position src now \<longleftrightarrow> 0 \<le> writeStart d file position \<and> src \<noteq> []
     \<and> u64 (writeStart d file position + int (length src))
     \<and> (\<exists>inode n xs mp. linkedFile (descInodeId d) vfs = Inr (inode, n, xs)
          \<and> planLinkedWrite inode n (writeStart d file position) (int (length src)) now vfs = Inr mp)"

lemma gap_filled:
  assumes "n = int (length f)" "0 \<le> start"
  shows "putBytes start src (putBytes n (zeros (nat (start - n))) f) = putBytes start src f"
    and "int (length (putBytes n (zeros (nat (start - n))) f)) = max n start"
proof -
  have len: "length (putBytes n (zeros (nat (start - n))) f) = nat n + nat (start - n)"
    using assms(1) by (simp add: putBytes_end)
  then show "int (length (putBytes n (zeros (nat (start - n))) f)) = max n start" using assms by simp
  show "putBytes start src (putBytes n (zeros (nat (start - n))) f) = putBytes start src f"
  proof (cases "n \<le> start")
    case True
    then show ?thesis using putBytes_gap [OF assms(1)] by blast
  next
    case False
    then have "zeros (nat (start - n)) = []" by simp
    then show ?thesis using putBytes_nothing [OF assms(1)] by simp
  qed
qed

lemma admitted_pos: "admitted_write vfs k n xs start m plan es \<Longrightarrow> 0 < m"
  by (simp add: admitted_write_def)

lemma grown_arena_here:
  assumes live: "live_engine v vfs" and old: "fileState (vfsState vfs) k = Some (n, xs)"
    and data: "fileData v (vfsState vfs) k = Some data"
  shows "grown_arena v vfs xs [] n data (v, vfs)"
proof -
  have "data = fileContents (arena_of v) (extentSize (vfsState vfs)) xs n" using old data by (simp add: fileData_def)
  moreover have "spans (arena_of v) (extentSize (vfsState vfs)) xs"
    by (rule live_spans [OF live file_extents_ok [OF live_engineD(1) [OF live] old]])
  ultimately have "patched (extentSize (vfsState vfs)) (xs @ []) n data (arena_of v) (arena_of v)"
    using patched_refl by simp
  then show ?thesis using live_engineD(5) [OF live]
    by (auto simp: grown_arena_def arena_to_def arena_agrees_def newTotal_def
        intro!: exI [of _ "arenaHighWaterExtents (vfsStore vfs)"])
qed

context store_host
begin

text \<open>However a write is admitted.\<close>

lemma admit_leads:
  assumes live: "live_engine v vfs" and linked: "linkedFile k vfs = Inr (inode, n, xs)"
    and data: "fileData v (vfsState vfs) k = Some data" and range: "0 \<le> start" "0 < len" "requestedEnd = start + len"
    and plan: "n < requestedEnd \<Longrightarrow> planLinkedWrite inode n start len now vfs = Inr mp"
  shows "leads (v, vfs) (admitLinked ops clock k (inode, n, xs) start len requestedEnd now) (\<lambda>p ve.
    \<exists>m plan es. admitted_write vfs k n xs start m plan es \<and> m \<le> len \<and> (requestedEnd \<le> n \<longrightarrow> m = len) \<and> lwpSize p = n \<and> lwpExtents p = xs \<and> lwpLength p = m
      \<and> lwpPlan p = plan \<and> lwpAllocated p = es
      \<and> grown_arena v vfs xs es (max n start) (putBytes n (zeros (nat (start - n))) data) ve)"
proof (cases "n < requestedEnd")
  case True
  obtain m plan where mp: "mp = (m, plan)" by (metis surj_pair)
  note pl = plan [OF True, unfolded mp]
  obtain es where es: "m \<le> len" "admitted_write vfs k n xs start m plan es"
    using planLinkedWrite_admits [OF live linked pl range(2)] by blast
  show ?thesis
    by (rule reaches_weaken, rule admitLinked_leads [OF live linked pl es(2) data range(1) True]) (use es True in auto)
next
  case False
  have fs: "fileState (vfsState vfs) k = Some (n, xs)" by (rule linkedFile_state [OF linked])
  note inv = live_engineD(1) [OF live]
  note ext_ok = file_extents_ok [OF inv fs]
  have "n = int (length data)" using length_contents [OF live ext_ok] data fs by (simp add: fileData_def)
  then have "putBytes n (zeros (nat (start - n))) data = data" "max n start = n"
    using False range putBytes_nothing [of n data] by auto
  moreover have "admitted_write vfs k n xs start len None []"
    using range False ext_ok extents_ok_addressable [OF inv ext_ok] alloc_invD(10) [OF vfs_invD(3) [OF inv]]
    by (simp add: admitted_write_def extents_ok_def)
  ultimately show ?thesis
    unfolding admitLinked_def prod.case if_not_P [OF False]
    using grown_arena_here [OF live fs data] by - (rule reaches_ret, simp)
qed

text \<open>The size of the file follows the data.\<close>

lemma commitGrowth_leads:
  assumes live: "live_engine v vfs" and old: "fileState (vfsState vfs) k = Some (n, xs)"
    and adm: "admitted_write vfs k n xs start m (lwpPlan p) es" and p: "lwpSize p = n"
    and grown: "grown_arena v vfs xs es (max n (start + m)) f ve"
  shows "leads ve (commitGrowth ops p (start + m) now) (\<lambda>_. written v vfs k f)"
proof (cases "lwpPlan p")
  case None
  then have a: "es = []" "start + m \<le> n" using adm by (simp_all add: admitted_write_def)
  then have "\<not> start + m > lwpSize p" "max n (start + m) = n" using p by simp_all
  then show ?thesis
    using written_in_place [OF live old, of f "fst ve" "snd ve"] grown a(1)
    by (simp add: commitGrowth_def) (rule reaches_ret, simp)
next
  case (Some plan)
  obtain txn prepared where pl: "plan = (txn, prepared)" by (metis surj_pair)
  have a: "n < start + m" "grows_to vfs k xs (start + m) es txn prepared"
    "\<forall>e\<in>set es. map_of (ownedBy (allocator (vfsState vfs))) e = None \<and> map_of (quarantine (allocator (vfsState vfs))) e = None"
    using adm unfolding admitted_write_def Some pl by auto
  have "start + m = plannedSize txn" "max n (start + m) = start + m" using a(1,2) by (simp_all add: grows_to_def)
  moreover have "leads ve (commit ops txn (Some prepared)) (\<lambda>_. written v vfs k f)"
    by (rule written_by_commit [OF live old _ a(2,3)]) (use grown calculation in simp)
  ultimately show ?thesis using a(1) p by (simp add: commitGrowth_def Some pl)
qed

lemma store_leads:
  assumes live: "live_engine v vfs" and linked: "linkedFile (descInodeId d) vfs = Inr (inode, n, xs)"
    and data: "fileData v (vfsState vfs) (descInodeId d) = Some data"
    and start: "start = writeStart d data position" "0 \<le> start"
    and adm: "admitted_write vfs (descInodeId d) n xs start m (lwpPlan p) es" and m: "m \<le> int (length src)"
    and p: "lwpSize p = n" "lwpExtents p = xs" "lwpLength p = m" "lwpAllocated p = es"
    and grown: "grown_arena v vfs xs es (max n start) (putBytes n (zeros (nat (start - n))) data) ve"
  shows "leads ve (iobind (writeLogical ops (lwpExtents p) start (take (nat (lwpLength p)) src) label (lwpAllocated p)) (\<lambda>progress.
      if progressBytes progress = 0 then failStore (progressCause progress)
      else iobind (iolift (checkedAdd start (progressBytes progress))) (\<lambda>completedEnd.
        iobind (commitGrowth ops p completedEnd now) (\<lambda>_. iobind (moveOffset fd position completedEnd) (\<lambda>_.
          ioret (progressBytes progress))))))
    (\<lambda>r ve. r = m \<and> wrote v vfs fd d data position src m ve)"
proof -
  let ?k = "descInodeId d" and ?ext = "extentSize (vfsState vfs)"
  have fs: "fileState (vfsState vfs) ?k = Some (n, xs)" by (rule linkedFile_state [OF linked])
  note ext_ok = file_extents_ok [OF live_engineD(1) [OF live] fs]
  have n: "n = int (length data)" using length_contents [OF live ext_ok] data fs by (simp add: fileData_def)
  have a: "distinct (xs @ es)" "addressable ?ext (xs @ es)" "start + m \<le> int (length (xs @ es)) * ?ext"
    "n \<le> int (length (xs @ es)) * ?ext" "0 < m"
    using adm by (auto simp: admitted_write_def)
  let ?src = "take (nat m) src"
  have len: "int (length ?src) = m" using m a(5) by simp
  note gap = gap_filled [OF n start(2)]
  have range: "max n start \<le> int (length (xs @ es)) * ?ext" "start \<le> max n start"
    "start + int (length ?src) \<le> int (length (xs @ es)) * ?ext"
    using a len by linarith+
  note put = data_leads [OF live grown gap(2) a(1,2) range(1) start(2) range(2,3), of label, unfolded gap(1) len]
  have add: "checkedAdd start m = Inr (start + m)"
    using start(2) a(3,5) addressable_size(3) [OF a(2)] by (intro add_Inr) linarith+
  have "max (max n start) (start + m) = max n (start + m)" using a(5) by simp
  note put = put [unfolded this]
  note grow = commitGrowth_leads [OF live fs adm p(1)]
  show ?thesis unfolding p
    apply (rule reaches_bind [OF put], elim conjE, hypsubst)
    apply (simp only: WriteProgress.select_convs a(5) [THEN less_imp_neq, THEN not_sym] if_False add iobind_lift)
    apply (rule reaches_bind [OF grow], assumption)
    apply (simp only: moveOffset_updates)
    subgoal for x v' y ve'
      apply (cases ve', hypsubst, rule reaches_updates, rule reaches_ret)
      using start(2) apply (auto simp: wrote_def start(1))
      done
    done
qed

text \<open>
  A write on a linked descriptor: refused without effect, or done. It is done in full when it ends within the
  file or the limits admit it.
\<close>

lemma writeLinked_outcome:
  assumes live: "live_engine v vfs" and data: "fileData v (vfsState vfs) (descInodeId d) = Some data"
  shows "\<exists>r ve. runs (v, vfs) (writeLinked ops clock fd d src position now) r ve \<and> (case r of
      Inl e \<Rightarrow> ve = (v, vfs)
    | Inr m \<Rightarrow> if src = [] then m = 0 \<and> ve = (v, vfs)
        else 0 < m \<and> m \<le> int (length src) \<and> wrote v vfs fd d data position src m ve)
    \<and> (0 \<le> writeStart d data position \<and> writeStart d data position + int (length src) \<le> int (length data)
        \<longrightarrow> r = Inr (int (length src)))
    \<and> (write_admitted vfs d data position src now \<longrightarrow> (\<exists>m. r = Inr m))"
    (is "\<exists>r ve. runs _ ?m r ve \<and> ?ok r ve")
proof -
  obtain n xs where fs: "fileState (vfsState vfs) (descInodeId d) = Some (n, xs)"
    "data = fileContents (arena_of v) (extentSize (vfsState vfs)) xs n"
    using data by (auto simp: fileData_def)
  then obtain inode where linked: "linkedFile (descInodeId d) vfs = Inr (inode, n, xs)"
    by (auto simp: linkedFile_Inr fileState_Some)
  have n: "n = int (length data)"
    using length_contents [OF live file_extents_ok [OF live_engineD(1) [OF live] fs(1)]] fs(2) by simp
  define start where "start = writeStart d data position"
  have at: "(if descAppend d then n else case position of Some at \<Rightarrow> at | None \<Rightarrow> descOffset d) = start"
    by (simp add: start_def writeStart_def startAt_def n)
  let ?len = "int (length src)"
  let ?rest = "\<lambda>inode present extents requestedEnd. iobind (admitLinked ops clock (descInodeId d) (inode, present, extents) start ?len requestedEnd now) (\<lambda>plan.
       iobind (writeLogical ops (lwpExtents plan) start (take (nat (lwpLength plan)) src) ''arena.write''
                 (lwpAllocated plan)) (\<lambda>progress.
       if progressBytes progress = 0 then failStore (progressCause progress)
       else
         iobind (iolift (checkedAdd start (progressBytes progress))) (\<lambda>completedEnd.
         iobind (commitGrowth ops plan completedEnd now) (\<lambda>_.
         iobind (moveOffset fd position completedEnd) (\<lambda>_.
           ioret (progressBytes progress))))))"
  let ?body = "if start < 0 then iofail (FsError EINVAL) else if src = [] then ioret 0
     else iobind (iolift (checkedAdd start ?len)) (?rest inode n xs)"
  have via: "runs (v, vfs) ?m r ve" if "runs (v, vfs) ?body r ve" for r ve
    unfolding writeLinked_def
    by (rule steps_asksRes [where f = "linkedFile (descInodeId d)", OF linked]) (simp only: prod.case at Let_def that)
  have refuse: "\<exists>r ve. runs (v, vfs) ?m r ve \<and> ?ok r ve"
    if "runs (v, vfs) ?body (Inl e) (v, vfs)" "start < 0 \<or> n < start + ?len"
      "\<not> write_admitted vfs d data position src now" for e
    using via [OF that(1)] that(2,3) by (intro exI [of _ "Inl e"] exI [of _ "(v, vfs)"]) (auto simp: start_def n)
  consider (negative) "start < 0" | (void) "0 \<le> start" "src = []" | (range) e where "0 \<le> start" "src \<noteq> []" "checkedAdd start ?len = Inl e"
    | (some) stop where "0 \<le> start" "src \<noteq> []" "checkedAdd start ?len = Inr stop"
    by (cases "checkedAdd start ?len") (auto simp: not_less [symmetric])
  then show ?thesis
  proof cases
    case negative
    then show ?thesis by (intro refuse [of "FsError EINVAL"]) (simp_all add: write_admitted_def start_def [symmetric])
  next
    case void
    then have "runs (v, vfs) ?body (Inr 0) (v, vfs)" by simp
    from via [OF this] void(2) show ?thesis by (intro exI [of _ "Inr 0"] exI [of _ "(v, vfs)"]) simp
  next
    case (range e)
    have cap: "n \<le> MAX_SAFE_INTEGER"
      using file_extents_ok [OF live_engineD(1) [OF live] fs(1)]
        addressable_size(3) [OF extents_ok_addressable [OF live_engineD(1) [OF live] file_extents_ok [OF live_engineD(1) [OF live] fs(1)]]]
      by (simp add: extents_ok_def)
    have "n < start + ?len"
    proof (rule ccontr)
      assume "\<not> n < start + ?len"
      then have "checkedAdd start ?len = Inr (start + ?len)" using range(1) cap by (intro add_Inr) linarith+
      with range(3) show False by simp
    qed
    moreover have "\<not> write_admitted vfs d data position src now"
      using range(3) by (auto simp: write_admitted_def start_def [symmetric] checkedAdd_def checkedU64_def u64_def split: if_splits)
    ultimately show ?thesis using range by (intro refuse [of e]) simp_all
  next
    case (some stop)
    have stop: "stop = start + ?len" using some(3) by (auto simp: checkedAdd_def checkedU64_def split: if_splits)
    have body: "?body = ?rest inode n xs stop" using some by (simp only: not_less [symmetric] if_False iobind_lift)
    show ?thesis
    proof (cases "n < stop \<and> (\<exists>e. planLinkedWrite inode n start ?len now vfs = Inl e)")
      case True
      then obtain e where e: "n < stop" "planLinkedWrite inode n start ?len now vfs = Inl e" by blast
      have no_plan: "runs (v, vfs) (linkedWritePlan ops (descInodeId d) start ?len now) (Inl e) (v, vfs)"
        unfolding linkedWritePlan_def
        by (rule steps_asksRes [where f = "linkedFile (descInodeId d)", OF linked], simp only: prod.case)
          (rule steps_ask_fails, rule e(2))
      have "runs (v, vfs) ?body (Inl e) (v, vfs)"
        unfolding body
        apply (rule steps_bind_fail)
        apply (simp only: admitLinked_def prod.case if_P [OF e(1)] Let_def)
        apply (rule steps_bind_fail [OF no_plan])
        done
      moreover have "\<not> write_admitted vfs d data position src now"
        using e(2) linked by (auto simp: write_admitted_def start_def [symmetric])
      ultimately show ?thesis by (intro refuse) (use e(1) stop in simp_all)
    next
      case False
      then obtain mp where mp: "n < stop \<Longrightarrow> planLinkedWrite inode n start ?len now vfs = Inr mp"
        by (cases "planLinkedWrite inode n start ?len now vfs") auto
      have pos: "0 < ?len" using some(2) by simp
      have "leads (v, vfs) (?rest inode n xs stop) (\<lambda>m ve. 0 < m \<and> m \<le> ?len \<and> (stop \<le> n \<longrightarrow> m = ?len) \<and> wrote v vfs fd d data position src m ve)"
        apply (rule reaches_bind [OF admit_leads [OF live linked data some(1) pos stop mp]], assumption)
        apply (elim exE conjE)
        apply (rule reaches_weaken, rule store_leads [OF live linked data start_def some(1)])
               apply (auto dest: admitted_pos)
        done
      then obtain m ve where "runs (v, vfs) ?body (Inr m) ve" "0 < m" "m \<le> ?len" "stop \<le> n \<longrightarrow> m = ?len"
          "wrote v vfs fd d data position src m ve"
        unfolding reaches_def body by blast
      from via [OF this(1)] this(2-5) some(2) stop show ?thesis
        by (intro exI [of _ "Inr m"] exI [of _ ve]) (auto simp: start_def n)
    qed
  qed
qed

text \<open>
  \<open>write\<close> itself. The data is the range of the buffer; a write of nothing returns 0.
\<close>

lemma write_file_outcome:
  assumes live: "live_engine v vfs" and linked: "\<forall>d. descriptor fd vfs = Inr d \<longrightarrow> descOrphan d = None"
    and src_def: "src = take (nat len) (drop (nat offset) target)"
  shows "\<exists>r ve. runs (v, vfs) (write_file ops clock fd target offset len position now) r ve \<and> (case r of
      Inl e \<Rightarrow> ve = (v, vfs)
    | Inr m \<Rightarrow> \<exists>d data. descriptor fd vfs = Inr d \<and> descWritable d \<and> fileData v (vfsState vfs) (descInodeId d) = Some data
        \<and> (if src = [] then m = 0 \<and> ve = (v, vfs)
           else 0 < m \<and> m \<le> int (length src) \<and> wrote v vfs fd d data position src m ve))
    \<and> (\<forall>d data. validateBufferRange target offset len = Inr () \<and> u64 now \<and> descriptor fd vfs = Inr d \<and> descWritable d
        \<and> fileData v (vfsState vfs) (descInodeId d) = Some data
        \<and> 0 \<le> writeStart d data position \<and> writeStart d data position + int (length src) \<le> int (length data)
        \<longrightarrow> r = Inr (int (length src)))
    \<and> (\<forall>d data. validateBufferRange target offset len = Inr () \<and> u64 now \<and> descriptor fd vfs = Inr d \<and> descWritable d
        \<and> fileData v (vfsState vfs) (descInodeId d) = Some data \<and> write_admitted vfs d data position src now
        \<longrightarrow> (\<exists>m. r = Inr m))"
    (is "\<exists>r ve. runs _ ?m r ve \<and> ?ok r ve \<and> ?full r \<and> ?some r")
proof -
  let ?body = "iobind (iolift (validateBufferRange target offset len)) (\<lambda>_. iobind (iolift (checkedU64 now)) (\<lambda>_.
     iobind (asksRes (descriptor fd)) (\<lambda>d.
     if \<not> descWritable d then iofail (FsError EBADF)
     else
       let source = take (nat len) (drop (nat offset) target) in
       case descOrphan d of
         Some i \<Rightarrow> writeOrphan ops clock fd d i source position now
       | None \<Rightarrow> writeLinked ops clock fd d source position now)))"
  have via: "runs (v, vfs) ?m r ve" if "runs (v, vfs) ?body r ve" for r ve
    unfolding write_file_def assertHealthy_def
    by (rule steps_asksRes [where f = checkOpen, OF live_engineD(3) [OF live]]) (rule that)
  have refuse: "\<exists>r ve. runs (v, vfs) ?m r ve \<and> ?ok r ve \<and> ?full r \<and> ?some r"
    if "runs (v, vfs) ?body (Inl e) (v, vfs)" "?full (Inl e :: int res)" "?some (Inl e :: int res)" for e
    using via [OF that(1)] that(2,3) by (intro exI [of _ "Inl e"] exI [of _ "(v, vfs)"]) simp
  consider (range) e where "validateBufferRange target offset len = Inl e"
    | (time) e where "validateBufferRange target offset len = Inr ()" "checkedU64 now = Inl e"
    | (fine) "validateBufferRange target offset len = Inr ()" "checkedU64 now = Inr now"
    by (cases "validateBufferRange target offset len"; cases "checkedU64 now") (auto simp: checkedU64_Inr)
  then show ?thesis
  proof cases
    case (range e)
    then show ?thesis by (intro refuse [of e]) simp_all
  next
    case (time e)
    moreover have "\<not> u64 now" using time(2) by (auto simp: checkedU64_Inr)
    ultimately show ?thesis by (intro refuse [of e]) simp_all
  next
    case fine
    note body = fine [unfolded iobind_lift]
    show ?thesis
    proof (cases "descriptor fd vfs")
      case (Inl e)
      have "runs (v, vfs) ?body (Inl e) (v, vfs)" unfolding fine iobind_lift
        by (rule steps_ask_fails [where f = "descriptor fd", OF Inl])
      then show ?thesis by (rule refuse) (simp_all add: Inl)
    next
      case (Inr d)
      have sub: "runs (v, vfs) ?body r ve" if "runs (v, vfs) (if \<not> descWritable d then iofail (FsError EBADF)
          else writeLinked ops clock fd d src position now) r ve" for r ve
        unfolding fine iobind_lift
        by (rule steps_asksRes [where f = "descriptor fd", OF Inr]) (use that [unfolded src_def] linked [rule_format, OF Inr] in \<open>simp split: if_splits\<close>)
      consider "\<not> descWritable d" | "descWritable d" "fileData v (vfsState vfs) (descInodeId d) = None"
        | data where "descWritable d" "fileData v (vfsState vfs) (descInodeId d) = Some data" by auto
      then show ?thesis
      proof cases
        case 1
        then have "runs (v, vfs) ?body (Inl (FsError EBADF)) (v, vfs)" by (intro sub) simp
        then show ?thesis by (rule refuse) (simp_all add: Inr 1)
      next
        case 2
        have "linkedFile (descInodeId d) vfs = Inl (FsError EBADF)"
          using 2(2) by (auto simp: fileData_def fileState_def linkedFile_def split: option.splits InodeBody.splits)
        then have "runs (v, vfs) (writeLinked ops clock fd d src position now) (Inl (FsError EBADF)) (v, vfs)"
          unfolding writeLinked_def by (rule steps_ask_fails [where f = "linkedFile (descInodeId d)"])
        then have "runs (v, vfs) ?body (Inl (FsError EBADF)) (v, vfs)" using 2(1) by (intro sub) simp
        then show ?thesis by (rule refuse) (simp_all add: Inr 2)
      next
        case (3 data)
        obtain r ve where o: "runs (v, vfs) (writeLinked ops clock fd d src position now) r ve"
          "case r of Inl e \<Rightarrow> ve = (v, vfs) | Inr m \<Rightarrow> if src = [] then m = 0 \<and> ve = (v, vfs)
             else 0 < m \<and> m \<le> int (length src) \<and> wrote v vfs fd d data position src m ve"
          "0 \<le> writeStart d data position \<and> writeStart d data position + int (length src) \<le> int (length data)
             \<longrightarrow> r = Inr (int (length src))"
          "write_admitted vfs d data position src now \<longrightarrow> (\<exists>m. r = Inr m)"
          using writeLinked_outcome [OF live 3(2)] by blast
        have "runs (v, vfs) ?body r ve" using o(1) 3(1) by (intro sub) simp
        note run = via [OF this]
        have "?ok r ve"
        proof (cases r)
          case (Inr m)
          then show ?thesis unfolding \<open>r = Inr m\<close> sum.case
            by (intro exI [of _ d] exI [of _ data]) (use o(2) 3 \<open>r = Inr m\<close> \<open>descriptor fd vfs = Inr d\<close> in simp)
        qed (use o(2) in simp)
        moreover have "?full r"
        proof (intro allI impI, elim conjE)
          fix d' data'
          assume "descriptor fd vfs = Inr d'" "fileData v (vfsState vfs) (descInodeId d') = Some data'"
            "0 \<le> writeStart d' data' position" "writeStart d' data' position + int (length src) \<le> int (length data')"
          then show "r = Inr (int (length src))" using o(3) 3(2) Inr by simp
        qed
        moreover have "?some r" using o(4) 3(2) Inr by simp
        ultimately show ?thesis using run by blast
      qed
    qed
  qed
qed

end

end
