(* ===== verification/EngineKeeps.thy ===== *)
theory EngineKeeps
  imports DescriptorWrites EngineProperties VfsOperations
begin

text \<open>
  Operations on the tree, opening and closing descriptors, and syncs keep the engine live: its arena holds
  every file, and a file whose last path goes away while it is open becomes an orphan with its extents.
\<close>

section \<open>Records that plan no extents\<close>

lemma reduce_total:
  assumes "plannedRuns txn = []" "reduceTxn st txn = (None, st')"
  shows "totalExtents (allocator st') = totalExtents (allocator st)"
proof -
  have entry: "totalExtents (allocator (snd (applyDirectoryEntry e s))) = totalExtents (allocator s)" for e s
    by (auto simp: applyDirectoryEntry_def Let_def update_simps split: sum.splits)
  have entries: "totalExtents (allocator (snd (applyDirectoryEntries es s))) = totalExtents (allocator s)" for es s
  proof (induction es arbitrary: s)
    case (Cons e es)
    with entry [of e s] show ?case by (auto split: prod.splits option.splits)
  qed simp
  have release: "totalExtents (fold releaseExtent es a) = totalExtents a" for es a
    by (induction es arbitrary: a) simp_all
  have runs: "validateExtentAssignment st [] n = Inr es \<Longrightarrow> es = []" for n es
    by (auto simp: validateExtentAssignment_def expandExtentRuns_def ebind_eq_Inr split: if_splits)
  show ?thesis
  proof (cases txn)
    case (CreateDirectories es)
    then show ?thesis using assms(2) entries [of es st] by (auto simp: reduceTxn_def split: sum.splits)
  next
    case (CreateFile choice n rs)
    then show ?thesis using assms
      by (auto simp: reduceTxn_def liftReducer_eq plannedRuns_def applyCreateFile_def res_simps Let_def update_simps dest!: runs)
  next
    case (RemoveFile p nm m c)
    then show ?thesis using assms release
      by (auto simp: reduceTxn_def liftReducer_eq applyRemoveFile_def res_simps Let_def update_simps split: option.splits)
  next
    case (RemoveDirectory p nm m c)
    then show ?thesis using assms
      by (auto simp: reduceTxn_def liftReducer_eq applyRemoveDirectory_def res_simps Let_def update_simps split: option.splits)
  next
    case (ChangeMode k bits c)
    then show ?thesis using assms by (auto simp: reduceTxn_def liftReducer_eq applyChangeMode_def res_simps Let_def update_simps)
  next
    case (ChangeTimes k a m c)
    then show ?thesis using assms by (auto simp: reduceTxn_def liftReducer_eq applyChangeTimes_def res_simps Let_def update_simps)
  next
    case (ResizeFile operation k n rs m c)
    then show ?thesis using assms release
      by (auto simp: reduceTxn_def liftReducer_eq plannedRuns_def applyResizeFile_def res_simps Let_def update_simps dest!: runs)
  next
    case (Rename sp sn dp dn m)
    then show ?thesis using assms release
      by (auto simp: reduceTxn_def liftReducer_eq applyRename_def commitRename_def res_simps Let_def update_simps split: option.splits)
  next
    case (CreateSymlink choice target)
    then show ?thesis using assms by (auto simp: reduceTxn_def liftReducer_eq applyCreateSymlink_def res_simps Let_def update_simps)
  next
    case (ReserveQuarantine rs)
    then show ?thesis using assms by (auto simp: reduceTxn_def liftReducer_eq plannedRuns_def applyReserveQuarantine_def Let_def)
  qed
qed

lemma apply_total:
  "plannedRuns txn = [] \<Longrightarrow> applyTxn st txn None = (None, st') \<Longrightarrow> totalExtents (allocator st') = totalExtents (allocator st)"
  by (auto simp: applyTxn_None dest: reduce_total)

section \<open>A path that goes away\<close>

text \<open>The extents of the file at a path that is unlinked, or replaced by a rename, are quarantined.\<close>

lemma unlink_frees:
  assumes inv: "vfs_inv st" and plan: "planUnlink st p now = Inr txn" and run: "applyTxn st txn None = (None, st')"
    and found: "getInodeAtPath st p = Inr inode" and e: "e \<in> set (fileExtents inode)"
  shows "map_of (quarantine (allocator st')) e \<noteq> None"
proof -
  obtain pp name i s where sh: "p = render_path (pp @ [name])" "path_ok (pp @ [name])" "lookup st pp = Some i"
    "accepted st txn s" "applyRemoveFile st i name now now = Inr s"
    by (rule planUnlink_shape [OF inv plan]) (rule that, assumption+)
  obtain d k target where k: "imap st i = Some d" "map_of (children d) name = Some k" "imap st k = Some target"
    "allocator s = fold releaseExtent (fileExtents target) (allocator st)"
    by (rule removeFile_parts [OF sh(5)])
  obtain cs j where c: "path_ok cs" "p = render_path cs" "lookup st cs = Some j" "imap st j = Some inode"
    using found getInodeAtPath_Inr [OF vfs_invD(1,2) [OF inv]] by blast
  have "cs = pp @ [name]" using c(1,2) sh(1,2) by (metis parsePath_complete Inr_inject)
  then have "target = inode" using sh(3) k(1-3) c(3,4) by (simp add: lookup_snoc child_of_def)
  moreover have "allocator st' = allocator s" by (rule accepted_run [OF sh(4)]) (use run in simp)
  ultimately show ?thesis using e k(4) by (simp add: released_quarantine)
qed

lemma rename_parts:
  assumes "applyRename st sp sn dp dn now = Inr st'" "imap st dp = Some d" "map_of (children d) dn = Some k" "imap st k = Some target"
  shows "allocator st' = fold releaseExtent (fileExtents target) (allocator st)"
  using assms by (auto simp: applyRename_def commitRename_def res_simps Let_def update_simps directoryById_Inr
      optionalInodeById_def inodeById_Inr split: option.splits)

lemma rename_frees:
  assumes inv: "vfs_inv st" and plan: "planRename st old new now = Inr txn" and run: "applyTxn st txn None = (None, st')"
    and found: "getInodeAtPath st new = Inr inode" and e: "e \<in> set (fileExtents inode)"
  shows "map_of (quarantine (allocator st')) e \<noteq> None"
proof -
  obtain pd dn sp sn dp s where sh: "new = render_path (pd @ [dn])" "path_ok (pd @ [dn])" "lookup st pd = Some dp"
    "accepted st txn s" "applyRename st sp sn dp dn now = Inr s"
    by (rule planRename_shape [OF inv plan]) (rule that, assumption+)
  obtain cs j where c: "path_ok cs" "new = render_path cs" "lookup st cs = Some j" "imap st j = Some inode"
    using found getInodeAtPath_Inr [OF vfs_invD(1,2) [OF inv]] by blast
  have "cs = pd @ [dn]" using c(1,2) sh(1,2) by (metis parsePath_complete Inr_inject)
  then obtain d where "imap st dp = Some d" "map_of (children d) dn = Some j"
    using sh(3) c(3) by (auto simp: lookup_snoc child_of_def split: option.splits)
  from rename_parts [OF sh(5) this c(4)] have "allocator s = fold releaseExtent (fileExtents inode) (allocator st)" .
  moreover have "allocator st' = allocator s" by (rule accepted_run [OF sh(4)]) (use run in simp)
  ultimately show ?thesis using e by (simp add: released_quarantine)
qed

section \<open>Commits\<close>

text \<open>A commit that allocates nothing, and what it leaves alone.\<close>

definition committed_live ::
  "'h host_view \<Rightarrow> 'h RepackedVfs \<Rightarrow> TxnRecord \<Rightarrow> 'h host_view \<times> 'h RepackedVfs \<Rightarrow> bool" where
  "committed_live v vfs txn ve \<longleftrightarrow> live_engine (fst ve) (snd ve) \<and> applyTxn (vfsState vfs) txn None = (None, vfsState (snd ve))
     \<and> arena_of (fst ve) = arena_of v \<and> orphans (snd ve) = orphans vfs \<and> descriptors (snd ve) = descriptors vfs
     \<and> nextDescriptor (snd ve) = nextDescriptor vfs"

context store_host
begin

lemma commit_live:
  assumes live: "live_engine v vfs" and pre: "preflightCommit txn vfs = Inr prepared" "record_fits txn"
    and runs_out: "plannedRuns txn = []" and plan: "planned (vfsState vfs) txn" and given: "po = None \<or> po = Some prepared"
  shows "\<exists>ve. runs (v, vfs) (commit ops txn po) (Inr ()) ve \<and> committed_live v vfs txn ve"
proof -
  note inv = live_engineD(1) [OF live]
  obtain selected other st txns logged where e: "engine_image v vfs selected other st txns logged"
    using live by (auto simp: live_engine_def)
  obtain st' where st': "applyTxn (vfsState vfs) txn None = (None, st')" "vfs_inv st'" "paths_ok st'"
    by (rule planned_applies [OF inv live_engineD(2) [OF live] plan])
  obtain v' vfs' txns' logged' where c: "runs (v, vfs) (commit ops txn po) (Inr ()) (v', vfs')"
    "engine_image v' vfs' selected other st txns' logged'" "vfsState vfs' = st'" "same_engine vfs vfs'" "same_arena v v'"
    using commit_image [OF e pre st'(1,3) given] by blast
  have arena: "arena_of v' = arena_of v" using c(5) by (simp add: same_arena_def arena_of_def)
  have keep: "orphans vfs' = orphans vfs" "descriptors vfs' = descriptors vfs" "nextDescriptor vfs' = nextDescriptor vfs"
    "arenaHighWaterExtents (vfsStore vfs') = arenaHighWaterExtents (vfsStore vfs)"
    using c(4) by (simp_all add: same_engine_def)
  have ext: "extentSize st' = extentSize (vfsState vfs)" using applyTxn_generation(2) [OF inv st'(1)] .
  have tracked: "arena_tracked (v', vfs')"
    using live_engineD(7) [OF live] engine_image_live(5) [OF c(2)] c(4,5) arena
    by (auto simp: arena_tracked_def same_engine_def same_arena_def)
  have "arena_agrees v' vfs'"
    using live_engineD(5) [OF live] tracked apply_total [OF runs_out st'(1)] ext
    by (simp add: arena_agrees_def c(3) arena keep(4))
  moreover have "orphans_kept vfs'"
    by (rule orphans_kept_txn [OF live_engineD(6) [OF live] keep(1,2)])
      (use st'(2) txn_framed [OF st'(1)] ext c(3) in simp_all)
  ultimately have "live_engine v' vfs'" using c(2) unfolding live_engine_def by blast
  then have "committed_live v vfs txn (v', vfs')" using st'(1) c(3) arena keep by (simp add: committed_live_def)
  with c(1) show ?thesis by blast
qed

text \<open>A commit that the preflight refuses does nothing.\<close>

lemma commit_outcome:
  assumes live: "live_engine v vfs" and txn: "planned (vfsState vfs) txn" "plannedRuns txn = []" "record_fits txn"
  shows "\<exists>r ve. runs (v, vfs) (commit ops txn None) r ve
    \<and> (case r of Inl _ \<Rightarrow> ve = (v, vfs) | Inr _ \<Rightarrow> committed_live v vfs txn ve)"
proof (cases "preflightCommit txn vfs")
  case (Inl e)
  have "runs (v, vfs) (commit ops txn None) (Inl e) (v, vfs)"
    unfolding commit_def assertHealthy_def
    by (rule steps_asksRes [where f = checkOpen, OF live_engineD(3) [OF live]])
      (simp, rule steps_ask_fails [where f = "preflightCommit txn", OF Inl])
  then show ?thesis by fastforce
next
  case (Inr prepared)
  from commit_live [OF live Inr txn(3,2,1), of None] show ?thesis by fastforce
qed

end

section \<open>Descriptors and orphans\<close>

lemma live_more:
  assumes "live_engine v vfs" "orphans_kept (vfs\<lparr>descriptors := ds, nextDescriptor := k, orphans := os\<rparr>)"
  shows "live_engine v (vfs\<lparr>descriptors := ds, nextDescriptor := k, orphans := os\<rparr>)"
proof -
  let ?vfs = "vfs\<lparr>descriptors := ds, nextDescriptor := k, orphans := os\<rparr>"
  obtain selected other st txns logged where "engine_image v vfs selected other st txns logged"
    using assms(1) by (auto simp: live_engine_def)
  then have "engine_image v ?vfs selected other st txns logged" by (auto simp: engine_image_def split: option.split)
  moreover have "arena_agrees v ?vfs" using live_engineD(5) [OF assms(1)] by (simp add: arena_agrees_def arena_tracked_def fileOf_def)
  ultimately show ?thesis using assms(2) unfolding live_engine_def by blast
qed

lemma live_descriptors:
  assumes live: "live_engine v vfs" and ds: "descriptors_kept ds (length (orphans vfs))"
  shows "live_engine v (vfs\<lparr>descriptors := ds, nextDescriptor := k\<rparr>)" "live_engine v (vfs\<lparr>descriptors := ds\<rparr>)"
proof -
  have kept: "orphans_kept (vfs\<lparr>descriptors := ds, nextDescriptor := j, orphans := orphans vfs\<rparr>)" for j
    using live_engineD(6) [OF live] ds by (simp add: orphans_kept_def)
  from live_more [OF live this] show "live_engine v (vfs\<lparr>descriptors := ds, nextDescriptor := k\<rparr>)" by simp
  from live_more [OF live kept [of "nextDescriptor vfs"]] show "live_engine v (vfs\<lparr>descriptors := ds\<rparr>)" by simp
qed

lemma live_kept: "live_engine v vfs \<Longrightarrow> descriptors_kept (descriptors vfs) (length (orphans vfs))"
  using live_engineD(6) by (auto simp: orphans_kept_def)

lemma live_moved:
  assumes live: "live_engine v vfs"
  shows "live_engine v (movedTo fd position n vfs)"
proof -
  have "descriptors_kept (map (\<lambda>(k, d). (k, if k = fd then d\<lparr>descOffset := n\<rparr> else d)) (descriptors vfs)) (length (orphans vfs))"
    using live_kept [OF live] by (fastforce simp: descriptors_kept_def split: if_splits)
  from live_descriptors(2) [OF live this] live show ?thesis by (simp add: movedTo_def setDescriptor_def split: option.split)
qed

lemma live_opened:
  assumes live: "live_engine v vfs" and d: "descOrphan d = None"
  shows "live_engine v (vfs\<lparr>nextDescriptor := k, descriptors := descriptors vfs @ [(fd, d)]\<rparr>)"
proof -
  have eq: "vfs\<lparr>nextDescriptor := k, descriptors := ds\<rparr> = vfs\<lparr>descriptors := ds, nextDescriptor := k\<rparr>" for ds by simp
  have "descriptors_kept (descriptors vfs @ [(fd, d)]) (length (orphans vfs))"
    using live_kept [OF live] d by (fastforce simp: descriptors_kept_def)
  from live_descriptors(1) [OF live this] show ?thesis unfolding eq .
qed

lemma live_closed:
  assumes live: "live_engine v vfs"
  shows "live_engine v (vfs\<lparr>descriptors := filter P (descriptors vfs)\<rparr>)"
  by (rule live_descriptors(2) [OF live]) (use live_kept [OF live] in \<open>auto simp: descriptors_kept_def\<close>)

text \<open>The orphan of a file that a record takes off the tree.\<close>

definition sheds :: "VfsState \<Rightarrow> TxnRecord \<Rightarrow> OrphanRecord \<Rightarrow> bool" where
  "sheds st txn orphan \<longleftrightarrow> extents_ok st (orphanSize orphan) (orphanExtents orphan)
     \<and> (\<forall>st'. applyTxn st txn None = (None, st') \<longrightarrow>
          (\<forall>e\<in>set (orphanExtents orphan). map_of (quarantine (allocator st')) e \<noteq> None))"

lemma live_orphaned:
  assumes live: "live_engine v vfs" and c: "committed_live v vfs txn (v', vfs')" and sheds: "sheds (vfsState vfs) txn orphan"
  shows "live_engine v' (orphaned fds orphan vfs')"
proof (cases "fds = []")
  case True
  then show ?thesis using c by (simp add: orphaned_def committed_live_def)
next
  case False
  let ?ds = "map (\<lambda>(fd, d). (fd, if fd \<in> set fds then d\<lparr>descOrphan := Some (length (orphans vfs'))\<rparr> else d)) (descriptors vfs')"
  have live': "live_engine v' vfs'" and run: "applyTxn (vfsState vfs) txn None = (None, vfsState vfs')"
    using c by (simp_all add: committed_live_def)
  have q: "\<forall>e\<in>set (orphanExtents orphan). map_of (quarantine (allocator (vfsState vfs'))) e \<noteq> None"
    using sheds run by (simp add: sheds_def)
  have ext: "extentSize (vfsState vfs') = extentSize (vfsState vfs)"
    using applyTxn_generation(2) [OF live_engineD(1) [OF live] run] .
  have "extents_ok (vfsState vfs') (orphanSize orphan) (orphanExtents orphan)"
    using sheds q alloc_inv_range [OF vfs_invD(3) [OF live_engineD(1) [OF live']]] unfolding sheds_def extents_ok_def ext by blast
  then have "orphan_kept (vfsState vfs') orphan" using q by (simp add: orphan_kept_def)
  moreover have "descriptors_kept ?ds (Suc (length (orphans vfs')))"
    using live_kept [OF live'] unfolding descriptors_kept_def by (auto split: if_splits) (metis less_SucI)
  ultimately have "orphans_kept (vfs'\<lparr>descriptors := ?ds, nextDescriptor := nextDescriptor vfs', orphans := orphans vfs' @ [orphan]\<rparr>)"
    using live_engineD(6) [OF live'] by (simp add: orphans_kept_def)
  note more = live_more [OF live' this]
  have eq: "vfs'\<lparr>orphans := os, descriptors := ds\<rparr> = vfs'\<lparr>descriptors := ds, nextDescriptor := nextDescriptor vfs', orphans := os\<rparr>"
    for os ds by simp
  show ?thesis unfolding orphaned_def if_not_P [OF False] eq by (rule more)
qed

section \<open>Calls\<close>

lemma chmod_plain: "planChmod st p bits now = Inr txn \<Longrightarrow> \<not> isResizeRecord txn \<and> plannedRuns txn = []"
  and mkdir_plain: "planMkdir st p recursive mode now = Inr txn \<Longrightarrow> \<not> isResizeRecord txn \<and> plannedRuns txn = []"
  and symlink_plain: "planSymlink st p target mode now = Inr txn \<Longrightarrow> \<not> isResizeRecord txn \<and> plannedRuns txn = []"
  and utimes_plain: "planUtimes st p a m c = Inr txn \<Longrightarrow> \<not> isResizeRecord txn \<and> plannedRuns txn = []"
  and rmdir_plain: "planRmdir st p now = Inr txn \<Longrightarrow> \<not> isResizeRecord txn \<and> plannedRuns txn = []"
  and unlink_plain: "planUnlink st p now = Inr txn \<Longrightarrow> \<not> isResizeRecord txn \<and> plannedRuns txn = []"
  and rename_plain: "planRename st p q now = Inr txn \<Longrightarrow> \<not> isResizeRecord txn \<and> plannedRuns txn = []"
  by (auto simp: planChmod_def planMkdir_def planSymlink_def planUtimes_def planRmdir_def planUnlink_def planRename_def
      checkedPlan_def ebind_eq_Inr isResizeRecord_def plannedRuns_def Let_def split: if_splits option.splits)

lemma treePlan_planned:
  "treePlan call st = Inr txn \<Longrightarrow> planned st txn \<and> \<not> isResizeRecord txn \<and> plannedRuns txn = []"
  by (cases call) (auto simp: ebind_eq_Inr dest: chmod_plain mkdir_plain symlink_plain utimes_plain rmdir_plain
      unlink_plain rename_plain intro: planned.intros)

text \<open>A call is refused without effect, or its outcome is that of a commit, up to the descriptors.\<close>

definition based_on_commit ::
  "('w, 'h) store_ops \<Rightarrow> TxnRecord res \<Rightarrow> 'w \<times> 'h RepackedVfs \<Rightarrow> unit res \<Rightarrow> 'w \<times> 'h RepackedVfs \<Rightarrow> bool" where
  "based_on_commit ops plan we r we' \<longleftrightarrow>
     ((\<exists>e. r = Inl e) \<and> we' = we)
     \<or> (\<exists>txn w1 vfs1. plan = Inr txn \<and> commit ops txn None we = (r, (w1, vfs1))
          \<and> (we' = (w1, vfs1) \<or> (r = Inr () \<and> (\<exists>fds orphan. sheds (vfsState (snd we)) txn orphan
              \<and> we' = (w1, orphaned fds orphan vfs1)))))"

lemma refused_based: "based_on_commit ops plan we (Inl e) we" "Inl e = r \<Longrightarrow> based_on_commit ops plan we r we"
  by (auto simp: based_on_commit_def)

lemma based_commit: "commit ops txn None we = (r, we') \<Longrightarrow> based_on_commit ops (Inr txn) we r we'"
  by (cases we') (auto simp: based_on_commit_def)

lemma based_commit_only:
  "iobind (commit ops txn None) ioret we = (r, we') \<Longrightarrow> based_on_commit ops (Inr txn) we r we'"
  by (cases we') (auto simp: based_on_commit_def iobind_run split: prod.splits sum.splits)

lemma orphaned_none [simp]: "orphaned [] orphan vfs = vfs"
  by (simp add: orphaned_def)

lemma based_commit_orphaned:
  assumes "iobind (commit ops txn None) (\<lambda>_. updates (orphaned fds orphan)) we = (r, we')"
    and "fds = [] \<or> sheds (vfsState (snd we)) txn orphan"
  shows "based_on_commit ops (Inr txn) we r we'"
proof -
  obtain rc w1 vfs1 where c: "commit ops txn None we = (rc, (w1, vfs1))" by (metis surj_pair)
  with assms show ?thesis by (cases rc) (auto simp: based_on_commit_def iobind_run)
qed

lemma sheds_file:
  assumes inv: "vfs_inv st" and found: "getInodeAtPath st p = Inr inode" and file_body: "body inode = File n xs"
    and frees: "\<And>st' e. applyTxn st txn None = (None, st') \<Longrightarrow> e \<in> set (fileExtents inode) \<Longrightarrow>
      map_of (quarantine (allocator st')) e \<noteq> None"
  shows "sheds st txn (orphanOf inode)"
proof -
  obtain k where "imap st k = Some inode" using found getInodeAtPath_Inr [OF vfs_invD(1,2) [OF inv]] by blast
  then have "extents_ok st n xs" using file_body by (intro file_extents_ok [OF inv]) (auto simp: fileState_Some)
  then show ?thesis using frees by (simp add: sheds_def orphanOf_def makeOrphanRecord_def file_body fileExtents_body(3) [OF file_body])
qed

lemma unlinked_sheds:
  assumes inv: "vfs_inv (vfsState vfs)" and found: "inodeAt p vfs = Inr inode" and plan: "planUnlink (vfsState vfs) p now = Inr txn"
  shows "affectedBy inode vfs = [] \<or> sheds (vfsState vfs) txn (orphanOf inode)"
proof (cases "body inode")
  case (File n xs)
  have "getInodeAtPath (vfsState vfs) p = Inr inode" using found by (simp add: inodeAt_def)
  from sheds_file [OF inv this File] unlink_frees [OF inv plan _ this] show ?thesis by blast
qed (simp_all add: affectedBy_def)

lemma renamed_sheds:
  assumes inv: "vfs_inv (vfsState vfs)" and found: "replacedFile q vfs = Inr (Some inode)"
    and plan: "planRename (vfsState vfs) p q now = Inr txn"
  shows "affectedBy inode vfs = [] \<or> sheds (vfsState vfs) txn (orphanOf inode)"
proof -
  have "getInodeAtPath (vfsState vfs) q = Inr inode" "\<exists>n xs. body inode = File n xs"
    using found by (auto simp: replacedFile_def inodeAt_def split: sum.splits if_splits InodeBody.splits)
  with sheds_file [OF inv this(1)] rename_frees [OF inv plan _ this(1)] show ?thesis by blast
qed

lemma unlink_based:
  assumes inv: "vfs_inv (vfsState (snd we))" and run: "unlink ops p now we = (r, we')"
  shows "based_on_commit ops (treePlan (UnlinkCall p now) (vfsState (snd we))) we r we'"
  using run
  by (auto simp: unlink_def assertHealthy_def engine_binds resolveIn_def split: sum.splits if_splits
      intro: refused_based elim!: based_commit_orphaned dest: unlinked_sheds [OF inv])

lemma rename_based:
  assumes inv: "vfs_inv (vfsState (snd we))" and run: "rename ops p q now we = (r, we')"
  shows "based_on_commit ops (treePlan (RenameCall p q now) (vfsState (snd we))) we r we'"
  using run
  by (auto simp: rename_def assertHealthy_def engine_binds resolveIn_def split: sum.splits if_splits option.splits
      intro: refused_based elim!: based_commit_only based_commit_orphaned dest: renamed_sheds [OF inv])

lemma runTree_based:
  assumes inv: "vfs_inv (vfsState (snd we))" and run: "runTree ops call we = (r, we')"
  shows "based_on_commit ops (treePlan call (vfsState (snd we))) we r we'"
proof (cases call)
  case (UnlinkCall p now)
  with unlink_based [OF inv] run show ?thesis by simp
next
  case (RenameCall p q now)
  with rename_based [OF inv] run show ?thesis by simp
qed (use run in \<open>auto simp: symlink_def mkdir_def chmod_def utimes_def rmdir_def commitPlanned_def assertHealthy_def
      engine_binds resolveIn_def split: sum.splits intro: refused_based based_commit\<close>)


text \<open>
  Every operation keeps the engine live on a host that keeps the store's contract: whatever it returns, the
  files are all there afterwards.
\<close>

section \<open>Computations that keep the engine live\<close>

definition keeps ::
  "('w \<Rightarrow> bool) \<Rightarrow> ('w \<Rightarrow> 'h host_view) \<Rightarrow> 'w \<times> 'h RepackedVfs \<Rightarrow> ('w, 'h, 'a) vfs \<Rightarrow> bool" where
  "keeps good view we m \<longleftrightarrow> (good (fst we) \<and> live_engine (view (fst we)) (snd we) \<longrightarrow>
     good (fst (snd (m we))) \<and> live_engine (view (fst (snd (m we)))) (snd (snd (m we))))"

lemma keepsD:
  "keeps good view (w, vfs) m \<Longrightarrow> good w \<Longrightarrow> live_engine (view w) vfs \<Longrightarrow> m (w, vfs) = (r, (w', vfs')) \<Longrightarrow>
     good w' \<and> live_engine (view w') vfs'"
  by (auto simp: keeps_def)

lemma keepsI:
  "(\<And>r w' vfs'. good w \<Longrightarrow> live_engine (view w) vfs \<Longrightarrow> m (w, vfs) = (r, (w', vfs')) \<Longrightarrow> good w' \<and> live_engine (view w') vfs')
     \<Longrightarrow> keeps good view (w, vfs) m"
  unfolding keeps_def by (metis fst_conv snd_conv prod.collapse)

lemma keeps_pure [simp]: "keeps good view we (ioret x)" "keeps good view we (iofail e)" "keeps good view we (iolift r)"
    "keeps good view we (asks f)" "keeps good view we (asksRes g)"
  by (simp_all add: keeps_def asks_def asksRes_def)

lemma keeps_asks: "keeps good view (w, vfs) (k (f vfs)) \<Longrightarrow> keeps good view (w, vfs) (iobind (asks f) k)"
  by (simp add: keeps_def iobind_run asks_def)

lemma keeps_asksRes:
  "(\<And>x. f vfs = Inr x \<Longrightarrow> keeps good view (w, vfs) (k x)) \<Longrightarrow> keeps good view (w, vfs) (iobind (asksRes f) k)"
  by (cases "f vfs") (auto simp: keeps_def iobind_run asksRes_def)

lemma keeps_lift: "(\<And>x. r = Inr x \<Longrightarrow> keeps good view we (k x)) \<Longrightarrow> keeps good view we (iobind (iolift r) k)"
  by (cases r) (auto simp: keeps_def iobind_run)

lemma keeps_bind:
  assumes "keeps good view we m" "\<And>x we'. m we = (Inr x, we') \<Longrightarrow> keeps good view we' (k x)"
  shows "keeps good view we (iobind m k)"
proof -
  obtain r we' where m: "m we = (r, we')" by (metis surj_pair)
  with assms show ?thesis by (cases r) (auto simp: keeps_def iobind_run)
qed

lemma keeps_catch:
  assumes "keeps good view we m" "\<And>e we'. m we = (Inl e, we') \<Longrightarrow> keeps good view we' (f e)"
  shows "keeps good view we (iocatch m f)"
proof -
  obtain r we' where m: "m we = (r, we')" by (metis surj_pair)
  with assms show ?thesis by (cases r) (auto simp: keeps_def iocatch_def)
qed

lemma keeps_updates:
  "(live_engine (view w) vfs \<Longrightarrow> live_engine (view w) (u vfs)) \<Longrightarrow> keeps good view (w, u vfs) m \<Longrightarrow>
     keeps good view (w, vfs) (iobind (updates u) (\<lambda>_. m))"
  by (simp add: keeps_def iobind_run updates_def)

section \<open>The operations\<close>

lemma no_extents:
  assumes "vfs_inv st" "extentCountForSize 0 (extentSize st) = Inr c" "chooseExtents st (max 0 (c - int k)) = Inr es"
  shows "es = []"
proof -
  have "c = 0" using assms(2) by (auto simp: extentCountForSize_def ebind_eq_Inr Let_def split: if_splits)
  with chooseExtents_Inr(3) [OF assms(3) vfs_invD(3) [OF assms(1)]] show ?thesis by simp
qed

text \<open>A new file of size 0 and a file cut to size 0 need no extents.\<close>

lemma create_plain:
  assumes inv: "vfs_inv st" and plan: "planCreateFile st p mode now (Some 0) = Inr txn"
  shows "plannedRuns txn = []"
proof -
  obtain choice n es rs where p: "extentCountForSize 0 (extentSize st) = Inr n" "chooseExtents st n = Inr es" "toExtentRuns es = Inr rs"
    "txn = CreateFile choice 0 rs"
    using plan unfolding planCreateFile_def by (auto simp: res_simps checkedPlan_Inr Let_def split: if_splits)
  have "0 \<le> n" using extentCount_Inr(1) [OF p(1) table_invD(5) [OF vfs_invD(1) [OF inv]]] .
  then have "es = []" using no_extents [OF inv p(1), of 0 es] p(2) by simp
  with p(3,4) show ?thesis by (simp add: plannedRuns_def toExtentRuns_def)
qed

text \<open>No name on the path starts with a byte order mark.\<close>

definition unmarked_path :: "js_string \<Rightarrow> bool" where
  "unmarked_path q \<longleftrightarrow> (\<forall>cs. path_ok cs \<and> q = render_path cs \<longrightarrow> (\<forall>n\<in>set cs. bom_free n))"

lemma create_fits:
  assumes inv: "vfs_inv st" and plan: "planCreateFile st q mode now (Some 0) = Inr txn" and names: "unmarked_path q"
  shows "record_fits txn"
proof -
  note t = vfs_invD(1) [OF inv]
  obtain parent name rs where p: "parentAndName st q = Inr (parent, name)" "u64 (nextInodeId st + 1)" "u64 now"
    "mode_ok (case mode of None \<Rightarrow> 33206 | Some m \<Rightarrow> m)"
    "txn = CreateFile \<lparr>choiceParentId = inodeId parent, choiceName = name, choiceInodeId = nextInodeId st,
       choiceMode = (case mode of None \<Rightarrow> 33206 | Some m \<Rightarrow> m), choiceAtimeMs = now, choiceMtimeMs = now, choiceCtimeMs = now\<rparr> 0 rs"
    using plan unfolding planCreateFile_def by (auto simp: res_simps checkedPlan_Inr split: if_splits)
  obtain pp i where pp: "path_ok (pp @ [name])" "q = render_path (pp @ [name])" "imap st i = Some parent"
    using parentAndName_Inr [OF t, THEN iffD1, OF p(1)] by auto
  have "rs = []" using create_plain [OF inv plan] by (simp add: p(5) plannedRuns_def)
  moreover have "component_ok name" "bom_free name" using names pp(1,2) by (auto simp: unmarked_path_def) (simp add: path_ok_def)
  moreover have "u64 (inodeId parent)" "u64 (nextInodeId st)"
    using table_invD(3) [OF t pp(3)] table_invD(6) [OF t] by (auto simp: inode_ok_def u64_def)
  ultimately show ?thesis using p(3,4)
    by (simp add: record_fits_def p(5) choice_fits_def name_ok_def u64_fits runs_fit_def mode_ok_def fits_def MAX_EXTENTS_PER_INODE_def)
qed

lemma empty_plan:
  assumes inv: "vfs_inv st" and plan: "planResizeFile st p 0 now operation = Inr txn"
  shows "plannedRuns txn = []" "record_fits txn" "planned st txn"
proof -
  obtain inode where "(case body inode of File _ _ \<Rightarrow> planResizeFileForInode st inode 0 now operation
      | _ \<Rightarrow> Inl (FsError EISDIR)) = Inr txn"
    using plan unfolding planResizeFile_def ebind_eq_Inr by blast
  then have i: "planResizeFileForInode st inode 0 now operation = Inr txn" by (cases "body inode") simp_all
  have k: "imap st (inodeId inode) = Some inode"
    using i by (auto simp: planResizeFileForInode_def split: if_splits)
  obtain n es rs where p: "extentCountForSize 0 (extentSize st) = Inr n"
    "chooseExtents st (max 0 (n - int (length (fileExtents inode)))) = Inr es" "toExtentRuns es = Inr rs"
    "txn = ResizeFile operation (inodeId inode) 0 rs now now"
    using i unfolding planResizeFileForInode_def
    by (auto simp: res_simps checkedPlan_Inr Let_def validateTimestamp_Inr split: if_splits)
  show "plannedRuns txn = []" using no_extents [OF inv p(1,2)] p(3,4) by (simp add: plannedRuns_def toExtentRuns_def)
  show "record_fits txn" by (rule resize_plan_fits [OF inv k i])
  show "planned st txn" using plan by (rule planned.intros)
qed

context store_host
begin

abbreviation preserves where "preserves \<equiv> keeps inv view"

lemma keeps_steps:
  assumes "live_engine (view w) vfs \<Longrightarrow> \<exists>r ve. runs (view w, vfs) m r ve \<and> live_engine (fst ve) (snd ve)"
  shows "preserves (w, vfs) m"
proof (rule keepsI)
  fix r w' vfs'
  assume w: "inv w" "live_engine (view w) vfs" "m (w, vfs) = (r, (w', vfs'))"
  from assms [OF w(2)] obtain r' ve where s: "runs (view w, vfs) m r' ve" "live_engine (fst ve) (snd ve)" by blast
  have "withEngine (showing inv view) (w, vfs) (view w, vfs)" using w(1) by (simp add: withEngine_def showing_def)
  from steps_result [OF s(1) this w(3)] have "withEngine (showing inv view) (w', vfs') ve" by simp
  with s(2) show "inv w' \<and> live_engine (view w') vfs'" by (auto simp: withEngine_def showing_def)
qed

lemma commit_keeps:
  assumes "planned (vfsState vfs) txn" "plannedRuns txn = []" "record_fits txn"
  shows "preserves (w, vfs) (commit ops txn None)"
proof (rule keeps_steps)
  assume live: "live_engine (view w) vfs"
  obtain r ve where o: "runs (view w, vfs) (commit ops txn None) r ve"
    "case r of Inl _ \<Rightarrow> ve = (view w, vfs) | Inr _ \<Rightarrow> committed_live (view w) vfs txn ve"
    using commit_outcome [OF live assms] by blast
  moreover have "live_engine (fst ve) (snd ve)"
    using o(2) live by (auto simp: committed_live_def split: sum.splits)
  ultimately show "\<exists>r ve. runs (view w, vfs) (commit ops txn None) r ve \<and> live_engine (fst ve) (snd ve)" by blast
qed

lemma runTree_keeps:
  assumes fits: "\<And>txn. treePlan call (vfsState vfs) = Inr txn \<Longrightarrow> record_fits txn"
  shows "preserves (w, vfs) (runTree ops call)"
proof (rule keepsI)
  fix r w' vfs'
  assume w: "inv w" "live_engine (view w) vfs" "runTree ops call (w, vfs) = (r, (w', vfs'))"
  have "vfs_inv (vfsState (snd (w, vfs)))" using live_engineD(1) [OF w(2)] by simp
  from runTree_based [OF this w(3)] consider "(w', vfs') = (w, vfs)"
    | txn w1 vfs1 where "treePlan call (vfsState vfs) = Inr txn" "commit ops txn None (w, vfs) = (r, (w1, vfs1))"
      "(w', vfs') = (w1, vfs1) \<or> (r = Inr () \<and> (\<exists>fds orphan. sheds (vfsState vfs) txn orphan \<and> (w', vfs') = (w1, orphaned fds orphan vfs1)))"
    unfolding based_on_commit_def snd_conv by (elim disjE exE conjE) blast+
  then show "inv w' \<and> live_engine (view w') vfs'"
  proof cases
    case 2
    have plan: "planned (vfsState vfs) txn" "plannedRuns txn = []" "record_fits txn"
      using treePlan_planned [OF 2(1)] fits [OF 2(1)] by blast+
    have one: "inv w1 \<and> live_engine (view w1) vfs1" by (rule keepsD [OF commit_keeps [OF plan] w(1,2) 2(2)])
    have at: "withEngine (showing inv view) (w, vfs) (view w, vfs)" using w(1) by (simp add: withEngine_def showing_def)
    obtain s ve where o: "runs (view w, vfs) (commit ops txn None) s ve"
      "case s of Inl _ \<Rightarrow> ve = (view w, vfs) | Inr _ \<Rightarrow> committed_live (view w) vfs txn ve"
      using commit_outcome [OF w(2) plan] by blast
    from steps_result [OF o(1) at 2(2)] have same: "s = r" "ve = (view w1, vfs1)"
      by (cases ve, simp add: withEngine_def showing_def)+
    have "live_engine (view w1) (orphaned fds orphan vfs1)" if "r = Inr ()" "sheds (vfsState vfs) txn orphan" for fds orphan
      using live_orphaned [OF w(2) _ that(2), of "view w1" vfs1 fds] o(2) same that(1) by simp
    with one 2(3) show ?thesis by auto
  qed (use w in simp)
qed

text \<open>Reading and writing; writing on a descriptor of a linked file.\<close>

lemma read_keeps: "preserves (w, vfs) (read_file ops fd target offset len position)"
proof (cases "\<exists>d data. validateBufferRange target offset len = Inr () \<and> descriptor fd vfs = Inr d \<and> descReadable d
    \<and> descriptorData (view w) vfs d = Some data \<and> 0 \<le> startAt d position")
  case True
  then obtain d data where g: "validateBufferRange target offset len = Inr ()" "descriptor fd vfs = Inr d" "descReadable d"
    "descriptorData (view w) vfs d = Some data" "0 \<le> startAt d position" by blast
  show ?thesis
  proof (rule keeps_steps)
    assume live: "live_engine (view w) vfs"
    from read_file_runs [OF live g(2,3,1,4) refl g(5) refl] live_moved [OF live]
    show "\<exists>r ve. runs (view w, vfs) (read_file ops fd target offset len position) r ve \<and> live_engine (fst ve) (snd ve)"
      by fastforce
  qed
next
  case False
  have found: "descriptorData (view w) vfs d \<noteq> None" if "descriptorFile d vfs = Inr nx" for d nx
    using that by (auto simp: descriptorData_def descriptorFile_def fileData_def fileState_def linkedFile_def
        split: option.splits InodeBody.splits)
  show ?thesis
    unfolding read_file_def assertHealthy_def
    apply (rule keeps_asksRes, rule keeps_lift, rule keeps_asksRes)
    subgoal for _ _ d
      apply (cases "descReadable d"; simp)
      apply (rule keeps_asksRes)
      subgoal for nx
        using False found [of d nx] by (cases nx) (auto simp: startAt_def Let_def)
      done
    done
qed

lemma write_keeps:
  assumes "\<And>d. descriptor fd vfs = Inr d \<Longrightarrow> descOrphan d = None"
  shows "preserves (w, vfs) (write_file ops clock fd target offset len position now)"
proof (rule keeps_steps)
  assume live: "live_engine (view w) vfs"
  have linked: "\<forall>d. descriptor fd vfs = Inr d \<longrightarrow> descOrphan d = None" using assms by blast
  obtain r ve where o: "runs (view w, vfs) (write_file ops clock fd target offset len position now) r ve"
    "case r of Inl e \<Rightarrow> ve = (view w, vfs)
     | Inr m \<Rightarrow> \<exists>d data. descriptor fd vfs = Inr d \<and> descWritable d
        \<and> fileData (view w) (vfsState vfs) (descInodeId d) = Some data
        \<and> (if take (nat len) (drop (nat offset) target) = [] then m = 0 \<and> ve = (view w, vfs)
           else 0 < m \<and> m \<le> int (length (take (nat len) (drop (nat offset) target)))
             \<and> wrote (view w) vfs fd d data position (take (nat len) (drop (nat offset) target)) m ve)"
    using write_file_outcome [OF live linked refl, where clock = clock and target = target and offset = offset and len = len
      and position = position and now = now]
    apply (elim exE)
    apply (erule conjE)
    apply (erule conjE)
    apply (rule that)
    apply assumption
    apply assumption
    done
  have "live_engine v1 (movedTo fd position n vfs1)" if "written (view w) vfs k f (v1, vfs1)" for v1 n vfs1 k f
    by (rule live_moved) (use that in \<open>simp add: written_def\<close>)
  with o live have "live_engine (fst ve) (snd ve)" by (auto simp: wrote_def split: sum.splits if_splits)
  with o(1) show "\<exists>r ve. runs (view w, vfs) (write_file ops clock fd target offset len position now) r ve
    \<and> live_engine (fst ve) (snd ve)" by blast
qed

lemma close_keeps: "preserves (w, vfs) (closeDescriptor fd)"
proof -
  have "preserves (w, vfs) (updates (\<lambda>vfs. vfs\<lparr>descriptors := filter (\<lambda>(k, _). k \<noteq> fd) (descriptors vfs)\<rparr>))"
    using live_closed by (auto simp: keeps_def updates_def)
  then show ?thesis unfolding closeDescriptor_def assertHealthy_def
    by (intro keeps_asksRes keeps_asks) (simp split: option.split)
qed

text \<open>A strict sync leaves the data and the engine's view of it alone.\<close>

lemma sync_live:
  assumes live: "live_engine v vfs"
  shows "\<exists>v' vfs'. runs (v, vfs) (strictSync ops) (Inr ()) (v', vfs') \<and> live_engine v' vfs' \<and> vfsState vfs' = vfsState vfs
    \<and> (\<forall>name. hvPending v' name = []) \<and> arena_of v' = arena_of v \<and> descriptors vfs' = descriptors vfs \<and> orphans vfs' = orphans vfs
    \<and> (\<exists>selected other st txns. store_image (hvFiles v') selected other st txns [] (vfsState vfs))"
proof -
  obtain selected other st txns logged where e: "engine_image v vfs selected other st txns logged"
    using live by (auto simp: live_engine_def)
  obtain v' vfs' txns' where s: "runs (v, vfs) (strictSync ops) (Inr ()) (v', vfs')"
    "engine_image v' vfs' selected other st txns' (vfsState vfs)" "vfsState vfs' = vfsState vfs"
    "descriptors vfs' = descriptors vfs" "orphans vfs' = orphans vfs"
    "\<forall>name. hvPending v' name = []" "hvFiles v' ArenaBin = hvFiles v ArenaBin"
    "vfsArenaSize vfs' = vfsArenaSize vfs" "arenaHighWaterExtents (vfsStore vfs') = arenaHighWaterExtents (vfsStore vfs)"
    using sync_image [OF e] by blast
  have arena: "arena_of v' = arena_of v" using s(7) by (simp add: arena_of_def)
  have "arena_tracked (v', vfs')"
    using live_engineD(7) [OF live] engine_image_live(5) [OF s(2)] s(6,8) arena by (auto simp: arena_tracked_def)
  then have "arena_agrees v' vfs'" using live_engineD(5) [OF live] by (simp add: arena_agrees_def s(3,9) arena)
  moreover have "orphans_kept vfs'" using live_engineD(6) [OF live] by (simp add: orphans_kept_def s(3-5))
  ultimately have "live_engine v' vfs'" using s(2) unfolding live_engine_def by blast
  with s arena engine_imageD(3) [OF s(2)] show ?thesis by blast
qed

lemma sync_keeps: "preserves (w, vfs) (strictSync ops)"
  by (rule keeps_steps) (use sync_live in fastforce)

text \<open>Opening a file, which may empty it or create it.\<close>

lemma commit_prepared_keeps:
  assumes "preflightCommit txn vfs = Inr prepared" "planned (vfsState vfs) txn" "plannedRuns txn = []" "record_fits txn"
  shows "preserves (w, vfs) (commit ops txn (Some prepared))"
proof (rule keeps_steps)
  assume "live_engine (view w) vfs"
  from commit_live [OF this assms(1,4,3,2), of "Some prepared"]
  show "\<exists>r ve. runs (view w, vfs) (commit ops txn (Some prepared)) r ve \<and> live_engine (fst ve) (snd ve)"
    by (auto simp: committed_live_def)
qed

lemma fileAt_Inr:
  "fileAt q vfs = Inr (inode, n, xs) \<longleftrightarrow> getInodeAtPath (vfsState vfs) q = Inr inode \<and> body inode = File n xs"
  by (cases "getInodeAtPath (vfsState vfs) q") (auto simp: fileAt_def inodeAt_def split: InodeBody.split)

lemma keeps_live: "(live_engine (view w) vfs \<Longrightarrow> preserves (w, vfs) m) \<Longrightarrow> preserves (w, vfs) m"
  by (auto simp: keeps_def)

lemma empty_keeps: "preserves (w, vfs) (truncatePath ops clock p 0 now)"
proof (rule keeps_live)
  assume live: "live_engine (view w) vfs"
  note inv = live_engineD(1) [OF live]
  have present: "\<not> 0 > n" if found: "fileAt q vfs = Inr (inode, n, xs)" for q inode n xs
  proof -
    have f: "getInodeAtPath (vfsState vfs) q = Inr inode" "body inode = File n xs"
      using found by (simp_all add: fileAt_Inr)
    then obtain k where "fileState (vfsState vfs) k = Some (n, xs)"
      using getInodeAtPath_Inr [OF vfs_invD(1,2) [OF inv]] by (auto simp: fileState_Some)
    from file_extents_ok [OF inv this] show ?thesis by (simp add: extents_ok_def)
  qed
  show "preserves (w, vfs) (truncatePath ops clock p 0 now)"
    unfolding truncatePath_def assertHealthy_def
    apply (rule keeps_asksRes, rule keeps_asksRes, rule keeps_asksRes)
    subgoal for _ q found
      using present [of q "fst found" "fst (snd found)" "snd (snd found)"]
      apply (cases found)
      apply (simp split del: if_split)
      apply (cases "fst (snd found) = 0"; simp)
      apply (rule keeps_asksRes, rule keeps_asksRes)
      apply (rule commit_prepared_keeps)
      using empty_plan [OF inv] apply auto
      done
    done
qed

lemma openDescriptor_keeps: "preserves (w, vfs) (openDescriptor flags inode n)"
  unfolding openDescriptor_def
  by (rule keeps_asks, rule keeps_updates) (auto intro: live_opened)

lemma open_keeps:
  assumes names: "\<And>q. resolveIn p True vfs = Inr q \<Longrightarrow> unmarked_path q"
  shows "preserves (w, vfs) (open_file ops clock p flags mode now)"
proof -
  have existing: "preserves we (openExisting ops clock q parsed now)" for we q parsed
    unfolding openExisting_def
    apply (cases we, hypsubst)
    apply (rule keeps_asksRes)
    apply (auto intro!: keeps_bind empty_keeps)
    done
  have create: "preserves we (iobind (asksRes (\<lambda>vfs. planCreateFile (vfsState vfs) q (Some mode) now (Some 0))) (\<lambda>txn.
      iobind (commit ops txn None) (\<lambda>_. asksRes (fileAt q))))" if "unmarked_path q" for we q
  proof (cases we)
    case (Pair w1 vfs1)
    show ?thesis unfolding Pair
    proof (rule keeps_live, rule keeps_asksRes)
      fix txn assume live: "live_engine (view w1) vfs1" and plan: "planCreateFile (vfsState vfs1) q (Some mode) now (Some 0) = Inr txn"
      note inv = live_engineD(1) [OF live]
      have "preserves (w1, vfs1) (commit ops txn None)"
        by (rule commit_keeps [OF planned_create [OF plan] create_plain [OF inv plan] create_fits [OF inv plan that]])
      then show "preserves (w1, vfs1) (iobind (commit ops txn None) (\<lambda>_. asksRes (fileAt q)))" by (rule keeps_bind) simp
    qed
  qed
  have descriptor: "preserves we (openDescriptor parsed inode n)" for we parsed inode n
    using openDescriptor_keeps by (cases we) simp
  show ?thesis
    unfolding open_file_def assertHealthy_def
    apply (rule keeps_asksRes, rule keeps_asksRes, rule keeps_lift)
    apply (rule keeps_bind)
     apply (rule keeps_catch [OF existing])
     apply (auto intro!: create names descriptor split: prod.splits)
    done
qed

end

end
