(* ===== verification/EngineSessions.thy ===== *)
theory EngineSessions
  imports EngineKeeps PlannedRecords StoreProperties
begin

text \<open>
  The engine on the memory port, from opening a store on: sessions, what they never lose, and what a crash
  after a strict sync leaves to the next opening.
\<close>

section \<open>The memory port\<close>

definition good_engine :: "MemoryPort \<Rightarrow> MemoryHandle RepackedVfs \<Rightarrow> bool" where
  "good_engine port vfs \<longleftrightarrow> memory_good port \<and> live_engine (memory_view port) vfs"

lemma good_engine_inv: "good_engine port vfs \<Longrightarrow> vfs_inv (vfsState vfs)"
  using live_engineD(1) unfolding good_engine_def by blast

lemma runs_result:
  "memory.runs (memory_view port, vfs) m r (v', vfs') \<Longrightarrow> memory_good port \<Longrightarrow>
     \<exists>port'. m (port, vfs) = (r, (port', vfs')) \<and> memory_good port' \<and> memory_view port' = v'"
  by (fastforce simp: steps_def withEngine_def showing_def)

lemma runs_outcome:
  assumes "memory.runs (memory_view port, vfs) m r (v', vfs')" "memory_good port" "m (port, vfs) = (s, (port1, vfs1))"
  shows "s = r" "vfs1 = vfs'" "memory_good port1" "memory_view port1 = v'"
  using runs_result [OF assms(1,2)] assms(3) by auto

lemma good_keeps:
  "memory.preserves (port, vfs) m \<Longrightarrow> good_engine port vfs \<Longrightarrow> m (port, vfs) = (r, (port', vfs')) \<Longrightarrow> good_engine port' vfs'"
  using keepsD [of memory_good memory_view port vfs m r port' vfs'] by (simp add: good_engine_def)

text \<open>The names a call puts into the log do not start with a byte order mark: then its record fits.\<close>

definition unmarked_call :: "TreeCall \<Rightarrow> VfsState \<Rightarrow> bool" where
  "unmarked_call call st \<longleftrightarrow> (case treePlan call st of
     Inr txn \<Rightarrow> \<forall>nm\<in>set (recordNames txn). bom_free nm | Inl _ \<Rightarrow> True)"

lemma unmarked_fits: "vfs_inv st \<Longrightarrow> unmarked_call call st \<Longrightarrow> treePlan call st = Inr txn \<Longrightarrow> record_fits txn"
  using planned_shape treePlan_planned(1) by (fastforce simp: unmarked_call_def record_fits_shape)

text \<open>A call on the tree succeeds, or is refused without effect.\<close>

lemma runTree_on_memory:
  assumes good: "good_engine port vfs" and names: "unmarked_call call (vfsState vfs)"
    and run: "runTree (memoryOps cmp) call (port, vfs) = (r, (port', vfs'))"
  shows "r = Inr () \<or> ((\<exists>e. r = Inl e) \<and> port' = port \<and> vfs' = vfs)"
proof -
  have live: "memory_good port" "live_engine (memory_view port) vfs" using good by (simp_all add: good_engine_def)
  have inv: "vfs_inv (vfsState (snd (port, vfs)))" using live_engineD(1) [OF live(2)] by simp
  note fits = unmarked_fits [OF live_engineD(1) [OF live(2)] names]
  from runTree_based [OF inv run] consider "(\<exists>e. r = Inl e) \<and> (port', vfs') = (port, vfs)"
    | txn w1 vfs1 where "treePlan call (vfsState vfs) = Inr txn" "commit (memoryOps cmp) txn None (port, vfs) = (r, (w1, vfs1))"
      "(port', vfs') = (w1, vfs1) \<or> r = Inr ()"
    unfolding based_on_commit_def snd_conv by (elim disjE exE conjE) (blast+)
  then show ?thesis
  proof cases
    case 2
    have plan: "planned (vfsState vfs) txn" "plannedRuns txn = []" "record_fits txn"
      using treePlan_planned [OF 2(1)] fits [OF 2(1)] by blast+
    show ?thesis
    proof (cases "preflightCommit txn vfs")
      case (Inl e)
      with 2(2,3) live_engineD(3) [OF live(2)] show ?thesis by (auto simp: commit_def assertHealthy_def engine_binds iobind_run)
    next
      case (Inr prepared)
      obtain v1 e1 where "memory.runs (memory_view port, vfs) (commit (memoryOps cmp) txn None) (Inr ()) (v1, e1)"
        using memory.commit_live [OF live(2) Inr plan(3,2,1), of None] by fast
      from runs_outcome(1) [OF this live(1) 2(2)] show ?thesis by simp
    qed
  qed simp
qed

section \<open>Opening\<close>

text \<open>An engine that has just opened a store mirrors its files.\<close>

lemma recovered_image:
  assumes img: "store_image (hvFiles v) selected other st txns rest final" and none: "\<And>name. hvPending v name = []"
    and same: "sameFiles v' (recoveredView st txns rest final v)" and "held v' handles"
  shows "engine_image v' (newRepackedVfs
      (recoveredStore handles (int (length (hvFiles v ArenaBin))) selected st txns rest final) now) selected other st txns final"
proof -
  let ?active = "metadataFileName (activeMetadataFile st)" and ?other = "metadataFileName (otherMetadataFile (activeMetadataFile st))"
  let ?front = "encBase st @ logOf (generation st) 1 txns"
  note i = img [unfolded store_image_def] and b = image_base [OF img]
  have names: "?active \<noteq> ?other" "ActivationBin \<noteq> ?active" "?active \<noteq> ArenaBin" "?other \<noteq> ArenaBin" "ActivationBin \<noteq> ArenaBin"
    by (cases "activeMetadataFile st"; simp)+
  have active: "hvFiles v ?active = ?front @ rest" using i by simp
  have files: "hvFiles v' = hvFiles (recoveredView st txns rest final v)" "hvPending v' = hvPending (recoveredView st txns rest final v)"
    using same by (simp_all add: sameFiles_def)
  have head: "take 8192 (hvFiles v ArenaBin) = encArena (extentSize st)" using i by blast
  have "length (encArena (extentSize st)) = 8192" by simp
  then have long: "8192 \<le> length (hvFiles v ArenaBin)" unfolding head [symmetric] by simp
  have header: "8192 \<le> n \<Longrightarrow> take 8192 (resized n (hvFiles v ArenaBin)) = encArena (extentSize st)" for n
    using head long by (simp add: resized_def)
  have "store_image (hvFiles v') selected other st txns [] final"
    using i names header [of "nat (requiredEnd final)"] long
    by (auto simp: store_image_def files recoveredView_def resized_le empty_stops active)
  moreover have "paths_ok final" using validateState_sound [OF vfs_inv_rep [OF b(1)]] i by blast
  ultimately show ?thesis
    using assms(4) i none names
    by (auto simp: engine_image_def newRepackedVfs_def recoveredStore_def log_counts_def Let_def files(2) recoveredView_def
        split: if_splits)
qed

lemma recovered_live:
  assumes img: "store_image (hvFiles v) selected other st txns rest final" and none: "\<And>name. hvPending v name = []"
    and same: "sameFiles v' (recoveredView st txns rest final v)" and "held v' handles"
  shows "live_engine v' (newRepackedVfs
      (recoveredStore handles (int (length (hvFiles v ArenaBin))) selected st txns rest final) now)"
    and "requiredEnd final \<le> int (length (hvFiles v ArenaBin)) \<Longrightarrow> arena_of v' = arena_of v"
proof -
  let ?len = "int (length (hvFiles v ArenaBin))"
  let ?vfs = "newRepackedVfs (recoveredStore handles ?len selected st txns rest final) now"
  note e = recovered_image [OF img none same assms(4), of now]
  note inv = engine_image_live(1) [OF e]
  have st: "vfsState ?vfs = final" by (simp add: newRepackedVfs_def recoveredStore_def Let_def)
  have b: "extentSize final = extentSize st" "0 \<le> requiredEnd final"
    using image_base(3) [OF img] requiredArenaEnd_ok(3) inv unfolding st by simp_all
  have ext: "0 < extentSize final" using extent_size_pos [OF table_invD(5) [OF vfs_invD(1) [OF inv [unfolded st]]]] .
  have arena: "arena_of v' = (if ?len < requiredEnd final then resized (nat (requiredEnd final)) (hvFiles v ArenaBin)
      else hvFiles v ArenaBin)"
    using same by (simp add: sameFiles_def recoveredView_def arena_of_def)
  then show "requiredEnd final \<le> ?len \<Longrightarrow> arena_of v' = arena_of v" by (simp add: arena_of_def)
  have len: "int (length (arena_of v')) = max (requiredEnd final) ?len"
    unfolding arena using b(2) by (simp add: resized_def)
  have "hvPending v' ArenaBin \<noteq> [] \<Longrightarrow> ?len < requiredEnd final"
    using same none by (auto simp: sameFiles_def recoveredView_def split: if_splits)
  moreover have fields: "vfsArenaSize ?vfs = Some (max (requiredEnd final) ?len)" "vfsArenaDirty ?vfs = (?len < requiredEnd final)"
    "arenaHighWaterExtents (vfsStore ?vfs) = max ((max 0 (?len - ARENA_HEADER_BYTES) + extentSize st - 1) div extentSize st)
       (totalExtents (allocator final))"
    by (simp_all add: newRepackedVfs_def recoveredStore_def Let_def)
  moreover have "int (length (arena_of v')) \<le> MAX_SAFE_INTEGER" using assms(4) by (simp add: held_def arena_of_def)
  ultimately have tracked: "arena_tracked (v', ?vfs)"
    using engine_image_live(5) [OF e] len unfolding arena_tracked_def fst_conv snd_conv by simp
  let ?physical = "(max 0 (?len - ARENA_HEADER_BYTES) + extentSize st - 1) div extentSize st"
  have "?len - ARENA_HEADER_BYTES \<le> ?physical * extentSize st"
  proof -
    let ?n = "max 0 (?len - ARENA_HEADER_BYTES) + extentSize st - 1"
    have "?n mod extentSize st < extentSize st" using ext b(1) by simp
    then have "?n - extentSize st < ?n div extentSize st * extentSize st"
      using div_mult_mod_eq [of ?n "extentSize st"] by linarith
    then show ?thesis by simp
  qed
  moreover have "requiredEnd final \<le> ARENA_HEADER_BYTES + max ?physical (totalExtents (allocator final)) * extentSize final"
    using ext by (simp add: requiredEnd_def mult_right_mono)
  moreover have "?physical * extentSize final \<le> max ?physical (totalExtents (allocator final)) * extentSize final"
    using ext by (simp add: mult_right_mono)
  ultimately have "max (requiredEnd final) ?len \<le> ARENA_HEADER_BYTES + max ?physical (totalExtents (allocator final)) * extentSize final"
    unfolding b(1) by simp
  then have "arena_agrees v' ?vfs" unfolding arena_agrees_def st len
    using tracked fields(3) by (simp add: requiredEnd_def b(1))
  moreover have "orphans_kept ?vfs" by (simp add: orphans_kept_def newRepackedVfs_def descriptors_kept_def)
  ultimately show "live_engine v' ?vfs" using e unfolding live_engine_def by blast
qed

section \<open>Sessions\<close>

lemma newRepackedVfs_state: "vfsState (newRepackedVfs store now) = storeState store"
  by (simp add: newRepackedVfs_def)

text \<open>
  A store is opened on a port whose files are durable; operations on the tree, on descriptors and strict
  syncs follow, in any order. No name a call brings along starts with a byte order mark; data is written
  through descriptors of files that still have a path.
\<close>

inductive engine_session :: "(string \<Rightarrow> string \<Rightarrow> int) \<Rightarrow> MemoryPort \<Rightarrow> MemoryHandle RepackedVfs \<Rightarrow> bool"
  for cmp where
  opened: "engine_session cmp port' (newRepackedVfs store now)"
    if "memory_good port" "openFiles port = []" "effects port = []"
      "store_image (\<lambda>name. volatileBytes name port) selected other st txns rest final"
      "openMetadataStore (memoryOps cmp) None port = (Inr store, port')"
| called: "engine_session cmp port' vfs'"
    if "engine_session cmp port vfs" "unmarked_call call (vfsState vfs)"
      "runTree (memoryOps cmp) call (port, vfs) = (r, (port', vfs'))"
| synced: "engine_session cmp port' vfs'"
    if "engine_session cmp port vfs" "strictSync (memoryOps cmp) (port, vfs) = (r, (port', vfs'))"
| file_opened: "engine_session cmp port' vfs'"
    if "engine_session cmp port vfs" "\<And>q. resolveIn p True vfs = Inr q \<Longrightarrow> unmarked_path q"
      "open_file (memoryOps cmp) clock p flags mode now (port, vfs) = (fd, (port', vfs'))"
| file_closed: "engine_session cmp port' vfs'"
    if "engine_session cmp port vfs" "closeDescriptor fd (port, vfs) = (r, (port', vfs'))"
| file_read: "engine_session cmp port' vfs'"
    if "engine_session cmp port vfs" "read_file (memoryOps cmp) fd target offset len position (port, vfs) = (n, (port', vfs'))"
| file_written: "engine_session cmp port' vfs'"
    if "engine_session cmp port vfs" "\<And>d. descriptor fd vfs = Inr d \<Longrightarrow> descOrphan d = None"
      "write_file (memoryOps cmp) clock fd source offset len position now (port, vfs) = (n, (port', vfs'))"

lemma sync_on_memory:
  assumes "good_engine port vfs" and run: "strictSync (memoryOps cmp) (port, vfs) = (r, (port', vfs'))"
  shows "r = Inr ()" "good_engine port' vfs'" "vfsState vfs' = vfsState vfs"
    "arena_of (memory_view port') = arena_of (memory_view port)"
    "\<exists>selected other st txns. store_image (\<lambda>name. volatileBytes name port') selected other st txns [] (vfsState vfs)"
    "\<forall>name. pending name port' = [] \<and> durableBytes name port' = volatileBytes name port'"
proof -
  have g: "memory_good port" "live_engine (memory_view port) vfs" using assms(1) by (simp_all add: good_engine_def)
  obtain v' vfs1 where s: "memory.runs (memory_view port, vfs) (strictSync (memoryOps cmp)) (Inr ()) (v', vfs1)"
    "live_engine v' vfs1" "vfsState vfs1 = vfsState vfs" "\<forall>name. hvPending v' name = []"
    "arena_of v' = arena_of (memory_view port)"
    "\<exists>selected other st txns. store_image (hvFiles v') selected other st txns [] (vfsState vfs)"
    using memory.sync_live [OF g(2)] by blast
  note port' = runs_outcome [OF s(1) g(1) run]
  show "r = Inr ()" "vfsState vfs' = vfsState vfs" "arena_of (memory_view port') = arena_of (memory_view port)"
    using port' s(3,5) by simp_all
  show "good_engine port' vfs'" using port' s(2) by (simp add: good_engine_def)
  show "\<exists>selected other st txns. store_image (\<lambda>name. volatileBytes name port') selected other st txns [] (vfsState vfs)"
    using s(6) unfolding port'(4) [symmetric] by (simp only: view_memory)
  have pend: "pending name port' = []" for name using s(4) port'(4) by auto
  moreover have "port_inv port'" using port'(3) by (simp add: memory_good_def)
  ultimately show "\<forall>name. pending name port' = [] \<and> durableBytes name port' = volatileBytes name port'"
    using port_invD(4) by simp
qed

text \<open>Opening a store, and what its files hold then.\<close>

lemma opens_live:
  assumes "memory_good port" "openFiles port = []" "effects port = []"
    and img: "store_image (\<lambda>name. volatileBytes name port) selected other st txns rest final"
  shows "\<exists>store port'. openMetadataStore (memoryOps cmp) None port = (Inr store, port') \<and> storeState store = final
    \<and> good_engine port' (newRepackedVfs store now)
    \<and> (requiredEnd final \<le> int (length (volatileBytes ArenaBin port)) \<longrightarrow> arena_of (memory_view port') = volatileBytes ArenaBin port)"
proof -
  have img': "store_image (hvFiles (memory_view port)) selected other st txns rest final" using img by simp
  obtain handles port1 where o: "openMetadataStore (memoryOps cmp) None port
      = (Inr (recoveredStore handles (int (length (hvFiles (memory_view port) ArenaBin))) selected st txns rest final), port1)"
    "memory_good port1" "sameFiles (memory_view port1) (recoveredView st txns rest final (memory_view port))"
    "held (memory_view port1) handles"
    using memory.open_recovers [OF assms(1) _ img', of None cmp] assms(2) by auto
  have none: "hvPending (memory_view port) name = []" for name using assms(3) by (simp add: pending_def)
  from recovered_live [OF img' none o(3,4)] o(1,2) show ?thesis
    by (fastforce simp: good_engine_def recoveredStore_def Let_def arena_of_def)
qed

lemma session_good: "engine_session cmp port vfs \<Longrightarrow> good_engine port vfs"
proof (induction rule: engine_session.induct)
  case (opened port selected other st txns rest final store port' now)
  from opens_live [OF opened(1-4), of cmp now] opened(5) show ?case by auto
next
  case (called port vfs call r port' vfs')
  note fits = unmarked_fits [OF good_engine_inv [OF called(4)] called(2)]
  from good_keeps [OF memory.runTree_keeps [OF fits] called(4,3)] show ?case .
next
  case (synced port vfs r port' vfs')
  from sync_on_memory(2) [OF synced(3,2)] show ?case .
next
  case (file_opened port vfs p clock flags mode now fd port' vfs')
  from good_keeps [OF memory.open_keeps [OF file_opened(2)] file_opened(4,3)] show ?case .
next
  case (file_closed port vfs fd r port' vfs')
  from good_keeps [OF memory.close_keeps file_closed(3,2)] show ?case .
next
  case (file_read port vfs fd target offset len position n port' vfs')
  from good_keeps [OF memory.read_keeps file_read(3,2)] show ?case .
next
  case (file_written port vfs fd clock source offset len position now n port' vfs')
  from good_keeps [OF memory.write_keeps [OF file_written(2)] file_written(4,3)] show ?case .
qed

lemma terminate_settles: "terminate decisions port = (Inr (), q) \<Longrightarrow> effects q = [] \<and> openFiles q = []"
  by (auto simp: terminate_def Let_def split: sum.splits)

end
