(* ===== verification/DemoSession.thy ===== *)
theory DemoSession
  imports EngineSessions "HOL-Library.Code_Target_Nat"
begin

text \<open>
  A concrete session, for the instances of the theorems about sessions: a store whose log holds a directory
  and a file of 100000 bytes in two extents is opened, and the file is opened and written past its end.
\<close>

section \<open>The store\<close>

definition bigRecord :: TxnRecord where
  "bigRecord = CreateFile \<lparr>choiceParentId = 2, choiceName = [98], choiceInodeId = 3, choiceMode = 33206,
     choiceAtimeMs = 6, choiceMtimeMs = 6, choiceCtimeMs = 6\<rparr> 100000 [\<lparr>runStart = 0, runCount = 2\<rparr>]"

definition bigNode :: Inode where
  "bigNode = \<lparr>inodeId = 3, imode = 33206, atimeMs = 6, mtimeMs = 6, ctimeMs = 6, body = File 100000 [0, 1]\<rparr>"

lemma big_record:
  "fst (applyTxn demo1 bigRecord None) = None" "length (encRecord bigRecord) = 72"
  "validateState demo2 = Inr ()" "generation demo1 = 1" "name_ok [98]"
  "resolveLinks demo2 path_ab True = Inr path_ab" "resolveLinks demo2 path_ab False = Inr path_ab"
  "getInodeAtPath demo2 path_ab = Inr bigNode"
  "parseFlags ''r+'' = Inr (openFlags True True False False False False)"
  "fileState demo2 3 = Some (100000, [0, 1])" "imap demo2 3 = Some bigNode"
  by code_simp+

lemma big_applies: "applyTxn demo1 bigRecord None = (None, demo2)"
  using run_ab big_record(1) unfolding plan_ab after_def bigRecord_def [symmetric] by (simp add: prod_eq_iff)

lemma big_frames:
  "length (encFrame (logFrame 1 1 demoRecord)) = 100" "length (encFrame (logFrame 1 2 bigRecord)) = 120"
  using demo_record(2) big_record(2) by (simp_all add: length_encFrame logFrame_def)

lemma big_fits: "frame_fits (logFrame 1 2 bigRecord)"
  using big_record(2,5)
  by (simp add: frame_fits_def logFrame_def record_fits_def MAX_FRAME_PAYLOAD_BYTES_def)
   (simp add: bigRecord_def choice_fits_def fits_def runs_fit_def run_fits_def MAX_EXTENTS_PER_INODE_def)

abbreviation bigFiles :: "OwnedFileName \<Rightarrow> byte list" where "bigFiles \<equiv> demoFiles [demoRecord, bigRecord] []"

lemma big_image: "store_image bigFiles (firstRecord 65536) None demo0 [demoRecord, bigRecord] [] demo2"
proof -
  have img: "store_image (demoFiles [demoRecord] []) (firstRecord 65536) None demo0 [demoRecord] [] demo1"
    using demo_image [OF empty_stops] by simp
  have fields: "metadataFileName (activeMetadataFile demo0) = MetadataABin" "1 + int (length [demoRecord]) = 2"
    by (simp_all add: demo_fields)
  have "(demoFiles [demoRecord] []) (MetadataABin := demoFiles [demoRecord] [] MetadataABin
      @ encFrame (logFrame 1 2 bigRecord)) = bigFiles"
    by (simp add: demoFiles_def)
  with store_image_next [OF img, of "logFrame 1 2 bigRecord" bigRecord demo2 MetadataABin]
    big_fits big_applies big_record(3) fields big_frames
  show ?thesis by (simp add: demo_fields MAX_ACTIVE_LOG_FRAMES_def MAX_ACTIVE_LOG_BYTES_def)
qed

lemma big_small: "int (length (bigFiles name)) \<le> MAX_SAFE_INTEGER"
proof (cases "name = MetadataABin")
  case True
  with big_frames image_base(5) [OF big_image] show ?thesis
    by (simp add: demoFiles_def MAX_SAFE_INTEGER_def MAX_METADATA_BASE_WRITER_BYTES_def)
next
  case False
  then have "bigFiles name = demoFiles [demoRecord] [] name" by (simp add: demoFiles_def)
  with demoFiles_small [of "[demoRecord]" "[]" name] show ?thesis by simp
qed

section \<open>The file, open\<close>

definition stillClock :: "MemoryPort vfs_clock" where "stillClock = \<lparr>dateNow = ioret 0, performanceNow = ioret 0\<rparr>"

lemma big_path: "unmarked_path path_ab"
proof -
  have parse: "parsePath path_ab = Inr [[97], [98]]" by code_simp
  have "cs = [[97], [98]]" if "path_ok cs \<and> path_ab = render_path cs" for cs
    using parsePath_complete [of cs] that parse by simp
  moreover have "\<forall>n\<in>set [[97], [98]]. bom_free n" by (simp add: bom_free_def bom_unit_def)
  ultimately show ?thesis unfolding unmarked_path_def by blast
qed

abbreviation bigStore :: "(OwnedFileName \<Rightarrow> MemoryHandle) \<Rightarrow> MemoryHandle OpenedMetadataStore" where
  "bigStore handles \<equiv> recoveredStore handles (int (length (bigFiles ArenaBin))) (firstRecord 65536) demo0 [demoRecord, bigRecord] [] demo2"

definition bigDescriptor :: Descriptor where
  "bigDescriptor = \<lparr>descInodeId = 3, descOffset = 0, descReadable = True, descWritable = True, descAppend = False,
     descOrphan = None\<rparr>"

definition bigOpen :: "(OwnedFileName \<Rightarrow> MemoryHandle) \<Rightarrow> MemoryHandle RepackedVfs" where
  "bigOpen handles = (newRepackedVfs (bigStore handles) 0)\<lparr>nextDescriptor := 4, descriptors := [(3, bigDescriptor)]\<rparr>"

lemma big_state: "vfsState (newRepackedVfs (bigStore handles) 0) = demo2" "vfsState (bigOpen handles) = demo2"
  by (simp_all add: bigOpen_def newRepackedVfs_def recoveredStore_def Let_def)

lemma big_counters:
  "vfsStatus (bigOpen handles) = StatusOpen" "pendingResizeCommit (bigOpen handles) = None"
  "nextSequence (vfsStore (bigOpen handles)) = 3" "activeLogBytes (vfsStore (bigOpen handles)) = 220"
  "activeLogFrames (vfsStore (bigOpen handles)) = 2"
  by (simp_all add: bigOpen_def newRepackedVfs_def recoveredStore_def Let_def demo_fields big_frames)

lemma big_session:
  obtains port handles where "engine_session cmp port (bigOpen handles)"
proof -
  let ?port = "portOf bigFiles"
  have good: "memory_good ?port" by (rule portOf_good [OF big_small])
  have img: "store_image (\<lambda>name. volatileBytes name ?port) (firstRecord 65536) None demo0 [demoRecord, bigRecord] [] demo2"
    using big_image by simp
  then have img': "store_image (hvFiles (memory_view ?port)) (firstRecord 65536) None demo0 [demoRecord, bigRecord] [] demo2"
    by simp
  obtain handles port where o: "openMetadataStore (memoryOps cmp) None ?port = (Inr (bigStore handles), port)"
    using memory.open_recovers [OF good _ img', of None cmp] by auto
  let ?new = "newRepackedVfs (bigStore handles) 0"
  have one: "engine_session cmp port ?new" by (rule engine_session.opened [OF good _ _ img o]) simp_all
  have found: "openExisting (memoryOps cmp) clock path_ab (openFlags True True False False False False) 7 (port, ?new)
      = (Inr (bigNode, 100000, [0, 1]), (port, ?new))" for clock
    using big_record(8)
    by (simp add: openExisting_def engine_binds openFlags_def fileAt_def inodeAt_def big_state) (simp add: bigNode_def ioret_def)
  have opens: "openDescriptor (openFlags True True False False False False) bigNode 100000 (port, ?new) = (Inr 3, (port, bigOpen handles))"
    by (simp add: openDescriptor_def engine_binds openFlags_def ioret_def) (simp add: newRepackedVfs_def bigOpen_def bigDescriptor_def bigNode_def)
  have healthy: "checkOpen ?new = Inr ()" by (simp add: checkOpen_def newRepackedVfs_def)
  have resolved: "resolveIn path_ab True ?new = Inr path_ab" using big_record(6) by (simp add: resolveIn_def big_state)
  have run: "open_file (memoryOps cmp) clock path_ab ''r+'' 0 7 (port, ?new) = (Inr 3, (port, bigOpen handles))" for clock
    using big_record(9) healthy resolved
    by (simp add: open_file_def assertHealthy_def engine_binds iobind_run iocatch_def found opens)
  have "unmarked_path q" if "resolveIn path_ab True ?new = Inr q" for q
    using that resolved big_path by simp
  from engine_session.file_opened [OF one this run] that show thesis by blast
qed

section \<open>A write past its end\<close>

text \<open>What a plan depends on: the state, the log counters and what is held back.\<close>

lemma planLinkedWrite_cong:
  assumes "vfsStatus vfs' = vfsStatus vfs" "vfsState vfs' = vfsState vfs" "pendingResizeCommit vfs' = pendingResizeCommit vfs"
    "nextSequence (vfsStore vfs') = nextSequence (vfsStore vfs)" "activeLogBytes (vfsStore vfs') = activeLogBytes (vfsStore vfs)"
    "activeLogFrames (vfsStore vfs') = activeLogFrames (vfsStore vfs)"
  shows "planLinkedWrite inode n start requested now vfs' = planLinkedWrite inode n start requested now vfs"
proof -
  have "attemptLinked inode n start now vfs' = attemptLinked inode n start now vfs"
    unfolding attemptLinked_def assms(2) preflight_cong [OF assms] by (rule refl)
  then show ?thesis by (simp add: planLinkedWrite_def)
qed

definition bigPlain :: "unit RepackedVfs" where
  "bigPlain = newRepackedVfs \<lparr>storeHandles = (\<lambda>_. ()), storeState = demo2, activeLogEnd = 0, nextSequence = 3,
     activeLogBytes = 220, activeLogFrames = 2, activationSequence = 1, arenaHighWaterExtents = 2, arenaSize = 0,
     arenaDirty = False, activeMetadataDirty = False\<rparr> 0"

lemma big_plain:
  "vfsStatus bigPlain = StatusOpen" "pendingResizeCommit bigPlain = None" "vfsState bigPlain = demo2"
  "nextSequence (vfsStore bigPlain) = 3" "activeLogBytes (vfsStore bigPlain) = 220" "activeLogFrames (vfsStore bigPlain) = 2"
  by (simp_all add: bigPlain_def newRepackedVfs_def)

lemma big_plan: "\<exists>plan. planLinkedWrite bigNode 100000 100000 3 7 bigPlain = Inr (3, plan)"
proof -
  have "(case planLinkedWrite bigNode 100000 100000 3 7 bigPlain of Inr (n, _) \<Rightarrow> n = 3 | _ \<Rightarrow> False)" by code_simp
  then show ?thesis by (auto split: sum.splits)
qed

lemma big_admits: "\<exists>plan. planLinkedWrite bigNode 100000 100000 3 7 (bigOpen handles) = Inr (3, plan)"
  using big_plan planLinkedWrite_cong [of "bigOpen handles" bigPlain] by (simp add: big_state big_counters big_plain)

end
