(* ===== verification/SessionProperties.thy ===== *)
theory SessionProperties
  imports DemoSession
begin

text \<open>
  What a caller of an open store can rely on, whatever he did since it was opened: syncs are durable, calls
  succeed or are refused, and the files behind his descriptors are byte lists that he reads and patches.
\<close>

section \<open>Files as byte lists\<close>

lemma write_on_memory:
  assumes good: "good_engine port vfs" and linked: "\<forall>d. descriptor fd vfs = Inr d \<longrightarrow> descOrphan d = None"
    and run: "write_file (memoryOps cmp) clock fd target offset len position now (port, vfs) = (r, (port', vfs'))"
    and src: "src = take (nat len) (drop (nat offset) target)"
  shows "case r of Inl e \<Rightarrow> memory_view port' = memory_view port \<and> vfs' = vfs
    | Inr m \<Rightarrow> \<exists>d data. descriptor fd vfs = Inr d \<and> descWritable d
        \<and> fileData (memory_view port) (vfsState vfs) (descInodeId d) = Some data
        \<and> (if src = [] then m = 0 \<and> memory_view port' = memory_view port \<and> vfs' = vfs
           else 0 < m \<and> m \<le> int (length src) \<and> wrote (memory_view port) vfs fd d data position src m (memory_view port', vfs'))"
    "validateBufferRange target offset len = Inr () \<Longrightarrow> u64 now \<Longrightarrow> descriptor fd vfs = Inr d \<Longrightarrow> descWritable d
      \<Longrightarrow> fileData (memory_view port) (vfsState vfs) (descInodeId d) = Some data
      \<Longrightarrow> 0 \<le> writeStart d data position \<Longrightarrow> writeStart d data position + int (length src) \<le> int (length data)
      \<Longrightarrow> r = Inr (int (length src))"
    "validateBufferRange target offset len = Inr () \<Longrightarrow> u64 now \<Longrightarrow> descriptor fd vfs = Inr d \<Longrightarrow> descWritable d
      \<Longrightarrow> fileData (memory_view port) (vfsState vfs) (descInodeId d) = Some data
      \<Longrightarrow> write_admitted vfs d data position src now \<Longrightarrow> \<exists>m. r = Inr m"
proof -
  have g: "memory_good port" "live_engine (memory_view port) vfs" using good by (simp_all add: good_engine_def)
  obtain s ve where o: "memory.runs (memory_view port, vfs)
      (write_file (memoryOps cmp) clock fd target offset len position now) s ve"
    and out: "case s of Inl e \<Rightarrow> ve = (memory_view port, vfs)
    | Inr m \<Rightarrow> \<exists>d data. descriptor fd vfs = Inr d \<and> descWritable d
        \<and> fileData (memory_view port) (vfsState vfs) (descInodeId d) = Some data
        \<and> (if src = [] then m = 0 \<and> ve = (memory_view port, vfs)
           else 0 < m \<and> m \<le> int (length src) \<and> wrote (memory_view port) vfs fd d data position src m ve)"
    and full: "\<forall>d data. validateBufferRange target offset len = Inr () \<and> u64 now \<and> descriptor fd vfs = Inr d \<and> descWritable d
        \<and> fileData (memory_view port) (vfsState vfs) (descInodeId d) = Some data
        \<and> 0 \<le> writeStart d data position \<and> writeStart d data position + int (length src) \<le> int (length data)
        \<longrightarrow> s = Inr (int (length src))"
    and part: "\<forall>d data. validateBufferRange target offset len = Inr () \<and> u64 now \<and> descriptor fd vfs = Inr d \<and> descWritable d
        \<and> fileData (memory_view port) (vfsState vfs) (descInodeId d) = Some data \<and> write_admitted vfs d data position src now
        \<longrightarrow> (\<exists>m. s = Inr m)"
    using memory.write_file_outcome [OF g(2) linked src, where clock = clock and position = position and now = now and cmp = cmp]
    apply (elim exE)
    apply (erule conjE)+
    apply (rule that)
    apply assumption+
    done
  obtain v1 e1 where ve: "ve = (v1, e1)" by (metis surj_pair)
  note same = runs_outcome [OF o [unfolded ve] g(1) run]
  show "case r of Inl e \<Rightarrow> memory_view port' = memory_view port \<and> vfs' = vfs
    | Inr m \<Rightarrow> \<exists>d data. descriptor fd vfs = Inr d \<and> descWritable d
        \<and> fileData (memory_view port) (vfsState vfs) (descInodeId d) = Some data
        \<and> (if src = [] then m = 0 \<and> memory_view port' = memory_view port \<and> vfs' = vfs
           else 0 < m \<and> m \<le> int (length src) \<and> wrote (memory_view port) vfs fd d data position src m (memory_view port', vfs'))"
    using out unfolding ve same(1,2,4) prod.inject .
  show "validateBufferRange target offset len = Inr () \<Longrightarrow> u64 now \<Longrightarrow> descriptor fd vfs = Inr d \<Longrightarrow> descWritable d
      \<Longrightarrow> fileData (memory_view port) (vfsState vfs) (descInodeId d) = Some data
      \<Longrightarrow> 0 \<le> writeStart d data position \<Longrightarrow> writeStart d data position + int (length src) \<le> int (length data)
      \<Longrightarrow> r = Inr (int (length src))" using full same(1) by simp
  show "validateBufferRange target offset len = Inr () \<Longrightarrow> u64 now \<Longrightarrow> descriptor fd vfs = Inr d \<Longrightarrow> descWritable d
      \<Longrightarrow> fileData (memory_view port) (vfsState vfs) (descInodeId d) = Some data
      \<Longrightarrow> write_admitted vfs d data position src now \<Longrightarrow> \<exists>m. r = Inr m" using part same(1) by simp
qed

lemma wrote_fields:
  assumes "wrote v vfs fd d data position src m (v', vfs')"
  shows "live_engine v' vfs'" "0 \<le> writeStart d data position"
    "fileData v' (vfsState vfs') = (fileData v (vfsState vfs))(descInodeId d \<mapsto> putBytes (writeStart d data position) (take (nat m) src) data)"
    "orphans vfs' = orphans vfs" "descriptors vfs' = descriptors (movedTo fd position (writeStart d data position + m) vfs)"
    "\<forall>orphan\<in>set (orphans vfs). orphanData v' (vfsState vfs') orphan = orphanData v (vfsState vfs) orphan"
    "fileData v (vfsState vfs) (descInodeId d) = Some data \<Longrightarrow>
      length data < length (putBytes (writeStart d data position) (take (nat m) src) data) \<Longrightarrow> pendingResizeCommit vfs' \<noteq> None"
proof -
  obtain v1 vfs1 where w: "written v vfs (descInodeId d) (putBytes (writeStart d data position) (take (nat m) src) data) (v1, vfs1)"
    "v' = v1" "vfs' = movedTo fd position (writeStart d data position + m) vfs1"
    using assms by (auto simp: wrote_def)
  show "0 \<le> writeStart d data position" using assms by (simp add: wrote_def)
  have moved: "vfsStore (movedTo fd position k e) = vfsStore e" "orphans (movedTo fd position k e) = orphans e"
    "pendingResizeCommit (movedTo fd position k e) = pendingResizeCommit e" for k and e :: "'a RepackedVfs"
    by (simp_all add: movedTo_def setDescriptor_def split: option.split)
  have ds: "descriptors e = descriptors e' \<Longrightarrow> descriptors (movedTo fd position k e) = descriptors (movedTo fd position k e')"
    for k and e e' :: "'a RepackedVfs"
    by (simp add: movedTo_def setDescriptor_def split: option.split)
  show "live_engine v' vfs'" unfolding w(2,3) by (rule live_moved) (use w(1) in \<open>simp add: written_def\<close>)
  show "descriptors vfs' = descriptors (movedTo fd position (writeStart d data position + m) vfs)"
    unfolding w(3) by (rule ds) (use w(1) in \<open>simp add: written_def\<close>)
  show "fileData v' (vfsState vfs') = (fileData v (vfsState vfs))(descInodeId d \<mapsto> putBytes (writeStart d data position) (take (nat m) src) data)"
    "orphans vfs' = orphans vfs"
    "\<forall>orphan\<in>set (orphans vfs). orphanData v' (vfsState vfs') orphan = orphanData v (vfsState vfs) orphan"
    "fileData v (vfsState vfs) (descInodeId d) = Some data \<Longrightarrow>
      length data < length (putBytes (writeStart d data position) (take (nat m) src) data) \<Longrightarrow> pendingResizeCommit vfs' \<noteq> None"
    using w(1) by (simp_all add: w(2,3) moved written_def)
qed

section \<open>A session with a write held back\<close>

lemma big_descriptor: "descriptor 3 (bigOpen handles) = Inr bigDescriptor"
  by (simp add: descriptor_Inr bigOpen_def isSafeInteger_def limit_defs)

lemma big_written:
  obtains port handles port' vfs' data m where "engine_session cmp port (bigOpen handles)"
    "fileData (memory_view port) demo2 3 = Some data" "length data = 100000"
    "write_file (memoryOps cmp) clock 3 [1, 2, 3] 0 3 (Some 100000) 7 (port, bigOpen handles) = (Inr m, (port', vfs'))"
    "engine_session cmp port' vfs'" "0 < m" "m \<le> 3" "pendingResizeCommit vfs' \<noteq> None"
    "fileData (memory_view port') (vfsState vfs') 3 = Some (data @ take (nat m) [1, 2, 3])"
proof -
  obtain port handles where one: "engine_session cmp port (bigOpen handles)" by (rule big_session)
  let ?v = "memory_view port" and ?vfs = "bigOpen handles"
  have good: "good_engine port ?vfs" by (rule session_good [OF one])
  have live: "live_engine ?v ?vfs" using good by (simp add: good_engine_def)
  obtain data where data: "fileData ?v (vfsState ?vfs) 3 = Some data" using big_record(10) by (simp add: fileData_def big_state)
  have len: "length data = 100000"
    using length_contents [OF live file_extents_ok [OF live_engineD(1) [OF live]]] data big_record(10)
    by (fastforce simp: fileData_def big_state)
  obtain r port' vfs' where run: "write_file (memoryOps cmp) clock 3 [1, 2, 3] 0 3 (Some 100000) 7 (port, ?vfs) = (r, (port', vfs'))"
    by (metis surj_pair)
  have linked: "\<forall>d. descriptor 3 ?vfs = Inr d \<longrightarrow> descOrphan d = None" by (simp add: big_descriptor bigDescriptor_def)
  note out = write_on_memory [OF good linked run, of "[1, 2, 3]", simplified]
  have d: "descWritable bigDescriptor" "descInodeId bigDescriptor = 3" "writeStart bigDescriptor data (Some 100000) = 100000"
    by (simp_all add: bigDescriptor_def writeStart_def startAt_def)
  have "write_admitted ?vfs bigDescriptor data (Some 100000) [1, 2, 3] 7"
    using big_admits [of handles] big_record(11) unfolding write_admitted_def d
    by (auto simp: u64_def MAX_U64_def linkedFile_Inr big_state intro!: exI [of _ bigNode]) (auto simp: bigNode_def)
  then obtain m where m: "r = Inr m" using out(3) big_descriptor d(1,2) data
    by (auto simp: validateBufferRange_def isSafeInteger_def limit_defs u64_def MAX_U64_def)
  have w: "0 < m" "m \<le> 3" "wrote ?v ?vfs 3 bigDescriptor data (Some 100000) [1, 2, 3] m (memory_view port', vfs')"
    using out(1) data d(2) unfolding m by (auto simp: big_descriptor)
  have put: "putBytes 100000 (take (nat m) [1, 2, 3]) data = data @ take (nat m) [1, 2, 3]"
    using putBytes_end [of 100000 data] len by simp
  have "length data < length (data @ take (nat m) [1, 2, 3 :: byte])" using w(1) by simp
  then have grown: "pendingResizeCommit vfs' \<noteq> None" using wrote_fields(7) [OF w(3)] data d(2,3) put by simp
  have now: "fileData (memory_view port') (vfsState vfs') 3 = Some (data @ take (nat m) [1, 2, 3])"
    using wrote_fields(3) [OF w(3)] d(2,3) put by simp
  have two: "engine_session cmp port' vfs'"
    by (rule engine_session.file_written [OF one _ run [unfolded m]]) (simp add: big_descriptor bigDescriptor_def)
  show thesis by (rule that [OF one _ len run [unfolded m] two w(1,2) grown now]) (use data in \<open>simp add: big_state\<close>)
qed

section \<open>Syncs and calls\<close>



text \<open>
  C6. On a host without faults a session never poisons its store: every operation on the tree either
  succeeds, with the state its planned record leads to, or is refused without any effect; the store stays
  open and its state stays valid.
\<close>

theorem session_call_succeeds_or_refuses:
  assumes session: "engine_session cmp port vfs"
    and names: "unmarked_call call (vfsState vfs)"
    and run: "runTree (memoryOps cmp) call (port, vfs) = (r, (port', vfs'))"
  shows "(case r of
      Inr _ \<Rightarrow> \<exists>txn. treePlan call (vfsState vfs) = Inr txn \<and> applyTxn (vfsState vfs) txn None = (None, vfsState vfs')
    | Inl e \<Rightarrow> port' = port \<and> vfs' = vfs)
    \<and> vfsStatus vfs' = StatusOpen \<and> validateState (vfsState vfs') = Inr ()"
proof -
  have good: "good_engine port vfs" using session_good [OF session] .
  note outcome = runTree_on_memory [OF good names run]
  note fits = unmarked_fits [OF good_engine_inv [OF good] names]
  have valid: "vfsStatus vfs' = StatusOpen \<and> validateState (vfsState vfs') = Inr ()"
  proof -
    obtain selected other st txns logged where e: "engine_image (memory_view port') vfs' selected other st txns logged"
      using good_keeps [OF memory.runTree_keeps [OF fits] good run] unfolding good_engine_def live_engine_def by blast
    show ?thesis using engine_imageD(2) [OF e] validateState_complete [OF engine_image_live(1) [OF e] engine_imageD(4) [OF e]]
      by simp
  qed
  show ?thesis
  proof (cases r)
    case (Inl e)
    with outcome valid show ?thesis by simp
  next
    case (Inr u)
    with runTree_follows [OF run] valid show ?thesis by (auto simp: follows_def)
  qed
qed

theorem session_call_succeeds_or_refuses_witness:
  "\<exists>port vfs r port' vfs'. engine_session (\<lambda>_ _. 0) port vfs \<and> descriptors vfs \<noteq> []
    \<and> runTree demoOps (UnlinkCall path_ab 9) (port, vfs) = (r, (port', vfs'))
    \<and> vfsStatus vfs' = StatusOpen \<and> validateState (vfsState vfs') = Inr ()"
proof -
  obtain port handles where one: "engine_session (\<lambda>_ _. 0) port (bigOpen handles)" by (rule big_session)
  obtain r port' vfs' where run: "runTree demoOps (UnlinkCall path_ab 9) (port, bigOpen handles) = (r, (port', vfs'))"
    by (metis surj_pair)
  have plan: "treePlan (UnlinkCall path_ab 9) demo2 = Inr (RemoveFile 2 [98] 9 9)" by code_simp
  have names: "unmarked_call (UnlinkCall path_ab 9) (vfsState (bigOpen handles))"
    unfolding unmarked_call_def big_state plan by (simp add: recordNames_def bom_free_def bom_unit_def)
  from session_call_succeeds_or_refuses [OF one names run] one run show ?thesis
    by (intro exI [of _ port] exI [of _ "bigOpen handles"]) (simp add: bigOpen_def)
qed

section \<open>An open file whose path goes away\<close>

text \<open>
  C35. A file that is unlinked while it is open stays readable: every descriptor of it keeps its size and
  its extents, the extents are pinned against the next repack, and the descriptors of other files are
  untouched.
\<close>

theorem unlink_keeps_open_file:
  assumes "unlink ops p now (w, vfs) = (Inr (), (w', vfs'))"
    and found: "resolveIn p False vfs = Inr q" "inodeAt q vfs = Inr inode" "body inode = File n extents"
    and fds: "distinct (map fst (descriptors vfs))" "map_of (descriptors vfs) fd = Some d" "descOrphan d = None"
  shows "if descInodeId d = inodeId inode
    then \<exists>d'. map_of (descriptors vfs') fd = Some d' \<and> d' = d\<lparr>descOrphan := descOrphan d'\<rparr>
      \<and> descriptorFile d' vfs' = Inr (n, extents) \<and> set extents \<subseteq> pinnedExtents vfs'
    else map_of (descriptors vfs') fd = Some d"
proof -
  obtain we1 txn where we1: "commit ops txn None (w, vfs) = (Inr (), we1)"
    "vfs' = orphaned (affectedBy inode vfs) (orphanOf inode) (snd we1)"
    using unlink_effect [OF assms(1)] found(1,2) by (metis Inr_inject snd_conv)
  have keep: "descriptors (snd we1) = descriptors vfs" "orphans (snd we1) = orphans vfs"
    using commit_applies [OF we1(1)] by simp_all
  have affected: "fd \<in> set (affectedBy inode vfs) \<longleftrightarrow> descInodeId d = inodeId inode"
    using in_filtered [OF fds(1,2)] fds(3) by (simp add: affectedBy_def found(3) linkedDescriptors_def del: set_map)
  have d': "map_of (descriptors vfs') fd = Some (if descInodeId d = inodeId inode
      then d\<lparr>descOrphan := Some (length (orphans vfs))\<rparr> else d)"
    using fds(2) by (simp add: we1(2) orphaned_map_of keep affected)
  show ?thesis
  proof (cases "descInodeId d = inodeId inode")
    case True
    then have "affectedBy inode vfs \<noteq> []" using affected by auto
    then have orphan: "orphans vfs' ! length (orphans vfs) = makeOrphanRecord inode n extents"
      by (simp add: we1(2) orphaned_def keep orphanOf_def found(3))
    have "set extents \<subseteq> pinnedExtents vfs'"
      using map_of_SomeD [OF d'] True orphan by (force simp: pinnedExtents_def makeOrphanRecord_def)
    with True d' orphan show ?thesis by (simp add: descriptorFile_def makeOrphanRecord_def)
  next
    case False
    with d' show ?thesis by simp
  qed
qed

text \<open>A record that applies and fits the log passes the preflight.\<close>

lemma preflight_accepts:
  assumes "checkOpen vfs = Inr ()" and step: "applyTxn (vfsState vfs) txn None = (None, state)" and fits: "record_fits txn"
    and u: "u64 (generation (vfsState vfs))" "u64 (nextSequence (vfsStore vfs))"
    and plain: "\<not> isDeferrableResize txn (vfsState vfs)"
    and room: "int (length (encRecord txn)) \<le> MAX_FRAME_PAYLOAD_BYTES"
      "activeLogFrames (vfsStore vfs) < MAX_ACTIVE_LOG_FRAMES"
      "activeLogBytes (vfsStore vfs) + 48 + int (length (encRecord txn)) \<le> MAX_ACTIVE_LOG_BYTES"
  shows "\<exists>prepared. preflightCommit txn vfs = Inr prepared"
proof -
  let ?f = "logFrame (generation (vfsState vfs)) (nextSequence (vfsStore vfs)) txn"
  have "frame_fits ?f" using fits u room(1) by (simp add: frame_fits_def logFrame_def u64_fits)
  then have frame: "encodeTxnFrame \<lparr>frameGeneration = generation (vfsState vfs),
      frameSequence = nextSequence (vfsStore vfs), frameRecord = txn\<rparr> = Inr (encFrame ?f)"
    using encodeTxnFrame_ok [of ?f] by (simp add: logFrame_def)
  have "txnFrameBytes txn = Inr (48 + int (length (encRecord txn)))"
    using estimate_length [OF fits] room(1) by (simp add: txnFrameBytes_def TXN_FRAME_HEADER_BYTES_def)
  moreover obtain projected where "preflightTxn (vfsState vfs) txn defaultLimits = Inr projected"
    using step by (auto simp: applyTxn_None)
  ultimately show ?thesis
    using assms(1) plain room(2,3) frame
    by (simp add: preflightCommit_def pendingReplacedBy_def prepareTxnProjection_def Let_def)
qed

lemma unlink_run:
  assumes "checkOpen (snd we) = Inr ()" "resolveIn p False (snd we) = Inr q" "inodeAt q (snd we) = Inr inode"
    "\<not> isDirectory inode" "planUnlink (vfsState (snd we)) q now = Inr txn" "commit ops txn None we = (Inr (), (w', vfs'))"
  shows "unlink ops p now we = (Inr (), (w', orphaned (affectedBy inode (snd we)) (orphanOf inode) vfs'))"
  using assms by (simp add: unlink_def assertHealthy_def engine_binds iobind_run)

theorem unlink_keeps_open_file_witness:
  "\<exists>(port :: MemoryPort) vfs port' vfs' d'. unlink demoOps path_ab 9 (port, vfs) = (Inr (), (port', vfs'))
    \<and> map_of (descriptors vfs') 3 = Some d' \<and> descriptorFile d' vfs' = Inr (100000, [0, 1]) \<and> {0, 1} \<subseteq> pinnedExtents vfs'"
proof -
  let ?txn = "RemoveFile 2 [98] 9 9"
  obtain port handles where one: "engine_session (\<lambda>_ _. 0) port (bigOpen handles)" by (rule big_session)
  let ?vfs = "bigOpen handles"
  have live: "live_engine (memory_view port) ?vfs" and good: "memory_good port"
    using session_good [OF one] by (simp_all add: good_engine_def)
  have unlink_plan: "planUnlink (vfsState ?vfs) path_ab 9 = Inr ?txn" unfolding big_state by code_simp
  have plan: "planned (vfsState ?vfs) ?txn" by (rule planned.intros, rule unlink_plan)
  have fits: "record_fits ?txn" using big_record(5) by (simp add: record_fits_def fits_def)
  obtain state where state: "applyTxn (vfsState ?vfs) ?txn None = (None, state)"
    using planned_applies [OF live_engineD(1,2) [OF live] plan] by blast
  have plain: "\<not> isDeferrableResize ?txn (vfsState ?vfs)" by (simp add: isDeferrableResize_def)
  have len: "length (encRecord ?txn) = 28" "generation demo2 = 1" by code_simp+
  obtain prepared where prepared: "preflightCommit ?txn ?vfs = Inr prepared"
    using preflight_accepts [OF live_engineD(3) [OF live] state fits _ _ plain] len
    by (auto simp: big_counters big_state u64_def MAX_U64_def MAX_ACTIVE_LOG_FRAMES_def MAX_ACTIVE_LOG_BYTES_def
        MAX_FRAME_PAYLOAD_BYTES_def)
  obtain v' vfs1 where "memory.runs (memory_view port, ?vfs) (commit demoOps ?txn None) (Inr ()) (v', vfs1)"
    using memory.commit_live [OF live prepared fits _ plan, of None] by (fastforce simp: plannedRuns_def)
  from runs_result [OF this good] obtain port1 where c: "commit demoOps ?txn None (port, ?vfs) = (Inr (), (port1, vfs1))" by blast
  have found: "resolveIn path_ab False ?vfs = Inr path_ab" "inodeAt path_ab ?vfs = Inr bigNode"
    using big_record(7,8) by (simp_all only: resolveIn_def inodeAt_def big_state)
  have node: "body bigNode = File 100000 [0, 1]" "inodeId bigNode = 3" "\<not> isDirectory bigNode"
    by (simp_all add: bigNode_def isDirectory_def)
  note run = unlink_run [of "(port, ?vfs)", unfolded snd_conv, OF live_engineD(3) [OF live] found node(3) unlink_plan c]
  let ?left = "orphaned (affectedBy bigNode ?vfs) (orphanOf bigNode) vfs1"
  have "\<exists>d'. map_of (descriptors ?left) 3 = Some d' \<and> descriptorFile d' ?left = Inr (100000, [0, 1]) \<and> {0, 1} \<subseteq> pinnedExtents ?left"
    using unlink_keeps_open_file [OF run found node(1), of 3 bigDescriptor] node(2) by (auto simp: bigOpen_def bigDescriptor_def)
  with run show ?thesis by blast
qed

section \<open>Reads and writes\<close>

lemma read_on_memory:
  assumes good: "good_engine port vfs" and d: "descriptor fd vfs = Inr d" "descReadable d"
    and range: "validateBufferRange target offset len = Inr ()" and data: "descriptorData (memory_view port) vfs d = Some data"
    and start: "0 \<le> startAt d position" and got: "got = max 0 (min len (int (length data) - startAt d position))"
  shows "\<exists>port'. read_file (memoryOps cmp) fd target offset len position (port, vfs)
      = (Inr (got, fillFrom offset (sliceOf (startAt d position) got data) target),
         (port', movedTo fd position (startAt d position + got) vfs)) \<and> memory_view port' = memory_view port"
proof -
  have g: "memory_good port" "live_engine (memory_view port) vfs" using good by (simp_all add: good_engine_def)
  from runs_result [OF memory.read_file_runs [OF g(2) d range data refl start got] g(1)] show ?thesis by blast
qed

text \<open>
  C7. Reading a file gives its contents: after any session, a read at a descriptor that is open for reading,
  of a file or of one that was unlinked since, fills the buffer with the bytes of the file from where it
  starts, as many as there are and fit, returns their number, moves the offset of the descriptor behind
  them unless a position was given, and changes nothing else.
\<close>

theorem session_read_returns_contents:
  assumes session: "engine_session cmp port vfs" and d: "descriptor fd vfs = Inr d" "descReadable d"
    and range: "validateBufferRange target offset len = Inr ()" and data: "descriptorData (memory_view port) vfs d = Some data"
    and start: "start = startAt d position" "0 \<le> start" and got: "got = max 0 (min len (int (length data) - start))"
  shows "\<exists>port'. read_file (memoryOps cmp) fd target offset len position (port, vfs)
      = (Inr (got, take (nat offset) target @ take (nat got) (drop (nat start) data) @ drop (nat (offset + got)) target),
         (port', movedTo fd position (start + got) vfs)) \<and> memory_view port' = memory_view port"
proof -
  have "0 \<le> got" "int (length (sliceOf start got data)) = got"
    using got start(2) by (auto simp: sliceOf_def max_def min_def split: if_splits)
  moreover have "0 \<le> offset" using range by (simp add: validateBufferRange_def split: if_splits)
  ultimately have "fillFrom offset (sliceOf start got data) target
      = take (nat offset) target @ take (nat got) (drop (nat start) data) @ drop (nat (offset + got)) target"
    by (simp add: fillFrom_def nat_add_distrib) (simp add: sliceOf_def)
  with read_on_memory [OF session_good [OF session] d range data, of position got cmp] start got show ?thesis by simp
qed

theorem session_read_returns_contents_witness:
  "\<exists>port vfs port' vfs' data. engine_session (\<lambda>_ _. 0) port vfs \<and> length data = 100000
    \<and> read_file demoOps 3 [0, 0, 0] 1 2 (Some 5) (port, vfs) = (Inr (2, [0, data ! 5, data ! 6]), (port', vfs'))
    \<and> fileData (memory_view port) (vfsState vfs) 3 = Some data"
proof -
  obtain port handles data where one: "engine_session (\<lambda>_ _. 0) port (bigOpen handles)"
    "fileData (memory_view port) demo2 3 = Some data" "length data = 100000"
    by (rule big_written)
  have d: "descReadable bigDescriptor" "startAt bigDescriptor (Some 5) = 5"
    "descriptorData (memory_view port) (bigOpen handles) bigDescriptor = Some data"
    using one(2) by (simp_all add: bigDescriptor_def startAt_def descriptorData_def big_state)
  have range: "validateBufferRange [0, 0, 0] 1 2 = Inr ()" by code_simp
  have "take 2 (drop 5 data) = [data ! 5, data ! 6]" using one(3) by (simp add: list_eq_iff_nth_eq less_Suc_eq numeral_2_eq_2)
  with session_read_returns_contents [OF one(1) big_descriptor d(1) range d(3) refl, of "Some 5" 2] d(2) one(3)
  obtain port' vfs' where "read_file demoOps 3 [0, 0, 0] 1 2 (Some 5) (port, bigOpen handles) = (Inr (2, [0, data ! 5, data ! 6]), (port', vfs'))"
    by auto
  moreover have "fileData (memory_view port) (vfsState (bigOpen handles)) 3 = Some data" using one(2) by (simp add: big_state)
  ultimately show ?thesis using one(1,3) by blast
qed

text \<open>What a write does, on an engine that is live.\<close>

lemma write_patches:
  assumes good: "good_engine port vfs" and d: "descriptor fd vfs = Inr d" "descOrphan d = None"
    and run: "write_file (memoryOps cmp) clock fd target offset len position now (port, vfs) = (r, (port', vfs'))"
    and src: "src = take (nat len) (drop (nat offset) target)"
  shows "case r of
      Inl e \<Rightarrow> memory_view port' = memory_view port \<and> vfs' = vfs
        \<and> (validateBufferRange target offset len = Inr () \<and> u64 now \<and> descWritable d \<longrightarrow>
           (\<forall>data. fileData (memory_view port) (vfsState vfs) (descInodeId d) = Some data \<longrightarrow>
              \<not> (0 \<le> writeStart d data position \<and> writeStart d data position + int (length src) \<le> int (length data))))
    | Inr m \<Rightarrow> \<exists>data. descWritable d \<and> fileData (memory_view port) (vfsState vfs) (descInodeId d) = Some data
        \<and> (if src = [] then m = 0 \<and> memory_view port' = memory_view port \<and> vfs' = vfs
           else let start = writeStart d data position; patched = putBytes start (take (nat m) src) data in
             0 \<le> start \<and> 0 < m \<and> m \<le> int (length src) \<and> (start + int (length src) \<le> int (length data) \<longrightarrow> m = int (length src))
             \<and> fileData (memory_view port') (vfsState vfs')
                 = (fileData (memory_view port) (vfsState vfs))(descInodeId d \<mapsto> patched)
             \<and> (\<forall>orphan\<in>set (orphans vfs). orphanData (memory_view port') (vfsState vfs') orphan
                 = orphanData (memory_view port) (vfsState vfs) orphan)
             \<and> orphans vfs' = orphans vfs \<and> descriptors vfs' = descriptors (movedTo fd position (start + m) vfs)
             \<and> (length data < length patched \<longrightarrow> pendingResizeCommit vfs' \<noteq> None))"
proof -
  have linked: "\<forall>d. descriptor fd vfs = Inr d \<longrightarrow> descOrphan d = None" using d by simp
  note out = write_on_memory [OF good linked run src]
  show ?thesis
  proof (cases r)
    case (Inl e)
    with out(1) out(2) [OF _ _ d(1)] show ?thesis by auto
  next
    case (Inr m)
    obtain data where data: "descWritable d" "fileData (memory_view port) (vfsState vfs) (descInodeId d) = Some data"
      "if src = [] then m = 0 \<and> memory_view port' = memory_view port \<and> vfs' = vfs
       else 0 < m \<and> m \<le> int (length src) \<and> wrote (memory_view port) vfs fd d data position src m (memory_view port', vfs')"
      using out(1) d(1) unfolding Inr by auto
    show ?thesis
    proof (cases "src = []")
      case True
      with data Inr show ?thesis by auto
    next
      case False
      with data(3) have w: "0 < m" "m \<le> int (length src)"
        "wrote (memory_view port) vfs fd d data position src m (memory_view port', vfs')" by simp_all
      have checks: "validateBufferRange target offset len = Inr ()" "u64 now"
        using run Inr by (auto simp: write_file_def assertHealthy_def engine_binds iobind_run iolift_def checkedU64_Inr
            split: sum.splits)
      have "m = int (length src)" if "writeStart d data position + int (length src) \<le> int (length data)"
        using out(2) [OF checks d(1) data(1,2) wrote_fields(2) [OF w(3)] that] Inr by simp
      with False data(1,2) w(1,2) wrote_fields [OF w(3)] Inr show ?thesis by (auto simp: Let_def)
    qed
  qed
qed

text \<open>
  C8. Writing a file patches its contents: after any session, a write at a descriptor of a file that still
  has a path is refused, and then nothing has changed, or it returns how many of the bytes it was given,
  at least one if any, are now in the file from where it starts, the gap before them filled with zeros;
  the rest of the file, every other file and every unlinked file that is still open keep their contents.
  A write that ends within the file is done in full. One that makes the file longer holds its record back.
\<close>

theorem session_write_patches_file:
  assumes session: "engine_session cmp port vfs" and d: "descriptor fd vfs = Inr d" "descOrphan d = None"
    and run: "write_file (memoryOps cmp) clock fd target offset len position now (port, vfs) = (r, (port', vfs'))"
    and src: "src = take (nat len) (drop (nat offset) target)"
  shows "case r of
      Inl e \<Rightarrow> memory_view port' = memory_view port \<and> vfs' = vfs
        \<and> (validateBufferRange target offset len = Inr () \<and> u64 now \<and> descWritable d \<longrightarrow>
           (\<forall>data. fileData (memory_view port) (vfsState vfs) (descInodeId d) = Some data \<longrightarrow>
              \<not> (0 \<le> writeStart d data position \<and> writeStart d data position + int (length src) \<le> int (length data))))
    | Inr m \<Rightarrow> \<exists>data. descWritable d \<and> fileData (memory_view port) (vfsState vfs) (descInodeId d) = Some data
        \<and> (if src = [] then m = 0 \<and> memory_view port' = memory_view port \<and> vfs' = vfs
           else let start = writeStart d data position; patched = putBytes start (take (nat m) src) data in
             0 \<le> start \<and> 0 < m \<and> m \<le> int (length src) \<and> (start + int (length src) \<le> int (length data) \<longrightarrow> m = int (length src))
             \<and> fileData (memory_view port') (vfsState vfs')
                 = (fileData (memory_view port) (vfsState vfs))(descInodeId d \<mapsto> patched)
             \<and> (\<forall>orphan\<in>set (orphans vfs). orphanData (memory_view port') (vfsState vfs') orphan
                 = orphanData (memory_view port) (vfsState vfs) orphan)
             \<and> orphans vfs' = orphans vfs \<and> descriptors vfs' = descriptors (movedTo fd position (start + m) vfs)
             \<and> (length data < length patched \<longrightarrow> pendingResizeCommit vfs' \<noteq> None))"
  by (rule write_patches [OF session_good [OF session] d run src])

theorem session_write_patches_file_witness:
  "\<exists>port vfs m port' vfs' data. engine_session (\<lambda>_ _. 0) port vfs \<and> length data = 100000
    \<and> fileData (memory_view port) (vfsState vfs) 3 = Some data
    \<and> write_file demoOps stillClock 3 [1, 2, 3] 0 3 (Some 100000) 7 (port, vfs) = (Inr m, (port', vfs')) \<and> 0 < m
    \<and> fileData (memory_view port') (vfsState vfs') 3 = Some (putBytes 100000 (take (nat m) [1, 2, 3]) data)"
proof -
  obtain port handles port' vfs' data m where s: "engine_session (\<lambda>_ _. 0) port (bigOpen handles)"
    "fileData (memory_view port) demo2 3 = Some data" "length data = 100000"
    "write_file demoOps stillClock 3 [1, 2, 3] 0 3 (Some 100000) 7 (port, bigOpen handles) = (Inr m, (port', vfs'))"
    by (rule big_written)
  have d: "descOrphan bigDescriptor = None" "descInodeId bigDescriptor = 3" "writeStart bigDescriptor data (Some 100000) = 100000"
    by (simp_all add: bigDescriptor_def writeStart_def startAt_def)
  have held: "fileData (memory_view port) (vfsState (bigOpen handles)) 3 = Some data" using s(2) by (simp add: big_state)
  from session_write_patches_file [OF s(1) big_descriptor d(1) s(4), of "[1, 2, 3]"]
  have "0 < m" "fileData (memory_view port') (vfsState vfs') 3 = Some (putBytes 100000 (take (nat m) [1, 2, 3]) data)"
    using held d(2,3) by (simp_all add: Let_def)
  with s held show ?thesis by blast
qed

text \<open>
  C9. What was written is what is read: after any session, when a write at a given position of a file that
  still has a path returns how many bytes it wrote, at least one, a read of as many at that position, through any
  descriptor of the same file that is open for reading, returns exactly these bytes.
\<close>

theorem session_reads_back_what_it_wrote:
  assumes session: "engine_session cmp port vfs"
    and d: "descriptor fd vfs = Inr d" "descOrphan d = None" "\<not> descAppend d"
    and e: "descriptor fd2 vfs = Inr e" "descOrphan e = None" "descReadable e" "descInodeId e = descInodeId d"
    and wrote: "write_file (memoryOps cmp) clock fd target offset len (Some at) now (port, vfs) = (Inr m, (port', vfs'))" "0 < m"
    and range: "validateBufferRange buf 0 m = Inr ()"
  shows "\<exists>state. read_file (memoryOps cmp) fd2 buf 0 m (Some at) (port', vfs')
    = (Inr (m, take (nat m) (drop (nat offset) target) @ drop (nat m) buf), state)"
proof -
  define src where "src = take (nat len) (drop (nat offset) target)"
  have start: "writeStart d data (Some at) = at" for data using d(3) by (simp add: writeStart_def startAt_def)
  have e': "descriptor fd2 vfs' = Inr e" if "descriptors vfs' = descriptors (movedTo fd (Some at) k vfs)" for k
    using e(1) that by (simp add: descriptor_Inr movedTo_def)
  note w = write_patches [OF session_good [OF session] d(1,2) wrote(1) src_def, unfolded sum.case start]
  obtain data where data: "src \<noteq> []" "0 \<le> at" "m \<le> int (length src)"
    "fileData (memory_view port') (vfsState vfs') (descInodeId d) = Some (putBytes at (take (nat m) src) data)"
    "descriptors vfs' = descriptors (movedTo fd (Some at) (at + m) vfs)"
    using w wrote(2) by (auto simp: Let_def split: if_splits)
  let ?file = "putBytes at (take (nat m) src) data"
  have good: "good_engine port' vfs'"
    by (rule session_good, rule engine_session.file_written [OF session _ wrote(1)]) (use d in simp)
  have held: "descriptorData (memory_view port') vfs' e = Some ?file" using e(2,4) data(4) by (simp add: descriptorData_def)
  have at: "startAt e (Some at) = at" by (simp add: startAt_def)
  have len: "length (take (nat m) src) = nat m" using data(3) by simp
  then have slice: "sliceOf at m ?file = take (nat m) src" using data(2) by (simp add: sliceOf_def putBytes_def Let_def)
  have "at + m \<le> int (length ?file)" using len wrote(2) data(2) by (simp add: putBytes_def Let_def min_def)
  then have got: "m = max 0 (min m (int (length ?file) - startAt e (Some at)))" using wrote(2) at by simp
  from read_on_memory [OF good e' [OF data(5)] e(3) range held _ got, of cmp] data(2) at
  have "\<exists>state. read_file (memoryOps cmp) fd2 buf 0 m (Some at) (port', vfs') = (Inr (m, fillFrom 0 (sliceOf at m ?file) buf), state)"
    by auto
  moreover have "fillFrom 0 (take (nat m) src) buf = take (nat m) src @ drop (nat m) buf"
    unfolding fillFrom_def len by simp
  moreover have "take (nat m) src = take (nat m) (drop (nat offset) target)"
    using data(3) by (auto simp: src_def min_def split: if_splits)
  ultimately show ?thesis unfolding slice by simp
qed

theorem session_reads_back_what_it_wrote_witness:
  "\<exists>port vfs m port' vfs' state. engine_session (\<lambda>_ _. 0) port vfs \<and> 0 < m
    \<and> write_file demoOps stillClock 3 [1, 2, 3] 0 3 (Some 100000) 7 (port, vfs) = (Inr m, (port', vfs'))
    \<and> read_file demoOps 3 [0, 0, 0] 0 m (Some 100000) (port', vfs') = (Inr (m, take (nat m) [1, 2, 3] @ drop (nat m) [0, 0, 0]), state)"
proof -
  obtain port handles port' vfs' m where s: "engine_session (\<lambda>_ _. 0) port (bigOpen handles)" "0 < m" "m \<le> 3"
    "write_file demoOps stillClock 3 [1, 2, 3] 0 3 (Some 100000) 7 (port, bigOpen handles) = (Inr m, (port', vfs'))"
    by (rule big_written)
  have d: "descOrphan bigDescriptor = None" "\<not> descAppend bigDescriptor" "descReadable bigDescriptor"
    by (simp_all add: bigDescriptor_def)
  have range: "validateBufferRange [0, 0, 0] 0 m = Inr ()" using s(2,3) by (simp add: validateBufferRange_def isSafeInteger_def limit_defs)
  from session_reads_back_what_it_wrote [OF s(1) big_descriptor d(1,2) big_descriptor d(1,3) refl s(4,2) range]
  obtain state where "read_file demoOps 3 [0, 0, 0] 0 m (Some 100000) (port', vfs')
    = (Inr (m, take (nat m) [1, 2, 3] @ drop (nat m) [0, 0, 0]), state)" by auto
  with s(1,2,4) show ?thesis by blast
qed

end
