(* ===== verification/WriteLimits.thy ===== *)
theory WriteLimits
  imports EngineWrite Scenario
begin

text \<open>
  The bisection for a prefix of a write that the limits admit, and what it finds for a write of a linked file
  and of an orphan.
\<close>

section \<open>The bisection\<close>

text \<open>
  The invariant of the loop: the length just below \<open>low\<close> was admitted, unless nothing was tried below, and the
  one just above \<open>high\<close> was refused. Nothing is assumed of the lengths that were not tried.
\<close>

lemma bisect_boundary:
  assumes "bisect attempt low high admitted best = Inr (n, best')"
    and "low = 0 \<and> admitted = 0 \<and> best = None \<or> 0 < low \<and> admitted = low - 1 \<and> (\<exists>plan. best = Some plan \<and> attempt admitted = Inr plan)"
    and "attempt (high + 1) = Inl StoreLimitError" "0 \<le> low" "low \<le> high + 1"
  shows "0 \<le> n \<and> n \<le> max high 0 \<and> (if best' = None then n = 0 \<and> attempt 0 = Inl StoreLimitError
    else attempt n = Inr (the best') \<and> attempt (n + 1) = Inl StoreLimitError)"
  using assms
proof (induction attempt low high admitted best rule: bisect.induct)
  case (1 attempt low high admitted best)
  let ?c = "low + (high - low) div 2"
  show ?case
  proof (cases "low \<le> high")
    case False
    then have "n = admitted" "best' = best" "high = low - 1" using "1.prems"(1,5) by (simp_all add: bisect.simps)
    with "1.prems"(2-4) show ?thesis by auto
  next
    case True
    then have c: "low \<le> ?c" "?c \<le> high" by auto
    show ?thesis
    proof (cases "attempt ?c")
      case (Inr plan)
      then have "bisect attempt (?c + 1) high ?c (Some plan) = Inr (n, best')"
        using "1.prems"(1) True by (subst (asm) bisect.simps) (simp add: Let_def)
      from "1.IH"(2) [OF True refl Inr this] "1.prems"(3,4) Inr c show ?thesis by simp
    next
      case (Inl e)
      then have run: "e = StoreLimitError" "bisect attempt low (?c - 1) admitted best = Inr (n, best')"
        using "1.prems"(1) True by (subst (asm) bisect.simps, simp add: Let_def split: if_splits)+
      have "0 \<le> n \<and> n \<le> max (?c - 1) 0 \<and> (if best' = None then n = 0 \<and> attempt 0 = Inl StoreLimitError
          else attempt n = Inr (the best') \<and> attempt (n + 1) = Inl StoreLimitError)"
        by (rule "1.IH"(1) [OF True refl Inl run]) (use "1.prems"(2,4) Inl run(1) c in auto)
      with c show ?thesis by auto
    qed
  qed
qed

text \<open>An error of the bisection is one of the attempts.\<close>

lemma bisect_fails:
  "bisect attempt low high admitted best = Inl e \<Longrightarrow> 0 \<le> low \<Longrightarrow> e \<noteq> StoreLimitError \<and> (\<exists>n. 0 \<le> n \<and> n \<le> high \<and> attempt n = Inl e)"
proof (induction attempt low high admitted best rule: bisect.induct)
  case (1 attempt low high admitted best)
  let ?c = "low + (high - low) div 2"
  show ?case
  proof (cases "low \<le> high")
    case False
    with "1.prems" show ?thesis by (simp add: bisect.simps)
  next
    case True
    then have c: "low \<le> ?c" "?c \<le> high" by auto
    show ?thesis
    proof (cases "attempt ?c")
      case (Inr plan)
      then have "bisect attempt (?c + 1) high ?c (Some plan) = Inl e"
        using "1.prems"(1) True by (subst (asm) bisect.simps) (simp add: Let_def)
      from "1.IH"(2) [OF True refl Inr this] "1.prems"(2) c show ?thesis by auto
    next
      case (Inl cause)
      show ?thesis
      proof (cases "cause = StoreLimitError")
        case eq: True
        then have "bisect attempt low (?c - 1) admitted best = Inl e"
          using "1.prems"(1) True Inl by (subst (asm) bisect.simps) (simp add: Let_def)
        from "1.IH"(1) [OF True refl Inl eq this "1.prems"(2)] c show ?thesis by auto
      next
        case False
        then have "e = cause" using "1.prems"(1) True Inl by (subst (asm) bisect.simps) (simp add: Let_def)
        with False Inl c "1.prems"(2) show ?thesis by (intro conjI exI [of _ ?c]) auto
      qed
    qed
  qed
qed

definition admits_to :: "(int \<Rightarrow> 'p res) \<Rightarrow> int \<Rightarrow> (int \<times> 'p) res \<Rightarrow> bool" where
  "admits_to attempt requested result \<longleftrightarrow> (case result of
     Inr (n, plan) \<Rightarrow> 0 < n \<and> n \<le> requested \<and> attempt n = Inr plan
       \<and> (n = requested \<or> attempt (n + 1) = Inl StoreLimitError)
   | Inl e \<Rightarrow> (\<exists>n. 0 \<le> n \<and> n \<le> requested \<and> attempt n = Inl e)
       \<and> (e = StoreLimitError \<longrightarrow> attempt requested = Inl e \<and> (attempt 0 = Inl e \<or> attempt 1 = Inl e)))"

lemma longest_boundary:
  assumes pos: "0 < requested"
  shows "admits_to attempt requested (longestAdmitted attempt requested)"
proof (cases "attempt requested")
  case (Inr plan)
  with pos show ?thesis by (simp add: longestAdmitted_def admits_to_def)
next
  case (Inl cause)
  show ?thesis
  proof (cases "cause = StoreLimitError")
    case False
    with Inl pos show ?thesis by (auto simp: longestAdmitted_def admits_to_def intro!: exI [of _ requested])
  next
    case True
    show ?thesis
    proof (cases "bisect attempt 0 (requested - 1) 0 None")
      case (Inl e)
      with bisect_fails [OF this] True \<open>attempt requested = Inl cause\<close> show ?thesis
        by (auto simp: longestAdmitted_def admits_to_def)
    next
      case (Inr p)
      obtain n best where p: "p = (n, best)" by (metis surj_pair)
      have "0 \<le> n \<and> n \<le> max (requested - 1) 0 \<and> (if best = None then n = 0 \<and> attempt 0 = Inl StoreLimitError
          else attempt n = Inr (the best) \<and> attempt (n + 1) = Inl StoreLimitError)"
        by (rule bisect_boundary [OF Inr [unfolded p]]) (use True \<open>attempt requested = Inl cause\<close> pos in auto)
      with True \<open>attempt requested = Inl cause\<close> Inr p pos show ?thesis
        by (auto simp: longestAdmitted_def admits_to_def split: if_splits intro: exI [of _ requested])
    qed
  qed
qed

text \<open>
  C37. A write that the limits refuse is cut to a prefix that cannot be made longer by one byte: the plan of a
  write, of a linked file as of an orphan, is one the limits admit for exactly the length it gives, which
  is at least one byte, and it is all that was asked for, or one byte more is refused by a limit; no
  property of the lengths the search did not try is assumed. A write is refused by a limit only if all of
  it is, and the first byte or the space before it; any other error is that of a length that was tried.
\<close>

theorem write_prefix_cannot_grow:
  assumes "0 < requested"
  shows "(case planLinkedWrite inode present start requested now vfs of
        Inr (n, plan) \<Rightarrow> 0 < n \<and> n \<le> requested \<and> attemptLinked inode present start now vfs n = Inr plan
          \<and> (n = requested \<or> attemptLinked inode present start now vfs (n + 1) = Inl StoreLimitError)
      | Inl e \<Rightarrow> (\<exists>n. 0 \<le> n \<and> n \<le> requested \<and> attemptLinked inode present start now vfs n = Inl e)
          \<and> (e = StoreLimitError \<longrightarrow> attemptLinked inode present start now vfs requested = Inl e
              \<and> (\<exists>n\<in>{0, 1}. attemptLinked inode present start now vfs n = Inl e)))
    \<and> (case planOrphanWrite orphan start requested vfs of
        Inr (n, plan) \<Rightarrow> 0 < n \<and> n \<le> requested \<and> attemptOrphan orphan start vfs n = Inr plan
          \<and> (n = requested \<or> attemptOrphan orphan start vfs (n + 1) = Inl StoreLimitError)
      | Inl e \<Rightarrow> (\<exists>n. 0 \<le> n \<and> n \<le> requested \<and> attemptOrphan orphan start vfs n = Inl e)
          \<and> (e = StoreLimitError \<longrightarrow> attemptOrphan orphan start vfs requested = Inl e
              \<and> (\<exists>n\<in>{0, 1}. attemptOrphan orphan start vfs n = Inl e)))"
  using longest_boundary [OF assms, of "attemptLinked inode present start now vfs"]
    longest_boundary [OF assms, of "attemptOrphan orphan start vfs"]
  by (auto simp: planLinkedWrite_def planOrphanWrite_def admits_to_def split: sum.splits)

text \<open>A store whose arena can hold no more extents, with a file of two extents.\<close>

definition fullState :: VfsState where
  "fullState = demo2\<lparr>allocator := arena MAX_TOTAL_EXTENTS [(0, 3), (1, 3)] []\<rparr>"

definition fullNode :: Inode where
  "fullNode = \<lparr>inodeId = 3, imode = 33206, atimeMs = 6, mtimeMs = 6, ctimeMs = 6, body = File 100000 [0, 1]\<rparr>"

definition fullEngine :: "unit RepackedVfs" where
  "fullEngine = newRepackedVfs \<lparr>storeHandles = (\<lambda>_. ()), storeState = fullState, activeLogEnd = 0, nextSequence = 3,
     activeLogBytes = 220, activeLogFrames = 2, activationSequence = 1, arenaHighWaterExtents = 2, arenaSize = 0,
     arenaDirty = False, activeMetadataDirty = False\<rparr> 0"

theorem write_prefix_cannot_grow_witness:
  "\<exists>plan. planLinkedWrite fullNode 100000 131070 10 7 fullEngine = Inr (2, plan)
    \<and> attemptLinked fullNode 100000 131070 7 fullEngine 3 = Inl StoreLimitError"
proof -
  have "(case planLinkedWrite fullNode 100000 131070 10 7 fullEngine of Inr (n, _) \<Rightarrow> n = 2 | _ \<Rightarrow> False)" by code_simp
  then obtain plan where plan: "planLinkedWrite fullNode 100000 131070 10 7 fullEngine = Inr (2, plan)"
    by (auto split: sum.splits)
  with write_prefix_cannot_grow [of 10 fullNode 100000 131070 7 fullEngine] show ?thesis by simp
qed

end
