(* ===== verification/MountedVfs.thy ===== *)
theory MountedVfs
  imports EngineWrite
begin

text \<open>
  \<open>packages/pgwasm/src/opfs/core/mounted-vfs.ts\<close>: one file system made of several stores, joined at path
  prefixes. The composite routes every path to the store that holds it and keeps its own descriptors;
  symbolic links are resolved over the whole tree.
\<close>

section \<open>The interface of a store\<close>

text \<open>
  \<open>RepackedFileSystem\<close>, as a record of operations over one world that all stores share. The optional
  reason and time of the two repack calls have their defaults in the store.
\<close>

record 'w file_system =
  fsStrictSync :: "('w, unit) io"
  fsAssertHealthy :: "('w, unit) io"
  fsFail :: "store_error \<Rightarrow> ('w, unit) io"
  fsMetrics :: "('w, RepackedVfsMetrics) io"
  fsRepack :: "RepackReason option \<Rightarrow> ('w, unit) io"
  fsRunScheduledRepack :: "int option \<Rightarrow> ('w, bool) io"
  fsResolvePath :: "js_string \<Rightarrow> bool \<Rightarrow> ('w, js_string) io"
  fsStat :: "js_string \<Rightarrow> ('w, RepackedStat) io"
  fsLstat :: "js_string \<Rightarrow> ('w, RepackedStat) io"
  fsSymlink :: "js_string \<Rightarrow> js_string \<Rightarrow> int \<Rightarrow> ('w, unit) io"
  fsReadlink :: "js_string \<Rightarrow> ('w, js_string) io"
  fsReaddir :: "js_string \<Rightarrow> ('w, js_string list) io"
  fsMkdir :: "js_string \<Rightarrow> bool \<Rightarrow> int option \<Rightarrow> int \<Rightarrow> ('w, unit) io"
  fsWriteFile :: "js_string \<Rightarrow> FileData \<Rightarrow> WriteFileOptions \<Rightarrow> ('w, unit) io"
  fsReadFile :: "js_string \<Rightarrow> ('w, byte list) io"
  fsTruncate :: "js_string \<Rightarrow> int \<Rightarrow> int \<Rightarrow> ('w, unit) io"
  fsOpen :: "js_string \<Rightarrow> string \<Rightarrow> int \<Rightarrow> int \<Rightarrow> ('w, int) io"
  fsFstat :: "int \<Rightarrow> ('w, RepackedStat) io"
  fsRead :: "int \<Rightarrow> byte list \<Rightarrow> int \<Rightarrow> int \<Rightarrow> int option \<Rightarrow> ('w, int \<times> byte list) io"
  fsWrite :: "int \<Rightarrow> byte list \<Rightarrow> int \<Rightarrow> int \<Rightarrow> int option \<Rightarrow> int \<Rightarrow> ('w, int) io"
  fsChmod :: "js_string \<Rightarrow> int \<Rightarrow> int \<Rightarrow> ('w, unit) io"
  fsUtimes :: "js_string \<Rightarrow> int \<Rightarrow> int \<Rightarrow> int \<Rightarrow> ('w, unit) io"
  fsUnlink :: "js_string \<Rightarrow> int \<Rightarrow> ('w, unit) io"
  fsRmdir :: "js_string \<Rightarrow> int \<Rightarrow> ('w, unit) io"
  fsRename :: "js_string \<Rightarrow> js_string \<Rightarrow> int \<Rightarrow> ('w, unit) io"
  fsClose :: "('w, unit) io"
  fsCloseFd :: "int \<Rightarrow> ('w, unit) io"

record 'w RepackedMount =
  mountPrefix :: js_string
  mountVfs :: "'w file_system"
  mountDurable :: "bool option"

record 'w ResolvedMount =
  rmPrefix :: js_string
  rmBoundary :: js_string
  rmVfs :: "'w file_system"
  rmDurable :: bool

text \<open>The mount a route landed on is told from others by its position among the mounts.\<close>

record 'w Route =
  routeFs :: "'w file_system"
  routePath :: js_string
  routeMount :: "nat option"

record 'w MountedDescriptor =
  mdFs :: "'w file_system"
  mdFd :: int

record 'w MountedVfs =
  mvRoot :: "'w file_system"
  mvMounts :: "'w ResolvedMount list"
  mvDescriptors :: "(int \<times> 'w MountedDescriptor) list"
  mvNextDescriptor :: int

type_synonym ('w, 'a) mounted = "('w \<times> 'w MountedVfs, 'a) io"

section \<open>Construction\<close>

definition startsWith :: "js_string \<Rightarrow> js_string \<Rightarrow> bool" where
  "startsWith path front \<longleftrightarrow> take (length front) path = front"

definition overlaps :: "js_string \<Rightarrow> 'w ResolvedMount \<Rightarrow> bool" where
  "overlaps front existing \<longleftrightarrow>
     rmPrefix existing = front \<or> startsWith front (rmBoundary existing)
     \<or> startsWith (rmPrefix existing) (front @ [slash])"

definition addMount :: "'w RepackedMount \<Rightarrow> 'w ResolvedMount list \<Rightarrow> 'w ResolvedMount list res" where
  "addMount mount mounts =
     ebind (parsePath (mountPrefix mount)) (\<lambda>components.
     if components = [] then Inl (FsError EINVAL)
     else if list_ex (overlaps (mountPrefix mount)) mounts then Inl (FsError EINVAL)
     else Inr (mounts @ [\<lparr>rmPrefix = mountPrefix mount, rmBoundary = mountPrefix mount @ [slash],
            rmVfs = mountVfs mount, rmDurable = (case mountDurable mount of None \<Rightarrow> True | Some d \<Rightarrow> d)\<rparr>]))"

text \<open>The placeholder of a prefix in the root store; one that is there already will do.\<close>

definition makePlaceholder :: "'w file_system \<Rightarrow> int \<Rightarrow> 'w ResolvedMount \<Rightarrow> ('w, unit) io" where
  "makePlaceholder root nowMs mount =
     iocatch (fsMkdir root (rmPrefix mount) True None nowMs)
       (\<lambda>cause. if cause = FsError EEXIST then ioret () else iofail cause)"

definition newMountedVfs :: "'w file_system \<Rightarrow> 'w RepackedMount list \<Rightarrow> int \<Rightarrow> ('w, 'w MountedVfs) io" where
  "newMountedVfs root mounts nowMs =
     iobind (iolift (fold_res addMount mounts [])) (\<lambda>resolved.
     iobind (ioeach (makePlaceholder root nowMs) resolved) (\<lambda>_.
       ioret \<lparr>mvRoot = root, mvMounts = resolved, mvDescriptors = [], mvNextDescriptor = 3\<rparr>))"

text \<open>The getters \<open>mounts\<close> and \<open>root\<close>; the latter is \<open>mvRoot\<close>.\<close>

definition mountedMounts :: "'w MountedVfs \<Rightarrow> 'w RepackedMount list" where
  "mountedMounts mv = map (\<lambda>mount. \<lparr>mountPrefix = rmPrefix mount, mountVfs = rmVfs mount,
     mountDurable = Some (rmDurable mount)\<rparr>) (mvMounts mv)"

section \<open>Routing\<close>

text \<open>The path as the mount sees it, if the mount claims the path.\<close>

definition claimed :: "js_string \<Rightarrow> 'w ResolvedMount \<Rightarrow> js_string option" where
  "claimed path mount =
     (if path = rmPrefix mount then Some [slash]
      else if startsWith path (rmBoundary mount) then Some (drop (length (rmPrefix mount)) path)
      else None)"

fun routeFrom :: "js_string \<Rightarrow> nat \<Rightarrow> 'w ResolvedMount list \<Rightarrow> 'w Route option" where
  "routeFrom path i [] = None"
| "routeFrom path i (mount # mounts) =
     (case claimed path mount of
        Some inner \<Rightarrow> Some \<lparr>routeFs = rmVfs mount, routePath = inner, routeMount = Some i\<rparr>
      | None \<Rightarrow> routeFrom path (Suc i) mounts)"

definition mountedRoute :: "js_string \<Rightarrow> 'w MountedVfs \<Rightarrow> 'w Route res" where
  "mountedRoute path mv =
     ebind (parsePath path) (\<lambda>_.
       case routeFrom path 0 (mvMounts mv) of
         Some route \<Rightarrow> Inr route
       | None \<Rightarrow> Inr \<lparr>routeFs = mvRoot mv, routePath = path, routeMount = None\<rparr>)"

definition isMissing :: "store_error \<Rightarrow> bool" where
  "isMissing cause \<longleftrightarrow> cause = FsError ENOENT \<or> cause = FsError ENOTDIR"

text \<open>
  The walk asks the store of each component whether it is a link. Every link followed costs one of
  \<^const>\<open>MAX_SYMLINK_HOPS\<close> hops, and every other iteration advances: it ends.
\<close>

function walkLoop ::
  "'w MountedVfs \<Rightarrow> bool \<Rightarrow> js_string list \<Rightarrow> nat \<Rightarrow> js_string list \<Rightarrow> int \<Rightarrow> ('w, js_string) io" where
  "walkLoop mv follow pending index resolved hops w =
     (let stop = joinPath (slash # joinWith slash resolved) (drop index pending) in
      if index < length pending then
        (case mountedRoute (joinPath (slash # joinWith slash resolved) [pending ! index]) mv of
           Inl e \<Rightarrow> (Inl e, w)
         | Inr route \<Rightarrow>
             (case fsLstat (routeFs route) (routePath route) w of
                (Inl e, w') \<Rightarrow> (if isMissing e then Inr stop else Inl e, w')
              | (Inr st, w') \<Rightarrow>
                  if statKind st = ''symlink'' \<and> (follow \<or> index < length pending - 1) then
                    if hops + 1 > MAX_SYMLINK_HOPS then (Inl (FsError ELOOP), w')
                    else
                      (case fsReadlink (routeFs route) (routePath route) w' of
                         (Inl e, w'') \<Rightarrow> (Inl e, w'')
                       | (Inr target, w'') \<Rightarrow>
                           (case parsePath (joinPath target (drop (index + 1) pending)) of
                              Inl e \<Rightarrow> (Inl e, w'')
                            | Inr pending' \<Rightarrow> walkLoop mv follow pending' 0 [] (hops + 1) w''))
                  else walkLoop mv follow pending (index + 1) (resolved @ [pending ! index]) hops w'))
      else (Inr stop, w))"
  by pat_completeness auto
termination
  by (relation "measures [\<lambda>(mv, fo, p, i, r, h, w). nat (MAX_SYMLINK_HOPS - h), \<lambda>(mv, fo, p, i, r, h, w). length p - i]")
    (auto simp: Let_def)

declare walkLoop.simps [simp del]

definition mountedWalk :: "'w MountedVfs \<Rightarrow> js_string \<Rightarrow> bool \<Rightarrow> ('w, js_string) io" where
  "mountedWalk mv path follow =
     iobind (iolift (parsePath path)) (\<lambda>pending. walkLoop mv follow pending 0 [] 0)"

definition mountedResolvePath :: "'w MountedVfs \<Rightarrow> js_string \<Rightarrow> bool \<Rightarrow> ('w, js_string) io" where
  "mountedResolvePath mv path follow =
     iobind (iolift (mountedRoute path mv)) (\<lambda>route.
     iobind (fsResolvePath (routeFs route) (routePath route) follow) (\<lambda>resolved.
     if resolved = routePath route then ioret path else mountedWalk mv path follow))"

definition mountedAt :: "'w MountedVfs \<Rightarrow> js_string \<Rightarrow> bool \<Rightarrow> ('w, 'w Route) io" where
  "mountedAt mv path follow =
     iobind (mountedResolvePath mv path follow) (\<lambda>resolved. iolift (mountedRoute resolved mv))"

text \<open>An operation on one path: resolved, routed, delegated.\<close>

definition delegated ::
  "'w MountedVfs \<Rightarrow> js_string \<Rightarrow> bool \<Rightarrow> ('w file_system \<Rightarrow> js_string \<Rightarrow> ('w, 'a) io) \<Rightarrow> ('w, 'a) io" where
  "delegated mv path follow operation =
     iobind (mountedAt mv path follow) (\<lambda>route. operation (routeFs route) (routePath route))"

section \<open>All stores\<close>

definition mountedStrictSync :: "'w MountedVfs \<Rightarrow> ('w, unit) io" where
  "mountedStrictSync mv =
     iobind (fsStrictSync (mvRoot mv)) (\<lambda>_.
       ioeach (\<lambda>mount. if rmDurable mount then fsStrictSync (rmVfs mount) else ioret ()) (mvMounts mv))"

definition mountedAssertHealthy :: "'w MountedVfs \<Rightarrow> ('w, unit) io" where
  "mountedAssertHealthy mv =
     iobind (fsAssertHealthy (mvRoot mv)) (\<lambda>_. ioeach (\<lambda>mount. fsAssertHealthy (rmVfs mount)) (mvMounts mv))"

definition mountedFail :: "'w MountedVfs \<Rightarrow> store_error \<Rightarrow> ('w, unit) io" where
  "mountedFail mv cause =
     iobind (ioeach (\<lambda>mount. iocatch (fsFail (rmVfs mount) cause) (\<lambda>_. ioret ())) (mvMounts mv)) (\<lambda>_.
       fsFail (mvRoot mv) cause)"

definition mountedMetrics :: "'w MountedVfs \<Rightarrow> ('w, RepackedVfsMetrics) io" where
  "mountedMetrics mv = fsMetrics (mvRoot mv)"

definition mountedRepack :: "'w MountedVfs \<Rightarrow> RepackReason option \<Rightarrow> ('w, unit) io" where
  "mountedRepack mv reason =
     iobind (fsRepack (mvRoot mv) reason) (\<lambda>_. ioeach (\<lambda>mount. fsRepack (rmVfs mount) reason) (mvMounts mv))"

fun scheduledMounts :: "int option \<Rightarrow> 'w ResolvedMount list \<Rightarrow> bool \<Rightarrow> ('w, bool) io" where
  "scheduledMounts nowMs [] repacked = ioret repacked"
| "scheduledMounts nowMs (mount # mounts) repacked =
     iobind (fsRunScheduledRepack (rmVfs mount) nowMs) (\<lambda>did. scheduledMounts nowMs mounts (did \<or> repacked))"

definition mountedRunScheduledRepack :: "'w MountedVfs \<Rightarrow> int option \<Rightarrow> ('w, bool) io" where
  "mountedRunScheduledRepack mv nowMs =
     iobind (fsRunScheduledRepack (mvRoot mv) nowMs) (scheduledMounts nowMs (mvMounts mv))"

text \<open>Every store is closed, the root last; the first failure is thrown.\<close>

fun closeStores :: "'w file_system list \<Rightarrow> store_error option \<Rightarrow> ('w, unit) io" where
  "closeStores [] firstError = (case firstError of None \<Rightarrow> ioret () | Some cause \<Rightarrow> iofail cause)"
| "closeStores (fs # rest) firstError =
     iobind (iotry (fsClose fs)) (\<lambda>r.
       closeStores rest (case (firstError, r) of (None, Inl cause) \<Rightarrow> Some cause | _ \<Rightarrow> firstError))"

definition mountedClose :: "('w, unit) mounted" where
  "mountedClose =
     iobind (updates (\<lambda>mv. mv\<lparr>mvDescriptors := []\<rparr>)) (\<lambda>_.
     iobind (asks (\<lambda>mv. map rmVfs (mvMounts mv) @ [mvRoot mv])) (\<lambda>stores.
       onHost (closeStores stores None)))"

section \<open>Paths\<close>

definition mountedStat :: "'w MountedVfs \<Rightarrow> js_string \<Rightarrow> ('w, RepackedStat) io" where
  "mountedStat mv path = delegated mv path True fsStat"

definition mountedLstat :: "'w MountedVfs \<Rightarrow> js_string \<Rightarrow> ('w, RepackedStat) io" where
  "mountedLstat mv path = delegated mv path False fsLstat"

definition mountedSymlink :: "'w MountedVfs \<Rightarrow> js_string \<Rightarrow> js_string \<Rightarrow> int \<Rightarrow> ('w, unit) io" where
  "mountedSymlink mv target path nowMs = delegated mv path False (\<lambda>fs p. fsSymlink fs target p nowMs)"

definition mountedReadlink :: "'w MountedVfs \<Rightarrow> js_string \<Rightarrow> ('w, js_string) io" where
  "mountedReadlink mv path = delegated mv path False fsReadlink"

definition mountedReaddir :: "'w MountedVfs \<Rightarrow> js_string \<Rightarrow> ('w, js_string list) io" where
  "mountedReaddir mv path = delegated mv path True fsReaddir"

definition mountedMkdir :: "'w MountedVfs \<Rightarrow> js_string \<Rightarrow> bool \<Rightarrow> int option \<Rightarrow> int \<Rightarrow> ('w, unit) io" where
  "mountedMkdir mv path recursive mode nowMs =
     delegated mv path False (\<lambda>fs p. fsMkdir fs p recursive mode nowMs)"

definition mountedWriteFile :: "'w MountedVfs \<Rightarrow> js_string \<Rightarrow> FileData \<Rightarrow> WriteFileOptions \<Rightarrow> ('w, unit) io" where
  "mountedWriteFile mv path content options = delegated mv path True (\<lambda>fs p. fsWriteFile fs p content options)"

definition mountedReadFile :: "'w MountedVfs \<Rightarrow> js_string \<Rightarrow> ('w, byte list) io" where
  "mountedReadFile mv path = delegated mv path True fsReadFile"

definition mountedTruncate :: "'w MountedVfs \<Rightarrow> js_string \<Rightarrow> int \<Rightarrow> int \<Rightarrow> ('w, unit) io" where
  "mountedTruncate mv path n nowMs = delegated mv path True (\<lambda>fs p. fsTruncate fs p n nowMs)"

definition mountedChmod :: "'w MountedVfs \<Rightarrow> js_string \<Rightarrow> int \<Rightarrow> int \<Rightarrow> ('w, unit) io" where
  "mountedChmod mv path mode nowMs = delegated mv path True (\<lambda>fs p. fsChmod fs p mode nowMs)"

definition mountedUtimes :: "'w MountedVfs \<Rightarrow> js_string \<Rightarrow> int \<Rightarrow> int \<Rightarrow> int \<Rightarrow> ('w, unit) io" where
  "mountedUtimes mv path atime mtime ctime = delegated mv path True (\<lambda>fs p. fsUtimes fs p atime mtime ctime)"

definition mountedUnlink :: "'w MountedVfs \<Rightarrow> js_string \<Rightarrow> int \<Rightarrow> ('w, unit) io" where
  "mountedUnlink mv path nowMs = delegated mv path False (\<lambda>fs p. fsUnlink fs p nowMs)"

definition mountedRmdir :: "'w MountedVfs \<Rightarrow> js_string \<Rightarrow> int \<Rightarrow> ('w, unit) io" where
  "mountedRmdir mv path nowMs = delegated mv path False (\<lambda>fs p. fsRmdir fs p nowMs)"

definition mountedRename :: "'w MountedVfs \<Rightarrow> js_string \<Rightarrow> js_string \<Rightarrow> int \<Rightarrow> ('w, unit) io" where
  "mountedRename mv oldPath newPath nowMs =
     iobind (mountedAt mv oldPath False) (\<lambda>source.
     iobind (mountedAt mv newPath False) (\<lambda>destination.
     if routeMount source \<noteq> routeMount destination then iofail (FsError EXDEV)
     else fsRename (routeFs source) (routePath source) (routePath destination) nowMs))"

section \<open>Descriptors\<close>

definition mountedDescriptor :: "int \<Rightarrow> 'w MountedVfs \<Rightarrow> 'w MountedDescriptor res" where
  "mountedDescriptor fd mv = (case map_of (mvDescriptors mv) fd of None \<Rightarrow> Inl (FsError EBADF) | Some entry \<Rightarrow> Inr entry)"

definition onDescriptor :: "int \<Rightarrow> ('w file_system \<Rightarrow> int \<Rightarrow> ('w, 'a) io) \<Rightarrow> ('w, 'a) mounted" where
  "onDescriptor fd operation =
     iobind (asksRes (mountedDescriptor fd)) (\<lambda>entry. onHost (operation (mdFs entry) (mdFd entry)))"

definition mountedOpen :: "js_string \<Rightarrow> string \<Rightarrow> int \<Rightarrow> int \<Rightarrow> ('w, int) mounted" where
  "mountedOpen path flags mode nowMs =
     iobind (asks id) (\<lambda>mv.
     iobind (onHost (mountedAt mv path True)) (\<lambda>route.
     iobind (onHost (fsOpen (routeFs route) (routePath route) flags mode nowMs)) (\<lambda>inner.
     iobind (asks mvNextDescriptor) (\<lambda>fd.
     iobind (updates (\<lambda>mv. mv\<lparr>mvNextDescriptor := fd + 1,
         mvDescriptors := AList.update fd \<lparr>mdFs = routeFs route, mdFd = inner\<rparr> (mvDescriptors mv)\<rparr>)) (\<lambda>_.
       ioret fd)))))"

definition mountedCloseFd :: "int \<Rightarrow> ('w, unit) mounted" where
  "mountedCloseFd fd =
     iobind (asksRes (mountedDescriptor fd)) (\<lambda>entry.
     iobind (updates (\<lambda>mv. mv\<lparr>mvDescriptors := AList.delete fd (mvDescriptors mv)\<rparr>)) (\<lambda>_.
       onHost (fsCloseFd (mdFs entry) (mdFd entry))))"

definition mountedFstat :: "int \<Rightarrow> ('w, RepackedStat) mounted" where
  "mountedFstat fd = onDescriptor fd fsFstat"

definition mountedRead :: "int \<Rightarrow> byte list \<Rightarrow> int \<Rightarrow> int \<Rightarrow> int option \<Rightarrow> ('w, int \<times> byte list) mounted" where
  "mountedRead fd buffer offset len position = onDescriptor fd (\<lambda>fs inner. fsRead fs inner buffer offset len position)"

definition mountedWrite :: "int \<Rightarrow> byte list \<Rightarrow> int \<Rightarrow> int \<Rightarrow> int option \<Rightarrow> int \<Rightarrow> ('w, int) mounted" where
  "mountedWrite fd buffer offset len position nowMs =
     onDescriptor fd (\<lambda>fs inner. fsWrite fs inner buffer offset len position nowMs)"

section \<open>A store as a file system\<close>

definition engineFileSystem :: "('w, 'h) store_ops \<Rightarrow> 'w vfs_clock \<Rightarrow> ('w \<times> 'h RepackedVfs) file_system" where
  "engineFileSystem ops clock = \<lparr>
     fsStrictSync = strictSync ops,
     fsAssertHealthy = assertHealthy,
     fsFail = failVfs,
     fsMetrics = EnginePaths.metrics,
     fsRepack = (\<lambda>reason. repack ops clock (case reason of None \<Rightarrow> ManualReason | Some r \<Rightarrow> r)),
     fsRunScheduledRepack = (\<lambda>nowMs. case nowMs of
        Some n \<Rightarrow> runScheduledRepack ops clock n
      | None \<Rightarrow> iobind (onHost (dateNow clock)) (runScheduledRepack ops clock)),
     fsResolvePath = resolvePath,
     fsStat = stat,
     fsLstat = lstat,
     fsSymlink = symlink ops,
     fsReadlink = readlink,
     fsReaddir = readdir,
     fsMkdir = mkdir ops,
     fsWriteFile = writeFile ops clock,
     fsReadFile = readFile ops,
     fsTruncate = truncatePath ops clock,
     fsOpen = open_file ops clock,
     fsFstat = fstat,
     fsRead = read_file ops,
     fsWrite = write_file ops clock,
     fsChmod = chmod ops,
     fsUtimes = utimes ops,
     fsUnlink = unlink ops,
     fsRmdir = rmdir ops,
     fsRename = rename ops,
     fsClose = closeVfs ops,
     fsCloseFd = closeDescriptor\<rparr>"

end
