(* ===== verification/MountedProperties.thy ===== *)
theory MountedProperties
  imports MountedVfs ResolveLinks EngineFailStop MemoryHost
begin

text \<open>
  The composite of several stores: which store a path belongs to, that the fast resolution of a path agrees
  with the walk, and where it does not even try.
\<close>

section \<open>Prefixes of strings and of components\<close>

lemma splitOn_joined:
  "\<forall>w\<in>set ws. s \<notin> set w \<Longrightarrow> ws \<noteq> [] \<Longrightarrow> splitOn s (joinWith s ws @ s # r) = ws @ splitOn s r"
  by (induction s ws rule: joinWith.induct) (auto simp: splitOn_append)

lemma joinWith_split: "joinWith s (ws @ vs) = (if ws = [] then joinWith s vs else if vs = [] then joinWith s ws
    else joinWith s ws @ s # joinWith s vs)"
  using joinWith_append [of ws vs s] by auto

lemma path_ok_parts:
  assumes "path_ok cs"
  shows "\<forall>c\<in>set cs. slash \<notin> set c" "\<forall>c\<in>set cs. c \<noteq> []"
  using assms by (auto simp: path_ok_def component_ok_def)

lemma path_ok_suffix: "path_ok (cs @ ds) \<Longrightarrow> path_ok ds"
proof -
  assume ok: "path_ok (cs @ ds)"
  have "names_bytes (cs @ ds) = names_bytes cs + names_bytes ds" by (simp add: names_bytes_def)
  moreover have "0 \<le> names_bytes cs" unfolding names_bytes_def by (rule sum_list_nonneg) auto
  ultimately have "path_bytes ds \<le> path_bytes (cs @ ds)" by (simp add: path_bytes_names)
  with ok show ?thesis by (simp add: path_ok_def)
qed

lemma render_inj: "path_ok cs \<Longrightarrow> path_ok ds \<Longrightarrow> render_path cs = render_path ds \<longleftrightarrow> cs = ds"
  by (metis parsePath_complete Inr_inject)

lemma starts_with_boundary:
  assumes "path_ok cs" "path_ok ps" "ps \<noteq> []"
  shows "startsWith (render_path cs) (render_path ps @ [slash]) \<longleftrightarrow> strict_prefix ps cs"
proof
  assume "startsWith (render_path cs) (render_path ps @ [slash])"
  then have "render_path cs = (render_path ps @ [slash]) @ drop (length (render_path ps @ [slash])) (render_path cs)"
    unfolding startsWith_def by (metis append_take_drop_id)
  then obtain r where "joinWith slash cs = joinWith slash ps @ slash # r" by (auto simp: render_path_def)
  moreover from this have "cs \<noteq> []" by auto
  ultimately have "cs = ps @ splitOn slash r"
    using splitOn_joinWith [of cs slash] splitOn_joined [of ps slash r] path_ok_parts(1) [OF assms(1)]
      path_ok_parts(1) [OF assms(2)] assms(3) by metis
  then show "strict_prefix ps cs" by (metis append_self_conv prefixI prefix_order.less_le splitOn_ne)
next
  assume "strict_prefix ps cs"
  then obtain rest where "cs = ps @ rest" "rest \<noteq> []" by (auto elim: strict_prefixE')
  then show "startsWith (render_path cs) (render_path ps @ [slash])"
    using assms(3) by (simp add: startsWith_def render_path_def joinWith_split)
qed

section \<open>Mounts\<close>

definition mount_at :: "'w ResolvedMount \<Rightarrow> js_string list \<Rightarrow> bool" where
  "mount_at m ps \<longleftrightarrow> rmPrefix m = render_path ps \<and> rmBoundary m = render_path ps @ [slash] \<and> path_ok ps \<and> ps \<noteq> []"

definition mounts_at :: "'w ResolvedMount list \<Rightarrow> js_string list list \<Rightarrow> bool" where
  "mounts_at mounts pss \<longleftrightarrow> list_all2 mount_at mounts pss
     \<and> (\<forall>i < length pss. \<forall>j < length pss. i \<noteq> j \<longrightarrow> \<not> prefix (pss ! i) (pss ! j))"

lemma claimed_components:
  assumes "mount_at m ps" "path_ok cs"
  shows "claimed (render_path cs) m = (if prefix ps cs then Some (render_path (drop (length ps) cs)) else None)"
proof (cases "cs = ps")
  case True
  with assms show ?thesis by (simp add: claimed_def mount_at_def render_path_def)
next
  case False
  note m = assms(1) [unfolded mount_at_def]
  have ne: "render_path cs \<noteq> rmPrefix m" using False assms(2) m by (simp add: render_inj)
  show ?thesis
  proof (cases "prefix ps cs")
    case True
    then obtain rest where rest: "cs = ps @ rest" "rest \<noteq> []" using False by (auto elim: prefixE)
    then have "drop (length (render_path ps)) (render_path cs) = render_path rest"
      using m by (simp add: render_path_def joinWith_split)
    with True ne rest m starts_with_boundary [of cs ps] assms(2) show ?thesis
      by (simp add: claimed_def strict_prefix_def)
  next
    case no: False
    with ne m starts_with_boundary [of cs ps] assms(2) show ?thesis
      by (auto simp: claimed_def strict_prefix_def)
  qed
qed

lemma overlap_components:
  assumes "mount_at m qs" "path_ok ps" "ps \<noteq> []"
  shows "overlaps (render_path ps) m \<longleftrightarrow> prefix qs ps \<or> prefix ps qs"
  using assms starts_with_boundary [of ps qs] starts_with_boundary [of qs ps]
  by (auto simp: overlaps_def mount_at_def render_inj strict_prefix_def)

lemma addMount_at:
  assumes "addMount mount mounts = Inr mounts'" and "mounts_at mounts pss"
  shows "\<exists>ps. mounts_at mounts' (pss @ [ps])"
proof -
  from assms(1) obtain ps where ps: "path_ok ps" "mountPrefix mount = render_path ps" "ps \<noteq> []"
    and free: "\<not> list_ex (overlaps (render_path ps)) mounts"
    and mounts': "mounts' = mounts @ [\<lparr>rmPrefix = render_path ps, rmBoundary = render_path ps @ [slash],
        rmVfs = mountVfs mount, rmDurable = (case mountDurable mount of None \<Rightarrow> True | Some d \<Rightarrow> d)\<rparr>]"
    by (auto simp: addMount_def ebind_eq_Inr parsePath_Inr split: if_splits)
  have all: "list_all2 mount_at mounts pss" using assms(2) by (simp add: mounts_at_def)
  have apart: "\<not> prefix (pss ! i) ps \<and> \<not> prefix ps (pss ! i)" if "i < length pss" for i
  proof -
    have i: "i < length mounts" "mount_at (mounts ! i) (pss ! i)"
      using all that by (simp_all add: list_all2_conv_all_nth)
    then have "\<not> overlaps (render_path ps) (mounts ! i)" using free by (auto simp: list_ex_iff)
    with overlap_components [OF i(2) ps(1,3)] show ?thesis by simp
  qed
  have "list_all2 mount_at mounts' (pss @ [ps])"
    unfolding mounts' by (intro list_all2_appendI all) (use ps in \<open>simp add: mount_at_def\<close>)
  moreover have "\<not> prefix ((pss @ [ps]) ! i) ((pss @ [ps]) ! j)"
    if "i < Suc (length pss)" "j < Suc (length pss)" "i \<noteq> j" for i j
    using that apart assms(2) by (cases "i = length pss"; cases "j = length pss") (auto simp: nth_append mounts_at_def)
  ultimately show ?thesis by (auto simp: mounts_at_def)
qed

lemma addMounts_at:
  "fold_res addMount ms mounts = Inr mounts' \<Longrightarrow> mounts_at mounts pss \<Longrightarrow> \<exists>qss. mounts_at mounts' (pss @ qss)"
proof (induction ms arbitrary: mounts pss)
  case Nil
  then show ?case by (auto intro: exI [of _ "[]"])
next
  case (Cons m ms)
  then obtain mounts1 where "addMount m mounts = Inr mounts1" "fold_res addMount ms mounts1 = Inr mounts'"
    by (auto simp: ebind_eq_Inr)
  moreover from addMount_at [OF this(1) Cons.prems(2)] obtain ps where "mounts_at mounts1 (pss @ [ps])" by blast
  ultimately obtain qss where "mounts_at mounts' ((pss @ [ps]) @ qss)" using Cons.IH by blast
  then show ?case by auto
qed

text \<open>The one mount whose prefix leads to a path, if any.\<close>

definition owner_of :: "js_string list list \<Rightarrow> js_string list \<Rightarrow> nat option" where
  "owner_of pss cs = find (\<lambda>i. prefix (pss ! i) cs) [0..<length pss]"

lemma owner_of_Some: "owner_of pss cs = Some i \<Longrightarrow> i < length pss \<and> prefix (pss ! i) cs"
  by (auto simp: owner_of_def find_Some_iff)

lemma owner_of_None: "owner_of pss cs = None \<longleftrightarrow> (\<forall>i < length pss. \<not> prefix (pss ! i) cs)"
  by (auto simp: owner_of_def find_None_iff)

lemma owner_unique:
  assumes "mounts_at mounts pss" "i < length pss" "prefix (pss ! i) cs"
  shows "owner_of pss cs = Some i"
proof (cases "owner_of pss cs")
  case None
  with assms(2,3) show ?thesis by (auto simp: owner_of_None)
next
  case (Some j)
  then have j: "j < length pss" "prefix (pss ! j) cs" by (simp_all add: owner_of_Some)
  from prefix_same_cases [OF assms(3) j(2)] assms j(1) have "i = j" by (auto simp: mounts_at_def)
  with Some show ?thesis by simp
qed

lemma routeFrom_components:
  assumes "list_all2 mount_at mounts pss" "path_ok cs"
  shows "routeFrom (render_path cs) k mounts = map_option (\<lambda>i. \<lparr>routeFs = rmVfs (mounts ! i),
      routePath = render_path (drop (length (pss ! i)) cs), routeMount = Some (k + i)\<rparr>) (owner_of pss cs)"
  using assms(1)
proof (induction mounts pss arbitrary: k rule: list_all2_induct)
  case Nil
  then show ?case by (simp add: owner_of_def)
next
  case (Cons m mounts ps pss)
  have up: "[0..<length (ps # pss)] = 0 # map Suc [0..<length pss]" by (simp add: upt_conv_Cons map_Suc_upt del: upt_Suc)
  have find_map: "find P (map f xs) = map_option f (find (P \<circ> f) xs)" for P :: "nat \<Rightarrow> bool" and f xs
    by (induction xs) auto
  have "owner_of (ps # pss) cs = (if prefix ps cs then Some 0 else map_option Suc (owner_of pss cs))"
    unfolding owner_of_def up by (simp add: find_map comp_def)
  then show ?case using claimed_components [OF Cons.hyps(1) assms(2)] Cons.IH [of "Suc k"]
    by (auto simp: option.map_comp comp_def)
qed

section \<open>The routing property\<close>

lemma route_components:
  assumes "mounts_at (mvMounts mv) pss" "path_ok cs"
  shows "mountedRoute (render_path cs) mv = Inr (case owner_of pss cs of
      None \<Rightarrow> \<lparr>routeFs = mvRoot mv, routePath = render_path cs, routeMount = None\<rparr>
    | Some i \<Rightarrow> \<lparr>routeFs = rmVfs (mvMounts mv ! i), routePath = render_path (drop (length (pss ! i)) cs),
        routeMount = Some i\<rparr>)"
  using assms routeFrom_components [of "mvMounts mv" pss cs 0]
  by (auto simp: mountedRoute_def mounts_at_def parsePath_complete split: option.split)

lemma addMounts_fields:
  "fold_res addMount ms mounts = Inr mounts' \<Longrightarrow>
     map rmPrefix mounts' = map rmPrefix mounts @ map mountPrefix ms \<and> map rmVfs mounts' = map rmVfs mounts @ map mountVfs ms"
proof (induction ms arbitrary: mounts)
  case (Cons m ms)
  then obtain mounts1 where "addMount m mounts = Inr mounts1" "fold_res addMount ms mounts1 = Inr mounts'"
    by (auto simp: ebind_eq_Inr)
  moreover from this(1) have "map rmPrefix mounts1 = map rmPrefix mounts @ [mountPrefix m]"
    "map rmVfs mounts1 = map rmVfs mounts @ [mountVfs m]"
    by (auto simp: addMount_def ebind_eq_Inr split: if_splits)
  ultimately show ?case using Cons.IH by auto
qed simp

lemma newMounted_fields:
  assumes "newMountedVfs root mounts now w = (Inr mv, w')"
  obtains pss where "mounts_at (mvMounts mv) pss" "mvRoot mv = root" "length pss = length mounts"
    "map rmPrefix (mvMounts mv) = map mountPrefix mounts" "map rmVfs (mvMounts mv) = map mountVfs mounts"
proof -
  from assms have fold: "fold_res addMount mounts [] = Inr (mvMounts mv)" and root: "mvRoot mv = root"
    by (auto simp: newMountedVfs_def iobind_def split: sum.splits prod.splits)
  obtain pss where "mounts_at (mvMounts mv) pss" using addMounts_at [OF fold, of "[]"] by (auto simp: mounts_at_def)
  moreover from this have "length pss = length (mvMounts mv)" by (metis list_all2_lengthD mounts_at_def)
  moreover have "length (mvMounts mv) = length mounts" using addMounts_fields [OF fold] by (metis append_Nil length_map list.map(1))
  ultimately show thesis using that root addMounts_fields [OF fold] by simp
qed

text \<open>
  C38. Every valid path of a composite belongs to exactly one store: to the mount whose prefix leads to it, if
  there is one, and no two mounts can, else to the root. The store sees the path below its prefix, a valid
  path again.
\<close>

theorem mounted_route_unique:
  assumes "newMountedVfs root mounts now w = (Inr mv, w')"
  shows "\<exists>pss. length pss = length mounts \<and> (\<forall>i < length pss. mountPrefix (mounts ! i) = render_path (pss ! i))
    \<and> (\<forall>path cs. parsePath path = Inr cs \<longrightarrow> (\<exists>route. mountedRoute path mv = Inr route \<and>
        (case routeMount route of
           None \<Rightarrow> routeFs route = root \<and> routePath route = path \<and> (\<forall>ps \<in> set pss. \<not> prefix ps cs)
         | Some i \<Rightarrow> i < length pss \<and> routeFs route = mountVfs (mounts ! i)
             \<and> (\<exists>rest. cs = pss ! i @ rest \<and> parsePath (routePath route) = Inr rest)
             \<and> (\<forall>j < length pss. prefix (pss ! j) cs \<longrightarrow> j = i))))"
proof -
  obtain pss where pss: "mounts_at (mvMounts mv) pss" "mvRoot mv = root" "length pss = length mounts"
    "map rmPrefix (mvMounts mv) = map mountPrefix mounts" "map rmVfs (mvMounts mv) = map mountVfs mounts"
    by (rule newMounted_fields [OF assms])
  have len: "length (mvMounts mv) = length mounts" using pss(4) map_eq_imp_length_eq by blast
  have fields: "rmPrefix (mvMounts mv ! i) = mountPrefix (mounts ! i)" "rmVfs (mvMounts mv ! i) = mountVfs (mounts ! i)"
    if "i < length pss" for i
    using that pss(3-5) len by (metis nth_map)+
  have prefixes: "mountPrefix (mounts ! i) = render_path (pss ! i)" if "i < length pss" for i
    using that pss(1) fields(1) [OF that] len pss(3) by (auto simp: mounts_at_def mount_at_def list_all2_conv_all_nth)
  have "\<exists>route. mountedRoute path mv = Inr route \<and> (case routeMount route of
      None \<Rightarrow> routeFs route = root \<and> routePath route = path \<and> (\<forall>ps \<in> set pss. \<not> prefix ps cs)
    | Some i \<Rightarrow> i < length pss \<and> routeFs route = mountVfs (mounts ! i)
        \<and> (\<exists>rest. cs = pss ! i @ rest \<and> parsePath (routePath route) = Inr rest)
        \<and> (\<forall>j < length pss. prefix (pss ! j) cs \<longrightarrow> j = i))" if "parsePath path = Inr cs" for path cs
  proof -
    have cs: "path_ok cs" "path = render_path cs" using that by (simp_all add: parsePath_Inr)
    show ?thesis
    proof (cases "owner_of pss cs")
      case None
      then have "\<forall>ps \<in> set pss. \<not> prefix ps cs" by (auto simp: owner_of_None in_set_conv_nth)
      with route_components [OF pss(1) cs(1)] None pss(2) cs(2) show ?thesis by simp
    next
      case (Some i)
      note i = owner_of_Some [OF Some]
      then obtain rest where rest: "cs = pss ! i @ rest" by (auto elim: prefixE)
      have "parsePath (render_path rest) = Inr rest"
        using path_ok_suffix [of "pss ! i" rest] cs(1) rest by (simp add: parsePath_complete)
      moreover have "\<forall>j < length pss. prefix (pss ! j) cs \<longrightarrow> j = i"
        using owner_unique [OF pss(1)] Some by (metis option.inject)
      ultimately show ?thesis using route_components [OF pss(1) cs(1)] Some i rest fields(2) cs(2) by simp
    qed
  qed
  with pss(3) prefixes show ?thesis by (intro exI [of _ pss]) blast
qed

section \<open>Resolution\<close>

lemma walkInodes_missing:
  "tree_inv st \<Longrightarrow> imap st i = Some inode \<Longrightarrow> walkInodes st inode cs = Inl e \<Longrightarrow> isMissing e"
proof (induction cs arbitrary: i inode)
  case (Cons c cs)
  show ?case
  proof (cases "map_of (children inode) c")
    case None
    with Cons.prems show ?thesis by (auto simp: isMissing_def split: if_splits)
  next
    case (Some k)
    then have "child_of st i c = Some k" using Cons.prems(2) by (simp add: child_of_def)
    then obtain child where "imap st k = Some child" using child_in [OF Cons.prems(1)] by blast
    with Some Cons show ?thesis by (auto simp: isMissing_def split: if_splits)
  qed
qed simp

lemma resolve_same:
  assumes inv: "vfs_inv st" and cs: "path_ok cs"
  shows "resolveLinks st (render_path cs) follow = Inr (render_path cs) \<longleftrightarrow> link_free st follow cs"
proof -
  note t = vfs_invD(1,2) [OF inv]
  obtain root where root: "imap st (rootInodeId st) = Some root" using table_invD(4) [OF t(1)] by auto
  have run: "resolveLinks st (render_path cs) follow = resolveLoop st follow root cs 0 root [] 0"
    using root cs by (simp add: resolveLinks_def parsePath_complete)
  note w = walked_start [where follow = follow, OF cs root]
  show ?thesis
    using resolveLoop_sound [OF w root t(2), of 0] resolveLoop_fixpoint [OF w _ t(2), of root 0] cs
    by (auto simp: run resolved_ok_def render_inj)
qed

lemma link_free_take:
  assumes "link_free st follow cs"
  shows "link_free st False (take n cs)"
  unfolding link_free_def
proof (intro allI impI)
  fix i k inode t
  assume i: "i < length (take n cs)" "False \<or> i < length (take n cs) - 1"
    and at: "lookup st (take (Suc i) (take n cs)) = Some k" "imap st k = Some inode"
  have "take (Suc i) (take n cs) = take (Suc i) cs" "i < length cs" "i < length cs - 1" using i by (auto simp: min_def split: if_splits)
  with assms at show "body inode \<noteq> Symlink t" unfolding link_free_def by metis
qed

lemma link_freeD:
  "link_free st follow cs \<Longrightarrow> i < length cs \<Longrightarrow> follow \<or> i < length cs - 1 \<Longrightarrow> lookup st (take (Suc i) cs) = Some k \<Longrightarrow>
     imap st k = Some inode \<Longrightarrow> body inode \<noteq> Symlink t"
  by (auto simp: link_free_def)

definition linkTarget :: "Inode \<Rightarrow> js_string res" where
  "linkTarget inode = (case body inode of Symlink t \<Rightarrow> Inr t | _ \<Rightarrow> Inl (FsError EINVAL))"

text \<open>
  What the composite relies on when it resolves a path: in a given world a store answers from a state, and
  answering changes nothing.
\<close>

locale answering_store =
  fixes fs :: "'w file_system" and answers :: "'w \<Rightarrow> VfsState option"
  assumes resolves: "answers w = Some st \<Longrightarrow> fsResolvePath fs p follow w = (resolveLinks st p follow, w)"
    and lstats: "answers w = Some st \<Longrightarrow>
      fsLstat fs p w = (ebind (ebind (resolveLinks st p False) (getInodeAtPath st)) statValue, w)"
    and readlinks: "answers w = Some st \<Longrightarrow>
      fsReadlink fs p w = (ebind (ebind (resolveLinks st p False) (getInodeAtPath st)) linkTarget, w)"
begin

text \<open>Asked for a path without links before its last component, it tells whether that is one.\<close>

lemma lstat_plain:
  assumes "answers w = Some st" and inv: "vfs_inv st" and cs: "path_ok cs" "link_free st False cs"
  shows "\<exists>r. fsLstat fs (render_path cs) w = (r, w) \<and> (case r of
      Inl e \<Rightarrow> isMissing e
    | Inr s \<Rightarrow> \<exists>k inode. lookup st cs = Some k \<and> imap st k = Some inode
        \<and> (statKind s = ''symlink'' \<longrightarrow> (\<exists>t. body inode = Symlink t)))"
proof -
  note v = vfs_invD(1,2) [OF inv]
  have run: "fsLstat fs (render_path cs) w = (ebind (getInodeAtPath st (render_path cs)) statValue, w)"
    using lstats [OF assms(1)] resolve_same [OF inv cs(1), of False] cs(2) by (simp add: ebind_def)
  show ?thesis
  proof (cases "getInodeAtPath st (render_path cs)")
    case (Inl e)
    then have "isMissing e" using table_invD(4) [OF v(1)] walkInodes_missing [OF v(2)]
      by (auto simp: getInodeAtPath_def parsePath_complete [OF cs(1)])
    with run Inl show ?thesis by simp
  next
    case (Inr inode)
    then obtain k where k: "lookup st cs = Some k" "imap st k = Some inode"
      using getInodeAtPath_Inr [OF v] cs(1) by (auto simp: render_inj)
    have "body_ok (extentSize st) (body inode)" using table_invD(3) [OF v(1) k(2)] by (simp add: inode_ok_def)
    then obtain s where "statValue inode = Inr s" "statKind s = ''symlink'' \<longrightarrow> (\<exists>t. body inode = Symlink t)"
      by (cases "body inode") (auto simp: statValue_def encodedUtf8Length_eq validateSymlinkTarget_Inr
          symlink_target_ok_def render_bytes path_ok_def component_ok_utf8)
    with run Inr k show ?thesis by simp
  qed
qed

text \<open>What it tells of an inode that is there.\<close>

lemma lstat_found:
  assumes "answers w = Some st" and inv: "vfs_inv st" and cs: "path_ok cs" "link_free st False cs"
    and k: "lookup st cs = Some k" "imap st k = Some inode"
  shows "\<exists>s. fsLstat fs (render_path cs) w = (Inr s, w) \<and> (statKind s = ''symlink'' \<longleftrightarrow> (\<exists>t. body inode = Symlink t))"
    and "body inode = Symlink t \<Longrightarrow> fsReadlink fs (render_path cs) w = (Inr t, w)"
proof -
  note v = vfs_invD(1,2) [OF inv]
  have at: "ebind (resolveLinks st (render_path cs) False) (getInodeAtPath st) = Inr inode"
    using resolve_same [OF inv cs(1), of False] cs k getInodeAtPath_Inr [OF v] by (auto simp: ebind_def)
  have "body_ok (extentSize st) (body inode)" using table_invD(3) [OF v(1) k(2)] by (simp add: inode_ok_def)
  then obtain s where "statValue inode = Inr s" "statKind s = ''symlink'' \<longleftrightarrow> (\<exists>t. body inode = Symlink t)"
    by (cases "body inode") (auto simp: statValue_def encodedUtf8Length_eq validateSymlinkTarget_Inr
        symlink_target_ok_def render_bytes path_ok_def component_ok_utf8)
  then show "\<exists>s. fsLstat fs (render_path cs) w = (Inr s, w) \<and> (statKind s = ''symlink'' \<longleftrightarrow> (\<exists>t. body inode = Symlink t))"
    using lstats [OF assms(1)] at by simp
  show "body inode = Symlink t \<Longrightarrow> fsReadlink fs (render_path cs) w = (Inr t, w)"
    using readlinks [OF assms(1)] at by (simp add: linkTarget_def)
qed

end

lemma engine_answers:
  "answering_store (engineFileSystem ops clock) (\<lambda>we. if checkOpen (snd we) = Inr () then Some (vfsState (snd we)) else None)"
  by unfold_locales (auto simp: engineFileSystem_def resolvePath_def lstat_def readlink_def linkTarget_def [abs_def] assertHealthy_def
      engine_binds resolveIn_def statFollowing_def inodeAt_def ebind_assoc split: if_splits)

interpretation engine_store: answering_store "engineFileSystem ops clock"
  "\<lambda>we. if checkOpen (snd we) = Inr () then Some (vfsState (snd we)) else None" for ops clock
  by (rule engine_answers)

section \<open>The fast path\<close>

text \<open>
  The stores of a composite in a world: each answers from a valid state, and the root has no link above a
  mount.
\<close>

definition answering :: "'w file_system \<Rightarrow> 'w \<Rightarrow> VfsState \<Rightarrow> bool" where
  "answering fs w st \<longleftrightarrow> (\<exists>answers. answering_store fs answers \<and> answers w = Some st) \<and> vfs_inv st"

definition composed :: "'w MountedVfs \<Rightarrow> js_string list list \<Rightarrow> 'w \<Rightarrow> VfsState \<Rightarrow> VfsState list \<Rightarrow> bool" where
  "composed mv pss w st sts \<longleftrightarrow> mounts_at (mvMounts mv) pss \<and> answering (mvRoot mv) w st
     \<and> length sts = length pss
     \<and> (\<forall>i < length pss. answering (rmVfs (mvMounts mv ! i)) w (sts ! i) \<and> link_free st True (butlast (pss ! i)))"

lemma answering_lstat:
  assumes "answering fs w st" "path_ok cs" "link_free st False cs"
  obtains r where "fsLstat fs (render_path cs) w = (r, w)" "case r of Inl e \<Rightarrow> isMissing e
    | Inr s \<Rightarrow> \<exists>k inode. lookup st cs = Some k \<and> imap st k = Some inode
        \<and> (statKind s = ''symlink'' \<longrightarrow> (\<exists>t. body inode = Symlink t))"
proof -
  obtain answers where a: "answering_store fs answers" "answers w = Some st" "vfs_inv st"
    using assms(1) by (auto simp: answering_def)
  from answering_store.lstat_plain [OF a(1,2,3) assms(2,3)] that show thesis by blast
qed

lemma answering_root_directory:
  "answering fs w st \<Longrightarrow> lookup st [] = Some k \<Longrightarrow> imap st k = Some inode \<Longrightarrow> body inode \<noteq> Symlink t"
  by (auto simp: answering_def lookup_def isDirectory_def dest!: vfs_invD(1) table_invD(4))

text \<open>Above a mount there is no other mount.\<close>

lemma owner_above:
  assumes m: "mounts_at mounts pss" and i: "i < length pss" and n: "n < length (pss ! i)"
  shows "owner_of pss (take n (pss ! i)) = None"
proof (unfold owner_of_None, intro allI impI notI)
  fix k assume k: "k < length pss" "prefix (pss ! k) (take n (pss ! i))"
  have "strict_prefix (take n (pss ! i)) (pss ! i)"
    using n by (metis length_take less_irrefl min.absorb4 order.strict_implies_not_eq prefix_order.le_neq_trans take_is_prefix)
  with k(2) have "strict_prefix (pss ! k) (pss ! i)" by (metis prefix_order.le_less_trans)
  with m i k(1) show False by (cases "k = i") (auto simp: mounts_at_def strict_prefix_def)
qed

text \<open>A component of a path without links is found plain by the walk, whichever store holds it.\<close>

definition plain_at :: "bool \<Rightarrow> js_string list \<Rightarrow> nat \<Rightarrow> 'w Route \<Rightarrow> 'w \<Rightarrow> bool" where
  "plain_at follow cs j route w \<longleftrightarrow> (\<exists>r. fsLstat (routeFs route) (routePath route) w = (r, w) \<and> (case r of
      Inl e \<Rightarrow> isMissing e | Inr s \<Rightarrow> statKind s = ''symlink'' \<longrightarrow> \<not> (follow \<or> j < length cs - 1)))"

lemma store_plain:
  assumes "answering (routeFs route) w st" "path_ok ds" "link_free st f ds" "routePath route = render_path (take n ds)"
    and last: "\<And>k. n = Suc k \<Longrightarrow> follow \<or> j < length cs - 1 \<Longrightarrow> k < length ds \<and> (f \<or> k < length ds - 1)"
  shows "plain_at follow cs j route w"
proof -
  have ok: "path_ok (take n ds)" using path_ok_prefix [of "take n ds" "drop n ds"] assms(2) by simp
  obtain r where r: "fsLstat (routeFs route) (routePath route) w = (r, w)" "case r of Inl e \<Rightarrow> isMissing e
    | Inr s \<Rightarrow> \<exists>k inode. lookup st (take n ds) = Some k \<and> imap st k = Some inode
        \<and> (statKind s = ''symlink'' \<longrightarrow> (\<exists>t. body inode = Symlink t))"
    unfolding assms(4) by (rule answering_lstat [OF assms(1) ok link_free_take [OF assms(3)]])
  have no: "\<not> (follow \<or> j < length cs - 1)" if "lookup st (take n ds) = Some k" "imap st k = Some inode"
    "body inode = Symlink t" for k inode t
  proof
    assume go: "follow \<or> j < length cs - 1"
    show False
    proof (cases n)
      case 0
      with that answering_root_directory [OF assms(1)] show False by simp
    next
      case (Suc m)
      with last [OF Suc go] link_freeD [OF assms(3), of m k inode t] that show False by blast
    qed
  qed
  show ?thesis unfolding plain_at_def using r no by (intro exI [of _ r]) (auto split: sum.splits)
qed

lemma composed_plain:
  assumes c: "composed mv pss w st sts" and cs: "path_ok cs" and j: "j < length cs"
    and free: "case owner_of pss cs of None \<Rightarrow> link_free st follow cs
      | Some i \<Rightarrow> link_free (sts ! i) follow (drop (length (pss ! i)) cs)"
  shows "\<exists>route. mountedRoute (render_path (take (Suc j) cs)) mv = Inr route \<and> plain_at follow cs j route w"
proof -
  let ?ds = "take (Suc j) cs"
  have m: "mounts_at (mvMounts mv) pss" and root: "answering (mvRoot mv) w st" using c by (simp_all add: composed_def)
  have ok: "path_ok ?ds" using path_ok_prefix [of ?ds "drop (Suc j) cs"] cs by simp
  have pre: "prefix ?ds cs" by (simp add: take_is_prefix)
  note route = route_components [OF m ok]
  show ?thesis
  proof (cases "owner_of pss cs")
    case None
    then have "owner_of pss ?ds = None" using pre by (auto simp: owner_of_None dest: prefix_order.trans)
    moreover have "plain_at follow cs j \<lparr>routeFs = mvRoot mv, routePath = render_path ?ds, routeMount = None\<rparr> w"
      by (rule store_plain [of _ w st cs follow "Suc j"]) (use root cs free None j in auto)
    ultimately show ?thesis using route by simp
  next
    case (Some i)
    note i = owner_of_Some [OF Some]
    let ?ps = "pss ! i"
    from i obtain rest where rest: "cs = ?ps @ rest" by (auto elim: prefixE)
    have ps: "path_ok ?ps" "?ps \<noteq> []" using m i by (auto simp: mounts_at_def list_all2_conv_all_nth mount_at_def)
    show ?thesis
    proof (cases "Suc j < length ?ps")
      case True
      have "owner_of pss ?ds = None" using owner_above [OF m conjunct1 [OF i] True] True rest by simp
      moreover from True have "Suc j \<le> length ?ps - 1" by simp
      then have "take (Suc j) (butlast ?ps) = ?ds" using rest by (simp add: butlast_conv_take)
      moreover have "path_ok (butlast ?ps)" using ps path_ok_prefix [of "butlast ?ps" "[last ?ps]"] by simp
      moreover have "link_free st True (butlast ?ps)" using c i by (simp add: composed_def)
      ultimately have "plain_at follow cs j \<lparr>routeFs = mvRoot mv, routePath = render_path ?ds, routeMount = None\<rparr> w"
        by (intro store_plain [of _ w st "butlast ?ps" True "Suc j"]) (use root True in auto)
      with \<open>owner_of pss ?ds = None\<close> show ?thesis using route by simp
    next
      case False
      then have at: "?ds = ?ps @ take (Suc j - length ?ps) rest" using rest by simp
      then have owner: "owner_of pss ?ds = Some i" using owner_unique [OF m, of i ?ds] i by simp
      have "answering (rmVfs (mvMounts mv ! i)) w (sts ! i)" using c i by (simp add: composed_def)
      moreover have "path_ok rest" using path_ok_suffix [of ?ps rest] cs rest by simp
      moreover have "link_free (sts ! i) follow rest" using free Some rest by simp
      ultimately have "plain_at follow cs j \<lparr>routeFs = rmVfs (mvMounts mv ! i),
          routePath = render_path (drop (length ?ps) ?ds), routeMount = Some i\<rparr> w"
        by (intro store_plain [of _ w "sts ! i" rest follow "Suc j - length ?ps"]) (use at j rest in auto)
      with owner show ?thesis using route by simp
    qed
  qed
qed

lemma walk_plain:
  assumes cs: "path_ok cs"
    and plain: "\<And>j. j < length cs \<Longrightarrow> \<exists>route. mountedRoute (render_path (take (Suc j) cs)) mv = Inr route \<and> plain_at follow cs j route w"
  shows "i \<le> length cs \<Longrightarrow> walkLoop mv follow cs i (take i cs) hops w = (Inr (render_path cs), w)"
proof (induction "length cs - i" arbitrary: i)
  case 0
  then show ?case using join_rest [OF path_ok_parts(2) [OF cs], of i] by (subst walkLoop.simps) simp
next
  case (Suc n)
  then have i: "i < length cs" by simp
  have stop: "joinPath (slash # joinWith slash (take i cs)) (drop i cs) = render_path cs"
    using join_rest [OF path_ok_parts(2) [OF cs], of i] .
  have "\<forall>c\<in>set (take (Suc i) cs). c \<noteq> []" using path_ok_parts(2) [OF cs] by (auto dest: in_set_takeD)
  from join_rest [OF this, of i] i have cand: "joinPath (slash # joinWith slash (take i cs)) [cs ! i] = render_path (take (Suc i) cs)"
    by (simp add: take_Suc_conv_app_nth)
  obtain route r where r: "mountedRoute (render_path (take (Suc i) cs)) mv = Inr route"
    "fsLstat (routeFs route) (routePath route) w = (r, w)" "case r of Inl e \<Rightarrow> isMissing e
      | Inr s \<Rightarrow> statKind s = ''symlink'' \<longrightarrow> \<not> (follow \<or> i < length cs - 1)"
    using plain [OF i] unfolding plain_at_def by blast
  have "walkLoop mv follow cs (Suc i) (take (Suc i) cs) hops w = (Inr (render_path cs), w)"
    by (rule Suc.hyps(1)) (use Suc.hyps(2) i in auto)
  then show ?case using r i by (subst walkLoop.simps) (auto simp: cand stop Let_def take_Suc_conv_app_nth split: sum.splits)
qed

text \<open>
  C39. The fast path of a composite is sound: when one store resolves a path, whatever the composite reports is
  what the walk from component to component, over all stores, reports. (Every store answers from a valid
  state, and no symbolic link stands above a mount.)
\<close>

theorem mounted_fast_path_agrees_with_walk:
  assumes c: "composed mv pss w st sts" and run: "mountedResolvePath mv p follow w = (Inr q, w')"
  shows "mountedWalk mv p follow w = (Inr q, w')"
proof -
  from run obtain cs where cs: "path_ok cs" "p = render_path cs"
    by (auto simp: mountedResolvePath_def mountedRoute_def parsePath_Inr iobind_def ebind_def split: sum.splits)
  have m: "mounts_at (mvMounts mv) pss" using c by (simp add: composed_def)
  define route where "route = (case owner_of pss cs of
      None \<Rightarrow> \<lparr>routeFs = mvRoot mv, routePath = render_path cs, routeMount = None\<rparr>
    | Some i \<Rightarrow> \<lparr>routeFs = rmVfs (mvMounts mv ! i), routePath = render_path (drop (length (pss ! i)) cs), routeMount = Some i\<rparr>)"
  have route: "mountedRoute p mv = Inr route" using route_components [OF m cs(1)] cs(2) by (simp add: route_def)
  define state where "state = (case owner_of pss cs of None \<Rightarrow> st | Some i \<Rightarrow> sts ! i)"
  define ds where "ds = (case owner_of pss cs of None \<Rightarrow> cs | Some i \<Rightarrow> drop (length (pss ! i)) cs)"
  have ds: "routePath route = render_path ds" "path_ok ds"
    using cs(1) path_ok_suffix [of "take n cs" "drop n cs" for n] by (auto simp: route_def ds_def split: option.split)
  have answers: "answering (routeFs route) w state"
    using c owner_of_Some by (auto simp: composed_def route_def state_def split: option.split)
  then obtain answers where a: "answering_store (routeFs route) answers" "answers w = Some state" "vfs_inv state"
    by (auto simp: answering_def)
  have resolve: "fsResolvePath (routeFs route) (routePath route) follow w = (resolveLinks state (render_path ds) follow, w)"
    using answering_store.resolves [OF a(1,2)] ds(1) by simp
  show ?thesis
  proof (cases "resolveLinks state (render_path ds) follow = Inr (render_path ds)")
    case True
    then have "link_free state follow ds" using resolve_same [OF a(3) ds(2)] by simp
    then have "case owner_of pss cs of None \<Rightarrow> link_free st follow cs
        | Some i \<Rightarrow> link_free (sts ! i) follow (drop (length (pss ! i)) cs)"
      by (auto simp: state_def ds_def split: option.splits)
    from walk_plain [OF cs(1) composed_plain [OF c cs(1) _ this], of 0 0]
    have "walkLoop mv follow cs 0 [] 0 w = (Inr (render_path cs), w)" by simp
    moreover have "(Inr q, w') = (Inr p, w)"
      using run route resolve True ds(1) by (simp add: mountedResolvePath_def iobind_def)
    ultimately show ?thesis using cs by (simp add: mountedWalk_def parsePath_complete)
  next
    case False
    with run route resolve ds(1) show ?thesis
      by (auto simp: mountedResolvePath_def iobind_def split: sum.splits)
  qed
qed

section \<open>Links stored in a mount\<close>









section \<open>Two stores\<close>

text \<open>Stores with worlds of their own, in one world.\<close>

definition onPart :: "('x \<Rightarrow> 'w) \<Rightarrow> ('w \<Rightarrow> 'x \<Rightarrow> 'x) \<Rightarrow> ('w, 'a) io \<Rightarrow> ('x, 'a) io" where
  "onPart get put m x = (case m (get x) of (r, w) \<Rightarrow> (r, put w x))"

definition partFileSystem :: "('x \<Rightarrow> 'w) \<Rightarrow> ('w \<Rightarrow> 'x \<Rightarrow> 'x) \<Rightarrow> 'w file_system \<Rightarrow> 'x file_system" where
  "partFileSystem get put fs = \<lparr>
     fsStrictSync = onPart get put (fsStrictSync fs), fsAssertHealthy = onPart get put (fsAssertHealthy fs),
     fsFail = (\<lambda>a. onPart get put (fsFail fs a)), fsMetrics = onPart get put (fsMetrics fs),
     fsRepack = (\<lambda>a. onPart get put (fsRepack fs a)),
     fsRunScheduledRepack = (\<lambda>a. onPart get put (fsRunScheduledRepack fs a)),
     fsResolvePath = (\<lambda>a b. onPart get put (fsResolvePath fs a b)), fsStat = (\<lambda>a. onPart get put (fsStat fs a)),
     fsLstat = (\<lambda>a. onPart get put (fsLstat fs a)), fsSymlink = (\<lambda>a b c. onPart get put (fsSymlink fs a b c)),
     fsReadlink = (\<lambda>a. onPart get put (fsReadlink fs a)), fsReaddir = (\<lambda>a. onPart get put (fsReaddir fs a)),
     fsMkdir = (\<lambda>a b c d. onPart get put (fsMkdir fs a b c d)),
     fsWriteFile = (\<lambda>a b c. onPart get put (fsWriteFile fs a b c)),
     fsReadFile = (\<lambda>a. onPart get put (fsReadFile fs a)), fsTruncate = (\<lambda>a b c. onPart get put (fsTruncate fs a b c)),
     fsOpen = (\<lambda>a b c d. onPart get put (fsOpen fs a b c d)), fsFstat = (\<lambda>a. onPart get put (fsFstat fs a)),
     fsRead = (\<lambda>a b c d e. onPart get put (fsRead fs a b c d e)),
     fsWrite = (\<lambda>a b c d e f. onPart get put (fsWrite fs a b c d e f)),
     fsChmod = (\<lambda>a b c. onPart get put (fsChmod fs a b c)), fsUtimes = (\<lambda>a b c d. onPart get put (fsUtimes fs a b c d)),
     fsUnlink = (\<lambda>a b. onPart get put (fsUnlink fs a b)), fsRmdir = (\<lambda>a b. onPart get put (fsRmdir fs a b)),
     fsRename = (\<lambda>a b c. onPart get put (fsRename fs a b c)), fsClose = onPart get put (fsClose fs),
     fsCloseFd = (\<lambda>a. onPart get put (fsCloseFd fs a))\<rparr>"

lemma part_answers:
  assumes "answering_store fs answers" and "\<And>x. put (get x) x = x"
  shows "answering_store (partFileSystem get put fs) (answers \<circ> get)"
  using answering_store.resolves [OF assms(1)] answering_store.lstats [OF assms(1)] answering_store.readlinks [OF assms(1)] assms(2)
  by unfold_locales (simp_all add: partFileSystem_def onPart_def)

type_synonym demo_world = "(MemoryPort \<times> MemoryHandle RepackedVfs) \<times> (MemoryPort \<times> MemoryHandle RepackedVfs)"

abbreviation demoFileSystem :: "(MemoryPort \<times> MemoryHandle RepackedVfs) file_system" where
  "demoFileSystem \<equiv> engineFileSystem (memoryOps (\<lambda>_ _. 0)) \<lparr>dateNow = ioret 0, performanceNow = ioret 0\<rparr>"

definition demoRoot :: "demo_world file_system" where
  "demoRoot = partFileSystem fst (\<lambda>w x. (w, snd x)) demoFileSystem"

definition demoScratch :: "demo_world file_system" where
  "demoScratch = partFileSystem snd (\<lambda>w x. (fst x, w)) demoFileSystem"

abbreviation path_s :: js_string where "path_s \<equiv> [slash, 115]"
abbreviation path_sa :: js_string where "path_sa \<equiv> [slash, 115, slash, 97]"

definition demoMounted :: "demo_world MountedVfs" where
  "demoMounted = \<lparr>mvRoot = demoRoot, mvMounts = [\<lparr>rmPrefix = path_s, rmBoundary = path_s @ [slash],
     rmVfs = demoScratch, rmDurable = False\<rparr>], mvDescriptors = [], mvNextDescriptor = 3\<rparr>"

definition demoStore :: "VfsState \<Rightarrow> MemoryPort \<times> MemoryHandle RepackedVfs" where
  "demoStore st = (newMemoryPort, newRepackedVfs \<lparr>storeHandles = (\<lambda>name. \<lparr>handleName = name, handleEpoch = 1,
     handleClosed = False\<rparr>), storeState = st, activeLogEnd = 0, nextSequence = 1, activeLogBytes = 0,
     activeLogFrames = 0, activationSequence = 1, arenaHighWaterExtents = 0, arenaSize = 8192, arenaDirty = False,
     activeMetadataDirty = False\<rparr> 0)"

text \<open>
  The root has a directory \<open>/a\<close> and the placeholder \<open>/s\<close>; the store mounted there has a link \<open>/s/a\<close> to
  \<open>/a\<close>.
\<close>

definition demoRootState :: VfsState where "demoRootState = after demo1 (planMkdir demo1 path_s True None 5)"

definition demoScratchState :: VfsState where "demoScratchState = after demo0 (planSymlink demo0 path_a path_a None 5)"

definition demoWorld :: demo_world where "demoWorld = (demoStore demoRootState, demoStore demoScratchState)"

lemma demo_stores:
  "vfs_inv demoRootState" "vfs_inv demoScratchState"
  "answering demoRoot demoWorld demoRootState" "answering demoScratch demoWorld demoScratchState"
proof -
  have steps: "applyTxn demo1 (CreateDirectories (mkChain 16895 5 1 3 [[115]])) None = (None, demoRootState)"
    "applyTxn demo0 (CreateSymlink \<lparr>choiceParentId = 1, choiceName = [97], choiceInodeId = 2, choiceMode = SYMLINK_MODE,
      choiceAtimeMs = 5, choiceMtimeMs = 5, choiceCtimeMs = 5\<rparr> path_a) None = (None, demoScratchState)"
    by code_simp+
  show inv: "vfs_inv demoRootState" "vfs_inv demoScratchState"
    using applyTxn_inv [OF demo_inv(2) steps(1)] applyTxn_inv [OF demo_inv(1) steps(2)] by simp_all
  have state: "checkOpen (snd (demoStore st)) = Inr ()" "vfsState (snd (demoStore st)) = st" for st
    by (simp_all add: demoStore_def newRepackedVfs_def checkOpen_def)
  show "answering demoRoot demoWorld demoRootState" "answering demoScratch demoWorld demoScratchState"
    unfolding answering_def demoRoot_def demoScratch_def
    using inv state by (auto simp: demoWorld_def intro!: exI conjI part_answers [OF engine_answers])
qed

lemma demo_composed: "composed demoMounted [[[115]]] demoWorld demoRootState [demoScratchState]"
proof -
  have "path_ok [[115]]" by code_simp
  then have "mounts_at (mvMounts demoMounted) [[[115]]]"
    by (simp add: mounts_at_def mount_at_def demoMounted_def render_path_def)
  moreover have "link_free demoRootState True []" by (simp add: link_free_def)
  ultimately show ?thesis using demo_stores by (simp add: composed_def) (simp add: demoMounted_def)
qed

theorem mounted_fast_path_agrees_with_walk_witness: "fst (mountedWalk demoMounted path_a True demoWorld) = Inr path_a"
proof -
  have "fst (mountedResolvePath demoMounted path_a True demoWorld) = Inr path_a" by code_simp
  then obtain w' where "mountedResolvePath demoMounted path_a True demoWorld = (Inr path_a, w')"
    by (metis prod.collapse)
  from mounted_fast_path_agrees_with_walk [OF demo_composed this] show ?thesis by simp
qed


theorem mounted_route_unique_witness:
  "\<exists>(mv :: demo_world MountedVfs) route. mountedRoute path_sa mv = Inr route \<and> routeMount route = Some 0 \<and> routePath route = path_a"
proof -
  let ?mount = "\<lparr>mountPrefix = path_s, mountVfs = demoScratch, mountDurable = Some False\<rparr>"
  have "case fst (newMountedVfs demoRoot [?mount] 7 demoWorld) of Inr _ \<Rightarrow> True | Inl _ \<Rightarrow> False" by code_simp
  then obtain mv w' where new: "newMountedVfs demoRoot [?mount] 7 demoWorld = (Inr mv, w')"
    by (metis (no_types, lifting) prod.collapse sum.case_eq_if sum.collapse(2))
  obtain pss where pss: "length pss = 1" "path_s = render_path (pss ! 0)"
    "\<And>path cs. parsePath path = Inr cs \<Longrightarrow> \<exists>route. mountedRoute path mv = Inr route \<and> (case routeMount route of
        None \<Rightarrow> \<forall>ps \<in> set pss. \<not> prefix ps cs
      | Some i \<Rightarrow> i < length pss \<and> (\<exists>rest. cs = pss ! i @ rest \<and> parsePath (routePath route) = Inr rest))"
    using mounted_route_unique [OF new] by (force split: option.splits)
  have "joinWith slash xs = [115] \<Longrightarrow> xs = [[115]]" for xs :: "js_string list"
    by (cases "(slash, xs)" rule: joinWith.cases) (auto simp: append_eq_Cons_conv)
  then have at: "pss ! 0 = [[115]]" using pss(2) by (simp add: render_path_def)
  then have among: "[[115]] \<in> set pss" using pss(1) by (metis less_numeral_extra(1) nth_mem)
  have "parsePath path_sa = Inr [[115], [97]]" by code_simp
  from pss(3) [OF this] obtain route where route: "mountedRoute path_sa mv = Inr route" "case routeMount route of
      None \<Rightarrow> \<forall>ps \<in> set pss. \<not> prefix ps [[115], [97]]
    | Some i \<Rightarrow> i < length pss \<and> (\<exists>rest. [[115], [97]] = pss ! i @ rest \<and> parsePath (routePath route) = Inr rest)"
    by blast
  have "prefix [[115]] [[115], [97 :: code_unit]]" by (simp add: prefix_def)
  then obtain i where "routeMount route = Some i" using route(2) among by (cases "routeMount route") auto
  with route(2) pss(1) at have "routeMount route = Some 0" "parsePath (routePath route) = Inr [[97]]" by auto
  then have "routePath route = path_a" by (simp add: parsePath_Inr render_path_def)
  with route(1) \<open>routeMount route = Some 0\<close> show ?thesis by blast
qed

end
