(* ===== verification/Spec2Isabelle.thy ===== *)
theory Spec2Isabelle
  imports VfsProperties VfsOperations VfsLifecycle ResolveLinks CoreProperties CodecProperties
    StoreProperties ByteOrderMark EngineProperties SessionProperties WriteLimits MountedProperties
begin

text \<open>
  This library models the OPFS store of pgwasm, the TypeScript sources under
  \<open>src/packages/pgwasm/src/opfs/core/\<close>: a file system in four files of the browser's private file system,
  on which a database engine keeps its data. It covers every source file of that directory.

  The program. A store owns the files \<open>activation.bin\<close>, \<open>arena.bin\<close>, \<open>metadata-a.bin\<close> and \<open>metadata-b.bin\<close>
  (\<open>port.ts\<close>). The arena holds file data in extents of equal size. A metadata file holds a base, the
  canonical encoding of the whole namespace, and behind it a log of transaction frames (\<open>codec.ts\<close>). Two
  activation slots name the metadata file that counts; the newer valid one is selected. The state machine
  (\<open>state-machine.ts\<close>) is pure: planners turn a request into a transaction record, \<open>applyTxn\<close> checks a
  record and applies it, a repack projects the state that a new base will hold. \<open>openMetadataStore\<close>
  (\<open>metadata-store.ts\<close>) creates a store or recovers one, by decoding the selected base and replaying the
  log behind it up to the first frame that is torn, foreign or refused. The engine (\<open>repacked-vfs.ts\<close>) is the
  open store: it resolves paths, plans, commits frames, reads and writes file data through descriptors,
  syncs, and repacks into the metadata file not in use. Several stores can be mounted into one tree
  (\<open>mounted-vfs.ts\<close>), which routes every path by its prefix. The in-memory port (\<open>memory-port.ts\<close>) is the host
  against which all of this runs in the model: it tracks for every file what is durable and what a crash may
  lose.

  The model, theory by theory.
    \<^item> \<open>Prelude\<close>: results as \<open>error + value\<close>, iteration combinators, association lists for \<open>Map\<close>.
    \<^item> \<open>Limits\<close> (\<open>limits.ts\<close>, \<open>errors.ts\<close>), \<open>Checksum\<close> (\<open>checksum.ts\<close>), \<open>Utf8\<close> and \<open>Path\<close> (\<open>path.ts\<close>; a
      JavaScript string is the list of its UTF-16 code units).
    \<^item> \<open>ExtentSet\<close>, \<open>ExtentRuns\<close>, \<open>VfsState\<close>, \<open>Txn\<close>, \<open>Planner\<close>, \<open>ResolveLinks\<close>, \<open>Repack\<close>: \<open>state-machine.ts\<close>. The
      record \<open>VfsState\<close> has the fields of the interface; the inode table is an association list in insertion
      order, as a JavaScript \<open>Map\<close> is.
    \<^item> \<open>Namespace\<close>, \<open>Invariant\<close>, \<open>Updates\<close>, \<open>Reducers\<close>, \<open>Effects\<close>, \<open>RenameEffect\<close>, \<open>TxnProofs\<close>, \<open>Allocation\<close>,
      \<open>Plans\<close>, \<open>PlansTree\<close>, \<open>RepackProofs\<close>, \<open>Retention\<close>, \<open>SameState\<close>, \<open>ValidateProofs\<close>, \<open>Steps\<close>: the abstract
      specification of the directory tree, the invariant, and that every reducer, planner and repack keeps it.
      \<open>VfsProperties\<close>, \<open>VfsOperations\<close> and \<open>VfsLifecycle\<close> hold the properties of this part, \<open>Scenario\<close> a short
      run at which they are instantiated.
    \<^item> \<open>Binary\<close>, \<open>Blocks\<close>, \<open>Canonical\<close>, \<open>TxnCodec\<close>, \<open>Frame\<close>, \<open>Slots\<close>, \<open>MetadataBase\<close>: \<open>codec.ts\<close>, with the round
      trips in \<open>BaseCodec\<close>, \<open>BaseRoundtrip\<close> and \<open>CodecProperties\<close>. \<open>Binary\<close> states the contract of a field (what
      the writer emits, the reader reads back) as a locale and interprets it for every kind of field.
    \<^item> \<open>Port\<close> (\<open>port.ts\<close>): computations over the world of a host, and the loops that complete partial reads and writes, under a locale for the platform's
      handle. \<open>MemoryPort\<close> and \<open>MemoryDurability\<close>: \<open>memory-port.ts\<close> and its invariant.
    \<^item> \<open>MetadataStore\<close>: \<open>metadata-store.ts\<close> over a record of host operations. \<open>StoreHost\<close> states the
      contract the store expects of its host as the locale \<open>store_host\<close>; \<open>StoreRecovery\<close>, \<open>StoreOpen\<close> and
      \<open>StoreBootstrap\<close> prove opening inside it; \<open>MemoryHost\<close> interprets it with the in-memory port;
      \<open>StoreProperties\<close> holds the properties. \<open>PlannedRecords\<close> shows that the record of every plan fits the
      format, but for names that start with a byte order mark; \<open>ByteOrderMark\<close> is about those, a defect.
    \<^item> \<open>Engine\<close>, \<open>EngineArena\<close>, \<open>EngineCommit\<close>, \<open>EngineRepack\<close>, \<open>EnginePaths\<close>, \<open>EngineFiles\<close>, \<open>EngineWrite\<close>:
      \<open>repacked-vfs.ts\<close>, every method of the class \<open>RepackedVfs\<close>. A method is a computation over the world of the
      host and the record \<open>RepackedVfs\<close> of the private fields; a thrown error is a result, and the fields keep
      what was assigned before it. \<open>EngineFailStop\<close> and \<open>EngineProperties\<close> hold on every host,
      \<open>WriteLimits\<close> is about the bisection of refused writes.
    \<^item> The engine on a host that keeps the contract, inside \<open>store_host\<close>: \<open>EngineRuns\<close>, \<open>EngineDurability\<close>
      and \<open>EngineResizes\<close> follow commits and syncs to the bytes of the files, a resize whose record
      is held back and later merged or written out included. \<open>FileContents\<close> says which bytes of the arena a file
      consists of; with it \<open>ArenaWrites\<close> and \<open>ArenaPrepare\<close> show that the extent loops
      read, patch and zero exactly these. \<open>EngineData\<close>, \<open>EngineGrowth\<close> and \<open>DescriptorWrites\<close> put them
      together to reads and writes through descriptors; \<open>EngineKeeps\<close> shows that every operation leaves files and engine in agreement. \<open>EngineSessions\<close> defines the
      sessions on the in-memory port, \<open>DemoSession\<close> is one, \<open>SessionProperties\<close> holds the properties.
    \<^item> \<open>MountedVfs\<close>: \<open>mounted-vfs.ts\<close>, over a record of the operations of a store. \<open>MountedProperties\<close> states
      what the composite relies on as the locale \<open>answering_store\<close>, interprets it with the engine, and holds
      the properties of routing and resolution and the defect found there, both for composites without a link
      above a mount.

  What is shown. The state machine keeps its invariant, planned records always apply, refused ones change
  nothing, extents that a metadata file may still name are never handed out; creating, unlinking, renaming
  and resizing change exactly the paths and extents they name. Every block of the format round-trips and damage is noticed. Opening a
  store recovers exactly the committed frames, a torn append is atomic, a strict sync is durable. The engine
  never applies a record in part: a failed operation on the tree leaves the store as it was or poisons it for
  good (\<open>writeFile\<close> and \<open>truncate\<close> are sequences of commits, and may stop between two of them). On a host
  without faults, files are byte lists: a read returns the contents, a write patches them and nothing else,
  and both survive a sync and a crash. These sessions have opening and closing of files, reads, operations on
  the tree, strict syncs, and writes on descriptors of files that still have a path; truncation, writes to
  unlinked files and repacks of the engine are modelled, but not part of them.

  Bounds. Recursions over the tree take the number of inodes plus one as fuel, and over a renamed subtree
  \<open>MAX_PATH_DEPTH\<close> plus two; the theories of the planners and the validator prove that this is never used
  up on a valid state. The replay ends by the limit on frames, every loop of the engine by a measure.

  Assumptions. The contract \<open>store_host\<close> takes writes to be whole, as the in-memory port's are; \<open>Port\<close> covers
  partial ones, and the fail-stop properties hold for arbitrary hosts. A crash loses, keeps or truncates every
  pending effect of a file independently, in order. The clock gives whole milliseconds.

  Not modelled. The ports on the real OPFS, the broker,
  the WASI host and everything else of the repository: they are platform glue, or clients of this store.
  Messages and causes of errors are not kept apart where the code does not inspect them. The buffer of a read
  that throws is unspecified. \<open>canonicalStateView\<close>, a view for tests, is left out.
\<close>

end
